(* ===== verification/Prelude.thy ===== *)
theory Prelude
  imports Main "HOL-Library.Word" "HOL-Library.Sublist" "HOL-Library.List_Lexorder"
begin

text \<open>
  Shared vocabulary of the development: bytes and byte strings, the fixed-width integers of
  the C++ code, the collections of rewrite rules the components fill, and generic lemmas on
  lists and words.

  A C++ \<^verbatim>\<open>char\<close> buffer or \<^verbatim>\<open>std::string\<close> is a list of 8-bit words. Reading a list beyond
  its end with \<open>!\<close> is unspecified in HOL, as reading a buffer beyond its end is
  undefined in C++; every theorem states the length it needs.
\<close>

unbundle bit_operations_syntax

type_synonym byte = "8 word"
type_synonym bytes = "byte list"
type_synonym u8 = "8 word"
type_synonym u16 = "16 word"
type_synonym u32 = "32 word"
type_synonym u64 = "64 word"

text \<open>
  \<open>codec\<close> collects the round trips of the encoders, \<open>valid\<close> the facts that operations
  keep a component's invariant, \<open>status_simps\<close> the facts about the status constructors.
\<close>

named_theorems codec
named_theorems valid
named_theorems status_simps

text \<open>The bytes of a string literal of the source.\<close>

definition str :: "string \<Rightarrow> bytes" where
  "str s = map of_char s"

section \<open>Lists\<close>

lemma list_split_at:
  assumes "n \<le> length xs"
  obtains ys zs where "xs = ys @ zs" and "length ys = n"
  using assms by (metis append_take_drop_id length_take min.absorb2)

lemma nth_take_drop: "n + i < length xs \<Longrightarrow> drop n xs ! i = xs ! (n + i)"
  by simp

lemma map_nth_upt_take: "n \<le> length xs \<Longrightarrow> map ((!) xs) [0..<n] = take n xs"
  by (rule nth_equalityI) auto

section \<open>Words and their little-endian bytes\<close>

lemma bit_255 [simp]: "bit (255 :: 'a::len word) n \<longleftrightarrow> n < 8 \<and> n < LENGTH('a)"
proof -
  have eq: "(255 :: 'a word) = mask 8"
    by (simp add: mask_eq_exp_minus_1)
  show ?thesis
    unfolding eq by (auto simp only: bit_mask_iff possible_bit_word)
qed

lemma ucast_and_255 [simp]: "(ucast ((v :: 'a::len word) AND 255) :: byte) = ucast v"
proof (rule bit_word_eqI)
  fix n assume "n < LENGTH(8)"
  then have n: "n < 8" by simp
  have "bit v n \<Longrightarrow> n < LENGTH('a)" by (rule bit_imp_le_length)
  with n show "bit (ucast (v AND 255) :: byte) n \<longleftrightarrow> bit (ucast v :: byte) n"
    by (auto simp only: bit_ucast_iff bit_and_iff bit_255)
qed

lemma unat_byte_lt: "unat (b :: byte) < 256"
  using unsigned_less [of b] by simp

text \<open>The bytes of a word, least significant first, and the word of such bytes.\<close>

definition le_bytes :: "nat \<Rightarrow> 'a::len word \<Rightarrow> bytes" where
  "le_bytes n v = map (\<lambda>i. ucast (drop_bit (8 * i) v)) [0..<n]"

primrec of_le_bytes :: "bytes \<Rightarrow> 'a::len word" where
  "of_le_bytes [] = 0"
| "of_le_bytes (b # bs) = ucast b OR push_bit 8 (of_le_bytes bs)"

lemma length_le_bytes [simp]: "length (le_bytes n v) = n"
  by (simp add: le_bytes_def)

lemma nth_le_bytes [simp]: "i < n \<Longrightarrow> le_bytes n v ! i = ucast (drop_bit (8 * i) v)"
  by (simp add: le_bytes_def)

lemma bit_of_le_bytes:
  "bit (of_le_bytes bs :: 'a::len word) n \<longleftrightarrow>
     n < LENGTH('a) \<and> n div 8 < length bs \<and> bit (bs ! (n div 8)) (n mod 8)"
proof (induction bs arbitrary: n)
  case Nil
  then show ?case by simp
next
  case (Cons b bs)
  show ?case
  proof (cases "n < 8")
    case True
    then show ?thesis by (auto simp: bit_simps)
  next
    case False
    then have "n div 8 = Suc ((n - 8) div 8)" and "n mod 8 = (n - 8) mod 8"
      by (simp_all add: le_div_geq le_mod_geq)
    moreover have "\<not> bit b n"
      using False by (auto dest: bit_imp_le_length)
    ultimately show ?thesis
      using False by (auto simp: bit_simps Cons.IH)
  qed
qed

lemma of_le_bytes_le_bytes [codec]:
  assumes "LENGTH('a) \<le> 8 * n"
  shows "of_le_bytes (le_bytes n (v :: 'a::len word)) = v"
proof (rule bit_word_eqI)
  fix i assume "i < LENGTH('a)"
  moreover from this assms have "i div 8 < n" by (simp add: less_mult_imp_div_less)
  moreover have "8 * (i div 8) + i mod 8 = i" by simp
  ultimately show "bit (of_le_bytes (le_bytes n v) :: 'a word) i \<longleftrightarrow> bit v i"
    by (simp add: bit_of_le_bytes bit_simps)
qed

lemma le_bytes_of_le_bytes [codec]:
  assumes "8 * length bs \<le> LENGTH('a)"
  shows "le_bytes (length bs) (of_le_bytes bs :: 'a::len word) = bs"
proof (rule nth_equalityI)
  fix i assume "i < length (le_bytes (length bs) (of_le_bytes bs :: 'a word))"
  then have i: "i < length bs" by simp
  show "le_bytes (length bs) (of_le_bytes bs :: 'a word) ! i = bs ! i"
  proof (rule bit_word_eqI)
    fix k assume k: "k < LENGTH(8)"
    from i k assms have "8 * i + k < LENGTH('a)" by simp
    moreover from k have "(8 * i + k) div 8 = i" and "(8 * i + k) mod 8 = k" by simp_all
    ultimately show "bit (le_bytes (length bs) (of_le_bytes bs :: 'a word) ! i) k \<longleftrightarrow> bit (bs ! i) k"
      using i k by (simp add: bit_of_le_bytes bit_simps)
  qed
qed simp

lemma le_bytes_inj:
  fixes v w :: "'a::len word"
  assumes "LENGTH('a) \<le> 8 * n" and "le_bytes n v = le_bytes n w"
  shows "v = w"
  by (metis assms of_le_bytes_le_bytes)

section \<open>Writing into a buffer\<close>

text \<open>
  \<^verbatim>\<open>memcpy\<close> of \<open>d\<close> to the offset \<open>off\<close> of a buffer that has room for it, and
  \<^verbatim>\<open>std::string::resize\<close>, which cuts or pads with zero bytes.
\<close>

definition poke :: "bytes \<Rightarrow> nat \<Rightarrow> bytes \<Rightarrow> bytes" where
  "poke mem off d = take off mem @ d @ drop (off + length d) mem"

definition resize :: "nat \<Rightarrow> bytes \<Rightarrow> bytes" where
  "resize n s = take n s @ replicate (n - length s) 0"

lemma resize_shrink: "n \<le> length s \<Longrightarrow> resize n s = take n s"
  by (simp add: resize_def)

lemma length_resize [simp]: "length (resize n s) = n"
  by (simp add: resize_def)

lemma length_poke [simp]: "off + length d \<le> length m \<Longrightarrow> length (poke m off d) = length m"
  by (simp add: poke_def)

lemma take_poke: "off + length d \<le> length m \<Longrightarrow> take (off + length d) (poke m off d) = take off m @ d"
  by (simp add: poke_def)

lemma take_poke_0: "length d \<le> length m \<Longrightarrow> take (length d) (poke m 0 d) = d"
  by (simp add: poke_def)

end
