(* ===== verification/Slice.thy ===== *)
theory Slice
  imports Prelude
begin

text \<open>
  The byte-string view of RocksDB: \<^verbatim>\<open>Slice\<close> (include/rocksdb/slice.h, util/slice.cc) and the
  prefix transforms of util/slice.cc. A slice is the list of bytes it refers to.

  The lemmas show that \<^verbatim>\<open>Slice::compare\<close> is the lexicographic order of the unsigned bytes,
  that the prefix and suffix tests are the list ones, that the hex printer and parser are
  inverse, and that a prefix transform that answers \<^verbatim>\<open>SameResultWhenAppended\<close> keeps its
  promise.
\<close>

section \<open>Comparison\<close>

text \<open>
  \<^verbatim>\<open>memcmp\<close> of the C library on the first \<open>n\<close> bytes, read as unsigned. C fixes only the
  sign of the result; the model returns the sign. Running past either buffer is unspecified.
\<close>

fun memcmp :: "nat \<Rightarrow> bytes \<Rightarrow> bytes \<Rightarrow> int" where
  "memcmp 0 _ _ = 0"
| "memcmp (Suc n) (x # xs) (y # ys) =
     (if x < y then -1 else if y < x then 1 else memcmp n xs ys)"
| "memcmp (Suc n) _ _ = undefined"

definition slice_compare :: "bytes \<Rightarrow> bytes \<Rightarrow> int" where
  "slice_compare a b =
     (let min_len = (if length a < length b then length a else length b);
          r = memcmp min_len a b
      in if r = 0
         then (if length a < length b then -1 else if length a > length b then 1 else r)
         else r)"

definition slice_eq :: "bytes \<Rightarrow> bytes \<Rightarrow> bool" where
  "slice_eq x y \<longleftrightarrow> length x = length y \<and> memcmp (length x) x y = 0"

definition slice_neq :: "bytes \<Rightarrow> bytes \<Rightarrow> bool" where
  "slice_neq x y \<longleftrightarrow> \<not> slice_eq x y"

definition starts_with :: "bytes \<Rightarrow> bytes \<Rightarrow> bool" where
  "starts_with a x \<longleftrightarrow> length a \<ge> length x \<and> memcmp (length x) a x = 0"

definition ends_with :: "bytes \<Rightarrow> bytes \<Rightarrow> bool" where
  "ends_with a x \<longleftrightarrow>
     length a \<ge> length x \<and> memcmp (length x) (drop (length a - length x) a) x = 0"

text \<open>The loop of \<^verbatim>\<open>Slice::difference_offset\<close>: the first offset at which the bytes differ.\<close>

function difference_loop :: "nat \<Rightarrow> nat \<Rightarrow> bytes \<Rightarrow> bytes \<Rightarrow> nat" where
  "difference_loop off len a b =
     (if off < len \<and> a ! off = b ! off then difference_loop (Suc off) len a b else off)"
  by pat_completeness auto
termination
  by (relation "measure (\<lambda>(off, len, a, b). len - off)") auto

declare difference_loop.simps [simp del]

definition difference_offset :: "bytes \<Rightarrow> bytes \<Rightarrow> nat" where
  "difference_offset a b =
     (let len = (if length a < length b then length a else length b)
      in difference_loop 0 len a b)"

definition remove_prefix :: "bytes \<Rightarrow> nat \<Rightarrow> bytes" where
  "remove_prefix s n = drop n s"

definition remove_suffix :: "bytes \<Rightarrow> nat \<Rightarrow> bytes" where
  "remove_suffix s n = take (length s - n) s"

text \<open>
  The constructor from \<^verbatim>\<open>SliceParts\<close> appends the parts to \<^verbatim>\<open>*buf\<close> and refers to the whole of
  \<^verbatim>\<open>*buf\<close>: bytes the buffer held before come first.
\<close>

definition slice_of_parts :: "bytes list \<Rightarrow> bytes \<Rightarrow> bytes" where
  "slice_of_parts parts buf = fold (\<lambda>part b. b @ part) parts buf"

section \<open>Hexadecimal text\<close>

text \<open>
  \<^verbatim>\<open>fromHex\<close> takes a \<^verbatim>\<open>char\<close>: where it is signed, a byte of 128 or more is negative and fails
  the test against the character 0; where it is unsigned the same byte fails the test
  against F. Both give -1, which is what the unsigned reading below computes.
\<close>

definition toHex :: "byte \<Rightarrow> byte" where
  "toHex v = (if v \<le> 9 then 48 + v else 65 + v - 10)"

definition fromHex :: "byte \<Rightarrow> int" where
  "fromHex ch =
     (let c = (if 97 \<le> ch \<and> ch \<le> 102 then ch - 32 else ch)
      in if c < 48 \<or> c > 57 \<and> (c < 65 \<or> c > 70) then -1
         else if c \<le> 57 then uint (c - 48)
         else uint (c - 65) + 10)"

definition ToString :: "bool \<Rightarrow> bytes \<Rightarrow> bytes" where
  "ToString hex s =
     (if hex then concat (map (\<lambda>c. [toHex (drop_bit 4 c), toHex (c AND 0xf)]) s) else s)"

text \<open>The digit loop, two characters a turn; \<open>None\<close> is the result \<^verbatim>\<open>false\<close>.\<close>

fun decode_hex_loop :: "bytes \<Rightarrow> bytes option" where
  "decode_hex_loop (c1 # c2 # cs) =
     (let h1 = fromHex c1 in if h1 < 0 then None else
      let h2 = fromHex c2 in if h2 < 0 then None else
      map_option (\<lambda>r. (push_bit 4 (word_of_int h1) OR word_of_int h2) # r) (decode_hex_loop cs))"
| "decode_hex_loop _ = Some []"

definition DecodeHex :: "bool \<Rightarrow> bytes \<Rightarrow> bytes option" where
  "DecodeHex have_result s =
     (if length s mod 2 \<noteq> 0 then None
      else if \<not> have_result then None
      else decode_hex_loop s)"

section \<open>Prefix transforms\<close>

datatype slice_transform = FixedPrefixTransform nat | CappedPrefixTransform nat | NoopTransform

fun Transform :: "slice_transform \<Rightarrow> bytes \<Rightarrow> bytes" where
  "Transform (FixedPrefixTransform n) src = take n src"
| "Transform (CappedPrefixTransform n) src = take (min n (length src)) src"
| "Transform NoopTransform src = src"

fun InDomain :: "slice_transform \<Rightarrow> bytes \<Rightarrow> bool" where
  "InDomain (FixedPrefixTransform n) src \<longleftrightarrow> length src \<ge> n"
| "InDomain (CappedPrefixTransform n) src \<longleftrightarrow> True"
| "InDomain NoopTransform src \<longleftrightarrow> True"

fun InRange :: "slice_transform \<Rightarrow> bytes \<Rightarrow> bool" where
  "InRange (FixedPrefixTransform n) dst \<longleftrightarrow> length dst = n"
| "InRange (CappedPrefixTransform n) dst \<longleftrightarrow> length dst \<le> n"
| "InRange NoopTransform dst \<longleftrightarrow> True"

fun FullLengthEnabled :: "slice_transform \<Rightarrow> nat option" where
  "FullLengthEnabled (FixedPrefixTransform n) = Some n"
| "FullLengthEnabled (CappedPrefixTransform n) = Some n"
| "FullLengthEnabled NoopTransform = None"

fun SameResultWhenAppended :: "slice_transform \<Rightarrow> bytes \<Rightarrow> bool" where
  "SameResultWhenAppended (FixedPrefixTransform n) p = InDomain (FixedPrefixTransform n) p"
| "SameResultWhenAppended (CappedPrefixTransform n) p \<longleftrightarrow> length p \<ge> n"
| "SameResultWhenAppended NoopTransform p \<longleftrightarrow> False"

section \<open>Lemmas: comparison\<close>

lemma slice_compare_simps [simp]:
  "slice_compare [] [] = 0"
  "slice_compare [] (y # ys) = -1"
  "slice_compare (x # xs) [] = 1"
  "slice_compare (x # xs) (y # ys) =
     (if x < y then -1 else if y < x then 1 else slice_compare xs ys)"
  by (simp_all add: slice_compare_def Let_def)

lemma slice_compare_lex:
  "slice_compare a b = (if a < b then -1 else if a = b then 0 else 1)"
proof (induction a arbitrary: b)
  case Nil
  then show ?case by (cases b) auto
next
  case (Cons x xs)
  then show ?case by (cases b) auto
qed

lemma slice_compare_less [simp]: "slice_compare a b < 0 \<longleftrightarrow> a < b"
  by (simp add: slice_compare_lex)

lemma slice_compare_zero [simp]: "slice_compare a b = 0 \<longleftrightarrow> a = b"
  by (auto simp: slice_compare_lex)

lemma slice_compare_greater [simp]: "0 < slice_compare a b \<longleftrightarrow> b < a"
  by (auto simp: slice_compare_lex)

lemma slice_compare_le [simp]: "slice_compare a b \<le> 0 \<longleftrightarrow> a \<le> b"
  by (auto simp: slice_compare_lex)

lemma slice_compare_ge [simp]: "0 \<le> slice_compare a b \<longleftrightarrow> b \<le> a"
  by (auto simp: slice_compare_lex)

lemma memcmp_zero: "n \<le> length a \<Longrightarrow> n \<le> length b \<Longrightarrow> memcmp n a b = 0 \<longleftrightarrow> take n a = take n b"
  by (induction n a b rule: memcmp.induct) auto

lemma slice_eq_iff [simp]: "slice_eq x y \<longleftrightarrow> x = y"
  by (auto simp: slice_eq_def memcmp_zero)

lemma slice_neq_iff [simp]: "slice_neq x y \<longleftrightarrow> x \<noteq> y"
  by (simp add: slice_neq_def)

lemma starts_with_prefix: "starts_with a x \<longleftrightarrow> prefix x a"
  by (auto simp: starts_with_def memcmp_zero prefix_def)
    (metis append_take_drop_id)

lemma ends_with_suffix: "ends_with a x \<longleftrightarrow> suffix x a"
  by (auto simp: ends_with_def memcmp_zero suffix_def)
    (metis append_take_drop_id)

lemma difference_loop_lcp:
  assumes "off \<le> len" and "len = min (length a) (length b)"
  shows "difference_loop off len a b =
     off + length (longest_common_prefix (drop off a) (drop off b))"
  using assms
proof (induction off len a b rule: difference_loop.induct)
  case (1 off len a b)
  show ?case
  proof (cases "off < len")
    case True
    then have "drop off a = a ! off # drop (Suc off) a" "drop off b = b ! off # drop (Suc off) b"
      using "1.prems" by (auto simp: Cons_nth_drop_Suc)
    then show ?thesis
      using 1 True by (subst difference_loop.simps) auto
  next
    case False
    then have "drop off a = [] \<or> drop off b = []" using "1.prems" by auto
    then have "length (longest_common_prefix (drop off a) (drop off b)) = 0"
      by (cases "drop off a"; cases "drop off b") auto
    then show ?thesis using False by (subst difference_loop.simps) simp
  qed
qed

lemma difference_offset_lcp: "difference_offset a b = length (longest_common_prefix a b)"
proof -
  have "(if length a < length b then length a else length b) = min (length a) (length b)"
    by simp
  then show ?thesis
    using difference_loop_lcp [of 0 "min (length a) (length b)" a b]
    by (simp only: difference_offset_def Let_def) simp
qed

lemma slice_of_parts_concat [simp]: "slice_of_parts parts buf = buf @ concat parts"
  by (induction parts arbitrary: buf) (simp_all add: slice_of_parts_def)

section \<open>Lemmas: hexadecimal text\<close>

lemma nibble_cases:
  "(v :: byte) < 16 \<Longrightarrow>
     v \<in> {0, 1, 2, 3, 4, 5, 6, 7, 8, 9, 10, 11, 12, 13, 14, 15}"
proof -
  assume "v < 16"
  then have "unat v < 16" by (simp add: word_less_nat_alt)
  then have "unat v \<in> {0..<16}" by simp
  moreover have "v = word_of_nat (unat v)" by simp
  ultimately have "v \<in> word_of_nat ` {0..<16}" by (rule rev_image_eqI)
  also have "({0..<16} :: nat set) = {0, 1, 2, 3, 4, 5, 6, 7, 8, 9, 10, 11, 12, 13, 14, 15}"
    by (auto simp: numeral_eq_Suc less_Suc_eq)
  finally show ?thesis by simp
qed

lemma fromHex_toHex: "v < 16 \<Longrightarrow> fromHex (toHex v) = uint v"
  by (drule nibble_cases) (auto simp: toHex_def fromHex_def)

lemma high_nibble: "drop_bit 4 (c :: byte) < 16"
proof -
  have "unat (drop_bit 4 c) = drop_bit 4 (unat c)" by (rule unat_drop_bit_eq)
  also have "\<dots> = unat c div 16" by (simp add: drop_bit_eq_div)
  also have "\<dots> < 16" using unat_byte_lt [of c] by simp
  finally show ?thesis by (simp only: word_less_nat_alt) simp
qed

lemma low_nibble: "(c :: byte) AND 0xf < 16"
proof -
  have "c AND 0xf \<le> 0xf" by (rule word_and_le1)
  then show ?thesis by (rule order_le_less_trans) simp
qed

lemma nibbles_join: "push_bit 4 (drop_bit 4 (c :: byte)) OR (c AND 0xf) = c"
proof -
  have eq: "c AND 0xf = take_bit 4 c"
    by (simp add: take_bit_eq_mask mask_eq_exp_minus_1)
  show ?thesis
    unfolding eq by (rule bit_word_eqI) (auto simp: bit_simps)
qed

lemma length_ToString_hex: "length (ToString True s) = 2 * length s"
  by (induction s) (simp_all add: ToString_def)

lemma decode_hex_loop_ToString: "decode_hex_loop (ToString True s) = Some s"
proof (induction s)
  case Nil
  then show ?case by (simp add: ToString_def)
next
  case (Cons c s)
  have "decode_hex_loop (ToString True (c # s)) =
      map_option (\<lambda>r. c # r) (decode_hex_loop (ToString True s))"
    by (simp add: ToString_def fromHex_toHex high_nibble low_nibble nibbles_join)
  with Cons.IH show ?case by simp
qed

lemma DecodeHex_ToString [codec]: "DecodeHex True (ToString True s) = Some s"
  by (simp add: DecodeHex_def length_ToString_hex decode_hex_loop_ToString)

lemma decode_hex_loop_length: "decode_hex_loop s = Some r \<Longrightarrow> length r = length s div 2"
  by (induction s arbitrary: r rule: decode_hex_loop.induct) (auto simp: Let_def split: if_splits)

lemma decode_hex_loop_digits:
  "even (length s) \<Longrightarrow> (decode_hex_loop s \<noteq> None) \<longleftrightarrow> (\<forall>c \<in> set s. 0 \<le> fromHex c)"
  by (induction s rule: decode_hex_loop.induct) (auto simp: Let_def not_less)

lemma DecodeHex_None_iff:
  "DecodeHex True s = None \<longleftrightarrow> odd (length s) \<or> (\<exists>c \<in> set s. fromHex c < 0)"
  using decode_hex_loop_digits [of s]
  by (cases "even (length s)")
    (simp_all add: DecodeHex_def not_le odd_iff_mod_2_eq_one even_iff_mod_2_eq_zero
      Bex_def Ball_def, metis not_le option.distinct(1) not_None_eq)

section \<open>Lemmas: prefix transforms\<close>

lemma Transform_InRange: "InDomain t src \<Longrightarrow> InRange t (Transform t src)"
  by (cases t) auto

lemma Transform_prefix: "prefix (Transform t src) src"
  by (cases t) (auto simp: take_is_prefix)

lemma Transform_SameResult:
  assumes "SameResultWhenAppended t p" and "prefix p s"
  shows "Transform t s = Transform t p"
  using assms by (cases t) (auto simp: prefix_def)

end
