(* ===== verification/Coding.thy ===== *)
theory Coding
  imports Slice
begin

text \<open>
  Fixed-width and variable-length integer codes and length-prefixed strings: util/coding.h
  and util/coding.cc. Everything RocksDB stores on disk goes through these routines.

  A routine that appends to a \<^verbatim>\<open>std::string\<close> takes the string and returns it extended; one that
  parses from a \<^verbatim>\<open>Slice*\<close> returns the value, if any, and the slice as it leaves it; a pointer
  pair \<^verbatim>\<open>p, limit\<close> is the list of the bytes between.

  The lemmas show that every reader inverts its writer with any bytes following, that the two
  builds (little- and big-endian) write the same bytes, that the unrolled varint32 writer is
  the loop of the varint64 one, how long the codes are and what the readers consume.
\<close>

section \<open>Fixed-width integers\<close>

text \<open>
  The object representation of an integer, which \<^verbatim>\<open>memcpy\<close> copies, in a build where
  \<^verbatim>\<open>port::kLittleEndian\<close> is \<open>le\<close>.
\<close>

definition mem_image :: "bool \<Rightarrow> nat \<Rightarrow> 'a::len word \<Rightarrow> bytes" where
  "mem_image le n v = (if le then le_bytes n v else rev (le_bytes n v))"

definition of_mem_image :: "bool \<Rightarrow> bytes \<Rightarrow> 'a::len word" where
  "of_mem_image le bs = of_le_bytes (if le then bs else rev bs)"

text \<open>The portable branch of each routine, and then the routine as a build runs it.\<close>

definition EncodeFixed16 :: "u16 \<Rightarrow> bytes" where
  "EncodeFixed16 v = [ucast (v AND 0xff), ucast (drop_bit 8 v AND 0xff)]"

definition EncodeFixed32 :: "u32 \<Rightarrow> bytes" where
  "EncodeFixed32 v =
     [ucast (v AND 0xff), ucast (drop_bit 8 v AND 0xff), ucast (drop_bit 16 v AND 0xff),
      ucast (drop_bit 24 v AND 0xff)]"

definition EncodeFixed64 :: "u64 \<Rightarrow> bytes" where
  "EncodeFixed64 v =
     [ucast (v AND 0xff), ucast (drop_bit 8 v AND 0xff), ucast (drop_bit 16 v AND 0xff),
      ucast (drop_bit 24 v AND 0xff), ucast (drop_bit 32 v AND 0xff),
      ucast (drop_bit 40 v AND 0xff), ucast (drop_bit 48 v AND 0xff),
      ucast (drop_bit 56 v AND 0xff)]"

definition EncodeFixed16_on :: "bool \<Rightarrow> u16 \<Rightarrow> bytes" where
  "EncodeFixed16_on le v = (if le then mem_image le 2 v else EncodeFixed16 v)"

definition EncodeFixed32_on :: "bool \<Rightarrow> u32 \<Rightarrow> bytes" where
  "EncodeFixed32_on le v = (if le then mem_image le 4 v else EncodeFixed32 v)"

definition EncodeFixed64_on :: "bool \<Rightarrow> u64 \<Rightarrow> bytes" where
  "EncodeFixed64_on le v = (if le then mem_image le 8 v else EncodeFixed64 v)"

definition DecodeFixed16 :: "bytes \<Rightarrow> u16" where
  "DecodeFixed16 p = ucast (p ! 0) OR push_bit 8 (ucast (p ! 1))"

definition DecodeFixed32 :: "bytes \<Rightarrow> u32" where
  "DecodeFixed32 p =
     ucast (p ! 0) OR push_bit 8 (ucast (p ! 1)) OR push_bit 16 (ucast (p ! 2))
       OR push_bit 24 (ucast (p ! 3))"

definition DecodeFixed64 :: "bytes \<Rightarrow> u64" where
  "DecodeFixed64 p =
     (let lo = ucast (DecodeFixed32 p); hi = ucast (DecodeFixed32 (drop 4 p))
      in push_bit 32 hi OR lo)"

definition DecodeFixed16_on :: "bool \<Rightarrow> bytes \<Rightarrow> u16" where
  "DecodeFixed16_on le p = (if le then of_mem_image le (take 2 p) else DecodeFixed16 p)"

definition DecodeFixed32_on :: "bool \<Rightarrow> bytes \<Rightarrow> u32" where
  "DecodeFixed32_on le p = (if le then of_mem_image le (take 4 p) else DecodeFixed32 p)"

definition DecodeFixed64_on :: "bool \<Rightarrow> bytes \<Rightarrow> u64" where
  "DecodeFixed64_on le p = (if le then of_mem_image le (take 8 p) else DecodeFixed64 p)"

definition PutFixed16 :: "bytes \<Rightarrow> u16 \<Rightarrow> bytes" where
  "PutFixed16 dst v = dst @ EncodeFixed16 v"

definition PutFixed32 :: "bytes \<Rightarrow> u32 \<Rightarrow> bytes" where
  "PutFixed32 dst v = dst @ EncodeFixed32 v"

definition PutFixed64 :: "bytes \<Rightarrow> u64 \<Rightarrow> bytes" where
  "PutFixed64 dst v = dst @ EncodeFixed64 v"

definition GetFixed64 :: "bytes \<Rightarrow> u64 option \<times> bytes" where
  "GetFixed64 input =
     (if length input < 8 then (None, input)
      else (Some (DecodeFixed64 input), remove_prefix input 8))"

definition GetFixed32 :: "bytes \<Rightarrow> u32 option \<times> bytes" where
  "GetFixed32 input =
     (if length input < 4 then (None, input)
      else (Some (DecodeFixed32 input), remove_prefix input 4))"

definition GetFixed16 :: "bytes \<Rightarrow> u16 option \<times> bytes" where
  "GetFixed16 input =
     (if length input < 2 then (None, input)
      else (Some (DecodeFixed16 input), remove_prefix input 2))"

section \<open>Variable-length integers\<close>

definition EncodeVarint32 :: "u32 \<Rightarrow> bytes" where
  "EncodeVarint32 v =
     (if v < push_bit 7 1 then [ucast v]
      else if v < push_bit 14 1 then [ucast (v OR 128), ucast (drop_bit 7 v)]
      else if v < push_bit 21 1 then
        [ucast (v OR 128), ucast (drop_bit 7 v OR 128), ucast (drop_bit 14 v)]
      else if v < push_bit 28 1 then
        [ucast (v OR 128), ucast (drop_bit 7 v OR 128), ucast (drop_bit 14 v OR 128),
         ucast (drop_bit 21 v)]
      else
        [ucast (v OR 128), ucast (drop_bit 7 v OR 128), ucast (drop_bit 14 v OR 128),
         ucast (drop_bit 21 v OR 128), ucast (drop_bit 28 v)])"

lemma unat_drop_bit_7: "unat (drop_bit 7 (v :: 'a::len word)) = unat v div 128"
  by (simp only: unat_drop_bit_eq) (simp add: drop_bit_eq_div)

lemma unat_drop_bit_7_less: "drop_bit 7 (v :: 'a::len word) \<noteq> 0 \<Longrightarrow> unat (drop_bit 7 v) < unat v"
  by (metis div_less_dividend div_0 gr0I unat_0 unat_drop_bit_7 word_unat_eq_iff
      numeral_less_iff one_less_numeral_iff semiring_norm(76))

lemma less_128_iff: "(v :: u64) < 128 \<longleftrightarrow> drop_bit 7 v = 0" "(w :: u32) < 128 \<longleftrightarrow> drop_bit 7 w = 0"
  by (simp_all only: word_less_nat_alt word_unat_eq_iff unat_drop_bit_7) auto

function EncodeVarint64 :: "u64 \<Rightarrow> bytes" where
  "EncodeVarint64 v =
     (if v \<ge> 128 then ucast ((v AND 127) OR 128) # EncodeVarint64 (drop_bit 7 v) else [ucast v])"
  by pat_completeness auto
termination
  by (relation "measure unat") (auto simp: not_less [symmetric] less_128_iff intro: unat_drop_bit_7_less)

declare EncodeVarint64.simps [simp del]

text \<open>The loop of \<^verbatim>\<open>VarintLength\<close>, which starts with \<open>len = 1\<close>.\<close>

function VarintLength_loop :: "nat \<Rightarrow> u64 \<Rightarrow> nat" where
  "VarintLength_loop len v = (if v \<ge> 128 then VarintLength_loop (len + 1) (drop_bit 7 v) else len)"
  by pat_completeness auto
termination
  by (relation "measure (\<lambda>(len, v). unat v)")
    (auto simp: not_less [symmetric] less_128_iff intro: unat_drop_bit_7_less)

declare VarintLength_loop.simps [simp del]

definition VarintLength :: "u64 \<Rightarrow> nat" where
  "VarintLength v = VarintLength_loop 1 v"

text \<open>The parsing loops. \<open>None\<close> is the null pointer; otherwise the value and what is left.\<close>

fun varint32_loop :: "nat \<Rightarrow> u32 \<Rightarrow> bytes \<Rightarrow> (u32 \<times> bytes) option" where
  "varint32_loop shift result [] = None"
| "varint32_loop shift result (b # p) =
     (if shift \<le> 28 then
        (if ucast b AND 128 \<noteq> (0 :: u32)
         then varint32_loop (shift + 7) (result OR push_bit shift (ucast b AND 127)) p
         else Some (result OR push_bit shift (ucast b), p))
      else None)"

definition GetVarint32PtrFallback :: "bytes \<Rightarrow> (u32 \<times> bytes) option" where
  "GetVarint32PtrFallback p = varint32_loop 0 0 p"

definition GetVarint32Ptr :: "bytes \<Rightarrow> (u32 \<times> bytes) option" where
  "GetVarint32Ptr p =
     (case p of
        b # q \<Rightarrow>
          (let result = ucast b :: u32
           in if result AND 128 = 0 then Some (result, q) else GetVarint32PtrFallback p)
      | [] \<Rightarrow> GetVarint32PtrFallback p)"

fun varint64_loop :: "nat \<Rightarrow> u64 \<Rightarrow> bytes \<Rightarrow> (u64 \<times> bytes) option" where
  "varint64_loop shift result [] = None"
| "varint64_loop shift result (b # p) =
     (if shift \<le> 63 then
        (if ucast b AND 128 \<noteq> (0 :: u64)
         then varint64_loop (shift + 7) (result OR push_bit shift (ucast b AND 127)) p
         else Some (result OR push_bit shift (ucast b), p))
      else None)"

definition GetVarint64Ptr :: "bytes \<Rightarrow> (u64 \<times> bytes) option" where
  "GetVarint64Ptr p = varint64_loop 0 0 p"

text \<open>Signed integers go through the zigzag map; a signed 64-bit value is its word.\<close>

definition i64ToZigzag :: "u64 \<Rightarrow> u64" where
  "i64ToZigzag l = push_bit 1 l XOR signed_drop_bit 63 l"

definition zigzagToI64 :: "u64 \<Rightarrow> u64" where
  "zigzagToI64 n = drop_bit 1 n XOR - (n AND 1)"

definition GetVarsignedint64Ptr :: "bytes \<Rightarrow> (u64 \<times> bytes) option" where
  "GetVarsignedint64Ptr p =
     (case GetVarint64Ptr p of None \<Rightarrow> None | Some (u, q) \<Rightarrow> Some (zigzagToI64 u, q))"

definition PutVarint32 :: "bytes \<Rightarrow> u32 \<Rightarrow> bytes" where
  "PutVarint32 dst v = dst @ EncodeVarint32 v"

definition PutVarint32Varint32 :: "bytes \<Rightarrow> u32 \<Rightarrow> u32 \<Rightarrow> bytes" where
  "PutVarint32Varint32 dst v1 v2 = dst @ EncodeVarint32 v1 @ EncodeVarint32 v2"

definition PutVarint32Varint32Varint32 :: "bytes \<Rightarrow> u32 \<Rightarrow> u32 \<Rightarrow> u32 \<Rightarrow> bytes" where
  "PutVarint32Varint32Varint32 dst v1 v2 v3 =
     dst @ EncodeVarint32 v1 @ EncodeVarint32 v2 @ EncodeVarint32 v3"

definition PutVarint64 :: "bytes \<Rightarrow> u64 \<Rightarrow> bytes" where
  "PutVarint64 dst v = dst @ EncodeVarint64 v"

definition PutVarsignedint64 :: "bytes \<Rightarrow> u64 \<Rightarrow> bytes" where
  "PutVarsignedint64 dst v = dst @ EncodeVarint64 (i64ToZigzag v)"

definition PutVarint64Varint64 :: "bytes \<Rightarrow> u64 \<Rightarrow> u64 \<Rightarrow> bytes" where
  "PutVarint64Varint64 dst v1 v2 = dst @ EncodeVarint64 v1 @ EncodeVarint64 v2"

definition PutVarint32Varint64 :: "bytes \<Rightarrow> u32 \<Rightarrow> u64 \<Rightarrow> bytes" where
  "PutVarint32Varint64 dst v1 v2 = dst @ EncodeVarint32 v1 @ EncodeVarint64 v2"

definition PutVarint32Varint32Varint64 :: "bytes \<Rightarrow> u32 \<Rightarrow> u32 \<Rightarrow> u64 \<Rightarrow> bytes" where
  "PutVarint32Varint32Varint64 dst v1 v2 v3 =
     dst @ EncodeVarint32 v1 @ EncodeVarint32 v2 @ EncodeVarint64 v3"

definition GetVarint32 :: "bytes \<Rightarrow> u32 option \<times> bytes" where
  "GetVarint32 input =
     (case GetVarint32Ptr input of None \<Rightarrow> (None, input) | Some (v, q) \<Rightarrow> (Some v, q))"

definition GetVarint64 :: "bytes \<Rightarrow> u64 option \<times> bytes" where
  "GetVarint64 input =
     (case GetVarint64Ptr input of None \<Rightarrow> (None, input) | Some (v, q) \<Rightarrow> (Some v, q))"

definition GetVarsignedint64 :: "bytes \<Rightarrow> u64 option \<times> bytes" where
  "GetVarsignedint64 input =
     (case GetVarsignedint64Ptr input of None \<Rightarrow> (None, input) | Some (v, q) \<Rightarrow> (Some v, q))"

section \<open>Length-prefixed strings and the rest\<close>

definition PutLengthPrefixedSlice :: "bytes \<Rightarrow> bytes \<Rightarrow> bytes" where
  "PutLengthPrefixedSlice dst v = PutVarint32 dst (of_nat (length v)) @ v"

text \<open>The three-argument form; \<open>total_bytes\<close> is what the caller adds to the sum of the parts.\<close>

definition PutLengthPrefixedSliceParts_from :: "bytes \<Rightarrow> nat \<Rightarrow> bytes list \<Rightarrow> bytes" where
  "PutLengthPrefixedSliceParts_from dst total_bytes parts =
     (let total = fold (\<lambda>part t. t + length part) parts total_bytes
      in fold (\<lambda>part d. d @ part) parts (PutVarint32 dst (of_nat total)))"

definition PutLengthPrefixedSliceParts :: "bytes \<Rightarrow> bytes list \<Rightarrow> bytes" where
  "PutLengthPrefixedSliceParts dst parts = PutLengthPrefixedSliceParts_from dst 0 parts"

definition PutLengthPrefixedSlicePartsWithPadding :: "bytes \<Rightarrow> bytes list \<Rightarrow> nat \<Rightarrow> bytes" where
  "PutLengthPrefixedSlicePartsWithPadding dst parts pad_sz =
     PutLengthPrefixedSliceParts_from dst pad_sz parts @ replicate pad_sz 0"

text \<open>
  A failed read may have consumed the length: the slice is returned as the code leaves it.
\<close>

definition GetLengthPrefixedSlice :: "bytes \<Rightarrow> bytes option \<times> bytes" where
  "GetLengthPrefixedSlice input =
     (case GetVarint32 input of
        (Some len, inp) \<Rightarrow>
          (if length inp \<ge> unat len then (Some (take (unat len) inp), remove_prefix inp (unat len))
           else (None, inp))
      | (None, inp) \<Rightarrow> (None, inp))"

text \<open>
  The pointer form trusts its input: it looks for the length in five bytes and does not
  check that the string is there. The result is \<open>None\<close> for the null pointer.
\<close>

definition GetLengthPrefixedSlice_ptr :: "bytes \<Rightarrow> bytes option" where
  "GetLengthPrefixedSlice_ptr p =
     (case GetVarint32Ptr (take 5 p) of
        None \<Rightarrow> None
      | Some (len, q) \<Rightarrow> Some (take (unat len) (drop (length (take 5 p) - length q) p)))"

text \<open>
  The index of \<^verbatim>\<open>GetSliceUntil\<close> is a \<^verbatim>\<open>uint32_t\<close>; the model is for slices of less than
  \<open>2 ^ 32\<close> bytes, where it does not wrap.
\<close>

fun slice_until_loop :: "bytes \<Rightarrow> byte \<Rightarrow> nat" where
  "slice_until_loop [] delimiter = 0"
| "slice_until_loop (c # cs) delimiter =
     (if c \<noteq> delimiter then Suc (slice_until_loop cs delimiter) else 0)"

definition GetSliceUntil :: "bytes \<Rightarrow> byte \<Rightarrow> bytes \<times> bytes" where
  "GetSliceUntil s delimiter =
     (let len = slice_until_loop s delimiter
      in (take len s, remove_prefix s (len + (if len < length s then 1 else 0))))"

definition EndianTransform :: "bool \<Rightarrow> u64 \<Rightarrow> nat \<Rightarrow> u64" where
  "EndianTransform le input sz =
     fold (\<lambda>i ret. ret OR push_bit (8 * (sz - i - 1)) (ucast (mem_image le 8 input ! i)))
       [0..<sz] 0"

section \<open>Lemmas: fixed-width integers\<close>

lemma EncodeFixed_le_bytes:
  "EncodeFixed16 v16 = le_bytes 2 v16"
  "EncodeFixed32 v32 = le_bytes 4 v32"
  "EncodeFixed64 v64 = le_bytes 8 v64"
  by (simp_all add: EncodeFixed16_def EncodeFixed32_def EncodeFixed64_def le_bytes_def upt_rec)

lemma length_EncodeFixed [simp]:
  "length (EncodeFixed16 v16) = 2" "length (EncodeFixed32 v32) = 4" "length (EncodeFixed64 v64) = 8"
  by (simp_all add: EncodeFixed_le_bytes)

lemma list_ge2: "2 \<le> length p \<Longrightarrow> \<exists>a b q. p = a # b # q"
  by (auto simp: numeral_eq_Suc Suc_le_length_iff)

lemma list_ge4: "4 \<le> length p \<Longrightarrow> \<exists>a b c d q. p = a # b # c # d # q"
  by (auto simp: numeral_eq_Suc Suc_le_length_iff)

lemma DecodeFixed16_of_le: "2 \<le> length p \<Longrightarrow> DecodeFixed16 p = of_le_bytes (take 2 p)"
  by (drule list_ge2) (auto simp: DecodeFixed16_def)

lemma DecodeFixed32_of_le: "4 \<le> length p \<Longrightarrow> DecodeFixed32 p = of_le_bytes (take 4 p)"
  by (drule list_ge4) (auto simp: DecodeFixed32_def push_bit_or)

lemma of_le_bytes_append:
  "of_le_bytes (xs @ ys) = (of_le_bytes xs OR push_bit (8 * length xs) (of_le_bytes ys) :: 'a::len word)"
  by (induction xs) (simp_all add: push_bit_or or.assoc add.commute)

lemma ucast_of_le_bytes:
  "8 * length bs \<le> LENGTH('a) \<Longrightarrow>
     (ucast (of_le_bytes bs :: 'a::len word) :: 'b::len word) = of_le_bytes bs"
  by (rule bit_word_eqI) (auto simp: bit_simps bit_of_le_bytes)

lemma DecodeFixed64_of_le: "8 \<le> length p \<Longrightarrow> DecodeFixed64 p = of_le_bytes (take 8 p)"
proof -
  assume "8 \<le> length p"
  then have "DecodeFixed64 p =
      push_bit 32 (of_le_bytes (take 4 (drop 4 p))) OR of_le_bytes (take 4 p)"
    by (simp add: DecodeFixed64_def DecodeFixed32_of_le ucast_of_le_bytes)
  also have "\<dots> = of_le_bytes (take 4 p @ take 4 (drop 4 p))"
    using \<open>8 \<le> length p\<close> by (simp add: of_le_bytes_append or.commute)
  also have "take 4 p @ take 4 (drop 4 p) = take 8 p"
    by (simp flip: take_add)
  finally show ?thesis .
qed

lemmas DecodeFixed_of_le = DecodeFixed16_of_le DecodeFixed32_of_le DecodeFixed64_of_le

lemma Decode_EncodeFixed [simp, codec]:
  "DecodeFixed16 (EncodeFixed16 v16 @ rest) = v16"
  "DecodeFixed32 (EncodeFixed32 v32 @ rest) = v32"
  "DecodeFixed64 (EncodeFixed64 v64 @ rest) = v64"
  by (simp_all add: DecodeFixed_of_le EncodeFixed_le_bytes of_le_bytes_le_bytes)

lemma Decode_EncodeFixed_all [simp, codec]:
  "DecodeFixed16 (EncodeFixed16 v16) = v16"
  "DecodeFixed32 (EncodeFixed32 v32) = v32"
  "DecodeFixed64 (EncodeFixed64 v64) = v64"
  using Decode_EncodeFixed [of _ "[]"] by simp_all

lemma Encode_DecodeFixed [codec]:
  "length p = 2 \<Longrightarrow> EncodeFixed16 (DecodeFixed16 p) = p"
  "length p = 4 \<Longrightarrow> EncodeFixed32 (DecodeFixed32 p) = p"
  "length p = 8 \<Longrightarrow> EncodeFixed64 (DecodeFixed64 p) = p"
  using le_bytes_of_le_bytes [of p, where 'a = 16] le_bytes_of_le_bytes [of p, where 'a = 32]
    le_bytes_of_le_bytes [of p, where 'a = 64]
  by (simp_all add: EncodeFixed_le_bytes DecodeFixed_of_le)

lemma EncodeFixed_on [simp]:
  "EncodeFixed16_on le v16 = EncodeFixed16 v16"
  "EncodeFixed32_on le v32 = EncodeFixed32 v32"
  "EncodeFixed64_on le v64 = EncodeFixed64 v64"
  by (simp_all add: EncodeFixed16_on_def EncodeFixed32_on_def EncodeFixed64_on_def
      mem_image_def EncodeFixed_le_bytes)

lemma DecodeFixed_on:
  "2 \<le> length p \<Longrightarrow> DecodeFixed16_on le p = DecodeFixed16 p"
  "4 \<le> length p \<Longrightarrow> DecodeFixed32_on le p = DecodeFixed32 p"
  "8 \<le> length p \<Longrightarrow> DecodeFixed64_on le p = DecodeFixed64 p"
  by (simp_all add: DecodeFixed16_on_def DecodeFixed32_on_def DecodeFixed64_on_def
      of_mem_image_def DecodeFixed_of_le)

lemma GetFixed_Put [codec]:
  "GetFixed16 (PutFixed16 [] v16 @ rest) = (Some v16, rest)"
  "GetFixed32 (PutFixed32 [] v32 @ rest) = (Some v32, rest)"
  "GetFixed64 (PutFixed64 [] v64 @ rest) = (Some v64, rest)"
  by (simp_all add: GetFixed16_def GetFixed32_def GetFixed64_def PutFixed16_def PutFixed32_def
      PutFixed64_def remove_prefix_def)

section \<open>Lemmas: variable-length integers\<close>

text \<open>The code both writers produce: seven bits a byte, the eighth set on all but the last.\<close>

function varint_bytes :: "'a::len word \<Rightarrow> bytes" where
  "varint_bytes v =
     (if drop_bit 7 v = 0 then [ucast v] else ucast (v OR 128) # varint_bytes (drop_bit 7 v))"
  by pat_completeness auto
termination
  by (relation "measure unat") (auto intro: unat_drop_bit_7_less)

declare varint_bytes.simps [simp del]

lemma bit_word_128: "bit (128 :: 'a::len word) n \<longleftrightarrow> n = 7 \<and> 7 < LENGTH('a)"
proof -
  have eq: "(128 :: 'a word) = 2 ^ 7" by simp
  show ?thesis unfolding eq by (auto simp only: bit_exp_iff possible_bit_word)
qed

lemma bit_word_127: "bit (127 :: 'a::len word) n \<longleftrightarrow> n < 7 \<and> n < LENGTH('a)"
proof -
  have eq: "(127 :: 'a word) = mask 7" by (simp add: mask_eq_exp_minus_1)
  show ?thesis unfolding eq by (auto simp only: bit_mask_iff possible_bit_word)
qed

lemma and_128: "(v :: 'a::len word) AND 128 = (if bit v 7 then 128 else 0)"
  by (rule bit_word_eqI) (auto simp only: bit_and_iff bit_word_128 bit_0_eq split: if_splits)

lemma and_128_iff:
  assumes "7 < LENGTH('a)"
  shows "(v :: 'a::len word) AND 128 = 0 \<longleftrightarrow> \<not> bit v 7"
proof -
  have "bit (128 :: 'a word) 7" using assms by (simp only: bit_word_128)
  then have "(128 :: 'a word) \<noteq> 0" by (metis bit_0_eq bot_apply bot_bool_def)
  then show ?thesis by (auto simp only: and_128 split: if_splits)
qed

lemma byte_and_128:
  "ucast (b :: byte) AND 128 = (0 :: u32) \<longleftrightarrow> \<not> bit b 7"
  "ucast (b :: byte) AND 128 = (0 :: u64) \<longleftrightarrow> \<not> bit b 7"
  by (simp_all add: and_128_iff bit_ucast_iff)

lemma bits_lt_7: "drop_bit 7 (v :: 'a::len word) = 0 \<Longrightarrow> bit v n \<Longrightarrow> n < 7"
proof (rule ccontr)
  assume v: "drop_bit 7 v = 0" "bit v n" "\<not> n < 7"
  then have "7 + (n - 7) = n" by simp
  with v(2) have "bit (drop_bit 7 v) (n - 7)" by (simp only: bit_drop_bit_eq o_def)
  with v(1) show False by simp
qed

lemma bit_drop_0: "drop_bit 7 (v :: 'a::len word) = 0 \<Longrightarrow> \<not> bit (ucast v :: byte) 7"
  using bits_lt_7 [of v 7] by (auto simp: bit_ucast_iff)

lemma bit_cont: "7 < LENGTH('a) \<Longrightarrow> bit (ucast ((v :: 'a::len word) OR 128) :: byte) 7"
  by (simp only: bit_ucast_iff bit_or_iff bit_word_128) simp

lemma ucast_last: "drop_bit 7 (v :: 'a::len word) = 0 \<Longrightarrow> ucast (ucast v :: byte) = v"
  by (rule bit_word_eqI) (auto simp only: bit_ucast_iff dest: bits_lt_7 bit_imp_le_length, auto dest: bits_lt_7)

lemma ucast_cont_127:
  "7 < LENGTH('a) \<Longrightarrow> ucast (ucast ((v :: 'a::len word) OR 128) :: byte) AND 127 = take_bit 7 v"
  by (rule bit_word_eqI)
    (auto simp only: bit_ucast_iff bit_and_iff bit_or_iff bit_word_128 bit_word_127 bit_take_bit_iff, auto)

lemma join_7:
  "(r OR push_bit s (take_bit 7 v)) OR push_bit (s + 7) (drop_bit 7 v) =
     r OR push_bit s (v :: 'a::len word)"
proof (rule bit_word_eqI)
  fix n assume "n < LENGTH('a)"
  moreover have "n - s < 7 \<or> s + 7 \<le> n \<and> 7 + (n - (s + 7)) = n - s" by auto
  ultimately show "bit ((r OR push_bit s (take_bit 7 v)) OR push_bit (s + 7) (drop_bit 7 v)) n
      \<longleftrightarrow> bit (r OR push_bit s v) n"
    by (auto simp: bit_simps)
qed

lemma byte_and_128_gen: "7 < LENGTH('a) \<Longrightarrow> ucast (b :: byte) AND 128 = (0 :: 'a::len word) \<longleftrightarrow> \<not> bit b 7"
  by (simp add: and_128_iff bit_ucast_iff)

text \<open>The two parsing loops are one loop, with the bound on the shift that fits the width.\<close>

fun varint_loop :: "nat \<Rightarrow> nat \<Rightarrow> 'a::len word \<Rightarrow> bytes \<Rightarrow> ('a word \<times> bytes) option" where
  "varint_loop lim shift result [] = None"
| "varint_loop lim shift result (b # p) =
     (if shift \<le> lim then
        (if ucast b AND 128 \<noteq> (0 :: 'a word)
         then varint_loop lim (shift + 7) (result OR push_bit shift (ucast b AND 127)) p
         else Some (result OR push_bit shift (ucast b), p))
      else None)"

lemma varint32_loop_gen: "varint32_loop shift r p = varint_loop 28 shift r p"
  by (induction p arbitrary: shift r) simp_all

lemma varint64_loop_gen: "varint64_loop shift r p = varint_loop 63 shift r p"
  by (induction p arbitrary: shift r) simp_all

lemma varint_loop_bytes:
  fixes v r :: "'a::len word"
  assumes lim: "\<And>j. 7 * j < LENGTH('a) \<Longrightarrow> 7 * j \<le> lim" and len: "7 < LENGTH('a)"
    and shift: "shift = 7 * k" "shift < LENGTH('a)" and v: "unat v < 2 ^ (LENGTH('a) - shift)"
  shows "varint_loop lim shift r (varint_bytes v @ rest) = Some (r OR push_bit shift v, rest)"
  using shift v
proof (induction v arbitrary: shift k r rule: varint_bytes.induct)
  case (1 v)
  have s: "shift \<le> lim" using "1.prems" lim by simp
  show ?case
  proof (cases "drop_bit 7 v = 0")
    case True
    then have "v AND 128 = 0" using len bits_lt_7 [of v 7] by (auto simp: and_128_iff)
    with True show ?thesis using s by (simp add: varint_bytes.simps [of v] ucast_last)
  next
    case False
    then have big: "128 \<le> unat v"
      by (metis div_less not_less unat_drop_bit_7 unat_eq_zero)
    with "1.prems"(3) have pow: "(2 :: nat) ^ 7 < 2 ^ (LENGTH('a) - shift)" by simp
    from pow have "7 < LENGTH('a) - shift"
      by (rule power_less_imp_less_exp [rotated]) simp
    then have k: "shift + 7 < LENGTH('a)" by simp
    from k have "(2 :: nat) ^ (LENGTH('a) - shift) = 2 ^ (LENGTH('a) - (shift + 7)) * 2 ^ 7"
      by (subst power_add [symmetric]) simp
    then have "unat v < 2 ^ (LENGTH('a) - (shift + 7)) * 128" using "1.prems" by simp
    then have "unat (drop_bit 7 v) < 2 ^ (LENGTH('a) - (shift + 7))"
      unfolding unat_drop_bit_7 by (rule less_mult_imp_div_less)
    then have IH: "varint_loop lim (shift + 7) r' (varint_bytes (drop_bit 7 v) @ rest) =
        Some (r' OR push_bit (shift + 7) (drop_bit 7 v), rest)" for r'
      using "1.IH" [OF False, of "shift + 7" "Suc k"] k "1.prems"(1) by simp
    from False s len show ?thesis
      by (simp add: varint_bytes.simps [of v] byte_and_128_gen bit_cont ucast_cont_127 IH join_7)
  qed
qed

lemma lim_32: "7 * j < LENGTH(32) \<Longrightarrow> 7 * j \<le> 28" and lim_64: "7 * j < LENGTH(64) \<Longrightarrow> 7 * j \<le> (63 :: nat)"
  by simp_all

lemma varint32_loop_bytes: "varint32_loop 0 0 (varint_bytes v @ rest) = Some (v, rest)"
  unfolding varint32_loop_gen
  by (subst varint_loop_bytes [where k = 0]) (use unsigned_less [of v] in auto)

lemma varint64_loop_bytes: "varint64_loop 0 0 (varint_bytes v @ rest) = Some (v, rest)"
  unfolding varint64_loop_gen
  by (subst varint_loop_bytes [where k = 0]) (use unsigned_less [of v] in auto)


lemma unat_drop_bit_div: "unat (drop_bit n (v :: 'a::len word)) = unat v div 2 ^ n"
  by (simp only: unat_drop_bit_eq) (simp only: drop_bit_eq_div)

lemma less_pow7_iff:
  fixes v :: u32
  shows "v < push_bit 7 1 \<longleftrightarrow> drop_bit 7 v = 0" "v < push_bit 14 1 \<longleftrightarrow> drop_bit 14 v = 0"
    "v < push_bit 21 1 \<longleftrightarrow> drop_bit 21 v = 0" "v < push_bit 28 1 \<longleftrightarrow> drop_bit 28 v = 0"
  by (simp_all only: word_less_nat_alt word_unat_eq_iff unat_drop_bit_div)
    (simp_all add: div_eq_0_iff)

lemma drop_35: "drop_bit 35 (v :: u32) = 0"
  by (rule bit_word_eqI) (auto simp: bit_drop_bit_eq dest: bit_imp_le_length)

lemma EncodeVarint32_bytes: "EncodeVarint32 v = varint_bytes v"
proof -
  note unroll = varint_bytes.simps [of v] varint_bytes.simps [of "drop_bit 7 v"]
    varint_bytes.simps [of "drop_bit 14 v"] varint_bytes.simps [of "drop_bit 21 v"]
    varint_bytes.simps [of "drop_bit 28 v"]
  show ?thesis
    by (simp only: EncodeVarint32_def less_pow7_iff) (simp add: unroll drop_35)
qed

lemma ucast_cont: "7 < LENGTH('a) \<Longrightarrow>
   (ucast (((v :: 'a::len word) AND 127) OR 128) :: byte) = ucast (v OR 128)"
proof (rule bit_word_eqI)
  fix n assume "7 < LENGTH('a)" and "n < LENGTH(8)"
  moreover from this have "n < 7 \<or> n = 7" by auto
  ultimately show "bit (ucast ((v AND 127) OR 128) :: byte) n \<longleftrightarrow> bit (ucast (v OR 128) :: byte) n"
    by (auto simp only: bit_ucast_iff bit_and_iff bit_or_iff bit_word_128 bit_word_127)
qed

lemma EncodeVarint64_bytes: "EncodeVarint64 v = varint_bytes v"
proof (induction v rule: EncodeVarint64.induct)
  case (1 v)
  show ?case
  proof (cases "v \<ge> 128")
    case True
    then have "drop_bit 7 v \<noteq> 0" by (simp add: not_less less_128_iff [symmetric])
    with True 1 show ?thesis
      by (simp add: EncodeVarint64.simps [of v] varint_bytes.simps [of v] ucast_cont)
  next
    case False
    then have "drop_bit 7 v = 0" by (simp add: not_le less_128_iff)
    with False show ?thesis
      by (simp add: EncodeVarint64.simps [of v] varint_bytes.simps [of v])
  qed
qed

lemma VarintLength_loop_bytes:
  "VarintLength_loop (len + 1) v = len + length (varint_bytes v)"
proof (induction v arbitrary: len rule: varint_bytes.induct)
  case (1 v)
  show ?case
  proof (cases "drop_bit 7 v = 0")
    case True
    then have "\<not> v \<ge> 128" by (simp add: not_le less_128_iff)
    with True show ?thesis by (simp add: VarintLength_loop.simps [of _ v] varint_bytes.simps [of v])
  next
    case False
    then have "v \<ge> 128" by (simp add: not_less [symmetric] less_128_iff)
    with False "1.IH" [OF False, of "Suc len"] show ?thesis
      by (simp add: VarintLength_loop.simps [of _ v] varint_bytes.simps [of v])
  qed
qed

lemma VarintLength_EncodeVarint64: "VarintLength v = length (EncodeVarint64 v)"
  using VarintLength_loop_bytes [of 0 v] by (simp add: VarintLength_def EncodeVarint64_bytes)

lemma varint_bytes_ucast: "varint_bytes (ucast (v :: u32) :: u64) = varint_bytes v"
proof (induction v rule: varint_bytes.induct)
  case (1 v)
  have d: "drop_bit 7 (ucast v :: u64) = ucast (drop_bit 7 v)"
    by (rule bit_word_eqI) (auto simp: bit_simps dest: bit_imp_le_length)
  have z: "(ucast (drop_bit 7 v) :: u64) = 0 \<longleftrightarrow> drop_bit 7 v = 0"
  proof -
    have "(ucast (ucast (drop_bit 7 v) :: u64) :: u32) = drop_bit 7 v"
      by (rule bit_word_eqI) (auto simp: bit_simps)
    then show ?thesis by (metis ucast_0)
  qed
  have o: "(ucast ((ucast v :: u64) OR 128) :: byte) = ucast (v OR 128)"
    by (rule bit_word_eqI) (auto simp only: bit_ucast_iff bit_or_iff bit_word_128, auto)
  have b: "(ucast (ucast v :: u64) :: byte) = ucast v"
    by (rule bit_word_eqI) (auto simp: bit_simps dest: bit_imp_le_length)
  show ?case
    using "1.IH" by (cases "drop_bit 7 v = 0")
      (simp_all add: varint_bytes.simps [of v] varint_bytes.simps [of "ucast v :: u64"] d z o b)
qed

lemma VarintLength_EncodeVarint32: "VarintLength (ucast v) = length (EncodeVarint32 v)"
  by (simp add: VarintLength_EncodeVarint64 EncodeVarint64_bytes EncodeVarint32_bytes varint_bytes_ucast)

lemma varint_bytes_not_Nil [simp]: "varint_bytes v \<noteq> []"
  by (simp add: varint_bytes.simps [of v])


lemma GetVarint32Ptr_loop: "GetVarint32Ptr p = varint32_loop 0 0 p"
  by (cases p) (auto simp: GetVarint32Ptr_def GetVarint32PtrFallback_def Let_def)

lemma GetVarint32Ptr_Encode [codec]: "GetVarint32Ptr (EncodeVarint32 v @ rest) = Some (v, rest)"
  by (simp add: GetVarint32Ptr_loop EncodeVarint32_bytes varint32_loop_bytes)

lemma GetVarint64Ptr_Encode [codec]: "GetVarint64Ptr (EncodeVarint64 v @ rest) = Some (v, rest)"
  by (simp add: GetVarint64Ptr_def EncodeVarint64_bytes varint64_loop_bytes)

lemma GetVarint32_Encode [simp, codec]: "GetVarint32 (EncodeVarint32 v @ rest) = (Some v, rest)"
  by (simp add: GetVarint32_def GetVarint32Ptr_Encode)

lemma GetVarint64_Encode [simp, codec]: "GetVarint64 (EncodeVarint64 v @ rest) = (Some v, rest)"
  by (simp add: GetVarint64_def GetVarint64Ptr_Encode)

lemma length_varint_bytes:
  fixes v :: "'a::len word"
  assumes "unat v < 2 ^ (7 * Suc k)"
  shows "length (varint_bytes v) \<le> Suc k"
  using assms
proof (induction v arbitrary: k rule: varint_bytes.induct)
  case (1 v)
  show ?case
  proof (cases "drop_bit 7 v = 0")
    case True
    then show ?thesis by (simp add: varint_bytes.simps [of v])
  next
    case False
    then have "unat v div 128 \<noteq> 0" by (metis unat_drop_bit_7 unat_eq_zero)
    then have "128 \<le> unat v" by simp
    with "1.prems" obtain j where k: "k = Suc j" by (cases k) auto
    have "unat v < 2 ^ (7 * Suc j) * 128"
      using "1.prems" unfolding k by (simp add: power_add)
    then have "unat (drop_bit 7 v) < 2 ^ (7 * Suc j)"
      unfolding unat_drop_bit_7 by (rule less_mult_imp_div_less)
    from "1.IH" [OF False this] show ?thesis using False k by (simp add: varint_bytes.simps [of v])
  qed
qed

lemma length_EncodeVarint32: "1 \<le> length (EncodeVarint32 v)" "length (EncodeVarint32 v) \<le> 5"
  by (simp_all add: EncodeVarint32_def)

lemma length_EncodeVarint64: "1 \<le> length (EncodeVarint64 v)" "length (EncodeVarint64 v) \<le> 10"
proof -
  have "unat v < 2 ^ (7 * Suc 9)"
    using unsigned_less [of v] by (rule order_less_le_trans) simp
  then show "length (EncodeVarint64 v) \<le> 10"
    unfolding EncodeVarint64_bytes using length_varint_bytes by fastforce
qed (simp add: EncodeVarint64_bytes Suc_le_eq)

text \<open>What a successful read consumes: a non-empty prefix of the input, of bounded length.\<close>

lemma varint_loop_consumes:
  "varint_loop lim shift r p = Some (v, q) \<Longrightarrow>
     \<exists>c. p = c @ q \<and> c \<noteq> [] \<and> shift + 7 * (length c - 1) \<le> lim"
proof (induction lim shift r p rule: varint_loop.induct)
  case (1 lim shift r)
  then show ?case by simp
next
  case (2 lim shift r b p)
  show ?case
  proof (cases "ucast b AND 128 = (0 :: 'a word)")
    case True
    with "2.prems" have "b # p = [b] @ q \<and> [b] \<noteq> [] \<and> shift + 7 * (length [b] - 1) \<le> lim"
      by (auto split: if_splits)
    then show ?thesis by blast
  next
    case False
    with 2 obtain c where "p = c @ q" "c \<noteq> []" "shift + 7 + 7 * (length c - 1) \<le> lim"
      by (auto split: if_splits)
    then have "b # p = (b # c) @ q \<and> b # c \<noteq> [] \<and> shift + 7 * (length (b # c) - 1) \<le> lim"
      by (cases c) auto
    then show ?thesis by blast
  qed
qed

lemma GetVarint32_consumes:
  assumes "GetVarint32 p = (Some v, q)"
  shows "\<exists>c. p = c @ q \<and> 1 \<le> length c \<and> length c \<le> 5"
proof -
  from assms have "varint_loop 28 0 0 p = Some (v, q)"
    by (auto simp: GetVarint32_def GetVarint32Ptr_loop varint32_loop_gen split: option.splits)
  from varint_loop_consumes [OF this] show ?thesis by (fastforce simp: Suc_le_eq)
qed

lemma GetVarint64_consumes:
  assumes "GetVarint64 p = (Some v, q)"
  shows "\<exists>c. p = c @ q \<and> 1 \<le> length c \<and> length c \<le> 10"
proof -
  from assms have "varint_loop 63 0 0 p = Some (v, q)"
    by (auto simp: GetVarint64_def GetVarint64Ptr_def varint64_loop_gen split: option.splits)
  from varint_loop_consumes [OF this] show ?thesis by (fastforce simp: Suc_le_eq)
qed

lemma zigzag_bit_signed: "signed_drop_bit 63 (l :: u64) = (if bit l 63 then - 1 else 0)"
proof (rule bit_word_eqI)
  fix n assume "n < LENGTH(64)"
  then show "bit (signed_drop_bit 63 l) n \<longleftrightarrow> bit (if bit l 63 then - 1 else 0 :: u64) n"
    by (cases n) (auto simp: bit_simps)
qed

lemma bit_push_1: "bit (push_bit 1 (l :: u64)) n \<longleftrightarrow> 1 \<le> n \<and> n < 64 \<and> bit l (n - 1)"
  by (auto simp only: bit_push_bit_iff possible_bit_word) simp_all

lemma bit_zigzag: "bit (i64ToZigzag l) n \<longleftrightarrow> n < 64 \<and> (1 \<le> n \<and> bit l (n - 1)) \<noteq> bit l 63"
  unfolding i64ToZigzag_def zigzag_bit_signed
  by (simp only: bit_xor_iff bit_push_1 bit_minus_1_iff possible_bit_word bit_0_eq bot_apply split: if_splits)
    auto

lemma zigzag_roundtrip [simp, codec]: "zigzagToI64 (i64ToZigzag l) = l"
proof (rule bit_word_eqI)
  fix n assume n: "n < LENGTH(64)"
  have "i64ToZigzag l AND 1 = (if bit (i64ToZigzag l) 0 then 1 else 0)"
    by (simp only: and_one_eq bit_0 even_iff_mod_2_eq_zero split: if_splits) (auto simp: not_mod_2_eq_0_eq_1)
  then have sign: "- (i64ToZigzag l AND 1) = (if bit l 63 then - 1 else 0)"
    by (simp add: bit_zigzag)
  show "bit (zigzagToI64 (i64ToZigzag l)) n \<longleftrightarrow> bit l n"
    unfolding zigzagToI64_def sign using n
    by (cases "n = 63") (auto simp: bit_xor_iff bit_drop_bit_eq bit_zigzag)
qed

lemma GetVarsignedint64_Put [codec]:
  "GetVarsignedint64 (PutVarsignedint64 [] v @ rest) = (Some v, rest)"
  by (simp add: GetVarsignedint64_def GetVarsignedint64Ptr_def PutVarsignedint64_def
      GetVarint64Ptr_Encode)

section \<open>Lemmas: length-prefixed strings\<close>

lemma unat_of_nat_32: "n < 2 ^ 32 \<Longrightarrow> unat (of_nat n :: u32) = n"
  by (simp add: unsigned_of_nat take_bit_nat_eq_self)

lemma PutLengthPrefixedSlice_append:
  "PutLengthPrefixedSlice dst v = dst @ PutLengthPrefixedSlice [] v"
  by (simp add: PutLengthPrefixedSlice_def PutVarint32_def)

lemma GetLengthPrefixedSlice_Put [simp, codec]:
  assumes "length v < 2 ^ 32"
  shows "GetLengthPrefixedSlice (PutLengthPrefixedSlice [] v @ rest) = (Some v, rest)"
  using assms
  by (simp add: GetLengthPrefixedSlice_def PutLengthPrefixedSlice_def PutVarint32_def
      unat_of_nat_32 remove_prefix_def)

lemma GetLengthPrefixedSlice_ptr_Put [codec]:
  assumes "length v < 2 ^ 32"
  shows "GetLengthPrefixedSlice_ptr (PutLengthPrefixedSlice [] v @ rest) = Some v"
proof -
  let ?e = "EncodeVarint32 (of_nat (length v))"
  have "take 5 (PutLengthPrefixedSlice [] v @ rest) = ?e @ take (5 - length ?e) (v @ rest)"
    using length_EncodeVarint32 [of "of_nat (length v)"]
    by (simp add: PutLengthPrefixedSlice_def PutVarint32_def)
  moreover have "PutLengthPrefixedSlice [] v @ rest = ?e @ v @ rest"
    by (simp add: PutLengthPrefixedSlice_def PutVarint32_def)
  ultimately show ?thesis
    using assms by (simp add: GetLengthPrefixedSlice_ptr_def GetVarint32Ptr_Encode unat_of_nat_32)
qed

lemma fold_length: "fold (\<lambda>part t. t + length part) parts n = n + length (concat parts)"
  by (induction parts arbitrary: n) simp_all

lemma fold_append: "fold (\<lambda>part d. d @ part) parts d = d @ concat parts"
  by (induction parts arbitrary: d) simp_all

lemma PutLengthPrefixedSliceParts_eq:
  "PutLengthPrefixedSliceParts dst parts = PutLengthPrefixedSlice dst (concat parts)"
  by (simp add: PutLengthPrefixedSliceParts_def PutLengthPrefixedSliceParts_from_def fold_length
      fold_append PutLengthPrefixedSlice_def)

lemma PutLengthPrefixedSlicePartsWithPadding_eq:
  "PutLengthPrefixedSlicePartsWithPadding dst parts n =
     PutLengthPrefixedSlice dst (concat parts @ replicate n 0)"
  by (simp add: PutLengthPrefixedSlicePartsWithPadding_def PutLengthPrefixedSliceParts_from_def
      fold_length fold_append PutLengthPrefixedSlice_def add.commute)

lemma slice_until_loop_takeWhile: "slice_until_loop s d = length (takeWhile (\<lambda>c. c \<noteq> d) s)"
  by (induction s) auto

lemma slice_until_loop_split:
  "take (slice_until_loop s d) s = takeWhile (\<lambda>c. c \<noteq> d) s"
  "drop (slice_until_loop s d) s = dropWhile (\<lambda>c. c \<noteq> d) s"
  by (induction s) auto

lemma slice_until_loop_le: "slice_until_loop s d \<le> length s"
  by (induction s) auto

lemma GetSliceUntil_eq:
  "GetSliceUntil s d = (takeWhile (\<lambda>c. c \<noteq> d) s, drop 1 (dropWhile (\<lambda>c. c \<noteq> d) s))"
  using slice_until_loop_le [of s d]
  by (auto simp: GetSliceUntil_def Let_def remove_prefix_def slice_until_loop_split [symmetric])

section \<open>Properties\<close>

text \<open>
  C8: the unrolled varint32 writer appends one to five bytes, and the reader applied to what it
  appended, with any bytes following, gives the value back and leaves exactly what follows.
\<close>

theorem varint32_roundtrip:
  "\<exists>code. PutVarint32 dst v = dst @ code \<and> 1 \<le> length code \<and> length code \<le> 5
     \<and> GetVarint32 (code @ rest) = (Some v, rest)"
  using length_EncodeVarint32 [of v]
  by (intro exI [of _ "EncodeVarint32 v"]) (simp add: PutVarint32_def)

end
