(* ===== verification/Comparator.thy ===== *)
theory Comparator
  imports Slice
begin

text \<open>
  Key orders: the interface \<^verbatim>\<open>rocksdb::Comparator\<close> (include/rocksdb/comparator.h) and the two
  built-in orders (util/comparator.cc). A comparator object is the record of its virtual
  methods; the methods that change a \<^verbatim>\<open>std::string\<close> in place return the changed string.

  The locale \<open>key_order\<close> is the contract the interface documents: a total order on the keys
  of a domain, an equality test that agrees with it, and the two shortening methods, which
  stay between their bounds. It is interpreted here on both built-in comparators and, in the
  theory of internal keys, on the comparator RocksDB builds from a user's one.
\<close>

section \<open>The interface\<close>

record comparator =
  cmp_Name :: bytes
  Compare :: "bytes \<Rightarrow> bytes \<Rightarrow> int"
  Equal :: "bytes \<Rightarrow> bytes \<Rightarrow> bool"
  FindShortestSeparator :: "bytes \<Rightarrow> bytes \<Rightarrow> bytes"
  FindShortSuccessor :: "bytes \<Rightarrow> bytes"
  IsSameLengthImmediateSuccessor :: "bytes \<Rightarrow> bytes \<Rightarrow> bool"
  CanKeysWithDifferentByteContentsBeEqual :: bool
  CompareWithoutTimestamp :: "bytes \<Rightarrow> bytes \<Rightarrow> int"
  CompareTimestamp :: "bytes \<Rightarrow> bytes \<Rightarrow> int"
  timestamp_size :: nat

text \<open>The methods the base class gives an implementation, over the \<^verbatim>\<open>Compare\<close> of a subclass.\<close>

definition base_comparator ::
  "nat \<Rightarrow> bytes \<Rightarrow> (bytes \<Rightarrow> bytes \<Rightarrow> int) \<Rightarrow> (bytes \<Rightarrow> bytes \<Rightarrow> bytes) \<Rightarrow> (bytes \<Rightarrow> bytes) \<Rightarrow> comparator"
where
  "base_comparator ts_sz nm cmp sep succ =
     \<lparr>cmp_Name = nm, Compare = cmp, Equal = (\<lambda>a b. cmp a b = 0),
      FindShortestSeparator = sep, FindShortSuccessor = succ,
      IsSameLengthImmediateSuccessor = (\<lambda>s t. False),
      CanKeysWithDifferentByteContentsBeEqual = True,
      CompareWithoutTimestamp = cmp, CompareTimestamp = (\<lambda>ts1 ts2. 0),
      timestamp_size = ts_sz\<rparr>"

section \<open>The bytewise order\<close>

text \<open>From \<open>i\<close> on, the first byte that is not 0xff is incremented and the string cut after it.\<close>

function skip_ff_loop :: "bytes \<Rightarrow> nat \<Rightarrow> bytes" where
  "skip_ff_loop start i =
     (if i < length start then
        (if start ! i < 0xff then take (i + 1) (start[i := start ! i + 1])
         else skip_ff_loop start (i + 1))
      else start)"
  by pat_completeness auto
termination
  by (relation "measure (\<lambda>(start, i). length start - i)") auto

declare skip_ff_loop.simps [simp del]

definition bytewise_FindShortestSeparator :: "bytes \<Rightarrow> bytes \<Rightarrow> bytes" where
  "bytewise_FindShortestSeparator start limit =
     (let min_length = min (length start) (length limit);
          diff_index = difference_loop 0 min_length start limit
      in if diff_index \<ge> min_length then start
         else
           (let start_byte = start ! diff_index; limit_byte = limit ! diff_index
            in if start_byte \<ge> limit_byte then start
               else if diff_index < length limit - 1 \<or> uint start_byte + 1 < uint limit_byte
               then take (diff_index + 1) (start[diff_index := start ! diff_index + 1])
               else skip_ff_loop start (diff_index + 1)))"

function short_successor_loop :: "bytes \<Rightarrow> nat \<Rightarrow> bytes" where
  "short_successor_loop key i =
     (if i < length key then
        (let byte = key ! i
         in if byte \<noteq> 0xff then take (i + 1) (key[i := byte + 1])
            else short_successor_loop key (i + 1))
      else key)"
  by pat_completeness auto
termination
  by (relation "measure (\<lambda>(key, i). length key - i)") auto

declare short_successor_loop.simps [simp del]

definition bytewise_FindShortSuccessor :: "bytes \<Rightarrow> bytes" where
  "bytewise_FindShortSuccessor key = short_successor_loop key 0"

definition bytewise_IsSameLengthImmediateSuccessor :: "bytes \<Rightarrow> bytes \<Rightarrow> bool" where
  "bytewise_IsSameLengthImmediateSuccessor s t =
     (if length s \<noteq> length t \<or> length s = 0 then False
      else
        (let diff_ind = difference_offset s t
         in if diff_ind \<ge> length s then False
            else
              (let byte_s = s ! diff_ind; byte_t = t ! diff_ind
               in if byte_s \<noteq> 0xff \<and> uint byte_s + 1 = uint byte_t
                  then list_all (\<lambda>i. s ! i = 0xff \<and> t ! i = 0x00) [diff_ind + 1..<length s]
                  else False)))"

definition BytewiseComparator :: comparator where
  "BytewiseComparator =
     \<lparr>cmp_Name = str ''leveldb.BytewiseComparator'',
      Compare = slice_compare, Equal = slice_eq,
      FindShortestSeparator = bytewise_FindShortestSeparator,
      FindShortSuccessor = bytewise_FindShortSuccessor,
      IsSameLengthImmediateSuccessor = bytewise_IsSameLengthImmediateSuccessor,
      CanKeysWithDifferentByteContentsBeEqual = False,
      CompareWithoutTimestamp = slice_compare,
      CompareTimestamp = (\<lambda>ts1 ts2. 0),
      timestamp_size = 0\<rparr>"

section \<open>The reverse bytewise order\<close>

definition reverse_FindShortestSeparator :: "bytes \<Rightarrow> bytes \<Rightarrow> bytes" where
  "reverse_FindShortestSeparator start limit =
     (let min_length = min (length start) (length limit);
          diff_index = difference_loop 0 min_length start limit
      in if diff_index = min_length then start
         else
           (let start_byte = start ! diff_index; limit_byte = limit ! diff_index
            in if start_byte > limit_byte \<and> diff_index < length start - 1
               then take (diff_index + 1) start
               else start))"

text \<open>What the class does not override it inherits from the bytewise one.\<close>

definition ReverseBytewiseComparator :: comparator where
  "ReverseBytewiseComparator =
     BytewiseComparator
       \<lparr>cmp_Name := str ''rocksdb.ReverseBytewiseComparator'',
        Compare := (\<lambda>a b. - slice_compare a b),
        FindShortestSeparator := reverse_FindShortestSeparator,
        FindShortSuccessor := (\<lambda>key. key),
        CanKeysWithDifferentByteContentsBeEqual := False,
        CompareWithoutTimestamp := (\<lambda>a b. - slice_compare a b)\<rparr>"

section \<open>The contract\<close>

locale key_order =
  fixes cmp :: comparator and dom :: "bytes \<Rightarrow> bool"
  assumes Compare_swap: "dom a \<Longrightarrow> dom b \<Longrightarrow> Compare cmp a b < 0 \<longleftrightarrow> 0 < Compare cmp b a"
    and Compare_trans: "dom a \<Longrightarrow> dom b \<Longrightarrow> dom c \<Longrightarrow>
      Compare cmp a b \<le> 0 \<Longrightarrow> Compare cmp b c \<le> 0 \<Longrightarrow> Compare cmp a c \<le> 0"
    and Equal_iff: "dom a \<Longrightarrow> dom b \<Longrightarrow> Equal cmp a b \<longleftrightarrow> Compare cmp a b = 0"
    and separator_dom: "dom s \<Longrightarrow> dom l \<Longrightarrow> dom (FindShortestSeparator cmp s l)"
    and separator_ge: "dom s \<Longrightarrow> dom l \<Longrightarrow> Compare cmp s l < 0 \<Longrightarrow>
      Compare cmp s (FindShortestSeparator cmp s l) \<le> 0"
    and separator_less: "dom s \<Longrightarrow> dom l \<Longrightarrow> Compare cmp s l < 0 \<Longrightarrow>
      Compare cmp (FindShortestSeparator cmp s l) l < 0"
    and separator_same: "dom s \<Longrightarrow> dom l \<Longrightarrow> Compare cmp s l = 0 \<Longrightarrow>
      Compare cmp s (FindShortestSeparator cmp s l) = 0"
    and separator_length: "dom s \<Longrightarrow> dom l \<Longrightarrow>
      length (FindShortestSeparator cmp s l) \<le> length s"
    and successor_dom: "dom k \<Longrightarrow> dom (FindShortSuccessor cmp k)"
    and successor_ge: "dom k \<Longrightarrow> Compare cmp k (FindShortSuccessor cmp k) \<le> 0"
    and successor_length: "dom k \<Longrightarrow> length (FindShortSuccessor cmp k) \<le> length k"
begin

lemma Compare_self: "dom a \<Longrightarrow> Compare cmp a a = 0"
  using Compare_swap [of a a] by linarith

lemma Compare_zero_swap: "dom a \<Longrightarrow> dom b \<Longrightarrow> Compare cmp a b = 0 \<longleftrightarrow> Compare cmp b a = 0"
  using Compare_swap [of a b] Compare_swap [of b a] by linarith

lemma Compare_le_swap: "dom a \<Longrightarrow> dom b \<Longrightarrow> Compare cmp a b \<le> 0 \<longleftrightarrow> \<not> Compare cmp b a < 0"
  using Compare_swap [of b a] by linarith

lemma Compare_total: "dom a \<Longrightarrow> dom b \<Longrightarrow> Compare cmp a b \<le> 0 \<or> Compare cmp b a < 0"
  using Compare_swap [of b a] by linarith

lemma Compare_le_less_trans:
  assumes "dom a" "dom b" "dom c" "Compare cmp a b \<le> 0" "Compare cmp b c < 0"
  shows "Compare cmp a c < 0"
proof (rule ccontr)
  assume "\<not> Compare cmp a c < 0"
  then have "Compare cmp c a \<le> 0" using Compare_le_swap assms by blast
  then have "Compare cmp c b \<le> 0" using Compare_trans assms by blast
  then show False using Compare_le_swap assms by blast
qed

lemma Compare_less_le_trans:
  assumes "dom a" "dom b" "dom c" "Compare cmp a b < 0" "Compare cmp b c \<le> 0"
  shows "Compare cmp a c < 0"
proof (rule ccontr)
  assume "\<not> Compare cmp a c < 0"
  then have "Compare cmp c a \<le> 0" using Compare_le_swap assms by blast
  then have "Compare cmp b a \<le> 0" using Compare_trans assms by blast
  then show False using Compare_le_swap assms by blast
qed

lemma Compare_less_trans:
  assumes "dom a" "dom b" "dom c" "Compare cmp a b < 0" "Compare cmp b c < 0"
  shows "Compare cmp a c < 0"
  using assms Compare_less_le_trans by (meson less_le_not_le)

lemma Compare_cong_left:
  assumes "dom a" "dom b" "dom c" "Compare cmp a b = 0"
  shows "Compare cmp a c < 0 \<longleftrightarrow> Compare cmp b c < 0" "Compare cmp a c = 0 \<longleftrightarrow> Compare cmp b c = 0"
proof -
  have ba: "Compare cmp b a = 0" using assms Compare_zero_swap by blast
  show less: "Compare cmp a c < 0 \<longleftrightarrow> Compare cmp b c < 0"
    using assms ba Compare_le_less_trans [of a b c] Compare_le_less_trans [of b a c] by auto
  have "Compare cmp c a < 0 \<longleftrightarrow> Compare cmp c b < 0"
    using assms ba Compare_less_le_trans [of c a b] Compare_less_le_trans [of c b a] by auto
  with less show "Compare cmp a c = 0 \<longleftrightarrow> Compare cmp b c = 0"
    using Compare_swap [of c a] Compare_swap [of c b] assms by (auto simp: linorder_neq_iff)
qed

end

text \<open>A user's order covers every byte string.\<close>

locale user_key_order = key_order cmp "\<lambda>k. True" for cmp

text \<open>An order that tells keys with different bytes apart, as both built-in ones do.\<close>

locale exact_key_order = user_key_order +
  assumes Compare_exact: "Compare cmp a b = 0 \<Longrightarrow> a = b"
begin

lemma Compare_zero_iff: "Compare cmp a b = 0 \<longleftrightarrow> a = b"
  using Compare_exact Compare_self [OF TrueI] by blast

lemma Equal_eq: "Equal cmp a b \<longleftrightarrow> a = b"
  by (simp add: Equal_iff Compare_zero_iff)

end

section \<open>Lemmas: shortening\<close>

text \<open>Both loops compute the same structural function.\<close>

fun bump :: "bytes \<Rightarrow> bytes" where
  "bump [] = []"
| "bump (b # bs) = (if b = 0xff then b # bump bs else [b + 1])"

lemma byte_less_ff: "(b :: byte) < 0xff \<longleftrightarrow> b \<noteq> 0xff"
proof -
  have "(0xff :: byte) = - 1" by simp
  then show ?thesis by (simp only: word_order.not_eq_extremum)
qed

lemma take_Suc_update: "i < length xs \<Longrightarrow> take (Suc i) (xs[i := y]) = take i xs @ [y]"
  by (simp add: take_Suc_conv_app_nth)

lemma skip_ff_loop_bump: "skip_ff_loop s i = take i s @ bump (drop i s)"
proof (induction s i rule: skip_ff_loop.induct)
  case (1 s i)
  show ?case
  proof (cases "i < length s")
    case True
    then have "drop i s = s ! i # drop (Suc i) s" by (simp add: Cons_nth_drop_Suc)
    with True 1 show ?thesis
      by (subst skip_ff_loop.simps) (auto simp: byte_less_ff take_Suc_update take_Suc_conv_app_nth)
  qed (simp add: skip_ff_loop.simps [of s i])
qed

lemma short_successor_loop_skip: "short_successor_loop key i = skip_ff_loop key i"
  by (induction key i rule: short_successor_loop.induct)
    (simp add: short_successor_loop.simps skip_ff_loop.simps byte_less_ff Let_def)

lemma FindShortSuccessor_bump: "bytewise_FindShortSuccessor key = bump key"
  by (simp add: bytewise_FindShortSuccessor_def short_successor_loop_skip skip_ff_loop_bump)

lemma unat_byte_inc: "b \<noteq> 0xff \<Longrightarrow> unat ((b :: byte) + 1) = unat b + 1"
proof -
  assume "b \<noteq> 0xff"
  then have "unat b \<noteq> 255" by (simp add: word_unat_eq_iff)
  with unat_byte_lt [of b] have "unat b + 1 < 256" by simp
  then show ?thesis by (simp add: unat_word_ariths)
qed

lemma byte_less_Suc: "b \<noteq> 0xff \<Longrightarrow> (b :: byte) < b + 1"
  by (simp add: word_less_nat_alt unat_byte_inc)

lemma bump_ge: "s \<le> bump s"
  by (induction s) (auto simp: byte_less_Suc)

lemma bump_length: "length (bump s) \<le> length s"
  by (induction s) auto

lemma lcp_split:
  obtains p a' b' where "a = p @ a'" "b = p @ b'" "longest_common_prefix a b = p"
    "a' = [] \<or> b' = [] \<or> hd a' \<noteq> hd b'"
proof -
  have "\<exists>p a' b'. a = p @ a' \<and> b = p @ b' \<and> longest_common_prefix a b = p
      \<and> (a' = [] \<or> b' = [] \<or> hd a' \<noteq> hd b')"
  proof (induction a b rule: longest_common_prefix.induct)
    case (1 x xs y ys)
    show ?case
    proof (cases "x = y")
      case True
      with 1 obtain p a' b' where "xs = p @ a'" "ys = p @ b'" "longest_common_prefix xs ys = p"
        "a' = [] \<or> b' = [] \<or> hd a' \<noteq> hd b'" by blast
      with True show ?thesis
        by (intro exI [of _ "x # p"] exI [of _ a'] exI [of _ b']) simp
    qed (intro exI [of _ "[]"] exI [of _ "x # xs"] exI [of _ "y # ys"], simp)
  qed auto
  then show ?thesis using that by blast
qed

lemma difference_loop_append:
  assumes "a' = [] \<or> b' = [] \<or> hd a' \<noteq> hd b'"
  shows "difference_loop 0 (min (length (p @ a')) (length (p @ b'))) (p @ a') (p @ b') = length p"
proof -
  have "longest_common_prefix (p @ a') (p @ b') = p"
    using assms by (induction p) (cases a'; cases b'; auto)+
  then show ?thesis by (subst difference_loop_lcp) simp_all
qed

lemma append_less_same [simp]: "(p @ a < p @ (b :: bytes)) = (a < b)"
  by (induction p) auto

lemma append_le_same [simp]: "(p @ a \<le> p @ (b :: bytes)) = (a \<le> b)"
  by (induction p) auto

text \<open>The two separators, on strings split after their common prefix.\<close>

lemma bytewise_sep_split:
  assumes "a' = [] \<or> b' = [] \<or> hd a' \<noteq> hd b'"
  shows "bytewise_FindShortestSeparator (p @ a') (p @ b') =
    p @ (case (a', b') of
           (x # xs, y # ys) \<Rightarrow>
             if y \<le> x then a' else if ys \<noteq> [] \<or> uint x + 1 < uint y then [x + 1] else x # bump xs
         | _ \<Rightarrow> a')"
  by (simp only: bytewise_FindShortestSeparator_def Let_def difference_loop_append [OF assms])
    (auto simp: skip_ff_loop_bump nth_append list_update_append not_le split: list.splits)

lemma reverse_sep_split:
  assumes "a' = [] \<or> b' = [] \<or> hd a' \<noteq> hd b'"
  shows "reverse_FindShortestSeparator (p @ a') (p @ b') =
    p @ (case (a', b') of
           (x # xs, y # ys) \<Rightarrow> if y < x \<and> xs \<noteq> [] then [x] else a'
         | _ \<Rightarrow> a')"
  by (simp only: reverse_FindShortestSeparator_def Let_def difference_loop_append [OF assms])
    (auto simp: nth_append split: list.splits)

lemma byte_less_not_ff: "(x :: byte) < y \<Longrightarrow> x \<noteq> 0xff"
  using unat_byte_lt [of y] by (auto simp: word_less_nat_alt)

lemma byte_inc_le:
  assumes "(x :: byte) < y"
  shows "x < x + 1" "x + 1 \<le> y"
  using assms unat_byte_inc [OF byte_less_not_ff [OF assms]]
  unfolding word_less_nat_alt word_le_nat_alt by linarith+

lemma byte_inc_less:
  assumes "(x :: byte) < y" "uint x + 1 < uint y"
  shows "x + 1 < y"
  using assms unat_byte_inc [OF byte_less_not_ff [OF assms(1)]]
  unfolding word_less_nat_alt uint_nat by linarith

lemma bytewise_separator:
  assumes "s < l"
  shows "s \<le> bytewise_FindShortestSeparator s l" "bytewise_FindShortestSeparator s l < l"
proof -
  obtain p a b where split: "s = p @ a" "l = p @ b" and diff: "a = [] \<or> b = [] \<or> hd a \<noteq> hd b"
    by (rule lcp_split [of s l])
  have "a < b" using assms split by simp
  have "s \<le> bytewise_FindShortestSeparator s l \<and> bytewise_FindShortestSeparator s l < l"
  proof (cases "\<exists>x xs y ys. a = x # xs \<and> b = y # ys")
    case True
    then obtain x xs y ys where ab: "a = x # xs" "b = y # ys" by blast
    with \<open>a < b\<close> diff have "x < y" by auto
    then show ?thesis
      unfolding split bytewise_sep_split [OF diff] using byte_inc_le [of x y] byte_inc_less [of x y]
      by (cases "x + 1 = y") (auto simp: ab bump_ge neq_Nil_conv)
  next
    case False
    then have "bytewise_FindShortestSeparator s l = s"
      unfolding split bytewise_sep_split [OF diff] by (auto split: list.splits)
    with assms show ?thesis by simp
  qed
  then show "s \<le> bytewise_FindShortestSeparator s l" "bytewise_FindShortestSeparator s l < l"
    by simp_all
qed

lemma bytewise_separator_length: "length (bytewise_FindShortestSeparator s l) \<le> length s"
proof -
  obtain p a b where split: "s = p @ a" "l = p @ b" and diff: "a = [] \<or> b = [] \<or> hd a \<noteq> hd b"
    by (rule lcp_split [of s l])
  show ?thesis
    unfolding split bytewise_sep_split [OF diff] by (auto simp: bump_length split: list.splits)
qed

lemma separator_same_string [simp]:
  "bytewise_FindShortestSeparator s s = s" "reverse_FindShortestSeparator s s = s"
proof -
  obtain p a b where "s = p @ a" "s = p @ b" and diff: "a = [] \<or> b = [] \<or> hd a \<noteq> hd b"
    by (rule lcp_split [of s s])
  then have s: "s = p @ []" and nil: "([] :: bytes) = [] \<or> [] = [] \<or> hd [] \<noteq> hd []" by auto
  show "bytewise_FindShortestSeparator s s = s" "reverse_FindShortestSeparator s s = s"
    using bytewise_sep_split [OF nil, of p] reverse_sep_split [OF nil, of p] s by simp_all
qed

lemma reverse_separator:
  assumes "l < s"
  shows "reverse_FindShortestSeparator s l \<le> s" "l < reverse_FindShortestSeparator s l"
proof -
  obtain p a b where split: "s = p @ a" "l = p @ b" and diff: "a = [] \<or> b = [] \<or> hd a \<noteq> hd b"
    by (rule lcp_split [of s l])
  have "b < a" using assms split by simp
  with diff show "reverse_FindShortestSeparator s l \<le> s" "l < reverse_FindShortestSeparator s l"
    unfolding split reverse_sep_split [OF diff] by (auto split: list.splits)
qed

lemma reverse_separator_length: "length (reverse_FindShortestSeparator s l) \<le> length s"
proof -
  obtain p a b where split: "s = p @ a" "l = p @ b" and diff: "a = [] \<or> b = [] \<or> hd a \<noteq> hd b"
    by (rule lcp_split [of s l])
  show ?thesis
    unfolding split reverse_sep_split [OF diff] by (auto split: list.splits)
qed

section \<open>Both built-in comparators keep the contract\<close>

lemmas builtin_defs = BytewiseComparator_def ReverseBytewiseComparator_def

interpretation bytewise: exact_key_order BytewiseComparator
  by unfold_locales
    (auto simp: builtin_defs bytewise_separator bytewise_separator_length FindShortSuccessor_bump
      bump_ge bump_length intro: less_imp_le bytewise_separator)

interpretation reverse: exact_key_order ReverseBytewiseComparator
  by unfold_locales
    (auto simp: builtin_defs reverse_separator reverse_separator_length)

section \<open>Immediate successors\<close>

text \<open>The number a string writes in base 256, most significant digit first.\<close>

definition be_value :: "bytes \<Rightarrow> nat" where
  "be_value s = fold (\<lambda>b n. 256 * n + unat b) s 0"

lemma be_value_fold: "fold (\<lambda>b n. 256 * n + unat b) s m = 256 ^ length s * m + be_value s"
proof (induction s arbitrary: m)
  case (Cons b s)
  show ?case
    using Cons [of "256 * m + unat b"] Cons [of "unat b"]
    by (simp add: be_value_def algebra_simps)
qed (simp add: be_value_def)

lemma be_value_Cons [simp]: "be_value (b # s) = 256 ^ length s * unat b + be_value s"
  using be_value_fold [of s "unat b"] by (simp add: be_value_def)

lemma be_value_Nil [simp]: "be_value [] = 0"
  by (simp add: be_value_def)

lemma be_value_bound: "be_value s < 256 ^ length s"
proof (induction s)
  case (Cons b s)
  have "be_value (b # s) < 256 ^ length s * unat b + 256 ^ length s"
    using Cons by simp
  also have "\<dots> = 256 ^ length s * (unat b + 1)" by simp
  also have "\<dots> \<le> 256 ^ length s * 256"
    by (rule mult_le_mono2) (use unat_byte_lt [of b] in simp)
  finally show ?case by simp
qed simp

lemma be_value_digits:
  assumes "x < (m :: nat)" "y < m"
  shows "m * p + x < m * q + y \<longleftrightarrow> p < q \<or> p = q \<and> x < y"
    and "m * p + x + 1 = m * q + y \<longleftrightarrow>
      p = q \<and> x + 1 = y \<or> p + 1 = q \<and> x + 1 = m \<and> y = 0"
proof -
  have step: "m * (p' + 1) \<le> m * q'" if "p' < q'" for p' q' :: nat
    using that by (intro mult_le_mono2) simp
  show "m * p + x < m * q + y \<longleftrightarrow> p < q \<or> p = q \<and> x < y"
    using assms step [of p q] step [of q p]
    by (cases p q rule: linorder_cases) (auto simp: algebra_simps)
  have two: "m * (p + 2) \<le> m * q" if "p + 1 < q"
    using that by (intro mult_le_mono2) simp
  show "m * p + x + 1 = m * q + y \<longleftrightarrow>
      p = q \<and> x + 1 = y \<or> p + 1 = q \<and> x + 1 = m \<and> y = 0"
    using assms step [of q p] two
    by (cases "p + 1" q rule: linorder_cases; cases "p = q") (auto simp: algebra_simps)
qed

lemma be_value_less:
  "length s = length t \<Longrightarrow> be_value s < be_value t \<longleftrightarrow> s < t"
proof (induction s t rule: list_induct2)
  case (Cons x xs y ys)
  then show ?case
    using be_value_digits(1) [OF be_value_bound [of xs], of "be_value ys" "unat x" "unat y"]
      be_value_bound [of ys]
    by (auto simp: word_less_nat_alt word_unat_eq_iff)
qed simp

lemma be_value_append: "be_value (p @ a) = 256 ^ length a * be_value p + be_value a"
  using be_value_fold [of a "be_value p"] by (simp add: be_value_def)

lemma be_value_zero: "be_value s = 0 \<longleftrightarrow> (\<forall>i < length s. s ! i = 0)"
proof (induction s)
  case (Cons b s)
  then show ?case by (auto simp: less_Suc_eq_0_disj unsigned_eq_0_iff)
qed simp

lemma be_value_max: "be_value s + 1 = 256 ^ length s \<longleftrightarrow> (\<forall>i < length s. s ! i = 0xff)"
proof (induction s)
  case (Cons b s)
  have "be_value (b # s) + 1 = 256 ^ length (b # s) \<longleftrightarrow>
      256 ^ length s * unat b + be_value s + 1 = 256 ^ length s * 256 + 0"
    by (simp add: algebra_simps)
  also have "\<dots> \<longleftrightarrow> unat b + 1 = 256 \<and> be_value s + 1 = 256 ^ length s"
    using be_value_digits(2) [OF be_value_bound [of s], of 0 "unat b" 256] unat_byte_lt [of b]
    by auto
  also have "unat b + 1 = 256 \<longleftrightarrow> b = 0xff"
    by (auto simp: word_unat_eq_iff)
  finally show ?case using Cons by (auto simp: less_Suc_eq_0_disj)
qed simp

lemma be_value_surj: "n < 256 ^ k \<Longrightarrow> \<exists>u. length u = k \<and> be_value u = n"
proof (induction k arbitrary: n)
  case (Suc k)
  have "n mod 256 ^ k < 256 ^ k" by simp
  from Suc.IH [OF this] obtain u where u: "length u = k" "be_value u = n mod 256 ^ k" by blast
  have "n div 256 ^ k < 256"
    using Suc.prems by (simp add: less_mult_imp_div_less)
  then have "unat (of_nat (n div 256 ^ k) :: byte) = n div 256 ^ k"
    by (simp add: unsigned_of_nat take_bit_nat_eq_self)
  with u have "length (of_nat (n div 256 ^ k) # u) = Suc k
      \<and> be_value (of_nat (n div 256 ^ k) # u) = n"
    by simp
  then show ?case by blast
qed simp

lemma IsSameLengthImmediateSuccessor_value:
  "bytewise_IsSameLengthImmediateSuccessor s t \<longleftrightarrow>
     length s = length t \<and> be_value s + 1 = be_value t"
proof (cases "length s = length t")
  case True
  obtain p a b where split: "s = p @ a" "t = p @ b" and diff: "a = [] \<or> b = [] \<or> hd a \<noteq> hd b"
    and lcp: "longest_common_prefix s t = p"
    by (rule lcp_split [of s t])
  have off: "difference_offset s t = length p" by (simp add: difference_offset_lcp lcp)
  show ?thesis
  proof (cases a)
    case Nil
    with split True have "s = t" by simp
    then show ?thesis
      using off split Nil by (simp add: bytewise_IsSameLengthImmediateSuccessor_def Let_def)
  next
    case (Cons x xs)
    with split True obtain y ys where b: "b = y # ys" and len: "length xs = length ys"
      by (cases b) auto
    from Cons b diff have "x \<noteq> y" by simp
    have "bytewise_IsSameLengthImmediateSuccessor s t \<longleftrightarrow>
        x \<noteq> 0xff \<and> uint x + 1 = uint y \<and>
        (\<forall>i \<in> set [length p + 1..<length s]. s ! i = 0xff \<and> t ! i = 0)"
      using True off split Cons b
      by (simp add: bytewise_IsSameLengthImmediateSuccessor_def Let_def list_all_iff)
    also have "(\<forall>i \<in> set [length p + 1..<length s]. s ! i = 0xff \<and> t ! i = 0) \<longleftrightarrow>
        (\<forall>j < length xs. xs ! j = 0xff \<and> ys ! j = 0)"
      (is "?L \<longleftrightarrow> ?R")
    proof
      assume L: ?L
      show ?R
      proof (intro allI impI)
        fix j assume "j < length xs"
        then have "length p + 1 + j \<in> set [length p + 1..<length s]" using split Cons by simp linarith
        from bspec [OF L this] show "xs ! j = 0xff \<and> ys ! j = 0"
          using split Cons b len by (simp add: nth_append)
      qed
    next
      assume R: ?R
      show ?L
      proof
        fix i assume "i \<in> set [length p + 1..<length s]"
        then obtain j where "i = length p + 1 + j" "j < length xs"
          using split Cons by (auto simp: le_iff_add)
        with R show "s ! i = 0xff \<and> t ! i = 0" using split Cons b len by (simp add: nth_append)
      qed
    qed
    also have "x \<noteq> 0xff \<and> uint x + 1 = uint y \<and> ?R \<longleftrightarrow>
        unat x + 1 = unat y \<and> be_value xs + 1 = 256 ^ length xs \<and> be_value ys = 0"
    proof -
      have "x \<noteq> 0xff \<and> uint x + 1 = uint y \<longleftrightarrow> unat x + 1 = unat y"
      proof -
        have "uint x + 1 = uint y \<longleftrightarrow> unat x + 1 = unat y" unfolding uint_nat by linarith
        moreover have "x = 0xff \<longleftrightarrow> unat x = 255" by (simp add: word_unat_eq_iff)
        ultimately show ?thesis using unat_byte_lt [of y] by auto
      qed
      moreover have "?R \<longleftrightarrow> be_value xs + 1 = 256 ^ length xs \<and> be_value ys = 0"
        using len unfolding be_value_max be_value_zero by auto
      ultimately show ?thesis by blast
    qed
    also have "\<dots> \<longleftrightarrow> be_value a + 1 = be_value b"
    proof -
      have ne: "unat x \<noteq> unat y" using \<open>x \<noteq> y\<close> by (simp add: word_unat_eq_iff)
      have "be_value ys < 256 ^ length xs" using be_value_bound [of ys] len by simp
      from be_value_digits(2) [OF be_value_bound [of xs] this, of "unat x" "unat y"] ne
      show ?thesis by (auto simp only: Cons b be_value_Cons len)
    qed
    also have "\<dots> \<longleftrightarrow> be_value s + 1 = be_value t"
      using split True by (simp add: be_value_append)
    finally show ?thesis using True by simp
  qed
qed (simp add: bytewise_IsSameLengthImmediateSuccessor_def)

section \<open>Properties\<close>

text \<open>
  The successor test of the bytewise comparator is exact: it holds just when the strings
  have the same length, the second is larger, and no string of that length lies between.
\<close>

theorem immediate_successor_exact:
  "IsSameLengthImmediateSuccessor BytewiseComparator s t \<longleftrightarrow>
     length s = length t \<and> Compare BytewiseComparator s t < 0 \<and>
     \<not> (\<exists>u. length u = length s \<and> Compare BytewiseComparator s u < 0
           \<and> Compare BytewiseComparator u t < 0)"
proof (cases "length s = length t")
  case True
  have "(\<exists>u. length u = length s \<and> s < u \<and> u < t) \<longleftrightarrow> be_value s + 1 < be_value t"
  proof
    assume "\<exists>u. length u = length s \<and> s < u \<and> u < t"
    then obtain u where "length u = length s" "s < u" "u < t" by blast
    with True have "be_value s < be_value u" "be_value u < be_value t"
      by (simp_all add: be_value_less)
    then show "be_value s + 1 < be_value t" by simp
  next
    assume less: "be_value s + 1 < be_value t"
    with be_value_bound [of t] True have "be_value s + 1 < 256 ^ length s" by simp
    then obtain u where "length u = length s" "be_value u = be_value s + 1"
      using be_value_surj by blast
    with less True show "\<exists>u. length u = length s \<and> s < u \<and> u < t"
      by (intro exI [of _ u]) (simp flip: be_value_less)
  qed
  with True show ?thesis
    by (auto simp: builtin_defs IsSameLengthImmediateSuccessor_value be_value_less [symmetric])
qed (simp add: builtin_defs bytewise_IsSameLengthImmediateSuccessor_def)

end
