(* ===== verification/DbFormat.thy ===== *)
theory DbFormat
  imports Coding Comparator
begin

text \<open>
  Internal keys: db/dbformat.h, db/dbformat.cc and db/lookup_key.h. The engine stores every
  user key followed by eight bytes that hold a 56-bit sequence number and an 8-bit type, and
  orders the result by user key and then by decreasing number.

  The lemmas show that parsing inverts building, that the order on encoded keys is the order
  on parsed ones, that the comparator built from a user's comparator keeps the contract of
  \<open>key_order\<close>, and where the key of a lookup falls among the stored keys: before exactly the
  entries it is meant to find.
\<close>

section \<open>Types and numbers\<close>

text \<open>
  \<^verbatim>\<open>ValueType\<close> is an enumeration over \<^verbatim>\<open>unsigned char\<close> and the code casts bytes read from
  storage to it, so that every byte is a value of it.
\<close>

type_synonym ValueType = u8
type_synonym SequenceNumber = u64

abbreviation kTypeDeletion :: ValueType where "kTypeDeletion \<equiv> 0x0"
abbreviation kTypeValue :: ValueType where "kTypeValue \<equiv> 0x1"
abbreviation kTypeMerge :: ValueType where "kTypeMerge \<equiv> 0x2"
abbreviation kTypeLogData :: ValueType where "kTypeLogData \<equiv> 0x3"
abbreviation kTypeColumnFamilyDeletion :: ValueType where "kTypeColumnFamilyDeletion \<equiv> 0x4"
abbreviation kTypeColumnFamilyValue :: ValueType where "kTypeColumnFamilyValue \<equiv> 0x5"
abbreviation kTypeColumnFamilyMerge :: ValueType where "kTypeColumnFamilyMerge \<equiv> 0x6"
abbreviation kTypeSingleDeletion :: ValueType where "kTypeSingleDeletion \<equiv> 0x7"
abbreviation kTypeColumnFamilySingleDeletion :: ValueType where
  "kTypeColumnFamilySingleDeletion \<equiv> 0x8"
abbreviation kTypeBeginPrepareXID :: ValueType where "kTypeBeginPrepareXID \<equiv> 0x9"
abbreviation kTypeEndPrepareXID :: ValueType where "kTypeEndPrepareXID \<equiv> 0xA"
abbreviation kTypeCommitXID :: ValueType where "kTypeCommitXID \<equiv> 0xB"
abbreviation kTypeRollbackXID :: ValueType where "kTypeRollbackXID \<equiv> 0xC"
abbreviation kTypeNoop :: ValueType where "kTypeNoop \<equiv> 0xD"
abbreviation kTypeColumnFamilyRangeDeletion :: ValueType where
  "kTypeColumnFamilyRangeDeletion \<equiv> 0xE"
abbreviation kTypeRangeDeletion :: ValueType where "kTypeRangeDeletion \<equiv> 0xF"
abbreviation kTypeColumnFamilyBlobIndex :: ValueType where "kTypeColumnFamilyBlobIndex \<equiv> 0x10"
abbreviation kTypeBlobIndex :: ValueType where "kTypeBlobIndex \<equiv> 0x11"
abbreviation kTypeBeginPersistedPrepareXID :: ValueType where
  "kTypeBeginPersistedPrepareXID \<equiv> 0x12"
abbreviation kTypeBeginUnprepareXID :: ValueType where "kTypeBeginUnprepareXID \<equiv> 0x13"

definition kValueTypeForSeek :: ValueType where
  "kValueTypeForSeek = kTypeBlobIndex"

definition kValueTypeForSeekForPrev :: ValueType where
  "kValueTypeForSeekForPrev = kTypeDeletion"

definition IsValueType :: "ValueType \<Rightarrow> bool" where
  "IsValueType t \<longleftrightarrow> t \<le> kTypeMerge \<or> t = kTypeSingleDeletion \<or> t = kTypeBlobIndex"

definition IsExtendedValueType :: "ValueType \<Rightarrow> bool" where
  "IsExtendedValueType t \<longleftrightarrow> IsValueType t \<or> t = kTypeRangeDeletion"

definition kMaxSequenceNumber :: SequenceNumber where
  "kMaxSequenceNumber = push_bit 56 0x1 - 1"

definition kDisableGlobalSequenceNumber :: SequenceNumber where
  "kDisableGlobalSequenceNumber = - 1"

definition PackSequenceAndType :: "u64 \<Rightarrow> ValueType \<Rightarrow> u64" where
  "PackSequenceAndType seq t = push_bit 8 seq OR ucast t"

definition UnPackSequenceAndType :: "u64 \<Rightarrow> u64 \<times> ValueType" where
  "UnPackSequenceAndType packed = (drop_bit 8 packed, ucast (packed AND 0xff))"

datatype EntryType =
    kEntryPut | kEntryDelete | kEntrySingleDelete | kEntryMerge | kEntryRangeDeletion
  | kEntryBlobIndex | kEntryOther

definition GetEntryType :: "ValueType \<Rightarrow> EntryType" where
  "GetEntryType value_type =
     (if value_type = kTypeValue then kEntryPut
      else if value_type = kTypeDeletion then kEntryDelete
      else if value_type = kTypeSingleDeletion then kEntrySingleDelete
      else if value_type = kTypeMerge then kEntryMerge
      else if value_type = kTypeRangeDeletion then kEntryRangeDeletion
      else if value_type = kTypeBlobIndex then kEntryBlobIndex
      else kEntryOther)"

section \<open>Internal keys\<close>

record ParsedInternalKey =
  user_key :: bytes
  sequence :: SequenceNumber
  vtype :: ValueType

definition ParsedInternalKey_clear :: "ParsedInternalKey \<Rightarrow> ParsedInternalKey" where
  "ParsedInternalKey_clear k = k\<lparr>user_key := [], sequence := 0, vtype := kTypeDeletion\<rparr>"

definition InternalKeyEncodingLength :: "ParsedInternalKey \<Rightarrow> nat" where
  "InternalKeyEncodingLength key = length (user_key key) + 8"

definition AppendInternalKey :: "bytes \<Rightarrow> ParsedInternalKey \<Rightarrow> bytes" where
  "AppendInternalKey result key =
     PutFixed64 (result @ user_key key) (PackSequenceAndType (sequence key) (vtype key))"

definition AppendInternalKeyFooter :: "bytes \<Rightarrow> SequenceNumber \<Rightarrow> ValueType \<Rightarrow> bytes" where
  "AppendInternalKeyFooter result s t = PutFixed64 result (PackSequenceAndType s t)"

text \<open>
  \<open>None\<close> is the result \<^verbatim>\<open>false\<close>, after which the parsed key is undefined by contract. The
  subtractions below presume a key of eight bytes at least, as the code asserts.
\<close>

definition ParseInternalKey :: "bytes \<Rightarrow> ParsedInternalKey option" where
  "ParseInternalKey internal_key =
     (let n = length internal_key
      in if n < 8 then None
         else
           (let num = DecodeFixed64 (drop (n - 8) internal_key);
                c = ucast (num AND 0xff) :: u8;
                result = \<lparr>user_key = take (n - 8) internal_key, sequence = drop_bit 8 num, vtype = c\<rparr>
            in if IsExtendedValueType (vtype result) then Some result else None))"

record FullKey =
  fk_user_key :: bytes
  fk_sequence :: SequenceNumber
  fk_type :: EntryType

definition ParseFullKey :: "bytes \<Rightarrow> FullKey option" where
  "ParseFullKey internal_key =
     (case ParseInternalKey internal_key of
        None \<Rightarrow> None
      | Some ikey \<Rightarrow>
          Some \<lparr>fk_user_key = user_key ikey, fk_sequence = sequence ikey,
                fk_type = GetEntryType (vtype ikey)\<rparr>)"

definition ExtractUserKey :: "bytes \<Rightarrow> bytes" where
  "ExtractUserKey internal_key = take (length internal_key - 8) internal_key"

definition ExtractUserKeyAndStripTimestamp :: "bytes \<Rightarrow> nat \<Rightarrow> bytes" where
  "ExtractUserKeyAndStripTimestamp internal_key ts_sz =
     take (length internal_key - 8 - ts_sz) internal_key"

definition StripTimestampFromUserKey :: "bytes \<Rightarrow> nat \<Rightarrow> bytes" where
  "StripTimestampFromUserKey u ts_sz = take (length u - ts_sz) u"

definition ExtractInternalKeyFooter :: "bytes \<Rightarrow> u64" where
  "ExtractInternalKeyFooter internal_key =
     (let n = length internal_key in DecodeFixed64 (drop (n - 8) internal_key))"

definition ExtractValueType :: "bytes \<Rightarrow> ValueType" where
  "ExtractValueType internal_key =
     (let num = ExtractInternalKeyFooter internal_key in ucast (num AND 0xff))"

definition UpdateInternalKey :: "bytes \<Rightarrow> u64 \<Rightarrow> ValueType \<Rightarrow> bytes" where
  "UpdateInternalKey ikey seq t =
     (let newval = push_bit 8 seq OR ucast t
      in take (length ikey - 8) ikey @ EncodeFixed64 newval)"

definition GetInternalKeySeqno :: "bytes \<Rightarrow> u64" where
  "GetInternalKeySeqno internal_key =
     (let n = length internal_key;
          num = DecodeFixed64 (drop (n - 8) internal_key)
      in drop_bit 8 num)"

text \<open>The class \<^verbatim>\<open>InternalKey\<close> is its string \<^verbatim>\<open>rep_\<close>.\<close>

definition InternalKey :: "bytes \<Rightarrow> SequenceNumber \<Rightarrow> ValueType \<Rightarrow> bytes" where
  "InternalKey u s t = AppendInternalKey [] \<lparr>user_key = u, sequence = s, vtype = t\<rparr>"

definition SetMaxPossibleForUserKey :: "bytes \<Rightarrow> bytes \<Rightarrow> bytes" where
  "SetMaxPossibleForUserKey rep u =
     AppendInternalKey rep \<lparr>user_key = u, sequence = 0, vtype = 0\<rparr>"

definition SetMinPossibleForUserKey :: "bytes \<Rightarrow> bytes \<Rightarrow> bytes" where
  "SetMinPossibleForUserKey rep u =
     AppendInternalKey rep
       \<lparr>user_key = u, sequence = kMaxSequenceNumber, vtype = kValueTypeForSeek\<rparr>"

definition InternalKey_Valid :: "bytes \<Rightarrow> bool" where
  "InternalKey_Valid rep \<longleftrightarrow> ParseInternalKey rep \<noteq> None"

definition InternalKey_SetFrom :: "bytes \<Rightarrow> ParsedInternalKey \<Rightarrow> bytes" where
  "InternalKey_SetFrom rep p = AppendInternalKey [] p"

definition InternalKey_Set :: "bytes \<Rightarrow> bytes \<Rightarrow> SequenceNumber \<Rightarrow> ValueType \<Rightarrow> bytes" where
  "InternalKey_Set rep u s t = InternalKey_SetFrom rep \<lparr>user_key = u, sequence = s, vtype = t\<rparr>"

definition ConvertFromUserKey :: "bytes \<Rightarrow> SequenceNumber \<Rightarrow> ValueType \<Rightarrow> bytes" where
  "ConvertFromUserKey rep s t = AppendInternalKeyFooter rep s t"

section \<open>The order of internal keys\<close>

text \<open>
  The wrapper forwards to the user's comparator the methods it overrides; the others are
  those of the base class.
\<close>

definition UserComparatorWrapper :: "comparator \<Rightarrow> comparator" where
  "UserComparatorWrapper c =
     (base_comparator 0 (cmp_Name c) (Compare c) (FindShortestSeparator c) (FindShortSuccessor c))
       \<lparr>Equal := Equal c,
        IsSameLengthImmediateSuccessor := IsSameLengthImmediateSuccessor c,
        CanKeysWithDifferentByteContentsBeEqual := CanKeysWithDifferentByteContentsBeEqual c\<rparr>"

definition ikc_Compare :: "comparator \<Rightarrow> bytes \<Rightarrow> bytes \<Rightarrow> int" where
  "ikc_Compare user_comparator akey bkey =
     (let r = Compare user_comparator (ExtractUserKey akey) (ExtractUserKey bkey)
      in if r = 0
         then
           (let anum = DecodeFixed64 (drop (length akey - 8) akey);
                bnum = DecodeFixed64 (drop (length bkey - 8) bkey)
            in if anum > bnum then -1 else if anum < bnum then 1 else r)
         else r)"

definition CompareKeySeq :: "comparator \<Rightarrow> bytes \<Rightarrow> bytes \<Rightarrow> int" where
  "CompareKeySeq user_comparator akey bkey =
     (let r = Compare user_comparator (ExtractUserKey akey) (ExtractUserKey bkey)
      in if r = 0
         then
           (let anum = drop_bit 8 (DecodeFixed64 (drop (length akey - 8) akey));
                bnum = drop_bit 8 (DecodeFixed64 (drop (length bkey - 8) bkey))
            in if anum > bnum then -1 else if anum < bnum then 1 else r)
         else r)"

definition ikc_Compare_parsed ::
  "comparator \<Rightarrow> ParsedInternalKey \<Rightarrow> ParsedInternalKey \<Rightarrow> int" where
  "ikc_Compare_parsed user_comparator a b =
     (let r = Compare user_comparator (user_key a) (user_key b)
      in if r = 0
         then
           (if sequence a > sequence b then -1
            else if sequence a < sequence b then 1
            else if vtype a > vtype b then -1
            else if vtype a < vtype b then 1
            else r)
         else r)"

definition ikc_FindShortestSeparator :: "comparator \<Rightarrow> bytes \<Rightarrow> bytes \<Rightarrow> bytes" where
  "ikc_FindShortestSeparator user_comparator start limit =
     (let user_start = ExtractUserKey start;
          user_limit = ExtractUserKey limit;
          tmp = FindShortestSeparator user_comparator user_start user_limit
      in if length tmp \<le> length user_start \<and> Compare user_comparator user_start tmp < 0
         then PutFixed64 tmp (PackSequenceAndType kMaxSequenceNumber kValueTypeForSeek)
         else start)"

definition ikc_FindShortSuccessor :: "comparator \<Rightarrow> bytes \<Rightarrow> bytes" where
  "ikc_FindShortSuccessor user_comparator key =
     (let u = ExtractUserKey key;
          tmp = FindShortSuccessor user_comparator u
      in if length tmp \<le> length u \<and> Compare user_comparator u tmp < 0
         then PutFixed64 tmp (PackSequenceAndType kMaxSequenceNumber kValueTypeForSeek)
         else key)"

definition InternalKeyComparator :: "comparator \<Rightarrow> comparator" where
  "InternalKeyComparator c =
     (let user_comparator = UserComparatorWrapper c
      in base_comparator 0
           (str ''rocksdb.InternalKeyComparator:'' @ cmp_Name user_comparator)
           (ikc_Compare user_comparator)
           (ikc_FindShortestSeparator user_comparator)
           (ikc_FindShortSuccessor user_comparator))"

section \<open>Lookup keys\<close>

record LookupKey =
  lk_buf :: bytes
  lk_start :: nat
  lk_kstart :: nat
  lk_end :: nat

text \<open>
  The constructor fills a buffer and keeps three positions in it; \<open>ts\<close> is the timestamp the
  caller may give. The sum of the lengths is cut to 32 bits by the cast.
\<close>

definition LookupKey_new :: "bytes \<Rightarrow> SequenceNumber \<Rightarrow> bytes option \<Rightarrow> LookupKey" where
  "LookupKey_new u s ts =
     (let usize = length u;
          ts_sz = (case ts of None \<Rightarrow> 0 | Some t \<Rightarrow> length t);
          len = EncodeVarint32 (of_nat (usize + ts_sz + 8));
          rest = u @ (case ts of None \<Rightarrow> [] | Some t \<Rightarrow> t)
                   @ EncodeFixed64 (PackSequenceAndType s kValueTypeForSeek)
      in \<lparr>lk_buf = len @ rest, lk_start = 0, lk_kstart = length len,
          lk_end = length len + length rest\<rparr>)"

definition memtable_key :: "LookupKey \<Rightarrow> bytes" where
  "memtable_key k = take (lk_end k - lk_start k) (drop (lk_start k) (lk_buf k))"

definition internal_key :: "LookupKey \<Rightarrow> bytes" where
  "internal_key k = take (lk_end k - lk_kstart k) (drop (lk_kstart k) (lk_buf k))"

definition lookup_user_key :: "LookupKey \<Rightarrow> bytes" where
  "lookup_user_key k = take (lk_end k - lk_kstart k - 8) (drop (lk_kstart k) (lk_buf k))"

section \<open>Prefixes of internal keys and range tombstones\<close>

definition iks_Transform :: "slice_transform \<Rightarrow> bytes \<Rightarrow> bytes" where
  "iks_Transform transform src = Transform transform (ExtractUserKey src)"

definition iks_InDomain :: "slice_transform \<Rightarrow> bytes \<Rightarrow> bool" where
  "iks_InDomain transform src = InDomain transform (ExtractUserKey src)"

definition iks_InRange :: "slice_transform \<Rightarrow> bytes \<Rightarrow> bool" where
  "iks_InRange transform dst = InRange transform (ExtractUserKey dst)"

record RangeTombstone =
  rt_start_key :: bytes
  rt_end_key :: bytes
  rt_seq :: SequenceNumber

definition RangeTombstone_of :: "ParsedInternalKey \<Rightarrow> bytes \<Rightarrow> RangeTombstone" where
  "RangeTombstone_of parsed_key v =
     \<lparr>rt_start_key = user_key parsed_key, rt_end_key = v, rt_seq = sequence parsed_key\<rparr>"

definition RangeTombstone_Serialize :: "RangeTombstone \<Rightarrow> bytes \<times> bytes" where
  "RangeTombstone_Serialize rt =
     (let key = InternalKey (rt_start_key rt) (rt_seq rt) kTypeRangeDeletion;
          v = rt_end_key rt
      in (key, v))"

definition SerializeKey :: "RangeTombstone \<Rightarrow> bytes" where
  "SerializeKey rt = InternalKey (rt_start_key rt) (rt_seq rt) kTypeRangeDeletion"

definition SerializeEndKey :: "RangeTombstone \<Rightarrow> bytes" where
  "SerializeEndKey rt = InternalKey (rt_end_key rt) kMaxSequenceNumber kTypeRangeDeletion"

section \<open>Lemmas: numbers\<close>

lemma bit_seq_high: "seq \<le> kMaxSequenceNumber \<Longrightarrow> bit seq n \<Longrightarrow> n < 56"
proof (rule ccontr)
  assume le: "seq \<le> kMaxSequenceNumber" and b: "bit seq n" and n: "\<not> n < 56"
  have "unat seq < 2 ^ 56"
    using le by (simp add: kMaxSequenceNumber_def word_le_nat_alt)
  moreover have "2 ^ n \<le> unat seq"
  proof -
    have "bit (unat seq) n" using b by (simp add: bit_unsigned_iff)
    then show ?thesis by (metis bit_nat_def less_eq_div_iff_mult_less_eq not_less_eq_eq
        bot_nat_0.not_eq_extremum div_less even_zero leI)
  qed
  moreover have "(2 :: nat) ^ 56 \<le> 2 ^ n" using n by (intro power_increasing) simp_all
  ultimately show False by simp
qed

lemma Pack_type [simp]: "ucast (PackSequenceAndType s t) = t"
  by (rule bit_word_eqI) (auto simp: PackSequenceAndType_def bit_simps)

lemma Pack_seq_take: "drop_bit 8 (PackSequenceAndType s t) = take_bit 56 s"
  by (rule bit_word_eqI) (auto simp: PackSequenceAndType_def bit_simps dest: bit_imp_le_length)

lemma take_bit_seq: "s \<le> kMaxSequenceNumber \<Longrightarrow> take_bit 56 s = s"
  by (rule bit_word_eqI) (auto simp: bit_simps dest: bit_seq_high)

lemma Pack_seq [simp]: "s \<le> kMaxSequenceNumber \<Longrightarrow> drop_bit 8 (PackSequenceAndType s t) = s"
  by (simp add: Pack_seq_take take_bit_seq)

lemma UnPack_Pack [codec]:
  "s \<le> kMaxSequenceNumber \<Longrightarrow> UnPackSequenceAndType (PackSequenceAndType s t) = (s, t)"
  by (simp add: UnPackSequenceAndType_def)

lemma unat_Pack: "s \<le> kMaxSequenceNumber \<Longrightarrow> unat (PackSequenceAndType s t) = 256 * unat s + unat t"
proof -
  assume s: "s \<le> kMaxSequenceNumber"
  let ?w = "PackSequenceAndType s t"
  have "unat ?w = 256 * (unat ?w div 256) + unat ?w mod 256" by simp
  also have "unat ?w div 256 = unat (drop_bit 8 ?w)"
    by (simp only: unat_drop_bit_div) simp
  also have "unat ?w mod 256 = unat (ucast ?w :: u8)"
    by (simp only: unsigned_ucast_eq take_bit_eq_mod) simp
  finally show ?thesis using s by simp
qed

lemma Pack_less:
  assumes "s \<le> kMaxSequenceNumber" "s' \<le> kMaxSequenceNumber"
  shows "PackSequenceAndType s t < PackSequenceAndType s' t' \<longleftrightarrow> s < s' \<or> s = s' \<and> t < t'"
  using unat_byte_lt [of t] unat_byte_lt [of t']
  by (auto simp: word_less_nat_alt word_unat_eq_iff unat_Pack assms)

section \<open>Lemmas: internal keys\<close>

lemma AppendInternalKey_eq:
  "AppendInternalKey r k = r @ user_key k @ EncodeFixed64 (PackSequenceAndType (sequence k) (vtype k))"
  by (simp add: AppendInternalKey_def PutFixed64_def)

lemma InternalKey_eq: "InternalKey u s t = u @ EncodeFixed64 (PackSequenceAndType s t)"
  by (simp add: InternalKey_def AppendInternalKey_eq)

lemma length_AppendInternalKey [simp]:
  "length (AppendInternalKey r k) = length r + InternalKeyEncodingLength k"
  by (simp add: AppendInternalKey_eq InternalKeyEncodingLength_def)

lemma length_InternalKey [simp]: "length (InternalKey u s t) = length u + 8"
  by (simp add: InternalKey_eq)

text \<open>Every string of eight bytes or more is a user key followed by the code of a number.\<close>

lemma footer_split:
  assumes "8 \<le> length k"
  obtains u num where "k = u @ EncodeFixed64 num"
proof -
  let ?u = "take (length k - 8) k" and ?f = "drop (length k - 8) k"
  have "length ?f = 8" using assms by simp
  then have "EncodeFixed64 (DecodeFixed64 ?f) = ?f" by (rule Encode_DecodeFixed)
  then have "k = ?u @ EncodeFixed64 (DecodeFixed64 ?f)" by simp
  then show ?thesis by (rule that)
qed

lemma ExtractUserKey_footer [simp]: "ExtractUserKey (u @ EncodeFixed64 num) = u"
  by (simp add: ExtractUserKey_def)

lemma drop_footer [simp]:
  "drop (length (u @ EncodeFixed64 num) - 8) (u @ EncodeFixed64 num) = EncodeFixed64 num"
  "drop (length u) (u @ EncodeFixed64 num) = EncodeFixed64 num"
  by simp_all

lemma ExtractUserKey_InternalKey [simp]: "ExtractUserKey (InternalKey u s t) = u"
  by (simp add: InternalKey_eq)

lemma ExtractValueType_InternalKey [simp]: "ExtractValueType (InternalKey u s t) = t"
  by (simp add: ExtractValueType_def ExtractInternalKeyFooter_def InternalKey_eq)

lemma GetInternalKeySeqno_InternalKey [simp]:
  "s \<le> kMaxSequenceNumber \<Longrightarrow> GetInternalKeySeqno (InternalKey u s t) = s"
  by (simp add: GetInternalKeySeqno_def InternalKey_eq)

lemma ParseInternalKey_footer:
  "ParseInternalKey (u @ EncodeFixed64 num) =
     (if IsExtendedValueType (ucast num)
      then Some \<lparr>user_key = u, sequence = drop_bit 8 num, vtype = ucast num\<rparr> else None)"
  by (simp add: ParseInternalKey_def Let_def)

lemma ParseInternalKey_InternalKey [simp, codec]:
  "s \<le> kMaxSequenceNumber \<Longrightarrow> IsExtendedValueType t \<Longrightarrow>
     ParseInternalKey (InternalKey u s t) = Some \<lparr>user_key = u, sequence = s, vtype = t\<rparr>"
  by (simp add: InternalKey_eq ParseInternalKey_footer)

lemma pack_drop_ucast: "PackSequenceAndType (drop_bit 8 num) (ucast num) = num"
  by (rule bit_word_eqI)
    (auto simp: PackSequenceAndType_def bit_simps not_less dest: bit_imp_le_length)

lemma ParseInternalKey_SomeD:
  assumes "ParseInternalKey k = Some p"
  shows "k = AppendInternalKey [] p" "IsExtendedValueType (vtype p)"
    "sequence p \<le> kMaxSequenceNumber"
proof -
  have "8 \<le> length k" using assms by (auto simp: ParseInternalKey_def Let_def split: if_splits)
  then obtain u num where k: "k = u @ EncodeFixed64 num" by (rule footer_split)
  with assms have p: "p = \<lparr>user_key = u, sequence = drop_bit 8 num, vtype = ucast num\<rparr>"
    and t: "IsExtendedValueType (ucast num)"
    by (auto simp: ParseInternalKey_footer split: if_splits)
  from p t show "k = AppendInternalKey [] p" "IsExtendedValueType (vtype p)"
    by (simp_all add: k AppendInternalKey_eq pack_drop_ucast)
  have "unat num < 2 ^ 64" using unsigned_less [of num] by simp
  then have "unat num div 256 < 2 ^ 56" by (simp add: less_mult_imp_div_less)
  then have "unat num div 256 \<le> 2 ^ 56 - 1" by linarith
  then show "sequence p \<le> kMaxSequenceNumber"
    unfolding p ParsedInternalKey.select_convs kMaxSequenceNumber_def word_le_nat_alt unat_drop_bit_div
    by simp
qed

lemma UpdateInternalKey_InternalKey:
  "UpdateInternalKey (InternalKey u s t) s' t' = InternalKey u s' t'"
  by (simp add: UpdateInternalKey_def InternalKey_eq PackSequenceAndType_def Let_def)

section \<open>Lemmas: the order\<close>

lemma UserComparatorWrapper_sel [simp]:
  "Compare (UserComparatorWrapper c) = Compare c"
  "Equal (UserComparatorWrapper c) = Equal c"
  "FindShortestSeparator (UserComparatorWrapper c) = FindShortestSeparator c"
  "FindShortSuccessor (UserComparatorWrapper c) = FindShortSuccessor c"
  by (simp_all add: UserComparatorWrapper_def base_comparator_def)

lemma ikc_wrapper [simp]:
  "ikc_Compare (UserComparatorWrapper c) = ikc_Compare c"
  "ikc_FindShortestSeparator (UserComparatorWrapper c) = ikc_FindShortestSeparator c"
  "ikc_FindShortSuccessor (UserComparatorWrapper c) = ikc_FindShortSuccessor c"
  by (simp_all add: fun_eq_iff ikc_Compare_def ikc_FindShortestSeparator_def
      ikc_FindShortSuccessor_def)

lemma InternalKeyComparator_sel [simp]:
  "Compare (InternalKeyComparator c) = ikc_Compare c"
  "Equal (InternalKeyComparator c) = (\<lambda>a b. ikc_Compare c a b = 0)"
  "FindShortestSeparator (InternalKeyComparator c) = ikc_FindShortestSeparator c"
  "FindShortSuccessor (InternalKeyComparator c) = ikc_FindShortSuccessor c"
  by (simp_all add: InternalKeyComparator_def base_comparator_def Let_def)

lemma ikc_Compare_footer [simp]:
  "ikc_Compare c (u @ EncodeFixed64 n) (v @ EncodeFixed64 m) =
     (if Compare c u v = 0 then (if n > m then -1 else if n < m then 1 else 0) else Compare c u v)"
  by (simp add: ikc_Compare_def Let_def)

lemma ikc_Compare_InternalKey:
  assumes "s \<le> kMaxSequenceNumber" "s' \<le> kMaxSequenceNumber"
  shows "ikc_Compare c (InternalKey u s t) (InternalKey u' s' t') =
    ikc_Compare_parsed c \<lparr>user_key = u, sequence = s, vtype = t\<rparr>
      \<lparr>user_key = u', sequence = s', vtype = t'\<rparr>"
  using assms
  by (auto simp: InternalKey_eq ikc_Compare_parsed_def Pack_less Let_def)

context user_key_order
begin

lemma ikc_swap: "ikc_Compare cmp (u @ EncodeFixed64 n) (v @ EncodeFixed64 m) < 0 \<longleftrightarrow>
    0 < ikc_Compare cmp (v @ EncodeFixed64 m) (u @ EncodeFixed64 n)"
  using Compare_swap [OF TrueI TrueI, of u v] Compare_zero_swap [OF TrueI TrueI, of u v] by auto

lemma ikc_trans:
  assumes "ikc_Compare cmp (u @ EncodeFixed64 n) (v @ EncodeFixed64 m) \<le> 0"
    and "ikc_Compare cmp (v @ EncodeFixed64 m) (w @ EncodeFixed64 l) \<le> 0"
  shows "ikc_Compare cmp (u @ EncodeFixed64 n) (w @ EncodeFixed64 l) \<le> 0"
  using assms Compare_trans [OF TrueI TrueI TrueI, of u v w]
    Compare_less_le_trans [OF TrueI TrueI TrueI, of u v w]
    Compare_le_less_trans [OF TrueI TrueI TrueI, of u v w]
  by (auto split: if_splits)

lemma ikc_separator:
  assumes "ikc_Compare cmp (u @ EncodeFixed64 n) (v @ EncodeFixed64 m) < 0"
  shows "ikc_Compare cmp (u @ EncodeFixed64 n)
      (ikc_FindShortestSeparator cmp (u @ EncodeFixed64 n) (v @ EncodeFixed64 m)) \<le> 0"
    and "ikc_Compare cmp
      (ikc_FindShortestSeparator cmp (u @ EncodeFixed64 n) (v @ EncodeFixed64 m))
      (v @ EncodeFixed64 m) < 0"
  using assms separator_less [OF TrueI TrueI, of u v] separator_same [OF TrueI TrueI, of u v]
    Compare_self [OF TrueI, of u]
  by (auto simp: ikc_FindShortestSeparator_def PutFixed64_def Let_def split: if_splits)

sublocale internal: key_order "InternalKeyComparator cmp" "\<lambda>k. 8 \<le> length k"
proof (unfold_locales, goal_cases)
  case (1 a b)
  then show ?case by (elim footer_split) (simp only: InternalKeyComparator_sel ikc_swap)
next
  case (2 a b c)
  then show ?case by (elim footer_split) (metis InternalKeyComparator_sel(1) ikc_trans)
next
  case (4 s l)
  then show ?case
    by (elim footer_split) (simp add: ikc_FindShortestSeparator_def PutFixed64_def Let_def)
next
  case (5 s l)
  then show ?case by (elim footer_split) (metis InternalKeyComparator_sel(1,3) ikc_separator(1))
next
  case (6 s l)
  then show ?case by (elim footer_split) (metis InternalKeyComparator_sel(1,3) ikc_separator(2))
next
  case (7 s l)
  then show ?case
    using Compare_self
    by (elim footer_split)
      (auto simp: ikc_FindShortestSeparator_def PutFixed64_def Let_def separator_same split: if_splits)
next
  case (8 s l)
  then show ?case
    by (elim footer_split) (simp add: ikc_FindShortestSeparator_def PutFixed64_def Let_def)
next
  case (9 k)
  then show ?case
    by (elim footer_split) (simp add: ikc_FindShortSuccessor_def PutFixed64_def Let_def)
next
  case (10 k)
  then show ?case
    using Compare_self
    by (elim footer_split) (auto simp: ikc_FindShortSuccessor_def PutFixed64_def Let_def)
next
  case (11 k)
  then show ?case
    by (elim footer_split) (simp add: ikc_FindShortSuccessor_def PutFixed64_def Let_def)
qed simp

text \<open>Where a lookup at sequence number \<open>s\<close> falls: before the entries it may see, after the others.\<close>

lemma seek_key_le:
  assumes "s \<le> kMaxSequenceNumber" "s' \<le> kMaxSequenceNumber" "t' \<le> kValueTypeForSeek"
  shows "Compare (InternalKeyComparator cmp) (InternalKey u s kValueTypeForSeek) (InternalKey u' s' t') \<le> 0
    \<longleftrightarrow> Compare cmp u u' < 0 \<or> Compare cmp u u' = 0 \<and> s' \<le> s"
  using assms
  by (auto simp: ikc_Compare_InternalKey ikc_Compare_parsed_def Let_def split: if_splits)

end

section \<open>Lemmas: lookup keys\<close>

lemma memtable_key_new:
  "memtable_key (LookupKey_new u s ts) =
     EncodeVarint32 (of_nat (length u + (case ts of None \<Rightarrow> 0 | Some t \<Rightarrow> length t) + 8))
       @ internal_key (LookupKey_new u s ts)"
  by (simp add: memtable_key_def internal_key_def LookupKey_new_def Let_def)

lemma internal_key_new:
  "internal_key (LookupKey_new u s ts) =
     InternalKey (u @ (case ts of None \<Rightarrow> [] | Some t \<Rightarrow> t)) s kValueTypeForSeek"
  by (simp add: internal_key_def LookupKey_new_def Let_def InternalKey_eq)

lemma lookup_user_key_new:
  "lookup_user_key (LookupKey_new u s ts) = u @ (case ts of None \<Rightarrow> [] | Some t \<Rightarrow> t)"
  by (simp add: lookup_user_key_def LookupKey_new_def Let_def split: option.splits)

lemma memtable_key_prefixed:
  "memtable_key (LookupKey_new u s ts) =
     PutLengthPrefixedSlice [] (internal_key (LookupKey_new u s ts))"
  by (simp add: memtable_key_new internal_key_new PutLengthPrefixedSlice_def PutVarint32_def
      split: option.splits)

end
