(* ===== verification/IterKey.thy ===== *)
theory IterKey
  imports DbFormat
begin

text \<open>
  The key holder of the iterators: class \<^verbatim>\<open>IterKey\<close> of db/dbformat.h. It either refers to memory
  it does not own or copies the key to its own buffer, which is a 32-byte array inside the
  object until a longer key asks for heap memory. The model keeps both, and says of the key
  pointer which of them it points into, so that a use after free would show.

  The lemmas show that each operation leaves the key it should, that the pointer is never
  left dangling by them, and that the buffer is always as long as its recorded size.
\<close>

section \<open>State\<close>

text \<open>
  \<open>KFreed\<close> is a pointer to a deleted heap buffer. Memory fresh from \<^verbatim>\<open>new char[n]\<close> holds
  unspecified bytes.
\<close>

datatype key_ptr = KSpace | KHeap | KExternal bytes | KFreed

record IterKey =
  ik_space :: bytes
  ik_heap :: "bytes option"
  ik_key :: key_ptr
  ik_key_size :: nat
  ik_buf_size :: nat
  ik_is_user_key :: bool

definition ik_buf :: "IterKey \<Rightarrow> bytes" where
  "ik_buf k = (case ik_heap k of None \<Rightarrow> ik_space k | Some h \<Rightarrow> h)"

definition ik_buf_ptr :: "IterKey \<Rightarrow> key_ptr" where
  "ik_buf_ptr k = (case ik_heap k of None \<Rightarrow> KSpace | Some h \<Rightarrow> KHeap)"

text \<open>The memory the key pointer refers to.\<close>

definition ik_mem :: "IterKey \<Rightarrow> bytes" where
  "ik_mem k =
     (case ik_key k of
        KSpace \<Rightarrow> ik_space k
      | KHeap \<Rightarrow> (case ik_heap k of Some h \<Rightarrow> h | None \<Rightarrow> undefined)
      | KExternal m \<Rightarrow> m
      | KFreed \<Rightarrow> undefined)"

definition ik_write :: "IterKey \<Rightarrow> nat \<Rightarrow> bytes \<Rightarrow> IterKey" where
  "ik_write k off data =
     (case ik_heap k of
        None \<Rightarrow> k\<lparr>ik_space := poke (ik_space k) off data\<rparr>
      | Some h \<Rightarrow> k\<lparr>ik_heap := Some (poke h off data)\<rparr>)"

definition IterKey_new :: IterKey where
  "IterKey_new =
     \<lparr>ik_space = replicate 32 undefined, ik_heap = None, ik_key = KSpace, ik_key_size = 0,
      ik_buf_size = 32, ik_is_user_key = True\<rparr>"

section \<open>Operations\<close>

definition ik_GetKey :: "IterKey \<Rightarrow> bytes" where
  "ik_GetKey k = take (ik_key_size k) (ik_mem k)"

definition ik_GetUserKey :: "IterKey \<Rightarrow> bytes" where
  "ik_GetUserKey k =
     (if ik_is_user_key k then take (ik_key_size k) (ik_mem k)
      else take (ik_key_size k - 8) (ik_mem k))"

definition ik_IsKeyPinned :: "IterKey \<Rightarrow> bool" where
  "ik_IsKeyPinned k \<longleftrightarrow> ik_key k \<noteq> ik_buf_ptr k"

definition ik_SetIsUserKey :: "IterKey \<Rightarrow> bool \<Rightarrow> IterKey" where
  "ik_SetIsUserKey k b = k\<lparr>ik_is_user_key := b\<rparr>"

definition ik_Clear :: "IterKey \<Rightarrow> IterKey" where
  "ik_Clear k = k\<lparr>ik_key_size := 0\<rparr>"

text \<open>A pointer into the heap buffer dangles once that buffer is deleted.\<close>

definition ik_free :: "key_ptr \<Rightarrow> key_ptr" where
  "ik_free p = (if p = KHeap then KFreed else p)"

definition ik_ResetBuffer :: "IterKey \<Rightarrow> IterKey" where
  "ik_ResetBuffer k =
     (let k1 = (case ik_heap k of
                  Some h \<Rightarrow> k\<lparr>ik_heap := None, ik_key := ik_free (ik_key k)\<rparr>
                | None \<Rightarrow> k)
      in k1\<lparr>ik_buf_size := 32, ik_key_size := 0\<rparr>)"

definition ik_EnlargeBuffer :: "IterKey \<Rightarrow> nat \<Rightarrow> IterKey" where
  "ik_EnlargeBuffer k sz =
     (ik_ResetBuffer k)\<lparr>ik_heap := Some (replicate sz undefined), ik_buf_size := sz\<rparr>"

definition ik_EnlargeBufferIfNeeded :: "IterKey \<Rightarrow> nat \<Rightarrow> IterKey" where
  "ik_EnlargeBufferIfNeeded k sz = (if sz > ik_buf_size k then ik_EnlargeBuffer k sz else k)"

text \<open>
  The data copied in is memory of the caller, so it is not changed by the reallocation; the
  shared part of \<^verbatim>\<open>TrimAppend\<close> is read through the key pointer as it is at the copy.
\<close>

definition ik_TrimAppend :: "IterKey \<Rightarrow> nat \<Rightarrow> bytes \<Rightarrow> IterKey" where
  "ik_TrimAppend k shared_len non_shared =
     (let total_size = shared_len + length non_shared;
          k1 = (if ik_IsKeyPinned k
                then (let k0 = ik_EnlargeBufferIfNeeded k total_size
                      in ik_write k0 0 (take shared_len (ik_mem k0)))
                else if total_size > ik_buf_size k
                then (let p = poke (replicate total_size undefined) 0 (take shared_len (ik_mem k))
                      in k\<lparr>ik_heap := Some p, ik_key := ik_free (ik_key k), ik_buf_size := total_size\<rparr>)
                else k);
          k2 = ik_write k1 shared_len non_shared
      in k2\<lparr>ik_key := ik_buf_ptr k2, ik_key_size := total_size\<rparr>)"

definition ik_SetKeyImpl :: "IterKey \<Rightarrow> bytes \<Rightarrow> bool \<Rightarrow> IterKey" where
  "ik_SetKeyImpl k key copy =
     (let k1 = (if copy
                then (let k0 = ik_write (ik_EnlargeBufferIfNeeded k (length key)) 0 key
                      in k0\<lparr>ik_key := ik_buf_ptr k0\<rparr>)
                else k\<lparr>ik_key := KExternal key\<rparr>)
      in k1\<lparr>ik_key_size := length key\<rparr>)"

definition ik_SetKey :: "IterKey \<Rightarrow> bytes \<Rightarrow> bool \<Rightarrow> IterKey" where
  "ik_SetKey k key copy = ik_SetKeyImpl k key copy"

definition ik_SetUserKey :: "IterKey \<Rightarrow> bytes \<Rightarrow> bool \<Rightarrow> IterKey" where
  "ik_SetUserKey k key copy = ik_SetKeyImpl (k\<lparr>ik_is_user_key := True\<rparr>) key copy"

definition ik_SetInternalKey :: "IterKey \<Rightarrow> bytes \<Rightarrow> bool \<Rightarrow> IterKey" where
  "ik_SetInternalKey k key copy = ik_SetKeyImpl (k\<lparr>ik_is_user_key := False\<rparr>) key copy"

definition ik_Reserve :: "IterKey \<Rightarrow> nat \<Rightarrow> IterKey" where
  "ik_Reserve k sz = (ik_EnlargeBufferIfNeeded k sz)\<lparr>ik_key_size := sz\<rparr>"

definition ik_OwnKey :: "IterKey \<Rightarrow> IterKey" where
  "ik_OwnKey k =
     (let k1 = ik_Reserve k (ik_key_size k);
          k2 = ik_write k1 0 (take (ik_key_size k1) (ik_mem k1))
      in k2\<lparr>ik_key := ik_buf_ptr k2\<rparr>)"

definition ik_UpdateInternalKey :: "IterKey \<Rightarrow> u64 \<Rightarrow> ValueType \<Rightarrow> IterKey" where
  "ik_UpdateInternalKey k seq t =
     (let newval = push_bit 8 seq OR ucast t
      in ik_write k (ik_key_size k - 8) (EncodeFixed64 newval))"

definition ik_SetInternalKey_parts ::
  "IterKey \<Rightarrow> bytes \<Rightarrow> bytes \<Rightarrow> SequenceNumber \<Rightarrow> ValueType \<Rightarrow> IterKey" where
  "ik_SetInternalKey_parts k key_prefix u s value_type =
     (let psize = length key_prefix;
          usize = length u;
          k0 = ik_EnlargeBufferIfNeeded k (psize + usize + 8);
          k1 = (if psize > 0 then ik_write k0 0 key_prefix else k0);
          k2 = ik_write k1 psize u;
          k3 = ik_write k2 (usize + psize) (EncodeFixed64 (PackSequenceAndType s value_type))
      in k3\<lparr>ik_key := ik_buf_ptr k3, ik_key_size := psize + usize + 8, ik_is_user_key := False\<rparr>)"

definition ik_SetInternalKey_parsed :: "IterKey \<Rightarrow> bytes \<Rightarrow> ParsedInternalKey \<Rightarrow> IterKey" where
  "ik_SetInternalKey_parsed k key_prefix p =
     ik_SetInternalKey_parts k key_prefix (user_key p) (sequence p) (vtype p)"

definition ik_EncodeLengthPrefixedKey :: "IterKey \<Rightarrow> bytes \<Rightarrow> IterKey" where
  "ik_EncodeLengthPrefixedKey k key =
     (let size = length key;
          k0 = ik_EnlargeBufferIfNeeded k (size + VarintLength (of_nat size));
          len = EncodeVarint32 (of_nat size);
          k1 = ik_write (ik_write k0 0 len) (length len) key
      in k1\<lparr>ik_key := ik_buf_ptr k1, ik_is_user_key := True\<rparr>)"

section \<open>Lemmas\<close>

text \<open>The state between operations: sizes as recorded, and a key pointer that may be read.\<close>

definition ik_sizes :: "IterKey \<Rightarrow> bool" where
  "ik_sizes k \<longleftrightarrow> length (ik_space k) = 32 \<and> ik_buf_size k = length (ik_buf k)"

definition ik_wf :: "IterKey \<Rightarrow> bool" where
  "ik_wf k \<longleftrightarrow> ik_sizes k \<and> ik_key k \<noteq> KFreed \<and> (ik_key k = KHeap \<longrightarrow> ik_heap k \<noteq> None)
     \<and> ik_key_size k \<le> length (ik_mem k)"

lemma ik_write_sel [simp]:
  "ik_key (ik_write k off d) = ik_key k" "ik_key_size (ik_write k off d) = ik_key_size k"
  "ik_buf_size (ik_write k off d) = ik_buf_size k"
  "ik_is_user_key (ik_write k off d) = ik_is_user_key k"
  "ik_buf_ptr (ik_write k off d) = ik_buf_ptr k"
  "ik_buf (ik_write k off d) = poke (ik_buf k) off d"
  by (simp_all add: ik_write_def ik_buf_ptr_def ik_buf_def split: option.splits)

lemma ik_sizes_write: "ik_sizes k \<Longrightarrow> off + length d \<le> ik_buf_size k \<Longrightarrow> ik_sizes (ik_write k off d)"
  by (auto simp: ik_sizes_def ik_write_def ik_buf_def split: option.splits)

lemma ik_sizes_Enlarge: "ik_sizes k \<Longrightarrow> ik_sizes (ik_EnlargeBufferIfNeeded k n)"
  by (auto simp: ik_sizes_def ik_EnlargeBufferIfNeeded_def ik_EnlargeBuffer_def ik_ResetBuffer_def
      ik_buf_def split: option.splits)

lemma ik_Enlarge_size: "n \<le> ik_buf_size (ik_EnlargeBufferIfNeeded k n)"
  by (simp add: ik_EnlargeBufferIfNeeded_def ik_EnlargeBuffer_def)

lemma ik_Enlarge_user [simp]: "ik_is_user_key (ik_EnlargeBufferIfNeeded k n) = ik_is_user_key k"
  by (simp add: ik_EnlargeBufferIfNeeded_def ik_EnlargeBuffer_def ik_ResetBuffer_def split: option.splits)

lemma ik_sizes_upd [simp]:
  "ik_sizes (k\<lparr>ik_key := p\<rparr>) = ik_sizes k" "ik_sizes (k\<lparr>ik_key_size := n\<rparr>) = ik_sizes k"
  "ik_sizes (k\<lparr>ik_is_user_key := b\<rparr>) = ik_sizes k"
  by (simp_all add: ik_sizes_def ik_buf_def split: option.split)

text \<open>A key set to the buffer reads the buffer.\<close>

lemma ik_mem_buf: "ik_key k = ik_buf_ptr k \<Longrightarrow> ik_mem k = ik_buf k"
  by (auto simp: ik_mem_def ik_buf_ptr_def ik_buf_def split: option.splits)

lemma ik_wf_buf:
  assumes "ik_sizes k" "ik_key k = ik_buf_ptr k" "ik_key_size k \<le> ik_buf_size k"
  shows "ik_wf k"
  using assms ik_mem_buf [of k]
  by (auto simp: ik_wf_def ik_sizes_def ik_buf_ptr_def split: option.splits)

lemma ik_buf_upd [simp]:
  "ik_buf (k\<lparr>ik_key := p\<rparr>) = ik_buf k" "ik_buf (k\<lparr>ik_key_size := n\<rparr>) = ik_buf k"
  "ik_buf (k\<lparr>ik_is_user_key := b\<rparr>) = ik_buf k"
  "ik_buf_ptr (k\<lparr>ik_key := p\<rparr>) = ik_buf_ptr k" "ik_buf_ptr (k\<lparr>ik_key_size := n\<rparr>) = ik_buf_ptr k"
  "ik_buf_ptr (k\<lparr>ik_is_user_key := b\<rparr>) = ik_buf_ptr k"
  by (simp_all add: ik_buf_def ik_buf_ptr_def split: option.split)

lemma ik_mem_upd [simp]: "ik_mem (k\<lparr>ik_key_size := n\<rparr>) = ik_mem k"
  by (simp add: ik_mem_def split: key_ptr.split option.split)

lemma ik_GetKey_buf: "ik_key k = ik_buf_ptr k \<Longrightarrow> ik_GetKey k = take (ik_key_size k) (ik_buf k)"
  by (simp add: ik_GetKey_def ik_mem_buf)

lemma ik_SetKeyImpl_GetKey: "ik_sizes k \<Longrightarrow> ik_GetKey (ik_SetKeyImpl k key copy) = key"
proof (cases copy)
  case True
  assume "ik_sizes k"
  then have "ik_sizes (ik_EnlargeBufferIfNeeded k (length key))" by (rule ik_sizes_Enlarge)
  with ik_Enlarge_size [of "length key" k] True show ?thesis
    by (subst ik_GetKey_buf) (simp_all add: ik_SetKeyImpl_def Let_def ik_sizes_def take_poke_0)
qed (simp add: ik_SetKeyImpl_def ik_GetKey_def ik_mem_def Let_def)

lemma ik_SetKeyImpl_wf [valid]: "ik_sizes k \<Longrightarrow> ik_wf (ik_SetKeyImpl k key copy)"
proof (cases copy)
  case True
  assume "ik_sizes k"
  with ik_Enlarge_size [of "length key" k] True show ?thesis
    by (intro ik_wf_buf)
      (simp_all add: ik_SetKeyImpl_def Let_def ik_sizes_write ik_sizes_Enlarge)
qed (simp add: ik_SetKeyImpl_def ik_wf_def ik_mem_def Let_def)

text \<open>The memory of a readable key survives a reallocation that the key does not point into.\<close>

lemma ik_mem_pinned_Enlarge:
  assumes "ik_wf k" "ik_IsKeyPinned k"
  shows "ik_mem (ik_EnlargeBufferIfNeeded k n) = ik_mem k"
proof -
  from assms have "ik_key k = KHeap \<Longrightarrow> False"
    by (auto simp: ik_wf_def ik_IsKeyPinned_def ik_buf_ptr_def split: option.splits)
  then show ?thesis
    by (auto simp: ik_EnlargeBufferIfNeeded_def ik_EnlargeBuffer_def ik_ResetBuffer_def ik_mem_def
        ik_free_def split: option.splits key_ptr.splits)
qed

lemma ik_TrimAppend_shape:
  fixes d :: bytes
  assumes wf: "ik_wf k" and le: "shared_len \<le> ik_key_size k"
  defines "k' \<equiv> ik_TrimAppend k shared_len d"
  shows "ik_sizes k'" "ik_key k' = ik_buf_ptr k'" "ik_key_size k' = shared_len + length d"
    "ik_key_size k' \<le> ik_buf_size k'"
    "take (ik_key_size k') (ik_buf k') = take shared_len (ik_GetKey k) @ d"
proof -
  let ?total = "shared_len + length d"
  have sh: "take shared_len (ik_GetKey k) = take shared_len (ik_mem k)"
    "length (take shared_len (ik_mem k)) = shared_len"
    using wf le by (simp_all add: ik_GetKey_def ik_wf_def min_absorb1)
  define k1 where "k1 =
    (if ik_IsKeyPinned k
     then (let k0 = ik_EnlargeBufferIfNeeded k ?total in ik_write k0 0 (take shared_len (ik_mem k0)))
     else if ?total > ik_buf_size k
     then (let p = poke (replicate ?total undefined) 0 (take shared_len (ik_mem k))
           in k\<lparr>ik_heap := Some p, ik_key := ik_free (ik_key k), ik_buf_size := ?total\<rparr>)
     else k)"
  have sizes: "ik_sizes k" using wf by (simp add: ik_wf_def)
  have k1: "ik_sizes k1 \<and> ?total \<le> ik_buf_size k1 \<and> take shared_len (ik_buf k1) = take shared_len (ik_mem k)"
  proof (cases "ik_IsKeyPinned k")
    case True
    let ?k0 = "ik_EnlargeBufferIfNeeded k ?total"
    have k0: "ik_sizes ?k0" "?total \<le> ik_buf_size ?k0" "ik_mem ?k0 = ik_mem k"
      using ik_sizes_Enlarge [OF sizes] ik_Enlarge_size ik_mem_pinned_Enlarge [OF wf True] by auto
    then have "ik_sizes (ik_write ?k0 0 (take shared_len (ik_mem k)))"
      using sh(2) by (intro ik_sizes_write) simp_all
    with k0 True sh(2) take_poke_0 [of "take shared_len (ik_mem k)" "ik_buf ?k0"] show ?thesis
      by (simp add: k1_def Let_def ik_sizes_def)
  next
    case False
    then have mem: "ik_mem k = ik_buf k" by (simp add: ik_IsKeyPinned_def ik_mem_buf)
    with False sizes sh(2) take_poke_0 [of "take shared_len (ik_mem k)" "replicate ?total undefined"]
    show ?thesis
      by (auto simp: k1_def Let_def ik_sizes_def ik_buf_def [of "_ \<lparr>ik_heap := _\<rparr>"] ik_buf_def [of "ik_buf_size_update _ _"])
  qed
  have k': "k' = (ik_write k1 shared_len d)\<lparr>ik_key := ik_buf_ptr k1, ik_key_size := ?total\<rparr>"
    by (simp add: k'_def ik_TrimAppend_def k1_def Let_def)
  from k1 show "ik_sizes k'" "ik_key k' = ik_buf_ptr k'" "ik_key_size k' = shared_len + length d"
    "ik_key_size k' \<le> ik_buf_size k'"
    by (simp_all add: k' ik_sizes_write)
  from k1 sh show "take (ik_key_size k') (ik_buf k') = take shared_len (ik_GetKey k) @ d"
    by (simp add: k' ik_sizes_def take_poke)
qed

lemma ik_TrimAppend_GetKey:
  assumes "ik_wf k" "shared_len \<le> ik_key_size k"
  shows "ik_GetKey (ik_TrimAppend k shared_len d) = take shared_len (ik_GetKey k) @ d"
  using ik_TrimAppend_shape [OF assms] by (simp add: ik_GetKey_buf)

lemma ik_TrimAppend_wf [valid]:
  assumes "ik_wf k" "shared_len \<le> ik_key_size k"
  shows "ik_wf (ik_TrimAppend k shared_len d)"
  using ik_TrimAppend_shape [OF assms] by (intro ik_wf_buf)

text \<open>The other writers.\<close>

lemma ik_OwnKey_GetKey:
  assumes wf: "ik_wf k" and pinned: "ik_IsKeyPinned k"
  shows "ik_GetKey (ik_OwnKey k) = ik_GetKey k \<and> ik_wf (ik_OwnKey k)"
proof -
  let ?n = "ik_key_size k" and ?k0 = "ik_EnlargeBufferIfNeeded k (ik_key_size k)"
  let ?d = "take ?n (ik_mem k)"
  have sizes: "ik_sizes ?k0" using wf by (simp add: ik_wf_def ik_sizes_Enlarge)
  have len: "length ?d = ?n" "?n \<le> ik_buf_size ?k0"
    using wf ik_Enlarge_size by (simp_all add: ik_wf_def min_absorb1)
  have mem: "ik_mem ?k0 = ik_mem k"
    using ik_mem_pinned_Enlarge [OF wf pinned, of ?n] by simp
  have eq: "ik_OwnKey k = (ik_write (?k0\<lparr>ik_key_size := ?n\<rparr>) 0 ?d)\<lparr>ik_key := ik_buf_ptr ?k0\<rparr>"
    by (simp add: ik_OwnKey_def ik_Reserve_def Let_def mem)
  have "take ?n (poke (ik_buf ?k0) 0 ?d) = ?d"
    using take_poke_0 [of ?d "ik_buf ?k0"] len sizes by (simp add: ik_sizes_def)
  then have "ik_GetKey (ik_OwnKey k) = ?d"
    unfolding eq by (subst ik_GetKey_buf) simp_all
  moreover have "ik_wf (ik_OwnKey k)"
    unfolding eq using len sizes by (intro ik_wf_buf) (simp_all add: ik_sizes_write)
  ultimately show ?thesis by (simp add: ik_GetKey_def)
qed

lemma ik_SetInternalKey_parts_GetKey:
  assumes "ik_sizes k"
  shows "ik_GetKey (ik_SetInternalKey_parts k pre u s t) = pre @ InternalKey u s t
    \<and> ik_wf (ik_SetInternalKey_parts k pre u s t)"
proof -
  define n where "n = length pre + length u + 8"
  define f where "f = EncodeFixed64 (PackSequenceAndType s t)"
  define k0 where "k0 = ik_EnlargeBufferIfNeeded k n"
  define k1 where "k1 = (if length pre > 0 then ik_write k0 0 pre else k0)"
  define k3 where "k3 = ik_write (ik_write k1 (length pre) u) (length u + length pre) f"
  have lf: "length f = 8" by (simp add: f_def)
  have s0: "ik_sizes k0" "n \<le> ik_buf_size k0"
    using ik_sizes_Enlarge [OF assms] ik_Enlarge_size by (simp_all add: k0_def)
  then have s1: "ik_sizes k1" "n \<le> ik_buf_size k1"
    by (auto simp: k1_def n_def ik_sizes_write)
  then have s3: "ik_sizes k3" "n \<le> ik_buf_size k3"
    by (simp_all add: k3_def n_def lf ik_sizes_write)
  have b: "length (ik_buf k0) = ik_buf_size k0" "length (ik_buf k1) = ik_buf_size k1"
    using s0(1) s1(1) by (simp_all only: ik_sizes_def)
  have pre: "take (length pre) (ik_buf k1) = pre"
    using s0 b(1) take_poke_0 [of pre "ik_buf k0"] by (simp add: k1_def n_def)
  have u: "take (length pre + length u) (poke (ik_buf k1) (length pre) u) = pre @ u"
    using s1 b(2) by (simp add: take_poke pre n_def)
  have buf: "take n (ik_buf k3) = pre @ u @ f"
    using s1 b(2) u take_poke [of "length u + length pre" f "poke (ik_buf k1) (length pre) u"]
    by (simp add: k3_def n_def lf add.commute add.left_commute)
  have eq: "ik_SetInternalKey_parts k pre u s t =
      k3\<lparr>ik_key := ik_buf_ptr k3, ik_key_size := n, ik_is_user_key := False\<rparr>"
    by (simp add: ik_SetInternalKey_parts_def Let_def k3_def k1_def k0_def n_def f_def)
  have "ik_GetKey (ik_SetInternalKey_parts k pre u s t) = pre @ InternalKey u s t"
    unfolding eq by (subst ik_GetKey_buf) (simp_all add: buf InternalKey_eq f_def)
  moreover have "ik_wf (ik_SetInternalKey_parts k pre u s t)"
    unfolding eq using s3 by (intro ik_wf_buf) simp_all
  ultimately show ?thesis ..
qed

lemma ik_new_wf: "ik_wf IterKey_new"
  by (simp add: IterKey_new_def ik_wf_def ik_sizes_def ik_buf_def ik_mem_def)

text \<open>
  \<^verbatim>\<open>EncodeLengthPrefixedKey\<close> sets the buffer and the pointer but not the size, so that
  \<^verbatim>\<open>GetKey\<close> after it reads as many bytes as the key before it had.
\<close>

lemma ik_EncodeLengthPrefixedKey_size:
  "length key + VarintLength (of_nat (length key)) \<le> ik_buf_size k \<Longrightarrow>
     ik_key_size (ik_EncodeLengthPrefixedKey k key) = ik_key_size k"
  by (simp add: ik_EncodeLengthPrefixedKey_def Let_def ik_EnlargeBufferIfNeeded_def)

section \<open>Properties\<close>

text \<open>
  C12: appending to a key that shares a prefix with the next one, as the block readers do,
  leaves exactly the shared prefix of the old key followed by the new bytes, whether the old
  key was owned or only referred to and whether the buffer had to grow; and the key can be
  read, its pointer never left at memory that was freed.
\<close>

theorem IterKey_TrimAppend:
  assumes "ik_wf k" "shared_len \<le> ik_key_size k"
  shows "ik_GetKey (ik_TrimAppend k shared_len d) = take shared_len (ik_GetKey k) @ d
    \<and> ik_wf (ik_TrimAppend k shared_len d) \<and> \<not> ik_IsKeyPinned (ik_TrimAppend k shared_len d)"
  using ik_TrimAppend_GetKey [OF assms] ik_TrimAppend_wf [OF assms] ik_TrimAppend_shape(2) [OF assms]
  by (simp add: ik_IsKeyPinned_def)

lemma IterKey_TrimAppend_witness:
  "ik_GetKey (ik_TrimAppend (ik_SetKeyImpl IterKey_new [1, 2, 3] False) 2 (replicate 40 7)) =
     [1, 2] @ replicate 40 7"
proof -
  have wf: "ik_wf (ik_SetKeyImpl IterKey_new [1, 2, 3] False)"
    using ik_new_wf by (intro ik_SetKeyImpl_wf) (simp add: ik_wf_def)
  have "2 \<le> ik_key_size (ik_SetKeyImpl IterKey_new [1, 2, 3] False)"
    by (simp add: ik_SetKeyImpl_def Let_def)
  from IterKey_TrimAppend [OF wf this, of "replicate 40 7"] show ?thesis
    by (simp add: ik_SetKeyImpl_def Let_def ik_GetKey_def ik_mem_def)
qed

end
