(* ===== verification/Options.thy ===== *)
theory Options
  imports Prelude
begin

text \<open>
  The option structures of single reads and writes (include/rocksdb/options.h,
  options/options.cc) with their default values. A pointer is a number, 0 the null pointer; the
  slices and snapshots that the options point to belong to whoever set them. The member
  \<^verbatim>\<open>table_filter\<close> of \<^verbatim>\<open>ReadOptions\<close>, a \<^verbatim>\<open>std::function\<close> that is empty in every object made
  here, has no field.
\<close>

type_synonym ptr = nat

abbreviation (input) nullptr :: ptr where "nullptr \<equiv> 0"

record WriteOptions =
  sync :: bool
  disableWAL :: bool
  ignore_missing_column_families :: bool
  no_slowdown :: bool
  low_pri :: bool
  memtable_insert_hint_per_batch :: bool
  write_timestamp :: ptr

definition WriteOptions_new :: WriteOptions where
  "WriteOptions_new =
     \<lparr>sync = False, disableWAL = False, ignore_missing_column_families = False,
      no_slowdown = False, low_pri = False, memtable_insert_hint_per_batch = False,
      write_timestamp = nullptr\<rparr>"

abbreviation (input) kReadAllTier :: u32 where "kReadAllTier \<equiv> 0x0"
abbreviation (input) kBlockCacheTier :: u32 where "kBlockCacheTier \<equiv> 0x1"
abbreviation (input) kPersistedTier :: u32 where "kPersistedTier \<equiv> 0x2"
abbreviation (input) kMemtableTier :: u32 where "kMemtableTier \<equiv> 0x3"

record ReadOptions =
  snapshot :: ptr
  iterate_lower_bound :: ptr
  iterate_upper_bound :: ptr
  readahead_size :: u64
  max_skippable_internal_keys :: u64
  read_tier :: u32
  verify_checksums :: bool
  fill_cache :: bool
  tailing :: bool
  managed :: bool
  total_order_seek :: bool
  prefix_same_as_start :: bool
  pin_data :: bool
  background_purge_on_iterator_cleanup :: bool
  ignore_range_deletions :: bool
  iter_start_seqnum :: u64
  read_timestamp :: ptr

definition ReadOptions_new :: ReadOptions where
  "ReadOptions_new =
     \<lparr>snapshot = nullptr, iterate_lower_bound = nullptr, iterate_upper_bound = nullptr,
      readahead_size = 0, max_skippable_internal_keys = 0, read_tier = kReadAllTier,
      verify_checksums = True, fill_cache = True, tailing = False, managed = False,
      total_order_seek = False, prefix_same_as_start = False, pin_data = False,
      background_purge_on_iterator_cleanup = False, ignore_range_deletions = False,
      iter_start_seqnum = 0, read_timestamp = nullptr\<rparr>"

definition ReadOptions_new_with :: "bool \<Rightarrow> bool \<Rightarrow> ReadOptions" where
  "ReadOptions_new_with cksum cache =
     \<lparr>snapshot = nullptr, iterate_lower_bound = nullptr, iterate_upper_bound = nullptr,
      readahead_size = 0, max_skippable_internal_keys = 0, read_tier = kReadAllTier,
      verify_checksums = cksum, fill_cache = cache, tailing = False, managed = False,
      total_order_seek = False, prefix_same_as_start = False, pin_data = False,
      background_purge_on_iterator_cleanup = False, ignore_range_deletions = False,
      iter_start_seqnum = 0, read_timestamp = nullptr\<rparr>"

end
