(* ===== verification/Status.thy ===== *)
theory Status
  imports Slice
begin

text \<open>
  The result type of RocksDB, \<^verbatim>\<open>rocksdb::Status\<close> (include/rocksdb/status.h,
  util/status.cc): a code, a subcode, a severity and an optional message, which is a
  heap-allocated C string. The message is kept as the bytes that were allocated for it
  without the final terminator, so that a message with a NUL inside is represented; what the C
  functions see of it is its part before the first NUL.

  The lemmas show what each factory builds, that copying and moving keep what is printed,
  and what \<^verbatim>\<open>ToString\<close> prints for every code.
\<close>

section \<open>Data\<close>

datatype Code =
    kOk | kNotFound | kCorruption | kNotSupported
  | kInvalidArgument | kIOError | kMergeInProgress | kIncomplete
  | kShutdownInProgress | kTimedOut | kAborted | kBusy
  | kExpired | kTryAgain | kCompactionTooLarge | kColumnFamilyDropped
  | kMaxCode

fun code_num :: "Code \<Rightarrow> nat" where
  "code_num kOk = 0"
| "code_num kNotFound = 1"
| "code_num kCorruption = 2"
| "code_num kNotSupported = 3"
| "code_num kInvalidArgument = 4"
| "code_num kIOError = 5"
| "code_num kMergeInProgress = 6"
| "code_num kIncomplete = 7"
| "code_num kShutdownInProgress = 8"
| "code_num kTimedOut = 9"
| "code_num kAborted = 10"
| "code_num kBusy = 11"
| "code_num kExpired = 12"
| "code_num kTryAgain = 13"
| "code_num kCompactionTooLarge = 14"
| "code_num kColumnFamilyDropped = 15"
| "code_num kMaxCode = 16"

datatype SubCode =
    kNone | kMutexTimeout | kLockTimeout | kLockLimit
  | kNoSpace | kDeadlock | kStaleFile | kMemoryLimit
  | kSpaceLimit | kPathNotFound | KMergeOperandsInsufficientCapacity | kManualCompactionPaused
  | kMaxSubCode

fun subcode_num :: "SubCode \<Rightarrow> nat" where
  "subcode_num kNone = 0"
| "subcode_num kMutexTimeout = 1"
| "subcode_num kLockTimeout = 2"
| "subcode_num kLockLimit = 3"
| "subcode_num kNoSpace = 4"
| "subcode_num kDeadlock = 5"
| "subcode_num kStaleFile = 6"
| "subcode_num kMemoryLimit = 7"
| "subcode_num kSpaceLimit = 8"
| "subcode_num kPathNotFound = 9"
| "subcode_num KMergeOperandsInsufficientCapacity = 10"
| "subcode_num kManualCompactionPaused = 11"
| "subcode_num kMaxSubCode = 12"

datatype Severity =
    kNoError | kSoftError | kHardError | kFatalError
  | kUnrecoverableError | kMaxSeverity

record Status =
  code :: Code
  subcode :: SubCode
  severity :: Severity
  state :: "bytes option"

section \<open>Construction, copy and move\<close>

definition Status_default :: Status where
  "Status_default = \<lparr>code = kOk, subcode = kNone, severity = kNoError, state = None\<rparr>"

definition OK :: Status where
  "OK = Status_default"

definition Status_code :: "Code \<Rightarrow> SubCode \<Rightarrow> Status" where
  "Status_code c sc = \<lparr>code = c, subcode = sc, severity = kNoError, state = None\<rparr>"

text \<open>The constructor with a message joins a non-empty second part with a colon and a space.\<close>

definition Status_msg :: "Code \<Rightarrow> SubCode \<Rightarrow> bytes \<Rightarrow> bytes \<Rightarrow> Status" where
  "Status_msg c sc msg msg2 =
     \<lparr>code = c, subcode = sc, severity = kNoError,
      state = Some (msg @ (if length msg2 \<noteq> 0 then [58, 32] @ msg2 else []))\<rparr>"

text \<open>What \<^verbatim>\<open>strlen\<close>, \<^verbatim>\<open>strncpy\<close> and \<^verbatim>\<open>std::string::append(const char*)\<close> see of a buffer.\<close>

definition c_str :: "bytes \<Rightarrow> bytes" where
  "c_str s = takeWhile (\<lambda>b. b \<noteq> 0) s"

definition CopyState :: "bytes \<Rightarrow> bytes" where
  "CopyState st = c_str st"

definition Status_copy :: "Status \<Rightarrow> Status" where
  "Status_copy s =
     \<lparr>code = code s, subcode = subcode s, severity = severity s,
      state = map_option CopyState (state s)\<rparr>"

definition Status_copy_severity :: "Status \<Rightarrow> Severity \<Rightarrow> Status" where
  "Status_copy_severity s sev =
     \<lparr>code = code s, subcode = subcode s, severity = sev,
      state = map_option CopyState (state s)\<rparr>"

text \<open>
  Assignment and move assignment. The flag says whether the two operands are one object;
  the move also returns what it leaves in the source.
\<close>

definition Status_assign :: "bool \<Rightarrow> Status \<Rightarrow> Status \<Rightarrow> Status" where
  "Status_assign same this s =
     (if \<not> same then this\<lparr>code := code s, subcode := subcode s, severity := severity s,
                          state := map_option CopyState (state s)\<rparr>
      else this)"

definition Status_move_assign :: "bool \<Rightarrow> Status \<Rightarrow> Status \<Rightarrow> Status \<times> Status" where
  "Status_move_assign same this s =
     (if \<not> same then
        (this\<lparr>code := code s, subcode := subcode s, severity := severity s, state := state s\<rparr>,
         s\<lparr>code := kOk, subcode := kNone, severity := kNoError, state := None\<rparr>)
      else (this, s))"

definition Status_move :: "Status \<Rightarrow> Status \<times> Status" where
  "Status_move s = Status_move_assign False Status_default s"

text \<open>\<^verbatim>\<open>operator==\<close> compares the codes alone.\<close>

definition Status_eq :: "Status \<Rightarrow> Status \<Rightarrow> bool" where
  "Status_eq s t \<longleftrightarrow> code s = code t"

definition Status_neq :: "Status \<Rightarrow> Status \<Rightarrow> bool" where
  "Status_neq s t \<longleftrightarrow> \<not> Status_eq s t"

section \<open>Factories and predicates\<close>

text \<open>
  Each error has a factory taking a message in two parts and one taking a subcode. The two
  overloads of a C++ name are told apart by the suffix \<open>_sub\<close>.
\<close>

definition NotFound :: "bytes \<Rightarrow> bytes \<Rightarrow> Status" where
  "NotFound msg msg2 = Status_msg kNotFound kNone msg msg2"

definition NotFound_sub :: "SubCode \<Rightarrow> Status" where
  "NotFound_sub msg = Status_code kNotFound msg"

definition Corruption :: "bytes \<Rightarrow> bytes \<Rightarrow> Status" where
  "Corruption msg msg2 = Status_msg kCorruption kNone msg msg2"

definition Corruption_sub :: "SubCode \<Rightarrow> Status" where
  "Corruption_sub msg = Status_code kCorruption msg"

definition NotSupported :: "bytes \<Rightarrow> bytes \<Rightarrow> Status" where
  "NotSupported msg msg2 = Status_msg kNotSupported kNone msg msg2"

definition NotSupported_sub :: "SubCode \<Rightarrow> Status" where
  "NotSupported_sub msg = Status_code kNotSupported msg"

definition InvalidArgument :: "bytes \<Rightarrow> bytes \<Rightarrow> Status" where
  "InvalidArgument msg msg2 = Status_msg kInvalidArgument kNone msg msg2"

definition InvalidArgument_sub :: "SubCode \<Rightarrow> Status" where
  "InvalidArgument_sub msg = Status_code kInvalidArgument msg"

definition IOError :: "bytes \<Rightarrow> bytes \<Rightarrow> Status" where
  "IOError msg msg2 = Status_msg kIOError kNone msg msg2"

definition IOError_sub :: "SubCode \<Rightarrow> Status" where
  "IOError_sub msg = Status_code kIOError msg"

definition MergeInProgress :: "bytes \<Rightarrow> bytes \<Rightarrow> Status" where
  "MergeInProgress msg msg2 = Status_msg kMergeInProgress kNone msg msg2"

definition MergeInProgress_sub :: "SubCode \<Rightarrow> Status" where
  "MergeInProgress_sub msg = Status_code kMergeInProgress msg"

definition Incomplete :: "bytes \<Rightarrow> bytes \<Rightarrow> Status" where
  "Incomplete msg msg2 = Status_msg kIncomplete kNone msg msg2"

definition Incomplete_sub :: "SubCode \<Rightarrow> Status" where
  "Incomplete_sub msg = Status_code kIncomplete msg"

definition ShutdownInProgress :: "bytes \<Rightarrow> bytes \<Rightarrow> Status" where
  "ShutdownInProgress msg msg2 = Status_msg kShutdownInProgress kNone msg msg2"

definition ShutdownInProgress_sub :: "SubCode \<Rightarrow> Status" where
  "ShutdownInProgress_sub msg = Status_code kShutdownInProgress msg"

definition TimedOut :: "bytes \<Rightarrow> bytes \<Rightarrow> Status" where
  "TimedOut msg msg2 = Status_msg kTimedOut kNone msg msg2"

definition TimedOut_sub :: "SubCode \<Rightarrow> Status" where
  "TimedOut_sub msg = Status_code kTimedOut msg"

definition Aborted :: "bytes \<Rightarrow> bytes \<Rightarrow> Status" where
  "Aborted msg msg2 = Status_msg kAborted kNone msg msg2"

definition Aborted_sub :: "SubCode \<Rightarrow> Status" where
  "Aborted_sub msg = Status_code kAborted msg"

definition Busy :: "bytes \<Rightarrow> bytes \<Rightarrow> Status" where
  "Busy msg msg2 = Status_msg kBusy kNone msg msg2"

definition Busy_sub :: "SubCode \<Rightarrow> Status" where
  "Busy_sub msg = Status_code kBusy msg"

definition Expired :: "bytes \<Rightarrow> bytes \<Rightarrow> Status" where
  "Expired msg msg2 = Status_msg kExpired kNone msg msg2"

definition Expired_sub :: "SubCode \<Rightarrow> Status" where
  "Expired_sub msg = Status_code kExpired msg"

definition TryAgain :: "bytes \<Rightarrow> bytes \<Rightarrow> Status" where
  "TryAgain msg msg2 = Status_msg kTryAgain kNone msg msg2"

definition TryAgain_sub :: "SubCode \<Rightarrow> Status" where
  "TryAgain_sub msg = Status_code kTryAgain msg"

definition CompactionTooLarge :: "bytes \<Rightarrow> bytes \<Rightarrow> Status" where
  "CompactionTooLarge msg msg2 = Status_msg kCompactionTooLarge kNone msg msg2"

definition CompactionTooLarge_sub :: "SubCode \<Rightarrow> Status" where
  "CompactionTooLarge_sub msg = Status_code kCompactionTooLarge msg"

definition ColumnFamilyDropped :: "bytes \<Rightarrow> bytes \<Rightarrow> Status" where
  "ColumnFamilyDropped msg msg2 = Status_msg kColumnFamilyDropped kNone msg msg2"

definition ColumnFamilyDropped_sub :: "SubCode \<Rightarrow> Status" where
  "ColumnFamilyDropped_sub msg = Status_code kColumnFamilyDropped msg"

definition NoSpace :: Status where
  "NoSpace = Status_code kIOError kNoSpace"

definition NoSpace_msg :: "bytes \<Rightarrow> bytes \<Rightarrow> Status" where
  "NoSpace_msg msg msg2 = Status_msg kIOError kNoSpace msg msg2"

definition MemoryLimit :: Status where
  "MemoryLimit = Status_code kAborted kMemoryLimit"

definition MemoryLimit_msg :: "bytes \<Rightarrow> bytes \<Rightarrow> Status" where
  "MemoryLimit_msg msg msg2 = Status_msg kAborted kMemoryLimit msg msg2"

definition SpaceLimit :: Status where
  "SpaceLimit = Status_code kIOError kSpaceLimit"

definition SpaceLimit_msg :: "bytes \<Rightarrow> bytes \<Rightarrow> Status" where
  "SpaceLimit_msg msg msg2 = Status_msg kIOError kSpaceLimit msg msg2"

definition PathNotFound :: Status where
  "PathNotFound = Status_code kIOError kPathNotFound"

definition PathNotFound_msg :: "bytes \<Rightarrow> bytes \<Rightarrow> Status" where
  "PathNotFound_msg msg msg2 = Status_msg kIOError kPathNotFound msg msg2"

definition ok :: "Status \<Rightarrow> bool" where
  "ok s \<longleftrightarrow> code s = kOk"

definition IsNotFound :: "Status \<Rightarrow> bool" where
  "IsNotFound s \<longleftrightarrow> code s = kNotFound"

definition IsCorruption :: "Status \<Rightarrow> bool" where
  "IsCorruption s \<longleftrightarrow> code s = kCorruption"

definition IsNotSupported :: "Status \<Rightarrow> bool" where
  "IsNotSupported s \<longleftrightarrow> code s = kNotSupported"

definition IsInvalidArgument :: "Status \<Rightarrow> bool" where
  "IsInvalidArgument s \<longleftrightarrow> code s = kInvalidArgument"

definition IsIOError :: "Status \<Rightarrow> bool" where
  "IsIOError s \<longleftrightarrow> code s = kIOError"

definition IsMergeInProgress :: "Status \<Rightarrow> bool" where
  "IsMergeInProgress s \<longleftrightarrow> code s = kMergeInProgress"

definition IsIncomplete :: "Status \<Rightarrow> bool" where
  "IsIncomplete s \<longleftrightarrow> code s = kIncomplete"

definition IsShutdownInProgress :: "Status \<Rightarrow> bool" where
  "IsShutdownInProgress s \<longleftrightarrow> code s = kShutdownInProgress"

definition IsTimedOut :: "Status \<Rightarrow> bool" where
  "IsTimedOut s \<longleftrightarrow> code s = kTimedOut"

definition IsAborted :: "Status \<Rightarrow> bool" where
  "IsAborted s \<longleftrightarrow> code s = kAborted"

definition IsBusy :: "Status \<Rightarrow> bool" where
  "IsBusy s \<longleftrightarrow> code s = kBusy"

definition IsExpired :: "Status \<Rightarrow> bool" where
  "IsExpired s \<longleftrightarrow> code s = kExpired"

definition IsTryAgain :: "Status \<Rightarrow> bool" where
  "IsTryAgain s \<longleftrightarrow> code s = kTryAgain"

definition IsCompactionTooLarge :: "Status \<Rightarrow> bool" where
  "IsCompactionTooLarge s \<longleftrightarrow> code s = kCompactionTooLarge"

definition IsColumnFamilyDropped :: "Status \<Rightarrow> bool" where
  "IsColumnFamilyDropped s \<longleftrightarrow> code s = kColumnFamilyDropped"

definition IsLockLimit :: "Status \<Rightarrow> bool" where
  "IsLockLimit s \<longleftrightarrow> code s = kAborted \<and> subcode s = kLockLimit"

definition IsDeadlock :: "Status \<Rightarrow> bool" where
  "IsDeadlock s \<longleftrightarrow> code s = kBusy \<and> subcode s = kDeadlock"

definition IsNoSpace :: "Status \<Rightarrow> bool" where
  "IsNoSpace s \<longleftrightarrow> code s = kIOError \<and> subcode s = kNoSpace"

definition IsMemoryLimit :: "Status \<Rightarrow> bool" where
  "IsMemoryLimit s \<longleftrightarrow> code s = kAborted \<and> subcode s = kMemoryLimit"

definition IsPathNotFound :: "Status \<Rightarrow> bool" where
  "IsPathNotFound s \<longleftrightarrow> code s = kIOError \<and> subcode s = kPathNotFound"

definition IsManualCompactionPaused :: "Status \<Rightarrow> bool" where
  "IsManualCompactionPaused s \<longleftrightarrow> code s = kIncomplete \<and> subcode s = kManualCompactionPaused"

section \<open>Printing\<close>

definition msgs :: "bytes list" where
  "msgs =
    [str '''',
     str ''Timeout Acquiring Mutex'',
     str ''Timeout waiting to lock key'',
     str ''Failed to acquire lock due to max_num_locks limit'',
     str ''No space left on device'',
     str ''Deadlock'',
     str ''Stale file handle'',
     str ''Memory limit reached'',
     str ''Space limit reached'',
     str ''No such file or directory'',
     str ''Insufficient capacity for merge operands'',
     str ''Manual compaction paused'']"

text \<open>The digits \<^verbatim>\<open>snprintf\<close> writes for \<^verbatim>\<open>%d\<close> and a non-negative number.\<close>

fun decimal :: "nat \<Rightarrow> bytes" where
  "decimal n = (if n < 10 then [48 + of_nat n] else decimal (n div 10) @ [48 + of_nat (n mod 10)])"

declare decimal.simps [simp del]

definition code_type :: "Code \<Rightarrow> bytes" where
  "code_type c =
    (case c of
       kNotFound \<Rightarrow> str ''NotFound: ''
     | kCorruption \<Rightarrow> str ''Corruption: ''
     | kNotSupported \<Rightarrow> str ''Not implemented: ''
     | kInvalidArgument \<Rightarrow> str ''Invalid argument: ''
     | kIOError \<Rightarrow> str ''IO error: ''
     | kMergeInProgress \<Rightarrow> str ''Merge in progress: ''
     | kIncomplete \<Rightarrow> str ''Result incomplete: ''
     | kShutdownInProgress \<Rightarrow> str ''Shutdown in progress: ''
     | kTimedOut \<Rightarrow> str ''Operation timed out: ''
     | kAborted \<Rightarrow> str ''Operation aborted: ''
     | kBusy \<Rightarrow> str ''Resource busy: ''
     | kExpired \<Rightarrow> str ''Operation expired: ''
     | kTryAgain \<Rightarrow> str ''Operation failed. Try again.: ''
     | kColumnFamilyDropped \<Rightarrow> str ''Column family dropped: ''
     | _ \<Rightarrow> str ''Unknown code('' @ decimal (code_num c) @ str ''): '')"

definition Status_ToString :: "Status \<Rightarrow> bytes" where
  "Status_ToString s =
     (if code s = kOk then str ''OK''
      else code_type (code s)
        @ (if subcode s \<noteq> kNone then msgs ! subcode_num (subcode s) else [])
        @ (case state s of None \<Rightarrow> [] | Some st \<Rightarrow> c_str st))"

section \<open>Lemmas\<close>

lemmas factory_defs =
  NotFound_def NotFound_sub_def Corruption_def Corruption_sub_def
  NotSupported_def NotSupported_sub_def InvalidArgument_def InvalidArgument_sub_def
  IOError_def IOError_sub_def MergeInProgress_def MergeInProgress_sub_def
  Incomplete_def Incomplete_sub_def ShutdownInProgress_def ShutdownInProgress_sub_def
  TimedOut_def TimedOut_sub_def Aborted_def Aborted_sub_def
  Busy_def Busy_sub_def Expired_def Expired_sub_def
  TryAgain_def TryAgain_sub_def CompactionTooLarge_def CompactionTooLarge_sub_def
  ColumnFamilyDropped_def ColumnFamilyDropped_sub_def NoSpace_def NoSpace_msg_def
  MemoryLimit_def MemoryLimit_msg_def SpaceLimit_def SpaceLimit_msg_def
  PathNotFound_def PathNotFound_msg_def

lemmas predicate_defs =
  ok_def
  IsNotFound_def IsCorruption_def IsNotSupported_def IsInvalidArgument_def
  IsIOError_def IsMergeInProgress_def IsIncomplete_def IsShutdownInProgress_def
  IsTimedOut_def IsAborted_def IsBusy_def IsExpired_def
  IsTryAgain_def IsCompactionTooLarge_def IsColumnFamilyDropped_def IsLockLimit_def
  IsDeadlock_def IsNoSpace_def IsMemoryLimit_def IsPathNotFound_def
  IsManualCompactionPaused_def

lemma code_Status_msg [simp]: "code (Status_msg c sc m m2) = c"
  by (simp add: Status_msg_def)

lemma subcode_Status_msg [simp]: "subcode (Status_msg c sc m m2) = sc"
  by (simp add: Status_msg_def)

lemma code_Status_code [simp]: "code (Status_code c sc) = c"
  by (simp add: Status_code_def)

lemma subcode_Status_code [simp]: "subcode (Status_code c sc) = sc"
  by (simp add: Status_code_def)

lemma ok_OK [simp, status_simps]: "ok OK"
  by (simp add: ok_def OK_def Status_default_def)

lemma code_OK [simp, status_simps]: "code OK = kOk"
  by (simp add: OK_def Status_default_def)

lemma IsTryAgain_OK [simp, status_simps]: "\<not> IsTryAgain OK"
  by (simp add: IsTryAgain_def)

lemma not_ok_factories [simp, status_simps]:
  "\<not> ok (NotFound m m2)" "\<not> ok (NotFound_sub sc)"
  "\<not> ok (Corruption m m2)" "\<not> ok (Corruption_sub sc)"
  "\<not> ok (NotSupported m m2)" "\<not> ok (NotSupported_sub sc)"
  "\<not> ok (InvalidArgument m m2)" "\<not> ok (InvalidArgument_sub sc)"
  "\<not> ok (TryAgain m m2)" "\<not> ok (TryAgain_sub sc)"
  "\<not> ok (MergeInProgress_sub sc)" "\<not> ok (MergeInProgress m m2)"
  "\<not> ok MemoryLimit" "\<not> ok NoSpace" "\<not> ok SpaceLimit" "\<not> ok PathNotFound"
  by (simp_all add: ok_def factory_defs)

lemma tryagain_factories [simp, status_simps]:
  "IsTryAgain (TryAgain m m2)" "\<not> IsTryAgain (Corruption m m2)"
  "\<not> IsTryAgain (NotSupported m m2)" "\<not> IsTryAgain (InvalidArgument m m2)"
  "\<not> IsTryAgain (NotFound m m2)" "\<not> IsTryAgain MemoryLimit"
  by (simp_all add: predicate_defs factory_defs)

lemma ok_not_TryAgain [simp]: "ok s \<Longrightarrow> \<not> IsTryAgain s"
  by (simp add: predicate_defs)

lemma c_str_idem [simp]: "c_str (c_str s) = c_str s"
  by (simp add: c_str_def takeWhile_idem)

lemma c_str_id: "0 \<notin> set s \<Longrightarrow> c_str s = s"
  unfolding c_str_def by (rule takeWhile_eq_all_conv [THEN iffD2]) auto

lemma Status_copy_ToString: "Status_ToString (Status_copy s) = Status_ToString s"
  by (simp add: Status_ToString_def Status_copy_def CopyState_def split: option.splits)

lemma Status_copy_idem: "Status_copy (Status_copy s) = Status_copy s"
  by (cases "state s") (simp_all add: Status_copy_def CopyState_def)

lemma Status_copy_id:
  "(\<And>st. state s = Some st \<Longrightarrow> 0 \<notin> set st) \<Longrightarrow> Status_copy s = s"
  by (cases s; cases "state s") (auto simp: Status_copy_def CopyState_def c_str_id)

lemma Status_assign_copy: "Status_assign False this s = Status_copy s"
  by (cases this) (simp add: Status_assign_def Status_copy_def)

lemma Status_assign_self: "Status_assign True s s = s"
  by (simp add: Status_assign_def)

lemma Status_move_fst: "fst (Status_move s) = s"
  by (cases s) (simp add: Status_move_def Status_move_assign_def Status_default_def)

lemma Status_move_snd: "snd (Status_move s) = OK"
  by (cases s) (simp add: Status_move_def Status_move_assign_def Status_default_def OK_def)

lemma length_msgs: "length msgs = subcode_num kMaxSubCode"
  by (simp add: msgs_def)

end
