(* ===== verification/WriteBatch.thy ===== *)
theory WriteBatch
  imports Status DbFormat
begin

text \<open>
  The batch of updates: include/rocksdb/write_batch.h, db/write_batch_internal.h and the
  writers of db/write_batch.cc. A batch is one string: eight bytes of sequence number, four of
  count, and then the records, each a tag byte, a column family number unless it is the
  default one, and length-prefixed strings. Beside it the batch keeps flags that say what kinds
  of records it holds, a stack of save points and a limit on its size.

  A member function that changes the batch returns the changed batch after its status. The
  overloads that gather a key from parts have the suffix \<open>_parts\<close>.
\<close>

section \<open>State\<close>

record SavePoint =
  sp_size :: nat
  sp_count :: u32
  sp_content_flags :: u32

record WriteBatch =
  rep :: bytes
  content_flags :: u32
  max_bytes :: nat
  timestamp_size_of :: nat
  save_points :: "SavePoint list option"
  wal_term_point :: SavePoint
  is_latest_persistent_state :: bool

abbreviation DEFERRED :: u32 where "DEFERRED \<equiv> 1"
abbreviation HAS_PUT :: u32 where "HAS_PUT \<equiv> 2"
abbreviation HAS_DELETE :: u32 where "HAS_DELETE \<equiv> 4"
abbreviation HAS_SINGLE_DELETE :: u32 where "HAS_SINGLE_DELETE \<equiv> 8"
abbreviation HAS_MERGE :: u32 where "HAS_MERGE \<equiv> 16"
abbreviation HAS_BEGIN_PREPARE :: u32 where "HAS_BEGIN_PREPARE \<equiv> 32"
abbreviation HAS_END_PREPARE :: u32 where "HAS_END_PREPARE \<equiv> 64"
abbreviation HAS_COMMIT :: u32 where "HAS_COMMIT \<equiv> 128"
abbreviation HAS_ROLLBACK :: u32 where "HAS_ROLLBACK \<equiv> 256"
abbreviation HAS_DELETE_RANGE :: u32 where "HAS_DELETE_RANGE \<equiv> 512"
abbreviation HAS_BLOB_INDEX :: u32 where "HAS_BLOB_INDEX \<equiv> 1024"
abbreviation HAS_BEGIN_UNPREPARE :: u32 where "HAS_BEGIN_UNPREPARE \<equiv> 2048"

definition kHeader :: nat where
  "kHeader = 12"

definition SavePoint_clear :: SavePoint where
  "SavePoint_clear = \<lparr>sp_size = 0, sp_count = 0, sp_content_flags = 0\<rparr>"

definition is_cleared :: "SavePoint \<Rightarrow> bool" where
  "is_cleared p \<longleftrightarrow> sp_size p = 0 \<and> sp_count p OR sp_content_flags p = 0"

definition WriteBatch_new :: "nat \<Rightarrow> nat \<Rightarrow> WriteBatch" where
  "WriteBatch_new limit ts_sz =
     \<lparr>rep = resize kHeader [], content_flags = 0, max_bytes = limit, timestamp_size_of = ts_sz,
      save_points = None, wal_term_point = SavePoint_clear, is_latest_persistent_state = False\<rparr>"

definition WriteBatch_of_rep :: "bytes \<Rightarrow> WriteBatch" where
  "WriteBatch_of_rep r =
     \<lparr>rep = r, content_flags = DEFERRED, max_bytes = 0, timestamp_size_of = 0,
      save_points = None, wal_term_point = SavePoint_clear, is_latest_persistent_state = False\<rparr>"

text \<open>
  The copy and the move constructor list every member but the mark of the latest persistent
  state, which starts as false in the new object; the move leaves the source without its
  strings and save points.
\<close>

definition WriteBatch_copy :: "WriteBatch \<Rightarrow> WriteBatch" where
  "WriteBatch_copy src =
     \<lparr>rep = rep src, content_flags = content_flags src, max_bytes = max_bytes src,
      timestamp_size_of = timestamp_size_of src, save_points = save_points src,
      wal_term_point = wal_term_point src, is_latest_persistent_state = False\<rparr>"

definition WriteBatch_assign :: "bool \<Rightarrow> WriteBatch \<Rightarrow> WriteBatch \<Rightarrow> WriteBatch" where
  "WriteBatch_assign same this src = (if \<not> same then WriteBatch_copy src else this)"

definition clear_stack :: "SavePoint list option \<Rightarrow> SavePoint list option" where
  "clear_stack st = map_option (\<lambda>_. []) st"

definition wb_Clear :: "WriteBatch \<Rightarrow> WriteBatch" where
  "wb_Clear b =
     b\<lparr>rep := resize kHeader [], content_flags := 0,
       save_points := clear_stack (save_points b), wal_term_point := SavePoint_clear\<rparr>"

section \<open>Header\<close>

definition wb_Count :: "WriteBatch \<Rightarrow> u32" where
  "wb_Count b = DecodeFixed32 (drop 8 (rep b))"

definition wb_SetCount :: "WriteBatch \<Rightarrow> u32 \<Rightarrow> WriteBatch" where
  "wb_SetCount b n = b\<lparr>rep := poke (rep b) 8 (EncodeFixed32 n)\<rparr>"

definition wb_Sequence :: "WriteBatch \<Rightarrow> SequenceNumber" where
  "wb_Sequence b = DecodeFixed64 (rep b)"

definition wb_SetSequence :: "WriteBatch \<Rightarrow> SequenceNumber \<Rightarrow> WriteBatch" where
  "wb_SetSequence b seq = b\<lparr>rep := poke (rep b) 0 (EncodeFixed64 seq)\<rparr>"

definition GetFirstOffset :: "WriteBatch \<Rightarrow> nat" where
  "GetFirstOffset b = kHeader"

definition GetDataSize :: "WriteBatch \<Rightarrow> nat" where
  "GetDataSize b = length (rep b)"

definition SetMaxBytes :: "WriteBatch \<Rightarrow> nat \<Rightarrow> WriteBatch" where
  "SetMaxBytes b n = b\<lparr>max_bytes := n\<rparr>"

definition IsLatestPersistentState :: "WriteBatch \<Rightarrow> bool" where
  "IsLatestPersistentState b = is_latest_persistent_state b"

definition SetAsLastestPersistentState :: "WriteBatch \<Rightarrow> WriteBatch" where
  "SetAsLastestPersistentState b = b\<lparr>is_latest_persistent_state := True\<rparr>"

definition MarkWalTerminationPoint :: "WriteBatch \<Rightarrow> WriteBatch" where
  "MarkWalTerminationPoint b =
     b\<lparr>wal_term_point := \<lparr>sp_size = GetDataSize b, sp_count = wb_Count b,
                           sp_content_flags = content_flags b\<rparr>\<rparr>"

section \<open>Writers\<close>

definition LocalSavePoint :: "WriteBatch \<Rightarrow> SavePoint" where
  "LocalSavePoint b =
     \<lparr>sp_size = GetDataSize b, sp_count = wb_Count b, sp_content_flags = content_flags b\<rparr>"

definition commit :: "SavePoint \<Rightarrow> WriteBatch \<Rightarrow> Status \<times> WriteBatch" where
  "commit savepoint b =
     (if max_bytes b \<noteq> 0 \<and> length (rep b) > max_bytes b
      then (MemoryLimit,
            (wb_SetCount (b\<lparr>rep := resize (sp_size savepoint) (rep b)\<rparr>) (sp_count savepoint))
              \<lparr>content_flags := sp_content_flags savepoint\<rparr>)
      else (OK, b))"

text \<open>The head of a record: one of two tags, with the column family after the second.\<close>

definition push_tag :: "ValueType \<Rightarrow> ValueType \<Rightarrow> u32 \<Rightarrow> WriteBatch \<Rightarrow> WriteBatch" where
  "push_tag t cf_t cf b =
     (if cf = 0 then b\<lparr>rep := rep b @ [t]\<rparr>
      else b\<lparr>rep := PutVarint32 (rep b @ [cf_t]) cf\<rparr>)"

definition push_slice :: "bytes \<Rightarrow> WriteBatch \<Rightarrow> WriteBatch" where
  "push_slice s b = b\<lparr>rep := PutLengthPrefixedSlice (rep b) s\<rparr>"

definition push_parts :: "bytes list \<Rightarrow> WriteBatch \<Rightarrow> WriteBatch" where
  "push_parts parts b = b\<lparr>rep := PutLengthPrefixedSliceParts (rep b) parts\<rparr>"

definition add_flags :: "u32 \<Rightarrow> WriteBatch \<Rightarrow> WriteBatch" where
  "add_flags fl b = b\<lparr>content_flags := content_flags b OR fl\<rparr>"

definition kMaxUint32 :: nat where
  "kMaxUint32 = 2 ^ 32 - 1"

definition wb_Put :: "WriteBatch \<Rightarrow> u32 \<Rightarrow> bytes \<Rightarrow> bytes \<Rightarrow> Status \<times> WriteBatch" where
  "wb_Put b cf key v =
     (if length key > kMaxUint32 then (InvalidArgument (str ''key is too large'') [], b)
      else if length v > kMaxUint32 then (InvalidArgument (str ''value is too large'') [], b)
      else
        (let save = LocalSavePoint b;
             b1 = wb_SetCount b (wb_Count b + 1);
             b2 = push_tag kTypeValue kTypeColumnFamilyValue cf b1;
             b3 = (if 0 = timestamp_size_of b then push_slice key b2
                   else b2\<lparr>rep := PutVarint32 (rep b2) (of_nat (length key + timestamp_size_of b))
                             @ key @ replicate (timestamp_size_of b) 0\<rparr>);
             b4 = push_slice v b3
         in commit save (add_flags HAS_PUT b4)))"

definition CheckSlicePartsLength :: "bytes list \<Rightarrow> bytes list \<Rightarrow> Status" where
  "CheckSlicePartsLength key v =
     (let total_key_bytes = fold (\<lambda>part t. t + length part) key 0
      in if total_key_bytes \<ge> kMaxUint32 then InvalidArgument (str ''key is too large'') []
         else
           (let total_value_bytes = fold (\<lambda>part t. t + length part) v 0
            in if total_value_bytes \<ge> kMaxUint32
               then InvalidArgument (str ''value is too large'') []
               else OK))"

definition wb_Put_parts ::
  "WriteBatch \<Rightarrow> u32 \<Rightarrow> bytes list \<Rightarrow> bytes list \<Rightarrow> Status \<times> WriteBatch" where
  "wb_Put_parts b cf key v =
     (let s = CheckSlicePartsLength key v
      in if \<not> ok s then (s, b)
         else
           (let save = LocalSavePoint b;
                b1 = wb_SetCount b (wb_Count b + 1);
                b2 = push_tag kTypeValue kTypeColumnFamilyValue cf b1;
                b3 = (if 0 = timestamp_size_of b then push_parts key b2
                      else b2\<lparr>rep := PutLengthPrefixedSlicePartsWithPadding (rep b2) key
                                       (timestamp_size_of b)\<rparr>);
                b4 = push_parts v b3
            in commit save (add_flags HAS_PUT b4)))"

definition wb_InsertNoop :: "WriteBatch \<Rightarrow> Status \<times> WriteBatch" where
  "wb_InsertNoop b = (OK, b\<lparr>rep := rep b @ [kTypeNoop]\<rparr>)"

definition wb_MarkEndPrepare ::
  "WriteBatch \<Rightarrow> bytes \<Rightarrow> bool \<Rightarrow> bool \<Rightarrow> Status \<times> WriteBatch" where
  "wb_MarkEndPrepare b xid write_after_commit unprepared_batch =
     (let b1 = b\<lparr>save_points := clear_stack (save_points b)\<rparr>;
          b2 = b1\<lparr>rep := (rep b1)[12 :=
                 (if write_after_commit then kTypeBeginPrepareXID
                  else if unprepared_batch then kTypeBeginUnprepareXID
                  else kTypeBeginPersistedPrepareXID)]\<rparr>;
          b3 = push_slice xid (b2\<lparr>rep := rep b2 @ [kTypeEndPrepareXID]\<rparr>);
          b4 = add_flags (HAS_END_PREPARE OR HAS_BEGIN_PREPARE) b3;
          b5 = (if unprepared_batch then add_flags HAS_BEGIN_UNPREPARE b4 else b4)
      in (OK, b5))"

definition wb_MarkCommit :: "WriteBatch \<Rightarrow> bytes \<Rightarrow> Status \<times> WriteBatch" where
  "wb_MarkCommit b xid =
     (OK, add_flags HAS_COMMIT (push_slice xid (b\<lparr>rep := rep b @ [kTypeCommitXID]\<rparr>)))"

definition wb_MarkRollback :: "WriteBatch \<Rightarrow> bytes \<Rightarrow> Status \<times> WriteBatch" where
  "wb_MarkRollback b xid =
     (OK, add_flags HAS_ROLLBACK (push_slice xid (b\<lparr>rep := rep b @ [kTypeRollbackXID]\<rparr>)))"

definition wb_Delete :: "WriteBatch \<Rightarrow> u32 \<Rightarrow> bytes \<Rightarrow> Status \<times> WriteBatch" where
  "wb_Delete b cf key =
     (let save = LocalSavePoint b;
          b1 = wb_SetCount b (wb_Count b + 1);
          b2 = push_tag kTypeDeletion kTypeColumnFamilyDeletion cf b1;
          b3 = push_slice key b2
      in commit save (add_flags HAS_DELETE b3))"

definition wb_Delete_parts :: "WriteBatch \<Rightarrow> u32 \<Rightarrow> bytes list \<Rightarrow> Status \<times> WriteBatch" where
  "wb_Delete_parts b cf key =
     (let save = LocalSavePoint b;
          b1 = wb_SetCount b (wb_Count b + 1);
          b2 = push_tag kTypeDeletion kTypeColumnFamilyDeletion cf b1;
          b3 = push_parts key b2
      in commit save (add_flags HAS_DELETE b3))"

definition wb_SingleDelete :: "WriteBatch \<Rightarrow> u32 \<Rightarrow> bytes \<Rightarrow> Status \<times> WriteBatch" where
  "wb_SingleDelete b cf key =
     (let save = LocalSavePoint b;
          b1 = wb_SetCount b (wb_Count b + 1);
          b2 = push_tag kTypeSingleDeletion kTypeColumnFamilySingleDeletion cf b1;
          b3 = push_slice key b2
      in commit save (add_flags HAS_SINGLE_DELETE b3))"

definition wb_SingleDelete_parts ::
  "WriteBatch \<Rightarrow> u32 \<Rightarrow> bytes list \<Rightarrow> Status \<times> WriteBatch" where
  "wb_SingleDelete_parts b cf key =
     (let save = LocalSavePoint b;
          b1 = wb_SetCount b (wb_Count b + 1);
          b2 = push_tag kTypeSingleDeletion kTypeColumnFamilySingleDeletion cf b1;
          b3 = push_parts key b2
      in commit save (add_flags HAS_SINGLE_DELETE b3))"

definition wb_DeleteRange ::
  "WriteBatch \<Rightarrow> u32 \<Rightarrow> bytes \<Rightarrow> bytes \<Rightarrow> Status \<times> WriteBatch" where
  "wb_DeleteRange b cf begin_key end_key =
     (let save = LocalSavePoint b;
          b1 = wb_SetCount b (wb_Count b + 1);
          b2 = push_tag kTypeRangeDeletion kTypeColumnFamilyRangeDeletion cf b1;
          b3 = push_slice end_key (push_slice begin_key b2)
      in commit save (add_flags HAS_DELETE_RANGE b3))"

definition wb_DeleteRange_parts ::
  "WriteBatch \<Rightarrow> u32 \<Rightarrow> bytes list \<Rightarrow> bytes list \<Rightarrow> Status \<times> WriteBatch" where
  "wb_DeleteRange_parts b cf begin_key end_key =
     (let save = LocalSavePoint b;
          b1 = wb_SetCount b (wb_Count b + 1);
          b2 = push_tag kTypeRangeDeletion kTypeColumnFamilyRangeDeletion cf b1;
          b3 = push_parts end_key (push_parts begin_key b2)
      in commit save (add_flags HAS_DELETE_RANGE b3))"

definition wb_Merge :: "WriteBatch \<Rightarrow> u32 \<Rightarrow> bytes \<Rightarrow> bytes \<Rightarrow> Status \<times> WriteBatch" where
  "wb_Merge b cf key v =
     (if length key > kMaxUint32 then (InvalidArgument (str ''key is too large'') [], b)
      else if length v > kMaxUint32 then (InvalidArgument (str ''value is too large'') [], b)
      else
        (let save = LocalSavePoint b;
             b1 = wb_SetCount b (wb_Count b + 1);
             b2 = push_tag kTypeMerge kTypeColumnFamilyMerge cf b1;
             b3 = push_slice v (push_slice key b2)
         in commit save (add_flags HAS_MERGE b3)))"

definition wb_Merge_parts ::
  "WriteBatch \<Rightarrow> u32 \<Rightarrow> bytes list \<Rightarrow> bytes list \<Rightarrow> Status \<times> WriteBatch" where
  "wb_Merge_parts b cf key v =
     (let s = CheckSlicePartsLength key v
      in if \<not> ok s then (s, b)
         else
           (let save = LocalSavePoint b;
                b1 = wb_SetCount b (wb_Count b + 1);
                b2 = push_tag kTypeMerge kTypeColumnFamilyMerge cf b1;
                b3 = push_parts v (push_parts key b2)
            in commit save (add_flags HAS_MERGE b3)))"

definition wb_PutBlobIndex ::
  "WriteBatch \<Rightarrow> u32 \<Rightarrow> bytes \<Rightarrow> bytes \<Rightarrow> Status \<times> WriteBatch" where
  "wb_PutBlobIndex b cf key v =
     (let save = LocalSavePoint b;
          b1 = wb_SetCount b (wb_Count b + 1);
          b2 = push_tag kTypeBlobIndex kTypeColumnFamilyBlobIndex cf b1;
          b3 = push_slice v (push_slice key b2)
      in commit save (add_flags HAS_BLOB_INDEX b3))"

definition wb_PutLogData :: "WriteBatch \<Rightarrow> bytes \<Rightarrow> Status \<times> WriteBatch" where
  "wb_PutLogData b blob =
     (let save = LocalSavePoint b
      in commit save (push_slice blob (b\<lparr>rep := rep b @ [kTypeLogData]\<rparr>)))"

section \<open>Save points and whole batches\<close>

definition wb_SetSavePoint :: "WriteBatch \<Rightarrow> WriteBatch" where
  "wb_SetSavePoint b =
     (let st = (case save_points b of None \<Rightarrow> [] | Some st \<Rightarrow> st)
      in b\<lparr>save_points := Some (LocalSavePoint b # st)\<rparr>)"

definition wb_RollbackToSavePoint :: "WriteBatch \<Rightarrow> Status \<times> WriteBatch" where
  "wb_RollbackToSavePoint b =
     (case save_points b of
        Some (savepoint # st) \<Rightarrow>
          (let b1 = b\<lparr>save_points := Some st\<rparr>
           in if sp_size savepoint = length (rep b1) then (OK, b1)
              else if sp_size savepoint = 0 then (OK, wb_Clear b1)
              else
                (OK, (wb_SetCount (b1\<lparr>rep := resize (sp_size savepoint) (rep b1)\<rparr>)
                        (sp_count savepoint))
                       \<lparr>content_flags := sp_content_flags savepoint\<rparr>))
      | _ \<Rightarrow> (NotFound_sub kNone, b))"

definition wb_PopSavePoint :: "WriteBatch \<Rightarrow> Status \<times> WriteBatch" where
  "wb_PopSavePoint b =
     (case save_points b of
        Some (savepoint # st) \<Rightarrow> (OK, b\<lparr>save_points := Some st\<rparr>)
      | _ \<Rightarrow> (NotFound_sub kNone, b))"

definition wb_SetContents :: "WriteBatch \<Rightarrow> bytes \<Rightarrow> Status \<times> WriteBatch" where
  "wb_SetContents b contents = (OK, b\<lparr>rep := contents, content_flags := DEFERRED\<rparr>)"

definition wb_Append :: "WriteBatch \<Rightarrow> WriteBatch \<Rightarrow> bool \<Rightarrow> Status \<times> WriteBatch" where
  "wb_Append dst src wal_only =
     (let batch_end = wal_term_point src;
          (src_len, src_count, src_flags) =
            (if wal_only \<and> \<not> is_cleared batch_end
             then (sp_size batch_end - kHeader, sp_count batch_end, sp_content_flags batch_end)
             else (length (rep src) - kHeader, wb_Count src, content_flags src));
          d1 = wb_SetCount dst (wb_Count dst + src_count);
          d2 = d1\<lparr>rep := rep d1 @ take src_len (drop kHeader (rep src))\<rparr>
      in (OK, add_flags src_flags d2))"

definition AppendedByteSize :: "nat \<Rightarrow> nat \<Rightarrow> nat" where
  "AppendedByteSize leftByteSize rightByteSize =
     (if leftByteSize = 0 \<or> rightByteSize = 0 then leftByteSize + rightByteSize
      else leftByteSize + rightByteSize - kHeader)"

end
