(* ===== verification/Napi.thy ===== *)
theory Napi
  imports Options WriteBatch
begin

text \<open>
  The ground the addon stands on (src/binding.cc, its macros and declarations): the
  interface of Node.js it calls, the engine behind it, and the memory it manages.

  Node's C interface and the macros of the package napi-macros are not part of the
  repository. They are a record of functions, an argument of every method, over an
  environment \<open>'e\<close> (the state of the JavaScript engine) and JavaScript values \<open>'v\<close>. A call
  returns its status first, then what it leaves in its output variables.

  The engine is a record of functions over its own state \<open>'d\<close>, with options \<open>'o\<close>.

  A method runs in a world: the environment, the engine, the objects allocated with
  \<^verbatim>\<open>new\<close> by their addresses, one table for each type, and the flag of the logger. Using a
  pointer that is not in its table is undefined behaviour, the outcome \<open>Undefined\<close>. A macro
  that may leave the method early takes the rest of the method as an argument.
\<close>

section \<open>The interface of Node\<close>

type_synonym napi_status = nat

abbreviation (input) napi_ok :: napi_status where "napi_ok \<equiv> 0"

datatype encoding = utf8 | latin1

datatype finalizer =
    slice_finalizer | write_options_finalizer | options_finalizer | db_finalizer
  | iterator_finalizer | batch_finalizer | promise_finalizer | snapshot_finalizer
  | read_options_finalizer

record ('e, 'v) napi =
  napi_get_cb_info :: "'e \<Rightarrow> 'v list \<Rightarrow> nat \<Rightarrow> napi_status \<times> 'v list"
  napi_macros_throw :: "'e \<Rightarrow> 'e"
  napi_throw_error :: "bytes \<Rightarrow> 'e \<Rightarrow> 'e"
  napi_get_value_external :: "'e \<Rightarrow> 'v \<Rightarrow> napi_status \<times> ptr"
  napi_get_buffer_info :: "'e \<Rightarrow> 'v \<Rightarrow> napi_status \<times> ptr \<times> nat"
  buffer_memory :: "'e \<Rightarrow> ptr \<Rightarrow> nat \<Rightarrow> bytes"
  napi_string_size :: "encoding \<Rightarrow> 'e \<Rightarrow> 'v \<Rightarrow> napi_status \<times> nat"
  napi_string_copy :: "encoding \<Rightarrow> 'e \<Rightarrow> 'v \<Rightarrow> nat \<Rightarrow> napi_status \<times> bytes"
  napi_get_value_bool :: "'e \<Rightarrow> 'v \<Rightarrow> napi_status \<times> bool"
  napi_get_value_int32 :: "'e \<Rightarrow> 'v \<Rightarrow> napi_status \<times> u32"
  napi_get_value_bigint_uint64 :: "'e \<Rightarrow> 'v \<Rightarrow> napi_status \<times> u64 \<times> bool"
  napi_create_external :: "ptr \<Rightarrow> finalizer \<Rightarrow> ptr \<Rightarrow> 'e \<Rightarrow> napi_status \<times> 'v \<times> 'e"
  napi_add_finalizer :: "'v \<Rightarrow> ptr \<Rightarrow> finalizer \<Rightarrow> 'e \<Rightarrow> 'e"
  napi_create_reference :: "'v \<Rightarrow> nat \<Rightarrow> 'e \<Rightarrow> napi_status \<times> nat \<times> 'e"
  napi_delete_reference :: "nat \<Rightarrow> 'e \<Rightarrow> napi_status \<times> 'e"
  napi_get_boolean :: "bool \<Rightarrow> 'e \<Rightarrow> napi_status \<times> 'v \<times> 'e"
  napi_get_undefined :: "'e \<Rightarrow> napi_status \<times> 'v \<times> 'e"
  napi_create_int32 :: "u32 \<Rightarrow> 'e \<Rightarrow> napi_status \<times> 'v \<times> 'e"
  napi_create_bigint_uint64 :: "u64 \<Rightarrow> 'e \<Rightarrow> napi_status \<times> 'v \<times> 'e"
  napi_create_buffer_copy :: "bytes \<Rightarrow> 'e \<Rightarrow> napi_status \<times> 'v \<times> 'e"
  napi_create_string :: "encoding \<Rightarrow> bytes \<Rightarrow> 'e \<Rightarrow> napi_status \<times> 'v \<times> 'e"
  napi_create_array_with_length :: "nat \<Rightarrow> 'e \<Rightarrow> napi_status \<times> 'v \<times> 'e"
  napi_set_element :: "'v \<Rightarrow> nat \<Rightarrow> 'v \<Rightarrow> 'e \<Rightarrow> napi_status \<times> 'e"
  napi_create_promise :: "'e \<Rightarrow> napi_status \<times> nat \<times> 'v \<times> 'e"
  napi_create_async_work :: "ptr \<Rightarrow> 'v \<Rightarrow> 'e \<Rightarrow> napi_status \<times> nat \<times> 'e"
  napi_queue_async_work :: "nat \<Rightarrow> 'e \<Rightarrow> napi_status \<times> 'e"
  napi_delete_async_work :: "nat \<Rightarrow> 'e \<Rightarrow> napi_status \<times> 'e"
  napi_resolve_deferred :: "nat \<Rightarrow> 'v \<Rightarrow> 'e \<Rightarrow> napi_status \<times> 'e"
  napi_reject_deferred :: "nat \<Rightarrow> 'v \<Rightarrow> 'e \<Rightarrow> napi_status \<times> 'e"

section \<open>The engine\<close>

text \<open>
  What the engine sees of the slices its options point to: the bytes behind each pointer
  that is alive.
\<close>

type_synonym slice_view = "ptr \<Rightarrow> bytes option"

record ('d, 'o) engine =
  Options_new :: 'o
  GetDBOptionsFromString :: "'o \<Rightarrow> bytes \<Rightarrow> 'o \<Rightarrow> Status \<times> 'o"
  DB_Open :: "'o \<Rightarrow> bytes \<Rightarrow> ptr \<Rightarrow> 'd \<Rightarrow> Status \<times> ptr \<times> 'd"
  DB_Close :: "ptr \<Rightarrow> 'd \<Rightarrow> Status \<times> 'd"
  DB_delete :: "ptr \<Rightarrow> 'd \<Rightarrow> 'd"
  DestroyDB :: "bytes \<Rightarrow> 'o \<Rightarrow> 'd \<Rightarrow> Status \<times> 'd"
  RepairDB :: "bytes \<Rightarrow> 'o \<Rightarrow> 'd \<Rightarrow> Status \<times> 'd"
  DB_Write :: "ptr \<Rightarrow> WriteOptions \<Rightarrow> WriteBatch \<Rightarrow> 'd \<Rightarrow> Status \<times> WriteBatch \<times> 'd"
  batch_AssignTimestamp :: "WriteBatch \<Rightarrow> bytes \<Rightarrow> Status \<times> WriteBatch"
  DB_Get :: "ptr \<Rightarrow> ReadOptions \<Rightarrow> slice_view \<Rightarrow> u32 \<Rightarrow> bytes \<Rightarrow> 'd \<Rightarrow> Status \<times> bytes \<times> 'd"
  DB_NewIterator :: "ptr \<Rightarrow> ReadOptions \<Rightarrow> slice_view \<Rightarrow> 'd \<Rightarrow> ptr \<times> 'd"
  Iterator_delete :: "ptr \<Rightarrow> 'd \<Rightarrow> 'd"
  Iterator_Seek :: "ptr \<Rightarrow> slice_view \<Rightarrow> bytes \<Rightarrow> 'd \<Rightarrow> 'd"
  Iterator_SeekForPrev :: "ptr \<Rightarrow> slice_view \<Rightarrow> bytes \<Rightarrow> 'd \<Rightarrow> 'd"
  Iterator_SeekToFirst :: "ptr \<Rightarrow> slice_view \<Rightarrow> 'd \<Rightarrow> 'd"
  Iterator_SeekToLast :: "ptr \<Rightarrow> slice_view \<Rightarrow> 'd \<Rightarrow> 'd"
  Iterator_Next :: "ptr \<Rightarrow> slice_view \<Rightarrow> 'd \<Rightarrow> 'd"
  Iterator_Prev :: "ptr \<Rightarrow> slice_view \<Rightarrow> 'd \<Rightarrow> 'd"
  Iterator_Reset :: "ptr \<Rightarrow> 'd \<Rightarrow> 'd"
  Iterator_Refresh :: "ptr \<Rightarrow> 'd \<Rightarrow> Status \<times> 'd"
  Iterator_Valid :: "ptr \<Rightarrow> 'd \<Rightarrow> bool"
  Iterator_key :: "ptr \<Rightarrow> 'd \<Rightarrow> bytes"
  Iterator_value :: "ptr \<Rightarrow> 'd \<Rightarrow> bytes"
  Iterator_status :: "ptr \<Rightarrow> 'd \<Rightarrow> Status"
  DB_GetSnapshot :: "ptr \<Rightarrow> 'd \<Rightarrow> ptr \<times> 'd"
  DB_ReleaseSnapshot :: "ptr \<Rightarrow> ptr \<Rightarrow> 'd \<Rightarrow> 'd"

section \<open>The world of the addon\<close>

text \<open>
  The bytes of a slice lie in a buffer of JavaScript or in an array of the addon. A member of a
  promise that its constructor has not set is \<open>None\<close>. The process may be ended by a fatal
  error.
\<close>

datatype data_ptr = js_buffer ptr | char_array ptr

type_synonym slice = "data_ptr \<times> nat"

record 'v promise =
  success :: bool
  executing :: bool
  promise :: "'v option"
  deferred :: "nat option"
  async_work :: "nat option"
  promise_status :: Status
  promise_db :: ptr
  promise_batch :: ptr
  promise_options :: ptr

record ('e, 'v, 'd, 'o) world =
  env :: 'e
  engine_state :: 'd
  next_address :: ptr
  char_arrays :: "ptr \<rightharpoonup> bytes"
  slices :: "ptr \<rightharpoonup> slice"
  write_options :: "ptr \<rightharpoonup> WriteOptions"
  read_options :: "ptr \<rightharpoonup> ReadOptions"
  options_of :: "ptr \<rightharpoonup> 'o"
  batches :: "ptr \<rightharpoonup> WriteBatch"
  references :: "ptr \<rightharpoonup> nat"
  promises :: "ptr \<rightharpoonup> 'v promise"
  logging_enabled :: bool

datatype ('w, 'v) outcome = Returned 'w "'v option" | Undefined | Fatal

type_synonym ('e, 'v, 'd, 'o) act =
  "('e, 'v, 'd, 'o) world \<Rightarrow> (('e, 'v, 'd, 'o) world, 'v) outcome"

text \<open>
  Returning a value, returning null (which JavaScript sees as undefined), and giving up because
  of undefined behaviour.
\<close>

definition RETURN :: "'v \<Rightarrow> ('e, 'v, 'd, 'o) act" where
  "RETURN v w = Returned w (Some v)"

definition NAPI_RETURN_UNDEFINED :: "('e, 'v, 'd, 'o) act" where
  "NAPI_RETURN_UNDEFINED w = Returned w None"

definition use_object :: "'a option \<Rightarrow> ('a \<Rightarrow> ('e, 'v, 'd, 'o) act) \<Rightarrow> ('e, 'v, 'd, 'o) act" where
  "use_object x K w = (case x of None \<Rightarrow> Undefined | Some a \<Rightarrow> K a w)"

section \<open>The macros\<close>

text \<open>
  \<^verbatim>\<open>NAPI_STATUS_THROWS\<close> and \<^verbatim>\<open>NAPI_ARGV\<close> of napi-macros: throw and return null unless the
  call succeeds; fetch the arguments. The variants are for calls that only read the
  environment, that change it and give a result, and that only change it.
\<close>

definition STATUS_THROWS ::
  "('e, 'v) napi \<Rightarrow> napi_status \<Rightarrow> ('e, 'v, 'd, 'o) act \<Rightarrow> ('e, 'v, 'd, 'o) act" where
  "STATUS_THROWS N status K w =
     (if status \<noteq> napi_ok then Returned (w\<lparr>env := napi_macros_throw N (env w)\<rparr>) None else K w)"

definition NAPI_READ ::
  "('e, 'v) napi \<Rightarrow> ('e \<Rightarrow> napi_status \<times> 'a) \<Rightarrow> ('a \<Rightarrow> ('e, 'v, 'd, 'o) act)
     \<Rightarrow> ('e, 'v, 'd, 'o) act" where
  "NAPI_READ N call K w = (case call (env w) of (status, x) \<Rightarrow> STATUS_THROWS N status (K x) w)"

definition NAPI_CREATE ::
  "('e, 'v) napi \<Rightarrow> ('e \<Rightarrow> napi_status \<times> 'a \<times> 'e) \<Rightarrow> ('a \<Rightarrow> ('e, 'v, 'd, 'o) act)
     \<Rightarrow> ('e, 'v, 'd, 'o) act" where
  "NAPI_CREATE N call K w =
     (case call (env w) of (status, x, e) \<Rightarrow> STATUS_THROWS N status (K x) (w\<lparr>env := e\<rparr>))"

definition NAPI_DO ::
  "('e, 'v) napi \<Rightarrow> ('e \<Rightarrow> napi_status \<times> 'e) \<Rightarrow> ('e, 'v, 'd, 'o) act
     \<Rightarrow> ('e, 'v, 'd, 'o) act" where
  "NAPI_DO N call K w =
     (case call (env w) of (status, e) \<Rightarrow> STATUS_THROWS N status K (w\<lparr>env := e\<rparr>))"

definition NAPI_ARGV ::
  "('e, 'v) napi \<Rightarrow> 'v list \<Rightarrow> nat \<Rightarrow> ('v list \<Rightarrow> ('e, 'v, 'd, 'o) act)
     \<Rightarrow> ('e, 'v, 'd, 'o) act" where
  "NAPI_ARGV N info n K = NAPI_READ N (\<lambda>e. napi_get_cb_info N e info n) K"

definition FROM_EXTERNAL_ARGUMENT ::
  "('e, 'v) napi \<Rightarrow> 'v list \<Rightarrow> nat \<Rightarrow> (ptr \<Rightarrow> ('e, 'v, 'd, 'o) act)
     \<Rightarrow> ('e, 'v, 'd, 'o) act" where
  "FROM_EXTERNAL_ARGUMENT N argv index K =
     NAPI_READ N (\<lambda>e. napi_get_value_external N e (argv ! index)) K"

text \<open>The string is built from the buffer at once.\<close>

definition STRING_FROM_BUFFER_ARGUMENT ::
  "('e, 'v) napi \<Rightarrow> 'v list \<Rightarrow> nat \<Rightarrow> (bytes \<Rightarrow> ('e, 'v, 'd, 'o) act)
     \<Rightarrow> ('e, 'v, 'd, 'o) act" where
  "STRING_FROM_BUFFER_ARGUMENT N argv index K =
     NAPI_READ N (\<lambda>e. napi_get_buffer_info N e (argv ! index))
       (\<lambda>(chars, size) w. K (buffer_memory N (env w) chars size) w)"

definition SLICE_FROM_BUFFER_ARGUMENT ::
  "('e, 'v) napi \<Rightarrow> 'v list \<Rightarrow> nat \<Rightarrow> (slice \<Rightarrow> ('e, 'v, 'd, 'o) act)
     \<Rightarrow> ('e, 'v, 'd, 'o) act" where
  "SLICE_FROM_BUFFER_ARGUMENT N argv index K =
     NAPI_READ N (\<lambda>e. napi_get_buffer_info N e (argv ! index))
       (\<lambda>(buf, size). K (js_buffer buf, size))"

text \<open>
  \<^verbatim>\<open>new\<close> hands out the next address. The size of a string is asked first, without looking
  at the status; the array has room for the terminator; the second call copies the characters
  and says how many there are. The array holds indeterminate bytes until it is filled, here the
  copied ones, which are all that the slice shows.
\<close>

definition new_object ::
  "(ptr \<Rightarrow> ('e, 'v, 'd, 'o) world \<Rightarrow> ('e, 'v, 'd, 'o) world)
     \<Rightarrow> (ptr \<Rightarrow> ('e, 'v, 'd, 'o) act) \<Rightarrow> ('e, 'v, 'd, 'o) act" where
  "new_object init K w =
     (let p = next_address w in K p (init p (w\<lparr>next_address := Suc p\<rparr>)))"

definition SLICE_FROM_STRING_ARGUMENT ::
  "('e, 'v) napi \<Rightarrow> encoding \<Rightarrow> 'v list \<Rightarrow> nat \<Rightarrow> (slice \<Rightarrow> ('e, 'v, 'd, 'o) act)
     \<Rightarrow> ('e, 'v, 'd, 'o) act" where
  "SLICE_FROM_STRING_ARGUMENT N enc argv index K w =
     (let size = snd (napi_string_size N enc (env w) (argv ! index)) + 1
      in new_object (\<lambda>p w. w\<lparr>char_arrays := (char_arrays w)(p \<mapsto> [])\<rparr>)
           (\<lambda>buf. NAPI_READ N (\<lambda>e. napi_string_copy N enc e (argv ! index) size)
              (\<lambda>copied w. K (char_array buf, length copied)
                 (w\<lparr>char_arrays := (char_arrays w)(buf \<mapsto> copied)\<rparr>))) w)"

definition SLICE_FROM_STRING_ARGUMENT_RELEASE ::
  "slice \<Rightarrow> ('e, 'v, 'd, 'o) act \<Rightarrow> ('e, 'v, 'd, 'o) act" where
  "SLICE_FROM_STRING_ARGUMENT_RELEASE sl K w =
     (case fst sl of
        js_buffer p \<Rightarrow> Undefined
      | char_array p \<Rightarrow>
          use_object (char_arrays w p)
            (\<lambda>_ w. K (w\<lparr>char_arrays := (char_arrays w)(p := None)\<rparr>)) w)"

definition SLICE_PTR_FROM_BUFFER_ARGUMENT ::
  "('e, 'v) napi \<Rightarrow> 'v list \<Rightarrow> nat \<Rightarrow> (ptr \<Rightarrow> ('e, 'v, 'd, 'o) act)
     \<Rightarrow> ('e, 'v, 'd, 'o) act" where
  "SLICE_PTR_FROM_BUFFER_ARGUMENT N argv index K =
     NAPI_READ N (\<lambda>e. napi_get_buffer_info N e (argv ! index))
       (\<lambda>(buf, size).
          new_object (\<lambda>p w. w\<lparr>slices := (slices w)(p \<mapsto> (js_buffer buf, size))\<rparr>) K)"

text \<open>Throws, and goes on with the method.\<close>

definition ROCKSDB_STATUS_THROWS ::
  "('e, 'v) napi \<Rightarrow> Status \<Rightarrow> ('e, 'v, 'd, 'o) act \<Rightarrow> ('e, 'v, 'd, 'o) act" where
  "ROCKSDB_STATUS_THROWS N s K w =
     K (if \<not> ok s
        then w\<lparr>env := napi_throw_error N (c_str (Status_ToString s)) (env w)\<rparr>
        else w)"

section \<open>Reading through slices\<close>

definition slice_bytes ::
  "('e, 'v) napi \<Rightarrow> ('e, 'v, 'd, 'o) world \<Rightarrow> slice \<Rightarrow> bytes option" where
  "slice_bytes N w sl =
     (case fst sl of
        js_buffer p \<Rightarrow> Some (buffer_memory N (env w) p (snd sl))
      | char_array p \<Rightarrow> map_option (take (snd sl)) (char_arrays w p))"

definition view :: "('e, 'v) napi \<Rightarrow> ('e, 'v, 'd, 'o) world \<Rightarrow> slice_view" where
  "view N w p = Option.bind (slices w p) (slice_bytes N w)"

definition with_slice ::
  "('e, 'v) napi \<Rightarrow> slice \<Rightarrow> (bytes \<Rightarrow> ('e, 'v, 'd, 'o) act) \<Rightarrow> ('e, 'v, 'd, 'o) act" where
  "with_slice N sl K w = use_object (slice_bytes N w sl) K w"

end
