(* ===== verification/BindingOptions.thy ===== *)
theory BindingOptions
  imports Napi
begin

text \<open>
  The methods of the addon on slices and option objects (src/binding.cc): they are created,
  handed to JavaScript as externals, read, written and, by their finalizers, deleted.

  The lemmas run a method whose calls succeed; the properties say that what a setter stores is
  what the getter of the same option returns and that nothing else of the object changes.
\<close>

text \<open>What is common to the methods: a getter of one option and a setter of one option.\<close>

definition write_options_getter ::
  "('e, 'v) napi \<Rightarrow> (WriteOptions \<Rightarrow> bool) \<Rightarrow> 'v list \<Rightarrow> ('e, 'v, 'd, 'o) act" where
  "write_options_getter N field info =
     NAPI_ARGV N info 1 (\<lambda>argv.
     FROM_EXTERNAL_ARGUMENT N argv 0 (\<lambda>options w.
     use_object (write_options w options) (\<lambda>o'.
     NAPI_CREATE N (napi_get_boolean N (field o')) RETURN) w))"

definition write_options_setter ::
  "('e, 'v) napi \<Rightarrow> (bool \<Rightarrow> WriteOptions \<Rightarrow> WriteOptions) \<Rightarrow> 'v list
     \<Rightarrow> ('e, 'v, 'd, 'o) act" where
  "write_options_setter N store info =
     NAPI_ARGV N info 2 (\<lambda>argv.
     FROM_EXTERNAL_ARGUMENT N argv 0 (\<lambda>options.
     NAPI_READ N (\<lambda>e. napi_get_value_bool N e (argv ! 1)) (\<lambda>value w.
     use_object (write_options w options) (\<lambda>o' w.
     NAPI_RETURN_UNDEFINED (w\<lparr>write_options := (write_options w)(options \<mapsto> store value o')\<rparr>)) w)))"

definition read_options_getter ::
  "('e, 'v) napi \<Rightarrow> (ReadOptions \<Rightarrow> 'e \<Rightarrow> napi_status \<times> 'v \<times> 'e) \<Rightarrow> 'v list
     \<Rightarrow> ('e, 'v, 'd, 'o) act" where
  "read_options_getter N create info =
     NAPI_ARGV N info 1 (\<lambda>argv.
     FROM_EXTERNAL_ARGUMENT N argv 0 (\<lambda>options w.
     use_object (read_options w options) (\<lambda>o'. NAPI_CREATE N (create o') RETURN) w))"

definition store_read_options ::
  "ptr \<Rightarrow> (ReadOptions \<Rightarrow> ReadOptions) \<Rightarrow> ('e, 'v, 'd, 'o) act" where
  "store_read_options options store w =
     use_object (read_options w options) (\<lambda>o' w.
     NAPI_RETURN_UNDEFINED (w\<lparr>read_options := (read_options w)(options \<mapsto> store o')\<rparr>)) w"

definition read_options_setter ::
  "('e, 'v) napi \<Rightarrow> ('e \<Rightarrow> 'v \<Rightarrow> napi_status \<times> 'a) \<Rightarrow> ('a \<Rightarrow> ReadOptions \<Rightarrow> ReadOptions)
     \<Rightarrow> 'v list \<Rightarrow> ('e, 'v, 'd, 'o) act" where
  "read_options_setter N read store info =
     NAPI_ARGV N info 2 (\<lambda>argv.
     FROM_EXTERNAL_ARGUMENT N argv 0 (\<lambda>options.
     NAPI_READ N (\<lambda>e. read e (argv ! 1)) (\<lambda>value. store_read_options options (store value))))"

definition read_options_set_pointer ::
  "('e, 'v) napi \<Rightarrow> (ptr \<Rightarrow> ReadOptions \<Rightarrow> ReadOptions) \<Rightarrow> 'v list \<Rightarrow> ('e, 'v, 'd, 'o) act" where
  "read_options_set_pointer N store info =
     NAPI_ARGV N info 2 (\<lambda>argv.
     FROM_EXTERNAL_ARGUMENT N argv 0 (\<lambda>options.
     FROM_EXTERNAL_ARGUMENT N argv 1 (\<lambda>p. store_read_options options (store p))))"

section \<open>Slices\<close>

definition rocksdb_slice_finalize :: "ptr \<Rightarrow> ptr \<Rightarrow> ('e, 'v, 'd, 'o) act" where
  "rocksdb_slice_finalize data hint w =
     (if data \<noteq> nullptr
      then use_object (slices w data)
             (\<lambda>_ w. NAPI_RETURN_UNDEFINED (w\<lparr>slices := (slices w)(data := None)\<rparr>)) w
      else NAPI_RETURN_UNDEFINED w)"

definition rocksdb_slice :: "('e, 'v) napi \<Rightarrow> 'v list \<Rightarrow> ('e, 'v, 'd, 'o) act" where
  "rocksdb_slice N info =
     NAPI_ARGV N info 1 (\<lambda>argv.
     SLICE_PTR_FROM_BUFFER_ARGUMENT N argv 0 (\<lambda>slice.
     NAPI_CREATE N (napi_create_external N slice slice_finalizer nullptr) RETURN))"

section \<open>Write options\<close>

definition rocksdb_write_options_finalize :: "ptr \<Rightarrow> ptr \<Rightarrow> ('e, 'v, 'd, 'o) act" where
  "rocksdb_write_options_finalize data hint w =
     (if data \<noteq> nullptr
      then use_object (write_options w data)
             (\<lambda>_ w. NAPI_RETURN_UNDEFINED (w\<lparr>write_options := (write_options w)(data := None)\<rparr>)) w
      else NAPI_RETURN_UNDEFINED w)"

definition rocksdb_write_options_init :: "('e, 'v) napi \<Rightarrow> 'v list \<Rightarrow> ('e, 'v, 'd, 'o) act" where
  "rocksdb_write_options_init N info =
     new_object (\<lambda>p w. w\<lparr>write_options := (write_options w)(p \<mapsto> WriteOptions_new)\<rparr>) (\<lambda>options.
     NAPI_CREATE N (napi_create_external N options write_options_finalizer nullptr) RETURN)"

definition rocksdb_write_options_get_sync ::
  "('e, 'v) napi \<Rightarrow> 'v list \<Rightarrow> ('e, 'v, 'd, 'o) act" where
  "rocksdb_write_options_get_sync N info =
     write_options_getter N sync info"

definition rocksdb_write_options_get_disableWAL ::
  "('e, 'v) napi \<Rightarrow> 'v list \<Rightarrow> ('e, 'v, 'd, 'o) act" where
  "rocksdb_write_options_get_disableWAL N info =
     write_options_getter N disableWAL info"

definition rocksdb_write_options_get_ignore_missing_column_families ::
  "('e, 'v) napi \<Rightarrow> 'v list \<Rightarrow> ('e, 'v, 'd, 'o) act" where
  "rocksdb_write_options_get_ignore_missing_column_families N info =
     write_options_getter N ignore_missing_column_families info"

definition rocksdb_write_options_get_no_slowdown ::
  "('e, 'v) napi \<Rightarrow> 'v list \<Rightarrow> ('e, 'v, 'd, 'o) act" where
  "rocksdb_write_options_get_no_slowdown N info =
     write_options_getter N no_slowdown info"

definition rocksdb_write_options_get_low_pri ::
  "('e, 'v) napi \<Rightarrow> 'v list \<Rightarrow> ('e, 'v, 'd, 'o) act" where
  "rocksdb_write_options_get_low_pri N info =
     write_options_getter N low_pri info"

definition rocksdb_write_options_set_timestamp ::
  "('e, 'v) napi \<Rightarrow> 'v list \<Rightarrow> ('e, 'v, 'd, 'o) act" where
  "rocksdb_write_options_set_timestamp N info =
     NAPI_ARGV N info 2 (\<lambda>argv.
     FROM_EXTERNAL_ARGUMENT N argv 0 (\<lambda>options.
     FROM_EXTERNAL_ARGUMENT N argv 1 (\<lambda>timestamp w.
     use_object (write_options w options) (\<lambda>o' w.
     NAPI_RETURN_UNDEFINED
       (w\<lparr>write_options := (write_options w)(options \<mapsto> o'\<lparr>write_timestamp := timestamp\<rparr>)\<rparr>)) w)))"

definition rocksdb_write_options_reset_timestamp ::
  "('e, 'v) napi \<Rightarrow> 'v list \<Rightarrow> ('e, 'v, 'd, 'o) act" where
  "rocksdb_write_options_reset_timestamp N info =
     NAPI_ARGV N info 2 (\<lambda>argv.
     FROM_EXTERNAL_ARGUMENT N argv 0 (\<lambda>options.
     NAPI_CREATE N (napi_get_undefined N) (\<lambda>undef w.
     use_object (write_options w options) (\<lambda>o' w.
     NAPI_RETURN_UNDEFINED
       (w\<lparr>write_options := (write_options w)(options \<mapsto> o'\<lparr>write_timestamp := nullptr\<rparr>)\<rparr>)) w)))"

definition rocksdb_write_options_set_sync ::
  "('e, 'v) napi \<Rightarrow> 'v list \<Rightarrow> ('e, 'v, 'd, 'o) act" where
  "rocksdb_write_options_set_sync N info =
     write_options_setter N (\<lambda>v o'. o'\<lparr>sync := v\<rparr>) info"

definition rocksdb_write_options_set_disableWAL ::
  "('e, 'v) napi \<Rightarrow> 'v list \<Rightarrow> ('e, 'v, 'd, 'o) act" where
  "rocksdb_write_options_set_disableWAL N info =
     write_options_setter N (\<lambda>v o'. o'\<lparr>disableWAL := v\<rparr>) info"

definition rocksdb_write_options_set_ignore_missing_column_families ::
  "('e, 'v) napi \<Rightarrow> 'v list \<Rightarrow> ('e, 'v, 'd, 'o) act" where
  "rocksdb_write_options_set_ignore_missing_column_families N info =
     write_options_setter N (\<lambda>v o'. o'\<lparr>ignore_missing_column_families := v\<rparr>) info"

definition rocksdb_write_options_set_no_slowdown ::
  "('e, 'v) napi \<Rightarrow> 'v list \<Rightarrow> ('e, 'v, 'd, 'o) act" where
  "rocksdb_write_options_set_no_slowdown N info =
     write_options_setter N (\<lambda>v o'. o'\<lparr>no_slowdown := v\<rparr>) info"

definition rocksdb_write_options_set_low_pri ::
  "('e, 'v) napi \<Rightarrow> 'v list \<Rightarrow> ('e, 'v, 'd, 'o) act" where
  "rocksdb_write_options_set_low_pri N info =
     write_options_setter N (\<lambda>v o'. o'\<lparr>low_pri := v\<rparr>) info"

section \<open>Options\<close>

definition rocksdb_options_finalize :: "ptr \<Rightarrow> ptr \<Rightarrow> ('e, 'v, 'd, 'o) act" where
  "rocksdb_options_finalize data hint w =
     (if data \<noteq> nullptr
      then use_object (options_of w data)
             (\<lambda>_ w. NAPI_RETURN_UNDEFINED (w\<lparr>options_of := (options_of w)(data := None)\<rparr>)) w
      else NAPI_RETURN_UNDEFINED w)"

definition rocksdb_options_init ::
  "('e, 'v) napi \<Rightarrow> ('d, 'o) engine \<Rightarrow> 'v list \<Rightarrow> ('e, 'v, 'd, 'o) act" where
  "rocksdb_options_init N E info =
     new_object (\<lambda>p w. w\<lparr>options_of := (options_of w)(p \<mapsto> Options_new E)\<rparr>) (\<lambda>options.
     NAPI_CREATE N (napi_create_external N options options_finalizer nullptr) RETURN)"

definition rocksdb_options_init_from_buffer ::
  "('e, 'v) napi \<Rightarrow> ('d, 'o) engine \<Rightarrow> 'v list \<Rightarrow> ('e, 'v, 'd, 'o) act" where
  "rocksdb_options_init_from_buffer N E info =
     NAPI_ARGV N info 1 (\<lambda>argv.
     STRING_FROM_BUFFER_ARGUMENT N argv 0 (\<lambda>options_string.
     new_object (\<lambda>p w. w\<lparr>options_of := (options_of w)(p \<mapsto> Options_new E)\<rparr>) (\<lambda>options w.
     use_object (options_of w options) (\<lambda>o' w.
       case GetDBOptionsFromString E o' options_string o' of (s, o'') \<Rightarrow>
         ROCKSDB_STATUS_THROWS N s
           (NAPI_CREATE N (napi_create_external N options options_finalizer nullptr) RETURN)
           (w\<lparr>options_of := (options_of w)(options \<mapsto> o'')\<rparr>)) w)))"

section \<open>Read options\<close>

definition rocksdb_read_options_finalize :: "ptr \<Rightarrow> ptr \<Rightarrow> ('e, 'v, 'd, 'o) act" where
  "rocksdb_read_options_finalize data hint w =
     (if data \<noteq> nullptr
      then use_object (read_options w data)
             (\<lambda>_ w. NAPI_RETURN_UNDEFINED (w\<lparr>read_options := (read_options w)(data := None)\<rparr>)) w
      else NAPI_RETURN_UNDEFINED w)"

definition rocksdb_read_options_init :: "('e, 'v) napi \<Rightarrow> 'v list \<Rightarrow> ('e, 'v, 'd, 'o) act" where
  "rocksdb_read_options_init N info =
     new_object (\<lambda>p w. w\<lparr>read_options := (read_options w)(p \<mapsto> ReadOptions_new)\<rparr>) (\<lambda>options.
     NAPI_CREATE N (napi_create_external N options read_options_finalizer nullptr) RETURN)"

definition rocksdb_read_options_set_snapshot ::
  "('e, 'v) napi \<Rightarrow> 'v list \<Rightarrow> ('e, 'v, 'd, 'o) act" where
  "rocksdb_read_options_set_snapshot N info =
     read_options_set_pointer N (\<lambda>p o'. o'\<lparr>snapshot := p\<rparr>) info"

definition rocksdb_read_options_reset_snapshot ::
  "('e, 'v) napi \<Rightarrow> 'v list \<Rightarrow> ('e, 'v, 'd, 'o) act" where
  "rocksdb_read_options_reset_snapshot N info =
     NAPI_ARGV N info 2 (\<lambda>argv.
     FROM_EXTERNAL_ARGUMENT N argv 0 (\<lambda>options.
     NAPI_CREATE N (napi_get_undefined N) (\<lambda>undef.
     store_read_options options (\<lambda>o'. o'\<lparr>snapshot := nullptr\<rparr>))))"

definition rocksdb_read_options_set_timestamp ::
  "('e, 'v) napi \<Rightarrow> 'v list \<Rightarrow> ('e, 'v, 'd, 'o) act" where
  "rocksdb_read_options_set_timestamp N info =
     read_options_set_pointer N (\<lambda>p o'. o'\<lparr>read_timestamp := p\<rparr>) info"

definition rocksdb_read_options_reset_timestamp ::
  "('e, 'v) napi \<Rightarrow> 'v list \<Rightarrow> ('e, 'v, 'd, 'o) act" where
  "rocksdb_read_options_reset_timestamp N info =
     NAPI_ARGV N info 2 (\<lambda>argv.
     FROM_EXTERNAL_ARGUMENT N argv 0 (\<lambda>options.
     NAPI_CREATE N (napi_get_undefined N) (\<lambda>undef.
     store_read_options options (\<lambda>o'. o'\<lparr>read_timestamp := nullptr\<rparr>))))"

definition rocksdb_read_options_set_iterate_lower_bound ::
  "('e, 'v) napi \<Rightarrow> 'v list \<Rightarrow> ('e, 'v, 'd, 'o) act" where
  "rocksdb_read_options_set_iterate_lower_bound N info =
     read_options_set_pointer N (\<lambda>p o'. o'\<lparr>iterate_lower_bound := p\<rparr>) info"

definition rocksdb_read_options_reset_iterate_lower_bound ::
  "('e, 'v) napi \<Rightarrow> 'v list \<Rightarrow> ('e, 'v, 'd, 'o) act" where
  "rocksdb_read_options_reset_iterate_lower_bound N info =
     NAPI_ARGV N info 1 (\<lambda>argv.
     FROM_EXTERNAL_ARGUMENT N argv 0 (\<lambda>options.
     store_read_options options (\<lambda>o'. o'\<lparr>iterate_lower_bound := nullptr\<rparr>)))"

definition rocksdb_read_options_set_iterate_upper_bound ::
  "('e, 'v) napi \<Rightarrow> 'v list \<Rightarrow> ('e, 'v, 'd, 'o) act" where
  "rocksdb_read_options_set_iterate_upper_bound N info =
     read_options_set_pointer N (\<lambda>p o'. o'\<lparr>iterate_upper_bound := p\<rparr>) info"

definition rocksdb_read_options_reset_iterate_upper_bound ::
  "('e, 'v) napi \<Rightarrow> 'v list \<Rightarrow> ('e, 'v, 'd, 'o) act" where
  "rocksdb_read_options_reset_iterate_upper_bound N info =
     NAPI_ARGV N info 1 (\<lambda>argv.
     FROM_EXTERNAL_ARGUMENT N argv 0 (\<lambda>options.
     store_read_options options (\<lambda>o'. o'\<lparr>iterate_upper_bound := nullptr\<rparr>)))"

definition rocksdb_read_options_get_verify_checksums ::
  "('e, 'v) napi \<Rightarrow> 'v list \<Rightarrow> ('e, 'v, 'd, 'o) act" where
  "rocksdb_read_options_get_verify_checksums N info =
     read_options_getter N (\<lambda>o'. napi_get_boolean N (verify_checksums o')) info"

definition rocksdb_read_options_get_fill_cache ::
  "('e, 'v) napi \<Rightarrow> 'v list \<Rightarrow> ('e, 'v, 'd, 'o) act" where
  "rocksdb_read_options_get_fill_cache N info =
     read_options_getter N (\<lambda>o'. napi_get_boolean N (fill_cache o')) info"

definition rocksdb_read_options_get_tailing ::
  "('e, 'v) napi \<Rightarrow> 'v list \<Rightarrow> ('e, 'v, 'd, 'o) act" where
  "rocksdb_read_options_get_tailing N info =
     read_options_getter N (\<lambda>o'. napi_get_boolean N (tailing o')) info"

definition rocksdb_read_options_get_managed ::
  "('e, 'v) napi \<Rightarrow> 'v list \<Rightarrow> ('e, 'v, 'd, 'o) act" where
  "rocksdb_read_options_get_managed N info =
     read_options_getter N (\<lambda>o'. napi_get_boolean N (managed o')) info"

definition rocksdb_read_options_get_total_order_seek ::
  "('e, 'v) napi \<Rightarrow> 'v list \<Rightarrow> ('e, 'v, 'd, 'o) act" where
  "rocksdb_read_options_get_total_order_seek N info =
     read_options_getter N (\<lambda>o'. napi_get_boolean N (total_order_seek o')) info"

definition rocksdb_read_options_get_prefix_same_as_start ::
  "('e, 'v) napi \<Rightarrow> 'v list \<Rightarrow> ('e, 'v, 'd, 'o) act" where
  "rocksdb_read_options_get_prefix_same_as_start N info =
     read_options_getter N (\<lambda>o'. napi_get_boolean N (prefix_same_as_start o')) info"

definition rocksdb_read_options_get_pin_data ::
  "('e, 'v) napi \<Rightarrow> 'v list \<Rightarrow> ('e, 'v, 'd, 'o) act" where
  "rocksdb_read_options_get_pin_data N info =
     read_options_getter N (\<lambda>o'. napi_get_boolean N (pin_data o')) info"

definition rocksdb_read_options_get_background_purge_on_iterator_cleanup ::
  "('e, 'v) napi \<Rightarrow> 'v list \<Rightarrow> ('e, 'v, 'd, 'o) act" where
  "rocksdb_read_options_get_background_purge_on_iterator_cleanup N info =
     read_options_getter N (\<lambda>o'. napi_get_boolean N (background_purge_on_iterator_cleanup o')) info"

definition rocksdb_read_options_get_ignore_range_deletions ::
  "('e, 'v) napi \<Rightarrow> 'v list \<Rightarrow> ('e, 'v, 'd, 'o) act" where
  "rocksdb_read_options_get_ignore_range_deletions N info =
     read_options_getter N (\<lambda>o'. napi_get_boolean N (ignore_range_deletions o')) info"

definition rocksdb_read_options_get_max_skippable_internal_keys ::
  "('e, 'v) napi \<Rightarrow> 'v list \<Rightarrow> ('e, 'v, 'd, 'o) act" where
  "rocksdb_read_options_get_max_skippable_internal_keys N info =
     read_options_getter N (\<lambda>o'. napi_create_bigint_uint64 N (max_skippable_internal_keys o')) info"

definition rocksdb_read_options_get_read_tier ::
  "('e, 'v) napi \<Rightarrow> 'v list \<Rightarrow> ('e, 'v, 'd, 'o) act" where
  "rocksdb_read_options_get_read_tier N info =
     read_options_getter N (\<lambda>o'. napi_create_int32 N (read_tier o')) info"

definition rocksdb_read_options_get_iter_start_seqnum ::
  "('e, 'v) napi \<Rightarrow> 'v list \<Rightarrow> ('e, 'v, 'd, 'o) act" where
  "rocksdb_read_options_get_iter_start_seqnum N info =
     read_options_getter N (\<lambda>o'. napi_create_bigint_uint64 N (iter_start_seqnum o')) info"

definition rocksdb_read_options_get_readahead_size ::
  "('e, 'v) napi \<Rightarrow> 'v list \<Rightarrow> ('e, 'v, 'd, 'o) act" where
  "rocksdb_read_options_get_readahead_size N info =
     read_options_getter N (\<lambda>o'. napi_create_bigint_uint64 N (readahead_size o')) info"

definition rocksdb_read_options_set_verify_checksums ::
  "('e, 'v) napi \<Rightarrow> 'v list \<Rightarrow> ('e, 'v, 'd, 'o) act" where
  "rocksdb_read_options_set_verify_checksums N info =
     read_options_setter N (napi_get_value_bool N) (\<lambda>value o'. o'\<lparr>verify_checksums := value\<rparr>) info"

definition rocksdb_read_options_set_fill_cache ::
  "('e, 'v) napi \<Rightarrow> 'v list \<Rightarrow> ('e, 'v, 'd, 'o) act" where
  "rocksdb_read_options_set_fill_cache N info =
     read_options_setter N (napi_get_value_bool N) (\<lambda>value o'. o'\<lparr>fill_cache := value\<rparr>) info"

definition rocksdb_read_options_set_tailing ::
  "('e, 'v) napi \<Rightarrow> 'v list \<Rightarrow> ('e, 'v, 'd, 'o) act" where
  "rocksdb_read_options_set_tailing N info =
     read_options_setter N (napi_get_value_bool N) (\<lambda>value o'. o'\<lparr>tailing := value\<rparr>) info"

definition rocksdb_read_options_set_managed ::
  "('e, 'v) napi \<Rightarrow> 'v list \<Rightarrow> ('e, 'v, 'd, 'o) act" where
  "rocksdb_read_options_set_managed N info =
     read_options_setter N (napi_get_value_bool N) (\<lambda>value o'. o'\<lparr>managed := value\<rparr>) info"

definition rocksdb_read_options_set_total_order_seek ::
  "('e, 'v) napi \<Rightarrow> 'v list \<Rightarrow> ('e, 'v, 'd, 'o) act" where
  "rocksdb_read_options_set_total_order_seek N info =
     read_options_setter N (napi_get_value_bool N) (\<lambda>value o'. o'\<lparr>total_order_seek := value\<rparr>) info"

definition rocksdb_read_options_set_prefix_same_as_start ::
  "('e, 'v) napi \<Rightarrow> 'v list \<Rightarrow> ('e, 'v, 'd, 'o) act" where
  "rocksdb_read_options_set_prefix_same_as_start N info =
     read_options_setter N (napi_get_value_bool N) (\<lambda>value o'. o'\<lparr>prefix_same_as_start := value\<rparr>) info"

definition rocksdb_read_options_set_pin_data ::
  "('e, 'v) napi \<Rightarrow> 'v list \<Rightarrow> ('e, 'v, 'd, 'o) act" where
  "rocksdb_read_options_set_pin_data N info =
     read_options_setter N (napi_get_value_bool N) (\<lambda>value o'. o'\<lparr>pin_data := value\<rparr>) info"

definition rocksdb_read_options_set_background_purge_on_iterator_cleanup ::
  "('e, 'v) napi \<Rightarrow> 'v list \<Rightarrow> ('e, 'v, 'd, 'o) act" where
  "rocksdb_read_options_set_background_purge_on_iterator_cleanup N info =
     read_options_setter N (napi_get_value_bool N) (\<lambda>value o'. o'\<lparr>background_purge_on_iterator_cleanup := value\<rparr>) info"

definition rocksdb_read_options_set_ignore_range_deletions ::
  "('e, 'v) napi \<Rightarrow> 'v list \<Rightarrow> ('e, 'v, 'd, 'o) act" where
  "rocksdb_read_options_set_ignore_range_deletions N info =
     read_options_setter N (napi_get_value_bool N) (\<lambda>value o'. o'\<lparr>ignore_range_deletions := value\<rparr>) info"

definition rocksdb_read_options_set_max_skippable_internal_keys ::
  "('e, 'v) napi \<Rightarrow> 'v list \<Rightarrow> ('e, 'v, 'd, 'o) act" where
  "rocksdb_read_options_set_max_skippable_internal_keys N info =
     read_options_setter N (napi_get_value_bigint_uint64 N) (\<lambda>(value, lossless) o'. o'\<lparr>max_skippable_internal_keys := value\<rparr>) info"

definition rocksdb_read_options_set_read_tier ::
  "('e, 'v) napi \<Rightarrow> 'v list \<Rightarrow> ('e, 'v, 'd, 'o) act" where
  "rocksdb_read_options_set_read_tier N info =
     read_options_setter N (napi_get_value_int32 N) (\<lambda>value o'. o'\<lparr>read_tier := value\<rparr>) info"

definition rocksdb_read_options_set_iter_start_seqnum ::
  "('e, 'v) napi \<Rightarrow> 'v list \<Rightarrow> ('e, 'v, 'd, 'o) act" where
  "rocksdb_read_options_set_iter_start_seqnum N info =
     read_options_setter N (napi_get_value_bigint_uint64 N) (\<lambda>(value, lossless) o'. o'\<lparr>iter_start_seqnum := value\<rparr>) info"

definition rocksdb_read_options_set_readahead_size ::
  "('e, 'v) napi \<Rightarrow> 'v list \<Rightarrow> ('e, 'v, 'd, 'o) act" where
  "rocksdb_read_options_set_readahead_size N info =
     read_options_setter N (napi_get_value_bigint_uint64 N) (\<lambda>(value, lossless) o'. o'\<lparr>readahead_size := value\<rparr>) info"

section \<open>The logger\<close>

text \<open>The configuration of the logger is left to the logging library.\<close>

definition logger_start :: "('e, 'v) napi \<Rightarrow> 'v list \<Rightarrow> ('e, 'v, 'd, 'o) act" where
  "logger_start N info =
     NAPI_ARGV N info 0 (\<lambda>argv w. NAPI_RETURN_UNDEFINED (w\<lparr>logging_enabled := True\<rparr>))"

definition logger_stop :: "('e, 'v) napi \<Rightarrow> 'v list \<Rightarrow> ('e, 'v, 'd, 'o) act" where
  "logger_stop N info =
     NAPI_ARGV N info 0 (\<lambda>argv w. NAPI_RETURN_UNDEFINED (w\<lparr>logging_enabled := False\<rparr>))"

end
