(* ===== verification/DbWrite.thy ===== *)
theory DbWrite
  imports Napi
begin

text \<open>
  The single updates of a database (\<^verbatim>\<open>DB::Put\<close> and its siblings, db/db_impl/db_impl_write.cc):
  each is a batch of its own, built here and handed to the engine's \<^verbatim>\<open>Write\<close>. Following the
  timestamp of the options is undefined when its slice is gone, the result \<open>None\<close>. The buffer
  sizes reserved for the batches have no effect on them.
\<close>

definition write_batch ::
  "('d, 'o) engine \<Rightarrow> ptr \<Rightarrow> WriteOptions \<Rightarrow> WriteBatch \<Rightarrow> 'd \<Rightarrow> Status \<times> 'd" where
  "write_batch E db opt b d = (case DB_Write E db opt b d of (s, _, d') \<Rightarrow> (s, d'))"

definition DB_Put ::
  "('d, 'o) engine \<Rightarrow> ptr \<Rightarrow> WriteOptions \<Rightarrow> slice_view \<Rightarrow> u32 \<Rightarrow> bytes \<Rightarrow> bytes \<Rightarrow> 'd
     \<Rightarrow> (Status \<times> 'd) option" where
  "DB_Put E db opt view_of cf key v d =
     (if write_timestamp opt = nullptr then
        (case wb_Put (WriteBatch_new 0 0) cf key v of
           (s, b) \<Rightarrow> Some (if \<not> ok s then (s, d) else write_batch E db opt b d))
      else
        (case view_of (write_timestamp opt) of
           None \<Rightarrow> None
         | Some ts \<Rightarrow>
             (case wb_Put (WriteBatch_new 0 (length ts)) cf key v of
                (s, b) \<Rightarrow>
                  if \<not> ok s then Some (s, d)
                  else (case batch_AssignTimestamp E b ts of
                          (s', b') \<Rightarrow>
                            Some (if \<not> ok s' then (s', d) else write_batch E db opt b' d)))))"

definition DB_Delete ::
  "('d, 'o) engine \<Rightarrow> ptr \<Rightarrow> WriteOptions \<Rightarrow> u32 \<Rightarrow> bytes \<Rightarrow> 'd \<Rightarrow> Status \<times> 'd" where
  "DB_Delete E db opt cf key d =
     (case wb_Delete (WriteBatch_new 0 0) cf key of (_, b) \<Rightarrow> write_batch E db opt b d)"

definition DB_SingleDelete ::
  "('d, 'o) engine \<Rightarrow> ptr \<Rightarrow> WriteOptions \<Rightarrow> u32 \<Rightarrow> bytes \<Rightarrow> 'd \<Rightarrow> Status \<times> 'd" where
  "DB_SingleDelete E db opt cf key d =
     (case wb_SingleDelete (WriteBatch_new 0 0) cf key of (_, b) \<Rightarrow> write_batch E db opt b d)"

definition DB_DeleteRange ::
  "('d, 'o) engine \<Rightarrow> ptr \<Rightarrow> WriteOptions \<Rightarrow> u32 \<Rightarrow> bytes \<Rightarrow> bytes \<Rightarrow> 'd \<Rightarrow> Status \<times> 'd" where
  "DB_DeleteRange E db opt cf begin_key last_key d =
     (case wb_DeleteRange (WriteBatch_new 0 0) cf begin_key last_key of
        (_, b) \<Rightarrow> write_batch E db opt b d)"

definition DB_Merge ::
  "('d, 'o) engine \<Rightarrow> ptr \<Rightarrow> WriteOptions \<Rightarrow> u32 \<Rightarrow> bytes \<Rightarrow> bytes \<Rightarrow> 'd \<Rightarrow> Status \<times> 'd" where
  "DB_Merge E db opt cf key v d =
     (case wb_Merge (WriteBatch_new 0 0) cf key v of
        (s, b) \<Rightarrow> if \<not> ok s then (s, d) else write_batch E db opt b d)"

end
