(* ===== verification/BindingDb.thy ===== *)
theory BindingDb
  imports BindingOptions DbWrite
begin

text \<open>
  The methods of the addon on databases, iterators and snapshots (src/binding.cc). A method
  whose key comes as a string works on an array of its own, which it deletes after the call of
  the engine; the methods for the two encodings differ in the calls they make to read and
  make strings only.
\<close>

text \<open>A call of the engine.\<close>

definition ENGINE :: "('d \<Rightarrow> 'a \<times> 'd) \<Rightarrow> ('a \<Rightarrow> ('e, 'v, 'd, 'o) act) \<Rightarrow> ('e, 'v, 'd, 'o) act" where
  "ENGINE call K w = (case call (engine_state w) of (x, d) \<Rightarrow> K x (w\<lparr>engine_state := d\<rparr>))"

section \<open>Opening and closing\<close>

text \<open>
  The pointer that receives the database is not initialised: it starts as \<open>indeterminate\<close>.
\<close>

definition rocksdb_finalize ::
  "('e, 'v) napi \<Rightarrow> ('d, 'o) engine \<Rightarrow> ptr \<Rightarrow> ptr \<Rightarrow> ('e, 'v, 'd, 'o) act" where
  "rocksdb_finalize N E db_ptr reference_container_ptr =
     (let close = (\<lambda>delete_status.
            if db_ptr \<noteq> nullptr
            then ENGINE (DB_Close E db_ptr) (\<lambda>db_close_status w.
                 STATUS_THROWS N delete_status
                   (ROCKSDB_STATUS_THROWS N db_close_status NAPI_RETURN_UNDEFINED)
                   (w\<lparr>engine_state := DB_delete E db_ptr (engine_state w)\<rparr>))
            else STATUS_THROWS N delete_status (ROCKSDB_STATUS_THROWS N OK NAPI_RETURN_UNDEFINED))
      in if reference_container_ptr \<noteq> nullptr
         then (\<lambda>w. use_object (references w reference_container_ptr) (\<lambda>reference w.
              case napi_delete_reference N reference (env w) of
                (status, e) \<Rightarrow>
                  close status
                    (w\<lparr>env := e, references := (references w)(reference_container_ptr := None)\<rparr>)) w)
         else close napi_ok)"

definition rocksdb_open ::
  "('e, 'v) napi \<Rightarrow> ('d, 'o) engine \<Rightarrow> ptr \<Rightarrow> 'v list \<Rightarrow> ('e, 'v, 'd, 'o) act" where
  "rocksdb_open N E indeterminate info =
     NAPI_ARGV N info 2 (\<lambda>argv.
     STRING_FROM_BUFFER_ARGUMENT N argv 0 (\<lambda>location.
     FROM_EXTERNAL_ARGUMENT N argv 1 (\<lambda>options w.
     use_object (options_of w options) (\<lambda>o'.
     ENGINE (\<lambda>d. case DB_Open E o' location indeterminate d of (s, db, d') \<Rightarrow> ((s, db), d'))
       (\<lambda>(s, db).
          ROCKSDB_STATUS_THROWS N s
            (new_object (\<lambda>p w. w\<lparr>references := (references w)(p \<mapsto> 0)\<rparr>) (\<lambda>reference_container.
             NAPI_CREATE N (napi_create_external N db db_finalizer reference_container) (\<lambda>result.
             NAPI_CREATE N (napi_create_reference N result 1) (\<lambda>reference w.
             RETURN result
               (w\<lparr>references := (references w)(reference_container \<mapsto> reference)\<rparr>))))))) w)))"

definition rocksdb_close ::
  "('e, 'v) napi \<Rightarrow> ('d, 'o) engine \<Rightarrow> 'v list \<Rightarrow> ('e, 'v, 'd, 'o) act" where
  "rocksdb_close N E info =
     NAPI_ARGV N info 1 (\<lambda>argv.
     FROM_EXTERNAL_ARGUMENT N argv 0 (\<lambda>db.
     ENGINE (DB_Close E db) (\<lambda>s. ROCKSDB_STATUS_THROWS N s NAPI_RETURN_UNDEFINED)))"

definition rocksdb_destroy ::
  "('e, 'v) napi \<Rightarrow> ('d, 'o) engine \<Rightarrow> 'v list \<Rightarrow> ('e, 'v, 'd, 'o) act" where
  "rocksdb_destroy N E info =
     NAPI_ARGV N info 2 (\<lambda>argv.
     STRING_FROM_BUFFER_ARGUMENT N argv 0 (\<lambda>location.
     FROM_EXTERNAL_ARGUMENT N argv 1 (\<lambda>options w.
     use_object (options_of w options) (\<lambda>o'.
     ENGINE (DestroyDB E location o') (\<lambda>s. ROCKSDB_STATUS_THROWS N s NAPI_RETURN_UNDEFINED)) w)))"

definition rocksdb_repair ::
  "('e, 'v) napi \<Rightarrow> ('d, 'o) engine \<Rightarrow> 'v list \<Rightarrow> ('e, 'v, 'd, 'o) act" where
  "rocksdb_repair N E info =
     NAPI_ARGV N info 2 (\<lambda>argv.
     STRING_FROM_BUFFER_ARGUMENT N argv 0 (\<lambda>location.
     FROM_EXTERNAL_ARGUMENT N argv 1 (\<lambda>options w.
     use_object (options_of w options) (\<lambda>o'.
     ENGINE (RepairDB E location o') (\<lambda>s. ROCKSDB_STATUS_THROWS N s NAPI_RETURN_UNDEFINED)) w)))"

section \<open>Updates\<close>

definition put_call ::
  "('e, 'v) napi \<Rightarrow> ('d, 'o) engine \<Rightarrow> ptr \<Rightarrow> ptr \<Rightarrow> slice \<Rightarrow> slice
     \<Rightarrow> (Status \<Rightarrow> ('e, 'v, 'd, 'o) act) \<Rightarrow> ('e, 'v, 'd, 'o) act" where
  "put_call N E db options k v K w =
     use_object (write_options w options) (\<lambda>opt.
     with_slice N k (\<lambda>key. with_slice N v (\<lambda>val w.
       case DB_Put E db opt (view N w) 0 key val (engine_state w) of
         None \<Rightarrow> Undefined
       | Some (s, d) \<Rightarrow> K s (w\<lparr>engine_state := d\<rparr>)))) w"

definition rocksdb_put ::
  "('e, 'v) napi \<Rightarrow> ('d, 'o) engine \<Rightarrow> 'v list \<Rightarrow> ('e, 'v, 'd, 'o) act" where
  "rocksdb_put N E info =
     NAPI_ARGV N info 4 (\<lambda>argv.
     FROM_EXTERNAL_ARGUMENT N argv 0 (\<lambda>db.
     SLICE_FROM_BUFFER_ARGUMENT N argv 1 (\<lambda>k.
     SLICE_FROM_BUFFER_ARGUMENT N argv 2 (\<lambda>v.
     FROM_EXTERNAL_ARGUMENT N argv 3 (\<lambda>options.
     put_call N E db options k v (\<lambda>s. ROCKSDB_STATUS_THROWS N s NAPI_RETURN_UNDEFINED))))))"

definition put_string ::
  "encoding \<Rightarrow> ('e, 'v) napi \<Rightarrow> ('d, 'o) engine \<Rightarrow> 'v list \<Rightarrow> ('e, 'v, 'd, 'o) act" where
  "put_string enc N E info =
     NAPI_ARGV N info 4 (\<lambda>argv.
     FROM_EXTERNAL_ARGUMENT N argv 0 (\<lambda>db.
     SLICE_FROM_STRING_ARGUMENT N enc argv 1 (\<lambda>k.
     SLICE_FROM_STRING_ARGUMENT N enc argv 2 (\<lambda>v.
     FROM_EXTERNAL_ARGUMENT N argv 3 (\<lambda>options.
     put_call N E db options k v (\<lambda>put_status.
     SLICE_FROM_STRING_ARGUMENT_RELEASE k (
     SLICE_FROM_STRING_ARGUMENT_RELEASE v (
     ROCKSDB_STATUS_THROWS N put_status NAPI_RETURN_UNDEFINED))))))))"

definition rocksdb_put_utf8 ::
  "('e, 'v) napi \<Rightarrow> ('d, 'o) engine \<Rightarrow> 'v list \<Rightarrow> ('e, 'v, 'd, 'o) act" where
  "rocksdb_put_utf8 = put_string utf8"

definition rocksdb_put_latin1 ::
  "('e, 'v) napi \<Rightarrow> ('d, 'o) engine \<Rightarrow> 'v list \<Rightarrow> ('e, 'v, 'd, 'o) act" where
  "rocksdb_put_latin1 = put_string latin1"

definition delete_call ::
  "('e, 'v) napi \<Rightarrow> ('d, 'o) engine \<Rightarrow> ptr \<Rightarrow> ptr \<Rightarrow> slice
     \<Rightarrow> (Status \<Rightarrow> ('e, 'v, 'd, 'o) act) \<Rightarrow> ('e, 'v, 'd, 'o) act" where
  "delete_call N E db options k K w =
     use_object (write_options w options) (\<lambda>opt.
     with_slice N k (\<lambda>key. ENGINE (DB_Delete E db opt 0 key) K)) w"

definition rocksdb_delete ::
  "('e, 'v) napi \<Rightarrow> ('d, 'o) engine \<Rightarrow> 'v list \<Rightarrow> ('e, 'v, 'd, 'o) act" where
  "rocksdb_delete N E info =
     NAPI_ARGV N info 3 (\<lambda>argv.
     FROM_EXTERNAL_ARGUMENT N argv 0 (\<lambda>db.
     SLICE_FROM_BUFFER_ARGUMENT N argv 1 (\<lambda>k.
     FROM_EXTERNAL_ARGUMENT N argv 2 (\<lambda>options.
     delete_call N E db options k (\<lambda>s. ROCKSDB_STATUS_THROWS N s NAPI_RETURN_UNDEFINED)))))"

definition delete_string ::
  "encoding \<Rightarrow> ('e, 'v) napi \<Rightarrow> ('d, 'o) engine \<Rightarrow> 'v list \<Rightarrow> ('e, 'v, 'd, 'o) act" where
  "delete_string enc N E info =
     NAPI_ARGV N info 3 (\<lambda>argv.
     FROM_EXTERNAL_ARGUMENT N argv 0 (\<lambda>db.
     SLICE_FROM_STRING_ARGUMENT N enc argv 1 (\<lambda>k.
     FROM_EXTERNAL_ARGUMENT N argv 2 (\<lambda>options.
     delete_call N E db options k (\<lambda>delete_status.
     SLICE_FROM_STRING_ARGUMENT_RELEASE k (
     ROCKSDB_STATUS_THROWS N delete_status NAPI_RETURN_UNDEFINED))))))"

definition rocksdb_delete_utf8 ::
  "('e, 'v) napi \<Rightarrow> ('d, 'o) engine \<Rightarrow> 'v list \<Rightarrow> ('e, 'v, 'd, 'o) act" where
  "rocksdb_delete_utf8 = delete_string utf8"

definition rocksdb_delete_latin1 ::
  "('e, 'v) napi \<Rightarrow> ('d, 'o) engine \<Rightarrow> 'v list \<Rightarrow> ('e, 'v, 'd, 'o) act" where
  "rocksdb_delete_latin1 = delete_string latin1"

definition delete_range_call ::
  "('e, 'v) napi \<Rightarrow> ('d, 'o) engine \<Rightarrow> ptr \<Rightarrow> ptr \<Rightarrow> slice \<Rightarrow> slice
     \<Rightarrow> (Status \<Rightarrow> ('e, 'v, 'd, 'o) act) \<Rightarrow> ('e, 'v, 'd, 'o) act" where
  "delete_range_call N E db options from till K w =
     use_object (write_options w options) (\<lambda>opt.
     with_slice N from (\<lambda>begin_key. with_slice N till (\<lambda>last_key.
     ENGINE (DB_DeleteRange E db opt 0 begin_key last_key) K))) w"

definition rocksdb_delete_range ::
  "('e, 'v) napi \<Rightarrow> ('d, 'o) engine \<Rightarrow> 'v list \<Rightarrow> ('e, 'v, 'd, 'o) act" where
  "rocksdb_delete_range N E info =
     NAPI_ARGV N info 4 (\<lambda>argv.
     FROM_EXTERNAL_ARGUMENT N argv 0 (\<lambda>db.
     SLICE_FROM_BUFFER_ARGUMENT N argv 1 (\<lambda>from.
     SLICE_FROM_BUFFER_ARGUMENT N argv 2 (\<lambda>till.
     FROM_EXTERNAL_ARGUMENT N argv 3 (\<lambda>options.
     delete_range_call N E db options from till
       (\<lambda>s. ROCKSDB_STATUS_THROWS N s NAPI_RETURN_UNDEFINED))))))"

definition delete_range_string ::
  "encoding \<Rightarrow> ('e, 'v) napi \<Rightarrow> ('d, 'o) engine \<Rightarrow> 'v list \<Rightarrow> ('e, 'v, 'd, 'o) act" where
  "delete_range_string enc N E info =
     NAPI_ARGV N info 4 (\<lambda>argv.
     FROM_EXTERNAL_ARGUMENT N argv 0 (\<lambda>db.
     SLICE_FROM_STRING_ARGUMENT N enc argv 1 (\<lambda>from.
     SLICE_FROM_STRING_ARGUMENT N enc argv 2 (\<lambda>till.
     FROM_EXTERNAL_ARGUMENT N argv 3 (\<lambda>options.
     delete_range_call N E db options from till (\<lambda>delete_status.
     SLICE_FROM_STRING_ARGUMENT_RELEASE from (
     SLICE_FROM_STRING_ARGUMENT_RELEASE till (
     ROCKSDB_STATUS_THROWS N delete_status NAPI_RETURN_UNDEFINED))))))))"

definition rocksdb_delete_range_utf8 ::
  "('e, 'v) napi \<Rightarrow> ('d, 'o) engine \<Rightarrow> 'v list \<Rightarrow> ('e, 'v, 'd, 'o) act" where
  "rocksdb_delete_range_utf8 = delete_range_string utf8"

definition rocksdb_delete_range_latin1 ::
  "('e, 'v) napi \<Rightarrow> ('d, 'o) engine \<Rightarrow> 'v list \<Rightarrow> ('e, 'v, 'd, 'o) act" where
  "rocksdb_delete_range_latin1 = delete_range_string latin1"

section \<open>Reading\<close>

definition get_call ::
  "('e, 'v) napi \<Rightarrow> ('d, 'o) engine \<Rightarrow> ptr \<Rightarrow> ptr \<Rightarrow> slice
     \<Rightarrow> (Status \<times> bytes \<Rightarrow> ('e, 'v, 'd, 'o) act) \<Rightarrow> ('e, 'v, 'd, 'o) act" where
  "get_call N E db options k K w =
     use_object (read_options w options) (\<lambda>opt.
     with_slice N k (\<lambda>key w.
     ENGINE (\<lambda>d. case DB_Get E db opt (view N w) 0 key d of (s, v, d') \<Rightarrow> ((s, v), d')) K w)) w"

text \<open>The value as \<open>mk\<close> makes it, undefined if there is none, an exception and null otherwise.\<close>

definition get_result ::
  "('e, 'v) napi \<Rightarrow> (bytes \<Rightarrow> 'e \<Rightarrow> napi_status \<times> 'v \<times> 'e) \<Rightarrow> Status \<times> bytes
     \<Rightarrow> ('e, 'v, 'd, 'o) act" where
  "get_result N mk r =
     (case r of (get_status, v) \<Rightarrow>
        if ok get_status then NAPI_CREATE N (mk v) RETURN
        else if IsNotFound get_status then NAPI_CREATE N (napi_get_undefined N) RETURN
        else ROCKSDB_STATUS_THROWS N get_status NAPI_RETURN_UNDEFINED)"

definition rocksdb_get ::
  "('e, 'v) napi \<Rightarrow> ('d, 'o) engine \<Rightarrow> 'v list \<Rightarrow> ('e, 'v, 'd, 'o) act" where
  "rocksdb_get N E info =
     NAPI_ARGV N info 3 (\<lambda>argv.
     FROM_EXTERNAL_ARGUMENT N argv 0 (\<lambda>db.
     SLICE_FROM_BUFFER_ARGUMENT N argv 1 (\<lambda>k.
     FROM_EXTERNAL_ARGUMENT N argv 2 (\<lambda>options.
     get_call N E db options k (get_result N (napi_create_buffer_copy N))))))"

definition get_string ::
  "encoding \<Rightarrow> ('e, 'v) napi \<Rightarrow> ('d, 'o) engine \<Rightarrow> 'v list \<Rightarrow> ('e, 'v, 'd, 'o) act" where
  "get_string enc N E info =
     NAPI_ARGV N info 3 (\<lambda>argv.
     FROM_EXTERNAL_ARGUMENT N argv 0 (\<lambda>db.
     SLICE_FROM_STRING_ARGUMENT N enc argv 1 (\<lambda>k.
     FROM_EXTERNAL_ARGUMENT N argv 2 (\<lambda>options.
     get_call N E db options k (\<lambda>r.
     SLICE_FROM_STRING_ARGUMENT_RELEASE k (get_result N (napi_create_string N enc) r))))))"

definition rocksdb_get_utf8 ::
  "('e, 'v) napi \<Rightarrow> ('d, 'o) engine \<Rightarrow> 'v list \<Rightarrow> ('e, 'v, 'd, 'o) act" where
  "rocksdb_get_utf8 = get_string utf8"

definition rocksdb_get_latin1 ::
  "('e, 'v) napi \<Rightarrow> ('d, 'o) engine \<Rightarrow> 'v list \<Rightarrow> ('e, 'v, 'd, 'o) act" where
  "rocksdb_get_latin1 = get_string latin1"

section \<open>Iterators\<close>

definition rocksdb_iterator_finalize ::
  "('d, 'o) engine \<Rightarrow> ptr \<Rightarrow> ptr \<Rightarrow> ('e, 'v, 'd, 'o) act" where
  "rocksdb_iterator_finalize E data hint w =
     (if data \<noteq> nullptr
      then NAPI_RETURN_UNDEFINED (w\<lparr>engine_state := Iterator_delete E data (engine_state w)\<rparr>)
      else NAPI_RETURN_UNDEFINED w)"

definition rocksdb_iterator_init ::
  "('e, 'v) napi \<Rightarrow> ('d, 'o) engine \<Rightarrow> 'v list \<Rightarrow> ('e, 'v, 'd, 'o) act" where
  "rocksdb_iterator_init N E info =
     NAPI_ARGV N info 2 (\<lambda>argv.
     FROM_EXTERNAL_ARGUMENT N argv 0 (\<lambda>db.
     FROM_EXTERNAL_ARGUMENT N argv 1 (\<lambda>options w.
     use_object (read_options w options) (\<lambda>opt w.
     ENGINE (DB_NewIterator E db opt (view N w)) (\<lambda>iterator.
     NAPI_CREATE N (napi_create_external N iterator iterator_finalizer nullptr) RETURN) w) w)))"

definition RETURN_VALID ::
  "('e, 'v) napi \<Rightarrow> ('d, 'o) engine \<Rightarrow> ptr \<Rightarrow> ('e, 'v, 'd, 'o) act" where
  "RETURN_VALID N E iterator w =
     NAPI_CREATE N (napi_get_boolean N (Iterator_Valid E iterator (engine_state w))) RETURN w"

definition seek_call ::
  "('e, 'v) napi \<Rightarrow> (ptr \<Rightarrow> slice_view \<Rightarrow> bytes \<Rightarrow> 'd \<Rightarrow> 'd) \<Rightarrow> ptr \<Rightarrow> slice
     \<Rightarrow> ('e, 'v, 'd, 'o) act \<Rightarrow> ('e, 'v, 'd, 'o) act" where
  "seek_call N seek iterator key K =
     with_slice N key (\<lambda>target w.
       K (w\<lparr>engine_state := seek iterator (view N w) target (engine_state w)\<rparr>))"

definition seek_buffer ::
  "('e, 'v) napi \<Rightarrow> ('d, 'o) engine \<Rightarrow> (ptr \<Rightarrow> slice_view \<Rightarrow> bytes \<Rightarrow> 'd \<Rightarrow> 'd) \<Rightarrow> 'v list
     \<Rightarrow> ('e, 'v, 'd, 'o) act" where
  "seek_buffer N E seek info =
     NAPI_ARGV N info 2 (\<lambda>argv.
     FROM_EXTERNAL_ARGUMENT N argv 0 (\<lambda>iterator.
     SLICE_FROM_BUFFER_ARGUMENT N argv 1 (\<lambda>key.
     seek_call N seek iterator key (RETURN_VALID N E iterator))))"

definition seek_string ::
  "encoding \<Rightarrow> ('e, 'v) napi \<Rightarrow> ('d, 'o) engine \<Rightarrow> (ptr \<Rightarrow> slice_view \<Rightarrow> bytes \<Rightarrow> 'd \<Rightarrow> 'd)
     \<Rightarrow> 'v list \<Rightarrow> ('e, 'v, 'd, 'o) act" where
  "seek_string enc N E seek info =
     NAPI_ARGV N info 2 (\<lambda>argv.
     FROM_EXTERNAL_ARGUMENT N argv 0 (\<lambda>iterator.
     SLICE_FROM_STRING_ARGUMENT N enc argv 1 (\<lambda>key.
     seek_call N seek iterator key (
     SLICE_FROM_STRING_ARGUMENT_RELEASE key (RETURN_VALID N E iterator)))))"

definition iterator_step ::
  "('e, 'v) napi \<Rightarrow> ('d, 'o) engine \<Rightarrow> (ptr \<Rightarrow> slice_view \<Rightarrow> 'd \<Rightarrow> 'd) \<Rightarrow> 'v list
     \<Rightarrow> ('e, 'v, 'd, 'o) act" where
  "iterator_step N E move info =
     NAPI_ARGV N info 1 (\<lambda>argv.
     FROM_EXTERNAL_ARGUMENT N argv 0 (\<lambda>iterator w.
     RETURN_VALID N E iterator (w\<lparr>engine_state := move iterator (view N w) (engine_state w)\<rparr>)))"

definition rocksdb_iterator_seek ::
  "('e, 'v) napi \<Rightarrow> ('d, 'o) engine \<Rightarrow> 'v list \<Rightarrow> ('e, 'v, 'd, 'o) act" where
  "rocksdb_iterator_seek N E = seek_buffer N E (Iterator_Seek E)"

definition rocksdb_iterator_seek_utf8 ::
  "('e, 'v) napi \<Rightarrow> ('d, 'o) engine \<Rightarrow> 'v list \<Rightarrow> ('e, 'v, 'd, 'o) act" where
  "rocksdb_iterator_seek_utf8 N E = seek_string utf8 N E (Iterator_Seek E)"

definition rocksdb_iterator_seek_latin1 ::
  "('e, 'v) napi \<Rightarrow> ('d, 'o) engine \<Rightarrow> 'v list \<Rightarrow> ('e, 'v, 'd, 'o) act" where
  "rocksdb_iterator_seek_latin1 N E = seek_string latin1 N E (Iterator_Seek E)"

definition rocksdb_iterator_seek_for_prev ::
  "('e, 'v) napi \<Rightarrow> ('d, 'o) engine \<Rightarrow> 'v list \<Rightarrow> ('e, 'v, 'd, 'o) act" where
  "rocksdb_iterator_seek_for_prev N E = seek_buffer N E (Iterator_SeekForPrev E)"

definition rocksdb_iterator_seek_for_prev_utf8 ::
  "('e, 'v) napi \<Rightarrow> ('d, 'o) engine \<Rightarrow> 'v list \<Rightarrow> ('e, 'v, 'd, 'o) act" where
  "rocksdb_iterator_seek_for_prev_utf8 N E = seek_string utf8 N E (Iterator_SeekForPrev E)"

definition rocksdb_iterator_seek_for_prev_latin1 ::
  "('e, 'v) napi \<Rightarrow> ('d, 'o) engine \<Rightarrow> 'v list \<Rightarrow> ('e, 'v, 'd, 'o) act" where
  "rocksdb_iterator_seek_for_prev_latin1 N E = seek_string latin1 N E (Iterator_SeekForPrev E)"

definition rocksdb_iterator_seek_for_first ::
  "('e, 'v) napi \<Rightarrow> ('d, 'o) engine \<Rightarrow> 'v list \<Rightarrow> ('e, 'v, 'd, 'o) act" where
  "rocksdb_iterator_seek_for_first N E = iterator_step N E (Iterator_SeekToFirst E)"

definition rocksdb_iterator_seek_for_last ::
  "('e, 'v) napi \<Rightarrow> ('d, 'o) engine \<Rightarrow> 'v list \<Rightarrow> ('e, 'v, 'd, 'o) act" where
  "rocksdb_iterator_seek_for_last N E = iterator_step N E (Iterator_SeekToLast E)"

definition rocksdb_iterator_reset ::
  "('e, 'v) napi \<Rightarrow> ('d, 'o) engine \<Rightarrow> 'v list \<Rightarrow> ('e, 'v, 'd, 'o) act" where
  "rocksdb_iterator_reset N E = iterator_step N E (\<lambda>iterator _. Iterator_Reset E iterator)"

definition rocksdb_iterator_valid ::
  "('e, 'v) napi \<Rightarrow> ('d, 'o) engine \<Rightarrow> 'v list \<Rightarrow> ('e, 'v, 'd, 'o) act" where
  "rocksdb_iterator_valid N E = iterator_step N E (\<lambda>iterator _ d. d)"

definition rocksdb_iterator_next ::
  "('e, 'v) napi \<Rightarrow> ('d, 'o) engine \<Rightarrow> 'v list \<Rightarrow> ('e, 'v, 'd, 'o) act" where
  "rocksdb_iterator_next N E = iterator_step N E (Iterator_Next E)"

definition rocksdb_iterator_prev ::
  "('e, 'v) napi \<Rightarrow> ('d, 'o) engine \<Rightarrow> 'v list \<Rightarrow> ('e, 'v, 'd, 'o) act" where
  "rocksdb_iterator_prev N E = iterator_step N E (Iterator_Prev E)"

definition rocksdb_iterator_refresh ::
  "('e, 'v) napi \<Rightarrow> ('d, 'o) engine \<Rightarrow> 'v list \<Rightarrow> ('e, 'v, 'd, 'o) act" where
  "rocksdb_iterator_refresh N E info =
     NAPI_ARGV N info 1 (\<lambda>argv.
     FROM_EXTERNAL_ARGUMENT N argv 0 (\<lambda>iterator.
     ENGINE (Iterator_Refresh E iterator) (\<lambda>s.
     ROCKSDB_STATUS_THROWS N s (RETURN_VALID N E iterator))))"

definition iterator_read ::
  "('e, 'v) napi \<Rightarrow> (bytes \<Rightarrow> 'e \<Rightarrow> napi_status \<times> 'v \<times> 'e) \<Rightarrow> (ptr \<Rightarrow> 'd \<Rightarrow> bytes)
     \<Rightarrow> 'v list \<Rightarrow> ('e, 'v, 'd, 'o) act" where
  "iterator_read N mk part info =
     NAPI_ARGV N info 1 (\<lambda>argv.
     FROM_EXTERNAL_ARGUMENT N argv 0 (\<lambda>iterator w.
     NAPI_CREATE N (mk (part iterator (engine_state w))) RETURN w))"

definition iterator_pair ::
  "('e, 'v) napi \<Rightarrow> ('d, 'o) engine \<Rightarrow> (bytes \<Rightarrow> 'e \<Rightarrow> napi_status \<times> 'v \<times> 'e)
     \<Rightarrow> 'v list \<Rightarrow> ('e, 'v, 'd, 'o) act" where
  "iterator_pair N E mk info =
     NAPI_ARGV N info 1 (\<lambda>argv.
     FROM_EXTERNAL_ARGUMENT N argv 0 (\<lambda>iterator w.
     let k = Iterator_key E iterator (engine_state w);
         v = Iterator_value E iterator (engine_state w)
     in NAPI_CREATE N (mk k) (\<lambda>k_r.
        NAPI_CREATE N (mk v) (\<lambda>v_r.
        NAPI_CREATE N (napi_create_array_with_length N 2) (\<lambda>result.
        NAPI_DO N (napi_set_element N result 0 k_r) (
        NAPI_DO N (napi_set_element N result 1 v_r) (
        RETURN result))))) w))"

definition rocksdb_iterator_key ::
  "('e, 'v) napi \<Rightarrow> ('d, 'o) engine \<Rightarrow> 'v list \<Rightarrow> ('e, 'v, 'd, 'o) act" where
  "rocksdb_iterator_key N E = iterator_read N (napi_create_buffer_copy N) (Iterator_key E)"

definition rocksdb_iterator_key_utf8 ::
  "('e, 'v) napi \<Rightarrow> ('d, 'o) engine \<Rightarrow> 'v list \<Rightarrow> ('e, 'v, 'd, 'o) act" where
  "rocksdb_iterator_key_utf8 N E = iterator_read N (napi_create_string N utf8) (Iterator_key E)"

definition rocksdb_iterator_key_latin1 ::
  "('e, 'v) napi \<Rightarrow> ('d, 'o) engine \<Rightarrow> 'v list \<Rightarrow> ('e, 'v, 'd, 'o) act" where
  "rocksdb_iterator_key_latin1 N E = iterator_read N (napi_create_string N latin1) (Iterator_key E)"

definition rocksdb_iterator_value ::
  "('e, 'v) napi \<Rightarrow> ('d, 'o) engine \<Rightarrow> 'v list \<Rightarrow> ('e, 'v, 'd, 'o) act" where
  "rocksdb_iterator_value N E = iterator_read N (napi_create_buffer_copy N) (Iterator_value E)"

definition rocksdb_iterator_value_utf8 ::
  "('e, 'v) napi \<Rightarrow> ('d, 'o) engine \<Rightarrow> 'v list \<Rightarrow> ('e, 'v, 'd, 'o) act" where
  "rocksdb_iterator_value_utf8 N E = iterator_read N (napi_create_string N utf8) (Iterator_value E)"

definition rocksdb_iterator_value_latin1 ::
  "('e, 'v) napi \<Rightarrow> ('d, 'o) engine \<Rightarrow> 'v list \<Rightarrow> ('e, 'v, 'd, 'o) act" where
  "rocksdb_iterator_value_latin1 N E = iterator_read N (napi_create_string N latin1) (Iterator_value E)"

definition rocksdb_iterator_key_value_pair ::
  "('e, 'v) napi \<Rightarrow> ('d, 'o) engine \<Rightarrow> 'v list \<Rightarrow> ('e, 'v, 'd, 'o) act" where
  "rocksdb_iterator_key_value_pair N E = iterator_pair N E (napi_create_buffer_copy N)"

definition rocksdb_iterator_key_value_pair_of_utf8 ::
  "('e, 'v) napi \<Rightarrow> ('d, 'o) engine \<Rightarrow> 'v list \<Rightarrow> ('e, 'v, 'd, 'o) act" where
  "rocksdb_iterator_key_value_pair_of_utf8 N E = iterator_pair N E (napi_create_string N utf8)"

definition rocksdb_iterator_status_code ::
  "('e, 'v) napi \<Rightarrow> ('d, 'o) engine \<Rightarrow> 'v list \<Rightarrow> ('e, 'v, 'd, 'o) act" where
  "rocksdb_iterator_status_code N E info =
     NAPI_ARGV N info 1 (\<lambda>argv.
     FROM_EXTERNAL_ARGUMENT N argv 0 (\<lambda>iterator w.
     NAPI_CREATE N
       (napi_create_int32 N (of_nat (code_num (code (Iterator_status E iterator (engine_state w))))))
       RETURN w))"

definition rocksdb_iterator_status_subcode ::
  "('e, 'v) napi \<Rightarrow> ('d, 'o) engine \<Rightarrow> 'v list \<Rightarrow> ('e, 'v, 'd, 'o) act" where
  "rocksdb_iterator_status_subcode N E info =
     NAPI_ARGV N info 1 (\<lambda>argv.
     FROM_EXTERNAL_ARGUMENT N argv 0 (\<lambda>iterator w.
     NAPI_CREATE N
       (napi_create_int32 N
          (of_nat (subcode_num (subcode (Iterator_status E iterator (engine_state w))))))
       RETURN w))"

section \<open>Snapshots\<close>

definition rocksdb_snapshot_finalize ::
  "('d, 'o) engine \<Rightarrow> ptr \<Rightarrow> ptr \<Rightarrow> ('e, 'v, 'd, 'o) act" where
  "rocksdb_snapshot_finalize E snapshot_ptr db_ptr w =
     (if snapshot_ptr \<noteq> nullptr \<and> db_ptr \<noteq> nullptr
      then NAPI_RETURN_UNDEFINED
             (w\<lparr>engine_state := DB_ReleaseSnapshot E db_ptr snapshot_ptr (engine_state w)\<rparr>)
      else NAPI_RETURN_UNDEFINED w)"

definition rocksdb_snapshot_init ::
  "('e, 'v) napi \<Rightarrow> ('d, 'o) engine \<Rightarrow> 'v list \<Rightarrow> ('e, 'v, 'd, 'o) act" where
  "rocksdb_snapshot_init N E info =
     NAPI_ARGV N info 1 (\<lambda>argv.
     FROM_EXTERNAL_ARGUMENT N argv 0 (\<lambda>db.
     ENGINE (DB_GetSnapshot E db) (\<lambda>snap.
     NAPI_CREATE N (napi_create_external N snap snapshot_finalizer db) RETURN)))"

end
