(* ===== verification/BatchIterate.thy ===== *)
theory BatchIterate
  imports WriteBatch
begin

text \<open>
  Reading a batch: the record parser, the loop of \<^verbatim>\<open>WriteBatchInternal::Iterate\<close> that hands each
  record to a handler, the handler that classifies the content, and the content flags
  (db/write_batch.cc, and the interface in include/rocksdb/write_batch.h).

  A handler object is the record of its virtual methods over the state \<open>'h\<close> of the object; a
  method returns its result and the new state. The loop is a total function: a record
  consumes input, and a handler that asks to try again twice for one record ends it.
\<close>

section \<open>The record parser\<close>

text \<open>
  The out parameters of \<^verbatim>\<open>ReadRecordFromWriteBatch\<close>. They live through the whole iteration, so
  the parser returns them updated, also when it fails half way.
\<close>

record wb_record =
  tag :: u8
  column_family :: u32
  wr_key :: bytes
  wr_value :: bytes
  blob :: bytes
  xid :: bytes

definition read_column_family :: "bytes \<Rightarrow> wb_record \<Rightarrow> bool \<times> bytes \<times> wb_record" where
  "read_column_family input out =
     (case GetVarint32 input of
        (Some v, inp) \<Rightarrow> (True, inp, out\<lparr>column_family := v\<rparr>)
      | (None, inp) \<Rightarrow> (False, inp, out))"

definition read_slice ::
  "(bytes \<Rightarrow> wb_record \<Rightarrow> wb_record) \<Rightarrow> bytes \<Rightarrow> wb_record \<Rightarrow> bool \<times> bytes \<times> wb_record" where
  "read_slice store input out =
     (case GetLengthPrefixedSlice input of
        (Some v, inp) \<Rightarrow> (True, inp, store v out)
      | (None, inp) \<Rightarrow> (False, inp, out))"

abbreviation read_key :: "bytes \<Rightarrow> wb_record \<Rightarrow> bool \<times> bytes \<times> wb_record" where
  "read_key \<equiv> read_slice (\<lambda>v out. out\<lparr>wr_key := v\<rparr>)"
abbreviation read_value :: "bytes \<Rightarrow> wb_record \<Rightarrow> bool \<times> bytes \<times> wb_record" where
  "read_value \<equiv> read_slice (\<lambda>v out. out\<lparr>wr_value := v\<rparr>)"
abbreviation read_blob :: "bytes \<Rightarrow> wb_record \<Rightarrow> bool \<times> bytes \<times> wb_record" where
  "read_blob \<equiv> read_slice (\<lambda>v out. out\<lparr>blob := v\<rparr>)"
abbreviation read_xid :: "bytes \<Rightarrow> wb_record \<Rightarrow> bool \<times> bytes \<times> wb_record" where
  "read_xid \<equiv> read_slice (\<lambda>v out. out\<lparr>xid := v\<rparr>)"

text \<open>The short-circuit conjunction of two reads, and the branch that turns failure to a status.\<close>

definition read_both ::
  "(bytes \<Rightarrow> wb_record \<Rightarrow> bool \<times> bytes \<times> wb_record) \<Rightarrow>
   (bytes \<Rightarrow> wb_record \<Rightarrow> bool \<times> bytes \<times> wb_record) \<Rightarrow>
   bytes \<Rightarrow> wb_record \<Rightarrow> bool \<times> bytes \<times> wb_record" where
  "read_both r1 r2 input out =
     (case r1 input out of
        (True, inp, o1) \<Rightarrow> r2 inp o1
      | (False, inp, o1) \<Rightarrow> (False, inp, o1))"

definition or_corrupt ::
  "string \<Rightarrow> (bytes \<Rightarrow> wb_record \<Rightarrow> bool \<times> bytes \<times> wb_record) \<Rightarrow>
   bytes \<Rightarrow> wb_record \<Rightarrow> Status \<times> bytes \<times> wb_record" where
  "or_corrupt msg r input out =
     (case r input out of
        (True, inp, o1) \<Rightarrow> (OK, inp, o1)
      | (False, inp, o1) \<Rightarrow> (Corruption (str msg) [], inp, o1))"

definition ReadRecordFromWriteBatch ::
  "bytes \<Rightarrow> wb_record \<Rightarrow> Status \<times> bytes \<times> wb_record" where
  "ReadRecordFromWriteBatch input0 out0 =
     (let t = input0 ! 0;
          input = remove_prefix input0 1;
          out = out0\<lparr>tag := t, column_family := 0\<rparr>;
          kv = read_both read_key read_value
      in if t = kTypeColumnFamilyValue then
           or_corrupt ''bad WriteBatch Put'' (read_both read_column_family kv) input out
         else if t = kTypeValue then or_corrupt ''bad WriteBatch Put'' kv input out
         else if t = kTypeColumnFamilyDeletion \<or> t = kTypeColumnFamilySingleDeletion then
           or_corrupt ''bad WriteBatch Delete'' (read_both read_column_family read_key) input out
         else if t = kTypeDeletion \<or> t = kTypeSingleDeletion then
           or_corrupt ''bad WriteBatch Delete'' read_key input out
         else if t = kTypeColumnFamilyRangeDeletion then
           or_corrupt ''bad WriteBatch DeleteRange'' (read_both read_column_family kv) input out
         else if t = kTypeRangeDeletion then
           or_corrupt ''bad WriteBatch DeleteRange'' kv input out
         else if t = kTypeColumnFamilyMerge then
           or_corrupt ''bad WriteBatch Merge'' (read_both read_column_family kv) input out
         else if t = kTypeMerge then or_corrupt ''bad WriteBatch Merge'' kv input out
         else if t = kTypeColumnFamilyBlobIndex then
           or_corrupt ''bad WriteBatch BlobIndex'' (read_both read_column_family kv) input out
         else if t = kTypeBlobIndex then or_corrupt ''bad WriteBatch BlobIndex'' kv input out
         else if t = kTypeLogData then or_corrupt ''bad WriteBatch Blob'' read_blob input out
         else if t = kTypeNoop \<or> t = kTypeBeginPrepareXID \<or> t = kTypeBeginPersistedPrepareXID
           \<or> t = kTypeBeginUnprepareXID then (OK, input, out)
         else if t = kTypeEndPrepareXID then
           or_corrupt ''bad EndPrepare XID'' read_xid input out
         else if t = kTypeCommitXID then or_corrupt ''bad Commit XID'' read_xid input out
         else if t = kTypeRollbackXID then or_corrupt ''bad Rollback XID'' read_xid input out
         else (Corruption (str ''unknown WriteBatch tag'') [], input, out))"

text \<open>The key of a record alone; \<open>None\<close> for the result \<^verbatim>\<open>false\<close>.\<close>

definition ReadKeyFromWriteBatchEntry :: "bytes \<Rightarrow> bool \<Rightarrow> bytes option \<times> bytes" where
  "ReadKeyFromWriteBatchEntry input cf_record =
     (let inp = remove_prefix input 1
      in if cf_record
         then (case GetVarint32 inp of
                 (None, i) \<Rightarrow> (None, i)
               | (Some cf, i) \<Rightarrow> GetLengthPrefixedSlice i)
         else GetLengthPrefixedSlice inp)"

section \<open>Handlers\<close>

record 'h handler =
  PutCF :: "u32 \<Rightarrow> bytes \<Rightarrow> bytes \<Rightarrow> 'h \<Rightarrow> Status \<times> 'h"
  DeleteCF :: "u32 \<Rightarrow> bytes \<Rightarrow> 'h \<Rightarrow> Status \<times> 'h"
  SingleDeleteCF :: "u32 \<Rightarrow> bytes \<Rightarrow> 'h \<Rightarrow> Status \<times> 'h"
  DeleteRangeCF :: "u32 \<Rightarrow> bytes \<Rightarrow> bytes \<Rightarrow> 'h \<Rightarrow> Status \<times> 'h"
  MergeCF :: "u32 \<Rightarrow> bytes \<Rightarrow> bytes \<Rightarrow> 'h \<Rightarrow> Status \<times> 'h"
  PutBlobIndexCF :: "u32 \<Rightarrow> bytes \<Rightarrow> bytes \<Rightarrow> 'h \<Rightarrow> Status \<times> 'h"
  LogData :: "bytes \<Rightarrow> 'h \<Rightarrow> 'h"
  MarkBeginPrepare :: "bool \<Rightarrow> 'h \<Rightarrow> Status \<times> 'h"
  MarkEndPrepare :: "bytes \<Rightarrow> 'h \<Rightarrow> Status \<times> 'h"
  MarkNoop :: "bool \<Rightarrow> 'h \<Rightarrow> Status \<times> 'h"
  MarkRollback :: "bytes \<Rightarrow> 'h \<Rightarrow> Status \<times> 'h"
  MarkCommit :: "bytes \<Rightarrow> 'h \<Rightarrow> Status \<times> 'h"
  Continue :: "'h \<Rightarrow> bool \<times> 'h"
  WriteAfterCommit :: "'h \<Rightarrow> bool"
  WriteBeforePrepare :: "'h \<Rightarrow> bool"

text \<open>The methods of the base class, over the five methods without a column family.\<close>

definition base_handler ::
  "(bytes \<Rightarrow> bytes \<Rightarrow> 'h \<Rightarrow> 'h) \<Rightarrow> (bytes \<Rightarrow> 'h \<Rightarrow> 'h) \<Rightarrow> (bytes \<Rightarrow> 'h \<Rightarrow> 'h) \<Rightarrow>
   (bytes \<Rightarrow> bytes \<Rightarrow> 'h \<Rightarrow> 'h) \<Rightarrow> 'h handler" where
  "base_handler put del sdel mrg =
     \<lparr>PutCF = (\<lambda>cf k v h. if cf = 0 then (OK, put k v h) else
        (InvalidArgument (str ''non-default column family and PutCF not implemented'') [], h)),
      DeleteCF = (\<lambda>cf k h. if cf = 0 then (OK, del k h) else
        (InvalidArgument (str ''non-default column family and DeleteCF not implemented'') [], h)),
      SingleDeleteCF = (\<lambda>cf k h. if cf = 0 then (OK, sdel k h) else
        (InvalidArgument (str ''non-default column family and SingleDeleteCF not implemented'') [],
         h)),
      DeleteRangeCF = (\<lambda>cf k v h. (InvalidArgument (str ''DeleteRangeCF not implemented'') [], h)),
      MergeCF = (\<lambda>cf k v h. if cf = 0 then (OK, mrg k v h) else
        (InvalidArgument (str ''non-default column family and MergeCF not implemented'') [], h)),
      PutBlobIndexCF = (\<lambda>cf k v h.
        (InvalidArgument (str ''PutBlobIndexCF not implemented'') [], h)),
      LogData = (\<lambda>b h. h),
      MarkBeginPrepare = (\<lambda>u h.
        (InvalidArgument (str ''MarkBeginPrepare() handler not defined.'') [], h)),
      MarkEndPrepare = (\<lambda>x h.
        (InvalidArgument (str ''MarkEndPrepare() handler not defined.'') [], h)),
      MarkNoop = (\<lambda>e h. (InvalidArgument (str ''MarkNoop() handler not defined.'') [], h)),
      MarkRollback = (\<lambda>x h.
        (InvalidArgument (str ''MarkRollbackPrepare() handler not defined.'') [], h)),
      MarkCommit = (\<lambda>x h. (InvalidArgument (str ''MarkCommit() handler not defined.'') [], h)),
      Continue = (\<lambda>h. (True, h)),
      WriteAfterCommit = (\<lambda>h. True),
      WriteBeforePrepare = (\<lambda>h. False)\<rparr>"

section \<open>The loop\<close>

text \<open>
  One turn of the \<^verbatim>\<open>switch\<close>: the status, the flag that the current sub-batch is empty, the
  number of records found and the handler, or \<open>Inl\<close> for a return from the function. The statuses
  of the marking methods are not looked at.
\<close>

type_synonym 'h turn = "Status + Status \<times> bool \<times> u32 \<times> 'h"

definition counted :: "bool \<Rightarrow> u32 \<Rightarrow> Status \<times> 'h \<Rightarrow> 'h turn" where
  "counted empty_batch found r =
     (case r of (s, h) \<Rightarrow> if ok s then Inr (s, False, found + 1, h) else Inr (s, empty_batch, found, h))"

text \<open>The statuses of the three begin markers, after the handler has seen the marker.\<close>

definition begin_prepare_status :: "'h handler \<Rightarrow> 'h \<Rightarrow> Status \<Rightarrow> Status" where
  "begin_prepare_status hdl h s =
     (let s1 = (if \<not> WriteAfterCommit hdl h
                then NotSupported (str ''WriteCommitted txn tag when write_after_commit_ is disabled (in WritePrepared/WriteUnprepared mode). If it is not due to corruption, the WAL must be emptied before changing the WritePolicy.'') []
                else s)
      in if WriteBeforePrepare hdl h
         then NotSupported (str ''WriteCommitted txn tag when write_before_prepare_ is enabled (in WriteUnprepared mode). If it is not due to corruption, the WAL must be emptied before changing the WritePolicy.'') []
         else s1)"

definition begin_persisted_status :: "'h handler \<Rightarrow> 'h \<Rightarrow> Status \<Rightarrow> Status" where
  "begin_persisted_status hdl h s =
     (if WriteAfterCommit hdl h
      then NotSupported (str ''WritePrepared/WriteUnprepared txn tag when write_after_commit_ is enabled (in default WriteCommitted mode). If it is not due to corruption, the WAL must be emptied before changing the WritePolicy.'') []
      else s)"

definition begin_unprepare_status :: "'h handler \<Rightarrow> 'h \<Rightarrow> Status \<Rightarrow> Status" where
  "begin_unprepare_status hdl h s =
     (let s1 = (if WriteAfterCommit hdl h
                then NotSupported (str ''WriteUnprepared txn tag when write_after_commit_ is enabled (in default WriteCommitted mode). If it is not due to corruption, the WAL must be emptied before changing the WritePolicy.'') []
                else s)
      in if \<not> WriteBeforePrepare hdl h
         then NotSupported (str ''WriteUnprepared txn tag when write_before_prepare_ is disabled (in WriteCommitted/WritePrepared mode). If it is not due to corruption, the WAL must be emptied before changing the WritePolicy.'') []
         else s1)"

definition dispatch ::
  "'h handler \<Rightarrow> wb_record \<Rightarrow> Status \<Rightarrow> bool \<Rightarrow> u32 \<Rightarrow> 'h \<Rightarrow> Status + Status \<times> bool \<times> u32 \<times> 'h"
where
  "dispatch hdl r s empty_batch found h =
     (let t = tag r; cf = column_family r; key = wr_key r; v = wr_value r
      in if t = kTypeColumnFamilyValue \<or> t = kTypeValue then
           counted empty_batch found (PutCF hdl cf key v h)
         else if t = kTypeColumnFamilyDeletion \<or> t = kTypeDeletion then
           counted empty_batch found (DeleteCF hdl cf key h)
         else if t = kTypeColumnFamilySingleDeletion \<or> t = kTypeSingleDeletion then
           counted empty_batch found (SingleDeleteCF hdl cf key h)
         else if t = kTypeColumnFamilyRangeDeletion \<or> t = kTypeRangeDeletion then
           counted empty_batch found (DeleteRangeCF hdl cf key v h)
         else if t = kTypeColumnFamilyMerge \<or> t = kTypeMerge then
           counted empty_batch found (MergeCF hdl cf key v h)
         else if t = kTypeColumnFamilyBlobIndex \<or> t = kTypeBlobIndex then
           (case PutBlobIndexCF hdl cf key v h of
              (s', h') \<Rightarrow> Inr (s', empty_batch, if ok s' then found + 1 else found, h'))
         else if t = kTypeLogData then Inr (s, False, found, LogData hdl (blob r) h)
         else if t = kTypeBeginPrepareXID then
           (let h' = snd (MarkBeginPrepare hdl False h)
            in Inr (begin_prepare_status hdl h' s, False, found, h'))
         else if t = kTypeBeginPersistedPrepareXID then
           (let h' = snd (MarkBeginPrepare hdl False h)
            in Inr (begin_persisted_status hdl h' s, False, found, h'))
         else if t = kTypeBeginUnprepareXID then
           (let h' = snd (MarkBeginPrepare hdl True h)
            in Inr (begin_unprepare_status hdl h' s, False, found, h'))
         else if t = kTypeEndPrepareXID then
           Inr (s, True, found, snd (MarkEndPrepare hdl (xid r) h))
         else if t = kTypeCommitXID then
           Inr (s, True, found, snd (MarkCommit hdl (xid r) h))
         else if t = kTypeRollbackXID then
           Inr (s, True, found, snd (MarkRollback hdl (xid r) h))
         else if t = kTypeNoop then
           Inr (s, True, found, snd (MarkNoop hdl empty_batch h))
         else Inl (Corruption (str ''unknown WriteBatch tag'') []))"

text \<open>What the parser consumes, which the termination of the loop rests on.\<close>

lemma GetLengthPrefixedSlice_shrinks:
  "GetLengthPrefixedSlice p = (r, q) \<Longrightarrow> length q \<le> length p"
proof -
  assume r: "GetLengthPrefixedSlice p = (r, q)"
  obtain v i where g: "GetVarint32 p = (v, i)" by fastforce
  have "length i \<le> length p"
  proof (cases v)
    case None
    with g show ?thesis by (auto simp: GetVarint32_def split: option.splits)
  next
    case (Some n)
    with g GetVarint32_consumes [of p n i] show ?thesis by auto
  qed
  with r g show ?thesis
    by (auto simp: GetLengthPrefixedSlice_def remove_prefix_def split: option.splits if_splits)
qed

definition shrinks :: "(bytes \<Rightarrow> wb_record \<Rightarrow> 's \<times> bytes \<times> wb_record) \<Rightarrow> bool" where
  "shrinks r \<longleftrightarrow> (\<forall>p out s q out'. r p out = (s, q, out') \<longrightarrow> length q \<le> length p)"

lemma shrinks_readers:
  "shrinks read_column_family" "shrinks (read_slice st)"
  "shrinks r1 \<Longrightarrow> shrinks r2 \<Longrightarrow> shrinks (read_both r1 r2)"
  "shrinks r1 \<Longrightarrow> shrinks (or_corrupt m r1)"
proof -
  show "shrinks read_column_family"
    using GetVarint32_consumes
    by (fastforce simp: shrinks_def read_column_family_def GetVarint32_def
        split: prod.splits option.splits)
  show "shrinks (read_slice st)"
    by (auto simp: shrinks_def read_slice_def dest: GetLengthPrefixedSlice_shrinks
        split: prod.splits option.splits)
  show "shrinks r1 \<Longrightarrow> shrinks r2 \<Longrightarrow> shrinks (read_both r1 r2)"
    unfolding shrinks_def read_both_def
    by (auto split: prod.splits bool.splits) (meson order_trans)+
  show "shrinks r1 \<Longrightarrow> shrinks (or_corrupt m r1)"
    unfolding shrinks_def or_corrupt_def by (auto split: prod.splits bool.splits) blast+
qed

lemma shrinks_step:
  "shrinks r \<Longrightarrow> r p o1 = (s, q, o2) \<Longrightarrow> length q \<le> length p"
  unfolding shrinks_def by blast

lemmas shrinks_kv = shrinks_readers(3) [OF shrinks_readers(2) shrinks_readers(2)]

lemmas record_shrinks =
  shrinks_step [OF shrinks_readers(4) [OF shrinks_readers(3) [OF shrinks_readers(1) shrinks_kv]]]
  shrinks_step [OF shrinks_readers(4) [OF shrinks_kv]]
  shrinks_step [OF shrinks_readers(4) [OF shrinks_readers(3) [OF shrinks_readers(1,2)]]]
  shrinks_step [OF shrinks_readers(4) [OF shrinks_readers(2)]]

lemma ReadRecord_shrinks:
  "input \<noteq> [] \<Longrightarrow> ReadRecordFromWriteBatch input out = (s, rest, out') \<Longrightarrow> length rest < length input"
proof -
  assume ne: "input \<noteq> []" and r: "ReadRecordFromWriteBatch input out = (s, rest, out')"
  have "length rest \<le> length (drop 1 input)"
    using r unfolding ReadRecordFromWriteBatch_def Let_def remove_prefix_def
    by (auto split: if_splits dest!: record_shrinks)
  then show ?thesis using ne by (cases input) auto
qed

text \<open>
  The \<^verbatim>\<open>while\<close> loop: the status, what is left of the input, the out parameters, the flags and
  the counter, and the handler. The result is \<open>Inl\<close> for a return from inside the loop, or the
  status, the answer of \<^verbatim>\<open>Continue\<close> and the counter at its end.
\<close>

function iterate_loop ::
  "'h handler \<Rightarrow> Status \<Rightarrow> bytes \<Rightarrow> wb_record \<Rightarrow> bool \<Rightarrow> u32 \<Rightarrow> bool \<Rightarrow> 'h \<Rightarrow>
     (Status + Status \<times> bool \<times> u32) \<times> 'h" where
  "iterate_loop hdl s input out empty_batch found last_was_try_again h =
     (if ok s \<and> input \<noteq> [] \<or> IsTryAgain s then
        (case Continue hdl h of
           (False, h1) \<Rightarrow> (Inr (s, False, found), h1)
         | (True, h1) \<Rightarrow>
             (if \<not> IsTryAgain s then
                (case ReadRecordFromWriteBatch input (out\<lparr>tag := 0, column_family := 0\<rparr>) of
                   (s1, input1, out1) \<Rightarrow>
                     (if \<not> ok s1 then (Inl s1, h1)
                      else
                        (case dispatch hdl out1 s1 empty_batch found h1 of
                           Inl e \<Rightarrow> (Inl e, h1)
                         | Inr (s2, empty2, found2, h2) \<Rightarrow>
                             iterate_loop hdl s2 input1 out1 empty2 found2 False h2)))
              else if last_was_try_again then
                (Inl (Corruption (str ''two consecutive TryAgain in WriteBatch handler; this is either a software bug or data corruption.'') []), h1)
              else
                (case dispatch hdl out OK empty_batch found h1 of
                   Inl e \<Rightarrow> (Inl e, h1)
                 | Inr (s2, empty2, found2, h2) \<Rightarrow>
                     iterate_loop hdl s2 input out empty2 found2 True h2)))
      else (Inr (s, True, found), h))"
  by pat_completeness auto
termination
  by (relation "inv_image (less_than <*lex*> less_than)
        (\<lambda>(hdl, s, input, out, e, f, last, h).
           (length input, if IsTryAgain s then (if last then 1 else 2) else 0 :: nat))")
    (auto dest: ReadRecord_shrinks [OF _ sym] ok_not_TryAgain)

declare iterate_loop.simps [simp del]

definition wbi_Iterate :: "WriteBatch \<Rightarrow> 'h handler \<Rightarrow> nat \<Rightarrow> nat \<Rightarrow> 'h \<Rightarrow> Status \<times> 'h" where
  "wbi_Iterate wb hdl begin stop h =
     (if begin > length (rep wb) \<or> stop > length (rep wb) \<or> stop < begin
      then (Corruption (str ''Invalid start/end bounds for Iterate'') [], h)
      else
        (let input = take (stop - begin) (drop begin (rep wb));
             whole_batch = (begin = kHeader \<and> stop = length (rep wb));
             out = \<lparr>tag = 0, column_family = 0, wr_key = [], wr_value = [], blob = [], xid = []\<rparr>
         in case iterate_loop hdl OK input out True 0 False h of
              (Inl e, h1) \<Rightarrow> (e, h1)
            | (Inr (s, handler_continue, found), h1) \<Rightarrow>
                (if \<not> ok s then (s, h1)
                 else if handler_continue \<and> whole_batch \<and> found \<noteq> wb_Count wb
                 then (Corruption (str ''WriteBatch has wrong count'') [], h1)
                 else (OK, h1))))"

definition wb_Iterate :: "WriteBatch \<Rightarrow> 'h handler \<Rightarrow> 'h \<Rightarrow> Status \<times> 'h" where
  "wb_Iterate wb hdl h =
     (if length (rep wb) < kHeader
      then (Corruption (str ''malformed WriteBatch (too small)'') [], h)
      else wbi_Iterate wb hdl kHeader (length (rep wb)) h)"

section \<open>Content flags\<close>

text \<open>The classifier does not define \<^verbatim>\<open>MarkNoop\<close> or \<^verbatim>\<open>LogData\<close>; its state is its flags.\<close>

definition BatchContentClassifier :: "u32 handler" where
  "BatchContentClassifier =
     (base_handler (\<lambda>k v h. h) (\<lambda>k h. h) (\<lambda>k h. h) (\<lambda>k v h. h))
       \<lparr>PutCF := (\<lambda>cf k v f. (OK, f OR HAS_PUT)),
        DeleteCF := (\<lambda>cf k f. (OK, f OR HAS_DELETE)),
        SingleDeleteCF := (\<lambda>cf k f. (OK, f OR HAS_SINGLE_DELETE)),
        DeleteRangeCF := (\<lambda>cf k v f. (OK, f OR HAS_DELETE_RANGE)),
        MergeCF := (\<lambda>cf k v f. (OK, f OR HAS_MERGE)),
        PutBlobIndexCF := (\<lambda>cf k v f. (OK, f OR HAS_BLOB_INDEX)),
        MarkBeginPrepare := (\<lambda>unprepare f.
          (OK, if unprepare then f OR HAS_BEGIN_PREPARE OR HAS_BEGIN_UNPREPARE
               else f OR HAS_BEGIN_PREPARE)),
        MarkEndPrepare := (\<lambda>x f. (OK, f OR HAS_END_PREPARE)),
        MarkCommit := (\<lambda>x f. (OK, f OR HAS_COMMIT)),
        MarkRollback := (\<lambda>x f. (OK, f OR HAS_ROLLBACK))\<rparr>"

text \<open>The deferred computation stores its result, so the batch is returned with it.\<close>

definition ComputeContentFlags :: "WriteBatch \<Rightarrow> u32 \<times> WriteBatch" where
  "ComputeContentFlags b =
     (let rv = content_flags b
      in if rv AND DEFERRED \<noteq> 0
         then (let fl = snd (wb_Iterate b BatchContentClassifier 0)
               in (fl, b\<lparr>content_flags := fl\<rparr>))
         else (rv, b))"

definition HasPut :: "WriteBatch \<Rightarrow> bool" where
  "HasPut b \<longleftrightarrow> fst (ComputeContentFlags b) AND HAS_PUT \<noteq> 0"

definition HasDelete :: "WriteBatch \<Rightarrow> bool" where
  "HasDelete b \<longleftrightarrow> fst (ComputeContentFlags b) AND HAS_DELETE \<noteq> 0"

definition HasSingleDelete :: "WriteBatch \<Rightarrow> bool" where
  "HasSingleDelete b \<longleftrightarrow> fst (ComputeContentFlags b) AND HAS_SINGLE_DELETE \<noteq> 0"

definition HasDeleteRange :: "WriteBatch \<Rightarrow> bool" where
  "HasDeleteRange b \<longleftrightarrow> fst (ComputeContentFlags b) AND HAS_DELETE_RANGE \<noteq> 0"

definition HasMerge :: "WriteBatch \<Rightarrow> bool" where
  "HasMerge b \<longleftrightarrow> fst (ComputeContentFlags b) AND HAS_MERGE \<noteq> 0"

definition HasBeginPrepare :: "WriteBatch \<Rightarrow> bool" where
  "HasBeginPrepare b \<longleftrightarrow> fst (ComputeContentFlags b) AND HAS_BEGIN_PREPARE \<noteq> 0"

definition HasEndPrepare :: "WriteBatch \<Rightarrow> bool" where
  "HasEndPrepare b \<longleftrightarrow> fst (ComputeContentFlags b) AND HAS_END_PREPARE \<noteq> 0"

definition HasCommit :: "WriteBatch \<Rightarrow> bool" where
  "HasCommit b \<longleftrightarrow> fst (ComputeContentFlags b) AND HAS_COMMIT \<noteq> 0"

definition HasRollback :: "WriteBatch \<Rightarrow> bool" where
  "HasRollback b \<longleftrightarrow> fst (ComputeContentFlags b) AND HAS_ROLLBACK \<noteq> 0"

end
