(* ===== verification/BatchSpec.thy ===== *)
theory BatchSpec
  imports BatchIterate
begin

text \<open>
  What a batch means: the list of the operations written to it. This theory states the
  abstract specification of the batch and shows that the code implements it. Every writer
  appends its operation to the list, or leaves the batch as it was when the size limit is
  passed; the iteration hands the handler the operations of the list in order; the flags say
  what kinds of operations the list holds; rolling back to a save point gives the list of that
  point back.
\<close>

section \<open>Operations and their records\<close>

datatype begin_kind = WriteCommitted | WritePrepared | WriteUnprepared

datatype batch_op =
    OpPut u32 bytes bytes
  | OpDelete u32 bytes
  | OpSingleDelete u32 bytes
  | OpDeleteRange u32 bytes bytes
  | OpMerge u32 bytes bytes
  | OpBlobIndex u32 bytes bytes
  | OpLogData bytes
  | OpBegin begin_kind
  | OpEndPrepare bytes
  | OpCommit bytes
  | OpRollback bytes
  | OpNoop

definition enc_str :: "bytes \<Rightarrow> bytes" where
  "enc_str s = EncodeVarint32 (of_nat (length s)) @ s"

definition enc_tag :: "ValueType \<Rightarrow> ValueType \<Rightarrow> u32 \<Rightarrow> bytes" where
  "enc_tag t cft cf = (if cf = 0 then [t] else cft # EncodeVarint32 cf)"

fun begin_tag :: "begin_kind \<Rightarrow> ValueType" where
  "begin_tag WriteCommitted = kTypeBeginPrepareXID"
| "begin_tag WritePrepared = kTypeBeginPersistedPrepareXID"
| "begin_tag WriteUnprepared = kTypeBeginUnprepareXID"

fun enc_op :: "batch_op \<Rightarrow> bytes" where
  "enc_op (OpPut cf k v) = enc_tag kTypeValue kTypeColumnFamilyValue cf @ enc_str k @ enc_str v"
| "enc_op (OpDelete cf k) = enc_tag kTypeDeletion kTypeColumnFamilyDeletion cf @ enc_str k"
| "enc_op (OpSingleDelete cf k) =
     enc_tag kTypeSingleDeletion kTypeColumnFamilySingleDeletion cf @ enc_str k"
| "enc_op (OpDeleteRange cf k v) =
     enc_tag kTypeRangeDeletion kTypeColumnFamilyRangeDeletion cf @ enc_str k @ enc_str v"
| "enc_op (OpMerge cf k v) = enc_tag kTypeMerge kTypeColumnFamilyMerge cf @ enc_str k @ enc_str v"
| "enc_op (OpBlobIndex cf k v) =
     enc_tag kTypeBlobIndex kTypeColumnFamilyBlobIndex cf @ enc_str k @ enc_str v"
| "enc_op (OpLogData b) = kTypeLogData # enc_str b"
| "enc_op (OpBegin kind) = [begin_tag kind]"
| "enc_op (OpEndPrepare x) = kTypeEndPrepareXID # enc_str x"
| "enc_op (OpCommit x) = kTypeCommitXID # enc_str x"
| "enc_op (OpRollback x) = kTypeRollbackXID # enc_str x"
| "enc_op OpNoop = [kTypeNoop]"

definition str_ok :: "bytes \<Rightarrow> bool" where
  "str_ok s \<longleftrightarrow> length s < 2 ^ 32"

fun op_ok :: "batch_op \<Rightarrow> bool" where
  "op_ok (OpPut cf k v) \<longleftrightarrow> str_ok k \<and> str_ok v"
| "op_ok (OpDelete cf k) \<longleftrightarrow> str_ok k"
| "op_ok (OpSingleDelete cf k) \<longleftrightarrow> str_ok k"
| "op_ok (OpDeleteRange cf k v) \<longleftrightarrow> str_ok k \<and> str_ok v"
| "op_ok (OpMerge cf k v) \<longleftrightarrow> str_ok k \<and> str_ok v"
| "op_ok (OpBlobIndex cf k v) \<longleftrightarrow> str_ok k \<and> str_ok v"
| "op_ok (OpLogData b) \<longleftrightarrow> str_ok b"
| "op_ok (OpBegin kind) \<longleftrightarrow> True"
| "op_ok (OpEndPrepare x) \<longleftrightarrow> str_ok x"
| "op_ok (OpCommit x) \<longleftrightarrow> str_ok x"
| "op_ok (OpRollback x) \<longleftrightarrow> str_ok x"
| "op_ok OpNoop \<longleftrightarrow> True"

text \<open>Which operations the count in the header counts, and the flag of each.\<close>

fun counts :: "batch_op \<Rightarrow> bool" where
  "counts (OpPut cf k v) = True"
| "counts (OpDelete cf k) = True"
| "counts (OpSingleDelete cf k) = True"
| "counts (OpDeleteRange cf k v) = True"
| "counts (OpMerge cf k v) = True"
| "counts (OpBlobIndex cf k v) = True"
| "counts _ = False"

fun op_flag :: "batch_op \<Rightarrow> u32" where
  "op_flag (OpPut cf k v) = HAS_PUT"
| "op_flag (OpDelete cf k) = HAS_DELETE"
| "op_flag (OpSingleDelete cf k) = HAS_SINGLE_DELETE"
| "op_flag (OpDeleteRange cf k v) = HAS_DELETE_RANGE"
| "op_flag (OpMerge cf k v) = HAS_MERGE"
| "op_flag (OpBlobIndex cf k v) = HAS_BLOB_INDEX"
| "op_flag (OpLogData b) = 0"
| "op_flag (OpBegin kind) =
     (if kind = WriteUnprepared then HAS_BEGIN_PREPARE OR HAS_BEGIN_UNPREPARE
      else HAS_BEGIN_PREPARE)"
| "op_flag (OpEndPrepare x) = HAS_END_PREPARE"
| "op_flag (OpCommit x) = HAS_COMMIT"
| "op_flag (OpRollback x) = HAS_ROLLBACK"
| "op_flag OpNoop = 0"

definition count_ops :: "batch_op list \<Rightarrow> u32" where
  "count_ops ops = of_nat (length (filter counts ops))"

definition flags_of :: "batch_op list \<Rightarrow> u32" where
  "flags_of ops = fold (\<lambda>op f. f OR op_flag op) ops 0"

definition enc_ops :: "batch_op list \<Rightarrow> bytes" where
  "enc_ops ops = concat (map enc_op ops)"

definition batch_rep :: "SequenceNumber \<Rightarrow> batch_op list \<Rightarrow> bytes" where
  "batch_rep seq ops = EncodeFixed64 seq @ EncodeFixed32 (count_ops ops) @ enc_ops ops"

text \<open>A batch that holds a list of operations: its string, its flags and its strings' lengths.\<close>

definition holds :: "WriteBatch \<Rightarrow> SequenceNumber \<Rightarrow> batch_op list \<Rightarrow> bool" where
  "holds b seq ops \<longleftrightarrow>
     rep b = batch_rep seq ops \<and> list_all op_ok ops
       \<and> (content_flags b AND DEFERRED \<noteq> 0 \<or> content_flags b = flags_of ops)"

section \<open>The parser reads what the writers wrote\<close>

fun rec_of :: "batch_op \<Rightarrow> wb_record \<Rightarrow> wb_record" where
  "rec_of (OpPut cf k v) r =
     r\<lparr>tag := (if cf = 0 then kTypeValue else kTypeColumnFamilyValue), column_family := cf,
       wr_key := k, wr_value := v\<rparr>"
| "rec_of (OpDelete cf k) r =
     r\<lparr>tag := (if cf = 0 then kTypeDeletion else kTypeColumnFamilyDeletion), column_family := cf,
       wr_key := k\<rparr>"
| "rec_of (OpSingleDelete cf k) r =
     r\<lparr>tag := (if cf = 0 then kTypeSingleDeletion else kTypeColumnFamilySingleDeletion),
       column_family := cf, wr_key := k\<rparr>"
| "rec_of (OpDeleteRange cf k v) r =
     r\<lparr>tag := (if cf = 0 then kTypeRangeDeletion else kTypeColumnFamilyRangeDeletion),
       column_family := cf, wr_key := k, wr_value := v\<rparr>"
| "rec_of (OpMerge cf k v) r =
     r\<lparr>tag := (if cf = 0 then kTypeMerge else kTypeColumnFamilyMerge), column_family := cf,
       wr_key := k, wr_value := v\<rparr>"
| "rec_of (OpBlobIndex cf k v) r =
     r\<lparr>tag := (if cf = 0 then kTypeBlobIndex else kTypeColumnFamilyBlobIndex), column_family := cf,
       wr_key := k, wr_value := v\<rparr>"
| "rec_of (OpLogData b) r = r\<lparr>tag := kTypeLogData, column_family := 0, blob := b\<rparr>"
| "rec_of (OpBegin kind) r = r\<lparr>tag := begin_tag kind, column_family := 0\<rparr>"
| "rec_of (OpEndPrepare x) r = r\<lparr>tag := kTypeEndPrepareXID, column_family := 0, xid := x\<rparr>"
| "rec_of (OpCommit x) r = r\<lparr>tag := kTypeCommitXID, column_family := 0, xid := x\<rparr>"
| "rec_of (OpRollback x) r = r\<lparr>tag := kTypeRollbackXID, column_family := 0, xid := x\<rparr>"
| "rec_of OpNoop r = r\<lparr>tag := kTypeNoop, column_family := 0\<rparr>"

lemma enc_str_Put: "PutLengthPrefixedSlice dst s = dst @ enc_str s"
  by (simp add: PutLengthPrefixedSlice_def PutVarint32_def enc_str_def)

lemma GetLengthPrefixedSlice_enc [simp]:
  "str_ok s \<Longrightarrow> GetLengthPrefixedSlice (enc_str s @ rest) = (Some s, rest)"
  "str_ok s \<Longrightarrow> GetLengthPrefixedSlice (enc_str s) = (Some s, [])"
  using GetLengthPrefixedSlice_Put [of s rest] GetLengthPrefixedSlice_Put [of s "[]"]
  by (simp_all add: enc_str_Put str_ok_def)

lemmas read_defs = read_both_def or_corrupt_def read_slice_def read_column_family_def

lemma begin_tag_simps [simp]:
  "begin_tag kind = kTypeBeginPrepareXID \<longleftrightarrow> kind = WriteCommitted"
  "begin_tag kind = kTypeBeginPersistedPrepareXID \<longleftrightarrow> kind = WritePrepared"
  "begin_tag kind = kTypeBeginUnprepareXID \<longleftrightarrow> kind = WriteUnprepared"
  by (cases kind; simp)+

lemma ReadRecord_enc_op:
  assumes "op_ok op"
  shows "ReadRecordFromWriteBatch (enc_op op @ rest) out = (OK, rest, rec_of op out)"
proof (cases op)
  case (OpBegin kind)
  then show ?thesis by (cases kind) (simp_all add: ReadRecordFromWriteBatch_def remove_prefix_def)
qed (use assms in \<open>auto simp: ReadRecordFromWriteBatch_def remove_prefix_def enc_tag_def read_defs\<close>)

lemma enc_op_not_Nil [simp]: "enc_op op \<noteq> []"
  by (cases op) (auto simp: enc_tag_def)

lemma enc_ops_simps [simp]:
  "enc_ops [] = []" "enc_ops (op # ops) = enc_op op @ enc_ops ops"
  "enc_ops (ops @ ops') = enc_ops ops @ enc_ops ops'"
  by (simp_all add: enc_ops_def)

lemma enc_ops_Nil_iff [simp]: "enc_ops ops = [] \<longleftrightarrow> ops = []"
  by (cases ops) simp_all

section \<open>The iteration runs the operations in order\<close>

text \<open>One operation handed to the handler; the status, and the new flag, counter and handler.\<close>

fun op_turn :: "'h handler \<Rightarrow> batch_op \<Rightarrow> bool \<Rightarrow> u32 \<Rightarrow> 'h \<Rightarrow> Status \<times> bool \<times> u32 \<times> 'h" where
  "op_turn hdl op e f h =
     (let counting = (\<lambda>(s, h'). if ok s then (s, False, f + 1, h') else (s, e, f, h'))
      in case op of
           OpPut cf k v \<Rightarrow> counting (PutCF hdl cf k v h)
         | OpDelete cf k \<Rightarrow> counting (DeleteCF hdl cf k h)
         | OpSingleDelete cf k \<Rightarrow> counting (SingleDeleteCF hdl cf k h)
         | OpDeleteRange cf k v \<Rightarrow> counting (DeleteRangeCF hdl cf k v h)
         | OpMerge cf k v \<Rightarrow> counting (MergeCF hdl cf k v h)
         | OpBlobIndex cf k v \<Rightarrow>
             (case PutBlobIndexCF hdl cf k v h of (s, h') \<Rightarrow> (s, e, if ok s then f + 1 else f, h'))
         | OpLogData b \<Rightarrow> (OK, False, f, LogData hdl b h)
         | OpBegin WriteCommitted \<Rightarrow>
             (let h' = snd (MarkBeginPrepare hdl False h)
              in (begin_prepare_status hdl h' OK, False, f, h'))
         | OpBegin WritePrepared \<Rightarrow>
             (let h' = snd (MarkBeginPrepare hdl False h)
              in (begin_persisted_status hdl h' OK, False, f, h'))
         | OpBegin WriteUnprepared \<Rightarrow>
             (let h' = snd (MarkBeginPrepare hdl True h)
              in (begin_unprepare_status hdl h' OK, False, f, h'))
         | OpEndPrepare x \<Rightarrow> (OK, True, f, snd (MarkEndPrepare hdl x h))
         | OpCommit x \<Rightarrow> (OK, True, f, snd (MarkCommit hdl x h))
         | OpRollback x \<Rightarrow> (OK, True, f, snd (MarkRollback hdl x h))
         | OpNoop \<Rightarrow> (OK, True, f, snd (MarkNoop hdl e h)))"

declare op_turn.simps [simp del]

lemma dispatch_rec_of: "dispatch hdl (rec_of op r) OK e f h = Inr (op_turn hdl op e f h)"
proof (cases op)
  case (OpBegin kind)
  then show ?thesis by (cases kind) (simp_all add: dispatch_def op_turn.simps Let_def)
qed (simp_all add: dispatch_def op_turn.simps counted_def split: prod.splits)

text \<open>
  The specification of the loop: each operation is tried, tried a second time if the handler
  asks for it, and the first other failure ends the run. \<open>s\<close> is the status of the operation before.
\<close>

definition two_TryAgain :: Status where
  "two_TryAgain = Corruption (str ''two consecutive TryAgain in WriteBatch handler; this is either a software bug or data corruption.'') []"

fun run_ops ::
  "'h handler \<Rightarrow> Status \<Rightarrow> batch_op list \<Rightarrow> bool \<Rightarrow> u32 \<Rightarrow> 'h \<Rightarrow>
     (Status + Status \<times> bool \<times> u32) \<times> 'h" where
  "run_ops hdl s [] e f h = (Inr (s, True, f), h)"
| "run_ops hdl s (op # ops) e f h =
     (case Continue hdl h of
        (False, h1) \<Rightarrow> (Inr (s, False, f), h1)
      | (True, h1) \<Rightarrow>
          (case op_turn hdl op e f h1 of
             (s2, e2, f2, h2) \<Rightarrow>
               if ok s2 then run_ops hdl s2 ops e2 f2 h2
               else if IsTryAgain s2 then
                 (case Continue hdl h2 of
                    (False, h3) \<Rightarrow> (Inr (s2, False, f2), h3)
                  | (True, h3) \<Rightarrow>
                      (case op_turn hdl op e2 f2 h3 of
                         (s4, e4, f4, h4) \<Rightarrow>
                           if ok s4 then run_ops hdl s4 ops e4 f4 h4
                           else if IsTryAgain s4 then
                             (case Continue hdl h4 of
                                (False, h5) \<Rightarrow> (Inr (s4, False, f4), h5)
                              | (True, h5) \<Rightarrow> (Inl two_TryAgain, h5))
                           else (Inr (s4, True, f4), h4)))
               else (Inr (s2, True, f2), h2)))"

lemma iterate_loop_end:
  "\<not> ok s \<Longrightarrow> \<not> IsTryAgain s \<Longrightarrow> iterate_loop hdl s input out e f l h = (Inr (s, True, f), h)"
  "ok s \<Longrightarrow> iterate_loop hdl s [] out e f l h = (Inr (s, True, f), h)"
  by (simp_all add: iterate_loop.simps)

lemma iterate_loop_read:
  assumes "op_ok op" "ok s"
  shows "iterate_loop hdl s (enc_op op @ rest) out e f l h =
    (case Continue hdl h of
       (False, h1) \<Rightarrow> (Inr (s, False, f), h1)
     | (True, h1) \<Rightarrow>
         (case op_turn hdl op e f h1 of
            (s2, e2, f2, h2) \<Rightarrow>
              iterate_loop hdl s2 rest (rec_of op (out\<lparr>tag := 0, column_family := 0\<rparr>)) e2 f2 False h2))"
  using assms
  by (subst iterate_loop.simps)
    (simp add: ReadRecord_enc_op dispatch_rec_of split: prod.split bool.split)

lemma iterate_loop_retry:
  assumes "IsTryAgain s"
  shows "iterate_loop hdl s input (rec_of op r) e f l h =
    (case Continue hdl h of
       (False, h1) \<Rightarrow> (Inr (s, False, f), h1)
     | (True, h1) \<Rightarrow>
         if l then (Inl two_TryAgain, h1)
         else
           (case op_turn hdl op e f h1 of
              (s2, e2, f2, h2) \<Rightarrow> iterate_loop hdl s2 input (rec_of op r) e2 f2 True h2))"
  using assms
  by (subst iterate_loop.simps)
    (simp add: dispatch_rec_of two_TryAgain_def split: prod.split bool.split)

lemma iterate_loop_ops:
  assumes "list_all op_ok ops" "ok s"
  shows "iterate_loop hdl s (enc_ops ops) out e f l h = run_ops hdl s ops e f h"
  using assms
proof (induction ops arbitrary: s out e f l h)
  case Nil
  then show ?case by (simp add: iterate_loop_end)
next
  case (Cons op ops)
  have IH: "ok s' \<Longrightarrow> iterate_loop hdl s' (enc_ops ops) out' e' f' l' h' = run_ops hdl s' ops e' f' h'"
    for s' out' e' f' l' h'
    using Cons by simp
  let ?r = "rec_of op (out\<lparr>tag := 0, column_family := 0\<rparr>)"
  obtain c h1 where c: "Continue hdl h = (c, h1)" by fastforce
  obtain s2 e2 f2 h2 where t: "op_turn hdl op e f h1 = (s2, e2, f2, h2)" by (metis prod_cases4)
  have step: "iterate_loop hdl s (enc_ops (op # ops)) out e f l h =
      (if c then iterate_loop hdl s2 (enc_ops ops) ?r e2 f2 False h2 else (Inr (s, False, f), h1))"
    using Cons.prems by (simp add: iterate_loop_read c t)
  consider "ok s2" | "\<not> ok s2" "\<not> IsTryAgain s2" | "\<not> ok s2" "IsTryAgain s2" by blast
  then show ?case
  proof cases
    case 3
    obtain c2 h3 where c2: "Continue hdl h2 = (c2, h3)" by fastforce
    obtain s4 e4 f4 h4 where t2: "op_turn hdl op e2 f2 h3 = (s4, e4, f4, h4)" by (metis prod_cases4)
    consider "ok s4" | "\<not> ok s4" "\<not> IsTryAgain s4" | "\<not> ok s4" "IsTryAgain s4" by blast
    then show ?thesis
      using 3 unfolding step
      by cases (auto simp: iterate_loop_retry iterate_loop_end IH c t c2 t2 split: prod.split bool.split)
  qed (unfold step, auto simp: iterate_loop_end IH c t split: bool.split)
qed

lemma length_batch_rep [simp]: "length (batch_rep seq ops) = 12 + length (enc_ops ops)"
  by (simp add: batch_rep_def)

lemma batch_rep_head:
  "drop 8 (batch_rep seq ops) = EncodeFixed32 (count_ops ops) @ enc_ops ops"
  "drop 12 (batch_rep seq ops) = enc_ops ops"
  by (simp_all add: batch_rep_def)

lemma holds_Count: "holds b seq ops \<Longrightarrow> wb_Count b = count_ops ops"
  by (simp add: holds_def wb_Count_def batch_rep_head)

lemma holds_Sequence: "holds b seq ops \<Longrightarrow> wb_Sequence b = seq"
  by (simp add: holds_def wb_Sequence_def batch_rep_def)

text \<open>The status that the iteration makes of the end of the loop.\<close>

definition finish_ops :: "u32 \<Rightarrow> (Status + Status \<times> bool \<times> u32) \<times> 'h \<Rightarrow> Status \<times> 'h" where
  "finish_ops n r =
     (case r of
        (Inl e, h) \<Rightarrow> (e, h)
      | (Inr (s, c, f), h) \<Rightarrow>
          (if \<not> ok s then (s, h)
           else if c \<and> f \<noteq> n then (Corruption (str ''WriteBatch has wrong count'') [], h)
           else (OK, h)))"

lemma Iterate_holds:
  assumes "holds b seq ops"
  shows "wb_Iterate b hdl h = finish_ops (count_ops ops) (run_ops hdl OK ops True 0 h)"
proof -
  have len: "length (rep b) = 12 + length (enc_ops ops)" and ops: "list_all op_ok ops"
    and d: "drop 12 (rep b) = enc_ops ops"
    using assms by (simp_all add: holds_def batch_rep_head)
  show ?thesis
    by (simp add: wb_Iterate_def wbi_Iterate_def kHeader_def len d finish_ops_def Let_def
        holds_Count [OF assms] iterate_loop_ops ops split: prod.split sum.split)
qed

section \<open>Handlers that take what they are given\<close>

text \<open>
  A handler that never stops and answers with an ok status the operations of a set \<open>dom\<close>. The
  run over such operations is a fold, and the count of the header is the number of updates
  it handles.
\<close>

locale accepting_handler =
  fixes hdl :: "'h handler" and dom :: "batch_op \<Rightarrow> bool"
  assumes goes_on: "Continue hdl h = (True, h)"
    and takes: "dom op \<Longrightarrow> ok (fst (op_turn hdl op e f h))"
begin

lemma counter: "dom op \<Longrightarrow> fst (snd (snd (op_turn hdl op e f h))) = (if counts op then f + 1 else f)"
proof (cases op)
  case (OpBegin kind)
  then show ?thesis by (cases kind) (simp_all add: op_turn.simps Let_def)
qed (use takes [of op e f h] in \<open>auto simp: op_turn.simps split: prod.splits if_splits\<close>)

text \<open>The state of the handler after the operations.\<close>

definition after :: "batch_op list \<Rightarrow> bool \<Rightarrow> u32 \<Rightarrow> 'h \<Rightarrow> 'h" where
  "after ops e f h = snd (run_ops hdl OK ops e f h)"

lemma run_ops_accepting:
  assumes "list_all dom ops" "ok s"
  shows "\<exists>s'. ok s' \<and> run_ops hdl s ops e f h = (Inr (s', True, f + count_ops ops), after ops e f h)"
  using assms
proof (induction ops arbitrary: s e f h)
  case Nil
  then show ?case by (auto simp: count_ops_def after_def)
next
  case (Cons op ops)
  obtain s2 e2 f2 h2 where t: "op_turn hdl op e f h = (s2, e2, f2, h2)" by (metis prod_cases4)
  have s2: "ok s2" and f2: "f2 = (if counts op then f + 1 else f)"
    using takes [of op e f h] counter [of op e f h] Cons.prems by (simp_all add: t)
  have "run_ops hdl s (op # ops) e f h = run_ops hdl s2 ops e2 f2 h2"
    "after (op # ops) e f h = snd (run_ops hdl s2 ops e2 f2 h2)"
    using s2 by (simp_all add: goes_on t after_def)
  moreover obtain s' where "ok s'"
    "run_ops hdl s2 ops e2 f2 h2 = (Inr (s', True, f2 + count_ops ops), after ops e2 f2 h2)"
    using Cons.IH [of s2 e2 f2 h2] Cons.prems s2 by auto
  ultimately show ?case using f2 by (auto simp: count_ops_def)
qed

lemma after_Nil: "after [] e f h = h"
  by (simp add: after_def)

lemma after_Cons:
  assumes "list_all dom (op # ops)" "op_turn hdl op e f h = (s2, e2, f2, h2)"
  shows "after (op # ops) e f h = after ops e2 f2 h2"
proof -
  have "ok s2" using takes [of op e f h] assms by simp
  then show ?thesis
    using run_ops_accepting [of ops s2 e2 f2 h2] assms by (auto simp: after_def goes_on)
qed

lemma Iterate_accepting:
  assumes "holds b seq ops" "list_all dom ops"
  shows "wb_Iterate b hdl h = (OK, after ops True 0 h)"
  using run_ops_accepting [OF assms(2) ok_OK, of True 0 h]
  by (auto simp: Iterate_holds [OF assms(1)] finish_ops_def)

end

text \<open>
  The content classifier is such a handler, but for the begin markers of the policies that
  write before the commit: it inherits the answers of the base class, for which they are not
  supported.
\<close>

definition not_prepared :: "batch_op \<Rightarrow> bool" where
  "not_prepared op \<longleftrightarrow> op \<noteq> OpBegin WritePrepared \<and> op \<noteq> OpBegin WriteUnprepared"

lemma classifier_turn:
  assumes "not_prepared op"
  shows "\<exists>e'. op_turn BatchContentClassifier op e f fl =
    (OK, e', (if counts op then f + 1 else f), fl OR op_flag op)"
proof (cases op)
  case (OpBegin kind)
  then show ?thesis
    using assms by (cases kind) (auto simp: op_turn.simps BatchContentClassifier_def
        base_handler_def begin_prepare_status_def not_prepared_def Let_def)
qed (auto simp: op_turn.simps BatchContentClassifier_def base_handler_def)

interpretation classifier: accepting_handler BatchContentClassifier not_prepared
proof
  show "Continue BatchContentClassifier h = (True, h)" for h
    by (simp add: BatchContentClassifier_def base_handler_def)
  show "not_prepared op \<Longrightarrow> ok (fst (op_turn BatchContentClassifier op e f h))" for op e f h
    using classifier_turn [of op e f h] by auto
qed

lemma classifier_after:
  "list_all not_prepared ops \<Longrightarrow> classifier.after ops e f fl = fold (\<lambda>op f. f OR op_flag op) ops fl"
proof (induction ops arbitrary: e f fl)
  case (Cons op ops)
  then have "not_prepared op" by simp
  from classifier_turn [OF this, of e f fl] obtain e' where "op_turn BatchContentClassifier op e f fl =
      (OK, e', (if counts op then f + 1 else f), fl OR op_flag op)" by blast
  from classifier.after_Cons [OF Cons.prems this] Cons show ?case by simp
qed (simp add: classifier.after_Nil)

lemma ComputeContentFlags_holds:
  assumes "holds b seq ops" "list_all not_prepared ops"
  shows "fst (ComputeContentFlags b) = flags_of ops"
  using assms classifier.Iterate_accepting [OF assms, of 0] classifier_after [OF assms(2), of True 0 0]
  by (auto simp: ComputeContentFlags_def Let_def flags_of_def holds_def)

text \<open>A handler of the specification, which keeps what it is called with.\<close>

definition recorder :: "batch_op list handler" where
  "recorder =
     \<lparr>PutCF = (\<lambda>cf k v h. (OK, h @ [OpPut cf k v])),
      DeleteCF = (\<lambda>cf k h. (OK, h @ [OpDelete cf k])),
      SingleDeleteCF = (\<lambda>cf k h. (OK, h @ [OpSingleDelete cf k])),
      DeleteRangeCF = (\<lambda>cf k v h. (OK, h @ [OpDeleteRange cf k v])),
      MergeCF = (\<lambda>cf k v h. (OK, h @ [OpMerge cf k v])),
      PutBlobIndexCF = (\<lambda>cf k v h. (OK, h @ [OpBlobIndex cf k v])),
      LogData = (\<lambda>b h. h @ [OpLogData b]),
      MarkBeginPrepare = (\<lambda>u h.
        (OK, h @ [OpBegin (if u then WriteUnprepared else WriteCommitted)])),
      MarkEndPrepare = (\<lambda>x h. (OK, h @ [OpEndPrepare x])),
      MarkNoop = (\<lambda>e h. (OK, h @ [OpNoop])),
      MarkRollback = (\<lambda>x h. (OK, h @ [OpRollback x])),
      MarkCommit = (\<lambda>x h. (OK, h @ [OpCommit x])),
      Continue = (\<lambda>h. (True, h)),
      WriteAfterCommit = (\<lambda>h. True),
      WriteBeforePrepare = (\<lambda>h. False)\<rparr>"

lemma recorder_turn:
  assumes "not_prepared op"
  shows "\<exists>e'. op_turn recorder op e f h = (OK, e', (if counts op then f + 1 else f), h @ [op])"
proof (cases op)
  case (OpBegin kind)
  then show ?thesis
    using assms by (cases kind) (auto simp: op_turn.simps recorder_def
        begin_prepare_status_def not_prepared_def Let_def)
qed (auto simp: op_turn.simps recorder_def)

interpretation recorder: accepting_handler recorder not_prepared
proof
  show "Continue recorder h = (True, h)" for h by (simp add: recorder_def)
  show "not_prepared op \<Longrightarrow> ok (fst (op_turn recorder op e f h))" for op e f h
    using recorder_turn [of op e f h] by auto
qed

lemma recorder_after: "list_all not_prepared ops \<Longrightarrow> recorder.after ops e f h = h @ ops"
proof (induction ops arbitrary: e f h)
  case (Cons op ops)
  then have "not_prepared op" by simp
  from recorder_turn [OF this, of e f h] obtain e' where "op_turn recorder op e f h =
      (OK, e', (if counts op then f + 1 else f), h @ [op])" by blast
  from recorder.after_Cons [OF Cons.prems this] Cons show ?case by simp
qed (simp add: recorder.after_Nil)

lemma Iterate_recorder:
  assumes "holds b seq ops" "list_all not_prepared ops"
  shows "wb_Iterate b recorder [] = (OK, ops)"
  using recorder.Iterate_accepting [OF assms, of "[]"] recorder_after [OF assms(2)] by simp

section \<open>The writers append operations\<close>

text \<open>
  What every writer comes down to: the count set to a new value and the code of an operation
  appended, or nothing at all when the limit is passed.
\<close>

definition write_op :: "WriteBatch \<Rightarrow> batch_op \<Rightarrow> Status \<times> WriteBatch" where
  "write_op b op =
     (if max_bytes b \<noteq> 0 \<and> length (rep b) + length (enc_op op) > max_bytes b then (MemoryLimit, b)
      else
        (OK, b\<lparr>rep := (if counts op then poke (rep b) 8 (EncodeFixed32 (wb_Count b + 1)) else rep b)
                        @ enc_op op,
               content_flags := content_flags b OR op_flag op\<rparr>))"

definition has_header :: "WriteBatch \<Rightarrow> bool" where
  "has_header b \<longleftrightarrow> kHeader \<le> length (rep b)"

lemma header_split:
  assumes "12 \<le> length r"
  obtains s n x where "r = EncodeFixed64 s @ EncodeFixed32 n @ x"
proof -
  have "length (take 8 r) = 8" "length (take 4 (drop 8 r)) = 4" using assms by simp_all
  then have "EncodeFixed64 (DecodeFixed64 (take 8 r)) = take 8 r"
    "EncodeFixed32 (DecodeFixed32 (take 4 (drop 8 r))) = take 4 (drop 8 r)"
    by (simp_all add: Encode_DecodeFixed)
  moreover have "r = take 8 r @ take 4 (drop 8 r) @ drop 12 r"
  proof -
    have "take 4 (drop 8 r) @ drop 12 r = drop 8 r"
      using append_take_drop_id [of 4 "drop 8 r"] by simp
    then show ?thesis by simp
  qed
  ultimately have "r = EncodeFixed64 (DecodeFixed64 (take 8 r)) @
      EncodeFixed32 (DecodeFixed32 (take 4 (drop 8 r))) @ drop 12 r"
    by simp
  then show ?thesis by (rule that)
qed

lemma poke_count [simp]:
  "poke (EncodeFixed64 s @ EncodeFixed32 n @ x) 8 (EncodeFixed32 m) =
     EncodeFixed64 s @ EncodeFixed32 m @ x"
  by (simp add: poke_def)

lemma Count_header [simp]:
  "rep b = EncodeFixed64 s @ EncodeFixed32 n @ x \<Longrightarrow> wb_Count b = n"
  by (simp add: wb_Count_def)

lemma WriteBatch_eqI:
  "rep a = rep b \<Longrightarrow> content_flags a = content_flags b \<Longrightarrow> max_bytes a = max_bytes b \<Longrightarrow>
   timestamp_size_of a = timestamp_size_of b \<Longrightarrow> save_points a = save_points b \<Longrightarrow>
   wal_term_point a = wal_term_point b \<Longrightarrow>
   is_latest_persistent_state a = is_latest_persistent_state b \<Longrightarrow> a = (b :: WriteBatch)"
  by (cases a; cases b) simp

text \<open>The guard object undoes everything: the string, the count and the flags.\<close>

lemma commit_restores:
  assumes "has_header b"
  shows "(wb_SetCount (b\<lparr>content_flags := fl, rep := resize (GetDataSize b)
             (poke (rep b) 8 (EncodeFixed32 m) @ x)\<rparr>) (wb_Count b))
           \<lparr>content_flags := content_flags b\<rparr> = b"
proof -
  obtain s n y where r: "rep b = EncodeFixed64 s @ EncodeFixed32 n @ y"
    using assms by (auto simp: has_header_def kHeader_def elim: header_split)
  have "wb_Count b = n" using r by simp
  moreover have "take (12 + length y) ((EncodeFixed64 s @ EncodeFixed32 m @ y) @ x) =
      EncodeFixed64 s @ EncodeFixed32 m @ y"
    by simp
  ultimately show ?thesis
    by (intro WriteBatch_eqI)
      (simp_all add: wb_SetCount_def GetDataSize_def resize_shrink r del: append_assoc take_append)
qed

lemma commit_writer:
  assumes h: "has_header b"
    and b': "b' = b\<lparr>rep := poke (rep b) 8 (EncodeFixed32 m) @ x, content_flags := fl\<rparr>"
  shows "commit (LocalSavePoint b) b' =
    (if max_bytes b \<noteq> 0 \<and> length (rep b) + length x > max_bytes b then (MemoryLimit, b) else (OK, b'))"
proof -
  have len: "length (poke (rep b) 8 (EncodeFixed32 m)) = length (rep b)"
    using h by (simp add: has_header_def kHeader_def)
  show ?thesis
    using commit_restores [OF h, where m = m and x = x and fl = fl] len
    by (simp add: commit_def LocalSavePoint_def b')
qed

lemma poke_same_count: "has_header b \<Longrightarrow> poke (rep b) 8 (EncodeFixed32 (wb_Count b)) = rep b"
  by (auto simp: has_header_def kHeader_def elim!: header_split)

lemma writer_steps:
  "push_tag t cft cf b = b\<lparr>rep := rep b @ enc_tag t cft cf\<rparr>"
  "push_slice s b = b\<lparr>rep := rep b @ enc_str s\<rparr>"
  "push_parts ps b = b\<lparr>rep := rep b @ enc_str (concat ps)\<rparr>"
  "add_flags fl b = b\<lparr>content_flags := content_flags b OR fl\<rparr>"
  "wb_SetCount b n = b\<lparr>rep := poke (rep b) 8 (EncodeFixed32 n)\<rparr>"
  by (simp_all add: push_tag_def push_slice_def push_parts_def add_flags_def wb_SetCount_def
      enc_tag_def enc_str_Put PutVarint32_def PutLengthPrefixedSliceParts_eq)

text \<open>The key as stored: a batch for timestamped keys pads it with zero bytes.\<close>

definition padded :: "WriteBatch \<Rightarrow> bytes \<Rightarrow> bytes" where
  "padded b key = key @ replicate (timestamp_size_of b) 0"

lemma commit_op:
  assumes "has_header b" and "counts op"
    and "b' = b\<lparr>rep := poke (rep b) 8 (EncodeFixed32 (wb_Count b + 1)) @ enc_op op,
                 content_flags := content_flags b OR op_flag op\<rparr>"
  shows "commit (LocalSavePoint b) b' = write_op b op"
  unfolding commit_writer [OF assms(1) assms(3)] write_op_def using assms(2,3) by simp

lemma enc_str_padded:
  "PutVarint32 r (of_nat (length key) + of_nat n) @ key @ replicate n 0 @ y =
     r @ enc_str (key @ replicate n 0) @ y"
  by (simp add: PutVarint32_def enc_str_def)

lemma fold_lengths: "fold (\<lambda>part t. t + length part) parts 0 = length (concat parts)"
  by (simp add: fold_length)

lemma wb_Put_write:
  assumes "has_header b" "length key \<le> kMaxUint32" "length v \<le> kMaxUint32"
  shows "wb_Put b cf key v = write_op b (OpPut cf (padded b key) v)"
  using assms
  by (auto simp: wb_Put_def Let_def writer_steps padded_def enc_str_padded intro!: commit_op)

lemma wb_Put_parts_write:
  assumes "has_header b" "length (concat key) < kMaxUint32" "length (concat v) < kMaxUint32"
  shows "wb_Put_parts b cf key v = write_op b (OpPut cf (padded b (concat key)) (concat v))"
  using assms
  by (auto simp: wb_Put_parts_def CheckSlicePartsLength_def fold_lengths Let_def writer_steps
      padded_def PutLengthPrefixedSlicePartsWithPadding_eq enc_str_Put intro!: commit_op)

lemma wb_Merge_write:
  assumes "has_header b" "length key \<le> kMaxUint32" "length v \<le> kMaxUint32"
  shows "wb_Merge b cf key v = write_op b (OpMerge cf key v)"
  using assms by (auto simp: wb_Merge_def Let_def writer_steps intro!: commit_op)

lemma wb_Merge_parts_write:
  assumes "has_header b" "length (concat key) < kMaxUint32" "length (concat v) < kMaxUint32"
  shows "wb_Merge_parts b cf key v = write_op b (OpMerge cf (concat key) (concat v))"
  using assms
  by (auto simp: wb_Merge_parts_def CheckSlicePartsLength_def fold_lengths Let_def writer_steps
      intro!: commit_op)

lemma wb_writers_write:
  assumes "has_header b"
  shows "wb_Delete b cf key = write_op b (OpDelete cf key)"
    and "wb_Delete_parts b cf kp = write_op b (OpDelete cf (concat kp))"
    and "wb_SingleDelete b cf key = write_op b (OpSingleDelete cf key)"
    and "wb_SingleDelete_parts b cf kp = write_op b (OpSingleDelete cf (concat kp))"
    and "wb_DeleteRange b cf key v = write_op b (OpDeleteRange cf key v)"
    and "wb_DeleteRange_parts b cf kp vp = write_op b (OpDeleteRange cf (concat kp) (concat vp))"
    and "wb_PutBlobIndex b cf key v = write_op b (OpBlobIndex cf key v)"
  using assms
  by (auto simp: wb_Delete_def wb_Delete_parts_def wb_SingleDelete_def wb_SingleDelete_parts_def
      wb_DeleteRange_def wb_DeleteRange_parts_def wb_PutBlobIndex_def Let_def writer_steps
      intro!: commit_op)

lemma wb_PutLogData_write:
  assumes "has_header b"
  shows "wb_PutLogData b x = write_op b (OpLogData x)"
  using commit_writer [OF assms refl, where m = "wb_Count b" and x = "kTypeLogData # enc_str x"
      and fl = "content_flags b"]
  by (auto simp: wb_PutLogData_def Let_def writer_steps write_op_def poke_same_count [OF assms])

section \<open>The invariant\<close>

lemma batch_rep_poke: "poke (batch_rep seq ops) 8 (EncodeFixed32 n) =
    EncodeFixed64 seq @ EncodeFixed32 n @ enc_ops ops"
  by (simp add: batch_rep_def)

lemma holds_header: "holds b seq ops \<Longrightarrow> has_header b"
  by (simp add: holds_def has_header_def kHeader_def)

lemma flags_of_append [simp]: "flags_of (ops @ [op]) = flags_of ops OR op_flag op"
  by (simp add: flags_of_def)

lemma count_ops_append [simp]: "count_ops (ops @ [op]) = count_ops ops + (if counts op then 1 else 0)"
  by (simp add: count_ops_def)

lemma op_flag_not_deferred [simp]: "op_flag op AND DEFERRED = 0"
  by (cases op) simp_all

lemma write_op_holds [valid]:
  assumes b: "holds b seq ops" and op: "op_ok op" and r: "write_op b op = (s, b')"
  shows "holds b' seq (if ok s then ops @ [op] else ops)"
proof (cases "ok s")
  case True
  then have b': "b' = b\<lparr>rep := (if counts op then poke (rep b) 8 (EncodeFixed32 (wb_Count b + 1))
        else rep b) @ enc_op op, content_flags := content_flags b OR op_flag op\<rparr>"
    using r by (auto simp: write_op_def split: if_splits)
  have "(content_flags b OR op_flag op) AND DEFERRED = content_flags b AND DEFERRED"
    unfolding bit.conj_disj_distrib2 op_flag_not_deferred by simp
  then show ?thesis
    using b op True holds_Count [OF b]
    by (auto simp: b' holds_def batch_rep_poke batch_rep_def)
qed (use b r in \<open>auto simp: write_op_def split: if_splits\<close>)

lemma holds_new: "holds (WriteBatch_new limit ts) 0 []"
  by (simp add: holds_def WriteBatch_new_def batch_rep_def kHeader_def resize_def count_ops_def
      flags_of_def EncodeFixed64_def EncodeFixed32_def numeral_eq_Suc)

lemma holds_of_rep: "list_all op_ok ops \<Longrightarrow> holds (WriteBatch_of_rep (batch_rep seq ops)) seq ops"
  by (simp add: holds_def WriteBatch_of_rep_def)

lemma holds_SetSequence: "holds b seq ops \<Longrightarrow> holds (wb_SetSequence b seq') seq' ops"
  by (simp add: holds_def wb_SetSequence_def batch_rep_def poke_def)

end
