(* ===== verification/BatchMachine.thy ===== *)
theory BatchMachine
  imports BatchSpec
begin

text \<open>
  The batch as a machine. Its abstract state is the sequence number, the list of operations
  and the stack of lists that save points remember; its commands are the member functions of
  the code. The simulation theorem says that each command of the code returns the status the
  abstract machine gives and leads from a batch that represents an abstract state to one that
  represents the next, so every run of the code is a run of the abstract machine.
\<close>

record abs_batch =
  a_seq :: SequenceNumber
  a_ops :: "batch_op list"
  a_stack :: "batch_op list list"

datatype batch_cmd =
    CPut u32 bytes bytes | CPutParts u32 "bytes list" "bytes list"
  | CDelete u32 bytes | CDeleteParts u32 "bytes list"
  | CSingleDelete u32 bytes | CSingleDeleteParts u32 "bytes list"
  | CDeleteRange u32 bytes bytes | CDeleteRangeParts u32 "bytes list" "bytes list"
  | CMerge u32 bytes bytes | CMergeParts u32 "bytes list" "bytes list"
  | CPutBlobIndex u32 bytes bytes | CPutLogData bytes
  | CInsertNoop | CMarkCommit bytes | CMarkRollback bytes | CMarkEndPrepare bytes bool bool
  | CSetSavePoint | CRollbackToSavePoint | CPopSavePoint | CClear | CSetSequence SequenceNumber

fun exec :: "batch_cmd \<Rightarrow> WriteBatch \<Rightarrow> Status \<times> WriteBatch" where
  "exec (CPut cf k v) b = wb_Put b cf k v"
| "exec (CPutParts cf k v) b = wb_Put_parts b cf k v"
| "exec (CDelete cf k) b = wb_Delete b cf k"
| "exec (CDeleteParts cf k) b = wb_Delete_parts b cf k"
| "exec (CSingleDelete cf k) b = wb_SingleDelete b cf k"
| "exec (CSingleDeleteParts cf k) b = wb_SingleDelete_parts b cf k"
| "exec (CDeleteRange cf k v) b = wb_DeleteRange b cf k v"
| "exec (CDeleteRangeParts cf k v) b = wb_DeleteRange_parts b cf k v"
| "exec (CMerge cf k v) b = wb_Merge b cf k v"
| "exec (CMergeParts cf k v) b = wb_Merge_parts b cf k v"
| "exec (CPutBlobIndex cf k v) b = wb_PutBlobIndex b cf k v"
| "exec (CPutLogData x) b = wb_PutLogData b x"
| "exec CInsertNoop b = wb_InsertNoop b"
| "exec (CMarkCommit x) b = wb_MarkCommit b x"
| "exec (CMarkRollback x) b = wb_MarkRollback b x"
| "exec (CMarkEndPrepare x wac up) b = wb_MarkEndPrepare b x wac up"
| "exec CSetSavePoint b = (OK, wb_SetSavePoint b)"
| "exec CRollbackToSavePoint b = wb_RollbackToSavePoint b"
| "exec CPopSavePoint b = wb_PopSavePoint b"
| "exec CClear b = (OK, wb_Clear b)"
| "exec (CSetSequence n) b = (OK, wb_SetSequence b n)"

section \<open>The abstract machine\<close>

text \<open>
  The operation a writing command stands for, with the timestamp padding of the batch; the
  commands that the size limit watches; and the lengths a command refuses.
\<close>

fun cmd_op :: "nat \<Rightarrow> batch_cmd \<Rightarrow> batch_op option" where
  "cmd_op ts (CPut cf k v) = Some (OpPut cf (k @ replicate ts 0) v)"
| "cmd_op ts (CPutParts cf k v) = Some (OpPut cf (concat k @ replicate ts 0) (concat v))"
| "cmd_op ts (CDelete cf k) = Some (OpDelete cf k)"
| "cmd_op ts (CDeleteParts cf k) = Some (OpDelete cf (concat k))"
| "cmd_op ts (CSingleDelete cf k) = Some (OpSingleDelete cf k)"
| "cmd_op ts (CSingleDeleteParts cf k) = Some (OpSingleDelete cf (concat k))"
| "cmd_op ts (CDeleteRange cf k v) = Some (OpDeleteRange cf k v)"
| "cmd_op ts (CDeleteRangeParts cf k v) = Some (OpDeleteRange cf (concat k) (concat v))"
| "cmd_op ts (CMerge cf k v) = Some (OpMerge cf k v)"
| "cmd_op ts (CMergeParts cf k v) = Some (OpMerge cf (concat k) (concat v))"
| "cmd_op ts (CPutBlobIndex cf k v) = Some (OpBlobIndex cf k v)"
| "cmd_op ts (CPutLogData x) = Some (OpLogData x)"
| "cmd_op ts CInsertNoop = Some OpNoop"
| "cmd_op ts (CMarkCommit x) = Some (OpCommit x)"
| "cmd_op ts (CMarkRollback x) = Some (OpRollback x)"
| "cmd_op ts _ = None"

fun limited :: "batch_cmd \<Rightarrow> bool" where
  "limited CInsertNoop = False"
| "limited (CMarkCommit x) = False"
| "limited (CMarkRollback x) = False"
| "limited _ = True"

definition check_lengths :: "nat \<Rightarrow> nat \<Rightarrow> nat \<Rightarrow> Status" where
  "check_lengths limit k v =
     (if k > limit then InvalidArgument (str ''key is too large'') []
      else if v > limit then InvalidArgument (str ''value is too large'') []
      else OK)"

fun length_status :: "batch_cmd \<Rightarrow> Status" where
  "length_status (CPut cf k v) = check_lengths kMaxUint32 (length k) (length v)"
| "length_status (CMerge cf k v) = check_lengths kMaxUint32 (length k) (length v)"
| "length_status (CPutParts cf k v) =
     check_lengths (kMaxUint32 - 1) (length (concat k)) (length (concat v))"
| "length_status (CMergeParts cf k v) =
     check_lengths (kMaxUint32 - 1) (length (concat k)) (length (concat v))"
| "length_status _ = OK"

definition begin_of :: "bool \<Rightarrow> bool \<Rightarrow> begin_kind" where
  "begin_of write_after_commit unprepared =
     (if write_after_commit then WriteCommitted else if unprepared then WriteUnprepared
      else WritePrepared)"

text \<open>\<open>lim\<close> is the size limit of the batch, 0 for none, and \<open>ts\<close> its timestamp size.\<close>

definition abs_status :: "nat \<Rightarrow> nat \<Rightarrow> batch_cmd \<Rightarrow> abs_batch \<Rightarrow> Status" where
  "abs_status lim ts c a =
     (case cmd_op ts c of
        Some op \<Rightarrow>
          (if \<not> ok (length_status c) then length_status c
           else if limited c \<and> lim \<noteq> 0 \<and> 12 + length (enc_ops (a_ops a @ [op])) > lim
           then MemoryLimit else OK)
      | None \<Rightarrow>
          (if (c = CRollbackToSavePoint \<or> c = CPopSavePoint) \<and> a_stack a = []
           then NotFound_sub kNone else OK))"

fun abs_effect :: "nat \<Rightarrow> batch_cmd \<Rightarrow> abs_batch \<Rightarrow> abs_batch" where
  "abs_effect ts (CMarkEndPrepare x wac up) a =
     a\<lparr>a_ops := OpBegin (begin_of wac up) # tl (a_ops a) @ [OpEndPrepare x], a_stack := []\<rparr>"
| "abs_effect ts CSetSavePoint a = a\<lparr>a_stack := a_ops a # a_stack a\<rparr>"
| "abs_effect ts CRollbackToSavePoint a = a\<lparr>a_ops := hd (a_stack a), a_stack := tl (a_stack a)\<rparr>"
| "abs_effect ts CPopSavePoint a = a\<lparr>a_stack := tl (a_stack a)\<rparr>"
| "abs_effect ts CClear a = \<lparr>a_seq = 0, a_ops = [], a_stack = []\<rparr>"
| "abs_effect ts (CSetSequence n) a = a\<lparr>a_seq := n\<rparr>"
| "abs_effect ts c a = (case cmd_op ts c of Some op \<Rightarrow> a\<lparr>a_ops := a_ops a @ [op]\<rparr> | None \<Rightarrow> a)"

definition abs_step :: "nat \<Rightarrow> nat \<Rightarrow> batch_cmd \<Rightarrow> abs_batch \<Rightarrow> Status \<times> abs_batch" where
  "abs_step lim ts c a =
     (let s = abs_status lim ts c a in (s, if ok s then abs_effect ts c a else a))"

text \<open>
  What the callers must see to: strings that a 32-bit length can describe, and a batch that
  starts with a no-op when a prepared section is closed, which the code asserts. A section
  closed as unprepared is not of the policy that writes after the commit.
\<close>

definition cmd_pre :: "nat \<Rightarrow> batch_cmd \<Rightarrow> abs_batch \<Rightarrow> bool" where
  "cmd_pre ts c a \<longleftrightarrow>
     (case cmd_op ts c of Some op \<Rightarrow> ok (length_status c) \<longrightarrow> op_ok op | None \<Rightarrow> True)
     \<and> (case c of
          CMarkEndPrepare x wac up \<Rightarrow>
            (\<exists>rest. a_ops a = OpNoop # rest) \<and> str_ok x \<and> \<not> (wac \<and> up)
        | _ \<Rightarrow> True)"

section \<open>The simulation\<close>

definition sp_rel :: "SavePoint \<Rightarrow> batch_op list \<Rightarrow> bool" where
  "sp_rel p ops \<longleftrightarrow> sp_size p = 12 + length (enc_ops ops) \<and> sp_count p = count_ops ops
     \<and> (sp_content_flags p AND DEFERRED \<noteq> 0 \<or> sp_content_flags p = flags_of ops)"

definition stack_rel :: "SavePoint list option \<Rightarrow> batch_op list list \<Rightarrow> bool" where
  "stack_rel st ops_stack \<longleftrightarrow>
     (case st of None \<Rightarrow> ops_stack = [] | Some l \<Rightarrow> list_all2 sp_rel l ops_stack)"

text \<open>The lists on the stack are prefixes of the present one, the older the shorter.\<close>

fun chain :: "batch_op list \<Rightarrow> batch_op list list \<Rightarrow> bool" where
  "chain ops [] \<longleftrightarrow> True"
| "chain ops (o1 # st) \<longleftrightarrow> prefix o1 ops \<and> chain o1 st"

definition represents :: "nat \<Rightarrow> nat \<Rightarrow> WriteBatch \<Rightarrow> abs_batch \<Rightarrow> bool" where
  "represents lim ts b a \<longleftrightarrow>
     max_bytes b = lim \<and> timestamp_size_of b = ts \<and> holds b (a_seq a) (a_ops a)
     \<and> stack_rel (save_points b) (a_stack a) \<and> chain (a_ops a) (a_stack a)"

lemma chain_prefix: "chain ops st \<Longrightarrow> prefix ops ops' \<Longrightarrow> chain ops' st"
  by (cases st) auto

lemma write_op_keeps:
  "write_op b op = (s, b') \<Longrightarrow> max_bytes b' = max_bytes b \<and> timestamp_size_of b' = timestamp_size_of b
     \<and> save_points b' = save_points b"
  by (auto simp: write_op_def split: if_splits)

lemma write_op_status:
  "holds b seq ops \<Longrightarrow> fst (write_op b op) =
     (if max_bytes b \<noteq> 0 \<and> 12 + length (enc_ops (ops @ [op])) > max_bytes b then MemoryLimit else OK)"
  by (auto simp: write_op_def holds_def)

lemma represents_write_op:
  assumes r: "represents lim ts b a" and op: "op_ok op"
  shows "\<exists>b'. write_op b op =
      ((if lim \<noteq> 0 \<and> 12 + length (enc_ops (a_ops a @ [op])) > lim then MemoryLimit else OK), b')
    \<and> represents lim ts b' (if lim \<noteq> 0 \<and> 12 + length (enc_ops (a_ops a @ [op])) > lim then a
        else a\<lparr>a_ops := a_ops a @ [op]\<rparr>)"
proof -
  obtain s b' where w: "write_op b op = (s, b')" by fastforce
  have h: "holds b (a_seq a) (a_ops a)" and lim: "max_bytes b = lim" using r by (simp_all add: represents_def)
  have s: "s = (if lim \<noteq> 0 \<and> 12 + length (enc_ops (a_ops a @ [op])) > lim then MemoryLimit else OK)"
    using write_op_status [OF h, of op] w lim by simp
  show ?thesis
    using r write_op_keeps [OF w] write_op_holds [OF h op w] w
    by (auto simp: s represents_def intro: chain_prefix)
qed

lemma pushed_holds:
  assumes h: "holds b seq ops" and op: "op_ok op" and c: "\<not> counts op"
  shows "holds (b\<lparr>rep := rep b @ enc_op op, content_flags := content_flags b OR op_flag op\<rparr>)
    seq (ops @ [op])"
proof -
  let ?b0 = "b\<lparr>max_bytes := 0\<rparr>"
  have "holds ?b0 seq ops" using h by (simp add: holds_def)
  moreover have "write_op ?b0 op =
      (OK, ?b0\<lparr>rep := rep b @ enc_op op, content_flags := content_flags b OR op_flag op\<rparr>)"
    using c by (simp add: write_op_def)
  ultimately show ?thesis using write_op_holds [OF _ op] by (fastforce simp: holds_def)
qed

lemma represents_pushed:
  assumes "represents lim ts b a" "op_ok op" "\<not> counts op"
  shows "represents lim ts
      (b\<lparr>rep := rep b @ enc_op op, content_flags := content_flags b OR op_flag op\<rparr>)
      (a\<lparr>a_ops := a_ops a @ [op]\<rparr>)"
  using assms pushed_holds by (auto simp: represents_def intro: chain_prefix)

lemma represents_header: "represents lim ts b a \<Longrightarrow> has_header b"
  by (auto simp: represents_def intro: holds_header)

lemma represents_rollback:
  assumes r: "represents lim ts b a" and st: "a_stack a = ops' # st'"
  shows "fst (wb_RollbackToSavePoint b) = OK
    \<and> represents lim ts (snd (wb_RollbackToSavePoint b)) (a\<lparr>a_ops := ops', a_stack := st'\<rparr>)"
proof -
  obtain p l where sp: "save_points b = Some (p # l)" and p: "sp_rel p ops'"
    and l: "list_all2 sp_rel l st'"
    using r st by (auto simp: represents_def stack_rel_def list_all2_Cons2 split: option.splits)
  obtain more where ops: "a_ops a = ops' @ more" and ch: "chain ops' st'"
    using r st by (auto simp: represents_def prefix_def)
  have h: "rep b = batch_rep (a_seq a) (ops' @ more)" "list_all op_ok ops'"
    using r ops by (auto simp: represents_def holds_def)
  show ?thesis
  proof (cases "more = []")
    case True
    with r sp p l ops ch st show ?thesis
      by (auto simp: wb_RollbackToSavePoint_def Let_def sp_rel_def represents_def holds_def
          stack_rel_def)
  next
    case False
    then have "0 < length (enc_ops more)" by simp
    moreover have "resize (sp_size p) (rep b) =
        EncodeFixed64 (a_seq a) @ EncodeFixed32 (count_ops (ops' @ more)) @ enc_ops ops'"
      using p by (simp add: sp_rel_def h resize_shrink batch_rep_def)
    ultimately show ?thesis
      using r sp p l ops ch h
      by (auto simp: wb_RollbackToSavePoint_def Let_def sp_rel_def represents_def holds_def
          stack_rel_def wb_SetCount_def batch_rep_def)
  qed
qed

lemma flags_fold_or:
  "fold (\<lambda>op f. f OR op_flag op) ops (g OR f) = g OR fold (\<lambda>op f. f OR op_flag op) ops f"
proof (induction ops arbitrary: f)
  case (Cons op ops)
  then show ?case by (simp only: fold_simps or.assoc)
qed simp

lemma flags_of_Cons: "flags_of (op # ops) = op_flag op OR flags_of ops"
proof -
  have "flags_of (op # ops) = fold (\<lambda>op f. f OR op_flag op) ops (op_flag op OR 0)"
    by (simp add: flags_of_def)
  then show ?thesis unfolding flags_fold_or by (simp add: flags_of_def)
qed

lemma represents_end_prepare:
  assumes r: "represents lim ts b a" and ops: "a_ops a = OpNoop # rest" and x: "str_ok x"
    and up: "\<not> (wac \<and> up)"
  shows "represents lim ts (snd (wb_MarkEndPrepare b x wac up))
    (a\<lparr>a_ops := OpBegin (begin_of wac up) # rest @ [OpEndPrepare x], a_stack := []\<rparr>)"
proof -
  have h: "rep b = batch_rep (a_seq a) (OpNoop # rest)" "list_all op_ok rest"
    and fl: "content_flags b AND DEFERRED \<noteq> 0 \<or> content_flags b = flags_of rest"
    using r ops by (auto simp: represents_def holds_def flags_of_def)
  have tag: "(if wac then kTypeBeginPrepareXID else if up then kTypeBeginUnprepareXID
      else kTypeBeginPersistedPrepareXID) = begin_tag (begin_of wac up)"
    by (simp add: begin_of_def)
  have rep: "(batch_rep (a_seq a) (OpNoop # rest))[12 := t] = EncodeFixed64 (a_seq a)
      @ EncodeFixed32 (count_ops rest) @ t # enc_ops rest" for t
    by (simp add: batch_rep_def count_ops_def list_update_append)
  let ?ops = "OpBegin (begin_of wac up) # rest @ [OpEndPrepare x]"
  define F where "F = op_flag (OpBegin (begin_of wac up)) OR op_flag (OpEndPrepare x)"
  have F: "F = (HAS_END_PREPARE OR HAS_BEGIN_PREPARE) OR (if up then HAS_BEGIN_UNPREPARE else 0)"
    using up by (cases wac; cases up) (simp_all add: F_def begin_of_def)
  have b': "snd (wb_MarkEndPrepare b x wac up) =
      b\<lparr>save_points := clear_stack (save_points b), rep := batch_rep (a_seq a) ?ops,
        content_flags := content_flags b OR F\<rparr>"
    by (simp add: wb_MarkEndPrepare_def Let_def writer_steps tag h(1) rep F or.assoc)
      (simp add: batch_rep_def count_ops_def)
  have "flags_of ?ops = flags_of rest OR F"
    using flags_of_append [of "OpBegin (begin_of wac up) # rest" "OpEndPrepare x"]
    by (simp add: flags_of_Cons F_def or.assoc or.left_commute)
  moreover have "F AND DEFERRED = 0" unfolding F_def bit.conj_disj_distrib2 op_flag_not_deferred by simp
  then have "(content_flags b OR F) AND DEFERRED = content_flags b AND DEFERRED"
    unfolding bit.conj_disj_distrib2 by simp
  ultimately have "holds (snd (wb_MarkEndPrepare b x wac up)) (a_seq a) ?ops"
    using fl h(2) x by (auto simp: b' holds_def)
  then show ?thesis
    using r by (auto simp: represents_def b' clear_stack_def stack_rel_def split: option.splits)
qed

text \<open>One command: the code and the abstract machine agree.\<close>

lemma check_lengths_OK: "ok (check_lengths n k v) \<longleftrightarrow> k \<le> n \<and> v \<le> n"
  by (simp add: check_lengths_def)

lemma exec_refused:
  assumes "cmd_op ts c = Some op" "\<not> ok (length_status c)"
  shows "exec c b = (length_status c, b)"
proof -
  have "(kMaxUint32 - 1 < n) = (kMaxUint32 \<le> n)" for n by (simp add: kMaxUint32_def less_eq_Suc_le)
  with assms show ?thesis
    by (cases c) (auto simp: wb_Put_def wb_Merge_def wb_Put_parts_def wb_Merge_parts_def
        CheckSlicePartsLength_def fold_lengths check_lengths_def Let_def split: if_splits)
qed

lemma exec_write_op:
  assumes h: "has_header b" and c: "cmd_op (timestamp_size_of b) c = Some op"
    and l: "limited c" and s: "ok (length_status c)"
  shows "exec c b = write_op b op"
proof -
  have lim: "n \<le> kMaxUint32 - Suc 0 \<longleftrightarrow> n < kMaxUint32" for n by (auto simp: kMaxUint32_def)
  show ?thesis
    using assms
    by (cases c) (auto simp: wb_writers_write wb_Put_write wb_Merge_write wb_Put_parts_write
        wb_Merge_parts_write wb_PutLogData_write padded_def check_lengths_OK lim)
qed

lemma exec_pushed:
  assumes "cmd_op ts c = Some op" "\<not> limited c"
  shows "exec c b = (OK, b\<lparr>rep := rep b @ enc_op op, content_flags := content_flags b OR op_flag op\<rparr>)
    \<and> \<not> counts op"
  using assms
  by (cases c) (auto simp: wb_InsertNoop_def wb_MarkCommit_def wb_MarkRollback_def writer_steps)

lemma represents_new: "represents lim ts (WriteBatch_new lim ts) \<lparr>a_seq = 0, a_ops = [], a_stack = []\<rparr>"
  using holds_new by (simp add: represents_def stack_rel_def) (simp add: WriteBatch_new_def)

lemma exec_simulates:
  assumes r: "represents lim ts b a" and pre: "cmd_pre ts c a"
  shows "\<exists>b'. exec c b = (abs_status lim ts c a, b') \<and> represents lim ts b' (snd (abs_step lim ts c a))"
proof (cases "cmd_op ts c")
  case (Some op)
  have effect: "abs_effect ts c a = a\<lparr>a_ops := a_ops a @ [op]\<rparr>"
    using Some by (cases c) simp_all
  have ts: "timestamp_size_of b = ts" using r by (simp add: represents_def)
  show ?thesis
  proof (cases "ok (length_status c)")
    case False
    with exec_refused [OF Some False, of b] Some r show ?thesis
      by (auto simp: abs_status_def abs_step_def)
  next
    case True
    with pre Some have op: "op_ok op" by (simp add: cmd_pre_def)
    show ?thesis
    proof (cases "limited c")
      case l: True
      have "exec c b = write_op b op"
        using exec_write_op represents_header [OF r] Some ts l True by blast
      with represents_write_op [OF r op] Some True l effect show ?thesis
        by (auto simp: abs_status_def abs_step_def)
    next
      case False
      with exec_pushed [OF Some False, of b] represents_pushed [OF r op] Some True effect
      show ?thesis by (auto simp: abs_status_def abs_step_def)
    qed
  qed
next
  case None
  have st: "a_stack a = [] \<longleftrightarrow> save_points b = None \<or> save_points b = Some []"
    using r by (auto simp: represents_def stack_rel_def split: option.splits)
  show ?thesis
  proof (cases c)
    case (CMarkEndPrepare x wac up)
    with pre obtain rest where "a_ops a = OpNoop # rest" "str_ok x" "\<not> (wac \<and> up)"
      by (auto simp: cmd_pre_def)
    with represents_end_prepare [OF r this] CMarkEndPrepare show ?thesis
      by (auto simp: abs_status_def abs_step_def wb_MarkEndPrepare_def Let_def)
  next
    case CSetSavePoint
    with r show ?thesis
      by (auto simp: abs_status_def abs_step_def wb_SetSavePoint_def represents_def holds_def
          stack_rel_def LocalSavePoint_def GetDataSize_def sp_rel_def Let_def
          holds_Count [unfolded holds_def] split: option.splits)
  next
    case CRollbackToSavePoint
    show ?thesis
    proof (cases "a_stack a")
      case Nil
      with st r CRollbackToSavePoint show ?thesis
        by (auto simp: abs_status_def abs_step_def wb_RollbackToSavePoint_def)
    next
      case (Cons ops' st')
      with represents_rollback [OF r Cons] CRollbackToSavePoint show ?thesis
        by (cases "wb_RollbackToSavePoint b") (auto simp: abs_status_def abs_step_def)
    qed
  next
    case CPopSavePoint
    with r st show ?thesis
      by (cases "a_stack a")
        (auto simp: abs_status_def abs_step_def wb_PopSavePoint_def represents_def holds_def
          stack_rel_def list_all2_Cons2 intro: chain_prefix split: option.splits)
  next
    case CClear
    have "rep (wb_Clear b) = batch_rep 0 []"
      using holds_new [of 0 0] by (simp add: wb_Clear_def holds_def WriteBatch_new_def)
    with r CClear show ?thesis
      by (auto simp: abs_status_def abs_step_def represents_def holds_def stack_rel_def
          clear_stack_def flags_of_def wb_Clear_def split: option.splits)
  next
    case (CSetSequence n)
    with r holds_SetSequence [of b "a_seq a" "a_ops a" n] show ?thesis
      by (auto simp: abs_status_def abs_step_def represents_def wb_SetSequence_def)
  qed (use None in simp_all)
qed

section \<open>Runs\<close>

fun exec_all :: "batch_cmd list \<Rightarrow> WriteBatch \<Rightarrow> Status list \<times> WriteBatch" where
  "exec_all [] b = ([], b)"
| "exec_all (c # cs) b =
     (case exec c b of (s, b1) \<Rightarrow> case exec_all cs b1 of (ss, b2) \<Rightarrow> (s # ss, b2))"

fun abs_all :: "nat \<Rightarrow> nat \<Rightarrow> batch_cmd list \<Rightarrow> abs_batch \<Rightarrow> Status list \<times> abs_batch" where
  "abs_all lim ts [] a = ([], a)"
| "abs_all lim ts (c # cs) a =
     (case abs_step lim ts c a of (s, a1) \<Rightarrow>
        case abs_all lim ts cs a1 of (ss, a2) \<Rightarrow> (s # ss, a2))"

fun cmds_pre :: "nat \<Rightarrow> nat \<Rightarrow> batch_cmd list \<Rightarrow> abs_batch \<Rightarrow> bool" where
  "cmds_pre lim ts [] a \<longleftrightarrow> True"
| "cmds_pre lim ts (c # cs) a \<longleftrightarrow> cmd_pre ts c a \<and> cmds_pre lim ts cs (snd (abs_step lim ts c a))"

lemma exec_all_simulates:
  assumes "represents lim ts b a" "cmds_pre lim ts cs a"
  shows "\<exists>b'. exec_all cs b = (fst (abs_all lim ts cs a), b')
    \<and> represents lim ts b' (snd (abs_all lim ts cs a))"
  using assms
proof (induction cs arbitrary: b a)
  case (Cons c cs)
  then obtain b1 where e: "exec c b = (abs_status lim ts c a, b1)"
    and r1: "represents lim ts b1 (snd (abs_step lim ts c a))"
    using exec_simulates by (metis cmds_pre.simps(2))
  from Cons.IH [OF r1] Cons.prems obtain b2 where
    "exec_all cs b1 = (fst (abs_all lim ts cs (snd (abs_step lim ts c a))), b2)"
    "represents lim ts b2 (snd (abs_all lim ts cs (snd (abs_step lim ts c a))))"
    by auto
  with e show ?case by (auto simp: abs_step_def Let_def split: prod.splits)
qed simp

section \<open>Appending one batch to another\<close>

lemma count_ops_append_list: "count_ops (ops @ ops') = count_ops ops + count_ops ops'"
  by (simp add: count_ops_def)

lemma flags_of_append_list: "flags_of (ops @ ops') = flags_of ops OR flags_of ops'"
  using flags_fold_or [of ops' "flags_of ops" 0] by (simp add: flags_of_def)

lemma flags_of_not_deferred: "flags_of ops AND DEFERRED = 0"
  by (induction ops) (simp add: flags_of_def, simp only: flags_of_Cons bit.conj_disj_distrib2
      op_flag_not_deferred, simp)

lemma append_flags:
  fixes f g a b :: u32
  assumes "f AND 1 \<noteq> 0 \<or> f = a" "g AND 1 \<noteq> 0 \<or> g = b"
  shows "(f OR g) AND 1 \<noteq> 0 \<or> f OR g = a OR b"
proof -
  have "(x :: u32) AND 1 \<noteq> 0 \<longleftrightarrow> bit x 0" for x
    by (simp add: and_one_eq bit_0 odd_iff_mod_2_eq_one)
  with assms show ?thesis by (auto simp: bit_or_iff)
qed

lemma Append_holds:
  assumes d: "holds dst seq ops" and s: "holds src seq' ops'"
    and w: "wal_only \<longrightarrow> is_cleared (wal_term_point src)"
  shows "holds (snd (wb_Append dst src wal_only)) seq (ops @ ops')"
proof -
  have rs: "length (rep src) - kHeader = length (enc_ops ops')" "drop kHeader (rep src) = enc_ops ops'"
    using s by (simp_all add: holds_def kHeader_def batch_rep_head)
  have "rep (snd (wb_Append dst src wal_only)) =
      poke (rep dst) 8 (EncodeFixed32 (wb_Count dst + wb_Count src)) @ enc_ops ops'"
    using w by (cases wal_only) (simp_all add: wb_Append_def writer_steps Let_def rs)
  also have "\<dots> = batch_rep seq (ops @ ops')"
    using d holds_Count [OF d] holds_Count [OF s]
    by (simp add: holds_def batch_rep_poke) (simp add: batch_rep_def count_ops_append_list)
  finally have "rep (snd (wb_Append dst src wal_only)) = batch_rep seq (ops @ ops')" .
  moreover have "content_flags (snd (wb_Append dst src wal_only)) = content_flags dst OR content_flags src"
    using w by (cases wal_only) (simp_all add: wb_Append_def writer_steps Let_def)
  ultimately show ?thesis
    using d s append_flags [of "content_flags dst" "flags_of ops" "content_flags src" "flags_of ops'"]
    by (simp add: holds_def flags_of_append_list)
qed

text \<open>With a termination point, only what was there when it was set is appended.\<close>

lemma Append_wal_holds:
  assumes d: "holds dst seq ops" and s: "holds src seq' (ops1 @ ops2)" and m: "holds b seq' ops1"
    and w: "wal_term_point src = wal_term_point (MarkWalTerminationPoint b)"
  shows "holds (snd (wb_Append dst src True)) seq (ops @ ops1)"
proof -
  have t: "wal_term_point src = \<lparr>sp_size = 12 + length (enc_ops ops1), sp_count = count_ops ops1,
      sp_content_flags = content_flags b\<rparr>"
    using m holds_Count [OF m] by (simp add: w MarkWalTerminationPoint_def GetDataSize_def holds_def)
  have "rep (snd (wb_Append dst src True)) =
      poke (rep dst) 8 (EncodeFixed32 (wb_Count dst + count_ops ops1)) @ enc_ops ops1"
    using s by (simp add: wb_Append_def writer_steps Let_def t is_cleared_def kHeader_def holds_def
        batch_rep_head)
  also have "\<dots> = batch_rep seq (ops @ ops1)"
    using d holds_Count [OF d]
    by (simp add: holds_def batch_rep_poke) (simp add: batch_rep_def count_ops_append_list)
  finally have "rep (snd (wb_Append dst src True)) = batch_rep seq (ops @ ops1)" .
  moreover have "content_flags (snd (wb_Append dst src True)) = content_flags dst OR content_flags b"
    by (simp add: wb_Append_def writer_steps Let_def t is_cleared_def)
  ultimately show ?thesis
    using d m append_flags [of "content_flags dst" "flags_of ops" "content_flags b" "flags_of ops1"]
    by (simp add: holds_def flags_of_append_list)
qed

section \<open>Properties\<close>

text \<open>
  C1: any sequence of batch commands, run by the code on a new batch, returns the statuses of
  the abstract machine and ends in a batch that represents the abstract state: its string is
  the header and the codes of the listed operations, its flags are theirs, and its save points
  remember the lists that the abstract stack holds.
\<close>

theorem batch_machine_refinement:
  assumes "cmds_pre lim ts cs \<lparr>a_seq = 0, a_ops = [], a_stack = []\<rparr>"
  shows "\<exists>b. exec_all cs (WriteBatch_new lim ts) =
        (fst (abs_all lim ts cs \<lparr>a_seq = 0, a_ops = [], a_stack = []\<rparr>), b)
    \<and> represents lim ts b (snd (abs_all lim ts cs \<lparr>a_seq = 0, a_ops = [], a_stack = []\<rparr>))"
  by (rule exec_all_simulates [OF represents_new assms])

lemma batch_machine_refinement_witness:
  "\<exists>b. exec_all [CPut 0 [1] [2], CSetSavePoint, CDelete 7 [1], CRollbackToSavePoint, CPopSavePoint]
        (WriteBatch_new 0 0) = ([OK, OK, OK, OK, NotFound_sub kNone], b)
     \<and> holds b 0 [OpPut 0 [1] [2]]"
proof -
  have "cmds_pre 0 0 [CPut 0 [1] [2], CSetSavePoint, CDelete 7 [1], CRollbackToSavePoint, CPopSavePoint]
      \<lparr>a_seq = 0, a_ops = [], a_stack = []\<rparr>"
    by (simp add: cmd_pre_def str_ok_def abs_step_def abs_status_def check_lengths_def kMaxUint32_def)
  from batch_machine_refinement [OF this] show ?thesis
    by (auto simp: abs_step_def abs_status_def check_lengths_def kMaxUint32_def represents_def)
qed

text \<open>What a batch is whose header counts \<open>n\<close>, whatever the number of its operations.\<close>

lemma counted_rep:
  assumes "rep b = EncodeFixed64 seq @ EncodeFixed32 n @ enc_ops ops"
  shows "length (rep b) = 12 + length (enc_ops ops)" "drop 12 (rep b) = enc_ops ops" "wb_Count b = n"
  using assms by (simp_all add: wb_Count_def)

text \<open>
  C3: iterating over a batch whose string is any sequence number, any count and the codes of a
  list of operations, with any handler, is the specified run over the list: each operation
  handed over in order, once more when the handler asks to try again, and the first other
  failure returned. When no operation failed and the handler did not stop the run, the updates
  handed over are compared with the count of the header, whatever that is, and the answer is
  corruption just when they differ.
\<close>

theorem batch_iterate_spec:
  assumes "rep b = EncodeFixed64 seq @ EncodeFixed32 n @ enc_ops ops" "list_all op_ok ops"
  shows "wb_Iterate b hdl h =
    (case run_ops hdl OK ops True 0 h of
       (Inl e, h') \<Rightarrow> (e, h')
     | (Inr (s, goes_on, found), h') \<Rightarrow>
         (if \<not> ok s then (s, h')
          else if goes_on \<and> found \<noteq> n then (Corruption (str ''WriteBatch has wrong count'') [], h')
          else (OK, h')))"
  using assms(2)
  by (simp add: wb_Iterate_def wbi_Iterate_def kHeader_def counted_rep [OF assms(1)] Let_def
      iterate_loop_ops split: prod.split sum.split)

lemma batch_iterate_spec_witness:
  "wb_Iterate (WriteBatch_of_rep
       (EncodeFixed64 5 @ EncodeFixed32 2 @ enc_ops [OpPut 3 [1] [2], OpLogData [7]])) recorder [] =
     (Corruption (str ''WriteBatch has wrong count'') [], [OpPut 3 [1] [2], OpLogData [7]])
   \<and> wb_Iterate (WriteBatch_of_rep
       (EncodeFixed64 5 @ EncodeFixed32 1 @ enc_ops [OpPut 3 [1] [2], OpLogData [7]])) recorder [] =
     (OK, [OpPut 3 [1] [2], OpLogData [7]])"
proof -
  have rep: "rep (WriteBatch_of_rep (EncodeFixed64 5 @ EncodeFixed32 n @ enc_ops ops)) =
      EncodeFixed64 5 @ EncodeFixed32 n @ enc_ops ops" for n ops
    by (simp add: WriteBatch_of_rep_def)
  have "list_all op_ok [OpPut 3 [1] [2], OpLogData [7]]" by (simp add: str_ok_def)
  from batch_iterate_spec [OF rep this, of 2 recorder "[]"]
    batch_iterate_spec [OF rep this, of 1 recorder "[]"]
  show ?thesis by (simp add: recorder_def op_turn.simps)
qed

text \<open>
  C4: a batch that holds a list of operations without the begin markers of the policies that
  write before the commit comes back from its serialized string: a batch made of the string
  iterates over the same operations in the same order, whatever the batch limits and flags
  were. At such a marker the iteration would stop, as the answer of the handlers that do not
  know it says.
\<close>

theorem batch_roundtrip:
  assumes "holds b seq ops" "list_all not_prepared ops"
  shows "wb_Iterate (WriteBatch_of_rep (rep b)) recorder [] = (OK, ops)
    \<and> wb_Sequence (WriteBatch_of_rep (rep b)) = seq"
proof -
  have "holds (WriteBatch_of_rep (rep b)) seq ops"
    using assms(1) holds_of_rep [of ops seq] by (simp add: holds_def)
  with Iterate_recorder [OF this assms(2)] holds_Sequence show ?thesis by blast
qed

lemma batch_roundtrip_witness:
  "wb_Iterate (WriteBatch_of_rep (rep (snd (wb_Delete (WriteBatch_new 0 0) 0 [9])))) recorder [] =
     (OK, [OpDelete 0 [9]])"
proof -
  obtain s b where w: "write_op (WriteBatch_new 0 0) (OpDelete 0 [9]) = (s, b)" by fastforce
  then have "s = OK" by (simp add: write_op_def WriteBatch_new_def)
  moreover have "holds b 0 (if ok s then [] @ [OpDelete 0 [9]] else [])"
    by (rule write_op_holds [OF holds_new _ w]) (simp add: str_ok_def)
  moreover have "snd (wb_Delete (WriteBatch_new 0 0) 0 [9]) = b"
    using wb_writers_write(1) [OF holds_header [OF holds_new]] w by simp
  ultimately have "holds (snd (wb_Delete (WriteBatch_new 0 0) 0 [9])) 0 [OpDelete 0 [9]]" by simp
  from batch_roundtrip [OF this] show ?thesis by (simp add: not_prepared_def)
qed

lemma flags_of_bit: "bit (flags_of ops) n \<longleftrightarrow> (\<exists>op \<in> set ops. bit (op_flag op) n)"
  by (induction ops) (simp add: flags_of_def, simp only: flags_of_Cons bit_or_iff, simp)

lemma and_single_bit: "(f :: u32) AND push_bit n 1 \<noteq> 0 \<longleftrightarrow> bit f n \<and> n < 32"
proof
  assume "f AND push_bit n 1 \<noteq> 0"
  then obtain i where "bit (f AND push_bit n 1) i" by (metis bit_eq_iff bit_0_eq bot_apply bot_bool_def)
  then show "bit f n \<and> n < 32"
    by (auto simp: bit_simps dest: bit_imp_le_length)
next
  assume "bit f n \<and> n < 32"
  then have "bit (f AND push_bit n 1) n" by (simp add: bit_simps)
  then show "f AND push_bit n 1 \<noteq> 0" by (metis bit_0_eq bot_apply bot_bool_def)
qed

lemma and_flag: "(f :: u32) AND HAS_PUT \<noteq> 0 \<longleftrightarrow> bit f 1" "f AND HAS_DELETE \<noteq> 0 \<longleftrightarrow> bit f 2"
  "f AND HAS_SINGLE_DELETE \<noteq> 0 \<longleftrightarrow> bit f 3" "f AND HAS_MERGE \<noteq> 0 \<longleftrightarrow> bit f 4"
  "f AND HAS_DELETE_RANGE \<noteq> 0 \<longleftrightarrow> bit f 9"
  using and_single_bit [of f 1] and_single_bit [of f 2] and_single_bit [of f 3]
    and_single_bit [of f 4] and_single_bit [of f 9] by simp_all

lemma op_flag_bits:
  "bit (op_flag op) 1 \<longleftrightarrow> (\<exists>cf k v. op = OpPut cf k v)"
  "bit (op_flag op) 2 \<longleftrightarrow> (\<exists>cf k. op = OpDelete cf k)"
  "bit (op_flag op) 3 \<longleftrightarrow> (\<exists>cf k. op = OpSingleDelete cf k)"
  "bit (op_flag op) 4 \<longleftrightarrow> (\<exists>cf k v. op = OpMerge cf k v)"
  "bit (op_flag op) 9 \<longleftrightarrow> (\<exists>cf k v. op = OpDeleteRange cf k v)"
  by (cases op; simp add: bit_numeral_rec)+

text \<open>
  C5: the flags are exact: of a batch that holds operations without the begin markers of the
  policies that write before the commit (\<open>not_prepared\<close>),
  \<^verbatim>\<open>HasPut\<close> and its siblings say just whether an operation of their kind is among them, and
  computing them lazily from the string gives the same answer as keeping them.
\<close>

theorem content_flags_exact:
  assumes "holds b seq ops" "list_all not_prepared ops"
  shows "(HasPut b \<longleftrightarrow> (\<exists>cf k v. OpPut cf k v \<in> set ops))
    \<and> (HasDelete b \<longleftrightarrow> (\<exists>cf k. OpDelete cf k \<in> set ops))
    \<and> (HasSingleDelete b \<longleftrightarrow> (\<exists>cf k. OpSingleDelete cf k \<in> set ops))
    \<and> (HasDeleteRange b \<longleftrightarrow> (\<exists>cf k v. OpDeleteRange cf k v \<in> set ops))
    \<and> (HasMerge b \<longleftrightarrow> (\<exists>cf k v. OpMerge cf k v \<in> set ops))"
  unfolding HasPut_def HasDelete_def HasSingleDelete_def HasDeleteRange_def HasMerge_def
    and_flag ComputeContentFlags_holds [OF assms] flags_of_bit op_flag_bits
  by blast

lemma content_flags_exact_witness:
  "HasDelete (WriteBatch_of_rep (batch_rep 5 [OpDelete 0 [9], OpLogData [1]]))
   \<and> \<not> HasPut (WriteBatch_of_rep (batch_rep 5 [OpDelete 0 [9], OpLogData [1]]))"
  using content_flags_exact [OF holds_of_rep, of "[OpDelete 0 [9], OpLogData [1]]" 5]
  by (simp add: str_ok_def not_prepared_def)

text \<open>
  C6: the lazy computation goes wrong on a batch whose section was prepared by a policy that
  writes before the commit: the classifier inherits the answer that such markers are not
  supported, so the iteration stops there. Whatever updates follow the marker, the flags
  computed are the one of the marker alone, and every question for a kind of update is
  answered no.
\<close>

theorem deferred_flags_of_prepared_batch:
  assumes "b = WriteBatch_of_rep (batch_rep seq (OpBegin WritePrepared # ops))" "list_all op_ok ops"
  shows "fst (ComputeContentFlags b) = HAS_BEGIN_PREPARE \<and> \<not> HasPut b \<and> \<not> HasDelete b
    \<and> \<not> HasSingleDelete b \<and> \<not> HasDeleteRange b \<and> \<not> HasMerge b"
proof -
  have h: "holds b seq (OpBegin WritePrepared # ops)"
    unfolding assms(1) by (rule holds_of_rep) (simp add: assms(2))
  have "snd (wb_Iterate b BatchContentClassifier 0) = HAS_BEGIN_PREPARE"
    by (simp add: Iterate_holds [OF h] BatchContentClassifier_def base_handler_def op_turn.simps
        begin_persisted_status_def finish_ops_def)
  moreover have "content_flags b AND DEFERRED \<noteq> 0" by (simp add: assms(1) WriteBatch_of_rep_def)
  ultimately have "fst (ComputeContentFlags b) = HAS_BEGIN_PREPARE"
    by (simp add: ComputeContentFlags_def)
  then show ?thesis
    by (simp add: HasPut_def HasDelete_def HasSingleDelete_def HasDeleteRange_def HasMerge_def)
qed

lemma deferred_flags_of_prepared_batch_witness:
  "\<not> HasPut (WriteBatch_of_rep (batch_rep 0
       [OpBegin WritePrepared, OpPut 0 [1] [2], OpDelete 0 [4], OpEndPrepare [3]]))
   \<and> \<not> HasDelete (WriteBatch_of_rep (batch_rep 0
       [OpBegin WritePrepared, OpPut 0 [1] [2], OpDelete 0 [4], OpEndPrepare [3]]))"
  using deferred_flags_of_prepared_batch [OF refl, of "[OpPut 0 [1] [2], OpDelete 0 [4], OpEndPrepare [3]]" 0]
  by (simp add: str_ok_def)

text \<open>
  Appending a batch to another appends its operations: the result holds the operations of
  the destination and then those of the source, with the sequence number, count and flags of
  the joined list.
\<close>

theorem batch_append:
  assumes "holds dst seq ops" "holds src seq' ops'" "is_cleared (wal_term_point src) \<or> \<not> wal_only"
  shows "fst (wb_Append dst src wal_only) = OK
    \<and> holds (snd (wb_Append dst src wal_only)) seq (ops @ ops')"
  using Append_holds [OF assms(1,2), of wal_only] assms(3)
  by (auto simp: wb_Append_def Let_def)

lemma batch_append_witness:
  "holds (snd (wb_Append (WriteBatch_of_rep (batch_rep 1 [OpDelete 0 [9]]))
                         (WriteBatch_of_rep (batch_rep 2 [OpPut 4 [] [7]])) True))
     1 [OpDelete 0 [9], OpPut 4 [] [7]]"
  using batch_append [OF holds_of_rep [of "[OpDelete 0 [9]]" 1] holds_of_rep [of "[OpPut 4 [] [7]]" 2], of True]
  by (simp add: str_ok_def WriteBatch_of_rep_def is_cleared_def SavePoint_clear_def)

end
