(* ===== verification/BindingBatch.thy ===== *)
theory BindingBatch
  imports BindingDb BatchMachine
begin

text \<open>
  The methods of the addon on write batches, and the promise behind the asynchronous write
  (src/binding.cc).

  Node runs the two halves of a promise: \<^verbatim>\<open>Begin\<close> on a worker thread, then \<^verbatim>\<open>Finish\<close> on the
  main thread. \<^verbatim>\<open>Begin\<close> is cut in two, before and after the write, because the main thread
  may act while it runs.
\<close>

section \<open>Batches\<close>

definition rocksdb_batch_finalize :: "ptr \<Rightarrow> ptr \<Rightarrow> ('e, 'v, 'd, 'o) act" where
  "rocksdb_batch_finalize data hint w =
     (if data \<noteq> nullptr
      then use_object (batches w data)
             (\<lambda>_ w. NAPI_RETURN_UNDEFINED (w\<lparr>batches := (batches w)(data := None)\<rparr>)) w
      else NAPI_RETURN_UNDEFINED w)"

definition rocksdb_batch_init :: "('e, 'v) napi \<Rightarrow> 'v list \<Rightarrow> ('e, 'v, 'd, 'o) act" where
  "rocksdb_batch_init N info =
     new_object (\<lambda>p w. w\<lparr>batches := (batches w)(p \<mapsto> WriteBatch_new 0 0)\<rparr>) (\<lambda>batch.
     NAPI_CREATE N (napi_create_external N batch batch_finalizer nullptr) RETURN)"

text \<open>Whether the conversion lost bits is not looked at; the reserved size has no effect.\<close>

definition rocksdb_batch_init_ex :: "('e, 'v) napi \<Rightarrow> 'v list \<Rightarrow> ('e, 'v, 'd, 'o) act" where
  "rocksdb_batch_init_ex N info =
     NAPI_ARGV N info 2 (\<lambda>argv.
     NAPI_READ N (\<lambda>e. napi_get_value_bigint_uint64 N e (argv ! 0)) (\<lambda>(reserved_bytes, loossless).
     NAPI_READ N (\<lambda>e. napi_get_value_bigint_uint64 N e (argv ! 1)) (\<lambda>(limit, loossless).
     new_object (\<lambda>p w. w\<lparr>batches := (batches w)(p \<mapsto> WriteBatch_new (unat limit) 0)\<rparr>) (\<lambda>batch.
     NAPI_CREATE N (napi_create_external N batch batch_finalizer nullptr) RETURN))))"

text \<open>An operation of a batch of the heap.\<close>

definition batch_call ::
  "ptr \<Rightarrow> (WriteBatch \<Rightarrow> Status \<times> WriteBatch) \<Rightarrow> (Status \<Rightarrow> ('e, 'v, 'd, 'o) act)
     \<Rightarrow> ('e, 'v, 'd, 'o) act" where
  "batch_call batch oper K w =
     use_object (batches w batch) (\<lambda>b w.
       case oper b of (s, b') \<Rightarrow> K s (w\<lparr>batches := (batches w)(batch \<mapsto> b')\<rparr>)) w"

definition rocksdb_batch_put :: "('e, 'v) napi \<Rightarrow> 'v list \<Rightarrow> ('e, 'v, 'd, 'o) act" where
  "rocksdb_batch_put N info =
     NAPI_ARGV N info 3 (\<lambda>argv.
     FROM_EXTERNAL_ARGUMENT N argv 0 (\<lambda>batch.
     SLICE_FROM_BUFFER_ARGUMENT N argv 1 (\<lambda>key.
     SLICE_FROM_BUFFER_ARGUMENT N argv 2 (\<lambda>val.
     with_slice N key (\<lambda>k. with_slice N val (\<lambda>v.
     batch_call batch (\<lambda>b. wb_Put b 0 k v) (\<lambda>put_status.
     ROCKSDB_STATUS_THROWS N put_status NAPI_RETURN_UNDEFINED)))))))"

definition batch_put_string ::
  "encoding \<Rightarrow> ('e, 'v) napi \<Rightarrow> 'v list \<Rightarrow> ('e, 'v, 'd, 'o) act" where
  "batch_put_string enc N info =
     NAPI_ARGV N info 3 (\<lambda>argv.
     FROM_EXTERNAL_ARGUMENT N argv 0 (\<lambda>batch.
     SLICE_FROM_STRING_ARGUMENT N enc argv 1 (\<lambda>key.
     SLICE_FROM_STRING_ARGUMENT N enc argv 2 (\<lambda>val.
     with_slice N key (\<lambda>k. with_slice N val (\<lambda>v.
     batch_call batch (\<lambda>b. wb_Put b 0 k v) (\<lambda>put_status.
     SLICE_FROM_STRING_ARGUMENT_RELEASE key (
     SLICE_FROM_STRING_ARGUMENT_RELEASE val (
     ROCKSDB_STATUS_THROWS N put_status NAPI_RETURN_UNDEFINED)))))))))"

definition rocksdb_batch_put_utf8 :: "('e, 'v) napi \<Rightarrow> 'v list \<Rightarrow> ('e, 'v, 'd, 'o) act" where
  "rocksdb_batch_put_utf8 = batch_put_string utf8"

definition rocksdb_batch_put_latin1 :: "('e, 'v) napi \<Rightarrow> 'v list \<Rightarrow> ('e, 'v, 'd, 'o) act" where
  "rocksdb_batch_put_latin1 = batch_put_string latin1"

definition rocksdb_batch_delete :: "('e, 'v) napi \<Rightarrow> 'v list \<Rightarrow> ('e, 'v, 'd, 'o) act" where
  "rocksdb_batch_delete N info =
     NAPI_ARGV N info 2 (\<lambda>argv.
     FROM_EXTERNAL_ARGUMENT N argv 0 (\<lambda>batch.
     SLICE_FROM_BUFFER_ARGUMENT N argv 1 (\<lambda>key.
     with_slice N key (\<lambda>k.
     batch_call batch (\<lambda>b. wb_Delete b 0 k) (\<lambda>delete_status.
     ROCKSDB_STATUS_THROWS N delete_status NAPI_RETURN_UNDEFINED)))))"

definition rocksdb_batch_delete_utf8 :: "('e, 'v) napi \<Rightarrow> 'v list \<Rightarrow> ('e, 'v, 'd, 'o) act" where
  "rocksdb_batch_delete_utf8 N info =
     NAPI_ARGV N info 2 (\<lambda>argv.
     FROM_EXTERNAL_ARGUMENT N argv 0 (\<lambda>batch.
     SLICE_FROM_STRING_ARGUMENT N utf8 argv 1 (\<lambda>key.
     with_slice N key (\<lambda>k.
     batch_call batch (\<lambda>b. wb_Delete b 0 k) (\<lambda>delete_status.
     SLICE_FROM_STRING_ARGUMENT_RELEASE key (
     ROCKSDB_STATUS_THROWS N delete_status NAPI_RETURN_UNDEFINED))))))"

text \<open>Here the exception is thrown before the array is deleted.\<close>

definition rocksdb_batch_delete_latin1 :: "('e, 'v) napi \<Rightarrow> 'v list \<Rightarrow> ('e, 'v, 'd, 'o) act" where
  "rocksdb_batch_delete_latin1 N info =
     NAPI_ARGV N info 2 (\<lambda>argv.
     FROM_EXTERNAL_ARGUMENT N argv 0 (\<lambda>batch.
     SLICE_FROM_STRING_ARGUMENT N latin1 argv 1 (\<lambda>key.
     with_slice N key (\<lambda>k.
     batch_call batch (\<lambda>b. wb_Delete b 0 k) (\<lambda>delete_status.
     ROCKSDB_STATUS_THROWS N delete_status (
     SLICE_FROM_STRING_ARGUMENT_RELEASE key NAPI_RETURN_UNDEFINED))))))"

definition rocksdb_batch_clear :: "('e, 'v) napi \<Rightarrow> 'v list \<Rightarrow> ('e, 'v, 'd, 'o) act" where
  "rocksdb_batch_clear N info =
     NAPI_ARGV N info 1 (\<lambda>argv.
     FROM_EXTERNAL_ARGUMENT N argv 0 (\<lambda>batch.
     batch_call batch (\<lambda>b. (OK, wb_Clear b)) (\<lambda>_. NAPI_RETURN_UNDEFINED)))"

text \<open>Writing a batch stores the batch back: the engine sets its sequence number.\<close>

definition write_call ::
  "('d, 'o) engine \<Rightarrow> ptr \<Rightarrow> ptr \<Rightarrow> ptr \<Rightarrow> (Status \<Rightarrow> ('e, 'v, 'd, 'o) act)
     \<Rightarrow> ('e, 'v, 'd, 'o) act" where
  "write_call E db batch options K w =
     use_object (write_options w options) (\<lambda>opt w.
     use_object (batches w batch) (\<lambda>b w.
       case DB_Write E db opt b (engine_state w) of
         (s, b', d) \<Rightarrow>
           K s (w\<lparr>engine_state := d, batches := (batches w)(batch \<mapsto> b')\<rparr>)) w) w"

definition rocksdb_batch_write ::
  "('e, 'v) napi \<Rightarrow> ('d, 'o) engine \<Rightarrow> 'v list \<Rightarrow> ('e, 'v, 'd, 'o) act" where
  "rocksdb_batch_write N E info =
     NAPI_ARGV N info 3 (\<lambda>argv.
     FROM_EXTERNAL_ARGUMENT N argv 0 (\<lambda>db.
     FROM_EXTERNAL_ARGUMENT N argv 1 (\<lambda>batch.
     FROM_EXTERNAL_ARGUMENT N argv 2 (\<lambda>options.
     write_call E db batch options (\<lambda>s. ROCKSDB_STATUS_THROWS N s NAPI_RETURN_UNDEFINED)))))"

section \<open>The promise of an asynchronous write\<close>

text \<open>
  The constructor stops where a call fails, with an exception pending and the members after it
  not set; the object exists all the same.
\<close>

definition Promise_ctor :: "('e, 'v) napi \<Rightarrow> bytes \<Rightarrow> ptr \<Rightarrow> 'e \<Rightarrow> 'v promise \<times> 'e" where
  "Promise_ctor N name self e =
     (let p = \<lparr>success = False, executing = False, promise = None, deferred = None,
               async_work = None, promise_status = Status_default, promise_db = nullptr,
               promise_batch = nullptr, promise_options = nullptr\<rparr>
      in case napi_create_promise N e of
           (status, def, v, e) \<Rightarrow>
             if status \<noteq> napi_ok then (p, napi_macros_throw N e)
             else
               (let p = p\<lparr>promise := Some v, deferred := Some def\<rparr>
                in case napi_create_string N utf8 name e of
                     (status, id_napi_value, e) \<Rightarrow>
                       if status \<noteq> napi_ok then (p, napi_macros_throw N e)
                       else
                         (case napi_create_async_work N self id_napi_value e of
                            (status, work, e) \<Rightarrow>
                              if status \<noteq> napi_ok then (p, napi_macros_throw N e)
                              else (p\<lparr>async_work := Some work\<rparr>, e))))"

definition BatchWritePromise_ctor ::
  "('e, 'v) napi \<Rightarrow> ptr \<Rightarrow> ptr \<Rightarrow> ptr \<Rightarrow> ptr \<Rightarrow> 'e \<Rightarrow> 'v promise \<times> 'e" where
  "BatchWritePromise_ctor N db batch options self e =
     (case Promise_ctor N (str ''BatchWritePromise'') self e of
        (p, e) \<Rightarrow> (p\<lparr>promise_db := db, promise_batch := batch, promise_options := options\<rparr>, e))"

definition with_promise ::
  "ptr \<Rightarrow> ('v promise \<Rightarrow> ('e, 'v, 'd, 'o) act) \<Rightarrow> ('e, 'v, 'd, 'o) act" where
  "with_promise self K w = use_object (promises w self) K w"

definition set_promise ::
  "ptr \<Rightarrow> 'v promise \<Rightarrow> ('e, 'v, 'd, 'o) world \<Rightarrow> ('e, 'v, 'd, 'o) world" where
  "set_promise self p w = w\<lparr>promises := (promises w)(self \<mapsto> p)\<rparr>"

definition Promise_start ::
  "('e, 'v) napi \<Rightarrow> ptr \<Rightarrow> ('e, 'v, 'd, 'o) act \<Rightarrow> ('e, 'v, 'd, 'o) act" where
  "Promise_start N self K =
     with_promise self (\<lambda>p w.
     use_object (async_work p) (\<lambda>work w.
       case napi_queue_async_work N work (env w) of
         (status, e) \<Rightarrow>
           K (w\<lparr>env := (if status \<noteq> napi_ok then napi_macros_throw N e else e)\<rparr>)) w)"

text \<open>\<^verbatim>\<open>execute\<close>: the write, whose status the promise keeps.\<close>

definition BatchWritePromise_execute ::
  "('d, 'o) engine \<Rightarrow> ptr \<Rightarrow> (bool \<Rightarrow> ('e, 'v, 'd, 'o) act) \<Rightarrow> ('e, 'v, 'd, 'o) act" where
  "BatchWritePromise_execute E self K =
     with_promise self (\<lambda>p.
     write_call E (promise_db p) (promise_batch p) (promise_options p) (\<lambda>s.
     with_promise self (\<lambda>p w. K (ok s) (set_promise self (p\<lparr>promise_status := s\<rparr>) w))))"

definition Begin_enter ::
  "ptr \<Rightarrow> ('e, 'v, 'd, 'o) act \<Rightarrow> ('e, 'v, 'd, 'o) act" where
  "Begin_enter self K = with_promise self (\<lambda>p w. K (set_promise self (p\<lparr>executing := True\<rparr>) w))"

definition Begin_leave ::
  "('d, 'o) engine \<Rightarrow> ptr \<Rightarrow> ('e, 'v, 'd, 'o) act \<Rightarrow> ('e, 'v, 'd, 'o) act" where
  "Begin_leave E self K =
     BatchWritePromise_execute E self (\<lambda>done'.
     with_promise self (\<lambda>p w.
       K (set_promise self (p\<lparr>success := done', executing := False\<rparr>) w)))"

definition Promise_Begin ::
  "('d, 'o) engine \<Rightarrow> ptr \<Rightarrow> ('e, 'v, 'd, 'o) act \<Rightarrow> ('e, 'v, 'd, 'o) act" where
  "Promise_Begin E self K = Begin_enter self (Begin_leave E self K)"

text \<open>The statuses of the calls that make the value are not looked at.\<close>

definition BatchWritePromise_rejection :: "('e, 'v) napi \<Rightarrow> 'v promise \<Rightarrow> 'e \<Rightarrow> 'v \<times> 'e" where
  "BatchWritePromise_rejection N p e =
     snd (napi_create_string N utf8 (Status_ToString (promise_status p)) e)"

definition BatchWritePromise_resolution :: "('e, 'v) napi \<Rightarrow> 'e \<Rightarrow> 'v \<times> 'e" where
  "BatchWritePromise_resolution N e = snd (napi_get_undefined N e)"

definition Promise_Finish :: "('e, 'v) napi \<Rightarrow> ptr \<Rightarrow> ('e, 'v, 'd, 'o) act" where
  "Promise_Finish N self =
     with_promise self (\<lambda>p.
       if success p
       then (\<lambda>w. case BatchWritePromise_resolution N (env w) of
              (v, e) \<Rightarrow> use_object (deferred p) (\<lambda>def.
                 NAPI_DO N (napi_resolve_deferred N def v) NAPI_RETURN_UNDEFINED) (w\<lparr>env := e\<rparr>))
       else (\<lambda>w. case BatchWritePromise_rejection N p (env w) of
              (v, e) \<Rightarrow> use_object (deferred p) (\<lambda>def.
                 NAPI_DO N (napi_reject_deferred N def v) NAPI_RETURN_UNDEFINED) (w\<lparr>env := e\<rparr>)))"

text \<open>The destructor of the base class, run when the finalizer deletes the promise.\<close>

definition Promise_dtor :: "('e, 'v) napi \<Rightarrow> 'v promise \<Rightarrow> ('e, 'v, 'd, 'o) act" where
  "Promise_dtor N p w =
     use_object (async_work p) (\<lambda>work.
     NAPI_DO N (napi_delete_async_work N work)
       (\<lambda>w. if executing p then Fatal else NAPI_RETURN_UNDEFINED w)) w"

definition rocksdb_batch_write_async_finalize ::
  "('e, 'v) napi \<Rightarrow> ptr \<Rightarrow> ptr \<Rightarrow> ('e, 'v, 'd, 'o) act" where
  "rocksdb_batch_write_async_finalize N data hint w =
     (if data \<noteq> nullptr
      then with_promise data (\<lambda>p w. Promise_dtor N p (w\<lparr>promises := (promises w)(data := None)\<rparr>)) w
      else NAPI_RETURN_UNDEFINED w)"

definition rocksdb_batch_write_async :: "('e, 'v) napi \<Rightarrow> 'v list \<Rightarrow> ('e, 'v, 'd, 'o) act" where
  "rocksdb_batch_write_async N info =
     NAPI_ARGV N info 3 (\<lambda>argv.
     FROM_EXTERNAL_ARGUMENT N argv 0 (\<lambda>db.
     FROM_EXTERNAL_ARGUMENT N argv 1 (\<lambda>batch.
     FROM_EXTERNAL_ARGUMENT N argv 2 (\<lambda>options.
     new_object
       (\<lambda>p w. case BatchWritePromise_ctor N db batch options p (env w) of
          (pr, e) \<Rightarrow> (set_promise p pr w)\<lparr>env := e\<rparr>)
       (\<lambda>self. with_promise self (\<lambda>p.
        use_object (promise p) (\<lambda>v w.
        Promise_start N self (RETURN v)
          (w\<lparr>env := napi_add_finalizer N v self promise_finalizer (env w)\<rparr>))))))))"

section \<open>The exports\<close>

text \<open>The methods the module exports, but for the configuration of the logger.\<close>

definition addon_methods ::
  "('e, 'v) napi \<Rightarrow> ('d, 'o) engine \<Rightarrow> ptr \<Rightarrow> ('v list \<Rightarrow> ('e, 'v, 'd, 'o) act) list" where
  "addon_methods N E indeterminate =
     [rocksdb_slice N,
      rocksdb_write_options_init N,
      rocksdb_write_options_get_sync N,
      rocksdb_write_options_get_disableWAL N,
      rocksdb_write_options_get_ignore_missing_column_families N,
      rocksdb_write_options_get_no_slowdown N,
      rocksdb_write_options_get_low_pri N,
      rocksdb_write_options_set_timestamp N,
      rocksdb_write_options_reset_timestamp N,
      rocksdb_write_options_set_sync N,
      rocksdb_write_options_set_disableWAL N,
      rocksdb_write_options_set_ignore_missing_column_families N,
      rocksdb_write_options_set_no_slowdown N,
      rocksdb_write_options_set_low_pri N,
      rocksdb_options_init N E,
      rocksdb_options_init_from_buffer N E,
      rocksdb_open N E indeterminate,
      rocksdb_close N E,
      rocksdb_put N E,
      rocksdb_put_utf8 N E,
      rocksdb_put_latin1 N E,
      rocksdb_get N E,
      rocksdb_get_utf8 N E,
      rocksdb_get_latin1 N E,
      rocksdb_delete N E,
      rocksdb_delete_utf8 N E,
      rocksdb_delete_latin1 N E,
      rocksdb_delete_range N E,
      rocksdb_delete_range_utf8 N E,
      rocksdb_delete_range_latin1 N E,
      rocksdb_destroy N E,
      rocksdb_repair N E,
      rocksdb_iterator_init N E,
      rocksdb_iterator_seek N E,
      rocksdb_iterator_seek_utf8 N E,
      rocksdb_iterator_seek_latin1 N E,
      rocksdb_iterator_seek_for_prev N E,
      rocksdb_iterator_seek_for_prev_utf8 N E,
      rocksdb_iterator_seek_for_prev_latin1 N E,
      rocksdb_iterator_seek_for_first N E,
      rocksdb_iterator_seek_for_last N E,
      rocksdb_iterator_reset N E,
      rocksdb_iterator_valid N E,
      rocksdb_iterator_refresh N E,
      rocksdb_iterator_next N E,
      rocksdb_iterator_prev N E,
      rocksdb_iterator_key N E,
      rocksdb_iterator_key_utf8 N E,
      rocksdb_iterator_key_latin1 N E,
      rocksdb_iterator_value N E,
      rocksdb_iterator_value_utf8 N E,
      rocksdb_iterator_value_latin1 N E,
      rocksdb_iterator_key_value_pair N E,
      rocksdb_iterator_key_value_pair_of_utf8 N E,
      rocksdb_iterator_status_code N E,
      rocksdb_iterator_status_subcode N E,
      rocksdb_batch_init N,
      rocksdb_batch_init_ex N,
      rocksdb_batch_put N,
      rocksdb_batch_put_utf8 N,
      rocksdb_batch_put_latin1 N,
      rocksdb_batch_delete N,
      rocksdb_batch_delete_utf8 N,
      rocksdb_batch_delete_latin1 N,
      rocksdb_batch_clear N,
      rocksdb_batch_write N E,
      rocksdb_batch_write_async N,
      rocksdb_snapshot_init N E,
      rocksdb_read_options_init N,
      rocksdb_read_options_set_snapshot N,
      rocksdb_read_options_reset_snapshot N,
      rocksdb_read_options_set_timestamp N,
      rocksdb_read_options_reset_timestamp N,
      rocksdb_read_options_set_iterate_lower_bound N,
      rocksdb_read_options_reset_iterate_lower_bound N,
      rocksdb_read_options_set_iterate_upper_bound N,
      rocksdb_read_options_reset_iterate_upper_bound N,
      rocksdb_read_options_get_verify_checksums N,
      rocksdb_read_options_get_fill_cache N,
      rocksdb_read_options_get_tailing N,
      rocksdb_read_options_get_managed N,
      rocksdb_read_options_get_total_order_seek N,
      rocksdb_read_options_get_prefix_same_as_start N,
      rocksdb_read_options_get_pin_data N,
      rocksdb_read_options_get_background_purge_on_iterator_cleanup N,
      rocksdb_read_options_get_ignore_range_deletions N,
      rocksdb_read_options_get_max_skippable_internal_keys N,
      rocksdb_read_options_get_read_tier N,
      rocksdb_read_options_get_iter_start_seqnum N,
      rocksdb_read_options_get_readahead_size N,
      rocksdb_read_options_set_verify_checksums N,
      rocksdb_read_options_set_fill_cache N,
      rocksdb_read_options_set_tailing N,
      rocksdb_read_options_set_managed N,
      rocksdb_read_options_set_total_order_seek N,
      rocksdb_read_options_set_prefix_same_as_start N,
      rocksdb_read_options_set_pin_data N,
      rocksdb_read_options_set_background_purge_on_iterator_cleanup N,
      rocksdb_read_options_set_ignore_range_deletions N,
      rocksdb_read_options_set_max_skippable_internal_keys N,
      rocksdb_read_options_set_read_tier N,
      rocksdb_read_options_set_iter_start_seqnum N,
      rocksdb_read_options_set_readahead_size N,
      logger_start N,
      logger_stop N]"

end
