(* ===== verification/BindingWorld.thy ===== *)
theory BindingWorld
  imports BindingBatch
begin

text \<open>
  The invariant of the addon's world. An address holds one object at most, of one type, and
  only addresses that \<^verbatim>\<open>new\<close> has handed out hold any; the slices made for JavaScript lie
  in JavaScript's buffers. Every method and every finalizer keeps it, whatever Node and the
  engine answer.
\<close>

definition objects_at :: "('e, 'v, 'd, 'o) world \<Rightarrow> ptr \<Rightarrow> nat" where
  "objects_at w p =
     of_bool (char_arrays w p \<noteq> None) + of_bool (slices w p \<noteq> None)
     + of_bool (write_options w p \<noteq> None) + of_bool (read_options w p \<noteq> None)
     + of_bool (options_of w p \<noteq> None) + of_bool (batches w p \<noteq> None)
     + of_bool (references w p \<noteq> None) + of_bool (promises w p \<noteq> None)"

definition wf_world :: "('e, 'v, 'd, 'o) world \<Rightarrow> bool" where
  "wf_world w \<longleftrightarrow> nullptr < next_address w
     \<and> (\<forall>p. objects_at w p \<le> of_bool (nullptr < p \<and> p < next_address w))
     \<and> (\<forall>p sl. slices w p = Some sl \<longrightarrow> (\<exists>b. fst sl = js_buffer b))"

definition good :: "(('e, 'v, 'd, 'o) world, 'v) outcome \<Rightarrow> bool" where
  "good r \<longleftrightarrow> (case r of Returned w v \<Rightarrow> wf_world w | Undefined \<Rightarrow> True | Fatal \<Rightarrow> True)"

lemma good_simps [simp]:
  "good (Returned w v) = wf_world w" "good Undefined" "good Fatal"
  by (simp_all add: good_def)

text \<open>What keeps the invariant: other parts of the world, new contents, deletion, creation.\<close>

lemma wf_frame [simp]:
  "wf_world (w\<lparr>env := e\<rparr>) = wf_world w" "wf_world (w\<lparr>engine_state := d\<rparr>) = wf_world w"
  "wf_world (w\<lparr>logging_enabled := l\<rparr>) = wf_world w"
  by (simp_all add: wf_world_def objects_at_def)

lemma wf_mono:
  assumes "wf_world w" and "next_address w' = next_address w"
    and "\<And>p. objects_at w' p \<le> objects_at w p"
    and "\<And>p sl. slices w' p = Some sl \<Longrightarrow> slices w p = Some sl"
  shows "wf_world w'"
proof -
  have "objects_at w' p \<le> of_bool (nullptr < p \<and> p < next_address w')" for p
    using assms(1) assms(2) assms(3)[of p] order.trans unfolding wf_world_def by metis
  then show ?thesis
    using assms unfolding wf_world_def by metis
qed

lemma wf_update:
  "wf_world w \<Longrightarrow> char_arrays w p = Some a \<Longrightarrow> wf_world (w\<lparr>char_arrays := (char_arrays w)(p \<mapsto> a')\<rparr>)"
  "wf_world w \<Longrightarrow> write_options w p = Some wo \<Longrightarrow> wf_world (w\<lparr>write_options := (write_options w)(p \<mapsto> wo')\<rparr>)"
  "wf_world w \<Longrightarrow> read_options w p = Some ro \<Longrightarrow> wf_world (w\<lparr>read_options := (read_options w)(p \<mapsto> ro')\<rparr>)"
  "wf_world w \<Longrightarrow> options_of w p = Some opt \<Longrightarrow> wf_world (w\<lparr>options_of := (options_of w)(p \<mapsto> opt')\<rparr>)"
  "wf_world w \<Longrightarrow> batches w p = Some b \<Longrightarrow> wf_world (w\<lparr>batches := (batches w)(p \<mapsto> b')\<rparr>)"
  "wf_world w \<Longrightarrow> references w p = Some r \<Longrightarrow> wf_world (w\<lparr>references := (references w)(p \<mapsto> r')\<rparr>)"
  "wf_world w \<Longrightarrow> promises w p = Some pr \<Longrightarrow> wf_world (w\<lparr>promises := (promises w)(p \<mapsto> pr')\<rparr>)"
  by (rule wf_mono[of w], simp, simp, simp add: objects_at_def, simp)+

lemma wf_delete:
  "wf_world w \<Longrightarrow> wf_world (w\<lparr>char_arrays := (char_arrays w)(p := None)\<rparr>)"
  "wf_world w \<Longrightarrow> wf_world (w\<lparr>slices := (slices w)(p := None)\<rparr>)"
  "wf_world w \<Longrightarrow> wf_world (w\<lparr>write_options := (write_options w)(p := None)\<rparr>)"
  "wf_world w \<Longrightarrow> wf_world (w\<lparr>read_options := (read_options w)(p := None)\<rparr>)"
  "wf_world w \<Longrightarrow> wf_world (w\<lparr>options_of := (options_of w)(p := None)\<rparr>)"
  "wf_world w \<Longrightarrow> wf_world (w\<lparr>batches := (batches w)(p := None)\<rparr>)"
  "wf_world w \<Longrightarrow> wf_world (w\<lparr>references := (references w)(p := None)\<rparr>)"
  "wf_world w \<Longrightarrow> wf_world (w\<lparr>promises := (promises w)(p := None)\<rparr>)"
  by (rule wf_mono[of w], simp, simp, simp add: objects_at_def, simp split: if_splits)+

text \<open>An object of any type at the next address.\<close>

definition adds_at :: "ptr \<Rightarrow> ('e, 'v, 'd, 'o) world \<Rightarrow> ('e, 'v, 'd, 'o) world \<Rightarrow> bool" where
  "adds_at p w w' \<longleftrightarrow> next_address w' = next_address w
     \<and> (\<forall>q. objects_at w' q \<le> objects_at w q + of_bool (q = p))
     \<and> (\<forall>q sl. slices w' q = Some sl \<longrightarrow> slices w q = Some sl \<or> (\<exists>b. fst sl = js_buffer b))"

lemma wf_new:
  assumes "wf_world w" and "adds_at (next_address w) (w\<lparr>next_address := Suc (next_address w)\<rparr>) w'"
  shows "wf_world w'"
proof -
  have w: "nullptr < next_address w"
      "\<And>p. objects_at w p \<le> of_bool (nullptr < p \<and> p < next_address w)"
      "\<And>p sl. slices w p = Some sl \<Longrightarrow> \<exists>b. fst sl = js_buffer b"
    using assms(1) unfolding wf_world_def by blast+
  have same: "objects_at (w\<lparr>next_address := n\<rparr>) q = objects_at w q" for n q
    by (simp add: objects_at_def)
  have bound: "objects_at w' q \<le> objects_at w q + of_bool (q = next_address w)" for q
    using assms(2) unfolding adds_at_def same by blast
  have "objects_at w' q \<le> of_bool (nullptr < q \<and> q < Suc (next_address w))" for q
    using w(1) w(2)[of q] bound[of q] by (cases "q = next_address w") (auto simp: of_bool_def split: if_splits)
  moreover have "\<exists>b. fst sl = js_buffer b" if "slices w' p = Some sl" for p sl
  proof -
    have "slices w p = Some sl \<or> (\<exists>b. fst sl = js_buffer b)"
      using assms(2) that by (simp add: adds_at_def del: split_paired_All)
    then show ?thesis using w(3) by blast
  qed
  ultimately show ?thesis
    using assms(2) unfolding wf_world_def adds_at_def by simp
qed

lemma adds_at_simps:
  "adds_at p w (w\<lparr>char_arrays := (char_arrays w)(p \<mapsto> a)\<rparr>)"
  "adds_at p w (w\<lparr>slices := (slices w)(p \<mapsto> (js_buffer b, n))\<rparr>)"
  "adds_at p w (w\<lparr>write_options := (write_options w)(p \<mapsto> wo)\<rparr>)"
  "adds_at p w (w\<lparr>read_options := (read_options w)(p \<mapsto> ro)\<rparr>)"
  "adds_at p w (w\<lparr>options_of := (options_of w)(p \<mapsto> opt)\<rparr>)"
  "adds_at p w (w\<lparr>batches := (batches w)(p \<mapsto> wb)\<rparr>)"
  "adds_at p w (w\<lparr>references := (references w)(p \<mapsto> r)\<rparr>)"
  "adds_at p w (w\<lparr>promises := (promises w)(p \<mapsto> pr)\<rparr>)"
  "adds_at p w (w\<lparr>promises := (promises w)(p \<mapsto> pr), env := e\<rparr>)"
  by (auto simp: adds_at_def objects_at_def split: if_splits)

section \<open>The macros\<close>

named_theorems keeping

lemma good_RETURN [keeping]: "wf_world w \<Longrightarrow> good (RETURN v w)"
  by (simp add: RETURN_def)

lemma good_NAPI_RETURN_UNDEFINED [keeping]: "wf_world w \<Longrightarrow> good (NAPI_RETURN_UNDEFINED w)"
  by (simp add: NAPI_RETURN_UNDEFINED_def)

lemma good_use_object [keeping]:
  "(\<And>a. x = Some a \<Longrightarrow> good (K a w)) \<Longrightarrow> good (use_object x K w)"
  by (simp add: use_object_def split: option.split)

lemma good_STATUS_THROWS [keeping]: "wf_world w \<Longrightarrow> good (K w) \<Longrightarrow> good (STATUS_THROWS N status K w)"
  by (simp add: STATUS_THROWS_def)

lemma good_NAPI_READ [keeping]:
  "wf_world w \<Longrightarrow> (\<And>x. good (K x w)) \<Longrightarrow> good (NAPI_READ N call K w)"
  by (simp add: NAPI_READ_def good_STATUS_THROWS split: prod.split)

lemma good_NAPI_CREATE [keeping]:
  "wf_world w \<Longrightarrow> (\<And>x e. wf_world (w\<lparr>env := e\<rparr>) \<Longrightarrow> good (K x (w\<lparr>env := e\<rparr>))) \<Longrightarrow> good (NAPI_CREATE N call K w)"
  by (simp add: NAPI_CREATE_def good_STATUS_THROWS split: prod.split)

lemma good_NAPI_DO [keeping]:
  "wf_world w \<Longrightarrow> (\<And>e. wf_world (w\<lparr>env := e\<rparr>) \<Longrightarrow> good (K (w\<lparr>env := e\<rparr>))) \<Longrightarrow> good (NAPI_DO N call K w)"
  by (simp add: NAPI_DO_def good_STATUS_THROWS split: prod.split)

lemma good_NAPI_ARGV [keeping]:
  "wf_world w \<Longrightarrow> (\<And>argv. good (K argv w)) \<Longrightarrow> good (NAPI_ARGV N info n K w)"
  by (simp add: NAPI_ARGV_def good_NAPI_READ)

lemma good_FROM_EXTERNAL_ARGUMENT [keeping]:
  "wf_world w \<Longrightarrow> (\<And>p. good (K p w)) \<Longrightarrow> good (FROM_EXTERNAL_ARGUMENT N argv i K w)"
  by (simp add: FROM_EXTERNAL_ARGUMENT_def good_NAPI_READ)

lemma good_STRING_FROM_BUFFER_ARGUMENT [keeping]:
  "wf_world w \<Longrightarrow> (\<And>s. good (K s w)) \<Longrightarrow> good (STRING_FROM_BUFFER_ARGUMENT N argv i K w)"
  by (simp add: STRING_FROM_BUFFER_ARGUMENT_def good_NAPI_READ split: prod.split)

lemma good_SLICE_FROM_BUFFER_ARGUMENT [keeping]:
  "wf_world w \<Longrightarrow> (\<And>sl. good (K sl w)) \<Longrightarrow> good (SLICE_FROM_BUFFER_ARGUMENT N argv i K w)"
  by (simp add: SLICE_FROM_BUFFER_ARGUMENT_def good_NAPI_READ split: prod.split)

lemma good_new_object:
  "wf_world w \<Longrightarrow> (\<And>w p. adds_at p w (init p w)) \<Longrightarrow>
   (\<And>w'. wf_world w' \<Longrightarrow> w' = init (next_address w) (w\<lparr>next_address := Suc (next_address w)\<rparr>) \<Longrightarrow>
      good (K (next_address w) w')) \<Longrightarrow>
   good (new_object init K w)"
  unfolding new_object_def Let_def
  by (rule meta_mp[where P = "wf_world (init (next_address w) (w\<lparr>next_address := Suc (next_address w)\<rparr>))"])
    (blast, rule wf_new)

lemma good_SLICE_FROM_STRING_ARGUMENT [keeping]:
  assumes "wf_world w" and K: "\<And>sl w. wf_world w \<Longrightarrow> good (K sl w)"
  shows "good (SLICE_FROM_STRING_ARGUMENT N enc argv i K w)"
  unfolding SLICE_FROM_STRING_ARGUMENT_def Let_def
  by (rule good_new_object[OF assms(1) adds_at_simps(1)], rule good_NAPI_READ, assumption,
      rule K, erule wf_update, simp)

lemma good_SLICE_FROM_STRING_ARGUMENT_RELEASE [keeping]:
  "wf_world w \<Longrightarrow> (\<And>w. wf_world w \<Longrightarrow> good (K w)) \<Longrightarrow> good (SLICE_FROM_STRING_ARGUMENT_RELEASE sl K w)"
  by (auto simp: SLICE_FROM_STRING_ARGUMENT_RELEASE_def split: data_ptr.split
      intro!: good_use_object wf_delete)

lemma good_SLICE_PTR_FROM_BUFFER_ARGUMENT [keeping]:
  assumes "wf_world w" and K: "\<And>p w. wf_world w \<Longrightarrow> good (K p w)"
  shows "good (SLICE_PTR_FROM_BUFFER_ARGUMENT N argv i K w)"
  unfolding SLICE_PTR_FROM_BUFFER_ARGUMENT_def
proof (rule good_NAPI_READ[OF assms(1)], clarify)
  fix buf size
  show "good (new_object (\<lambda>p w. w\<lparr>slices := (slices w)(p \<mapsto> (js_buffer buf, size))\<rparr>) K w)"
    by (rule good_new_object[OF assms(1) adds_at_simps(2)], rule K)
qed

lemma good_ROCKSDB_STATUS_THROWS [keeping]:
  assumes "wf_world w" and K: "\<And>w. wf_world w \<Longrightarrow> good (K w)"
  shows "good (ROCKSDB_STATUS_THROWS N s K w)"
  unfolding ROCKSDB_STATUS_THROWS_def by (rule K) (simp add: assms(1))

lemma good_with_slice [keeping]:
  "(\<And>b. good (K b w)) \<Longrightarrow> good (with_slice N sl K w)"
  by (simp add: with_slice_def good_use_object)

lemma good_ENGINE [keeping]:
  "wf_world w \<Longrightarrow> (\<And>x d. wf_world (w\<lparr>engine_state := d\<rparr>) \<Longrightarrow> good (K x (w\<lparr>engine_state := d\<rparr>))) \<Longrightarrow> good (ENGINE call K w)"
  by (simp add: ENGINE_def split: prod.split)

lemma good_case_prod [keeping]:
  "(\<And>a b. x = (a, b) \<Longrightarrow> good (f a b w)) \<Longrightarrow> good ((case x of (a, b) \<Rightarrow> f a b) w)"
  by (simp split: prod.split)

lemma good_case_prod_result [keeping]:
  "(\<And>a b. x = (a, b) \<Longrightarrow> good (f a b)) \<Longrightarrow> good (case x of (a, b) \<Rightarrow> f a b)"
  by (simp split: prod.split)

section \<open>The methods\<close>

lemmas keeping_new = adds_at_simps[THEN good_new_object[rotated]]

lemma good_write_options_getter: "wf_world w \<Longrightarrow> good (write_options_getter N field info w)"
  unfolding write_options_getter_def by (intro keeping | assumption)+

lemma good_write_options_setter: "wf_world w \<Longrightarrow> good (write_options_setter N store info w)"
  unfolding write_options_setter_def by (intro keeping wf_update | assumption)+

lemma good_read_options_getter: "wf_world w \<Longrightarrow> good (read_options_getter N mk info w)"
  unfolding read_options_getter_def by (intro keeping | assumption)+

lemma good_store_read_options [keeping]: "wf_world w \<Longrightarrow> good (store_read_options p store w)"
  unfolding store_read_options_def by (intro keeping wf_update | assumption)+

lemma good_read_options_setter: "wf_world w \<Longrightarrow> good (read_options_setter N read store info w)"
  unfolding read_options_setter_def by (intro keeping | assumption)+

lemma good_read_options_set_pointer: "wf_world w \<Longrightarrow> good (read_options_set_pointer N store info w)"
  unfolding read_options_set_pointer_def by (intro keeping | assumption)+

lemma good_put_call [keeping]:
  assumes "wf_world w" and "\<And>s w. wf_world w \<Longrightarrow> good (K s w)"
  shows "good (put_call N E db options k v K w)"
  unfolding put_call_def by (intro keeping) (auto split: option.split intro!: assms(2) simp: assms(1))

lemma good_delete_call [keeping]:
  assumes "wf_world w" and "\<And>s w. wf_world w \<Longrightarrow> good (K s w)"
  shows "good (delete_call N E db options k K w)"
  unfolding delete_call_def by (intro keeping assms)

lemma good_delete_range_call [keeping]:
  assumes "wf_world w" and "\<And>s w. wf_world w \<Longrightarrow> good (K s w)"
  shows "good (delete_range_call N E db options k v K w)"
  unfolding delete_range_call_def by (intro keeping assms)

lemma good_get_call [keeping]:
  assumes "wf_world w" and "\<And>s w. wf_world w \<Longrightarrow> good (K s w)"
  shows "good (get_call N E db options k K w)"
  unfolding get_call_def by (intro keeping assms)

lemma good_get_result [keeping]: "wf_world w \<Longrightarrow> good (get_result N mk r w)"
  unfolding get_result_def by (auto split: prod.split intro!: keeping)

lemma good_RETURN_VALID [keeping]: "wf_world w \<Longrightarrow> good (RETURN_VALID N E iterator w)"
  unfolding RETURN_VALID_def by (intro keeping | assumption)+

lemma good_seek_call [keeping]:
  assumes "wf_world w" and "\<And>w. wf_world w \<Longrightarrow> good (K w)"
  shows "good (seek_call N seek iterator key K w)"
  unfolding seek_call_def by (intro keeping assms) (simp add: assms)

lemma good_strings:
  assumes "wf_world w"
  shows "good (put_string enc N E info w)" "good (delete_string enc N E info w)"
    "good (delete_range_string enc N E info w)" "good (get_string enc N E info w)"
    "good (seek_buffer N E seek info w)" "good (seek_string enc N E seek info w)"
    "good (iterator_step N E move info w)" "good (iterator_read N mk part info w)"
    "good (iterator_pair N E mk info w)"
  unfolding put_string_def delete_string_def delete_range_string_def get_string_def
    seek_buffer_def seek_string_def iterator_step_def iterator_read_def iterator_pair_def Let_def
  by (intro keeping assms; (assumption | simp add: assms))+

lemma good_batch_call [keeping]:
  assumes "wf_world w" and "\<And>s w. wf_world w \<Longrightarrow> good (K s w)"
  shows "good (batch_call batch oper K w)"
  unfolding batch_call_def
  by (intro keeping) (auto split: prod.split intro!: assms(2) wf_update assms(1))

lemma good_batch_put_string: "wf_world w \<Longrightarrow> good (batch_put_string enc N info w)"
  unfolding batch_put_string_def by (intro keeping | assumption)+

lemma good_write_call [keeping]:
  assumes "wf_world w" and "\<And>s w. wf_world w \<Longrightarrow> good (K s w)"
  shows "good (write_call E db batch options K w)"
  unfolding write_call_def
proof (intro good_use_object)
  fix opt b
  assume b: "batches w batch = Some b"
  have "wf_world (w\<lparr>engine_state := d, batches := (batches w)(batch \<mapsto> b')\<rparr>)" for d b'
    using wf_update(5)[of "w\<lparr>engine_state := d\<rparr>" batch b b'] assms(1) b by simp
  then show "good (case DB_Write E db opt b (engine_state w) of (s, b', d) \<Rightarrow>
      K s (w\<lparr>engine_state := d, batches := (batches w)(batch \<mapsto> b')\<rparr>))"
    by (auto split: prod.split intro: assms(2))
qed

lemmas shared_method_defs =
  rocksdb_write_options_get_sync_def rocksdb_write_options_get_disableWAL_def
  rocksdb_write_options_get_ignore_missing_column_families_def
  rocksdb_write_options_get_no_slowdown_def rocksdb_write_options_get_low_pri_def
  rocksdb_write_options_set_sync_def rocksdb_write_options_set_disableWAL_def
  rocksdb_write_options_set_ignore_missing_column_families_def
  rocksdb_write_options_set_no_slowdown_def rocksdb_write_options_set_low_pri_def
  rocksdb_read_options_get_verify_checksums_def rocksdb_read_options_get_fill_cache_def
  rocksdb_read_options_get_tailing_def rocksdb_read_options_get_managed_def
  rocksdb_read_options_get_total_order_seek_def rocksdb_read_options_get_prefix_same_as_start_def
  rocksdb_read_options_get_pin_data_def
  rocksdb_read_options_get_background_purge_on_iterator_cleanup_def
  rocksdb_read_options_get_ignore_range_deletions_def
  rocksdb_read_options_get_max_skippable_internal_keys_def rocksdb_read_options_get_read_tier_def
  rocksdb_read_options_get_iter_start_seqnum_def rocksdb_read_options_get_readahead_size_def
  rocksdb_read_options_set_verify_checksums_def rocksdb_read_options_set_fill_cache_def
  rocksdb_read_options_set_tailing_def rocksdb_read_options_set_managed_def
  rocksdb_read_options_set_total_order_seek_def rocksdb_read_options_set_prefix_same_as_start_def
  rocksdb_read_options_set_pin_data_def
  rocksdb_read_options_set_background_purge_on_iterator_cleanup_def
  rocksdb_read_options_set_ignore_range_deletions_def
  rocksdb_read_options_set_max_skippable_internal_keys_def rocksdb_read_options_set_read_tier_def
  rocksdb_read_options_set_iter_start_seqnum_def rocksdb_read_options_set_readahead_size_def
  rocksdb_read_options_set_snapshot_def rocksdb_read_options_set_timestamp_def
  rocksdb_read_options_set_iterate_lower_bound_def
  rocksdb_read_options_set_iterate_upper_bound_def rocksdb_put_utf8_def rocksdb_put_latin1_def
  rocksdb_get_utf8_def rocksdb_get_latin1_def rocksdb_delete_utf8_def rocksdb_delete_latin1_def
  rocksdb_delete_range_utf8_def rocksdb_delete_range_latin1_def rocksdb_iterator_seek_def
  rocksdb_iterator_seek_utf8_def rocksdb_iterator_seek_latin1_def
  rocksdb_iterator_seek_for_prev_def rocksdb_iterator_seek_for_prev_utf8_def
  rocksdb_iterator_seek_for_prev_latin1_def rocksdb_iterator_seek_for_first_def
  rocksdb_iterator_seek_for_last_def rocksdb_iterator_reset_def rocksdb_iterator_valid_def
  rocksdb_iterator_next_def rocksdb_iterator_prev_def rocksdb_iterator_key_def
  rocksdb_iterator_key_utf8_def rocksdb_iterator_key_latin1_def rocksdb_iterator_value_def
  rocksdb_iterator_value_utf8_def rocksdb_iterator_value_latin1_def
  rocksdb_iterator_key_value_pair_def rocksdb_iterator_key_value_pair_of_utf8_def
  rocksdb_batch_put_utf8_def rocksdb_batch_put_latin1_def

lemmas own_method_defs =
  rocksdb_slice_def rocksdb_write_options_init_def rocksdb_write_options_set_timestamp_def
  rocksdb_write_options_reset_timestamp_def rocksdb_options_init_def
  rocksdb_options_init_from_buffer_def rocksdb_open_def rocksdb_close_def rocksdb_put_def
  rocksdb_get_def rocksdb_delete_def rocksdb_delete_range_def rocksdb_destroy_def
  rocksdb_repair_def rocksdb_iterator_init_def rocksdb_iterator_refresh_def
  rocksdb_iterator_status_code_def rocksdb_iterator_status_subcode_def rocksdb_batch_init_def
  rocksdb_batch_init_ex_def rocksdb_batch_put_def rocksdb_batch_delete_def
  rocksdb_batch_delete_utf8_def rocksdb_batch_delete_latin1_def rocksdb_batch_clear_def
  rocksdb_batch_write_def rocksdb_batch_write_async_def rocksdb_snapshot_init_def
  rocksdb_read_options_init_def rocksdb_read_options_reset_snapshot_def
  rocksdb_read_options_reset_timestamp_def rocksdb_read_options_reset_iterate_lower_bound_def
  rocksdb_read_options_reset_iterate_upper_bound_def logger_start_def logger_stop_def

lemmas shared_good =
  good_write_options_getter good_write_options_setter good_read_options_getter
  good_read_options_setter good_read_options_set_pointer good_strings good_batch_put_string

lemma good_creators:
  assumes "wf_world w"
  shows "good (rocksdb_slice N info w)" "good (rocksdb_write_options_init N info w)"
    "good (rocksdb_read_options_init N info w)" "good (rocksdb_options_init N E info w)"
    "good (rocksdb_batch_init N info w)"
  unfolding own_method_defs
  by (intro keeping keeping_new assms; assumption)+

lemma good_batch_init_ex: "wf_world w \<Longrightarrow> good (rocksdb_batch_init_ex N info w)"
  unfolding rocksdb_batch_init_ex_def
  by (intro keeping keeping_new; assumption)

lemma good_timestamps:
  assumes "wf_world w"
  shows "good (rocksdb_write_options_set_timestamp N info w)"
    "good (rocksdb_write_options_reset_timestamp N info w)"
    "good (rocksdb_read_options_reset_snapshot N info w)"
    "good (rocksdb_read_options_reset_timestamp N info w)"
    "good (rocksdb_read_options_reset_iterate_lower_bound N info w)"
    "good (rocksdb_read_options_reset_iterate_upper_bound N info w)"
  unfolding own_method_defs
  by (intro keeping wf_update assms; assumption)+

lemma good_options_init_from_buffer: "wf_world w \<Longrightarrow> good (rocksdb_options_init_from_buffer N E info w)"
  unfolding rocksdb_options_init_from_buffer_def
  by (intro keeping keeping_new wf_update; assumption)

lemma good_open: "wf_world w \<Longrightarrow> good (rocksdb_open N E indeterminate info w)"
  unfolding rocksdb_open_def
  by (intro keeping keeping_new; (assumption | (rule wf_update; simp)))

lemma good_engine_methods:
  assumes "wf_world w"
  shows "good (rocksdb_close N E info w)" "good (rocksdb_put N E info w)"
    "good (rocksdb_get N E info w)" "good (rocksdb_delete N E info w)"
    "good (rocksdb_delete_range N E info w)" "good (rocksdb_destroy N E info w)"
    "good (rocksdb_repair N E info w)" "good (rocksdb_iterator_init N E info w)"
    "good (rocksdb_iterator_refresh N E info w)" "good (rocksdb_iterator_status_code N E info w)"
    "good (rocksdb_iterator_status_subcode N E info w)" "good (rocksdb_snapshot_init N E info w)"
    "good (rocksdb_batch_write N E info w)" "good (logger_start N info w)"
    "good (logger_stop N info w)"
  unfolding own_method_defs
  by (intro keeping assms; (assumption | simp add: assms))+

lemma good_batch_methods:
  assumes "wf_world w"
  shows "good (rocksdb_batch_put N info w)" "good (rocksdb_batch_delete N info w)"
    "good (rocksdb_batch_delete_utf8 N info w)" "good (rocksdb_batch_delete_latin1 N info w)"
    "good (rocksdb_batch_clear N info w)"
  unfolding own_method_defs
  by (intro keeping assms; assumption)+

lemma good_batch_write_async: "wf_world w \<Longrightarrow> good (rocksdb_batch_write_async N info w)"
proof -
  have adds: "adds_at p v (case BatchWritePromise_ctor N db batch options p (env v) of
      (pr, e) \<Rightarrow> (set_promise p pr v)\<lparr>env := e\<rparr>)"
    for p db batch options and v :: "('a, 'b, 'c, 'd) world"
    by (simp add: set_promise_def adds_at_simps split: prod.split)
  have start: "good (Promise_start N self (RETURN v) w')" if "wf_world w'"
    for self v and w' :: "('a, 'b, 'c, 'd) world"
    unfolding Promise_start_def with_promise_def
    by (intro keeping; simp add: that)
  show "wf_world w \<Longrightarrow> good (rocksdb_batch_write_async N info w)"
    unfolding rocksdb_batch_write_async_def with_promise_def
    by (intro keeping good_new_object adds start; simp)
qed

theorem addon_methods_good:
  assumes "wf_world w" and "m \<in> set (addon_methods N E indeterminate)"
  shows "good (m info w)"
  using assms(2) unfolding addon_methods_def shared_method_defs
  by (auto intro!: shared_good good_creators good_batch_init_ex good_timestamps
      good_options_init_from_buffer good_open good_engine_methods good_batch_methods
      good_batch_write_async assms(1))

section \<open>Callbacks\<close>

text \<open>What Node runs when it collects an external or a promise.\<close>

fun finalize ::
  "('e, 'v) napi \<Rightarrow> ('d, 'o) engine \<Rightarrow> finalizer \<Rightarrow> ptr \<Rightarrow> ptr \<Rightarrow> ('e, 'v, 'd, 'o) act" where
  "finalize N E slice_finalizer = rocksdb_slice_finalize"
| "finalize N E write_options_finalizer = rocksdb_write_options_finalize"
| "finalize N E options_finalizer = rocksdb_options_finalize"
| "finalize N E db_finalizer = rocksdb_finalize N E"
| "finalize N E iterator_finalizer = rocksdb_iterator_finalize E"
| "finalize N E batch_finalizer = rocksdb_batch_finalize"
| "finalize N E promise_finalizer = rocksdb_batch_write_async_finalize N"
| "finalize N E snapshot_finalizer = rocksdb_snapshot_finalize E"
| "finalize N E read_options_finalizer = rocksdb_read_options_finalize"

lemma good_rocksdb_finalize: "wf_world w \<Longrightarrow> good (rocksdb_finalize N E db_ptr ref_ptr w)"
proof -
  have close: "good ((if db_ptr \<noteq> 0
        then ENGINE (DB_Close E db_ptr) (\<lambda>db_close_status w. STATUS_THROWS N st
               (ROCKSDB_STATUS_THROWS N db_close_status NAPI_RETURN_UNDEFINED)
               (w\<lparr>engine_state := DB_delete E db_ptr (engine_state w)\<rparr>))
        else STATUS_THROWS N st (ROCKSDB_STATUS_THROWS N OK NAPI_RETURN_UNDEFINED)) w')"
    if "wf_world w'" for st and w' :: "('a, 'b, 'c, 'd) world"
    using that by (auto intro!: keeping)
  show "wf_world w \<Longrightarrow> good (rocksdb_finalize N E db_ptr ref_ptr w)"
    unfolding rocksdb_finalize_def Let_def
    by (cases "ref_ptr = 0")
      (auto intro!: keeping close intro: wf_delete(7)[of "w\<lparr>env := e\<rparr>" for e, simplified])
qed

lemma good_finalize: "wf_world w \<Longrightarrow> good (finalize N E f data hint w)"
  by (cases f) (auto simp: rocksdb_slice_finalize_def rocksdb_write_options_finalize_def
      rocksdb_options_finalize_def rocksdb_iterator_finalize_def rocksdb_batch_finalize_def
      rocksdb_batch_write_async_finalize_def rocksdb_snapshot_finalize_def
      rocksdb_read_options_finalize_def with_promise_def Promise_dtor_def
      intro!: keeping wf_delete good_rocksdb_finalize)

lemma good_Begin_enter:
  "wf_world w \<Longrightarrow> good (Begin_enter self NAPI_RETURN_UNDEFINED w)"
  unfolding Begin_enter_def with_promise_def set_promise_def by (intro keeping wf_update)

lemma good_Begin_leave:
  "wf_world w \<Longrightarrow> good (Begin_leave E self NAPI_RETURN_UNDEFINED w)"
  unfolding Begin_leave_def BatchWritePromise_execute_def with_promise_def set_promise_def
  by (intro keeping wf_update; assumption?)

lemma good_Promise_Finish: "wf_world w \<Longrightarrow> good (Promise_Finish N self w)"
  unfolding Promise_Finish_def with_promise_def by (auto intro!: keeping)

section \<open>Runs of the addon\<close>

text \<open>
  Between two steps of the addon, JavaScript changes the environment and the threads of the
  engine change the engine. Node may interleave the two halves of \<^verbatim>\<open>Begin\<close>, which run on a
  worker thread, with anything else.
\<close>

inductive addon_step ::
  "('e, 'v) napi \<Rightarrow> ('d, 'o) engine \<Rightarrow> ('e, 'v, 'd, 'o) world \<Rightarrow> ('e, 'v, 'd, 'o) world \<Rightarrow> bool"
  for N E where
  call: "m \<in> set (addon_methods N E indeterminate) \<Longrightarrow> m info w = Returned w' r
     \<Longrightarrow> addon_step N E w w'"
| collect: "finalize N E f data hint w = Returned w' r \<Longrightarrow> addon_step N E w w'"
| enter: "Begin_enter self NAPI_RETURN_UNDEFINED w = Returned w' r \<Longrightarrow> addon_step N E w w'"
| leave: "Begin_leave E self NAPI_RETURN_UNDEFINED w = Returned w' r \<Longrightarrow> addon_step N E w w'"
| finish: "Promise_Finish N self w = Returned w' r \<Longrightarrow> addon_step N E w w'"
| javascript: "addon_step N E w (w\<lparr>env := e\<rparr>)"
| engine_thread: "addon_step N E w (w\<lparr>engine_state := d\<rparr>)"

definition initial_world :: "'e \<Rightarrow> 'd \<Rightarrow> ('e, 'v, 'd, 'o) world" where
  "initial_world e d =
     \<lparr>env = e, engine_state = d, next_address = 1, char_arrays = (\<lambda>_. None),
      slices = (\<lambda>_. None), write_options = (\<lambda>_. None), read_options = (\<lambda>_. None),
      options_of = (\<lambda>_. None), batches = (\<lambda>_. None), references = (\<lambda>_. None),
      promises = (\<lambda>_. None), logging_enabled = False\<rparr>"

lemma wf_initial: "wf_world (initial_world e d)"
  by (simp add: wf_world_def initial_world_def objects_at_def)

lemma wf_step: "addon_step N E w w' \<Longrightarrow> wf_world w \<Longrightarrow> wf_world w'"
proof (induction rule: addon_step.induct)
  case (call m indeterminate info w w' r)
  then show ?case using addon_methods_good[of w m N E indeterminate info] by simp
next
  case (collect f data hint w w' r)
  then show ?case using good_finalize[of w N E f data hint] by simp
next
  case (enter self w w' r)
  then show ?case using good_Begin_enter[of w self] by simp
next
  case (leave self w w' r)
  then show ?case using good_Begin_leave[of w E self] by simp
next
  case (finish self w w' r)
  then show ?case using good_Promise_Finish[of w N self] by simp
qed simp_all

lemma wf_reachable: "(addon_step N E)\<^sup>*\<^sup>* (initial_world e d) w \<Longrightarrow> wf_world w"
  by (induction rule: rtranclp_induct) (auto simp: wf_initial intro: wf_step)

end
