(* ===== verification/NodeInstance.thy ===== *)
theory NodeInstance
  imports BindingWorld
begin

text \<open>
  A small Node and a small engine, concrete functions for the parameters of the addon's
  model: values of JavaScript as a datatype, strings of Latin-1 characters that are copied in
  either encoding, an exception that makes the creating calls fail while it is pending, a list
  of settled promises; an engine that keeps the batches it is given and answers every write with
  one status. The examples of the binding's properties run on them.
\<close>

datatype jsval =
    JsUndefined | JsBoolean bool | JsNumber u32 | JsBigint u64 | JsString bytes
  | JsBuffer ptr nat | JsExternal ptr | JsArray nat | JsPromise nat

record node =
  exception :: "bytes option"
  memory :: "ptr \<Rightarrow> bytes"
  elements :: "(nat \<times> nat \<times> jsval) list"
  settled :: "(nat \<times> bool \<times> jsval) list"
  fresh :: nat

definition small_node :: node where
  "small_node = \<lparr>exception = None, memory = (\<lambda>_. []), elements = [], settled = [], fresh = 0\<rparr>"

fun encode :: "encoding \<Rightarrow> bytes \<Rightarrow> bytes" where
  "encode latin1 s = s"
| "encode utf8 s =
     concat (map (\<lambda>c. if c < 128 then [c] else [0xC0 OR drop_bit 6 c, 0x80 OR (c AND 0x3F)]) s)"

definition unless_pending :: "node \<Rightarrow> jsval \<Rightarrow> napi_status \<times> jsval \<times> node" where
  "unless_pending e v = (case exception e of None \<Rightarrow> (0, v, e) | Some _ \<Rightarrow> (10, JsUndefined, e))"

definition example_napi :: "(node, jsval) napi" where
  "example_napi =
     \<lparr>napi_get_cb_info = (\<lambda>e info n. (0, take n (info @ replicate n JsUndefined))),
      napi_macros_throw = (\<lambda>e. e\<lparr>exception := Some (str ''call failed!'')\<rparr>),
      napi_throw_error = (\<lambda>s e. e\<lparr>exception := Some s\<rparr>),
      napi_get_value_external = (\<lambda>e v. case v of JsExternal p \<Rightarrow> (0, p) | _ \<Rightarrow> (1, 0)),
      napi_get_buffer_info = (\<lambda>e v. case v of JsBuffer p n \<Rightarrow> (0, p, n) | _ \<Rightarrow> (1, 0, 0)),
      buffer_memory = (\<lambda>e p n. take n (memory e p)),
      napi_string_size = (\<lambda>enc e v. case v of JsString s \<Rightarrow> (0, length (encode enc s)) | _ \<Rightarrow> (3, 0)),
      napi_string_copy = (\<lambda>enc e v n. case v of JsString s \<Rightarrow> (0, take (n - 1) (encode enc s)) | _ \<Rightarrow> (3, [])),
      napi_get_value_bool = (\<lambda>e v. case v of JsBoolean b \<Rightarrow> (0, b) | _ \<Rightarrow> (7, False)),
      napi_get_value_int32 = (\<lambda>e v. case v of JsNumber n \<Rightarrow> (0, n) | _ \<Rightarrow> (6, 0)),
      napi_get_value_bigint_uint64 = (\<lambda>e v. case v of JsBigint n \<Rightarrow> (0, n, True) | _ \<Rightarrow> (17, 0, False)),
      napi_create_external = (\<lambda>p f h e. unless_pending e (JsExternal p)),
      napi_add_finalizer = (\<lambda>v p f e. e),
      napi_create_reference = (\<lambda>v n e. (0, fresh e, e\<lparr>fresh := fresh e + 1\<rparr>)),
      napi_delete_reference = (\<lambda>n e. (0, e)),
      napi_get_boolean = (\<lambda>b e. (0, JsBoolean b, e)),
      napi_get_undefined = (\<lambda>e. (0, JsUndefined, e)),
      napi_create_int32 = (\<lambda>n e. (0, JsNumber n, e)),
      napi_create_bigint_uint64 = (\<lambda>n e. (0, JsBigint n, e)),
      napi_create_buffer_copy = (\<lambda>s e. (0, JsBuffer (fresh e) (length s),
        e\<lparr>memory := (memory e)(fresh e := s), fresh := fresh e + 1\<rparr>)),
      napi_create_string = (\<lambda>enc s e. (0, JsString s, e)),
      napi_create_array_with_length = (\<lambda>n e. (0, JsArray (fresh e), e\<lparr>fresh := fresh e + 1\<rparr>)),
      napi_set_element = (\<lambda>a i v e. case a of
          JsArray k \<Rightarrow> (0, e\<lparr>elements := (k, i, v) # elements e\<rparr>) | _ \<Rightarrow> (8, e)),
      napi_create_promise = (\<lambda>e. (0, fresh e, JsPromise (fresh e), e\<lparr>fresh := fresh e + 1\<rparr>)),
      napi_create_async_work = (\<lambda>p v e. (0, p, e)),
      napi_queue_async_work = (\<lambda>p e. (0, e)),
      napi_delete_async_work = (\<lambda>p e. (0, e)),
      napi_resolve_deferred = (\<lambda>d v e. (0, e\<lparr>settled := (d, True, v) # settled e\<rparr>)),
      napi_reject_deferred = (\<lambda>d v e. (0, e\<lparr>settled := (d, False, v) # settled e\<rparr>))\<rparr>"

record store =
  written :: "WriteBatch list"
  answer :: Status
  content :: "(bytes \<times> bytes) list"

definition small_store :: store where
  "small_store = \<lparr>written = [], answer = OK, content = []\<rparr>"

definition example_engine :: "(store, unit) engine" where
  "example_engine =
     \<lparr>Options_new = (),
      GetDBOptionsFromString = (\<lambda>_ s _. (if s = [] then OK else InvalidArgument s [], ())),
      DB_Open = (\<lambda>_ location p d. (if ok (answer d) then (OK, 7, d) else (answer d, p, d))),
      DB_Close = (\<lambda>_ d. (OK, d)), DB_delete = (\<lambda>_ d. d),
      DestroyDB = (\<lambda>_ _ d. (OK, d)), RepairDB = (\<lambda>_ _ d. (OK, d)),
      DB_Write = (\<lambda>_ opt b d.
        if ok (answer d) then (OK, b, d\<lparr>written := b # written d\<rparr>) else (answer d, b, d)),
      batch_AssignTimestamp = (\<lambda>b ts. (OK, b)),
      DB_Get = (\<lambda>_ opt vw cf k d.
        (case map_of (content d) k of None \<Rightarrow> (NotFound_sub kNone, [], d) | Some v \<Rightarrow> (OK, v, d))),
      DB_NewIterator = (\<lambda>_ opt vw d. (8, d)), Iterator_delete = (\<lambda>_ d. d),
      Iterator_Seek = (\<lambda>_ _ _ d. d), Iterator_SeekForPrev = (\<lambda>_ _ _ d. d),
      Iterator_SeekToFirst = (\<lambda>_ _ d. d), Iterator_SeekToLast = (\<lambda>_ _ d. d),
      Iterator_Next = (\<lambda>_ _ d. d), Iterator_Prev = (\<lambda>_ _ d. d), Iterator_Reset = (\<lambda>_ d. d),
      Iterator_Refresh = (\<lambda>_ d. (OK, d)), Iterator_Valid = (\<lambda>_ d. False),
      Iterator_key = (\<lambda>_ d. []), Iterator_value = (\<lambda>_ d. []), Iterator_status = (\<lambda>_ d. OK),
      DB_GetSnapshot = (\<lambda>_ d. (9, d)), DB_ReleaseSnapshot = (\<lambda>_ _ d. d)\<rparr>"

definition small_world :: "(node, jsval, store, unit) world" where
  "small_world = initial_world small_node small_store"

lemmas small_defs = small_world_def small_node_def small_store_def initial_world_def

lemma example_calls [simp]:
  "napi_get_cb_info example_napi = (\<lambda>e info n. (0, take n (info @ replicate n JsUndefined)))"
  "napi_macros_throw example_napi = (\<lambda>e. e\<lparr>exception := Some (str ''call failed!'')\<rparr>)"
  "napi_throw_error example_napi = (\<lambda>s e. e\<lparr>exception := Some s\<rparr>)"
  "napi_get_value_external example_napi = (\<lambda>e v. case v of JsExternal p \<Rightarrow> (0, p) | _ \<Rightarrow> (1, 0))"
  "napi_get_buffer_info example_napi = (\<lambda>e v. case v of JsBuffer p n \<Rightarrow> (0, p, n) | _ \<Rightarrow> (1, 0, 0))"
  "buffer_memory example_napi = (\<lambda>e p n. take n (memory e p))"
  "napi_string_size example_napi = (\<lambda>enc e v. case v of JsString s \<Rightarrow> (0, length (encode enc s)) | _ \<Rightarrow> (3, 0))"
  "napi_string_copy example_napi = (\<lambda>enc e v n. case v of JsString s \<Rightarrow> (0, take (n - 1) (encode enc s)) | _ \<Rightarrow> (3, []))"
  "napi_get_value_bool example_napi = (\<lambda>e v. case v of JsBoolean b \<Rightarrow> (0, b) | _ \<Rightarrow> (7, False))"
  "napi_get_value_int32 example_napi = (\<lambda>e v. case v of JsNumber n \<Rightarrow> (0, n) | _ \<Rightarrow> (6, 0))"
  "napi_get_value_bigint_uint64 example_napi = (\<lambda>e v. case v of JsBigint n \<Rightarrow> (0, n, True) | _ \<Rightarrow> (17, 0, False))"
  "napi_create_external example_napi = (\<lambda>p f h e. unless_pending e (JsExternal p))"
  "napi_add_finalizer example_napi = (\<lambda>v p f e. e)"
  "napi_create_reference example_napi = (\<lambda>v n e. (0, fresh e, e\<lparr>fresh := fresh e + 1\<rparr>))"
  "napi_delete_reference example_napi = (\<lambda>n e. (0, e))"
  "napi_get_boolean example_napi = (\<lambda>b e. (0, JsBoolean b, e))"
  "napi_get_undefined example_napi = (\<lambda>e. (0, JsUndefined, e))"
  "napi_create_int32 example_napi = (\<lambda>n e. (0, JsNumber n, e))"
  "napi_create_bigint_uint64 example_napi = (\<lambda>n e. (0, JsBigint n, e))"
  "napi_create_buffer_copy example_napi = (\<lambda>s e. (0, JsBuffer (fresh e) (length s), e\<lparr>memory := (memory e)(fresh e := s), fresh := fresh e + 1\<rparr>))"
  "napi_create_string example_napi = (\<lambda>enc s e. (0, JsString s, e))"
  "napi_create_array_with_length example_napi = (\<lambda>n e. (0, JsArray (fresh e), e\<lparr>fresh := fresh e + 1\<rparr>))"
  "napi_set_element example_napi = (\<lambda>a i v e. case a of JsArray k \<Rightarrow> (0, e\<lparr>elements := (k, i, v) # elements e\<rparr>) | _ \<Rightarrow> (8, e))"
  "napi_create_promise example_napi = (\<lambda>e. (0, fresh e, JsPromise (fresh e), e\<lparr>fresh := fresh e + 1\<rparr>))"
  "napi_create_async_work example_napi = (\<lambda>p v e. (0, p, e))"
  "napi_queue_async_work example_napi = (\<lambda>p e. (0, e))"
  "napi_delete_async_work example_napi = (\<lambda>p e. (0, e))"
  "napi_resolve_deferred example_napi = (\<lambda>d v e. (0, e\<lparr>settled := (d, True, v) # settled e\<rparr>))"
  "napi_reject_deferred example_napi = (\<lambda>d v e. (0, e\<lparr>settled := (d, False, v) # settled e\<rparr>))"
  "Options_new example_engine = ()"
  "GetDBOptionsFromString example_engine = (\<lambda>_ s _. (if s = [] then OK else InvalidArgument s [], ()))"
  "DB_Open example_engine = (\<lambda>_ location p d. (if ok (answer d) then (OK, 7, d) else (answer d, p, d)))"
  "DB_Close example_engine = (\<lambda>_ d. (OK, d))"
  "DB_delete example_engine = (\<lambda>_ d. d)"
  "DestroyDB example_engine = (\<lambda>_ _ d. (OK, d))"
  "RepairDB example_engine = (\<lambda>_ _ d. (OK, d))"
  "DB_Write example_engine = (\<lambda>_ opt b d. if ok (answer d) then (OK, b, d\<lparr>written := b # written d\<rparr>) else (answer d, b, d))"
  "batch_AssignTimestamp example_engine = (\<lambda>b ts. (OK, b))"
  "DB_Get example_engine = (\<lambda>_ opt vw cf k d. (case map_of (content d) k of None \<Rightarrow> (NotFound_sub kNone, [], d) | Some v \<Rightarrow> (OK, v, d)))"
  "DB_NewIterator example_engine = (\<lambda>_ opt vw d. (8, d))"
  "Iterator_delete example_engine = (\<lambda>_ d. d)"
  "Iterator_Seek example_engine = (\<lambda>_ _ _ d. d)"
  "Iterator_SeekForPrev example_engine = (\<lambda>_ _ _ d. d)"
  "Iterator_SeekToFirst example_engine = (\<lambda>_ _ d. d)"
  "Iterator_SeekToLast example_engine = (\<lambda>_ _ d. d)"
  "Iterator_Next example_engine = (\<lambda>_ _ d. d)"
  "Iterator_Prev example_engine = (\<lambda>_ _ d. d)"
  "Iterator_Reset example_engine = (\<lambda>_ d. d)"
  "Iterator_Refresh example_engine = (\<lambda>_ d. (OK, d))"
  "Iterator_Valid example_engine = (\<lambda>_ d. False)"
  "Iterator_key example_engine = (\<lambda>_ d. [])"
  "Iterator_value example_engine = (\<lambda>_ d. [])"
  "Iterator_status example_engine = (\<lambda>_ d. OK)"
  "DB_GetSnapshot example_engine = (\<lambda>_ d. (9, d))"
  "DB_ReleaseSnapshot example_engine = (\<lambda>_ _ d. d)"
  by (simp_all add: example_napi_def example_engine_def)

end
