(* ===== verification/BindingSpec.thy ===== *)
theory BindingSpec
  imports NodeInstance
begin

text \<open>
  What the methods of the addon do when Node answers their calls: each property names the
  answers it relies on, as equations of the interface's functions, and says what the method
  returns, throws, hands to the engine and leaves in its world.
\<close>

section \<open>What the arguments mean\<close>

definition has_args :: "('e, 'v) napi \<Rightarrow> 'e \<Rightarrow> 'v list \<Rightarrow> 'v list \<Rightarrow> bool" where
  "has_args N e info vs \<longleftrightarrow> napi_get_cb_info N e info (length vs) = (napi_ok, vs)"

definition is_external :: "('e, 'v) napi \<Rightarrow> 'e \<Rightarrow> 'v \<Rightarrow> ptr \<Rightarrow> bool" where
  "is_external N e v p \<longleftrightarrow> napi_get_value_external N e v = (napi_ok, p)"

definition is_string :: "('e, 'v) napi \<Rightarrow> encoding \<Rightarrow> 'e \<Rightarrow> 'v \<Rightarrow> bytes \<Rightarrow> bool" where
  "is_string N enc e v s \<longleftrightarrow>
     napi_string_copy N enc e v (snd (napi_string_size N enc e v) + 1) = (napi_ok, s)"

definition is_buffer :: "('e, 'v) napi \<Rightarrow> 'e \<Rightarrow> 'v \<Rightarrow> bytes \<Rightarrow> bool" where
  "is_buffer N e v s \<longleftrightarrow>
     (case napi_get_buffer_info N e v of
        (status, p, n) \<Rightarrow> status = napi_ok \<and> buffer_memory N e p n = s)"

section \<open>Running the macros\<close>

named_theorems running

lemma run_ARGV [running]:
  "has_args N (env w) info vs \<Longrightarrow> length vs = n \<Longrightarrow> NAPI_ARGV N info n K w = K vs w"
  by (auto simp: has_args_def NAPI_ARGV_def NAPI_READ_def STATUS_THROWS_def)

lemma run_EXTERNAL [running]:
  "is_external N (env w) (argv ! i) p \<Longrightarrow> FROM_EXTERNAL_ARGUMENT N argv i K w = K p w"
  by (simp add: is_external_def FROM_EXTERNAL_ARGUMENT_def NAPI_READ_def STATUS_THROWS_def)

lemma run_READ [running]: "call (env w) = (napi_ok, x) \<Longrightarrow> NAPI_READ N call K w = K x w"
  by (simp add: NAPI_READ_def STATUS_THROWS_def)

lemma run_CREATE [running]:
  "call (env w) = (napi_ok, x, e) \<Longrightarrow> NAPI_CREATE N call K w = K x (w\<lparr>env := e\<rparr>)"
  by (simp add: NAPI_CREATE_def STATUS_THROWS_def)

lemma run_use [running]: "x = Some a \<Longrightarrow> use_object x K w = K a w"
  by (simp add: use_object_def)

lemma run_STRING [running]:
  "is_string N enc (env w) (argv ! i) s \<Longrightarrow> SLICE_FROM_STRING_ARGUMENT N enc argv i K w =
     K (char_array (next_address w), length s)
       (w\<lparr>next_address := Suc (next_address w),
          char_arrays := (char_arrays w)(next_address w \<mapsto> s)\<rparr>)"
  by (simp add: is_string_def SLICE_FROM_STRING_ARGUMENT_def new_object_def NAPI_READ_def
      STATUS_THROWS_def Let_def)

lemma run_STRING_RELEASE [running]:
  "char_arrays w p = Some s \<Longrightarrow> SLICE_FROM_STRING_ARGUMENT_RELEASE (char_array p, n) K w =
     K (w\<lparr>char_arrays := (char_arrays w)(p := None)\<rparr>)"
  by (simp add: SLICE_FROM_STRING_ARGUMENT_RELEASE_def use_object_def)

lemma run_with_char_array [running]:
  "char_arrays w p = Some s \<Longrightarrow> with_slice N (char_array p, n) K w = K (take n s) w"
  by (simp add: with_slice_def slice_bytes_def use_object_def)

lemma run_BUFFER [running]:
  "is_buffer N (env w) (argv ! i) s \<Longrightarrow> SLICE_FROM_BUFFER_ARGUMENT N argv i K w =
     K (js_buffer (fst (snd (napi_get_buffer_info N (env w) (argv ! i)))),
        snd (snd (napi_get_buffer_info N (env w) (argv ! i)))) w"
  by (auto simp: is_buffer_def SLICE_FROM_BUFFER_ARGUMENT_def NAPI_READ_def STATUS_THROWS_def
      split: prod.splits)

lemma is_buffer_bytes [simp]:
  "is_buffer N e v s \<Longrightarrow> buffer_memory N e (fst (snd (napi_get_buffer_info N e v)))
     (snd (snd (napi_get_buffer_info N e v))) = s"
  by (auto simp: is_buffer_def split: prod.splits)

lemma run_with_buffer [running]:
  "with_slice N (js_buffer p, n) K w = K (buffer_memory N (env w) p n) w"
  by (simp add: with_slice_def slice_bytes_def use_object_def)

lemma run_returns [running]:
  "RETURN v w = Returned w (Some v)" "NAPI_RETURN_UNDEFINED w = Returned w None"
  by (simp_all add: RETURN_def NAPI_RETURN_UNDEFINED_def)

text \<open>The exception a failed call of the engine leaves.\<close>

definition thrown_by :: "('e, 'v) napi \<Rightarrow> Status \<Rightarrow> 'e \<Rightarrow> 'e" where
  "thrown_by N s e = (if ok s then e else napi_throw_error N (c_str (Status_ToString s)) e)"

lemma run_STATUS [running]:
  "ROCKSDB_STATUS_THROWS N s K w = K (w\<lparr>env := thrown_by N s (env w)\<rparr>)"
  by (simp add: ROCKSDB_STATUS_THROWS_def thrown_by_def)

text \<open>Addresses not handed out hold nothing; slices do not look at the addon's arrays.\<close>

lemma wf_free:
  assumes "wf_world w" and "next_address w \<le> p"
  shows "char_arrays w p = None" "write_options w p = None" "batches w p = None"
    "promises w p = None" "slices w p = None" "references w p = None" "options_of w p = None"
proof -
  have "objects_at w p = 0"
    using assms unfolding wf_world_def by (metis le_zero_eq of_bool_eq(1) not_le)
  then show "char_arrays w p = None" "write_options w p = None" "batches w p = None"
    "promises w p = None" "slices w p = None" "references w p = None" "options_of w p = None"
    by (simp_all add: objects_at_def del: not_None_eq)
qed

lemma view_char_arrays:
  assumes "wf_world w"
  shows "view N (w\<lparr>next_address := n, char_arrays := x\<rparr>) = view N w"
proof
  fix p
  have "\<exists>b. fst sl = js_buffer b" if "slices w p = Some sl" for sl
    using assms that unfolding wf_world_def by blast
  then show "view N (w\<lparr>next_address := n, char_arrays := x\<rparr>) p = view N w p"
    by (cases "slices w p") (auto simp: view_def slice_bytes_def)
qed

section \<open>An example\<close>

text \<open>A world with one object of each kind, and arguments for its methods.\<close>

definition example_world :: "(node, jsval, store, unit) world" where
  "example_world = small_world
     \<lparr>next_address := 6, write_options := [1 \<mapsto> WriteOptions_new],
      read_options := [2 \<mapsto> ReadOptions_new], batches := [3 \<mapsto> WriteBatch_new 0 0],
      slices := [4 \<mapsto> (js_buffer 0, 1)], options_of := [5 \<mapsto> ()]\<rparr>"

lemma wf_example: "wf_world example_world"
  by (auto simp: wf_world_def objects_at_def example_world_def small_defs of_bool_def)

lemma example_fields [simp]:
  "env example_world = small_node" "engine_state example_world = small_store"
  "next_address example_world = 6" "write_options example_world = [1 \<mapsto> WriteOptions_new]"
  "read_options example_world = [2 \<mapsto> ReadOptions_new]"
  "batches example_world = [3 \<mapsto> WriteBatch_new 0 0]"
  "slices example_world = [4 \<mapsto> (js_buffer 0, 1)]" "options_of example_world = [5 \<mapsto> ()]"
  "char_arrays example_world = (\<lambda>_. None)"
  by (simp_all add: example_world_def small_defs)

lemma example_meanings [simp]:
  "has_args example_napi e vs vs" "is_external example_napi e (JsExternal p) p"
  "is_string example_napi enc e (JsString s) (encode enc s)"
  "is_buffer example_napi e (JsBuffer p n) (take n (memory e p))"
  by (simp_all add: has_args_def is_external_def is_string_def is_buffer_def)

section \<open>Single updates\<close>

abbreviation empty_batch :: abs_batch where
  "empty_batch \<equiv> \<lparr>a_seq = 0, a_ops = [], a_stack = []\<rparr>"

lemma single_batch:
  assumes "cmd_pre 0 c empty_batch" and "cmd_op 0 c = Some op"
  obtains b where "exec c (WriteBatch_new 0 0) = (length_status c, b)"
    and "ok (length_status c) \<Longrightarrow> holds b 0 [op]"
proof -
  have l: "length_status c = OK \<or> \<not> ok (length_status c)"
    by (cases c) (auto simp: check_lengths_def)
  obtain b where b: "exec c (WriteBatch_new 0 0) = (abs_status 0 0 c empty_batch, b)"
    and r: "represents 0 0 b (snd (abs_step 0 0 c empty_batch))"
    using exec_simulates[OF represents_new assms(1)] by blast
  have st: "abs_status 0 0 c empty_batch = length_status c"
    using assms(2) l by (auto simp: abs_status_def)
  have "holds b 0 [op]" if "ok (length_status c)"
  proof -
    have "abs_effect 0 c empty_batch = empty_batch\<lparr>a_ops := [op]\<rparr>"
      using assms(2) by (cases c) simp_all
    then show ?thesis
      using r that by (simp add: abs_step_def st represents_def)
  qed
  with b st that show ?thesis by simp
qed

lemma DB_Put_single:
  assumes "write_timestamp opt = nullptr" and "str_ok k" "str_ok v"
  shows "\<exists>b. holds b 0 [OpPut cf k v] \<and> DB_Put E db opt vw cf k v d = Some (write_batch E db opt b d)"
proof -
  have "ok (length_status (CPut cf k v))"
    using assms by (simp add: check_lengths_def kMaxUint32_def str_ok_def)
  moreover obtain b where "wb_Put (WriteBatch_new 0 0) cf k v = (length_status (CPut cf k v), b)"
    and "ok (length_status (CPut cf k v)) \<Longrightarrow> holds b 0 [OpPut cf k v]"
    using single_batch[of "CPut cf k v" "OpPut cf k v"] assms by (auto simp: cmd_pre_def)
  ultimately show ?thesis using assms(1) by (auto simp: DB_Put_def)
qed

lemma DB_Delete_single:
  assumes "str_ok k"
  shows "\<exists>b. holds b 0 [OpDelete cf k] \<and> DB_Delete E db opt cf k d = write_batch E db opt b d"
proof -
  obtain b where "wb_Delete (WriteBatch_new 0 0) cf k = (OK, b)" "holds b 0 [OpDelete cf k]"
    using single_batch[of "CDelete cf k" "OpDelete cf k"] assms by (auto simp: cmd_pre_def)
  then show ?thesis by (auto simp: DB_Delete_def)
qed

lemma DB_DeleteRange_single:
  assumes "str_ok k" "str_ok v"
  shows "\<exists>b. holds b 0 [OpDeleteRange cf k v]
    \<and> DB_DeleteRange E db opt cf k v d = write_batch E db opt b d"
proof -
  obtain b where "wb_DeleteRange (WriteBatch_new 0 0) cf k v = (OK, b)" "holds b 0 [OpDeleteRange cf k v]"
    using single_batch[of "CDeleteRange cf k v" "OpDeleteRange cf k v"] assms by (auto simp: cmd_pre_def)
  then show ?thesis by (auto simp: DB_DeleteRange_def)
qed

text \<open>
  How an update ends: the engine and the pending exception changed, \<open>n\<close> addresses used for
  arrays that are gone again.
\<close>

definition update_ends ::
  "('e, 'v) napi \<Rightarrow> nat \<Rightarrow> ('e, 'v, 'd, 'o) world \<Rightarrow> Status \<times> 'd
     \<Rightarrow> (('e, 'v, 'd, 'o) world, 'v) outcome" where
  "update_ends N n w r =
     (case r of (s, d) \<Rightarrow>
        Returned (w\<lparr>engine_state := d, env := thrown_by N s (env w),
                    next_address := next_address w + n\<rparr>) None)"

lemma fresh_released:
  assumes "wf_world w"
  shows "(char_arrays w)(next_address w := None) = char_arrays w"
    "(char_arrays w)(Suc (next_address w) := None) = char_arrays w"
  using wf_free(1)[OF assms] by (auto simp: fun_eq_iff)

text \<open>
  C10: putting with string arguments and options in which no timestamp is set hands the engine a
  batch that holds the one put of the copied characters, throws just when the write fails, and has freed both arrays at the end.
\<close>

theorem put_string_writes:
  assumes "wf_world w" and "has_args N (env w) info [j_db, j_k, j_v, j_o]"
    and "is_external N (env w) j_db db" "is_string N enc (env w) j_k k" "is_string N enc (env w) j_v v"
      "is_external N (env w) j_o p"
    and "write_options w p = Some opt" "write_timestamp opt = nullptr"
    and "str_ok k" "str_ok v"
  shows "\<exists>b. holds b 0 [OpPut 0 k v] \<and>
    put_string enc N E info w = update_ends N 2 w (write_batch E db opt b (engine_state w))"
proof -
  obtain b where b: "holds b 0 [OpPut 0 k v]"
    "DB_Put E db opt (view N w) 0 k v (engine_state w) = Some (write_batch E db opt b (engine_state w))"
    using DB_Put_single[OF assms(8-10), of 0 E db "view N w" "engine_state w"] by blast
  obtain s d where r: "write_batch E db opt b (engine_state w) = (s, d)" by fastforce
  have "put_string enc N E info w = update_ends N 2 w (s, d)"
    using assms(2-7) b(2)
    by (simp add: put_string_def put_call_def update_ends_def running view_char_arrays[OF assms(1)]
        fresh_released[OF assms(1)] r)
  with b(1) r show ?thesis by auto
qed

lemma put_string_writes_witness:
  "\<exists>b. holds b 0 [OpPut 0 [0xC3, 0xA9] [98]] \<and>
     put_string utf8 example_napi example_engine
       [JsExternal 7, JsString [0xE9], JsString [98], JsExternal 1] example_world =
     Returned (example_world\<lparr>engine_state := small_store\<lparr>written := [b]\<rparr>, next_address := 8\<rparr>) None"
proof -
  have "encode utf8 [0xE9] = [0xC3, 0xA9]" "encode utf8 [98] = [98]" by simp_all
  from put_string_writes[OF wf_example, where N = example_napi and E = example_engine and enc = utf8
      and j_db = "JsExternal 7" and j_k = "JsString [0xE9]" and j_v = "JsString [98]"
      and j_o = "JsExternal 1" and db = 7 and p = 1 and opt = WriteOptions_new and k = "[0xC3, 0xA9]"
      and v = "[98]", OF example_meanings(1)]
  obtain b where b: "holds b 0 [OpPut 0 [0xC3, 0xA9] [98]]"
    "put_string utf8 example_napi example_engine
       [JsExternal 7, JsString [0xE9], JsString [98], JsExternal 1] example_world =
     update_ends example_napi 2 example_world
       (write_batch example_engine 7 WriteOptions_new b (engine_state example_world))"
    using example_meanings(3)[of utf8 small_node "[0xE9]"] example_meanings(3)[of utf8 small_node "[98]"]
    by (auto simp: WriteOptions_new_def str_ok_def)
  then show ?thesis
    by (intro exI[of _ b])
      (simp add: update_ends_def write_batch_def thrown_by_def small_store_def)
qed

text \<open>
  C14: deleting a range given by two buffers hands the engine a batch that holds the one range
  deletion of their bytes, throws just when the write fails and returns undefined.
\<close>

theorem delete_range_writes:
  assumes "has_args N (env w) info [j_db, j_from, j_till, j_o]"
    and "is_external N (env w) j_db db" "is_buffer N (env w) j_from k"
      "is_buffer N (env w) j_till v" "is_external N (env w) j_o p"
    and "write_options w p = Some opt" and "str_ok k" "str_ok v"
  shows "\<exists>b. holds b 0 [OpDeleteRange 0 k v] \<and>
    rocksdb_delete_range N E info w = update_ends N 0 w (write_batch E db opt b (engine_state w))"
proof -
  obtain b where b: "holds b 0 [OpDeleteRange 0 k v]"
    "DB_DeleteRange E db opt 0 k v (engine_state w) = write_batch E db opt b (engine_state w)"
    using DB_DeleteRange_single[OF assms(7-8), of 0 E db opt "engine_state w"] by blast
  obtain s d where r: "write_batch E db opt b (engine_state w) = (s, d)" by fastforce
  have "rocksdb_delete_range N E info w = update_ends N 0 w (s, d)"
    using assms(1-6) b(2)
    by (simp add: rocksdb_delete_range_def delete_range_call_def update_ends_def ENGINE_def
        running r)
  with b(1) r show ?thesis by auto
qed

lemma delete_range_writes_witness:
  "\<exists>b. holds b 0 [OpDeleteRange 0 [] []] \<and>
     rocksdb_delete_range example_napi example_engine
       [JsExternal 7, JsBuffer 0 1, JsBuffer 1 2, JsExternal 1] example_world =
     Returned (example_world\<lparr>engine_state := small_store\<lparr>written := [b]\<rparr>\<rparr>) None"
proof -
  obtain b where b: "holds b 0 [OpDeleteRange 0 [] []]"
    "rocksdb_delete_range example_napi example_engine
       [JsExternal 7, JsBuffer 0 1, JsBuffer 1 2, JsExternal 1] example_world =
     update_ends example_napi 0 example_world
       (write_batch example_engine 7 WriteOptions_new b (engine_state example_world))"
    using delete_range_writes[where N = example_napi and E = example_engine and w = example_world
      and j_db = "JsExternal 7" and j_from = "JsBuffer 0 1" and j_till = "JsBuffer 1 2"
      and j_o = "JsExternal 1" and db = 7 and p = 1 and opt = WriteOptions_new and k = "[]"
      and v = "[]", OF example_meanings(1)]
      example_meanings(4)[of small_node 0 1] example_meanings(4)[of small_node 1 2]
    by (auto simp: str_ok_def small_node_def)
  then show ?thesis
    by (intro exI[of _ b])
      (simp add: update_ends_def write_batch_def thrown_by_def small_store_def)
qed

section \<open>Reading\<close>

text \<open>
  C13: reading a key given as a string returns the value as a string when the engine finds
  one, undefined when it says not found, and otherwise null with the status as exception; the
  array of the key has been freed in every case.
\<close>

theorem get_string_returns:
  assumes "wf_world w" and "has_args N (env w) info [j_db, j_k, j_o]"
    and "is_external N (env w) j_db db" "is_string N enc (env w) j_k k"
      "is_external N (env w) j_o p"
    and "read_options w p = Some opt"
    and "DB_Get E db opt (view N w) 0 k (engine_state w) = (s, v, d)"
    and "napi_create_string N enc v (env w) = (napi_ok, value_js, e_value)"
    and "napi_get_undefined N (env w) = (napi_ok, undef_js, e_undef)"
  shows "get_string enc N E info w =
    (if ok s then Returned (w\<lparr>engine_state := d, next_address := next_address w + 1, env := e_value\<rparr>) (Some value_js)
     else if IsNotFound s
     then Returned (w\<lparr>engine_state := d, next_address := next_address w + 1, env := e_undef\<rparr>) (Some undef_js)
     else Returned (w\<lparr>engine_state := d, next_address := next_address w + 1,
            env := napi_throw_error N (c_str (Status_ToString s)) (env w)\<rparr>) None)"
  using assms(2-9)
  by (simp add: get_string_def get_call_def get_result_def ENGINE_def running
      view_char_arrays[OF assms(1)] fresh_released[OF assms(1)] thrown_by_def)

lemma get_string_returns_witness:
  "get_string latin1 example_napi example_engine [JsExternal 7, JsString [1], JsExternal 2] example_world =
     Returned (example_world\<lparr>next_address := 7\<rparr>) (Some JsUndefined)"
  using get_string_returns[OF wf_example example_meanings(1) example_meanings(2) _ example_meanings(2),
      where opt = ReadOptions_new and E = example_engine and enc = latin1 and j_k = "JsString [1]"
      and k = "[1]" and db = 7 and p = 2
      and s = "NotFound_sub kNone" and v = "[]" and d = small_store and value_js = "JsString []"
      and e_value = small_node and undef_js = JsUndefined and e_undef = small_node]
  by (simp add: small_store_def NotFound_sub_def Status_code_def ok_def IsNotFound_def
      example_meanings(3)[of latin1, simplified])

section \<open>Failures\<close>

text \<open>
  C17: when the key is a string but the value is not, the method throws and returns, and
  the two arrays it has allocated stay allocated, the one with the key's characters for good.
\<close>

theorem put_string_leaks:
  assumes "has_args N (env w) info [j_db, j_k, j_v, j_o]"
    and "is_external N (env w) j_db db" "is_string N enc (env w) j_k k"
    and "napi_string_copy N enc (env w) j_v (snd (napi_string_size N enc (env w) j_v) + 1)
           = (status, junk)" and "status \<noteq> napi_ok"
  shows "put_string enc N E info w =
    Returned (w\<lparr>env := napi_macros_throw N (env w), next_address := next_address w + 2,
                char_arrays := (char_arrays w)(next_address w \<mapsto> k, next_address w + 1 \<mapsto> [])\<rparr>) None"
  using assms
  by (simp add: put_string_def running SLICE_FROM_STRING_ARGUMENT_def[of N enc "[j_db, j_k, j_v, j_o]" 2]
      new_object_def NAPI_READ_def STATUS_THROWS_def Let_def)

lemma put_string_leaks_witness:
  "put_string latin1 example_napi example_engine
     [JsExternal 7, JsString [1, 2], JsUndefined, JsExternal 1] example_world =
   Returned (example_world\<lparr>env := small_node\<lparr>exception := Some (str ''call failed!'')\<rparr>,
       next_address := 8, char_arrays := [6 \<mapsto> [1, 2], 7 \<mapsto> []]\<rparr>) None"
  using put_string_leaks[OF example_meanings(1) example_meanings(2),
      where w = example_world and enc = latin1 and j_v = JsUndefined and status = 3 and junk = "[]"
      and E = example_engine and db = 7 and k = "[1, 2]" and j_k = "JsString [1, 2]"
      and j_o = "JsExternal 1"] example_meanings(3)[of latin1 small_node "[1, 2]"]
  by simp

text \<open>
  C16: an open that fails leaves its reference container allocated: with the exception
  pending the external cannot be made, so no finalizer will ever free the container.
\<close>

theorem failed_open_leaks:
  assumes "has_args N (env w) info [j_loc, j_o]"
    and "is_buffer N (env w) j_loc location" "is_external N (env w) j_o p"
    and "options_of w p = Some opt"
    and "DB_Open E opt location indeterminate (engine_state w) = (s, db, d)" and "\<not> ok s"
    and "napi_create_external N db db_finalizer (next_address w)
           (napi_throw_error N (c_str (Status_ToString s)) (env w)) = (status, junk, e)"
    and "status \<noteq> napi_ok"
  shows "rocksdb_open N E indeterminate info w =
    Returned (w\<lparr>engine_state := d, env := napi_macros_throw N e,
                next_address := next_address w + 1,
                references := (references w)(next_address w \<mapsto> 0)\<rparr>) None"
proof -
  have location: "STRING_FROM_BUFFER_ARGUMENT N [j_loc, j_o] 0 K w = K location w" for K
    using assms(2) by (auto simp: is_buffer_def STRING_FROM_BUFFER_ARGUMENT_def NAPI_READ_def
        STATUS_THROWS_def split: prod.splits)
  show ?thesis
    using assms(1,3-8)
    by (simp add: rocksdb_open_def location running ENGINE_def new_object_def Let_def
        thrown_by_def NAPI_CREATE_def STATUS_THROWS_def)
qed

lemma failed_open_leaks_witness:
  "\<exists>w. rocksdb_open example_napi example_engine 99 [JsBuffer 0 0, JsExternal 5]
       (example_world\<lparr>engine_state := small_store\<lparr>answer := IOError [] []\<rparr>\<rparr>) = Returned w None
     \<and> references w 6 = Some 0"
  using failed_open_leaks[where N = example_napi and E = example_engine and j_o = "JsExternal 5"
      and j_loc = "JsBuffer 0 0" and indeterminate = 99 and status = 10 and opt = "()"
      and w = "example_world\<lparr>engine_state := small_store\<lparr>answer := IOError [] []\<rparr>\<rparr>"
      and s = "IOError [] []" and db = 99 and d = "small_store\<lparr>answer := IOError [] []\<rparr>" and p = 5
      and location = "[]" and junk = JsUndefined
      and e = "small_node\<lparr>exception := Some (c_str (Status_ToString (IOError [] [])))\<rparr>",
      OF example_meanings(1)] example_meanings(4)[of small_node 0 0]
  by (auto simp: IOError_def Status_msg_def ok_def unless_pending_def small_store_def)

text \<open>
  C15: write options keep a bare pointer to their timestamp: once JavaScript has collected
  the slice that was set as timestamp, a put with these options follows a dangling pointer.
\<close>

theorem timestamp_dangles:
  assumes "has_args N (env w) info_set [j_o, j_ts]"
    and "is_external N (env w) j_o p" "is_external N (env w) j_ts ts"
    and "write_options w p = Some opt" "slices w ts = Some sl" "ts \<noteq> nullptr"
    and "has_args N (env w) info_get [j_db, j_k, j_v, j_o]"
    and "is_external N (env w) j_db db" "is_string N enc (env w) j_k k"
      "is_string N enc (env w) j_v v"
  shows "\<exists>w1 w2. rocksdb_write_options_set_timestamp N info_set w = Returned w1 None
    \<and> rocksdb_slice_finalize ts hint w1 = Returned w2 None
    \<and> put_string enc N E info_get w2 = Undefined"
proof -
  define w1 where "w1 = w\<lparr>write_options := (write_options w)(p \<mapsto> opt\<lparr>write_timestamp := ts\<rparr>)\<rparr>"
  define w2 where "w2 = w1\<lparr>slices := (slices w1)(ts := None)\<rparr>"
  have 1: "rocksdb_write_options_set_timestamp N info_set w = Returned w1 None"
    using assms(1-4) by (simp add: rocksdb_write_options_set_timestamp_def running w1_def)
  have 2: "rocksdb_slice_finalize ts hint w1 = Returned w2 None"
    using assms(5,6) by (simp add: rocksdb_slice_finalize_def running w1_def w2_def)
  have "env w2 = env w" "write_options w2 p = Some (opt\<lparr>write_timestamp := ts\<rparr>)"
    "slices w2 ts = None"
    by (simp_all add: w1_def w2_def)
  then have "put_string enc N E info_get w2 = Undefined"
    using assms(2,6-10) by (simp add: put_string_def put_call_def running DB_Put_def view_def)
  with 1 2 show ?thesis by blast
qed

lemma timestamp_dangles_witness:
  "\<exists>w1 w2. rocksdb_write_options_set_timestamp example_napi [JsExternal 1, JsExternal 4] example_world =
       Returned w1 None
     \<and> rocksdb_slice_finalize 4 0 w1 = Returned w2 None
     \<and> put_string latin1 example_napi example_engine
          [JsExternal 7, JsString [1], JsString [2], JsExternal 1] w2 = Undefined"
  using timestamp_dangles[where N = example_napi and w = example_world and p = 1 and ts = 4
      and opt = WriteOptions_new and sl = "(js_buffer 0, 1)" and enc = latin1 and hint = 0
      and E = example_engine, OF example_meanings(1) example_meanings(2) example_meanings(2) _ _ _
      example_meanings(1) example_meanings(2) example_meanings(3) example_meanings(3), of 7 "[1]" "[2]"]
  by simp

section \<open>Options\<close>

text \<open>The flags of the write options, and the flags and the numbers of the read options, with their methods.\<close>

definition write_fields :: "(WriteOptions \<Rightarrow> bool) list" where
  "write_fields =
     [sync,
      disableWAL,
      ignore_missing_column_families,
      no_slowdown,
      low_pri]"

definition write_getters :: "('e, 'v) napi \<Rightarrow> ('v list \<Rightarrow> ('e, 'v, 'd, 'o) act) list" where
  "write_getters N =
     [rocksdb_write_options_get_sync N,
      rocksdb_write_options_get_disableWAL N,
      rocksdb_write_options_get_ignore_missing_column_families N,
      rocksdb_write_options_get_no_slowdown N,
      rocksdb_write_options_get_low_pri N]"

definition write_setters :: "('e, 'v) napi \<Rightarrow> ('v list \<Rightarrow> ('e, 'v, 'd, 'o) act) list" where
  "write_setters N =
     [rocksdb_write_options_set_sync N,
      rocksdb_write_options_set_disableWAL N,
      rocksdb_write_options_set_ignore_missing_column_families N,
      rocksdb_write_options_set_no_slowdown N,
      rocksdb_write_options_set_low_pri N]"

definition read_fields :: "(ReadOptions \<Rightarrow> bool) list" where
  "read_fields =
     [verify_checksums,
      fill_cache,
      tailing,
      managed,
      total_order_seek,
      prefix_same_as_start,
      pin_data,
      background_purge_on_iterator_cleanup,
      ignore_range_deletions]"

definition read_getters :: "('e, 'v) napi \<Rightarrow> ('v list \<Rightarrow> ('e, 'v, 'd, 'o) act) list" where
  "read_getters N =
     [rocksdb_read_options_get_verify_checksums N,
      rocksdb_read_options_get_fill_cache N,
      rocksdb_read_options_get_tailing N,
      rocksdb_read_options_get_managed N,
      rocksdb_read_options_get_total_order_seek N,
      rocksdb_read_options_get_prefix_same_as_start N,
      rocksdb_read_options_get_pin_data N,
      rocksdb_read_options_get_background_purge_on_iterator_cleanup N,
      rocksdb_read_options_get_ignore_range_deletions N]"

definition read_setters :: "('e, 'v) napi \<Rightarrow> ('v list \<Rightarrow> ('e, 'v, 'd, 'o) act) list" where
  "read_setters N =
     [rocksdb_read_options_set_verify_checksums N,
      rocksdb_read_options_set_fill_cache N,
      rocksdb_read_options_set_tailing N,
      rocksdb_read_options_set_managed N,
      rocksdb_read_options_set_total_order_seek N,
      rocksdb_read_options_set_prefix_same_as_start N,
      rocksdb_read_options_set_pin_data N,
      rocksdb_read_options_set_background_purge_on_iterator_cleanup N,
      rocksdb_read_options_set_ignore_range_deletions N]"

definition number_fields :: "(ReadOptions \<Rightarrow> u64) list" where
  "number_fields =
     [max_skippable_internal_keys,
      iter_start_seqnum,
      readahead_size]"

definition number_getters :: "('e, 'v) napi \<Rightarrow> ('v list \<Rightarrow> ('e, 'v, 'd, 'o) act) list" where
  "number_getters N =
     [rocksdb_read_options_get_max_skippable_internal_keys N,
      rocksdb_read_options_get_iter_start_seqnum N,
      rocksdb_read_options_get_readahead_size N]"

definition number_setters :: "('e, 'v) napi \<Rightarrow> ('v list \<Rightarrow> ('e, 'v, 'd, 'o) act) list" where
  "number_setters N =
     [rocksdb_read_options_set_max_skippable_internal_keys N,
      rocksdb_read_options_set_iter_start_seqnum N,
      rocksdb_read_options_set_readahead_size N]"

lemma run_write_options_setter:
  assumes "has_args N (env w) info [j_o, j_v]" and "is_external N (env w) j_o p"
    and "napi_get_value_bool N (env w) j_v = (napi_ok, x)" and "write_options w p = Some opt"
  shows "write_options_setter N store info w =
    Returned (w\<lparr>write_options := (write_options w)(p \<mapsto> store x opt)\<rparr>) None"
  using assms by (simp add: write_options_setter_def running)

lemma run_write_options_getter:
  assumes "has_args N (env w) info [j_o]" and "is_external N (env w) j_o p"
    and "write_options w p = Some opt" and "napi_get_boolean N (field opt) (env w) = (napi_ok, r, e)"
  shows "write_options_getter N field info w = Returned (w\<lparr>env := e\<rparr>) (Some r)"
  using assms by (simp add: write_options_getter_def running)

lemma run_read_options_setter:
  assumes "has_args N (env w) info [j_o, j_v]" and "is_external N (env w) j_o p"
    and "read (env w) j_v = (napi_ok, x)" and "read_options w p = Some opt"
  shows "read_options_setter N read store info w =
    Returned (w\<lparr>read_options := (read_options w)(p \<mapsto> store x opt)\<rparr>) None"
  using assms by (simp add: read_options_setter_def store_read_options_def running)

lemma run_read_options_getter:
  assumes "has_args N (env w) info [j_o]" and "is_external N (env w) j_o p"
    and "read_options w p = Some opt" and "mk opt (env w) = (napi_ok, r, e)"
  shows "read_options_getter N mk info w = Returned (w\<lparr>env := e\<rparr>) (Some r)"
  using assms by (simp add: read_options_getter_def running)

text \<open>Storing in one field shows in this field and in no other.\<close>

lemma less_5: "i < 5 \<longleftrightarrow> i = 0 \<or> i = 1 \<or> i = 2 \<or> i = 3 \<or> i = (4 :: nat)"
  by arith

lemma less_9:
  "i < 9 \<longleftrightarrow> i = 0 \<or> i = 1 \<or> i = 2 \<or> i = 3 \<or> i = 4 \<or> i = 5 \<or> i = 6 \<or> i = 7 \<or> i = (8 :: nat)"
  by arith

lemma less_3: "i < 3 \<longleftrightarrow> i = 0 \<or> i = 1 \<or> i = (2 :: nat)"
  by arith

definition write_stores :: "(bool \<Rightarrow> WriteOptions \<Rightarrow> WriteOptions) list" where
  "write_stores =
     [\<lambda>x opt. opt\<lparr>sync := x\<rparr>,
      \<lambda>x opt. opt\<lparr>disableWAL := x\<rparr>,
      \<lambda>x opt. opt\<lparr>ignore_missing_column_families := x\<rparr>,
      \<lambda>x opt. opt\<lparr>no_slowdown := x\<rparr>,
      \<lambda>x opt. opt\<lparr>low_pri := x\<rparr>]"

definition read_stores :: "(bool \<Rightarrow> ReadOptions \<Rightarrow> ReadOptions) list" where
  "read_stores =
     [\<lambda>x opt. opt\<lparr>verify_checksums := x\<rparr>,
      \<lambda>x opt. opt\<lparr>fill_cache := x\<rparr>,
      \<lambda>x opt. opt\<lparr>tailing := x\<rparr>,
      \<lambda>x opt. opt\<lparr>managed := x\<rparr>,
      \<lambda>x opt. opt\<lparr>total_order_seek := x\<rparr>,
      \<lambda>x opt. opt\<lparr>prefix_same_as_start := x\<rparr>,
      \<lambda>x opt. opt\<lparr>pin_data := x\<rparr>,
      \<lambda>x opt. opt\<lparr>background_purge_on_iterator_cleanup := x\<rparr>,
      \<lambda>x opt. opt\<lparr>ignore_range_deletions := x\<rparr>]"

definition number_stores :: "(u64 \<times> bool \<Rightarrow> ReadOptions \<Rightarrow> ReadOptions) list" where
  "number_stores =
     [\<lambda>(x, lossless) opt. opt\<lparr>max_skippable_internal_keys := x\<rparr>,
      \<lambda>(x, lossless) opt. opt\<lparr>iter_start_seqnum := x\<rparr>,
      \<lambda>(x, lossless) opt. opt\<lparr>readahead_size := x\<rparr>]"

lemma write_tables:
  assumes "i < 5"
  shows "write_setters N ! i = write_options_setter N (write_stores ! i)"
    and "write_getters N ! i = write_options_getter N (write_fields ! i)"
  using assms unfolding less_5
  by (elim disjE; simp add: write_setters_def write_stores_def write_getters_def write_fields_def
      shared_method_defs fun_eq_iff)+

lemma write_store_field:
  assumes "i < 5" "j < 5"
  shows "(write_fields ! j) ((write_stores ! i) x opt) = (if i = j then x else (write_fields ! j) opt)"
  using assms unfolding less_5
  by (elim disjE; simp add: write_stores_def write_fields_def)

lemma read_tables:
  assumes "i < 9"
  shows "read_setters N ! i = read_options_setter N (napi_get_value_bool N) (read_stores ! i)"
    and "read_getters N ! i = read_options_getter N (\<lambda>opt. napi_get_boolean N ((read_fields ! i) opt))"
  using assms unfolding less_9
  by (elim disjE; simp add: read_setters_def read_stores_def read_getters_def read_fields_def
      shared_method_defs fun_eq_iff)+

lemma number_tables:
  assumes "i < 3"
  shows "number_setters N ! i = read_options_setter N (napi_get_value_bigint_uint64 N) (number_stores ! i)"
    and "number_getters N ! i =
      read_options_getter N (\<lambda>opt. napi_create_bigint_uint64 N ((number_fields ! i) opt))"
  using assms unfolding less_3
  by (elim disjE; simp add: number_setters_def number_stores_def number_getters_def number_fields_def
      shared_method_defs fun_eq_iff)+

lemma read_store_field:
  assumes "i < 9" "j < 9"
  shows "(read_fields ! j) ((read_stores ! i) x opt) = (if i = j then x else (read_fields ! j) opt)"
  using assms unfolding less_9
  by (elim disjE; simp add: read_stores_def read_fields_def)

lemma number_store_field:
  assumes "i < 3" "j < 3"
  shows "(number_fields ! j) ((number_stores ! i) x opt) =
    (if i = j then fst x else (number_fields ! j) opt)"
  using assms unfolding less_3
  by (elim disjE; simp add: number_stores_def number_fields_def split: prod.split)

text \<open>
  The flag of the write options that a setter stores is what the getter of the same
  flag returns afterwards, and every other getter still returns what its flag was.
\<close>

theorem write_flags_roundtrip:
  assumes "i < 5" "j < 5"
    and "has_args N (env w) info_set [j_o, j_v]" and "is_external N (env w) j_o p"
    and "napi_get_value_bool N (env w) j_v = (napi_ok, x)" and "write_options w p = Some opt"
    and "has_args N (env w) info_get [j_o]"
    and "napi_get_boolean N (if i = j then x else (write_fields ! j) opt) (env w) = (napi_ok, r, e)"
  shows "\<exists>w'. (write_setters N ! i) info_set w = Returned w' None
    \<and> (write_getters N ! j) info_get w' = Returned (w'\<lparr>env := e\<rparr>) (Some r)"
  using assms
  by (simp add: write_tables run_write_options_setter run_write_options_getter write_store_field)

lemma write_flags_roundtrip_witness:
  "\<exists>w'. rocksdb_write_options_set_sync example_napi [JsExternal 1, JsBoolean True] example_world =
       Returned w' None
     \<and> rocksdb_write_options_get_sync example_napi [JsExternal 1] w' =
         Returned (w'\<lparr>env := small_node\<rparr>) (Some (JsBoolean True))"
  using write_flags_roundtrip[where N = example_napi and w = example_world and i = 0 and j = 0 and p = 1
      and opt = WriteOptions_new and x = True and r = "JsBoolean True" and e = small_node,
      OF _ _ example_meanings(1) example_meanings(2) _ _ example_meanings(1), of "JsBoolean True"]
  by (simp add: write_setters_def write_getters_def)

text \<open>
  The same of the flags of the read options.
\<close>

theorem read_flags_roundtrip:
  assumes "i < 9" "j < 9"
    and "has_args N (env w) info_set [j_o, j_v]" and "is_external N (env w) j_o p"
    and "napi_get_value_bool N (env w) j_v = (napi_ok, x)" and "read_options w p = Some opt"
    and "has_args N (env w) info_get [j_o]"
    and "napi_get_boolean N (if i = j then x else (read_fields ! j) opt) (env w) = (napi_ok, r, e)"
  shows "\<exists>w'. (read_setters N ! i) info_set w = Returned w' None
    \<and> (read_getters N ! j) info_get w' = Returned (w'\<lparr>env := e\<rparr>) (Some r)"
  using assms
  by (simp add: read_tables run_read_options_setter run_read_options_getter read_store_field)

lemma read_flags_roundtrip_witness:
  "\<exists>w'. rocksdb_read_options_set_tailing example_napi [JsExternal 2, JsBoolean True] example_world =
       Returned w' None
     \<and> rocksdb_read_options_get_fill_cache example_napi [JsExternal 2] w' =
         Returned (w'\<lparr>env := small_node\<rparr>) (Some (JsBoolean True))"
  using read_flags_roundtrip[where N = example_napi and w = example_world and i = 2 and j = 1 and p = 2
      and opt = ReadOptions_new and x = True and r = "JsBoolean True" and e = small_node,
      OF _ _ example_meanings(1) example_meanings(2) _ _ example_meanings(1), of "JsBoolean True"]
  by (simp add: read_setters_def read_getters_def read_fields_def ReadOptions_new_def
      numeral_2_eq_2)

text \<open>
  The same of the numbers of the read options, which go through JavaScript as big
  integers; what does not fit in 64 bits is stored as Node truncates it.
\<close>

theorem read_numbers_roundtrip:
  assumes "i < 3" "j < 3"
    and "has_args N (env w) info_set [j_o, j_v]" and "is_external N (env w) j_o p"
    and "napi_get_value_bigint_uint64 N (env w) j_v = (napi_ok, y, lossless)"
    and "read_options w p = Some opt" and "has_args N (env w) info_get [j_o]"
    and "napi_create_bigint_uint64 N (if i = j then y else (number_fields ! j) opt) (env w)
           = (napi_ok, r, e)"
  shows "\<exists>w'. (number_setters N ! i) info_set w = Returned w' None
    \<and> (number_getters N ! j) info_get w' = Returned (w'\<lparr>env := e\<rparr>) (Some r)"
proof -
  let ?opt = "(number_stores ! i) (y, lossless) opt"
  let ?w = "w\<lparr>read_options := (read_options w)(p \<mapsto> ?opt)\<rparr>"
  have "(number_setters N ! i) info_set w = Returned ?w None"
    unfolding number_tables(1)[OF assms(1)]
    by (rule run_read_options_setter[where read = "napi_get_value_bigint_uint64 N", OF assms(3-6)])
  moreover have "(number_getters N ! j) info_get ?w = Returned (?w\<lparr>env := e\<rparr>) (Some r)"
    unfolding number_tables(2)[OF assms(2)]
    by (rule run_read_options_getter[where opt = ?opt and p = p])
      (use assms number_store_field[OF assms(1,2)] in \<open>simp_all split: if_splits\<close>)
  ultimately show ?thesis by blast
qed

lemma read_numbers_roundtrip_witness:
  "\<exists>w'. rocksdb_read_options_set_readahead_size example_napi [JsExternal 2, JsBigint 4096] example_world =
       Returned w' None
     \<and> rocksdb_read_options_get_readahead_size example_napi [JsExternal 2] w' =
         Returned (w'\<lparr>env := small_node\<rparr>) (Some (JsBigint 4096))"
  using read_numbers_roundtrip[where N = example_napi and w = example_world and i = 2 and j = 2 and p = 2
      and opt = ReadOptions_new and y = 4096 and lossless = True and r = "JsBigint 4096"
      and e = small_node,
      OF _ _ example_meanings(1) example_meanings(2) _ _ example_meanings(1), of "JsBigint 4096"]
  by (simp add: number_setters_def number_getters_def numeral_2_eq_2)

section \<open>Batches\<close>

text \<open>
  The calls of JavaScript on a batch, and the command of the batch machine that a call with
  its arguments stands for. A string argument comes with its encoding, a buffer with none.
\<close>

datatype batch_js = JPut "encoding option" | JDelete "encoding option" | JClear

fun batch_method :: "('e, 'v) napi \<Rightarrow> batch_js \<Rightarrow> 'v list \<Rightarrow> ('e, 'v, 'd, 'o) act" where
  "batch_method N (JPut None) = rocksdb_batch_put N"
| "batch_method N (JPut (Some utf8)) = rocksdb_batch_put_utf8 N"
| "batch_method N (JPut (Some latin1)) = rocksdb_batch_put_latin1 N"
| "batch_method N (JDelete None) = rocksdb_batch_delete N"
| "batch_method N (JDelete (Some utf8)) = rocksdb_batch_delete_utf8 N"
| "batch_method N (JDelete (Some latin1)) = rocksdb_batch_delete_latin1 N"
| "batch_method N JClear = rocksdb_batch_clear N"

definition is_bytes :: "('e, 'v) napi \<Rightarrow> encoding option \<Rightarrow> 'e \<Rightarrow> 'v \<Rightarrow> bytes \<Rightarrow> bool" where
  "is_bytes N enc e v s = (case enc of None \<Rightarrow> is_buffer N e v s | Some c \<Rightarrow> is_string N c e v s)"

fun stands_for ::
  "('e, 'v) napi \<Rightarrow> 'e \<Rightarrow> ptr \<Rightarrow> batch_js \<times> 'v list \<Rightarrow> batch_cmd \<Rightarrow> bool" where
  "stands_for N e p (JPut enc, info) (CPut cf k v) \<longleftrightarrow> cf = 0 \<and>
     (\<exists>j_b j_k j_v. has_args N e info [j_b, j_k, j_v] \<and> is_external N e j_b p
        \<and> is_bytes N enc e j_k k \<and> is_bytes N enc e j_v v)"
| "stands_for N e p (JDelete enc, info) (CDelete cf k) \<longleftrightarrow> cf = 0 \<and>
     (\<exists>j_b j_k. has_args N e info [j_b, j_k] \<and> is_external N e j_b p \<and> is_bytes N enc e j_k k)"
| "stands_for N e p (JClear, info) CClear \<longleftrightarrow>
     (\<exists>j_b. has_args N e info [j_b] \<and> is_external N e j_b p)"
| "stands_for N e p _ _ \<longleftrightarrow> False"

lemma run_batch_call [running]:
  "batches w p = Some b \<Longrightarrow> oper b = (s, b') \<Longrightarrow>
   batch_call p oper K w = K s (w\<lparr>batches := (batches w)(p \<mapsto> b')\<rparr>)"
  by (simp add: batch_call_def use_object_def)

lemma thrown_by_OK [simp]: "thrown_by N OK e = e"
  by (simp add: thrown_by_def)

lemma batch_method_runs:
  assumes "wf_world w" and "stands_for N (env w) p (kind, info) c"
    and "batches w p = Some b" and "exec c b = (s, b')"
  shows "\<exists>n. batch_method N kind info w =
    Returned (w\<lparr>batches := (batches w)(p \<mapsto> b'), env := thrown_by N s (env w),
                next_address := next_address w + n\<rparr>) None"
  using assms(2)
proof (cases rule: stands_for.elims(2))
  case (1 e0 p0 enc info' cf k v)
  then obtain j_b j_k j_v where args: "has_args N (env w) info [j_b, j_k, j_v]"
    "is_external N (env w) j_b p" "is_bytes N enc (env w) j_k k" "is_bytes N enc (env w) j_v v"
    by auto
  have put: "wb_Put b 0 k v = (s, b')" using assms(4) 1 by simp
  show ?thesis
  proof (cases enc)
    case None
    with args put assms(3) 1 show ?thesis
      by (auto simp: is_bytes_def rocksdb_batch_put_def running intro!: exI[of _ 0])
  next
    case (Some c)
    with args put assms(3) have "batch_put_string c N info w =
        Returned (w\<lparr>batches := (batches w)(p \<mapsto> b'), env := thrown_by N s (env w),
                next_address := next_address w + 2\<rparr>) None"
      by (simp add: is_bytes_def batch_put_string_def running fresh_released[OF assms(1)])
    then show ?thesis
      using 1 Some by (cases c) (auto simp: rocksdb_batch_put_utf8_def rocksdb_batch_put_latin1_def
          intro!: exI[of _ 2])
  qed
next
  case (2 e0 p0 enc info' cf k)
  then obtain j_b j_k where args: "has_args N (env w) info [j_b, j_k]"
    "is_external N (env w) j_b p" "is_bytes N enc (env w) j_k k"
    by auto
  have delete: "wb_Delete b 0 k = (s, b')" using assms(4) 2 by simp
  show ?thesis
  proof (cases enc)
    case None
    with args delete assms(3) 2 show ?thesis
      by (auto simp: is_bytes_def rocksdb_batch_delete_def running intro!: exI[of _ 0])
  next
    case (Some c)
    with args delete assms(3) 2 show ?thesis
      by (cases c) (auto simp: is_bytes_def rocksdb_batch_delete_utf8_def
          rocksdb_batch_delete_latin1_def running fresh_released[OF assms(1)] intro!: exI[of _ 1])
  qed
next
  case (3 e0 p0 info')
  then show ?thesis
    using assms(3,4) by (auto simp: rocksdb_batch_clear_def running intro!: exI[of _ 0])
qed

text \<open>
  A session: between two calls JavaScript runs, so that each call meets Node in a state of its
  own, of which nothing is known but what the arguments of the call are in it. The result
  lists what each call returned and the state of Node, with its exception, that it left.
\<close>

fun run_session ::
  "('e, 'v) napi \<Rightarrow> ('e \<times> batch_js \<times> 'v list) list \<Rightarrow> ('e, 'v, 'd, 'o) world \<Rightarrow>
     (('v option \<times> 'e) list \<times> ('e, 'v, 'd, 'o) world) option"
where
  "run_session N [] w = Some ([], w)"
| "run_session N ((e, kind, info) # cs) w =
     (case batch_method N kind info (w\<lparr>env := e\<rparr>) of
        Returned w' r \<Rightarrow>
          (case run_session N cs w' of
             Some (rs, w'') \<Rightarrow> Some ((r, env w') # rs, w'')
           | None \<Rightarrow> None)
      | Undefined \<Rightarrow> None
      | Fatal \<Rightarrow> None)"

lemma wf_next: "wf_world w \<Longrightarrow> wf_world (w\<lparr>next_address := next_address w + n\<rparr>)"
proof -
  assume w: "wf_world w"
  have "objects_at (w\<lparr>next_address := next_address w + n\<rparr>) q = objects_at w q" for q
    by (simp add: objects_at_def)
  moreover have "objects_at w q \<le> of_bool (nullptr < q \<and> q < next_address w + n)" for q
  proof -
    have "objects_at w q \<le> of_bool (nullptr < q \<and> q < next_address w)"
      using w unfolding wf_world_def by blast
    then show ?thesis by (auto simp: of_bool_def split: if_splits)
  qed
  ultimately show ?thesis
    using w unfolding wf_world_def by simp
qed

lemma batch_call_keeps_wf:
  assumes "wf_world w" "batches w p = Some b"
  shows "wf_world (w\<lparr>batches := (batches w)(p \<mapsto> b'), env := e, next_address := next_address w + n\<rparr>)"
proof -
  have "w\<lparr>batches := (batches w)(p \<mapsto> b'), env := e, next_address := next_address w + n\<rparr> =
      w\<lparr>batches := (batches w)(p \<mapsto> b'), next_address := next_address w + n, env := e\<rparr>"
    by simp
  then show ?thesis
    using wf_next [OF wf_update(5) [OF assms, of b'], of n] by (simp only: wf_frame) simp
qed

text \<open>
  C9: JavaScript makes calls of put, delete and clear on a batch object, with keys and values in
  buffers or strings, each call in whatever state Node is in by then, provided that in that state
  Node reads the arguments of the call as the object and the bytes of a command. Then every call
  returns undefined and throws just the status that the abstract batch answers to its command, and
  at the end the object represents what the commands make of the abstract batch, and no array is
  left behind.
\<close>

theorem batch_session_refinement:
  assumes "wf_world w" and "batches w p = Some b" and "represents lim ts b a"
    and "cmds_pre lim ts cs a" and "list_all2 (\<lambda>(e, call) c. stands_for N e p call c) calls cs"
  shows "\<exists>w' b'.
    run_session N calls w =
      Some (map2 (\<lambda>(e, call) s. (None, thrown_by N s e)) calls (fst (abs_all lim ts cs a)), w')
    \<and> batches w' p = Some b' \<and> represents lim ts b' (snd (abs_all lim ts cs a))
    \<and> char_arrays w' = char_arrays w"
  using assms(5,1-4)
proof (induction arbitrary: w b a rule: list_all2_induct)
  case Nil
  then show ?case by auto
next
  case (Cons x calls c cs)
  obtain e kind info where x: "x = (e, kind, info)" by (metis prod_cases3)
  let ?s = "abs_status lim ts c a" and ?a1 = "snd (abs_step lim ts c a)"
  obtain b1 where b1: "exec c b = (?s, b1)" and r1: "represents lim ts b1 ?a1"
    using exec_simulates Cons.prems(3,4) by (metis cmds_pre.simps(2))
  have "wf_world (w\<lparr>env := e\<rparr>)" "stands_for N (env (w\<lparr>env := e\<rparr>)) p (kind, info) c"
    "batches (w\<lparr>env := e\<rparr>) p = Some b"
    using Cons.prems(1,2) Cons.hyps(1) x by simp_all
  from batch_method_runs [OF this b1] obtain n where run: "batch_method N kind info (w\<lparr>env := e\<rparr>) =
      Returned (w\<lparr>batches := (batches w)(p \<mapsto> b1), env := thrown_by N ?s e,
                  next_address := next_address w + n\<rparr>) None"
    by auto
  let ?w1 = "w\<lparr>batches := (batches w)(p \<mapsto> b1), env := thrown_by N ?s e, next_address := next_address w + n\<rparr>"
  have "cmds_pre lim ts cs ?a1" using Cons.prems(4) by simp
  from Cons.IH [OF batch_call_keeps_wf [OF Cons.prems(1,2), of n "thrown_by N ?s e" b1] _ r1 this]
  obtain w' b' where "run_session N calls ?w1 =
      Some (map2 (\<lambda>(e, call) s. (None, thrown_by N s e)) calls (fst (abs_all lim ts cs ?a1)), w')"
    "batches w' p = Some b'" "represents lim ts b' (snd (abs_all lim ts cs ?a1))"
    "char_arrays w' = char_arrays w"
    by auto
  moreover have "abs_all lim ts (c # cs) a = (?s # fst (abs_all lim ts cs ?a1), snd (abs_all lim ts cs ?a1))"
    by (cases "ok ?s") (simp_all add: abs_step_def Let_def split: prod.split)
  ultimately show ?case by (simp add: x run del: abs_all.simps)
qed

definition node_with :: "bytes \<Rightarrow> node" where
  "node_with s = small_node\<lparr>memory := (\<lambda>_. s)\<rparr>"

lemma batch_session_refinement_witness:
  "\<exists>w' b'. run_session example_napi
       [(node_with [7], JPut None, [JsExternal 3, JsBuffer 0 1, JsBuffer 0 1]),
        (small_node, JClear, [JsExternal 3]),
        (small_node, JPut (Some latin1), [JsExternal 3, JsString [1], JsString [2]]),
        (node_with [5, 6], JDelete None, [JsExternal 3, JsBuffer 0 2])] example_world =
       Some ([(None, node_with [7]), (None, small_node), (None, small_node), (None, node_with [5, 6])], w')
     \<and> batches w' 3 = Some b' \<and> holds b' 0 [OpPut 0 [1] [2], OpDelete 0 [5, 6]]"
proof -
  have "list_all2 (\<lambda>(e, call) c. stands_for example_napi e 3 call c)
      [(node_with [7], JPut None, [JsExternal 3, JsBuffer 0 1, JsBuffer 0 1]),
       (small_node, JClear, [JsExternal 3]),
       (small_node, JPut (Some latin1), [JsExternal 3, JsString [1], JsString [2]]),
       (node_with [5, 6], JDelete None, [JsExternal 3, JsBuffer 0 2])]
      [CPut 0 [7] [7], CClear, CPut 0 [1] [2], CDelete 0 [5, 6]]"
    by (auto simp: is_bytes_def node_with_def has_args_def is_external_def is_string_def is_buffer_def)
  from batch_session_refinement [OF wf_example _ represents_new _ this, of 0 0] show ?thesis
    by (fastforce simp: cmd_pre_def str_ok_def abs_step_def abs_status_def check_lengths_def
        kMaxUint32_def represents_def)
qed

section \<open>The asynchronous write\<close>

text \<open>
  The two halves of the promise, the write having answered \<open>r\<close>: the first leaves the engine
  and the batch as the write did; the second, whatever has happened in between, makes one
  call, which resolves the promise with undefined or rejects it with the text of the status.
\<close>

definition settles ::
  "('e, 'v) napi \<Rightarrow> ('d, 'o) engine \<Rightarrow> ptr \<Rightarrow> nat \<Rightarrow> ptr \<Rightarrow> Status \<times> WriteBatch \<times> 'd
     \<Rightarrow> ('e, 'v, 'd, 'o) world \<Rightarrow> bool" where
  "settles N E self def pb r w2 \<longleftrightarrow>
     (case r of (s, b', d) \<Rightarrow>
        \<exists>w3. Promise_Begin E self NAPI_RETURN_UNDEFINED w2 = Returned w3 None
          \<and> engine_state w3 = d \<and> batches w3 = (batches w2)(pb \<mapsto> b')
          \<and> (\<forall>(w4 :: ('e, 'v, 'd, 'o) world). promises w4 self = promises w3 self \<longrightarrow>
               Promise_Finish N self w4 =
                 (if ok s
                  then (case snd (napi_get_undefined N (env w4)) of (u, e) \<Rightarrow>
                          NAPI_DO N (napi_resolve_deferred N def u) NAPI_RETURN_UNDEFINED
                            (w4\<lparr>env := e\<rparr>))
                  else (case snd (napi_create_string N utf8 (Status_ToString s) (env w4)) of (u, e) \<Rightarrow>
                          NAPI_DO N (napi_reject_deferred N def u) NAPI_RETURN_UNDEFINED
                            (w4\<lparr>env := e\<rparr>)))))"

lemma promise_settles:
  assumes "promises w2 self = Some pr" and "deferred pr = Some def"
    and "promise_db pr = db" "promise_batch pr = pb" "promise_options pr = po"
    and "write_options w2 po = Some opt" "batches w2 pb = Some b"
  shows "settles N E self def pb (DB_Write E db opt b (engine_state w2)) w2"
proof -
  obtain s b' d where r: "DB_Write E db opt b (engine_state w2) = (s, b', d)"
    by (cases "DB_Write E db opt b (engine_state w2)") auto
  define pr' where "pr' = pr\<lparr>success := ok s, executing := False, promise_status := s\<rparr>"
  have first: "\<exists>w3. Promise_Begin E self NAPI_RETURN_UNDEFINED w2 = Returned w3 None
      \<and> engine_state w3 = d \<and> batches w3 = (batches w2)(pb \<mapsto> b') \<and> promises w3 self = Some pr'"
    using assms r
    by (simp add: Promise_Begin_def Begin_enter_def Begin_leave_def BatchWritePromise_execute_def
        with_promise_def set_promise_def write_call_def running pr'_def)
  have second: "Promise_Finish N self w4 =
      (if ok s
       then (case snd (napi_get_undefined N (env w4)) of (u, e) \<Rightarrow>
               NAPI_DO N (napi_resolve_deferred N def u) NAPI_RETURN_UNDEFINED (w4\<lparr>env := e\<rparr>))
       else (case snd (napi_create_string N utf8 (Status_ToString s) (env w4)) of (u, e) \<Rightarrow>
               NAPI_DO N (napi_reject_deferred N def u) NAPI_RETURN_UNDEFINED (w4\<lparr>env := e\<rparr>)))"
    if "promises w4 self = Some pr'" for w4
    using that assms(2)
    by (simp add: Promise_Finish_def with_promise_def running pr'_def
        BatchWritePromise_resolution_def BatchWritePromise_rejection_def split: prod.split)
  from first obtain w3 where "Promise_Begin E self NAPI_RETURN_UNDEFINED w2 = Returned w3 None"
      "engine_state w3 = d" "batches w3 = (batches w2)(pb \<mapsto> b')" "promises w3 self = Some pr'"
    by blast
  then show ?thesis
    unfolding settles_def r prod.case by (intro exI[of _ w3]) (simp add: second)
qed

text \<open>
  C11: an asynchronous write returns its promise before anything is written. When the
  worker runs it, in whatever world that is, it writes the batch with the options it was given;
  when it has finished, the promise is settled by one call, resolved with undefined if the write
  succeeded and rejected with the text of its status if not.
\<close>

theorem async_write_settles:
  fixes w :: "('e, 'v, 'd, 'o) world"
  assumes "has_args N (env w) info [j_db, j_b, j_o]"
    and "is_external N (env w) j_db db" "is_external N (env w) j_b pb" "is_external N (env w) j_o po"
    and "napi_create_promise N (env w) = (napi_ok, def, v, e_promise)"
    and "napi_create_string N utf8 (str ''BatchWritePromise'') e_promise = (napi_ok, name_js, e_name)"
    and "napi_create_async_work N (next_address w) name_js e_name = (napi_ok, work, e_work)"
    and "napi_queue_async_work N work
           (napi_add_finalizer N v (next_address w) promise_finalizer e_work) = (napi_ok, e_queue)"
  shows "\<exists>w1. rocksdb_batch_write_async N info w = Returned w1 (Some v)
    \<and> engine_state w1 = engine_state w
    \<and> (\<forall>(w2 :: ('e, 'v, 'd, 'o) world) opt b.
         promises w2 (next_address w) = promises w1 (next_address w) \<and> write_options w2 po = Some opt
           \<and> batches w2 pb = Some b \<longrightarrow>
         settles N E (next_address w) def pb (DB_Write E db opt b (engine_state w2)) w2)"
proof -
  let ?self = "next_address w"
  define pr :: "'v promise" where
    "pr = \<lparr>success = False, executing = False, promise = Some v, deferred = Some def,
           async_work = Some work, promise_status = Status_default, promise_db = db,
           promise_batch = pb, promise_options = po\<rparr>"
  define w1 where "w1 = w\<lparr>next_address := Suc ?self, promises := (promises w)(?self \<mapsto> pr), env := e_queue\<rparr>"
  have "BatchWritePromise_ctor N db pb po ?self (env w) = (pr, e_work)"
    using assms(5-7) by (simp add: BatchWritePromise_ctor_def Promise_ctor_def pr_def)
  then have "rocksdb_batch_write_async N info w = Returned w1 (Some v)"
    using assms(1-4,8)
    by (simp add: rocksdb_batch_write_async_def running new_object_def Let_def with_promise_def
        set_promise_def Promise_start_def w1_def pr_def)
  moreover have "promises w1 ?self = Some pr" "engine_state w1 = engine_state w"
    by (simp_all add: w1_def)
  moreover have "settles N E ?self def pb (DB_Write E db opt b (engine_state w2)) w2"
    if "promises w2 ?self = Some pr" "write_options w2 po = Some opt" "batches w2 pb = Some b"
    for w2 :: "('e, 'v, 'd, 'o) world" and opt b
    by (rule promise_settles[where pr = pr and po = po]) (use that in \<open>simp_all add: pr_def\<close>)
  ultimately show ?thesis by auto
qed

lemma async_write_settles_witness:
  "\<exists>w1. rocksdb_batch_write_async example_napi [JsExternal 7, JsExternal 3, JsExternal 1] example_world =
        Returned w1 (Some (JsPromise 0))
     \<and> engine_state w1 = small_store"
  using async_write_settles[where N = example_napi and w = example_world and E = example_engine
      and def = 0 and v = "JsPromise 0" and e_promise = "small_node\<lparr>fresh := 1\<rparr>"
      and e_name = "small_node\<lparr>fresh := 1\<rparr>" and e_work = "small_node\<lparr>fresh := 1\<rparr>"
      and e_queue = "small_node\<lparr>fresh := 1\<rparr>" and work = 6 and name_js = "JsString (str ''BatchWritePromise'')",
      OF example_meanings(1) example_meanings(2) example_meanings(2) example_meanings(2), of 7 3 1]
  by (auto simp: small_node_def)

section \<open>Every run of the addon\<close>

text \<open>
  In every world the addon can reach, by any calls of its methods with any arguments,
  finalizers and halves of promises in any order, whatever Node and the engine answer, no address
  holds two objects, none that was not handed out holds any, and every slice made for JavaScript
  lies in a buffer of JavaScript: \<open>wf_world\<close>, which the properties above assume, is what they can
  rely on in every run.
\<close>

theorem addon_reachable_wf:
  assumes "(addon_step N E)\<^sup>*\<^sup>* (initial_world e d) w"
  shows "wf_world w"
  using assms by (rule wf_reachable)

lemma addon_reachable_wf_witness:
  "\<exists>w. rocksdb_batch_init example_napi [] small_world = Returned w (Some (JsExternal 1))
     \<and> batches w 1 = Some (WriteBatch_new 0 0) \<and> wf_world w"
proof -
  obtain w where w: "rocksdb_batch_init example_napi [] small_world = Returned w (Some (JsExternal 1))"
    "batches w 1 = Some (WriteBatch_new 0 0)"
    by (simp add: rocksdb_batch_init_def new_object_def Let_def NAPI_CREATE_def STATUS_THROWS_def
        unless_pending_def RETURN_def small_defs)
  have "rocksdb_batch_init example_napi \<in> set (addon_methods example_napi example_engine 0)"
    by (simp add: addon_methods_def)
  then have "(addon_step example_napi example_engine)\<^sup>*\<^sup>* (initial_world small_node small_store) w"
    using addon_step.call[where info = "[]" and w = small_world] w(1)
    by (metis r_into_rtranclp small_world_def)
  from addon_reachable_wf[OF this] w show ?thesis by blast
qed

end
