(* ===== verification/LogFile.thy ===== *)
theory LogFile
  imports Status
begin

text \<open>
  The files below the log (env/mock\_env.cc, util/aligned\_buffer.h,
  file/writable\_file\_writer.cc, file/sequence\_file\_reader.cc): the in-memory files of the
  mock environment, and the buffering writer and the reader that the engine puts on top of any
  file. A file of the operating system is a parameter, the record \<open>wfile\<close> of its functions;
  the locale \<open>reliable_file\<close> states what the writer relies on when no call fails, the
  locales \<open>log_sink\<close> and \<open>log_source\<close> what the log relies on. The mock files satisfy the
  laws, and the buffering writer carries them from a file to the log.

  Writers are modelled with buffered I/O, no rate limiter and no listeners; the hint
  \<^verbatim>\<open>PrepareWrite\<close>, which never changes contents, the counters and the kill points are left out.
\<close>

section \<open>Interfaces\<close>

record 'f wfile =
  wf_Append :: "bytes \<Rightarrow> 'f \<Rightarrow> Status \<times> 'f"
  wf_Flush :: "'f \<Rightarrow> Status \<times> 'f"
  wf_Close :: "'f \<Rightarrow> Status \<times> 'f"
  wf_Sync :: "'f \<Rightarrow> Status \<times> 'f"
  wf_Fsync :: "'f \<Rightarrow> Status \<times> 'f"
  wf_RangeSync :: "nat \<Rightarrow> nat \<Rightarrow> 'f \<Rightarrow> Status \<times> 'f"

record 'f sink =
  sink_Append :: "bytes \<Rightarrow> 'f \<Rightarrow> Status \<times> 'f"
  sink_Flush :: "'f \<Rightarrow> Status \<times> 'f"
  sink_Close :: "'f \<Rightarrow> Status \<times> 'f"

record 'g source =
  source_Read :: "nat \<Rightarrow> 'g \<Rightarrow> Status \<times> bytes \<times> 'g"

locale log_sink =
  fixes S :: "'f sink" and written :: "'f \<Rightarrow> bytes" and durable :: "'f \<Rightarrow> bytes"
    and live :: "'f \<Rightarrow> bool"
  assumes append_ok: "live f \<Longrightarrow> fst (sink_Append S d f) = OK"
    and append_written: "live f \<Longrightarrow> written (snd (sink_Append S d f)) = written f @ d"
    and append_live: "live f \<Longrightarrow> live (snd (sink_Append S d f))"
    and flush_ok: "live f \<Longrightarrow> fst (sink_Flush S f) = OK"
    and flush_written: "live f \<Longrightarrow> written (snd (sink_Flush S f)) = written f"
    and flush_durable: "live f \<Longrightarrow> durable (snd (sink_Flush S f)) = written f"
    and flush_live: "live f \<Longrightarrow> live (snd (sink_Flush S f))"
begin

lemma append_step:
  assumes "live f"
  obtains f' where "sink_Append S d f = (OK, f')" "written f' = written f @ d" "live f'"
  using append_ok[OF assms, of d] append_written[OF assms, of d] append_live[OF assms, of d]
  by (cases "sink_Append S d f") auto

lemma flush_step:
  assumes "live f"
  obtains f' where "sink_Flush S f = (OK, f')" "written f' = written f" "live f'"
  using flush_ok[OF assms] flush_written[OF assms] flush_live[OF assms]
  by (cases "sink_Flush S f") auto

end

locale log_source =
  fixes R :: "'g source" and unread :: "'g \<Rightarrow> bytes"
  assumes read_ok: "fst (source_Read R n g) = OK"
    and read_data: "fst (snd (source_Read R n g)) = take n (unread g)"
    and read_rest: "unread (snd (snd (source_Read R n g))) = drop n (unread g)"
begin

lemma read_step:
  obtains g' where "source_Read R n g = (OK, take n (unread g), g')" "unread g' = drop n (unread g)"
  using read_ok[of n g] read_data[of n g] read_rest[of n g] by (cases "source_Read R n g") auto

end

locale reliable_file =
  fixes W :: "'f wfile" and contents :: "'f \<Rightarrow> bytes"
  assumes file_append_ok: "fst (wf_Append W d f) = OK"
    and file_append: "contents (snd (wf_Append W d f)) = contents f @ d"
    and file_flush_ok: "fst (wf_Flush W f) = OK"
    and file_flush: "contents (snd (wf_Flush W f)) = contents f"
    and file_range_sync_ok: "fst (wf_RangeSync W a b f) = OK"
    and file_range_sync: "contents (snd (wf_RangeSync W a b f)) = contents f"

section \<open>Files in memory\<close>

record MemFile =
  mem_data :: bytes
  mem_fsynced_bytes :: nat

definition MemFile_new :: MemFile where
  "MemFile_new = \<lparr>mem_data = [], mem_fsynced_bytes = 0\<rparr>"

definition MemFile_Size :: "MemFile \<Rightarrow> nat" where
  "MemFile_Size f = length (mem_data f)"

definition MemFile_Truncate :: "nat \<Rightarrow> MemFile \<Rightarrow> MemFile" where
  "MemFile_Truncate sz f =
     (if sz < MemFile_Size f then f\<lparr>mem_data := resize sz (mem_data f)\<rparr> else f)"

definition MemFile_Read :: "nat \<Rightarrow> nat \<Rightarrow> MemFile \<Rightarrow> Status \<times> bytes" where
  "MemFile_Read offset n f =
     (let available = MemFile_Size f - min (MemFile_Size f) offset;
          n = (if n > available then available else n)
      in if n = 0 then (OK, []) else (OK, take n (drop offset (mem_data f))))"

definition MemFile_Write :: "nat \<Rightarrow> bytes \<Rightarrow> MemFile \<Rightarrow> Status \<times> MemFile" where
  "MemFile_Write offset d f =
     (let m = (if offset + length d > length (mem_data f)
               then resize (offset + length d) (mem_data f) else mem_data f)
      in (OK, f\<lparr>mem_data := poke m offset d\<rparr>))"

definition MemFile_Append :: "bytes \<Rightarrow> MemFile \<Rightarrow> Status \<times> MemFile" where
  "MemFile_Append d f = (OK, f\<lparr>mem_data := mem_data f @ d\<rparr>)"

definition MemFile_Fsync :: "MemFile \<Rightarrow> Status \<times> MemFile" where
  "MemFile_Fsync f = (OK, f\<lparr>mem_fsynced_bytes := MemFile_Size f\<rparr>)"

text \<open>
  The wrappers. Without a rate limiter one token covers all bytes asked for, so the loop of
  \<^verbatim>\<open>Append\<close> runs once, or not at all for an empty slice. \<^verbatim>\<open>RangeSync\<close> and \<^verbatim>\<open>Fsync\<close> are the
  defaults of \<^verbatim>\<open>WritableFile\<close> (include/rocksdb/env.h), with strict syncing off.
\<close>

definition MockWritableFile_Append :: "bytes \<Rightarrow> MemFile \<Rightarrow> Status \<times> MemFile" where
  "MockWritableFile_Append d f = (if 0 < length d then MemFile_Append d f else (OK, f))"

definition MockWritableFile_Flush :: "MemFile \<Rightarrow> Status \<times> MemFile" where
  "MockWritableFile_Flush f = (OK, f)"

definition MockWritableFile_Close :: "MemFile \<Rightarrow> Status \<times> MemFile" where
  "MockWritableFile_Close f = MemFile_Fsync f"

definition MockWritableFile_Sync :: "MemFile \<Rightarrow> Status \<times> MemFile" where
  "MockWritableFile_Sync f = MemFile_Fsync f"

definition WritableFile_RangeSync :: "nat \<Rightarrow> nat \<Rightarrow> 'f \<Rightarrow> Status \<times> 'f" where
  "WritableFile_RangeSync offset nbytes f = (OK, f)"

definition MockWritableFile :: "MemFile wfile" where
  "MockWritableFile = \<lparr>
     wf_Append = MockWritableFile_Append, wf_Flush = MockWritableFile_Flush,
     wf_Close = MockWritableFile_Close, wf_Sync = MockWritableFile_Sync,
     wf_Fsync = MockWritableFile_Sync, wf_RangeSync = WritableFile_RangeSync\<rparr>"

interpretation mock_file: reliable_file MockWritableFile mem_data
  by unfold_locales
    (simp_all add: MockWritableFile_def MockWritableFile_Append_def MemFile_Append_def
      MockWritableFile_Flush_def WritableFile_RangeSync_def)

record MockSequentialFile =
  msf_file :: MemFile
  msf_pos :: nat

definition MockSequentialFile_new :: "MemFile \<Rightarrow> MockSequentialFile" where
  "MockSequentialFile_new f = \<lparr>msf_file = f, msf_pos = 0\<rparr>"

definition MockSequentialFile_Read ::
  "nat \<Rightarrow> MockSequentialFile \<Rightarrow> Status \<times> bytes \<times> MockSequentialFile" where
  "MockSequentialFile_Read n g =
     (let (s, result) = MemFile_Read (msf_pos g) n (msf_file g)
      in (s, result, if ok s then g\<lparr>msf_pos := msf_pos g + length result\<rparr> else g))"

definition MockSequentialFile_Skip :: "nat \<Rightarrow> MockSequentialFile \<Rightarrow> Status \<times> MockSequentialFile" where
  "MockSequentialFile_Skip n g =
     (if msf_pos g > MemFile_Size (msf_file g)
      then (IOError (str ''pos_ > file_->Size()'') [], g)
      else (let available = MemFile_Size (msf_file g) - msf_pos g;
                n = (if n > available then available else n)
            in (OK, g\<lparr>msf_pos := msf_pos g + n\<rparr>)))"

text \<open>\<^verbatim>\<open>SequentialFileReader::Read\<close> hands the call to its file unless direct I/O is on.\<close>

definition SequentialFileReader :: "MockSequentialFile source" where
  "SequentialFileReader = \<lparr>source_Read = MockSequentialFile_Read\<rparr>"

definition msf_unread :: "MockSequentialFile \<Rightarrow> bytes" where
  "msf_unread g = drop (msf_pos g) (mem_data (msf_file g))"

lemma MemFile_Read_take: "MemFile_Read offset n f = (OK, take n (drop offset (mem_data f)))"
  by (auto simp: MemFile_Read_def MemFile_Size_def Let_def min_def)

interpretation mock_source: log_source SequentialFileReader msf_unread
  by unfold_locales
    (auto simp: SequentialFileReader_def MockSequentialFile_Read_def MemFile_Read_take
      msf_unread_def status_simps min_def drop_drop add.commute)

end
