(* ===== verification/FileWriter.thy ===== *)
theory FileWriter
  imports LogFile
begin

text \<open>
  The buffering writer between the log and its file: \<open>AlignedBuffer\<close> of util/aligned\_buffer.h
  and \<open>WritableFileWriter\<close> of file/writable\_file\_writer.h and .cc, over the functions \<open>W\<close>
  of the file. The buffer's bytes up to its current size are the list \<open>buf_data\<close>; the address
  alignment of its storage has no counterpart. The locale \<open>reliable_file\<close> states what holds of
  a file whose calls succeed; inside it the writer is shown to be a sink for the log whose
  contents are the file's bytes followed by the buffered ones.
\<close>

section \<open>AlignedBuffer\<close>

record AlignedBuffer =
  buf_alignment :: nat
  buf_capacity :: nat
  buf_data :: bytes

definition Roundup :: "nat \<Rightarrow> nat \<Rightarrow> nat" where
  "Roundup x y = ((x + y - 1) div y) * y"

definition CurrentSize :: "AlignedBuffer \<Rightarrow> nat" where
  "CurrentSize b = length (buf_data b)"

definition AllocateNewBuffer :: "nat \<Rightarrow> bool \<Rightarrow> AlignedBuffer \<Rightarrow> AlignedBuffer" where
  "AllocateNewBuffer requested_capacity copy_data b =
     (if copy_data \<and> requested_capacity < CurrentSize b then b
      else b\<lparr>buf_capacity := Roundup requested_capacity (buf_alignment b),
             buf_data := (if copy_data then buf_data b else [])\<rparr>)"

definition AlignedBuffer_Append :: "bytes \<Rightarrow> AlignedBuffer \<Rightarrow> nat \<times> AlignedBuffer" where
  "AlignedBuffer_Append src b =
     (let to_copy = min (length src) (buf_capacity b - CurrentSize b)
      in (to_copy, b\<lparr>buf_data := buf_data b @ take to_copy src\<rparr>))"

definition AlignedBuffer_Read :: "nat \<Rightarrow> nat \<Rightarrow> AlignedBuffer \<Rightarrow> bytes" where
  "AlignedBuffer_Read offset read_size b =
     (let to_read = (if offset < CurrentSize b then min (CurrentSize b - offset) read_size else 0)
      in take to_read (drop offset (buf_data b)))"

definition PadWith :: "nat \<Rightarrow> byte \<Rightarrow> AlignedBuffer \<Rightarrow> AlignedBuffer" where
  "PadWith pad_size padding b = b\<lparr>buf_data := buf_data b @ replicate pad_size padding\<rparr>"

definition PadToAlignmentWith :: "byte \<Rightarrow> AlignedBuffer \<Rightarrow> AlignedBuffer" where
  "PadToAlignmentWith padding b =
     (let total_size = Roundup (CurrentSize b) (buf_alignment b);
          pad_size = total_size - CurrentSize b
      in if pad_size > 0 then b\<lparr>buf_data := buf_data b @ replicate pad_size padding\<rparr> else b)"

definition RefitTail :: "nat \<Rightarrow> nat \<Rightarrow> AlignedBuffer \<Rightarrow> AlignedBuffer" where
  "RefitTail tail_offset tail_size b = b\<lparr>buf_data := take tail_size (drop tail_offset (buf_data b))\<rparr>"

section \<open>WritableFileWriter\<close>

record 'f file_writer =
  writable_file :: "'f option"
  fw_buf :: AlignedBuffer
  max_buffer_size :: nat
  filesize :: nat
  pending_sync :: bool
  last_sync_size :: nat
  bytes_per_sync :: nat

definition WritableFileWriter_new :: "'f \<Rightarrow> nat \<Rightarrow> nat \<Rightarrow> nat \<Rightarrow> 'f file_writer" where
  "WritableFileWriter_new f alignment max_size per_sync =
     \<lparr>writable_file = Some f,
      fw_buf = AllocateNewBuffer (min 65536 max_size) False
                 \<lparr>buf_alignment = alignment, buf_capacity = 0, buf_data = []\<rparr>,
      max_buffer_size = max_size, filesize = 0, pending_sync = False, last_sync_size = 0,
      bytes_per_sync = per_sync\<rparr>"

text \<open>
  Calls of the file. After \<^verbatim>\<open>Close\<close> the pointer is null and a call through it is undefined;
  the model returns the writer unchanged there, and every law below is stated with a file.
\<close>

definition on_file :: "('f \<Rightarrow> Status \<times> 'f) \<Rightarrow> 'f file_writer \<Rightarrow> Status \<times> 'f file_writer" where
  "on_file op w = (case writable_file w of
      None \<Rightarrow> (OK, w)
    | Some f \<Rightarrow> (let (s, f') = op f in (s, w\<lparr>writable_file := Some f'\<rparr>)))"

definition WriteBuffered :: "'f wfile \<Rightarrow> bytes \<Rightarrow> 'f file_writer \<Rightarrow> Status \<times> 'f file_writer" where
  "WriteBuffered W src w =
     (let (s, w) = (if 0 < length src then on_file (wf_Append W src) w else (OK, w))
      in if \<not> ok s then (s, w) else (s, w\<lparr>fw_buf := (fw_buf w)\<lparr>buf_data := []\<rparr>\<rparr>))"

definition kBytesNotSyncRange :: nat where "kBytesNotSyncRange = 1024 * 1024"
definition kBytesAlignWhenSync :: nat where "kBytesAlignWhenSync = 4 * 1024"

definition Flush_range_sync :: "'f wfile \<Rightarrow> 'f file_writer \<Rightarrow> Status \<times> 'f file_writer" where
  "Flush_range_sync W w =
     (if filesize w > kBytesNotSyncRange
      then (let offset_sync_to = filesize w - kBytesNotSyncRange;
                offset_sync_to = offset_sync_to - offset_sync_to mod kBytesAlignWhenSync
            in if offset_sync_to > 0 \<and> offset_sync_to - last_sync_size w \<ge> bytes_per_sync w
               then (let (s, w) = on_file (wf_RangeSync W (last_sync_size w)
                                             (offset_sync_to - last_sync_size w)) w
                     in (s, w\<lparr>last_sync_size := offset_sync_to\<rparr>))
               else (OK, w))
      else (OK, w))"

definition FileWriter_Flush :: "'f wfile \<Rightarrow> 'f file_writer \<Rightarrow> Status \<times> 'f file_writer" where
  "FileWriter_Flush W w =
     (let (s, w) = (if CurrentSize (fw_buf w) > 0
                    then WriteBuffered W (buf_data (fw_buf w)) w else (OK, w))
      in if \<not> ok s then (s, w) else
         let (s, w) = on_file (wf_Flush W) w
         in if \<not> ok s then (s, w) else
            if bytes_per_sync w \<noteq> 0 then Flush_range_sync W w else (s, w))"

text \<open>
  \<^verbatim>\<open>Append\<close>: the search for a larger buffer doubles the capacity, which is positive there
  because the buffer was allocated with the minimum of 64 KB and the maximal size.
\<close>

function grow_buffer :: "nat \<Rightarrow> nat \<Rightarrow> 'f file_writer \<Rightarrow> 'f file_writer" where
  "grow_buffer left cap w =
     (if 0 < cap \<and> cap < max_buffer_size w
      then (let desired_capacity = min (cap * 2) (max_buffer_size w)
            in if desired_capacity - CurrentSize (fw_buf w) \<ge> left
               then w\<lparr>fw_buf := AllocateNewBuffer desired_capacity True (fw_buf w)\<rparr>
               else grow_buffer left (cap * 2) w)
      else w)"
  by pat_completeness auto

termination
  by (relation "measure (\<lambda>(left, cap, w). max_buffer_size w - cap)") auto

declare grow_buffer.simps [simp del]

text \<open>The loop that fills the buffer is entered with a capacity of at least \<open>left\<close> bytes.\<close>

function append_loop :: "'f wfile \<Rightarrow> bytes \<Rightarrow> 'f file_writer \<Rightarrow> Status \<times> 'f file_writer" where
  "append_loop W src w =
     (if 0 < length src \<and> 0 < buf_capacity (fw_buf w)
      then (let (appended, b) = AlignedBuffer_Append src (fw_buf w);
                src' = drop appended src; w' = w\<lparr>fw_buf := b\<rparr>
            in if 0 < length src'
               then (let (s, w'') = FileWriter_Flush W w'
                     in if \<not> ok s then (s, w'') else append_loop W src' w'')
               else (OK, w'))
      else (OK, w))"
  by pat_completeness auto

lemma on_file_buf [simp]: "on_file op w = (s, w') \<Longrightarrow> fw_buf w' = fw_buf w"
  by (auto simp: on_file_def split: option.splits prod.splits)

lemma WriteBuffered_buf:
  "WriteBuffered W src w = (s, w') \<Longrightarrow> ok s \<Longrightarrow> fw_buf w' = (fw_buf w)\<lparr>buf_data := []\<rparr>"
  by (auto simp: WriteBuffered_def Let_def split: prod.splits if_splits)

lemma Flush_range_sync_buf: "Flush_range_sync W w = (s, w') \<Longrightarrow> fw_buf w' = fw_buf w"
  by (auto simp: Flush_range_sync_def Let_def split: prod.splits if_splits)

lemma Flush_buf:
  assumes "FileWriter_Flush W w = (s, w')" and "ok s"
  shows "fw_buf w' = (fw_buf w)\<lparr>buf_data := []\<rparr>"
  using assms
  by (fastforce simp: FileWriter_Flush_def Let_def CurrentSize_def split: prod.splits if_splits
      dest: WriteBuffered_buf Flush_range_sync_buf)

termination append_loop
proof (relation "measure (\<lambda>(W, src, w). 2 * length src + length (buf_data (fw_buf w)))", goal_cases)
  case 1
  then show ?case by simp
next
  case (2 W src w x appended b src' w' y s w'')
  then show ?case
    using Flush_buf[of W w' s w'']
    by (auto simp: AlignedBuffer_Append_def Let_def CurrentSize_def)
qed

declare append_loop.simps [simp del]

definition FileWriter_Append :: "'f wfile \<Rightarrow> bytes \<Rightarrow> 'f file_writer \<Rightarrow> Status \<times> 'f file_writer" where
  "FileWriter_Append W src w =
     (let left = length src;
          w = w\<lparr>pending_sync := True\<rparr>;
          w = (if buf_capacity (fw_buf w) - CurrentSize (fw_buf w) < left
               then grow_buffer left (buf_capacity (fw_buf w)) w else w);
          (s, w) = (if buf_capacity (fw_buf w) - CurrentSize (fw_buf w) < left
                      \<and> CurrentSize (fw_buf w) > 0
                    then FileWriter_Flush W w else (OK, w))
      in if \<not> ok s then (s, w) else
         let (s, w) = (if buf_capacity (fw_buf w) \<ge> left then append_loop W src w
                       else WriteBuffered W src w)
         in (s, if ok s then w\<lparr>filesize := filesize w + length src\<rparr> else w))"

text \<open>\<^verbatim>\<open>Pad\<close> fills with zeros through the buffer alone.\<close>

function pad_loop :: "'f wfile \<Rightarrow> nat \<Rightarrow> 'f file_writer \<Rightarrow> Status \<times> 'f file_writer" where
  "pad_loop W left w =
     (if 0 < left \<and> 0 < buf_capacity (fw_buf w)
      then (let append_bytes = min (buf_capacity (fw_buf w) - CurrentSize (fw_buf w)) left;
                left' = left - append_bytes; w' = w\<lparr>fw_buf := PadWith append_bytes 0 (fw_buf w)\<rparr>
            in if 0 < left'
               then (let (s, w'') = FileWriter_Flush W w'
                     in if \<not> ok s then (s, w'') else pad_loop W left' w'')
               else (OK, w'))
      else (OK, w))"
  by pat_completeness auto

termination
proof (relation "measure (\<lambda>(W, left, w). 2 * left + length (buf_data (fw_buf w)))", goal_cases)
  case 1
  then show ?case by simp
next
  case (2 W left w append_bytes left' w' y s w'')
  then show ?case
    using Flush_buf[of W w' s w'']
    by (auto simp: CurrentSize_def)
qed

declare pad_loop.simps [simp del]

definition FileWriter_Pad :: "'f wfile \<Rightarrow> nat \<Rightarrow> 'f file_writer \<Rightarrow> Status \<times> 'f file_writer" where
  "FileWriter_Pad W pad_bytes w =
     (let (s, w) = pad_loop W pad_bytes w
      in if \<not> ok s then (s, w)
         else (OK, w\<lparr>pending_sync := True, filesize := filesize w + pad_bytes\<rparr>))"

definition FileWriter_Close :: "'f wfile \<Rightarrow> 'f file_writer \<Rightarrow> Status \<times> 'f file_writer" where
  "FileWriter_Close W w = (case writable_file w of
      None \<Rightarrow> (OK, w)
    | Some _ \<Rightarrow> (let (s, w) = FileWriter_Flush W w;
                     (interim, w) = on_file (wf_Close W) w
                 in (if \<not> ok interim \<and> ok s then interim else s, w\<lparr>writable_file := None\<rparr>)))"

definition SyncInternal :: "'f wfile \<Rightarrow> bool \<Rightarrow> 'f file_writer \<Rightarrow> Status \<times> 'f file_writer" where
  "SyncInternal W use_fsync w = on_file (if use_fsync then wf_Fsync W else wf_Sync W) w"

definition FileWriter_Sync :: "'f wfile \<Rightarrow> bool \<Rightarrow> 'f file_writer \<Rightarrow> Status \<times> 'f file_writer" where
  "FileWriter_Sync W use_fsync w =
     (let (s, w) = FileWriter_Flush W w
      in if \<not> ok s then (s, w) else
         let (s, w) = (if pending_sync w then SyncInternal W use_fsync w else (OK, w))
         in if \<not> ok s then (s, w) else (OK, w\<lparr>pending_sync := False\<rparr>))"

definition SyncWithoutFlush ::
  "'f wfile \<Rightarrow> bool \<Rightarrow> bool \<Rightarrow> 'f file_writer \<Rightarrow> Status \<times> 'f file_writer" where
  "SyncWithoutFlush W IsSyncThreadSafe use_fsync w =
     (if \<not> IsSyncThreadSafe
      then (NotSupported (str ''Can't WritableFileWriter::SyncWithoutFlush() because '' @
              str ''WritableFile::IsSyncThreadSafe() is false'') [], w)
      else SyncInternal W use_fsync w)"

definition writer_sink :: "'f wfile \<Rightarrow> 'f file_writer sink" where
  "writer_sink W = \<lparr>sink_Append = FileWriter_Append W, sink_Flush = FileWriter_Flush W,
                    sink_Close = FileWriter_Close W\<rparr>"

section \<open>The writer as a sink\<close>

text \<open>Everything appended so far: the contents of the file and the buffered bytes.\<close>

definition writer_written :: "('f \<Rightarrow> bytes) \<Rightarrow> 'f file_writer \<Rightarrow> bytes" where
  "writer_written contents w =
     (case writable_file w of None \<Rightarrow> [] | Some f \<Rightarrow> contents f) @ buf_data (fw_buf w)"


definition writer_durable :: "('f \<Rightarrow> bytes) \<Rightarrow> 'f file_writer \<Rightarrow> bytes" where
  "writer_durable contents w = (case writable_file w of None \<Rightarrow> [] | Some f \<Rightarrow> contents f)"

definition writer_open :: "'f file_writer \<Rightarrow> bool" where
  "writer_open w \<longleftrightarrow> writable_file w \<noteq> None"

text \<open>\<open>step\<close>: a call succeeds on an open writer and appends \<open>d\<close> to what was written.\<close>

definition writes :: "('f \<Rightarrow> bytes) \<Rightarrow> bytes \<Rightarrow> 'f file_writer \<Rightarrow> Status \<times> 'f file_writer \<Rightarrow> bool" where
  "writes contents d w out \<longleftrightarrow>
     fst out = OK \<and> writer_open (snd out) \<and>
     writer_written contents (snd out) = writer_written contents w @ d \<and>
     filesize (snd out) = filesize w"

lemma grow_buffer_frame [simp]:
  "writable_file (grow_buffer left cap w) = writable_file w \<and>
   buf_data (fw_buf (grow_buffer left cap w)) = buf_data (fw_buf w) \<and>
   filesize (grow_buffer left cap w) = filesize w"
proof (induction left cap w rule: grow_buffer.induct)
  case (1 left cap w)
  show ?case
  proof (cases "0 < cap \<and> cap < max_buffer_size w \<and>
                \<not> min (cap * 2) (max_buffer_size w) - CurrentSize (fw_buf w) \<ge> left")
    case True
    then have "grow_buffer left cap w = grow_buffer left (cap * 2) w"
      by (subst grow_buffer.simps) (simp add: Let_def)
    moreover note 1[OF conjI[OF True[THEN conjunct1] True[THEN conjunct2, THEN conjunct1]] refl
        True[THEN conjunct2, THEN conjunct2]]
    ultimately show ?thesis by (simp only:)
  next
    case False
    then have "grow_buffer left cap w = w \<or>
      grow_buffer left cap w =
        w\<lparr>fw_buf := AllocateNewBuffer (min (cap * 2) (max_buffer_size w)) True (fw_buf w)\<rparr>"
      by (subst (1 2) grow_buffer.simps) (auto simp: Let_def)
    then show ?thesis by (auto simp: AllocateNewBuffer_def)
  qed
qed

context reliable_file
begin

lemma on_file_writes:
  assumes "\<And>f. fst (op f) = OK" and "\<And>f. contents (snd (op f)) = contents f" and "writer_open w"
  shows "writes contents [] w (on_file op w)"
proof -
  obtain f where w: "writable_file w = Some f" using assms(3) by (auto simp: writer_open_def)
  show ?thesis
    using assms(1)[of f] assms(2)[of f] w
    by (cases "op f") (simp add: on_file_def writes_def writer_written_def writer_open_def)
qed

lemma WriteBuffered_writes:
  assumes "writer_open w" and "buf_data (fw_buf w) = [] \<or> src = buf_data (fw_buf w)"
  shows "writes contents (if src = buf_data (fw_buf w) then [] else src) w (WriteBuffered W src w)"
proof -
  obtain f where w: "writable_file w = Some f" using assms(1) by (auto simp: writer_open_def)
  obtain f' where f': "wf_Append W src f = (OK, f')" "contents f' = contents f @ src"
    using file_append_ok[of src f] file_append[of src f] by (cases "wf_Append W src f") auto
  have "WriteBuffered W src w =
    (OK, (if src = [] then w else w\<lparr>writable_file := Some f'\<rparr>)\<lparr>fw_buf := (fw_buf w)\<lparr>buf_data := []\<rparr>\<rparr>)"
    by (simp add: WriteBuffered_def on_file_def w f')
  then show ?thesis
    using assms(2) w f' by (simp add: writes_def writer_written_def writer_open_def) auto
qed

lemma Flush_range_sync_writes: "writer_open w \<Longrightarrow> writes contents [] w (Flush_range_sync W w)"
proof -
  assume o: "writer_open w"
  have sync: "writes contents [] w (on_file (wf_RangeSync W a b) w)" for a b
    by (rule on_file_writes[OF file_range_sync_ok file_range_sync o])
  have upd: "writes contents [] w (s, w') \<Longrightarrow> writes contents [] w (s, w'\<lparr>last_sync_size := n\<rparr>)" for s w' n
    by (simp add: writes_def writer_open_def writer_written_def)
  have "writes contents [] w (let (s, w') = on_file (wf_RangeSync W a b) w
                              in (s, w'\<lparr>last_sync_size := n\<rparr>))" for a b n
    using upd[of "fst (on_file (wf_RangeSync W a b) w)" "snd (on_file (wf_RangeSync W a b) w)"] sync[of a b]
    by (simp add: case_prod_beta)
  moreover have "writes contents [] w (OK, w)"
    using o by (simp add: writes_def)
  ultimately show ?thesis
    by (simp add: Flush_range_sync_def Let_def case_prod_beta)
qed

lemma writes_trans:
  "writes contents d w (s, w') \<Longrightarrow> writes contents e w' out \<Longrightarrow> writes contents (d @ e) w out"
  by (simp add: writes_def)

lemma Flush_writes:
  assumes o: "writer_open w"
  shows "writes contents [] w (FileWriter_Flush W w)"
proof -
  define a where "a = (if CurrentSize (fw_buf w) > 0
                       then WriteBuffered W (buf_data (fw_buf w)) w else (OK, w))"
  have a: "writes contents [] w a"
    using WriteBuffered_writes[OF o, of "buf_data (fw_buf w)"] o
    by (simp add: a_def writes_def)
  obtain w1 where w1: "a = (OK, w1)" and o1: "writer_open w1"
    using a by (cases a) (auto simp: writes_def)
  have b: "writes contents [] w1 (on_file (wf_Flush W) w1)"
    by (rule on_file_writes[OF file_flush_ok file_flush o1])
  obtain w2 where w2: "on_file (wf_Flush W) w1 = (OK, w2)" and o2: "writer_open w2"
    using b by (cases "on_file (wf_Flush W) w1") (auto simp: writes_def)
  have ab: "writes contents [] w (OK, w2)"
    using writes_trans[of "[]" w OK w1 "[]"] a b w1 w2 by simp
  have abc: "writes contents [] w (Flush_range_sync W w2)"
    using writes_trans[OF ab, of "[]"] Flush_range_sync_writes[OF o2] by simp
  show ?thesis
    using ab abc w1 w2 unfolding FileWriter_Flush_def a_def[symmetric]
    by simp
qed

lemma append_loop_writes:
  assumes "writer_open w" and "src = [] \<or> 0 < buf_capacity (fw_buf w)"
  shows "writes contents src w (append_loop W src w)"
  using assms
proof (induction "2 * length src + length (buf_data (fw_buf w))" arbitrary: src w rule: less_induct)
  case less
  show ?case
  proof (cases "src = []")
    case True
    with less.prems show ?thesis by (simp add: append_loop.simps[of W "[]"] writes_def)
  next
    case False
    define n where "n = min (length src) (buf_capacity (fw_buf w) - CurrentSize (fw_buf w))"
    define w' where "w' = w\<lparr>fw_buf := (fw_buf w)\<lparr>buf_data := buf_data (fw_buf w) @ take n src\<rparr>\<rparr>"
    have w': "writes contents (take n src) w (OK, w')"
      using less.prems by (simp add: w'_def writes_def writer_written_def writer_open_def)
    have b: "AlignedBuffer_Append src (fw_buf w) =
             (n, (fw_buf w)\<lparr>buf_data := buf_data (fw_buf w) @ take n src\<rparr>)"
      by (simp add: AlignedBuffer_Append_def n_def Let_def)
    have c: "(0 < length src \<and> 0 < buf_capacity (fw_buf w)) = True"
      using False less.prems by simp
    have step: "append_loop W src w =
      (if 0 < length (drop n src)
       then (let (s, w'') = FileWriter_Flush W w'
             in if \<not> ok s then (s, w'') else append_loop W (drop n src) w'')
       else (OK, w'))"
      by (subst append_loop.simps) (simp only: b Let_def prod.case w'_def[symmetric] c if_True)
    show ?thesis
    proof (cases "0 < length (drop n src)")
      case True
      have f: "writes contents [] w' (FileWriter_Flush W w')"
        using Flush_writes w' by (simp add: writes_def)
      obtain w'' where w'': "FileWriter_Flush W w' = (OK, w'')" and o: "writer_open w''"
        using f by (cases "FileWriter_Flush W w'") (auto simp: writes_def)
      have buf: "fw_buf w'' = (fw_buf w)\<lparr>buf_data := []\<rparr>"
        using Flush_buf[OF w''] by (simp add: w'_def)
      have "writes contents (drop n src) w'' (append_loop W (drop n src) w'')"
        using less.prems False True o buf
        by (intro less.hyps) (auto simp: n_def CurrentSize_def)
      then have "writes contents ((take n src @ []) @ drop n src) w (append_loop W (drop n src) w'')"
        by (rule writes_trans[OF writes_trans[OF w' f[unfolded w'']]])
      then show ?thesis
        using True by (simp add: step w'')
    next
      case False
      with w' show ?thesis by (simp add: step)
    qed
  qed
qed

lemma Append_writes:
  assumes o: "writer_open w"
  shows "fst (FileWriter_Append W d w) = OK"
    and "writer_open (snd (FileWriter_Append W d w))"
    and "writer_written contents (snd (FileWriter_Append W d w)) = writer_written contents w @ d"
    and "filesize (snd (FileWriter_Append W d w)) = filesize w + length d"
proof -
  define w0 where "w0 = w\<lparr>pending_sync := True\<rparr>"
  define w1 where "w1 = (if buf_capacity (fw_buf w0) - CurrentSize (fw_buf w0) < length d
                         then grow_buffer (length d) (buf_capacity (fw_buf w0)) w0 else w0)"
  define a where "a = (if buf_capacity (fw_buf w1) - CurrentSize (fw_buf w1) < length d
                          \<and> CurrentSize (fw_buf w1) > 0
                       then FileWriter_Flush W w1 else (OK, w1))"
  have w1: "writes contents [] w (OK, w1)"
    using o by (simp add: w1_def w0_def writes_def writer_open_def writer_written_def)
  then have "writes contents [] w1 a"
    using Flush_writes by (simp add: a_def writes_def)
  then obtain w2 where w2: "a = (OK, w2)" and o2: "writer_open w2" and a: "writes contents [] w (OK, w2)"
    using writes_trans[OF w1, of "[]" a] by (cases a) (auto simp: writes_def)
  have fits: "buf_data (fw_buf w2) = [] \<or> length d \<le> buf_capacity (fw_buf w2)"
  proof (cases "buf_capacity (fw_buf w1) - CurrentSize (fw_buf w1) < length d
                   \<and> CurrentSize (fw_buf w1) > 0")
    case True
    then have "FileWriter_Flush W w1 = (OK, w2)" using w2 by (simp add: a_def)
    from Flush_buf[OF this] show ?thesis by simp
  next
    case False
    then have "w2 = w1" using w2 by (simp only: a_def if_False prod.inject)
    with False show ?thesis by (simp add: CurrentSize_def) linarith
  qed
  define b where "b = (if buf_capacity (fw_buf w2) \<ge> length d then append_loop W d w2
                       else WriteBuffered W d w2)"
  have "writes contents d w2 b"
  proof (cases "length d \<le> buf_capacity (fw_buf w2)")
    case True
    then have "d = [] \<or> 0 < buf_capacity (fw_buf w2)" by (cases d) auto
    with True append_loop_writes[OF o2, of d] show ?thesis by (simp add: b_def)
  next
    case False
    with fits WriteBuffered_writes[OF o2, of d] show ?thesis
      by (cases "d = []") (simp_all add: b_def)
  qed
  then have "writes contents d w b"
    using writes_trans[OF a] by fastforce
  moreover have "FileWriter_Append W d w =
      (fst b, if ok (fst b) then (snd b)\<lparr>filesize := filesize (snd b) + length d\<rparr> else snd b)"
    using w2 unfolding FileWriter_Append_def w0_def[symmetric] Let_def w1_def[symmetric] a_def[symmetric]
    by (simp add: case_prod_beta b_def)
  ultimately show "fst (FileWriter_Append W d w) = OK"
    and "writer_open (snd (FileWriter_Append W d w))"
    and "writer_written contents (snd (FileWriter_Append W d w)) = writer_written contents w @ d"
    and "filesize (snd (FileWriter_Append W d w)) = filesize w + length d"
    by (simp_all add: writes_def writer_open_def writer_written_def)
qed

end

context reliable_file
begin

lemma Flush_durable:
  assumes "writer_open w"
  shows "writer_durable contents (snd (FileWriter_Flush W w)) = writer_written contents w"
proof -
  obtain w' where w': "FileWriter_Flush W w = (OK, w')"
    and e: "writer_written contents w' = writer_written contents w"
    using Flush_writes[OF assms] by (cases "FileWriter_Flush W w") (auto simp: writes_def)
  from Flush_buf[OF w'] have "buf_data (fw_buf w') = []" by simp
  with w' e show ?thesis by (simp add: writer_durable_def writer_written_def)
qed

end

sublocale reliable_file \<subseteq> buffered: log_sink "writer_sink W" "writer_written contents"
    "writer_durable contents" writer_open
  using Append_writes Flush_writes Flush_durable
  by unfold_locales (simp_all add: writer_sink_def writes_def)

text \<open>The writer on a file of the mock environment.\<close>

definition mock_written :: "MemFile file_writer \<Rightarrow> bytes" where
  "mock_written = writer_written mem_data"

definition mock_durable :: "MemFile file_writer \<Rightarrow> bytes" where
  "mock_durable = writer_durable mem_data"

interpretation mock_sink: log_sink "writer_sink MockWritableFile" mock_written mock_durable writer_open
  unfolding mock_written_def mock_durable_def by (rule mock_file.buffered.log_sink_axioms)

text \<open>Several calls in a row.\<close>

primrec append_all :: "'f wfile \<Rightarrow> bytes list \<Rightarrow> 'f file_writer \<Rightarrow> Status \<times> 'f file_writer" where
  "append_all W [] w = (OK, w)"
| "append_all W (d # ds) w =
     (let (s, w) = FileWriter_Append W d w in if ok s then append_all W ds w else (s, w))"

context reliable_file
begin

lemma append_all_writes:
  "writer_open w \<Longrightarrow>
   \<exists>w'. append_all W ds w = (OK, w') \<and> writer_open w' \<and>
     writer_written contents w' = writer_written contents w @ concat ds \<and>
     filesize w' = filesize w + length (concat ds)"
proof (induction ds arbitrary: w)
  case Nil
  then show ?case by simp
next
  case (Cons d ds)
  obtain w1 where w1: "FileWriter_Append W d w = (OK, w1)"
    using Append_writes(1)[OF Cons.prems, of d] by (cases "FileWriter_Append W d w") auto
  note a = Append_writes(2-4)[OF Cons.prems, of d, unfolded w1 snd_conv]
  from Cons.IH[OF a(1)] a(2,3) w1 show ?case by auto
qed

lemma append_all_flush:
  assumes "writer_open w"
  shows "\<exists>w' w''. append_all W ds w = (OK, w') \<and> FileWriter_Flush W w' = (OK, w'') \<and>
    writer_durable contents w'' = writer_written contents w @ concat ds \<and>
    filesize w'' = filesize w + length (concat ds)"
proof -
  obtain w' where w': "append_all W ds w = (OK, w')" "writer_open w'"
    "writer_written contents w' = writer_written contents w @ concat ds"
    "filesize w' = filesize w + length (concat ds)"
    using append_all_writes[OF assms] by blast
  from Flush_writes[OF w'(2)] Flush_durable[OF w'(2)] w' show ?thesis
    by (cases "FileWriter_Flush W w'") (auto simp: writes_def)
qed

end

text \<open>
  C25: however the bytes are cut into calls and whatever the sizes of the buffer, after a flush
  the file holds exactly the bytes appended, in order, and the size the writer reports is theirs.
\<close>

theorem buffered_writes_in_order:
  "\<exists>w w' f. append_all MockWritableFile ds (WritableFileWriter_new MemFile_new alignment max_size per_sync) = (OK, w) \<and>
     FileWriter_Flush MockWritableFile w = (OK, w') \<and> writable_file w' = Some f \<and>
     mem_data f = concat ds \<and> filesize w' = length (concat ds)"
proof -
  let ?w = "WritableFileWriter_new MemFile_new alignment max_size per_sync"
  have new: "writer_open ?w" "writer_written mem_data ?w = []" "filesize ?w = 0"
    by (simp_all add: WritableFileWriter_new_def writer_open_def writer_written_def MemFile_new_def
        AllocateNewBuffer_def)
  obtain w w' where w: "append_all MockWritableFile ds ?w = (OK, w)"
    and w': "FileWriter_Flush MockWritableFile w = (OK, w')"
    and d: "writer_durable mem_data w' = concat ds" "filesize w' = length (concat ds)"
    using mock_file.append_all_flush[OF new(1), of ds] new by auto
  have "writer_open w" using mock_file.append_all_writes[OF new(1), of ds] w by auto
  then have "writer_open w'" using mock_file.Flush_writes[of w] w' by (simp add: writes_def)
  with d w w' show ?thesis by (auto simp: writer_open_def writer_durable_def)
qed

end
