(* ===== verification/LogWriter.thy ===== *)
theory LogWriter
  imports Crc32c FileWriter
begin

text \<open>
  The writer of the write-ahead log (db/log\_format.h, db/log\_writer.h, db/log\_writer.cc).
  A record is cut into fragments, each with a header of 7 bytes, or 11 in a recycled file,
  that never straddle a block of 32 KB; what is left of a block that cannot hold a header is
  filled with zeros. \<open>layout\<close> is the reference: the bytes of one record from a given offset in
  the block. Over any sink that keeps the laws of \<open>log_sink\<close>, \<open>AddRecord\<close> appends exactly
  that layout.
\<close>

section \<open>Format\<close>

definition kZeroType :: nat where "kZeroType = 0"
definition kFullType :: nat where "kFullType = 1"
definition kFirstType :: nat where "kFirstType = 2"
definition kMiddleType :: nat where "kMiddleType = 3"
definition kLastType :: nat where "kLastType = 4"
definition kRecyclableFullType :: nat where "kRecyclableFullType = 5"
definition kRecyclableFirstType :: nat where "kRecyclableFirstType = 6"
definition kRecyclableMiddleType :: nat where "kRecyclableMiddleType = 7"
definition kRecyclableLastType :: nat where "kRecyclableLastType = 8"
definition kMaxRecordType :: nat where "kMaxRecordType = kRecyclableLastType"

definition kBlockSize :: nat where "kBlockSize = 32768"
definition kHeaderSize :: nat where "kHeaderSize = 4 + 2 + 1"
definition kRecyclableHeaderSize :: nat where "kRecyclableHeaderSize = 4 + 2 + 1 + 4"

lemmas record_types =
  kZeroType_def kFullType_def kFirstType_def kMiddleType_def kLastType_def
  kRecyclableFullType_def kRecyclableFirstType_def kRecyclableMiddleType_def
  kRecyclableLastType_def kMaxRecordType_def

lemmas log_sizes = kBlockSize_def kHeaderSize_def kRecyclableHeaderSize_def

section \<open>Writer\<close>

record 'f log_writer =
  dest :: "'f option"
  block_offset :: nat
  lw_log_number :: u64
  recycle_log_files :: bool
  type_crc :: "u32 list"
  manual_flush :: bool

definition Writer_new :: "'f \<Rightarrow> u64 \<Rightarrow> bool \<Rightarrow> bool \<Rightarrow> 'f log_writer" where
  "Writer_new f log_number recycle manual =
     \<lparr>dest = Some f, block_offset = 0, lw_log_number = log_number, recycle_log_files = recycle,
      type_crc = map (\<lambda>i. crc32c_Value [of_nat i]) [0..<Suc kMaxRecordType],
      manual_flush = manual\<rparr>"

text \<open>
  Calls of the destination; a call after \<open>Writer_Close\<close> goes through a null pointer in the
  code, and the model leaves the writer as it is.
\<close>

definition on_dest :: "('f \<Rightarrow> Status \<times> 'f) \<Rightarrow> 'f log_writer \<Rightarrow> Status \<times> 'f log_writer" where
  "on_dest op w = (case dest w of
      None \<Rightarrow> (OK, w)
    | Some f \<Rightarrow> (let (s, f') = op f in (s, w\<lparr>dest := Some f'\<rparr>)))"

definition Writer_WriteBuffer :: "'f sink \<Rightarrow> 'f log_writer \<Rightarrow> Status \<times> 'f log_writer" where
  "Writer_WriteBuffer S w = on_dest (sink_Flush S) w"

definition Writer_Close :: "'f sink \<Rightarrow> 'f log_writer \<Rightarrow> Status \<times> 'f log_writer" where
  "Writer_Close S w =
     (if dest w \<noteq> None
      then (let (s, w) = on_dest (sink_Close S) w in (s, w\<lparr>dest := None\<rparr>))
      else (OK, w))"

definition header_crc :: "nat \<Rightarrow> bytes \<Rightarrow> bytes \<Rightarrow> u32 list \<Rightarrow> u32" where
  "header_crc t num data crcs =
     (let crc = crcs ! t;
          crc = (if t < kRecyclableFullType then crc else crc32c_Extend crc num)
      in crc32c_Mask (crc32c_Extend crc data))"

definition EmitPhysicalRecord ::
  "'f sink \<Rightarrow> nat \<Rightarrow> bytes \<Rightarrow> 'f log_writer \<Rightarrow> Status \<times> 'f log_writer" where
  "EmitPhysicalRecord S t data w =
     (let n = length data;
          tail = [of_nat (n mod 256), of_nat (n div 256), of_nat t];
          num = (if t < kRecyclableFullType then [] else EncodeFixed32 (ucast (lw_log_number w)));
          header_size = (if t < kRecyclableFullType then kHeaderSize else kRecyclableHeaderSize);
          crc = header_crc t num data (type_crc w);
          buf = EncodeFixed32 crc @ tail @ num;
          (s, w) = on_dest (sink_Append S buf) w;
          (s, w) = (if ok s then on_dest (sink_Append S data) w else (s, w))
      in (s, w\<lparr>block_offset := block_offset w + header_size + n\<rparr>))"

definition record_type :: "bool \<Rightarrow> bool \<Rightarrow> bool \<Rightarrow> nat" where
  "record_type recycle bgn fin =
     (if bgn \<and> fin then (if recycle then kRecyclableFullType else kFullType)
      else if bgn then (if recycle then kRecyclableFirstType else kFirstType)
      else if fin then (if recycle then kRecyclableLastType else kLastType)
      else (if recycle then kRecyclableMiddleType else kMiddleType))"

text \<open>
  The loop of \<^verbatim>\<open>AddRecord\<close>: \<open>switch_block\<close> is its first part, which fills the trailer of the
  block; \<open>data\<close> is what is left of the record.
\<close>

definition header_size_of :: "bool \<Rightarrow> nat" where
  "header_size_of recycle = (if recycle then kRecyclableHeaderSize else kHeaderSize)"

definition switch_block :: "'f sink \<Rightarrow> 'f log_writer \<Rightarrow> Status \<times> 'f log_writer" where
  "switch_block S w =
     (let leftover = kBlockSize - block_offset w
      in if leftover < header_size_of (recycle_log_files w)
         then (let (s, w) = (if leftover > 0 then on_dest (sink_Append S (replicate leftover 0)) w
                             else (OK, w))
               in if \<not> ok s then (s, w) else (s, w\<lparr>block_offset := 0\<rparr>))
         else (OK, w))"

lemma on_dest_frame [simp]:
  "block_offset (snd (on_dest op w)) = block_offset w"
  "recycle_log_files (snd (on_dest op w)) = recycle_log_files w"
  "lw_log_number (snd (on_dest op w)) = lw_log_number w"
  "type_crc (snd (on_dest op w)) = type_crc w"
  "manual_flush (snd (on_dest op w)) = manual_flush w"
  by (simp_all add: on_dest_def split: option.splits prod.splits)

lemma on_dest_frameD:
  assumes "on_dest op w = (s, w')"
  shows "block_offset w' = block_offset w" "recycle_log_files w' = recycle_log_files w"
  using on_dest_frame[of op w] assms by simp_all

lemma EmitPhysicalRecord_frame:
  assumes "EmitPhysicalRecord S t data w = (s, w')"
  shows "block_offset w' = block_offset w + (if t < kRecyclableFullType then kHeaderSize
             else kRecyclableHeaderSize) + length data"
    and "recycle_log_files w' = recycle_log_files w"
proof -
  have "block_offset (snd (EmitPhysicalRecord S t data w)) = block_offset w +
      (if t < kRecyclableFullType then kHeaderSize else kRecyclableHeaderSize) + length data \<and>
    recycle_log_files (snd (EmitPhysicalRecord S t data w)) = recycle_log_files w"
    by (simp add: EmitPhysicalRecord_def Let_def case_prod_beta)
  with assms show "block_offset w' = block_offset w +
      (if t < kRecyclableFullType then kHeaderSize else kRecyclableHeaderSize) + length data"
    and "recycle_log_files w' = recycle_log_files w"
    by simp_all
qed

lemma switch_block_frame:
  assumes "switch_block S w = (s, w')" and "ok s"
  shows "block_offset w' =
      (if kBlockSize - block_offset w < header_size_of (recycle_log_files w) then 0 else block_offset w)"
    and "recycle_log_files w' = recycle_log_files w"
  using assms
  by (auto simp: switch_block_def Let_def split: prod.splits if_splits dest: on_dest_frameD)

lemma record_type_size:
  "(if record_type recycle b e < kRecyclableFullType then kHeaderSize else kRecyclableHeaderSize) =
   header_size_of recycle"
  by (simp add: record_type_def record_types header_size_of_def)

function add_loop :: "'f sink \<Rightarrow> bytes \<Rightarrow> bool \<Rightarrow> 'f log_writer \<Rightarrow> Status \<times> 'f log_writer" where
  "add_loop S data bgn w =
     (let (s, w1) = switch_block S w
      in if \<not> ok s then (s, w1) else
         let avail = kBlockSize - block_offset w1 - header_size_of (recycle_log_files w1);
             fragment_length = (if length data < avail then length data else avail);
             fin = (length data = fragment_length);
             type = record_type (recycle_log_files w1) bgn fin;
             (s, w2) = EmitPhysicalRecord S type (take fragment_length data) w1
         in if ok s \<and> 0 < length (drop fragment_length data)
            then add_loop S (drop fragment_length data) False w2
            else (s, w2))"
  by pat_completeness auto

termination
proof (relation "measure (\<lambda>(S, data, bgn, w). 2 * length data +
    (if kBlockSize - block_offset w = header_size_of (recycle_log_files w) then 1 else 0))", goal_cases)
  case 1
  then show ?case by simp
next
  case (2 S data bgn w x s w1 avail fragment_length fin type y s' w2)
  have b: "block_offset w1 = (if kBlockSize - block_offset w < header_size_of (recycle_log_files w)
                              then 0 else block_offset w)"
    and r: "recycle_log_files w1 = recycle_log_files w"
    using switch_block_frame[of S w s w1] 2 by auto
  have e: "block_offset w2 = block_offset w1 + header_size_of (recycle_log_files w) + fragment_length"
    and r2: "recycle_log_files w2 = recycle_log_files w"
    using EmitPhysicalRecord_frame[of S type "take fragment_length data" w1 s' w2] 2 r
    by (simp_all add: record_type_size del: take_all)
  have hs: "0 < header_size_of (recycle_log_files w)" "header_size_of (recycle_log_files w) < kBlockSize"
    by (simp_all add: header_size_of_def log_sizes)
  have short: "fragment_length = avail" and av: "avail < length data"
    using 2(5,10) by (auto split: if_splits)
  have "block_offset w2 \<ge> kBlockSize"
    using e short r 2(4) by simp
  moreover have "avail = 0 \<Longrightarrow> kBlockSize - block_offset w = header_size_of (recycle_log_files w)"
    using b 2(4) r hs by (cases "kBlockSize - block_offset w < header_size_of (recycle_log_files w)") simp_all
  ultimately show ?case
    using short av r2 hs by (cases "avail = 0") auto
qed

declare add_loop.simps [simp del]

definition AddRecord :: "'f sink \<Rightarrow> bytes \<Rightarrow> 'f log_writer \<Rightarrow> Status \<times> 'f log_writer" where
  "AddRecord S data w =
     (let (s, w) = add_loop S data True w
      in if ok s then (if \<not> manual_flush w then on_dest (sink_Flush S) w else (s, w)) else (s, w))"

section \<open>Layout\<close>

text \<open>One physical record, and the bytes of a logical record from offset \<open>off\<close> of a block.\<close>

definition phys :: "bool \<Rightarrow> u64 \<Rightarrow> nat \<Rightarrow> bytes \<Rightarrow> bytes" where
  "phys recycle log_number t data =
     (let body = of_nat t # (if recycle then EncodeFixed32 (ucast log_number) else []) @ data
      in EncodeFixed32 (crc32c_Mask (crc32c_Value body)) @
         [of_nat (length data), of_nat (length data div 256)] @ body)"

definition trailer_length :: "bool \<Rightarrow> nat \<Rightarrow> nat" where
  "trailer_length recycle off =
     (if kBlockSize - off < header_size_of recycle then kBlockSize - off else 0)"

definition frag_start :: "bool \<Rightarrow> nat \<Rightarrow> nat" where
  "frag_start recycle off = (if kBlockSize - off < header_size_of recycle then 0 else off)"

definition frag_length :: "bool \<Rightarrow> nat \<Rightarrow> nat \<Rightarrow> nat" where
  "frag_length recycle off n = min n (kBlockSize - frag_start recycle off - header_size_of recycle)"

definition frag_end :: "bool \<Rightarrow> nat \<Rightarrow> nat \<Rightarrow> nat" where
  "frag_end recycle off n = frag_start recycle off + header_size_of recycle + frag_length recycle off n"

definition frag :: "bool \<Rightarrow> u64 \<Rightarrow> bool \<Rightarrow> nat \<Rightarrow> bytes \<Rightarrow> bytes" where
  "frag recycle ln bgn off data =
     (let n = frag_length recycle off (length data)
      in phys recycle ln (record_type recycle bgn (length data = n)) (take n data))"

lemma header_size_bounds: "0 < header_size_of recycle" "header_size_of recycle < kBlockSize"
  by (simp_all add: header_size_of_def log_sizes)

lemma frag_end_le: "frag_end recycle off n \<le> kBlockSize"
  using header_size_bounds[of recycle] by (auto simp: frag_end_def frag_start_def frag_length_def)

lemma frag_cut:
  assumes "frag_length recycle off n < n"
  shows "frag_end recycle off n = kBlockSize"
  using assms header_size_bounds[of recycle]
  by (auto simp: frag_end_def frag_start_def frag_length_def min_def split: if_splits)

lemma frag_progress:
  assumes "frag_length recycle off n < n"
  shows "0 < frag_length recycle off n \<or> kBlockSize - off = header_size_of recycle"
  using assms header_size_bounds[of recycle]
  by (auto simp: frag_end_def frag_start_def frag_length_def min_def split: if_splits)

function layout :: "bool \<Rightarrow> u64 \<Rightarrow> bool \<Rightarrow> nat \<Rightarrow> bytes \<Rightarrow> bytes \<times> nat" where
  "layout recycle ln bgn off data =
     (let n = frag_length recycle off (length data);
          out = replicate (trailer_length recycle off) 0 @ frag recycle ln bgn off data;
          off' = frag_end recycle off (length data)
      in if n < length data
         then (let (rest, off'') = layout recycle ln False off' (drop n data) in (out @ rest, off''))
         else (out, off'))"
  by pat_completeness auto

termination
proof (relation "measure (\<lambda>(recycle, ln, bgn, off, data). 2 * length data +
    (if kBlockSize - off = header_size_of recycle then 1 else 0))", goal_cases)
  case 1
  then show ?case by simp
next
  case (2 recycle ln bgn off data n out off')
  then show ?case
    using frag_progress[of recycle off "length data"] frag_cut[of recycle off "length data"]
      header_size_bounds[of recycle] by auto
qed

declare layout.simps [simp del]


text \<open>The records of a list one after the other, from an empty file or any offset.\<close>

primrec layouts :: "bool \<Rightarrow> u64 \<Rightarrow> nat \<Rightarrow> bytes list \<Rightarrow> bytes" where
  "layouts recycle ln off [] = []"
| "layouts recycle ln off (d # ds) =
     (let (out, off') = layout recycle ln True off d in out @ layouts recycle ln off' ds)"

section \<open>The writer appends the layout\<close>

definition log_written :: "('f \<Rightarrow> bytes) \<Rightarrow> 'f log_writer \<Rightarrow> bytes" where
  "log_written written w = (case dest w of None \<Rightarrow> [] | Some f \<Rightarrow> written f)"

definition writer_ok :: "('f \<Rightarrow> bool) \<Rightarrow> 'f log_writer \<Rightarrow> bool" where
  "writer_ok live w \<longleftrightarrow> (\<exists>f. dest w = Some f \<and> live f) \<and>
     type_crc w = map (\<lambda>i. crc32c_Value [of_nat i]) [0..<Suc kMaxRecordType]"

definition emits :: "('f \<Rightarrow> bytes) \<Rightarrow> ('f \<Rightarrow> bool) \<Rightarrow> bytes \<Rightarrow> 'f log_writer \<Rightarrow> Status \<times> 'f log_writer \<Rightarrow> bool" where
  "emits written live d w out \<longleftrightarrow>
     fst out = OK \<and> writer_ok live (snd out) \<and>
     log_written written (snd out) = log_written written w @ d \<and>
     manual_flush (snd out) = manual_flush w \<and>
     lw_log_number (snd out) = lw_log_number w \<and>
     recycle_log_files (snd out) = recycle_log_files w"

lemma emits_trans:
  "emits written live d w (s, w') \<Longrightarrow> emits written live e w' out \<Longrightarrow>
   emits written live (d @ e) w out"
  by (simp add: emits_def)

lemma of_nat_mod_256 [simp]: "(of_nat (n mod 256) :: byte) = of_nat n"
  by (rule word_unat_eq_iff[THEN iffD2]) (simp add: unat_of_nat)

lemma header_crc_body:
  assumes "t \<le> kMaxRecordType"
  shows "header_crc t (if t < kRecyclableFullType then [] else num) data
           (map (\<lambda>i. crc32c_Value [of_nat i]) [0..<Suc kMaxRecordType]) =
         crc32c_Mask (crc32c_Value (of_nat t # (if t < kRecyclableFullType then [] else num) @ data))"
proof -
  have "map (\<lambda>i. crc32c_Value [of_nat i]) [0..<Suc kMaxRecordType] ! t = crc32c_Value [of_nat t]"
    using assms by (simp del: upt_Suc)
  then show ?thesis
    by (simp add: header_crc_def crc32c_Value_def crc32c_Extend_append del: upt_Suc)
qed

lemma record_type_le: "record_type recycle bgn fin \<le> kMaxRecordType"
  by (simp add: record_type_def record_types)

lemma record_type_recyclable: "record_type recycle bgn fin < kRecyclableFullType \<longleftrightarrow> \<not> recycle"
  by (simp add: record_type_def record_types)

context log_sink
begin

lemma on_dest_append:
  assumes "writer_ok live w"
  shows "emits written live d w (on_dest (sink_Append S d) w)"
proof -
  obtain f where f: "dest w = Some f" "live f" using assms by (auto simp: writer_ok_def)
  show ?thesis
    using f assms by (rule_tac append_step[OF f(2), of d])
      (simp add: on_dest_def emits_def writer_ok_def log_written_def)
qed

lemma on_dest_flush:
  assumes "writer_ok live w"
  shows "emits written live [] w (on_dest (sink_Flush S) w)"
proof -
  obtain f where f: "dest w = Some f" "live f" using assms by (auto simp: writer_ok_def)
  show ?thesis
    using f assms by (rule_tac flush_step[OF f(2)])
      (simp add: on_dest_def emits_def writer_ok_def log_written_def)
qed

lemma emits_offset:
  "emits written live d w (s, w') \<Longrightarrow> emits written live d w (s, w'\<lparr>block_offset := n\<rparr>)"
  by (simp add: emits_def writer_ok_def log_written_def)

lemma EmitPhysicalRecord_emits:
  assumes w: "writer_ok live w" and r: "recycle_log_files w = recycle"
    and t: "t = record_type recycle bgn fin"
  shows "emits written live (phys recycle (lw_log_number w) t data) w (EmitPhysicalRecord S t data w)"
proof -
  have tr: "t < kRecyclableFullType \<longleftrightarrow> \<not> recycle" and tm: "t \<le> kMaxRecordType"
    using t record_type_recyclable record_type_le by simp_all
  define num where "num = (if t < kRecyclableFullType then [] else EncodeFixed32 (ucast (lw_log_number w)))"
  define buf where "buf = EncodeFixed32 (header_crc t num data (type_crc w)) @
    [of_nat (length data mod 256), of_nat (length data div 256), of_nat t] @ num"
  have bytes: "buf @ data = phys recycle (lw_log_number w) t data"
    using w header_crc_body[OF tm, of "EncodeFixed32 (ucast (lw_log_number w))" data] tr
    by (simp add: buf_def num_def phys_def writer_ok_def Let_def del: upt_Suc)
  obtain w1 where w1: "on_dest (sink_Append S buf) w = (OK, w1)" and e1: "emits written live buf w (OK, w1)"
    and ok1: "writer_ok live w1"
    using on_dest_append[OF w, of buf] by (cases "on_dest (sink_Append S buf) w") (auto simp: emits_def)
  obtain w2 where w2: "on_dest (sink_Append S data) w1 = (OK, w2)" and e2: "emits written live data w1 (OK, w2)"
    using on_dest_append[OF ok1, of data] by (cases "on_dest (sink_Append S data) w1") (auto simp: emits_def)
  have "EmitPhysicalRecord S t data w = (OK, w2\<lparr>block_offset := block_offset w2 +
      (if t < kRecyclableFullType then kHeaderSize else kRecyclableHeaderSize) + length data\<rparr>)"
    unfolding EmitPhysicalRecord_def Let_def num_def[symmetric] buf_def[symmetric]
    by (simp add: w1 w2)
  with emits_offset[OF emits_trans[OF e1 e2]] bytes show ?thesis by simp
qed

lemma switch_block_emits:
  assumes "writer_ok live w"
  shows "emits written live (replicate (trailer_length (recycle_log_files w) (block_offset w)) 0) w
           (switch_block S w)"
proof -
  let ?n = "kBlockSize - block_offset w"
  obtain w1 where w1: "on_dest (sink_Append S (replicate ?n 0)) w = (OK, w1)"
    and e1: "emits written live (replicate ?n 0) w (OK, w1)"
    using on_dest_append[OF assms, of "replicate ?n 0"]
    by (cases "on_dest (sink_Append S (replicate ?n 0)) w") (auto simp: emits_def)
  have e0: "emits written live [] w (OK, w)" using assms by (simp add: emits_def)
  show ?thesis
    using emits_offset[OF e1, of 0] emits_offset[OF e0, of 0] e0 w1
    by (simp add: switch_block_def Let_def trailer_length_def)
qed

lemma add_loop_emits:
  assumes "writer_ok live w" and "recycle_log_files w = recycle" and "lw_log_number w = ln"
    and "block_offset w = off"
  shows "emits written live (fst (layout recycle ln bgn off data)) w (add_loop S data bgn w) \<and>
         block_offset (snd (add_loop S data bgn w)) = snd (layout recycle ln bgn off data)"
  using assms
proof (induction recycle ln bgn off data arbitrary: w rule: layout.induct)
  case (1 recycle ln bgn off data)
  define n where "n = frag_length recycle off (length data)"
  obtain w1 where w1: "switch_block S w = (OK, w1)"
    and e1: "emits written live (replicate (trailer_length recycle off) 0) w (OK, w1)"
    using switch_block_emits[OF 1(2)] 1(3,5) by (cases "switch_block S w") (auto simp: emits_def)
  have o1: "block_offset w1 = frag_start recycle off" and r1: "recycle_log_files w1 = recycle"
    using switch_block_frame[OF w1] 1(3,5) by (simp_all add: frag_start_def)
  have ok1: "writer_ok live w1" and l1: "lw_log_number w1 = ln"
    using e1 1(4) by (simp_all add: emits_def)
  have n: "(if length data < kBlockSize - block_offset w1 - header_size_of (recycle_log_files w1)
            then length data
            else kBlockSize - block_offset w1 - header_size_of (recycle_log_files w1)) = n"
    by (simp add: n_def frag_length_def o1 r1 min_def)
  let ?t = "record_type recycle bgn (length data = n)"
  let ?e = "EmitPhysicalRecord S ?t (take n data) w1"
  obtain w2 where w2: "?e = (OK, w2)"
    and e2: "emits written live (phys recycle ln ?t (take n data)) w1 (OK, w2)"
    using EmitPhysicalRecord_emits[OF ok1 r1, of ?t bgn "length data = n" "take n data"] l1
    by (cases ?e) (auto simp: emits_def)
  have "n \<le> length data" by (simp add: n_def frag_length_def)
  then have o2: "block_offset w2 = frag_end recycle off (length data)"
    using EmitPhysicalRecord_frame(1)[OF w2] o1
    by (simp add: record_type_size frag_end_def n_def[symmetric])
  define out where "out = replicate (trailer_length recycle off) 0 @ frag recycle ln bgn off data"
  have e12: "emits written live out w (OK, w2)"
    using emits_trans[OF e1 e2] by (simp add: out_def frag_def n_def Let_def)
  have step: "add_loop S data bgn w =
      (if 0 < length (drop n data) then add_loop S (drop n data) False w2 else (OK, w2))"
    by (subst add_loop.simps)
      (simp only: w1 Let_def prod.case n ok_OK not_True_eq_False if_False, simp add: r1 w2)
  show ?case
  proof (cases "n < length data")
    case True
    have l: "layout recycle ln bgn off data =
        (out @ fst (layout recycle ln False (frag_end recycle off (length data)) (drop n data)),
         snd (layout recycle ln False (frag_end recycle off (length data)) (drop n data)))"
      using True by (subst layout.simps) (simp add: Let_def case_prod_beta n_def[symmetric] out_def)
    have ok2: "writer_ok live w2" "recycle_log_files w2 = recycle" "lw_log_number w2 = ln"
      using e12 1(3,4) by (simp_all add: emits_def)
    have len: "frag_length recycle off (length data) < length data" using True by (simp add: n_def)
    note IH = 1(1)[OF refl refl refl len ok2 o2, folded n_def]
    show ?thesis
      using IH emits_trans[OF e12] True by (simp add: step l)
  next
    case False
    have "layout recycle ln bgn off data = (out, frag_end recycle off (length data))"
      using False by (subst layout.simps) (simp add: n_def[symmetric] out_def)
    then show ?thesis using e12 False o2 by (simp add: step)
  qed
qed

lemma AddRecord_emits:
  assumes "writer_ok live w"
  shows "emits written live (fst (layout (recycle_log_files w) (lw_log_number w) True (block_offset w) data)) w
           (AddRecord S data w)"
    and "block_offset (snd (AddRecord S data w)) =
         snd (layout (recycle_log_files w) (lw_log_number w) True (block_offset w) data)"
proof -
  let ?l = "layout (recycle_log_files w) (lw_log_number w) True (block_offset w) data"
  obtain w1 where w1: "add_loop S data True w = (OK, w1)" and e1: "emits written live (fst ?l) w (OK, w1)"
    and o1: "block_offset w1 = snd ?l"
    using add_loop_emits[OF assms refl refl refl, of True data]
    by (cases "add_loop S data True w") (auto simp: emits_def)
  have "writer_ok live w1" using e1 by (simp add: emits_def)
  from emits_trans[OF e1 on_dest_flush[OF this]] e1 o1
  show "emits written live (fst ?l) w (AddRecord S data w)"
    and "block_offset (snd (AddRecord S data w)) = snd ?l"
    by (simp_all add: AddRecord_def w1)
qed

end

text \<open>
  What has reached the file: without manual flushing, everything once a record is added.
\<close>

context log_sink
begin

lemma AddRecord_durable:
  assumes "writer_ok live w" and "\<not> manual_flush w"
  shows "log_written durable (snd (AddRecord S d w)) = log_written written (snd (AddRecord S d w))"
proof -
  obtain w1 where w1: "add_loop S d True w = (OK, w1)" and ok1: "writer_ok live w1"
    and m: "\<not> manual_flush w1"
    using add_loop_emits[OF assms(1) refl refl refl, of True d] assms(2)
    by (cases "add_loop S d True w") (auto simp: emits_def)
  obtain f where f: "dest w1 = Some f" "live f" using ok1 by (auto simp: writer_ok_def)
  show ?thesis
    using flush_durable[OF f(2)] flush_written[OF f(2)] f m w1
    by (cases "sink_Flush S f") (simp add: AddRecord_def on_dest_def log_written_def)
qed

end

text \<open>A session of the writer: one call per record, on a new writer.\<close>

primrec AddRecords :: "'f sink \<Rightarrow> bytes list \<Rightarrow> 'f log_writer \<Rightarrow> Status \<times> 'f log_writer" where
  "AddRecords S [] w = (OK, w)"
| "AddRecords S (d # ds) w =
     (let (s, w) = AddRecord S d w in if ok s then AddRecords S ds w else (s, w))"

context log_sink
begin

lemma AddRecords_emits:
  "writer_ok live w \<Longrightarrow>
   emits written live (layouts (recycle_log_files w) (lw_log_number w) (block_offset w) ds) w (AddRecords S ds w)"
proof (induction ds arbitrary: w)
  case Nil
  then show ?case by (simp add: emits_def)
next
  case (Cons d ds)
  let ?l = "layout (recycle_log_files w) (lw_log_number w) True (block_offset w) d"
  obtain w1 where w1: "AddRecord S d w = (OK, w1)" and e1: "emits written live (fst ?l) w (OK, w1)"
    and o1: "block_offset w1 = snd ?l"
    using AddRecord_emits[OF Cons.prems, of d] by (cases "AddRecord S d w") (auto simp: emits_def)
  have ok1: "writer_ok live w1" "recycle_log_files w1 = recycle_log_files w"
    "lw_log_number w1 = lw_log_number w"
    using e1 by (simp_all add: emits_def)
  show ?case
    using emits_trans[OF e1 Cons.IH[OF ok1(1)]] ok1 o1 w1 by (simp add: case_prod_beta)
qed

lemma AddRecords_durable:
  "writer_ok live w \<Longrightarrow> \<not> manual_flush w \<Longrightarrow> log_written durable w = log_written written w \<Longrightarrow>
   log_written durable (snd (AddRecords S ds w)) = log_written written (snd (AddRecords S ds w))"
proof (induction ds arbitrary: w)
  case Nil
  then show ?case by simp
next
  case (Cons d ds)
  have e: "emits written live (fst (layout (recycle_log_files w) (lw_log_number w) True (block_offset w) d)) w
      (AddRecord S d w)"
    by (rule AddRecord_emits[OF Cons.prems(1)])
  then show ?case
    using Cons.IH[of "snd (AddRecord S d w)"] AddRecord_durable[OF Cons.prems(1,2), of d] Cons.prems(2)
    by (cases "AddRecord S d w") (simp add: emits_def)
qed

end

end
