(* ===== verification/LogReader.thy ===== *)
theory LogReader
  imports LogWriter
begin

text \<open>
  The reader of the write-ahead log (db/log\_reader.h, db/log\_reader.cc): the class \<^verbatim>\<open>Reader\<close>
  over a \<open>source\<close>. The buffer is the list of the bytes not yet consumed; the backing store has
  no other role. The calls of the reporter are the list \<open>reports\<close>. \<^verbatim>\<open>ReadRecord\<close> loops without
  a bound, so it is a partial function: \<open>None\<close> is a call that never returns.
\<close>

section \<open>State\<close>

datatype WALRecoveryMode =
  kTolerateCorruptedTailRecords | kAbsoluteConsistency | kPointInTimeRecovery
  | kSkipAnyCorruptedRecords

definition kEof :: nat where "kEof = kMaxRecordType + 1"
definition kBadRecord :: nat where "kBadRecord = kMaxRecordType + 2"
definition kBadHeader :: nat where "kBadHeader = kMaxRecordType + 3"
definition kOldRecord :: nat where "kOldRecord = kMaxRecordType + 4"
definition kBadRecordLen :: nat where "kBadRecordLen = kMaxRecordType + 5"
definition kBadRecordChecksum :: nat where "kBadRecordChecksum = kMaxRecordType + 6"

lemmas record_codes =
  kEof_def kBadRecord_def kBadHeader_def kOldRecord_def kBadRecordLen_def kBadRecordChecksum_def

record 'g log_reader =
  lr_file :: 'g
  reports :: "(nat \<times> Status) list"
  has_reporter :: bool
  checksum :: bool
  lr_buffer :: bytes
  lr_eof :: bool
  read_error :: bool
  eof_offset :: nat
  last_record_offset :: nat
  end_of_buffer_offset :: nat
  lr_log_number :: u64
  recycled :: bool

definition Reader_new :: "'g \<Rightarrow> bool \<Rightarrow> bool \<Rightarrow> u64 \<Rightarrow> 'g log_reader" where
  "Reader_new f reporter check log_num =
     \<lparr>lr_file = f, reports = [], has_reporter = reporter, checksum = check, lr_buffer = [],
      lr_eof = False, read_error = False, eof_offset = 0, last_record_offset = 0,
      end_of_buffer_offset = 0, lr_log_number = log_num, recycled = False\<rparr>"

definition ReportDrop :: "nat \<Rightarrow> Status \<Rightarrow> 'g log_reader \<Rightarrow> 'g log_reader" where
  "ReportDrop n reason r =
     (if has_reporter r then r\<lparr>reports := reports r @ [(n, reason)]\<rparr> else r)"

definition ReportCorruption :: "nat \<Rightarrow> bytes \<Rightarrow> 'g log_reader \<Rightarrow> 'g log_reader" where
  "ReportCorruption n reason r = ReportDrop n (Corruption reason []) r"

section \<open>Physical records\<close>

text \<open>Success, the size dropped, the error code and the new state.\<close>

definition ReadMore :: "'g source \<Rightarrow> 'g log_reader \<Rightarrow> bool \<times> nat option \<times> nat \<times> 'g log_reader" where
  "ReadMore R r =
     (if \<not> lr_eof r \<and> \<not> read_error r
      then (let (status, data, f) = source_Read R kBlockSize (lr_file r);
                r = r\<lparr>lr_file := f, lr_buffer := data,
                      end_of_buffer_offset := end_of_buffer_offset r + length data\<rparr>
            in if \<not> ok status
               then (False, None, kEof,
                     (ReportDrop kBlockSize status (r\<lparr>lr_buffer := []\<rparr>))\<lparr>read_error := True\<rparr>)
               else if length data < kBlockSize
               then (True, None, kEof, r\<lparr>lr_eof := True, eof_offset := length data\<rparr>)
               else (True, None, kEof, r))
      else if length (lr_buffer r) > 0
      then (False, Some (length (lr_buffer r)), kBadHeader, r\<lparr>lr_buffer := []\<rparr>)
      else (False, None, kEof, r))"

text \<open>
  The type byte is a signed character widened to an unsigned integer. The result is the code,
  the payload if one was set, the size dropped, and the new state.
\<close>

definition header_type :: "byte \<Rightarrow> nat" where
  "header_type c = unat (scast c :: u32)"

definition header_length :: "bytes \<Rightarrow> nat" where
  "header_length header = unat (ucast (header ! 4) OR push_bit 8 (ucast (header ! 5)) :: u32)"

definition check_record ::
  "nat \<Rightarrow> nat \<Rightarrow> nat \<Rightarrow> 'g log_reader \<Rightarrow> nat \<times> bytes option \<times> nat option \<times> 'g log_reader" where
  "check_record type header_size len r =
     (let header = lr_buffer r; n = length (lr_buffer r)
      in if header_size + len > n
         then (if \<not> lr_eof r then (kBadRecordLen, None, Some n, r\<lparr>lr_buffer := []\<rparr>)
               else if n > 0 then (kBadHeader, None, Some n, r\<lparr>lr_buffer := []\<rparr>)
               else (kEof, None, Some n, r\<lparr>lr_buffer := []\<rparr>))
         else if type = kZeroType \<and> len = 0 then (kBadRecord, None, None, r\<lparr>lr_buffer := []\<rparr>)
         else if checksum r
              \<and> crc32c_Value (take (len + header_size - 6) (drop 6 header)) \<noteq>
                crc32c_Unmask (DecodeFixed32 header)
         then (kBadRecordChecksum, None, Some n, r\<lparr>lr_buffer := []\<rparr>)
         else (type, Some (take len (drop header_size header)), None,
               r\<lparr>lr_buffer := drop (header_size + len) header\<rparr>))"

definition note_recycled :: "'g log_reader \<Rightarrow> 'g log_reader" where
  "note_recycled r =
     (if end_of_buffer_offset r - length (lr_buffer r) = 0 then r\<lparr>recycled := True\<rparr> else r)"

function ReadPhysicalRecord ::
  "'g source \<Rightarrow> 'g log_reader \<Rightarrow> nat \<times> bytes option \<times> nat option \<times> 'g log_reader" where
  "ReadPhysicalRecord R r =
     (if length (lr_buffer r) < kHeaderSize
      then (let (more, drop_size, err, r) = ReadMore R r
            in if \<not> more then (err, None, drop_size, r) else ReadPhysicalRecord R r)
      else let header = lr_buffer r;
               type = header_type (header ! 6);
               len = header_length header
           in if type \<ge> kRecyclableFullType \<and> type \<le> kRecyclableLastType
              then let r = note_recycled r
                   in if length (lr_buffer r) < kRecyclableHeaderSize
                      then (let (more, drop_size, err, r) = ReadMore R r
                            in if \<not> more then (err, None, drop_size, r) else ReadPhysicalRecord R r)
                      else if (ucast (DecodeFixed32 (drop 7 header)) :: u64) \<noteq> lr_log_number r
                      then (kOldRecord, None, None, r)
                      else check_record type kRecyclableHeaderSize len r
              else check_record type kHeaderSize len r)"
  by pat_completeness auto

lemma ReadMore_True:
  assumes "ReadMore R r = (True, d, e, r')"
  shows "\<not> lr_eof r \<and> \<not> read_error r \<and> (lr_eof r' \<or> kBlockSize \<le> length (lr_buffer r'))"
  using assms
  by (auto simp: ReadMore_def Let_def split: if_splits prod.splits)

definition reads_left :: "'g log_reader \<Rightarrow> nat" where
  "reads_left r = (if lr_eof r \<or> read_error r then 0 else if kBlockSize \<le> length (lr_buffer r) then 1 else 2)"

lemma ReadMore_reads_left:
  assumes "ReadMore R r = (True, d, e, r')" and "length (lr_buffer r) < kBlockSize"
  shows "reads_left r' < reads_left r"
  using ReadMore_True[OF assms(1)] assms(2) by (auto simp: reads_left_def)

lemma note_recycled_frame [simp]:
  "lr_buffer (note_recycled r) = lr_buffer r" "lr_eof (note_recycled r) = lr_eof r"
  "read_error (note_recycled r) = read_error r" "lr_log_number (note_recycled r) = lr_log_number r"
  "lr_file (note_recycled r) = lr_file r" "reports (note_recycled r) = reports r"
  "checksum (note_recycled r) = checksum r"
  "end_of_buffer_offset (note_recycled r) = end_of_buffer_offset r"
  "has_reporter (note_recycled r) = has_reporter r"
  "reads_left (note_recycled r) = reads_left r"
  by (simp_all add: note_recycled_def reads_left_def)

termination ReadPhysicalRecord
proof (relation "measure (\<lambda>(R, r). reads_left r)", goal_cases)
  case 1
  then show ?case by simp
next
  case (2 R r x more y drop_size z err r')
  then show ?case
    using ReadMore_reads_left[of R r drop_size err r'] by (auto simp: log_sizes)
next
  case (3 R r header type len rn x more y drop_size z err r')
  then show ?case
    using ReadMore_reads_left[of R rn drop_size err r'] by (auto simp: log_sizes)
qed

declare ReadPhysicalRecord.simps [simp del]

section \<open>Logical records\<close>

text \<open>The local variables of \<^verbatim>\<open>ReadRecord\<close>.\<close>

record read_locals =
  in_fragmented_record :: bool
  scratch :: bytes
  fragment :: bytes
  prospective_record_offset :: nat

definition read_locals_init :: read_locals where
  "read_locals_init = \<lparr>in_fragmented_record = False, scratch = [], fragment = [],
                       prospective_record_offset = 0\<rparr>"

text \<open>One turn of the loop either returns (success, record, scratch and state) or goes on.\<close>

type_synonym 'g read_result = "bool \<times> bytes \<times> bytes \<times> 'g log_reader"

text \<open>The ends of two cases of the switch, which other cases fall through to.\<close>

definition read_eof :: "WALRecoveryMode \<Rightarrow> read_locals \<Rightarrow> 'g log_reader \<Rightarrow> 'g read_result" where
  "read_eof mode l r =
     (if in_fragmented_record l
      then (False, [], [],
            if mode = kAbsoluteConsistency
            then ReportCorruption (length (scratch l)) (str ''error reading trailing data'') r else r)
      else (False, [], scratch l, r))"

definition read_bad :: "read_locals \<Rightarrow> 'g log_reader \<Rightarrow> read_locals \<times> 'g log_reader" where
  "read_bad l r =
     (if in_fragmented_record l
      then (l\<lparr>in_fragmented_record := False, scratch := []\<rparr>,
            ReportCorruption (length (scratch l)) (str ''error in middle of record'') r)
      else (l, r))"

definition report_partial :: "string \<Rightarrow> read_locals \<Rightarrow> 'g log_reader \<Rightarrow> 'g log_reader" where
  "report_partial reason l r =
     (if in_fragmented_record l \<and> scratch l \<noteq> []
      then ReportCorruption (length (scratch l)) (str reason) r else r)"

definition ReadRecord_turn ::
  "'g source \<Rightarrow> WALRecoveryMode \<Rightarrow> read_locals \<Rightarrow> 'g log_reader \<Rightarrow>
   'g read_result + (read_locals \<times> 'g log_reader)" where
  "ReadRecord_turn R mode l r =
     (let physical_record_offset = end_of_buffer_offset r - length (lr_buffer r);
          (code, result, dropped, r) = ReadPhysicalRecord R r;
          l = l\<lparr>fragment := (case result of Some d \<Rightarrow> d | None \<Rightarrow> fragment l)\<rparr>;
          drop_size = (case dropped of Some n \<Rightarrow> n | None \<Rightarrow> 0)
      in if code = kFullType \<or> code = kRecyclableFullType
         then (let r = report_partial ''partial record without end(1)'' l r
               in Inl (True, fragment l, [], r\<lparr>last_record_offset := physical_record_offset\<rparr>))
         else if code = kFirstType \<or> code = kRecyclableFirstType
         then (let r = report_partial ''partial record without end(2)'' l r
               in Inr (l\<lparr>prospective_record_offset := physical_record_offset,
                          scratch := fragment l, in_fragmented_record := True\<rparr>, r))
         else if code = kMiddleType \<or> code = kRecyclableMiddleType
         then (if \<not> in_fragmented_record l
               then Inr (l, ReportCorruption (length (fragment l))
                              (str ''missing start of fragmented record(1)'') r)
               else Inr (l\<lparr>scratch := scratch l @ fragment l\<rparr>, r))
         else if code = kLastType \<or> code = kRecyclableLastType
         then (if \<not> in_fragmented_record l
               then Inr (l, ReportCorruption (length (fragment l))
                              (str ''missing start of fragmented record(2)'') r)
               else Inl (True, scratch l @ fragment l, scratch l @ fragment l,
                         r\<lparr>last_record_offset := prospective_record_offset l\<rparr>))
         else if code = kBadHeader
         then Inl (read_eof mode l
                     (if mode = kAbsoluteConsistency
                      then ReportCorruption drop_size (str ''truncated header'') r else r))
         else if code = kEof then Inl (read_eof mode l r)
         else if code = kOldRecord
         then (if mode \<noteq> kSkipAnyCorruptedRecords then Inl (read_eof mode l r)
               else Inr (read_bad l r))
         else if code = kBadRecord then Inr (read_bad l r)
         else if code = kBadRecordLen \<or> code = kBadRecordChecksum
         then (if recycled r \<and> mode = kTolerateCorruptedTailRecords then Inl (False, [], [], r)
               else Inr (read_bad l (ReportCorruption drop_size
                      (if code = kBadRecordLen then str ''bad record length''
                       else str ''checksum mismatch'') r)))
         else Inr (l\<lparr>in_fragmented_record := False, scratch := []\<rparr>,
                   ReportCorruption
                     (length (fragment l) + (if in_fragmented_record l then length (scratch l) else 0))
                     (str ''unknown record type '' @ decimal code) r))"

partial_function (option) ReadRecord_loop ::
  "'g source \<Rightarrow> WALRecoveryMode \<Rightarrow> read_locals \<Rightarrow> 'g log_reader \<Rightarrow> 'g read_result option" where
  "ReadRecord_loop R mode l r = (case ReadRecord_turn R mode l r of
      Inl out \<Rightarrow> Some out
    | Inr st \<Rightarrow> ReadRecord_loop R mode (fst st) (snd st))"

definition ReadRecord ::
  "'g source \<Rightarrow> WALRecoveryMode \<Rightarrow> 'g log_reader \<Rightarrow> 'g read_result option" where
  "ReadRecord R mode r = ReadRecord_loop R mode read_locals_init r"

definition LastRecordOffset :: "'g log_reader \<Rightarrow> nat" where
  "LastRecordOffset r = last_record_offset r"

definition UnmarkEOFInternal :: "'g source \<Rightarrow> 'g log_reader \<Rightarrow> 'g log_reader" where
  "UnmarkEOFInternal R r =
     (let remaining = kBlockSize - eof_offset r;
          (status, data, f) = source_Read R remaining (lr_file r);
          added = length data;
          r = r\<lparr>lr_file := f, end_of_buffer_offset := end_of_buffer_offset r + added\<rparr>
      in if \<not> ok status
         then (if added > 0 then ReportDrop added status r else r)\<lparr>read_error := True\<rparr>
         else let r = r\<lparr>lr_buffer := lr_buffer r @ data\<rparr>
              in if added < remaining then r\<lparr>lr_eof := True, eof_offset := eof_offset r + added\<rparr>
                 else r\<lparr>eof_offset := 0\<rparr>)"

definition UnmarkEOF :: "'g source \<Rightarrow> 'g log_reader \<Rightarrow> 'g log_reader" where
  "UnmarkEOF R r =
     (if read_error r then r
      else let r = r\<lparr>lr_eof := False\<rparr>
           in if eof_offset r = 0 then r else UnmarkEOFInternal R r)"

text \<open>
  What recovery does with a reader: read until no record is left and keep what was read.
\<close>

partial_function (option) ReadRecords ::
  "'g source \<Rightarrow> WALRecoveryMode \<Rightarrow> 'g log_reader \<Rightarrow> (bytes list \<times> 'g log_reader) option" where
  "ReadRecords R mode r = (case ReadRecord R mode r of
      None \<Rightarrow> None
    | Some (got, rec, scr, r') \<Rightarrow>
        if got then Option.bind (ReadRecords R mode r') (\<lambda>(recs, r''). Some (rec # recs, r''))
        else Some ([], r'))"

end
