(* ===== verification/LogSpec.thy ===== *)
theory LogSpec
  imports LogReader
begin

text \<open>
  What the log promises. The reader is followed through a file \<open>C\<close> by the relation
  \<open>reader_at\<close>: \<open>p\<close> is the position of the next physical record and \<open>off\<close> its offset in the
  block, so that the block read last ends at \<open>p + (kBlockSize - off)\<close>. From there the lemmas
  follow the shape of \<open>layout\<close>: a fragment that is all there is returned, a torn one ends the
  log, trailers are skipped. The properties combine reader and writer: every record comes back,
  and after a crash that cuts the file anywhere the records that reached it whole come back.
\<close>

lemma drop_after: "drop p C = a @ b \<Longrightarrow> drop (p + length a) C = b"
  by (metis add.commute append_eq_conv_conj drop_drop)

section \<open>One physical record\<close>

lemma length_phys: "length (phys recycle ln t data) = header_size_of recycle + length data"
  by (simp add: phys_def Let_def header_size_of_def log_sizes)

lemma header_type_of_nat: "t \<le> kMaxRecordType \<Longrightarrow> header_type (of_nat t) = t"
proof -
  assume "t \<le> kMaxRecordType"
  then have "t < 9" by (simp add: record_types)
  then have "t \<in> {0, 1, 2, 3, 4, 5, 6, 7, 8}" by auto
  then show ?thesis by (auto simp: header_type_def)
qed

lemma header_length_bytes:
  assumes "n < 65536" and "h ! 4 = of_nat n" and "h ! 5 = of_nat (n div 256)"
  shows "header_length h = n"
proof -
  let ?a = "ucast (of_nat n :: byte) :: u32" and ?b = "ucast (of_nat (n div 256) :: byte) :: u32"
  have "\<not> bit ?a i \<or> \<not> bit (push_bit 8 ?b) i" for i
  proof -
    have "bit (of_nat n :: byte) i \<Longrightarrow> i < 8" by (drule bit_imp_le_length) simp
    then show ?thesis by (auto simp: bit_ucast_iff bit_push_bit_iff)
  qed
  then have e: "?a OR push_bit 8 ?b = ?a + push_bit 8 ?b"
    by (simp add: disjunctive_add)
  have p: "push_bit 8 ?b = ?b * 256"
    by (simp add: push_bit_eq_mult)
  have "unat ?a = n mod 256" and "unat ?b = n div 256"
    using assms(1) by (simp_all add: unsigned_ucast_eq unat_of_nat take_bit_nat_eq_self)
  then have "unat (?a + ?b * 256) = n"
    using assms(1) by (simp add: unat_word_ariths)
  then have "unat (?a OR push_bit 8 ?b) = n" by (subst e, subst p)
  then show ?thesis
    using assms by (simp add: header_length_def)
qed

lemma phys_fields:
  assumes "7 \<le> length (phys recycle ln t data)"
  shows "phys recycle ln t data ! 4 = of_nat (length data)"
    and "phys recycle ln t data ! 5 = of_nat (length data div 256)"
    and "phys recycle ln t data ! 6 = of_nat t"
  by (simp_all add: phys_def Let_def nth_append)

text \<open>A buffer that starts with the header of a record, whole or cut in its payload.\<close>

lemma parse_header:
  assumes "buf = take k (phys recycle ln t data @ rest)" and "kHeaderSize \<le> k"
    and "t \<le> kMaxRecordType" and "length data < 65536"
  shows "kHeaderSize \<le> length buf" and "header_type (buf ! 6) = t" and "header_length buf = length data"
proof -
  have nth: "buf ! i = phys recycle ln t data ! i" if "i < 7" for i
    using that assms(1,2) by (simp add: nth_append length_phys header_size_of_def log_sizes)
  show "kHeaderSize \<le> length buf"
    using assms(1,2) by (simp add: length_phys header_size_of_def log_sizes del: take_append)
  have l: "7 \<le> length (phys recycle ln t data)"
    by (simp add: length_phys header_size_of_def log_sizes)
  show "header_type (buf ! 6) = t"
    using assms(3) by (simp add: nth phys_fields[OF l] header_type_of_nat)
  show "header_length buf = length data"
    using assms(4) by (intro header_length_bytes) (simp_all add: nth phys_fields[OF l])
qed

lemma phys_log_number:
  assumes "unat ln < 2 ^ 32"
  shows "(ucast (DecodeFixed32 (drop 7 (phys True ln t data @ rest))) :: u64) = ln"
proof -
  have "(ucast (ucast ln :: u32) :: u64) = ln"
    using assms by (intro word_unat_eq_iff[THEN iffD2]) (simp add: unsigned_ucast_eq unsigned_take_bit_eq take_bit_nat_eq_self)
  then show ?thesis
    by (simp add: phys_def Let_def codec)
qed

lemma phys_crc:
  "crc32c_Value (take (length data + header_size_of recycle - 6) (drop 6 (phys recycle ln t data @ rest))) =
   crc32c_Unmask (DecodeFixed32 (phys recycle ln t data @ rest))"
proof -
  define body where "body = of_nat t # (if recycle then EncodeFixed32 (ucast ln) else []) @ data"
  have p: "phys recycle ln t data = EncodeFixed32 (crc32c_Mask (crc32c_Value body)) @
      [of_nat (length data), of_nat (length data div 256)] @ body"
    by (simp add: phys_def Let_def body_def)
  have "length data + header_size_of recycle - 6 = length body"
    by (simp add: body_def header_size_of_def log_sizes)
  then show ?thesis by (simp add: p codec)
qed

lemma phys_payload:
  "take (length data) (drop (header_size_of recycle) (phys recycle ln t data @ rest)) = data"
  by (simp add: phys_def Let_def header_size_of_def log_sizes)

section \<open>The reader in a file\<close>

definition reader_at :: "('g \<Rightarrow> bytes) \<Rightarrow> bytes \<Rightarrow> u64 \<Rightarrow> nat \<Rightarrow> nat \<Rightarrow> 'g log_reader \<Rightarrow> bool" where
  "reader_at unread C ln p off r \<longleftrightarrow>
     off \<le> kBlockSize \<and> p \<le> length C \<and> \<not> read_error r \<and>
     lr_buffer r = take (kBlockSize - off) (drop p C) \<and>
     unread (lr_file r) = drop (p + (kBlockSize - off)) C \<and>
     (lr_eof r \<longleftrightarrow> length C < p + (kBlockSize - off)) \<and>
     lr_log_number r = ln \<and> reports r = []"

definition ended :: "'g log_reader \<Rightarrow> bool" where
  "ended r \<longleftrightarrow> lr_eof r \<and> \<not> read_error r \<and> lr_buffer r = []"

lemma reader_at_new: "unread f = C \<Longrightarrow> reader_at unread C ln 0 kBlockSize (Reader_new f rep chk ln)"
  by (simp add: reader_at_def Reader_new_def)

lemma reader_at_note_recycled [simp]:
  "reader_at unread C ln p off (note_recycled r) = reader_at unread C ln p off r"
  by (simp add: reader_at_def)

lemma reader_at_remaining:
  assumes "reader_at unread C ln p off r" and "drop p C = take k X" and "k \<le> length X"
  shows "length C = p + k"
  using assms by (metis add.commute diff_add_inverse le_add_diff_inverse2 length_drop length_take
      min.absorb2 reader_at_def)

text \<open>Reading on: the next block, or the end.\<close>

lemma ReadMore_ended:
  "lr_eof r \<Longrightarrow> lr_buffer r = [] \<Longrightarrow> ReadMore R r = (False, None, kEof, r)"
  by (simp add: ReadMore_def)

lemma ReadMore_torn:
  "lr_eof r \<Longrightarrow> lr_buffer r \<noteq> [] \<Longrightarrow>
   ReadMore R r = (False, Some (length (lr_buffer r)), kBadHeader, r\<lparr>lr_buffer := []\<rparr>)"
  by (simp add: ReadMore_def)

lemma ReadPhysicalRecord_ended:
  "lr_eof r \<Longrightarrow> lr_buffer r = [] \<Longrightarrow> ReadPhysicalRecord R r = (kEof, None, None, r)"
  by (subst ReadPhysicalRecord.simps) (simp add: ReadMore_ended log_sizes)

lemma ReadPhysicalRecord_torn:
  "lr_eof r \<Longrightarrow> lr_buffer r \<noteq> [] \<Longrightarrow> length (lr_buffer r) < kHeaderSize \<Longrightarrow>
   ReadPhysicalRecord R r = (kBadHeader, None, Some (length (lr_buffer r)), r\<lparr>lr_buffer := []\<rparr>)"
  by (subst ReadPhysicalRecord.simps) (simp add: ReadMore_torn)

context log_source
begin

lemma ReadMore_block:
  assumes "reader_at unread C ln p off r" and "p + (kBlockSize - off) \<le> length C"
  obtains r' where "ReadMore R r = (True, None, kEof, r')"
    and "reader_at unread C ln (p + (kBlockSize - off)) 0 r'"
proof -
  obtain g where g: "source_Read R kBlockSize (lr_file r) =
      (OK, take kBlockSize (unread (lr_file r)), g)" "unread g = drop kBlockSize (unread (lr_file r))"
    by (rule read_step)
  define e d where "e = p + (kBlockSize - off)" and "d = take kBlockSize (drop e C)"
  define r1 where "r1 = r\<lparr>lr_file := g, lr_buffer := d,
    end_of_buffer_offset := end_of_buffer_offset r + length d\<rparr>"
  define r' where "r' = (if length d < kBlockSize then r1\<lparr>lr_eof := True, eof_offset := length d\<rparr> else r1)"
  have u: "unread (lr_file r) = drop e C" and f: "\<not> lr_eof r" "\<not> read_error r" "reports r = []"
    and l: "lr_log_number r = ln"
    using assms by (simp_all add: reader_at_def e_def not_less)
  have "ReadMore R r = (True, None, kEof, r')"
    using f by (simp add: ReadMore_def g u d_def[symmetric] r1_def[symmetric] r'_def)
  moreover have "length d < kBlockSize \<longleftrightarrow> length C < e + kBlockSize"
    using assms(2) by (auto simp: d_def e_def)
  then have "reader_at unread C ln e 0 r'"
    using assms(2) f l g u
    by (simp add: reader_at_def r'_def r1_def d_def e_def[symmetric] drop_drop add.commute)
  ultimately show thesis
    by (intro that) (simp_all add: e_def)
qed

lemma ReadPhysicalRecord_block:
  assumes "reader_at unread C ln p off r" and "p + (kBlockSize - off) \<le> length C"
    and "kBlockSize - off < kHeaderSize"
  obtains r' where "ReadPhysicalRecord R r = ReadPhysicalRecord R r'"
    and "reader_at unread C ln (p + (kBlockSize - off)) 0 r'"
proof -
  obtain r' where r': "ReadMore R r = (True, None, kEof, r')"
    "reader_at unread C ln (p + (kBlockSize - off)) 0 r'"
    using ReadMore_block[OF assms(1,2)] .
  have "length (lr_buffer r) < kHeaderSize"
    using assms by (simp add: reader_at_def)
  then have "ReadPhysicalRecord R r = ReadPhysicalRecord R r'"
    by (subst ReadPhysicalRecord.simps) (simp add: r'(1))
  with r'(2) show thesis by (intro that)
qed

end

lemma recyclable_types:
  assumes "t = record_type recycle bgn fin"
  shows "kRecyclableFullType \<le> t \<and> t \<le> kRecyclableLastType \<longleftrightarrow> recycle" and "t \<noteq> kZeroType"
  using assms by (auto simp: record_type_def record_types)

text \<open>A whole record is returned; \<open>off\<close> leaves room for it in the block.\<close>

lemma read_whole:
  assumes at: "reader_at unread C ln p off r" and C: "drop p C = phys recycle ln t data @ rest"
    and t: "t = record_type recycle bgn fin"
    and room: "header_size_of recycle + length data \<le> kBlockSize - off"
    and ln: "recycle \<Longrightarrow> unat ln < 2 ^ 32"
  shows "\<exists>r'. ReadPhysicalRecord R r = (t, Some data, None, r') \<and>
           reader_at unread C ln (p + header_size_of recycle + length data)
             (off + header_size_of recycle + length data) r'"
proof -
  let ?n = "header_size_of recycle + length data"
  have len: "length data < 65536" using room by (simp add: log_sizes)
  define more where "more = take (kBlockSize - off - ?n) rest"
  have buf: "lr_buffer r = phys recycle ln t data @ more"
    using at C room by (simp add: reader_at_def length_phys more_def)
  have ph: "kHeaderSize \<le> length (lr_buffer r)" "header_type (lr_buffer r ! 6) = t"
    "header_length (lr_buffer r) = length data"
    using parse_header[of "lr_buffer r" "length (lr_buffer r)" recycle ln t data more] buf
      record_type_le[of recycle bgn fin] len t
    by (simp_all add: length_phys header_size_of_def log_sizes split: if_splits)
  define r1 where "r1 = (if recycle then note_recycled r else r)"
  have r1: "lr_buffer r1 = lr_buffer r" "lr_log_number r1 = ln" "reader_at unread C ln p off r1"
    using at by (simp_all add: r1_def) (simp_all add: reader_at_def)
  define r' where "r' = r1\<lparr>lr_buffer := drop ?n (lr_buffer r)\<rparr>"
  have "check_record t (header_size_of recycle) (length data) r1 = (t, Some data, None, r')"
    using recyclable_types(2)[OF t] phys_crc[of data recycle ln t more] phys_payload[of data recycle ln t more]
    by (simp add: check_record_def Let_def r1 buf length_phys r'_def)
  moreover have "ReadPhysicalRecord R r = check_record t (header_size_of recycle) (length data) r1"
    using ph recyclable_types(1)[OF t] phys_log_number[OF ln, of t data more] r1 buf
    by (subst ReadPhysicalRecord.simps)
      (auto simp: Let_def r1_def header_size_of_def length_phys split: if_splits)
  moreover have "reader_at unread C ln (p + ?n) (off + ?n) r'"
  proof -
    have e: "p + ?n + (kBlockSize - (off + ?n)) = p + (kBlockSize - off)" using room by simp
    have "length (drop p C) = ?n + length rest" by (simp only: C length_append length_phys)
    moreover have "p \<le> length C" using at by (simp add: reader_at_def)
    ultimately have pC: "p + ?n \<le> length C" unfolding length_drop by linarith
    have "drop (p + ?n) C = rest" using C by (metis add.commute append_eq_conv_conj drop_drop length_phys)
    then have "drop ?n (lr_buffer r) = take (kBlockSize - (off + ?n)) (drop (p + ?n) C)"
      using buf room by (simp add: length_phys more_def)
    moreover have "off + ?n \<le> kBlockSize" using room header_size_bounds(1)[of recycle] by linarith
    ultimately show ?thesis
      using r1(3) pC unfolding reader_at_def r'_def e by simp
  qed
  ultimately show ?thesis by (simp add: add.assoc)
qed

text \<open>A record cut anywhere after its first byte ends the log.\<close>

lemma read_torn:
  assumes at: "reader_at unread C ln p off r" and C: "drop p C = take k (phys recycle ln t data @ rest)"
    and k: "0 < k" "k < header_size_of recycle + length data"
    and t: "t = record_type recycle bgn fin"
    and room: "header_size_of recycle + length data \<le> kBlockSize - off"
    and ln: "recycle \<Longrightarrow> unat ln < 2 ^ 32"
  shows "\<exists>r' n. ReadPhysicalRecord R r = (kBadHeader, None, Some n, r') \<and> ended r' \<and> reports r' = []"
proof -
  have len: "length data < 65536" using room by (simp add: log_sizes)
  have lC: "length C = p + k"
    using reader_at_remaining[OF at C] k by (simp add: length_phys)
  have buf: "lr_buffer r = take k (phys recycle ln t data @ rest)"
    using at C k room by (simp add: reader_at_def)
  have lbuf: "length (lr_buffer r) = k" using k by (simp add: buf length_phys del: take_append)
  have eof: "lr_eof r" "\<not> read_error r" "reports r = []" "lr_log_number r = ln"
    using at lC k room by (auto simp: reader_at_def)
  have ne: "lr_buffer r \<noteq> []" using lbuf k by auto
  show ?thesis
  proof (cases "k < kHeaderSize")
    case True
    with ReadPhysicalRecord_torn[of r R] eof ne lbuf show ?thesis
      by (auto simp: ended_def)
  next
    case False
    have ph: "header_type (lr_buffer r ! 6) = t" "header_length (lr_buffer r) = length data"
      using parse_header[OF buf, of] False record_type_le[of recycle bgn fin] len t by auto
    define r1 where "r1 = (if recycle then note_recycled r else r)"
    have r1: "lr_buffer r1 = lr_buffer r" "lr_log_number r1 = ln" "lr_eof r1" "\<not> read_error r1" "reports r1 = []"
      using eof by (simp_all add: r1_def)
    have chk: "check_record t (header_size_of recycle) (length data) r1 =
        (kBadHeader, None, Some k, r1\<lparr>lr_buffer := []\<rparr>)"
      using r1 k lbuf by (simp add: check_record_def Let_def)
    show ?thesis
    proof (cases "recycle \<and> k < kRecyclableHeaderSize")
      case True
      then have "ReadPhysicalRecord R r = (kBadHeader, None, Some k, r1\<lparr>lr_buffer := []\<rparr>)"
        using ph False recyclable_types(1)[OF t] r1 lbuf ReadMore_torn[of r1 R] ne
        by (subst ReadPhysicalRecord.simps) (auto simp: Let_def r1_def)
      then show ?thesis using r1 by (simp add: ended_def)
    next
      case short: False
      have num: "(ucast (DecodeFixed32 (drop 7 (lr_buffer r))) :: u64) = ln" if recycle
      proof -
        have "DecodeFixed32 (drop 7 (lr_buffer r)) = DecodeFixed32 (drop 7 (phys True ln t data @ rest))"
        proof -
          have "11 \<le> k" "11 \<le> length (phys True ln t data)"
            using that short by (simp_all add: log_sizes length_phys header_size_of_def)
          then show ?thesis
            using that unfolding buf
            by (subst (1 2) DecodeFixed32_of_le)
              (simp_all add: drop_take min_def del: take_append drop_append, auto)
        qed
        with phys_log_number[OF ln[OF that]] show ?thesis by simp
      qed
      have "ReadPhysicalRecord R r = check_record t (header_size_of recycle) (length data) r1"
        using ph False short recyclable_types(1)[OF t] r1 lbuf num
        by (subst ReadPhysicalRecord.simps) (auto simp: Let_def r1_def header_size_of_def)
      then show ?thesis using chk r1 by (simp add: ended_def)
    qed
  qed
qed

text \<open>
  A trailer: \<open>kBlockSize - off\<close> zeros that cannot hold a header. Fewer than seven are skipped
  on the way to the next block; in a recycled file seven to ten come back as a bad record.
\<close>

lemma zero_header:
  assumes "kHeaderSize \<le> n"
  shows "header_type (replicate n 0 ! 6) = 0" and "header_length (replicate n 0) = 0"
  using assms by (simp_all add: header_type_def header_length_def log_sizes)

lemma zero_record:
  assumes "lr_buffer r = replicate n 0" and "kHeaderSize \<le> n"
  shows "ReadPhysicalRecord R r = (kBadRecord, None, None, r\<lparr>lr_buffer := []\<rparr>)"
  using assms zero_header[OF assms(2)]
  by (subst ReadPhysicalRecord.simps)
    (simp add: Let_def check_record_def kZeroType_def kRecyclableFullType_def)

lemma read_trailer_long:
  assumes at: "reader_at unread C ln p off r" and C: "drop p C = replicate (kBlockSize - off) 0 @ rest"
    and n: "kHeaderSize \<le> kBlockSize - off"
  shows "\<exists>r'. ReadPhysicalRecord R r = (kBadRecord, None, None, r') \<and>
           reader_at unread C ln (p + (kBlockSize - off)) kBlockSize r'"
proof -
  have b: "lr_buffer r = replicate (kBlockSize - off) 0"
    using at C by (simp add: reader_at_def)
  have "length (drop p C) = (kBlockSize - off) + length rest" using C by simp
  moreover have "p \<le> length C" using at by (simp add: reader_at_def)
  ultimately have "p + (kBlockSize - off) \<le> length C" unfolding length_drop by linarith
  with zero_record[OF b n] at show ?thesis
    by (simp add: reader_at_def)
qed

lemma read_trailer_torn:
  assumes at: "reader_at unread C ln p off r" and C: "drop p C = replicate k 0"
    and k: "k < kBlockSize - off"
  shows "\<exists>r'. (k = 0 \<and> ReadPhysicalRecord R r = (kEof, None, None, r')
             \<or> 0 < k \<and> ReadPhysicalRecord R r = (kBadHeader, None, Some k, r')
             \<or> ReadPhysicalRecord R r = (kBadRecord, None, None, r'))
           \<and> ended r' \<and> reports r' = []"
proof -
  have b: "lr_buffer r = replicate k 0"
    using at C k by (simp add: reader_at_def)
  have "length (drop p C) = k" using C by simp
  then have eof: "lr_eof r" "\<not> read_error r" "reports r = []"
    using at k by (auto simp: reader_at_def)
  consider "k = 0" | "0 < k" "k < kHeaderSize" | "kHeaderSize \<le> k" by linarith
  then show ?thesis
  proof cases
    case 1
    with ReadPhysicalRecord_ended[of r R] eof b show ?thesis by (auto simp: ended_def)
  next
    case 2
    with ReadPhysicalRecord_torn[of r R] eof b show ?thesis by (auto simp: ended_def)
  next
    case 3
    with zero_record[OF b] eof show ?thesis by (auto simp: ended_def)
  qed
qed

section \<open>One logical record\<close>

text \<open>The loop's state when the fragments read so far are \<open>acc\<close>.\<close>

definition gathered :: "bool \<Rightarrow> bytes \<Rightarrow> read_locals \<Rightarrow> bool" where
  "gathered bgn acc l \<longleftrightarrow>
     (if bgn then \<not> in_fragmented_record l \<and> scratch l = [] \<and> acc = []
      else in_fragmented_record l \<and> scratch l = acc)"

lemma ReadRecord_loop_Inl:
  "ReadRecord_turn R mode l r = Inl out \<Longrightarrow> ReadRecord_loop R mode l r = Some out"
  by (subst ReadRecord_loop.simps) simp

lemma ReadRecord_loop_Inr:
  "ReadRecord_turn R mode l r = Inr (l', r') \<Longrightarrow> ReadRecord_loop R mode l r = ReadRecord_loop R mode l' r'"
  by (subst ReadRecord_loop.simps) simp

lemmas code_simps = record_types record_codes

lemma turn_full:
  assumes "ReadPhysicalRecord R r = (record_type recycle True True, Some d, None, r')"
    and "gathered True acc l"
  shows "ReadRecord_turn R mode l r = Inl (True, acc @ d, [],
           r'\<lparr>last_record_offset := end_of_buffer_offset r - length (lr_buffer r)\<rparr>)"
  using assms
  by (cases recycle)
    (simp_all add: ReadRecord_turn_def record_type_def code_simps gathered_def report_partial_def)

lemma turn_first:
  assumes "ReadPhysicalRecord R r = (record_type recycle True False, Some d, None, r')"
    and "gathered True acc l"
  shows "ReadRecord_turn R mode l r =
    Inr (l\<lparr>fragment := d, prospective_record_offset := end_of_buffer_offset r - length (lr_buffer r),
           scratch := acc @ d, in_fragmented_record := True\<rparr>, r')"
  using assms
  by (cases recycle)
    (simp_all add: ReadRecord_turn_def record_type_def code_simps gathered_def report_partial_def)

lemma turn_middle:
  assumes "ReadPhysicalRecord R r = (record_type recycle False False, Some d, None, r')"
    and "gathered False acc l"
  shows "ReadRecord_turn R mode l r = Inr (l\<lparr>fragment := d, scratch := acc @ d\<rparr>, r')"
  using assms
  by (cases recycle)
    (simp_all add: ReadRecord_turn_def record_type_def code_simps gathered_def)

lemma turn_last:
  assumes "ReadPhysicalRecord R r = (record_type recycle False True, Some d, None, r')"
    and "gathered False acc l"
  shows "ReadRecord_turn R mode l r = Inl (True, acc @ d, acc @ d,
           r'\<lparr>last_record_offset := prospective_record_offset l\<rparr>)"
  using assms
  by (cases recycle)
    (simp_all add: ReadRecord_turn_def record_type_def code_simps gathered_def)

lemma turn_fragment_last:
  assumes "ReadPhysicalRecord R r = (record_type recycle bgn True, Some d, None, r')"
    and "gathered bgn acc l"
  shows "\<exists>scr n. ReadRecord_turn R mode l r = Inl (True, acc @ d, scr, r'\<lparr>last_record_offset := n\<rparr>)"
proof (cases bgn)
  case True
  with assms turn_full[of R r recycle d r' acc l mode] show ?thesis by auto
next
  case False
  with assms turn_last[of R r recycle d r' acc l mode] show ?thesis by auto
qed

lemma turn_fragment:
  assumes "ReadPhysicalRecord R r = (record_type recycle bgn False, Some d, None, r')"
    and "gathered bgn acc l"
  shows "\<exists>l'. ReadRecord_turn R mode l r = Inr (l', r') \<and> gathered False (acc @ d) l'"
proof (cases bgn)
  case True
  with assms turn_first[of R r recycle d r' acc l mode] show ?thesis by (simp add: gathered_def)
next
  case False
  with assms turn_middle[of R r recycle d r' acc l mode] show ?thesis by (simp add: gathered_def)
qed

lemma turn_end:
  assumes r: "ReadPhysicalRecord R r = (cd, None, n, r')" and cd: "cd = kEof \<or> cd = kBadHeader"
    and "reports r' = []" and "ended r'"
    and mode: "mode = kAbsoluteConsistency \<Longrightarrow> bgn \<and> cd = kEof" and l: "gathered bgn acc l"
  shows "\<exists>scr r''. ReadRecord_turn R mode l r = Inl (False, [], scr, r'') \<and> reports r'' = [] \<and> ended r''"
proof -
  have "ReadRecord_turn R mode l r = Inl (False, [], [], r')"
    using cd
  proof
    assume "cd = kEof"
    with r mode l show ?thesis
      by (auto simp: ReadRecord_turn_def code_simps Let_def read_eof_def gathered_def split: if_splits)
  next
    assume "cd = kBadHeader"
    moreover from this mode have "mode \<noteq> kAbsoluteConsistency" by (auto simp: code_simps)
    ultimately show ?thesis
      using r l
      by (auto simp: ReadRecord_turn_def code_simps Let_def read_eof_def gathered_def split: if_splits)
  qed
  with assms(3,4) show ?thesis by simp
qed

lemma turn_bad_record:
  assumes "ReadPhysicalRecord R r = (kBadRecord, None, n, r')" and "gathered True [] l"
  shows "ReadRecord_turn R mode l r = Inr (l, r')"
  using assms by (simp add: ReadRecord_turn_def code_simps gathered_def read_bad_def)

text \<open>The shape of \<open>layout\<close>, without the pairs.\<close>

lemma layout_cut:
  "frag_length recycle off (length data) < length data \<Longrightarrow>
   layout recycle ln bgn off data =
     (let rest = layout recycle ln False (frag_end recycle off (length data))
                   (drop (frag_length recycle off (length data)) data)
      in (replicate (trailer_length recycle off) 0 @ frag recycle ln bgn off data @ fst rest, snd rest))"
  by (subst layout.simps) (simp add: Let_def case_prod_beta)

lemma layout_whole:
  "\<not> frag_length recycle off (length data) < length data \<Longrightarrow>
   layout recycle ln bgn off data =
     (replicate (trailer_length recycle off) 0 @ frag recycle ln bgn off data,
      frag_end recycle off (length data))"
  by (subst layout.simps) (simp add: Let_def)

lemma layout_end_le: "snd (layout recycle ln bgn off data) \<le> kBlockSize"
proof (induction recycle ln bgn off data rule: layout.induct)
  case (1 recycle ln bgn off data)
  show ?case
  proof (cases "frag_length recycle off (length data) < length data")
    case True
    from 1[OF refl refl refl True] show ?thesis by (simp add: layout_cut[OF True] Let_def)
  next
    case False
    then show ?thesis by (simp add: layout_whole frag_end_le)
  qed
qed

lemma frag_phys:
  "frag recycle ln bgn off data =
     phys recycle ln (record_type recycle bgn (length data = frag_length recycle off (length data)))
       (take (frag_length recycle off (length data)) data)"
  by (simp add: frag_def Let_def)

lemma frag_length_le: "frag_length recycle off n \<le> n"
  by (simp add: frag_length_def)

lemma length_frag: "length (frag recycle ln bgn off data) =
    header_size_of recycle + frag_length recycle off (length data)"
  using frag_length_le[of recycle off "length data"] by (simp add: frag_phys length_phys min_def)

lemma frag_room: "header_size_of recycle + frag_length recycle off n \<le> kBlockSize - frag_start recycle off"
  using header_size_bounds[of recycle] by (auto simp: frag_length_def frag_start_def)

text \<open>
  Skipping the trailer. A trailer of seven or more zeros costs a turn of the loop, which only
  happens at the start of a record; a shorter one is skipped while the next physical record
  is read, so that the physical record read at \<open>r1\<close> is the one at \<open>r2\<close>.
\<close>

context log_source
begin

lemma loop_trailer:
  assumes at: "reader_at unread C ln p off r"
    and C: "drop p C = replicate (trailer_length recycle off) 0 @ rest"
    and l: "gathered bgn acc l" and bgn: "trailer_length recycle off = 0 \<or> bgn"
  shows "\<exists>r1 r2. ReadRecord_loop R mode l r = ReadRecord_loop R mode l r1 \<and>
    ReadPhysicalRecord R r1 = ReadPhysicalRecord R r2 \<and>
    reader_at unread C ln (p + trailer_length recycle off) (frag_start recycle off) r2"
proof (cases "kBlockSize - off < header_size_of recycle")
  case False
  with at show ?thesis
    by (intro exI[of _ r]) (simp add: trailer_length_def frag_start_def)
next
  case True
  then have t: "trailer_length recycle off = kBlockSize - off" "frag_start recycle off = 0"
    by (simp_all add: trailer_length_def frag_start_def)
  have lC: "p + (kBlockSize - off) \<le> length C"
  proof -
    have "length (drop p C) = (kBlockSize - off) + length rest"
      using C t by simp
    moreover have "p \<le> length C" using at by (simp add: reader_at_def)
    ultimately show ?thesis unfolding length_drop by linarith
  qed
  show ?thesis
  proof (cases "kBlockSize - off < kHeaderSize")
    case True
    obtain r' where "ReadPhysicalRecord R r = ReadPhysicalRecord R r'"
      and "reader_at unread C ln (p + (kBlockSize - off)) 0 r'"
      using ReadPhysicalRecord_block[OF at lC True] .
    with t show ?thesis by auto
  next
    case False
    obtain r' where r': "ReadPhysicalRecord R r = (kBadRecord, None, None, r')"
      and at': "reader_at unread C ln (p + (kBlockSize - off)) kBlockSize r'"
      using read_trailer_long[OF at] C t False by (auto simp: not_less)
    have "gathered True [] l"
      using l bgn t False by (auto simp: gathered_def log_sizes split: if_splits)
    then have "ReadRecord_loop R mode l r = ReadRecord_loop R mode l r'"
      by (rule ReadRecord_loop_Inr[OF turn_bad_record[OF r']])
    moreover obtain r2 where "ReadPhysicalRecord R r' = ReadPhysicalRecord R r2"
      and "reader_at unread C ln (p + (kBlockSize - off) + (kBlockSize - kBlockSize)) 0 r2"
      by (rule ReadPhysicalRecord_block[OF at']) (use lC in \<open>auto simp: kHeaderSize_def\<close>)
    ultimately show ?thesis using t by auto
  qed
qed

lemma loop_frag:
  assumes at: "reader_at unread C ln p off r"
    and C: "drop p C = replicate (trailer_length recycle off) 0 @ frag recycle ln bgn off data @ rest"
    and l: "gathered bgn acc l" and bgn: "trailer_length recycle off = 0 \<or> bgn"
    and ln: "recycle \<Longrightarrow> unat ln < 2 ^ 32"
  shows "\<exists>r1 r'. ReadRecord_loop R mode l r = ReadRecord_loop R mode l r1 \<and>
    ReadPhysicalRecord R r1 =
      (record_type recycle bgn (length data = frag_length recycle off (length data)),
       Some (take (frag_length recycle off (length data)) data), None, r') \<and>
    reader_at unread C ln
      (p + length (replicate (trailer_length recycle off) (0::byte) @ frag recycle ln bgn off data))
      (frag_end recycle off (length data)) r'"
proof -
  let ?n = "frag_length recycle off (length data)"
  obtain r1 r2 where r1: "ReadRecord_loop R mode l r = ReadRecord_loop R mode l r1"
    and r12: "ReadPhysicalRecord R r1 = ReadPhysicalRecord R r2"
    and at2: "reader_at unread C ln (p + trailer_length recycle off) (frag_start recycle off) r2"
    using loop_trailer[OF at C l bgn] by blast
  have len: "length (take ?n data) = ?n"
    using frag_length_le[of recycle off "length data"] by simp
  have "drop (p + trailer_length recycle off) C = frag recycle ln bgn off data @ rest"
    using C by (metis add.commute append_eq_conv_conj drop_drop length_replicate)
  then have C2: "drop (p + trailer_length recycle off) C =
      phys recycle ln (record_type recycle bgn (length data = ?n)) (take ?n data) @ rest"
    by (simp add: frag_phys)
  obtain r' where "ReadPhysicalRecord R r2 =
      (record_type recycle bgn (length data = ?n), Some (take ?n data), None, r')"
    and "reader_at unread C ln (p + trailer_length recycle off + header_size_of recycle + ?n)
           (frag_start recycle off + header_size_of recycle + ?n) r'"
    using read_whole[OF at2 C2 refl _ ln, of R] frag_room[of recycle off "length data"] unfolding len by blast
  with r1 r12 show ?thesis
    by (auto simp: length_frag frag_end_def add.assoc)
qed

lemma loop_ended:
  assumes r: "ReadPhysicalRecord R r1 = (cd, None, n, r')" and "cd = kEof \<or> cd = kBadHeader"
    and "reports r' = []" and "ended r'"
    and "mode = kAbsoluteConsistency \<Longrightarrow> bgn \<and> cd = kEof" and "gathered bgn acc l"
  shows "\<exists>scr r''. ReadRecord_loop R mode l r1 = Some (False, [], scr, r'') \<and> reports r'' = []"
  using turn_end[OF assms] ReadRecord_loop_Inl by blast

lemma loop_torn:
  assumes at: "reader_at unread C ln p off r"
    and C: "drop p C = take k (replicate (trailer_length recycle off) 0 @ frag recycle ln bgn off data @ rest)"
    and k: "k < trailer_length recycle off + length (frag recycle ln bgn off data)"
    and l: "gathered bgn acc l" and bgn: "trailer_length recycle off = 0 \<or> bgn"
    and ln: "recycle \<Longrightarrow> unat ln < 2 ^ 32"
    and mode: "mode = kAbsoluteConsistency \<Longrightarrow> bgn \<and> k = 0"
  shows "\<exists>scr r'. ReadRecord_loop R mode l r = Some (False, [], scr, r') \<and> reports r' = []"
proof (cases "k < trailer_length recycle off")
  case True
  then have t: "trailer_length recycle off = kBlockSize - off" and g: "gathered True [] l"
    using l bgn by (auto simp: trailer_length_def gathered_def split: if_splits)
  have "drop p C = replicate k 0" using C True by simp
  then obtain r' where r': "(k = 0 \<and> ReadPhysicalRecord R r = (kEof, None, None, r')
             \<or> 0 < k \<and> ReadPhysicalRecord R r = (kBadHeader, None, Some k, r')
             \<or> ReadPhysicalRecord R r = (kBadRecord, None, None, r'))" and e: "ended r'" "reports r' = []"
    using read_trailer_torn[OF at] True t by fastforce
  from r' show ?thesis
  proof (elim disjE conjE)
    assume "ReadPhysicalRecord R r = (kEof, None, None, r')"
    from loop_ended[OF this _ e(2,1) _ l] mode show ?thesis by auto
  next
    assume "ReadPhysicalRecord R r = (kBadHeader, None, Some k, r')" and "0 < k"
    from loop_ended[OF this(1) _ e(2,1) _ l] this(2) mode show ?thesis by auto
  next
    assume b: "ReadPhysicalRecord R r = (kBadRecord, None, None, r')"
    have "ReadPhysicalRecord R r' = (kEof, None, None, r')"
      using e(1) by (simp add: ended_def ReadPhysicalRecord_ended)
    from loop_ended[OF this _ e(2,1) _ g] have
      "\<exists>scr r''. ReadRecord_loop R mode l r' = Some (False, [], scr, r'') \<and> reports r'' = []" by blast
    with ReadRecord_loop_Inr[OF turn_bad_record[OF b g]] show ?thesis by simp
  qed
next
  case False
  let ?n = "frag_length recycle off (length data)"
  let ?ph = "phys recycle ln (record_type recycle bgn (length data = ?n)) (take ?n data)"
  define k' where "k' = k - trailer_length recycle off"
  have C1: "drop p C = replicate (trailer_length recycle off) 0 @ take k' (frag recycle ln bgn off data @ rest)"
    using C False by (simp add: k'_def)
  obtain r1 r2 where r1: "ReadRecord_loop R mode l r = ReadRecord_loop R mode l r1"
    and r12: "ReadPhysicalRecord R r1 = ReadPhysicalRecord R r2"
    and at2: "reader_at unread C ln (p + trailer_length recycle off) (frag_start recycle off) r2"
    using loop_trailer[OF at C1 l bgn] by blast
  have C2: "drop (p + trailer_length recycle off) C = take k' (?ph @ rest)"
    using C1 by (metis add.commute append_eq_conv_conj drop_drop length_replicate frag_phys)
  have k': "k' < header_size_of recycle + length (take ?n data)"
    using k False frag_length_le[of recycle off "length data"] by (simp add: k'_def length_frag)
  have room: "header_size_of recycle + length (take ?n data) \<le> kBlockSize - frag_start recycle off"
    using frag_room[of recycle off "length data"] frag_length_le[of recycle off "length data"] by simp
  show ?thesis
  proof (cases "k' = 0")
    case True
    then have "drop (p + trailer_length recycle off) C = []" using C2 by simp
    then have "lr_eof r2" "lr_buffer r2 = []" "\<not> read_error r2" "reports r2 = []"
      using at2 room header_size_bounds(1)[of recycle] by (auto simp: reader_at_def)
    then have "ReadPhysicalRecord R r1 = (kEof, None, None, r2)" "ended r2" "reports r2 = []"
      using ReadPhysicalRecord_ended[of r2 R] r12 by (simp_all add: ended_def)
    from loop_ended[OF this(1) _ this(3,2) _ l, of mode] mode r1 show ?thesis by auto
  next
    case False
    obtain r' n where "ReadPhysicalRecord R r1 = (kBadHeader, None, Some n, r')" "ended r'" "reports r' = []"
      using read_torn[OF at2 C2 _ k' refl room ln, of R] False r12 by auto
    from loop_ended[OF this(1) _ this(3,2) _ l, of mode] mode r1 False show ?thesis
      by (auto simp: k'_def)
  qed
qed

lemma reader_at_last_offset [simp]:
  "reader_at unread C ln p off (r\<lparr>last_record_offset := n\<rparr>) = reader_at unread C ln p off r"
  by (simp add: reader_at_def)

text \<open>A record that is all there is returned; a record cut anywhere ends the log.\<close>

lemma read_layout:
  assumes "reader_at unread C ln p off r"
    and "drop p C = fst (layout recycle ln bgn off data) @ rest"
    and "gathered bgn acc l" and "bgn \<or> off = kBlockSize"
    and "recycle \<Longrightarrow> unat ln < 2 ^ 32"
  shows "\<exists>scr r'. ReadRecord_loop R mode l r = Some (True, acc @ data, scr, r') \<and>
    reader_at unread C ln (p + length (fst (layout recycle ln bgn off data)))
      (snd (layout recycle ln bgn off data)) r'"
  using assms
proof (induction recycle ln bgn off data arbitrary: p r acc l rule: layout.induct)
  case (1 recycle ln bgn off data)
  let ?n = "frag_length recycle off (length data)"
  let ?out = "replicate (trailer_length recycle off) (0::byte) @ frag recycle ln bgn off data"
  have tr: "trailer_length recycle off = 0 \<or> bgn"
    using 1(5) by (auto simp: trailer_length_def)
  show ?case
  proof (cases "?n < length data")
    case True
    let ?rest = "layout recycle ln False (frag_end recycle off (length data)) (drop ?n data)"
    note lay = layout_cut[OF True, of ln bgn, unfolded Let_def]
    have C: "drop p C = replicate (trailer_length recycle off) 0 @ frag recycle ln bgn off data @ (fst ?rest @ rest)"
      using 1(3) by (simp add: lay)
    obtain r1 r' where r1: "ReadRecord_loop R mode l r = ReadRecord_loop R mode l r1"
      and ph: "ReadPhysicalRecord R r1 = (record_type recycle bgn False, Some (take ?n data), None, r')"
      and at': "reader_at unread C ln (p + length ?out) (frag_end recycle off (length data)) r'"
      using loop_frag[OF 1(2) C 1(4) tr 1(6), of mode] True by auto
    obtain l' where "ReadRecord_turn R mode l r1 = Inr (l', r')" and l': "gathered False (acc @ take ?n data) l'"
      using turn_fragment[OF ph 1(4)] by blast
    then have r2: "ReadRecord_loop R mode l r = ReadRecord_loop R mode l' r'"
      using ReadRecord_loop_Inr r1 by simp
    have C': "drop (p + length ?out) C = fst ?rest @ rest"
      using C by (intro drop_after) simp
    from 1(1)[OF refl refl refl True at' C' l' _ 1(6)] frag_cut[OF True] r2
    show ?thesis by (simp add: lay add.assoc)
  next
    case False
    have "?n = length data" using False frag_length_le[of recycle off "length data"] by simp
    note lay = layout_whole[OF False, of ln bgn]
    have C: "drop p C = replicate (trailer_length recycle off) 0 @ frag recycle ln bgn off data @ rest"
      using 1(3) by (simp add: lay)
    obtain r1 r' where r1: "ReadRecord_loop R mode l r = ReadRecord_loop R mode l r1"
      and ph: "ReadPhysicalRecord R r1 = (record_type recycle bgn True, Some data, None, r')"
      and at': "reader_at unread C ln (p + length ?out) (frag_end recycle off (length data)) r'"
      using loop_frag[OF 1(2) C 1(4) tr 1(6), of mode] \<open>?n = length data\<close> by auto
    obtain scr n where "ReadRecord_turn R mode l r1 = Inl (True, acc @ data, scr, r'\<lparr>last_record_offset := n\<rparr>)"
      using turn_fragment_last[OF ph 1(4)] by blast
    from ReadRecord_loop_Inl[OF this] r1 at' show ?thesis by (auto simp: lay)
  qed
qed

lemma read_layout_torn:
  assumes "reader_at unread C ln p off r"
    and "drop p C = take k (fst (layout recycle ln bgn off data) @ rest)"
    and "k < length (fst (layout recycle ln bgn off data))"
    and "gathered bgn acc l" and "bgn \<or> off = kBlockSize"
    and "recycle \<Longrightarrow> unat ln < 2 ^ 32"
    and "mode = kAbsoluteConsistency \<Longrightarrow> bgn \<and> k = 0"
  shows "\<exists>scr r'. ReadRecord_loop R mode l r = Some (False, [], scr, r') \<and> reports r' = []"
  using assms
proof (induction recycle ln bgn off data arbitrary: p k r acc l rule: layout.induct)
  case (1 recycle ln bgn off data)
  let ?n = "frag_length recycle off (length data)"
  let ?out = "replicate (trailer_length recycle off) (0::byte) @ frag recycle ln bgn off data"
  have tr: "trailer_length recycle off = 0 \<or> bgn"
    using 1(6) by (auto simp: trailer_length_def)
  obtain more where lay: "fst (layout recycle ln bgn off data) = ?out @ more"
    by (cases "?n < length data") (simp_all add: layout_cut layout_whole Let_def)
  have C: "drop p C = take k (replicate (trailer_length recycle off) 0 @ frag recycle ln bgn off data @ (more @ rest))"
    using 1(3) by (simp add: lay)
  show ?case
  proof (cases "k < length ?out")
    case True
    then show ?thesis using loop_torn[OF 1(2) C _ 1(5) tr 1(7,8)] by simp
  next
    case k: False
    have cut: "?n < length data"
      using k 1(4) by (cases "?n < length data") (simp_all add: layout_whole)
    let ?rest = "layout recycle ln False (frag_end recycle off (length data)) (drop ?n data)"
    have more: "more = fst ?rest"
      using lay by (simp add: layout_cut[OF cut] Let_def)
    have C2: "drop p C = replicate (trailer_length recycle off) 0 @ frag recycle ln bgn off data @
        take (k - length ?out) (fst ?rest @ rest)"
      using C k by (simp add: more)
    have m: "mode \<noteq> kAbsoluteConsistency"
    proof
      assume "mode = kAbsoluteConsistency"
      with 1(8) have "k = 0" by blast
      with k header_size_bounds(1)[of recycle] show False by (simp add: length_frag)
    qed
    obtain r1 r' where r1: "ReadRecord_loop R mode l r = ReadRecord_loop R mode l r1"
      and ph: "ReadPhysicalRecord R r1 = (record_type recycle bgn False, Some (take ?n data), None, r')"
      and at': "reader_at unread C ln (p + length ?out) (frag_end recycle off (length data)) r'"
      using loop_frag[OF 1(2) C2 1(5) tr 1(7), of mode] cut by auto
    obtain l' where "ReadRecord_turn R mode l r1 = Inr (l', r')" and l': "gathered False (acc @ take ?n data) l'"
      using turn_fragment[OF ph 1(5)] by blast
    then have r2: "ReadRecord_loop R mode l r = ReadRecord_loop R mode l' r'"
      using ReadRecord_loop_Inr r1 by simp
    have C': "drop (p + length ?out) C = take (k - length ?out) (fst ?rest @ rest)"
    proof -
      have "drop p C = ?out @ take (k - length ?out) (fst ?rest @ rest)" using C2 by simp
      then show ?thesis by (rule drop_after)
    qed
    have "k - length ?out < length (fst ?rest)"
      using 1(4) k by (simp add: lay more)
    from 1(1)[OF refl refl refl cut at' C' this l' _ 1(7)] frag_cut[OF cut] r2 m
    show ?thesis by simp
  qed
qed

end

end
