(* ===== verification/LogRecovery.thy ===== *)
theory LogRecovery
  imports LogSpec
begin

text \<open>
  Whole logs: a session of the writer through the buffering file writer into a file of the
  mock environment, and the recovery that reads the file back; what is returned after a clean
  run and after a crash that cut the file, that the reader returns on every file unless told to
  skip corrupted records, and that with this mode it does not return on a record of another log.
\<close>

section \<open>Reading all records\<close>

primrec intact :: "bool \<Rightarrow> u64 \<Rightarrow> nat \<Rightarrow> nat \<Rightarrow> bytes list \<Rightarrow> bytes list" where
  "intact recycle ln off k [] = []"
| "intact recycle ln off k (d # ds) =
     (let (out, off') = layout recycle ln True off d
      in if length out \<le> k then d # intact recycle ln off' (k - length out) ds else [])"

lemma gathered_init: "gathered True [] read_locals_init"
  by (simp add: gathered_def read_locals_init_def)

lemma ReadRecords_stop:
  "ReadRecord R mode r = Some (False, rec, scr, r') \<Longrightarrow> ReadRecords R mode r = Some ([], r')"
  by (subst ReadRecords.simps) simp

lemma ReadRecords_more:
  "ReadRecord R mode r = Some (True, rec, scr, r') \<Longrightarrow> ReadRecords R mode r' = Some (recs, r'') \<Longrightarrow>
   ReadRecords R mode r = Some (rec # recs, r'')"
  by (subst ReadRecords.simps) simp

text \<open>Reading the records of a list and no more, with nothing reported on the way.\<close>

fun reads_quietly :: "'g source \<Rightarrow> WALRecoveryMode \<Rightarrow> 'g log_reader \<Rightarrow> bytes list \<Rightarrow> bool" where
  "reads_quietly R mode r [] \<longleftrightarrow> (\<exists>rec scr r'. ReadRecord R mode r = Some (False, rec, scr, r') \<and> reports r' = [])"
| "reads_quietly R mode r (d # ds) \<longleftrightarrow>
     (\<exists>scr r'. ReadRecord R mode r = Some (True, d, scr, r') \<and> reports r' = [] \<and> reads_quietly R mode r' ds)"

lemma reads_quietly_all: "reads_quietly R mode r ds \<Longrightarrow> \<exists>r'. ReadRecords R mode r = Some (ds, r') \<and> reports r' = []"
proof (induction ds arbitrary: r)
  case Nil
  then show ?case using ReadRecords_stop by fastforce
next
  case (Cons d ds)
  then obtain scr r1 where r1: "ReadRecord R mode r = Some (True, d, scr, r1)" "reads_quietly R mode r1 ds" by auto
  from Cons.IH [OF r1(2)] ReadRecords_more [OF r1(1)] show ?case by blast
qed

context log_source
begin

lemma read_end:
  assumes at: "reader_at unread C ln (length C) off r"
  shows "\<exists>scr r'. ReadRecord R mode r = Some (False, [], scr, r') \<and> reports r' = []"
proof -
  have "\<exists>r2. ReadPhysicalRecord R r = (kEof, None, None, r2) \<and> ended r2 \<and> reports r2 = []"
  proof (cases "lr_eof r")
    case True
    moreover have "lr_buffer r = []" "\<not> read_error r" "reports r = []"
      using at by (simp_all add: reader_at_def)
    ultimately show ?thesis by (simp add: ReadPhysicalRecord_ended ended_def)
  next
    case False
    then have off: "kBlockSize - off = 0" using at by (simp add: reader_at_def)
    obtain r2 where r2: "ReadPhysicalRecord R r = ReadPhysicalRecord R r2"
      and at2: "reader_at unread C ln (length C + (kBlockSize - off)) 0 r2"
      by (rule ReadPhysicalRecord_block[OF at]) (simp_all add: off kHeaderSize_def)
    have "lr_eof r2" "lr_buffer r2 = []" "\<not> read_error r2" "reports r2 = []"
      using at2 off by (simp_all add: reader_at_def kBlockSize_def)
    with r2 show ?thesis by (simp add: ReadPhysicalRecord_ended ended_def)
  qed
  then obtain r2 where "ReadPhysicalRecord R r = (kEof, None, None, r2)" "ended r2" "reports r2 = []"
    by blast
  from loop_ended[OF this(1) _ this(3,2) _ gathered_init] show ?thesis
    by (auto simp: ReadRecord_def)
qed

lemma read_all:
  assumes "reader_at unread C ln p off r" and "drop p C = take k (layouts recycle ln off ds)"
    and "recycle \<Longrightarrow> unat ln < 2 ^ 32"
    and "mode = kAbsoluteConsistency \<Longrightarrow> length (layouts recycle ln off ds) \<le> k"
  shows "reads_quietly R mode r (intact recycle ln off k ds)"
  using assms
proof (induction ds arbitrary: p off k r)
  case Nil
  then have "p = length C" by (simp add: reader_at_def)
  with read_end[of C ln off r mode] Nil.prems(1) show ?case
    by auto
next
  case (Cons d ds)
  let ?l = "layout recycle ln True off d"
  have C: "drop p C = take k (fst ?l @ layouts recycle ln (snd ?l) ds)"
    using Cons.prems(2) by (simp add: case_prod_beta)
  show ?case
  proof (cases "length (fst ?l) \<le> k")
    case True
    have "drop p C = fst ?l @ take (k - length (fst ?l)) (layouts recycle ln (snd ?l) ds)"
      using C True by simp
    from read_layout[OF Cons.prems(1) this gathered_init _ Cons.prems(3), of mode] drop_after[OF this]
    obtain scr r' where r': "ReadRecord R mode r = Some (True, d, scr, r')"
      and at': "reader_at unread C ln (p + length (fst ?l)) (snd ?l) r'"
      and C': "drop (p + length (fst ?l)) C = take (k - length (fst ?l)) (layouts recycle ln (snd ?l) ds)"
      by (auto simp: ReadRecord_def)
    have abs: "length (layouts recycle ln (snd ?l) ds) \<le> k - length (fst ?l)"
      if "mode = kAbsoluteConsistency"
      using Cons.prems(4)[OF that] by (simp add: case_prod_beta)
    from Cons.IH[OF at' C' Cons.prems(3) abs]
    have "reads_quietly R mode r' (intact recycle ln (snd ?l) (k - length (fst ?l)) ds)" .
    moreover have "reports r' = []" using at' by (simp add: reader_at_def)
    ultimately show ?thesis using r' True by (simp add: case_prod_beta)
  next
    case False
    have "mode \<noteq> kAbsoluteConsistency"
      using Cons.prems(4) False by (auto simp: case_prod_beta)
    with read_layout_torn[OF Cons.prems(1) C _ gathered_init _ Cons.prems(3), of mode] False
    obtain scr r' where "ReadRecord R mode r = Some (False, [], scr, r')" "reports r' = []"
      by (auto simp: ReadRecord_def)
    with False show ?thesis by (auto simp: case_prod_beta)
  qed
qed

end

text \<open>The records whose bytes are in the first \<open>k\<close> bytes.\<close>

lemma intact_all: "length (layouts recycle ln off ds) \<le> k \<Longrightarrow> intact recycle ln off k ds = ds"
  by (induction ds arbitrary: off k) (auto simp: case_prod_beta)

lemma intact_take:
  "n \<le> length ds \<Longrightarrow> length (layouts recycle ln off (take n ds)) \<le> k \<Longrightarrow>
   n = length ds \<or> k < length (layouts recycle ln off (take (Suc n) ds)) \<Longrightarrow>
   intact recycle ln off k ds = take n ds"
proof (induction ds arbitrary: off k n)
  case Nil
  then show ?case by simp
next
  case (Cons d ds)
  show ?case
  proof (cases n)
    case 0
    with Cons.prems show ?thesis by (auto simp: case_prod_beta)
  next
    case (Suc m)
    let ?l = "layout recycle ln True off d"
    have k: "length (fst ?l) \<le> k" "m \<le> length ds"
      "length (layouts recycle ln (snd ?l) (take m ds)) \<le> k - length (fst ?l)"
      "m = length ds \<or> k - length (fst ?l) < length (layouts recycle ln (snd ?l) (take (Suc m) ds))"
      using Cons.prems Suc by (auto simp: case_prod_beta)
    from Cons.IH[OF k(2,3,4)] k(1) Suc show ?thesis by (simp add: case_prod_beta)
  qed
qed

text \<open>A new writer starts at offset 0, the reader at the end of an empty block.\<close>

lemma layout_start: "layout recycle ln bgn 0 data = layout recycle ln bgn kBlockSize data"
proof -
  have "trailer_length recycle 0 = trailer_length recycle kBlockSize"
    and "frag_start recycle 0 = frag_start recycle kBlockSize"
    using header_size_bounds[of recycle] by (simp_all add: trailer_length_def frag_start_def)
  then show ?thesis
    by (subst (1 2) layout.simps) (simp add: frag_def frag_end_def frag_length_def)
qed

lemma layouts_start: "layouts recycle ln 0 ds = layouts recycle ln kBlockSize ds"
  by (cases ds) (simp_all add: layout_start)

lemma intact_start: "intact recycle ln 0 k ds = intact recycle ln kBlockSize k ds"
  by (cases ds) (simp_all add: layout_start)

section \<open>Writing through the mock environment and reading back\<close>

definition new_log :: "nat \<Rightarrow> bool \<Rightarrow> u64 \<Rightarrow> MemFile file_writer log_writer" where
  "new_log max_size recycle ln =
     Writer_new (WritableFileWriter_new MemFile_new 1 max_size 0) ln recycle False"

definition log_file :: "nat \<Rightarrow> bool \<Rightarrow> u64 \<Rightarrow> bytes list \<Rightarrow> bytes" where
  "log_file max_size recycle ln recs =
     log_written mock_durable (snd (AddRecords (writer_sink MockWritableFile) recs (new_log max_size recycle ln)))"

definition recover ::
  "WALRecoveryMode \<Rightarrow> bool \<Rightarrow> bool \<Rightarrow> u64 \<Rightarrow> bytes \<Rightarrow> (bytes list \<times> MockSequentialFile log_reader) option" where
  "recover mode reporter check ln data =
     ReadRecords SequentialFileReader mode
       (Reader_new (MockSequentialFile_new (MemFile_new\<lparr>mem_data := data\<rparr>)) reporter check ln)"

lemma new_log_ok:
  "writer_ok writer_open (new_log max_size recycle ln)"
  "log_written mock_written (new_log max_size recycle ln) = []"
  "log_written mock_durable (new_log max_size recycle ln) = []"
  "\<not> manual_flush (new_log max_size recycle ln)" "block_offset (new_log max_size recycle ln) = 0"
  "recycle_log_files (new_log max_size recycle ln) = recycle"
  "lw_log_number (new_log max_size recycle ln) = ln"
  by (simp_all add: new_log_def Writer_new_def writer_ok_def WritableFileWriter_new_def writer_open_def
      log_written_def mock_written_def writer_written_def MemFile_new_def AllocateNewBuffer_def
      mock_durable_def writer_durable_def)

lemma log_file_layouts: "log_file max_size recycle ln recs = layouts recycle ln 0 recs"
proof -
  let ?w = "new_log max_size recycle ln"
  have "log_written mock_durable (snd (AddRecords (writer_sink MockWritableFile) recs ?w)) =
        log_written mock_written (snd (AddRecords (writer_sink MockWritableFile) recs ?w))"
    by (rule mock_sink.AddRecords_durable) (simp_all add: new_log_ok)
  also have "\<dots> = layouts recycle ln 0 recs"
    using mock_sink.AddRecords_emits[OF new_log_ok(1), of max_size recycle ln recs]
    by (simp add: emits_def new_log_ok)
  finally show ?thesis by (simp add: log_file_def)
qed

lemma recover_quietly:
  assumes "recycle \<Longrightarrow> unat ln < 2 ^ 32"
    and "mode = kAbsoluteConsistency \<Longrightarrow> length (layouts recycle ln 0 recs) \<le> k"
  shows "reads_quietly SequentialFileReader mode
    (Reader_new (MockSequentialFile_new (MemFile_new\<lparr>mem_data := take k (layouts recycle ln 0 recs)\<rparr>)) rep chk ln)
    (intact recycle ln 0 k recs)"
proof -
  let ?f = "MockSequentialFile_new (MemFile_new\<lparr>mem_data := take k (layouts recycle ln 0 recs)\<rparr>)"
  have at: "reader_at msf_unread (take k (layouts recycle ln 0 recs)) ln 0 kBlockSize (Reader_new ?f rep chk ln)"
    by (rule reader_at_new) (simp add: msf_unread_def MockSequentialFile_new_def)
  show ?thesis
    using mock_source.read_all[OF at, of k recycle recs mode] assms
    by (auto simp: layouts_start intact_start)
qed

lemma recover_take:
  assumes "recycle \<Longrightarrow> unat ln < 2 ^ 32"
    and "mode = kAbsoluteConsistency \<Longrightarrow> length (layouts recycle ln 0 recs) \<le> k"
  shows "\<exists>r. recover mode rep chk ln (take k (layouts recycle ln 0 recs)) =
    Some (intact recycle ln 0 k recs, r) \<and> reports r = []"
  unfolding recover_def using reads_quietly_all [OF recover_quietly] assms by blast

section \<open>Blocks\<close>

lemma frag_position:
  "off \<le> kBlockSize \<Longrightarrow>
   (off + (trailer_length recycle off + length (frag recycle ln bgn off data))) mod kBlockSize =
   frag_end recycle off (length data) mod kBlockSize"
  by (auto simp: trailer_length_def frag_end_def frag_start_def length_frag add.assoc)

lemma layout_position:
  "off \<le> kBlockSize \<Longrightarrow>
   (off + length (fst (layout recycle ln bgn off data))) mod kBlockSize =
   snd (layout recycle ln bgn off data) mod kBlockSize"
proof (induction recycle ln bgn off data rule: layout.induct)
  case (1 recycle ln bgn off data)
  note pos = frag_position[OF 1(2), of recycle ln bgn data]
  show ?case
  proof (cases "frag_length recycle off (length data) < length data")
    case True
    let ?r = "layout recycle ln False (frag_end recycle off (length data)) (drop (frag_length recycle off (length data)) data)"
    have "(frag_end recycle off (length data) + length (fst ?r)) mod kBlockSize = snd ?r mod kBlockSize"
      using 1(1)[OF refl refl refl True] frag_end_le by blast
    with pos show ?thesis
      by (simp add: layout_cut[OF True] Let_def add.assoc[symmetric]) (metis mod_add_left_eq)
  next
    case False
    with pos show ?thesis by (simp add: layout_whole)
  qed
qed

lemma AddRecords_position:
  assumes "writer_ok writer_open w" and "block_offset w \<le> kBlockSize"
    and "length (log_written mock_written w) mod kBlockSize = block_offset w mod kBlockSize"
    and "w' = snd (AddRecords (writer_sink MockWritableFile) recs w)"
  shows "block_offset w' \<le> kBlockSize \<and>
    length (log_written mock_written w') mod kBlockSize = block_offset w' mod kBlockSize"
  using assms
proof (induction recs arbitrary: w)
  case Nil
  then show ?case by simp
next
  case (Cons d ds)
  let ?l = "layout (recycle_log_files w) (lw_log_number w) True (block_offset w) d"
  obtain w1 where w1: "AddRecord (writer_sink MockWritableFile) d w = (OK, w1)"
    and e: "emits mock_written writer_open (fst ?l) w (OK, w1)" and o: "block_offset w1 = snd ?l"
    using mock_sink.AddRecord_emits[OF Cons.prems(1), of d]
    by (cases "AddRecord (writer_sink MockWritableFile) d w") (auto simp: emits_def)
  have "length (log_written mock_written w1) mod kBlockSize = block_offset w1 mod kBlockSize"
    using e Cons.prems(3) layout_position[OF Cons.prems(2), of "recycle_log_files w" "lw_log_number w" True d]
    by (simp add: emits_def o) (metis mod_add_left_eq)
  moreover have "block_offset w1 \<le> kBlockSize" by (simp add: o layout_end_le)
  ultimately show ?case
    using Cons.IH[of w1] e Cons.prems(4) w1 by (simp add: emits_def)
qed

section \<open>Does the reader return?\<close>

text \<open>Bytes not yet consumed; every turn that goes on has consumed some.\<close>

definition bytes_left :: "('g \<Rightarrow> bytes) \<Rightarrow> 'g log_reader \<Rightarrow> nat" where
  "bytes_left unread r = length (lr_buffer r) + length (unread (lr_file r))"

lemma bytes_left_frame [simp]:
  "bytes_left unread (note_recycled r) = bytes_left unread r"
  "bytes_left unread (ReportCorruption n reason r) = bytes_left unread r"
  "bytes_left unread (r\<lparr>last_record_offset := m\<rparr>) = bytes_left unread r"
  "bytes_left unread (report_partial s l r) = bytes_left unread r"
  "bytes_left unread (snd (read_bad l r)) = bytes_left unread r"
  by (simp_all add: bytes_left_def ReportCorruption_def ReportDrop_def report_partial_def read_bad_def)

definition final_code :: "nat \<Rightarrow> bool" where
  "final_code cd \<longleftrightarrow> cd = kEof \<or> cd = kBadHeader \<or> cd = kOldRecord"

lemma check_record_consumes:
  assumes "check_record type hs len r = (cd, res, n, r')" and "0 < length (lr_buffer r)" and "0 < hs"
  shows "bytes_left unread r' < bytes_left unread r"
  using assms by (auto simp: check_record_def Let_def bytes_left_def split: if_splits)

context log_source
begin

lemma ReadMore_bytes:
  assumes "ReadMore R r = (mo, n, cd, r')"
  shows "bytes_left unread r' \<le> bytes_left unread r" and "\<not> mo \<Longrightarrow> final_code cd"
proof -
  obtain g where g: "source_Read R kBlockSize (lr_file r) =
      (OK, take kBlockSize (unread (lr_file r)), g)" "unread g = drop kBlockSize (unread (lr_file r))"
    by (rule read_step)
  show "bytes_left unread r' \<le> bytes_left unread r" and "\<not> mo \<Longrightarrow> final_code cd"
    using assms g by (auto simp: ReadMore_def Let_def bytes_left_def final_code_def split: if_splits)
qed

lemma ReadPhysicalRecord_consumes:
  "ReadPhysicalRecord R r = (cd, res, n, r') \<Longrightarrow>
   bytes_left unread r' \<le> bytes_left unread r \<and>
   (final_code cd \<or> bytes_left unread r' < bytes_left unread r)"
proof (induction "reads_left r" arbitrary: r rule: less_induct)
  case less
  have again: "bytes_left unread r' \<le> bytes_left unread r0 \<and>
      (final_code cd \<or> bytes_left unread r' < bytes_left unread r0)"
    if m: "ReadMore R r0 = (mo, k, e, r1)" and "length (lr_buffer r0) < kBlockSize"
      and "reads_left r0 = reads_left r"
      and "(if \<not> mo then (e, None, k, r1) else ReadPhysicalRecord R r1) = (cd, res, n, r')"
    for r0 mo k e r1
  proof (cases mo)
    case True
    with that less.hyps[of r1] ReadMore_reads_left[of R r0 k e r1] ReadMore_bytes[OF m] show ?thesis
      by fastforce
  next
    case False
    with that ReadMore_bytes[OF m] show ?thesis by auto
  qed
  show ?case
  proof (cases "length (lr_buffer r) < kHeaderSize")
    case True
    obtain mo k e r1 where m: "ReadMore R r = (mo, k, e, r1)" by (cases "ReadMore R r")
    have "(if \<not> mo then (e, None, k, r1) else ReadPhysicalRecord R r1) = (cd, res, n, r')"
      using less.prems True by (subst (asm) ReadPhysicalRecord.simps) (simp add: m)
    from again[OF m _ refl this] True show ?thesis by (simp add: log_sizes)
  next
    case False
    let ?t = "header_type (lr_buffer r ! 6)" and ?len = "header_length (lr_buffer r)"
    have pos: "0 < length (lr_buffer r)" using False by (cases "lr_buffer r") (auto simp: kHeaderSize_def)
    have hs: "0 < kHeaderSize" "0 < kRecyclableHeaderSize" by (simp_all add: log_sizes)
    show ?thesis
    proof (cases "?t \<ge> kRecyclableFullType \<and> ?t \<le> kRecyclableLastType")
      case old: False
      then have "check_record ?t kHeaderSize ?len r = (cd, res, n, r')"
        using less.prems False by (subst (asm) ReadPhysicalRecord.simps) (auto simp: Let_def)
      from check_record_consumes[OF this pos hs(1), of unread] show ?thesis by simp
    next
      case rec: True
      obtain mo k e r1 where m: "ReadMore R (note_recycled r) = (mo, k, e, r1)"
        by (cases "ReadMore R (note_recycled r)")
      have "ReadPhysicalRecord R r = (if length (lr_buffer r) < kRecyclableHeaderSize
             then (if \<not> mo then (e, None, k, r1) else ReadPhysicalRecord R r1)
             else if (ucast (DecodeFixed32 (drop 7 (lr_buffer r))) :: u64) \<noteq> lr_log_number r
             then (kOldRecord, None, None, note_recycled r)
             else check_record ?t kRecyclableHeaderSize ?len (note_recycled r))"
        using False rec by (subst ReadPhysicalRecord.simps) (simp add: m Let_def)
      note step = this[unfolded less.prems, symmetric]
      consider "length (lr_buffer r) < kRecyclableHeaderSize"
        | "\<not> length (lr_buffer r) < kRecyclableHeaderSize"
          "(ucast (DecodeFixed32 (drop 7 (lr_buffer r))) :: u64) \<noteq> lr_log_number r"
        | "check_record ?t kRecyclableHeaderSize ?len (note_recycled r) = (cd, res, n, r')"
        using step by (auto split: if_splits)
      then show ?thesis
      proof cases
        case 1
        with again[OF m] step show ?thesis by (simp add: log_sizes)
      next
        case 2
        with step have "cd = kOldRecord" "r' = note_recycled r" by simp_all
        then show ?thesis by (simp add: final_code_def)
      next
        case 3
        from check_record_consumes[OF this _ hs(2), of unread] pos show ?thesis by simp
      qed
    qed
  qed
qed

lemma turn_goes_on:
  assumes "ReadRecord_turn R mode l r = Inr (l', r')" and "mode \<noteq> kSkipAnyCorruptedRecords"
  shows "bytes_left unread r' < bytes_left unread r"
proof -
  obtain cd res n r1 where ph: "ReadPhysicalRecord R r = (cd, res, n, r1)"
    by (cases "ReadPhysicalRecord R r")
  have "\<not> final_code cd" and "bytes_left unread r' = bytes_left unread r1"
    using assms
    by (auto simp: ReadRecord_turn_def ph Let_def final_code_def code_simps
        dest!: arg_cong[where f = snd] split: if_splits)
  with ReadPhysicalRecord_consumes[OF ph] show ?thesis by auto
qed

lemma turn_returns_record:
  assumes "ReadRecord_turn R mode l r = Inl (True, rec, scr, r')"
  shows "bytes_left unread r' < bytes_left unread r"
proof -
  obtain cd res n r1 where ph: "ReadPhysicalRecord R r = (cd, res, n, r1)"
    by (cases "ReadPhysicalRecord R r")
  have "\<not> final_code cd" and "bytes_left unread r' = bytes_left unread r1"
    using assms
    by (auto simp: ReadRecord_turn_def ph Let_def final_code_def code_simps read_eof_def split: if_splits)
  with ReadPhysicalRecord_consumes[OF ph] show ?thesis by auto
qed

lemma loop_returns:
  assumes "mode \<noteq> kSkipAnyCorruptedRecords"
  shows "\<exists>b rec scr r'. ReadRecord_loop R mode l r = Some (b, rec, scr, r') \<and>
    (b \<longrightarrow> bytes_left unread r' < bytes_left unread r)"
proof (induction "bytes_left unread r" arbitrary: l r rule: less_induct)
  case less
  show ?case
  proof (cases "ReadRecord_turn R mode l r")
    case (Inl out)
    obtain b rec scr r' where out: "out = (b, rec, scr, r')" by (cases out)
    have "b \<Longrightarrow> bytes_left unread r' < bytes_left unread r"
      using turn_returns_record Inl out by (cases b) auto
    with ReadRecord_loop_Inl[OF Inl] out show ?thesis by auto
  next
    case (Inr st)
    obtain l' r1 where st: "st = (l', r1)" by (cases st)
    have lt: "bytes_left unread r1 < bytes_left unread r"
      using turn_goes_on[OF _ assms] Inr st by blast
    from less[OF this, of l'] ReadRecord_loop_Inr[OF Inr[unfolded st]] lt show ?thesis by force
  qed
qed

lemma all_returns:
  assumes "mode \<noteq> kSkipAnyCorruptedRecords"
  shows "ReadRecords R mode r \<noteq> None"
proof (induction "bytes_left unread r" arbitrary: r rule: less_induct)
  case less
  obtain b rec scr r' where r': "ReadRecord R mode r = Some (b, rec, scr, r')"
    "b \<longrightarrow> bytes_left unread r' < bytes_left unread r"
    using loop_returns[OF assms] unfolding ReadRecord_def by blast
  show ?case
  proof (cases b)
    case True
    with less[of r'] r' obtain recs r'' where "ReadRecords R mode r' = Some (recs, r'')" by auto
    with ReadRecords_more r' True show ?thesis by fastforce
  next
    case False
    with ReadRecords_stop r' show ?thesis by fastforce
  qed
qed

end

text \<open>
  With \<open>kSkipAnyCorruptedRecords\<close> a record of another log is neither consumed nor the end: the
  buffer stays as it is and the loop turns forever.
\<close>

definition stuck :: "'g log_reader \<Rightarrow> bool" where
  "stuck r \<longleftrightarrow> kRecyclableHeaderSize \<le> length (lr_buffer r) \<and>
     kRecyclableFullType \<le> header_type (lr_buffer r ! 6) \<and>
     header_type (lr_buffer r ! 6) \<le> kRecyclableLastType \<and>
     (ucast (DecodeFixed32 (drop 7 (lr_buffer r))) :: u64) \<noteq> lr_log_number r"

lemma stuck_frame [simp]:
  "stuck (note_recycled r) = stuck r" "stuck (snd (read_bad l r)) = stuck r"
  by (simp_all add: stuck_def read_bad_def ReportCorruption_def ReportDrop_def)

lemma stuck_physical: "stuck r \<Longrightarrow> ReadPhysicalRecord R r = (kOldRecord, None, None, note_recycled r)"
  by (subst ReadPhysicalRecord.simps) (simp add: stuck_def Let_def log_sizes)

lemma stuck_turn:
  assumes "stuck r"
  shows "ReadRecord_turn R kSkipAnyCorruptedRecords l r =
    Inr (read_bad (l\<lparr>fragment := fragment l\<rparr>) (note_recycled r))"
  by (simp add: ReadRecord_turn_def stuck_physical[OF assms] code_simps)

lemma stuck_loop:
  assumes "ReadRecord_loop R mode l r = Some y"
  shows "\<not> (mode = kSkipAnyCorruptedRecords \<and> stuck r)"
proof (rule ReadRecord_loop.raw_induct[where P = "\<lambda>R mode l r y. \<not> (mode = kSkipAnyCorruptedRecords \<and> stuck r)",
      OF _ assms])
  fix f :: "'a source \<Rightarrow> WALRecoveryMode \<Rightarrow> read_locals \<Rightarrow> 'a log_reader \<Rightarrow> 'a read_result option"
    and R mode l r y
  assume IH: "\<And>R mode l r y. f R mode l r = Some y \<Longrightarrow> \<not> (mode = kSkipAnyCorruptedRecords \<and> stuck r)"
    and eq: "(case ReadRecord_turn R mode l r of Inl out \<Rightarrow> Some out
              | Inr st \<Rightarrow> f R mode (fst st) (snd st)) = Some y"
  show "\<not> (mode = kSkipAnyCorruptedRecords \<and> stuck r)"
  proof
    assume s: "mode = kSkipAnyCorruptedRecords \<and> stuck r"
    then have "f R mode (fst (read_bad l (note_recycled r))) (snd (read_bad l (note_recycled r))) = Some y"
      using eq by (simp add: stuck_turn)
    from IH[OF this] s show False by simp
  qed
qed

section \<open>Properties\<close>

text \<open>
  C19: what a session of the writer put into a log comes back record by record, in every
  recovery mode and without a report, in the plain format and in the recyclable one for log
  numbers that fit the four bytes of its header.
\<close>

theorem wal_roundtrip:
  assumes "recycle \<Longrightarrow> unat ln < 2 ^ 32"
  shows "\<exists>r. recover mode rep chk ln (log_file max_size recycle ln recs) = Some (recs, r) \<and> reports r = []"
  using recover_take[of recycle ln mode recs "length (layouts recycle ln 0 recs)" rep chk] assms
  by (simp add: log_file_layouts intact_all)

theorem wal_roundtrip_witness:
  "\<exists>r. recover kAbsoluteConsistency True True 7 (log_file 1024 True 7 [[1, 2], [], replicate 40000 3]) =
    Some ([[1, 2], [], replicate 40000 3], r) \<and> reports r = []"
  by (rule wal_roundtrip) simp

text \<open>
  C18: a crash that leaves the first \<open>k\<close> bytes of the log, cut anywhere, loses only the records
  that were not wholly in the file: in every mode but absolute consistency, for which a torn tail
  is an error to report, recovery returns exactly those that were, reports nothing
  and returns no part of the torn one. In the recyclable format the log number fits the four
  bytes of its header.
\<close>

theorem wal_crash_recovery:
  assumes "recycle \<Longrightarrow> unat ln < 2 ^ 32" and "mode \<noteq> kAbsoluteConsistency"
    and "n \<le> length recs" and "length (log_file max_size recycle ln (take n recs)) \<le> k"
    and "n = length recs \<or> k < length (log_file max_size recycle ln (take (Suc n) recs))"
  shows "\<exists>r. recover mode rep chk ln (take k (log_file max_size recycle ln recs)) = Some (take n recs, r) \<and>
    reports r = []"
  using recover_take[of recycle ln mode recs k rep chk] assms
    intact_take[of n recs recycle ln 0 k]
  by (simp add: log_file_layouts)

lemmas layout_eval = log_file_layouts layout_whole length_frag frag_length_def frag_start_def
  trailer_length_def header_size_of_def log_sizes

theorem wal_crash_recovery_witness:
  "\<exists>r. recover kPointInTimeRecovery True True 7 (take 12 (log_file 1024 False 7 [[1, 2, 3], [4]])) =
     Some ([[1, 2, 3]], r) \<and> reports r = []"
proof -
  have "length (log_file 1024 False 7 (take 1 [[1, 2, 3], [4]])) \<le> 12"
    and "12 < length (log_file 1024 False 7 (take (Suc 1) [[1, 2, 3], [4]]))"
    by (simp_all add: layout_eval frag_end_def)
  with wal_crash_recovery[of False 7 kPointInTimeRecovery 1 "[[1, 2, 3], [4]]" 1024 12 True True]
  show ?thesis by simp
qed

text \<open>
  C23: after any session the writer's offset is within the block and agrees with the number
  of bytes written, so that every header lies where the reader looks for it.
\<close>

theorem log_block_offset:
  "let w = snd (AddRecords (writer_sink MockWritableFile) recs (new_log max_size recycle ln))
   in block_offset w \<le> kBlockSize \<and>
      length (log_written mock_written w) mod kBlockSize = block_offset w mod kBlockSize"
  unfolding Let_def
  using AddRecords_position[OF new_log_ok(1), of max_size recycle ln _ recs] by (simp add: new_log_ok)

text \<open>
  C20: recovery returns on every file, whatever its bytes, in every mode but the one that skips
  corrupted records.
\<close>

theorem wal_recovery_returns:
  assumes "mode \<noteq> kSkipAnyCorruptedRecords"
  shows "\<exists>recs r. recover mode rep chk ln data = Some (recs, r)"
  using mock_source.all_returns[OF assms] unfolding recover_def by fast

theorem wal_recovery_returns_witness:
  "\<exists>recs r. recover kTolerateCorruptedTailRecords True True 7 [0, 1, 2, 3, 4, 5, 6, 7] = Some (recs, r)"
  by (rule wal_recovery_returns) simp

lemma log_file_first:
  assumes "recs \<noteq> []"
  obtains t d rest where "log_file max_size True ln recs = phys True ln t d @ rest"
    and "kRecyclableFullType \<le> t" and "t \<le> kRecyclableLastType" and "length d < 65536"
proof -
  obtain d ds where r: "recs = d # ds" using assms by (cases recs) auto
  let ?n = "frag_length True 0 (length d)" and ?t = "record_type True True (length d = frag_length True 0 (length d))"
  have "trailer_length True 0 = 0" using header_size_bounds[of True] by (simp add: trailer_length_def)
  then obtain rest where "log_file max_size True ln recs = frag True ln True 0 d @ rest"
    by (cases "?n < length d") (simp_all add: log_file_layouts r case_prod_beta layout_cut layout_whole Let_def)
  moreover have "length (take ?n d) < 65536"
    by (simp add: frag_length_def log_sizes)
  ultimately show thesis
    using recyclable_types(1)[of ?t True True] by (intro that[of ?t "take ?n d"]) (auto simp: frag_phys)
qed

lemma first_record_stuck:
  assumes "recs \<noteq> []" and "unat ln < 2 ^ 32" and "ln \<noteq> ln'"
  shows "\<exists>r1. ReadPhysicalRecord SequentialFileReader
      (Reader_new (MockSequentialFile_new (MemFile_new\<lparr>mem_data := log_file max_size True ln recs\<rparr>)) rep chk ln') =
    (kOldRecord, None, None, r1) \<and> stuck r1"
proof -
  let ?C = "log_file max_size True ln recs"
  let ?r = "Reader_new (MockSequentialFile_new (MemFile_new\<lparr>mem_data := ?C\<rparr>)) rep chk ln'"
  obtain t d rest where C: "?C = phys True ln t d @ rest"
    and t: "kRecyclableFullType \<le> t" "t \<le> kRecyclableLastType" and d: "length d < 65536"
    by (rule log_file_first[OF assms(1), of max_size ln])
  have at: "reader_at msf_unread ?C ln' 0 kBlockSize ?r"
    by (rule reader_at_new) (simp add: msf_unread_def MockSequentialFile_new_def)
  obtain r2 where r2: "ReadPhysicalRecord SequentialFileReader ?r = ReadPhysicalRecord SequentialFileReader r2"
    and at2: "reader_at msf_unread ?C ln' (0 + (kBlockSize - kBlockSize)) 0 r2"
    by (rule mock_source.ReadPhysicalRecord_block[OF at]) (auto simp: kHeaderSize_def)
  have buf: "lr_buffer r2 = take kBlockSize (phys True ln t d @ rest)" and l: "lr_log_number r2 = ln'"
    using at2 C by (simp_all add: reader_at_def)
  have long: "11 \<le> length (phys True ln t d)"
    by (simp add: length_phys header_size_of_def log_sizes)
  have "DecodeFixed32 (drop 7 (lr_buffer r2)) = DecodeFixed32 (drop 7 (phys True ln t d @ rest))"
    using long unfolding buf
    by (subst (1 2) DecodeFixed32_of_le)
      (simp_all add: drop_take min_def kBlockSize_def del: take_append drop_append, auto)
  moreover have "kRecyclableHeaderSize \<le> length (lr_buffer r2)"
    using long by (simp add: buf log_sizes)
  moreover have "header_type (lr_buffer r2 ! 6) = t"
    using parse_header(2)[OF buf _ _ d] t by (simp add: log_sizes kMaxRecordType_def)
  ultimately have st: "stuck r2"
    using t l phys_log_number[OF assms(2), of t d rest] assms(3) by (simp add: stuck_def)
  from st stuck_physical[OF st, of SequentialFileReader] show ?thesis by (auto simp: r2)
qed

lemma stuck_record:
  assumes "ReadPhysicalRecord R r = (kOldRecord, None, None, r1)" and "stuck r1"
  shows "ReadRecord R kSkipAnyCorruptedRecords r = None"
proof (rule ccontr)
  assume "ReadRecord R kSkipAnyCorruptedRecords r \<noteq> None"
  moreover have "ReadRecord R kSkipAnyCorruptedRecords r = ReadRecord_loop R kSkipAnyCorruptedRecords
      (fst (read_bad read_locals_init r1)) (snd (read_bad read_locals_init r1))"
    unfolding ReadRecord_def
    by (subst ReadRecord_loop.simps) (simp add: ReadRecord_turn_def assms(1) code_simps)
  ultimately obtain y where "ReadRecord_loop R kSkipAnyCorruptedRecords
      (fst (read_bad read_locals_init r1)) (snd (read_bad read_locals_init r1)) = Some y" by auto
  from stuck_loop[OF this] assms(2) show False by simp
qed

text \<open>
  C21: in the mode that skips corrupted records, recovery does not return on a recycled file
  whose first record belongs to another log: the record is never consumed.
\<close>

theorem skip_mode_hangs:
  assumes "recs \<noteq> []" and "unat ln < 2 ^ 32" and "ln \<noteq> ln'"
  shows "recover kSkipAnyCorruptedRecords rep chk ln' (log_file max_size True ln recs) = None"
  using first_record_stuck[OF assms, of max_size rep chk] stuck_record
  unfolding recover_def by (subst ReadRecords.simps) fastforce

theorem skip_mode_hangs_witness:
  "recover kSkipAnyCorruptedRecords True True 8 (log_file 1024 True 7 [[1, 2, 3]]) = None"
  by (rule skip_mode_hangs) simp_all

lemma ReadMore_flags:
  "ReadMore R r = (m, n, cd, r') \<Longrightarrow>
   recycled r' = recycled r \<and> has_reporter r' = has_reporter r \<and> checksum r' = checksum r"
  by (auto simp: ReadMore_def Let_def ReportDrop_def split: if_splits prod.splits)

lemma Reader_new_buffer: "lr_buffer (Reader_new f rep chk ln) = []"
  by (simp add: Reader_new_def)

lemma phys_change:
  assumes "j < length d" and "b \<noteq> d ! j" and "C = (phys False ln t d)[kHeaderSize + j := b]"
  shows "length C = kHeaderSize + length d" and "take 7 C = take 7 (phys False ln t d)"
    and "crc32c_Value (drop 6 C) \<noteq> crc32c_Unmask (DecodeFixed32 C)"
    and "DecodeFixed32 (C @ X) = DecodeFixed32 C"
proof -
  have d: "d = take j d @ d ! j # drop (Suc j) d" using assms(1) by (rule id_take_nth_drop)
  define h where "h = EncodeFixed32 (crc32c_Mask (crc32c_Value (of_nat t # d))) @
    [of_nat (length d), of_nat (length d div 256)]"
  have h: "phys False ln t d = h @ of_nat t # d" "length h = 6"
    by (simp_all add: phys_def Let_def h_def)
  have C: "C = h @ of_nat t # d[j := b]"
    using assms(3) h by (simp add: list_update_append kHeaderSize_def)
  show "length C = kHeaderSize + length d" by (simp add: C h kHeaderSize_def)
  show "DecodeFixed32 (C @ X) = DecodeFixed32 C" by (simp add: C h_def codec)
  show "take 7 C = take 7 (phys False ln t d)" by (simp add: C h(1) h(2))
  have "d[j := b] = take j d @ b # drop (Suc j) d"
    using assms(1) by (rule upd_conv_take_nth_drop)
  then have "crc32c_Value (of_nat t # d[j := b]) \<noteq> crc32c_Value (of_nat t # d)"
    using crc_change[OF assms(2), of "of_nat t # take j d" "drop (Suc j) d"] d by simp
  moreover have "crc32c_Unmask (DecodeFixed32 C) = crc32c_Value (of_nat t # d)"
    by (simp add: C h_def codec)
  moreover have "drop 6 C = of_nat t # d[j := b]" by (simp add: C h)
  ultimately show "crc32c_Value (drop 6 C) \<noteq> crc32c_Unmask (DecodeFixed32 C)" by simp
qed

text \<open>
  The reader in a file that fits one block, all of which is in its buffer after the first read:
  \<open>X\<close> is what is left of it. Nothing is read any more, so a record is followed by the next, and
  after a wrong checksum the whole rest is given up.
\<close>

definition in_block :: "bytes \<Rightarrow> 'g log_reader \<Rightarrow> bool" where
  "in_block X r \<longleftrightarrow> lr_buffer r = X \<and> lr_eof r \<and> \<not> recycled r \<and> has_reporter r \<and> checksum r \<and> reports r = []"

definition at_records :: "'g source \<Rightarrow> bytes \<Rightarrow> 'g log_reader \<Rightarrow> bool" where
  "at_records R X r \<longleftrightarrow> (\<exists>r1. in_block X r1 \<and> ReadPhysicalRecord R r = ReadPhysicalRecord R r1)"

lemma block_start:
  assumes "length C < kBlockSize"
  shows "at_records SequentialFileReader C
    (Reader_new (MockSequentialFile_new (MemFile_new\<lparr>mem_data := C\<rparr>)) True True ln)"
proof -
  let ?r = "Reader_new (MockSequentialFile_new (MemFile_new\<lparr>mem_data := C\<rparr>)) True True ln"
  have at: "reader_at msf_unread C ln 0 kBlockSize ?r"
    by (rule reader_at_new) (simp add: msf_unread_def MockSequentialFile_new_def)
  obtain r1 where r1: "ReadMore SequentialFileReader ?r = (True, None, kEof, r1)"
    and at1: "reader_at msf_unread C ln (0 + (kBlockSize - kBlockSize)) 0 r1"
    by (rule mock_source.ReadMore_block[OF at]) simp
  have "in_block C r1"
    using ReadMore_flags[OF r1] at1 assms by (simp add: in_block_def reader_at_def Reader_new_def)
  moreover have "ReadPhysicalRecord SequentialFileReader ?r = ReadPhysicalRecord SequentialFileReader r1"
    by (subst ReadPhysicalRecord.simps) (simp add: r1 Reader_new_buffer kHeaderSize_def)
  ultimately show ?thesis by (auto simp: at_records_def)
qed

lemma block_record:
  assumes "in_block (phys False ln kFullType d @ X) r" and "length d < 65536"
  shows "ReadPhysicalRecord R r = (kFullType, Some d, None, r\<lparr>lr_buffer := X\<rparr>)"
proof -
  have buf: "lr_buffer r = phys False ln kFullType d @ X" using assms(1) by (simp add: in_block_def)
  have ph: "kHeaderSize \<le> length (lr_buffer r)" "header_type (lr_buffer r ! 6) = kFullType"
    "header_length (lr_buffer r) = length d"
    using parse_header[of "lr_buffer r" "length (lr_buffer r)" False ln kFullType d X] assms(2)
    by (simp_all add: buf length_phys header_size_of_def record_types)
  have "check_record kFullType kHeaderSize (length d) r = (kFullType, Some d, None, r\<lparr>lr_buffer := X\<rparr>)"
    using phys_crc[of d False ln kFullType X] phys_payload[of d False ln kFullType X]
    by (simp add: check_record_def Let_def buf length_phys header_size_of_def record_types)
  with ph show ?thesis by (subst ReadPhysicalRecord.simps) (simp add: Let_def record_types)
qed

lemma block_changed_record:
  assumes r: "in_block ((phys False ln kFullType d)[kHeaderSize + j := b] @ X) r"
    and d: "length d < 65536" and j: "j < length d" and b: "b \<noteq> d ! j"
  shows "ReadPhysicalRecord R r =
    (kBadRecordChecksum, None, Some (kHeaderSize + length d + length X), r\<lparr>lr_buffer := []\<rparr>)"
proof -
  define C where "C = (phys False ln kFullType d)[kHeaderSize + j := b]"
  note C = phys_change[OF j b C_def]
  have buf: "lr_buffer r = C @ X" and chk: "checksum r" using r by (simp_all add: in_block_def C_def)
  have nth: "(C @ X) ! i = phys False ln kFullType d ! i" if "i < 7" for i
  proof -
    have "(C @ X) ! i = take 7 C ! i" using C(1) that by (simp add: nth_append kHeaderSize_def)
    then show ?thesis using C(2) that by simp
  qed
  have l7: "7 \<le> length (phys False ln kFullType d)" by (simp add: length_phys header_size_of_def log_sizes)
  have ty: "header_type ((C @ X) ! 6) = kFullType"
    unfolding nth[of 6, simplified] phys_fields(3)[OF l7]
    by (rule header_type_of_nat) (simp add: record_types)
  have len: "header_length (C @ X) = length d"
    using d by (intro header_length_bytes) (simp_all add: nth phys_fields[OF l7])
  have "take (length d + kHeaderSize - 6) (drop 6 (C @ X)) = drop 6 C"
    using C(1) by (simp add: kHeaderSize_def)
  moreover have "DecodeFixed32 (C @ X) = DecodeFixed32 C" by (rule C(4))
  ultimately have "check_record kFullType kHeaderSize (length d) r =
      (kBadRecordChecksum, None, Some (kHeaderSize + length d + length X), r\<lparr>lr_buffer := []\<rparr>)"
    using C(1,3) chk by (simp add: check_record_def Let_def buf record_types)
  then show ?thesis
    using C(1) by (subst ReadPhysicalRecord.simps) (simp add: buf Let_def ty len record_types)
qed

lemma block_records_read:
  assumes "at_records R (concat (map (phys False ln kFullType) ds) @ X) r" "\<forall>d\<in>set ds. length d < 65536"
  shows "\<exists>r'. at_records R X r' \<and>
    (\<forall>recs r''. ReadRecords R mode r' = Some (recs, r'') \<longrightarrow> ReadRecords R mode r = Some (ds @ recs, r''))"
  using assms
proof (induction ds arbitrary: r)
  case (Cons d ds)
  let ?Y = "concat (map (phys False ln kFullType) ds) @ X"
  obtain r1 where r1: "in_block (phys False ln kFullType d @ ?Y) r1"
      "ReadPhysicalRecord R r = ReadPhysicalRecord R r1"
    using Cons.prems(1) by (auto simp: at_records_def)
  have ph: "ReadPhysicalRecord R r = (record_type False True True, Some d, None, r1\<lparr>lr_buffer := ?Y\<rparr>)"
    using block_record[OF r1(1)] r1(2) Cons.prems(2) by (simp add: record_type_def)
  define r2 where "r2 = r1\<lparr>lr_buffer := ?Y, last_record_offset := end_of_buffer_offset r - length (lr_buffer r)\<rparr>"
  have rd: "ReadRecord R mode r = Some (True, d, [], r2)"
    unfolding ReadRecord_def using ReadRecord_loop_Inl[OF turn_full[OF ph gathered_init]]
    by (simp add: r2_def)
  have "in_block ?Y r2" using r1(1) by (simp add: in_block_def r2_def)
  then have "at_records R ?Y r2" by (auto simp: at_records_def)
  from Cons.IH[OF this] Cons.prems(2) ReadRecords_more[OF rd] show ?case by (metis append_Cons list.set_intros(2))
qed auto

lemma block_record_lost:
  assumes "at_records R ((phys False ln kFullType d)[kHeaderSize + j := b] @ X) r"
    and d: "length d < 65536" and j: "j < length d" and b: "b \<noteq> d ! j"
  shows "\<exists>r'. ReadRecords R mode r = Some ([], r') \<and>
    reports r' = [(kHeaderSize + length d + length X, Corruption (str ''checksum mismatch'') [])]"
proof -
  obtain r1 where r1: "in_block ((phys False ln kFullType d)[kHeaderSize + j := b] @ X) r1"
      "ReadPhysicalRecord R r = ReadPhysicalRecord R r1"
    using assms(1) by (auto simp: at_records_def)
  let ?n = "kHeaderSize + length d + length X" and ?r2 = "r1\<lparr>lr_buffer := []\<rparr>"
  define r3 where "r3 = ReportCorruption ?n (str ''checksum mismatch'') ?r2"
  have r3: "lr_eof r3" "lr_buffer r3 = []" "reports r3 = [(?n, Corruption (str ''checksum mismatch'') [])]"
    using r1(1) by (simp_all add: r3_def ReportCorruption_def ReportDrop_def in_block_def)
  have "ReadRecord_turn R mode read_locals_init r = Inr (read_locals_init, r3)"
    using r1 block_changed_record[OF r1(1) d j b, of R]
    by (simp add: ReadRecord_turn_def code_simps read_bad_def read_locals_init_def r3_def in_block_def)
  moreover have "ReadRecord_turn R mode read_locals_init r3 = Inl (False, [], [], r3)"
    by (simp add: ReadRecord_turn_def ReadPhysicalRecord_ended[OF r3(1,2)] code_simps read_eof_def
        read_locals_init_def)
  ultimately have "ReadRecord R mode r = Some (False, [], [], r3)"
    unfolding ReadRecord_def using ReadRecord_loop_Inl ReadRecord_loop_Inr by metis
  from ReadRecords_stop[OF this] r3(3) show ?thesis by blast
qed

text \<open>A log that fits one block is the sequence of its records, each in one piece.\<close>

lemma layout_in_block:
  assumes "off + length (fst (layout False ln True off d)) < kBlockSize"
  shows "layout False ln True off d = (phys False ln kFullType d, off + kHeaderSize + length d)"
proof -
  have h: "header_size_of False = kHeaderSize" by (simp add: header_size_of_def)
  have out: "length (replicate (trailer_length False off) 0 @ frag False ln True off d) \<le>
      length (fst (layout False ln True off d))"
    by (cases "frag_length False off (length d) < length d") (simp_all add: layout_cut layout_whole Let_def)
  then have tr: "trailer_length False off = 0" "frag_start False off = off"
    using assms by (auto simp: trailer_length_def frag_start_def)
  have n: "frag_length False off (length d) = length d"
    using out assms by (simp add: length_frag tr frag_length_def h min_def split: if_splits)
  then show ?thesis
    by (simp add: layout_whole frag_phys tr frag_end_def h record_type_def)
qed

lemma layouts_in_block:
  assumes "off + length (layouts False ln off ds) < kBlockSize"
  shows "layouts False ln off ds = concat (map (phys False ln kFullType) ds) \<and> (\<forall>d\<in>set ds. length d < 65536)"
  using assms
proof (induction ds arbitrary: off)
  case (Cons d ds)
  have l: "layout False ln True off d = (phys False ln kFullType d, off + kHeaderSize + length d)"
    using Cons.prems by (intro layout_in_block) (simp add: case_prod_beta)
  then have "off + kHeaderSize + length d + length (layouts False ln (off + kHeaderSize + length d) ds) < kBlockSize"
    using Cons.prems by (simp add: length_phys header_size_of_def)
  from Cons.IH[OF this] this l show ?case by (simp add: kBlockSize_def)
qed simp

lemma layouts_prefix: "length (layouts recycle ln off ds) \<le> length (layouts recycle ln off (ds @ es))"
  by (induction ds arbitrary: off) (simp_all add: case_prod_beta)

text \<open>
  C22: a changed payload byte is caught. Of a log in the plain format that fits one block,
  read with checksums on and somebody to report to, let one byte in the payload of one record be
  another: in every recovery mode the records before it come back, neither it nor any record after
  it is returned, and the bytes from its header to the end of the log are reported once, as dropped
  for a checksum mismatch.
\<close>

theorem payload_change_detected:
  assumes "F = log_file max_size False ln (before @ d # behind)" and "length F < kBlockSize"
    and "j < length d" and "b \<noteq> d ! j"
    and "start = length (log_file max_size False ln before)"
  shows "\<exists>r. recover mode True True ln (F[start + kHeaderSize + j := b]) = Some (before, r) \<and>
    reports r = [(length F - start, Corruption (str ''checksum mismatch'') [])]"
proof -
  let ?P = "\<lambda>ds. concat (map (phys False ln kFullType) ds)"
  have F: "F = ?P before @ phys False ln kFullType d @ ?P behind" and len: "\<forall>x\<in>set (before @ d # behind). length x < 65536"
    using layouts_in_block[of 0 ln "before @ d # behind"] assms(1,2) by (simp_all add: log_file_layouts)
  have "layouts False ln 0 before = ?P before"
    using layouts_in_block[of 0 ln before] layouts_prefix[of False ln 0 before "d # behind"] assms(1,2)
    by (simp add: log_file_layouts)
  then have start: "start = length (?P before)" using assms(5) by (simp add: log_file_layouts)
  have lp: "length (phys False ln kFullType d) = kHeaderSize + length d" by (simp add: length_phys header_size_of_def)
  have C: "F[start + kHeaderSize + j := b] =
      ?P before @ (phys False ln kFullType d)[kHeaderSize + j := b] @ ?P behind"
    using assms(3) by (simp add: F start list_update_append lp add.assoc)
  have "length (F[start + kHeaderSize + j := b]) < kBlockSize" using assms(2) by simp
  from block_start[OF this, of ln] len
  obtain r' where r': "at_records SequentialFileReader ((phys False ln kFullType d)[kHeaderSize + j := b] @ ?P behind) r'"
    "\<And>recs r''. ReadRecords SequentialFileReader mode r' = Some (recs, r'') \<Longrightarrow>
      recover mode True True ln (F[start + kHeaderSize + j := b]) = Some (before @ recs, r'')"
    using block_records_read[where ds = before and mode = mode] unfolding C recover_def by fastforce
  have "length F - start = kHeaderSize + length d + length (?P behind)" by (simp add: F start lp)
  with block_record_lost[OF r'(1) _ assms(3,4), of mode] r'(2) len show ?thesis by fastforce
qed

theorem payload_change_detected_witness:
  "\<exists>r. recover kPointInTimeRecovery True True 7
      ((log_file 1024 False 7 [[9], [1, 2, 3], [4]])[8 + kHeaderSize + 1 := 5]) = Some ([[9]], r) \<and>
   reports r = [(18, Corruption (str ''checksum mismatch'') [])]"
proof -
  have len: "length (log_file 1024 False 7 ([[9]] @ [1, 2, 3] # [[4]])) = 26" "length (log_file 1024 False 7 [[9]]) = 8"
    by (simp_all add: layout_eval frag_end_def)
  have "length (log_file 1024 False 7 ([[9]] @ [1, 2, 3] # [[4]])) < kBlockSize"
    unfolding len(1) by (simp add: kBlockSize_def)
  from payload_change_detected[OF refl this _ _ len(2)[symmetric], where j = 1 and b = 5 and mode = kPointInTimeRecovery]
  have "\<exists>r. recover kPointInTimeRecovery True True 7
      ((log_file 1024 False 7 ([[9]] @ [1, 2, 3] # [[4]]))[8 + kHeaderSize + 1 := 5]) = Some ([[9]], r) \<and>
    reports r = [(26 - 8, Corruption (str ''checksum mismatch'') [])]"
    unfolding len(1) by simp
  then show ?thesis by (simp only: append_Cons append_Nil) simp
qed

text \<open>
  The type byte and the reader's own codes share their numbers: a record of type 9 with a right
  checksum ends the log silently, even in the mode that expects no error at all.
\<close>

lemma type_9_ends_log:
  assumes d: "length d < kBlockSize - kHeaderSize"
  shows "\<exists>r. recover kAbsoluteConsistency True True ln (phys False ln 9 d @ rest) = Some ([], r) \<and>
    reports r = []"
proof -
  define C where "C = phys False ln 9 d @ rest"
  let ?R = SequentialFileReader
  let ?r = "Reader_new (MockSequentialFile_new (MemFile_new\<lparr>mem_data := C\<rparr>)) True True ln"
  have at: "reader_at msf_unread C ln 0 kBlockSize ?r"
    by (rule reader_at_new) (simp add: msf_unread_def MockSequentialFile_new_def)
  obtain r1 where r1: "ReadMore ?R ?r = (True, None, kEof, r1)"
    and at1: "reader_at msf_unread C ln (0 + (kBlockSize - kBlockSize)) 0 r1"
    by (rule mock_source.ReadMore_block[OF at]) simp
  have lp: "length (phys False ln 9 d) = kHeaderSize + length d"
    by (simp add: length_phys header_size_of_def)
  then have buf: "lr_buffer r1 = phys False ln 9 d @ take (kBlockSize - kHeaderSize - length d) rest"
    and st: "reports r1 = []"
    using at1 d by (simp_all add: reader_at_def C_def)
  have l7: "7 \<le> length (phys False ln 9 d)" by (simp add: lp kHeaderSize_def)
  have nth: "lr_buffer r1 ! i = phys False ln 9 d ! i" if "i < 7" for i
    using that l7 by (simp add: buf nth_append)
  have ty: "header_type (lr_buffer r1 ! 6) = 9"
    unfolding nth[of 6, simplified] phys_fields(3)[OF l7] by (simp add: header_type_def)
  have len: "header_length (lr_buffer r1) = length d"
    using d by (intro header_length_bytes) (simp_all add: nth phys_fields[OF l7] log_sizes)
  have chk: "\<exists>r2. check_record 9 kHeaderSize (length d) r1 = (9, Some d, None, r2) \<and> reports r2 = []"
    using phys_crc[of d False ln 9 "take (kBlockSize - kHeaderSize - length d) rest"]
      phys_payload[of d False ln 9 "take (kBlockSize - kHeaderSize - length d) rest"] st
    by (simp add: check_record_def Let_def buf lp kZeroType_def header_size_of_def)
  then obtain r2 where r2: "check_record 9 kHeaderSize (length d) r1 = (9, Some d, None, r2)" "reports r2 = []"
    by blast
  have long: "\<not> length (lr_buffer r1) < kHeaderSize" using buf lp by simp
  have "ReadPhysicalRecord ?R r1 = (9, Some d, None, r2)"
    using r2(1) long by (subst ReadPhysicalRecord.simps) (simp add: Let_def ty len record_types)
  then have ph: "ReadPhysicalRecord ?R ?r = (9, Some d, None, r2)"
    by (subst ReadPhysicalRecord.simps) (simp add: r1 Reader_new_buffer kHeaderSize_def)
  have "ReadRecord_turn ?R kAbsoluteConsistency read_locals_init ?r = Inl (False, [], [], r2)"
    by (simp add: ReadRecord_turn_def ph code_simps read_eof_def read_locals_init_def)
  from ReadRecords_stop[OF ReadRecord_loop_Inl[OF this, folded ReadRecord_def]] r2(2) show ?thesis
    by (simp add: recover_def C_def)
qed

end
