(* ===== verification/MemRep.thy ===== *)
theory MemRep
  imports DbFormat
begin

text \<open>
  The interface of the structures that hold the entries of a memtable:
  include/rocksdb/memtablerep.h and the parts of db/memtable.cc that every structure shares.

  An entry is the string a \<^verbatim>\<open>const char*\<close> points to: an internal key with its length in front,
  followed by the value with its length in front. The methods of a structure are the fields of
  the record \<open>memrep\<close>, over the type \<open>'t\<close> of its state, \<open>'i\<close> of its iterators and \<open>'a\<close> of the
  argument of a lookup's callback. The locale \<open>entry_order\<close> is what a structure needs of the
  order of the entries; \<open>memtable_rep\<close> is what a memtable relies on: a structure keeps a sorted
  list of entries, adds to it, and enumerates it from the place of a key on.
\<close>

section \<open>Entries and their order\<close>

text \<open>
  \<^verbatim>\<open>Slice GetLengthPrefixedSlice(const char*)\<close>: when no length can be read, \<^verbatim>\<open>len\<close> keeps the value
  \<open>0\<close> and the slice is empty.
\<close>

definition prefixed_slice :: "bytes \<Rightarrow> bytes" where
  "prefixed_slice data = (case GetLengthPrefixedSlice_ptr data of Some s \<Rightarrow> s | None \<Rightarrow> [])"

record KeyComparator =
  decode_key :: "bytes \<Rightarrow> bytes"
  compare_keys :: "bytes \<Rightarrow> bytes \<Rightarrow> int"
  compare_decoded :: "bytes \<Rightarrow> bytes \<Rightarrow> int"

definition MemTable_KeyComparator :: "comparator \<Rightarrow> KeyComparator" where
  "MemTable_KeyComparator user_comparator =
     \<lparr>decode_key = prefixed_slice,
      compare_keys = (\<lambda>prefix_len_key1 prefix_len_key2.
        let k1 = prefixed_slice prefix_len_key1;
            k2 = prefixed_slice prefix_len_key2
        in CompareKeySeq user_comparator k1 k2),
      compare_decoded = (\<lambda>prefix_len_key key.
        let a = prefixed_slice prefix_len_key
        in CompareKeySeq user_comparator a key)\<rparr>"

text \<open>\<^verbatim>\<open>EncodeKey\<close>, and \<^verbatim>\<open>MemTableRep::UserKey\<close>.\<close>

definition EncodeKey :: "bytes \<Rightarrow> bytes" where
  "EncodeKey target = PutVarint32 [] (of_nat (length target)) @ target"

definition rep_UserKey :: "bytes \<Rightarrow> bytes" where
  "rep_UserKey key = (let slice = prefixed_slice key in take (length slice - 8) slice)"

section \<open>The interface\<close>

text \<open>
  \<open>rep_Allocate\<close> returns the handle of a buffer, which the caller fills by \<open>rep_fill\<close> before it
  hands it to an insertion. An insertion answers whether the entry was new; \<open>None\<close> stands for
  the exception of a structure without concurrent insertion. A hint is a pointer the structure
  may set. Loops of the structure may not end, which is \<open>None\<close> for the remaining operations.
  \<open>it_write\<close> is no method: it is what a caller does that writes through the pointer \<^verbatim>\<open>key()\<close>
  returned, at an offset.
\<close>

record ('t, 'i, 'a) memrep =
  rep_Allocate :: "nat \<Rightarrow> 't \<Rightarrow> nat \<times> 't"
  rep_fill :: "nat \<Rightarrow> bytes \<Rightarrow> 't \<Rightarrow> 't"
  rep_InsertKey :: "nat \<Rightarrow> 't \<Rightarrow> (bool \<times> 't) option"
  rep_InsertKeyWithHint :: "nat \<Rightarrow> nat option \<Rightarrow> 't \<Rightarrow> (bool \<times> nat option \<times> 't) option"
  rep_InsertKeyConcurrently :: "nat \<Rightarrow> 't \<Rightarrow> (bool \<times> 't) option"
  rep_InsertKeyWithHintConcurrently ::
    "nat \<Rightarrow> nat option \<Rightarrow> 't \<Rightarrow> (bool \<times> nat option \<times> 't) option"
  rep_Get :: "LookupKey \<Rightarrow> ('a \<Rightarrow> bytes \<Rightarrow> bool \<times> 'a) \<Rightarrow> 't \<times> 'a \<Rightarrow> ('t \<times> 'a) option"
  rep_GetIterator :: "'t \<Rightarrow> 'i"
  it_Valid :: "'t \<times> 'i \<Rightarrow> bool \<times> 't \<times> 'i"
  it_key :: "'t \<times> 'i \<Rightarrow> bytes"
  it_Next :: "'t \<times> 'i \<Rightarrow> ('t \<times> 'i) option"
  it_Prev :: "'t \<times> 'i \<Rightarrow> ('t \<times> 'i) option"
  it_Seek :: "bytes \<Rightarrow> bytes option \<Rightarrow> 't \<times> 'i \<Rightarrow> ('t \<times> 'i) option"
  it_SeekToFirst :: "'t \<times> 'i \<Rightarrow> ('t \<times> 'i) option"
  it_SeekToLast :: "'t \<times> 'i \<Rightarrow> ('t \<times> 'i) option"
  it_write :: "nat \<Rightarrow> bytes \<Rightarrow> 't \<times> 'i \<Rightarrow> 't \<times> 'i"

text \<open>
  What a lookup does with the entries it meets: it hands them to the callback until that asks
  to stop.
\<close>

primrec run_callback :: "('a \<Rightarrow> bytes \<Rightarrow> bool \<times> 'a) \<Rightarrow> 'a \<Rightarrow> bytes list \<Rightarrow> 'a" where
  "run_callback f a [] = a"
| "run_callback f a (e # es) =
     (case f a e of (continue, a') \<Rightarrow> if continue then run_callback f a' es else a')"

definition entry_less :: "KeyComparator \<Rightarrow> bytes \<Rightarrow> bytes \<Rightarrow> bool" where
  "entry_less c a b \<longleftrightarrow> compare_keys c a b < 0"

text \<open>The place of a key in a list of entries, and the entries from there on.\<close>

definition entries_before :: "KeyComparator \<Rightarrow> bytes \<Rightarrow> bytes list \<Rightarrow> bytes list" where
  "entries_before c k = takeWhile (\<lambda>e. entry_less c e k)"

definition entries_from :: "KeyComparator \<Rightarrow> bytes \<Rightarrow> bytes list \<Rightarrow> bytes list" where
  "entries_from c k = dropWhile (\<lambda>e. entry_less c e k)"

definition place_entry :: "KeyComparator \<Rightarrow> bytes \<Rightarrow> bytes list \<Rightarrow> bytes list" where
  "place_entry c e es = entries_before c e es @ e # entries_from c e es"

lemma before_from [simp]: "entries_before c k es @ entries_from c k es = es"
  by (simp add: entries_before_def entries_from_def)

lemma set_place_entry [simp]: "set (place_entry c e es) = insert e (set es)"
proof -
  have "set es = set (entries_before c e es @ entries_from c e es)" by simp
  also have "\<dots> = set (entries_before c e es) \<union> set (entries_from c e es)"
    by (simp only: set_append)
  finally show ?thesis by (auto simp: place_entry_def)
qed

lemma length_place_entry [simp]: "length (place_entry c e es) = Suc (length es)"
  by (metis before_from length_append length_Cons place_entry_def add_Suc_right)

section \<open>The contracts\<close>

locale entry_order =
  fixes c :: KeyComparator and entry :: "bytes \<Rightarrow> bool"
  assumes compare_decode: "entry a \<Longrightarrow> entry b \<Longrightarrow>
      compare_decoded c a (decode_key c b) = compare_keys c a b"
    and compare_swap: "entry a \<Longrightarrow> entry b \<Longrightarrow> compare_keys c a b < 0 \<longleftrightarrow> 0 < compare_keys c b a"
    and compare_trans: "entry a \<Longrightarrow> entry b \<Longrightarrow> entry d \<Longrightarrow>
      compare_keys c a b \<le> 0 \<Longrightarrow> compare_keys c b d \<le> 0 \<Longrightarrow> compare_keys c a d \<le> 0"
begin

abbreviation less :: "bytes \<Rightarrow> bytes \<Rightarrow> bool" where
  "less \<equiv> entry_less c"

lemma compare_self: "entry a \<Longrightarrow> compare_keys c a a = 0"
  using compare_swap [of a a] by linarith

lemma compare_zero_swap: "entry a \<Longrightarrow> entry b \<Longrightarrow> compare_keys c a b = 0 \<longleftrightarrow> compare_keys c b a = 0"
  using compare_swap [of a b] compare_swap [of b a] by linarith

lemma less_irrefl: "entry a \<Longrightarrow> \<not> less a a"
  by (simp add: entry_less_def compare_self)

lemma not_less_iff: "entry a \<Longrightarrow> entry b \<Longrightarrow> \<not> less a b \<longleftrightarrow> compare_keys c b a \<le> 0"
  using compare_swap [of a b] by (auto simp: entry_less_def)

lemma less_le_trans: "entry a \<Longrightarrow> entry b \<Longrightarrow> entry d \<Longrightarrow> less a b \<Longrightarrow> \<not> less d b \<Longrightarrow> less a d"
  using compare_trans [of b d a] not_less_iff by blast

lemma le_less_trans: "entry a \<Longrightarrow> entry b \<Longrightarrow> entry d \<Longrightarrow> \<not> less b a \<Longrightarrow> less b d \<Longrightarrow> less a d"
  using compare_trans [of d a b] not_less_iff by blast

lemma less_trans: "entry a \<Longrightarrow> entry b \<Longrightarrow> entry d \<Longrightarrow> less a b \<Longrightarrow> less b d \<Longrightarrow> less a d"
  using less_le_trans not_less_iff [of d b] entry_less_def by (meson less_le_not_le linorder_not_less compare_swap)

lemma less_total: "entry a \<Longrightarrow> entry b \<Longrightarrow> less a b \<or> compare_keys c a b = 0 \<or> less b a"
  using compare_swap [of b a] by (auto simp: entry_less_def)

lemma zero_not_less: "entry a \<Longrightarrow> entry b \<Longrightarrow> compare_keys c a b = 0 \<longleftrightarrow> \<not> less a b \<and> \<not> less b a"
  using compare_swap [of b a] by (auto simp: entry_less_def)

definition ordered :: "bytes list \<Rightarrow> bool" where
  "ordered es \<longleftrightarrow> sorted_wrt less es \<and> (\<forall>e\<in>set es. entry e)"

lemma before_less: "e \<in> set (entries_before c k es) \<Longrightarrow> less e k"
  by (auto simp: entries_before_def entry_less_def dest: set_takeWhileD)

lemma from_not_less:
  assumes "ordered es" "entry k" "e \<in> set (entries_from c k es)"
  shows "\<not> less e k"
  using assms
proof (induction es)
  case Nil
  then show ?case by (simp add: entries_from_def)
next
  case (Cons x xs)
  show ?case
  proof (cases "less x k")
    case True
    with Cons show ?thesis by (simp add: entries_from_def ordered_def entry_less_def)
  next
    case False
    with Cons.prems have "e = x \<or> less x e"
      by (auto simp: entries_from_def ordered_def entry_less_def)
    with False Cons.prems show ?thesis
      using less_trans [of x e k] by (auto simp: ordered_def entries_from_def entry_less_def split: if_splits)
  qed
qed

lemma split_unique:
  assumes "es = as @ bs" "\<forall>a\<in>set as. less a k" "bs = [] \<or> \<not> less (hd bs) k"
  shows "entries_before c k es = as" "entries_from c k es = bs"
  using assms by (cases bs; auto simp: entries_before_def entries_from_def entry_less_def)+

lemma set_before_from: "set es = set (entries_before c k es) \<union> set (entries_from c k es)"
  by (metis before_from set_append)

lemma place_ordered:
  assumes "ordered es" "entry e" "\<forall>x\<in>set es. compare_keys c e x \<noteq> 0"
  shows "ordered (place_entry c e es)"
proof -
  let ?b = "entries_before c e es" and ?f = "entries_from c e es"
  have all: "\<forall>x\<in>set es. entry x" and "sorted_wrt less (?b @ ?f)"
    using assms(1) by (simp_all add: ordered_def)
  then have sorted: "sorted_wrt less ?b" "sorted_wrt less ?f" "\<forall>x\<in>set ?b. \<forall>y\<in>set ?f. less x y"
    unfolding sorted_wrt_append by auto
  have above: "less e x" if x: "x \<in> set ?f" for x
    using that assms(3) from_not_less [OF assms(1,2) x] less_total [of e x] all assms(2)
      set_before_from [of es e] by blast
  have "sorted_wrt less (?b @ e # ?f)"
    using sorted above before_less by (simp add: sorted_wrt_append)
  moreover have "\<forall>x\<in>set (place_entry c e es). entry x"
    using all assms(2) by simp
  ultimately show ?thesis by (simp add: ordered_def place_entry_def)
qed

end

locale memtable_rep = entry_order c entry
  for c entry +
  fixes ops :: "('t, 'i, 'a) memrep"
    and ok :: "'t \<Rightarrow> bool"
    and entries :: "'t \<Rightarrow> bytes list"
    and cursor :: "'t \<Rightarrow> 'i \<Rightarrow> bytes list \<Rightarrow> bytes list \<Rightarrow> bool"
  assumes entries_ordered: "ok t \<Longrightarrow> ordered (entries t)"
    and insert_new: "ok t \<Longrightarrow> entry e \<Longrightarrow> \<forall>x\<in>set (entries t). compare_keys c e x \<noteq> 0 \<Longrightarrow>
      rep_Allocate ops (length e) t = (h, t1) \<Longrightarrow>
      \<exists>t2. rep_InsertKey ops h (rep_fill ops h e t1) = Some (True, t2) \<and>
        ok t2 \<and> entries t2 = place_entry c e (entries t)"
    and Get_runs: "ok t \<Longrightarrow> entry (memtable_key lk) \<Longrightarrow>
      \<exists>t'. rep_Get ops lk f (t, a) =
          Some (t', run_callback f a (entries_from c (memtable_key lk) (entries t))) \<and>
        ok t' \<and> entries t' = entries t"
    and Valid_iff: "ok t \<Longrightarrow> cursor t i xs ys \<Longrightarrow>
      \<exists>t' i'. it_Valid ops (t, i) = (ys \<noteq> [], t', i') \<and> ok t' \<and> entries t' = entries t \<and>
        cursor t' i' xs ys"
    and key_hd: "ok t \<Longrightarrow> cursor t i xs (y # ys) \<Longrightarrow> it_key ops (t, i) = y"
    and Next_moves: "ok t \<Longrightarrow> cursor t i xs (y # ys) \<Longrightarrow>
      \<exists>t' i'. it_Next ops (t, i) = Some (t', i') \<and> ok t' \<and> entries t' = entries t \<and>
        cursor t' i' (xs @ [y]) ys"
    and Seek_finds: "ok t \<Longrightarrow> entry k \<Longrightarrow>
      \<exists>t' i'. it_Seek ops ik (Some k) (t, rep_GetIterator ops t) = Some (t', i') \<and> ok t' \<and>
        entries t' = entries t \<and>
        cursor t' i' (entries_before c k (entries t)) (entries_from c k (entries t))"
    and SeekToFirst_finds: "ok t \<Longrightarrow>
      \<exists>t' i'. it_SeekToFirst ops (t, rep_GetIterator ops t) = Some (t', i') \<and> ok t' \<and>
        entries t' = entries t \<and> cursor t' i' [] (entries t)"

text \<open>A structure that answers whether the entry was new, and leaves itself unchanged if not.\<close>

locale duplicate_rep = memtable_rep +
  assumes insert_old: "ok t \<Longrightarrow> entry e \<Longrightarrow> x \<in> set (entries t) \<Longrightarrow> compare_keys c e x = 0 \<Longrightarrow>
      rep_Allocate ops (length e) t = (h, t1) \<Longrightarrow>
      \<exists>t2. rep_InsertKey ops h (rep_fill ops h e t1) = Some (False, t2) \<and>
        ok t2 \<and> entries t2 = entries t"

section \<open>The order of a memtable\<close>

text \<open>A string that begins with an internal key and its length.\<close>

definition is_entry :: "bytes \<Rightarrow> bool" where
  "is_entry e \<longleftrightarrow> (\<exists>ik rest. e = PutLengthPrefixedSlice [] ik @ rest \<and> 8 \<le> length ik \<and>
     length ik < 2 ^ 32)"

lemma prefixed_slice_Put [simp]:
  "length ik < 2 ^ 32 \<Longrightarrow> prefixed_slice (PutLengthPrefixedSlice [] ik @ rest) = ik"
  by (simp add: prefixed_slice_def GetLengthPrefixedSlice_ptr_Put)

lemma is_entryE:
  assumes "is_entry e"
  obtains ik rest where "e = PutLengthPrefixedSlice [] ik @ rest" "8 \<le> length ik" "length ik < 2 ^ 32"
    "prefixed_slice e = ik"
  using assms prefixed_slice_Put unfolding is_entry_def by blast

lemma EncodeKey_prefixed: "EncodeKey t = PutLengthPrefixedSlice [] t"
  by (simp add: EncodeKey_def PutLengthPrefixedSlice_def)

lemma memtable_key_entry:
  assumes "length u + (case ts of None \<Rightarrow> 0 | Some t \<Rightarrow> length t) + 8 < 2 ^ 32"
  shows "is_entry (memtable_key (LookupKey_new u s ts))"
  unfolding is_entry_def using assms
  by (intro exI [of _ "internal_key (LookupKey_new u s ts)"] exI [of _ "[]"])
    (simp add: memtable_key_prefixed internal_key_new split: option.splits)

lemma CompareKeySeq_footer:
  "CompareKeySeq c (u @ EncodeFixed64 n) (v @ EncodeFixed64 m) =
     (if Compare c u v = 0
      then (if drop_bit 8 n > drop_bit 8 m then -1 else if drop_bit 8 n < drop_bit 8 m then 1 else 0)
      else Compare c u v)"
  by (simp add: CompareKeySeq_def Let_def)

context user_key_order
begin

lemma CompareKeySeq_swap:
  assumes "8 \<le> length a" "8 \<le> length b"
  shows "CompareKeySeq cmp a b < 0 \<longleftrightarrow> 0 < CompareKeySeq cmp b a"
  using assms
proof (elim footer_split, goal_cases)
  case (1 u n v m)
  then show ?case
    using Compare_swap [OF TrueI TrueI, of u v] Compare_zero_swap [OF TrueI TrueI, of u v]
    by (auto simp: CompareKeySeq_footer)
qed

lemma CompareKeySeq_trans:
  assumes "8 \<le> length a" "8 \<le> length b" "8 \<le> length d"
    "CompareKeySeq cmp a b \<le> 0" "CompareKeySeq cmp b d \<le> 0"
  shows "CompareKeySeq cmp a d \<le> 0"
  using assms
proof (elim footer_split, goal_cases)
  case (1 u n v m w l)
  then show ?case
    using Compare_trans [OF TrueI TrueI TrueI, of u v w]
      Compare_less_le_trans [OF TrueI TrueI TrueI, of u v w]
      Compare_le_less_trans [OF TrueI TrueI TrueI, of u v w]
    by (auto simp: CompareKeySeq_footer split: if_splits)
qed

sublocale mem: entry_order "MemTable_KeyComparator cmp" is_entry
proof (unfold_locales, goal_cases)
  case (1 a b)
  show ?case by (simp add: MemTable_KeyComparator_def)
next
  case (2 a b)
  then show ?case
    by (elim is_entryE) (simp add: MemTable_KeyComparator_def CompareKeySeq_swap)
next
  case (3 a b d)
  then show ?case
    by (elim is_entryE) (simp add: MemTable_KeyComparator_def, metis CompareKeySeq_trans)
qed

end

end
