(* ===== verification/RandomGen.thy ===== *)
theory RandomGen
  imports Prelude
begin

text \<open>
  The random generator of util/random.h that draws the heights of skip list nodes: class
  \<^verbatim>\<open>Random\<close>, whose state is one 32-bit seed. \<open>Random64\<close> wraps the standard library's generator
  and is not modelled.

  The lemmas show that the reduction by shifting, masking and one conditional subtraction is
  the remainder the comment in the code promises, so that the seed stays between 1 and M - 1.
\<close>

definition random_M :: u32 where "random_M = 2147483647"
definition random_A :: u64 where "random_A = 16807"
definition kMaxNext :: u32 where "kMaxNext = random_M"

definition GoodSeed :: "u32 \<Rightarrow> u32" where
  "GoodSeed s = (if s AND random_M \<noteq> 0 then s AND random_M else 1)"

definition Random_new :: "u32 \<Rightarrow> u32" where
  "Random_new s = GoodSeed s"

definition Random_Reset :: "u32 \<Rightarrow> u32 \<Rightarrow> u32" where
  "Random_Reset seed s = GoodSeed s"

text \<open>The result is returned with the new seed, which is the same number.\<close>

definition Random_Next :: "u32 \<Rightarrow> u32 \<times> u32" where
  "Random_Next seed =
     (let product = (ucast seed :: u64) * random_A;
          seed1 = ucast (drop_bit 31 product + (product AND ucast random_M)) :: u32;
          seed2 = (if seed1 > random_M then seed1 - random_M else seed1)
      in (seed2, seed2))"

text \<open>The \<^verbatim>\<open>int\<close> argument is converted to \<^verbatim>\<open>uint32_t\<close> for the division.\<close>

definition Random_Uniform :: "u32 \<Rightarrow> u32 \<Rightarrow> u32 \<times> u32" where
  "Random_Uniform seed n = (let (r, seed') = Random_Next seed in (r mod n, seed'))"

definition Random_OneIn :: "u32 \<Rightarrow> u32 \<Rightarrow> bool \<times> u32" where
  "Random_OneIn seed n = (let (r, seed') = Random_Next seed in (r mod n = 0, seed'))"

definition Random_Skewed :: "u32 \<Rightarrow> u32 \<Rightarrow> u32 \<times> u32" where
  "Random_Skewed seed max_log =
     (let (b, seed') = Random_Uniform seed (max_log + 1) in Random_Uniform seed' (push_bit (unat b) 1))"

section \<open>Lemmas\<close>

text \<open>Folding a number at bit 31 keeps its remainder by \<open>2 ^ 31 - 1\<close>.\<close>

lemma fold_31: "(p div 2 ^ 31 + p mod 2 ^ 31) mod (2 ^ 31 - 1) = p mod (2 ^ 31 - 1 :: nat)"
proof -
  have "p = (2 ^ 31 - 1) * (p div 2 ^ 31) + (p div 2 ^ 31 + p mod 2 ^ 31)"
    using div_mult_mod_eq [of p "2 ^ 31"] by simp
  then show ?thesis by (metis mod_mult_self4 mult.commute)
qed

lemma fold_31_bound:
  assumes "s < 2 ^ 31 - 1"
  shows "s * 16807 div 2 ^ 31 < 16807" "s * 16807 div 2 ^ 31 + s * 16807 mod 2 ^ 31 < 2 * (2 ^ 31 - 1 :: nat)"
proof -
  show div: "s * 16807 div 2 ^ 31 < 16807" using assms by (intro less_mult_imp_div_less) simp
  have "s * 16807 mod 2 ^ 31 < 2 ^ 31" by simp
  with div show "s * 16807 div 2 ^ 31 + s * 16807 mod 2 ^ 31 < 2 * (2 ^ 31 - 1)" by simp
qed

lemma prime_step:
  assumes "0 < s" "s < 2 ^ 31 - 1"
  shows "s * 16807 mod (2 ^ 31 - 1) \<noteq> (0 :: nat)"
proof
  assume "s * 16807 mod (2 ^ 31 - 1) = 0"
  then have "(2 ^ 31 - 1) dvd s * (16807 :: nat)" by (simp add: dvd_eq_mod_eq_0)
  moreover have "coprime (2 ^ 31 - 1 :: nat) 16807" by (simp add: coprime_iff_gcd_eq_1 gcd_nat.simps)
  ultimately have "(2 ^ 31 - 1) dvd s" by (simp add: coprime_dvd_mult_left_iff)
  with assms show False by (auto dest: dvd_imp_le)
qed

text \<open>The product fits in 64 bits, and its folding in 32.\<close>

definition fold_word :: "u64 \<Rightarrow> u32" where
  "fold_word product = ucast (drop_bit 31 product + (product AND ucast random_M))"

lemma and_random_M: "unat (p AND (ucast random_M :: u64)) = unat p mod 2 ^ 31"
proof -
  have "(ucast random_M :: u64) = mask 31"
    by (simp add: random_M_def mask_eq_exp_minus_1)
  then have "p AND ucast random_M = take_bit 31 p" by (simp add: take_bit_eq_mask)
  then show ?thesis by (simp only: unsigned_take_bit_eq) (simp only: take_bit_eq_mod)
qed

lemma unat_product:
  assumes "unat s < 2 ^ 31 - 1"
  shows "unat ((ucast (s :: u32) :: u64) * random_A) = unat s * 16807"
proof -
  have "unat s * 16807 < 2 ^ 64" using assms by simp
  then show ?thesis
    by (simp add: unat_word_ariths random_A_def unsigned_ucast_eq take_bit_nat_eq_self)
qed

lemma unat_fold_word:
  assumes "unat p = n * 16807" "n < 2 ^ 31 - 1"
  shows "unat (fold_word p) = unat p div 2 ^ 31 + unat p mod 2 ^ 31"
proof -
  have small: "unat p div 2 ^ 31 + unat p mod 2 ^ 31 < 2 ^ 32"
    using fold_31_bound(2) [OF assms(2)] by (simp add: assms(1))
  have "unat (drop_bit 31 p) = unat p div 2 ^ 31" by (simp only: unat_drop_bit_eq) (simp only: drop_bit_eq_div)
  then have "unat (drop_bit 31 p + (p AND ucast random_M)) = unat p div 2 ^ 31 + unat p mod 2 ^ 31"
    using small by (subst unat_add_lem [THEN iffD1]) (simp_all add: and_random_M)
  with small show ?thesis
    by (simp add: fold_word_def unsigned_ucast_eq take_bit_nat_eq_self)
qed

lemma Random_Next_fold:
  "fst (Random_Next s) =
     (let w = fold_word (ucast s * random_A) in if w > random_M then w - random_M else w)"
  by (simp add: Random_Next_def fold_word_def Let_def)

lemma Random_Next_exact:
  assumes "0 < unat s" "unat s < 2 ^ 31 - 1"
  shows "unat (fst (Random_Next s)) = unat s * 16807 mod (2 ^ 31 - 1)"
proof -
  let ?p = "unat s * 16807" and ?w = "fold_word (ucast s * random_A)"
  have w: "unat ?w = ?p div 2 ^ 31 + ?p mod 2 ^ 31"
    using unat_fold_word [OF unat_product [OF assms(2)] assms(2)] unat_product [OF assms(2)] by simp
  have M: "unat random_M = 2 ^ 31 - 1" by (simp add: random_M_def)
  have less: "unat ?w < 2 * (2 ^ 31 - 1)" using fold_31_bound(2) [OF assms(2)] w by simp
  have rem: "unat ?w mod (2 ^ 31 - 1) = ?p mod (2 ^ 31 - 1)" unfolding w by (rule fold_31)
  have "unat ?w \<noteq> 2 ^ 31 - 1" using rem prime_step [OF assms] by auto
  show ?thesis
  proof (cases "?w > random_M")
    case True
    then have gt: "2 ^ 31 - 1 < unat ?w" using M by (simp add: word_less_nat_alt)
    have "unat (?w - random_M) = unat ?w - (2 ^ 31 - 1)"
      using True M by (simp add: unat_sub less_imp_le)
    also have "\<dots> = unat ?w mod (2 ^ 31 - 1)" using gt less by (simp add: mod_if)
    finally show ?thesis using True rem by (simp add: Random_Next_fold Let_def)
  next
    case False
    then have "unat ?w < 2 ^ 31 - 1"
      using M \<open>unat ?w \<noteq> 2 ^ 31 - 1\<close> by (simp add: word_less_nat_alt)
    with False rem show ?thesis by (simp add: Random_Next_fold Let_def)
  qed
qed

end
