(* ===== verification/SkipList.thy ===== *)
theory SkipList
  imports MemRep RandomGen
begin

text \<open>
  The skip list that holds a memtable's entries: memtable/inlineskiplist.h.

  A pointer to a node is the node's number in the list \<open>nodes\<close>, the memory that the allocator
  has handed out; \<open>None\<close> is the null pointer. A node of height \<open>h\<close> has \<open>h\<close> successors. The
  splice of an insertion, two arrays of pointers, is a value; those that outlive a call are
  numbered in the list \<open>splices\<close>. Memory the code does not initialise is filled with null
  pointers. The comparator \<^verbatim>\<open>compare_\<close> is the first argument of the operations that use it.

  The searches are loops over the links of the memory, so that in a memory whose links run
  in a circle they do not return: they are partial functions, \<open>None\<close> for not returning. The
  theory \<open>SkipListInv\<close> shows that on a well-formed list all of them return.

  The methods are modelled as one thread runs them.
\<close>

section \<open>Nodes, splices, lists\<close>

text \<open>
  \<^verbatim>\<open>StashHeight\<close> keeps the height in the unused bytes of the first link until the node is
  inserted; here it is a field of its own.
\<close>

record Node =
  nd_stash :: nat
  nd_key :: bytes
  nd_next :: "nat option list"

record Splice =
  sp_height :: nat
  sp_prev :: "nat list"
  sp_next :: "nat option list"

record InlineSkipList =
  kMaxHeight :: nat
  kBranching :: nat
  kScaledInverseBranching :: u32
  nodes :: "Node list"
  head_node :: nat
  max_height :: nat
  splices :: "Splice list"
  seq_splice :: nat
  rnd_seed :: u32

definition kMaxPossibleHeight :: nat where "kMaxPossibleHeight = 32"

definition nd_Key :: "InlineSkipList \<Rightarrow> nat \<Rightarrow> bytes" where
  "nd_Key s n = nd_key (nodes s ! n)"

definition nd_Next :: "InlineSkipList \<Rightarrow> nat \<Rightarrow> nat \<Rightarrow> nat option" where
  "nd_Next s n i = nd_next (nodes s ! n) ! i"

definition nd_SetNext :: "nat \<Rightarrow> nat \<Rightarrow> nat option \<Rightarrow> InlineSkipList \<Rightarrow> InlineSkipList" where
  "nd_SetNext n i x s =
     s\<lparr>nodes := (nodes s)[n := (nodes s ! n)\<lparr>nd_next := (nd_next (nodes s ! n))[i := x]\<rparr>]\<rparr>"

definition nd_CASNext ::
  "nat \<Rightarrow> nat \<Rightarrow> nat option \<Rightarrow> nat option \<Rightarrow> InlineSkipList \<Rightarrow> bool \<times> InlineSkipList" where
  "nd_CASNext n i expected x s =
     (if nd_Next s n i = expected then (True, nd_SetNext n i x s) else (False, s))"

definition nd_InsertAfter :: "nat \<Rightarrow> nat \<Rightarrow> nat \<Rightarrow> InlineSkipList \<Rightarrow> InlineSkipList" where
  "nd_InsertAfter this prev level s =
     nd_SetNext prev level (Some this) (nd_SetNext this level (nd_Next s prev level) s)"

definition sl_Equal :: "KeyComparator \<Rightarrow> bytes \<Rightarrow> bytes \<Rightarrow> bool" where
  "sl_Equal c a b \<longleftrightarrow> compare_keys c a b = 0"

definition sl_LessThan :: "KeyComparator \<Rightarrow> bytes \<Rightarrow> bytes \<Rightarrow> bool" where
  "sl_LessThan c a b \<longleftrightarrow> compare_keys c a b < 0"

definition KeyIsAfterNode :: "KeyComparator \<Rightarrow> InlineSkipList \<Rightarrow> bytes \<Rightarrow> nat option \<Rightarrow> bool" where
  "KeyIsAfterNode c s key n =
     (case n of None \<Rightarrow> False | Some m \<Rightarrow> compare_decoded c (nd_Key s m) key < 0)"

section \<open>Construction and allocation\<close>

function height_loop :: "nat \<Rightarrow> u32 \<Rightarrow> nat \<Rightarrow> u32 \<Rightarrow> nat \<times> u32" where
  "height_loop maxh scaled height seed =
     (if height < maxh \<and> height < kMaxPossibleHeight
      then (let (r, seed') = Random_Next seed
            in if r < scaled then height_loop maxh scaled (height + 1) seed' else (height, seed'))
      else (height, seed))"
  by auto
termination by (relation "measure (\<lambda>(maxh, _, height, _). maxh - height)") auto

declare height_loop.simps [simp del]

text \<open>The generator is the one of the running thread; its seed is a field of the list.\<close>

definition RandomHeight :: "InlineSkipList \<Rightarrow> nat \<times> InlineSkipList" where
  "RandomHeight s =
     (let (height, seed) = height_loop (kMaxHeight s) (kScaledInverseBranching s) 1 (rnd_seed s)
      in (height, s\<lparr>rnd_seed := seed\<rparr>))"

text \<open>The key's bytes are written by the caller; until then they are those of the model's zeros.\<close>

definition AllocateNode :: "nat \<Rightarrow> nat \<Rightarrow> InlineSkipList \<Rightarrow> nat \<times> InlineSkipList" where
  "AllocateNode key_size height s =
     (length (nodes s),
      s\<lparr>nodes := nodes s @
          [\<lparr>nd_stash = height, nd_key = replicate key_size 0, nd_next = replicate height None\<rparr>]\<rparr>)"

definition AllocateKey :: "nat \<Rightarrow> InlineSkipList \<Rightarrow> nat \<times> InlineSkipList" where
  "AllocateKey key_size s =
     (let (height, s') = RandomHeight s in AllocateNode key_size height s')"

definition fill_key :: "nat \<Rightarrow> bytes \<Rightarrow> InlineSkipList \<Rightarrow> InlineSkipList" where
  "fill_key n key s = s\<lparr>nodes := (nodes s)[n := (nodes s ! n)\<lparr>nd_key := key\<rparr>]\<rparr>"

definition Splice_new :: "nat \<Rightarrow> Splice" where
  "Splice_new maxh =
     \<lparr>sp_height = 0, sp_prev = replicate (maxh + 1) 0, sp_next = replicate (maxh + 1) None\<rparr>"

definition AllocateSplice :: "InlineSkipList \<Rightarrow> nat \<times> InlineSkipList" where
  "AllocateSplice s =
     (length (splices s), s\<lparr>splices := splices s @ [Splice_new (kMaxHeight s)]\<rparr>)"

definition InlineSkipList_new :: "nat \<Rightarrow> nat \<Rightarrow> u32 \<Rightarrow> InlineSkipList" where
  "InlineSkipList_new maxh branching seed =
     \<lparr>kMaxHeight = maxh, kBranching = branching,
      kScaledInverseBranching = (kMaxNext + 1) div of_nat branching,
      nodes = [\<lparr>nd_stash = maxh, nd_key = [], nd_next = replicate maxh None\<rparr>], head_node = 0,
      max_height = 1, splices = [Splice_new maxh], seq_splice = 0, rnd_seed = seed\<rparr>"

section \<open>Searches\<close>

partial_function (option) FindGreaterOrEqual_loop ::
  "KeyComparator \<Rightarrow> InlineSkipList \<Rightarrow> bytes \<Rightarrow> nat \<Rightarrow> nat \<Rightarrow> nat option \<Rightarrow> nat option option"
where
  "FindGreaterOrEqual_loop c s key_decoded x level last_bigger =
     (let next = nd_Next s x level;
          cmp = (if next = None \<or> next = last_bigger then 1
                 else compare_decoded c (nd_Key s (the next)) key_decoded)
      in if cmp = 0 \<or> cmp > 0 \<and> level = 0 then Some next
         else if cmp < 0
         then FindGreaterOrEqual_loop c s key_decoded (the next) level last_bigger
         else FindGreaterOrEqual_loop c s key_decoded x (level - 1) next)"

definition FindGreaterOrEqual :: "KeyComparator \<Rightarrow> InlineSkipList \<Rightarrow> bytes \<Rightarrow> nat option option" where
  "FindGreaterOrEqual c s key =
     (let key_decoded = decode_key c key
      in FindGreaterOrEqual_loop c s key_decoded (head_node s) (max_height s - 1) None)"

text \<open>The array \<^verbatim>\<open>prev\<close> is optional.\<close>

partial_function (option) FindLessThan_loop ::
  "KeyComparator \<Rightarrow> InlineSkipList \<Rightarrow> bytes \<Rightarrow> nat \<Rightarrow> nat list option \<Rightarrow> nat \<Rightarrow> nat \<Rightarrow> nat option \<Rightarrow>
     (nat \<times> nat list option) option"
where
  "FindLessThan_loop c s key_decoded bottom_level prev x level last_not_after =
     (let next = nd_Next s x level
      in if next \<noteq> last_not_after \<and> KeyIsAfterNode c s key_decoded next
         then FindLessThan_loop c s key_decoded bottom_level prev (the next) level last_not_after
         else
           (let prev' = map_option (\<lambda>a. a[level := x]) prev
            in if level = bottom_level then Some (x, prev')
               else FindLessThan_loop c s key_decoded bottom_level prev' x (level - 1) next))"

definition FindLessThan_from ::
  "KeyComparator \<Rightarrow> InlineSkipList \<Rightarrow> bytes \<Rightarrow> nat list option \<Rightarrow> nat \<Rightarrow> nat \<Rightarrow> nat \<Rightarrow>
     (nat \<times> nat list option) option"
where
  "FindLessThan_from c s key prev root top_level bottom_level =
     (let level = top_level - 1;
          key_decoded = decode_key c key
      in FindLessThan_loop c s key_decoded bottom_level prev root level None)"

definition FindLessThan ::
  "KeyComparator \<Rightarrow> InlineSkipList \<Rightarrow> bytes \<Rightarrow> nat list option \<Rightarrow> (nat \<times> nat list option) option"
where
  "FindLessThan c s key prev = FindLessThan_from c s key prev (head_node s) (max_height s) 0"

partial_function (option) FindLast_loop :: "InlineSkipList \<Rightarrow> nat \<Rightarrow> nat \<Rightarrow> nat option" where
  "FindLast_loop s x level =
     (case nd_Next s x level of
        None \<Rightarrow> if level = 0 then Some x else FindLast_loop s x (level - 1)
      | Some next \<Rightarrow> FindLast_loop s next level)"

definition FindLast :: "InlineSkipList \<Rightarrow> nat option" where
  "FindLast s = FindLast_loop s (head_node s) (max_height s - 1)"

partial_function (option) EstimateCount_loop ::
  "KeyComparator \<Rightarrow> InlineSkipList \<Rightarrow> bytes \<Rightarrow> u64 \<Rightarrow> nat \<Rightarrow> nat \<Rightarrow> u64 option"
where
  "EstimateCount_loop c s key_decoded count x level =
     (let next = nd_Next s x level
      in if next = None \<or> compare_decoded c (nd_Key s (the next)) key_decoded \<ge> 0
         then (if level = 0 then Some count
               else EstimateCount_loop c s key_decoded (count * of_nat (kBranching s)) x (level - 1))
         else EstimateCount_loop c s key_decoded (count + 1) (the next) level)"

definition EstimateCount :: "KeyComparator \<Rightarrow> InlineSkipList \<Rightarrow> bytes \<Rightarrow> u64 option" where
  "EstimateCount c s key =
     EstimateCount_loop c s (decode_key c key) 0 (head_node s) (max_height s - 1)"

definition sl_Contains :: "KeyComparator \<Rightarrow> InlineSkipList \<Rightarrow> bytes \<Rightarrow> bool option" where
  "sl_Contains c s key =
     (case FindGreaterOrEqual c s key of
        None \<Rightarrow> None
      | Some x \<Rightarrow> Some (case x of None \<Rightarrow> False | Some n \<Rightarrow> sl_Equal c key (nd_Key s n)))"

section \<open>Insertion\<close>

partial_function (option) FindSpliceForLevel ::
  "KeyComparator \<Rightarrow> InlineSkipList \<Rightarrow> bytes \<Rightarrow> nat \<Rightarrow> nat option \<Rightarrow> nat \<Rightarrow> (nat \<times> nat option) option"
where
  "FindSpliceForLevel c s key before after level =
     (let next = nd_Next s before level
      in if next = after \<or> \<not> KeyIsAfterNode c s key next then Some (before, next)
         else FindSpliceForLevel c s key (the next) after level)"

definition set_level :: "nat \<Rightarrow> nat \<times> nat option \<Rightarrow> Splice \<Rightarrow> Splice" where
  "set_level i pn sp = sp\<lparr>sp_prev := (sp_prev sp)[i := fst pn], sp_next := (sp_next sp)[i := snd pn]\<rparr>"

text \<open>The loop counts down from \<open>recompute_level - 1\<close> to \<open>0\<close>.\<close>

primrec RecomputeSpliceLevels ::
  "KeyComparator \<Rightarrow> InlineSkipList \<Rightarrow> bytes \<Rightarrow> nat \<Rightarrow> Splice \<Rightarrow> Splice option"
where
  "RecomputeSpliceLevels c s key 0 sp = Some sp"
| "RecomputeSpliceLevels c s key (Suc i) sp =
     (case FindSpliceForLevel c s key (sp_prev sp ! (i + 1)) (sp_next sp ! (i + 1)) i of
        None \<Rightarrow> None
      | Some pn \<Rightarrow> RecomputeSpliceLevels c s key i (set_level i pn sp))"

text \<open>
  The search for the lowest level whose splice brackets the key. The inner loops skip the
  levels that hold the node \<open>bad\<close>, which the present level does.
\<close>

function bracket_loop ::
  "KeyComparator \<Rightarrow> InlineSkipList \<Rightarrow> bytes \<Rightarrow> Splice \<Rightarrow> bool \<Rightarrow> nat \<Rightarrow> nat \<Rightarrow> nat"
where
  "bracket_loop c s key sp allow_partial_splice_fix maxh r =
     (if r < maxh
      then
        (if nd_Next s (sp_prev sp ! r) r \<noteq> sp_next sp ! r
         then bracket_loop c s key sp allow_partial_splice_fix maxh (r + 1)
         else if sp_prev sp ! r \<noteq> head_node s \<and> \<not> KeyIsAfterNode c s key (Some (sp_prev sp ! r))
         then
           (if allow_partial_splice_fix
            then
              (let bad = sp_prev sp ! r;
                   r' = r + 1 + length (takeWhile (\<lambda>p. p = bad) (drop (r + 1) (sp_prev sp)))
               in bracket_loop c s key sp allow_partial_splice_fix maxh r')
            else maxh)
         else if KeyIsAfterNode c s key (sp_next sp ! r)
         then
           (if allow_partial_splice_fix
            then
              (let bad = sp_next sp ! r;
                   r' = r + 1 + length (takeWhile (\<lambda>p. p = bad) (drop (r + 1) (sp_next sp)))
               in bracket_loop c s key sp allow_partial_splice_fix maxh r')
            else maxh)
         else r)
      else r)"
  by auto
termination by (relation "measure (\<lambda>(_, _, _, _, _, maxh, r). maxh - r)") auto

declare bracket_loop.simps [simp del]

text \<open>The first half of \<^verbatim>\<open>Insert\<close>: the splice is brought to bracket the key at every level.\<close>

definition prepare_splice ::
  "KeyComparator \<Rightarrow> InlineSkipList \<Rightarrow> bytes \<Rightarrow> Splice \<Rightarrow> bool \<Rightarrow> (nat \<times> Splice) option"
where
  "prepare_splice c s key_decoded sp allow_partial_splice_fix =
     (let maxh = max_height s;
          (sp1, recompute_height) =
            (if sp_height sp < maxh
             then (sp\<lparr>sp_prev := (sp_prev sp)[maxh := head_node s],
                      sp_next := (sp_next sp)[maxh := None], sp_height := maxh\<rparr>, maxh)
             else (sp, bracket_loop c s key_decoded sp allow_partial_splice_fix maxh 0))
      in if recompute_height > 0
         then map_option (\<lambda>sp2. (recompute_height, sp2))
                (RecomputeSpliceLevels c s key_decoded recompute_height sp1)
         else Some (recompute_height, sp1))"

text \<open>The check for an equal key, which the code makes at the lowest level only.\<close>

definition duplicate_key :: "KeyComparator \<Rightarrow> InlineSkipList \<Rightarrow> nat \<Rightarrow> Splice \<Rightarrow> bool" where
  "duplicate_key c s x sp \<longleftrightarrow>
     (sp_next sp ! 0 \<noteq> None \<and>
        compare_keys c (nd_Key s x) (nd_Key s (the (sp_next sp ! 0))) \<ge> 0) \<or>
     (sp_prev sp ! 0 \<noteq> head_node s \<and>
        compare_keys c (nd_Key s (sp_prev sp ! 0)) (nd_Key s x) \<ge> 0)"

text \<open>One level of the insertion without concurrency; \<open>False\<close> for a duplicate.\<close>

definition link_level ::
  "KeyComparator \<Rightarrow> bytes \<Rightarrow> nat \<Rightarrow> nat \<Rightarrow> nat \<Rightarrow> InlineSkipList \<Rightarrow> Splice \<Rightarrow>
     (bool \<times> InlineSkipList \<times> Splice) option"
where
  "link_level c key_decoded recompute_height x i s sp =
     (case (if i \<ge> recompute_height \<and> nd_Next s (sp_prev sp ! i) i \<noteq> sp_next sp ! i
            then map_option (\<lambda>pn. set_level i pn sp)
                   (FindSpliceForLevel c s key_decoded (sp_prev sp ! i) None i)
            else Some sp) of
        None \<Rightarrow> None
      | Some sp1 \<Rightarrow>
          if i = 0 \<and> duplicate_key c s x sp1 then Some (False, s, sp1)
          else Some (True,
            nd_SetNext (sp_prev sp1 ! i) i (Some x) (nd_SetNext x i (sp_next sp1 ! i) s), sp1))"

primrec link_levels ::
  "KeyComparator \<Rightarrow> bytes \<Rightarrow> nat \<Rightarrow> nat \<Rightarrow> nat list \<Rightarrow> InlineSkipList \<Rightarrow> Splice \<Rightarrow>
     (bool \<times> InlineSkipList \<times> Splice) option"
where
  "link_levels c key_decoded recompute_height x [] s sp = Some (True, s, sp)"
| "link_levels c key_decoded recompute_height x (i # is) s sp =
     (case link_level c key_decoded recompute_height x i s sp of
        None \<Rightarrow> None
      | Some (False, s', sp') \<Rightarrow> Some (False, s', sp')
      | Some (True, s', sp') \<Rightarrow> link_levels c key_decoded recompute_height x is s' sp')"

text \<open>
  One level with compare-and-swap: on failure the splice is searched again from where it was.
  The flag is \<^verbatim>\<open>splice_is_valid\<close>.
\<close>

partial_function (option) cas_level ::
  "KeyComparator \<Rightarrow> bytes \<Rightarrow> nat \<Rightarrow> nat \<Rightarrow> bool \<Rightarrow> InlineSkipList \<Rightarrow> Splice \<Rightarrow>
     (bool \<times> bool \<times> InlineSkipList \<times> Splice) option"
where
  "cas_level c key_decoded x i valid s sp =
     (if i = 0 \<and> duplicate_key c s x sp then Some (False, valid, s, sp)
      else
        (let s1 = nd_SetNext x i (sp_next sp ! i) s;
             (swapped, s2) = nd_CASNext (sp_prev sp ! i) i (sp_next sp ! i) (Some x) s1
         in if swapped then Some (True, valid, s2, sp)
            else Option.bind (FindSpliceForLevel c s2 key_decoded (sp_prev sp ! i) None i)
                   (\<lambda>pn. cas_level c key_decoded x i (valid \<and> i = 0) s2 (set_level i pn sp))))"

primrec cas_levels ::
  "KeyComparator \<Rightarrow> bytes \<Rightarrow> nat \<Rightarrow> nat list \<Rightarrow> bool \<Rightarrow> InlineSkipList \<Rightarrow> Splice \<Rightarrow>
     (bool \<times> bool \<times> InlineSkipList \<times> Splice) option"
where
  "cas_levels c key_decoded x [] valid s sp = Some (True, valid, s, sp)"
| "cas_levels c key_decoded x (i # is) valid s sp =
     (case cas_level c key_decoded x i valid s sp of
        None \<Rightarrow> None
      | Some (False, valid', s', sp') \<Rightarrow> Some (False, valid', s', sp')
      | Some (True, valid', s', sp') \<Rightarrow> cas_levels c key_decoded x is valid' s' sp')"

definition finish_splice :: "nat \<Rightarrow> nat \<Rightarrow> bool \<Rightarrow> Splice \<Rightarrow> Splice" where
  "finish_splice x height splice_is_valid sp =
     (if splice_is_valid then sp\<lparr>sp_prev := replicate height x @ drop height (sp_prev sp)\<rparr>
      else sp\<lparr>sp_height := 0\<rparr>)"

definition raise_height :: "nat \<Rightarrow> InlineSkipList \<Rightarrow> InlineSkipList" where
  "raise_height height s = s\<lparr>max_height := max height (max_height s)\<rparr>"

definition sl_Insert ::
  "bool \<Rightarrow> KeyComparator \<Rightarrow> InlineSkipList \<Rightarrow> nat \<Rightarrow> Splice \<Rightarrow> bool \<Rightarrow>
     (bool \<times> InlineSkipList \<times> Splice) option"
where
  "sl_Insert UseCAS c s x sp allow_partial_splice_fix =
     (let key_decoded = decode_key c (nd_Key s x);
          height = nd_stash (nodes s ! x);
          s1 = raise_height height s
      in case prepare_splice c s1 key_decoded sp allow_partial_splice_fix of
           None \<Rightarrow> None
         | Some (recompute_height, sp1) \<Rightarrow>
             if UseCAS
             then
               (case cas_levels c key_decoded x [0..<height] True s1 sp1 of
                  None \<Rightarrow> None
                | Some (False, _, s2, sp2) \<Rightarrow> Some (False, s2, sp2)
                | Some (True, valid, s2, sp2) \<Rightarrow> Some (True, s2, finish_splice x height valid sp2))
             else
               (case link_levels c key_decoded recompute_height x [0..<height] s1 sp1 of
                  None \<Rightarrow> None
                | Some (False, s2, sp2) \<Rightarrow> Some (False, s2, sp2)
                | Some (True, s2, sp2) \<Rightarrow> Some (True, s2, finish_splice x height True sp2)))"

text \<open>The insertion with a splice that is kept in memory.\<close>

definition insert_with_splice ::
  "bool \<Rightarrow> KeyComparator \<Rightarrow> nat \<Rightarrow> nat \<Rightarrow> bool \<Rightarrow> InlineSkipList \<Rightarrow> (bool \<times> InlineSkipList) option"
where
  "insert_with_splice UseCAS c x p allow_partial_splice_fix s =
     (case sl_Insert UseCAS c s x (splices s ! p) allow_partial_splice_fix of
        None \<Rightarrow> None
      | Some (b, s', sp') \<Rightarrow> Some (b, s'\<lparr>splices := (splices s')[p := sp']\<rparr>))"

definition Insert :: "KeyComparator \<Rightarrow> nat \<Rightarrow> InlineSkipList \<Rightarrow> (bool \<times> InlineSkipList) option" where
  "Insert c x s = insert_with_splice False c x (seq_splice s) False s"

text \<open>
  The splice on the stack: its field \<^verbatim>\<open>height_\<close> is zero by its initialiser and its arrays have
  \<^verbatim>\<open>kMaxPossibleHeight\<close> elements.
\<close>

definition InsertConcurrently ::
  "KeyComparator \<Rightarrow> nat \<Rightarrow> InlineSkipList \<Rightarrow> (bool \<times> InlineSkipList) option" where
  "InsertConcurrently c x s =
     (let sp = \<lparr>sp_height = 0, sp_prev = replicate kMaxPossibleHeight 0,
                sp_next = replicate kMaxPossibleHeight None\<rparr>
      in map_option (\<lambda>(b, s', _). (b, s')) (sl_Insert True c s x sp False))"

definition insert_hinted ::
  "bool \<Rightarrow> KeyComparator \<Rightarrow> nat \<Rightarrow> nat option \<Rightarrow> InlineSkipList \<Rightarrow>
     (bool \<times> nat option \<times> InlineSkipList) option"
where
  "insert_hinted UseCAS c x hint s =
     (let (p, s1) = (case hint of None \<Rightarrow> AllocateSplice s | Some p \<Rightarrow> (p, s))
      in map_option (\<lambda>(b, s2). (b, Some p, s2)) (insert_with_splice UseCAS c x p True s1))"

definition InsertWithHint ::
  "KeyComparator \<Rightarrow> nat \<Rightarrow> nat option \<Rightarrow> InlineSkipList \<Rightarrow>
     (bool \<times> nat option \<times> InlineSkipList) option" where
  "InsertWithHint c x hint s = insert_hinted False c x hint s"

definition InsertWithHintConcurrently ::
  "KeyComparator \<Rightarrow> nat \<Rightarrow> nat option \<Rightarrow> InlineSkipList \<Rightarrow>
     (bool \<times> nat option \<times> InlineSkipList) option" where
  "InsertWithHintConcurrently c x hint s = insert_hinted True c x hint s"

section \<open>Iterators\<close>

text \<open>An iterator is the node it stands on, \<open>None\<close> when it is not valid.\<close>

definition sli_SetList :: "nat option" where
  "sli_SetList = None"

definition sli_Valid :: "nat option \<Rightarrow> bool" where
  "sli_Valid i \<longleftrightarrow> i \<noteq> None"

definition sli_key :: "InlineSkipList \<Rightarrow> nat option \<Rightarrow> bytes" where
  "sli_key s i = nd_Key s (the i)"

definition sli_Next :: "InlineSkipList \<Rightarrow> nat option \<Rightarrow> nat option" where
  "sli_Next s i = nd_Next s (the i) 0"

definition sli_Prev :: "KeyComparator \<Rightarrow> InlineSkipList \<Rightarrow> nat option \<Rightarrow> nat option option" where
  "sli_Prev c s i =
     (case FindLessThan c s (nd_Key s (the i)) None of
        None \<Rightarrow> None
      | Some (n, _) \<Rightarrow> Some (if n = head_node s then None else Some n))"

definition sli_Seek :: "KeyComparator \<Rightarrow> InlineSkipList \<Rightarrow> bytes \<Rightarrow> nat option option" where
  "sli_Seek c s target = FindGreaterOrEqual c s target"

definition sli_SeekToFirst :: "InlineSkipList \<Rightarrow> nat option" where
  "sli_SeekToFirst s = nd_Next s (head_node s) 0"

definition sli_SeekToLast :: "InlineSkipList \<Rightarrow> nat option option" where
  "sli_SeekToLast s =
     map_option (\<lambda>n. if n = head_node s then None else Some n) (FindLast s)"

partial_function (option) sli_back_loop ::
  "KeyComparator \<Rightarrow> InlineSkipList \<Rightarrow> bytes \<Rightarrow> nat option \<Rightarrow> nat option option" where
  "sli_back_loop c s target i =
     (if sli_Valid i \<and> sl_LessThan c target (sli_key s i)
      then Option.bind (sli_Prev c s i) (sli_back_loop c s target)
      else Some i)"

definition sli_SeekForPrev :: "KeyComparator \<Rightarrow> InlineSkipList \<Rightarrow> bytes \<Rightarrow> nat option option" where
  "sli_SeekForPrev c s target =
     (case sli_Seek c s target of
        None \<Rightarrow> None
      | Some i \<Rightarrow>
          (case (if sli_Valid i then Some i else sli_SeekToLast s) of
             None \<Rightarrow> None
           | Some j \<Rightarrow> sli_back_loop c s target j))"

end
