(* ===== verification/SkipListInv.thy ===== *)
theory SkipListInv
  imports SkipList
begin

text \<open>
  The skip list is a sorted list: its invariant, the searches, and insertion.

  The ghost \<open>L\<close> gives for each level the numbers of the nodes linked there, in order. The
  invariant \<open>levels_ok\<close> says that the links of every level run through exactly these nodes, that
  they are sorted, and that every node of a level is on the level below. It does not relate
  levels to heights, so that it also describes a list in which insertions are under way.

  The lemmas on searches show that each returns and what it finds; those on splices show that
  a kept splice stays usable, and that an insertion adds the key at its place and nothing else,
  or answers that an equal key is there.
\<close>

section \<open>Paths through the links\<close>

primrec links :: "(nat \<Rightarrow> nat option) \<Rightarrow> nat \<Rightarrow> nat list \<Rightarrow> bool" where
  "links f a [] = True"
| "links f a (b # bs) = (f a = Some b \<and> links f b bs)"

primrec chain :: "(nat \<Rightarrow> nat option) \<Rightarrow> nat \<Rightarrow> nat list \<Rightarrow> bool" where
  "chain f a [] = (f a = None)"
| "chain f a (b # bs) = (f a = Some b \<and> chain f b bs)"

definition first_of :: "'a list \<Rightarrow> 'a option" where
  "first_of xs = (case xs of [] \<Rightarrow> None | x # _ \<Rightarrow> Some x)"

lemma first_of_simps [simp]: "first_of [] = None" "first_of (x # xs) = Some x"
  by (simp_all add: first_of_def)

lemma first_of_None [simp]: "first_of xs = None \<longleftrightarrow> xs = []" "None = first_of xs \<longleftrightarrow> xs = []"
  by (cases xs; simp)+

lemma first_of_Some: "first_of xs = Some x \<longleftrightarrow> (\<exists>ys. xs = x # ys)"
  by (cases xs) auto

lemma chain_append: "chain f a (xs @ ys) \<longleftrightarrow> links f a xs \<and> chain f (last (a # xs)) ys"
  by (induction xs arbitrary: a) auto

lemma chain_next: "chain f a (xs @ ys) \<Longrightarrow> f (last (a # xs)) = first_of ys"
  using chain_append [of f a xs ys] by (cases ys) simp_all

lemma links_upd: "p \<notin> set (butlast (a # xs)) \<Longrightarrow> links (f(p := v)) a xs \<longleftrightarrow> links f a xs"
  by (induction xs arbitrary: a) (auto split: if_splits)

lemma chain_upd: "p \<notin> set (a # xs) \<Longrightarrow> chain (f(p := v)) a xs \<longleftrightarrow> chain f a xs"
  by (induction xs arbitrary: a) auto

lemma chain_insert:
  assumes "chain f a (xs @ ys)" "distinct (a # xs @ ys)" "x \<notin> set (a # xs @ ys)"
  shows "chain (f(x := first_of ys, last (a # xs) := Some x)) a (xs @ x # ys)"
proof -
  let ?p = "last (a # xs)" and ?g = "f(x := first_of ys)"
  have p: "?p \<notin> set (butlast (a # xs))" "?p \<notin> set (x # ys)"
    using assms(2,3) last_in_set [of "a # xs"]
    by (metis append_butlast_last_id distinct.simps(2) distinct_append disjoint_insert(1) list.simps(15)
        list.discI append_Cons, metis Un_iff append_Cons disjoint_iff distinct_append list.discI
        set_ConsD set_append)
  have "links f a xs" using assms(1) by (simp add: chain_append)
  moreover have "x \<notin> set (butlast (a # xs))"
    using assms(3) by (auto dest: in_set_butlastD split: if_splits)
  ultimately have "links (?g(?p := Some x)) a xs"
    using p(1) by (simp add: links_upd del: butlast.simps last.simps fun_upd_apply)
  moreover have "chain ?g x ys"
    using assms by (cases ys) (auto simp: chain_append chain_upd)
  then have "chain (?g(?p := Some x)) x ys"
    using p(2) by (simp add: chain_upd del: last.simps fun_upd_apply)
  ultimately show ?thesis
    by (simp add: chain_append del: last.simps)
qed

lemma sorted_wrt_distinct: "sorted_wrt R ns \<Longrightarrow> \<forall>n\<in>set ns. \<not> R n n \<Longrightarrow> distinct ns"
  by (induction ns) auto

section \<open>The invariant\<close>

definition klt :: "KeyComparator \<Rightarrow> InlineSkipList \<Rightarrow> bytes \<Rightarrow> nat \<Rightarrow> bool" where
  "klt c s k n \<longleftrightarrow> entry_less c (nd_Key s n) k"

definition node_ok :: "(bytes \<Rightarrow> bool) \<Rightarrow> InlineSkipList \<Rightarrow> nat \<Rightarrow> nat \<Rightarrow> bool" where
  "node_ok entry s i n \<longleftrightarrow> n \<noteq> head_node s \<and> n < length (nodes s) \<and>
     i < length (nd_next (nodes s ! n)) \<and> entry (nd_Key s n)"

definition level_ok ::
  "KeyComparator \<Rightarrow> (bytes \<Rightarrow> bool) \<Rightarrow> InlineSkipList \<Rightarrow> nat \<Rightarrow> nat list \<Rightarrow> bool" where
  "level_ok c entry s i ns \<longleftrightarrow>
     chain (\<lambda>n. nd_Next s n i) (head_node s) ns \<and> (\<forall>n\<in>set ns. node_ok entry s i n) \<and>
     sorted_wrt (\<lambda>a b. entry_less c (nd_Key s a) (nd_Key s b)) ns"

definition levels_ok ::
  "KeyComparator \<Rightarrow> (bytes \<Rightarrow> bool) \<Rightarrow> InlineSkipList \<Rightarrow> (nat \<Rightarrow> nat list) \<Rightarrow> bool" where
  "levels_ok c entry s L \<longleftrightarrow>
     head_node s < length (nodes s) \<and> kMaxHeight s \<le> length (nd_next (nodes s ! head_node s)) \<and>
     1 \<le> max_height s \<and> max_height s \<le> kMaxHeight s \<and>
     (\<forall>i<kMaxHeight s. level_ok c entry s i (L i)) \<and>
     (\<forall>i. Suc i < kMaxHeight s \<longrightarrow> set (L (Suc i)) \<subseteq> set (L i))"

text \<open>The neighbours of a key at a level.\<close>

definition gap ::
  "KeyComparator \<Rightarrow> InlineSkipList \<Rightarrow> nat list \<Rightarrow> bytes \<Rightarrow> nat \<times> nat option" where
  "gap c s ns k = (last (head_node s # takeWhile (klt c s k) ns), first_of (dropWhile (klt c s k) ns))"

lemma levels_okD:
  assumes "levels_ok c entry s L" "i < kMaxHeight s"
  shows "chain (\<lambda>n. nd_Next s n i) (head_node s) (L i)"
    and "n \<in> set (L i) \<Longrightarrow> node_ok entry s i n"
    and "sorted_wrt (\<lambda>a b. entry_less c (nd_Key s a) (nd_Key s b)) (L i)"
  using assms by (auto simp: levels_ok_def level_ok_def)

lemma levels_sub:
  assumes "levels_ok c entry s L" "i < kMaxHeight s" "j \<le> i"
  shows "set (L i) \<subseteq> set (L j)"
  using assms(3,2)
proof (induction rule: dec_induct)
  case (step n)
  then show ?case using assms(1) by (auto simp: levels_ok_def)
qed simp

lemma levels_sub_head:
  assumes "levels_ok c entry s L" "i < kMaxHeight s" "j \<le> i"
  shows "insert (head_node s) (set (L i)) \<subseteq> insert (head_node s) (set (L j))"
  using levels_sub [OF assms] by auto

lemma next_at:
  assumes "levels_ok c entry s L" "i < kMaxHeight s" "L i = P @ Q"
  shows "nd_Next s (last (head_node s # P)) i = first_of Q"
  using levels_okD(1) [OF assms(1,2)] assms(3) chain_next by metis

lemma split_unique_klt:
  assumes "ns = P @ Q" "\<forall>n\<in>set P. klt c s k n" "Q = [] \<or> \<not> klt c s k (hd Q)"
  shows "takeWhile (klt c s k) ns = P" "dropWhile (klt c s k) ns = Q"
  using assms by (cases Q; auto simp: takeWhile_append2 dropWhile_append2)+

lemma gap_split:
  assumes "ns = P @ Q" "\<forall>n\<in>set P. klt c s k n" "Q = [] \<or> \<not> klt c s k (hd Q)"
  shows "gap c s ns k = (last (head_node s # P), first_of Q)"
  unfolding gap_def using split_unique_klt [OF assms] by simp

lemma last_at: "ns = P @ Q \<Longrightarrow> last (h # P) = h \<or> last (h # P) \<in> set ns"
  using last_in_set [of P] by (cases "P = []") simp_all

text \<open>A node that is on a level splits it; the head splits it at its beginning.\<close>

lemma split_at_node:
  assumes "p = h \<or> p \<in> set ns"
  obtains P Q where "ns = P @ Q" "last (h # P) = p" "P \<noteq> [] \<longrightarrow> p \<in> set ns"
proof (cases "p \<in> set ns")
  case True
  then obtain P Q where "ns = P @ p # Q" by (meson split_list)
  then show ?thesis using that [of "P @ [p]" Q] by simp
next
  case False
  with assms show ?thesis using that [of "[]" ns] by simp
qed

context entry_order
begin

lemma KeyIsAfterNode_klt:
  assumes "entry k" "entry (nd_Key s n)"
  shows "KeyIsAfterNode c s (decode_key c k) (Some n) \<longleftrightarrow> klt c s k n"
  using compare_decode [OF assms(2,1)] by (simp add: KeyIsAfterNode_def klt_def entry_less_def)

lemma level_distinct:
  assumes "levels_ok c entry s L" "i < kMaxHeight s"
  shows "distinct (head_node s # L i)"
proof -
  have "\<forall>n\<in>set (L i). \<not> less (nd_Key s n) (nd_Key s n)"
    using levels_okD(2) [OF assms] less_irrefl by (auto simp: node_ok_def)
  with levels_okD(3) [OF assms] have "distinct (L i)"
    by (rule sorted_wrt_distinct)
  with levels_okD(2) [OF assms] show ?thesis by (auto simp: node_ok_def)
qed

text \<open>The nodes before a split come before those after it.\<close>

lemma split_klt:
  assumes "levels_ok c entry s L" "i < kMaxHeight s" "L i = P @ Q" "a \<in> set P" "b \<in> set Q"
  shows "less (nd_Key s a) (nd_Key s b)"
  using levels_okD(3) [OF assms(1,2)] assms(3-5) by (auto simp: sorted_wrt_append)

text \<open>If the last node before a split comes before a key, all of them do.\<close>

lemma before_all:
  assumes "levels_ok c entry s L" "i < kMaxHeight s" "L i = P @ Q" "entry k"
    and "P \<noteq> [] \<longrightarrow> klt c s k (last P)"
  shows "\<forall>n\<in>set P. klt c s k n"
proof
  fix n assume n: "n \<in> set P"
  then have ne: "P \<noteq> []" by auto
  then obtain R where P: "P = R @ [last P]" by (metis append_butlast_last_id)
  have e: "entry (nd_Key s m)" if "m \<in> set P" for m
    using levels_okD(2) [OF assms(1,2)] assms(3) that by (auto simp: node_ok_def)
  have last: "klt c s k (last P)" "last P \<in> set P" using assms(5) ne by simp_all
  show "klt c s k n"
  proof (cases "n \<in> set R")
    case True
    then have "less (nd_Key s n) (nd_Key s (last P))"
      using split_klt [OF assms(1,2), of R "last P # Q"] assms(3) P
      by (metis append.assoc append_Cons append_Nil list.set_intros(1))
    with last show ?thesis
      using less_trans [OF e [OF n] e [OF last(2)] assms(4)] by (simp add: klt_def)
  next
    case False
    with n P have "n = last P" by (metis Un_iff set_ConsD set_append empty_iff empty_set)
    with last show ?thesis by simp
  qed
qed

text \<open>If the first node after a split does not come before a key, none does.\<close>

lemma after_all:
  assumes "levels_ok c entry s L" "i < kMaxHeight s" "L i = P @ Q" "entry k"
    and "Q = [] \<or> \<not> klt c s k (hd Q)" "n \<in> set Q"
  shows "\<not> klt c s k n"
proof -
  obtain q R where Q: "Q = q # R" using assms(6) by (cases Q) auto
  have e: "entry (nd_Key s m)" if "m \<in> set Q" for m
    using levels_okD(2) [OF assms(1,2)] assms(3) that by (auto simp: node_ok_def)
  show ?thesis
  proof (cases "n = q")
    case True
    with assms(5) Q show ?thesis by simp
  next
    case False
    with assms(6) Q have "less (nd_Key s q) (nd_Key s n)"
      using split_klt [OF assms(1,2), of "P @ [q]" R] assms(3) by auto
    then show ?thesis
      using assms(4,5) Q e less_trans [of "nd_Key s q" "nd_Key s n" k] assms(6)
      unfolding klt_def by auto
  qed
qed

text \<open>Going down a level from a node before the key.\<close>

lemma descend:
  assumes "levels_ok c entry s L" "Suc i < kMaxHeight s" "L (Suc i) = P @ Q" "entry k"
    and "\<forall>n\<in>set P. klt c s k n"
  obtains P' Q' where "L i = P' @ Q'" "last (head_node s # P') = last (head_node s # P)"
    "\<forall>n\<in>set P'. klt c s k n"
proof -
  let ?p = "last (head_node s # P)"
  have sub: "set (L (Suc i)) \<subseteq> set (L i)" and i: "i < kMaxHeight s"
    using assms(1,2) by (auto simp: levels_ok_def)
  have p: "?p = head_node s \<or> ?p \<in> set (L i)"
    using sub last_at [OF assms(3), of "head_node s"] by auto
  obtain P' Q' where split: "L i = P' @ Q'" "last (head_node s # P') = ?p"
    by (rule split_at_node [OF p])
  have "P' \<noteq> [] \<longrightarrow> klt c s k (last P')"
  proof
    assume "P' \<noteq> []"
    then have "last P' \<in> set (L i)" "last P' = ?p"
      using split last_in_set [of P'] by simp_all
    then have "P \<noteq> []" using level_distinct [OF assms(1) i] by auto
    with assms(5) \<open>last P' = ?p\<close> show "klt c s k (last P')" by auto
  qed
  with split show ?thesis
    using that before_all [OF assms(1) i split(1) assms(4)] by blast
qed

section \<open>Searches\<close>

lemma klt_next:
  assumes "levels_ok c entry s L" "i < kMaxHeight s" "L i = P @ q # R" "entry k"
  shows "compare_decoded c (nd_Key s q) (decode_key c k) = compare_keys c (nd_Key s q) k"
    and "KeyIsAfterNode c s (decode_key c k) (Some q) \<longleftrightarrow> klt c s k q"
    and "entry (nd_Key s q)"
proof -
  show "entry (nd_Key s q)"
    using levels_okD(2) [OF assms(1,2), of q] assms(3) by (simp add: node_ok_def)
  then show "compare_decoded c (nd_Key s q) (decode_key c k) = compare_keys c (nd_Key s q) k"
    "KeyIsAfterNode c s (decode_key c k) (Some q) \<longleftrightarrow> klt c s k q"
    using assms(4) by (simp_all add: compare_decode KeyIsAfterNode_klt)
qed

lemma FindSpliceForLevel_gap:
  assumes "levels_ok c entry s L" "i < kMaxHeight s" "entry k"
    and "L i = P @ Q" "\<forall>n\<in>set P. klt c s k n"
    and "after = None \<or> (\<exists>a. after = Some a \<and> \<not> klt c s k a)"
  shows "FindSpliceForLevel c s (decode_key c k) (last (head_node s # P)) after i =
    Some (gap c s (L i) k)"
  using assms(4,5)
proof (induction Q arbitrary: P)
  case Nil
  then show ?case
    using next_at [OF assms(1,2) Nil.prems(1)] gap_split [of "L i" P "[]"]
    by (subst FindSpliceForLevel.simps) (simp add: KeyIsAfterNode_def Let_def)
next
  case (Cons q Q)
  note nx = next_at [OF assms(1,2) Cons.prems(1)]
  note kl = klt_next [OF assms(1,2) Cons.prems(1) assms(3)]
  show ?case
  proof (cases "klt c s k q")
    case True
    have "Some q \<noteq> after" using assms(6) True by auto
    with True nx kl Cons.IH [of "P @ [q]"] Cons.prems show ?thesis
      by (subst FindSpliceForLevel.simps) (simp add: Let_def)
  next
    case False
    with nx kl Cons.prems gap_split [OF Cons.prems(1)] show ?thesis
      by (subst FindSpliceForLevel.simps) (simp add: Let_def)
  qed
qed

text \<open>The nodes of equal keys are where the search for the key ends.\<close>

lemma equal_is_first:
  assumes "levels_ok c entry s L" "i < kMaxHeight s" "entry k" "n \<in> set (L i)"
    and "compare_keys c (nd_Key s n) k = 0"
  shows "first_of (dropWhile (klt c s k) (L i)) = Some n"
proof -
  obtain P Q where split: "L i = P @ n # Q" using assms(4) by (meson split_list)
  have e: "entry (nd_Key s m)" if "m \<in> set (L i)" for m
    using levels_okD(2) [OF assms(1,2) that] by (simp add: node_ok_def)
  have n: "\<not> klt c s k n" using assms(5) by (simp add: klt_def entry_less_def)
  have nk: "\<not> less k (nd_Key s n)"
    using assms(5) compare_zero_swap [OF assms(3) e [OF assms(4)]] by (simp add: entry_less_def)
  have "\<forall>m\<in>set P. klt c s k m"
  proof
    fix m assume m: "m \<in> set P"
    then have "less (nd_Key s m) (nd_Key s n)"
      using split_klt [OF assms(1,2) split] by simp
    then show "klt c s k m"
      using less_le_trans [OF e e assms(3) _ nk] m assms(4) split by (simp add: klt_def)
  qed
  then show ?thesis using split_unique_klt(2) [OF split] n by simp
qed

lemma FindGreaterOrEqual_loop_first:
  assumes "levels_ok c entry s L" "entry k"
  shows "level < kMaxHeight s \<Longrightarrow> L level = P @ Q \<Longrightarrow> \<forall>n\<in>set P. klt c s k n \<Longrightarrow>
    last_bigger = None \<or> (\<exists>b. last_bigger = Some b \<and> compare_keys c (nd_Key s b) k > 0) \<Longrightarrow>
    FindGreaterOrEqual_loop c s (decode_key c k) (last (head_node s # P)) level last_bigger =
      Some (first_of (dropWhile (klt c s k) (L 0)))"
proof (induction level arbitrary: P Q last_bigger)
  case 0
  note pos = 0(1) and big = 0(4)
  from 0(2,3) show ?case
  proof (induction Q arbitrary: P)
    case Nil
    then have "dropWhile (klt c s k) (L 0) = []" by simp
    then show ?case
      using next_at [OF assms(1) pos Nil.prems(1)]
      by (subst FindGreaterOrEqual_loop.simps) (simp add: Let_def)
  next
    case (Cons q Q)
    note nx = next_at [OF assms(1) pos Cons.prems(1)]
    note kl = klt_next [OF assms(1) pos Cons.prems(1) assms(2)]
    show ?case
    proof (cases "klt c s k q")
      case True
      then have less: "compare_keys c (nd_Key s q) k < 0" by (simp add: klt_def entry_less_def)
      then have "Some q \<noteq> last_bigger" using big by auto
      with True less nx kl Cons.IH [of "P @ [q]"] Cons.prems show ?thesis
        by (subst FindGreaterOrEqual_loop.simps) (simp add: Let_def)
    next
      case False
      with split_unique_klt(2) [OF Cons.prems(1,2)]
      have first: "first_of (dropWhile (klt c s k) (L 0)) = Some q" by simp
      from False have "compare_keys c (nd_Key s q) k \<ge> 0" by (simp add: klt_def entry_less_def)
      with first nx kl show ?thesis
        by (subst FindGreaterOrEqual_loop.simps) (simp add: Let_def)
    qed
  qed
next
  case (Suc level)
  note pos = Suc(2) and big = Suc(5) and IH = Suc.IH
  have low: "level < kMaxHeight s" using pos by simp
  have down: "FindGreaterOrEqual_loop c s (decode_key c k) (last (head_node s # P)) level nx =
      Some (first_of (dropWhile (klt c s k) (L 0)))"
    if "L (Suc level) = P @ Q" "\<forall>n\<in>set P. klt c s k n"
      "nx = None \<or> (\<exists>b. nx = Some b \<and> compare_keys c (nd_Key s b) k > 0)" for P Q nx
    using descend [OF assms(1) pos that(1) assms(2) that(2)] IH [OF low] that(3) by metis
  from Suc(3,4) show ?case
  proof (induction Q arbitrary: P)
    case Nil
    then show ?case
      using next_at [OF assms(1) pos Nil.prems(1)] down [OF Nil.prems, of None]
      by (subst FindGreaterOrEqual_loop.simps) (simp add: Let_def)
  next
    case (Cons q Q)
    note nx = next_at [OF assms(1) pos Cons.prems(1)]
    note kl = klt_next [OF assms(1) pos Cons.prems(1) assms(2)]
    consider "compare_keys c (nd_Key s q) k < 0" | "compare_keys c (nd_Key s q) k = 0"
      | "compare_keys c (nd_Key s q) k > 0" by linarith
    then show ?case
    proof cases
      case 1
      then have "klt c s k q" by (simp add: klt_def entry_less_def)
      moreover have "Some q \<noteq> last_bigger" using big 1 by auto
      ultimately show ?thesis using 1 nx kl Cons.IH [of "P @ [q]"] Cons.prems
        by (subst FindGreaterOrEqual_loop.simps) (simp add: Let_def)
    next
      case 2
      have "q \<in> set (L 0)" using levels_sub [OF assms(1) pos, of 0] Cons.prems(1) by auto
      then have "first_of (dropWhile (klt c s k) (L 0)) = Some q"
        using equal_is_first [OF assms(1) _ assms(2) _ 2] pos by simp
      moreover have "Some q \<noteq> last_bigger" using big 2 by auto
      ultimately show ?thesis using 2 nx kl
        by (subst FindGreaterOrEqual_loop.simps) (simp add: Let_def)
    next
      case 3
      with nx kl down [OF Cons.prems, of "Some q"] show ?thesis
        by (subst FindGreaterOrEqual_loop.simps) (simp add: Let_def)
    qed
  qed
qed

lemma levels_pos: "levels_ok c entry s L \<Longrightarrow> max_height s - 1 < kMaxHeight s"
  by (auto simp: levels_ok_def)

theorem FindGreaterOrEqual_first:
  assumes "levels_ok c entry s L" "entry k"
  shows "FindGreaterOrEqual c s k = Some (first_of (dropWhile (klt c s k) (L 0)))"
  using FindGreaterOrEqual_loop_first [OF assms levels_pos [OF assms(1)], of "[]"]
  by (simp add: FindGreaterOrEqual_def)

lemma FindLessThan_loop_last:
  assumes "levels_ok c entry s L" "entry k"
  shows "level < kMaxHeight s \<Longrightarrow> L level = P @ Q \<Longrightarrow> \<forall>n\<in>set P. klt c s k n \<Longrightarrow>
    lna = None \<or> (\<exists>b. lna = Some b \<and> \<not> klt c s k b) \<Longrightarrow> bottom \<le> level \<Longrightarrow>
    \<exists>prev'. FindLessThan_loop c s (decode_key c k) bottom prev (last (head_node s # P)) level lna =
      Some (last (head_node s # takeWhile (klt c s k) (L bottom)), prev')"
proof (induction level arbitrary: P Q lna prev)
  case 0
  from 0(2,3) show ?case
  proof (induction Q arbitrary: P)
    case Nil
    then have "takeWhile (klt c s k) (L 0) = P" by simp
    then show ?case
      using next_at [OF assms(1) 0(1) Nil.prems(1)] 0(5)
      by (subst FindLessThan_loop.simps) (simp add: Let_def KeyIsAfterNode_def)
  next
    case (Cons q Q)
    note nx = next_at [OF assms(1) 0(1) Cons.prems(1)]
    note kl = klt_next [OF assms(1) 0(1) Cons.prems(1) assms(2)]
    show ?case
    proof (cases "klt c s k q")
      case True
      then have "Some q \<noteq> lna" using 0(4) by auto
      with True nx kl Cons.IH [of "P @ [q]"] Cons.prems show ?thesis
        by (subst FindLessThan_loop.simps) (simp add: Let_def)
    next
      case False
      with split_unique_klt(1) [OF Cons.prems(1,2)] have "takeWhile (klt c s k) (L 0) = P" by simp
      with False nx kl 0(5) show ?thesis
        by (subst FindLessThan_loop.simps) (simp add: Let_def)
    qed
  qed
next
  case (Suc level)
  note pos = Suc(2)
  have low: "level < kMaxHeight s" using pos by simp
  have down: "\<exists>prev'. FindLessThan_loop c s (decode_key c k) bottom pv (last (head_node s # P)) level nx =
      Some (last (head_node s # takeWhile (klt c s k) (L bottom)), prev')"
    if "L (Suc level) = P @ Q" "\<forall>n\<in>set P. klt c s k n" "bottom \<le> level"
      "nx = None \<or> (\<exists>b. nx = Some b \<and> \<not> klt c s k b)" for P Q nx pv
    using descend [OF assms(1) pos that(1) assms(2) that(2)] Suc.IH [OF low] that(3,4) by metis
  from Suc(3,4) show ?case
  proof (induction Q arbitrary: P)
    case Nil
    then have "takeWhile (klt c s k) (L (Suc level)) = P" by simp
    then show ?case
      using next_at [OF assms(1) pos Nil.prems(1)] down [OF Nil.prems, of None] Suc(6)
      by (subst FindLessThan_loop.simps) (auto simp: Let_def KeyIsAfterNode_def le_Suc_eq)
  next
    case (Cons q Q)
    note nx = next_at [OF assms(1) pos Cons.prems(1)]
    note kl = klt_next [OF assms(1) pos Cons.prems(1) assms(2)]
    show ?case
    proof (cases "klt c s k q")
      case True
      then have "Some q \<noteq> lna" using Suc(5) by auto
      with True nx kl Cons.IH [of "P @ [q]"] Cons.prems show ?thesis
        by (subst FindLessThan_loop.simps) (simp add: Let_def)
    next
      case False
      with split_unique_klt(1) [OF Cons.prems(1,2)]
      have "takeWhile (klt c s k) (L (Suc level)) = P" by simp
      with False nx kl down [OF Cons.prems, of "Some q"] Suc(6) show ?thesis
        by (subst FindLessThan_loop.simps) (auto simp: Let_def le_Suc_eq)
    qed
  qed
qed

theorem FindLessThan_last:
  assumes "levels_ok c entry s L" "entry k"
  shows "\<exists>prev'. FindLessThan c s k prev = Some (last (head_node s # takeWhile (klt c s k) (L 0)), prev')"
  using FindLessThan_loop_last [OF assms levels_pos [OF assms(1)], of "[]" _ None 0 prev]
  by (simp add: FindLessThan_def FindLessThan_from_def Let_def)

lemma FindLast_loop_last:
  assumes "levels_ok c entry s L"
  shows "level < kMaxHeight s \<Longrightarrow> L level = P @ Q \<Longrightarrow>
    FindLast_loop s (last (head_node s # P)) level = Some (last (head_node s # L 0))"
proof (induction level arbitrary: P Q)
  case 0
  from 0(2) show ?case
  proof (induction Q arbitrary: P)
    case Nil
    then show ?case
      using next_at [OF assms 0(1) Nil] by (subst FindLast_loop.simps) simp
  next
    case (Cons q Q)
    then show ?case
      using next_at [OF assms 0(1) Cons.prems] Cons.IH [of "P @ [q]"]
      by (subst FindLast_loop.simps) simp
  qed
next
  case (Suc level)
  from Suc(3) show ?case
  proof (induction Q arbitrary: P)
    case Nil
    have "\<exists>P' Q'. L level = P' @ Q' \<and> last (head_node s # P') = last (head_node s # P)"
    proof -
      have "last (head_node s # P) = head_node s \<or> last (head_node s # P) \<in> set (L level)"
        using levels_sub [OF assms Suc(2), of level] last_at [OF Nil, of "head_node s"] by auto
      then show ?thesis by (metis split_at_node)
    qed
    then obtain P' Q' where "L level = P' @ Q'" "last (head_node s # P') = last (head_node s # P)"
      by blast
    then have "FindLast_loop s (last (head_node s # P)) level = Some (last (head_node s # L 0))"
      using Suc.IH [of P' Q'] Suc(2) by simp
    then show ?case
      using next_at [OF assms Suc(2) Nil] by (subst FindLast_loop.simps) simp
  next
    case (Cons q Q)
    then show ?case
      using next_at [OF assms Suc(2) Cons.prems] Cons.IH [of "P @ [q]"]
      by (subst FindLast_loop.simps) simp
  qed
qed

theorem FindLast_last:
  assumes "levels_ok c entry s L"
  shows "FindLast s = Some (last (head_node s # L 0))"
  using FindLast_loop_last [OF assms levels_pos [OF assms], of "[]"] by (simp add: FindLast_def)

lemma EstimateCount_loop_returns:
  assumes "levels_ok c entry s L" "entry k"
  shows "level < kMaxHeight s \<Longrightarrow> L level = P @ Q \<Longrightarrow> \<forall>n\<in>set P. klt c s k n \<Longrightarrow>
    \<exists>n. EstimateCount_loop c s (decode_key c k) count (last (head_node s # P)) level = Some n"
proof (induction level arbitrary: P Q count)
  case 0
  from 0(2,3) show ?case
  proof (induction Q arbitrary: P count)
    case Nil
    then show ?case
      using next_at [OF assms(1) 0(1) Nil.prems(1)]
      by (subst EstimateCount_loop.simps) (simp add: Let_def)
  next
    case (Cons q Q)
    note nx = next_at [OF assms(1) 0(1) Cons.prems(1)]
    note kl = klt_next [OF assms(1) 0(1) Cons.prems(1) assms(2)]
    with nx kl Cons.IH [of "P @ [q]"] Cons.prems show ?case
      by (cases "klt c s k q"; subst EstimateCount_loop.simps)
        (simp_all add: Let_def klt_def entry_less_def)
  qed
next
  case (Suc level)
  note pos = Suc(2)
  have down: "\<exists>n. EstimateCount_loop c s (decode_key c k) cnt (last (head_node s # P)) level = Some n"
    if "L (Suc level) = P @ Q" "\<forall>n\<in>set P. klt c s k n" for P Q cnt
    using descend [OF assms(1) pos that(1) assms(2) that(2)] Suc.IH pos by (metis Suc_lessD)
  from Suc(3,4) show ?case
  proof (induction Q arbitrary: P count)
    case Nil
    then show ?case
      using next_at [OF assms(1) pos Nil.prems(1)] down [OF Nil.prems]
      by (subst EstimateCount_loop.simps) (simp add: Let_def)
  next
    case (Cons q Q)
    note nx = next_at [OF assms(1) pos Cons.prems(1)]
    note kl = klt_next [OF assms(1) pos Cons.prems(1) assms(2)]
    with nx kl Cons.IH [of "P @ [q]"] Cons.prems down [OF Cons.prems] show ?case
      by (cases "klt c s k q"; subst EstimateCount_loop.simps)
        (simp_all add: Let_def klt_def entry_less_def)
  qed
qed

theorem EstimateCount_returns:
  assumes "levels_ok c entry s L" "entry k"
  shows "\<exists>n. EstimateCount c s k = Some n"
  using EstimateCount_loop_returns [OF assms levels_pos [OF assms(1)], of "[]"]
  by (simp add: EstimateCount_def)

end

end
