(* ===== verification/SkipListInsert.thy ===== *)
theory SkipListInsert
  imports SkipListInv
begin

text \<open>
  Insertion into the skip list: the contract of a splice, the search for the neighbours of a
  key at every level, and the linking of a new node. The main lemmas show that \<open>sl_Insert\<close>
  without concurrency always returns, with any splice that satisfies \<open>splice_ok\<close>, adds the
  key at its place unless an equal one is there, and leaves every splice usable.
\<close>

section \<open>Splices\<close>

definition before_key :: "KeyComparator \<Rightarrow> InlineSkipList \<Rightarrow> bytes \<Rightarrow> nat \<Rightarrow> bool" where
  "before_key c s k p \<longleftrightarrow> p = head_node s \<or> klt c s k p"

definition upto_key :: "KeyComparator \<Rightarrow> InlineSkipList \<Rightarrow> bytes \<Rightarrow> nat option \<Rightarrow> bool" where
  "upto_key c s k q \<longleftrightarrow> (\<forall>n. q = Some n \<longrightarrow> \<not> klt c s k n)"

definition on_level :: "InlineSkipList \<Rightarrow> nat list \<Rightarrow> nat \<times> nat option \<Rightarrow> bool" where
  "on_level s ns pq \<longleftrightarrow>
     (fst pq = head_node s \<or> fst pq \<in> set ns) \<and> (\<forall>n. snd pq = Some n \<longrightarrow> n \<in> set ns)"

definition brackets :: "KeyComparator \<Rightarrow> InlineSkipList \<Rightarrow> bytes \<Rightarrow> nat \<times> nat option \<Rightarrow> bool" where
  "brackets c s k pq \<longleftrightarrow> before_key c s k (fst pq) \<and> upto_key c s k (snd pq)"

abbreviation sp_at :: "Splice \<Rightarrow> nat \<Rightarrow> nat \<times> nat option" where
  "sp_at sp i \<equiv> (sp_prev sp ! i, sp_next sp ! i)"

text \<open>The pair of a level lies within the pair of the level above: what brackets a key below
  brackets it above.\<close>

definition within :: "KeyComparator \<Rightarrow> (bytes \<Rightarrow> bool) \<Rightarrow> InlineSkipList \<Rightarrow>
    nat \<times> nat option \<Rightarrow> nat \<times> nat option \<Rightarrow> bool" where
  "within c entry s lo hi \<longleftrightarrow>
     (\<forall>k. entry k \<longrightarrow> (before_key c s k (fst lo) \<longrightarrow> before_key c s k (fst hi)) \<and>
        (upto_key c s k (snd lo) \<longrightarrow> upto_key c s k (snd hi)))"

definition room :: "InlineSkipList \<Rightarrow> Splice \<Rightarrow> bool" where
  "room s sp \<longleftrightarrow> kMaxHeight s < length (sp_prev sp) \<and> kMaxHeight s < length (sp_next sp)"

definition splice_ok ::
  "KeyComparator \<Rightarrow> (bytes \<Rightarrow> bool) \<Rightarrow> InlineSkipList \<Rightarrow> (nat \<Rightarrow> nat list) \<Rightarrow> Splice \<Rightarrow> bool" where
  "splice_ok c entry s L sp \<longleftrightarrow>
     room s sp \<and> sp_height sp \<le> max_height s \<and>
     (0 < sp_height sp \<longrightarrow> sp_at sp (sp_height sp) = (head_node s, None)) \<and>
     (\<forall>i < sp_height sp. on_level s (L i) (sp_at sp i) \<and>
        within c entry s (sp_at sp i) (sp_at sp (Suc i)))"

lemma brackets_top [simp]: "brackets c s k (head_node s, None)"
  by (simp add: brackets_def before_key_def upto_key_def)

lemma within_brackets:
  "within c entry s lo hi \<Longrightarrow> entry k \<Longrightarrow> brackets c s k lo \<Longrightarrow> brackets c s k hi"
  by (auto simp: within_def brackets_def)

lemma brackets_above:
  assumes "splice_ok c entry s L sp" "entry k" "brackets c s k (sp_at sp r)" "r \<le> j"
    "j \<le> sp_height sp"
  shows "brackets c s k (sp_at sp j)"
  using assms(4,5)
proof (induction rule: dec_induct)
  case base
  then show ?case using assms(3) by simp
next
  case (step n)
  then have "within c entry s (sp_at sp n) (sp_at sp (Suc n))"
    using assms(1) by (simp add: splice_ok_def)
  then show ?case by (rule within_brackets) (use assms(2) step in simp_all)
qed

lemma skip_bound:
  assumes "r < m" "m < length xs" "xs ! m \<noteq> bad"
  shows "r + 1 + length (takeWhile (\<lambda>p. p = bad) (drop (r + 1) xs)) \<le> m"
proof (rule ccontr)
  assume "\<not> ?thesis"
  then have lt: "m - (r + 1) < length (takeWhile (\<lambda>p. p = bad) (drop (r + 1) xs))"
    using assms(1) by linarith
  then have "takeWhile (\<lambda>p. p = bad) (drop (r + 1) xs) ! (m - (r + 1)) = bad"
    by (meson nth_mem set_takeWhileD)
  moreover have "takeWhile (\<lambda>p. p = bad) (drop (r + 1) xs) ! (m - (r + 1)) = xs ! m"
    using takeWhile_nth [OF lt] assms(1,2) by simp
  ultimately show False using assms(3) by simp
qed

context entry_order
begin

lemma KeyIsAfterNode_on:
  assumes "levels_ok c entry s L" "i < kMaxHeight s" "entry k" "\<forall>n. q = Some n \<longrightarrow> n \<in> set (L i)"
  shows "KeyIsAfterNode c s (decode_key c k) q \<longleftrightarrow> \<not> upto_key c s k q"
proof (cases q)
  case (Some n)
  then have "entry (nd_Key s n)"
    using levels_okD(2) [OF assms(1,2)] assms(4) by (auto simp: node_ok_def)
  with Some assms(3) show ?thesis by (simp add: KeyIsAfterNode_klt upto_key_def)
qed (simp add: KeyIsAfterNode_def upto_key_def)

lemma bracket_loop_spec:
  assumes "levels_ok c entry s L" "entry k" "splice_ok c entry s L sp" "sp_height sp = m" "0 < m"
    "m = max_height s"
  shows "r \<le> m \<Longrightarrow> bracket_loop c s (decode_key c k) sp pf m r \<le> m \<and>
    brackets c s k (sp_at sp (bracket_loop c s (decode_key c k) sp pf m r))"
proof (induction "m - r" arbitrary: r rule: less_induct)
  case less
  have top: "sp_at sp m = (head_node s, None)" and len: "m < length (sp_prev sp)" "m < length (sp_next sp)"
    and m: "m \<le> kMaxHeight s"
    using assms by (auto simp: splice_ok_def room_def levels_ok_def)
  show ?case
  proof (cases "r < m")
    case False
    with less.prems have "r = m" by simp
    then show ?thesis using top by (subst (1 2 3) bracket_loop.simps) simp
  next
    case True
    have on: "on_level s (L r) (sp_at sp r)" using assms(3,4) True by (simp add: splice_ok_def)
    have i: "r < kMaxHeight s" using True m by simp
    have prev: "KeyIsAfterNode c s (decode_key c k) (Some (sp_prev sp ! r)) \<longleftrightarrow> klt c s k (sp_prev sp ! r)"
      if "sp_prev sp ! r \<noteq> head_node s"
      using KeyIsAfterNode_on [OF assms(1) i assms(2), of "Some (sp_prev sp ! r)"] on that
      by (simp add: on_level_def upto_key_def)
    have nx: "KeyIsAfterNode c s (decode_key c k) (sp_next sp ! r) \<longleftrightarrow> \<not> upto_key c s k (sp_next sp ! r)"
      using KeyIsAfterNode_on [OF assms(1) i assms(2)] on by (simp add: on_level_def)
    have skip_prev: "r + 1 + length (takeWhile (\<lambda>p. p = sp_prev sp ! r) (drop (r + 1) (sp_prev sp))) \<le> m"
      if "sp_prev sp ! r \<noteq> head_node s"
      by (rule skip_bound [OF True len(1)]) (use top that in auto)
    have skip_next: "r + 1 + length (takeWhile (\<lambda>p. p = sp_next sp ! r) (drop (r + 1) (sp_next sp))) \<le> m"
      if "sp_next sp ! r \<noteq> None"
      by (rule skip_bound [OF True len(2)]) (use top that in auto)
    have none: "sp_next sp ! r \<noteq> None" if "\<not> upto_key c s k (sp_next sp ! r)"
      using that by (auto simp: upto_key_def)
    have IH: "bracket_loop c s (decode_key c k) sp pf m r' \<le> m \<and>
        brackets c s k (sp_at sp (bracket_loop c s (decode_key c k) sp pf m r'))"
      if "r < r'" "r' \<le> m" for r'
      using less.hyps [of r'] that True by simp
    let ?B = "bracket_loop c s (decode_key c k) sp pf m"
    let ?low = "sp_prev sp ! r \<noteq> head_node s \<and> \<not> klt c s k (sp_prev sp ! r)"
    let ?high = "\<not> upto_key c s k (sp_next sp ! r)"
    consider (loose) "nd_Next s (sp_prev sp ! r) r \<noteq> sp_next sp ! r"
      | (low) "nd_Next s (sp_prev sp ! r) r = sp_next sp ! r" ?low
      | (high) "nd_Next s (sp_prev sp ! r) r = sp_next sp ! r" "\<not> ?low" ?high
      | (here) "nd_Next s (sp_prev sp ! r) r = sp_next sp ! r" "\<not> ?low" "\<not> ?high"
      by blast
    then show ?thesis
    proof cases
      case loose
      then have "?B r = ?B (r + 1)" using True by (subst bracket_loop.simps) simp
      then show ?thesis using IH [of "r + 1"] True by simp
    next
      case low
      then have "?B r = (if pf then ?B (r + 1 + length (takeWhile (\<lambda>p. p = sp_prev sp ! r)
          (drop (r + 1) (sp_prev sp)))) else m)"
        using True prev by (subst bracket_loop.simps) (simp add: Let_def)
      then show ?thesis using IH [OF _ skip_prev] low top by (cases pf) simp_all
    next
      case high
      then have "?B r = (if pf then ?B (r + 1 + length (takeWhile (\<lambda>p. p = sp_next sp ! r)
          (drop (r + 1) (sp_next sp)))) else m)"
        using True prev nx by (subst bracket_loop.simps) (auto simp: Let_def)
      then show ?thesis using IH [OF _ skip_next] none high top by (cases pf) simp_all
    next
      case here
      then have "?B r = r" using True prev nx by (subst bracket_loop.simps) auto
      then show ?thesis using here True by (simp add: brackets_def before_key_def)
    qed
  qed
qed

section \<open>The neighbours of a key\<close>

lemma gap_on_level: "on_level s ns (gap c s ns k)"
  using last_in_set [of "takeWhile (klt c s k) ns"] hd_in_set [of "dropWhile (klt c s k) ns"]
    set_takeWhileD [of _ "klt c s k" ns] set_dropWhileD [of _ "klt c s k" ns]
  by (auto simp: on_level_def gap_def first_of_Some)

lemma gap_brackets: "brackets c s k (gap c s ns k)"
proof -
  have "\<forall>n\<in>set (takeWhile (klt c s k) ns). klt c s k n" by (auto dest: set_takeWhileD)
  then have "before_key c s k (fst (gap c s ns k))"
    using last_in_set [of "takeWhile (klt c s k) ns"] by (auto simp: before_key_def gap_def)
  moreover have "upto_key c s k (snd (gap c s ns k))"
    by (induction ns) (auto simp: upto_key_def gap_def)
  ultimately show ?thesis by (simp add: brackets_def)
qed

lemma last_not_head:
  assumes "levels_ok c entry s L" "i < kMaxHeight s" "L i = P @ Q" "P \<noteq> []"
  shows "last P \<noteq> head_node s"
  using level_distinct [OF assms(1,2)] last_in_set [OF assms(4)] assms(3) by (metis Un_iff distinct.simps(2) set_append)

lemma gap_within_before:
  assumes "levels_ok c entry s L" "i < kMaxHeight s" "entry k" "p \<in> set (L i)" "klt c s k p" "entry k'"
    and "before_key c s k' (fst (gap c s (L i) k))"
  shows "klt c s k' p"
proof -
  let ?T = "takeWhile (klt c s k) (L i)" and ?D = "dropWhile (klt c s k) (L i)"
  have split: "L i = ?T @ ?D" by simp
  have "p \<notin> set ?D"
    using after_all [OF assms(1,2) split assms(3), of p] hd_dropWhile [of "klt c s k" "L i"] assms(5)
    by blast
  then have p: "p \<in> set ?T" using assms(4) split by (metis Un_iff set_append)
  then have ne: "?T \<noteq> []" by auto
  then have "last ?T \<in> set (L i)" using last_in_set set_takeWhileD by metis
  then have "last ?T \<noteq> head_node s" using level_distinct [OF assms(1,2)] by auto
  then have "klt c s k' (last ?T)" using assms(7) ne by (auto simp: before_key_def gap_def)
  then show ?thesis using before_all [OF assms(1,2) split assms(6)] p by blast
qed

lemma gap_within_upto:
  assumes "levels_ok c entry s L" "i < kMaxHeight s" "entry k" "q \<in> set (L i)" "\<not> klt c s k q" "entry k'"
    and "upto_key c s k' (snd (gap c s (L i) k))"
  shows "\<not> klt c s k' q"
proof -
  let ?T = "takeWhile (klt c s k) (L i)" and ?D = "dropWhile (klt c s k) (L i)"
  have split: "L i = ?T @ ?D" by simp
  have q: "q \<in> set ?D" using assms(4,5) split by (metis Un_iff set_append set_takeWhileD)
  then obtain d D where D: "?D = d # D" by (cases ?D) auto
  then have "\<not> klt c s k' d" using assms(7) by (simp add: upto_key_def gap_def)
  then show ?thesis using after_all [OF assms(1,2) split assms(6), of q] q D by simp
qed

lemma gap_within:
  assumes "levels_ok c entry s L" "i < kMaxHeight s" "entry k" "on_level s (L i) hi" "brackets c s k hi"
  shows "within c entry s (gap c s (L i) k) hi"
  unfolding within_def
proof (intro allI impI conjI)
  fix k' assume k': "entry k'"
  show "before_key c s k' (fst hi)" if "before_key c s k' (fst (gap c s (L i) k))"
    using gap_within_before [OF assms(1-3) _ _ k' that] assms(4,5)
    by (auto simp: on_level_def brackets_def before_key_def)
  show "upto_key c s k' (snd hi)" if "upto_key c s k' (snd (gap c s (L i) k))"
    using gap_within_upto [OF assms(1-3) _ _ k' that] assms(4,5)
    by (auto simp: on_level_def brackets_def upto_key_def)
qed

lemma FindSpliceForLevel_from:
  assumes "levels_ok c entry s L" "i < kMaxHeight s" "entry k" "on_level s (L i) (p, q')"
    and "before_key c s k p" "upto_key c s k q"
  shows "FindSpliceForLevel c s (decode_key c k) p q i = Some (gap c s (L i) k)"
proof -
  have "p = head_node s \<or> p \<in> set (L i)" using assms(4) by (simp add: on_level_def)
  then obtain P Q where split: "L i = P @ Q" "last (head_node s # P) = p"
    by (rule split_at_node)
  have "P \<noteq> [] \<longrightarrow> klt c s k (last P)"
    using split assms(5) last_not_head [OF assms(1,2) split(1)] by (auto simp: before_key_def)
  then have all: "\<forall>n\<in>set P. klt c s k n" by (rule before_all [OF assms(1,2) split(1) assms(3)])
  have "q = None \<or> (\<exists>a. q = Some a \<and> \<not> klt c s k a)"
    using assms(6) by (cases q) (auto simp: upto_key_def)
  from FindSpliceForLevel_gap [OF assms(1-3) split(1) all this] split(2) show ?thesis by simp
qed

lemma sp_at_set_level:
  assumes "i < length (sp_prev sp)" "i < length (sp_next sp)"
  shows "sp_at (set_level i pq sp) j = (if j = i then pq else sp_at sp j)"
  using assms by (auto simp: set_level_def)

lemma set_level_sel [simp]:
  "sp_height (set_level i pq sp) = sp_height sp"
  "length (sp_prev (set_level i pq sp)) = length (sp_prev sp)"
  "length (sp_next (set_level i pq sp)) = length (sp_next sp)"
  "room s (set_level i pq sp) = room s sp"
  by (simp_all add: set_level_def room_def)

lemma on_level_below:
  assumes "levels_ok c entry s L" "Suc i < kMaxHeight s" "on_level s (L (Suc i)) pq"
  shows "on_level s (L i) pq"
  using levels_sub [OF assms(1,2), of i] assms(3) by (auto simp: on_level_def)

lemma RecomputeSpliceLevels_gap:
  assumes "levels_ok c entry s L" "entry k"
  shows "r \<le> kMaxHeight s \<Longrightarrow> room s sp \<Longrightarrow> (0 < r \<longrightarrow> on_level s (L (r - 1)) (sp_at sp r)) \<Longrightarrow>
    brackets c s k (sp_at sp r) \<Longrightarrow>
    \<exists>sp'. RecomputeSpliceLevels c s (decode_key c k) r sp = Some sp' \<and> sp_height sp' = sp_height sp \<and>
      room s sp' \<and> (\<forall>j. sp_at sp' j = (if j < r then gap c s (L j) k else sp_at sp j))"
proof (induction r arbitrary: sp)
  case (Suc i)
  have i: "i < kMaxHeight s" using Suc.prems by simp
  then have len: "i < length (sp_prev sp)" "i < length (sp_next sp)"
    using Suc.prems(2) by (simp_all add: room_def)
  have find: "FindSpliceForLevel c s (decode_key c k) (sp_prev sp ! (i + 1)) (sp_next sp ! (i + 1)) i =
      Some (gap c s (L i) k)"
    using FindSpliceForLevel_from [OF assms(1) i assms(2)] Suc.prems(3,4)
    by (simp add: brackets_def)
  let ?sp = "set_level i (gap c s (L i) k) sp"
  have at: "sp_at ?sp j = (if j = i then gap c s (L i) k else sp_at sp j)" for j
    by (rule sp_at_set_level [OF len])
  have "0 < i \<longrightarrow> on_level s (L (i - 1)) (sp_at ?sp i)"
    using on_level_below [OF assms(1) _ gap_on_level, of "i - 1"] i by (auto simp: at)
  then obtain sp' where "RecomputeSpliceLevels c s (decode_key c k) i ?sp = Some sp'"
      "sp_height sp' = sp_height ?sp" "room s sp'"
      "\<forall>j. sp_at sp' j = (if j < i then gap c s (L j) k else sp_at ?sp j)"
    using Suc.IH [of ?sp] Suc.prems(2) i gap_brackets by (auto simp: at)
  then show ?case using find at by (intro exI [of _ sp']) (auto simp: less_Suc_eq)
qed simp

definition ready :: "InlineSkipList \<Rightarrow> (nat \<Rightarrow> nat list) \<Rightarrow> bytes \<Rightarrow> nat \<Rightarrow> Splice \<Rightarrow> bool" where
  "ready s L k r sp \<longleftrightarrow>
     splice_ok c entry s L sp \<and> sp_height sp = max_height s \<and> r \<le> max_height s \<and>
     (\<forall>j\<le>max_height s. brackets c s k (sp_at sp j)) \<and>
     (\<forall>j<r. sp_at sp j = gap c s (L j) k)"

lemma top_level [simp]: "on_level s ns (head_node s, None)" "within c entry s lo (head_node s, None)"
  by (simp_all add: on_level_def within_def before_key_def upto_key_def)

lemma recompute_ready:
  assumes "levels_ok c entry s L" "entry k" "room s sp" "sp_height sp = max_height s"
    and "sp_at sp (max_height s) = (head_node s, None)" "r \<le> max_height s"
    and "brackets c s k (sp_at sp r)"
    and "\<forall>i. r \<le> i \<and> i < max_height s \<longrightarrow>
      on_level s (L i) (sp_at sp i) \<and> within c entry s (sp_at sp i) (sp_at sp (Suc i))"
  shows "\<exists>sp'. RecomputeSpliceLevels c s (decode_key c k) r sp = Some sp' \<and> ready s L k r sp'"
proof -
  let ?m = "max_height s"
  have m: "?m \<le> kMaxHeight s" using assms(1) by (simp add: levels_ok_def)
  have hi: "on_level s (L i) (sp_at sp r)" if "r = Suc i" for i
    using assms(5,6,8) that m on_level_below [OF assms(1), of i "sp_at sp r"]
    by (cases "r = ?m") simp_all
  obtain sp' where sp': "RecomputeSpliceLevels c s (decode_key c k) r sp = Some sp'"
      "sp_height sp' = ?m" "room s sp'"
      "\<And>j. sp_at sp' j = (if j < r then gap c s (L j) k else sp_at sp j)"
    using RecomputeSpliceLevels_gap [OF assms(1,2) _ assms(3) _ assms(7)] hi assms(4,6) m
    by (cases r) auto
  have level: "on_level s (L i) (sp_at sp' i) \<and> within c entry s (sp_at sp' i) (sp_at sp' (Suc i))"
    if i: "i < ?m" for i
  proof (cases "i < r")
    case False
    then show ?thesis using assms(8) i by (simp add: sp'(4))
  next
    case True
    have "on_level s (L i) (sp_at sp' (Suc i)) \<and> brackets c s k (sp_at sp' (Suc i))"
      using True hi [of i] assms(7) on_level_below [OF assms(1) _ gap_on_level, of i k] i m assms(6) gap_brackets
      by (cases "Suc i = r") (simp_all add: sp'(4))
    then show ?thesis
      using True gap_within [OF assms(1) _ assms(2), of i] gap_on_level i m by (simp add: sp'(4))
  qed
  have ok: "splice_ok c entry s L sp'"
    using sp' level assms(5,6) by (simp add: splice_ok_def)
  have "brackets c s k (sp_at sp' j)" if "j \<le> ?m" for j
    using that assms(7) gap_brackets brackets_above [OF ok assms(2), of r j] sp' 
    by (cases "j < r") simp_all
  with ok sp' assms(6) show ?thesis by (simp add: ready_def)
qed

lemma prepare_splice_ready:
  assumes "levels_ok c entry s L" "entry k" "splice_ok c entry s L sp"
  shows "\<exists>r sp'. prepare_splice c s (decode_key c k) sp pf = Some (r, sp') \<and> ready s L k r sp'"
proof -
  let ?m = "max_height s"
  have m: "?m \<le> kMaxHeight s" "0 < ?m" and rm: "room s sp"
    using assms(1,3) by (simp_all add: levels_ok_def splice_ok_def)
  let ?sp = "sp\<lparr>sp_prev := (sp_prev sp)[?m := head_node s], sp_next := (sp_next sp)[?m := None],
    sp_height := ?m\<rparr>"
  let ?r = "bracket_loop c s (decode_key c k) sp pf ?m 0"
  show ?thesis
  proof (cases "sp_height sp < ?m")
    case True
    have "\<exists>sp'. RecomputeSpliceLevels c s (decode_key c k) ?m ?sp = Some sp' \<and> ready s L k ?m sp'"
      by (rule recompute_ready [OF assms(1,2)]) (use rm m in \<open>auto simp: room_def\<close>)
    then show ?thesis using True m by (auto simp: prepare_splice_def Let_def)
  next
    case False
    then have h: "sp_height sp = ?m" using assms(3) by (simp add: splice_ok_def)
    have r: "?r \<le> ?m" "brackets c s k (sp_at sp ?r)"
      using bracket_loop_spec [OF assms(1-3) h m(2) refl, of 0 pf] by simp_all
    have "\<exists>sp'. RecomputeSpliceLevels c s (decode_key c k) ?r sp = Some sp' \<and> ready s L k ?r sp'"
      by (rule recompute_ready [OF assms(1,2) rm h _ r]) (use assms(3) h m in \<open>simp_all add: splice_ok_def\<close>)
    then show ?thesis using False h by (cases "?r = 0") (auto simp: prepare_splice_def Let_def)
  qed
qed

end

section \<open>Linking a node\<close>

text \<open>Two lists with the same nodes, of which the links may differ.\<close>

definition same_nodes :: "InlineSkipList \<Rightarrow> InlineSkipList \<Rightarrow> bool" where
  "same_nodes s s' \<longleftrightarrow>
     head_node s' = head_node s \<and> kMaxHeight s' = kMaxHeight s \<and> max_height s' = max_height s \<and>
     length (nodes s') = length (nodes s) \<and>
     (\<forall>n<length (nodes s). nd_Key s' n = nd_Key s n \<and>
        length (nd_next (nodes s' ! n)) = length (nd_next (nodes s ! n)))"

lemma nth_update_any: "xs[i := v] ! j = (if i = j \<and> i < length xs then v else xs ! j)"
  by (cases "i < length xs") (simp_all add: nth_list_update not_less list_update_beyond)

lemma nd_SetNext_sel [simp]:
  "head_node (nd_SetNext n i v s) = head_node s" "kMaxHeight (nd_SetNext n i v s) = kMaxHeight s"
  "max_height (nd_SetNext n i v s) = max_height s" "splices (nd_SetNext n i v s) = splices s"
  "seq_splice (nd_SetNext n i v s) = seq_splice s"
  "length (nodes (nd_SetNext n i v s)) = length (nodes s)"
  "nd_Key (nd_SetNext n i v s) m = nd_Key s m"
  "length (nd_next (nodes (nd_SetNext n i v s) ! m)) = length (nd_next (nodes s ! m))"
  by (simp_all add: nd_SetNext_def nd_Key_def nth_update_any)

lemma nd_Next_SetNext:
  assumes "n < length (nodes s)" "i < length (nd_next (nodes s ! n))"
  shows "nd_Next (nd_SetNext n i v s) m j = (if m = n \<and> j = i then v else nd_Next s m j)"
  using assms by (auto simp: nd_SetNext_def nd_Next_def nth_update_any)

lemma same_nodes_refl [simp]: "same_nodes s s"
  by (simp add: same_nodes_def)

lemma same_nodes_trans: "same_nodes s t \<Longrightarrow> same_nodes t u \<Longrightarrow> same_nodes s u"
  by (simp add: same_nodes_def)

lemma same_nodes_SetNext: "same_nodes s (nd_SetNext n i v s)"
  by (simp add: same_nodes_def)

lemma same_nodes_ok: "same_nodes s s' \<Longrightarrow> n < length (nodes s) \<Longrightarrow> node_ok entry s' i n = node_ok entry s i n"
  by (simp add: same_nodes_def node_ok_def)

definition put_node ::
  "KeyComparator \<Rightarrow> InlineSkipList \<Rightarrow> bytes \<Rightarrow> nat \<Rightarrow> nat list \<Rightarrow> nat list" where
  "put_node c s k x ns = takeWhile (klt c s k) ns @ x # dropWhile (klt c s k) ns"

lemma set_put_node [simp]: "set (put_node c s k x ns) = insert x (set ns)"
proof -
  have "set ns = set (takeWhile (klt c s k) ns) \<union> set (dropWhile (klt c s k) ns)"
    by (metis set_append takeWhile_dropWhile_id)
  then show ?thesis by (auto simp: put_node_def)
qed

text \<open>A node that may be inserted.\<close>

definition new_node ::
  "KeyComparator \<Rightarrow> (bytes \<Rightarrow> bool) \<Rightarrow> InlineSkipList \<Rightarrow> (nat \<Rightarrow> nat list) \<Rightarrow> nat \<Rightarrow> bool" where
  "new_node c entry s L x \<longleftrightarrow>
     x < length (nodes s) \<and> x \<noteq> head_node s \<and> x \<notin> set (L 0) \<and> entry (nd_Key s x) \<and>
     length (nd_next (nodes s ! x)) = nd_stash (nodes s ! x) \<and>
     1 \<le> nd_stash (nodes s ! x) \<and> nd_stash (nodes s ! x) \<le> kMaxHeight s"

definition link_node ::
  "KeyComparator \<Rightarrow> nat \<Rightarrow> nat \<times> nat option \<Rightarrow> nat \<Rightarrow> InlineSkipList \<Rightarrow> InlineSkipList" where
  "link_node c x pq i s = nd_SetNext (fst pq) i (Some x) (nd_SetNext x i (snd pq) s)"

context entry_order
begin

lemma level_ok_link_other:
  assumes "level_ok c entry s j ns" "j \<noteq> i" "x < length (nodes s)" "fst pq < length (nodes s)"
    "i < length (nd_next (nodes s ! x))" "i < length (nd_next (nodes s ! fst pq))"
  shows "level_ok c entry (link_node c x pq i s) j ns"
  using assms by (simp add: level_ok_def link_node_def nd_Next_SetNext node_ok_def)

lemma level_ok_link:
  assumes "levels_ok c entry s L" "i < kMaxHeight s" "entry (nd_Key s x)" "x < length (nodes s)"
    "x \<noteq> head_node s" "i < length (nd_next (nodes s ! x))" "x \<notin> set (L i)"
    and "\<forall>n\<in>set (L i). compare_keys c (nd_Key s x) (nd_Key s n) \<noteq> 0"
  shows "level_ok c entry (link_node c x (gap c s (L i) (nd_Key s x)) i s) i
    (put_node c s (nd_Key s x) x (L i))"
proof -
  let ?k = "nd_Key s x" and ?h = "head_node s"
  let ?T = "takeWhile (klt c s ?k) (L i)" and ?D = "dropWhile (klt c s ?k) (L i)"
  let ?p = "last (?h # ?T)" and ?s = "link_node c x (gap c s (L i) ?k) i s"
  have split: "L i = ?T @ ?D" by simp
  note node = levels_okD(2) [OF assms(1,2)]
  have p: "?p = ?h \<or> ?p \<in> set (L i)" by (rule last_at [OF split])
  then have plen: "?p < length (nodes s)" "i < length (nd_next (nodes s ! ?p))"
    using node assms(1,2) by (auto simp: levels_ok_def node_ok_def)
  have chain: "chain (\<lambda>n. nd_Next ?s n i) ?h (?T @ x # ?D)"
  proof -
    have "(\<lambda>n. nd_Next ?s n i) = (\<lambda>n. nd_Next s n i)(x := first_of ?D, ?p := Some x)"
      using plen assms(4,6) by (auto simp: link_node_def nd_Next_SetNext gap_def simp del: last.simps)
    moreover have "distinct (?h # ?T @ ?D)" "x \<notin> set (?h # ?T @ ?D)"
      using level_distinct [OF assms(1,2)] assms(5,7) by simp_all
    ultimately show ?thesis
      using chain_insert [of "\<lambda>n. nd_Next s n i" ?h ?T ?D x] levels_okD(1) [OF assms(1,2)] by simp
  qed
  have e: "entry (nd_Key s n)" if "n \<in> set (L i)" for n using node [OF that] by (simp add: node_ok_def)
  have below: "less (nd_Key s n) ?k" if "n \<in> set ?T" for n
    using set_takeWhileD [OF that] by (simp add: klt_def)
  have above: "less ?k (nd_Key s n)" if n: "n \<in> set ?D" for n
  proof -
    have "\<not> klt c s ?k n"
      using after_all [OF assms(1,2) split assms(3) _ n] hd_dropWhile [of "klt c s ?k" "L i"] by blast
    moreover have "n \<in> set (L i)" using n by (rule set_dropWhileD)
    ultimately show ?thesis
      using less_total [OF assms(3) e] assms(8) by (auto simp: klt_def)
  qed
  have "sorted_wrt (\<lambda>a b. less (nd_Key s a) (nd_Key s b)) (?T @ ?D)"
    using levels_okD(3) [OF assms(1,2)] by simp
  then have "sorted_wrt (\<lambda>a b. less (nd_Key s a) (nd_Key s b)) (?T @ x # ?D)"
    using below above unfolding sorted_wrt_append by simp
  moreover have "\<forall>n\<in>insert x (set (L i)). node_ok entry s i n"
    using node assms(3-6) by (simp add: node_ok_def)
  ultimately show ?thesis
    using chain by (simp add: level_ok_def put_node_def [symmetric] link_node_def node_ok_def)
qed

lemma levels_link:
  assumes "levels_ok c entry s L" "i < kMaxHeight s" "entry (nd_Key s x)" "x < length (nodes s)"
    "x \<noteq> head_node s" "i < length (nd_next (nodes s ! x))" "x \<notin> set (L i)"
    and "\<forall>n\<in>set (L i). compare_keys c (nd_Key s x) (nd_Key s n) \<noteq> 0"
    and "\<And>j. i = Suc j \<Longrightarrow> x \<in> set (L j)"
  shows "levels_ok c entry (link_node c x (gap c s (L i) (nd_Key s x)) i s)
    (L(i := put_node c s (nd_Key s x) x (L i)))"
proof -
  let ?g = "gap c s (L i) (nd_Key s x)"
  have head: "head_node s < length (nodes s)" "kMaxHeight s \<le> length (nd_next (nodes s ! head_node s))"
    using assms(1) by (simp_all add: levels_ok_def)
  have p: "fst ?g = head_node s \<or> fst ?g \<in> set (L i)"
    using gap_on_level by (simp add: on_level_def)
  then have plen: "fst ?g < length (nodes s)" "i < length (nd_next (nodes s ! fst ?g))"
    using levels_okD(2) [OF assms(1,2)] head assms(2) by (auto simp: node_ok_def)
  have "level_ok c entry (link_node c x ?g i s) j ((L(i := put_node c s (nd_Key s x) x (L i))) j)"
    if "j < kMaxHeight s" for j
  proof (cases "j = i")
    case True
    with level_ok_link [OF assms(1-8)] show ?thesis by simp
  next
    case False
    have "level_ok c entry s j (L j)" using assms(1) that by (simp add: levels_ok_def)
    from level_ok_link_other [OF this False assms(4) plen(1) assms(6) plen(2)] False
    show ?thesis by simp
  qed
  moreover have "set ((L(i := put_node c s (nd_Key s x) x (L i))) (Suc j)) \<subseteq>
      set ((L(i := put_node c s (nd_Key s x) x (L i))) j)" if "Suc j < kMaxHeight s" for j
  proof -
    have "set (L (Suc j)) \<subseteq> set (L j)" using assms(1) that by (simp add: levels_ok_def)
    then show ?thesis using assms(9) [of j] by auto
  qed
  moreover have "kMaxHeight s \<le> length (nd_next (nodes (link_node c x ?g i s) ! head_node s))"
    using head by (simp add: link_node_def)
  ultimately show ?thesis
    using assms(1) unfolding levels_ok_def by (simp add: link_node_def)
qed

text \<open>The levels after the lowest \<open>i\<close> of them have the new node.\<close>

definition levels_upto :: "InlineSkipList \<Rightarrow> (nat \<Rightarrow> nat list) \<Rightarrow> nat \<Rightarrow> nat \<Rightarrow> nat \<Rightarrow> nat list" where
  "levels_upto s L x i = (\<lambda>j. if j < i then put_node c s (nd_Key s x) x (L j) else L j)"

lemma levels_upto_0 [simp]: "levels_upto s L x 0 = L"
  by (simp add: levels_upto_def)

lemma levels_upto_Suc:
  "levels_upto s L x (Suc i) =
     (levels_upto s L x i)(i := put_node c s (nd_Key s x) x (levels_upto s L x i i))"
  by (auto simp: levels_upto_def fun_eq_iff less_Suc_eq)

text \<open>The nodes of all levels are nodes of the memory, where two lists with the same nodes agree.\<close>

lemma on_level_node:
  assumes "levels_ok c entry s L" "i < kMaxHeight s" "on_level s (L i) pq"
  shows "fst pq < length (nodes s)" "snd pq = Some n \<Longrightarrow> n < length (nodes s)"
  using levels_okD(2) [OF assms(1,2)] assms(1,3) by (auto simp: levels_ok_def on_level_def node_ok_def)

lemma same_klt: "same_nodes s t \<Longrightarrow> n < length (nodes s) \<Longrightarrow> klt c t k n = klt c s k n"
  by (simp add: same_nodes_def klt_def)

lemma same_gap:
  assumes "same_nodes s t" "\<forall>n\<in>set ns. n < length (nodes s)"
  shows "gap c t ns k = gap c s ns k" "put_node c t k x ns = put_node c s k x ns"
proof -
  have "takeWhile (klt c t k) ns = takeWhile (klt c s k) ns" "dropWhile (klt c t k) ns = dropWhile (klt c s k) ns"
    using assms by (auto intro!: takeWhile_cong dropWhile_cong simp: same_klt)
  then show "gap c t ns k = gap c s ns k" "put_node c t k x ns = put_node c s k x ns"
    using assms(1) by (simp_all add: gap_def put_node_def same_nodes_def)
qed

text \<open>A pair that brackets the key and is linked is the key's gap.\<close>

lemma tight_gap:
  assumes "levels_ok c entry s L" "i < kMaxHeight s" "entry k" "on_level s (L i) pq" "brackets c s k pq"
    and "nd_Next s (fst pq) i = snd pq"
  shows "pq = gap c s (L i) k"
proof -
  have "fst pq = head_node s \<or> fst pq \<in> set (L i)" using assms(4) by (simp add: on_level_def)
  then obtain P Q where split: "L i = P @ Q" "last (head_node s # P) = fst pq"
    by (rule split_at_node)
  have "P \<noteq> [] \<longrightarrow> klt c s k (last P)"
    using split assms(5) last_not_head [OF assms(1,2) split(1)] by (auto simp: brackets_def before_key_def)
  then have all: "\<forall>n\<in>set P. klt c s k n" by (rule before_all [OF assms(1,2) split(1) assms(3)])
  have q: "first_of Q = snd pq" using next_at [OF assms(1,2) split(1)] split(2) assms(6) by simp
  then have "Q = [] \<or> \<not> klt c s k (hd Q)"
    using assms(5) by (cases Q) (auto simp: brackets_def upto_key_def)
  from gap_split [OF split(1) all this] q split(2) show ?thesis by (simp add: prod_eq_iff)
qed

lemma duplicate_iff:
  assumes "levels_ok c entry s L" "entry (nd_Key s x)" "sp_at sp 0 = gap c s (L 0) (nd_Key s x)"
    "0 < kMaxHeight s"
  shows "duplicate_key c s x sp \<longleftrightarrow> (\<exists>n\<in>set (L 0). compare_keys c (nd_Key s x) (nd_Key s n) = 0)"
proof -
  let ?k = "nd_Key s x" and ?pq = "sp_at sp 0"
  have e: "entry (nd_Key s n)" if "n \<in> set (L 0)" for n
    using levels_okD(2) [OF assms(1,4) that] by (simp add: node_ok_def)
  have on: "on_level s (L 0) ?pq" "brackets c s ?k ?pq"
    unfolding assms(3) by (rule gap_on_level gap_brackets)+
  have prev: "compare_keys c (nd_Key s (sp_prev sp ! 0)) ?k < 0" if "sp_prev sp ! 0 \<noteq> head_node s"
    using on that by (auto simp: brackets_def before_key_def klt_def entry_less_def)
  have nx: "compare_keys c (nd_Key s n) ?k \<ge> 0 \<and> n \<in> set (L 0)" if "sp_next sp ! 0 = Some n" for n
    using on that by (auto simp: brackets_def on_level_def upto_key_def klt_def entry_less_def)
  have dup: "duplicate_key c s x sp \<longleftrightarrow>
      (\<exists>n. sp_next sp ! 0 = Some n \<and> compare_keys c ?k (nd_Key s n) \<ge> 0)"
    using prev by (fastforce simp: duplicate_key_def)
  show ?thesis
  proof
    assume "duplicate_key c s x sp"
    then obtain n where n: "sp_next sp ! 0 = Some n" "compare_keys c ?k (nd_Key s n) \<ge> 0"
      using dup by blast
    moreover have "\<not> compare_keys c ?k (nd_Key s n) > 0"
      using nx [OF n(1)] compare_swap [OF e assms(2), of n] by simp
    ultimately show "\<exists>n\<in>set (L 0). compare_keys c ?k (nd_Key s n) = 0" using nx by force
  next
    assume "\<exists>n\<in>set (L 0). compare_keys c ?k (nd_Key s n) = 0"
    then obtain n where n: "n \<in> set (L 0)" "compare_keys c ?k (nd_Key s n) = 0" by blast
    then have "compare_keys c (nd_Key s n) ?k = 0" using compare_zero_swap [OF assms(2) e] by blast
    from equal_is_first [OF assms(1,4,2) n(1) this] have "sp_next sp ! 0 = Some n"
      using assms(3) by (simp add: gap_def)
    with n dup show "duplicate_key c s x sp" by fastforce
  qed
qed

lemma ready_at:
  assumes "ready s L k r sp" "j \<le> max_height s"
  shows "brackets c s k (sp_at sp j)" "j < r \<Longrightarrow> sp_at sp j = gap c s (L j) k"
    "j < max_height s \<Longrightarrow> on_level s (L j) (sp_at sp j)"
    "j < max_height s \<Longrightarrow> within c entry s (sp_at sp j) (sp_at sp (Suc j))"
  using assms by (simp_all add: ready_def splice_ok_def)

lemma ready_set_gap:
  assumes "levels_ok c entry s L" "entry k" "ready s L k r sp" "i \<le> r" "i < max_height s"
  shows "ready s L k (max r (Suc i)) (set_level i (gap c s (L i) k) sp)"
proof -
  let ?g = "gap c s (L i) k" and ?m = "max_height s"
  have m: "?m \<le> kMaxHeight s" using assms(1) by (simp add: levels_ok_def)
  have "i < length (sp_prev sp)" "i < length (sp_next sp)"
    using assms(3,5) m by (simp_all add: ready_def splice_ok_def room_def)
  then have at: "sp_at (set_level i ?g sp) j = (if j = i then ?g else sp_at sp j)" for j
    by (rule sp_at_set_level)
  have top: "sp_at sp ?m = (head_node s, None)"
    using assms(3,5) by (auto simp: ready_def splice_ok_def)
  note facts = ready_at [OF assms(3)]
  have "on_level s (L i) (sp_at sp (Suc i))"
    using top assms(5) m on_level_below [OF assms(1) _ facts(3)] by (cases "Suc i = ?m") simp_all
  then have up: "within c entry s ?g (sp_at sp (Suc i))"
    using gap_within [OF assms(1) _ assms(2)] facts(1) assms(5) m by simp
  have down: "within c entry s (sp_at sp j) ?g" if "Suc j = i" for j
  proof -
    have "on_level s (L j) ?g"
      using on_level_below [OF assms(1) _ gap_on_level, of j] that assms(5) m by auto
    then have "within c entry s (gap c s (L j) k) ?g"
      using gap_within [OF assms(1) _ assms(2) _ gap_brackets] that assms(5) m by simp
    then show ?thesis using facts(2) [of j] that assms(4,5) by simp
  qed
  have "on_level s (L j) (sp_at (set_level i ?g sp) j) \<and>
      within c entry s (sp_at (set_level i ?g sp) j) (sp_at (set_level i ?g sp) (Suc j))"
    if "j < ?m" for j
    using that facts(3,4) up down gap_on_level by (simp add: at)
  then have "splice_ok c entry s L (set_level i ?g sp)"
    using assms(3,5) top at [of ?m] by (simp add: ready_def splice_ok_def)
  then show ?thesis
    using assms(3-5) facts(1) gap_brackets by (auto simp: ready_def at max_def less_Suc_eq split: if_splits)
qed

lemma same_on_level: "same_nodes s t \<Longrightarrow> on_level t ns pq = on_level s ns pq"
  by (simp add: same_nodes_def on_level_def)

lemma same_brackets:
  assumes "levels_ok c entry s L" "i < kMaxHeight s" "on_level s (L i) pq" "same_nodes s t"
  shows "brackets c t k pq = brackets c s k pq"
  using on_level_node [OF assms(1-3)] assms(4)
  by (auto simp: brackets_def before_key_def upto_key_def same_klt same_nodes_def)

text \<open>The first half of a level: its pair becomes the gap of the key.\<close>

definition level_splice ::
  "bytes \<Rightarrow> nat \<Rightarrow> nat \<Rightarrow> InlineSkipList \<Rightarrow> Splice \<Rightarrow> Splice option" where
  "level_splice key_decoded r i s sp =
     (if i \<ge> r \<and> nd_Next s (sp_prev sp ! i) i \<noteq> sp_next sp ! i
      then map_option (\<lambda>pn. set_level i pn sp)
             (FindSpliceForLevel c s key_decoded (sp_prev sp ! i) None i)
      else Some sp)"

lemma link_level_eq:
  "link_level c kd r x i s sp =
     (case level_splice kd r i s sp of
        None \<Rightarrow> None
      | Some sp1 \<Rightarrow>
          if i = 0 \<and> duplicate_key c s x sp1 then Some (False, s, sp1)
          else Some (True, link_node c x (sp_at sp1 i) i s, sp1))"
  by (simp only: link_level_def level_splice_def link_node_def fst_conv snd_conv)

lemma level_splice_gap:
  assumes "levels_ok c entry s0 L" "entry k" "same_nodes s0 s" "levels_ok c entry s M" "M i = L i"
    and "ready s0 L k (max r i) sp" "i < max_height s0"
  shows "\<exists>sp1. level_splice (decode_key c k) r i s sp = Some sp1 \<and> ready s0 L k (max r (Suc i)) sp1"
proof -
  have i: "i < kMaxHeight s0" "i < kMaxHeight s"
    using assms(1,3,7) by (auto simp: levels_ok_def same_nodes_def)
  have on0: "on_level s0 (L i) (sp_at sp i)" and br0: "brackets c s0 k (sp_at sp i)"
    using ready_at [OF assms(6)] assms(7) by simp_all
  have on: "on_level s (M i) (sp_at sp i)" and br: "brackets c s k (sp_at sp i)"
    using on0 br0 same_on_level [OF assms(3)] same_brackets [OF assms(1) i(1) on0 assms(3)] assms(5)
    by simp_all
  have mem: "\<forall>n\<in>set (L i). n < length (nodes s0)"
    using levels_okD(2) [OF assms(1) i(1)] by (auto simp: node_ok_def)
  have gap: "gap c s (M i) k = gap c s0 (L i) k" using same_gap(1) [OF assms(3) mem] assms(5) by simp
  have find: "FindSpliceForLevel c s (decode_key c k) (sp_prev sp ! i) None i = Some (gap c s0 (L i) k)"
    using FindSpliceForLevel_from [OF assms(4) i(2) assms(2) on] br gap
    by (simp add: brackets_def upto_key_def)
  show ?thesis
  proof (cases "i \<ge> r \<and> nd_Next s (sp_prev sp ! i) i \<noteq> sp_next sp ! i")
    case True
    then show ?thesis
      using find ready_set_gap [OF assms(1,2,6) _ assms(7)] by (simp add: level_splice_def max_def)
  next
    case False
    then have "sp_at sp i = gap c s0 (L i) k"
      using ready_at(2) [OF assms(6), of i] assms(7) tight_gap [OF assms(4) i(2) assms(2) on br] gap
      by (cases "i < r") simp_all
    then have "ready s0 L k (max r (Suc i)) sp"
      using assms(6,7) by (auto simp: ready_def less_Suc_eq less_max_iff_disj)
    moreover have "level_splice (decode_key c k) r i s sp = Some sp"
      by (simp only: level_splice_def if_not_P [OF False])
    ultimately show ?thesis by blast
  qed
qed

section \<open>Insertion\<close>

definition link_state ::
  "InlineSkipList \<Rightarrow> (nat \<Rightarrow> nat list) \<Rightarrow> nat \<Rightarrow> nat \<Rightarrow> InlineSkipList \<Rightarrow> bool" where
  "link_state s0 L x i s \<longleftrightarrow>
     same_nodes s0 s \<and> levels_ok c entry s (levels_upto s0 L x i) \<and>
     splices s = splices s0 \<and> seq_splice s = seq_splice s0"

definition has_equal :: "InlineSkipList \<Rightarrow> nat list \<Rightarrow> bytes \<Rightarrow> bool" where
  "has_equal s ns k \<longleftrightarrow> (\<exists>n\<in>set ns. compare_keys c k (nd_Key s n) = 0)"

lemma link_state_Suc:
  assumes "levels_ok c entry s0 L" "new_node c entry s0 L x" "link_state s0 L x i s"
    and "i < nd_stash (nodes s0 ! x)" "\<not> has_equal s0 (L 0) (nd_Key s0 x)"
  shows "link_state s0 L x (Suc i) (link_node c x (gap c s0 (L i) (nd_Key s0 x)) i s)"
proof -
  let ?k = "nd_Key s0 x" and ?M = "levels_upto s0 L x i"
  have x: "x < length (nodes s0)" "x \<noteq> head_node s0" "x \<notin> set (L 0)" "entry ?k"
    "i < length (nd_next (nodes s0 ! x))" "i < kMaxHeight s0"
    using assms(2,4) by (simp_all add: new_node_def)
  have same: "same_nodes s0 s" and ok: "levels_ok c entry s ?M"
    using assms(3) by (simp_all add: link_state_def)
  note mem = levels_okD(2) [OF assms(1)]
  have sub: "set (L i) \<subseteq> set (L 0)" using levels_sub [OF assms(1) x(6)] by simp
  have Mi: "?M i = L i" by (simp add: levels_upto_def)
  have nodes: "\<forall>n\<in>set (L i). n < length (nodes s0)" using mem [OF x(6)] by (auto simp: node_ok_def)
  have key: "nd_Key s x = ?k" using same x(1) by (simp add: same_nodes_def)
  have x': "entry (nd_Key s x)" "x < length (nodes s)" "x \<noteq> head_node s"
    "i < length (nd_next (nodes s ! x))" "x \<notin> set (?M i)" "i < kMaxHeight s"
    using same x sub key Mi by (auto simp: same_nodes_def)
  have noeq: "\<forall>n\<in>set (?M i). compare_keys c (nd_Key s x) (nd_Key s n) \<noteq> 0"
    using assms(5) sub same nodes key Mi by (auto simp: has_equal_def same_nodes_def)
  have below: "x \<in> set (?M j)" if "i = Suc j" for j using that by (simp add: levels_upto_def)
  have "levels_ok c entry (link_node c x (gap c s (?M i) (nd_Key s x)) i s)
      (?M(i := put_node c s (nd_Key s x) x (?M i)))"
    using levels_link [OF ok x'(6,1,2,3,4,5) noeq below] .
  then have "levels_ok c entry (link_node c x (gap c s0 (L i) ?k) i s) (levels_upto s0 L x (Suc i))"
    using same_gap [OF same nodes] key Mi by (simp add: levels_upto_Suc)
  then show ?thesis
    using assms(3) same_nodes_trans [OF _ same_nodes_trans [OF same_nodes_SetNext same_nodes_SetNext]]
    by (simp add: link_state_def link_node_def)
qed

lemma link_level_step:
  assumes "levels_ok c entry s0 L" "new_node c entry s0 L x" "link_state s0 L x i s"
    and "ready s0 L (nd_Key s0 x) (max r i) sp" "i < nd_stash (nodes s0 ! x)"
    and "nd_stash (nodes s0 ! x) \<le> max_height s0" "0 < i \<longrightarrow> \<not> has_equal s0 (L 0) (nd_Key s0 x)"
  shows "\<exists>sp1. ready s0 L (nd_Key s0 x) (max r (Suc i)) sp1 \<and>
    link_level c (decode_key c (nd_Key s0 x)) r x i s sp =
      (if i = 0 \<and> has_equal s0 (L 0) (nd_Key s0 x) then Some (False, s, sp1)
       else Some (True, link_node c x (gap c s0 (L i) (nd_Key s0 x)) i s, sp1))"
proof -
  let ?k = "nd_Key s0 x" and ?M = "levels_upto s0 L x i"
  have x: "x < length (nodes s0)" "entry ?k" "i < kMaxHeight s0" and i: "i < max_height s0"
    using assms(2,5,6) by (simp_all add: new_node_def)
  have same: "same_nodes s0 s" and ok: "levels_ok c entry s ?M"
    using assms(3) by (simp_all add: link_state_def)
  have Mi: "?M i = L i" by (simp add: levels_upto_def)
  obtain sp1 where sp1: "level_splice (decode_key c ?k) r i s sp = Some sp1"
      "ready s0 L ?k (max r (Suc i)) sp1"
    using level_splice_gap [OF assms(1) x(2) same ok Mi assms(4) i] by blast
  have at: "sp_at sp1 i = gap c s0 (L i) ?k" using ready_at(2) [OF sp1(2), of i] i by simp
  have dup: "duplicate_key c s x sp1 \<longleftrightarrow> has_equal s0 (L 0) ?k" if "i = 0"
  proof -
    have nodes: "\<forall>n\<in>set (L 0). n < length (nodes s0)"
      using levels_okD(2) [OF assms(1), of 0] x(3) that by (auto simp: node_ok_def)
    have key: "nd_Key s x = ?k" using same x(1) by (simp add: same_nodes_def)
    have "levels_ok c entry s L" "sp_at sp1 0 = gap c s (L 0) (nd_Key s x)" "0 < kMaxHeight s"
      using ok at that same_gap(1) [OF same nodes] key x(3) same by (simp_all add: same_nodes_def)
    from duplicate_iff [OF this(1) _ this(2,3)] show ?thesis
      using key x(2) nodes same by (simp add: has_equal_def same_nodes_def)
  qed
  show ?thesis
    using sp1 at dup by (intro exI [of _ sp1]) (auto simp: link_level_eq)
qed

lemma link_levels_all:
  assumes "levels_ok c entry s0 L" "new_node c entry s0 L x"
    and "nd_stash (nodes s0 ! x) \<le> max_height s0" "\<not> has_equal s0 (L 0) (nd_Key s0 x)"
    and "h = nd_stash (nodes s0 ! x)"
  shows "i \<le> h \<Longrightarrow> link_state s0 L x i s \<Longrightarrow> ready s0 L (nd_Key s0 x) (max r i) sp \<Longrightarrow>
    \<exists>s' sp'. link_levels c (decode_key c (nd_Key s0 x)) r x [i..<h] s sp = Some (True, s', sp') \<and>
      link_state s0 L x h s' \<and> ready s0 L (nd_Key s0 x) (max r h) sp'"
proof (induction "h - i" arbitrary: i s sp)
  case 0
  then show ?case by simp
next
  case (Suc n)
  then have i: "i < h" by simp
  obtain sp1 where sp1: "ready s0 L (nd_Key s0 x) (max r (Suc i)) sp1"
    "link_level c (decode_key c (nd_Key s0 x)) r x i s sp =
       Some (True, link_node c x (gap c s0 (L i) (nd_Key s0 x)) i s, sp1)"
    using link_level_step [OF assms(1,2) Suc.prems(2,3) _ assms(3)] assms(4,5) i by auto
  have "link_state s0 L x (Suc i) (link_node c x (gap c s0 (L i) (nd_Key s0 x)) i s)"
    using link_state_Suc [OF assms(1,2) Suc.prems(2) _ assms(4)] i assms(5) by simp
  with Suc.hyps(1) [of "Suc i"] Suc.hyps(2) sp1 i show ?case by (simp add: upt_conv_Cons)
qed

lemma raise_height_sel [simp]:
  "head_node (raise_height h s) = head_node s" "kMaxHeight (raise_height h s) = kMaxHeight s"
  "nodes (raise_height h s) = nodes s" "max_height (raise_height h s) = max h (max_height s)"
  "splices (raise_height h s) = splices s" "seq_splice (raise_height h s) = seq_splice s"
  "nd_Key (raise_height h s) n = nd_Key s n" "nd_Next (raise_height h s) n i = nd_Next s n i"
  by (simp_all add: raise_height_def nd_Key_def nd_Next_def)

lemma klt_raise [simp]: "klt c (raise_height h s) = klt c s"
  by (simp add: klt_def fun_eq_iff)

lemma level_ok_raise [simp]: "level_ok c entry (raise_height h s) i ns = level_ok c entry s i ns"
  by (simp add: level_ok_def node_ok_def)

lemma levels_ok_raise:
  "levels_ok c entry s L \<Longrightarrow> h \<le> kMaxHeight s \<Longrightarrow> levels_ok c entry (raise_height h s) L"
  by (simp add: levels_ok_def le_max_iff_disj)

lemma pairs_raise [simp]:
  "on_level (raise_height h s) ns pq = on_level s ns pq"
  "within c entry (raise_height h s) lo hi = within c entry s lo hi"
  "room (raise_height h s) sp = room s sp"
  unfolding on_level_def within_def before_key_def upto_key_def room_def klt_raise raise_height_sel
  by (rule refl)+

lemma splice_ok_raise:
  "splice_ok c entry s L sp \<Longrightarrow> splice_ok c entry (raise_height h s) L sp"
  unfolding splice_ok_def pairs_raise raise_height_sel le_max_iff_disj by blast

text \<open>A splice stays usable when nodes are added and links change.\<close>

lemma splice_ok_mono:
  assumes "splice_ok c entry s L sp" "levels_ok c entry s L"
    and "head_node t = head_node s" "kMaxHeight t = kMaxHeight s" "max_height s \<le> max_height t"
    and "\<And>n. n < length (nodes s) \<Longrightarrow> nd_Key t n = nd_Key s n"
    and "\<And>i. i < kMaxHeight s \<Longrightarrow> set (L i) \<subseteq> set (M i)"
  shows "splice_ok c entry t M sp"
proof -
  let ?h = "sp_height sp"
  have h: "?h \<le> kMaxHeight s" using assms(1,2) by (auto simp: splice_ok_def levels_ok_def)
  have on: "on_level s (L i) (sp_at sp i)" if "i < ?h" for i
    using assms(1) that by (simp add: splice_ok_def)
  have "on_level t (M i) (sp_at sp i)" if "i < ?h" for i
    using on [OF that] assms(3) assms(7) [of i] h that by (auto simp: on_level_def)
  moreover have same: "before_key c t k (sp_prev sp ! i) = before_key c s k (sp_prev sp ! i)"
    "upto_key c t k (sp_next sp ! i) = upto_key c s k (sp_next sp ! i)" if "i < ?h" for i k
    using on_level_node [OF assms(2) _ on [OF that]] h that assms(3,6)
    by (auto simp: before_key_def upto_key_def klt_def)
  have "within c entry t (sp_at sp i) (sp_at sp (Suc i))" if "i < ?h" for i
  proof (cases "Suc i = ?h")
    case True
    then have "sp_at sp (Suc i) = (head_node t, None)"
      using assms(1,3) by (auto simp: splice_ok_def)
    then show ?thesis by simp
  next
    case False
    then have "Suc i < ?h" using that by simp
    moreover have "within c entry s (sp_at sp i) (sp_at sp (Suc i))"
      using assms(1) that by (simp add: splice_ok_def)
    ultimately show ?thesis using same [OF that] same [of "Suc i"] by (simp add: within_def)
  qed
  ultimately show ?thesis using assms(1,3-5) by (auto simp: splice_ok_def room_def)
qed

lemma finish_splice_ok:
  assumes "levels_ok c entry s L" "new_node c entry s L x" "h = nd_stash (nodes s ! x)" "h \<le> max_height s"
    and "ready s L (nd_Key s x) r sp" "h \<le> r"
    and "same_nodes s t" "levels_ok c entry t M" "\<And>i. i < h \<Longrightarrow> set (M i) = insert x (set (L i))"
    and "\<And>i. h \<le> i \<Longrightarrow> M i = L i"
  shows "splice_ok c entry t M (finish_splice x h True sp)"
proof -
  let ?k = "nd_Key s x" and ?m = "max_height s" and ?sp = "finish_splice x h True sp"
  have m: "?m \<le> kMaxHeight s" using assms(1) by (simp add: levels_ok_def)
  have h: "1 \<le> h" and x: "entry ?k" "x < length (nodes s)" "x \<noteq> head_node s"
    using assms(2,3) by (simp_all add: new_node_def)
  note facts = ready_at [OF assms(5)]
  have room: "room s sp" "sp_height sp = ?m" "sp_at sp ?m = (head_node s, None)"
    using assms(4,5) h by (auto simp: ready_def splice_ok_def)
  then have at: "sp_at ?sp i = (if i < h then x else sp_prev sp ! i, sp_next sp ! i)" if "i \<le> ?m" for i
    using that m assms(4) by (auto simp: finish_splice_def room_def nth_append)
  have rest: "sp_height ?sp = ?m" "room t ?sp" "max_height t = ?m" "head_node t = head_node s"
    using room m assms(4,7) by (auto simp: finish_splice_def room_def same_nodes_def)
  have on: "on_level t (M i) (sp_at ?sp i)" if "i < ?m" for i
    using facts(3) [of i] that assms(9) [of i] assms(10) [of i] rest(4)
    by (auto simp: at on_level_def)
  have same: "before_key c t k p = before_key c s k p" if "p < length (nodes s)" for p k
    using that assms(7) by (simp add: before_key_def klt_def same_nodes_def)
  have same': "upto_key c t k q = upto_key c s k q" if "\<forall>n. q = Some n \<longrightarrow> n < length (nodes s)" for q k
    using that assms(7) by (auto simp: upto_key_def klt_def same_nodes_def)
  have node: "sp_prev sp ! i < length (nodes s)" "\<forall>n. sp_next sp ! i = Some n \<longrightarrow> n < length (nodes s)"
    if "i \<le> ?m" for i
  proof -
    have "sp_at sp i = (head_node s, None) \<or> i < kMaxHeight s \<and> on_level s (L i) (sp_at sp i)"
      using facts(3) [of i] that m room(3) by (cases "i = ?m") simp_all
    moreover have "head_node s < length (nodes s)" using assms(1) by (simp add: levels_ok_def)
    ultimately show "sp_prev sp ! i < length (nodes s)" "\<forall>n. sp_next sp ! i = Some n \<longrightarrow> n < length (nodes s)"
      using on_level_node [OF assms(1), of i "sp_at sp i"] by auto
  qed
  have x_before: "before_key c s k (sp_prev sp ! i)" if "before_key c s k x" "i \<le> ?m" "entry k" for i k
  proof (cases "sp_prev sp ! i = head_node s")
    case False
    then have "i \<noteq> ?m" using room(3) by auto
    then have i: "i < ?m" using that(2) by simp
    have "entry (nd_Key s (sp_prev sp ! i))"
      using levels_okD(2) [OF assms(1), of i "sp_prev sp ! i"] facts(3) [of i] False i m
      by (simp add: on_level_def node_ok_def)
    moreover have "less (nd_Key s (sp_prev sp ! i)) ?k"
      using facts(1) [of i] that(2) False by (simp add: brackets_def before_key_def klt_def)
    moreover have "less ?k k" using that(1) x(3) by (simp add: before_key_def klt_def)
    ultimately have "less (nd_Key s (sp_prev sp ! i)) k" using less_trans [OF _ x(1) that(3)] by blast
    then show ?thesis by (simp add: before_key_def klt_def)
  qed (simp add: before_key_def)
  have "within c entry t (sp_at ?sp i) (sp_at ?sp (Suc i))" if i: "i < ?m" for i
  proof -
    have w: "within c entry s (sp_at sp i) (sp_at sp (Suc i))" using facts(4) i by simp
    have b: "before_key c s k (sp_prev ?sp ! Suc i)" if "before_key c s k (sp_prev ?sp ! i)" "entry k" for k
      using that w x_before [of k "Suc i"] at [of i] at [of "Suc i"] i by (auto simp: within_def split: if_splits)
    have n: "sp_prev ?sp ! j < length (nodes s)" if "j \<le> ?m" for j
      using node(1) [OF that] at [OF that] x(2) by (simp split: if_splits)
    have u: "upto_key c s k (sp_next ?sp ! Suc i)" if "upto_key c s k (sp_next ?sp ! i)" "entry k" for k
      using that w at [of i] at [of "Suc i"] i by (auto simp: within_def)
    have nx: "\<forall>n. sp_next ?sp ! j = Some n \<longrightarrow> n < length (nodes s)" if "j \<le> ?m" for j
      using node(2) [OF that] at [OF that] by simp
    show ?thesis
      unfolding within_def fst_conv snd_conv
    proof (intro allI impI conjI)
      fix k assume k: "entry k"
      show "before_key c t k (sp_prev ?sp ! Suc i)" if "before_key c t k (sp_prev ?sp ! i)"
        using b [OF _ k] that same [OF n, of i k] same [OF n, of "Suc i" k] i by simp
      show "upto_key c t k (sp_next ?sp ! Suc i)" if "upto_key c t k (sp_next ?sp ! i)"
        using u [OF _ k] that same' [OF nx, of i k] same' [OF nx, of "Suc i" k] i by simp
    qed
  qed
  moreover have "sp_at ?sp ?m = (head_node t, None)"
    using at [of ?m] room(3) assms(4) rest(4) by simp
  ultimately show ?thesis using on rest by (simp add: splice_ok_def)
qed

text \<open>
  The insertion without concurrency. The three facts are: it answers whether the key was new;
  the memory is again a sorted list, with the key at its place if it was new; the splice it
  used and every other splice stay usable.
\<close>

definition inserted ::
  "InlineSkipList \<Rightarrow> (nat \<Rightarrow> nat list) \<Rightarrow> nat \<Rightarrow> InlineSkipList \<Rightarrow> (nat \<Rightarrow> nat list) \<Rightarrow> bool" where
  "inserted s L x t M \<longleftrightarrow>
     levels_ok c entry t M \<and> head_node t = head_node s \<and> kMaxHeight t = kMaxHeight s \<and>
     max_height s \<le> max_height t \<and> length (nodes t) = length (nodes s) \<and>
     (\<forall>n<length (nodes s). nd_Key t n = nd_Key s n) \<and>
     splices t = splices s \<and> seq_splice t = seq_splice s \<and>
     (\<forall>i<kMaxHeight s. set (L i) \<subseteq> set (M i)) \<and>
     M 0 = (if has_equal s (L 0) (nd_Key s x) then L 0 else put_node c s (nd_Key s x) x (L 0))"

lemma link_levels_duplicate:
  assumes "levels_ok c entry s0 L" "new_node c entry s0 L x" "ready s0 L (nd_Key s0 x) r sp"
    and "nd_stash (nodes s0 ! x) \<le> max_height s0" "has_equal s0 (L 0) (nd_Key s0 x)"
    and "h = nd_stash (nodes s0 ! x)"
  shows "\<exists>sp'. link_levels c (decode_key c (nd_Key s0 x)) r x [0..<h] s0 sp = Some (False, s0, sp') \<and>
      splice_ok c entry s0 L sp'"
proof -
  have h: "0 < h" using assms(2,6) by (simp add: new_node_def)
  have "link_state s0 L x 0 s0" using assms(1) by (simp add: link_state_def)
  then obtain sp1 where "ready s0 L (nd_Key s0 x) (max r (Suc 0)) sp1"
      "link_level c (decode_key c (nd_Key s0 x)) r x 0 s0 sp = Some (False, s0, sp1)"
    using link_level_step [OF assms(1,2), of 0 s0 r sp] assms(3-6) h by auto
  then show ?thesis using h by (auto simp: upt_conv_Cons ready_def)
qed

lemma sl_Insert_spec:
  assumes "levels_ok c entry s L" "new_node c entry s L x" "splice_ok c entry s L sp"
  shows "\<exists>t M sp'. sl_Insert False c s x sp pf =
      Some (\<not> has_equal s (L 0) (nd_Key s x), t, sp') \<and> inserted s L x t M \<and> splice_ok c entry t M sp'"
proof -
  let ?h = "nd_stash (nodes s ! x)" and ?k = "nd_Key s x"
  let ?s = "raise_height ?h s"
  have h: "?h \<le> kMaxHeight s" "entry ?k" using assms(2) by (simp_all add: new_node_def)
  have ok: "levels_ok c entry ?s L" by (rule levels_ok_raise [OF assms(1) h(1)])
  have new: "new_node c entry ?s L x" using assms(2) by (simp add: new_node_def)
  have sp: "splice_ok c entry ?s L sp" by (rule splice_ok_raise [OF assms(3)])
  obtain r sp1 where prep: "prepare_splice c ?s (decode_key c ?k) sp pf = Some (r, sp1)"
      "ready ?s L ?k r sp1"
    using prepare_splice_ready [OF ok h(2) sp] by blast
  have eq: "has_equal ?s (L 0) ?k = has_equal s (L 0) ?k" by (simp add: has_equal_def)
  show ?thesis
  proof (cases "has_equal s (L 0) ?k")
    case True
    then obtain sp2 where "link_levels c (decode_key c ?k) r x [0..<?h] ?s sp1 = Some (False, ?s, sp2)"
        "splice_ok c entry ?s L sp2"
      using link_levels_duplicate [OF ok new, of r sp1 ?h] prep(2) eq by auto
    moreover have "inserted s L x ?s L" using ok True by (simp add: inserted_def)
    ultimately show ?thesis using prep(1) True by (auto simp: sl_Insert_def Let_def)
  next
    case False
    have "link_state ?s L x 0 ?s" using ok by (simp add: link_state_def)
    then obtain t sp2 where link: "link_levels c (decode_key c ?k) r x [0..<?h] ?s sp1 = Some (True, t, sp2)"
        "link_state ?s L x ?h t" "ready ?s L ?k (max r ?h) sp2"
      using link_levels_all [OF ok new, of ?h 0 ?s r sp1] prep(2) False eq by auto
    let ?M = "levels_upto ?s L x ?h"
    have M: "set (?M i) = (if i < ?h then insert x (set (L i)) else set (L i))" for i
      by (simp add: levels_upto_def)
    have "splice_ok c entry t ?M (finish_splice x ?h True sp2)"
      using finish_splice_ok [OF ok new refl _ _ _ , of "max r ?h" sp2 t ?M] link M
      by (simp add: link_state_def levels_upto_def)
    moreover have "?M 0 = put_node c s ?k x (L 0)"
      using assms(2) by (simp add: levels_upto_def new_node_def put_node_def cong: if_cong)
    then have "inserted s L x t ?M"
      using link(2) False M by (auto simp: inserted_def link_state_def same_nodes_def)
    ultimately show ?thesis using prep(1) link(1) False by (auto simp: sl_Insert_def Let_def)
  qed
qed

end

end
