(* ===== verification/SkipListRep.thy ===== *)
theory SkipListRep
  imports SkipListInsert
begin

text \<open>
  The default structure of a memtable: memtable/skiplistrep.cc, the skip list with its two kinds
  of iterators as an implementation of \<open>memrep\<close>.

  The locale \<open>duplicate_rep\<close> is interpreted on it: for every order of entries, the structure is
  a sorted list of entries that answers whether an inserted entry was new. The iterator that
  remembers where it has been is shown to find the same place as the search from the head.
\<close>

section \<open>The structure\<close>

record SkipListRep =
  skip_list :: InlineSkipList
  rep_transform :: "slice_transform option"
  lookahead :: nat

text \<open>Maximal height and branching factor are the defaults of the constructor.\<close>

definition SkipListRep_new :: "slice_transform option \<Rightarrow> nat \<Rightarrow> u32 \<Rightarrow> SkipListRep" where
  "SkipListRep_new transform la seed =
     \<lparr>skip_list = InlineSkipList_new 12 4 seed, rep_transform = transform, lookahead = la\<rparr>"

definition slr_Allocate :: "nat \<Rightarrow> SkipListRep \<Rightarrow> nat \<times> SkipListRep" where
  "slr_Allocate len t = (let (x, s) = AllocateKey len (skip_list t) in (x, t\<lparr>skip_list := s\<rparr>))"

definition slr_fill :: "nat \<Rightarrow> bytes \<Rightarrow> SkipListRep \<Rightarrow> SkipListRep" where
  "slr_fill handle e t = t\<lparr>skip_list := fill_key handle e (skip_list t)\<rparr>"

definition slr_InsertKey :: "KeyComparator \<Rightarrow> nat \<Rightarrow> SkipListRep \<Rightarrow> (bool \<times> SkipListRep) option" where
  "slr_InsertKey c handle t =
     map_option (\<lambda>(b, s). (b, t\<lparr>skip_list := s\<rparr>)) (Insert c handle (skip_list t))"

definition slr_InsertKeyWithHint ::
  "KeyComparator \<Rightarrow> nat \<Rightarrow> nat option \<Rightarrow> SkipListRep \<Rightarrow> (bool \<times> nat option \<times> SkipListRep) option"
where
  "slr_InsertKeyWithHint c handle hint t =
     map_option (\<lambda>(b, h, s). (b, h, t\<lparr>skip_list := s\<rparr>)) (InsertWithHint c handle hint (skip_list t))"

definition slr_InsertKeyConcurrently ::
  "KeyComparator \<Rightarrow> nat \<Rightarrow> SkipListRep \<Rightarrow> (bool \<times> SkipListRep) option" where
  "slr_InsertKeyConcurrently c handle t =
     map_option (\<lambda>(b, s). (b, t\<lparr>skip_list := s\<rparr>)) (InsertConcurrently c handle (skip_list t))"

definition slr_InsertKeyWithHintConcurrently ::
  "KeyComparator \<Rightarrow> nat \<Rightarrow> nat option \<Rightarrow> SkipListRep \<Rightarrow> (bool \<times> nat option \<times> SkipListRep) option"
where
  "slr_InsertKeyWithHintConcurrently c handle hint t =
     map_option (\<lambda>(b, h, s). (b, h, t\<lparr>skip_list := s\<rparr>))
       (InsertWithHintConcurrently c handle hint (skip_list t))"

definition slr_Contains :: "KeyComparator \<Rightarrow> bytes \<Rightarrow> SkipListRep \<Rightarrow> bool option" where
  "slr_Contains c key t = sl_Contains c (skip_list t) key"

definition slr_ApproximateMemoryUsage :: "SkipListRep \<Rightarrow> u64" where
  "slr_ApproximateMemoryUsage t = 0"

definition slr_ApproximateNumEntries ::
  "KeyComparator \<Rightarrow> bytes \<Rightarrow> bytes \<Rightarrow> SkipListRep \<Rightarrow> u64 option" where
  "slr_ApproximateNumEntries c start_ikey end_ikey t =
     (case EstimateCount c (skip_list t) (EncodeKey start_ikey) of
        None \<Rightarrow> None
      | Some start_count \<Rightarrow>
          (case EstimateCount c (skip_list t) (EncodeKey end_ikey) of
             None \<Rightarrow> None
           | Some end_count \<Rightarrow>
               Some (if end_count \<ge> start_count then end_count - start_count else 0)))"

partial_function (option) slr_Get_loop ::
  "InlineSkipList \<Rightarrow> ('a \<Rightarrow> bytes \<Rightarrow> bool \<times> 'a) \<Rightarrow> nat option \<Rightarrow> 'a \<Rightarrow> 'a option" where
  "slr_Get_loop s f i a =
     (if sli_Valid i
      then (let (continue, a') = f a (sli_key s i)
            in if continue then slr_Get_loop s f (sli_Next s i) a' else Some a')
      else Some a)"

definition slr_Get ::
  "KeyComparator \<Rightarrow> LookupKey \<Rightarrow> ('a \<Rightarrow> bytes \<Rightarrow> bool \<times> 'a) \<Rightarrow> SkipListRep \<times> 'a \<Rightarrow>
     (SkipListRep \<times> 'a) option"
where
  "slr_Get c k callback ta =
     (case sli_Seek c (skip_list (fst ta)) (memtable_key k) of
        None \<Rightarrow> None
      | Some i \<Rightarrow>
          map_option (\<lambda>a. (fst ta, a)) (slr_Get_loop (skip_list (fst ta)) callback i (snd ta)))"

section \<open>Iterators\<close>

text \<open>
  Class \<^verbatim>\<open>Iterator\<close> has the position only; \<^verbatim>\<open>LookaheadIterator\<close> has the position and the node
  \<^verbatim>\<open>prev_\<close>, from which a search may go on.
\<close>

datatype sl_iter = PlainIter "nat option" | LookIter "nat option" "nat option"

primrec iter_node :: "sl_iter \<Rightarrow> nat option" where
  "iter_node (PlainIter n) = n"
| "iter_node (LookIter n p) = n"

definition slr_GetIterator :: "SkipListRep \<Rightarrow> sl_iter" where
  "slr_GetIterator t =
     (if lookahead t > 0 then LookIter sli_SetList sli_SetList else PlainIter sli_SetList)"

definition slr_Valid :: "SkipListRep \<times> sl_iter \<Rightarrow> bool \<times> SkipListRep \<times> sl_iter" where
  "slr_Valid ti = (sli_Valid (iter_node (snd ti)), ti)"

definition slr_key :: "SkipListRep \<times> sl_iter \<Rightarrow> bytes" where
  "slr_key ti = sli_key (skip_list (fst ti)) (iter_node (snd ti))"

definition advance_prev :: "SkipListRep \<Rightarrow> nat option \<Rightarrow> nat option \<Rightarrow> bool" where
  "advance_prev t n p =
     (if sli_Valid p
      then
        (let k1 = rep_UserKey (sli_key (skip_list t) p);
             k2 = rep_UserKey (sli_key (skip_list t) n)
         in if slice_compare k1 k2 = 0 then False
            else (case rep_transform t of
                    None \<Rightarrow> True
                  | Some tr \<Rightarrow> slice_compare (Transform tr k1) (Transform tr k2) = 0))
      else True)"

fun slr_Next :: "SkipListRep \<times> sl_iter \<Rightarrow> (SkipListRep \<times> sl_iter) option" where
  "slr_Next (t, PlainIter n) = Some (t, PlainIter (sli_Next (skip_list t) n))"
| "slr_Next (t, LookIter n p) =
     Some (t, LookIter (sli_Next (skip_list t) n) (if advance_prev t n p then n else p))"

fun slr_Prev :: "KeyComparator \<Rightarrow> SkipListRep \<times> sl_iter \<Rightarrow> (SkipListRep \<times> sl_iter) option" where
  "slr_Prev c (t, PlainIter n) = map_option (\<lambda>m. (t, PlainIter m)) (sli_Prev c (skip_list t) n)"
| "slr_Prev c (t, LookIter n p) = map_option (\<lambda>m. (t, LookIter m m)) (sli_Prev c (skip_list t) n)"

text \<open>
  The linear search: at most \<^verbatim>\<open>lookahead_ + 1\<close> steps. \<open>Inl\<close> is the return from inside the loop,
  \<open>Inr\<close> its end.
\<close>

fun lookahead_loop ::
  "KeyComparator \<Rightarrow> SkipListRep \<Rightarrow> bytes \<Rightarrow> nat \<Rightarrow> nat option \<Rightarrow> nat option \<Rightarrow>
     (nat option \<times> nat option) + (nat option \<times> nat option)"
where
  "lookahead_loop c t encoded_key steps n p =
     (case steps of
        0 \<Rightarrow> Inr (n, p)
      | Suc steps' \<Rightarrow>
          if sli_Valid n
          then (if compare_keys c encoded_key (sli_key (skip_list t) n) \<le> 0 then Inl (n, p)
                else lookahead_loop c t encoded_key steps' (sli_Next (skip_list t) n)
                       (if advance_prev t n p then n else p))
          else Inr (n, p))"

declare lookahead_loop.simps [simp del]

definition look_Seek ::
  "KeyComparator \<Rightarrow> SkipListRep \<Rightarrow> bytes \<Rightarrow> nat option \<Rightarrow> nat option \<Rightarrow> (nat option \<times> nat option) option"
where
  "look_Seek c t encoded_key n p =
     (let search = map_option (\<lambda>m. (m, m)) (sli_Seek c (skip_list t) encoded_key)
      in if sli_Valid p \<and> compare_keys c encoded_key (sli_key (skip_list t) p) \<ge> 0
         then (case lookahead_loop c t encoded_key (lookahead t + 1) p p of
                 Inl np \<Rightarrow> Some np
               | Inr _ \<Rightarrow> search)
         else search)"

fun slr_Seek ::
  "KeyComparator \<Rightarrow> bytes \<Rightarrow> bytes option \<Rightarrow> SkipListRep \<times> sl_iter \<Rightarrow> (SkipListRep \<times> sl_iter) option"
where
  "slr_Seek c ikey mkey (t, it) =
     (let encoded_key = (case mkey of Some k \<Rightarrow> k | None \<Rightarrow> EncodeKey ikey)
      in case it of
           PlainIter n \<Rightarrow> map_option (\<lambda>m. (t, PlainIter m)) (sli_Seek c (skip_list t) encoded_key)
         | LookIter n p \<Rightarrow>
             map_option (\<lambda>(m, q). (t, LookIter m q)) (look_Seek c t encoded_key n p))"

fun slr_SeekForPrev ::
  "KeyComparator \<Rightarrow> bytes \<Rightarrow> bytes option \<Rightarrow> SkipListRep \<times> sl_iter \<Rightarrow> (SkipListRep \<times> sl_iter) option"
where
  "slr_SeekForPrev c ikey mkey (t, it) =
     (let encoded_key = (case mkey of Some k \<Rightarrow> k | None \<Rightarrow> EncodeKey ikey);
          found = sli_SeekForPrev c (skip_list t) encoded_key
      in case it of
           PlainIter n \<Rightarrow> map_option (\<lambda>m. (t, PlainIter m)) found
         | LookIter n p \<Rightarrow> map_option (\<lambda>m. (t, LookIter m m)) found)"

fun slr_SeekToFirst :: "SkipListRep \<times> sl_iter \<Rightarrow> (SkipListRep \<times> sl_iter) option" where
  "slr_SeekToFirst (t, PlainIter n) = Some (t, PlainIter (sli_SeekToFirst (skip_list t)))"
| "slr_SeekToFirst (t, LookIter n p) =
     (let m = sli_SeekToFirst (skip_list t) in Some (t, LookIter m m))"

fun slr_SeekToLast :: "SkipListRep \<times> sl_iter \<Rightarrow> (SkipListRep \<times> sl_iter) option" where
  "slr_SeekToLast (t, PlainIter n) =
     map_option (\<lambda>m. (t, PlainIter m)) (sli_SeekToLast (skip_list t))"
| "slr_SeekToLast (t, LookIter n p) =
     map_option (\<lambda>m. (t, LookIter m m)) (sli_SeekToLast (skip_list t))"

text \<open>The bytes of the entry an iterator stands on, written from an offset on.\<close>

definition slr_write :: "nat \<Rightarrow> bytes \<Rightarrow> SkipListRep \<times> sl_iter \<Rightarrow> SkipListRep \<times> sl_iter" where
  "slr_write off d ti =
     (case iter_node (snd ti) of
        None \<Rightarrow> ti
      | Some n \<Rightarrow>
          ((fst ti)\<lparr>skip_list := fill_key n (poke (nd_Key (skip_list (fst ti)) n) off d) (skip_list (fst ti))\<rparr>,
           snd ti))"

definition SkipListRep_ops :: "KeyComparator \<Rightarrow> (SkipListRep, sl_iter, 'a) memrep" where
  "SkipListRep_ops c =
     \<lparr>rep_Allocate = slr_Allocate, rep_fill = slr_fill, rep_InsertKey = slr_InsertKey c,
      rep_InsertKeyWithHint = slr_InsertKeyWithHint c,
      rep_InsertKeyConcurrently = slr_InsertKeyConcurrently c,
      rep_InsertKeyWithHintConcurrently = slr_InsertKeyWithHintConcurrently c,
      rep_Get = slr_Get c, rep_GetIterator = slr_GetIterator, it_Valid = slr_Valid,
      it_key = slr_key, it_Next = slr_Next, it_Prev = slr_Prev c, it_Seek = slr_Seek c,
      it_SeekToFirst = slr_SeekToFirst, it_SeekToLast = slr_SeekToLast, it_write = slr_write\<rparr>"

section \<open>The entries\<close>

primrec sl_walk :: "InlineSkipList \<Rightarrow> nat \<Rightarrow> nat option \<Rightarrow> nat list" where
  "sl_walk s 0 p = []"
| "sl_walk s (Suc m) p = (case p of None \<Rightarrow> [] | Some n \<Rightarrow> n # sl_walk s m (nd_Next s n 0))"

definition sl_nodes :: "InlineSkipList \<Rightarrow> nat list" where
  "sl_nodes s = sl_walk s (length (nodes s)) (nd_Next s (head_node s) 0)"

definition sl_entries :: "InlineSkipList \<Rightarrow> bytes list" where
  "sl_entries s = map (nd_Key s) (sl_nodes s)"

definition sl_ok :: "KeyComparator \<Rightarrow> (bytes \<Rightarrow> bool) \<Rightarrow> InlineSkipList \<Rightarrow> bool" where
  "sl_ok c entry s \<longleftrightarrow>
     (\<exists>L. levels_ok c entry s L \<and> (\<forall>sp\<in>set (splices s). splice_ok c entry s L sp)) \<and>
     seq_splice s < length (splices s)"

text \<open>An iterator that stands between the entries \<open>xs\<close> and the entries \<open>ys\<close>.\<close>

definition slr_cursor :: "SkipListRep \<Rightarrow> sl_iter \<Rightarrow> bytes list \<Rightarrow> bytes list \<Rightarrow> bool" where
  "slr_cursor t it xs ys \<longleftrightarrow>
     (\<exists>P Q. sl_nodes (skip_list t) = P @ Q \<and> xs = map (nd_Key (skip_list t)) P \<and>
        ys = map (nd_Key (skip_list t)) Q \<and> iter_node it = first_of Q)"

lemma walk_chain:
  "chain (\<lambda>n. nd_Next s n 0) a ns \<Longrightarrow> length ns \<le> m \<Longrightarrow> sl_walk s m (nd_Next s a 0) = ns"
proof (induction ns arbitrary: a m)
  case Nil
  then show ?case by (cases m) simp_all
next
  case (Cons n ns)
  then show ?case by (cases m) simp_all
qed

lemma map_klt_while:
  "map (nd_Key s) (takeWhile (klt c s k) ns) = entries_before c k (map (nd_Key s) ns)"
  "map (nd_Key s) (dropWhile (klt c s k) ns) = entries_from c k (map (nd_Key s) ns)"
  by (induction ns) (simp_all add: klt_def entries_before_def entries_from_def)

lemma map_put_node:
  "map (nd_Key s) (put_node c s (nd_Key s x) x ns) = place_entry c (nd_Key s x) (map (nd_Key s) ns)"
  by (simp add: put_node_def place_entry_def map_klt_while)

lemma height_loop_bounds:
  "1 \<le> h \<Longrightarrow> h \<le> m \<Longrightarrow> 1 \<le> fst (height_loop m scaled h seed) \<and> fst (height_loop m scaled h seed) \<le> m"
proof (induction m scaled h seed rule: height_loop.induct)
  case (1 m scaled h seed)
  then show ?case
    by (subst (1 2) height_loop.simps) (auto simp: Let_def split: prod.splits)
qed

context entry_order
begin

lemma nodes_level:
  assumes "levels_ok c entry s L"
  shows "sl_nodes s = L 0"
proof -
  have pos: "0 < kMaxHeight s" using assms by (auto simp: levels_ok_def)
  have "set (L 0) \<subseteq> {..<length (nodes s)}"
    using levels_okD(2) [OF assms pos] by (auto simp: node_ok_def)
  then have "length (L 0) \<le> length (nodes s)"
    using level_distinct [OF assms pos] card_mono [of "{..<length (nodes s)}" "set (L 0)"]
    by (simp add: distinct_card)
  then show ?thesis
    unfolding sl_nodes_def by (rule walk_chain [OF levels_okD(1) [OF assms pos]])
qed

lemma entries_level: "levels_ok c entry s L \<Longrightarrow> sl_entries s = map (nd_Key s) (L 0)"
  by (simp add: sl_entries_def nodes_level)

lemma sl_entries_ordered:
  assumes "sl_ok c entry s"
  shows "ordered (sl_entries s)"
proof -
  obtain L where L: "levels_ok c entry s L" using assms by (auto simp: sl_ok_def)
  have pos: "0 < kMaxHeight s" using L by (auto simp: levels_ok_def)
  show ?thesis
    using levels_okD(2,3) [OF L pos]
    by (auto simp: ordered_def entries_level [OF L] sorted_wrt_map node_ok_def)
qed

lemma AllocateKey_eq:
  assumes "1 \<le> kMaxHeight s"
  shows "\<exists>h seed. 1 \<le> h \<and> h \<le> kMaxHeight s \<and>
    AllocateKey len s = (length (nodes s), s\<lparr>rnd_seed := seed,
      nodes := nodes s @ [\<lparr>nd_stash = h, nd_key = replicate len 0, nd_next = replicate h None\<rparr>]\<rparr>)"
proof -
  obtain h seed where hl: "height_loop (kMaxHeight s) (kScaledInverseBranching s) 1 (rnd_seed s) = (h, seed)"
    by (rule prod.exhaust)
  have "1 \<le> h \<and> h \<le> kMaxHeight s"
    using height_loop_bounds [OF order_refl assms, of "kScaledInverseBranching s" "rnd_seed s"] hl by simp
  then show ?thesis
    using hl by (intro exI [of _ h] exI [of _ seed])
      (simp add: AllocateKey_def RandomHeight_def AllocateNode_def)
qed

text \<open>A fresh node with the key filled in may be inserted, and nothing else has changed.\<close>

lemma allocate_fill:
  assumes "levels_ok c entry s L" "\<forall>sp\<in>set (splices s). splice_ok c entry s L sp" "entry e"
    and "AllocateKey len s = (x, s1)"
  shows "levels_ok c entry (fill_key x e s1) L"
    and "\<forall>sp\<in>set (splices s). splice_ok c entry (fill_key x e s1) L sp"
    and "new_node c entry (fill_key x e s1) L x"
    and "splices (fill_key x e s1) = splices s" "seq_splice (fill_key x e s1) = seq_splice s"
    and "nd_Key (fill_key x e s1) x = e"
    and "\<forall>n\<in>set (L 0). nd_Key (fill_key x e s1) n = nd_Key s n"
proof -
  let ?t = "fill_key x e s1"
  have pos: "1 \<le> kMaxHeight s" using assms(1) by (auto simp: levels_ok_def)
  obtain h seed where h: "1 \<le> h" "h \<le> kMaxHeight s" and x: "x = length (nodes s)"
    and s1: "s1 = s\<lparr>rnd_seed := seed,
      nodes := nodes s @ [\<lparr>nd_stash = h, nd_key = replicate len 0, nd_next = replicate h None\<rparr>]\<rparr>"
    using AllocateKey_eq [OF pos, of len] assms(4) by auto
  have t: "?t = s\<lparr>rnd_seed := seed,
      nodes := nodes s @ [\<lparr>nd_stash = h, nd_key = e, nd_next = replicate h None\<rparr>]\<rparr>"
    by (simp add: fill_key_def s1 x)
  have sel: "head_node ?t = head_node s" "kMaxHeight ?t = kMaxHeight s" "max_height ?t = max_height s"
    "length (nodes ?t) = Suc (length (nodes s))"
    by (simp_all add: t)
  have old: "nodes ?t ! n = nodes s ! n" if "n < length (nodes s)" for n
    using that by (simp add: t nth_append)
  have key: "nd_Key ?t n = nd_Key s n" "nd_Next ?t n i = nd_Next s n i" if "n < length (nodes s)" for n i
    using old [OF that] by (simp_all add: nd_Key_def nd_Next_def)
  have new: "nodes ?t ! x = \<lparr>nd_stash = h, nd_key = e, nd_next = replicate h None\<rparr>"
    unfolding t by (simp add: x)
  show "splices ?t = splices s" "seq_splice ?t = seq_splice s" by (simp_all add: t)
  show "nd_Key ?t x = e" by (simp add: nd_Key_def new)
  have mem: "n < length (nodes s)" if "n \<in> set (L i)" "i < kMaxHeight s" for n i
    using levels_okD(2) [OF assms(1) that(2,1)] by (simp add: node_ok_def)
  then show "\<forall>n\<in>set (L 0). nd_Key ?t n = nd_Key s n" using key pos by auto
  have head: "head_node s < length (nodes s)" using assms(1) by (simp add: levels_ok_def)
  have "level_ok c entry ?t i (L i)" if i: "i < kMaxHeight s" for i
  proof -
    have "chain (\<lambda>n. nd_Next ?t n i) a ns = chain (\<lambda>n. nd_Next s n i) a ns"
      if "\<forall>n\<in>set (a # ns). n < length (nodes s)" for a ns
      using that by (induction ns arbitrary: a) (simp_all add: key)
    moreover have "node_ok entry ?t i n = node_ok entry s i n" if "n < length (nodes s)" for n
      using that by (simp add: node_ok_def sel old key)
    moreover have "sorted_wrt (\<lambda>a b. less (nd_Key ?t a) (nd_Key ?t b)) (L i)"
      using levels_okD(3) [OF assms(1) i] mem [OF _ i] by (rule_tac sorted_wrt_mono_rel) (auto simp: key)
    ultimately show ?thesis
      using assms(1) i head mem [OF _ i] by (auto simp: level_ok_def levels_ok_def sel)
  qed
  then show ok: "levels_ok c entry ?t L"
    using assms(1) head by (simp add: levels_ok_def sel old)
  show "\<forall>sp\<in>set (splices s). splice_ok c entry ?t L sp"
    using splice_ok_mono [OF _ assms(1), where t = ?t and M = L] assms(2) sel key by simp
  have "x \<notin> set (L 0)" using mem [of x 0] pos x by auto
  then show "new_node c entry ?t L x"
    using head x h assms(3) new sel by (auto simp: new_node_def nd_Key_def)
qed

text \<open>Insertion with any splice kept in memory.\<close>

lemma insert_with_splice_spec:
  assumes "sl_ok c entry s" "entry e" "AllocateKey len s = (x, s1)" "p < length (splices s)"
  shows "\<exists>s2. insert_with_splice False c x p pf (fill_key x e s1) =
      Some (\<not> (\<exists>y\<in>set (sl_entries s). compare_keys c e y = 0), s2) \<and> sl_ok c entry s2 \<and>
    length (splices s2) = length (splices s) \<and>
    sl_entries s2 = (if \<exists>y\<in>set (sl_entries s). compare_keys c e y = 0 then sl_entries s
       else place_entry c e (sl_entries s))"
proof -
  let ?t = "fill_key x e s1"
  obtain L where L: "levels_ok c entry s L" "\<forall>sp\<in>set (splices s). splice_ok c entry s L sp"
    using assms(1) by (auto simp: sl_ok_def)
  note t = allocate_fill [OF L assms(2,3)]
  have seq: "seq_splice ?t < length (splices ?t)" using assms(1) t(4,5) by (simp add: sl_ok_def)
  have "splice_ok c entry ?t L (splices ?t ! p)"
    using t(2,4) assms(4) by (metis nth_mem)
  then obtain u M sp where u: "sl_Insert False c ?t x (splices ?t ! p) pf =
      Some (\<not> has_equal ?t (L 0) e, u, sp)" "inserted ?t L x u M" "splice_ok c entry u M sp"
    using sl_Insert_spec [OF t(1,3)] t(6) by metis
  have old: "sl_entries s = map (nd_Key ?t) (L 0)"
    using entries_level [OF L(1)] t(7) by simp
  then have dup: "has_equal ?t (L 0) e \<longleftrightarrow> (\<exists>y\<in>set (sl_entries s). compare_keys c e y = 0)"
    by (simp add: has_equal_def)
  let ?u = "u\<lparr>splices := (splices u)[p := sp]\<rparr>"
  have [simp]: "nd_Key ?u = nd_Key u" "nd_Next ?u = nd_Next u"
    by (simp_all add: nd_Key_def nd_Next_def fun_eq_iff)
  have lv: "levels_ok c entry ?u M = levels_ok c entry u M"
    by (simp add: levels_ok_def level_ok_def node_ok_def)
  have spl: "splice_ok c entry ?u M = splice_ok c entry u M"
    by (simp add: fun_eq_iff splice_ok_def room_def on_level_def within_def before_key_def
        upto_key_def klt_def)
  have u_ok: "levels_ok c entry u M" using u(2) by (simp add: inserted_def)
  have others: "splice_ok c entry u M sp'" if "sp' \<in> set (splices s)" for sp'
    using splice_ok_mono [OF _ t(1), where t = u and M = M and sp = sp'] t(2) that u(2)
    by (simp add: inserted_def)
  have sub: "set (splices ?u) \<subseteq> insert sp (set (splices s))"
    using set_update_subset_insert [of "splices u" p sp] u(2) t(4)
    by (simp add: inserted_def)
  have "\<forall>sp'\<in>set (splices ?u). splice_ok c entry ?u M sp'"
    unfolding spl using sub u(3) others by blast
  moreover have "seq_splice ?u < length (splices ?u)" using seq u(2) by (simp add: inserted_def)
  moreover have "levels_ok c entry ?u M" using u_ok lv by simp
  ultimately have ok: "sl_ok c entry ?u" unfolding sl_ok_def by blast
  have "sl_entries ?u = map (nd_Key u) (M 0)"
    using entries_level [of ?u M] u_ok lv by simp
  also have "\<dots> = map (nd_Key ?t) (M 0)"
  proof -
    have "0 < kMaxHeight ?t" using t(1) by (auto simp: levels_ok_def)
    then have "\<forall>n\<in>set (M 0). n < length (nodes ?t)"
      using levels_okD(2) [OF u_ok] u(2) by (simp add: inserted_def node_ok_def)
    then show ?thesis using u(2) by (simp add: inserted_def)
  qed
  also have "\<dots> = (if has_equal ?t (L 0) e then sl_entries s else place_entry c e (sl_entries s))"
    using u(2) t(6) old map_put_node [of ?t c x "L 0"] by (simp add: inserted_def)
  finally show ?thesis
    using u(1,2) ok dup t(4)
    by (intro exI [of _ ?u]) (simp add: insert_with_splice_def inserted_def)
qed

lemma Insert_spec:
  assumes "sl_ok c entry s" "entry e" "AllocateKey len s = (x, s1)"
  shows "\<exists>s2. Insert c x (fill_key x e s1) =
      Some (\<not> (\<exists>y\<in>set (sl_entries s). compare_keys c e y = 0), s2) \<and> sl_ok c entry s2 \<and>
    sl_entries s2 = (if \<exists>y\<in>set (sl_entries s). compare_keys c e y = 0 then sl_entries s
       else place_entry c e (sl_entries s))"
proof -
  obtain L where L: "levels_ok c entry s L" "\<forall>sp\<in>set (splices s). splice_ok c entry s L sp"
    using assms(1) by (auto simp: sl_ok_def)
  have "seq_splice (fill_key x e s1) = seq_splice s" by (rule allocate_fill(5) [OF L assms(2,3)])
  then show ?thesis
    using insert_with_splice_spec [OF assms, of "seq_splice s" False] assms(1)
    by (auto simp: Insert_def sl_ok_def)
qed

lemma slr_Get_loop_run:
  assumes "levels_ok c entry s L" "L 0 = P @ Q"
  shows "slr_Get_loop s f (first_of Q) a = Some (run_callback f a (map (nd_Key s) Q))"
  using assms(2)
proof (induction Q arbitrary: P a)
  case Nil
  then show ?case by (subst slr_Get_loop.simps) (simp add: sli_Valid_def)
next
  case (Cons q Q)
  have pos: "0 < kMaxHeight s" using assms(1) by (auto simp: levels_ok_def)
  have "L 0 = (P @ [q]) @ Q" using Cons.prems by simp
  from next_at [OF assms(1) pos this] have "nd_Next s q 0 = first_of Q" by simp
  with Cons.IH [of "P @ [q]"] Cons.prems show ?case
    by (subst slr_Get_loop.simps)
      (simp add: sli_Valid_def sli_key_def sli_Next_def Let_def split: prod.split)
qed

text \<open>Where a search ends, in terms of the entries.\<close>

lemma FindGreaterOrEqual_cursor:
  assumes "levels_ok c entry s L" "entry k"
  shows "FindGreaterOrEqual c s k = Some (first_of (dropWhile (klt c s k) (sl_nodes s)))"
  by (simp add: FindGreaterOrEqual_first [OF assms] nodes_level [OF assms(1)])

lemma nodes_next:
  assumes "sl_ok c entry s" "sl_nodes s = P @ Q"
  shows "nd_Next s (last (head_node s # P)) 0 = first_of Q"
proof -
  obtain L where L: "levels_ok c entry s L" using assms(1) by (auto simp: sl_ok_def)
  have "0 < kMaxHeight s" using L by (auto simp: levels_ok_def)
  then show ?thesis using next_at [OF L] assms(2) nodes_level [OF L] by simp
qed

lemma cursor_Next:
  assumes "sl_ok c entry (skip_list t)" "slr_cursor t it xs (y # ys)"
  shows "\<exists>it'. slr_Next (t, it) = Some (t, it') \<and> slr_cursor t it' (xs @ [y]) ys"
proof -
  let ?s = "skip_list t"
  obtain P Q where PQ: "sl_nodes ?s = P @ Q" "xs = map (nd_Key ?s) P" "y # ys = map (nd_Key ?s) Q"
    "iter_node it = first_of Q"
    using assms(2) by (auto simp: slr_cursor_def)
  then obtain q R where Q: "Q = q # R" by (cases Q) auto
  have "nd_Next ?s q 0 = first_of R"
    using nodes_next [OF assms(1), of "P @ [q]" R] PQ(1) Q by simp
  then have "sli_Next ?s (iter_node it) = first_of R" using PQ(4) Q by (simp add: sli_Next_def)
  then show ?thesis
    using PQ Q by (cases it) (auto simp: slr_cursor_def intro: exI [of _ "P @ [q]"])
qed

lemma cursor_Seek:
  assumes "sl_ok c entry (skip_list t)" "entry k"
  shows "\<exists>it'. slr_Seek c ik (Some k) (t, slr_GetIterator t) = Some (t, it') \<and>
    slr_cursor t it' (entries_before c k (sl_entries (skip_list t)))
      (entries_from c k (sl_entries (skip_list t)))"
proof -
  let ?s = "skip_list t"
  obtain L where L: "levels_ok c entry ?s L" using assms(1) by (auto simp: sl_ok_def)
  let ?n = "first_of (dropWhile (klt c ?s k) (sl_nodes ?s))"
  have find: "sli_Seek c ?s k = Some ?n"
    using FindGreaterOrEqual_cursor [OF L assms(2)] by (simp add: sli_Seek_def)
  have cur: "slr_cursor t it (entries_before c k (sl_entries ?s)) (entries_from c k (sl_entries ?s))"
    if "iter_node it = ?n" for it
    using that unfolding slr_cursor_def sl_entries_def map_klt_while [symmetric]
    by (intro exI [of _ "takeWhile (klt c ?s k) (sl_nodes ?s)"]
        exI [of _ "dropWhile (klt c ?s k) (sl_nodes ?s)"]) simp
  show ?thesis
    using find cur [of "PlainIter ?n"] cur [of "LookIter ?n ?n"]
    by (auto simp: slr_GetIterator_def look_Seek_def sli_SetList_def sli_Valid_def)
qed

lemma cursor_First:
  assumes "sl_ok c entry (skip_list t)"
  shows "\<exists>it'. slr_SeekToFirst (t, slr_GetIterator t) = Some (t, it') \<and>
    slr_cursor t it' [] (sl_entries (skip_list t))"
proof -
  let ?s = "skip_list t"
  have "sli_SeekToFirst ?s = first_of (sl_nodes ?s)"
    using nodes_next [OF assms, of "[]"] by (simp add: sli_SeekToFirst_def)
  then show ?thesis
    by (auto simp: slr_GetIterator_def slr_cursor_def sl_entries_def Let_def)
qed

lemma Get_entries:
  assumes "sl_ok c entry (skip_list t)" "entry (memtable_key lk)"
  shows "slr_Get c lk f (t, a) =
    Some (t, run_callback f a (entries_from c (memtable_key lk) (sl_entries (skip_list t))))"
proof -
  let ?s = "skip_list t" and ?k = "memtable_key lk"
  obtain L where L: "levels_ok c entry ?s L" using assms(1) by (auto simp: sl_ok_def)
  have "L 0 = takeWhile (klt c ?s ?k) (L 0) @ dropWhile (klt c ?s ?k) (L 0)" by simp
  from slr_Get_loop_run [OF L this] show ?thesis
    using FindGreaterOrEqual_first [OF L assms(2)]
    by (simp add: slr_Get_def sli_Seek_def entries_level [OF L] map_klt_while)
qed

sublocale skiplist: duplicate_rep c entry "SkipListRep_ops c"
  "\<lambda>t. sl_ok c entry (skip_list t)" "\<lambda>t. sl_entries (skip_list t)" slr_cursor
proof (unfold_locales, goal_cases)
  case (1 t)
  then show ?case by (rule sl_entries_ordered)
next
  case (2 t e h t1)
  then obtain s1 where "AllocateKey (length e) (skip_list t) = (h, s1)" "t1 = t\<lparr>skip_list := s1\<rparr>"
    by (auto simp: SkipListRep_ops_def slr_Allocate_def split: prod.splits)
  with Insert_spec [OF 2(1,2) this(1)] 2(3) show ?case
    by (auto simp: SkipListRep_ops_def slr_fill_def slr_InsertKey_def)
next
  case (3 t lk f a)
  then show ?case using Get_entries by (intro exI [of _ t]) (simp add: SkipListRep_ops_def)
next
  case (4 t i xs ys)
  then have "sli_Valid (iter_node i) = (ys \<noteq> [])"
    by (auto simp: slr_cursor_def sli_Valid_def)
  with 4 show ?case by (simp add: SkipListRep_ops_def slr_Valid_def)
next
  case (5 t i xs y ys)
  then show ?case by (auto simp: SkipListRep_ops_def slr_cursor_def slr_key_def sli_key_def)
next
  case (6 t i xs y ys)
  then show ?case using cursor_Next by (simp add: SkipListRep_ops_def) blast
next
  case (7 t k ik)
  then show ?case using cursor_Seek by (simp add: SkipListRep_ops_def) blast
next
  case (8 t)
  then show ?case using cursor_First by (simp add: SkipListRep_ops_def) blast
next
  case (9 t e x h t1)
  then obtain s1 where "AllocateKey (length e) (skip_list t) = (h, s1)" "t1 = t\<lparr>skip_list := s1\<rparr>"
    by (auto simp: SkipListRep_ops_def slr_Allocate_def split: prod.splits)
  with Insert_spec [OF 9(1,2) this(1)] 9(3,4) show ?case
    by (auto simp: SkipListRep_ops_def slr_fill_def slr_InsertKey_def)
qed

end

text \<open>The empty list of the constructor satisfies the invariant.\<close>

lemma InlineSkipList_new_ok:
  assumes "1 \<le> maxh"
  shows "sl_ok c entry (InlineSkipList_new maxh branching seed)"
    and "sl_entries (InlineSkipList_new maxh branching seed) = []"
proof -
  let ?s = "InlineSkipList_new maxh branching seed"
  have "levels_ok c entry ?s (\<lambda>_. [])"
    using assms by (auto simp: levels_ok_def level_ok_def InlineSkipList_new_def nd_Next_def)
  moreover have "splice_ok c entry ?s (\<lambda>_. []) (Splice_new maxh)"
    by (simp add: splice_ok_def room_def Splice_new_def InlineSkipList_new_def)
  ultimately show "sl_ok c entry ?s" "sl_entries ?s = []"
    using assms by (auto simp: sl_ok_def InlineSkipList_new_def sl_entries_def sl_nodes_def nd_Next_def)
qed

text \<open>The structure of a memtable whose keys have the built-in order.\<close>

interpretation bytewise_skiplist: duplicate_rep "MemTable_KeyComparator BytewiseComparator" is_entry
  "SkipListRep_ops (MemTable_KeyComparator BytewiseComparator)"
  "\<lambda>t. sl_ok (MemTable_KeyComparator BytewiseComparator) is_entry (skip_list t)"
  "\<lambda>t. sl_entries (skip_list t)" slr_cursor
  by unfold_locales

end
