(* ===== verification/SkipListSpec.thy ===== *)
theory SkipListSpec
  imports SkipListRep
begin

text \<open>
  What the skip list promises its users: any sequence of insertions builds the sorted list
  without equal keys, whatever heights the generator draws; a scan from a key yields the
  entries from its place on; and the iterator that remembers its last position finds what the
  search from the head finds. The random generator is shown exact, and stuck for two seeds.
\<close>

section \<open>The random generator\<close>

lemma random_M_unat: "unat random_M = 2 ^ 31 - 1"
  by (simp add: random_M_def)

text \<open>For every seed between 1 and M - 1, the shift-and-mask reduction of \<^verbatim>\<open>Random::Next\<close>
  computes the seed times 16807 modulo M = 2^31 - 1, as its comment says, and the new seed is
  again between 1 and M - 1, so that the generator never stops at 0 or M.\<close>

theorem random_next_exact:
  assumes "0 < unat s" "unat s < 2 ^ 31 - 1"
  shows "unat (fst (Random_Next s)) = unat s * 16807 mod (2 ^ 31 - 1) \<and>
    0 < unat (snd (Random_Next s)) \<and> unat (snd (Random_Next s)) < 2 ^ 31 - 1"
proof -
  have "fst (Random_Next s) = snd (Random_Next s)" by (simp add: Random_Next_def Let_def)
  moreover have "unat s * 16807 mod (2 ^ 31 - 1) < 2 ^ 31 - 1" by (rule mod_less_divisor) simp
  ultimately show ?thesis
    using Random_Next_exact [OF assms] prime_step [OF assms] by simp
qed

lemma random_next_exact_witness:
  "unat (fst (Random_Next 301)) = 301 * 16807 mod (2 ^ 31 - 1) \<and>
    0 < unat (snd (Random_Next 301)) \<and> unat (snd (Random_Next 301)) < 2 ^ 31 - 1"
  using random_next_exact [of 301] by simp

text \<open>The seeds whose low 31 bits are all set: the generator stays at M, so that every node of
  a list fed by it has height 1.\<close>

lemma Random_stuck: "Random_Next random_M = (random_M, random_M)"
  by (simp add: Random_Next_def random_M_def random_A_def Let_def)

lemma Random_new_stuck: "Random_new 0x7fffffff = random_M" "Random_new 0xffffffff = random_M"
  by (simp_all add: Random_new_def GoodSeed_def random_M_def)

text \<open>A generator created with a seed whose low 31 bits are all set never leaves the value
  M, against the comment that the seed must not be M: a skip list whose thread has this
  generator draws height 1 for every node, whatever its limits, and degenerates to a linked
  list.\<close>

theorem stuck_generator_height:
  assumes "rnd_seed s = Random_new 0x7fffffff" "kScaledInverseBranching s \<le> random_M"
  shows "RandomHeight s = (1, s)"
proof -
  have "height_loop (kMaxHeight s) (kScaledInverseBranching s) 1 random_M = (1, random_M)"
    using assms(2) by (subst height_loop.simps) (simp add: Random_stuck Let_def linorder_not_le [symmetric])
  then show ?thesis
    using assms(1) by (simp add: RandomHeight_def Random_new_stuck)
qed

lemma stuck_generator_height_witness:
  "RandomHeight (InlineSkipList_new 12 4 (Random_new 0x7fffffff)) =
    (1, InlineSkipList_new 12 4 (Random_new 0x7fffffff))"
  using stuck_generator_height [of "InlineSkipList_new 12 4 (Random_new 0x7fffffff)"]
  by (simp add: InlineSkipList_new_def kMaxNext_def random_M_def)

section \<open>A sorted list\<close>

primrec slr_insert_all ::
  "KeyComparator \<Rightarrow> bytes list \<Rightarrow> SkipListRep \<Rightarrow> (bool list \<times> SkipListRep) option" where
  "slr_insert_all c [] t = Some ([], t)"
| "slr_insert_all c (e # es) t =
     (let (h, t1) = slr_Allocate (length e) t
      in case slr_InsertKey c h (slr_fill h e t1) of
           None \<Rightarrow> None
         | Some (b, t2) \<Rightarrow> map_option (\<lambda>(bs, t3). (b # bs, t3)) (slr_insert_all c es t2))"

primrec sorted_insert_all ::
  "KeyComparator \<Rightarrow> bytes list \<Rightarrow> bytes list \<Rightarrow> bool list \<times> bytes list" where
  "sorted_insert_all c [] xs = ([], xs)"
| "sorted_insert_all c (e # es) xs =
     (if \<exists>x\<in>set xs. compare_keys c e x = 0
      then (let (bs, ys) = sorted_insert_all c es xs in (False # bs, ys))
      else (let (bs, ys) = sorted_insert_all c es (place_entry c e xs) in (True # bs, ys)))"

lemma SkipListRep_new_ok:
  "sl_ok c entry (skip_list (SkipListRep_new transform la seed))"
  "sl_entries (skip_list (SkipListRep_new transform la seed)) = []"
  using InlineSkipList_new_ok [of 12] by (simp_all add: SkipListRep_new_def)

context entry_order
begin

lemma slr_insert_all_sorted:
  assumes "sl_ok c entry (skip_list t)" "\<forall>e\<in>set es. entry e"
  shows "\<exists>t'. slr_insert_all c es t =
      Some (fst (sorted_insert_all c es (sl_entries (skip_list t))), t') \<and>
    sl_ok c entry (skip_list t') \<and> lookahead t' = lookahead t \<and> rep_transform t' = rep_transform t \<and>
    sl_entries (skip_list t') = snd (sorted_insert_all c es (sl_entries (skip_list t)))"
  using assms
proof (induction es arbitrary: t)
  case (Cons e es)
  obtain x s1 where al: "AllocateKey (length e) (skip_list t) = (x, s1)" by (rule prod.exhaust)
  let ?xs = "sl_entries (skip_list t)" and ?dup = "\<exists>y\<in>set (sl_entries (skip_list t)). compare_keys c e y = 0"
  obtain s2 where s2: "Insert c x (fill_key x e s1) = Some (\<not> ?dup, s2)" "sl_ok c entry s2"
      "sl_entries s2 = (if ?dup then ?xs else place_entry c e ?xs)"
    using Insert_spec [OF Cons.prems(1) _ al] Cons.prems(2) by auto
  let ?t = "t\<lparr>skip_list := s2\<rparr>"
  obtain t' where t': "slr_insert_all c es ?t = Some (fst (sorted_insert_all c es (sl_entries s2)), t')"
      "sl_ok c entry (skip_list t')" "lookahead t' = lookahead t" "rep_transform t' = rep_transform t"
      "sl_entries (skip_list t') = snd (sorted_insert_all c es (sl_entries s2))"
    using Cons.IH [of ?t] s2(2) Cons.prems(2) by auto
  have "slr_insert_all c (e # es) t =
      map_option (\<lambda>(bs, t3). ((\<not> ?dup) # bs, t3)) (slr_insert_all c es ?t)"
    using al s2(1) by (simp add: slr_Allocate_def slr_fill_def slr_InsertKey_def)
  then show ?case using t' s2(3) by (auto simp: Let_def split: prod.splits)
qed simp

end

text \<open>C28. Whatever the order of the entries, the generator's seed and the kind of iterators: a
  sequence of insertions into a new skip list always returns, answers for each entry whether no
  equal one was there, and leaves the list of its lowest level as inserting into a sorted list
  does. So heights, splices and the shortcuts they allow never change what the list holds.\<close>

theorem skiplist_refines_sorted_list:
  assumes "entry_order c entry" "\<forall>e\<in>set es. entry e"
  shows "\<exists>t. slr_insert_all c es (SkipListRep_new transform la seed) =
      Some (fst (sorted_insert_all c es []), t) \<and>
    sl_entries (skip_list t) = snd (sorted_insert_all c es [])"
proof -
  have "\<exists>t. slr_insert_all c es (SkipListRep_new transform la seed) =
      Some (fst (sorted_insert_all c es []), t) \<and> sl_ok c entry (skip_list t) \<and>
      lookahead t = lookahead (SkipListRep_new transform la seed) \<and>
      rep_transform t = rep_transform (SkipListRep_new transform la seed) \<and>
      sl_entries (skip_list t) = snd (sorted_insert_all c es [])"
    using entry_order.slr_insert_all_sorted [OF assms(1) SkipListRep_new_ok(1) assms(2)]
    by (simp only: SkipListRep_new_ok(2))
  then show ?thesis by blast
qed

text \<open>Entries of a memtable: a key, a number, a type and a value.\<close>

definition sample_entry :: "bytes \<Rightarrow> u64 \<Rightarrow> bytes" where
  "sample_entry u seq = PutLengthPrefixedSlice [] (InternalKey u seq kTypeValue)"

lemma sample_entry_ok: "length u < 100 \<Longrightarrow> is_entry (sample_entry u seq)"
  unfolding is_entry_def sample_entry_def
  by (intro exI [of _ "InternalKey u seq kTypeValue"] exI [of _ "[]"]) simp

lemma sample_compare:
  assumes "length u < 100" "length v < 100" "s \<le> kMaxSequenceNumber" "r \<le> kMaxSequenceNumber"
  shows "compare_keys (MemTable_KeyComparator BytewiseComparator) (sample_entry u s) (sample_entry v r) = 0
      \<longleftrightarrow> u = v \<and> s = r"
    and "compare_keys (MemTable_KeyComparator BytewiseComparator) (sample_entry u s) (sample_entry v r) < 0
      \<longleftrightarrow> u < v \<or> u = v \<and> r < s"
proof -
  have "prefixed_slice (sample_entry w q) = InternalKey w q kTypeValue" if "length w < 100" for w q
    using that prefixed_slice_Put [of "InternalKey w q kTypeValue" "[]"] by (simp add: sample_entry_def)
  moreover have "Compare BytewiseComparator = slice_compare" by (simp add: BytewiseComparator_def)
  ultimately have eq: "compare_keys (MemTable_KeyComparator BytewiseComparator)
      (sample_entry u s) (sample_entry v r) =
      (if u = v then (if s > r then -1 else if s < r then 1 else 0) else slice_compare u v)"
    using assms by (simp add: MemTable_KeyComparator_def InternalKey_eq CompareKeySeq_footer)
  show "compare_keys (MemTable_KeyComparator BytewiseComparator) (sample_entry u s) (sample_entry v r) = 0
      \<longleftrightarrow> u = v \<and> s = r"
    "compare_keys (MemTable_KeyComparator BytewiseComparator) (sample_entry u s) (sample_entry v r) < 0
      \<longleftrightarrow> u < v \<or> u = v \<and> r < s"
    unfolding eq by (auto simp: not_less)
qed

lemma skiplist_refines_sorted_list_witness:
  "\<exists>t. slr_insert_all (MemTable_KeyComparator BytewiseComparator)
      [sample_entry [2] 5, sample_entry [1] 7, sample_entry [2] 9, sample_entry [1] 7]
      (SkipListRep_new None 3 301) = Some ([True, True, True, False], t) \<and>
    sl_entries (skip_list t) = [sample_entry [1] 7, sample_entry [2] 9, sample_entry [2] 5]"
proof -
  let ?es = "[sample_entry [2] 5, sample_entry [1] 7, sample_entry [2] 9, sample_entry [1] 7]"
  have run: "sorted_insert_all (MemTable_KeyComparator BytewiseComparator) ?es [] =
      ([True, True, True, False], [sample_entry [1] 7, sample_entry [2] 9, sample_entry [2] 5])"
    by (simp add: sample_compare place_entry_def entries_before_def entries_from_def entry_less_def
        kMaxSequenceNumber_def)
  have "\<forall>e\<in>set ?es. is_entry e" by (simp add: sample_entry_ok)
  from skiplist_refines_sorted_list [OF bytewise.mem.entry_order_axioms this, of None 3 301]
  show ?thesis unfolding run fst_conv snd_conv .
qed

section \<open>Scanning\<close>

text \<open>Reading up to \<open>m\<close> entries from where an iterator stands.\<close>

primrec rep_scan :: "('t, 'i, 'a) memrep \<Rightarrow> nat \<Rightarrow> 't \<times> 'i \<Rightarrow> bytes list option" where
  "rep_scan ops 0 ti = Some []"
| "rep_scan ops (Suc m) ti =
     (case it_Valid ops ti of
        (False, _) \<Rightarrow> Some []
      | (True, ti') \<Rightarrow>
          (case it_Next ops ti' of
             None \<Rightarrow> None
           | Some ti'' \<Rightarrow> map_option ((#) (it_key ops ti')) (rep_scan ops m ti'')))"

context memtable_rep
begin

lemma scan_cursor:
  assumes "ok t" "cursor t i xs ys"
  shows "rep_scan ops m (t, i) = Some (take m ys)"
  using assms
proof (induction m arbitrary: t i xs ys)
  case (Suc m)
  obtain t1 i1 where v: "it_Valid ops (t, i) = (ys \<noteq> [], t1, i1)" "ok t1" "cursor t1 i1 xs ys"
    using Valid_iff [OF Suc.prems] by blast
  show ?case
  proof (cases ys)
    case Nil
    with v show ?thesis by simp
  next
    case (Cons y zs)
    then obtain t2 i2 where n: "it_Next ops (t1, i1) = Some (t2, i2)" "ok t2" "cursor t2 i2 (xs @ [y]) zs"
      using Next_moves [OF v(2)] v(3) by blast
    with Suc.IH [OF n(2,3)] v key_hd [OF v(2)] Cons show ?thesis by simp
  qed
qed simp

lemma seek_scan:
  assumes "ok t" "entry k"
  shows "\<exists>ti. it_Seek ops ik (Some k) (t, rep_GetIterator ops t) = Some ti \<and>
    rep_scan ops m ti = Some (take m (entries_from c k (entries t)))"
proof -
  obtain t' i' where "it_Seek ops ik (Some k) (t, rep_GetIterator ops t) = Some (t', i')" "ok t'"
      "cursor t' i' (entries_before c k (entries t)) (entries_from c k (entries t))"
    using Seek_finds [OF assms] by blast
  with scan_cursor show ?thesis by blast
qed

end

context user_key_order
begin

lemma mem_entry_order: "entry_order (MemTable_KeyComparator cmp) is_entry"
  by unfold_locales

lemma skiplist_rep: "memtable_rep (MemTable_KeyComparator cmp) is_entry
    (SkipListRep_ops (MemTable_KeyComparator cmp))
    (\<lambda>t. sl_ok (MemTable_KeyComparator cmp) is_entry (skip_list t))
    (\<lambda>t. sl_entries (skip_list t)) slr_cursor"
  by unfold_locales

end

text \<open>C29. In a memtable's skip list built by any insertions, a fresh iterator of either kind
  sought to a key and advanced yields, in order, exactly the entries that do not come before the
  key: none is skipped, repeated or out of order, and the scan ends after the last.\<close>

theorem skiplist_scan_from_key:
  assumes "user_key_order cmp" "\<forall>e\<in>set es. is_entry e" "is_entry k"
    and "slr_insert_all (MemTable_KeyComparator cmp) es (SkipListRep_new transform la seed) = Some (bs, t)"
  shows "\<exists>ti. slr_Seek (MemTable_KeyComparator cmp) ik (Some k) (t, slr_GetIterator t) = Some ti \<and>
    rep_scan (SkipListRep_ops (MemTable_KeyComparator cmp)) m ti =
      Some (take m (entries_from (MemTable_KeyComparator cmp) k
        (snd (sorted_insert_all (MemTable_KeyComparator cmp) es []))))"
proof -
  let ?c = "MemTable_KeyComparator cmp"
  have ord: "entry_order ?c is_entry" by (rule user_key_order.mem_entry_order [OF assms(1)])
  have "sl_ok ?c is_entry (skip_list t) \<and> sl_entries (skip_list t) = snd (sorted_insert_all ?c es [])"
    using entry_order.slr_insert_all_sorted [OF ord SkipListRep_new_ok(1) assms(2),
      of transform la seed] assms(4) by (auto simp: SkipListRep_new_ok(2))
  then show ?thesis
    using memtable_rep.seek_scan [OF user_key_order.skiplist_rep [OF assms(1)], of t k ik m] assms(3)
    by (simp add: SkipListRep_ops_def)
qed

lemma skiplist_scan_from_key_witness:
  "\<exists>t ti. slr_insert_all (MemTable_KeyComparator BytewiseComparator)
      [sample_entry [2] 5, sample_entry [1] 7, sample_entry [2] 9] (SkipListRep_new None 3 301) =
      Some ([True, True, True], t) \<and>
    slr_Seek (MemTable_KeyComparator BytewiseComparator) [] (Some (sample_entry [2] 8))
      (t, slr_GetIterator t) = Some ti \<and>
    rep_scan (SkipListRep_ops (MemTable_KeyComparator BytewiseComparator) ::
      (SkipListRep, sl_iter, unit) memrep) 3 ti = Some [sample_entry [2] 5]"
proof -
  let ?c = "MemTable_KeyComparator BytewiseComparator"
  let ?es = "[sample_entry [2] 5, sample_entry [1] 7, sample_entry [2] 9]"
  have ok: "\<forall>e\<in>set ?es. is_entry e" "is_entry (sample_entry [2] 8)" by (simp_all add: sample_entry_ok)
  have run: "sorted_insert_all ?c ?es [] =
      ([True, True, True], [sample_entry [1] 7, sample_entry [2] 9, sample_entry [2] 5])"
    by (simp add: sample_compare place_entry_def entries_before_def entries_from_def entry_less_def
        kMaxSequenceNumber_def)
  obtain t where t: "slr_insert_all ?c ?es (SkipListRep_new None 3 301) = Some ([True, True, True], t)"
    using bytewise.mem.slr_insert_all_sorted [OF SkipListRep_new_ok(1) ok(1), of None 3 301]
    by (auto simp only: SkipListRep_new_ok(2) run fst_conv)
  have "entries_from ?c (sample_entry [2] 8) (snd (sorted_insert_all ?c ?es [])) = [sample_entry [2] 5]"
    unfolding run by (simp add: sample_compare entries_from_def entry_less_def kMaxSequenceNumber_def)
  then have "take 3 (entries_from ?c (sample_entry [2] 8) (snd (sorted_insert_all ?c ?es []))) =
      [sample_entry [2] 5]" by simp
  moreover obtain ti where "slr_Seek ?c [] (Some (sample_entry [2] 8)) (t, slr_GetIterator t) = Some ti"
      "rep_scan (SkipListRep_ops ?c :: (SkipListRep, sl_iter, unit) memrep) 3 ti =
        Some (take 3 (entries_from ?c (sample_entry [2] 8) (snd (sorted_insert_all ?c ?es []))))"
    using skiplist_scan_from_key [OF bytewise.user_key_order_axioms ok t, of "[]" 3] by blast
  ultimately show ?thesis using t by metis
qed

section \<open>The search that goes on from the last position\<close>

context entry_order
begin

lemma lookahead_loop_finds:
  assumes "levels_ok c entry s L" "skip_list t = s" "entry k"
  shows "L 0 = P @ Q \<Longrightarrow> \<forall>n\<in>set P. klt c s k n \<Longrightarrow>
    lookahead_loop c t k steps (first_of Q) p = Inl (n, q) \<Longrightarrow>
    n = first_of (dropWhile (klt c s k) (L 0))"
proof (induction steps arbitrary: P Q p)
  case 0
  then show ?case by (simp add: lookahead_loop.simps)
next
  case (Suc steps)
  have pos: "0 < kMaxHeight s" using assms(1) by (auto simp: levels_ok_def)
  show ?case
  proof (cases Q)
    case Nil
    with Suc.prems(3) show ?thesis by (simp add: lookahead_loop.simps sli_Valid_def)
  next
    case (Cons m R)
    have e: "entry (nd_Key s m)"
      using levels_okD(2) [OF assms(1) pos, of m] Suc.prems(1) Cons by (simp add: node_ok_def)
    have key: "klt c s k m \<longleftrightarrow> \<not> compare_keys c k (nd_Key s m) \<le> 0"
      using compare_swap [OF e assms(3)] by (auto simp: klt_def entry_less_def)
    have loop: "lookahead_loop c t k (Suc steps) (Some m) p = Inl (n, q)"
      using Suc.prems(3) Cons by simp
    show ?thesis
    proof (cases "klt c s k m")
      case True
      have "nd_Next s m 0 = first_of R"
        using next_at [OF assms(1) pos, of "P @ [m]" R] Suc.prems(1) Cons by simp
      then have "lookahead_loop c t k steps (first_of R) (if advance_prev t (Some m) p then Some m else p) =
          Inl (n, q)"
        using loop True key assms(2)
        by (subst (asm) lookahead_loop.simps) (simp add: sli_Valid_def sli_key_def sli_Next_def)
      with Suc.IH [of "P @ [m]" R] Suc.prems(1,2) Cons True show ?thesis by simp
    next
      case False
      then have "n = Some m"
        using loop key assms(2)
        by (subst (asm) lookahead_loop.simps) (simp add: sli_Valid_def sli_key_def)
      moreover have "dropWhile (klt c s k) (L 0) = Q"
        using split_unique_klt(2) [OF Suc.prems(1,2)] Cons False by simp
      ultimately show ?thesis using Cons by simp
    qed
  qed
qed

lemma lookahead_loop_keeps:
  assumes "levels_ok c entry s L" "skip_list t = s"
  shows "L 0 = P @ Q \<Longrightarrow> p = None \<or> the p \<in> set (L 0) \<Longrightarrow>
    lookahead_loop c t k steps (first_of Q) p = Inl (n, q) \<Longrightarrow> q = None \<or> the q \<in> set (L 0)"
proof (induction steps arbitrary: P Q p)
  case 0
  then show ?case by (simp add: lookahead_loop.simps)
next
  case (Suc steps)
  have pos: "0 < kMaxHeight s" using assms(1) by (auto simp: levels_ok_def)
  show ?case
  proof (cases Q)
    case Nil
    with Suc.prems(3) show ?thesis by (simp add: lookahead_loop.simps sli_Valid_def)
  next
    case (Cons m R)
    have next_node: "nd_Next s m 0 = first_of R"
      using next_at [OF assms(1) pos, of "P @ [m]" R] Suc.prems(1) Cons by simp
    let ?p = "if advance_prev t (Some m) p then Some m else p"
    have kept: "?p = None \<or> the ?p \<in> set (L 0)" using Suc.prems(1,2) Cons by auto
    have "lookahead_loop c t k (Suc steps) (Some m) p = Inl (n, q)" using Suc.prems(3) Cons by simp
    then consider "q = p" | "lookahead_loop c t k steps (first_of R) ?p = Inl (n, q)"
      by (subst (asm) lookahead_loop.simps)
        (auto simp: sli_Valid_def sli_Next_def next_node assms(2) split: if_split_asm)
    then show ?thesis
    proof cases
      case 1
      with Suc.prems(2) show ?thesis by simp
    next
      case 2
      from Suc.IH [OF _ kept 2] Suc.prems(1) Cons show ?thesis by simp
    qed
  qed
qed

lemma look_Seek_first:
  assumes "sl_ok c entry (skip_list t)" "entry k" "p = None \<or> the p \<in> set (sl_nodes (skip_list t))"
  shows "\<exists>m q. look_Seek c t k n p = Some (m, q) \<and> sli_Seek c (skip_list t) k = Some m
    \<and> (q = None \<or> the q \<in> set (sl_nodes (skip_list t)))"
proof -
  let ?s = "skip_list t"
  obtain L where L: "levels_ok c entry ?s L" using assms(1) by (auto simp: sl_ok_def)
  have pos: "0 < kMaxHeight ?s" using L by (auto simp: levels_ok_def)
  note find = FindGreaterOrEqual_first [OF L assms(2)]
  have found: "q = None \<or> the q \<in> set (sl_nodes ?s)" if "q = first_of (dropWhile (klt c ?s k) (L 0))" for q
  proof -
    have "set (dropWhile (klt c ?s k) (L 0)) \<subseteq> set (L 0)" by (auto dest: set_dropWhileD)
    then show ?thesis using that nodes_level [OF L] by (cases "dropWhile (klt c ?s k) (L 0)") auto
  qed
  show ?thesis
  proof (cases "sli_Valid p \<and> compare_keys c k (sli_key ?s p) \<ge> 0")
    case True
    then obtain m where m: "p = Some m" "compare_keys c k (nd_Key ?s m) \<ge> 0"
      by (auto simp: sli_Valid_def sli_key_def)
    then have "m \<in> set (L 0)" using assms(3) nodes_level [OF L] by simp
    then obtain P R where split: "L 0 = P @ m # R" by (meson split_list)
    have e: "entry (nd_Key ?s x)" if "x \<in> set (L 0)" for x
      using levels_okD(2) [OF L pos that] by (simp add: node_ok_def)
    have nk: "\<not> less k (nd_Key ?s m)" using m(2) by (simp add: entry_less_def)
    have "klt c ?s k x" if "x \<in> set P" for x
      using less_le_trans [OF e e assms(2) split_klt [OF L pos split that] nk] that split
      by (simp add: klt_def)
    then have all: "\<forall>x\<in>set P. klt c ?s k x" by blast
    show ?thesis
    proof (cases "lookahead_loop c t k (lookahead t + 1) p p")
      case (Inl nq)
      obtain n' q where nq: "nq = (n', q)" by (rule prod.exhaust)
      have "n' = first_of (dropWhile (klt c ?s k) (L 0))"
        using lookahead_loop_finds [OF L refl assms(2) split all] Inl nq m(1) by simp
      moreover have "q = None \<or> the q \<in> set (sl_nodes ?s)"
        using lookahead_loop_keeps [OF L refl split, of p] Inl nq m(1) assms(3) nodes_level [OF L] by simp
      ultimately show ?thesis using True Inl nq find by (simp add: look_Seek_def sli_Seek_def)
    next
      case (Inr nq)
      then show ?thesis using True find found by (simp add: look_Seek_def sli_Seek_def)
    qed
  next
    case False
    then show ?thesis using find found by (auto simp: look_Seek_def sli_Seek_def)
  qed
qed

end

text \<open>C30. The iterator that first looks a few nodes ahead of the last position it kept always
  returns with the node that the search from the head finds, and the position it keeps is on the
  list again: the shortcut is sound for every kept position on the list, every key and every bound
  on the steps.\<close>

theorem lookahead_seek_exact:
  assumes "entry_order c entry" "sl_ok c entry (skip_list t)" "entry k"
    and "p = None \<or> the p \<in> set (sl_nodes (skip_list t))"
  shows "\<exists>m q. look_Seek c t k n p = Some (m, q) \<and> sli_Seek c (skip_list t) k = Some m
    \<and> (q = None \<or> the q \<in> set (sl_nodes (skip_list t)))"
  by (rule entry_order.look_Seek_first [OF assms])

lemma lookahead_seek_exact_witness:
  "\<exists>t p m q. slr_insert_all (MemTable_KeyComparator BytewiseComparator)
      [sample_entry [2] 5, sample_entry [1] 7, sample_entry [2] 9] (SkipListRep_new None 3 301) =
      Some ([True, True, True], t) \<and>
    nd_Key (skip_list t) p = sample_entry [1] 7 \<and>
    sli_Valid (Some p) \<and>
    0 \<le> compare_keys (MemTable_KeyComparator BytewiseComparator) (sample_entry [2] 8)
      (sli_key (skip_list t) (Some p)) \<and>
    look_Seek (MemTable_KeyComparator BytewiseComparator) t (sample_entry [2] 8) None (Some p) =
      Some (m, q) \<and>
    sli_Seek (MemTable_KeyComparator BytewiseComparator) (skip_list t) (sample_entry [2] 8) = Some m"
proof -
  let ?c = "MemTable_KeyComparator BytewiseComparator"
  let ?es = "[sample_entry [2] 5, sample_entry [1] 7, sample_entry [2] 9]"
  have ok: "\<forall>e\<in>set ?es. is_entry e" "is_entry (sample_entry [2] 8)" by (simp_all add: sample_entry_ok)
  have run: "sorted_insert_all ?c ?es [] =
      ([True, True, True], [sample_entry [1] 7, sample_entry [2] 9, sample_entry [2] 5])"
    by (simp add: sample_compare place_entry_def entries_before_def entries_from_def entry_less_def
        kMaxSequenceNumber_def)
  obtain t where t: "slr_insert_all ?c ?es (SkipListRep_new None 3 301) = Some ([True, True, True], t)"
      "sl_ok ?c is_entry (skip_list t)"
      "sl_entries (skip_list t) = [sample_entry [1] 7, sample_entry [2] 9, sample_entry [2] 5]"
    using bytewise.mem.slr_insert_all_sorted [OF SkipListRep_new_ok(1) ok(1), of None 3 301]
    by (auto simp only: SkipListRep_new_ok(2) run fst_conv snd_conv)
  obtain p where p: "p \<in> set (sl_nodes (skip_list t))" "nd_Key (skip_list t) p = sample_entry [1] 7"
    using t(3) by (cases "sl_nodes (skip_list t)") (auto simp: sl_entries_def)
  have "0 \<le> compare_keys ?c (sample_entry [2] 8) (sli_key (skip_list t) (Some p))"
    using sample_compare(2) [of "[2]" "[1]" 8 7]
    by (simp add: sli_key_def p(2) kMaxSequenceNumber_def flip: not_less)
  moreover obtain m q where "look_Seek ?c t (sample_entry [2] 8) None (Some p) = Some (m, q)"
      "sli_Seek ?c (skip_list t) (sample_entry [2] 8) = Some m"
    using lookahead_seek_exact [OF bytewise.mem_entry_order t(2) ok(2), of "Some p" None] p(1) by auto
  ultimately show ?thesis using t(1) p(2) by (intro exI conjI) (simp_all add: sli_Valid_def)
qed

end
