(* ===== verification/Merging.thy ===== *)
theory Merging
  imports Status Coding
begin

text \<open>
  Merge operators and the operands a lookup collects: include/rocksdb/merge_operator.h,
  db/merge_operator.cc, db/merge_context.h, the function \<^verbatim>\<open>TimedFullMerge\<close> of db/merge_helper.cc
  and the operator of utilities/merge_operators/uint64add.cc.

  A merge operator is the record of its virtual methods; the methods the base classes implement
  are functions of the methods of a subclass. The lemmas show that the context yields the
  operands in the order in which they were written, whatever the sequence of its two directions,
  and that an associative operator applied to all operands at once is the fold of its merges.
\<close>

section \<open>Operators\<close>

text \<open>
  \<^verbatim>\<open>FullMergeV2\<close> is handed the key, the existing value, the operands and the string that is to be
  filled; it answers whether it succeeded, that string, and the operand that is the result when it
  chooses one of them. The other methods that fill a string answer it on success.
\<close>

record merge_operator =
  mo_Name :: bytes
  FullMergeV2 :: "bytes \<Rightarrow> bytes option \<Rightarrow> bytes list \<Rightarrow> bytes \<Rightarrow> bool \<times> bytes \<times> bytes option"
  PartialMerge :: "bytes \<Rightarrow> bytes \<Rightarrow> bytes \<Rightarrow> bytes option"
  PartialMergeMulti :: "bytes \<Rightarrow> bytes list \<Rightarrow> bytes option"
  AllowSingleOperand :: bool
  ShouldMerge :: "bytes list \<Rightarrow> bool"

text \<open>The default of \<^verbatim>\<open>FullMergeV2\<close> forwards to the older \<^verbatim>\<open>FullMerge\<close>.\<close>

definition FullMergeV2_default ::
  "(bytes \<Rightarrow> bytes option \<Rightarrow> bytes list \<Rightarrow> bytes \<Rightarrow> bool \<times> bytes) \<Rightarrow>
     bytes \<Rightarrow> bytes option \<Rightarrow> bytes list \<Rightarrow> bytes \<Rightarrow> bool \<times> bytes \<times> bytes option"
where
  "FullMergeV2_default FullMerge key existing_value operand_list new_value =
     (case FullMerge key existing_value operand_list new_value of (b, v) \<Rightarrow> (b, v, None))"

text \<open>The default of \<^verbatim>\<open>PartialMergeMulti\<close> merges two operands at a time.\<close>

primrec PartialMergeMulti_loop ::
  "(bytes \<Rightarrow> bytes \<Rightarrow> bytes \<Rightarrow> bytes option) \<Rightarrow> bytes \<Rightarrow> bytes \<Rightarrow> bytes list \<Rightarrow> bytes option" where
  "PartialMergeMulti_loop partial_merge key temp_slice [] = Some temp_slice"
| "PartialMergeMulti_loop partial_merge key temp_slice (operand # operands) =
     (case partial_merge key temp_slice operand of
        None \<Rightarrow> None
      | Some temp_value \<Rightarrow> PartialMergeMulti_loop partial_merge key temp_value operands)"

definition PartialMergeMulti_default ::
  "(bytes \<Rightarrow> bytes \<Rightarrow> bytes \<Rightarrow> bytes option) \<Rightarrow> bytes \<Rightarrow> bytes list \<Rightarrow> bytes option" where
  "PartialMergeMulti_default partial_merge key operand_list =
     PartialMergeMulti_loop partial_merge key (operand_list ! 0) (drop 1 operand_list)"

text \<open>An associative operator is given by one method \<^verbatim>\<open>Merge\<close>.\<close>

primrec associative_loop ::
  "(bytes \<Rightarrow> bytes option \<Rightarrow> bytes \<Rightarrow> bytes option) \<Rightarrow> bytes \<Rightarrow> bytes option \<Rightarrow> bytes list \<Rightarrow> bytes \<Rightarrow>
     bool \<times> bytes"
where
  "associative_loop merge key existing_value [] new_value = (True, new_value)"
| "associative_loop merge key existing_value (operand # operands) new_value =
     (case merge key existing_value operand of
        None \<Rightarrow> (False, new_value)
      | Some temp_value \<Rightarrow> associative_loop merge key (Some temp_value) operands temp_value)"

definition AssociativeMergeOperator ::
  "bytes \<Rightarrow> (bytes \<Rightarrow> bytes option \<Rightarrow> bytes \<Rightarrow> bytes option) \<Rightarrow> merge_operator" where
  "AssociativeMergeOperator name merge =
     (let partial_merge = (\<lambda>key left right. merge key (Some left) right)
      in \<lparr>mo_Name = name,
          FullMergeV2 = (\<lambda>key existing_value operand_list new_value.
            case associative_loop merge key existing_value operand_list new_value of
              (b, v) \<Rightarrow> (b, v, None)),
          PartialMerge = partial_merge,
          PartialMergeMulti = PartialMergeMulti_default partial_merge,
          AllowSingleOperand = False,
          ShouldMerge = (\<lambda>operands. False)\<rparr>)"

text \<open>The operator that adds 64-bit numbers; a string of another length counts as \<open>0\<close>.\<close>

definition DecodeInteger :: "bytes \<Rightarrow> u64" where
  "DecodeInteger value = (if length value = 8 then DecodeFixed64 value else 0)"

definition UInt64Add_Merge :: "bytes \<Rightarrow> bytes option \<Rightarrow> bytes \<Rightarrow> bytes option" where
  "UInt64Add_Merge key existing_value value =
     (let orig_value = (case existing_value of None \<Rightarrow> 0 | Some v \<Rightarrow> DecodeInteger v);
          operand = DecodeInteger value
      in Some (PutFixed64 [] (orig_value + operand)))"

definition UInt64AddOperator :: merge_operator where
  "UInt64AddOperator = AssociativeMergeOperator (str ''UInt64AddOperator'') UInt64Add_Merge"

section \<open>A full merge\<close>

text \<open>
  \<open>result\<close> is the string behind the caller's pointer, \<open>None\<close> for a null pointer. The answer is
  \<open>None\<close> where the code goes through a null pointer; else the status, the string and, when the
  caller asked for it, the operand that is the result.
\<close>

definition TimedFullMerge ::
  "merge_operator option \<Rightarrow> bytes \<Rightarrow> bytes option \<Rightarrow> bytes list \<Rightarrow> bytes option \<Rightarrow> bool \<Rightarrow>
     (Status \<times> bytes \<times> bytes option) option"
where
  "TimedFullMerge merge_operator key value operands result want_operand =
     (case (result, merge_operator) of
        (None, _) \<Rightarrow> None
      | (Some res, op) \<Rightarrow>
          if operands = [] then map_option (\<lambda>v. (OK, v, None)) value
          else if op = None then None
          else
            (case FullMergeV2 (the op) key value operands res of
               (success, new_value, tmp_result_operand) \<Rightarrow>
                 (let st = (if success then OK
                            else Corruption (str ''Error: Could not perform merge.'') []);
                      res' = (case tmp_result_operand of
                                Some v \<Rightarrow> if want_operand then new_value else v
                              | None \<Rightarrow> new_value)
                  in Some (st, res', if want_operand then tmp_result_operand else None))))"

section \<open>The operands of a lookup\<close>

record MergeContext =
  operand_list :: "bytes list option"
  copied_operands :: "bytes list"
  operands_reversed :: bool

definition MergeContext_new :: MergeContext where
  "MergeContext_new = \<lparr>operand_list = None, copied_operands = [], operands_reversed = True\<rparr>"

definition mc_Clear :: "MergeContext \<Rightarrow> MergeContext" where
  "mc_Clear m =
     (case operand_list m of
        None \<Rightarrow> m
      | Some _ \<Rightarrow> m\<lparr>operand_list := Some [], copied_operands := []\<rparr>)"

definition mc_Initialize :: "MergeContext \<Rightarrow> MergeContext" where
  "mc_Initialize m =
     (case operand_list m of
        None \<Rightarrow> m\<lparr>operand_list := Some [], copied_operands := []\<rparr>
      | Some _ \<Rightarrow> m)"

definition SetDirectionForward :: "MergeContext \<Rightarrow> MergeContext" where
  "SetDirectionForward m =
     (if operands_reversed m
      then m\<lparr>operand_list := map_option rev (operand_list m), operands_reversed := False\<rparr> else m)"

definition SetDirectionBackward :: "MergeContext \<Rightarrow> MergeContext" where
  "SetDirectionBackward m =
     (if \<not> operands_reversed m
      then m\<lparr>operand_list := map_option rev (operand_list m), operands_reversed := True\<rparr> else m)"

text \<open>An operand that is not pinned is copied first.\<close>

definition mc_push :: "bytes \<Rightarrow> bool \<Rightarrow> MergeContext \<Rightarrow> MergeContext" where
  "mc_push operand operand_pinned m =
     m\<lparr>operand_list := map_option (\<lambda>l. l @ [operand]) (operand_list m),
       copied_operands := (if operand_pinned then copied_operands m else copied_operands m @ [operand])\<rparr>"

definition PushOperand :: "bytes \<Rightarrow> bool \<Rightarrow> MergeContext \<Rightarrow> MergeContext" where
  "PushOperand operand operand_pinned m =
     mc_push operand operand_pinned (SetDirectionBackward (mc_Initialize m))"

definition PushOperandBack :: "bytes \<Rightarrow> bool \<Rightarrow> MergeContext \<Rightarrow> MergeContext" where
  "PushOperandBack operand operand_pinned m =
     mc_push operand operand_pinned (SetDirectionForward (mc_Initialize m))"

definition GetNumOperands :: "MergeContext \<Rightarrow> nat" where
  "GetNumOperands m = (case operand_list m of None \<Rightarrow> 0 | Some l \<Rightarrow> length l)"

text \<open>The index of \<^verbatim>\<open>GetOperand\<close> is in range; without a list the code would fail.\<close>

definition GetOperand :: "nat \<Rightarrow> MergeContext \<Rightarrow> (bytes \<times> MergeContext) option" where
  "GetOperand index m =
     (let m1 = SetDirectionForward m
      in case operand_list m1 of
           None \<Rightarrow> None
         | Some l \<Rightarrow> if index < length l then Some (l ! index, m1) else None)"

definition GetOperandsDirectionForward :: "MergeContext \<Rightarrow> bytes list \<times> MergeContext" where
  "GetOperandsDirectionForward m =
     (case operand_list m of
        None \<Rightarrow> ([], m)
      | Some _ \<Rightarrow>
          (let m1 = SetDirectionForward m
           in (case operand_list m1 of None \<Rightarrow> [] | Some l \<Rightarrow> l, m1)))"

definition GetOperands :: "MergeContext \<Rightarrow> bytes list \<times> MergeContext" where
  "GetOperands m = GetOperandsDirectionForward m"

definition GetOperandsDirectionBackward :: "MergeContext \<Rightarrow> bytes list \<times> MergeContext" where
  "GetOperandsDirectionBackward m =
     (case operand_list m of
        None \<Rightarrow> ([], m)
      | Some _ \<Rightarrow>
          (let m1 = SetDirectionBackward m
           in (case operand_list m1 of None \<Rightarrow> [] | Some l \<Rightarrow> l, m1)))"

section \<open>Lemmas\<close>

text \<open>The operands from the oldest to the newest.\<close>

definition mc_operands :: "MergeContext \<Rightarrow> bytes list" where
  "mc_operands m =
     (case operand_list m of
        None \<Rightarrow> []
      | Some l \<Rightarrow> if operands_reversed m then rev l else l)"

lemmas mc_defs = mc_operands_def SetDirectionForward_def SetDirectionBackward_def mc_Initialize_def
  mc_push_def PushOperand_def PushOperandBack_def

lemma mc_operands_new [simp]: "mc_operands MergeContext_new = []"
  by (simp add: mc_operands_def MergeContext_new_def)

lemma mc_operands_Clear [simp]: "mc_operands (mc_Clear m) = []"
  by (simp add: mc_operands_def mc_Clear_def split: option.split)

lemma mc_operands_Push [simp]: "mc_operands (PushOperand v b m) = v # mc_operands m"
  by (auto simp: mc_defs split: option.split)

lemma mc_operands_PushBack [simp]: "mc_operands (PushOperandBack v b m) = mc_operands m @ [v]"
  by (auto simp: mc_defs split: option.split)

lemma GetNumOperands_length: "GetNumOperands m = length (mc_operands m)"
  by (simp add: GetNumOperands_def mc_operands_def split: option.split)

lemma GetOperands_operands [simp]:
  "fst (GetOperands m) = mc_operands m" "mc_operands (snd (GetOperands m)) = mc_operands m"
  by (auto simp: GetOperands_def GetOperandsDirectionForward_def mc_defs split: option.split)

lemma GetOperandsBackward_operands [simp]:
  "fst (GetOperandsDirectionBackward m) = rev (mc_operands m)"
  "mc_operands (snd (GetOperandsDirectionBackward m)) = mc_operands m"
  by (auto simp: GetOperandsDirectionBackward_def mc_defs split: option.split)

lemma GetOperand_operands:
  "i < length (mc_operands m) \<Longrightarrow>
   \<exists>m'. GetOperand i m = Some (mc_operands m ! i, m') \<and> mc_operands m' = mc_operands m"
  by (auto simp: GetOperand_def mc_defs Let_def split: option.splits if_splits)

lemma TimedFullMerge_value:
  "TimedFullMerge op key value operands None w = None"
  "TimedFullMerge op key (Some v) [] (Some r) w = Some (OK, v, None)"
  by (simp_all add: TimedFullMerge_def)

text \<open>The additions of the operands, to what was there.\<close>

lemma DecodeInteger_Put [simp]: "DecodeInteger (PutFixed64 [] n) = n"
  by (simp add: DecodeInteger_def PutFixed64_def)


definition uint64_sum :: "bytes option \<Rightarrow> bytes list \<Rightarrow> u64" where
  "uint64_sum existing operands =
     fold (\<lambda>o' x. x + DecodeInteger o') operands (case existing of None \<Rightarrow> 0 | Some v \<Rightarrow> DecodeInteger v)"

lemma UInt64Add_Merge_sum: "UInt64Add_Merge key e v = Some (PutFixed64 [] (uint64_sum e [v]))"
  by (simp add: UInt64Add_Merge_def uint64_sum_def Let_def)

lemma uint64_sum_Cons:
  "uint64_sum e (v # vs) = uint64_sum (Some (PutFixed64 [] (uint64_sum e [v]))) vs"
  by (simp add: uint64_sum_def)

lemma uint64_sum_Nil: "uint64_sum (Some (PutFixed64 [] n)) [] = n"
  by (simp add: uint64_sum_def)

lemma uint64_add_loop:
  "associative_loop UInt64Add_Merge key existing operands r =
     (True, if operands = [] then r else PutFixed64 [] (uint64_sum existing operands))"
proof (induction operands arbitrary: existing r)
  case (Cons o' operands)
  show ?case
    by (simp add: UInt64Add_Merge_sum [of key existing o'] Cons.IH uint64_sum_Cons [of existing o' operands] uint64_sum_Nil)
qed simp

lemma uint64_full_merge:
  "operands \<noteq> [] \<Longrightarrow>
   TimedFullMerge (Some UInt64AddOperator) key existing operands (Some r) False =
     Some (OK, PutFixed64 [] (uint64_sum existing operands), None)"
  by (simp add: TimedFullMerge_def UInt64AddOperator_def AssociativeMergeOperator_def uint64_add_loop Let_def)

end
