(* ===== verification/Bloom.thy ===== *)
theory Bloom
  imports Coding
begin

text \<open>
  The filter of a memtable: the hash of util/hash.cc, \<^verbatim>\<open>fastrange32\<close> of util/hash.h, and class
  \<^verbatim>\<open>DynamicBloom\<close> of util/dynamic_bloom.h and util/dynamic_bloom.cc. The array of 64-bit words is
  a list; the alignment of its memory has no effect on its contents.

  The lemmas show that the probes of every key stay inside the array of a filter made by the
  constructor, and that a key that was added is always found.
\<close>

section \<open>The hash\<close>

definition hash_m :: u32 where "hash_m = 0xc6a4a793"

text \<open>The loop over groups of four bytes, and what remains.\<close>

fun hash_loop :: "u32 \<Rightarrow> bytes \<Rightarrow> u32 \<times> bytes" where
  "hash_loop h (a # b # c # d # data) =
     (let w = DecodeFixed32 [a, b, c, d];
          h1 = (h + w) * hash_m
      in hash_loop (h1 XOR drop_bit 16 h1) data)"
| "hash_loop h data = (h, data)"

definition hash_tail :: "u32 \<Rightarrow> bytes \<Rightarrow> u32" where
  "hash_tail h data =
     (let n = length data;
          h1 = (if n = 3 then h + push_bit 16 (scast (data ! 2)) else h);
          h2 = (if n \<ge> 2 then h1 + push_bit 8 (scast (data ! 1)) else h1);
          h3 = (h2 + scast (data ! 0)) * hash_m
      in if n = 0 then h else h3 XOR drop_bit 24 h3)"

definition Hash :: "bytes \<Rightarrow> u32 \<Rightarrow> u32" where
  "Hash data seed =
     (let (h, rest) = hash_loop (ucast ((ucast seed :: u64) XOR (of_nat (length data) * ucast hash_m))) data
      in hash_tail h rest)"

definition BloomHash :: "bytes \<Rightarrow> u32" where
  "BloomHash key = Hash key 0xbc9f1d34"

definition GetSliceHash :: "bytes \<Rightarrow> u32" where
  "GetSliceHash s = Hash s 397"

definition fastrange32 :: "u32 \<Rightarrow> u32 \<Rightarrow> u32" where
  "fastrange32 a h = (let product = (ucast a :: u64) * ucast h in ucast (drop_bit 32 product))"

section \<open>The filter\<close>

record DynamicBloom =
  bl_kLen :: u32
  kNumDoubleProbes :: u32
  bl_data :: "u64 list"

text \<open>A number beyond \<open>2 ^ 31\<close> makes the loop run for ever.\<close>

partial_function (option) roundUp_loop :: "u32 \<Rightarrow> u32 \<Rightarrow> u32 option" where
  "roundUp_loop x rv = (if rv < x then roundUp_loop x (push_bit 1 rv) else Some rv)"

definition roundUpToPow2 :: "u32 \<Rightarrow> u32 option" where
  "roundUpToPow2 x = roundUp_loop x 1"

definition DynamicBloom_new :: "u32 \<Rightarrow> u32 \<Rightarrow> DynamicBloom option" where
  "DynamicBloom_new total_bits num_probes =
     (let probes = (num_probes + (if num_probes = 1 then 1 else 0)) div 2
      in case roundUpToPow2 probes of
           None \<Rightarrow> None
         | Some p \<Rightarrow>
             (let block_bytes = 8 * max 1 p;
                  block_bits = block_bytes * 8;
                  blocks = (total_bits + block_bits - 1) div block_bits;
                  sz = blocks * block_bytes;
                  len = sz div 8
              in Some \<lparr>bl_kLen = len, kNumDoubleProbes = probes, bl_data = replicate (unat len) 0\<rparr>))"

definition bloom_remix :: "u32 \<Rightarrow> u64" where
  "bloom_remix h32 = 0x9e3779b97f4a7c13 * ucast h32"

definition bloom_mask :: "u64 \<Rightarrow> u64" where
  "bloom_mask h = push_bit (unat (h AND 63)) 1 OR push_bit (unat (drop_bit 6 h AND 63)) 1"

definition bloom_rotate :: "u64 \<Rightarrow> u64" where
  "bloom_rotate h = drop_bit 12 h OR push_bit 52 h"

function AddHash_loop :: "nat \<Rightarrow> nat \<Rightarrow> u64 \<Rightarrow> nat \<Rightarrow> u64 list \<Rightarrow> u64 list" where
  "AddHash_loop probes a h i data =
     (let data' = data[a XOR i := data ! (a XOR i) OR bloom_mask h]
      in if i + 1 \<ge> probes then data' else AddHash_loop probes a (bloom_rotate h) (i + 1) data')"
  by auto
termination by (relation "measure (\<lambda>(probes, _, _, i, _). probes - i)") auto

function MayContainHash_loop :: "nat \<Rightarrow> nat \<Rightarrow> u64 \<Rightarrow> nat \<Rightarrow> u64 list \<Rightarrow> bool" where
  "MayContainHash_loop probes a h i data =
     (let mask = bloom_mask h;
          val = data ! (a XOR i)
      in if i + 1 \<ge> probes then val AND mask = mask
         else if val AND mask \<noteq> mask then False
         else MayContainHash_loop probes a (bloom_rotate h) (i + 1) data)"
  by auto
termination by (relation "measure (\<lambda>(probes, _, _, i, _). probes - i)") auto

declare AddHash_loop.simps [simp del] MayContainHash_loop.simps [simp del]

definition bloom_AddHash :: "u32 \<Rightarrow> DynamicBloom \<Rightarrow> DynamicBloom" where
  "bloom_AddHash h32 b =
     b\<lparr>bl_data := AddHash_loop (unat (kNumDoubleProbes b)) (unat (fastrange32 (bl_kLen b) h32))
                   (bloom_remix h32) 0 (bl_data b)\<rparr>"

text \<open>
  \<^verbatim>\<open>AddHashConcurrently\<close> differs in that it skips a word that has the bits already, which
  leaves the same word.
\<close>

function AddHashConcurrently_loop :: "nat \<Rightarrow> nat \<Rightarrow> u64 \<Rightarrow> nat \<Rightarrow> u64 list \<Rightarrow> u64 list" where
  "AddHashConcurrently_loop probes a h i data =
     (let mask = bloom_mask h;
          data' = (if mask AND data ! (a XOR i) \<noteq> mask
                   then data[a XOR i := data ! (a XOR i) OR mask] else data)
      in if i + 1 \<ge> probes then data'
         else AddHashConcurrently_loop probes a (bloom_rotate h) (i + 1) data')"
  by auto
termination by (relation "measure (\<lambda>(probes, _, _, i, _). probes - i)") auto

declare AddHashConcurrently_loop.simps [simp del]

definition bloom_AddHashConcurrently :: "u32 \<Rightarrow> DynamicBloom \<Rightarrow> DynamicBloom" where
  "bloom_AddHashConcurrently h32 b =
     b\<lparr>bl_data := AddHashConcurrently_loop (unat (kNumDoubleProbes b))
                   (unat (fastrange32 (bl_kLen b) h32)) (bloom_remix h32) 0 (bl_data b)\<rparr>"

definition bloom_MayContainHash :: "u32 \<Rightarrow> DynamicBloom \<Rightarrow> bool" where
  "bloom_MayContainHash h32 b =
     MayContainHash_loop (unat (kNumDoubleProbes b)) (unat (fastrange32 (bl_kLen b) h32))
       (bloom_remix h32) 0 (bl_data b)"

definition bloom_Add :: "bytes \<Rightarrow> DynamicBloom \<Rightarrow> DynamicBloom" where
  "bloom_Add key = bloom_AddHash (BloomHash key)"

definition bloom_AddConcurrently :: "bytes \<Rightarrow> DynamicBloom \<Rightarrow> DynamicBloom" where
  "bloom_AddConcurrently key = bloom_AddHashConcurrently (BloomHash key)"

definition bloom_MayContain :: "bytes \<Rightarrow> DynamicBloom \<Rightarrow> bool" where
  "bloom_MayContain key = bloom_MayContainHash (BloomHash key)"

section \<open>Lemmas\<close>

text \<open>The probes of a hash: the words it looks at, with the bits it looks for.\<close>

function probe_list :: "nat \<Rightarrow> nat \<Rightarrow> u64 \<Rightarrow> nat \<Rightarrow> (nat \<times> u64) list" where
  "probe_list probes a h i =
     (a XOR i, bloom_mask h) #
     (if i + 1 \<ge> probes then [] else probe_list probes a (bloom_rotate h) (i + 1))"
  by auto
termination by (relation "measure (\<lambda>(probes, _, _, i). probes - i)") auto

declare probe_list.simps [simp del]

definition set_bits :: "nat \<times> u64 \<Rightarrow> u64 list \<Rightarrow> u64 list" where
  "set_bits jm data = data[fst jm := data ! fst jm OR snd jm]"

lemma set_bits_pair: "set_bits (j, m) data = data[j := data ! j OR m]"
  by (simp add: set_bits_def)

definition has_bits :: "u64 list \<Rightarrow> nat \<times> u64 \<Rightarrow> bool" where
  "has_bits data jm \<longleftrightarrow> data ! fst jm AND snd jm = snd jm"

lemma AddHash_loop_fold: "AddHash_loop probes a h i data = fold set_bits (probe_list probes a h i) data"
proof (induction probes a h i data rule: AddHash_loop.induct)
  case (1 probes a h i data)
  show ?case
    by (subst AddHash_loop.simps, subst probe_list.simps) (auto simp: 1 [OF refl, simplified] Let_def set_bits_pair)
qed

lemma MayContainHash_loop_all:
  "MayContainHash_loop probes a h i data \<longleftrightarrow> (\<forall>jm\<in>set (probe_list probes a h i). has_bits data jm)"
proof (induction probes a h i data rule: MayContainHash_loop.induct)
  case (1 probes a h i data)
  show ?case
    by (subst MayContainHash_loop.simps, subst probe_list.simps) (auto simp: 1 [OF refl refl, simplified] Let_def has_bits_def)
qed

lemma or_eq_iff: "(d :: u64) OR m = d \<longleftrightarrow> m AND d = m"
proof
  assume "d OR m = d"
  then have "m AND d = m AND (d OR m)" by simp
  also have "\<dots> = m" by (rule bit_word_eqI) (auto simp: bit_simps)
  finally show "m AND d = m" .
next
  assume "m AND d = m"
  then have "d OR m = d OR (m AND d)" by simp
  also have "\<dots> = d" by (rule bit_word_eqI) (auto simp: bit_simps)
  finally show "d OR m = d" .
qed

lemma AddHashConcurrently_loop_eq:
  "AddHashConcurrently_loop probes a h i data = AddHash_loop probes a h i data"
proof (induction probes a h i data rule: AddHash_loop.induct)
  case (1 probes a h i data)
  have "(if bloom_mask h AND data ! (a XOR i) \<noteq> bloom_mask h
      then data[a XOR i := data ! (a XOR i) OR bloom_mask h] else data) =
      data[a XOR i := data ! (a XOR i) OR bloom_mask h]"
  proof (cases "bloom_mask h AND data ! (a XOR i) = bloom_mask h")
    case True
    then have "data ! (a XOR i) OR bloom_mask h = data ! (a XOR i)" by (simp only: or_eq_iff)
    with True show ?thesis by simp
  qed simp
  then show ?case
    by (subst AddHashConcurrently_loop.simps, subst AddHash_loop.simps) (simp add: 1 [OF refl, simplified] Let_def)
qed

lemma bloom_AddHashConcurrently_eq: "bloom_AddHashConcurrently = bloom_AddHash"
  by (simp add: fun_eq_iff bloom_AddHashConcurrently_def bloom_AddHash_def AddHashConcurrently_loop_eq)

lemma length_set_bits [simp]: "length (set_bits jm data) = length data"
  by (simp add: set_bits_def)

lemma length_fold_set_bits [simp]: "length (fold set_bits jms data) = length data"
  by (induction jms arbitrary: data) simp_all

lemma and_or_keep: "(d :: u64) AND m = m \<Longrightarrow> (d OR m') AND m = m"
proof -
  assume m: "d AND m = m"
  have "bit d n" if "bit m n" for n using m that by (metis bit_and_iff)
  then show ?thesis by (intro bit_word_eqI) (auto simp: bit_simps)
qed

lemma has_bits_set: "has_bits data jm \<Longrightarrow> has_bits (set_bits jm' data) jm"
proof (cases "fst jm' < length data \<and> fst jm = fst jm'")
  case False
  then have "set_bits jm' data ! fst jm = data ! fst jm"
    by (cases "fst jm' < length data") (auto simp: set_bits_def list_update_beyond)
  then show "has_bits data jm \<Longrightarrow> ?thesis" by (simp add: has_bits_def)
qed (simp add: has_bits_def set_bits_def and_or_keep)

lemma has_bits_fold: "has_bits data jm \<Longrightarrow> has_bits (fold set_bits jms data) jm"
  by (induction jms arbitrary: data) (simp_all add: has_bits_set)

lemma or_and_self: "(d OR m) AND m = (m :: u64)"
  by (rule bit_word_eqI) (auto simp: bit_simps)

lemma has_bits_same: "fst jm < length data \<Longrightarrow> has_bits (set_bits jm data) jm"
  by (simp add: has_bits_def set_bits_def or_and_self)

lemma fold_set_bits_all:
  "\<forall>jm\<in>set jms. fst jm < length data \<Longrightarrow> \<forall>jm\<in>set jms. has_bits (fold set_bits jms data) jm"
proof (induction jms arbitrary: data)
  case (Cons jm jms)
  then show ?case using has_bits_fold [OF has_bits_same [of jm data], of jms] by simp
qed simp

section \<open>The array\<close>

definition bloom_ok :: "DynamicBloom \<Rightarrow> bool" where
  "bloom_ok b \<longleftrightarrow>
     length (bl_data b) = unat (bl_kLen b) \<and> 0 < bl_kLen b \<and> 0 < unat (kNumDoubleProbes b) \<and>
     (\<forall>a<unat (bl_kLen b). \<forall>i<unat (kNumDoubleProbes b). (a XOR i) < unat (bl_kLen b))"

definition bloom_probes :: "DynamicBloom \<Rightarrow> u32 \<Rightarrow> (nat \<times> u64) list" where
  "bloom_probes b h32 =
     probe_list (unat (kNumDoubleProbes b)) (unat (fastrange32 (bl_kLen b) h32)) (bloom_remix h32) 0"

lemma fastrange32_less: "0 < a \<Longrightarrow> unat (fastrange32 a h) < unat a"
proof -
  assume a: "0 < a"
  have ub: "unat a < 2 ^ 32" "unat h < 2 ^ 32"
    using unsigned_less [of a] unsigned_less [of h] by simp_all
  have prod: "unat a * unat h < 2 ^ 64"
    using mult_strict_mono [OF ub] by (simp add: word_less_nat_alt)
  have "unat (ucast a :: u64) = unat a" "unat (ucast h :: u64) = unat h"
    using ub by (simp_all add: unsigned_ucast_eq take_bit_nat_eq_self)
  with prod have "unat ((ucast a :: u64) * ucast h) = unat a * unat h"
    by (simp add: unat_word_ariths)
  then have "unat (drop_bit 32 ((ucast a :: u64) * ucast h)) = unat a * unat h div 2 ^ 32"
    by (simp add: unat_drop_bit_div)
  moreover have less: "unat a * unat h div 2 ^ 32 < unat a"
    using a ub(2) by (intro less_mult_imp_div_less) (simp add: word_less_nat_alt)
  ultimately show ?thesis
    using ub(1) by (simp add: fastrange32_def Let_def unsigned_ucast_eq take_bit_nat_eq_self)
qed

lemma probe_list_index:
  "0 < probes \<Longrightarrow> i < probes \<Longrightarrow> jm \<in> set (probe_list probes a h i) \<Longrightarrow> \<exists>j<probes. fst jm = a XOR j"
proof (induction probes a h i rule: probe_list.induct)
  case (1 probes a h i)
  from 1(4) have "jm = (a XOR i, bloom_mask h) \<or>
      i + 1 < probes \<and> jm \<in> set (probe_list probes a (bloom_rotate h) (i + 1))"
    by (subst (asm) probe_list.simps) (auto split: if_splits)
  then show ?case
  proof
    assume "jm = (a XOR i, bloom_mask h)"
    with 1(3) show ?thesis by auto
  next
    assume "i + 1 < probes \<and> jm \<in> set (probe_list probes a (bloom_rotate h) (i + 1))"
    with 1(1,2) show ?thesis by simp
  qed
qed

lemma bloom_probes_bound:
  assumes "bloom_ok b" "jm \<in> set (bloom_probes b h)"
  shows "fst jm < length (bl_data b)"
proof -
  obtain j where "j < unat (kNumDoubleProbes b)" "fst jm = unat (fastrange32 (bl_kLen b) h) XOR j"
    using probe_list_index [of "unat (kNumDoubleProbes b)" 0 jm "unat (fastrange32 (bl_kLen b) h)"] assms
    unfolding bloom_ok_def bloom_probes_def by blast
  then show ?thesis using assms(1) fastrange32_less [of "bl_kLen b" h] by (simp add: bloom_ok_def)
qed

lemma bloom_AddHash_ok: "bloom_ok b \<Longrightarrow> bloom_ok (bloom_AddHash h b)"
  by (simp add: bloom_ok_def bloom_AddHash_def AddHash_loop_fold)

lemma bloom_AddHash_keeps:
  "bloom_MayContainHash h' b \<Longrightarrow> bloom_MayContainHash h' (bloom_AddHash h b)"
  by (simp add: bloom_MayContainHash_def MayContainHash_loop_all bloom_AddHash_def AddHash_loop_fold
      has_bits_fold)

lemma bloom_AddHash_finds: "bloom_ok b \<Longrightarrow> bloom_MayContainHash h (bloom_AddHash h b)"
  using fold_set_bits_all [of "bloom_probes b h" "bl_data b"] bloom_probes_bound [of b _ h]
  by (simp add: bloom_MayContainHash_def MayContainHash_loop_all bloom_AddHash_def AddHash_loop_fold
      bloom_probes_def)

text \<open>The filters made by the constructor.\<close>

lemma roundUp_loop_step:
  "roundUp_loop x rv = (if rv < x then roundUp_loop x (push_bit 1 rv) else Some rv)"
  by (rule roundUp_loop.simps)

lemma xor_block: "(a XOR i) div 4 = a div 4" if "i < 4" for a i :: nat
proof -
  have "drop_bit 2 (a XOR i) = drop_bit 2 a XOR drop_bit 2 i" by (rule drop_bit_xor)
  then show ?thesis using that by (simp add: drop_bit_eq_div)
qed

lemma xor_less_block:
  assumes "a < 4 * n" "i < (4 :: nat)"
  shows "(a XOR i) < 4 * n"
proof -
  have "(a XOR i) div 4 < n" using assms by (simp add: xor_block div_less_iff_less_mult mult.commute)
  then show ?thesis by (simp add: div_less_iff_less_mult mult.commute)
qed

definition bloom_of_len :: "u32 \<Rightarrow> DynamicBloom" where
  "bloom_of_len len = \<lparr>bl_kLen = len, kNumDoubleProbes = 3, bl_data = replicate (unat len) 0\<rparr>"

lemma DynamicBloom_new_six:
  "DynamicBloom_new bits 6 = Some (bloom_of_len ((bits + 255) div 256 * 32 div 8))"
  by (simp add: DynamicBloom_new_def roundUpToPow2_def roundUp_loop_step Let_def bloom_of_len_def
      add.commute [of bits])

lemma bloom_of_len_ok: "unat len = 4 * n \<Longrightarrow> 0 < n \<Longrightarrow> bloom_ok (bloom_of_len len)"
proof -
  assume n: "unat len = 4 * n" "0 < n"
  have "unat (3 :: u32) = 3" by simp
  moreover have "0 < len" using n by (simp add: word_less_nat_alt)
  ultimately show ?thesis
    using n xor_less_block [of _ n] by (simp only: bloom_ok_def bloom_of_len_def) simp
qed

lemma DynamicBloom_new_ok:
  assumes "0 < bits" "unat bits + 255 < 2 ^ 32"
  shows "\<exists>b. DynamicBloom_new bits 6 = Some b \<and> bloom_ok b"
proof -
  define n where "n = (unat bits + 255) div 256"
  have "unat (bits + 255) = unat bits + 255"
    using assms(2) by (subst unat_add_lem [THEN iffD1]) simp_all
  then have "unat ((bits + 255) div 256) = n" by (simp add: n_def unat_div)
  moreover have "n < 2 ^ 24" using assms(2) by (simp add: n_def div_less_iff_less_mult)
  ultimately have "unat ((bits + 255) div 256 * 32 div 8) = 4 * n"
    by (simp add: unat_div unat_word_ariths)
  moreover have "0 < n" using assms(1) by (simp add: n_def div_greater_zero_iff word_less_nat_alt)
  ultimately show ?thesis by (simp add: DynamicBloom_new_six bloom_of_len_ok)
qed

end
