(* ===== verification/RangeTombstones.thy ===== *)
theory RangeTombstones
  imports DbFormat
begin

text \<open>
  Range tombstones cut into fragments: db/range_tombstone_fragmenter.h and
  db/range_tombstone_fragmenter.cc, with the sorted iterator of util/vector_iterator.h.

  The tombstones an iterator yields are the list of its keys and values from \<^verbatim>\<open>SeekToFirst\<close> on:
  internal keys, whose user keys begin the ranges, and the keys that end them. The copies that
  keep unpinned slices alive have no effect on their contents and are left out. The lemmas show
  that a search in the fragments finds the newest visible tombstone over a key, whatever the
  order of the tombstones and however they overlap.
\<close>

section \<open>Algorithms of the standard library\<close>

text \<open>
  On a range in which the elements that satisfy the predicate come first, both searches return
  the first position where it fails.
\<close>

definition partition_point :: "('a \<Rightarrow> bool) \<Rightarrow> 'a list \<Rightarrow> nat" where
  "partition_point P xs = length (takeWhile P xs)"

lemma before_partition_point: "i < partition_point P xs \<Longrightarrow> P (xs ! i)"
  unfolding partition_point_def by (metis nth_mem set_takeWhileD takeWhile_nth)

lemma at_partition_point: "partition_point P xs < length xs \<Longrightarrow> \<not> P (xs ! partition_point P xs)"
  unfolding partition_point_def by (rule nth_length_takeWhile)

lemma partition_point_le: "partition_point P xs \<le> length xs"
  by (simp add: partition_point_def length_takeWhile_le)

text \<open>\<^verbatim>\<open>std::set\<close> with a comparison: \<^verbatim>\<open>emplace\<close> keeps an equivalent element that is there.\<close>

primrec set_emplace :: "('a \<Rightarrow> 'a \<Rightarrow> bool) \<Rightarrow> 'a \<Rightarrow> 'a list \<Rightarrow> 'a list" where
  "set_emplace lt x [] = [x]"
| "set_emplace lt x (y # ys) =
     (if lt y x then y # set_emplace lt x ys
      else if lt x y then x # y # ys
      else y # ys)"

text \<open>
  Sorting by insertion. \<^verbatim>\<open>std::sort\<close> leaves the order of equivalent elements open; here they keep
  theirs.
\<close>

primrec sort_place :: "('a \<Rightarrow> 'a \<Rightarrow> bool) \<Rightarrow> 'a \<Rightarrow> 'a list \<Rightarrow> 'a list" where
  "sort_place lt x [] = [x]"
| "sort_place lt x (y # ys) = (if lt y x then y # sort_place lt x ys else x # y # ys)"

primrec sort_by :: "('a \<Rightarrow> 'a \<Rightarrow> bool) \<Rightarrow> 'a list \<Rightarrow> 'a list" where
  "sort_by lt [] = []"
| "sort_by lt (x # xs) = sort_place lt x (sort_by lt xs)"

section \<open>The list of fragments\<close>

record RangeTombstoneStack =
  rs_start_key :: bytes
  rs_end_key :: bytes
  seq_start_idx :: nat
  seq_end_idx :: nat

record FragmentedRangeTombstoneList =
  tombstones :: "RangeTombstoneStack list"
  tombstone_seqs :: "SequenceNumber list"
  seq_set :: "SequenceNumber list"

definition empty_tombstone_list :: FragmentedRangeTombstoneList where
  "empty_tombstone_list = \<lparr>tombstones = [], tombstone_seqs = [], seq_set = []\<rparr>"

definition ParsedInternalKeyComparator ::
  "comparator \<Rightarrow> ParsedInternalKey \<Rightarrow> ParsedInternalKey \<Rightarrow> bool" where
  "ParsedInternalKeyComparator user_comparator a b \<longleftrightarrow> ikc_Compare_parsed user_comparator a b < 0"

text \<open>
  The sequence numbers a compaction keeps: for each snapshot the newest that it can see. The
  list of snapshots is sorted.
\<close>

fun keep_for_snapshots ::
  "SequenceNumber list \<Rightarrow> SequenceNumber \<Rightarrow> SequenceNumber list \<Rightarrow> SequenceNumber list" where
  "keep_for_snapshots snapshots next_snapshot [] = []"
| "keep_for_snapshots snapshots next_snapshot (seq # seqs) =
     (if seq \<le> next_snapshot
      then
        (let upper_bound = partition_point (\<lambda>x. x < seq) snapshots
         in if upper_bound = 0 then [seq]
            else seq # keep_for_snapshots snapshots (snapshots ! (upper_bound - 1)) seqs)
      else keep_for_snapshots snapshots next_snapshot seqs)"

text \<open>
  One fragment: the numbers of the tombstones over it, in descending order.
\<close>

definition flush_fragment ::
  "bool \<Rightarrow> SequenceNumber list \<Rightarrow> bytes \<Rightarrow> bytes \<Rightarrow> ParsedInternalKey list \<Rightarrow>
     FragmentedRangeTombstoneList \<Rightarrow> FragmentedRangeTombstoneList"
where
  "flush_fragment for_compaction snapshots start end_key working l =
     (let seqnums_to_flush = rev (sort (map sequence working));
          start_idx = length (tombstone_seqs l);
          kept = (if for_compaction
                  then keep_for_snapshots snapshots kMaxSequenceNumber seqnums_to_flush
                  else seqnums_to_flush);
          end_idx = start_idx + length kept
      in l\<lparr>tombstone_seqs := tombstone_seqs l @ kept,
           seq_set := fold (set_emplace (<)) kept (seq_set l),
           tombstones := tombstones l @
             [\<lparr>rs_start_key = start, rs_end_key = end_key, seq_start_idx = start_idx,
               seq_end_idx = end_idx\<rparr>]\<rparr>)"

text \<open>
  The loop of \<^verbatim>\<open>flush_current_tombstones\<close> over the working set from \<^verbatim>\<open>it\<close> on. The elements it has
  passed are erased or cleared in every case, so the result is what the set holds afterwards.
\<close>

fun flush_loop ::
  "comparator \<Rightarrow> bool \<Rightarrow> SequenceNumber list \<Rightarrow> bytes \<Rightarrow> bytes \<Rightarrow> ParsedInternalKey list \<Rightarrow>
     FragmentedRangeTombstoneList \<Rightarrow> ParsedInternalKey list \<times> FragmentedRangeTombstoneList"
where
  "flush_loop c for_compaction snapshots next_start_key cur_start_key [] l = ([], l)"
| "flush_loop c for_compaction snapshots next_start_key cur_start_key (it # rest) l =
     (let cur_end_key = user_key it
      in if Compare c cur_start_key cur_end_key = 0
         then flush_loop c for_compaction snapshots next_start_key cur_start_key rest l
         else if Compare c next_start_key cur_end_key \<le> 0
         then (it # rest, flush_fragment for_compaction snapshots cur_start_key next_start_key (it # rest) l)
         else flush_loop c for_compaction snapshots next_start_key cur_end_key rest
                (flush_fragment for_compaction snapshots cur_start_key cur_end_key (it # rest) l))"

record fragmenter =
  cur_start :: bytes
  cur_end_keys :: "ParsedInternalKey list"
  frag_list :: FragmentedRangeTombstoneList

definition flush_current_tombstones ::
  "comparator \<Rightarrow> bool \<Rightarrow> SequenceNumber list \<Rightarrow> bytes \<Rightarrow> fragmenter \<Rightarrow> fragmenter" where
  "flush_current_tombstones c for_compaction snapshots next_start_key s =
     (let (working, l) = flush_loop c for_compaction snapshots next_start_key (cur_start s)
                           (cur_end_keys s) (frag_list s)
      in \<lparr>cur_start = next_start_key, cur_end_keys = working, frag_list = l\<rparr>)"

definition fragment_step ::
  "comparator \<Rightarrow> bool \<Rightarrow> SequenceNumber list \<Rightarrow> bytes \<times> bytes \<Rightarrow> fragmenter \<Rightarrow> fragmenter" where
  "fragment_step c for_compaction snapshots kv s =
     (let ikey = fst kv;
          tombstone_start_key = ExtractUserKey ikey;
          tombstone_seq = GetInternalKeySeqno ikey;
          tombstone_end_key = snd kv;
          s1 = (if cur_end_keys s \<noteq> [] \<and> Compare c (cur_start s) tombstone_start_key \<noteq> 0
                then flush_current_tombstones c for_compaction snapshots tombstone_start_key s else s)
      in s1\<lparr>cur_start := tombstone_start_key,
            cur_end_keys := set_emplace (ParsedInternalKeyComparator c)
              \<lparr>user_key = tombstone_end_key, sequence = tombstone_seq, vtype = kTypeRangeDeletion\<rparr>
              (cur_end_keys s1)\<rparr>)"

definition FragmentTombstones ::
  "comparator \<Rightarrow> bool \<Rightarrow> SequenceNumber list \<Rightarrow> (bytes \<times> bytes) list \<Rightarrow> FragmentedRangeTombstoneList"
where
  "FragmentTombstones c for_compaction snapshots unfragmented =
     (let s = fold (fragment_step c for_compaction snapshots) unfragmented
                \<lparr>cur_start = [], cur_end_keys = [], frag_list = empty_tombstone_list\<rparr>
      in frag_list
           (if cur_end_keys s \<noteq> []
            then flush_current_tombstones c for_compaction snapshots (user_key (last (cur_end_keys s))) s
            else s))"

fun tombstones_sorted :: "comparator \<Rightarrow> (bytes \<times> bytes) list \<Rightarrow> bool" where
  "tombstones_sorted c (a # b # kvs) =
     (if ikc_Compare c (fst a) (fst b) > 0 then False else tombstones_sorted c (b # kvs))"
| "tombstones_sorted c kvs = True"

text \<open>The constructor of the sorted iterator.\<close>

definition VectorIterator :: "comparator \<Rightarrow> (bytes \<times> bytes) list \<Rightarrow> (bytes \<times> bytes) list" where
  "VectorIterator c kvs = sort_by (\<lambda>a b. ikc_Compare c (fst a) (fst b) < 0) kvs"

definition FragmentedRangeTombstoneList_new ::
  "comparator \<Rightarrow> bool \<Rightarrow> SequenceNumber list \<Rightarrow> (bytes \<times> bytes) list option \<Rightarrow>
     FragmentedRangeTombstoneList"
where
  "FragmentedRangeTombstoneList_new c for_compaction snapshots unfragmented =
     (case unfragmented of
        None \<Rightarrow> empty_tombstone_list
      | Some kvs \<Rightarrow>
          if tombstones_sorted c kvs then FragmentTombstones c for_compaction snapshots kvs
          else FragmentTombstones c for_compaction snapshots (VectorIterator c kvs))"

definition ContainsRange :: "SequenceNumber \<Rightarrow> SequenceNumber \<Rightarrow> FragmentedRangeTombstoneList \<Rightarrow> bool" where
  "ContainsRange lower upper l =
     (let seq_it = partition_point (\<lambda>x. x < lower) (seq_set l)
      in seq_it < length (seq_set l) \<and> seq_set l ! seq_it \<le> upper)"

section \<open>The iterator\<close>

text \<open>
  Positions are indices; \<^verbatim>\<open>end()\<close> is the length. The key the iterator keeps for its caller is
  computed on demand.
\<close>

record FragmentedRangeTombstoneIterator =
  fr_list :: FragmentedRangeTombstoneList
  fr_ucmp :: comparator
  fr_upper_bound :: SequenceNumber
  fr_lower_bound :: SequenceNumber
  fr_pos :: nat
  fr_seq_pos :: nat

definition fr_end :: "FragmentedRangeTombstoneIterator \<Rightarrow> nat" where
  "fr_end i = length (tombstones (fr_list i))"

definition fr_stack :: "FragmentedRangeTombstoneIterator \<Rightarrow> RangeTombstoneStack" where
  "fr_stack i = tombstones (fr_list i) ! fr_pos i"

definition fr_Invalidate :: "FragmentedRangeTombstoneIterator \<Rightarrow> FragmentedRangeTombstoneIterator" where
  "fr_Invalidate i =
     i\<lparr>fr_pos := fr_end i, fr_seq_pos := length (tombstone_seqs (fr_list i))\<rparr>"

definition FragmentedRangeTombstoneIterator_new ::
  "FragmentedRangeTombstoneList \<Rightarrow> comparator \<Rightarrow> SequenceNumber \<Rightarrow> SequenceNumber \<Rightarrow>
     FragmentedRangeTombstoneIterator"
where
  "FragmentedRangeTombstoneIterator_new l c upper lower =
     fr_Invalidate \<lparr>fr_list = l, fr_ucmp = c, fr_upper_bound = upper, fr_lower_bound = lower,
                    fr_pos = 0, fr_seq_pos = 0\<rparr>"

definition fr_Valid :: "FragmentedRangeTombstoneIterator \<Rightarrow> bool" where
  "fr_Valid i \<longleftrightarrow> fr_pos i \<noteq> fr_end i"

definition fr_ValidPos :: "FragmentedRangeTombstoneIterator \<Rightarrow> bool" where
  "fr_ValidPos i \<longleftrightarrow> fr_Valid i \<and> fr_seq_pos i \<noteq> seq_end_idx (fr_stack i)"

definition fr_start_key :: "FragmentedRangeTombstoneIterator \<Rightarrow> bytes" where
  "fr_start_key i = rs_start_key (fr_stack i)"

definition fr_end_key :: "FragmentedRangeTombstoneIterator \<Rightarrow> bytes" where
  "fr_end_key i = rs_end_key (fr_stack i)"

definition fr_seq :: "FragmentedRangeTombstoneIterator \<Rightarrow> SequenceNumber" where
  "fr_seq i = tombstone_seqs (fr_list i) ! fr_seq_pos i"

definition fr_key :: "FragmentedRangeTombstoneIterator \<Rightarrow> bytes" where
  "fr_key i = InternalKey (fr_start_key i) (fr_seq i) kTypeRangeDeletion"

definition fr_value :: "FragmentedRangeTombstoneIterator \<Rightarrow> bytes" where
  "fr_value i = fr_end_key i"

definition fr_Tombstone :: "FragmentedRangeTombstoneIterator \<Rightarrow> RangeTombstone" where
  "fr_Tombstone i = \<lparr>rt_start_key = fr_start_key i, rt_end_key = fr_end_key i, rt_seq = fr_seq i\<rparr>"

definition fr_parsed_start_key :: "FragmentedRangeTombstoneIterator \<Rightarrow> ParsedInternalKey" where
  "fr_parsed_start_key i =
     \<lparr>user_key = fr_start_key i, sequence = kMaxSequenceNumber, vtype = kTypeRangeDeletion\<rparr>"

definition fr_parsed_end_key :: "FragmentedRangeTombstoneIterator \<Rightarrow> ParsedInternalKey" where
  "fr_parsed_end_key i =
     \<lparr>user_key = fr_end_key i, sequence = kMaxSequenceNumber, vtype = kTypeRangeDeletion\<rparr>"

text \<open>The first number of the stack at \<^verbatim>\<open>pos_\<close> that is not above the upper bound.\<close>

definition fr_visible_seq :: "FragmentedRangeTombstoneIterator \<Rightarrow> nat" where
  "fr_visible_seq i =
     (let st = fr_stack i
      in seq_start_idx st +
         partition_point (\<lambda>s. s > fr_upper_bound i)
           (take (seq_end_idx st - seq_start_idx st)
             (drop (seq_start_idx st) (tombstone_seqs (fr_list i)))))"

definition fr_at :: "nat \<Rightarrow> FragmentedRangeTombstoneIterator \<Rightarrow> FragmentedRangeTombstoneIterator" where
  "fr_at p i = (let j = i\<lparr>fr_pos := p\<rparr> in j\<lparr>fr_seq_pos := fr_visible_seq j\<rparr>)"

definition fr_hidden :: "FragmentedRangeTombstoneIterator \<Rightarrow> bool" where
  "fr_hidden i \<longleftrightarrow> fr_pos i \<noteq> fr_end i \<and>
     (fr_seq_pos i = seq_end_idx (fr_stack i) \<or> fr_seq i < fr_lower_bound i)"

function fr_ScanForward :: "FragmentedRangeTombstoneIterator \<Rightarrow> FragmentedRangeTombstoneIterator" where
  "fr_ScanForward i =
     (if fr_pos i < fr_end i \<and> fr_hidden i
      then (if fr_pos i + 1 = fr_end i then fr_Invalidate i
            else fr_ScanForward (fr_at (fr_pos i + 1) i))
      else i)"
  by auto
termination
  by (relation "measure (\<lambda>i. fr_end i - fr_pos i)") (auto simp: fr_at_def fr_end_def Let_def)

function fr_ScanBackward :: "FragmentedRangeTombstoneIterator \<Rightarrow> FragmentedRangeTombstoneIterator" where
  "fr_ScanBackward i =
     (if fr_hidden i
      then (if fr_pos i = 0 then fr_Invalidate i else fr_ScanBackward (fr_at (fr_pos i - 1) i))
      else i)"
  by auto
termination
  by (relation "measure fr_pos") (auto simp: fr_at_def Let_def)

declare fr_ScanForward.simps [simp del] fr_ScanBackward.simps [simp del]

definition fr_SeekToFirst :: "FragmentedRangeTombstoneIterator \<Rightarrow> FragmentedRangeTombstoneIterator" where
  "fr_SeekToFirst i = i\<lparr>fr_pos := 0, fr_seq_pos := 0\<rparr>"

definition fr_SeekToTopFirst :: "FragmentedRangeTombstoneIterator \<Rightarrow> FragmentedRangeTombstoneIterator" where
  "fr_SeekToTopFirst i =
     (if tombstones (fr_list i) = [] then fr_Invalidate i else fr_ScanForward (fr_at 0 i))"

text \<open>On an empty list \<^verbatim>\<open>SeekToLast\<close> leaves the list; \<open>None\<close> stands for that.\<close>

definition fr_SeekToLast ::
  "FragmentedRangeTombstoneIterator \<Rightarrow> FragmentedRangeTombstoneIterator option" where
  "fr_SeekToLast i =
     (if tombstones (fr_list i) = [] then None
      else Some (i\<lparr>fr_pos := fr_end i - 1, fr_seq_pos := length (tombstone_seqs (fr_list i)) - 1\<rparr>))"

definition fr_SeekToTopLast :: "FragmentedRangeTombstoneIterator \<Rightarrow> FragmentedRangeTombstoneIterator" where
  "fr_SeekToTopLast i =
     (if tombstones (fr_list i) = [] then fr_Invalidate i
      else fr_ScanBackward (fr_at (fr_end i - 1) i))"

definition fr_SeekToCoveringTombstone ::
  "bytes \<Rightarrow> FragmentedRangeTombstoneIterator \<Rightarrow> FragmentedRangeTombstoneIterator" where
  "fr_SeekToCoveringTombstone target i =
     (let p = partition_point (\<lambda>st. \<not> Compare (fr_ucmp i) target (rs_end_key st) < 0)
                (tombstones (fr_list i))
      in if p = fr_end i then i\<lparr>fr_pos := p, fr_seq_pos := length (tombstone_seqs (fr_list i))\<rparr>
         else fr_at p i)"

definition fr_SeekForPrevToCoveringTombstone ::
  "bytes \<Rightarrow> FragmentedRangeTombstoneIterator \<Rightarrow> FragmentedRangeTombstoneIterator" where
  "fr_SeekForPrevToCoveringTombstone target i =
     (if tombstones (fr_list i) = [] then fr_Invalidate i
      else
        (let p = partition_point (\<lambda>st. \<not> Compare (fr_ucmp i) target (rs_start_key st) < 0)
                   (tombstones (fr_list i))
         in if p = 0 then fr_Invalidate i else fr_at (p - 1) i))"

definition fr_Seek ::
  "bytes \<Rightarrow> FragmentedRangeTombstoneIterator \<Rightarrow> FragmentedRangeTombstoneIterator" where
  "fr_Seek target i =
     (if tombstones (fr_list i) = [] then fr_Invalidate i
      else fr_ScanForward (fr_SeekToCoveringTombstone target i))"

definition fr_SeekForPrev ::
  "bytes \<Rightarrow> FragmentedRangeTombstoneIterator \<Rightarrow> FragmentedRangeTombstoneIterator" where
  "fr_SeekForPrev target i =
     (if tombstones (fr_list i) = [] then fr_Invalidate i
      else fr_ScanBackward (fr_SeekForPrevToCoveringTombstone target i))"

definition fr_Next :: "FragmentedRangeTombstoneIterator \<Rightarrow> FragmentedRangeTombstoneIterator" where
  "fr_Next i =
     (let j = i\<lparr>fr_seq_pos := fr_seq_pos i + 1\<rparr>
      in if fr_seq_pos j = seq_end_idx (fr_stack j) then j\<lparr>fr_pos := fr_pos j + 1\<rparr> else j)"

definition fr_TopNext :: "FragmentedRangeTombstoneIterator \<Rightarrow> FragmentedRangeTombstoneIterator" where
  "fr_TopNext i =
     (if fr_pos i + 1 = fr_end i then i\<lparr>fr_pos := fr_pos i + 1\<rparr>
      else fr_ScanForward (fr_at (fr_pos i + 1) i))"

text \<open>The start of the first stack less one is the position before all numbers.\<close>

definition fr_Prev :: "FragmentedRangeTombstoneIterator \<Rightarrow> FragmentedRangeTombstoneIterator" where
  "fr_Prev i =
     (if fr_seq_pos i = 0 then fr_Invalidate i
      else
        (let j = i\<lparr>fr_seq_pos := fr_seq_pos i - 1\<rparr>
         in if fr_pos j = fr_end j \<or> int (fr_seq_pos j) = int (seq_start_idx (fr_stack j)) - 1
            then j\<lparr>fr_pos := fr_pos j - 1\<rparr> else j))"

definition fr_TopPrev :: "FragmentedRangeTombstoneIterator \<Rightarrow> FragmentedRangeTombstoneIterator" where
  "fr_TopPrev i =
     (if fr_pos i = 0 then fr_Invalidate i else fr_ScanBackward (fr_at (fr_pos i - 1) i))"

definition MaxCoveringTombstoneSeqnum ::
  "bytes \<Rightarrow> FragmentedRangeTombstoneIterator \<Rightarrow> SequenceNumber \<times> FragmentedRangeTombstoneIterator" where
  "MaxCoveringTombstoneSeqnum target_user_key i =
     (let j = fr_SeekToCoveringTombstone target_user_key i
      in (if fr_ValidPos j \<and> Compare (fr_ucmp j) (fr_start_key j) target_user_key \<le> 0
          then fr_seq j else 0, j))"

fun split_loop ::
  "FragmentedRangeTombstoneIterator \<Rightarrow> SequenceNumber \<Rightarrow> SequenceNumber list \<Rightarrow>
     (SequenceNumber \<times> FragmentedRangeTombstoneIterator) list"
where
  "split_loop i lower uppers =
     (case uppers of
        [] \<Rightarrow> []
      | upper # rest \<Rightarrow>
          (if ContainsRange lower upper (fr_list i)
           then [(upper, FragmentedRangeTombstoneIterator_new (fr_list i) (fr_ucmp i) upper lower)]
           else []) @ split_loop i (upper + 1) rest)"

text \<open>Where a snapshot occurs twice \<^verbatim>\<open>emplace\<close> keeps the first.\<close>

definition SplitBySnapshot ::
  "SequenceNumber list \<Rightarrow> FragmentedRangeTombstoneIterator \<Rightarrow>
     SequenceNumber \<Rightarrow> FragmentedRangeTombstoneIterator option" where
  "SplitBySnapshot snapshots i = map_of (split_loop i 0 (snapshots @ [kMaxSequenceNumber]))"

section \<open>What covers a key\<close>

text \<open>By a tombstone, by a fragment, and by the end keys that are still at work.\<close>

definition tombstone_covers :: "comparator \<Rightarrow> bytes \<Rightarrow> SequenceNumber \<Rightarrow> bytes \<times> bytes \<Rightarrow> bool" where
  "tombstone_covers c k q kv \<longleftrightarrow>
     Compare c (ExtractUserKey (fst kv)) k \<le> 0 \<and> Compare c k (snd kv) < 0 \<and>
     GetInternalKeySeqno (fst kv) = q"

definition stack_seqs :: "FragmentedRangeTombstoneList \<Rightarrow> RangeTombstoneStack \<Rightarrow> SequenceNumber list" where
  "stack_seqs l st =
     take (seq_end_idx st - seq_start_idx st) (drop (seq_start_idx st) (tombstone_seqs l))"

definition list_covers ::
  "comparator \<Rightarrow> FragmentedRangeTombstoneList \<Rightarrow> bytes \<Rightarrow> SequenceNumber \<Rightarrow> bool" where
  "list_covers c l k q \<longleftrightarrow>
     (\<exists>st\<in>set (tombstones l). Compare c (rs_start_key st) k \<le> 0 \<and> Compare c k (rs_end_key st) < 0 \<and>
        q \<in> set (stack_seqs l st))"

definition working_covers ::
  "comparator \<Rightarrow> bytes \<Rightarrow> ParsedInternalKey list \<Rightarrow> bytes \<Rightarrow> SequenceNumber \<Rightarrow> bool" where
  "working_covers c s w k q \<longleftrightarrow>
     Compare c s k \<le> 0 \<and> (\<exists>x\<in>set w. Compare c k (user_key x) < 0 \<and> sequence x = q)"

text \<open>The reference: the greatest number, up to a bound, of the tombstones over a key; 0 if none.\<close>

definition newest_tombstone ::
  "comparator \<Rightarrow> SequenceNumber \<Rightarrow> bytes \<Rightarrow> (bytes \<times> bytes) list \<Rightarrow> SequenceNumber" where
  "newest_tombstone c upper k kvs =
     fold max
       (filter (\<lambda>q. q \<le> upper)
         (map (\<lambda>kv. GetInternalKeySeqno (fst kv))
           (filter (\<lambda>kv. tombstone_covers c k (GetInternalKeySeqno (fst kv)) kv) kvs))) 0"

lemma newest_tombstone_Max:
  "newest_tombstone c upper k kvs =
     Max (insert 0 {q. q \<le> upper \<and> (\<exists>kv\<in>set kvs. tombstone_covers c k q kv)})"
proof -
  let ?qs = "filter (\<lambda>q. q \<le> upper) (map (\<lambda>kv. GetInternalKeySeqno (fst kv))
    (filter (\<lambda>kv. tombstone_covers c k (GetInternalKeySeqno (fst kv)) kv) kvs))"
  have "set (0 # ?qs) = insert 0 {q. q \<le> upper \<and> (\<exists>kv\<in>set kvs. tombstone_covers c k q kv)}"
    by (auto simp: tombstone_covers_def)
  then show ?thesis
    unfolding newest_tombstone_def using Max.set_eq_fold [of 0 ?qs] by simp
qed

text \<open>The fragments are in order, apart and well-formed, and end by \<open>s\<close>.\<close>

definition stack_ok :: "comparator \<Rightarrow> FragmentedRangeTombstoneList \<Rightarrow> RangeTombstoneStack \<Rightarrow> bool" where
  "stack_ok c l st \<longleftrightarrow>
     Compare c (rs_start_key st) (rs_end_key st) < 0 \<and> seq_start_idx st \<le> seq_end_idx st \<and>
     seq_end_idx st \<le> length (tombstone_seqs l) \<and> sorted_wrt (\<ge>) (stack_seqs l st)"

definition stacks_ok :: "comparator \<Rightarrow> FragmentedRangeTombstoneList \<Rightarrow> bytes \<Rightarrow> bool" where
  "stacks_ok c l s \<longleftrightarrow>
     sorted_wrt (\<lambda>a b. Compare c (rs_end_key a) (rs_start_key b) \<le> 0) (tombstones l) \<and>
     (\<forall>st\<in>set (tombstones l). stack_ok c l st \<and> Compare c (rs_end_key st) s \<le> 0)"

definition set_ordered :: "comparator \<Rightarrow> ParsedInternalKey list \<Rightarrow> bool" where
  "set_ordered c w \<longleftrightarrow> sorted_wrt (\<lambda>x y. Compare c (user_key x) (user_key y) \<le> 0) w"

definition frag_inv :: "comparator \<Rightarrow> fragmenter \<Rightarrow> (bytes \<times> bytes) list \<Rightarrow> bool" where
  "frag_inv c s kvs \<longleftrightarrow>
     stacks_ok c (frag_list s) (cur_start s) \<and> set_ordered c (cur_end_keys s) \<and>
     (\<forall>x\<in>set (cur_end_keys s). Compare c (cur_start s) (user_key x) \<le> 0) \<and>
     (\<forall>k q. (\<exists>kv\<in>set kvs. tombstone_covers c k q kv) \<longleftrightarrow>
        list_covers c (frag_list s) k q \<or> working_covers c (cur_start s) (cur_end_keys s) k q)"

text \<open>Nothing was read yet, or what was read starts by \<open>k\<close>.\<close>

definition starts_by :: "comparator \<Rightarrow> fragmenter \<Rightarrow> bytes \<Rightarrow> bool" where
  "starts_by c s k \<longleftrightarrow>
     tombstones (frag_list s) = [] \<and> cur_end_keys s = [] \<or> Compare c (cur_start s) k \<le> 0"

lemma stack_seqs_append:
  "seq_end_idx st \<le> length (tombstone_seqs l) \<Longrightarrow> tombstone_seqs l' = tombstone_seqs l @ xs \<Longrightarrow>
   stack_seqs l' st = stack_seqs l st"
  by (simp add: stack_seqs_def)

lemma flush_fragment_sel:
  fixes l defines "kept w \<equiv> rev (sort (map sequence w))"
  shows "tombstone_seqs (flush_fragment False sn s e w l) = tombstone_seqs l @ kept w"
    and "tombstones (flush_fragment False sn s e w l) = tombstones l @
      [\<lparr>rs_start_key = s, rs_end_key = e, seq_start_idx = length (tombstone_seqs l),
        seq_end_idx = length (tombstone_seqs l) + length w\<rparr>]"
  by (simp_all add: flush_fragment_def kept_def Let_def)

lemma flush_fragment_old:
  "stack_ok c l st \<Longrightarrow> stack_seqs (flush_fragment False sn s e w l) st = stack_seqs l st"
  by (rule stack_seqs_append) (simp_all add: stack_ok_def flush_fragment_sel)

lemma flush_fragment_new:
  "stack_seqs (flush_fragment False sn s e w l)
     \<lparr>rs_start_key = s, rs_end_key = e, seq_start_idx = length (tombstone_seqs l),
      seq_end_idx = length (tombstone_seqs l) + length w\<rparr> = rev (sort (map sequence w))"
  by (simp add: stack_seqs_def flush_fragment_sel)

lemma sorted_rev_ge: "sorted_wrt (\<ge>) (rev (sort (xs :: 'a :: linorder list)))"
  by (simp add: sorted_wrt_rev)

context user_key_order
begin

lemmas key_trans = Compare_trans [OF TrueI TrueI TrueI]
lemmas key_le_less = Compare_le_less_trans [OF TrueI TrueI TrueI]
lemmas key_less_le = Compare_less_le_trans [OF TrueI TrueI TrueI]
lemmas key_refl = Compare_self [OF TrueI]
lemmas key_not_less = Compare_le_swap [OF TrueI TrueI, symmetric]
lemmas key_zero_swap = Compare_zero_swap [OF TrueI TrueI]

lemma flush_fragment_ok:
  assumes "stacks_ok cmp l s" "Compare cmp s e < 0"
  shows "stacks_ok cmp (flush_fragment False sn s e w l) e"
    and "list_covers cmp (flush_fragment False sn s e w l) k q \<longleftrightarrow>
      list_covers cmp l k q \<or>
      Compare cmp s k \<le> 0 \<and> Compare cmp k e < 0 \<and> q \<in> sequence ` set w"
proof -
  let ?l = "flush_fragment False sn s e w l"
  have old: "stack_ok cmp ?l st \<and> Compare cmp (rs_end_key st) e \<le> 0" if "st \<in> set (tombstones l)" for st
  proof -
    have "stack_ok cmp l st" "Compare cmp (rs_end_key st) s \<le> 0" using assms(1) that
      by (simp_all add: stacks_ok_def)
    then show ?thesis
      using flush_fragment_old [of cmp l st sn s e w] key_trans [of "rs_end_key st" s e] assms(2)
      by (simp add: stack_ok_def flush_fragment_sel)
  qed
  show "stacks_ok cmp ?l e"
    using assms old key_refl
    by (auto simp: stacks_ok_def flush_fragment_sel sorted_wrt_append stack_ok_def flush_fragment_new
        sorted_rev_ge)
  have "stack_seqs ?l st = stack_seqs l st" if "st \<in> set (tombstones l)" for st
    using assms(1) that flush_fragment_old by (auto simp: stacks_ok_def)
  then show "list_covers cmp ?l k q \<longleftrightarrow> list_covers cmp l k q \<or>
      Compare cmp s k \<le> 0 \<and> Compare cmp k e < 0 \<and> q \<in> sequence ` set w"
    by (auto simp: list_covers_def flush_fragment_sel flush_fragment_new)
qed

lemma flush_loop_ok:
  assumes "flush_loop cmp False sn next_key s w l = (w', l')"
    and "stacks_ok cmp l s" "Compare cmp s next_key \<le> 0" "set_ordered cmp w"
    and "\<forall>x\<in>set w. Compare cmp s (user_key x) \<le> 0"
    and "Compare cmp s next_key < 0 \<or> (\<forall>x\<in>set w. Compare cmp (user_key x) s \<le> 0)"
  shows "stacks_ok cmp l' next_key \<and> set_ordered cmp w' \<and> set w' \<subseteq> set w \<and>
    (\<forall>x\<in>set w'. Compare cmp next_key (user_key x) \<le> 0) \<and>
    (\<forall>k q. list_covers cmp l k q \<or> working_covers cmp s w k q \<longleftrightarrow>
       list_covers cmp l' k q \<or> working_covers cmp next_key w' k q)"
  using assms
proof (induction w arbitrary: s l)
  case Nil
  then have "w' = []" "l' = l" by simp_all
  moreover have "stacks_ok cmp l next_key"
    using Nil.prems(2,3) key_trans unfolding stacks_ok_def by blast
  ultimately show ?case by (simp add: set_ordered_def working_covers_def)
next
  case (Cons it rest)
  let ?e = "user_key it"
  have rest: "set_ordered cmp rest" "\<forall>x\<in>set rest. Compare cmp s (user_key x) \<le> 0"
    "\<forall>x\<in>set rest. Compare cmp ?e (user_key x) \<le> 0" "Compare cmp s ?e \<le> 0"
    using Cons.prems by (simp_all add: set_ordered_def)
  consider (empty) "Compare cmp s ?e = 0"
    | (reached) "Compare cmp s ?e < 0" "Compare cmp next_key ?e \<le> 0"
    | (passed) "Compare cmp s ?e < 0" "Compare cmp ?e next_key < 0"
    using rest(4) key_not_less [of ?e next_key] by fastforce
  then show ?case
  proof cases
    case empty
    then have run: "flush_loop cmp False sn next_key s rest l = (w', l')" using Cons.prems(1) by simp
    have "\<not> (Compare cmp s k \<le> 0 \<and> Compare cmp k ?e < 0)" for k
      using empty key_le_less [of s k ?e] by fastforce
    then have "working_covers cmp s (it # rest) k q \<longleftrightarrow> working_covers cmp s rest k q" for k q
      by (auto simp: working_covers_def)
    moreover have "Compare cmp s next_key < 0 \<or> (\<forall>x\<in>set rest. Compare cmp (user_key x) s \<le> 0)"
      using Cons.prems(6) by auto
    note Cons.IH [OF run Cons.prems(2,3) rest(1,2) this]
    ultimately show ?thesis by auto
  next
    case reached
    let ?l = "flush_fragment False sn s next_key (it # rest) l"
    have run: "w' = it # rest" "l' = ?l"
      using Cons.prems(1) reached by auto
    have above: "\<forall>x\<in>set (it # rest). Compare cmp next_key (user_key x) \<le> 0"
      using reached(2) rest(3) key_trans by auto
    have "Compare cmp s next_key < 0"
      using Cons.prems(6) reached(1) key_not_less [of s ?e] by auto
    note frag = flush_fragment_ok [OF Cons.prems(2) this, of sn "it # rest"]
    have "working_covers cmp s (it # rest) k q \<longleftrightarrow>
        Compare cmp s k \<le> 0 \<and> Compare cmp k next_key < 0 \<and> q \<in> sequence ` set (it # rest) \<or>
        working_covers cmp next_key (it # rest) k q" for k q
      using above key_less_le [of k next_key] key_trans [OF Cons.prems(3), of k]
        key_not_less [of k next_key] unfolding working_covers_def by fastforce
    then show ?thesis using frag Cons.prems(4) above unfolding run by auto
  next
    case passed
    let ?l = "flush_fragment False sn s ?e (it # rest) l"
    have run: "flush_loop cmp False sn next_key ?e rest ?l = (w', l')"
      using Cons.prems(1) passed key_not_less [of ?e next_key] by (simp add: Let_def)
    note frag = flush_fragment_ok [OF Cons.prems(2) passed(1), of sn "it # rest"]
    have "working_covers cmp s (it # rest) k q \<longleftrightarrow>
        Compare cmp s k \<le> 0 \<and> Compare cmp k ?e < 0 \<and> q \<in> sequence ` set (it # rest) \<or>
        working_covers cmp ?e rest k q" for k q
      using rest(3) key_less_le [of k ?e] key_trans [OF rest(4), of k]
        key_not_less [of k ?e] unfolding working_covers_def by fastforce
    moreover have "Compare cmp ?e next_key \<le> 0" using passed(2) by simp
    moreover note Cons.IH [OF run frag(1) this rest(1,3) disjI1 [OF passed(2)]]
    ultimately show ?thesis using frag(2) by auto
  qed
qed

abbreviation parsed_less :: "ParsedInternalKey \<Rightarrow> ParsedInternalKey \<Rightarrow> bool" where
  "parsed_less \<equiv> ParsedInternalKeyComparator cmp"

lemma parsed_less_cases:
  obtains "parsed_less x y" "Compare cmp (user_key x) (user_key y) \<le> 0"
  | "parsed_less y x" "Compare cmp (user_key y) (user_key x) \<le> 0"
  | "\<not> parsed_less x y" "\<not> parsed_less y x" "Compare cmp (user_key x) (user_key y) = 0"
    "sequence x = sequence y"
proof -
  let ?r = "Compare cmp (user_key x) (user_key y)" and ?q = "Compare cmp (user_key y) (user_key x)"
  consider "?r < 0" | "?q < 0" | "?r = 0" "?q = 0"
    using key_zero_swap [of "user_key x" "user_key y"] key_not_less [of "user_key y" "user_key x"] by force
  then show ?thesis
  proof cases
    case 3
    show ?thesis
    proof (cases "parsed_less x y \<or> parsed_less y x")
      case False
      with 3 have "\<not> sequence x < sequence y" "\<not> sequence y < sequence x"
        by (auto simp: ParsedInternalKeyComparator_def ikc_Compare_parsed_def)
      then have "sequence x = sequence y" by simp
      with False 3 that(3) show ?thesis by blast
    qed (use that(1,2) 3 in auto)
  qed (use that(1,2) in \<open>auto simp: ParsedInternalKeyComparator_def ikc_Compare_parsed_def\<close>)
qed

lemma parsed_less_key: "parsed_less x y \<Longrightarrow> Compare cmp (user_key x) (user_key y) \<le> 0"
  by (auto simp: ParsedInternalKeyComparator_def ikc_Compare_parsed_def Let_def split: if_splits)

lemma set_emplace_ordered:
  assumes "set_ordered cmp w"
  shows "set_ordered cmp (set_emplace parsed_less x w)" "set (set_emplace parsed_less x w) \<subseteq> insert x (set w)"
proof -
  show sub: "set (set_emplace parsed_less x w) \<subseteq> insert x (set w)" for w
    by (induction w) auto
  show "set_ordered cmp (set_emplace parsed_less x w)"
    using assms
  proof (induction w)
    case (Cons y w)
    then have w: "set_ordered cmp w" "\<forall>z\<in>set w. Compare cmp (user_key y) (user_key z) \<le> 0"
      by (simp_all add: set_ordered_def)
    show ?case
    proof (cases "parsed_less y x")
      case True
      have "Compare cmp (user_key y) (user_key z) \<le> 0" if "z \<in> set (set_emplace parsed_less x w)" for z
        using that sub [of w] parsed_less_key [OF True] w(2) by blast
      with True Cons.IH [OF w(1)] show ?thesis by (simp add: set_ordered_def)
    next
      case False
      show ?thesis
      proof (cases "parsed_less x y")
        case True
        have "Compare cmp (user_key x) (user_key z) \<le> 0" if "z \<in> set (y # w)" for z
          using that parsed_less_key [OF True] w(2) key_trans [of "user_key x" "user_key y" "user_key z"]
          by auto
        with False True Cons.prems show ?thesis by (simp add: set_ordered_def)
      qed (use False Cons.prems in simp)
    qed
  qed (simp add: set_ordered_def)
qed

lemma set_emplace_covers:
  "working_covers cmp s (set_emplace parsed_less x w) k q \<longleftrightarrow>
     working_covers cmp s w k q \<or>
     Compare cmp s k \<le> 0 \<and> Compare cmp k (user_key x) < 0 \<and> sequence x = q"
proof (induction w)
  case (Cons y w)
  show ?case
  proof (cases rule: parsed_less_cases [of y x])
    case 3
    have "Compare cmp k (user_key x) < 0 \<longleftrightarrow> Compare cmp k (user_key y) < 0"
      using 3(3) key_zero_swap [of "user_key y" "user_key x"] key_less_le [of k] by fastforce
    with 3 show ?thesis by (auto simp: working_covers_def)
  qed (use Cons in \<open>auto simp: working_covers_def\<close>)
qed (auto simp: working_covers_def)

lemma stacks_ok_mono: "stacks_ok cmp l s \<Longrightarrow> Compare cmp s t \<le> 0 \<Longrightarrow> stacks_ok cmp l t"
  unfolding stacks_ok_def using key_trans by blast

lemma working_covers_zero:
  "Compare cmp s t = 0 \<Longrightarrow> working_covers cmp s w k q \<longleftrightarrow> working_covers cmp t w k q"
  using key_zero_swap [of s t] key_trans [of s t k] key_trans [of t s k]
  by (auto simp: working_covers_def)

lemma flush_current_ok:
  assumes "frag_inv cmp s kvs" "Compare cmp (cur_start s) k \<le> 0"
    and "Compare cmp (cur_start s) k < 0 \<or> (\<forall>x\<in>set (cur_end_keys s). Compare cmp (user_key x) (cur_start s) \<le> 0)"
  shows "frag_inv cmp (flush_current_tombstones cmp False sn k s) kvs"
    and "set (cur_end_keys (flush_current_tombstones cmp False sn k s)) \<subseteq> set (cur_end_keys s)"
    and "cur_start (flush_current_tombstones cmp False sn k s) = k"
proof -
  obtain w l where run:
      "flush_loop cmp False sn k (cur_start s) (cur_end_keys s) (frag_list s) = (w, l)"
    by (rule prod.exhaust)
  from flush_loop_ok [OF this _ assms(2) _ _ assms(3)] assms(1) run
  show "frag_inv cmp (flush_current_tombstones cmp False sn k s) kvs"
    "set (cur_end_keys (flush_current_tombstones cmp False sn k s)) \<subseteq> set (cur_end_keys s)"
    "cur_start (flush_current_tombstones cmp False sn k s) = k"
    by (simp_all add: frag_inv_def flush_current_tombstones_def)
qed

text \<open>The start key moves on; then a new end key enters the working set.\<close>

lemma frag_inv_move:
  fixes sn
  assumes "frag_inv cmp s kvs" "starts_by cmp s k"
  defines "s1 \<equiv> (if cur_end_keys s \<noteq> [] \<and> Compare cmp (cur_start s) k \<noteq> 0
    then flush_current_tombstones cmp False sn k s else s)"
  shows "frag_inv cmp (s1\<lparr>cur_start := k\<rparr>) kvs"
proof (cases "cur_end_keys s \<noteq> [] \<and> Compare cmp (cur_start s) k \<noteq> 0")
  case True
  then have "Compare cmp (cur_start s) k < 0" using assms(2) by (simp add: starts_by_def)
  then show ?thesis
    using flush_current_ok(1,3) [OF assms(1), of k sn] True
    unfolding s1_def by (simp add: frag_inv_def)
next
  case False
  then have s1: "s1 = s" by (simp only: s1_def if_False)
  have ok: "stacks_ok cmp (frag_list s) k"
  proof (cases "tombstones (frag_list s) = []")
    case False
    then show ?thesis
      using assms(1,2) stacks_ok_mono [of _ "cur_start s" k] by (simp add: frag_inv_def starts_by_def)
  qed (simp add: stacks_ok_def)
  have "working_covers cmp (cur_start s) (cur_end_keys s) k' q \<longleftrightarrow>
      working_covers cmp k (cur_end_keys s) k' q" for k' q
    using False working_covers_zero [of "cur_start s" k]
    by (cases "cur_end_keys s = []") (simp_all add: working_covers_def)
  moreover have "Compare cmp k (user_key x) \<le> 0" if "x \<in> set (cur_end_keys s)" for x
    using that False assms(1) key_zero_swap [of "cur_start s" k]
      key_trans [of k "cur_start s" "user_key x"] by (auto simp: frag_inv_def)
  ultimately show ?thesis using assms(1) ok unfolding s1 by (simp add: frag_inv_def)
qed

lemma frag_inv_emplace:
  assumes "frag_inv cmp s kvs" "cur_start s = ExtractUserKey (fst kv)"
    and "Compare cmp (ExtractUserKey (fst kv)) (snd kv) \<le> 0"
  shows "frag_inv cmp (s\<lparr>cur_end_keys := set_emplace parsed_less
      \<lparr>user_key = snd kv, sequence = GetInternalKeySeqno (fst kv), vtype = kTypeRangeDeletion\<rparr>
      (cur_end_keys s)\<rparr>) (kvs @ [kv])"
proof -
  let ?x = "\<lparr>user_key = snd kv, sequence = GetInternalKeySeqno (fst kv), vtype = kTypeRangeDeletion\<rparr>"
  have "\<forall>x\<in>set (set_emplace parsed_less ?x (cur_end_keys s)). Compare cmp (cur_start s) (user_key x) \<le> 0"
    using assms set_emplace_ordered(2) [of "cur_end_keys s" ?x] by (fastforce simp: frag_inv_def)
  then show ?thesis
    using assms(1,2) set_emplace_ordered(1) [of "cur_end_keys s"]
    by (auto simp: frag_inv_def tombstone_covers_def set_emplace_covers)
qed

lemma fragment_step_ok:
  assumes "frag_inv cmp s kvs" "starts_by cmp s (ExtractUserKey (fst kv))"
    and "Compare cmp (ExtractUserKey (fst kv)) (snd kv) \<le> 0"
  shows "frag_inv cmp (fragment_step cmp False sn kv s) (kvs @ [kv])"
    and "cur_start (fragment_step cmp False sn kv s) = ExtractUserKey (fst kv)"
  using frag_inv_emplace [OF frag_inv_move [OF assms(1,2), of sn], of kv] assms(3)
  by (simp_all add: fragment_step_def Let_def)

definition start_le :: "bytes \<times> bytes \<Rightarrow> bytes \<times> bytes \<Rightarrow> bool" where
  "start_le a b \<longleftrightarrow> Compare cmp (ExtractUserKey (fst a)) (ExtractUserKey (fst b)) \<le> 0"

lemma fragment_fold_ok:
  assumes "frag_inv cmp s kvs" "sorted_wrt start_le todo"
    and "\<forall>kv\<in>set todo. starts_by cmp s (ExtractUserKey (fst kv))"
    and "\<forall>kv\<in>set todo. Compare cmp (ExtractUserKey (fst kv)) (snd kv) \<le> 0"
  shows "frag_inv cmp (fold (fragment_step cmp False sn) todo s) (kvs @ todo)"
  using assms
proof (induction todo arbitrary: s kvs)
  case (Cons kv todo)
  let ?s = "fragment_step cmp False sn kv s"
  have step: "frag_inv cmp ?s (kvs @ [kv])" "cur_start ?s = ExtractUserKey (fst kv)"
    using fragment_step_ok [OF Cons.prems(1)] Cons.prems(3,4) by simp_all
  have "starts_by cmp ?s (ExtractUserKey (fst kv'))" if "kv' \<in> set todo" for kv'
    using that Cons.prems(2) by (simp add: starts_by_def step(2) start_le_def)
  with Cons.IH [OF step(1)] Cons.prems(2,4) show ?case by simp
qed simp

lemma set_ordered_last:
  assumes "set_ordered cmp w" "w \<noteq> []"
  shows "\<forall>x\<in>set w. Compare cmp (user_key x) (user_key (last w)) \<le> 0"
proof -
  have "set_ordered cmp (butlast w @ [last w])" using assms by simp
  then have "\<forall>x\<in>set (butlast w @ [last w]). Compare cmp (user_key x) (user_key (last w)) \<le> 0"
    using key_refl by (auto simp: set_ordered_def sorted_wrt_append)
  then show ?thesis using assms(2) by simp
qed

lemma FragmentTombstones_ok:
  assumes "sorted_wrt start_le kvs" "\<forall>kv\<in>set kvs. Compare cmp (ExtractUserKey (fst kv)) (snd kv) \<le> 0"
  shows "\<exists>t. stacks_ok cmp (FragmentTombstones cmp False sn kvs) t"
    and "list_covers cmp (FragmentTombstones cmp False sn kvs) k q \<longleftrightarrow>
      (\<exists>kv\<in>set kvs. tombstone_covers cmp k q kv)"
proof -
  let ?s0 = "\<lparr>cur_start = [], cur_end_keys = [], frag_list = empty_tombstone_list\<rparr>"
  define s where "s = fold (fragment_step cmp False sn) kvs ?s0"
  have "frag_inv cmp ?s0 []"
    by (simp add: frag_inv_def stacks_ok_def empty_tombstone_list_def set_ordered_def list_covers_def
        working_covers_def)
  from fragment_fold_ok [OF this assms(1) _ assms(2), of sn] have s: "frag_inv cmp s kvs"
    by (simp add: s_def starts_by_def empty_tombstone_list_def)
  define s1 where "s1 = (if cur_end_keys s \<noteq> []
    then flush_current_tombstones cmp False sn (user_key (last (cur_end_keys s))) s else s)"
  have l: "FragmentTombstones cmp False sn kvs = frag_list s1"
    by (simp add: FragmentTombstones_def s_def s1_def Let_def)
  have s1: "frag_inv cmp s1 kvs \<and> (\<forall>x\<in>set (cur_end_keys s1). Compare cmp (user_key x) (cur_start s1) \<le> 0)"
  proof (cases "cur_end_keys s = []")
    case False
    let ?last = "last (cur_end_keys s)"
    have top: "\<forall>x\<in>set (cur_end_keys s). Compare cmp (user_key x) (user_key ?last) \<le> 0"
      using s False by (intro set_ordered_last) (simp_all add: frag_inv_def)
    have le: "Compare cmp (cur_start s) (user_key ?last) \<le> 0"
      using s False by (simp add: frag_inv_def)
    have "Compare cmp (user_key x) (cur_start s) \<le> 0"
      if "Compare cmp (cur_start s) (user_key ?last) = 0" "x \<in> set (cur_end_keys s)" for x
      using that top key_zero_swap [of "cur_start s" "user_key ?last"]
        key_trans [of "user_key x" "user_key ?last" "cur_start s"] by simp
    then have "Compare cmp (cur_start s) (user_key ?last) < 0 \<or>
        (\<forall>x\<in>set (cur_end_keys s). Compare cmp (user_key x) (cur_start s) \<le> 0)"
      using le by fastforce
    from flush_current_ok [OF s le this, of sn] top False show ?thesis
      unfolding s1_def by auto
  qed (use s in \<open>simp add: s1_def\<close>)
  then show "\<exists>t. stacks_ok cmp (FragmentTombstones cmp False sn kvs) t"
    unfolding l frag_inv_def by blast
  have "\<not> working_covers cmp (cur_start s1) (cur_end_keys s1) k q"
    using s1 key_le_less [of "cur_start s1" k] key_not_less unfolding working_covers_def by blast
  with s1 show "list_covers cmp (FragmentTombstones cmp False sn kvs) k q \<longleftrightarrow>
      (\<exists>kv\<in>set kvs. tombstone_covers cmp k q kv)"
    unfolding l frag_inv_def by blast
qed

lemma covering_stack:
  fixes k
  assumes "stacks_ok cmp l t"
  defines "p \<equiv> partition_point (\<lambda>st. \<not> Compare cmp k (rs_end_key st) < 0) (tombstones l)"
  shows "list_covers cmp l k q \<longleftrightarrow> p < length (tombstones l) \<and>
    Compare cmp (rs_start_key (tombstones l ! p)) k \<le> 0 \<and> q \<in> set (stack_seqs l (tombstones l ! p))"
    (is "?L \<longleftrightarrow> ?R")
proof
  assume ?R
  then have "Compare cmp k (rs_end_key (tombstones l ! p)) < 0"
    using at_partition_point unfolding p_def by blast
  with \<open>?R\<close> show ?L unfolding list_covers_def using nth_mem by blast
next
  assume ?L
  then obtain i where i: "i < length (tombstones l)" "Compare cmp (rs_start_key (tombstones l ! i)) k \<le> 0"
      "Compare cmp k (rs_end_key (tombstones l ! i)) < 0" "q \<in> set (stack_seqs l (tombstones l ! i))"
    unfolding list_covers_def by (metis in_set_conv_nth)
  have "\<not> i < p"
    using i(3) before_partition_point unfolding p_def by blast
  then have p: "p \<le> i" "p < length (tombstones l)" using i(1) by simp_all
  then have end_p: "Compare cmp k (rs_end_key (tombstones l ! p)) < 0"
    using at_partition_point unfolding p_def by blast
  have "p = i"
  proof (rule ccontr)
    assume "p \<noteq> i"
    then have "Compare cmp (rs_end_key (tombstones l ! p)) (rs_start_key (tombstones l ! i)) \<le> 0"
      using p(1) i(1) assms(1) unfolding stacks_ok_def sorted_wrt_iff_nth_less by simp
    then show False
      using key_less_le [OF end_p] key_not_less [of k "rs_start_key (tombstones l ! i)"] i(2) by blast
  qed
  with i show ?R by simp
qed

lemma visible_seq:
  fixes qs :: "SequenceNumber list" and upper
  assumes "sorted_wrt (\<ge>) qs"
  defines "n \<equiv> partition_point (\<lambda>s. s > upper) qs"
  shows "Max (insert 0 {q. q \<le> upper \<and> q \<in> set qs}) = (if n = length qs then 0 else qs ! n)"
proof (cases "n = length qs")
  case True
  then have "takeWhile (\<lambda>s. s > upper) qs = qs"
    unfolding n_def partition_point_def by (metis takeWhile_eq_take take_all order_refl)
  then have "\<forall>q\<in>set qs. q > upper" by (metis set_takeWhileD)
  then have none: "{q. q \<le> upper \<and> q \<in> set qs} = {}" by auto
  show ?thesis unfolding none using True by simp
next
  case False
  then have n: "n < length qs"
    using partition_point_le le_neq_implies_less unfolding n_def by blast
  then have "qs ! n \<le> upper"
    using at_partition_point [of "\<lambda>s. s > upper" qs] unfolding n_def by simp
  moreover have "q \<le> qs ! n" if q: "q \<le> upper" "q \<in> set qs" for q
  proof -
    obtain i where i: "i < length qs" "qs ! i = q" using q(2) by (auto simp: in_set_conv_nth)
    have "\<not> i < n"
      using q(1) i before_partition_point [of i "\<lambda>s. s > upper" qs] unfolding n_def by auto
    then show ?thesis
      using i assms(1) n sorted_wrt_nth_less [of "(\<ge>)" qs n i] by (cases "n = i") auto
  qed
  ultimately have "Max (insert 0 {q. q \<le> upper \<and> q \<in> set qs}) = qs ! n"
    using n by (intro Max_eqI) auto
  with False show ?thesis by simp
qed

lemma MaxCovering_list:
  assumes "stacks_ok cmp l t"
  shows "fst (MaxCoveringTombstoneSeqnum k (FragmentedRangeTombstoneIterator_new l cmp upper lower)) =
    Max (insert 0 {q. q \<le> upper \<and> list_covers cmp l k q})"
proof -
  define p where "p = partition_point (\<lambda>st. \<not> Compare cmp k (rs_end_key st) < 0) (tombstones l)"
  let ?st = "tombstones l ! p"
  note covers = covering_stack [OF assms, of k, folded p_def]
  have le: "p \<le> length (tombstones l)"
    by (simp add: p_def partition_point_le)
  let ?i = "FragmentedRangeTombstoneIterator_new l cmp upper lower"
  have i: "fr_list ?i = l" "fr_ucmp ?i = cmp" "fr_upper_bound ?i = upper" "fr_end ?i = length (tombstones l)"
    by (simp_all add: FragmentedRangeTombstoneIterator_new_def fr_Invalidate_def fr_end_def)
  show ?thesis
  proof (cases "p = length (tombstones l)")
    case True
    then show ?thesis
      using covers i
      by (simp add: MaxCoveringTombstoneSeqnum_def fr_SeekToCoveringTombstone_def fr_ValidPos_def
          fr_Valid_def fr_end_def flip: p_def)
  next
    case False
    with le have p: "p < length (tombstones l)" by simp
    then have st: "stack_ok cmp l ?st" using assms by (simp add: stacks_ok_def)
    define n where "n = partition_point (\<lambda>s. s > upper) (stack_seqs l ?st)"
    have len: "length (stack_seqs l ?st) = seq_end_idx ?st - seq_start_idx ?st"
      using st by (auto simp: stack_seqs_def stack_ok_def min_def)
    have nle: "n \<le> length (stack_seqs l ?st)"
      by (simp add: n_def partition_point_le)
    have seek: "fr_SeekToCoveringTombstone k ?i = ?i\<lparr>fr_pos := p, fr_seq_pos := seq_start_idx ?st + n\<rparr>"
      using i False
      by (simp add: fr_SeekToCoveringTombstone_def fr_at_def fr_visible_seq_def fr_stack_def n_def
          stack_seqs_def Let_def flip: p_def)
    have nth: "tombstone_seqs l ! (seq_start_idx ?st + n) = stack_seqs l ?st ! n"
      if "n < length (stack_seqs l ?st)"
      using that st by (simp add: stack_seqs_def stack_ok_def)
    have "fst (MaxCoveringTombstoneSeqnum k ?i) =
        (if Compare cmp (rs_start_key ?st) k \<le> 0 then (if n = length (stack_seqs l ?st) then 0
          else stack_seqs l ?st ! n) else 0)"
      using i False nth nle len st
      by (auto simp: MaxCoveringTombstoneSeqnum_def seek fr_ValidPos_def fr_Valid_def fr_end_def fr_seq_def
          fr_start_key_def fr_stack_def stack_ok_def Let_def)
    also have "\<dots> = Max (insert 0 {q. q \<le> upper \<and> list_covers cmp l k q})"
      using visible_seq [of "stack_seqs l ?st" upper, folded n_def] st p covers
      by (simp add: stack_ok_def)
    finally show ?thesis .
  qed
qed

lemma ikc_start: "ikc_Compare cmp (fst a) (fst b) \<le> 0 \<Longrightarrow> start_le a b"
  by (auto simp: ikc_Compare_def start_le_def Let_def split: if_splits)

lemma not_ikc_start: "\<not> ikc_Compare cmp (fst a) (fst b) < 0 \<Longrightarrow> start_le b a"
  using key_not_less [of "ExtractUserKey (fst a)" "ExtractUserKey (fst b)"]
  by (auto simp: ikc_Compare_def start_le_def Let_def split: if_splits)

lemma start_le_trans: "start_le a b \<Longrightarrow> start_le b d \<Longrightarrow> start_le a d"
  using key_trans by (simp add: start_le_def)

lemma tombstones_sorted_start: "tombstones_sorted cmp kvs \<Longrightarrow> sorted_wrt start_le kvs"
proof (induction kvs rule: induct_list012)
  case (3 a b kvs)
  then have ab: "start_le a b" "sorted_wrt start_le (b # kvs)"
    using ikc_start [of a b] by (simp_all split: if_splits)
  then have "\<forall>x\<in>set (b # kvs). start_le a x"
    using start_le_trans [of a b] by simp
  with ab(2) show ?case by simp
qed simp_all

lemma VectorIterator_start:
  "sorted_wrt start_le (VectorIterator cmp kvs)" "set (VectorIterator cmp kvs) = set kvs"
proof -
  let ?lt = "\<lambda>a b. ikc_Compare cmp (fst a) (fst b) < 0"
  have place: "set (sort_place ?lt x ys) = insert x (set ys)" for x ys
    by (induction ys) auto
  show "set (VectorIterator cmp kvs) = set kvs"
    unfolding VectorIterator_def by (induction kvs) (simp_all add: place)
  have "sorted_wrt start_le (sort_place ?lt x ys)" if "sorted_wrt start_le ys" for x ys
    using that
  proof (induction ys)
    case (Cons y ys)
    show ?case
    proof (cases "?lt y x")
      case True
      with Cons show ?thesis using ikc_start [of y x] by (simp add: place)
    next
      case False
      then have "start_le x y" by (rule not_ikc_start)
      then have "\<forall>z\<in>set (y # ys). start_le x z" using Cons.prems start_le_trans [of x y] by simp
      with False Cons.prems show ?thesis by simp
    qed
  qed simp
  then show "sorted_wrt start_le (VectorIterator cmp kvs)"
    unfolding VectorIterator_def by (induction kvs) simp_all
qed

lemma list_new_ok:
  assumes "\<forall>kv\<in>set kvs. Compare cmp (ExtractUserKey (fst kv)) (snd kv) \<le> 0"
  shows "\<exists>t. stacks_ok cmp (FragmentedRangeTombstoneList_new cmp False sn (Some kvs)) t"
    and "list_covers cmp (FragmentedRangeTombstoneList_new cmp False sn (Some kvs)) k q \<longleftrightarrow>
      (\<exists>kv\<in>set kvs. tombstone_covers cmp k q kv)"
  using FragmentTombstones_ok [OF tombstones_sorted_start assms]
    FragmentTombstones_ok [OF VectorIterator_start(1), of kvs] VectorIterator_start(2) [of kvs] assms
  by (simp_all add: FragmentedRangeTombstoneList_new_def)

lemma MaxCovering_exact:
  assumes "\<forall>kv\<in>set kvs. Compare cmp (ExtractUserKey (fst kv)) (snd kv) \<le> 0"
  shows "fst (MaxCoveringTombstoneSeqnum k (FragmentedRangeTombstoneIterator_new
      (FragmentedRangeTombstoneList_new cmp False sn (Some kvs)) cmp upper lower)) =
    newest_tombstone cmp upper k kvs"
proof -
  obtain t where "stacks_ok cmp (FragmentedRangeTombstoneList_new cmp False sn (Some kvs)) t"
    using list_new_ok(1) [OF assms] by blast
  from MaxCovering_list [OF this] show ?thesis
    by (simp only: list_new_ok(2) [OF assms] newest_tombstone_Max)
qed

text \<open>Two ranges from one key, the second of which ends before it.\<close>

lemma inverted_fragments:
  assumes "Compare cmp b c < 0" "Compare cmp c d < 0" "q' < q" "q \<le> kMaxSequenceNumber"
  shows "FragmentedRangeTombstoneList_new cmp False sn
      (Some [(InternalKey c q kTypeRangeDeletion, d), (InternalKey c q' kTypeRangeDeletion, b)]) =
    \<lparr>tombstones =
      [\<lparr>rs_start_key = c, rs_end_key = b, seq_start_idx = 0, seq_end_idx = 2\<rparr>,
       \<lparr>rs_start_key = b, rs_end_key = d, seq_start_idx = 2, seq_end_idx = 3\<rparr>],
     tombstone_seqs = [q, q', q], seq_set = [q', q]\<rparr>"
proof -
  have q': "q' \<le> kMaxSequenceNumber" using assms(3,4) by simp
  have cc: "Compare cmp c c = 0" "Compare cmp d d = 0" by (rule key_refl)+
  have bd: "Compare cmp b d < 0" using key_less_le [OF assms(1)] assms(2) by fastforce
  have cb: "0 < Compare cmp c b" "0 < Compare cmp d b"
    using assms(1) bd Compare_swap [OF TrueI TrueI] by simp_all
  have srt: "tombstones_sorted cmp
      [(InternalKey c q kTypeRangeDeletion, d), (InternalKey c q' kTypeRangeDeletion, b)]"
    using assms(3,4) q' by (simp add: ikc_Compare_InternalKey ikc_Compare_parsed_def cc)
  have less: "parsed_less \<lparr>user_key = b, sequence = q', vtype = t\<rparr> \<lparr>user_key = d, sequence = q, vtype = t\<rparr>"
    "\<not> parsed_less \<lparr>user_key = d, sequence = q, vtype = t\<rparr> \<lparr>user_key = b, sequence = q', vtype = t\<rparr>" for t
    using bd cb by (simp_all add: ParsedInternalKeyComparator_def ikc_Compare_parsed_def)
  have qq: "q' \<le> q" "\<not> q \<le> q'" "\<not> q < q'" using assms(3) by simp_all
  have "FragmentedRangeTombstoneList_new cmp False sn
      (Some [(InternalKey c q kTypeRangeDeletion, d), (InternalKey c q' kTypeRangeDeletion, b)]) =
    FragmentTombstones cmp False sn
      [(InternalKey c q kTypeRangeDeletion, d), (InternalKey c q' kTypeRangeDeletion, b)]"
    by (simp only: FragmentedRangeTombstoneList_new_def srt option.case if_True)
  then show ?thesis
    using assms bd cb cc less q' qq
    by (simp add: FragmentTombstones_def fragment_step_def Let_def
        flush_current_tombstones_def flush_fragment_def empty_tombstone_list_def)
qed

lemma inverted_range:
  assumes "Compare cmp b c < 0" "Compare cmp c d < 0" "Compare cmp b k \<le> 0" "Compare cmp k c < 0"
    and "q' < q" "q \<le> upper" "upper \<le> kMaxSequenceNumber"
  defines "kvs \<equiv> [(InternalKey c q kTypeRangeDeletion, d), (InternalKey c q' kTypeRangeDeletion, b)]"
  shows "newest_tombstone cmp upper k kvs = 0"
    and "fst (MaxCoveringTombstoneSeqnum k (FragmentedRangeTombstoneIterator_new
        (FragmentedRangeTombstoneList_new cmp False sn (Some kvs)) cmp upper lower)) = q"
proof -
  have kb: "\<not> Compare cmp k b < 0" "\<not> Compare cmp c k \<le> 0"
    using assms(3,4) key_not_less [of k b] key_not_less [of k c] by simp_all
  have kd: "Compare cmp k d < 0" using key_less_le [OF assms(4)] assms(2) by fastforce
  have q: "q \<le> kMaxSequenceNumber" using assms(6,7) by simp
  show "newest_tombstone cmp upper k kvs = 0"
    using kb q by (simp add: newest_tombstone_def kvs_def tombstone_covers_def)
  show "fst (MaxCoveringTombstoneSeqnum k (FragmentedRangeTombstoneIterator_new
      (FragmentedRangeTombstoneList_new cmp False sn (Some kvs)) cmp upper lower)) = q"
    unfolding kvs_def inverted_fragments [OF assms(1,2,5) q]
    using kb kd assms(3,6)
    by (auto simp: MaxCoveringTombstoneSeqnum_def FragmentedRangeTombstoneIterator_new_def fr_Invalidate_def
        fr_end_def fr_SeekToCoveringTombstone_def partition_point_def fr_at_def fr_visible_seq_def
        fr_stack_def fr_ValidPos_def fr_Valid_def fr_start_key_def fr_seq_def Let_def not_less)
qed

end

section \<open>Properties\<close>

text \<open>C27. However the tombstones of a memtable overlap and in whatever order they come, cutting
  them into fragments and searching the fragments by their end keys answers for every key the
  greatest sequence number, up to the reader's, of the tombstones over that key, and 0 when there
  is none, provided that no range ends before it begins.\<close>

theorem max_covering_exact:
  assumes "user_key_order cmp"
    and "\<forall>kv\<in>set kvs. Compare cmp (ExtractUserKey (fst kv)) (snd kv) \<le> 0"
  shows "fst (MaxCoveringTombstoneSeqnum k (FragmentedRangeTombstoneIterator_new
      (FragmentedRangeTombstoneList_new cmp False [] (Some kvs)) cmp upper lower)) =
    newest_tombstone cmp upper k kvs"
  by (rule user_key_order.MaxCovering_exact [OF assms])

lemma max_covering_exact_witness:
  "fst (MaxCoveringTombstoneSeqnum [5] (FragmentedRangeTombstoneIterator_new
      (FragmentedRangeTombstoneList_new BytewiseComparator False []
        (Some [(InternalKey [1] 3 kTypeRangeDeletion, [9]), (InternalKey [4] 7 kTypeRangeDeletion, [6]),
          (InternalKey [4] 5 kTypeRangeDeletion, [8])])) BytewiseComparator 6 0)) = 5"
proof -
  let ?kvs = "[(InternalKey [1] 3 kTypeRangeDeletion, [9]), (InternalKey [4] 7 kTypeRangeDeletion, [6]),
    (InternalKey [4] 5 kTypeRangeDeletion, [8 :: byte])]"
  have cmp: "Compare BytewiseComparator = slice_compare" by (simp add: BytewiseComparator_def)
  have "\<forall>kv\<in>set ?kvs. Compare BytewiseComparator (ExtractUserKey (fst kv)) (snd kv) \<le> 0"
    by (simp add: cmp)
  from max_covering_exact [OF bytewise.user_key_order_axioms this, of "[5]" 6 0]
  have "fst (MaxCoveringTombstoneSeqnum [5] (FragmentedRangeTombstoneIterator_new
      (FragmentedRangeTombstoneList_new BytewiseComparator False [] (Some ?kvs)) BytewiseComparator 6 0)) =
    newest_tombstone BytewiseComparator 6 [5] ?kvs" .
  also have "\<dots> = 5"
    by (simp add: newest_tombstone_def tombstone_covers_def cmp kMaxSequenceNumber_def max_def)
  finally show ?thesis .
qed

text \<open>C31. A range that ends before it begins makes the search wrong: when \<open>DeleteRange(c, d)\<close> and
  \<open>DeleteRange(c, b)\<close> with \<open>b\<close> before \<open>c\<close> meet in a memtable, a key between \<open>b\<close> and \<open>c\<close>, which
  neither covers, is answered the number of the first, so that older values of it read as deleted.\<close>

theorem inverted_range_deletes:
  assumes "user_key_order cmp" "Compare cmp b c < 0" "Compare cmp c d < 0"
    and "Compare cmp b k \<le> 0" "Compare cmp k c < 0"
    and "q' < q" "q \<le> upper" "upper \<le> kMaxSequenceNumber"
  shows "newest_tombstone cmp upper k
      [(InternalKey c q kTypeRangeDeletion, d), (InternalKey c q' kTypeRangeDeletion, b)] = 0 \<and>
    fst (MaxCoveringTombstoneSeqnum k (FragmentedRangeTombstoneIterator_new
      (FragmentedRangeTombstoneList_new cmp False []
        (Some [(InternalKey c q kTypeRangeDeletion, d), (InternalKey c q' kTypeRangeDeletion, b)]))
      cmp upper 0)) = q"
  using user_key_order.inverted_range [OF assms] by simp

lemma inverted_range_deletes_witness:
  "newest_tombstone BytewiseComparator 10 [6]
      [(InternalKey [7] 9 kTypeRangeDeletion, [8]), (InternalKey [7] 5 kTypeRangeDeletion, [5])] = 0 \<and>
    fst (MaxCoveringTombstoneSeqnum [6] (FragmentedRangeTombstoneIterator_new
      (FragmentedRangeTombstoneList_new BytewiseComparator False []
        (Some [(InternalKey [7] 9 kTypeRangeDeletion, [8]), (InternalKey [7] 5 kTypeRangeDeletion, [5])]))
      BytewiseComparator 10 0)) = 9"
proof -
  have "Compare BytewiseComparator = slice_compare" by (simp add: BytewiseComparator_def)
  then show ?thesis
    using inverted_range_deletes [OF bytewise.user_key_order_axioms, of "[5]" "[7]" "[8]" "[6]" 5 9 10]
    by (simp add: kMaxSequenceNumber_def)
qed

end
