(* ===== verification/MemTable.thy ===== *)
theory MemTable
  imports SkipListSpec Merging Bloom RangeTombstones Options
begin

text \<open>
  A memtable: db/memtable.h and db/memtable.cc, with the callback of db/read_callback.h.

  The record \<open>MemTable\<close> has the fields of the class, over the type of the structure that holds the
  point entries; range tombstones are in a skip list of their own. \<open>mt_Add\<close> is \<^verbatim>\<open>Add\<close> with both
  its branches, \<open>SaveValue\<close> the callback of a lookup and \<open>mt_Get\<close> is \<^verbatim>\<open>Get\<close>. Null pointers of
  arguments are \<open>None\<close>; the values behind the others are handed in and out.

  The memory of the arena is not modelled: the answer of \<^verbatim>\<open>ShouldFlushNow\<close>, a heuristic over the
  memory in use, and that of the clock are readings handed to the operations.
\<close>

section \<open>Settings and state\<close>

text \<open>
  What a lookup carries through the entries it meets. \<open>sv_fault\<close> is set where the code would go
  through a null pointer.
\<close>

record ReadCallback =
  max_visible_seq :: SequenceNumber
  min_uncommitted :: SequenceNumber
  IsVisibleFullCheck :: "SequenceNumber \<Rightarrow> bool"

definition IsVisible :: "ReadCallback \<Rightarrow> SequenceNumber \<Rightarrow> bool" where
  "IsVisible cb s =
     (if s < min_uncommitted cb then True
      else if max_visible_seq cb < s then False
      else IsVisibleFullCheck cb s)"

record Saver =
  sv_status :: Status
  sv_key :: LookupKey
  sv_found_final_value :: bool
  sv_merge_in_progress :: bool
  sv_value :: "bytes option"
  sv_seq :: SequenceNumber
  sv_merge_operator :: "merge_operator option"
  sv_merge_context :: MergeContext
  sv_max_covering_tombstone_seq :: SequenceNumber
  sv_user_comparator :: comparator
  sv_inplace_update_support :: bool
  sv_do_merge :: bool
  sv_callback :: "ReadCallback option"
  sv_is_blob_index :: "bool option"
  sv_fault :: bool

text \<open>
  The callback of updates in place gets the stored value, or a null pointer, and the new one. It
  may store bytes over the start of that value and set its size, and fill a string.
\<close>

datatype UpdateStatus = UPDATE_FAILED | UPDATED_INPLACE | UPDATED

record inplace_answer =
  ia_status :: UpdateStatus
  ia_stored :: bytes
  ia_size :: u32
  ia_merged :: bytes

record ('t, 'i) MemTableSettings =
  mt_comparator :: comparator
  mt_ops :: "('t, 'i, Saver) memrep"
  prefix_extractor :: "slice_transform option"
  insert_with_hint_prefix_extractor :: "slice_transform option"
  memtable_prefix_bloom_bits :: u32
  memtable_whole_key_filtering :: bool
  inplace_update_support :: bool
  inplace_callback :: "(bytes option \<Rightarrow> bytes \<Rightarrow> inplace_answer) option"
  max_successive_merges :: nat
  mt_merge_operator :: "merge_operator option"

datatype FlushStateEnum = FLUSH_NOT_REQUESTED | FLUSH_REQUESTED | FLUSH_SCHEDULED

text \<open>
  A hint is a splice: of the table of tombstones when the flag is set, else of the point entries.
\<close>

type_synonym hint = "(bool \<times> nat) option"

record 't MemTable =
  mt_table :: 't
  mt_range_del_table :: SkipListRep
  is_range_del_table_empty :: bool
  mt_refs :: int
  mt_data_size :: u64
  mt_num_entries :: u64
  mt_num_deletes :: u64
  write_buffer_size :: nat
  first_seqno :: SequenceNumber
  earliest_seqno :: SequenceNumber
  creation_seq :: SequenceNumber
  min_prep_log_referenced :: u64
  bloom_filter :: "DynamicBloom option"
  flush_state :: FlushStateEnum
  insert_hints :: "bytes \<rightharpoonup> hint"
  oldest_key_time :: u64

record MemTablePostProcessInfo =
  pp_data_size :: u64
  pp_num_entries :: u64
  pp_num_deletes :: u64

definition MemTablePostProcessInfo_new :: MemTablePostProcessInfo where
  "MemTablePostProcessInfo_new = \<lparr>pp_data_size = 0, pp_num_entries = 0, pp_num_deletes = 0\<rparr>"

text \<open>
  What the environment answers during an operation: whether the memory in use asks for a flush,
  and the time.
\<close>

record readings =
  should_flush_now :: bool
  current_time :: "Status \<times> u64"

definition mt_key_comparator :: "('t, 'i) MemTableSettings \<Rightarrow> KeyComparator" where
  "mt_key_comparator cfg = MemTable_KeyComparator (mt_comparator cfg)"

definition range_ops :: "('t, 'i) MemTableSettings \<Rightarrow> (SkipListRep, sl_iter, Saver) memrep" where
  "range_ops cfg = SkipListRep_ops (mt_key_comparator cfg)"

section \<open>Construction and plain accessors\<close>

definition UpdateFlushState :: "bool \<Rightarrow> 't MemTable \<Rightarrow> 't MemTable" where
  "UpdateFlushState full mt =
     (if flush_state mt = FLUSH_NOT_REQUESTED \<and> full then mt\<lparr>flush_state := FLUSH_REQUESTED\<rparr> else mt)"

text \<open>
  \<open>table\<close> is the structure the factory made; \<open>seed\<close> is for the skip list of the tombstones.
  \<open>None\<close>: the size of the filter cannot be rounded.
\<close>

definition MemTable_new ::
  "('t, 'i) MemTableSettings \<Rightarrow> readings \<Rightarrow> 't \<Rightarrow> u32 \<Rightarrow> nat \<Rightarrow> SequenceNumber \<Rightarrow> 't MemTable option" where
  "MemTable_new cfg rd table seed buffer_size latest_seq =
     (let mt = UpdateFlushState (should_flush_now rd)
           \<lparr>mt_table = table, mt_range_del_table = SkipListRep_new None 0 seed,
            is_range_del_table_empty = True, mt_refs = 0, mt_data_size = 0, mt_num_entries = 0,
            mt_num_deletes = 0, write_buffer_size = buffer_size, first_seqno = 0,
            earliest_seqno = latest_seq, creation_seq = latest_seq, min_prep_log_referenced = 0,
            bloom_filter = None, flush_state = FLUSH_NOT_REQUESTED, insert_hints = (\<lambda>_. None),
            oldest_key_time = - 1\<rparr>
      in if (prefix_extractor cfg \<noteq> None \<or> memtable_whole_key_filtering cfg) \<and>
            memtable_prefix_bloom_bits cfg > 0
         then map_option (\<lambda>b. mt\<lparr>bloom_filter := Some b\<rparr>)
                (DynamicBloom_new (memtable_prefix_bloom_bits cfg) 6)
         else Some mt)"

definition mt_Ref :: "'t MemTable \<Rightarrow> 't MemTable" where
  "mt_Ref mt = mt\<lparr>mt_refs := mt_refs mt + 1\<rparr>"

text \<open>The answer says whether the caller gets the memtable back, to delete it.\<close>

definition mt_Unref :: "'t MemTable \<Rightarrow> bool \<times> 't MemTable" where
  "mt_Unref mt = (mt_refs mt - 1 \<le> 0, mt\<lparr>mt_refs := mt_refs mt - 1\<rparr>)"

definition ShouldScheduleFlush :: "'t MemTable \<Rightarrow> bool" where
  "ShouldScheduleFlush mt \<longleftrightarrow> flush_state mt = FLUSH_REQUESTED"

definition MarkFlushScheduled :: "'t MemTable \<Rightarrow> bool \<times> 't MemTable" where
  "MarkFlushScheduled mt =
     (if flush_state mt = FLUSH_REQUESTED then (True, mt\<lparr>flush_state := FLUSH_SCHEDULED\<rparr>) else (False, mt))"

definition UpdateWriteBufferSize :: "nat \<Rightarrow> 't MemTable \<Rightarrow> 't MemTable" where
  "UpdateWriteBufferSize n mt =
     (if bloom_filter mt = None \<or> n < write_buffer_size mt then mt\<lparr>write_buffer_size := n\<rparr> else mt)"

definition mt_IsEmpty :: "'t MemTable \<Rightarrow> bool" where
  "mt_IsEmpty mt \<longleftrightarrow> first_seqno mt = 0"

definition SetCreationSeq :: "SequenceNumber \<Rightarrow> 't MemTable \<Rightarrow> 't MemTable" where
  "SetCreationSeq sn mt = mt\<lparr>creation_seq := sn\<rparr>"

definition BatchPostProcess ::
  "readings \<Rightarrow> MemTablePostProcessInfo \<Rightarrow> 't MemTable \<Rightarrow> 't MemTable" where
  "BatchPostProcess rd counters mt =
     UpdateFlushState (should_flush_now rd)
       (mt\<lparr>mt_num_entries := mt_num_entries mt + pp_num_entries counters,
           mt_data_size := mt_data_size mt + pp_data_size counters,
           mt_num_deletes := mt_num_deletes mt + pp_num_deletes counters\<rparr>)"

text \<open>
  The loop compares and swaps until it succeeds; nothing else writes in between, so it runs at most
  once.
\<close>

definition RefLogContainingPrepSection :: "u64 \<Rightarrow> 't MemTable \<Rightarrow> 't MemTable" where
  "RefLogContainingPrepSection log mt =
     (let cur = min_prep_log_referenced mt
      in if log < cur \<or> cur = 0 then mt\<lparr>min_prep_log_referenced := log\<rparr> else mt)"

definition UpdateOldestKeyTime :: "Status \<times> u64 \<Rightarrow> 't MemTable \<Rightarrow> 't MemTable" where
  "UpdateOldestKeyTime now mt =
     (if oldest_key_time mt = - 1 \<and> ok (fst now) then mt\<lparr>oldest_key_time := snd now\<rparr> else mt)"

section \<open>Adding an entry\<close>

definition entry_encoded_len :: "bytes \<Rightarrow> bytes \<Rightarrow> u32" where
  "entry_encoded_len key value =
     (let key_size = of_nat (length key);
          val_size = of_nat (length value) :: u32;
          internal_key_size = key_size + 8
      in of_nat (VarintLength (ucast internal_key_size)) + internal_key_size
           + of_nat (VarintLength (ucast val_size)) + val_size)"

definition encode_entry :: "SequenceNumber \<Rightarrow> ValueType \<Rightarrow> bytes \<Rightarrow> bytes \<Rightarrow> bytes" where
  "encode_entry s type key value =
     (let key_size = of_nat (length key) :: u32;
          val_size = of_nat (length value) :: u32;
          internal_key_size = key_size + 8
      in EncodeVarint32 internal_key_size @ take (unat key_size) key
           @ EncodeFixed64 (PackSequenceAndType s type)
           @ EncodeVarint32 val_size @ take (unat val_size) value)"

datatype insert_how =
  InsertPlain | InsertHinted hint | InsertConcurrent | InsertConcurrentHinted hint

text \<open>
  A hint of the other table is a splice over the nodes of another list; what the code does with it
  is beyond the model, as \<open>None\<close>.
\<close>

definition own_hint :: "bool \<Rightarrow> hint \<Rightarrow> nat option option" where
  "own_hint rng h =
     (case h of None \<Rightarrow> Some None | Some (r, n) \<Rightarrow> if r = rng then Some (Some n) else None)"

definition rep_add ::
  "('t, 'i, 'a) memrep \<Rightarrow> bool \<Rightarrow> insert_how \<Rightarrow> nat \<Rightarrow> bytes \<Rightarrow> 't \<Rightarrow> (bool \<times> hint \<times> 't) option" where
  "rep_add ops rng how len e t =
     (let (handle, t1) = rep_Allocate ops len t;
          t2 = rep_fill ops handle e t1;
          plain = map_option (\<lambda>(b, t). (b, None, t));
          hinted = map_option (\<lambda>(b, g, t). (b, map_option (Pair rng) g, t))
      in case how of
           InsertPlain \<Rightarrow> plain (rep_InsertKey ops handle t2)
         | InsertHinted h \<Rightarrow>
             Option.bind (own_hint rng h) (\<lambda>g. hinted (rep_InsertKeyWithHint ops handle g t2))
         | InsertConcurrent \<Rightarrow> plain (rep_InsertKeyConcurrently ops handle t2)
         | InsertConcurrentHinted h \<Rightarrow>
             Option.bind (own_hint rng h)
               (\<lambda>g. hinted (rep_InsertKeyWithHintConcurrently ops handle g t2)))"

definition mt_insert ::
  "('t, 'i) MemTableSettings \<Rightarrow> ValueType \<Rightarrow> insert_how \<Rightarrow> nat \<Rightarrow> bytes \<Rightarrow> 't MemTable \<Rightarrow>
     (bool \<times> hint \<times> 't MemTable) option"
where
  "mt_insert cfg type how len e mt =
     (if type = kTypeRangeDeletion
      then map_option (\<lambda>(b, g, t). (b, g, mt\<lparr>mt_range_del_table := t\<rparr>))
             (rep_add (range_ops cfg) True how len e (mt_range_del_table mt))
      else map_option (\<lambda>(b, g, t). (b, g, mt\<lparr>mt_table := t\<rparr>))
             (rep_add (mt_ops cfg) False how len e (mt_table mt)))"

definition bloom_add_key ::
  "('t, 'i) MemTableSettings \<Rightarrow> (bytes \<Rightarrow> DynamicBloom \<Rightarrow> DynamicBloom) \<Rightarrow> bytes \<Rightarrow> 't MemTable \<Rightarrow> 't MemTable"
where
  "bloom_add_key cfg add key mt =
     (case bloom_filter mt of
        None \<Rightarrow> mt
      | Some b \<Rightarrow>
          (let b1 = (case prefix_extractor cfg of
                       Some tr \<Rightarrow> if InDomain tr key then add (Transform tr key) b else b
                     | None \<Rightarrow> b);
               b2 = (if memtable_whole_key_filtering cfg
                     then add (StripTimestampFromUserKey key (timestamp_size (mt_comparator cfg))) b1
                     else b1)
           in mt\<lparr>bloom_filter := Some b2\<rparr>))"

definition note_first_seqno :: "SequenceNumber \<Rightarrow> 't MemTable \<Rightarrow> 't MemTable" where
  "note_first_seqno s mt =
     (if first_seqno mt = 0
      then (let mt1 = mt\<lparr>first_seqno := s\<rparr>
            in if earliest_seqno mt1 = kMaxSequenceNumber
               then mt1\<lparr>earliest_seqno := first_seqno mt1\<rparr> else mt1)
      else mt)"

text \<open>
  The second loop of the concurrent branch, which swaps \<^verbatim>\<open>first_seqno_\<close> as long as it does not hold
  what was read: a swap that fails reads \<^verbatim>\<open>first_seqno_\<close>.
\<close>

function swap_first_seqno ::
  "SequenceNumber \<Rightarrow> SequenceNumber \<Rightarrow> SequenceNumber \<Rightarrow> SequenceNumber" where
  "swap_first_seqno s cur first =
     (if cur = kMaxSequenceNumber \<or> s < cur
      then (if first = cur then s else swap_first_seqno s first first)
      else first)"
  by auto
termination
  by (relation "measure (\<lambda>(s, cur, first). if first = cur then 0 else 1)") auto

declare swap_first_seqno.simps [simp del]

definition note_seqno_concurrently :: "SequenceNumber \<Rightarrow> 't MemTable \<Rightarrow> 't MemTable" where
  "note_seqno_concurrently s mt =
     (let cur_seq_num = first_seqno mt;
          mt1 = (if cur_seq_num = 0 \<or> s < cur_seq_num then mt\<lparr>first_seqno := s\<rparr> else mt);
          cur_earliest_seqno = earliest_seqno mt1
      in mt1\<lparr>first_seqno := swap_first_seqno s cur_earliest_seqno (first_seqno mt1)\<rparr>)"

definition finish_Add :: "readings \<Rightarrow> ValueType \<Rightarrow> 't MemTable \<Rightarrow> 't MemTable" where
  "finish_Add rd type mt =
     UpdateOldestKeyTime (current_time rd)
       (if type = kTypeRangeDeletion then mt\<lparr>is_range_del_table_empty := False\<rparr> else mt)"

text \<open>The branch without concurrent writers.\<close>

definition mt_Add_sequential ::
  "('t, 'i) MemTableSettings \<Rightarrow> readings \<Rightarrow> SequenceNumber \<Rightarrow> ValueType \<Rightarrow> bytes \<Rightarrow> bytes \<Rightarrow> 't MemTable \<Rightarrow>
     (bool \<times> 't MemTable) option"
where
  "mt_Add_sequential cfg rd s type key value mt =
     (let encoded_len = entry_encoded_len key value;
          e = encode_entry s type key value;
          prefix = (case insert_with_hint_prefix_extractor cfg of
                      Some tr \<Rightarrow> if InDomain tr key then Some (Transform tr key) else None
                    | None \<Rightarrow> None);
          how = (case prefix of
                   Some p \<Rightarrow> InsertHinted (case insert_hints mt p of Some h \<Rightarrow> h | None \<Rightarrow> None)
                 | None \<Rightarrow> InsertPlain)
      in case mt_insert cfg type how (unat encoded_len) e mt of
           None \<Rightarrow> None
         | Some (res, g, mt0) \<Rightarrow>
             (let mt1 = (case prefix of Some p \<Rightarrow> mt0\<lparr>insert_hints := (insert_hints mt0)(p \<mapsto> g)\<rparr>
                                      | None \<Rightarrow> mt0)
              in if \<not> res then Some (False, mt1)
                 else
                   (let mt2 = mt1\<lparr>mt_num_entries := mt_num_entries mt1 + 1,
                                   mt_data_size := mt_data_size mt1 + ucast encoded_len\<rparr>;
                        mt3 = (if type = kTypeDeletion
                               then mt2\<lparr>mt_num_deletes := mt_num_deletes mt2 + 1\<rparr> else mt2);
                        mt4 = bloom_add_key cfg bloom_Add key mt3;
                        mt5 = UpdateFlushState (should_flush_now rd) (note_first_seqno s mt4)
                    in Some (True, finish_Add rd type mt5))))"

text \<open>
  The branch for concurrent writers, as one of them runs it; the counters are the writer's own.
  The hint is a null pointer or the pointer that is in the caller's map.
\<close>

definition mt_Add_concurrent ::
  "('t, 'i) MemTableSettings \<Rightarrow> readings \<Rightarrow> SequenceNumber \<Rightarrow> ValueType \<Rightarrow> bytes \<Rightarrow> bytes \<Rightarrow>
     MemTablePostProcessInfo \<Rightarrow> hint option \<Rightarrow> 't MemTable \<Rightarrow>
     (bool \<times> MemTablePostProcessInfo \<times> hint option \<times> 't MemTable) option"
where
  "mt_Add_concurrent cfg rd s type key value info hint mt =
     (let encoded_len = entry_encoded_len key value;
          e = encode_entry s type key value;
          how = (case hint of None \<Rightarrow> InsertConcurrent | Some h \<Rightarrow> InsertConcurrentHinted h)
      in case mt_insert cfg type how (unat encoded_len) e mt of
           None \<Rightarrow> None
         | Some (res, g, mt1) \<Rightarrow>
             (let hint' = map_option (\<lambda>_. g) hint
              in if \<not> res then Some (False, info, hint', mt1)
                 else
                   (let info1 = info\<lparr>pp_num_entries := pp_num_entries info + 1,
                                      pp_data_size := pp_data_size info + ucast encoded_len\<rparr>;
                        info2 = (if type = kTypeDeletion
                                 then info1\<lparr>pp_num_deletes := pp_num_deletes info1 + 1\<rparr> else info1);
                        mt2 = bloom_add_key cfg bloom_AddConcurrently key mt1;
                        mt3 = note_seqno_concurrently s mt2
                    in Some (True, info2, hint', finish_Add rd type mt3))))"

end
