(* ===== verification/MemTableGet.thy ===== *)
theory MemTableGet
  imports MemTable
begin

text \<open>
  Lookups and iterators of a memtable (db/memtable.cc). \<open>SaveValue\<close> is what a lookup does with each
  entry, \<open>mt_Get\<close> the lookup with its filter and its tombstones, \<open>CountSuccessiveMergeEntries\<close> the
  count of merge entries at the head of a key.

  Loops over the structure's iterators may not end; \<open>None\<close> stands for that, and for going through
  a null pointer.
\<close>

section \<open>What a lookup does with an entry\<close>

text \<open>The user key of an entry, its tag and its value.\<close>

definition entry_parts :: "bytes \<Rightarrow> (bytes \<times> u64 \<times> bytes) option" where
  "entry_parts entry =
     (case GetVarint32Ptr (take 5 entry) of
        None \<Rightarrow> None
      | Some (key_length, q) \<Rightarrow>
          (let key_ptr = drop (length (take 5 entry) - length q) entry;
               n = unat key_length
           in Some (take (n - 8) key_ptr, DecodeFixed64 (drop (n - 8) key_ptr),
                    prefixed_slice (drop n key_ptr))))"

definition CheckCallback :: "Saver \<Rightarrow> SequenceNumber \<Rightarrow> bool" where
  "CheckCallback s sq = (case sv_callback s of None \<Rightarrow> True | Some cb \<Rightarrow> IsVisible cb sq)"

definition sv_push :: "bytes \<Rightarrow> Saver \<Rightarrow> Saver" where
  "sv_push v s =
     s\<lparr>sv_merge_context := PushOperand v (\<not> sv_inplace_update_support s) (sv_merge_context s)\<rparr>"

definition sv_merge :: "bytes option \<Rightarrow> Saver \<Rightarrow> Saver" where
  "sv_merge v s =
     (let (operands, mc) = GetOperands (sv_merge_context s);
          s1 = s\<lparr>sv_merge_context := mc\<rparr>
      in case TimedFullMerge (sv_merge_operator s) (lookup_user_key (sv_key s)) v operands (sv_value s) False of
           None \<Rightarrow> s1\<lparr>sv_fault := True\<rparr>
         | Some (st, r, _) \<Rightarrow> s1\<lparr>sv_status := st, sv_value := Some r\<rparr>)"

text \<open>An entry with a value.\<close>

definition save_value :: "ValueType \<Rightarrow> bytes \<Rightarrow> Saver \<Rightarrow> Saver" where
  "save_value type v s0 =
     (let s = s0\<lparr>sv_status := OK\<rparr>;
          s1 = (if sv_merge_in_progress s
                then (if sv_do_merge s then (if sv_value s \<noteq> None then sv_merge (Some v) s else s)
                      else sv_push v s)
                else if \<not> sv_do_merge s then sv_push v s
                else if sv_value s \<noteq> None then s\<lparr>sv_value := Some v\<rparr>
                else s)
      in s1\<lparr>sv_found_final_value := True,
            sv_is_blob_index := map_option (\<lambda>_. type = kTypeBlobIndex) (sv_is_blob_index s1)\<rparr>)"

text \<open>The checks for an entry of a blob database; then it is saved like a value.\<close>

definition check_blob_index :: "Saver \<Rightarrow> Saver" where
  "check_blob_index s =
     (if sv_is_blob_index s = None
      then s\<lparr>sv_status := NotSupported (str (''Encounter unsupported blob value. Please open DB with '' @
             ''rocksdb::blob_db::BlobDB instead.'')) []\<rparr>
      else if sv_merge_in_progress s
      then s\<lparr>sv_status := NotSupported (str ''Blob DB does not support merge operator.'') []\<rparr>
      else s)"

definition save_deletion :: "Saver \<Rightarrow> Saver" where
  "save_deletion s =
     (let s1 = (if sv_merge_in_progress s
                then (if sv_value s \<noteq> None then sv_merge None s else s)
                else s\<lparr>sv_status := NotFound_sub kNone\<rparr>)
      in s1\<lparr>sv_found_final_value := True\<rparr>)"

definition save_merge :: "bytes \<Rightarrow> Saver \<Rightarrow> bool \<times> Saver" where
  "save_merge v s =
     (case sv_merge_operator s of
        None \<Rightarrow>
          (False, s\<lparr>sv_status := InvalidArgument (str ''merge_operator is not properly initialized.'') [],
                   sv_found_final_value := True\<rparr>)
      | Some mo \<Rightarrow>
          (let s1 = sv_push v (s\<lparr>sv_merge_in_progress := True\<rparr>)
           in if sv_do_merge s1
              then
                (let (operands, mc) = GetOperandsDirectionBackward (sv_merge_context s1);
                     s2 = s1\<lparr>sv_merge_context := mc\<rparr>
                 in if ShouldMerge mo operands
                    then (False, (sv_merge None s2)\<lparr>sv_found_final_value := True\<rparr>)
                    else (True, s2))
              else (True, s1)))"

definition covered_type :: "Saver \<Rightarrow> SequenceNumber \<Rightarrow> ValueType \<Rightarrow> ValueType" where
  "covered_type s sq type =
     (if (type = kTypeValue \<or> type = kTypeMerge \<or> type = kTypeBlobIndex) \<and>
         sv_max_covering_tombstone_seq s > sq
      then kTypeRangeDeletion else type)"

definition SaveValue :: "Saver \<Rightarrow> bytes \<Rightarrow> bool \<times> Saver" where
  "SaveValue s entry =
     (case entry_parts entry of
        None \<Rightarrow> (False, s\<lparr>sv_fault := True\<rparr>)
      | Some (user_key_slice, tag, v) \<Rightarrow>
          if CompareWithoutTimestamp (sv_user_comparator s) user_key_slice (lookup_user_key (sv_key s)) = 0
          then
            (let (sq, type0) = UnPackSequenceAndType tag
             in if \<not> CheckCallback s sq then (True, s)
                else
                  (let s1 = s\<lparr>sv_seq := sq\<rparr>;
                       type = covered_type s1 sq type0
                   in if type = kTypeBlobIndex
                      then (let s2 = check_blob_index s1
                            in if \<not> ok (sv_status s2) then (False, s2\<lparr>sv_found_final_value := True\<rparr>)
                               else (False, save_value type v s2))
                      else if type = kTypeValue then (False, save_value type v s1)
                      else if type = kTypeDeletion \<or> type = kTypeSingleDeletion \<or> type = kTypeRangeDeletion
                      then (False, save_deletion s1)
                      else if type = kTypeMerge then save_merge v s1
                      else (True, s1)))
          else (False, s))"

section \<open>Iterators\<close>

record 'b MemTableIterator =
  mi_bloom :: "DynamicBloom option"
  mi_rep :: 'b
  mi_valid :: bool

definition mi_set ::
  "('t, 'i, 'a) memrep \<Rightarrow> 't \<times> 'i \<Rightarrow> ('t \<times> 'i) MemTableIterator \<Rightarrow> ('t \<times> 'i) MemTableIterator" where
  "mi_set ops ti m = (let (v, ti') = it_Valid ops ti in m\<lparr>mi_rep := ti', mi_valid := v\<rparr>)"

definition MemTableIterator_new ::
  "('t, 'i) MemTableSettings \<Rightarrow> ReadOptions \<Rightarrow> 't MemTable \<Rightarrow> ('t \<times> 'i) MemTableIterator" where
  "MemTableIterator_new cfg ro mt =
     \<lparr>mi_bloom = (if prefix_extractor cfg \<noteq> None \<and> \<not> total_order_seek ro then bloom_filter mt else None),
      mi_rep = (mt_table mt, rep_GetIterator (mt_ops cfg) (mt_table mt)), mi_valid = False\<rparr>"

text \<open>The iterator over the tombstones, without a filter.\<close>

definition range_iterator ::
  "('t, 'i) MemTableSettings \<Rightarrow> 't MemTable \<Rightarrow> (SkipListRep \<times> sl_iter) MemTableIterator" where
  "range_iterator cfg mt =
     \<lparr>mi_bloom = None,
      mi_rep = (mt_range_del_table mt, rep_GetIterator (range_ops cfg) (mt_range_del_table mt)),
      mi_valid = False\<rparr>"

definition mi_key :: "('t, 'i, 'a) memrep \<Rightarrow> ('t \<times> 'i) MemTableIterator \<Rightarrow> bytes" where
  "mi_key ops m = prefixed_slice (it_key ops (mi_rep m))"

definition entry_value :: "bytes \<Rightarrow> bytes" where
  "entry_value e =
     (case GetVarint32Ptr (take 5 e) of
        None \<Rightarrow> []
      | Some (n, q) \<Rightarrow> prefixed_slice (drop (unat n) (drop (length (take 5 e) - length q) e)))"

definition mi_value :: "('t, 'i, 'a) memrep \<Rightarrow> ('t \<times> 'i) MemTableIterator \<Rightarrow> bytes" where
  "mi_value ops m = entry_value (it_key ops (mi_rep m))"

definition mi_SeekToFirst ::
  "('t, 'i, 'a) memrep \<Rightarrow> ('t \<times> 'i) MemTableIterator \<Rightarrow> ('t \<times> 'i) MemTableIterator option" where
  "mi_SeekToFirst ops m = map_option (\<lambda>ti. mi_set ops ti m) (it_SeekToFirst ops (mi_rep m))"

definition mi_SeekToLast ::
  "('t, 'i, 'a) memrep \<Rightarrow> ('t \<times> 'i) MemTableIterator \<Rightarrow> ('t \<times> 'i) MemTableIterator option" where
  "mi_SeekToLast ops m = map_option (\<lambda>ti. mi_set ops ti m) (it_SeekToLast ops (mi_rep m))"

definition mi_Next ::
  "('t, 'i, 'a) memrep \<Rightarrow> ('t \<times> 'i) MemTableIterator \<Rightarrow> ('t \<times> 'i) MemTableIterator option" where
  "mi_Next ops m = map_option (\<lambda>ti. mi_set ops ti m) (it_Next ops (mi_rep m))"

definition mi_Prev ::
  "('t, 'i, 'a) memrep \<Rightarrow> ('t \<times> 'i) MemTableIterator \<Rightarrow> ('t \<times> 'i) MemTableIterator option" where
  "mi_Prev ops m = map_option (\<lambda>ti. mi_set ops ti m) (it_Prev ops (mi_rep m))"

definition mi_excluded ::
  "('t, 'i) MemTableSettings \<Rightarrow> bytes \<Rightarrow> ('t \<times> 'i) MemTableIterator \<Rightarrow> bool" where
  "mi_excluded cfg k m =
     (case (mi_bloom m, prefix_extractor cfg) of
        (Some b, Some tr) \<Rightarrow>
          (let user_k = ExtractUserKey k in InDomain tr user_k \<and> \<not> bloom_MayContain (Transform tr user_k) b)
      | _ \<Rightarrow> False)"

definition mi_Seek ::
  "('t, 'i) MemTableSettings \<Rightarrow> bytes \<Rightarrow> ('t \<times> 'i) MemTableIterator \<Rightarrow> ('t \<times> 'i) MemTableIterator option"
where
  "mi_Seek cfg k m =
     (if mi_excluded cfg k m then Some (m\<lparr>mi_valid := False\<rparr>)
      else map_option (\<lambda>ti. mi_set (mt_ops cfg) ti m) (it_Seek (mt_ops cfg) k None (mi_rep m)))"

partial_function (option) mi_back_loop ::
  "('t, 'i) MemTableSettings \<Rightarrow> bytes \<Rightarrow> ('t \<times> 'i) MemTableIterator \<Rightarrow> ('t \<times> 'i) MemTableIterator option"
where
  "mi_back_loop cfg k m =
     (if mi_valid m \<and> ikc_Compare (mt_comparator cfg) k (mi_key (mt_ops cfg) m) < 0
      then Option.bind (mi_Prev (mt_ops cfg) m) (mi_back_loop cfg k)
      else Some m)"

definition mi_SeekForPrev ::
  "('t, 'i) MemTableSettings \<Rightarrow> bytes \<Rightarrow> ('t \<times> 'i) MemTableIterator \<Rightarrow> ('t \<times> 'i) MemTableIterator option"
where
  "mi_SeekForPrev cfg k m =
     (if mi_excluded cfg k m then Some (m\<lparr>mi_valid := False\<rparr>)
      else
        Option.bind (it_Seek (mt_ops cfg) k None (mi_rep m)) (\<lambda>ti.
          let m1 = mi_set (mt_ops cfg) ti m
          in Option.bind (if mi_valid m1 then Some m1 else mi_SeekToLast (mt_ops cfg) m1)
               (mi_back_loop cfg k)))"

text \<open>What an iterator yields from where it stands.\<close>

partial_function (option) mi_drain ::
  "('t, 'i, 'a) memrep \<Rightarrow> ('t \<times> 'i) MemTableIterator \<Rightarrow> (bytes \<times> bytes) list option" where
  "mi_drain ops m =
     (if mi_valid m
      then Option.bind (mi_Next ops m) (\<lambda>m'.
             Option.bind (mi_drain ops m') (\<lambda>kvs. Some ((mi_key ops m, mi_value ops m) # kvs)))
      else Some [])"

section \<open>Lookups\<close>

text \<open>The outer \<open>None\<close> is a loop that does not end, the inner one the null pointer.\<close>

definition NewRangeTombstoneIterator ::
  "('t, 'i) MemTableSettings \<Rightarrow> ReadOptions \<Rightarrow> SequenceNumber \<Rightarrow> 't MemTable \<Rightarrow>
     FragmentedRangeTombstoneIterator option option"
where
  "NewRangeTombstoneIterator cfg ro read_seq mt =
     (if ignore_range_deletions ro \<or> is_range_del_table_empty mt then Some None
      else
        Option.bind (mi_SeekToFirst (range_ops cfg) (range_iterator cfg mt)) (\<lambda>m.
          map_option
            (\<lambda>kvs. Some (FragmentedRangeTombstoneIterator_new
                     (FragmentedRangeTombstoneList_new (mt_comparator cfg) False [] (Some kvs))
                     (mt_comparator cfg) read_seq 0))
            (mi_drain (range_ops cfg) m)))"

text \<open>What a caller hands in by pointer and reads afterwards.\<close>

record LookupArgs =
  la_value :: "bytes option"
  la_status :: Status
  la_merge_context :: MergeContext
  la_max_covering_tombstone_seq :: SequenceNumber
  la_seq :: SequenceNumber
  la_is_blob_index :: "bool option"

definition mt_may_contain :: "('t, 'i) MemTableSettings \<Rightarrow> bytes \<Rightarrow> 't MemTable \<Rightarrow> bool" where
  "mt_may_contain cfg ukey mt =
     (case bloom_filter mt of
        None \<Rightarrow> True
      | Some b \<Rightarrow>
          if memtable_whole_key_filtering cfg
          then bloom_MayContain (StripTimestampFromUserKey ukey (timestamp_size (mt_comparator cfg))) b
          else (case prefix_extractor cfg of
                  None \<Rightarrow> True
                | Some tr \<Rightarrow> \<not> InDomain tr ukey \<or> bloom_MayContain (Transform tr ukey) b))"

definition Saver_new ::
  "('t, 'i) MemTableSettings \<Rightarrow> LookupKey \<Rightarrow> LookupArgs \<Rightarrow> ReadCallback option \<Rightarrow> bool \<Rightarrow> Saver" where
  "Saver_new cfg key args callback do_merge =
     \<lparr>sv_status = la_status args, sv_key = key, sv_found_final_value = False,
      sv_merge_in_progress = IsMergeInProgress (la_status args), sv_value = la_value args,
      sv_seq = kMaxSequenceNumber, sv_merge_operator = mt_merge_operator cfg,
      sv_merge_context = la_merge_context args,
      sv_max_covering_tombstone_seq = la_max_covering_tombstone_seq args,
      sv_user_comparator = mt_comparator cfg,
      sv_inplace_update_support = inplace_update_support cfg, sv_do_merge = do_merge,
      sv_callback = callback, sv_is_blob_index = la_is_blob_index args, sv_fault = False\<rparr>"

definition args_of :: "Saver \<Rightarrow> LookupArgs \<Rightarrow> LookupArgs" where
  "args_of s args =
     args\<lparr>la_value := sv_value s, la_status := sv_status s, la_merge_context := sv_merge_context s,
          la_seq := sv_seq s, la_is_blob_index := sv_is_blob_index s\<rparr>"

definition mt_search ::
  "('t, 'i) MemTableSettings \<Rightarrow> LookupKey \<Rightarrow> LookupArgs \<Rightarrow> ReadCallback option \<Rightarrow> bool \<Rightarrow> 't MemTable \<Rightarrow>
     (bool \<times> LookupArgs \<times> 't MemTable) option"
where
  "mt_search cfg key args callback do_merge mt =
     (let saver = Saver_new cfg key args callback do_merge
      in if mt_may_contain cfg (lookup_user_key key) mt
         then
           (case rep_Get (mt_ops cfg) key SaveValue (mt_table mt, saver) of
              None \<Rightarrow> None
            | Some (t, s) \<Rightarrow>
                if sv_fault s then None
                else
                  (let a = args_of s args;
                       a1 = (if \<not> sv_found_final_value s \<and> sv_merge_in_progress s
                             then a\<lparr>la_status := MergeInProgress_sub kNone\<rparr> else a)
                   in Some (sv_found_final_value s, a1, mt\<lparr>mt_table := t\<rparr>)))
         else
           (let a = args\<lparr>la_seq := kMaxSequenceNumber\<rparr>;
                a1 = (if IsMergeInProgress (la_status args)
                      then a\<lparr>la_status := MergeInProgress_sub kNone\<rparr> else a)
            in Some (False, a1, mt)))"

definition mt_Get ::
  "('t, 'i) MemTableSettings \<Rightarrow> LookupKey \<Rightarrow> LookupArgs \<Rightarrow> ReadOptions \<Rightarrow> ReadCallback option \<Rightarrow> bool \<Rightarrow>
     't MemTable \<Rightarrow> (bool \<times> LookupArgs \<times> 't MemTable) option"
where
  "mt_Get cfg key args read_opts callback do_merge mt =
     (if mt_IsEmpty mt then Some (False, args, mt)
      else
        (case NewRangeTombstoneIterator cfg read_opts (GetInternalKeySeqno (internal_key key)) mt of
           None \<Rightarrow> None
         | Some range_del_iter \<Rightarrow>
             (let args1 = (case range_del_iter of
                             None \<Rightarrow> args
                           | Some i \<Rightarrow>
                               args\<lparr>la_max_covering_tombstone_seq :=
                                 max (la_max_covering_tombstone_seq args)
                                     (fst (MaxCoveringTombstoneSeqnum (lookup_user_key key) i))\<rparr>)
              in mt_search cfg key args1 callback do_merge mt)))"

section \<open>Successive merges\<close>

partial_function (option) count_merges_loop ::
  "('t, 'i) MemTableSettings \<Rightarrow> LookupKey \<Rightarrow> nat \<Rightarrow> 't \<times> 'i \<Rightarrow> nat option" where
  "count_merges_loop cfg key n ti =
     (case it_Valid (mt_ops cfg) ti of
        (valid, ti1) \<Rightarrow>
          if \<not> valid then Some n
          else
            (case entry_parts (it_key (mt_ops cfg) ti1) of
               None \<Rightarrow> None
             | Some (user_key_slice, tag, _) \<Rightarrow>
                 if \<not> Equal (mt_comparator cfg) user_key_slice (lookup_user_key key) then Some n
                 else if snd (UnPackSequenceAndType tag) \<noteq> kTypeMerge then Some n
                 else Option.bind (it_Next (mt_ops cfg) ti1) (count_merges_loop cfg key (n + 1))))"

definition CountSuccessiveMergeEntries ::
  "('t, 'i) MemTableSettings \<Rightarrow> LookupKey \<Rightarrow> 't MemTable \<Rightarrow> nat option" where
  "CountSuccessiveMergeEntries cfg key mt =
     Option.bind
       (it_Seek (mt_ops cfg) (internal_key key) (Some (memtable_key key))
         (mt_table mt, rep_GetIterator (mt_ops cfg) (mt_table mt)))
       (count_merges_loop cfg key 0)"

end
