(* ===== verification/MemTableUpdate.thy ===== *)
theory MemTableUpdate
  imports MemTableGet
begin

text \<open>
  Updates in place (db/memtable.cc, \<^verbatim>\<open>MemTable::Update\<close> and \<^verbatim>\<open>MemTable::UpdateCallback\<close>): the newest
  value of a key is overwritten in the memory of its entry when the new one is not longer, and a new
  entry is added otherwise.
\<close>

text \<open>Where an entry has the length of its value, and the length's code.\<close>

definition value_offset :: "bytes \<Rightarrow> nat option" where
  "value_offset entry =
     (case GetVarint32Ptr (take 5 entry) of
        None \<Rightarrow> None
      | Some (key_length, q) \<Rightarrow> Some (length (take 5 entry) - length q + unat key_length))"

definition value_start :: "bytes \<Rightarrow> nat option" where
  "value_start entry =
     Option.bind (value_offset entry) (\<lambda>off.
       case GetVarint32Ptr (take 5 (drop off entry)) of
         None \<Rightarrow> None
       | Some (n, q) \<Rightarrow> Some (off + (length (take 5 (drop off entry)) - length q)))"

text \<open>The entry a lookup of the key would meet first, when it is the key's and is a plain value.\<close>

definition seek_value ::
  "('t, 'i) MemTableSettings \<Rightarrow> SequenceNumber \<Rightarrow> bytes \<Rightarrow> 't MemTable \<Rightarrow> (('t \<times> 'i) \<times> bytes option) option"
where
  "seek_value cfg seq key mt =
     (let lkey = LookupKey_new key seq None
      in Option.bind
           (it_Seek (mt_ops cfg) (internal_key lkey) (Some (memtable_key lkey))
             (mt_table mt, rep_GetIterator (mt_ops cfg) (mt_table mt)))
           (\<lambda>ti.
             case it_Valid (mt_ops cfg) ti of
               (valid, ti1) \<Rightarrow>
                 if \<not> valid then Some (ti1, None)
                 else
                   (case entry_parts (it_key (mt_ops cfg) ti1) of
                      None \<Rightarrow> None
                    | Some (ukey, tag, prev_value) \<Rightarrow>
                        if Equal (mt_comparator cfg) ukey (lookup_user_key lkey) \<and>
                           snd (UnPackSequenceAndType tag) = kTypeValue
                        then Some (ti1, Some prev_value) else Some (ti1, None))))"

definition mt_Update ::
  "('t, 'i) MemTableSettings \<Rightarrow> readings \<Rightarrow> SequenceNumber \<Rightarrow> bytes \<Rightarrow> bytes \<Rightarrow> 't MemTable \<Rightarrow> 't MemTable option"
where
  "mt_Update cfg rd seq key v mt =
     Option.bind (seek_value cfg seq key mt) (\<lambda>(ti, found).
       let mt1 = mt\<lparr>mt_table := fst ti\<rparr>;
           add = map_option snd (mt_Add_sequential cfg rd seq kTypeValue key v mt1);
           new_size = of_nat (length v) :: u32
       in case found of
            None \<Rightarrow> add
          | Some prev_value \<Rightarrow>
              if new_size \<le> of_nat (length prev_value)
              then Option.bind (value_offset (it_key (mt_ops cfg) ti)) (\<lambda>off.
                     Some (mt1\<lparr>mt_table := fst (it_write (mt_ops cfg) off (EncodeVarint32 new_size @ v) ti)\<rparr>))
              else add)"

text \<open>
  What the code writes after the callback has answered, at the offsets of the value's length and of
  the value itself. The shifting copy is \<^verbatim>\<open>memcpy\<close>; where its two ranges overlap the behaviour is
  undefined, which is \<open>None\<close>.
\<close>

definition shrink_value ::
  "('t, 'i, 'a) memrep \<Rightarrow> nat \<Rightarrow> nat \<Rightarrow> u32 \<Rightarrow> u32 \<Rightarrow> 't \<times> 'i \<Rightarrow> ('t \<times> 'i) option" where
  "shrink_value ops off start prev_size new_prev_size ti =
     (if new_prev_size < prev_size
      then
        (let len = EncodeVarint32 new_prev_size;
             ti1 = it_write ops off len ti;
             p = off + length len;
             n = unat new_prev_size
         in if VarintLength (ucast new_prev_size) < VarintLength (ucast prev_size)
            then (if p + n \<le> start \<or> start + n \<le> p
                  then Some (it_write ops p (take n (drop start (it_key ops ti1))) ti1) else None)
            else Some ti1)
      else Some ti)"

definition mt_UpdateCallback ::
  "('t, 'i) MemTableSettings \<Rightarrow> (bytes option \<Rightarrow> bytes \<Rightarrow> inplace_answer) \<Rightarrow> readings \<Rightarrow> SequenceNumber \<Rightarrow>
     bytes \<Rightarrow> bytes \<Rightarrow> 't MemTable \<Rightarrow> (bool \<times> 't MemTable) option"
where
  "mt_UpdateCallback cfg callback rd seq key delta mt =
     Option.bind (seek_value cfg seq key mt) (\<lambda>(ti, found).
       let mt1 = mt\<lparr>mt_table := fst ti\<rparr>;
           done = (\<lambda>m. Some (True, UpdateFlushState (should_flush_now rd) m))
       in case found of
            None \<Rightarrow> Some (False, mt1)
          | Some prev_value \<Rightarrow>
              (case (value_offset (it_key (mt_ops cfg) ti), value_start (it_key (mt_ops cfg) ti)) of
                 (Some off, Some start) \<Rightarrow>
                   (let a = callback (Some prev_value) delta;
                        ti1 = it_write (mt_ops cfg) start (ia_stored a) ti;
                        mt2 = mt1\<lparr>mt_table := fst ti1\<rparr>
                    in case ia_status a of
                         UPDATED_INPLACE \<Rightarrow>
                           Option.bind
                             (shrink_value (mt_ops cfg) off start (of_nat (length prev_value)) (ia_size a) ti1)
                             (\<lambda>ti2. done (mt2\<lparr>mt_table := fst ti2\<rparr>))
                       | UPDATED \<Rightarrow>
                           Option.bind (mt_Add_sequential cfg rd seq kTypeValue key (ia_merged a) mt2)
                             (\<lambda>(_, mt3). done mt3)
                       | UPDATE_FAILED \<Rightarrow> done mt2)
               | _ \<Rightarrow> None))"

end
