(* ===== verification/PrepTracker.thy ===== *)
theory PrepTracker
  imports Prelude
begin

text \<open>
  db/logs_with_prep_tracker.h and db/logs_with_prep_tracker.cc: which log files still hold sections
  of prepared transactions that have been neither committed nor rolled back. A log file must be kept
  as long as it holds one.

  Sections that end are counted apart from those that begin; the two counts meet when the smallest
  log is asked for. The specification is the list of the logs of the open sections, one entry for
  each.
\<close>

record LogCnt =
  lc_log :: u64
  lc_cnt :: u64

record LogsWithPrepTracker =
  logs_with_prep :: "LogCnt list"
  prepared_section_completed :: "u64 \<rightharpoonup> u64"

definition LogsWithPrepTracker_new :: LogsWithPrepTracker where
  "LogsWithPrepTracker_new = \<lparr>logs_with_prep = [], prepared_section_completed = (\<lambda>_. None)\<rparr>"

definition MarkLogAsHavingPrepSectionFlushed :: "u64 \<Rightarrow> LogsWithPrepTracker \<Rightarrow> LogsWithPrepTracker" where
  "MarkLogAsHavingPrepSectionFlushed log t =
     t\<lparr>prepared_section_completed := (prepared_section_completed t)(log \<mapsto>
        (case prepared_section_completed t log of None \<Rightarrow> 1 | Some n \<Rightarrow> n + 1))\<rparr>"

text \<open>The search from the end, on the reversed list.\<close>

fun mark_from_end :: "u64 \<Rightarrow> LogCnt list \<Rightarrow> LogCnt list" where
  "mark_from_end log [] = [\<lparr>lc_log = log, lc_cnt = 1\<rparr>]"
| "mark_from_end log (r # rs) =
     (if lc_log r \<ge> log
      then (if lc_log r = log then r\<lparr>lc_cnt := lc_cnt r + 1\<rparr> # rs else r # mark_from_end log rs)
      else \<lparr>lc_log = log, lc_cnt = 1\<rparr> # r # rs)"

definition MarkLogAsContainingPrepSection :: "u64 \<Rightarrow> LogsWithPrepTracker \<Rightarrow> LogsWithPrepTracker" where
  "MarkLogAsContainingPrepSection log t =
     t\<lparr>logs_with_prep := rev (mark_from_end log (rev (logs_with_prep t)))\<rparr>"

fun find_min_loop :: "LogCnt list \<Rightarrow> (u64 \<rightharpoonup> u64) \<Rightarrow> u64 \<times> LogCnt list \<times> (u64 \<rightharpoonup> u64)" where
  "find_min_loop [] completed = (0, [], completed)"
| "find_min_loop (l # ls) completed =
     (case completed (lc_log l) of
        None \<Rightarrow> (lc_log l, l # ls, completed)
      | Some n \<Rightarrow>
          if n < lc_cnt l then (lc_log l, l # ls, completed)
          else find_min_loop ls (completed(lc_log l := None)))"

definition FindMinLogContainingOutstandingPrep :: "LogsWithPrepTracker \<Rightarrow> u64 \<times> LogsWithPrepTracker" where
  "FindMinLogContainingOutstandingPrep t =
     (case find_min_loop (logs_with_prep t) (prepared_section_completed t) of
        (log, ls, completed) \<Rightarrow> (log, \<lparr>logs_with_prep = ls, prepared_section_completed = completed\<rparr>))"

section \<open>Specification\<close>

datatype prep_command = SectionBegins u64 | SectionEnds u64 | AskSmallest

fun run_tracker :: "prep_command list \<Rightarrow> LogsWithPrepTracker \<Rightarrow> u64 list" where
  "run_tracker [] t = []"
| "run_tracker (SectionBegins log # cs) t = run_tracker cs (MarkLogAsContainingPrepSection log t)"
| "run_tracker (SectionEnds log # cs) t = run_tracker cs (MarkLogAsHavingPrepSectionFlushed log t)"
| "run_tracker (AskSmallest # cs) t =
     (case FindMinLogContainingOutstandingPrep t of (log, t') \<Rightarrow> log # run_tracker cs t')"

text \<open>\<open>None\<close>: a section ends that is not open.\<close>

fun run_open_sections :: "prep_command list \<Rightarrow> u64 list \<Rightarrow> u64 list option" where
  "run_open_sections [] xs = Some []"
| "run_open_sections (SectionBegins log # cs) xs = run_open_sections cs (log # xs)"
| "run_open_sections (SectionEnds log # cs) xs =
     (if log \<in> set xs then run_open_sections cs (remove1 log xs) else None)"
| "run_open_sections (AskSmallest # cs) xs =
     map_option ((#) (if xs = [] then 0 else Min (set xs))) (run_open_sections cs xs)"

text \<open>The counts differ by the number of open sections, and what is not listed has none.\<close>

definition ended :: "(u64 \<rightharpoonup> u64) \<Rightarrow> u64 \<Rightarrow> nat" where
  "ended completed log = (case completed log of None \<Rightarrow> 0 | Some n \<Rightarrow> unat n)"

definition tracks :: "nat \<Rightarrow> LogCnt list \<Rightarrow> (u64 \<rightharpoonup> u64) \<Rightarrow> u64 list \<Rightarrow> bool" where
  "tracks n ls completed xs \<longleftrightarrow>
     sorted_wrt (\<lambda>a b. lc_log a < lc_log b) ls \<and>
     (\<forall>r\<in>set ls. unat (lc_cnt r) = count_list xs (lc_log r) + ended completed (lc_log r) \<and>
        0 < lc_cnt r \<and> unat (lc_cnt r) \<le> n) \<and>
     (\<forall>log. log \<notin> lc_log ` set ls \<longrightarrow> log \<notin> set xs \<and> completed log = None)"

lemma mark_from_end_split:
  assumes "sorted_wrt (\<lambda>a b. lc_log b < lc_log a) rs"
  shows "(\<exists>as r bs. rs = as @ r # bs \<and> lc_log r = log \<and>
      mark_from_end log rs = as @ r\<lparr>lc_cnt := lc_cnt r + 1\<rparr> # bs) \<or>
    (\<exists>as bs. rs = as @ bs \<and> (\<forall>a\<in>set as. log < lc_log a) \<and> (\<forall>b\<in>set bs. lc_log b < log) \<and>
      mark_from_end log rs = as @ \<lparr>lc_log = log, lc_cnt = 1\<rparr> # bs)"
  using assms
proof (induction rs)
  case (Cons r rs)
  show ?case
  proof (cases "log < lc_log r")
    case True
    with Cons consider as r' bs where "rs = as @ r' # bs" "lc_log r' = log"
        "mark_from_end log rs = as @ r'\<lparr>lc_cnt := lc_cnt r' + 1\<rparr> # bs"
      | as bs where "rs = as @ bs" "\<forall>a\<in>set as. log < lc_log a" "\<forall>b\<in>set bs. lc_log b < log"
        "mark_from_end log rs = as @ \<lparr>lc_log = log, lc_cnt = 1\<rparr> # bs"
      by auto
    then show ?thesis
    proof cases
      case 1
      with True show ?thesis by (intro disjI1 exI [of _ "r # as"] exI [of _ r'] exI [of _ bs]) auto
    next
      case 2
      with True show ?thesis by (intro disjI2 exI [of _ "r # as"] exI [of _ bs]) auto
    qed
  next
    case False
    show ?thesis
    proof (cases "lc_log r = log")
      case True
      then show ?thesis by (intro disjI1 exI [of _ "[]"]) auto
    next
      case neq: False
      with False have "lc_log r < log" by simp
      with Cons.prems show ?thesis
        by (intro disjI2 exI [of _ "[]"] exI [of _ "r # rs"]) (auto intro: less_trans)
    qed
  qed
qed simp

lemma tracks_insert:
  assumes "tracks n ls completed xs" "sorted_wrt (\<lambda>a b. lc_log a < lc_log b) ls'"
    and "\<And>q. q \<in> set ls' \<Longrightarrow>
      lc_log q = log \<and> unat (lc_cnt q) = Suc (count_list xs log + ended completed log) \<and> unat (lc_cnt q) \<le> Suc n \<or>
      q \<in> set ls \<and> lc_log q \<noteq> log"
    and "lc_log ` set ls' = insert log (lc_log ` set ls)"
  shows "tracks (Suc n) ls' completed (log # xs)"
  unfolding tracks_def
proof (intro conjI ballI allI impI assms(2))
  fix q assume "q \<in> set ls'"
  from assms(3) [OF this] assms(1)
  show "unat (lc_cnt q) = count_list (log # xs) (lc_log q) + ended completed (lc_log q)"
    and "0 < lc_cnt q" and "unat (lc_cnt q) \<le> Suc n"
    by (auto simp: tracks_def le_SucI word_less_nat_alt)
next
  fix l assume "l \<notin> lc_log ` set ls'"
  then show "l \<notin> set (log # xs)" "completed l = None"
    using assms(1,4) by (auto simp: tracks_def)
qed

lemma tracks_begin:
  assumes "tracks n (logs_with_prep t) (prepared_section_completed t) xs" "Suc n < 2 ^ 64"
  shows "tracks (Suc n) (logs_with_prep (MarkLogAsContainingPrepSection log t))
    (prepared_section_completed (MarkLogAsContainingPrepSection log t)) (log # xs)"
proof -
  let ?ls = "logs_with_prep t" and ?c = "prepared_section_completed t"
  have sorted: "sorted_wrt (\<lambda>a b. lc_log a < lc_log b) ?ls"
    and cnt: "\<And>r. r \<in> set ?ls \<Longrightarrow>
        unat (lc_cnt r) = count_list xs (lc_log r) + ended ?c (lc_log r) \<and> unat (lc_cnt r) \<le> n"
    and off: "\<And>l. l \<notin> lc_log ` set ?ls \<Longrightarrow> l \<notin> set xs \<and> ?c l = None"
    using assms(1) by (auto simp: tracks_def)
  have "sorted_wrt (\<lambda>a b. lc_log b < lc_log a) (rev ?ls)" using sorted by (simp add: sorted_wrt_rev)
  from mark_from_end_split [OF this, of log] consider
      as r bs where "?ls = rev bs @ r # rev as" "lc_log r = log"
        "rev (mark_from_end log (rev ?ls)) = rev bs @ r\<lparr>lc_cnt := lc_cnt r + 1\<rparr> # rev as"
    | as bs where "?ls = rev bs @ rev as" "\<forall>a\<in>set as. log < lc_log a" "\<forall>b\<in>set bs. lc_log b < log"
        "rev (mark_from_end log (rev ?ls)) = rev bs @ \<lparr>lc_log = log, lc_cnt = 1\<rparr> # rev as"
    by (auto simp: rev_swap)
  then have "tracks (Suc n) (rev (mark_from_end log (rev ?ls))) ?c (log # xs)"
  proof cases
    case 1
    have r: "unat (lc_cnt r) = count_list xs log + ended ?c log" "unat (lc_cnt r) \<le> n"
      using cnt [of r] 1 by auto
    then have plus: "unat (lc_cnt r + 1) = Suc (unat (lc_cnt r))"
      using assms(2) unat_add_lem [of "lc_cnt r" 1] by simp
    have neq: "lc_log b \<noteq> log" if "b \<in> set as \<union> set bs" for b
      using sorted that 1 by (auto simp: sorted_wrt_append)
    show ?thesis
    proof (rule tracks_insert [OF assms(1)])
      fix q assume "q \<in> set (rev (mark_from_end log (rev ?ls)))"
      then consider "q = r\<lparr>lc_cnt := lc_cnt r + 1\<rparr>" | "q \<in> set as \<union> set bs"
        unfolding 1(3) by auto
      then show "lc_log q = log \<and> unat (lc_cnt q) = Suc (count_list xs log + ended ?c log) \<and>
          unat (lc_cnt q) \<le> Suc n \<or> q \<in> set ?ls \<and> lc_log q \<noteq> log"
        using r plus neq 1 by cases auto
    qed (use sorted 1 in \<open>auto simp: sorted_wrt_append\<close>)
  next
    case 2
    have "log \<notin> lc_log ` set ?ls" using 2 by auto
    then have "count_list xs log = 0" "?c log = None" using off [of log] by (auto simp: count_list_0_iff)
    note none = this
    show ?thesis
    proof (rule tracks_insert [OF assms(1)])
      fix q assume "q \<in> set (rev (mark_from_end log (rev ?ls)))"
      then consider "q = \<lparr>lc_log = log, lc_cnt = 1\<rparr>" | "q \<in> set as \<union> set bs"
        unfolding 2(4) by auto
      then show "lc_log q = log \<and> unat (lc_cnt q) = Suc (count_list xs log + ended ?c log) \<and>
          unat (lc_cnt q) \<le> Suc n \<or> q \<in> set ?ls \<and> lc_log q \<noteq> log"
        using none 2(1-3) by cases (auto simp: ended_def)
    qed (use sorted 2 in \<open>auto simp: sorted_wrt_append\<close>)
  qed
  then show ?thesis by (simp add: MarkLogAsContainingPrepSection_def)
qed

lemma tracks_end:
  assumes "tracks n (logs_with_prep t) (prepared_section_completed t) xs" "log \<in> set xs" "n < 2 ^ 64"
  shows "tracks n (logs_with_prep (MarkLogAsHavingPrepSectionFlushed log t))
    (prepared_section_completed (MarkLogAsHavingPrepSectionFlushed log t)) (remove1 log xs)"
proof -
  let ?c = "prepared_section_completed t"
  let ?c' = "?c(log \<mapsto> (case ?c log of None \<Rightarrow> 1 | Some n \<Rightarrow> n + 1))"
  obtain r where r: "r \<in> set (logs_with_prep t)" "lc_log r = log"
    using assms(1,2) unfolding tracks_def by (metis imageE)
  have "0 < count_list xs log" using assms(2) by (metis count_list_0_iff gr0I)
  moreover have "count_list xs log + ended ?c log \<le> n"
    using assms(1) r by (fastforce simp: tracks_def)
  ultimately have small: "Suc (ended ?c log) < 2 ^ 64" using assms(3) by linarith
  have ended': "ended ?c' l = (if l = log then Suc (ended ?c log) else ended ?c l)" for l
  proof (cases "?c log")
    case (Some m)
    then have "unat (m + 1) = Suc (unat m)"
      using small unat_add_lem [of m 1] by (simp add: ended_def)
    then show ?thesis using Some by (simp add: ended_def)
  qed (simp add: ended_def)
  have count: "count_list (remove1 log xs) l = (if l = log then count_list xs log - 1 else count_list xs l)" for l
  proof (induction xs)
    case (Cons x xs)
    then show ?case
      using count_list_0_iff [of xs log] by (cases "x = log") (auto intro: Suc_pred)
  qed simp
  show ?thesis
    using assms(1,2) r count ended' \<open>0 < count_list xs log\<close>
    unfolding tracks_def MarkLogAsHavingPrepSectionFlushed_def
    by (auto dest: in_set_remove1 [THEN iffD1, rotated] set_remove1_subset [THEN subsetD])
qed

lemma tracks_drop:
  assumes "tracks n (l # ls) completed xs" "lc_log l \<notin> set xs"
  shows "tracks n ls (completed(lc_log l := None)) xs"
  using assms by (auto simp: tracks_def ended_def)

lemma find_min_loop_tracks:
  assumes "tracks n ls completed xs" "find_min_loop ls completed = (log, ls', completed')"
  shows "log = (if xs = [] then 0 else Min (set xs)) \<and> tracks n ls' completed' xs"
  using assms
proof (induction ls arbitrary: completed)
  case Nil
  then have "x \<notin> set xs" for x by (simp add: tracks_def)
  then have "xs = []" by (cases xs) auto
  with Nil show ?case by simp
next
  case (Cons l ls)
  have l: "unat (lc_cnt l) = count_list xs (lc_log l) + ended completed (lc_log l)" "0 < lc_cnt l"
    and above: "\<And>r. r \<in> set ls \<Longrightarrow> lc_log l < lc_log r"
    using Cons.prems(1) by (auto simp: tracks_def)
  show ?case
  proof (cases "lc_log l \<in> set xs")
    case True
    then have "0 < count_list xs (lc_log l)" by (metis count_list_0_iff gr0I)
    with l have "\<forall>m. completed (lc_log l) = Some m \<longrightarrow> m < lc_cnt l"
      by (simp add: ended_def word_less_nat_alt)
    then have "log = lc_log l \<and> ls' = l # ls \<and> completed' = completed"
      using Cons.prems(2) by (auto split: option.splits)
    moreover have "lc_log l \<le> x" if "x \<in> set xs" for x
    proof -
      have "x \<in> lc_log ` set (l # ls)" using Cons.prems(1) that unfolding tracks_def by blast
      then show ?thesis using above by (auto intro: less_imp_le)
    qed
    then have "Min (set xs) = lc_log l" using True by (intro Min_eqI) simp_all
    ultimately show ?thesis using Cons.prems(1) True by auto
  next
    case False
    then have "unat (lc_cnt l) = ended completed (lc_log l)" using l by (simp add: count_list_0_iff)
    then obtain m where "completed (lc_log l) = Some m" "\<not> m < lc_cnt l"
      using l(2) by (cases "completed (lc_log l)") (auto simp: ended_def word_less_nat_alt)
    then have "find_min_loop ls (completed(lc_log l := None)) = (log, ls', completed')"
      using Cons.prems(2) by simp
    with Cons.IH tracks_drop [OF Cons.prems(1) False] show ?thesis by blast
  qed
qed

lemma run_tracker_refines:
  assumes "tracks n (logs_with_prep t) (prepared_section_completed t) xs" "n + length cs < 2 ^ 64"
    and "run_open_sections cs xs = Some answers"
  shows "run_tracker cs t = answers"
  using assms
proof (induction cs arbitrary: n t xs answers)
  case (Cons c cs)
  show ?case
  proof (cases c)
    case (SectionBegins log)
    with Cons.prems tracks_begin [OF Cons.prems(1), of log] Cons.IH [of "Suc n" _ "log # xs" answers]
    show ?thesis by simp
  next
    case (SectionEnds log)
    with Cons.prems tracks_end [OF Cons.prems(1), of log] Cons.IH [of n _ "remove1 log xs" answers]
    show ?thesis by (auto split: if_splits)
  next
    case AskSmallest
    obtain log ls' completed' where f: "find_min_loop (logs_with_prep t) (prepared_section_completed t) =
        (log, ls', completed')" by (rule prod_cases3)
    from find_min_loop_tracks [OF Cons.prems(1) this] Cons.prems AskSmallest
      Cons.IH [of n "\<lparr>logs_with_prep = ls', prepared_section_completed = completed'\<rparr>" xs "tl answers"]
    show ?thesis by (auto simp: FindMinLogContainingOutstandingPrep_def f)
  qed
qed simp

text \<open>C35. Whatever sections of prepared transactions begin and end in whatever logs, every question for
  the smallest log that must be kept is answered with the smallest log of an open section, or with
  \<open>0\<close> when none is open.\<close>

theorem prep_tracker_refines:
  assumes "run_open_sections cs [] = Some answers" "length cs < 2 ^ 64"
  shows "run_tracker cs LogsWithPrepTracker_new = answers"
  by (rule run_tracker_refines [OF _ _ assms(1), of 0])
    (use assms(2) in \<open>simp_all add: tracks_def LogsWithPrepTracker_new_def\<close>)

lemma prep_tracker_refines_witness:
  "run_tracker [SectionBegins 7, SectionBegins 5, AskSmallest, SectionEnds 5, SectionBegins 9, AskSmallest,
     SectionEnds 7, SectionEnds 9, AskSmallest] LogsWithPrepTracker_new = [5, 7, 0]"
  by (rule prep_tracker_refines) simp_all

end
