(* ===== verification/MemTableInserter.thy ===== *)
theory MemTableInserter
  imports BatchIterate MemTableUpdate PrepTracker
begin

text \<open>
  Applying a write batch to memtables: the handler \<^verbatim>\<open>MemTableInserter\<close> of db/write_batch.cc, with the
  column families it finds through \<^verbatim>\<open>ColumnFamilyMemTablesImpl\<close> (db/column_family.cc), the transactions
  that recovery rebuilds (db/db_impl/db_impl.h), util/duplicate_detector.h, db/flush_scheduler.cc and
  db/trim_history_scheduler.cc.

  The memtable of a column family does not change while a batch is applied, so the maps that the code
  keeps by the address of a memtable are kept by the number of the column family. Reads through the
  database and the answers of clock and memory are fields of the record \<open>engine\<close>.
\<close>

section \<open>Column families and the database\<close>

record ('t, 'i) ColumnFamilyData =
  cfd_name :: bytes
  cfd_log_number :: u64
  cfd_settings :: "('t, 'i) MemTableSettings"
  cfd_mem :: "'t MemTable"
  cfd_refs :: int
  is_delete_range_supported :: bool
  table_factory_name :: bytes
  max_write_buffer_size_to_maintain :: int
  imm_trim_needed :: bool

type_synonym ('t, 'i) families = "u32 \<rightharpoonup> ('t, 'i) ColumnFamilyData"

text \<open>A batch is a pointer, which may be null.\<close>

record BatchInfo =
  bi_log_number :: u64
  bi_batch :: "WriteBatch option"
  bi_batch_cnt :: u64

text \<open>The batches of a transaction are ordered by their first sequence number.\<close>

record RecoveredTransaction =
  rt_name :: bytes
  rt_unprepared :: bool
  rt_batches :: "(SequenceNumber \<times> BatchInfo) list"

record DBImpl =
  allow_2pc :: bool
  recovered_transactions :: "bytes \<rightharpoonup> RecoveredTransaction"
  logs_with_prep_tracker :: LogsWithPrepTracker

primrec put_batch :: "SequenceNumber \<Rightarrow> BatchInfo \<Rightarrow> (SequenceNumber \<times> BatchInfo) list \<Rightarrow>
  (SequenceNumber \<times> BatchInfo) list" where
  "put_batch sq b [] = [(sq, b)]"
| "put_batch sq b (x # xs) =
     (if sq < fst x then (sq, b) # x # xs else if sq = fst x then (sq, b) # xs else x # put_batch sq b xs)"

definition AddBatch :: "SequenceNumber \<Rightarrow> u64 \<Rightarrow> WriteBatch option \<Rightarrow> u64 \<Rightarrow> bool \<Rightarrow> RecoveredTransaction \<Rightarrow>
  RecoveredTransaction" where
  "AddBatch sq log batch batch_cnt unprepared t =
     t\<lparr>rt_batches := put_batch sq \<lparr>bi_log_number = log, bi_batch = batch, bi_batch_cnt = batch_cnt\<rparr> (rt_batches t),
       rt_unprepared := unprepared\<rparr>"

definition RecoveredTransaction_new ::
  "u64 \<Rightarrow> bytes \<Rightarrow> WriteBatch option \<Rightarrow> SequenceNumber \<Rightarrow> u64 \<Rightarrow> bool \<Rightarrow> RecoveredTransaction" where
  "RecoveredTransaction_new log name batch sq batch_cnt unprepared =
     \<lparr>rt_name = name, rt_unprepared = unprepared,
      rt_batches = [(sq, \<lparr>bi_log_number = log, bi_batch = batch, bi_batch_cnt = batch_cnt\<rparr>)]\<rparr>"

definition InsertRecoveredTransaction ::
  "u64 \<Rightarrow> bytes \<Rightarrow> WriteBatch option \<Rightarrow> SequenceNumber \<Rightarrow> u64 \<Rightarrow> bool \<Rightarrow> DBImpl \<Rightarrow> DBImpl" where
  "InsertRecoveredTransaction log name batch sq batch_cnt unprepared_batch db =
     db\<lparr>recovered_transactions := (recovered_transactions db)(name \<mapsto>
          (case recovered_transactions db name of
             None \<Rightarrow> RecoveredTransaction_new log name batch sq batch_cnt unprepared_batch
           | Some t \<Rightarrow> AddBatch sq log batch batch_cnt unprepared_batch t)),
        logs_with_prep_tracker := MarkLogAsContainingPrepSection log (logs_with_prep_tracker db)\<rparr>"

text \<open>\<open>None\<close>: the transaction is not there, and the code goes through the end of the map.\<close>

definition DeleteRecoveredTransaction :: "bytes \<Rightarrow> DBImpl \<Rightarrow> DBImpl option" where
  "DeleteRecoveredTransaction name db =
     (case recovered_transactions db name of
        None \<Rightarrow> None
      | Some t \<Rightarrow>
          Some (db\<lparr>recovered_transactions := (recovered_transactions db)(name := None),
                   logs_with_prep_tracker :=
                     fold (\<lambda>b. MarkLogAsHavingPrepSectionFlushed (bi_log_number (snd b))) (rt_batches t)
                       (logs_with_prep_tracker db)\<rparr>))"

text \<open>
  What the inserter asks of the rest of the engine: readings of clock and memory, numbered in the order
  they are taken; the memory held by a column family; a read of a key up to a sequence number.
\<close>

record ('t, 'i) engine =
  en_readings :: "nat \<Rightarrow> readings"
  en_memory_usage :: "nat \<Rightarrow> int"
  en_Get :: "('t, 'i) families \<Rightarrow> u32 \<Rightarrow> bytes \<Rightarrow> SequenceNumber \<Rightarrow> Status \<times> bytes"

section \<open>The detector of duplicates\<close>

record DuplicateDetector =
  dd_batch_seq :: SequenceNumber
  dd_keys :: "u32 \<rightharpoonup> bytes list"

definition DuplicateDetector_new :: DuplicateDetector where
  "DuplicateDetector_new = \<lparr>dd_batch_seq = 0, dd_keys = (\<lambda>_. None)\<rparr>"

text \<open>
  \<^verbatim>\<open>SetComparator\<close> orders by \<^verbatim>\<open>Compare\<close>, so a key is already in the set when it is neither below nor
  above one of its elements. \<open>cmp\<close> gives the comparator of a column family; a dropped family is
  the exception, \<open>None\<close>.
\<close>

definition in_key_set :: "comparator \<Rightarrow> bytes \<Rightarrow> bytes list \<Rightarrow> bool" where
  "in_key_set c key ks \<longleftrightarrow> list_ex (\<lambda>k. \<not> Compare c k key < 0 \<and> \<not> Compare c key k < 0) ks"

definition IsDuplicateKeySeq ::
  "(u32 \<rightharpoonup> comparator) \<Rightarrow> u32 \<Rightarrow> bytes \<Rightarrow> SequenceNumber \<Rightarrow> DuplicateDetector \<Rightarrow>
     (bool \<times> DuplicateDetector) option"
where
  "IsDuplicateKeySeq cmp cf key sq d =
     (let keys = (if dd_batch_seq d \<noteq> sq then (\<lambda>_. None) else dd_keys d);
          cf_keys = (case keys cf of None \<Rightarrow> [] | Some ks \<Rightarrow> ks)
      in case cmp cf of
           None \<Rightarrow> None
         | Some c \<Rightarrow>
             if in_key_set c key cf_keys
             then Some (True, \<lparr>dd_batch_seq = sq, dd_keys = [cf \<mapsto> [key]]\<rparr>)
             else Some (False, \<lparr>dd_batch_seq = sq, dd_keys = keys(cf \<mapsto> key # cf_keys)\<rparr>))"

section \<open>The inserter\<close>

text \<open>
  The members of the class. \<open>ins_reads\<close> counts the readings taken. Schedulers are the column
  families waiting in them; null pointers are \<open>None\<close>.
\<close>

record ('t, 'i) MemTableInserter =
  ins_sequence :: SequenceNumber
  ins_families :: "('t, 'i) families"
  ins_current :: "u32 option"
  flush_scheduler :: "u32 list option"
  trim_history_scheduler :: "u32 list option"
  ins_ignore_missing :: bool
  recovering_log_number :: u64
  log_number_ref :: u64
  ins_db :: "DBImpl option"
  concurrent_memtable_writes :: bool
  mem_post_info :: "u32 \<rightharpoonup> MemTablePostProcessInfo"
  has_valid_writes :: "bool option"
  rebuilding_trx :: "WriteBatch option"
  rebuilding_trx_seq :: SequenceNumber
  seq_per_batch :: bool
  write_after_commit :: bool
  write_before_prepare :: bool
  unprepared_batch :: bool
  duplicate_detector :: "DuplicateDetector option"
  hint_per_batch :: bool
  ins_hints :: "u32 \<rightharpoonup> hint"
  ins_reads :: nat

definition MemTableInserter_new ::
  "SequenceNumber \<Rightarrow> ('t, 'i) families \<Rightarrow> u32 list option \<Rightarrow> u32 list option \<Rightarrow> bool \<Rightarrow> u64 \<Rightarrow> DBImpl option \<Rightarrow>
     bool \<Rightarrow> bool option \<Rightarrow> bool \<Rightarrow> bool \<Rightarrow> bool \<Rightarrow> ('t, 'i) MemTableInserter"
where
  "MemTableInserter_new sq families fs ts ignore_missing recovering db concurrent valid_writes per_batch
     batch_per_txn hints =
     \<lparr>ins_sequence = sq, ins_families = families, ins_current = None, flush_scheduler = fs,
      trim_history_scheduler = ts, ins_ignore_missing = ignore_missing, recovering_log_number = recovering,
      log_number_ref = 0, ins_db = db, concurrent_memtable_writes = concurrent, mem_post_info = (\<lambda>_. None),
      has_valid_writes = valid_writes, rebuilding_trx = None, rebuilding_trx_seq = 0,
      seq_per_batch = per_batch, write_after_commit = (\<not> per_batch),
      write_before_prepare = (\<not> batch_per_txn), unprepared_batch = False, duplicate_detector = None,
      hint_per_batch = hints, ins_hints = (\<lambda>_. None), ins_reads = 0\<rparr>"

definition MaybeAdvanceSeq :: "bool \<Rightarrow> ('t, 'i) MemTableInserter \<Rightarrow> ('t, 'i) MemTableInserter" where
  "MaybeAdvanceSeq batch_boundry st =
     (if batch_boundry = seq_per_batch st then st\<lparr>ins_sequence := ins_sequence st + 1\<rparr> else st)"

definition set_family ::
  "u32 \<Rightarrow> ('t, 'i) ColumnFamilyData \<Rightarrow> ('t, 'i) MemTableInserter \<Rightarrow> ('t, 'i) MemTableInserter" where
  "set_family cf d st = st\<lparr>ins_families := (ins_families st)(cf \<mapsto> d)\<rparr>"

definition set_mem ::
  "u32 \<Rightarrow> ('t, 'i) ColumnFamilyData \<Rightarrow> 't MemTable \<Rightarrow> ('t, 'i) MemTableInserter \<Rightarrow> ('t, 'i) MemTableInserter" where
  "set_mem cf d m = set_family cf (d\<lparr>cfd_mem := m\<rparr>)"

text \<open>\<^verbatim>\<open>ColumnFamilyMemTablesImpl::Seek\<close>.\<close>

definition families_Seek :: "u32 \<Rightarrow> ('t, 'i) MemTableInserter \<Rightarrow> bool \<times> ('t, 'i) MemTableInserter" where
  "families_Seek cf st =
     (let found = ins_families st cf \<noteq> None
      in (found, st\<lparr>ins_current := if found then Some cf else None\<rparr>))"

definition current_family :: "('t, 'i) MemTableInserter \<Rightarrow> (u32 \<times> ('t, 'i) ColumnFamilyData) option" where
  "current_family st =
     (case ins_current st of None \<Rightarrow> None | Some cf \<Rightarrow> map_option (Pair cf) (ins_families st cf))"

text \<open>The answer with the status it sets when it is false.\<close>

definition SeekToColumnFamily ::
  "u32 \<Rightarrow> ('t, 'i) MemTableInserter \<Rightarrow> (bool \<times> Status) \<times> ('t, 'i) MemTableInserter" where
  "SeekToColumnFamily cf st =
     (case families_Seek cf st of
        (found, st1) \<Rightarrow>
          if \<not> found
          then ((False, if ins_ignore_missing st1 then OK
                        else InvalidArgument (str ''Invalid column family specified in write batch'') []), st1)
          else
            (case ins_families st1 cf of
               None \<Rightarrow> ((False, OK), st1)
             | Some d \<Rightarrow>
                 if recovering_log_number st1 \<noteq> 0 \<and> recovering_log_number st1 < cfd_log_number d
                 then ((False, OK), st1)
                 else
                   (let st2 = st1\<lparr>has_valid_writes := map_option (\<lambda>_. True) (has_valid_writes st1)\<rparr>
                    in ((True, OK),
                        if log_number_ref st2 > 0
                        then set_mem cf d (RefLogContainingPrepSection (log_number_ref st2) (cfd_mem d)) st2
                        else st2))))"

section \<open>Rebuilding prepared transactions\<close>

text \<open>\<open>writes\<close> is one of the writers of \<^verbatim>\<open>WriteBatchInternal\<close>; its status is not looked at.\<close>

definition rebuild ::
  "(WriteBatch \<Rightarrow> Status \<times> WriteBatch) \<Rightarrow> ('t, 'i) MemTableInserter \<Rightarrow> ('t, 'i) MemTableInserter" where
  "rebuild writes st = st\<lparr>rebuilding_trx := map_option (\<lambda>b. snd (writes b)) (rebuilding_trx st)\<rparr>"

definition ins_IsDuplicateKeySeq ::
  "u32 \<Rightarrow> bytes \<Rightarrow> ('t, 'i) MemTableInserter \<Rightarrow> (bool \<times> ('t, 'i) MemTableInserter) option" where
  "ins_IsDuplicateKeySeq cf key st =
     (let d = (case duplicate_detector st of None \<Rightarrow> DuplicateDetector_new | Some d \<Rightarrow> d)
      in map_option (\<lambda>(dup, d'). (dup, st\<lparr>duplicate_detector := Some d'\<rparr>))
           (IsDuplicateKeySeq (\<lambda>cf. map_option (\<lambda>f. mt_comparator (cfd_settings f)) (ins_families st cf))
              cf key (ins_sequence st) d))"

text \<open>
  How every update begins: a transaction that is rebuilt takes it, unless updates go to the memtable
  before the commit; an update of a family that is not there, or has the update already, is passed
  over, but counted.
\<close>

definition with_family ::
  "(WriteBatch \<Rightarrow> Status \<times> WriteBatch) \<Rightarrow> u32 \<Rightarrow> bytes \<Rightarrow>
   (('t, 'i) MemTableInserter \<Rightarrow> (Status \<times> ('t, 'i) MemTableInserter) option) \<Rightarrow>
   ('t, 'i) MemTableInserter \<Rightarrow> (Status \<times> ('t, 'i) MemTableInserter) option"
where
  "with_family writes cf key body st =
     (if write_after_commit st \<and> rebuilding_trx st \<noteq> None then Some (OK, rebuild writes st)
      else
        (case SeekToColumnFamily cf st of
           ((found, seek_status), st1) \<Rightarrow>
             if found then body st1
             else if rebuilding_trx st1 = None then Some (seek_status, MaybeAdvanceSeq False st1)
             else
               map_option (\<lambda>(batch_boundry, st2). (seek_status, MaybeAdvanceSeq batch_boundry st2))
                 (ins_IsDuplicateKeySeq cf key (rebuild writes st1))))"

definition rebuild_unless_again ::
  "(WriteBatch \<Rightarrow> Status \<times> WriteBatch) \<Rightarrow> Status \<Rightarrow> ('t, 'i) MemTableInserter \<Rightarrow> ('t, 'i) MemTableInserter" where
  "rebuild_unless_again writes s st = (if \<not> IsTryAgain s then rebuild writes st else st)"

section \<open>Adding to a memtable\<close>

definition next_readings :: "('t, 'i) engine \<Rightarrow> ('t, 'i) MemTableInserter \<Rightarrow> readings \<times> ('t, 'i) MemTableInserter" where
  "next_readings en st = (en_readings en (ins_reads st), st\<lparr>ins_reads := ins_reads st + 1\<rparr>)"

definition get_post_process_info :: "u32 \<Rightarrow> ('t, 'i) MemTableInserter \<Rightarrow> MemTablePostProcessInfo" where
  "get_post_process_info cf st =
     (case mem_post_info st cf of None \<Rightarrow> MemTablePostProcessInfo_new | Some info \<Rightarrow> info)"

definition get_hint :: "u32 \<Rightarrow> ('t, 'i) MemTableInserter \<Rightarrow> hint" where
  "get_hint cf st = (case ins_hints st cf of None \<Rightarrow> None | Some h \<Rightarrow> h)"

text \<open>
  \<^verbatim>\<open>mem->Add\<close> with the counters and, when \<open>hinted\<close>, the hint of the memtable. The sequential branch
  does not look at the hint.
\<close>

definition ins_Add ::
  "('t, 'i) engine \<Rightarrow> ValueType \<Rightarrow> bytes \<Rightarrow> bytes \<Rightarrow> bool \<Rightarrow> ('t, 'i) MemTableInserter \<Rightarrow>
     (bool \<times> ('t, 'i) MemTableInserter) option"
where
  "ins_Add en type key v hinted st0 =
     (case current_family st0 of
        None \<Rightarrow> None
      | Some (cf, d) \<Rightarrow>
          (let (rd, st1) = next_readings en st0;
               use_hint = hinted \<and> hint_per_batch st1;
               st = (if use_hint then st1\<lparr>ins_hints := (ins_hints st1)(cf \<mapsto> get_hint cf st1)\<rparr> else st1)
           in if \<not> concurrent_memtable_writes st
              then map_option (\<lambda>(res, m). (res, set_mem cf d m st))
                     (mt_Add_sequential (cfd_settings d) rd (ins_sequence st) type key v (cfd_mem d))
              else map_option (\<lambda>(res, info, h, m).
                     (res, set_mem cf d m
                        (st\<lparr>mem_post_info := (mem_post_info st)(cf \<mapsto> info),
                            ins_hints := (case h of None \<Rightarrow> ins_hints st | Some g \<Rightarrow> (ins_hints st)(cf \<mapsto> g))\<rparr>)))
                     (mt_Add_concurrent (cfd_settings d) rd (ins_sequence st) type key v
                        (get_post_process_info cf st) (if use_hint then Some (get_hint cf st) else None)
                        (cfd_mem d))))"

text \<open>An entry of the same key and number asks for another try in the next sub-batch.\<close>

definition again_unless ::
  "bool \<times> ('t, 'i) MemTableInserter \<Rightarrow> Status \<times> ('t, 'i) MemTableInserter" where
  "again_unless r =
     (case r of (res, st) \<Rightarrow>
        if res then (OK, st) else (TryAgain (str ''key+seq exists'') [], MaybeAdvanceSeq True st))"

definition CheckMemtableFull :: "('t, 'i) engine \<Rightarrow> ('t, 'i) MemTableInserter \<Rightarrow> ('t, 'i) MemTableInserter" where
  "CheckMemtableFull en st0 =
     (case current_family st0 of
        None \<Rightarrow> st0
      | Some (cf, d0) \<Rightarrow>
          (let st1 = (case flush_scheduler st0 of
                        None \<Rightarrow> st0
                      | Some q \<Rightarrow>
                          (if ShouldScheduleFlush (cfd_mem d0)
                           then (let (marked, m) = MarkFlushScheduled (cfd_mem d0)
                                 in if marked
                                    then set_family cf (d0\<lparr>cfd_mem := m, cfd_refs := cfd_refs d0 + 1\<rparr>)
                                           (st0\<lparr>flush_scheduler := Some (cf # q)\<rparr>)
                                    else set_mem cf d0 m st0)
                           else st0));
               d = (case ins_families st1 cf of None \<Rightarrow> d0 | Some d \<Rightarrow> d)
           in case trim_history_scheduler st1 of
                None \<Rightarrow> st1
              | Some q \<Rightarrow>
                  (if max_write_buffer_size_to_maintain d > 0 \<and>
                      en_memory_usage en (ins_reads st1) \<ge> max_write_buffer_size_to_maintain d \<and>
                      \<not> imm_trim_needed d
                   then set_family cf (d\<lparr>imm_trim_needed := True, cfd_refs := cfd_refs d + 1\<rparr>)
                          (st1\<lparr>trim_history_scheduler := Some (q @ [cf])\<rparr>)
                   else st1)))"

section \<open>The updates\<close>

definition WBI_Put :: "u32 \<Rightarrow> bytes \<Rightarrow> bytes \<Rightarrow> WriteBatch \<Rightarrow> Status \<times> WriteBatch" where
  "WBI_Put cf key v b = wb_Put b cf key v"

text \<open>
  The branch with a callback when the key is not in the memtable: the value is read through the
  database, unless there is none or a log is recovered.
\<close>

definition put_with_callback ::
  "('t, 'i) engine \<Rightarrow> (bytes option \<Rightarrow> bytes \<Rightarrow> inplace_answer) \<Rightarrow> u32 \<Rightarrow> ValueType \<Rightarrow> bytes \<Rightarrow> bytes \<Rightarrow>
     ('t, 'i) MemTableInserter \<Rightarrow> ('t, 'i) MemTableInserter option"
where
  "put_with_callback en callback cf value_type key v st =
     (let (s, prev_value) =
            (if ins_db st \<noteq> None \<and> recovering_log_number st = 0
             then en_Get en (ins_families st) cf key (ins_sequence st)
             else (NotSupported_sub kNone, []));
          a = callback (if ok s then Some prev_value else None) v;
          prev_buffer = (if ok s then poke prev_value 0 (ia_stored a) else prev_value);
          prev_size = (if ok s then unat (ia_size a) else length prev_value);
          add = (\<lambda>w. case current_family st of
                   None \<Rightarrow> None
                 | Some (cf, d) \<Rightarrow>
                     (let (rd, st1) = next_readings en st
                      in map_option (\<lambda>(res, m). set_mem cf d m st1)
                           (mt_Add_sequential (cfd_settings d) rd (ins_sequence st1) value_type key w (cfd_mem d))))
      in case ia_status a of
           UPDATED_INPLACE \<Rightarrow> add (take prev_size prev_buffer)
         | UPDATED \<Rightarrow> add (ia_merged a)
         | UPDATE_FAILED \<Rightarrow> Some st)"

text \<open>What happens at the memtable of the current family.\<close>

definition put_in_memtable ::
  "('t, 'i) engine \<Rightarrow> ValueType \<Rightarrow> bytes \<Rightarrow> bytes \<Rightarrow> ('t, 'i) MemTableInserter \<Rightarrow>
     (Status \<times> ('t, 'i) MemTableInserter) option"
where
  "put_in_memtable en value_type key v st =
     (case current_family st of
        None \<Rightarrow> None
      | Some (cf, d) \<Rightarrow>
          if \<not> inplace_update_support (cfd_settings d)
          then map_option again_unless (ins_Add en value_type key v True st)
          else
            (let (rd, st1) = next_readings en st
             in case inplace_callback (cfd_settings d) of
                  None \<Rightarrow>
                    map_option (\<lambda>m. (OK, set_mem cf d m st1))
                      (mt_Update (cfd_settings d) rd (ins_sequence st1) key v (cfd_mem d))
                | Some callback \<Rightarrow>
                    Option.bind (mt_UpdateCallback (cfd_settings d) callback rd (ins_sequence st1) key v (cfd_mem d))
                      (\<lambda>(done, m).
                        let st2 = set_mem cf d m st1
                        in if done then Some (OK, st2)
                           else map_option (Pair OK) (put_with_callback en callback cf value_type key v st2))))"

definition PutCFImpl ::
  "('t, 'i) engine \<Rightarrow> u32 \<Rightarrow> bytes \<Rightarrow> bytes \<Rightarrow> ValueType \<Rightarrow> ('t, 'i) MemTableInserter \<Rightarrow>
     (Status \<times> ('t, 'i) MemTableInserter) option"
where
  "PutCFImpl en cf key v value_type st =
     with_family (WBI_Put cf key v) cf key
       (\<lambda>st1. map_option
          (\<lambda>(ret_status, st2).
             (ret_status,
              CheckMemtableFull en (MaybeAdvanceSeq False (rebuild_unless_again (WBI_Put cf key v) ret_status st2))))
          (put_in_memtable en value_type key v st1))
       st"

definition DeleteImpl ::
  "('t, 'i) engine \<Rightarrow> bytes \<Rightarrow> bytes \<Rightarrow> ValueType \<Rightarrow> ('t, 'i) MemTableInserter \<Rightarrow>
     (Status \<times> ('t, 'i) MemTableInserter) option"
where
  "DeleteImpl en key v delete_type st =
     map_option
       (\<lambda>r. case again_unless r of
          (ret_status, st1) \<Rightarrow> (ret_status, CheckMemtableFull en (MaybeAdvanceSeq False st1)))
       (ins_Add en delete_type key v True st)"

definition then_rebuild ::
  "(WriteBatch \<Rightarrow> Status \<times> WriteBatch) \<Rightarrow> (Status \<times> ('t, 'i) MemTableInserter) option \<Rightarrow>
     (Status \<times> ('t, 'i) MemTableInserter) option"
where
  "then_rebuild writes r = map_option (\<lambda>(s, st). (s, rebuild_unless_again writes s st)) r"

definition ins_DeleteCF ::
  "('t, 'i) engine \<Rightarrow> u32 \<Rightarrow> bytes \<Rightarrow> ('t, 'i) MemTableInserter \<Rightarrow> (Status \<times> ('t, 'i) MemTableInserter) option"
where
  "ins_DeleteCF en cf key st =
     (let writes = (\<lambda>b. wb_Delete b cf key)
      in with_family writes cf key (\<lambda>st1. then_rebuild writes (DeleteImpl en key [] kTypeDeletion st1)) st)"

definition ins_SingleDeleteCF ::
  "('t, 'i) engine \<Rightarrow> u32 \<Rightarrow> bytes \<Rightarrow> ('t, 'i) MemTableInserter \<Rightarrow> (Status \<times> ('t, 'i) MemTableInserter) option"
where
  "ins_SingleDeleteCF en cf key st =
     (let writes = (\<lambda>b. wb_SingleDelete b cf key)
      in with_family writes cf key (\<lambda>st1. then_rebuild writes (DeleteImpl en key [] kTypeSingleDeletion st1)) st)"

definition ins_DeleteRangeCF ::
  "('t, 'i) engine \<Rightarrow> u32 \<Rightarrow> bytes \<Rightarrow> bytes \<Rightarrow> ('t, 'i) MemTableInserter \<Rightarrow>
     (Status \<times> ('t, 'i) MemTableInserter) option"
where
  "ins_DeleteRangeCF en cf begin_key end_key st =
     (let writes = (\<lambda>b. wb_DeleteRange b cf begin_key end_key)
      in with_family writes cf begin_key
           (\<lambda>st1. case current_family st1 of
              None \<Rightarrow> None
            | Some (_, d) \<Rightarrow>
                if ins_db st1 \<noteq> None \<and> \<not> is_delete_range_supported d
                then Some (NotSupported (str ''DeleteRange not supported for table type '' @ table_factory_name d @
                       str '' in CF '' @ cfd_name d) [], st1)
                else then_rebuild writes (DeleteImpl en begin_key end_key kTypeRangeDeletion st1))
           st)"

text \<open>
  A merge at the head of too many others is replaced by its result. The status of the read is not
  looked at: what it left in the string, nothing when the key is not found, is the existing value.
\<close>

definition too_many_merges :: "bytes \<Rightarrow> ('t, 'i) MemTableInserter \<Rightarrow> bool option" where
  "too_many_merges key st =
     (case current_family st of
        None \<Rightarrow> None
      | Some (cf, d) \<Rightarrow>
          if max_successive_merges (cfd_settings d) > 0 \<and> ins_db st \<noteq> None \<and> recovering_log_number st = 0
          then map_option (\<lambda>n. n \<ge> max_successive_merges (cfd_settings d))
                 (CountSuccessiveMergeEntries (cfd_settings d) (LookupKey_new key (ins_sequence st) None) (cfd_mem d))
          else Some False)"

text \<open>\<open>Some None\<close>: the merge failed, and the operand is to be stored. A null operator is \<open>None\<close>.\<close>

definition perform_merge ::
  "('t, 'i) engine \<Rightarrow> bytes \<Rightarrow> bytes \<Rightarrow> ('t, 'i) MemTableInserter \<Rightarrow>
     (Status \<times> ('t, 'i) MemTableInserter) option option"
where
  "perform_merge en key v st =
     (case current_family st of
        None \<Rightarrow> None
      | Some (cf, d) \<Rightarrow>
          (let get_value = snd (en_Get en (ins_families st) cf key (ins_sequence st))
           in case TimedFullMerge (mt_merge_operator (cfd_settings d)) key (Some get_value) [v] (Some []) False of
                None \<Rightarrow> None
              | Some (merge_status, new_value, _) \<Rightarrow>
                  if \<not> ok merge_status then Some None
                  else
                    (let (rd, st1) = next_readings en st
                     in map_option (\<lambda>(res, m). Some (again_unless (res, set_mem cf d m st1)))
                          (mt_Add_sequential (cfd_settings d) rd (ins_sequence st1) kTypeValue key new_value (cfd_mem d)))))"

definition merge_in_memtable ::
  "('t, 'i) engine \<Rightarrow> bytes \<Rightarrow> bytes \<Rightarrow> ('t, 'i) MemTableInserter \<Rightarrow> (Status \<times> ('t, 'i) MemTableInserter) option"
where
  "merge_in_memtable en key v st =
     (let add = map_option again_unless (ins_Add en kTypeMerge key v False st)
      in Option.bind (too_many_merges key st) (\<lambda>too_many.
           if too_many
           then Option.bind (perform_merge en key v st) (\<lambda>r. case r of Some x \<Rightarrow> Some x | None \<Rightarrow> add)
           else add))"

definition ins_MergeCF ::
  "('t, 'i) engine \<Rightarrow> u32 \<Rightarrow> bytes \<Rightarrow> bytes \<Rightarrow> ('t, 'i) MemTableInserter \<Rightarrow>
     (Status \<times> ('t, 'i) MemTableInserter) option"
where
  "ins_MergeCF en cf key v st =
     (let writes = (\<lambda>b. wb_Merge b cf key v)
      in with_family writes cf key
           (\<lambda>st1. map_option
              (\<lambda>(ret_status, st2).
                 (ret_status,
                  CheckMemtableFull en (MaybeAdvanceSeq False (rebuild_unless_again writes ret_status st2))))
              (merge_in_memtable en key v st1))
           st)"

section \<open>The markers of transactions\<close>

definition ins_MarkBeginPrepare ::
  "bool \<Rightarrow> ('t, 'i) MemTableInserter \<Rightarrow> (Status \<times> ('t, 'i) MemTableInserter) option" where
  "ins_MarkBeginPrepare unprepare st =
     (if recovering_log_number st \<noteq> 0
      then
        (case ins_db st of
           None \<Rightarrow> None
         | Some db \<Rightarrow>
             if \<not> allow_2pc db
             then Some (NotSupported
                    (str ''WAL contains prepared transactions. Open with TransactionDB::Open().'') [], st)
             else
               Some (OK, st\<lparr>rebuilding_trx := Some (WriteBatch_new 0 0), rebuilding_trx_seq := ins_sequence st,
                            unprepared_batch := unprepare,
                            has_valid_writes := map_option (\<lambda>_. True) (has_valid_writes st)\<rparr>))
      else Some (OK, st))"

definition ins_MarkEndPrepare ::
  "bytes \<Rightarrow> ('t, 'i) MemTableInserter \<Rightarrow> (Status \<times> ('t, 'i) MemTableInserter) option" where
  "ins_MarkEndPrepare name st =
     (if recovering_log_number st \<noteq> 0
      then
        (case ins_db st of
           None \<Rightarrow> None
         | Some db \<Rightarrow>
             (let batch_cnt = (if write_after_commit st then 0 else ins_sequence st - rebuilding_trx_seq st + 1)
              in Some (OK, MaybeAdvanceSeq True
                   (st\<lparr>ins_db := Some (InsertRecoveredTransaction (recovering_log_number st) name (rebuilding_trx st)
                                    (rebuilding_trx_seq st) batch_cnt (unprepared_batch st) db),
                       rebuilding_trx := None\<rparr>))))
      else Some (OK, MaybeAdvanceSeq True st))"

definition ins_MarkNoop ::
  "bool \<Rightarrow> ('t, 'i) MemTableInserter \<Rightarrow> (Status \<times> ('t, 'i) MemTableInserter) option" where
  "ins_MarkNoop empty_batch st = Some (OK, if \<not> empty_batch then MaybeAdvanceSeq True st else st)"

text \<open>\<open>iterate\<close> is the iteration of a batch with the inserter itself as the handler.\<close>

definition commit_recovered ::
  "(WriteBatch \<Rightarrow> ('t, 'i) MemTableInserter \<Rightarrow> (Status \<times> ('t, 'i) MemTableInserter) option) \<Rightarrow>
     RecoveredTransaction \<Rightarrow> ('t, 'i) MemTableInserter \<Rightarrow> (Status \<times> ('t, 'i) MemTableInserter) option"
where
  "commit_recovered iterate trx st =
     (if write_after_commit st
      then
        (case rt_batches trx of
           [] \<Rightarrow> None
         | (_, batch_info) # _ \<Rightarrow>
             Option.bind (bi_batch batch_info) (\<lambda>b.
               map_option (\<lambda>(s, st1). (s, st1\<lparr>log_number_ref := 0\<rparr>))
                 (iterate b (st\<lparr>log_number_ref := bi_log_number batch_info\<rparr>))))
      else Some (OK, st))"

definition delete_recovered ::
  "bytes \<Rightarrow> ('t, 'i) MemTableInserter \<Rightarrow> ('t, 'i) MemTableInserter option" where
  "delete_recovered name st =
     (case ins_db st of
        None \<Rightarrow> None
      | Some db \<Rightarrow> map_option (\<lambda>db'. st\<lparr>ins_db := Some db'\<rparr>) (DeleteRecoveredTransaction name db))"

definition ins_MarkCommit ::
  "(WriteBatch \<Rightarrow> ('t, 'i) MemTableInserter \<Rightarrow> (Status \<times> ('t, 'i) MemTableInserter) option) \<Rightarrow>
     bytes \<Rightarrow> ('t, 'i) MemTableInserter \<Rightarrow> (Status \<times> ('t, 'i) MemTableInserter) option"
where
  "ins_MarkCommit iterate name st =
     (if recovering_log_number st \<noteq> 0
      then
        (case ins_db st of
           None \<Rightarrow> None
         | Some db \<Rightarrow>
             (case recovered_transactions db name of
                None \<Rightarrow> Some (OK, MaybeAdvanceSeq True st)
              | Some trx \<Rightarrow>
                  Option.bind (commit_recovered iterate trx st) (\<lambda>(s, st1).
                    map_option
                      (\<lambda>st2. (s, MaybeAdvanceSeq True
                              (st2\<lparr>has_valid_writes := map_option (\<lambda>_. True) (has_valid_writes st2)\<rparr>)))
                      (if ok s then delete_recovered name st1 else Some st1))))
      else Some (OK, MaybeAdvanceSeq True st))"

definition ins_MarkRollback ::
  "bytes \<Rightarrow> ('t, 'i) MemTableInserter \<Rightarrow> (Status \<times> ('t, 'i) MemTableInserter) option" where
  "ins_MarkRollback name st =
     map_option (\<lambda>st1. (OK, MaybeAdvanceSeq True st1))
       (if recovering_log_number st \<noteq> 0
        then
          (case ins_db st of
             None \<Rightarrow> None
           | Some db \<Rightarrow> if recovered_transactions db name \<noteq> None then delete_recovered name st else Some st)
        else Some st)"

section \<open>The handler\<close>

text \<open>
  A handler's methods always return; a method of the inserter may not, or may leave the model. Then the
  state becomes \<open>None\<close> and stays so.
\<close>

definition lift_method ::
  "('st \<Rightarrow> (Status \<times> 'st) option) \<Rightarrow> 'st option \<Rightarrow> Status \<times> 'st option" where
  "lift_method f h = (case Option.bind h f of None \<Rightarrow> (OK, None) | Some (s, st) \<Rightarrow> (s, Some st))"

definition iterate_with ::
  "'st option handler \<Rightarrow> WriteBatch \<Rightarrow> 'st \<Rightarrow> (Status \<times> 'st) option" where
  "iterate_with hdl b st = (case wb_Iterate b hdl (Some st) of (s, h) \<Rightarrow> map_option (Pair s) h)"

text \<open>
  A commit found in a log hands the rebuilt batch to the inserter again. Rebuilt batches hold no
  commits, so one level of this is enough; a second is \<open>None\<close>.
\<close>

definition inserter_methods ::
  "('t, 'i) engine \<Rightarrow> (bytes \<Rightarrow> ('t, 'i) MemTableInserter \<Rightarrow> (Status \<times> ('t, 'i) MemTableInserter) option) \<Rightarrow>
     ('t, 'i) MemTableInserter option handler"
where
  "inserter_methods en commit_method =
     \<lparr>PutCF = (\<lambda>cf k v. lift_method (PutCFImpl en cf k v kTypeValue)),
      DeleteCF = (\<lambda>cf k. lift_method (ins_DeleteCF en cf k)),
      SingleDeleteCF = (\<lambda>cf k. lift_method (ins_SingleDeleteCF en cf k)),
      DeleteRangeCF = (\<lambda>cf k v. lift_method (ins_DeleteRangeCF en cf k v)),
      MergeCF = (\<lambda>cf k v. lift_method (ins_MergeCF en cf k v)),
      PutBlobIndexCF = (\<lambda>cf k v. lift_method (PutCFImpl en cf k v kTypeBlobIndex)),
      LogData = (\<lambda>b h. h),
      MarkBeginPrepare = (\<lambda>u. lift_method (ins_MarkBeginPrepare u)),
      MarkEndPrepare = (\<lambda>x. lift_method (ins_MarkEndPrepare x)),
      MarkNoop = (\<lambda>e. lift_method (ins_MarkNoop e)),
      MarkRollback = (\<lambda>x. lift_method (ins_MarkRollback x)),
      MarkCommit = (\<lambda>x. lift_method (commit_method x)),
      Continue = (\<lambda>h. (True, h)),
      WriteAfterCommit = (\<lambda>h. case h of None \<Rightarrow> True | Some st \<Rightarrow> write_after_commit st),
      WriteBeforePrepare = (\<lambda>h. case h of None \<Rightarrow> False | Some st \<Rightarrow> write_before_prepare st)\<rparr>"

definition rebuilt_handler :: "('t, 'i) engine \<Rightarrow> ('t, 'i) MemTableInserter option handler" where
  "rebuilt_handler en = inserter_methods en (\<lambda>x st. None)"

definition inserter_handler :: "('t, 'i) engine \<Rightarrow> ('t, 'i) MemTableInserter option handler" where
  "inserter_handler en = inserter_methods en (ins_MarkCommit (iterate_with (rebuilt_handler en)))"

section \<open>Inserting batches\<close>

definition PostProcess :: "('t, 'i) engine \<Rightarrow> ('t, 'i) MemTableInserter \<Rightarrow> ('t, 'i) MemTableInserter" where
  "PostProcess en st =
     (let rd = en_readings en (ins_reads st)
      in st\<lparr>ins_reads := ins_reads st + 1,
           ins_families := (\<lambda>cf. case ins_families st cf of
              None \<Rightarrow> None
            | Some d \<Rightarrow>
                (case mem_post_info st cf of
                   None \<Rightarrow> Some d
                 | Some info \<Rightarrow> Some (d\<lparr>cfd_mem := BatchPostProcess rd info (cfd_mem d)\<rparr>)))\<rparr>)"

record Writer =
  w_CallbackFailed :: bool
  w_ShouldWriteToMemtable :: bool
  w_batch :: WriteBatch
  w_log_ref :: u64
  w_sequence :: SequenceNumber
  w_status :: Status

text \<open>The writers of a group one after another; the first failure ends it.\<close>

fun insert_group ::
  "('t, 'i) engine \<Rightarrow> Writer list \<Rightarrow> ('t, 'i) MemTableInserter \<Rightarrow>
     (Status \<times> Writer list \<times> ('t, 'i) MemTableInserter) option"
where
  "insert_group en [] st = Some (OK, [], st)"
| "insert_group en (w # ws) st =
     (if w_CallbackFailed w
      then map_option (\<lambda>(s, ws', st'). (s, w # ws', st')) (insert_group en ws st)
      else
        (let w1 = w\<lparr>w_sequence := ins_sequence st\<rparr>
         in if \<not> w_ShouldWriteToMemtable w
            then map_option (\<lambda>(s, ws', st'). (s, w1 # ws', st')) (insert_group en ws (MaybeAdvanceSeq True st))
            else
              (let b = wb_SetSequence (w_batch w) (ins_sequence st)
               in Option.bind (iterate_with (inserter_handler en) b (st\<lparr>log_number_ref := w_log_ref w\<rparr>))
                    (\<lambda>(s, st1).
                      let w2 = w1\<lparr>w_batch := b, w_status := s\<rparr>
                      in if \<not> ok s then Some (s, w2 # ws, st1)
                         else map_option (\<lambda>(s', ws', st'). (s', w2 # ws', st')) (insert_group en ws st1)))))"

definition InsertInto_group ::
  "('t, 'i) engine \<Rightarrow> Writer list \<Rightarrow> SequenceNumber \<Rightarrow> ('t, 'i) families \<Rightarrow> u32 list option \<Rightarrow> u32 list option \<Rightarrow>
     bool \<Rightarrow> u64 \<Rightarrow> DBImpl option \<Rightarrow> bool \<Rightarrow> bool \<Rightarrow> bool \<Rightarrow>
     (Status \<times> Writer list \<times> ('t, 'i) MemTableInserter) option"
where
  "InsertInto_group en ws sq families fs ts ignore_missing recovery_log_number db concurrent per_batch batch_per_txn =
     insert_group en ws
       (MemTableInserter_new sq families fs ts ignore_missing recovery_log_number db concurrent None per_batch
          batch_per_txn False)"

definition InsertInto_writer ::
  "('t, 'i) engine \<Rightarrow> Writer \<Rightarrow> SequenceNumber \<Rightarrow> ('t, 'i) families \<Rightarrow> u32 list option \<Rightarrow> u32 list option \<Rightarrow>
     bool \<Rightarrow> u64 \<Rightarrow> DBImpl option \<Rightarrow> bool \<Rightarrow> bool \<Rightarrow> bool \<Rightarrow> bool \<Rightarrow>
     (Status \<times> Writer \<times> ('t, 'i) MemTableInserter) option"
where
  "InsertInto_writer en w sq families fs ts ignore_missing log_number db concurrent per_batch batch_per_txn hints =
     (let st = MemTableInserter_new sq families fs ts ignore_missing log_number db concurrent None per_batch
                 batch_per_txn hints;
          b = wb_SetSequence (w_batch w) sq
      in map_option (\<lambda>(s, st1). (s, w\<lparr>w_batch := b\<rparr>, if concurrent then PostProcess en st1 else st1))
           (iterate_with (inserter_handler en) b (st\<lparr>log_number_ref := w_log_ref w\<rparr>)))"

text \<open>The last form takes the number from the batch and tells the next one.\<close>

definition InsertInto_batch ::
  "('t, 'i) engine \<Rightarrow> WriteBatch \<Rightarrow> ('t, 'i) families \<Rightarrow> u32 list option \<Rightarrow> u32 list option \<Rightarrow>
     bool \<Rightarrow> u64 \<Rightarrow> DBImpl option \<Rightarrow> bool \<Rightarrow> bool option \<Rightarrow> bool \<Rightarrow> bool \<Rightarrow>
     (Status \<times> SequenceNumber \<times> ('t, 'i) MemTableInserter) option"
where
  "InsertInto_batch en b families fs ts ignore_missing log_number db concurrent valid_writes per_batch batch_per_txn =
     map_option (\<lambda>(s, st1). (s, ins_sequence st1, if concurrent then PostProcess en st1 else st1))
       (iterate_with (inserter_handler en) b
          (MemTableInserter_new (wb_Sequence b) families fs ts ignore_missing log_number db concurrent valid_writes
             per_batch batch_per_txn False))"

end
