(* ===== verification/MemTableSpec.thy ===== *)
theory MemTableSpec
  imports MemTableGet
begin

text \<open>
  What a memtable promises. Its abstract state is the list of the updates added to it; a lookup at a
  sequence number is a function of that list: the newest visible update of the key decides, unless it
  is a merge, then the next ones, and a range tombstone above it deletes it.
\<close>

section \<open>Updates\<close>

record version =
  v_key :: bytes
  v_seq :: SequenceNumber
  v_type :: ValueType
  v_value :: bytes

definition encode_version :: "version \<Rightarrow> bytes" where
  "encode_version v = encode_entry (v_seq v) (v_type v) (v_key v) (v_value v)"

definition version_small :: "version \<Rightarrow> bool" where
  "version_small v \<longleftrightarrow> length (v_key v) + length (v_value v) + 18 < 2 ^ 32 \<and>
     0 < v_seq v \<and> v_seq v \<le> kMaxSequenceNumber"

definition is_range :: "version \<Rightarrow> bool" where
  "is_range v \<longleftrightarrow> v_type v = kTypeRangeDeletion"

lemma of_nat_plus_8: "n + 8 < 2 ^ 32 \<Longrightarrow> (of_nat n :: u32) + 8 = of_nat (n + 8)"
  by simp

lemma encode_entry_prefixed:
  assumes "length key + 8 < 2 ^ 32" "length value < 2 ^ 32"
  shows "encode_entry s type key value =
    PutLengthPrefixedSlice [] (InternalKey key s type) @ PutLengthPrefixedSlice [] value"
  using assms
  by (simp add: encode_entry_def PutLengthPrefixedSlice_def PutVarint32_def InternalKey_eq Let_def
      unat_of_nat_32)

lemma encode_version_prefixed:
  "version_small v \<Longrightarrow> encode_version v =
     PutLengthPrefixedSlice [] (InternalKey (v_key v) (v_seq v) (v_type v)) @
     PutLengthPrefixedSlice [] (v_value v)"
  by (simp add: encode_version_def version_small_def encode_entry_prefixed)

lemma encoded_len_exact:
  assumes "length key + length value + 18 < 2 ^ 32"
  shows "unat (entry_encoded_len key value) = length (encode_entry s type key value)"
proof -
  let ?n = "length (EncodeVarint32 (of_nat (length key + 8)))" and ?m = "length (EncodeVarint32 (of_nat (length value)))"
  have bound: "?n \<le> 5" "?m \<le> 5" by (rule length_EncodeVarint32)+
  define n where "n = ?n + (length key + 8) + ?m + length value"
  have n: "n < 2 ^ 32" using bound assms by (simp add: n_def)
  have "entry_encoded_len key value = of_nat n"
    using of_nat_plus_8 [of "length key"] assms
    by (simp add: entry_encoded_len_def VarintLength_EncodeVarint32 Let_def n_def)
  moreover have "length (encode_entry s type key value) = n"
    using assms
    by (simp add: encode_entry_prefixed PutLengthPrefixedSlice_def PutVarint32_def InternalKey_eq n_def)
  ultimately show ?thesis using unat_of_nat_32 [OF n] by simp
qed

lemma version_is_entry: "version_small v \<Longrightarrow> is_entry (encode_version v)"
  unfolding is_entry_def encode_version_prefixed
  by (intro exI [of _ "InternalKey (v_key v) (v_seq v) (v_type v)"]
      exI [of _ "PutLengthPrefixedSlice [] (v_value v)"]) (simp add: version_small_def)

lemma version_slice:
  "version_small v \<Longrightarrow> prefixed_slice (encode_version v) = InternalKey (v_key v) (v_seq v) (v_type v)"
  by (simp add: encode_version_prefixed version_small_def)

lemma version_parts:
  assumes "version_small v"
  shows "entry_parts (encode_version v) =
    Some (v_key v, PackSequenceAndType (v_seq v) (v_type v), v_value v)"
proof -
  let ?ik = "InternalKey (v_key v) (v_seq v) (v_type v)" and ?val = "PutLengthPrefixedSlice [] (v_value v)"
  let ?len = "EncodeVarint32 (of_nat (length ?ik))"
  have enc: "encode_version v = ?len @ ?ik @ ?val"
    using assms by (simp add: encode_version_prefixed PutLengthPrefixedSlice_def PutVarint32_def)
  have "take 5 (encode_version v) = ?len @ take (5 - length ?len) (?ik @ ?val)"
    using length_EncodeVarint32 [of "of_nat (length ?ik)"] by (simp add: enc)
  then have len: "GetVarint32Ptr (take 5 (encode_version v)) =
      Some (of_nat (length ?ik), take (5 - length ?len) (?ik @ ?val))"
    by (simp only: GetVarint32Ptr_Encode)
  have skip: "length (take 5 (encode_version v)) - length (take (5 - length ?len) (?ik @ ?val)) = length ?len"
    using length_EncodeVarint32 [of "of_nat (length ?ik)"] by (simp add: enc)
  have n: "unat (of_nat (length ?ik) :: u32) = length ?ik"
    using assms by (intro unat_of_nat_32) (simp add: version_small_def)
  have "prefixed_slice ?val = v_value v"
    using prefixed_slice_Put [of "v_value v" "[]"] assms by (simp add: version_small_def)
  moreover have "drop (length (take 5 (encode_version v)) - length (take (5 - length ?len) (?ik @ ?val)))
      (encode_version v) = ?ik @ ?val"
    unfolding skip by (simp add: enc)
  ultimately show ?thesis
    by (simp only: entry_parts_def len option.case prod.case Let_def n) (simp add: InternalKey_eq)
qed

lemma entry_value_parts: "entry_parts e = Some (k, tag, v) \<Longrightarrow> entry_value e = v"
  by (auto simp: entry_parts_def entry_value_def Let_def split: option.splits)

lemma version_eqI:
  assumes "version_small v" "version_small w" "encode_version v = encode_version w"
  shows "v = w"
proof -
  have "Some (v_key v, PackSequenceAndType (v_seq v) (v_type v), v_value v) =
      Some (v_key w, PackSequenceAndType (v_seq w) (v_type w), v_value w)"
    using version_parts [OF assms(1)] version_parts [OF assms(2)] assms(3) by simp
  then have "v_key v = v_key w" "v_value v = v_value w"
    and pack: "PackSequenceAndType (v_seq v) (v_type v) = PackSequenceAndType (v_seq w) (v_type w)"
    by simp_all
  moreover have "v_seq v \<le> kMaxSequenceNumber" "v_seq w \<le> kMaxSequenceNumber"
    using assms by (simp_all add: version_small_def)
  then have "(v_seq v, v_type v) = (v_seq w, v_type w)" using UnPack_Pack pack by metis
  ultimately show ?thesis by (intro version.equality) simp_all
qed

lemma set_image_list: "set xs \<subseteq> f ` A \<Longrightarrow> \<exists>ys. xs = map f ys \<and> set ys \<subseteq> A"
proof (induction xs)
  case (Cons x xs)
  then obtain ys y where "xs = map f ys" "set ys \<subseteq> A" "x = f y" "y \<in> A" by auto
  then show ?case by (intro exI [of _ "y # ys"]) simp
qed simp

text \<open>The updates of one kind: small, and no two of one key with one number.\<close>

definition versions_ok :: "version set \<Rightarrow> bool" where
  "versions_ok vs \<longleftrightarrow> (\<forall>v\<in>vs. version_small v) \<and>
     (\<forall>v\<in>vs. \<forall>w\<in>vs. v_key v = v_key w \<longrightarrow> v_seq v = v_seq w \<longrightarrow> v = w)"

definition fresh :: "version \<Rightarrow> version list \<Rightarrow> bool" where
  "fresh v log \<longleftrightarrow> version_small v \<and>
     (\<forall>w\<in>set log. is_range w = is_range v \<longrightarrow> v_key w = v_key v \<longrightarrow> v_seq w \<noteq> v_seq v)"

section \<open>Orders without timestamps\<close>

locale memtable_order = exact_key_order +
  assumes no_timestamp_order: "CompareWithoutTimestamp cmp a b = 0 \<longleftrightarrow> a = b"
    and no_timestamp: "timestamp_size cmp = 0"
begin

abbreviation entry_cmp :: KeyComparator where
  "entry_cmp \<equiv> MemTable_KeyComparator cmp"

lemma Pack_drop_less:
  "s \<le> kMaxSequenceNumber \<Longrightarrow> r \<le> kMaxSequenceNumber \<Longrightarrow>
   drop_bit 8 (PackSequenceAndType s t) < drop_bit 8 (PackSequenceAndType r t') \<longleftrightarrow> s < r"
  by simp

lemma version_compare:
  assumes "version_small v" "version_small w"
  shows "compare_keys entry_cmp (encode_version v) (encode_version w) =
    (if v_key v = v_key w
     then (if v_seq v > v_seq w then -1 else if v_seq v < v_seq w then 1 else 0)
     else Compare cmp (v_key v) (v_key w))"
  using assms
  by (simp add: MemTable_KeyComparator_def version_slice InternalKey_eq CompareKeySeq_footer Compare_zero_iff
      version_small_def)

lemma lookup_slice:
  "length u + 8 < 2 ^ 32 \<Longrightarrow>
   prefixed_slice (memtable_key (LookupKey_new u s None)) = InternalKey u s kValueTypeForSeek"
  using prefixed_slice_Put [of "InternalKey u s kValueTypeForSeek" "[]"]
  by (simp add: memtable_key_prefixed internal_key_new)

lemma version_before:
  assumes "version_small v" "length u + 8 < 2 ^ 32" "s \<le> kMaxSequenceNumber"
  shows "entry_less entry_cmp (encode_version v) (memtable_key (LookupKey_new u s None)) \<longleftrightarrow>
    Compare cmp (v_key v) u < 0 \<or> v_key v = u \<and> s < v_seq v"
  using assms
  by (auto simp: entry_less_def MemTable_KeyComparator_def version_slice lookup_slice InternalKey_eq
      CompareKeySeq_footer Compare_zero_iff version_small_def key_refl)

text \<open>A sorted list of updates from the place of a key on: that key's come first.\<close>

abbreviation version_before_version :: "version \<Rightarrow> version \<Rightarrow> bool" where
  "version_before_version v w \<equiv> compare_keys entry_cmp (encode_version v) (encode_version w) < 0"

lemma dropped_keys:
  assumes "sorted_wrt version_before_version fs"
    and "\<forall>v\<in>set fs. version_small v \<and> \<not> Compare cmp (v_key v) u < 0"
  shows "\<forall>v\<in>set (dropWhile (\<lambda>v. v_key v = u) fs). v_key v \<noteq> u"
proof
  fix v
  let ?bs = "dropWhile (\<lambda>v. v_key v = u) fs"
  assume v: "v \<in> set ?bs"
  then obtain w ws where w: "?bs = w # ws" by (cases ?bs) auto
  then have wu: "v_key w \<noteq> u" using hd_dropWhile [of "\<lambda>v. v_key v = u" fs] by auto
  have fs: "fs = takeWhile (\<lambda>v. v_key v = u) fs @ w # ws" using w by (metis takeWhile_dropWhile_id)
  then have "v = w \<or> version_before_version w v"
    using v assms(1) w by (metis set_ConsD sorted_wrt.simps(2) sorted_wrt_append)
  moreover have in_fs: "v \<in> set fs" "w \<in> set fs"
    using v w set_dropWhileD by (metis list.set_intros(1))+
  moreover have "0 < Compare cmp (v_key w) u"
    using assms(2) in_fs(2) wu by (fastforce simp: Compare_zero_iff not_less order_le_less)
  ultimately show "v_key v \<noteq> u"
    using wu assms(2) by (auto simp: version_compare Compare_swap [of u "v_key w"] split: if_splits)
qed

lemma taken_sorted:
  assumes "sorted_wrt version_before_version fs" "\<forall>v\<in>set fs. version_small v"
  shows "sorted_wrt (\<lambda>v w. v_seq w < v_seq v) (takeWhile (\<lambda>v. v_key v = u) fs)"
proof -
  have "sorted_wrt version_before_version (takeWhile (\<lambda>v. v_key v = u) fs)"
    using assms(1) by (metis sorted_wrt_append takeWhile_dropWhile_id)
  then show ?thesis
  proof (rule sorted_wrt_mono_rel [rotated])
    fix v w
    assume vw: "v \<in> set (takeWhile (\<lambda>v. v_key v = u) fs)" "w \<in> set (takeWhile (\<lambda>v. v_key v = u) fs)"
      "version_before_version v w"
    then have "v_key v = u" "v_key w = u" "version_small v" "version_small w"
      using assms(2) by (auto dest: set_takeWhileD)
    with vw(3) show "v_seq w < v_seq v" by (simp add: version_compare split: if_splits)
  qed
qed

lemma lookup_split:
  assumes "mem.ordered es" "set es = encode_version ` vs" "versions_ok vs"
    and "length u + 8 < 2 ^ 32" "s \<le> kMaxSequenceNumber"
  obtains as bs where "entries_from entry_cmp (memtable_key (LookupKey_new u s None)) es =
      map encode_version (as @ bs)"
    "set as = {v \<in> vs. v_key v = u \<and> v_seq v \<le> s}" "sorted_wrt (\<lambda>v w. v_seq w < v_seq v) as"
    "set bs \<subseteq> vs" "\<forall>v\<in>set bs. v_key v \<noteq> u"
proof -
  let ?k = "memtable_key (LookupKey_new u s None)"
  let ?F = "entries_from entry_cmp ?k es"
  have small: "\<forall>v\<in>vs. version_small v" using assms(3) by (simp add: versions_ok_def)
  have entry: "is_entry ?k" using assms(4) by (intro memtable_key_entry) simp
  have parts: "entries_before entry_cmp ?k es @ ?F = es" by simp
  have "set ?F \<subseteq> encode_version ` vs" using assms(2) parts by (metis Un_upper2 set_append)
  then obtain fs where fs: "?F = map encode_version fs" "set fs \<subseteq> vs"
    using set_image_list by blast
  have sorted: "sorted_wrt mem.less ?F"
    using assms(1) parts unfolding mem.ordered_def by (metis sorted_wrt_append)
  have F: "\<not> Compare cmp (v_key v) u < 0 \<and> (v_key v = u \<longrightarrow> v_seq v \<le> s)" if "v \<in> set fs" for v
  proof -
    have "encode_version v \<in> set ?F" using that by (simp add: fs(1))
    from mem.from_not_less [OF assms(1) entry this] show ?thesis
      using version_before [of v u s] small fs(2) that assms(4,5) by (auto simp: not_less)
  qed
  define as where "as = takeWhile (\<lambda>v. v_key v = u) fs"
  define bs where "bs = dropWhile (\<lambda>v. v_key v = u) fs"
  have split: "fs = as @ bs" by (simp add: as_def bs_def)
  have less: "sorted_wrt version_before_version fs"
    using sorted unfolding fs(1) by (simp add: sorted_wrt_map entry_less_def)
  have bs: "v_key v \<noteq> u" if "v \<in> set bs" for v
    using dropped_keys [OF less, of u] F small fs(2) that unfolding bs_def by blast
  have "set as = {v \<in> vs. v_key v = u \<and> v_seq v \<le> s}"
  proof (intro equalityI subsetI)
    fix v
    assume "v \<in> set as"
    then have "v \<in> set fs" "v_key v = u" unfolding as_def by (auto dest: set_takeWhileD)
    then show "v \<in> {v \<in> vs. v_key v = u \<and> v_seq v \<le> s}" using F [of v] fs(2) by auto
  next
    fix v
    assume "v \<in> {v \<in> vs. v_key v = u \<and> v_seq v \<le> s}"
    then have v: "v \<in> vs" "v_key v = u" "v_seq v \<le> s" by auto
    then have "\<not> entry_less entry_cmp (encode_version v) ?k"
      using version_before [of v u s] small assms(4,5) by (auto simp: key_refl not_less)
    then have "encode_version v \<notin> set (entries_before entry_cmp ?k es)" using mem.before_less by blast
    moreover have "encode_version v \<in> set es" using v(1) assms(2) by simp
    ultimately have "encode_version v \<in> set ?F" using mem.set_before_from [of es ?k] by auto
    then obtain w where "w \<in> set fs" "encode_version w = encode_version v" unfolding fs(1) by auto
    then have "v \<in> set fs" using version_eqI [of w v] small fs(2) v(1) by auto
    then show "v \<in> set as" using bs v(2) split by auto
  qed
  moreover have "sorted_wrt (\<lambda>v w. v_seq w < v_seq v) as"
    using taken_sorted [OF less, of u] small fs(2) unfolding as_def by blast
  ultimately show thesis using that [of as bs] fs split bs by simp
qed

end

section \<open>The abstract lookup\<close>

text \<open>
  The visible updates of a key, newest first, below the greatest covering tombstone \<open>cover\<close>. The
  outcome is nothing, only merges, or a base value (or none) under merges; \<open>ops\<close> are the operands
  met so far, oldest first.
\<close>

datatype lookup_outcome = Absent | Pending "bytes list" | Decided "bytes option" "bytes list"

fun resolve :: "SequenceNumber \<Rightarrow> bytes list \<Rightarrow> version list \<Rightarrow> lookup_outcome" where
  "resolve cover ops [] = (if ops = [] then Absent else Pending ops)"
| "resolve cover ops (v # vs) =
     (if v_type v = kTypeMerge \<and> cover \<le> v_seq v then resolve cover (v_value v # ops) vs
      else if v_type v = kTypeValue \<and> cover \<le> v_seq v then Decided (Some (v_value v)) ops
      else Decided None ops)"

text \<open>The number of the update that was looked at last.\<close>

fun last_seq :: "SequenceNumber \<Rightarrow> SequenceNumber \<Rightarrow> version list \<Rightarrow> SequenceNumber" where
  "last_seq cover sq [] = sq"
| "last_seq cover sq (v # vs) =
     (if v_type v = kTypeMerge \<and> cover \<le> v_seq v then last_seq cover (v_seq v) vs else v_seq v)"

text \<open>Status and value of a decided lookup; \<open>x\<close> is what the caller's string held.\<close>

definition merged ::
  "merge_operator \<Rightarrow> bytes \<Rightarrow> bytes option \<Rightarrow> bytes list \<Rightarrow> bytes \<Rightarrow> Status \<times> bytes" where
  "merged mo key base ops x =
     (case FullMergeV2 mo key base ops x of
        (success, r, chosen) \<Rightarrow>
          (if success then OK else Corruption (str ''Error: Could not perform merge.'') [],
           case chosen of Some v \<Rightarrow> v | None \<Rightarrow> r))"

definition decided ::
  "merge_operator \<Rightarrow> bytes \<Rightarrow> bytes option \<Rightarrow> bytes list \<Rightarrow> bytes \<Rightarrow> Status \<times> bytes" where
  "decided mo key base ops x =
     (if ops \<noteq> [] then merged mo key base ops x
      else case base of Some v \<Rightarrow> (OK, v) | None \<Rightarrow> (NotFound_sub kNone, x))"

lemma TimedFullMerge_merged:
  "ops \<noteq> [] \<Longrightarrow> TimedFullMerge (Some mo) key base ops (Some x) False =
     Some (fst (merged mo key base ops x), snd (merged mo key base ops x), None)"
  by (simp add: TimedFullMerge_def merged_def Let_def split: prod.split option.split)

text \<open>A lookup with a callback-free, merging reader that wants the value.\<close>

definition plain_saver :: "merge_operator \<Rightarrow> Saver \<Rightarrow> bytes \<Rightarrow> bytes \<Rightarrow> bool" where
  "plain_saver mo s u x \<longleftrightarrow>
     sv_callback s = None \<and> sv_do_merge s \<and> sv_value s = Some x \<and> \<not> sv_fault s \<and>
     sv_merge_operator s = Some mo \<and> lookup_user_key (sv_key s) = u \<and> \<not> sv_found_final_value s \<and>
     (sv_merge_in_progress s \<longleftrightarrow> mc_operands (sv_merge_context s) \<noteq> [])"

definition saver_shows ::
  "merge_operator \<Rightarrow> bytes \<Rightarrow> bytes \<Rightarrow> lookup_outcome \<Rightarrow> SequenceNumber \<Rightarrow> Status \<Rightarrow> Saver \<Rightarrow> bool" where
  "saver_shows mo u x out sq st s \<longleftrightarrow> sv_seq s = sq \<and> \<not> sv_fault s \<and>
     (case out of
        Absent \<Rightarrow> \<not> sv_found_final_value s \<and> \<not> sv_merge_in_progress s \<and> sv_value s = Some x \<and>
          sv_status s = st \<and> mc_operands (sv_merge_context s) = []
      | Pending ops \<Rightarrow> \<not> sv_found_final_value s \<and> sv_merge_in_progress s \<and> sv_value s = Some x \<and>
          mc_operands (sv_merge_context s) = ops
      | Decided base ops \<Rightarrow> sv_found_final_value s \<and>
          (sv_status s, sv_value s) = (fst (decided mo u base ops x), Some (snd (decided mo u base ops x))))"

definition plain_type :: "version \<Rightarrow> bool" where
  "plain_type v \<longleftrightarrow> v_type v \<in> {kTypeValue, kTypeMerge, kTypeDeletion, kTypeSingleDeletion}"

text \<open>What \<open>SaveValue\<close> does with an update of the key.\<close>

definition save_version :: "version \<Rightarrow> Saver \<Rightarrow> bool \<times> Saver" where
  "save_version v s0 =
     (let s = s0\<lparr>sv_seq := v_seq v\<rparr>
      in if v_type v = kTypeMerge \<and> sv_max_covering_tombstone_seq s \<le> v_seq v then save_merge (v_value v) s
         else if v_type v = kTypeValue \<and> sv_max_covering_tombstone_seq s \<le> v_seq v
         then (False, save_value kTypeValue (v_value v) s)
         else (False, save_deletion s))"

lemma sv_merge_decided:
  assumes "sv_merge_operator s = Some mo" "lookup_user_key (sv_key s) = u" "sv_value s = Some x"
    and "mc_operands (sv_merge_context s) = ops" "ops \<noteq> []"
  shows "sv_merge base s = s\<lparr>sv_merge_context := snd (GetOperands (sv_merge_context s)),
    sv_status := fst (decided mo u base ops x), sv_value := Some (snd (decided mo u base ops x))\<rparr>"
proof -
  obtain mc where "GetOperands (sv_merge_context s) = (ops, mc)"
    using GetOperands_operands(1) [of "sv_merge_context s"] assms(4) by (metis prod.collapse)
  then show ?thesis
    using assms by (simp add: sv_merge_def TimedFullMerge_merged decided_def)
qed

lemma save_deletion_shows:
  assumes "plain_saver mo s u x" "sv_seq s = sq"
  shows "saver_shows mo u x (Decided None (mc_operands (sv_merge_context s))) sq st (save_deletion s)"
  using assms sv_merge_decided [of s mo u x _ None]
  by (cases "sv_merge_in_progress s")
    (simp_all add: plain_saver_def saver_shows_def save_deletion_def Let_def decided_def)

lemma save_value_shows:
  assumes "plain_saver mo s u x" "sv_seq s = sq"
  shows "saver_shows mo u x (Decided (Some v) (mc_operands (sv_merge_context s))) sq st
    (save_value kTypeValue v s)"
  using assms sv_merge_decided [of "s\<lparr>sv_status := OK\<rparr>" mo u x _ "Some v"]
  by (cases "sv_merge_in_progress s")
    (simp_all add: plain_saver_def saver_shows_def save_value_def Let_def decided_def)

lemma save_merge_goes_on:
  assumes "plain_saver mo s u x" "\<forall>l. \<not> ShouldMerge mo l"
  shows "\<exists>s'. save_merge v s = (True, s') \<and> plain_saver mo s' u x \<and>
    mc_operands (sv_merge_context s') = v # mc_operands (sv_merge_context s) \<and> sv_seq s' = sv_seq s \<and>
    sv_max_covering_tombstone_seq s' = sv_max_covering_tombstone_seq s \<and>
    sv_user_comparator s' = sv_user_comparator s"
proof -
  let ?s1 = "sv_push v (s\<lparr>sv_merge_in_progress := True\<rparr>)"
  obtain ops mc where get: "GetOperandsDirectionBackward (sv_merge_context ?s1) = (ops, mc)"
    by (rule prod.exhaust)
  then have mc: "mc_operands mc = v # mc_operands (sv_merge_context s)"
    using GetOperandsBackward_operands(2) [of "sv_merge_context ?s1"] by (simp add: sv_push_def)
  have "save_merge v s = (True, ?s1\<lparr>sv_merge_context := mc\<rparr>)"
    using assms get by (simp add: save_merge_def plain_saver_def sv_push_def Let_def)
  with assms(1) mc show ?thesis by (simp add: plain_saver_def sv_push_def)
qed

context memtable_order
begin

lemma SaveValue_version:
  assumes "version_small v" "plain_type v" "plain_saver mo s (v_key v) x" "sv_user_comparator s = cmp"
  shows "SaveValue s (encode_version v) = save_version v s"
  using assms no_timestamp_order [of "v_key v" "v_key v"]
  by (auto simp: SaveValue_def version_parts save_version_def CheckCallback_def plain_saver_def plain_type_def
      covered_type_def version_small_def UnPack_Pack Let_def not_le)

lemma SaveValue_other:
  assumes "version_small v" "v_key v \<noteq> u" "lookup_user_key (sv_key s) = u" "sv_user_comparator s = cmp"
  shows "SaveValue s (encode_version v) = (False, s)"
  using assms no_timestamp_order [of "v_key v" u] by (simp add: SaveValue_def version_parts)

lemma run_shows:
  assumes "\<forall>v\<in>set as. version_small v \<and> plain_type v \<and> v_key v = u"
    and "\<forall>v\<in>set bs. version_small v \<and> v_key v \<noteq> u"
    and "plain_saver mo s u x" "sv_user_comparator s = cmp" "\<forall>l. \<not> ShouldMerge mo l"
    and "sv_merge_in_progress s \<or> sv_status s = st"
  shows "saver_shows mo u x
    (resolve (sv_max_covering_tombstone_seq s) (mc_operands (sv_merge_context s)) as)
    (last_seq (sv_max_covering_tombstone_seq s) (sv_seq s) as) st
    (run_callback SaveValue s (map encode_version (as @ bs)))"
  using assms
proof (induction as arbitrary: s)
  case Nil
  have "run_callback SaveValue s (map encode_version bs) = s"
  proof (cases bs)
    case (Cons b bs')
    then show ?thesis using Nil SaveValue_other [of b u s] by (simp add: plain_saver_def)
  qed simp
  with Nil show ?case by (simp add: saver_shows_def plain_saver_def)
next
  case (Cons v as)
  let ?s = "s\<lparr>sv_seq := v_seq v\<rparr>" and ?c = "sv_max_covering_tombstone_seq s"
  have v: "version_small v" "plain_type v" "v_key v = u" using Cons.prems(1) by simp_all
  have save: "SaveValue s (encode_version v) = save_version v s"
    using SaveValue_version [OF v(1,2)] Cons.prems(3,4) v(3) by simp
  have plain: "plain_saver mo ?s u x" "sv_seq ?s = v_seq v"
    using Cons.prems(3) by (simp_all add: plain_saver_def)
  show ?case
  proof (cases "v_type v = kTypeMerge \<and> ?c \<le> v_seq v")
    case True
    obtain s' where s': "save_merge (v_value v) ?s = (True, s')" "plain_saver mo s' u x"
        "mc_operands (sv_merge_context s') = v_value v # mc_operands (sv_merge_context s)"
        "sv_seq s' = v_seq v" "sv_max_covering_tombstone_seq s' = ?c" "sv_user_comparator s' = cmp"
      using save_merge_goes_on [OF plain(1) Cons.prems(5)] Cons.prems(4) by auto
    then have "sv_merge_in_progress s'" by (simp add: plain_saver_def)
    with Cons.IH [OF _ Cons.prems(2) s'(2,6) Cons.prems(5)] Cons.prems(1) s' True save show ?thesis
      by (simp add: save_version_def)
  next
    case False
    then show ?thesis
      using save save_value_shows [OF plain] save_deletion_shows [OF plain]
      by (auto simp: save_version_def Let_def)
  qed
qed

end

section \<open>A memtable and its updates\<close>

context memtable_rep
begin

lemma rep_add_new:
  assumes "ok t" "entry e" "\<forall>x\<in>set (entries t). compare_keys c e x \<noteq> 0"
  shows "\<exists>t2. rep_add ops rng InsertPlain (length e) e t = Some (True, None, t2) \<and> ok t2 \<and>
    set (entries t2) = insert e (set (entries t))"
proof -
  obtain h t1 where al: "rep_Allocate ops (length e) t = (h, t1)" by (rule prod.exhaust)
  obtain t2 where "rep_InsertKey ops h (rep_fill ops h e t1) = Some (True, t2)" "ok t2"
      "entries t2 = place_entry c e (entries t)"
    using insert_new [OF assms al] by blast
  with al show ?thesis by (simp add: rep_add_def)
qed

end

context memtable_rep
begin

lemma drain_cursor:
  assumes "ok t" "cursor t i xs ys" "mi_rep m = (t, i)" "mi_valid m \<longleftrightarrow> ys \<noteq> []"
  shows "mi_drain ops m = Some (map (\<lambda>e. (prefixed_slice e, entry_value e)) ys)"
  using assms
proof (induction ys arbitrary: t i xs m)
  case Nil
  then show ?case by (subst mi_drain.simps) simp
next
  case (Cons y ys)
  obtain t1 i1 where n: "it_Next ops (t, i) = Some (t1, i1)" "ok t1" "cursor t1 i1 (xs @ [y]) ys"
    using Next_moves [OF Cons.prems(1,2)] by blast
  obtain t2 i2 where v: "it_Valid ops (t1, i1) = (ys \<noteq> [], t2, i2)" "ok t2" "cursor t2 i2 (xs @ [y]) ys"
    using Valid_iff [OF n(2,3)] by blast
  have "mi_Next ops m = Some (m\<lparr>mi_rep := (t2, i2), mi_valid := (ys \<noteq> [])\<rparr>)"
    using n(1) v(1) Cons.prems(3) by (simp add: mi_Next_def mi_set_def)
  with Cons.IH [OF v(2,3)] Cons.prems(3,4) key_hd [OF Cons.prems(1,2)] show ?case
    by (subst mi_drain.simps) (simp add: mi_key_def mi_value_def)
qed

lemma drain_all:
  assumes "ok t" "mi_rep m = (t, rep_GetIterator ops t)"
  shows "\<exists>m'. mi_SeekToFirst ops m = Some m' \<and>
    mi_drain ops m' = Some (map (\<lambda>e. (prefixed_slice e, entry_value e)) (entries t))"
proof -
  obtain t1 i1 where s: "it_SeekToFirst ops (t, rep_GetIterator ops t) = Some (t1, i1)" "ok t1"
      "entries t1 = entries t" "cursor t1 i1 [] (entries t)"
    using SeekToFirst_finds [OF assms(1)] by blast
  obtain t2 i2 where v: "it_Valid ops (t1, i1) = (entries t \<noteq> [], t2, i2)" "ok t2" "cursor t2 i2 [] (entries t)"
    using Valid_iff [OF s(2,4)] by blast
  let ?m = "m\<lparr>mi_rep := (t2, i2), mi_valid := (entries t \<noteq> [])\<rparr>"
  have "mi_SeekToFirst ops m = Some ?m" using s(1) v(1) assms(2) by (simp add: mi_SeekToFirst_def mi_set_def)
  moreover have "mi_drain ops ?m = Some (map (\<lambda>e. (prefixed_slice e, entry_value e)) (entries t))"
    by (rule drain_cursor [OF v(2,3)]) simp_all
  ultimately show ?thesis by blast
qed

end

text \<open>What the steps after the insertion leave alone.\<close>

lemma step_sel [simp]:
  "mt_table (UpdateFlushState b mt) = mt_table mt" "mt_range_del_table (UpdateFlushState b mt) = mt_range_del_table mt"
  "is_range_del_table_empty (UpdateFlushState b mt) = is_range_del_table_empty mt"
  "first_seqno (UpdateFlushState b mt) = first_seqno mt" "bloom_filter (UpdateFlushState b mt) = bloom_filter mt"
  "mt_table (note_first_seqno s mt) = mt_table mt"
  "mt_range_del_table (note_first_seqno s mt) = mt_range_del_table mt"
  "is_range_del_table_empty (note_first_seqno s mt) = is_range_del_table_empty mt"
  "first_seqno (note_first_seqno s mt) = (if first_seqno mt = 0 then s else first_seqno mt)"
  "bloom_filter (note_first_seqno s mt) = bloom_filter mt"
  "mt_table (bloom_add_key cfg add key mt) = mt_table mt"
  "mt_range_del_table (bloom_add_key cfg add key mt) = mt_range_del_table mt"
  "is_range_del_table_empty (bloom_add_key cfg add key mt) = is_range_del_table_empty mt"
  "first_seqno (bloom_add_key cfg add key mt) = first_seqno mt"
  "mt_table (finish_Add rd type mt) = mt_table mt"
  "mt_range_del_table (finish_Add rd type mt) = mt_range_del_table mt"
  "is_range_del_table_empty (finish_Add rd type mt) =
     (type \<noteq> kTypeRangeDeletion \<and> is_range_del_table_empty mt)"
  "first_seqno (finish_Add rd type mt) = first_seqno mt"
  "bloom_filter (finish_Add rd type mt) = bloom_filter mt"
  by (simp_all add: UpdateFlushState_def note_first_seqno_def bloom_add_key_def finish_Add_def
      UpdateOldestKeyTime_def Let_def split: option.split)

definition points :: "version list \<Rightarrow> version set" where
  "points log = {v \<in> set log. \<not> is_range v}"

definition ranges :: "version list \<Rightarrow> version set" where
  "ranges log = {v \<in> set log. is_range v}"

lemma points_Cons: "points (v # log) = (if is_range v then points log else insert v (points log))"
  by (auto simp: points_def)

lemma ranges_Cons: "ranges (v # log) = (if is_range v then insert v (ranges log) else ranges log)"
  by (auto simp: ranges_def)

lemma log_empty_iff: "log = [] \<longleftrightarrow> points log = {} \<and> ranges log = {}"
  by (cases log) (auto simp: points_def ranges_def)

definition bloom_has :: "('t, 'i) MemTableSettings \<Rightarrow> bytes \<Rightarrow> DynamicBloom \<Rightarrow> bool" where
  "bloom_has cfg key b \<longleftrightarrow>
     (memtable_whole_key_filtering cfg \<longrightarrow> bloom_MayContain key b) \<and>
     (\<forall>tr. prefix_extractor cfg = Some tr \<longrightarrow> InDomain tr key \<longrightarrow> bloom_MayContain (Transform tr key) b)"

lemma bloom_filter_add_key:
  "bloom_filter (bloom_add_key cfg add key mt) = bloom_filter (bloom_add_key cfg add key mt')"
  if "bloom_filter mt = bloom_filter mt'"
  using that by (simp add: bloom_add_key_def Let_def split: option.split)

definition filter_ok :: "('t, 'i) MemTableSettings \<Rightarrow> 't MemTable \<Rightarrow> version list \<Rightarrow> bool" where
  "filter_ok cfg mt log \<longleftrightarrow>
     (\<forall>b. bloom_filter mt = Some b \<longrightarrow> bloom_ok b \<and> (\<forall>v\<in>set log. bloom_has cfg (v_key v) b))"

lemma bloom_Add_facts:
  "bloom_ok b \<Longrightarrow> bloom_ok (bloom_Add k b)"
  "bloom_ok b \<Longrightarrow> bloom_MayContain k (bloom_Add k b)"
  "bloom_MayContain k' b \<Longrightarrow> bloom_MayContain k' (bloom_Add k b)"
  by (simp_all add: bloom_Add_def bloom_MayContain_def bloom_AddHash_ok bloom_AddHash_finds
      bloom_AddHash_keeps)

lemma filter_ok_add:
  assumes "filter_ok cfg mt log" "timestamp_size (mt_comparator cfg) = 0" "v_key v = key"
  shows "filter_ok cfg (bloom_add_key cfg bloom_Add key mt) (v # log)"
  using assms
  by (auto simp: filter_ok_def bloom_add_key_def bloom_has_def bloom_Add_facts StripTimestampFromUserKey_def
      Let_def split: option.split)

locale memtable =
  memtable_order "mt_comparator cfg" +
  rep: memtable_rep "MemTable_KeyComparator (mt_comparator cfg)" is_entry "mt_ops cfg" good entries cursor
  for cfg :: "('t, 'i) MemTableSettings" and good entries cursor
begin

definition mt_rel :: "'t MemTable \<Rightarrow> version list \<Rightarrow> bool" where
  "mt_rel mt log \<longleftrightarrow>
     good (mt_table mt) \<and> set (entries (mt_table mt)) = encode_version ` points log \<and>
     sl_ok entry_cmp is_entry (skip_list (mt_range_del_table mt)) \<and>
     set (sl_entries (skip_list (mt_range_del_table mt))) = encode_version ` ranges log \<and>
     (is_range_del_table_empty mt \<longleftrightarrow> ranges log = {}) \<and> (first_seqno mt = 0 \<longleftrightarrow> log = []) \<and>
     filter_ok cfg mt log \<and> versions_ok (points log) \<and> versions_ok (ranges log) \<and> distinct log"

lemma new_entry:
  assumes "version_small v" "versions_ok vs" "\<forall>w\<in>vs. v_key w = v_key v \<longrightarrow> v_seq w \<noteq> v_seq v"
    and "es = encode_version ` vs"
  shows "\<forall>x\<in>es. compare_keys entry_cmp (encode_version v) x \<noteq> 0" "versions_ok (insert v vs)"
proof -
  show "\<forall>x\<in>es. compare_keys entry_cmp (encode_version v) x \<noteq> 0"
    using assms version_compare [OF assms(1)]
    by (fastforce simp: versions_ok_def Compare_zero_iff split: if_splits)
  show "versions_ok (insert v vs)"
    using assms(1-3) by (auto simp: versions_ok_def)
qed

definition tables_hold :: "'t MemTable \<Rightarrow> version list \<Rightarrow> bool" where
  "tables_hold mt log \<longleftrightarrow>
     good (mt_table mt) \<and> set (entries (mt_table mt)) = encode_version ` points log \<and>
     sl_ok entry_cmp is_entry (skip_list (mt_range_del_table mt)) \<and>
     set (sl_entries (skip_list (mt_range_del_table mt))) = encode_version ` ranges log \<and>
     versions_ok (points log) \<and> versions_ok (ranges log) \<and> distinct log"

lemma mt_rel_tables:
  "mt_rel mt log \<longleftrightarrow> tables_hold mt log \<and> (is_range_del_table_empty mt \<longleftrightarrow> ranges log = {}) \<and>
     (first_seqno mt = 0 \<longleftrightarrow> log = []) \<and> filter_ok cfg mt log"
  unfolding mt_rel_def tables_hold_def by blast

lemma insert_version:
  assumes "tables_hold mt log" "fresh v log"
  shows "\<exists>mt1. mt_insert cfg (v_type v) InsertPlain (length (encode_version v)) (encode_version v) mt =
      Some (True, None, mt1) \<and> tables_hold mt1 (v # log) \<and>
    mt1 = mt\<lparr>mt_table := mt_table mt1, mt_range_del_table := mt_range_del_table mt1\<rparr>"
proof -
  have small: "version_small v" and new_v: "v \<notin> set log" using assms(2) by (auto simp: fresh_def)
  note entry = version_is_entry [OF small]
  show ?thesis
  proof (cases "is_range v")
    case True
    have "\<forall>w\<in>ranges log. v_key w = v_key v \<longrightarrow> v_seq w \<noteq> v_seq v"
      using assms(2) True by (auto simp: fresh_def ranges_def)
    note new = new_entry [OF small _ this refl]
    have "versions_ok (ranges log)" "sl_ok entry_cmp is_entry (skip_list (mt_range_del_table mt))"
      "set (sl_entries (skip_list (mt_range_del_table mt))) = encode_version ` ranges log"
      using assms(1) by (simp_all add: tables_hold_def)
    with mem.skiplist.rep_add_new [OF this(2) entry, of True] new obtain t2 where
      "rep_add (range_ops cfg) True InsertPlain (length (encode_version v)) (encode_version v)
          (mt_range_del_table mt) = Some (True, None, t2)"
      "sl_ok entry_cmp is_entry (skip_list t2)"
      "set (sl_entries (skip_list t2)) = insert (encode_version v) (encode_version ` ranges log)"
      by (auto simp: range_ops_def mt_key_comparator_def)
    with True assms(1) new(2) new_v \<open>versions_ok (ranges log)\<close> show ?thesis
      by (auto simp: mt_insert_def is_range_def tables_hold_def points_Cons ranges_Cons)
  next
    case False
    have "\<forall>w\<in>points log. v_key w = v_key v \<longrightarrow> v_seq w \<noteq> v_seq v"
      using assms(2) False by (auto simp: fresh_def points_def)
    note new = new_entry [OF small _ this refl]
    have "versions_ok (points log)" "good (mt_table mt)"
      "set (entries (mt_table mt)) = encode_version ` points log"
      using assms(1) by (simp_all add: tables_hold_def)
    with rep.rep_add_new [OF this(2) entry, of False] new obtain t2 where
      "rep_add (mt_ops cfg) False InsertPlain (length (encode_version v)) (encode_version v)
          (mt_table mt) = Some (True, None, t2)"
      "good t2" "set (entries t2) = insert (encode_version v) (encode_version ` points log)"
      by auto
    with False assms(1) new(2) new_v \<open>versions_ok (points log)\<close> show ?thesis
      by (auto simp: mt_insert_def is_range_def tables_hold_def points_Cons ranges_Cons)
  qed
qed

lemma Add_sequential:
  assumes "mt_rel mt log" "fresh v log" "insert_with_hint_prefix_extractor cfg = None"
  shows "\<exists>mt'. mt_Add_sequential cfg rd (v_seq v) (v_type v) (v_key v) (v_value v) mt = Some (True, mt') \<and>
    mt_rel mt' (v # log)"
proof -
  have small: "version_small v" using assms(2) by (simp add: fresh_def)
  then have len: "unat (entry_encoded_len (v_key v) (v_value v)) = length (encode_version v)"
    by (simp add: encode_version_def version_small_def encoded_len_exact)
  obtain mt1 where mt1:
      "mt_insert cfg (v_type v) InsertPlain (length (encode_version v)) (encode_version v) mt =
        Some (True, None, mt1)" "tables_hold mt1 (v # log)"
      "mt1 = mt\<lparr>mt_table := mt_table mt1, mt_range_del_table := mt_range_del_table mt1\<rparr>"
    using insert_version [OF _ assms(2)] assms(1) unfolding mt_rel_tables by blast
  let ?mt3 = "mt1\<lparr>mt_num_entries := mt_num_entries mt1 + 1,
      mt_data_size := mt_data_size mt1 + ucast (entry_encoded_len (v_key v) (v_value v)),
      mt_num_deletes := (if v_type v = kTypeDeletion then mt_num_deletes mt1 + 1 else mt_num_deletes mt1)\<rparr>"
  let ?mt = "finish_Add rd (v_type v) (UpdateFlushState (should_flush_now rd)
      (note_first_seqno (v_seq v) (bloom_add_key cfg bloom_Add (v_key v) ?mt3)))"
  have "mt_Add_sequential cfg rd (v_seq v) (v_type v) (v_key v) (v_value v) mt = Some (True, ?mt)"
    using mt1(1) assms(3) len by (simp add: mt_Add_sequential_def encode_version_def Let_def)
  moreover have "mt_rel ?mt (v # log)"
    unfolding mt_rel_tables
  proof (intro conjI)
    have same: "is_range_del_table_empty mt1 = is_range_del_table_empty mt" "first_seqno mt1 = first_seqno mt"
        "bloom_filter mt1 = bloom_filter mt"
      using arg_cong [OF mt1(3), of is_range_del_table_empty] arg_cong [OF mt1(3), of first_seqno]
        arg_cong [OF mt1(3), of bloom_filter] by simp_all
    show "tables_hold ?mt (v # log)" using mt1(2) by (simp add: tables_hold_def)
    show "is_range_del_table_empty ?mt \<longleftrightarrow> ranges (v # log) = {}"
      using assms(1) same(1) by (simp add: mt_rel_def ranges_Cons is_range_def)
    show "first_seqno ?mt = 0 \<longleftrightarrow> v # log = []"
      using same(2) small by (auto simp: version_small_def)
    have "filter_ok cfg (bloom_add_key cfg bloom_Add (v_key v) mt) (v # log)"
      using assms(1) no_timestamp by (intro filter_ok_add) (simp_all add: mt_rel_def)
    moreover have "bloom_filter ?mt = bloom_filter (bloom_add_key cfg bloom_Add (v_key v) mt)"
      by (simp only: step_sel, rule bloom_filter_add_key) (simp add: same(3))
    ultimately show "filter_ok cfg ?mt (v # log)" by (simp add: filter_ok_def)
  qed
  ultimately show ?thesis by blast
qed

end

text \<open>The greatest number, up to \<open>s\<close>, of the range tombstones over \<open>u\<close>.\<close>

definition covering_seq :: "comparator \<Rightarrow> SequenceNumber \<Rightarrow> bytes \<Rightarrow> version list \<Rightarrow> SequenceNumber" where
  "covering_seq c s u log =
     fold max (map v_seq (filter (\<lambda>v. is_range v \<and> Compare c (v_key v) u \<le> 0 \<and> Compare c u (v_value v) < 0 \<and>
       v_seq v \<le> s) log)) 0"

text \<open>The updates of \<open>u\<close> up to \<open>s\<close>, newest first.\<close>

definition visible_versions :: "SequenceNumber \<Rightarrow> bytes \<Rightarrow> version list \<Rightarrow> version list" where
  "visible_versions s u log =
     rev (sort_key v_seq (filter (\<lambda>v. \<not> is_range v \<and> v_key v = u \<and> v_seq v \<le> s) log))"

definition ranges_forward :: "comparator \<Rightarrow> version list \<Rightarrow> bool" where
  "ranges_forward c log \<longleftrightarrow> (\<forall>v\<in>set log. is_range v \<longrightarrow> Compare c (v_key v) (v_value v) \<le> 0)"

lemma covering_seq_Max:
  "covering_seq c s u log = Max (insert 0 {q. q \<le> s \<and> (\<exists>v\<in>ranges log. Compare c (v_key v) u \<le> 0 \<and>
     Compare c u (v_value v) < 0 \<and> v_seq v = q)})"
proof -
  let ?qs = "map v_seq (filter (\<lambda>v. is_range v \<and> Compare c (v_key v) u \<le> 0 \<and> Compare c u (v_value v) < 0 \<and>
    v_seq v \<le> s) log)"
  have "set (0 # ?qs) = insert 0 {q. q \<le> s \<and> (\<exists>v\<in>ranges log. Compare c (v_key v) u \<le> 0 \<and>
      Compare c u (v_value v) < 0 \<and> v_seq v = q)}"
    by (auto simp: ranges_def)
  then show ?thesis unfolding covering_seq_def using Max.set_eq_fold [of 0 ?qs] by simp
qed

lemma sorted_wrt_same:
  assumes "sorted_wrt (\<lambda>v w. (f w :: 'b :: linorder) < f v) xs" "sorted_wrt (\<lambda>v w. f w < f v) ys" "set xs = set ys"
  shows "xs = ys"
  using assms
proof (induction xs arbitrary: ys)
  case (Cons x xs)
  then obtain y zs where ys: "ys = y # zs" by (cases ys) auto
  have "x = y"
    using Cons.prems unfolding ys by (metis list.set_intros(1) not_less_iff_gr_or_eq set_ConsD sorted_wrt.simps(2))
  moreover have "x \<notin> set xs" "y \<notin> set zs" using Cons.prems(1,2) unfolding ys by auto
  ultimately have "set xs = set zs" using Cons.prems(3) unfolding ys by auto
  with Cons.IH [of zs] Cons.prems(1,2) \<open>x = y\<close> show ?case unfolding ys by simp
qed simp

lemma visible_sorted:
  assumes "sorted_wrt (\<lambda>v w. v_seq w < v_seq v) as"
    and "set as = {v \<in> points log. v_key v = u \<and> v_seq v \<le> s}"
    and "distinct (map v_seq (filter (\<lambda>v. \<not> is_range v \<and> v_key v = u \<and> v_seq v \<le> s) log))"
  shows "as = visible_versions s u log"
proof -
  let ?xs = "filter (\<lambda>v. \<not> is_range v \<and> v_key v = u \<and> v_seq v \<le> s) log"
  have "sorted (map v_seq (sort_key v_seq ?xs))" "distinct (map v_seq (sort_key v_seq ?xs))"
    using assms(3) by (simp_all add: distinct_map)
  then have "sorted_wrt (<) (map v_seq (sort_key v_seq ?xs))"
    by (simp add: strict_sorted_iff)
  then have "sorted_wrt (\<lambda>v w. v_seq w < v_seq v) (visible_versions s u log)"
    by (simp add: visible_versions_def sorted_wrt_rev sorted_wrt_map)
  moreover have "set as = set (visible_versions s u log)"
    using assms(2) by (auto simp: visible_versions_def points_def)
  ultimately show ?thesis using sorted_wrt_same assms(1) by blast
qed

text \<open>What a lookup hands back.\<close>

definition lookup_shows ::
  "merge_operator \<Rightarrow> bytes \<Rightarrow> bytes \<Rightarrow> lookup_outcome \<Rightarrow> bool \<Rightarrow> LookupArgs \<Rightarrow> bool" where
  "lookup_shows mo u x out found a \<longleftrightarrow>
     (case out of
        Absent \<Rightarrow> \<not> found \<and> la_status a = OK \<and> la_value a = Some x
      | Pending ops \<Rightarrow> \<not> found \<and> la_status a = MergeInProgress_sub kNone \<and> la_value a = Some x \<and>
          mc_operands (la_merge_context a) = ops
      | Decided base ops \<Rightarrow> found \<and> la_status a = fst (decided mo u base ops x) \<and>
          la_value a = Some (snd (decided mo u base ops x)))"

text \<open>Arguments of a lookup that starts: no error, no operands, nothing covered yet.\<close>

definition fresh_args :: "LookupArgs \<Rightarrow> bytes \<Rightarrow> bool" where
  "fresh_args a x \<longleftrightarrow> la_status a = OK \<and> la_value a = Some x \<and> mc_operands (la_merge_context a) = [] \<and>
     la_max_covering_tombstone_seq a = 0"

definition plain_log :: "version list \<Rightarrow> bool" where
  "plain_log log \<longleftrightarrow> (\<forall>v\<in>set log. \<not> is_range v \<longrightarrow> plain_type v)"

context memtable
begin

lemma Get_ranges:
  assumes "tables_hold mt log" "is_range_del_table_empty mt \<longleftrightarrow> ranges log = {}"
    and "ranges_forward (mt_comparator cfg) log" "\<not> ignore_range_deletions ro" "s \<le> kMaxSequenceNumber"
  shows "\<exists>r. NewRangeTombstoneIterator cfg ro s mt = Some r \<and>
    (case r of None \<Rightarrow> 0 | Some i \<Rightarrow> fst (MaxCoveringTombstoneSeqnum u i)) =
      covering_seq (mt_comparator cfg) s u log"
proof (cases "ranges log = {}")
  case True
  then show ?thesis using assms(2) by (simp add: NewRangeTombstoneIterator_def covering_seq_Max)
next
  case False
  let ?es = "sl_entries (skip_list (mt_range_del_table mt))"
  let ?kvs = "map (\<lambda>e. (prefixed_slice e, entry_value e)) ?es"
  have small: "\<forall>v\<in>ranges log. version_small v" using assms(1) by (simp add: tables_hold_def versions_ok_def)
  have "set ?kvs = (\<lambda>v. (prefixed_slice (encode_version v), entry_value (encode_version v))) ` ranges log"
    using assms(1) by (simp add: tables_hold_def image_image)
  also have "\<dots> = (\<lambda>v. (InternalKey (v_key v) (v_seq v) kTypeRangeDeletion, v_value v)) ` ranges log"
    using small version_slice entry_value_parts [OF version_parts]
    by (intro image_cong) (simp_all add: ranges_def is_range_def)
  finally have set: "set ?kvs = (\<lambda>v. (InternalKey (v_key v) (v_seq v) kTypeRangeDeletion, v_value v)) ` ranges log" .
  have forward: "\<forall>kv\<in>set ?kvs. Compare (mt_comparator cfg) (ExtractUserKey (fst kv)) (snd kv) \<le> 0"
    unfolding set using assms(3) by (auto simp: ranges_forward_def ranges_def)
  let ?i = "FragmentedRangeTombstoneIterator_new
    (FragmentedRangeTombstoneList_new (mt_comparator cfg) False [] (Some ?kvs)) (mt_comparator cfg) s 0"
  have "sl_ok entry_cmp is_entry (skip_list (mt_range_del_table mt))"
    using assms(1) by (simp add: tables_hold_def)
  then have "\<exists>m'. mi_SeekToFirst (range_ops cfg) (range_iterator cfg mt) = Some m' \<and>
      mi_drain (range_ops cfg) m' = Some ?kvs"
    unfolding range_ops_def mt_key_comparator_def
    by (rule mem.skiplist.drain_all)
      (simp add: range_iterator_def range_ops_def mt_key_comparator_def)
  then have "NewRangeTombstoneIterator cfg ro s mt = Some (Some ?i)"
    using False assms(2,4) by (auto simp: NewRangeTombstoneIterator_def)
  moreover have "fst (MaxCoveringTombstoneSeqnum u ?i) = newest_tombstone (mt_comparator cfg) s u ?kvs"
    by (rule MaxCovering_exact [OF forward])
  moreover have "{q. q \<le> s \<and> (\<exists>kv\<in>set ?kvs. tombstone_covers (mt_comparator cfg) u q kv)} =
      {q. q \<le> s \<and> (\<exists>v\<in>ranges log. Compare (mt_comparator cfg) (v_key v) u \<le> 0 \<and>
        Compare (mt_comparator cfg) u (v_value v) < 0 \<and> v_seq v = q)}"
    unfolding set using small by (auto simp: tombstone_covers_def version_small_def)
  ultimately show ?thesis by (simp add: newest_tombstone_Max covering_seq_Max)
qed

lemma visible_distinct:
  assumes "versions_ok (points log)" "distinct log"
  shows "distinct (map v_seq (filter (\<lambda>v. \<not> is_range v \<and> v_key v = u \<and> v_seq v \<le> s) log))"
  using assms unfolding distinct_map versions_ok_def
  by (auto intro!: inj_onI simp: points_def)

lemma table_Get:
  assumes "tables_hold mt log" "plain_log log" "length u + 8 < 2 ^ 32" "s \<le> kMaxSequenceNumber"
    and "plain_saver mo sv u x" "sv_user_comparator sv = mt_comparator cfg" "\<forall>l. \<not> ShouldMerge mo l"
    and "mc_operands (sv_merge_context sv) = []" "sv_status sv = st"
  shows "\<exists>t' r. rep_Get (mt_ops cfg) (LookupKey_new u s None) SaveValue (mt_table mt, sv) = Some (t', r) \<and>
    tables_hold (mt\<lparr>mt_table := t'\<rparr>) log \<and>
    saver_shows mo u x (resolve (sv_max_covering_tombstone_seq sv) [] (visible_versions s u log))
      (last_seq (sv_max_covering_tombstone_seq sv) (sv_seq sv) (visible_versions s u log)) st r"
proof -
  let ?lk = "LookupKey_new u s None"
  have good: "good (mt_table mt)" and es: "set (entries (mt_table mt)) = encode_version ` points log"
    and vs: "versions_ok (points log)" and dist: "distinct log"
    using assms(1) by (simp_all add: tables_hold_def)
  have "is_entry (memtable_key ?lk)" using assms(3) by (intro memtable_key_entry) simp
  then obtain t' where t': "rep_Get (mt_ops cfg) ?lk SaveValue (mt_table mt, sv) =
      Some (t', run_callback SaveValue sv (entries_from entry_cmp (memtable_key ?lk) (entries (mt_table mt))))"
      "good t'" "entries t' = entries (mt_table mt)"
    using rep.Get_runs [OF good] by blast
  obtain as bs where ab: "entries_from entry_cmp (memtable_key ?lk) (entries (mt_table mt)) =
        map encode_version (as @ bs)" "set as = {v \<in> points log. v_key v = u \<and> v_seq v \<le> s}"
      "sorted_wrt (\<lambda>v w. v_seq w < v_seq v) as" "set bs \<subseteq> points log" "\<forall>v\<in>set bs. v_key v \<noteq> u"
    using lookup_split [OF rep.entries_ordered [OF good] es vs assms(3,4)] by blast
  have as: "as = visible_versions s u log"
    by (rule visible_sorted [OF ab(3,2) visible_distinct [OF vs dist]])
  have "\<forall>v\<in>set as. version_small v \<and> plain_type v \<and> v_key v = u"
    using ab(2) vs assms(2) by (auto simp: versions_ok_def plain_log_def points_def)
  moreover have "\<forall>v\<in>set bs. version_small v \<and> v_key v \<noteq> u"
    using ab(4,5) vs by (auto simp: versions_ok_def)
  ultimately have "saver_shows mo u x
      (resolve (sv_max_covering_tombstone_seq sv) (mc_operands (sv_merge_context sv)) as)
      (last_seq (sv_max_covering_tombstone_seq sv) (sv_seq sv) as) st
      (run_callback SaveValue sv (map encode_version (as @ bs)))"
    using assms(5-7,9) by (intro run_shows) simp_all
  moreover have "tables_hold (mt\<lparr>mt_table := t'\<rparr>) log"
    using assms(1) t'(2,3) by (simp add: tables_hold_def)
  ultimately show ?thesis using t'(1) ab(1) assms(8) unfolding as by auto
qed

lemma visible_excluded:
  assumes "filter_ok cfg mt log" "\<not> mt_may_contain cfg u mt"
  shows "visible_versions s u log = []"
proof -
  have "v_key v \<noteq> u" if "v \<in> set log" for v
    using assms that no_timestamp
    by (auto simp: filter_ok_def bloom_has_def mt_may_contain_def StripTimestampFromUserKey_def
        split: option.splits if_splits)
  then have "filter (\<lambda>v. \<not> is_range v \<and> v_key v = u \<and> v_seq v \<le> s) log = []" by (auto simp: filter_empty_conv)
  then show ?thesis by (simp add: visible_versions_def)
qed

lemma search_refines:
  assumes "mt_rel mt log" "plain_log log" "length u + 8 < 2 ^ 32" "s \<le> kMaxSequenceNumber"
    and "la_status args = OK" "la_value args = Some x" "mc_operands (la_merge_context args) = []"
    and "mt_merge_operator cfg = Some mo" "\<forall>l. \<not> ShouldMerge mo l"
  defines "cover \<equiv> la_max_covering_tombstone_seq args"
  shows "\<exists>found args' mt'. mt_search cfg (LookupKey_new u s None) args None True mt = Some (found, args', mt') \<and>
    mt_rel mt' log \<and> lookup_shows mo u x (resolve cover [] (visible_versions s u log)) found args' \<and>
    la_seq args' = last_seq cover kMaxSequenceNumber (visible_versions s u log)"
proof (cases "mt_may_contain cfg u mt")
  case True
  let ?sv = "Saver_new cfg (LookupKey_new u s None) args None True"
  have plain: "plain_saver mo ?sv u x"
    using assms(5-8) by (simp add: plain_saver_def Saver_new_def lookup_user_key_new predicate_defs)
  have tables: "tables_hold mt log" using assms(1) by (simp add: mt_rel_tables)
  obtain t' r where r: "rep_Get (mt_ops cfg) (LookupKey_new u s None) SaveValue (mt_table mt, ?sv) = Some (t', r)"
      "tables_hold (mt\<lparr>mt_table := t'\<rparr>) log"
      "saver_shows mo u x (resolve cover [] (visible_versions s u log))
        (last_seq cover kMaxSequenceNumber (visible_versions s u log)) OK r"
    using table_Get [OF tables assms(2-4) plain _ assms(9)] assms(5,7)
    by (auto simp: Saver_new_def cover_def)
  have "mt_rel (mt\<lparr>mt_table := t'\<rparr>) log"
    using r(2) assms(1) by (simp add: mt_rel_tables filter_ok_def)
  with r(1,3) True show ?thesis
    by (auto simp: mt_search_def lookup_user_key_new saver_shows_def lookup_shows_def args_of_def Let_def
        split: lookup_outcome.splits)
next
  case False
  have "filter_ok cfg mt log" using assms(1) by (simp add: mt_rel_def)
  from visible_excluded [OF this False] have "visible_versions s u log = []" .
  with False assms(1,5,6) show ?thesis
    by (auto simp: mt_search_def lookup_user_key_new lookup_shows_def predicate_defs)
qed

lemma Get_refines:
  assumes "mt_rel mt log" "plain_log log" "ranges_forward (mt_comparator cfg) log"
    and "length u + 8 < 2 ^ 32" "s \<le> kMaxSequenceNumber"
    and "fresh_args args x" "mt_merge_operator cfg = Some mo" "\<forall>l. \<not> ShouldMerge mo l"
    and "\<not> ignore_range_deletions ro"
  defines "cover \<equiv> covering_seq (mt_comparator cfg) s u log"
  shows "\<exists>found args' mt'. mt_Get cfg (LookupKey_new u s None) args ro None True mt = Some (found, args', mt') \<and>
    mt_rel mt' log \<and> lookup_shows mo u x (resolve cover [] (visible_versions s u log)) found args' \<and>
    (log \<noteq> [] \<longrightarrow> la_seq args' = last_seq cover kMaxSequenceNumber (visible_versions s u log))"
proof (cases "log = []")
  case True
  then have "mt_IsEmpty mt" using assms(1) by (simp add: mt_rel_def mt_IsEmpty_def)
  with True assms(1,6) show ?thesis
    by (auto simp: mt_Get_def lookup_shows_def visible_versions_def fresh_args_def)
next
  case False
  then have ne: "\<not> mt_IsEmpty mt" using assms(1) by (simp add: mt_rel_def mt_IsEmpty_def)
  have "tables_hold mt log" "is_range_del_table_empty mt \<longleftrightarrow> ranges log = {}"
    using assms(1) by (simp_all add: mt_rel_tables)
  from Get_ranges [OF this assms(3,9,5), of u] obtain r where
    r: "NewRangeTombstoneIterator cfg ro s mt = Some r"
      "(case r of None \<Rightarrow> 0 | Some i \<Rightarrow> fst (MaxCoveringTombstoneSeqnum u i)) = cover"
    by (auto simp: cover_def)
  let ?args = "case r of None \<Rightarrow> args
    | Some i \<Rightarrow> args\<lparr>la_max_covering_tombstone_seq :=
        max (la_max_covering_tombstone_seq args) (fst (MaxCoveringTombstoneSeqnum u i))\<rparr>"
  have a: "la_status ?args = OK" "la_value ?args = Some x" "mc_operands (la_merge_context ?args) = []"
    "la_max_covering_tombstone_seq ?args = cover"
    using assms(6) r(2) by (simp_all add: fresh_args_def max_def split: option.splits)
  from search_refines [OF assms(1,2,4,5) a(1-3) assms(7,8)] ne r(1) False show ?thesis
    by (simp add: mt_Get_def internal_key_new lookup_user_key_new assms(5) a(4) Let_def cong: option.case_cong)
qed

end

end
