(* ===== verification/MemTableProps.thy ===== *)
theory MemTableProps
  imports MemTableSpec
begin

text \<open>
  The properties of the memtable, on the skip list it has by default: lookups against the list of
  updates, and the sequence numbers the memtable reports.
\<close>

section \<open>The default memtable\<close>

interpretation bytewise_memtable_order: memtable_order BytewiseComparator
  by unfold_locales (simp_all add: BytewiseComparator_def)

interpretation reverse_memtable_order: memtable_order ReverseBytewiseComparator
  by unfold_locales (simp_all add: ReverseBytewiseComparator_def BytewiseComparator_def)

definition skiplist_settings ::
  "comparator \<Rightarrow> slice_transform option \<Rightarrow> u32 \<Rightarrow> bool \<Rightarrow> nat \<Rightarrow> merge_operator option \<Rightarrow>
     (SkipListRep, sl_iter) MemTableSettings"
where
  "skiplist_settings cmp extractor bits whole_key successive mo =
     \<lparr>mt_comparator = cmp, mt_ops = SkipListRep_ops (MemTable_KeyComparator cmp),
      prefix_extractor = extractor, insert_with_hint_prefix_extractor = None,
      memtable_prefix_bloom_bits = bits, memtable_whole_key_filtering = whole_key,
      inplace_update_support = False, inplace_callback = None,
      max_successive_merges = successive, mt_merge_operator = mo\<rparr>"

lemma skiplist_settings_sel [simp]:
  "mt_comparator (skiplist_settings cmp ex bits wk n mo) = cmp"
  "mt_ops (skiplist_settings cmp ex bits wk n mo) = SkipListRep_ops (MemTable_KeyComparator cmp)"
  "prefix_extractor (skiplist_settings cmp ex bits wk n mo) = ex"
  "insert_with_hint_prefix_extractor (skiplist_settings cmp ex bits wk n mo) = None"
  "memtable_prefix_bloom_bits (skiplist_settings cmp ex bits wk n mo) = bits"
  "memtable_whole_key_filtering (skiplist_settings cmp ex bits wk n mo) = wk"
  "inplace_update_support (skiplist_settings cmp ex bits wk n mo) = False"
  "inplace_callback (skiplist_settings cmp ex bits wk n mo) = None"
  "max_successive_merges (skiplist_settings cmp ex bits wk n mo) = n"
  "mt_merge_operator (skiplist_settings cmp ex bits wk n mo) = mo"
  by (simp_all add: skiplist_settings_def)

abbreviation skiplist_good :: "comparator \<Rightarrow> SkipListRep \<Rightarrow> bool" where
  "skiplist_good cmp t \<equiv> sl_ok (MemTable_KeyComparator cmp) is_entry (skip_list t)"

abbreviation skiplist_entries :: "SkipListRep \<Rightarrow> bytes list" where
  "skiplist_entries t \<equiv> sl_entries (skip_list t)"

lemma skiplist_memtable:
  assumes "memtable_order cmp"
  shows "memtable (skiplist_settings cmp ex bits wk n mo) (skiplist_good cmp) skiplist_entries slr_cursor"
proof -
  have "user_key_order cmp"
    using assms by (simp add: memtable_order_def exact_key_order_def)
  then have "memtable_rep (MemTable_KeyComparator cmp) is_entry
      (SkipListRep_ops (MemTable_KeyComparator cmp) :: (SkipListRep, sl_iter, Saver) memrep)
      (skiplist_good cmp) skiplist_entries slr_cursor"
    by (rule user_key_order.skiplist_rep)
  then show ?thesis using assms by (simp add: memtable_def)
qed

interpretation bytewise_memtable: memtable "skiplist_settings BytewiseComparator ex bits wk n mo"
    "skiplist_good BytewiseComparator" skiplist_entries slr_cursor
  for ex bits wk n mo
  by (intro skiplist_memtable bytewise_memtable_order.memtable_order_axioms)

text \<open>A new memtable, and updates added one after another.\<close>

definition skiplist_memtable_new ::
  "(SkipListRep, sl_iter) MemTableSettings \<Rightarrow> readings \<Rightarrow> nat \<Rightarrow> u32 \<Rightarrow> nat \<Rightarrow> SequenceNumber \<Rightarrow>
     SkipListRep MemTable option"
where
  "skiplist_memtable_new cfg rd la seed buffer_size latest_seq =
     MemTable_new cfg rd (SkipListRep_new (prefix_extractor cfg) la seed) (seed + 1) buffer_size latest_seq"

primrec mt_add_all ::
  "('t, 'i) MemTableSettings \<Rightarrow> readings \<Rightarrow> version list \<Rightarrow> 't MemTable \<Rightarrow> 't MemTable option" where
  "mt_add_all cfg rd [] mt = Some mt"
| "mt_add_all cfg rd (v # vs) mt =
     (case mt_Add_sequential cfg rd (v_seq v) (v_type v) (v_key v) (v_value v) mt of
        Some (True, mt') \<Rightarrow> mt_add_all cfg rd vs mt'
      | _ \<Rightarrow> None)"

definition updates_ok :: "version list \<Rightarrow> bool" where
  "updates_ok vs \<longleftrightarrow> list_all version_small vs \<and> distinct (map (\<lambda>v. (is_range v, v_key v, v_seq v)) vs)"

context memtable
begin

lemma add_all:
  assumes "mt_rel mt log" "updates_ok (vs @ log)" "insert_with_hint_prefix_extractor cfg = None"
  shows "\<exists>mt'. mt_add_all cfg rd vs mt = Some mt' \<and> mt_rel mt' (rev vs @ log)"
  using assms
proof (induction vs arbitrary: mt log)
  case (Cons v vs)
  have "fresh v log"
    using Cons.prems(2) by (auto simp: updates_ok_def fresh_def)
  then obtain mt1 where "mt_Add_sequential cfg rd (v_seq v) (v_type v) (v_key v) (v_value v) mt = Some (True, mt1)"
      "mt_rel mt1 (v # log)"
    using Add_sequential [OF Cons.prems(1) _ Cons.prems(3), of v rd] by blast
  moreover have "updates_ok (vs @ v # log)"
    using Cons.prems(2) by (auto simp: updates_ok_def)
  ultimately show ?case using Cons.IH [of mt1 "v # log"] Cons.prems(3) by simp
qed simp

end

lemma skiplist_memtable_new_rel:
  assumes "memtable_order cmp" "unat bits + 255 < 2 ^ 32"
  shows "\<exists>mt. skiplist_memtable_new (skiplist_settings cmp ex bits wk n mo) rd la seed buf latest = Some mt \<and>
    memtable.mt_rel (skiplist_settings cmp ex bits wk n mo) (skiplist_good cmp) skiplist_entries mt []"
proof -
  let ?cfg = "skiplist_settings cmp ex bits wk n mo"
  note m = skiplist_memtable [OF assms(1), of ex bits wk n mo]
  have ok: "skiplist_good cmp (SkipListRep_new tr la sd)" "skiplist_entries (SkipListRep_new tr la sd) = []"
    for tr la sd using SkipListRep_new_ok by blast+
  show ?thesis
  proof (cases "(ex \<noteq> None \<or> wk) \<and> 0 < bits")
    case True
    then obtain b where "DynamicBloom_new bits 6 = Some b" "bloom_ok b"
      using DynamicBloom_new_ok assms(2) by blast
    with True ok show ?thesis
      by (simp add: skiplist_memtable_new_def MemTable_new_def memtable.mt_rel_def [OF m] points_def ranges_def
          filter_ok_def versions_ok_def Let_def UpdateFlushState_def)
  next
    case False
    with ok show ?thesis
      by (auto simp: skiplist_memtable_new_def MemTable_new_def memtable.mt_rel_def [OF m] points_def ranges_def
          filter_ok_def versions_ok_def Let_def UpdateFlushState_def)
  qed
qed

section \<open>Properties\<close>

text \<open>C26. Whatever values, merges, deletions, single deletions and range deletions are added to a new
  memtable over the default skip list, in any order of their numbers, with or without a filter: a
  lookup of a key at a sequence number always returns, and finds what the list of updates says. The
  newest update of the key up to that number decides; merges are collected down to the first value or
  deletion and applied to it, and everything at or below a covering range tombstone counts as deleted.
  The updates have distinct numbers between 1 and the greatest one and entries below 4 GB
  (\<open>updates_ok\<close>), there is no blob index among them (\<open>plain_log\<close>) and no range that ends before it
  begins (\<open>ranges_forward\<close>: with one the answer of the fragments can be wrong), the merge
  operator never asks for an early merge, and the reader does not ignore range deletions.\<close>

theorem memtable_get_refines:
  assumes "memtable_order cmp" "unat bits + 255 < 2 ^ 32" "updates_ok vs" "plain_log vs"
    and "ranges_forward cmp vs" "length u + 8 < 2 ^ 32" "s \<le> kMaxSequenceNumber" "fresh_args args x"
    and "\<forall>l. \<not> ShouldMerge mo l" "\<not> ignore_range_deletions ro"
    and "cfg = skiplist_settings cmp ex bits wk n (Some mo)"
  shows "\<exists>mt0 mt found args' mt'.
    skiplist_memtable_new cfg rd la seed buf latest = Some mt0 \<and> mt_add_all cfg rd vs mt0 = Some mt \<and>
    mt_Get cfg (LookupKey_new u s None) args ro None True mt = Some (found, args', mt') \<and>
    lookup_shows mo u x (resolve (covering_seq cmp s u (rev vs)) [] (visible_versions s u (rev vs))) found args'"
proof -
  note m = skiplist_memtable [OF assms(1), of ex bits wk n "Some mo", folded assms(11)]
  obtain mt0 where mt0: "skiplist_memtable_new cfg rd la seed buf latest = Some mt0"
      "memtable.mt_rel cfg (skiplist_good cmp) skiplist_entries mt0 []"
    using skiplist_memtable_new_rel [OF assms(1,2)] unfolding assms(11) by blast
  have "updates_ok (vs @ [])" "insert_with_hint_prefix_extractor cfg = None"
    using assms(3,11) by simp_all
  from memtable.add_all [OF m mt0(2) this] obtain mt where mt: "mt_add_all cfg rd vs mt0 = Some mt"
      "memtable.mt_rel cfg (skiplist_good cmp) skiplist_entries mt (rev vs)" by auto
  have "plain_log (rev vs)" "ranges_forward (mt_comparator cfg) (rev vs)" "mt_merge_operator cfg = Some mo"
    using assms(4,5,11) by (simp_all add: plain_log_def ranges_forward_def)
  from memtable.Get_refines [OF m mt(2) this(1,2) assms(6-8) this(3) assms(9,10)] mt0(1) mt(1) assms(11)
  show ?thesis by auto
qed

definition sample_updates :: "version list" where
  "sample_updates =
     [\<lparr>v_key = [1], v_seq = 1, v_type = kTypeValue, v_value = PutFixed64 [] 5\<rparr>,
      \<lparr>v_key = [1], v_seq = 2, v_type = kTypeMerge, v_value = PutFixed64 [] 7\<rparr>,
      \<lparr>v_key = [4], v_seq = 3, v_type = kTypeValue, v_value = [9]\<rparr>,
      \<lparr>v_key = [3], v_seq = 4, v_type = kTypeRangeDeletion, v_value = [5]\<rparr>]"

definition sample_args :: LookupArgs where
  "sample_args = \<lparr>la_value = Some [], la_status = OK, la_merge_context = MergeContext_new,
     la_max_covering_tombstone_seq = 0, la_seq = 0, la_is_blob_index = None\<rparr>"

lemma sample_ok:
  "updates_ok sample_updates" "plain_log sample_updates" "ranges_forward BytewiseComparator sample_updates"
  "fresh_args sample_args []"
  by (simp_all add: sample_updates_def updates_ok_def version_small_def is_range_def kMaxSequenceNumber_def
      PutFixed64_def plain_log_def plain_type_def ranges_forward_def BytewiseComparator_def fresh_args_def
      sample_args_def)

lemma sample_resolve:
  "resolve (covering_seq BytewiseComparator 10 [1] (rev sample_updates)) []
     (visible_versions 10 [1] (rev sample_updates)) = Decided (Some (PutFixed64 [] 5)) [PutFixed64 [] 7]"
  "resolve (covering_seq BytewiseComparator 10 [4] (rev sample_updates)) []
     (visible_versions 10 [4] (rev sample_updates)) = Decided None []"
  by ((simp_all add: sample_updates_def covering_seq_def visible_versions_def is_range_def
      BytewiseComparator_def max_def), (simp add: word_le_nat_alt)?)

lemma uint64_merged:
  "ops \<noteq> [] \<Longrightarrow> merged UInt64AddOperator key base ops x = (OK, PutFixed64 [] (uint64_sum base ops))"
  by (simp add: merged_def UInt64AddOperator_def AssociativeMergeOperator_def uint64_add_loop Let_def)

lemma uint64_ShouldMerge: "\<forall>l. \<not> ShouldMerge UInt64AddOperator l"
  by (simp add: UInt64AddOperator_def AssociativeMergeOperator_def Let_def)

lemma memtable_get_refines_witness:
  "\<exists>mt0 mt args' mt'.
    skiplist_memtable_new (skiplist_settings BytewiseComparator None 512 True 0 (Some UInt64AddOperator))
      \<lparr>should_flush_now = False, current_time = (OK, 100)\<rparr> 0 301 1000 0 = Some mt0 \<and>
    mt_add_all (skiplist_settings BytewiseComparator None 512 True 0 (Some UInt64AddOperator))
      \<lparr>should_flush_now = False, current_time = (OK, 100)\<rparr> sample_updates mt0 = Some mt \<and>
    mt_Get (skiplist_settings BytewiseComparator None 512 True 0 (Some UInt64AddOperator))
      (LookupKey_new [1] 10 None) sample_args ReadOptions_new None True mt = Some (True, args', mt') \<and>
    la_status args' = OK \<and> la_value args' = Some (PutFixed64 [] 12)"
proof -
  have "uint64_sum (Some (PutFixed64 [] 5)) [PutFixed64 [] 7] = 12" by (simp add: uint64_sum_def)
  then have dec: "decided UInt64AddOperator [1] (Some (PutFixed64 [] 5)) [PutFixed64 [] 7] [] = (OK, PutFixed64 [] 12)"
    by (simp add: decided_def uint64_merged)
  have "unat (512 :: u32) + 255 < 2 ^ 32" "length [1 :: byte] + 8 < 2 ^ 32" "10 \<le> kMaxSequenceNumber"
      "\<not> ignore_range_deletions ReadOptions_new"
    by (simp_all add: kMaxSequenceNumber_def ReadOptions_new_def)
  from memtable_get_refines [OF bytewise_memtable_order.memtable_order_axioms this(1) sample_ok(1-3) this(2,3)
      sample_ok(4) uint64_ShouldMerge this(4) refl, where rd = "\<lparr>should_flush_now = False, current_time = (OK, 100)\<rparr>"
      and ex = None and wk = True and n = 0 and la = 0 and seed = 301 and buf = 1000 and latest = 0]
  show ?thesis unfolding sample_resolve lookup_shows_def lookup_outcome.case dec by auto
qed

text \<open>C32. A lookup that meets merges reports the number of the oldest update it looked at, not of the
  newest: after a value at \<open>q\<close> and a merge at \<open>q'\<close> above it, the number handed back is \<open>q\<close>. The
  header promises the most recent number, on which the conflict check of transactions relies.\<close>

theorem merge_lookup_reports_old_seq:
  assumes "memtable_order cmp" "unat bits + 255 < 2 ^ 32" "length u + 18 + length v + length w < 2 ^ 32"
    and "0 < q" "q < q'" "q' \<le> s" "s \<le> kMaxSequenceNumber" "fresh_args args x"
    and "\<forall>l. \<not> ShouldMerge mo l" "\<not> ignore_range_deletions ro"
    and "cfg = skiplist_settings cmp ex bits wk n (Some mo)"
  shows "\<exists>mt0 mt args' mt'.
    skiplist_memtable_new cfg rd la seed buf latest = Some mt0 \<and>
    mt_add_all cfg rd
      [\<lparr>v_key = u, v_seq = q, v_type = kTypeValue, v_value = v\<rparr>,
       \<lparr>v_key = u, v_seq = q', v_type = kTypeMerge, v_value = w\<rparr>] mt0 = Some mt \<and>
    mt_Get cfg (LookupKey_new u s None) args ro None True mt = Some (True, args', mt') \<and> la_seq args' = q"
proof -
  let ?vs = "[\<lparr>v_key = u, v_seq = q, v_type = kTypeValue, v_value = v\<rparr>,
    \<lparr>v_key = u, v_seq = q', v_type = kTypeMerge, v_value = w\<rparr>]"
  note m = skiplist_memtable [OF assms(1), of ex bits wk n "Some mo", folded assms(11)]
  obtain mt0 where mt0: "skiplist_memtable_new cfg rd la seed buf latest = Some mt0"
      "memtable.mt_rel cfg (skiplist_good cmp) skiplist_entries mt0 []"
    using skiplist_memtable_new_rel [OF assms(1,2)] unfolding assms(11) by blast
  have qs: "q \<noteq> q'" "q' \<le> kMaxSequenceNumber" "q \<le> kMaxSequenceNumber" "0 < q'" "q \<le> s"
    using assms(4-7) by auto
  have "updates_ok (?vs @ [])" "insert_with_hint_prefix_extractor cfg = None"
    using assms(3,4,11) qs by (simp_all add: updates_ok_def version_small_def)
  from memtable.add_all [OF m mt0(2) this] obtain mt where mt: "mt_add_all cfg rd ?vs mt0 = Some mt"
      "memtable.mt_rel cfg (skiplist_good cmp) skiplist_entries mt (rev ?vs)" by auto
  have "visible_versions s u (rev ?vs) = rev ?vs" "covering_seq cmp s u (rev ?vs) = 0"
    using assms(5,6) qs by (simp_all add: visible_versions_def covering_seq_def is_range_def)
  moreover have "plain_log (rev ?vs)" "ranges_forward (mt_comparator cfg) (rev ?vs)" "length u + 8 < 2 ^ 32"
      "mt_merge_operator cfg = Some mo"
    using assms(3,11) by (simp_all add: plain_log_def ranges_forward_def plain_type_def is_range_def)
  note memtable.Get_refines [OF m mt(2) this(1-3) assms(7,8) this(4) assms(9,10)]
  ultimately show ?thesis using mt0(1) mt(1) assms(11) by (auto simp: lookup_shows_def)
qed

lemma merge_lookup_reports_old_seq_witness:
  "\<exists>mt0 mt args' mt'.
    skiplist_memtable_new (skiplist_settings BytewiseComparator None 512 True 0 (Some UInt64AddOperator))
      \<lparr>should_flush_now = False, current_time = (OK, 100)\<rparr> 0 301 1000 0 = Some mt0 \<and>
    mt_add_all (skiplist_settings BytewiseComparator None 512 True 0 (Some UInt64AddOperator))
      \<lparr>should_flush_now = False, current_time = (OK, 100)\<rparr>
      [\<lparr>v_key = [1], v_seq = 3, v_type = kTypeValue, v_value = PutFixed64 [] 5\<rparr>,
       \<lparr>v_key = [1], v_seq = 8, v_type = kTypeMerge, v_value = PutFixed64 [] 7\<rparr>] mt0 = Some mt \<and>
    mt_Get (skiplist_settings BytewiseComparator None 512 True 0 (Some UInt64AddOperator))
      (LookupKey_new [1] 10 None) sample_args ReadOptions_new None True mt = Some (True, args', mt') \<and>
    la_seq args' = 3"
proof -
  have "unat (512 :: u32) + 255 < 2 ^ 32" "length [1 :: byte] + 18 + length (PutFixed64 [] 5) + length (PutFixed64 [] 7) < 2 ^ 32"
      "0 < (3 :: u64)" "(3 :: u64) < 8" "(8 :: u64) \<le> 10" "(10 :: u64) \<le> kMaxSequenceNumber"
      "\<not> ignore_range_deletions ReadOptions_new"
    by (simp_all add: kMaxSequenceNumber_def ReadOptions_new_def PutFixed64_def)
  from merge_lookup_reports_old_seq [OF bytewise_memtable_order.memtable_order_axioms this(1-6) sample_ok(4)
      uint64_ShouldMerge this(7) refl, where rd = "\<lparr>should_flush_now = False, current_time = (OK, 100)\<rparr>"
      and ex = None and wk = True and n = 0 and la = 0 and seed = 301 and buf = 1000 and latest = 0]
  show ?thesis .
qed

end
