(* ===== verification/InserterSpec.thy ===== *)
theory InserterSpec
  imports BatchMachine MemTableInserter MemTableProps
begin

text \<open>
  What applying batches to memtables means: the updates of the batches, numbered consecutively, are
  added to the lists of updates that the memtables stand for.

  The locale \<open>simulated_handler\<close> is the contract of a handler whose states stand for states of a
  specification; \<open>memtable_family\<close> is what the inserter relies on in a memtable.
\<close>

section \<open>Handlers that are simulated\<close>

lemma op_turn_counter:
  "ok (fst (op_turn hdl op e f h)) \<Longrightarrow>
   fst (snd (snd (op_turn hdl op e f h))) = (if counts op then f + 1 else f)"
proof (cases op)
  case (OpBegin kind)
  then show ?thesis by (cases kind) (simp_all add: op_turn.simps Let_def)
qed (auto simp: op_turn.simps split: prod.splits if_splits)

locale simulated_handler =
  fixes hdl :: "'h handler" and rel :: "'h \<Rightarrow> 'a \<Rightarrow> bool"
    and step :: "batch_op \<Rightarrow> 'a \<Rightarrow> 'a" and dom :: "batch_op \<Rightarrow> 'a \<Rightarrow> bool"
  assumes goes_on: "rel h a \<Longrightarrow> Continue hdl h = (True, h)"
    and takes: "rel h a \<Longrightarrow> dom op a \<Longrightarrow> ok (fst (op_turn hdl op e f h))"
    and steps: "rel h a \<Longrightarrow> dom op a \<Longrightarrow> rel (snd (snd (snd (op_turn hdl op e f h)))) (step op a)"
begin

text \<open>Every operation is in the domain when its turn comes.\<close>

primrec all_dom :: "batch_op list \<Rightarrow> 'a \<Rightarrow> bool" where
  "all_dom [] a \<longleftrightarrow> True"
| "all_dom (op # ops) a \<longleftrightarrow> dom op a \<and> all_dom ops (step op a)"

lemma run_ops_simulated:
  assumes "rel h a" "all_dom ops a" "ok s"
  shows "\<exists>s' h'. ok s' \<and> run_ops hdl s ops e f h = (Inr (s', True, f + count_ops ops), h') \<and>
    rel h' (fold step ops a)"
  using assms
proof (induction ops arbitrary: s e f h a)
  case Nil
  then show ?case by (auto simp: count_ops_def)
next
  case (Cons op ops)
  obtain s2 e2 f2 h2 where t: "op_turn hdl op e f h = (s2, e2, f2, h2)" by (metis prod_cases4)
  have "ok s2" "f2 = (if counts op then f + 1 else f)" "rel h2 (step op a)"
    using Cons.prems takes [of h a op e f] steps [of h a op e f] op_turn_counter [of hdl op e f h]
    by (simp_all add: t)
  moreover from this have "run_ops hdl s (op # ops) e f h = run_ops hdl s2 ops e2 f2 h2"
    using goes_on [OF Cons.prems(1)] by (simp add: t)
  ultimately show ?case
    using Cons.IH [of h2 "step op a" s2 e2 f2] Cons.prems(2) by (auto simp: count_ops_def)
qed

lemma Iterate_simulated:
  assumes "holds b sq ops" "rel h a" "all_dom ops a"
  shows "\<exists>h'. wb_Iterate b hdl h = (OK, h') \<and> rel h' (fold step ops a)"
  using run_ops_simulated [OF assms(2,3) ok_OK, of True 0]
  by (auto simp: Iterate_holds [OF assms(1)] finish_ops_def)

end

section \<open>The memtable of a column family\<close>

locale memtable_family =
  fixes cfg :: "('t, 'i) MemTableSettings" and mrel :: "'t MemTable \<Rightarrow> version list \<Rightarrow> bool"
  assumes adds: "mrel mt log \<Longrightarrow> fresh v log \<Longrightarrow>
      \<exists>mt'. mt_Add_sequential cfg rd (v_seq v) (v_type v) (v_key v) (v_value v) mt = Some (True, mt') \<and>
        mrel mt' (v # log)"
    and flush_marked: "mrel mt log \<Longrightarrow> mrel (mt\<lparr>flush_state := fs\<rparr>) log"
    and log_referenced: "mrel mt log \<Longrightarrow> mrel (mt\<lparr>min_prep_log_referenced := n\<rparr>) log"
    and not_in_place: "\<not> inplace_update_support cfg"
begin

lemma MarkFlushScheduled_rel: "mrel mt log \<Longrightarrow> mrel (snd (MarkFlushScheduled mt)) log"
  by (simp add: MarkFlushScheduled_def flush_marked)

lemma RefLog_rel: "mrel mt log \<Longrightarrow> mrel (RefLogContainingPrepSection n mt) log"
  by (simp add: RefLogContainingPrepSection_def log_referenced Let_def)

end

context memtable
begin

lemma mt_rel_frame:
  "mt_rel (mt\<lparr>flush_state := fs\<rparr>) log \<longleftrightarrow> mt_rel mt log"
  "mt_rel (mt\<lparr>min_prep_log_referenced := n\<rparr>) log \<longleftrightarrow> mt_rel mt log"
  by (simp_all add: mt_rel_def filter_ok_def)

lemma family:
  assumes "insert_with_hint_prefix_extractor cfg = None" "\<not> inplace_update_support cfg"
  shows "memtable_family cfg mt_rel"
  by unfold_locales (use assms Add_sequential mt_rel_frame in auto)

end

text \<open>The memtables over the default skip list.\<close>

definition skiplist_rel :: "(SkipListRep, sl_iter) MemTableSettings \<Rightarrow> SkipListRep MemTable \<Rightarrow> version list \<Rightarrow> bool" where
  "skiplist_rel cfg = memtable.mt_rel cfg (skiplist_good (mt_comparator cfg)) skiplist_entries"

lemma skiplist_family:
  assumes "memtable_order cmp"
  shows "memtable_family (skiplist_settings cmp ex bits wk n mo) (skiplist_rel (skiplist_settings cmp ex bits wk n mo))"
  using memtable.family [OF skiplist_memtable [OF assms]] by (simp add: skiplist_rel_def)

interpretation bytewise_family: memtable_family "skiplist_settings BytewiseComparator ex bits wk n mo"
    "skiplist_rel (skiplist_settings BytewiseComparator ex bits wk n mo)" for ex bits wk n mo
  by (intro skiplist_family bytewise_memtable_order.memtable_order_axioms)

section \<open>Batches add their updates\<close>

text \<open>The family, type, key and value of an operation that becomes an entry.\<close>

fun op_update :: "batch_op \<Rightarrow> (u32 \<times> ValueType \<times> bytes \<times> bytes) option" where
  "op_update (OpPut cf k v) = Some (cf, kTypeValue, k, v)"
| "op_update (OpDelete cf k) = Some (cf, kTypeDeletion, k, [])"
| "op_update (OpSingleDelete cf k) = Some (cf, kTypeSingleDeletion, k, [])"
| "op_update (OpDeleteRange cf k v) = Some (cf, kTypeRangeDeletion, k, v)"
| "op_update (OpMerge cf k v) = Some (cf, kTypeMerge, k, v)"
| "op_update (OpBlobIndex cf k v) = Some (cf, kTypeBlobIndex, k, v)"
| "op_update _ = None"

type_synonym logs = "SequenceNumber \<times> (u32 \<Rightarrow> version list)"

definition insert_step :: "batch_op \<Rightarrow> logs \<Rightarrow> logs" where
  "insert_step op a =
     (case op_update op of
        None \<Rightarrow> a
      | Some (cf, ty, k, v) \<Rightarrow>
          (fst a + 1, (snd a)(cf := \<lparr>v_key = k, v_seq = fst a, v_type = ty, v_value = v\<rparr> # snd a cf)))"

definition families_hold ::
  "(u32 \<rightharpoonup> ('t, 'i) MemTableSettings) \<Rightarrow> (u32 \<Rightarrow> 't MemTable \<Rightarrow> version list \<Rightarrow> bool) \<Rightarrow> u64 \<Rightarrow>
     ('t, 'i) families \<Rightarrow> (u32 \<Rightarrow> version list) \<Rightarrow> bool"
where
  "families_hold cfgs mrel recovering fams logs \<longleftrightarrow>
     (\<forall>cf. case fams cf of
        None \<Rightarrow> cfgs cf = None
      | Some d \<Rightarrow> cfgs cf = Some (cfd_settings d) \<and> mrel cf (cfd_mem d) (logs cf) \<and>
          is_delete_range_supported d \<and> (recovering \<noteq> 0 \<longrightarrow> cfd_log_number d \<le> recovering))"

text \<open>The settings of an inserter that writes committed updates, one number for each.\<close>

definition committed_mode ::
  "(u32 \<rightharpoonup> ('t, 'i) MemTableSettings) \<Rightarrow> bool \<Rightarrow> u64 \<Rightarrow> DBImpl option \<Rightarrow> ('t, 'i) MemTableInserter \<Rightarrow> bool" where
  "committed_mode cfgs ignore recovering db st \<longleftrightarrow>
     write_after_commit st \<and> \<not> seq_per_batch st \<and> \<not> write_before_prepare st \<and>
     recovering_log_number st = recovering \<and> rebuilding_trx st = None \<and> \<not> concurrent_memtable_writes st \<and>
     ins_ignore_missing st = ignore \<and> ins_db st = db \<and>
     (\<forall>cf cfg. cfgs cf = Some cfg \<longrightarrow> max_successive_merges cfg = 0 \<or> db = None \<or> recovering \<noteq> 0)"

definition numbers_below :: "SequenceNumber \<Rightarrow> (u32 \<Rightarrow> version list) \<Rightarrow> bool" where
  "numbers_below sq logs \<longleftrightarrow> (\<forall>cf. \<forall>v\<in>set (logs cf). v_seq v < sq)"

definition insertable :: "(u32 \<rightharpoonup> ('t, 'i) MemTableSettings) \<Rightarrow> bool \<Rightarrow> u64 \<Rightarrow> batch_op \<Rightarrow> logs \<Rightarrow> bool" where
  "insertable cfgs ignore recovering op a \<longleftrightarrow>
     (case op_update op of
        None \<Rightarrow> not_prepared op \<and> (recovering \<noteq> 0 \<longrightarrow> op = OpNoop \<or> (\<exists>b. op = OpLogData b))
      | Some (cf, ty, k, v) \<Rightarrow>
          (cfgs cf \<noteq> None \<or> ignore) \<and> version_small \<lparr>v_key = k, v_seq = fst a, v_type = ty, v_value = v\<rparr>)"

lemma committed_mode_frame [simp]:
  "committed_mode cfgs ignore recovering db (st\<lparr>ins_sequence := x1\<rparr>) = committed_mode cfgs ignore recovering db st"
  "committed_mode cfgs ignore recovering db (st\<lparr>ins_families := x2\<rparr>) = committed_mode cfgs ignore recovering db st"
  "committed_mode cfgs ignore recovering db (st\<lparr>ins_current := x3\<rparr>) = committed_mode cfgs ignore recovering db st"
  "committed_mode cfgs ignore recovering db (st\<lparr>flush_scheduler := x4\<rparr>) = committed_mode cfgs ignore recovering db st"
  "committed_mode cfgs ignore recovering db (st\<lparr>trim_history_scheduler := x4\<rparr>) = committed_mode cfgs ignore recovering db st"
  "committed_mode cfgs ignore recovering db (st\<lparr>ins_hints := x5\<rparr>) = committed_mode cfgs ignore recovering db st"
  "committed_mode cfgs ignore recovering db (st\<lparr>ins_reads := x6\<rparr>) = committed_mode cfgs ignore recovering db st"
  "committed_mode cfgs ignore recovering db (st\<lparr>has_valid_writes := x7\<rparr>) = committed_mode cfgs ignore recovering db st"
  "committed_mode cfgs ignore recovering db (st\<lparr>log_number_ref := x8\<rparr>) = committed_mode cfgs ignore recovering db st"
  by (simp_all add: committed_mode_def)

lemma rebuild_none [simp]: "rebuilding_trx st = None \<Longrightarrow> rebuild_unless_again writes s st = st"
  by (simp add: rebuild_unless_again_def rebuild_def)

lemma families_hold_update:
  assumes "families_hold cfgs mrel recovering fams logs" "fams cf = Some d" "mrel cf (cfd_mem d') (log' cf)"
    and "cfd_settings d' = cfd_settings d" "is_delete_range_supported d' = is_delete_range_supported d"
    and "cfd_log_number d' = cfd_log_number d" "\<And>g. g \<noteq> cf \<Longrightarrow> log' g = logs g"
  shows "families_hold cfgs mrel recovering (fams(cf \<mapsto> d')) log'"
  unfolding families_hold_def
proof (intro allI)
  fix g
  show "case (fams(cf \<mapsto> d')) g of None \<Rightarrow> cfgs g = None
    | Some d \<Rightarrow> cfgs g = Some (cfd_settings d) \<and> mrel g (cfd_mem d) (log' g) \<and>
        is_delete_range_supported d \<and> (recovering \<noteq> 0 \<longrightarrow> cfd_log_number d \<le> recovering)"
    using assms(1)[unfolded families_hold_def, rule_format, of g] assms(2-7)
    by (cases "g = cf") (auto split: option.splits)
qed

locale inserting =
  fixes cfgs :: "u32 \<rightharpoonup> ('t, 'i) MemTableSettings"
    and mrel :: "u32 \<Rightarrow> 't MemTable \<Rightarrow> version list \<Rightarrow> bool"
    and ignore :: bool and recovering :: u64 and db :: "DBImpl option" and en :: "('t, 'i) engine"
  assumes family: "cfgs cf = Some cfg \<Longrightarrow> memtable_family cfg (mrel cf)"
begin

abbreviation hold where "hold \<equiv> families_hold cfgs mrel recovering"
abbreviation mode where "mode \<equiv> committed_mode cfgs ignore recovering db"

definition inserted :: "('t, 'i) MemTableInserter \<Rightarrow> logs \<Rightarrow> bool" where
  "inserted st a \<longleftrightarrow> mode st \<and> hold (ins_families st) (snd a) \<and> ins_sequence st = fst a \<and>
     numbers_below (fst a) (snd a)"

lemma hold_family:
  assumes "hold fams logs" "fams cf = Some d"
  shows "cfgs cf = Some (cfd_settings d) \<and> mrel cf (cfd_mem d) (logs cf) \<and> is_delete_range_supported d \<and>
     (recovering \<noteq> 0 \<longrightarrow> cfd_log_number d \<le> recovering) \<and> memtable_family (cfd_settings d) (mrel cf)"
proof -
  have "cfgs cf = Some (cfd_settings d) \<and> mrel cf (cfd_mem d) (logs cf) \<and> is_delete_range_supported d \<and>
     (recovering \<noteq> 0 \<longrightarrow> cfd_log_number d \<le> recovering)"
    using assms(1)[unfolded families_hold_def, rule_format, of cf] assms(2) by simp
  with family [of cf "cfd_settings d"] show ?thesis by simp
qed

lemma hold_missing: "hold fams logs \<Longrightarrow> fams cf = None \<longleftrightarrow> cfgs cf = None"
  using families_hold_def [of cfgs mrel recovering fams logs] by (auto split: option.splits dest: spec [of _ cf])

lemma Seek_present:
  assumes "mode st" "hold (ins_families st) logs" "cfgs cf \<noteq> None"
  shows "\<exists>st1. SeekToColumnFamily cf st = ((True, OK), st1) \<and> mode st1 \<and> hold (ins_families st1) logs \<and>
    ins_sequence st1 = ins_sequence st \<and> ins_current st1 = Some cf"
proof -
  obtain d where d: "ins_families st cf = Some d" using assms(2,3) hold_missing by fastforce
  note f = hold_family [OF assms(2) d]
  have rec: "recovering_log_number st = recovering" using assms(1) by (simp add: committed_mode_def)
  have mem: "mrel cf (RefLogContainingPrepSection n (cfd_mem d)) (logs cf)" for n
    using f memtable_family.RefLog_rel by blast
  have "hold ((ins_families st)(cf \<mapsto> d\<lparr>cfd_mem := RefLogContainingPrepSection n (cfd_mem d)\<rparr>)) logs" for n
    using families_hold_update [OF assms(2) d, of "d\<lparr>cfd_mem := RefLogContainingPrepSection n (cfd_mem d)\<rparr>" logs] mem
    by simp
  note ref = this
  have rec_ok: "\<not> (recovering_log_number st \<noteq> 0 \<and> recovering_log_number st < cfd_log_number d)"
    using f rec by auto
  let ?st = "st\<lparr>ins_current := Some cf, has_valid_writes := map_option (\<lambda>_. True) (has_valid_writes st)\<rparr>"
  have "SeekToColumnFamily cf st = ((True, OK),
      if log_number_ref st > 0
      then set_mem cf d (RefLogContainingPrepSection (log_number_ref st) (cfd_mem d)) ?st else ?st)"
    using d rec_ok by (simp add: SeekToColumnFamily_def families_Seek_def Let_def)
  then show ?thesis
    using assms(1,2) ref by (auto simp: set_mem_def set_family_def)
qed

lemma Seek_missing:
  assumes "mode st" "hold (ins_families st) logs" "cfgs cf = None"
  shows "\<exists>s st1. SeekToColumnFamily cf st = ((False, s), st1) \<and> mode st1 \<and> (ignore \<longrightarrow> ok s) \<and>
    ins_families st1 = ins_families st \<and> ins_sequence st1 = ins_sequence st"
  using assms hold_missing [OF assms(2)]
  by (auto simp: SeekToColumnFamily_def families_Seek_def committed_mode_def)

text \<open>In the middle of an operation: the entries are there, the number may not have moved.\<close>

definition within :: "('t, 'i) MemTableInserter \<Rightarrow> SequenceNumber \<Rightarrow> (u32 \<Rightarrow> version list) \<Rightarrow> bool" where
  "within st sq logs \<longleftrightarrow> mode st \<and> hold (ins_families st) logs \<and> ins_sequence st = sq"

lemma current_present:
  assumes "within st sq logs" "ins_current st = Some cf" "cfgs cf \<noteq> None"
  obtains d where "current_family st = Some (cf, d)" "ins_families st cf = Some d"
  using assms hold_missing by (fastforce simp: current_family_def within_def)

lemma ins_Add_adds:
  assumes "within st sq logs" "ins_current st = Some cf" "cfgs cf \<noteq> None"
    and "fresh \<lparr>v_key = k, v_seq = sq, v_type = ty, v_value = v\<rparr> (logs cf)"
  shows "\<exists>st'. ins_Add en ty k v hinted st = Some (True, st') \<and> ins_current st' = Some cf \<and>
    within st' sq (logs(cf := \<lparr>v_key = k, v_seq = sq, v_type = ty, v_value = v\<rparr> # logs cf))"
proof -
  obtain d where cur: "current_family st = Some (cf, d)" and d: "ins_families st cf = Some d"
    using current_present [OF assms(1-3)] .
  have h: "hold (ins_families st) logs" and m: "mode st" and sq: "ins_sequence st = sq"
    using assms(1) by (simp_all add: within_def)
  note f = hold_family [OF h d]
  then have "\<exists>mt'. mt_Add_sequential (cfd_settings d) rd sq ty k v (cfd_mem d) = Some (True, mt') \<and>
      mrel cf mt' (\<lparr>v_key = k, v_seq = sq, v_type = ty, v_value = v\<rparr> # logs cf)" for rd
    using memtable_family.adds [of "cfd_settings d" "mrel cf" "cfd_mem d" "logs cf"
        "\<lparr>v_key = k, v_seq = sq, v_type = ty, v_value = v\<rparr>" rd] assms(4) by simp
  then obtain mt' where mt':
      "mt_Add_sequential (cfd_settings d) (en_readings en (ins_reads st)) sq ty k v (cfd_mem d) = Some (True, mt')"
      "mrel cf mt' (\<lparr>v_key = k, v_seq = sq, v_type = ty, v_value = v\<rparr> # logs cf)"
    by blast
  have hold': "hold ((ins_families st)(cf \<mapsto> d\<lparr>cfd_mem := mt'\<rparr>))
      (logs(cf := \<lparr>v_key = k, v_seq = sq, v_type = ty, v_value = v\<rparr> # logs cf))"
    by (rule families_hold_update [OF h d]) (use mt'(2) in simp_all)
  have "\<not> concurrent_memtable_writes st" using m by (simp add: committed_mode_def)
  with cur mt'(1) sq m hold' assms(2) show ?thesis
    by (auto simp: ins_Add_def next_readings_def set_mem_def set_family_def within_def Let_def)
qed

lemma within_advance:
  "within st sq logs \<Longrightarrow> within (MaybeAdvanceSeq False st) (sq + 1) logs"
  "within st sq logs \<Longrightarrow> within (MaybeAdvanceSeq True st) sq logs"
  by (simp_all add: within_def MaybeAdvanceSeq_def committed_mode_def)

lemma advance_current [simp]: "ins_current (MaybeAdvanceSeq b st) = ins_current st"
  by (simp add: MaybeAdvanceSeq_def)

lemma within_set_family:
  assumes "within st sq logs" "ins_families st cf = Some d" "mrel cf (cfd_mem d') (logs cf)"
    and "cfd_settings d' = cfd_settings d" "is_delete_range_supported d' = is_delete_range_supported d"
    and "cfd_log_number d' = cfd_log_number d"
  shows "within (set_family cf d' st) sq logs"
proof -
  have "hold ((ins_families st)(cf \<mapsto> d')) logs"
    by (rule families_hold_update [where fams = "ins_families st" and d = d and logs = logs])
      (use assms in \<open>simp_all add: within_def\<close>)
  then show ?thesis using assms(1) by (simp add: within_def set_family_def)
qed

lemma within_frame [simp]:
  "within (st\<lparr>flush_scheduler := x1\<rparr>) sq logs = within st sq logs"
  "within (st\<lparr>trim_history_scheduler := x2\<rparr>) sq logs = within st sq logs"
  by (simp_all add: within_def)

lemma within_CheckMemtableFull:
  assumes "within st sq logs"
  shows "within (CheckMemtableFull en st) sq logs"
proof (cases "current_family st")
  case (Some cd)
  obtain cf d0 where cd: "cd = (cf, d0)" by (rule prod.exhaust)
  have d0: "ins_families st cf = Some d0"
    using Some cd by (auto simp: current_family_def split: option.splits)
  have f0: "mrel cf (cfd_mem d0) (logs cf)" "memtable_family (cfd_settings d0) (mrel cf)"
    using hold_family [of "ins_families st" logs cf d0] d0 assms by (auto simp: within_def)
  then have marked: "mrel cf (snd (MarkFlushScheduled (cfd_mem d0))) (logs cf)"
    using memtable_family.MarkFlushScheduled_rel by blast
  define st1 where "st1 = (case flush_scheduler st of
                        None \<Rightarrow> st
                      | Some q \<Rightarrow>
                          (if ShouldScheduleFlush (cfd_mem d0)
                           then (let (marked, m) = MarkFlushScheduled (cfd_mem d0)
                                 in if marked
                                    then set_family cf (d0\<lparr>cfd_mem := m, cfd_refs := cfd_refs d0 + 1\<rparr>)
                                           (st\<lparr>flush_scheduler := Some (cf # q)\<rparr>)
                                    else set_mem cf d0 m st)
                           else st))"
  have w1: "within st1 sq logs"
    using assms d0 marked
    by (auto simp: st1_def set_mem_def split: option.split prod.split intro!: within_set_family)
  show ?thesis
  proof (cases "ins_families st1 cf")
    case None
    then have False
      using w1 assms d0 hold_missing [of "ins_families st1" logs cf] hold_missing [of "ins_families st" logs cf]
      by (simp add: within_def)
    then show ?thesis ..
  next
    case (Some d)
    have "mrel cf (cfd_mem d) (logs cf)"
      using hold_family [of "ins_families st1" logs cf d] Some w1 by (auto simp: within_def)
    then show ?thesis
      using w1 Some \<open>current_family st = Some cd\<close> cd
      by (auto simp: CheckMemtableFull_def st1_def [symmetric] Let_def split: option.split intro!: within_set_family)
  qed
qed (simp add: CheckMemtableFull_def assms)

lemma withinD:
  assumes "within st sq logs"
  shows "mode st" "hold (ins_families st) logs" "ins_sequence st = sq" "rebuilding_trx st = None"
  using assms by (simp_all add: within_def committed_mode_def)

lemma with_family_present:
  assumes "within st sq logs" "cfgs cf \<noteq> None"
    and "\<And>st1. within st1 sq logs \<Longrightarrow> ins_current st1 = Some cf \<Longrightarrow>
      \<exists>st'. body st1 = Some (OK, st') \<and> within st' sq' logs'"
  shows "\<exists>st'. with_family writes cf key body st = Some (OK, st') \<and> within st' sq' logs'"
proof -
  obtain st1 where st1: "SeekToColumnFamily cf st = ((True, OK), st1)" "within st1 sq logs" "ins_current st1 = Some cf"
    using Seek_present [OF withinD(1,2) [OF assms(1)] assms(2)] withinD(3) [OF assms(1)]
    by (auto simp: within_def)
  have "with_family writes cf key body st = body st1"
    using st1(1) withinD(4) [OF assms(1)] by (simp add: with_family_def)
  with assms(3) [OF st1(2,3)] show ?thesis by simp
qed

lemma with_family_missing:
  assumes "within st sq logs" "cfgs cf = None" "ignore"
  shows "\<exists>s st'. with_family writes cf key body st = Some (s, st') \<and> ok s \<and> within st' (sq + 1) (logs(cf := x))"
proof -
  obtain s st1 where st1: "SeekToColumnFamily cf st = ((False, s), st1)" "mode st1" "ok s"
      "ins_families st1 = ins_families st" "ins_sequence st1 = ins_sequence st"
    using Seek_missing [OF withinD(1,2) [OF assms(1)] assms(2)] assms(3) by blast
  then have w: "within st1 sq logs" using withinD [OF assms(1)] by (simp add: within_def)
  have "hold fams (logs(cf := x)) = hold fams logs" for fams
    using assms(2) unfolding families_hold_def by (intro iff_allI) (auto split: option.splits)
  with within_advance(1) [OF w] have "within (MaybeAdvanceSeq False st1) (sq + 1) (logs(cf := x))"
    by (simp add: within_def)
  moreover have "with_family writes cf key body st = Some (s, MaybeAdvanceSeq False st1)"
    using st1(1) withinD(4) [OF assms(1)] withinD(4) [OF w] by (simp add: with_family_def)
  ultimately show ?thesis using st1(3) by blast
qed

lemma finish_update:
  "within st sq logs \<Longrightarrow> within (CheckMemtableFull en (MaybeAdvanceSeq False (rebuild_unless_again writes s st))) (sq + 1) logs"
  using withinD(4) by (intro within_CheckMemtableFull within_advance(1)) simp

text \<open>The five ways an update gets to the memtable.\<close>

lemma put_body:
  assumes "within st sq logs" "ins_current st = Some cf" "cfgs cf \<noteq> None"
    and "fresh \<lparr>v_key = k, v_seq = sq, v_type = ty, v_value = v\<rparr> (logs cf)"
  shows "\<exists>st'. put_in_memtable en ty k v st = Some (OK, st') \<and>
    within st' sq (logs(cf := \<lparr>v_key = k, v_seq = sq, v_type = ty, v_value = v\<rparr> # logs cf))"
proof -
  obtain d where d: "current_family st = Some (cf, d)" "ins_families st cf = Some d"
    using current_present [OF assms(1-3)] .
  then have "\<not> inplace_update_support (cfd_settings d)"
    using hold_family [of "ins_families st" logs cf d] assms(1) memtable_family.not_in_place
    by (auto simp: within_def)
  with ins_Add_adds [OF assms, of True] d show ?thesis
    by (auto simp: put_in_memtable_def again_unless_def)
qed

lemma delete_body:
  assumes "within st sq logs" "ins_current st = Some cf" "cfgs cf \<noteq> None"
    and "fresh \<lparr>v_key = k, v_seq = sq, v_type = ty, v_value = v\<rparr> (logs cf)"
  shows "\<exists>st'. then_rebuild writes (DeleteImpl en k v ty st) = Some (OK, st') \<and>
    within st' (sq + 1) (logs(cf := \<lparr>v_key = k, v_seq = sq, v_type = ty, v_value = v\<rparr> # logs cf))"
proof -
  obtain st1 where "ins_Add en ty k v True st = Some (True, st1)"
      and w: "within st1 sq (logs(cf := \<lparr>v_key = k, v_seq = sq, v_type = ty, v_value = v\<rparr> # logs cf))"
    using ins_Add_adds [OF assms, of True] by blast
  then have "then_rebuild writes (DeleteImpl en k v ty st) = Some (OK, rebuild_unless_again writes OK
      (CheckMemtableFull en (MaybeAdvanceSeq False st1)))"
    by (simp add: then_rebuild_def DeleteImpl_def again_unless_def)
  moreover have "within (CheckMemtableFull en (MaybeAdvanceSeq False st1)) (sq + 1)
      (logs(cf := \<lparr>v_key = k, v_seq = sq, v_type = ty, v_value = v\<rparr> # logs cf))"
    by (intro within_CheckMemtableFull within_advance(1) w)
  ultimately show ?thesis using withinD(4) by fastforce
qed

lemma range_body:
  assumes "within st sq logs" "ins_current st = Some cf" "cfgs cf \<noteq> None"
  shows "(case current_family st of
      None \<Rightarrow> None
    | Some (_, d) \<Rightarrow>
        if ins_db st \<noteq> None \<and> \<not> is_delete_range_supported d then Some (unsupported d, st) else r) = r"
proof -
  obtain d where d: "current_family st = Some (cf, d)" "ins_families st cf = Some d"
    using current_present [OF assms] .
  then show ?thesis
    using hold_family [of "ins_families st" logs cf d] assms(1) by (auto simp: within_def)
qed

lemma merge_body:
  assumes "within st sq logs" "ins_current st = Some cf" "cfgs cf \<noteq> None"
    and "fresh \<lparr>v_key = k, v_seq = sq, v_type = kTypeMerge, v_value = v\<rparr> (logs cf)"
  shows "\<exists>st'. merge_in_memtable en k v st = Some (OK, st') \<and>
    within st' sq (logs(cf := \<lparr>v_key = k, v_seq = sq, v_type = kTypeMerge, v_value = v\<rparr> # logs cf))"
proof -
  obtain d where d: "current_family st = Some (cf, d)" "ins_families st cf = Some d"
    using current_present [OF assms(1-3)] .
  have m: "mode st" and c: "cfgs cf = Some (cfd_settings d)"
    using hold_family [of "ins_families st" logs cf d] d assms(1) by (auto simp: within_def)
  then have "\<not> (max_successive_merges (cfd_settings d) > 0 \<and> ins_db st \<noteq> None \<and> recovering_log_number st = 0)"
    using m by (auto simp: committed_mode_def)
  then have "too_many_merges k st = Some False" using d by (auto simp: too_many_merges_def)
  with ins_Add_adds [OF assms, of False] show ?thesis
    by (auto simp: merge_in_memtable_def again_unless_def)
qed

text \<open>One operation that becomes an entry, as a method of the handler.\<close>

definition method_of ::
  "(bytes \<Rightarrow> ('t, 'i) MemTableInserter \<Rightarrow> (Status \<times> ('t, 'i) MemTableInserter) option) \<Rightarrow> batch_op \<Rightarrow>
     ('t, 'i) MemTableInserter \<Rightarrow> (Status \<times> ('t, 'i) MemTableInserter) option"
where
  "method_of commit_method op =
     (case op of
        OpPut cf k v \<Rightarrow> PutCFImpl en cf k v kTypeValue
      | OpDelete cf k \<Rightarrow> ins_DeleteCF en cf k
      | OpSingleDelete cf k \<Rightarrow> ins_SingleDeleteCF en cf k
      | OpDeleteRange cf k v \<Rightarrow> ins_DeleteRangeCF en cf k v
      | OpMerge cf k v \<Rightarrow> ins_MergeCF en cf k v
      | OpBlobIndex cf k v \<Rightarrow> PutCFImpl en cf k v kTypeBlobIndex
      | OpLogData b \<Rightarrow> (\<lambda>st. Some (OK, st))
      | OpBegin kind \<Rightarrow> ins_MarkBeginPrepare (kind = WriteUnprepared)
      | OpEndPrepare x \<Rightarrow> ins_MarkEndPrepare x
      | OpCommit x \<Rightarrow> commit_method x
      | OpRollback x \<Rightarrow> ins_MarkRollback x
      | OpNoop \<Rightarrow> (\<lambda>st. Some (OK, st)))"

lemma update_within:
  assumes "within st sq logs" "op_update op = Some (cf, ty, k, v)" "cfgs cf \<noteq> None"
    and "fresh \<lparr>v_key = k, v_seq = sq, v_type = ty, v_value = v\<rparr> (logs cf)"
  shows "\<exists>st'. method_of cm op st = Some (OK, st') \<and>
    within st' (sq + 1) (logs(cf := \<lparr>v_key = k, v_seq = sq, v_type = ty, v_value = v\<rparr> # logs cf))"
proof -
  let ?logs = "logs(cf := \<lparr>v_key = k, v_seq = sq, v_type = ty, v_value = v\<rparr> # logs cf)"
  have put: "\<exists>st'. map_option (\<lambda>(ret_status, st2). (ret_status,
        CheckMemtableFull en (MaybeAdvanceSeq False (rebuild_unless_again writes ret_status st2))))
      (put_in_memtable en ty k v st1) = Some (OK, st') \<and> within st' (sq + 1) ?logs"
    if "within st1 sq logs" "ins_current st1 = Some cf" for st1 writes
    using put_body [OF that assms(3,4)] finish_update by fastforce
  have mrg: "\<exists>st'. map_option (\<lambda>(ret_status, st2). (ret_status,
        CheckMemtableFull en (MaybeAdvanceSeq False (rebuild_unless_again writes ret_status st2))))
      (merge_in_memtable en k v st1) = Some (OK, st') \<and> within st' (sq + 1) ?logs"
    if "ty = kTypeMerge" "within st1 sq logs" "ins_current st1 = Some cf" for st1 writes
    using merge_body [OF that(2,3) assms(3), of k v] assms(4) that(1) finish_update by fastforce
  have del: "\<exists>st'. then_rebuild writes (DeleteImpl en k v ty st1) = Some (OK, st') \<and> within st' (sq + 1) ?logs"
    if "within st1 sq logs" "ins_current st1 = Some cf" for st1 writes
    using delete_body [OF that assms(3,4)] .
  show ?thesis
  proof (cases op)
    case (OpPut cf' k' v')
    with assms(2) show ?thesis
      using with_family_present [OF assms(1,3) put] by (simp add: method_of_def PutCFImpl_def)
  next
    case (OpBlobIndex cf' k' v')
    with assms(2) show ?thesis
      using with_family_present [OF assms(1,3) put] by (simp add: method_of_def PutCFImpl_def)
  next
    case (OpDelete cf' k')
    with assms(2) show ?thesis
      using with_family_present [OF assms(1,3) del] by (simp add: method_of_def ins_DeleteCF_def Let_def)
  next
    case (OpSingleDelete cf' k')
    with assms(2) show ?thesis
      using with_family_present [OF assms(1,3) del] by (simp add: method_of_def ins_SingleDeleteCF_def Let_def)
  next
    case (OpDeleteRange cf' k' v')
    have op: "op = OpDeleteRange cf k v" "ty = kTypeRangeDeletion" using assms(2) OpDeleteRange by simp_all
    show ?thesis
      unfolding op(1) method_of_def ins_DeleteRangeCF_def Let_def batch_op.case
      by (rule with_family_present [OF assms(1,3)])
        (use del op(2) in \<open>simp add: range_body [OF _ _ assms(3)]\<close>)
  next
    case (OpMerge cf' k' v')
    with assms(2) show ?thesis
      using with_family_present [OF assms(1,3) mrg] by (simp add: method_of_def ins_MergeCF_def Let_def)
  qed (use assms(2) in simp_all)
qed

lemma update_missing:
  assumes "within st sq logs" "op_update op = Some (cf, ty, k, v)" "cfgs cf = None" "ignore"
  shows "\<exists>s st'. method_of cm op st = Some (s, st') \<and> ok s \<and> within st' (sq + 1) (logs(cf := x))"
  using assms(2) with_family_missing [OF assms(1,3,4), where x = x]
  by (cases op) (simp_all add: method_of_def PutCFImpl_def ins_DeleteCF_def ins_SingleDeleteCF_def
      ins_DeleteRangeCF_def ins_MergeCF_def Let_def)

lemma inserted_within: "inserted st a \<longleftrightarrow> within st (fst a) (snd a) \<and> numbers_below (fst a) (snd a)"
  by (auto simp: inserted_def within_def)

lemma below_step:
  assumes "numbers_below sq logs" "sq \<le> kMaxSequenceNumber"
  shows "numbers_below (sq + 1) (logs(cf := \<lparr>v_key = k, v_seq = sq, v_type = ty, v_value = v\<rparr> # logs cf))"
proof -
  have "unat sq + unat (1 :: u64) < 2 ^ 64"
    using assms(2) by (simp add: kMaxSequenceNumber_def word_le_nat_alt)
  then have "sq < sq + 1" using unat_add_lem [of sq 1] by (simp add: word_less_nat_alt)
  then show ?thesis using assms(1) by (auto simp: numbers_below_def intro: less_trans)
qed

lemma method_inserted:
  assumes "inserted st a" "insertable cfgs ignore recovering op a"
    and "recovering \<noteq> 0 \<or> cm = ins_MarkCommit iterate"
  shows "\<exists>s st'. method_of cm op st = Some (s, st') \<and> ok s \<and> inserted st' (insert_step op a)"
proof (cases "op_update op")
  case (Some u)
  obtain cf ty k v where u: "u = (cf, ty, k, v)" by (metis prod_cases4)
  let ?v = "\<lparr>v_key = k, v_seq = fst a, v_type = ty, v_value = v\<rparr>"
  have small: "version_small ?v" and there: "cfgs cf \<noteq> None \<or> ignore"
    using assms(2) Some u by (simp_all add: insertable_def)
  have w: "within st (fst a) (snd a)" and below: "numbers_below (fst a) (snd a)"
    using assms(1) by (simp_all add: inserted_within)
  have "fresh ?v (snd a cf)"
    using small below by (fastforce simp: fresh_def numbers_below_def)
  then have "\<exists>s st'. method_of cm op st = Some (s, st') \<and> ok s \<and>
      within st' (fst a + 1) ((snd a)(cf := ?v # snd a cf))"
    using update_within [OF w, of op cf ty k v cm] update_missing [OF w, of op cf ty k v cm] there Some u
    by (cases "cfgs cf") auto
  moreover have "numbers_below (fst a + 1) ((snd a)(cf := ?v # snd a cf))"
    using below small by (intro below_step) (simp_all add: version_small_def)
  ultimately show ?thesis using Some u by (auto simp: inserted_within insert_step_def)
next
  case None
  then have "insert_step op a = a" by (simp add: insert_step_def)
  moreover have "\<exists>st'. method_of cm op st = Some (OK, st') \<and> inserted st' a"
  proof (cases "recovering = 0")
    case True
    have "recovering_log_number st = recovering" "MaybeAdvanceSeq True st = st"
      using assms(1) by (simp_all add: inserted_def committed_mode_def MaybeAdvanceSeq_def)
    then show ?thesis
      using None assms True
      by (cases op) (auto simp: method_of_def ins_MarkBeginPrepare_def ins_MarkEndPrepare_def
          ins_MarkCommit_def ins_MarkRollback_def)
  next
    case False
    then show ?thesis using None assms(1,2) by (cases op) (auto simp: insertable_def method_of_def)
  qed
  ultimately show ?thesis by auto
qed

lemma method_turn:
  assumes "method_of cm op st = Some (s, st')" "ok s" "inserted st' a'" "op_update op = None \<longrightarrow> not_prepared op"
  shows "ok (fst (op_turn (inserter_methods en cm) op e f (Some st))) \<and>
    snd (snd (snd (op_turn (inserter_methods en cm) op e f (Some st)))) = Some st'"
proof (cases op)
  case (OpBegin kind)
  then have "kind = WriteCommitted" using assms(4) by (cases kind) (simp_all add: not_prepared_def)
  moreover have "write_after_commit st'" "\<not> write_before_prepare st'"
    using assms(3) by (simp_all add: inserted_def committed_mode_def)
  ultimately show ?thesis
    using assms(1) OpBegin
    by (simp add: op_turn.simps inserter_methods_def lift_method_def method_of_def begin_prepare_status_def)
next
  case OpNoop
  have "MaybeAdvanceSeq True st' = st'"
    using assms(3) by (simp add: inserted_def committed_mode_def MaybeAdvanceSeq_def)
  then show ?thesis
    using assms(1) OpNoop
    by (simp add: op_turn.simps inserter_methods_def lift_method_def method_of_def ins_MarkNoop_def)
qed (use assms(1,2) in \<open>simp_all add: op_turn.simps inserter_methods_def lift_method_def method_of_def\<close>)

definition stands_for :: "('t, 'i) MemTableInserter option \<Rightarrow> logs \<Rightarrow> bool" where
  "stands_for h a \<longleftrightarrow> (\<exists>st. h = Some st \<and> inserted st a)"

lemma methods_simulated:
  assumes "recovering \<noteq> 0 \<or> cm = ins_MarkCommit iterate"
  shows "simulated_handler (inserter_methods en cm) stands_for insert_step (insertable cfgs ignore recovering)"
proof
  show "Continue (inserter_methods en cm) h = (True, h)" for h
    by (simp add: inserter_methods_def)
next
  fix h a op e f
  assume "stands_for h a" and dom: "insertable cfgs ignore recovering op a"
  then obtain st where st: "h = Some st" "inserted st a" by (auto simp: stands_for_def)
  obtain s st' where "method_of cm op st = Some (s, st')" "ok s" "inserted st' (insert_step op a)"
    using method_inserted [OF st(2) dom assms] by blast
  moreover have "op_update op = None \<longrightarrow> not_prepared op"
    using dom by (auto simp: insertable_def)
  ultimately have "ok (fst (op_turn (inserter_methods en cm) op e f h)) \<and>
      stands_for (snd (snd (snd (op_turn (inserter_methods en cm) op e f h)))) (insert_step op a)"
    using method_turn [of cm op st s st' "insert_step op a" e f] st(1) by (auto simp: stands_for_def)
  then show "ok (fst (op_turn (inserter_methods en cm) op e f h))"
    and "stands_for (snd (snd (snd (op_turn (inserter_methods en cm) op e f h)))) (insert_step op a)"
    by simp_all
qed

end

sublocale inserting \<subseteq> inserts: simulated_handler "inserter_handler en" stands_for insert_step
    "insertable cfgs ignore recovering"
  unfolding inserter_handler_def by (rule methods_simulated [OF disjI2 [OF refl]])

text \<open>The updates of one family, oldest first.\<close>

fun updates_of :: "u32 \<Rightarrow> SequenceNumber \<Rightarrow> batch_op list \<Rightarrow> version list" where
  "updates_of cf sq [] = []"
| "updates_of cf sq (op # ops) =
     (case op_update op of
        None \<Rightarrow> updates_of cf sq ops
      | Some (g, ty, k, v) \<Rightarrow>
          (if g = cf then [\<lparr>v_key = k, v_seq = sq, v_type = ty, v_value = v\<rparr>] else []) @ updates_of cf (sq + 1) ops)"

lemma counts_update: "counts op \<longleftrightarrow> op_update op \<noteq> None"
  by (cases op) simp_all

lemma count_Cons: "count_ops (op # ops) = (if counts op then 1 + count_ops ops else count_ops ops)"
  by (simp add: count_ops_def)

definition update_count :: "batch_op list \<Rightarrow> nat" where
  "update_count ops = length (filter counts ops)"

lemma fold_insert_step:
  "fold insert_step ops (sq, logs) =
    (sq + of_nat (update_count ops), \<lambda>cf. rev (updates_of cf sq ops) @ logs cf)"
proof (induction ops arbitrary: sq logs)
  case (Cons op ops)
  show ?case
  proof (cases "op_update op")
    case None
    with Cons show ?thesis by (simp add: insert_step_def update_count_def counts_update)
  next
    case (Some u)
    with Cons show ?thesis
      by (cases u) (auto simp: insert_step_def update_count_def counts_update ac_simps)
  qed
qed (simp add: update_count_def)

text \<open>What a batch must satisfy before it is applied: its strings are of the sizes entries can have.\<close>

definition op_fits :: "(u32 \<rightharpoonup> ('t, 'i) MemTableSettings) \<Rightarrow> bool \<Rightarrow> u64 \<Rightarrow> batch_op \<Rightarrow> bool" where
  "op_fits cfgs ignore recovering op \<longleftrightarrow>
     (case op_update op of
        None \<Rightarrow> not_prepared op \<and> (recovering \<noteq> 0 \<longrightarrow> op = OpNoop \<or> (\<exists>b. op = OpLogData b))
      | Some (cf, ty, k, v) \<Rightarrow> (cfgs cf \<noteq> None \<or> ignore) \<and> length k + length v + 18 < 2 ^ 32)"

definition numbers_fit :: "SequenceNumber \<Rightarrow> nat \<Rightarrow> bool" where
  "numbers_fit sq n \<longleftrightarrow> 0 < sq \<and> unat sq + n \<le> 2 ^ 56"

lemma numbers_fit_Suc:
  assumes "numbers_fit sq (Suc n)"
  shows "sq \<le> kMaxSequenceNumber" "numbers_fit (sq + 1) n"
proof -
  have "unat sq + Suc n \<le> 2 ^ 56" using assms by (simp add: numbers_fit_def)
  then show "sq \<le> kMaxSequenceNumber" by (simp add: kMaxSequenceNumber_def word_le_nat_alt)
  have "unat (sq + 1) = unat sq + 1"
    using \<open>unat sq + Suc n \<le> 2 ^ 56\<close> unat_add_lem [of sq 1] by simp
  with assms show "numbers_fit (sq + 1) n"
    by (simp add: numbers_fit_def word_less_nat_alt)
qed

context inserting
begin

lemma all_insertable:
  assumes "list_all (op_fits cfgs ignore recovering) ops" "numbers_fit sq (update_count ops)"
  shows "inserts.all_dom ops (sq, logs)"
  using assms
proof (induction ops arbitrary: sq logs)
  case (Cons op ops)
  show ?case
  proof (cases "op_update op")
    case None
    then have "insert_step op (sq, logs) = (sq, logs)" "insertable cfgs ignore recovering op (sq, logs)"
      using Cons.prems(1) by (auto simp: insertable_def op_fits_def insert_step_def)
    with Cons None show ?thesis by (simp add: update_count_def counts_update)
  next
    case (Some u)
    obtain cf ty k v where u: "u = (cf, ty, k, v)" by (metis prod_cases4)
    have "numbers_fit sq (Suc (update_count ops))"
      using Cons.prems(2) Some by (simp add: update_count_def counts_update)
    note n = numbers_fit_Suc [OF this] and this
    moreover have "0 < sq" using Cons.prems(2) by (simp add: numbers_fit_def)
    ultimately have "insertable cfgs ignore recovering op (sq, logs)"
      using Cons.prems(1) Some u by (auto simp: insertable_def op_fits_def version_small_def)
    moreover have "fst (insert_step op (sq, logs)) = sq + 1" using Some u by (simp add: insert_step_def)
    ultimately show ?thesis
      using Cons.IH [of "sq + 1" "snd (insert_step op (sq, logs))"] Cons.prems(1) n(2)
      by (cases "insert_step op (sq, logs)") simp
  qed
qed simp

lemma Iterate_inserts:
  assumes "holds b q ops" "inserted st (sq, logs)" "list_all (op_fits cfgs ignore recovering) ops"
    and "numbers_fit sq (update_count ops)"
  shows "\<exists>st'. iterate_with (inserter_handler en) b st = Some (OK, st') \<and>
    inserted st' (sq + of_nat (update_count ops), \<lambda>cf. rev (updates_of cf sq ops) @ logs cf)"
  using inserts.Iterate_simulated [OF assms(1) _ all_insertable [OF assms(3,4)], of "Some st" logs] assms(2)
  by (auto simp: stands_for_def iterate_with_def fold_insert_step)

end

end
