(* ===== verification/InserterProps.thy ===== *)
theory InserterProps
  imports InserterSpec
begin

text \<open>
  The properties of applying batches: a group of writers against the list of its updates, up to the
  lookups of the memtables that hold them, and what recovery makes of prepared transactions.
\<close>

section \<open>A group of writers\<close>

definition writes :: "Writer \<Rightarrow> bool" where
  "writes w \<longleftrightarrow> \<not> w_CallbackFailed w \<and> w_ShouldWriteToMemtable w"

text \<open>The operations that reach the memtables, and the writers as the group leaves them.\<close>

fun group_ops :: "Writer list \<Rightarrow> batch_op list list \<Rightarrow> batch_op list" where
  "group_ops (w # ws) (ops # opss) = (if writes w then ops else []) @ group_ops ws opss"
| "group_ops _ _ = []"

fun group_numbered :: "SequenceNumber \<Rightarrow> Writer list \<Rightarrow> batch_op list list \<Rightarrow> Writer list" where
  "group_numbered sq (w # ws) (ops # opss) =
     (if w_CallbackFailed w then w # group_numbered sq ws opss
      else if \<not> w_ShouldWriteToMemtable w then w\<lparr>w_sequence := sq\<rparr> # group_numbered sq ws opss
      else w\<lparr>w_sequence := sq, w_batch := wb_SetSequence (w_batch w) sq, w_status := OK\<rparr> #
             group_numbered (sq + of_nat (update_count ops)) ws opss)"
| "group_numbered sq _ _ = []"

lemma updates_of_append:
  "updates_of cf sq (xs @ ys) = updates_of cf sq xs @ updates_of cf (sq + of_nat (update_count xs)) ys"
proof (induction xs arbitrary: sq)
  case (Cons op xs)
  show ?case
  proof (cases "op_update op")
    case None
    with Cons show ?thesis by (simp add: update_count_def counts_update)
  next
    case (Some u)
    with Cons show ?thesis by (cases u) (simp add: update_count_def counts_update ac_simps)
  qed
qed (simp add: update_count_def)

lemma update_count_append [simp]: "update_count (xs @ ys) = update_count xs + update_count ys"
  by (simp add: update_count_def)

lemma numbers_fit_add:
  assumes "numbers_fit sq (m + n)"
  shows "numbers_fit sq m" "numbers_fit (sq + of_nat m) n"
proof -
  show "numbers_fit sq m" using assms by (simp add: numbers_fit_def)
  have le: "unat sq + m + n \<le> 2 ^ 56" and pos: "0 < unat sq"
    using assms by (simp_all add: numbers_fit_def word_less_nat_alt)
  then have "unat (of_nat m :: u64) = m" by (simp add: unat_of_nat mod_less)
  moreover have "unat (sq + of_nat m) = unat sq + m"
    using le \<open>unat (of_nat m :: u64) = m\<close> unat_add_lem [of sq "of_nat m"] by simp
  ultimately show "numbers_fit (sq + of_nat m) n"
    using le pos by (simp add: numbers_fit_def word_less_nat_alt)
qed

definition batches_hold :: "Writer list \<Rightarrow> batch_op list list \<Rightarrow> bool" where
  "batches_hold = list_all2 (\<lambda>w ops. \<exists>q. holds (w_batch w) q ops)"

context inserting
begin

lemma inserted_frame [simp]:
  "inserted (st\<lparr>log_number_ref := n\<rparr>) a = inserted st a"
  by (simp add: inserted_def)

lemma insert_group_inserts:
  assumes "batches_hold ws opss" "inserted st (sq, logs)"
    and "list_all (op_fits cfgs ignore recovering) (group_ops ws opss)"
    and "numbers_fit sq (update_count (group_ops ws opss))"
  shows "\<exists>st'. insert_group en ws st = Some (OK, group_numbered sq ws opss, st') \<and>
    inserted st' (sq + of_nat (update_count (group_ops ws opss)),
      \<lambda>cf. rev (updates_of cf sq (group_ops ws opss)) @ logs cf)"
  using assms
proof (induction ws arbitrary: opss st sq logs)
  case Nil
  then show ?case by (simp add: batches_hold_def update_count_def)
next
  case (Cons w ws)
  obtain ops opss' where o: "opss = ops # opss'" and tl: "batches_hold ws opss'"
    and b: "\<exists>q. holds (w_batch w) q ops"
    using Cons.prems(1) by (cases opss) (auto simp: batches_hold_def)
  have sq: "ins_sequence st = sq" using Cons.prems(2) by (simp add: inserted_def)
  consider "w_CallbackFailed w" | "\<not> w_CallbackFailed w" "\<not> w_ShouldWriteToMemtable w" | "writes w"
    by (auto simp: writes_def)
  then show ?case
  proof cases
    case 1
    with Cons.IH [OF tl Cons.prems(2)] Cons.prems(3,4) o show ?thesis by (auto simp: writes_def)
  next
    case 2
    have "MaybeAdvanceSeq True st = st"
      using Cons.prems(2) by (simp add: inserted_def committed_mode_def MaybeAdvanceSeq_def)
    with 2 Cons.IH [OF tl Cons.prems(2)] Cons.prems(3,4) o sq show ?thesis
      by (auto simp: writes_def)
  next
    case 3
    let ?b = "wb_SetSequence (w_batch w) sq" and ?n = "update_count ops"
    have fit: "numbers_fit sq (?n + update_count (group_ops ws opss'))"
      using Cons.prems(4) o 3 by simp
    have "holds ?b sq ops" using b holds_SetSequence by blast
    then obtain st1 where st1: "iterate_with (inserter_handler en) ?b (st\<lparr>log_number_ref := w_log_ref w\<rparr>) = Some (OK, st1)"
        "inserted st1 (sq + of_nat ?n, \<lambda>cf. rev (updates_of cf sq ops) @ logs cf)"
      using Iterate_inserts [of ?b sq ops "st\<lparr>log_number_ref := w_log_ref w\<rparr>" sq logs] Cons.prems(2,3) o 3
        numbers_fit_add(1) [OF fit] by auto
    obtain st2 where "insert_group en ws st1 = Some (OK, group_numbered (sq + of_nat ?n) ws opss', st2)"
        "inserted st2 (sq + of_nat ?n + of_nat (update_count (group_ops ws opss')),
          \<lambda>cf. rev (updates_of cf (sq + of_nat ?n) (group_ops ws opss')) @ rev (updates_of cf sq ops) @ logs cf)"
      using Cons.IH [OF tl st1(2) _ numbers_fit_add(2) [OF fit]] Cons.prems(3) o 3 by auto
    with st1(1) 3 o sq show ?thesis
      by (auto simp: writes_def updates_of_append ac_simps Let_def)
  qed
qed

end

section \<open>Column families over the default skip list\<close>

definition skiplist_based :: "(SkipListRep, sl_iter) MemTableSettings \<Rightarrow> bool" where
  "skiplist_based cfg \<longleftrightarrow>
     (\<exists>cmp ex bits wk mo. memtable_order cmp \<and> cfg = skiplist_settings cmp ex bits wk 0 (Some mo))"

abbreviation settings_of :: "('t, 'i) families \<Rightarrow> u32 \<rightharpoonup> ('t, 'i) MemTableSettings" where
  "settings_of fams \<equiv> (\<lambda>cf. map_option cfd_settings (fams cf))"

definition family_rel :: "(SkipListRep, sl_iter) families \<Rightarrow> u32 \<Rightarrow> SkipListRep MemTable \<Rightarrow> version list \<Rightarrow> bool" where
  "family_rel fams cf = skiplist_rel (cfd_settings (the (fams cf)))"

lemma skiplist_inserting:
  assumes "\<And>cf d. fams cf = Some d \<Longrightarrow> skiplist_based (cfd_settings d)"
  shows "inserting (settings_of fams) (family_rel fams)"
proof (rule inserting.intro)
  fix cf cfg
  assume "map_option cfd_settings (fams cf) = Some cfg"
  then obtain d where d: "fams cf = Some d" "cfg = cfd_settings d" by auto
  then obtain cmp ex bits wk mo where "memtable_order cmp" "cfg = skiplist_settings cmp ex bits wk 0 (Some mo)"
    using assms [OF d(1)] by (auto simp: skiplist_based_def)
  then show "memtable_family cfg (family_rel fams cf)"
    using skiplist_family [of cmp ex bits wk 0 "Some mo"] d by (simp add: family_rel_def)
qed

interpretation default_inserting: inserting
    "settings_of [0 \<mapsto> \<lparr>cfd_name = str ''default'', cfd_log_number = 0,
       cfd_settings = skiplist_settings BytewiseComparator ex bits wk 0 (Some mo), cfd_mem = mt, cfd_refs = 1,
       is_delete_range_supported = True, table_factory_name = [], max_write_buffer_size_to_maintain = 0,
       imm_trim_needed = False\<rparr>]"
    "family_rel [0 \<mapsto> \<lparr>cfd_name = str ''default'', cfd_log_number = 0,
       cfd_settings = skiplist_settings BytewiseComparator ex bits wk 0 (Some mo), cfd_mem = mt, cfd_refs = 1,
       is_delete_range_supported = True, table_factory_name = [], max_write_buffer_size_to_maintain = 0,
       imm_trim_needed = False\<rparr>]"
    ignore recovering db en
  for ex bits wk mo mt ignore recovering db en
proof (rule skiplist_inserting)
  fix cf d
  assume "[0 \<mapsto> \<lparr>cfd_name = str ''default'', cfd_log_number = 0,
      cfd_settings = skiplist_settings BytewiseComparator ex bits wk 0 (Some mo), cfd_mem = mt, cfd_refs = 1,
      is_delete_range_supported = True, table_factory_name = [], max_write_buffer_size_to_maintain = 0,
      imm_trim_needed = False\<rparr>] cf = Some d"
  then have "cfd_settings d = skiplist_settings BytewiseComparator ex bits wk 0 (Some mo)"
    by (auto split: if_splits)
  then show "skiplist_based (cfd_settings d)"
    unfolding skiplist_based_def using bytewise_memtable_order.memtable_order_axioms by blast
qed

text \<open>Families whose memtables are new.\<close>

definition new_family :: "(SkipListRep, sl_iter) ColumnFamilyData \<Rightarrow> bool" where
  "new_family d \<longleftrightarrow> skiplist_based (cfd_settings d) \<and> is_delete_range_supported d \<and>
     unat (memtable_prefix_bloom_bits (cfd_settings d)) + 255 < 2 ^ 32 \<and>
     (\<exists>rd la seed buf latest. skiplist_memtable_new (cfd_settings d) rd la seed buf latest = Some (cfd_mem d))"

lemma new_family_rel:
  assumes "new_family d" "fams cf = Some d"
  shows "family_rel fams cf (cfd_mem d) []"
proof -
  obtain cmp ex bits wk mo where c: "memtable_order cmp" "cfd_settings d = skiplist_settings cmp ex bits wk 0 (Some mo)"
    using assms(1) by (auto simp: new_family_def skiplist_based_def)
  obtain rd la seed buf latest where n: "skiplist_memtable_new (cfd_settings d) rd la seed buf latest = Some (cfd_mem d)"
    using assms(1) by (auto simp: new_family_def)
  have "unat bits + 255 < 2 ^ 32" using assms(1) c(2) by (simp add: new_family_def)
  from skiplist_memtable_new_rel [OF c(1) this, of ex wk 0 "Some mo" rd la seed buf latest] n
  show ?thesis by (simp add: family_rel_def skiplist_rel_def c(2) assms(2))
qed

lemma new_inserted:
  assumes "\<And>cf d. fams cf = Some d \<Longrightarrow> new_family d"
  shows "inserting.inserted (settings_of fams) (family_rel fams) ignore 0 db
    (MemTableInserter_new sq fams fs ts ignore 0 db False vw False True hints) (sq, \<lambda>_. [])"
proof -
  have ins: "inserting (settings_of fams) (family_rel fams)"
    using assms by (intro skiplist_inserting) (simp add: new_family_def)
  have "max_successive_merges (cfd_settings d) = 0" if "fams cf = Some d" for cf d
    using assms [OF that] by (auto simp: new_family_def skiplist_based_def)
  moreover have "families_hold (settings_of fams) (family_rel fams) 0 fams (\<lambda>_. [])"
    using assms new_family_rel by (auto simp: families_hold_def new_family_def split: option.split)
  ultimately show ?thesis
    by (auto simp: inserting.inserted_def [OF ins] committed_mode_def MemTableInserter_new_def numbers_below_def)
qed

lemma family_Get:
  assumes "new_family d" "fams cf = Some d" "family_rel fams cf mt log" "plain_log log"
    and "ranges_forward (mt_comparator (cfd_settings d)) log" "length u + 8 < 2 ^ 32" "s \<le> kMaxSequenceNumber"
    and "fresh_args args x" "mt_merge_operator (cfd_settings d) = Some mo" "\<forall>l. \<not> ShouldMerge mo l"
    and "\<not> ignore_range_deletions ro"
  shows "\<exists>found args' mt'. mt_Get (cfd_settings d) (LookupKey_new u s None) args ro None True mt = Some (found, args', mt') \<and>
    lookup_shows mo u x
      (resolve (covering_seq (mt_comparator (cfd_settings d)) s u log) [] (visible_versions s u log)) found args'"
proof -
  obtain cmp ex bits wk mo' where c: "memtable_order cmp" "cfd_settings d = skiplist_settings cmp ex bits wk 0 (Some mo')"
    using assms(1) by (auto simp: new_family_def skiplist_based_def)
  have rel: "memtable.mt_rel (skiplist_settings cmp ex bits wk 0 (Some mo')) (skiplist_good cmp) skiplist_entries mt log"
    using assms(2,3) by (simp add: family_rel_def skiplist_rel_def c(2))
  from memtable.Get_refines [OF skiplist_memtable [OF c(1)] rel assms(4) _ assms(6-8) _ assms(10,11)] assms(5,9)
  show ?thesis unfolding c(2) by auto
qed

text \<open>C33. A group of writers that applies its batches to new memtables, with any writers among them that
  have failed or do not write, succeeds and numbers the writers consecutively; afterwards a lookup in
  a column family, at any sequence number, answers what the updates of the group's batches for that
  family say, in their order, each with its number. The families are new over the skip list, support
  range deletions and have a merge operator, no in-place updates and no limit of successive merges
  (\<open>new_family\<close>); no batch has a begin marker of \<open>WritePrepared\<close> or \<open>WriteUnprepared\<close>, entries and
  numbers fit, and a family that a batch names is there unless missing ones are ignored (\<open>op_fits\<close>).
  For the family looked at there is no blob index and no range that ends before it begins, and its
  merge operator never asks for an early merge; without these the lookup can differ.\<close>

theorem write_group_refines:
  assumes "\<forall>cf d. fams cf = Some d \<longrightarrow> new_family d" "batches_hold ws opss"
    and "list_all (op_fits (settings_of fams) ignore 0) (group_ops ws opss)"
    and "numbers_fit sq (update_count (group_ops ws opss))"
    and "fams cf = Some d" "ups = updates_of cf sq (group_ops ws opss)"
    and "plain_log ups" "ranges_forward (mt_comparator (cfd_settings d)) ups"
    and "length u + 8 < 2 ^ 32" "s \<le> kMaxSequenceNumber" "fresh_args args x"
    and "mt_merge_operator (cfd_settings d) = Some mo" "\<forall>l. \<not> ShouldMerge mo l" "\<not> ignore_range_deletions ro"
  shows "\<exists>st d' found args' mt'.
    InsertInto_group en ws sq fams fs ts ignore 0 db False False True = Some (OK, group_numbered sq ws opss, st) \<and>
    ins_families st cf = Some d' \<and> cfd_settings d' = cfd_settings d \<and>
    mt_Get (cfd_settings d') (LookupKey_new u s None) args ro None True (cfd_mem d') = Some (found, args', mt') \<and>
    lookup_shows mo u x
      (resolve (covering_seq (mt_comparator (cfd_settings d)) s u (rev ups)) [] (visible_versions s u (rev ups)))
      found args'"
proof -
  have ins: "inserting (settings_of fams) (family_rel fams)"
    using assms(1) by (intro skiplist_inserting) (simp add: new_family_def)
  have new: "inserting.inserted (settings_of fams) (family_rel fams) ignore 0 db
      (MemTableInserter_new sq fams fs ts ignore 0 db False None False True False) (sq, \<lambda>_. [])"
    by (rule new_inserted) (use assms(1) in blast)
  obtain st where run: "InsertInto_group en ws sq fams fs ts ignore 0 db False False True =
      Some (OK, group_numbered sq ws opss, st)"
    and st: "inserting.inserted (settings_of fams) (family_rel fams) ignore 0 db st
      (sq + of_nat (update_count (group_ops ws opss)), \<lambda>cf. rev (updates_of cf sq (group_ops ws opss)) @ [])"
    using inserting.insert_group_inserts [OF ins assms(2) new assms(3,4), of en]
    by (auto simp: InsertInto_group_def)
  have hold: "families_hold (settings_of fams) (family_rel fams) 0 (ins_families st)
      (\<lambda>cf. rev (updates_of cf sq (group_ops ws opss)) @ [])"
    using st by (simp add: inserting.inserted_def [OF ins])
  obtain d' where d': "ins_families st cf = Some d'"
    using inserting.hold_missing [OF ins hold, of cf] assms(5) by auto
  with inserting.hold_family [OF ins hold, of cf d'] assms(5,6)
  have same: "cfd_settings d' = cfd_settings d" "family_rel fams cf (cfd_mem d') (rev ups)" by simp_all
  have "plain_log (rev ups)" "ranges_forward (mt_comparator (cfd_settings d)) (rev ups)"
    using assms(7,8) by (simp_all add: plain_log_def ranges_forward_def)
  from family_Get [OF assms(1) [rule_format, OF assms(5)] assms(5) same(2) this assms(9-14)] run d' same(1)
  show ?thesis by auto
qed

definition sample_settings :: "(SkipListRep, sl_iter) MemTableSettings" where
  "sample_settings = skiplist_settings BytewiseComparator None 512 True 0 (Some UInt64AddOperator)"

definition sample_family :: "SkipListRep MemTable \<Rightarrow> (SkipListRep, sl_iter) ColumnFamilyData" where
  "sample_family mt =
     \<lparr>cfd_name = str ''default'', cfd_log_number = 0, cfd_settings = sample_settings, cfd_mem = mt, cfd_refs = 1,
      is_delete_range_supported = True, table_factory_name = [], max_write_buffer_size_to_maintain = 0,
      imm_trim_needed = False\<rparr>"

definition sample_readings :: readings where
  "sample_readings = \<lparr>should_flush_now = False, current_time = (OK, 100)\<rparr>"

definition sample_engine :: "(SkipListRep, sl_iter) engine" where
  "sample_engine = \<lparr>en_readings = (\<lambda>_. sample_readings), en_memory_usage = (\<lambda>_. 0),
     en_Get = (\<lambda>fams cf key sq. (NotFound_sub kNone, []))\<rparr>"

definition sample_writer :: "bool \<Rightarrow> batch_op list \<Rightarrow> Writer" where
  "sample_writer failed ops =
     \<lparr>w_CallbackFailed = failed, w_ShouldWriteToMemtable = True, w_batch = WriteBatch_of_rep (batch_rep 0 ops),
      w_log_ref = 0, w_sequence = 0, w_status = OK\<rparr>"

definition sample_opss :: "batch_op list list" where
  "sample_opss = [[OpPut 0 [1] (PutFixed64 [] 5), OpLogData [8], OpDelete 0 [2]], [OpPut 0 [1] [9]],
     [OpMerge 0 [1] (PutFixed64 [] 7)]]"

definition sample_writers :: "Writer list" where
  "sample_writers = map2 sample_writer [False, True, False] sample_opss"

lemma sample_memtable:
  obtains mt where "skiplist_memtable_new sample_settings sample_readings 0 301 1000 0 = Some mt"
    "new_family (sample_family mt)"
proof -
  have "unat (512 :: u32) + 255 < 2 ^ 32" by simp
  from skiplist_memtable_new_rel [OF bytewise_memtable_order.memtable_order_axioms this, of None True 0
      "Some UInt64AddOperator" sample_readings 0 301 1000 0]
  obtain mt where mt: "skiplist_memtable_new sample_settings sample_readings 0 301 1000 0 = Some mt"
    by (auto simp: sample_settings_def)
  moreover have "skiplist_based sample_settings"
    unfolding skiplist_based_def sample_settings_def using bytewise_memtable_order.memtable_order_axioms by blast
  moreover have "unat (memtable_prefix_bloom_bits sample_settings) + 255 < 2 ^ 32"
    by (simp add: sample_settings_def)
  ultimately have "new_family (sample_family mt)"
    unfolding new_family_def using mt by (auto simp: sample_family_def intro!: exI)
  with mt that show ?thesis by blast
qed

lemma sample_updates_group:
  "updates_of 0 3 (group_ops sample_writers sample_opss) =
    [\<lparr>v_key = [1], v_seq = 3, v_type = kTypeValue, v_value = PutFixed64 [] 5\<rparr>,
     \<lparr>v_key = [2], v_seq = 4, v_type = kTypeDeletion, v_value = []\<rparr>,
     \<lparr>v_key = [1], v_seq = 5, v_type = kTypeMerge, v_value = PutFixed64 [] 7\<rparr>]"
  by (simp add: sample_writers_def sample_opss_def sample_writer_def writes_def)

lemma sample_batch: "list_all op_ok ops \<Longrightarrow> \<exists>q. holds (w_batch (sample_writer failed ops)) q ops"
  using holds_of_rep [of ops 0] by (auto simp: sample_writer_def)

lemma sample_batches: "batches_hold sample_writers sample_opss"
  by (simp add: batches_hold_def sample_writers_def sample_opss_def sample_batch str_ok_def PutFixed64_def)

lemma sample_group_fits:
  "list_all (op_fits (settings_of [0 \<mapsto> sample_family mt]) False 0) (group_ops sample_writers sample_opss)"
  "numbers_fit 3 (update_count (group_ops sample_writers sample_opss))"
  by (simp_all add: sample_writers_def sample_opss_def sample_writer_def writes_def op_fits_def not_prepared_def
      PutFixed64_def numbers_fit_def update_count_def)

lemma write_group_refines_witness:
  "\<exists>mt ws' st d' args' mt'.
    skiplist_memtable_new sample_settings sample_readings 0 301 1000 0 = Some mt \<and>
    InsertInto_group sample_engine sample_writers 3 [0 \<mapsto> sample_family mt] None None False 0 None False False True =
      Some (OK, ws', st) \<and> map w_sequence ws' = [3, 0, 5] \<and>
    ins_families st 0 = Some d' \<and>
    mt_Get (cfd_settings d') (LookupKey_new [1] 10 None) sample_args ReadOptions_new None True (cfd_mem d') =
      Some (True, args', mt') \<and> la_status args' = OK \<and> la_value args' = Some (PutFixed64 [] 12)"
proof -
  obtain mt where mt: "skiplist_memtable_new sample_settings sample_readings 0 301 1000 0 = Some mt"
      "new_family (sample_family mt)" using sample_memtable .
  let ?ups = "updates_of 0 3 (group_ops sample_writers sample_opss)"
  have new: "\<forall>cf d. [0 \<mapsto> sample_family mt] cf = Some d \<longrightarrow> new_family d" using mt(2) by (auto split: if_splits)
  have d: "[0 \<mapsto> sample_family mt] 0 = Some (sample_family mt)" by simp
  have ups: "plain_log ?ups" "ranges_forward (mt_comparator (cfd_settings (sample_family mt))) ?ups"
    unfolding sample_updates_group
    by (simp_all add: plain_log_def plain_type_def ranges_forward_def is_range_def)
  have args: "length [1 :: byte] + 8 < 2 ^ 32" "10 \<le> kMaxSequenceNumber"
      "mt_merge_operator (cfd_settings (sample_family mt)) = Some UInt64AddOperator"
      "\<not> ignore_range_deletions ReadOptions_new"
    by (simp_all add: kMaxSequenceNumber_def ReadOptions_new_def sample_family_def sample_settings_def)
  have out: "resolve (covering_seq (mt_comparator (cfd_settings (sample_family mt))) 10 [1] (rev ?ups)) []
      (visible_versions 10 [1] (rev ?ups)) = Decided (Some (PutFixed64 [] 5)) [PutFixed64 [] 7]"
    unfolding sample_updates_group
    by (simp add: sample_family_def sample_settings_def covering_seq_def visible_versions_def is_range_def)
  have "uint64_sum (Some (PutFixed64 [] 5)) [PutFixed64 [] 7] = 12" by (simp add: uint64_sum_def)
  then have dec: "decided UInt64AddOperator [1] (Some (PutFixed64 [] 5)) [PutFixed64 [] 7] [] = (OK, PutFixed64 [] 12)"
    by (simp add: decided_def uint64_merged)
  have seqs: "map w_sequence (group_numbered 3 sample_writers sample_opss) = [3, 0, 5]"
    by (simp add: sample_writers_def sample_opss_def sample_writer_def update_count_def)
  obtain st d' found args' mt' where r: "InsertInto_group sample_engine sample_writers 3 [0 \<mapsto> sample_family mt] None None
        False 0 None False False True = Some (OK, group_numbered 3 sample_writers sample_opss, st)"
      "ins_families st 0 = Some d'"
      "mt_Get (cfd_settings d') (LookupKey_new [1] 10 None) sample_args ReadOptions_new None True (cfd_mem d') =
        Some (found, args', mt')"
      "lookup_shows UInt64AddOperator [1] [] (Decided (Some (PutFixed64 [] 5)) [PutFixed64 [] 7]) found args'"
    using write_group_refines [OF new sample_batches sample_group_fits d refl ups args(1,2) sample_ok(4) args(3)
      uint64_ShouldMerge args(4), where en = sample_engine and fs = None and ts = None and db = None]
    unfolding out by blast
  have found: "found = True" "la_status args' = OK" "la_value args' = Some (PutFixed64 [] 12)"
    using r(4) unfolding lookup_shows_def lookup_outcome.case dec by simp_all
  show ?thesis
    by (intro exI conjI, rule mt(1), rule r(1), rule seqs, rule r(2), rule r(3) [unfolded found(1)], rule found(2),
      rule found(3))
qed

end
