(* ===== verification/InserterRecovery.thy ===== *)
theory InserterRecovery
  imports InserterProps
begin

text \<open>
  Recovery of prepared transactions: a log holds a batch with a prepare section and, later, a batch with
  the commit or the rollback. The inserter rebuilds the section as a batch of its own, keeps it by the
  name of the transaction, and applies it when it meets the commit.
\<close>

section \<open>The prepare section\<close>

text \<open>What a rebuilt batch holds of an operation: a blob index comes back as a plain value.\<close>

fun rebuilt_op :: "batch_op \<Rightarrow> batch_op list" where
  "rebuilt_op (OpBlobIndex cf k v) = [OpPut cf k v]"
| "rebuilt_op (OpLogData b) = []"
| "rebuilt_op op = [op]"

definition rebuilt_ops :: "batch_op list \<Rightarrow> batch_op list" where
  "rebuilt_ops ops = concat (map rebuilt_op ops)"

lemma rebuilt_ops_simps [simp]:
  "rebuilt_ops [] = []" "rebuilt_ops (op # ops) = rebuilt_op op @ rebuilt_ops ops"
  by (simp_all add: rebuilt_ops_def)

datatype prepare_stage = Outside | Rebuilding "batch_op list" | Prepared bytes "batch_op list"

fun prepare_step :: "batch_op \<Rightarrow> prepare_stage \<Rightarrow> prepare_stage" where
  "prepare_step (OpBegin kind) stage = Rebuilding []"
| "prepare_step (OpEndPrepare x) (Rebuilding ops) = Prepared x ops"
| "prepare_step op (Rebuilding ops) = Rebuilding (ops @ rebuilt_op op)"
| "prepare_step op stage = stage"

text \<open>Updates and log data, whose strings fit into a batch.\<close>

definition section_op :: "batch_op \<Rightarrow> bool" where
  "section_op op \<longleftrightarrow> op_ok op \<and> (op_update op \<noteq> None \<or> (\<exists>b. op = OpLogData b))"

definition prepare_dom :: "batch_op \<Rightarrow> prepare_stage \<Rightarrow> bool" where
  "prepare_dom op stage \<longleftrightarrow>
     (case stage of
        Outside \<Rightarrow> op = OpBegin WriteCommitted
      | Rebuilding ops \<Rightarrow> section_op op \<or> (\<exists>x. op = OpEndPrepare x)
      | Prepared x ops \<Rightarrow> False)"

definition rebuilt_batch :: "WriteBatch \<Rightarrow> batch_op list \<Rightarrow> bool" where
  "rebuilt_batch b ops \<longleftrightarrow> holds b 0 ops \<and> max_bytes b = 0 \<and> timestamp_size_of b = 0"

lemma rebuilt_batch_new: "rebuilt_batch (WriteBatch_new 0 0) []"
  by (simp add: rebuilt_batch_def holds_new) (simp add: WriteBatch_new_def)

lemma rebuilt_batch_write:
  assumes "rebuilt_batch b ops" "op_ok op"
  shows "rebuilt_batch (snd (write_op b op)) (ops @ [op])"
proof -
  obtain s b' where r: "write_op b op = (s, b')" by (rule prod.exhaust)
  then have "ok s" "max_bytes b' = 0" "timestamp_size_of b' = 0"
    using assms(1) by (auto simp: write_op_def rebuilt_batch_def split: if_splits)
  with write_op_holds [OF _ assms(2) r, of 0 ops] assms(1) r show ?thesis
    by (simp add: rebuilt_batch_def)
qed

text \<open>The writers of the rebuilt batch.\<close>

lemma rebuilt_writes:
  assumes "rebuilt_batch b ops"
  shows "str_ok k \<Longrightarrow> str_ok v \<Longrightarrow> rebuilt_batch (snd (WBI_Put cf k v b)) (ops @ [OpPut cf k v])"
    and "str_ok k \<Longrightarrow> rebuilt_batch (snd (wb_Delete b cf k)) (ops @ [OpDelete cf k])"
    and "str_ok k \<Longrightarrow> rebuilt_batch (snd (wb_SingleDelete b cf k)) (ops @ [OpSingleDelete cf k])"
    and "str_ok k \<Longrightarrow> str_ok v \<Longrightarrow> rebuilt_batch (snd (wb_DeleteRange b cf k v)) (ops @ [OpDeleteRange cf k v])"
    and "str_ok k \<Longrightarrow> str_ok v \<Longrightarrow> rebuilt_batch (snd (wb_Merge b cf k v)) (ops @ [OpMerge cf k v])"
proof -
  have h: "has_header b" "padded b key = key" for key
    using assms holds_header by (auto simp: rebuilt_batch_def padded_def)
  have le: "str_ok s \<Longrightarrow> length s \<le> kMaxUint32" for s by (simp add: str_ok_def kMaxUint32_def)
  note w = rebuilt_batch_write [OF assms]
  show "str_ok k \<Longrightarrow> str_ok v \<Longrightarrow> rebuilt_batch (snd (WBI_Put cf k v b)) (ops @ [OpPut cf k v])"
    using w [of "OpPut cf k v"] wb_Put_write [OF h(1) le le, of k v cf] by (simp add: WBI_Put_def h(2))
  show "str_ok k \<Longrightarrow> str_ok v \<Longrightarrow> rebuilt_batch (snd (wb_Merge b cf k v)) (ops @ [OpMerge cf k v])"
    using w [of "OpMerge cf k v"] wb_Merge_write [OF h(1) le le, of k v cf] by simp
  show "str_ok k \<Longrightarrow> rebuilt_batch (snd (wb_Delete b cf k)) (ops @ [OpDelete cf k])"
    "str_ok k \<Longrightarrow> rebuilt_batch (snd (wb_SingleDelete b cf k)) (ops @ [OpSingleDelete cf k])"
    "str_ok k \<Longrightarrow> str_ok v \<Longrightarrow> rebuilt_batch (snd (wb_DeleteRange b cf k v)) (ops @ [OpDeleteRange cf k v])"
    using w wb_writers_write [OF h(1)] by simp_all
qed

fun rebuild_writer :: "batch_op \<Rightarrow> WriteBatch \<Rightarrow> WriteBatch" where
  "rebuild_writer (OpPut cf k v) b = snd (WBI_Put cf k v b)"
| "rebuild_writer (OpBlobIndex cf k v) b = snd (WBI_Put cf k v b)"
| "rebuild_writer (OpDelete cf k) b = snd (wb_Delete b cf k)"
| "rebuild_writer (OpSingleDelete cf k) b = snd (wb_SingleDelete b cf k)"
| "rebuild_writer (OpDeleteRange cf k v) b = snd (wb_DeleteRange b cf k v)"
| "rebuild_writer (OpMerge cf k v) b = snd (wb_Merge b cf k v)"
| "rebuild_writer op b = b"

lemma rebuild_writer:
  assumes "rebuilt_batch b ops" "section_op op"
  shows "rebuilt_batch (rebuild_writer op b) (ops @ rebuilt_op op)"
  using assms rebuilt_writes [OF assms(1)] by (cases op) (simp_all add: section_op_def)

text \<open>The inserter while it goes through a prepare section: nothing but the rebuilt batch changes.\<close>

definition preparing ::
  "('t, 'i) MemTableInserter \<Rightarrow> DBImpl \<Rightarrow> ('t, 'i) MemTableInserter option \<Rightarrow> prepare_stage \<Rightarrow> bool" where
  "preparing st0 db h stage \<longleftrightarrow>
     (case stage of
        Outside \<Rightarrow> h = Some st0
      | Rebuilding ops \<Rightarrow> \<exists>b. rebuilt_batch b ops \<and>
          h = Some (st0\<lparr>rebuilding_trx := Some b, rebuilding_trx_seq := ins_sequence st0, unprepared_batch := False,
                      has_valid_writes := map_option (\<lambda>_. True) (has_valid_writes st0)\<rparr>)
      | Prepared x ops \<Rightarrow> \<exists>b. rebuilt_batch b ops \<and>
          h = Some (st0\<lparr>rebuilding_trx := None, rebuilding_trx_seq := ins_sequence st0, unprepared_batch := False,
                      has_valid_writes := map_option (\<lambda>_. True) (has_valid_writes st0),
                      ins_db := Some (InsertRecoveredTransaction (recovering_log_number st0) x (Some b)
                                   (ins_sequence st0) 0 False db)\<rparr>))"

locale preparing_inserter =
  fixes st0 :: "('t, 'i) MemTableInserter" and db :: DBImpl and en :: "('t, 'i) engine"
  assumes committed: "write_after_commit st0" "\<not> write_before_prepare st0" "\<not> seq_per_batch st0"
    and in_recovery: "recovering_log_number st0 \<noteq> 0"
    and the_db: "ins_db st0 = Some db" and two_phase: "allow_2pc db"
begin

lemma section_step:
  assumes "section_op op" "write_after_commit st" "rebuilding_trx st = Some b"
  shows "ok (fst (op_turn (inserter_handler en) op e f (Some st)))"
    and "snd (snd (snd (op_turn (inserter_handler en) op e f (Some st)))) = Some (st\<lparr>rebuilding_trx := Some (rebuild_writer op b)\<rparr>)"
proof -
  have "st\<lparr>rebuilding_trx := Some b\<rparr> = st" using assms(3) by simp
  with assms show "ok (fst (op_turn (inserter_handler en) op e f (Some st)))"
    and "snd (snd (snd (op_turn (inserter_handler en) op e f (Some st)))) = Some (st\<lparr>rebuilding_trx := Some (rebuild_writer op b)\<rparr>)"
    by (cases op; simp add: section_op_def op_turn.simps inserter_handler_def
      inserter_methods_def lift_method_def PutCFImpl_def ins_DeleteCF_def ins_SingleDeleteCF_def ins_DeleteRangeCF_def
      ins_MergeCF_def with_family_def rebuild_def Let_def)+
qed

lemma begin_step:
  "ok (fst (op_turn (inserter_handler en) (OpBegin WriteCommitted) e f (Some st0)))"
  "snd (snd (snd (op_turn (inserter_handler en) (OpBegin WriteCommitted) e f (Some st0)))) =
     Some (st0\<lparr>rebuilding_trx := Some (WriteBatch_new 0 0), rebuilding_trx_seq := ins_sequence st0,
       unprepared_batch := False, has_valid_writes := map_option (\<lambda>_. True) (has_valid_writes st0)\<rparr>)"
  using committed in_recovery the_db two_phase
  by (simp_all add: op_turn.simps inserter_handler_def inserter_methods_def lift_method_def ins_MarkBeginPrepare_def
      begin_prepare_status_def)

lemma end_step:
  assumes "st = st0\<lparr>rebuilding_trx := Some b, rebuilding_trx_seq := ins_sequence st0, unprepared_batch := False,
      has_valid_writes := vw\<rparr>"
  shows "ok (fst (op_turn (inserter_handler en) (OpEndPrepare x) e f (Some st)))"
    and "snd (snd (snd (op_turn (inserter_handler en) (OpEndPrepare x) e f (Some st)))) =
     Some (st0\<lparr>rebuilding_trx := None, rebuilding_trx_seq := ins_sequence st0, unprepared_batch := False,
       has_valid_writes := vw,
       ins_db := Some (InsertRecoveredTransaction (recovering_log_number st0) x (Some b) (ins_sequence st0) 0 False db)\<rparr>)"
  using committed in_recovery the_db
  by (simp_all add: assms op_turn.simps inserter_handler_def inserter_methods_def lift_method_def ins_MarkEndPrepare_def
      MaybeAdvanceSeq_def)

sublocale prepares: simulated_handler "inserter_handler en" "preparing st0 db" prepare_step prepare_dom
proof
  show "Continue (inserter_handler en) h = (True, h)" for h
    by (simp add: inserter_handler_def inserter_methods_def)
next
  fix h stage op e f
  assume rel: "preparing st0 db h stage" and dom: "prepare_dom op stage"
  have "ok (fst (op_turn (inserter_handler en) op e f h)) \<and>
    preparing st0 db (snd (snd (snd (op_turn (inserter_handler en) op e f h)))) (prepare_step op stage)"
  proof (cases stage)
    case Outside
    then have "op = OpBegin WriteCommitted" "h = Some st0" using rel dom by (simp_all add: prepare_dom_def preparing_def)
    with begin_step rebuilt_batch_new show ?thesis by (auto simp: preparing_def)
  next
    case (Rebuilding ops)
    then obtain b where b: "rebuilt_batch b ops" and h: "h = Some (st0\<lparr>rebuilding_trx := Some b,
        rebuilding_trx_seq := ins_sequence st0, unprepared_batch := False,
        has_valid_writes := map_option (\<lambda>_. True) (has_valid_writes st0)\<rparr>)"
      using rel by (auto simp: preparing_def)
    consider x where "op = OpEndPrepare x" | "section_op op"
      using dom Rebuilding by (auto simp: prepare_dom_def)
    then show ?thesis
    proof cases
      case 1
      with end_step [OF refl, where b = b and vw = "map_option (\<lambda>_. True) (has_valid_writes st0)" and x = x and e = e and f = f] b h Rebuilding
      show ?thesis by (auto simp: preparing_def)
    next
      case 2
      then have "prepare_step op stage = Rebuilding (ops @ rebuilt_op op)"
        using Rebuilding by (cases op) (simp_all add: section_op_def)
      with section_step [OF 2, of "the h" b e f] rebuild_writer [OF b 2] h committed(1)
      show ?thesis by (auto simp: preparing_def)
    qed
  next
    case (Prepared x ops)
    with dom show ?thesis by (simp add: prepare_dom_def)
  qed
  then show "ok (fst (op_turn (inserter_handler en) op e f h))"
    and "preparing st0 db (snd (snd (snd (op_turn (inserter_handler en) op e f h)))) (prepare_step op stage)"
    by simp_all
qed

end

interpretation sample_preparing: preparing_inserter
    "MemTableInserter_new sq fams fs ts ignore 1
       (Some \<lparr>allow_2pc = True, recovered_transactions = rt, logs_with_prep_tracker = tr\<rparr>) False vw False True hints"
    "\<lparr>allow_2pc = True, recovered_transactions = rt, logs_with_prep_tracker = tr\<rparr>" en
  for sq fams fs ts ignore rt tr vw hints en
  by unfold_locales (simp_all add: MemTableInserter_new_def)

context preparing_inserter
begin

lemma prepare_dom_simps:
  "prepare_dom (OpEndPrepare x) (Rebuilding d)" "section_op op \<Longrightarrow> prepare_dom op (Rebuilding d)"
  "prepare_dom (OpBegin WriteCommitted) Outside"
  by (simp_all add: prepare_dom_def)

lemma prepare_step_section: "section_op op \<Longrightarrow> prepare_step op (Rebuilding d) = Rebuilding (d @ rebuilt_op op)"
  by (cases op) (simp_all add: section_op_def)

lemma section_all_dom:
  assumes "list_all section_op ops"
  shows "prepares.all_dom (ops @ [OpEndPrepare x]) (Rebuilding done)"
    and "fold prepare_step (ops @ [OpEndPrepare x]) (Rebuilding done) = Prepared x (done @ rebuilt_ops ops)"
  using assms by (induction ops arbitrary: "done") (simp_all add: prepare_dom_simps prepare_step_section)

lemma Iterate_prepare:
  assumes "holds b q (OpBegin WriteCommitted # ops @ [OpEndPrepare x])" "list_all section_op ops"
  shows "\<exists>b'. rebuilt_batch b' (rebuilt_ops ops) \<and>
    iterate_with (inserter_handler en) b st0 =
      Some (OK, st0\<lparr>rebuilding_trx := None, rebuilding_trx_seq := ins_sequence st0, unprepared_batch := False,
        has_valid_writes := map_option (\<lambda>_. True) (has_valid_writes st0),
        ins_db := Some (InsertRecoveredTransaction (recovering_log_number st0) x (Some b') (ins_sequence st0) 0 False db)\<rparr>)"
proof -
  have dom: "prepares.all_dom (OpBegin WriteCommitted # ops @ [OpEndPrepare x]) Outside"
    using section_all_dom(1) [OF assms(2), of x "[]"] by (simp add: prepare_dom_simps)
  have "preparing st0 db (Some st0) Outside" by (simp add: preparing_def)
  from prepares.Iterate_simulated [OF assms(1) this dom]
  obtain h' where "wb_Iterate b (inserter_handler en) (Some st0) = (OK, h')" "preparing st0 db h' (Prepared x (rebuilt_ops ops))"
    using section_all_dom(2) [OF assms(2), of x "[]"] by auto
  then show ?thesis by (auto simp: preparing_def iterate_with_def)
qed

end

section \<open>The commit\<close>

context inserting
begin

lemma Iterate_rebuilt:
  assumes "recovering \<noteq> 0" "holds b q ops" "inserted st (sq, logs)" "list_all (op_fits cfgs ignore recovering) ops"
    and "numbers_fit sq (update_count ops)"
  shows "\<exists>st'. iterate_with (rebuilt_handler en) b st = Some (OK, st') \<and>
    inserted st' (sq + of_nat (update_count ops), \<lambda>cf. rev (updates_of cf sq ops) @ logs cf)"
proof -
  have "simulated_handler (rebuilt_handler en) stands_for insert_step (insertable cfgs ignore recovering)"
    unfolding rebuilt_handler_def using assms(1) by (intro methods_simulated) simp
  from simulated_handler.Iterate_simulated [OF this assms(2) _ all_insertable [OF assms(4,5)], of "Some st" logs] assms(3)
  show ?thesis by (auto simp: stands_for_def iterate_with_def fold_insert_step)
qed

lemma MarkCommit_applies:
  assumes "recovering \<noteq> 0" "inserted st (sq, logs)" "db = Some d" "recovered_transactions d x = Some t"
    and "rt_batches t = (q0, info) # bs" "bi_batch info = Some b" "holds b q ops"
    and "list_all (op_fits cfgs ignore recovering) ops" "numbers_fit sq (update_count ops)"
  shows "\<exists>st1 d'. ins_MarkCommit (iterate_with (rebuilt_handler en)) x st = Some (OK, st1) \<and>
    DeleteRecoveredTransaction x d = Some d' \<and> ins_db st1 = Some d' \<and>
    hold (ins_families st1) (\<lambda>cf. rev (updates_of cf sq ops) @ logs cf) \<and>
    ins_sequence st1 = sq + of_nat (update_count ops)"
proof -
  have "recovering_log_number st = recovering \<and> ins_db st = db \<and> write_after_commit st"
    using assms(2) by (simp add: inserted_def committed_mode_def)
  then have st: "recovering_log_number st = recovering" "ins_db st = Some d" "write_after_commit st"
    using assms(3) by simp_all
  obtain st' where it: "iterate_with (rebuilt_handler en) b (st\<lparr>log_number_ref := bi_log_number info\<rparr>) = Some (OK, st')"
      "inserted st' (sq + of_nat (update_count ops), \<lambda>cf. rev (updates_of cf sq ops) @ logs cf)"
    using Iterate_rebuilt [OF assms(1,7) _ assms(8,9), of "st\<lparr>log_number_ref := bi_log_number info\<rparr>" logs] assms(2)
    by auto
  have "ins_db st' = db \<and> \<not> seq_per_batch st' \<and> ins_sequence st' = sq + of_nat (update_count ops) \<and>
      hold (ins_families st') (\<lambda>cf. rev (updates_of cf sq ops) @ logs cf)"
    using it(2) by (simp add: inserted_def committed_mode_def)
  then have st': "ins_db st' = Some d" "\<not> seq_per_batch st'" "ins_sequence st' = sq + of_nat (update_count ops)"
      "hold (ins_families st') (\<lambda>cf. rev (updates_of cf sq ops) @ logs cf)"
    using assms(3) by simp_all
  obtain d' where d': "DeleteRecoveredTransaction x d = Some d'"
    using assms(4) by (simp add: DeleteRecoveredTransaction_def)
  have "commit_recovered (iterate_with (rebuilt_handler en)) t st = Some (OK, st'\<lparr>log_number_ref := 0\<rparr>)"
    using st(3) assms(5,6) it(1) by (simp add: commit_recovered_def)
  moreover have "delete_recovered x (st'\<lparr>log_number_ref := 0\<rparr>) = Some (st'\<lparr>log_number_ref := 0, ins_db := Some d'\<rparr>)"
    using st'(1) d' by (simp add: delete_recovered_def)
  ultimately have "ins_MarkCommit (iterate_with (rebuilt_handler en)) x st = Some (OK,
      st'\<lparr>log_number_ref := 0, ins_db := Some d',
          has_valid_writes := map_option (\<lambda>_. True) (has_valid_writes st')\<rparr>)"
    using st assms(1,4) st'(2) by (simp add: ins_MarkCommit_def MaybeAdvanceSeq_def)
  with d' st'(3,4) show ?thesis by simp
qed

end

section \<open>A transaction of the log\<close>

lemma new_recovering:
  assumes "\<forall>cf d. fams cf = Some d \<longrightarrow> new_family d \<and> cfd_log_number d \<le> rec"
  shows "inserting.inserted (settings_of fams) (family_rel fams) ignore rec db
    (MemTableInserter_new sq fams fs ts ignore rec db False vw False True hints) (sq, \<lambda>_. [])"
proof -
  have ins: "inserting (settings_of fams) (family_rel fams)"
    using assms by (intro skiplist_inserting) (simp add: new_family_def)
  have "max_successive_merges (cfd_settings d) = 0" if "fams cf = Some d" for cf d
    using assms that by (fastforce simp: new_family_def skiplist_based_def)
  moreover have "families_hold (settings_of fams) (family_rel fams) rec fams (\<lambda>_. [])"
    using assms new_family_rel by (auto simp: families_hold_def new_family_def split: option.split)
  ultimately show ?thesis
    by (auto simp: inserting.inserted_def [OF ins] committed_mode_def MemTableInserter_new_def numbers_below_def)
qed

text \<open>The database after the prepare section.\<close>

lemma InsertInto_prepare:
  assumes "holds b q (OpBegin WriteCommitted # ops @ [OpEndPrepare x])" "list_all section_op ops"
    and "rec \<noteq> 0" "allow_2pc db" "recovered_transactions db x = None"
  shows "\<exists>st b' d'. InsertInto_batch en b fams fs ts ignore rec (Some db) False vw False True = Some (OK, q, st) \<and>
    rebuilt_batch b' (rebuilt_ops ops) \<and> ins_families st = fams \<and> ins_db st = Some d' \<and> allow_2pc d' \<and>
    recovered_transactions d' =
      (recovered_transactions db)(x \<mapsto> RecoveredTransaction_new rec x (Some b') q 0 False)"
proof -
  let ?st = "MemTableInserter_new (wb_Sequence b) fams fs ts ignore rec (Some db) False vw False True False"
  have q: "wb_Sequence b = q" using assms(1) by (rule holds_Sequence)
  have p: "preparing_inserter ?st db"
    by unfold_locales (use assms(3,4) in \<open>simp_all add: MemTableInserter_new_def\<close>)
  from preparing_inserter.Iterate_prepare [OF p assms(1,2), of en] q assms(5) assms(4)
  show ?thesis
    by (auto simp: InsertInto_batch_def MemTableInserter_new_def InsertRecoveredTransaction_def)
qed

context inserting
begin

text \<open>The batch with the commit.\<close>

lemma Iterate_commit:
  assumes "recovering \<noteq> 0" "inserted st (sq, logs)" "db = Some d" "recovered_transactions d x = Some t"
    and "rt_batches t = (q0, info) # bs" "bi_batch info = Some b" "holds b q ops"
    and "list_all (op_fits cfgs ignore recovering) ops" "numbers_fit sq (update_count ops)"
    and "holds b2 q2 [OpCommit x]"
  shows "\<exists>st1 d'. iterate_with (inserter_handler en) b2 st = Some (OK, st1) \<and>
    DeleteRecoveredTransaction x d = Some d' \<and> ins_db st1 = Some d' \<and>
    hold (ins_families st1) (\<lambda>cf. rev (updates_of cf sq ops) @ logs cf) \<and>
    ins_sequence st1 = sq + of_nat (update_count ops)"
proof -
  obtain st1 d' where c: "ins_MarkCommit (iterate_with (rebuilt_handler en)) x st = Some (OK, st1)"
    and d': "DeleteRecoveredTransaction x d = Some d' \<and> ins_db st1 = Some d' \<and>
      hold (ins_families st1) (\<lambda>cf. rev (updates_of cf sq ops) @ logs cf) \<and>
      ins_sequence st1 = sq + of_nat (update_count ops)"
    using MarkCommit_applies [OF assms(1-9)] by blast
  have "wb_Iterate b2 (inserter_handler en) (Some st) = (OK, Some st1)"
    using c by (simp add: Iterate_holds [OF assms(10)] op_turn.simps inserter_handler_def inserter_methods_def
      lift_method_def finish_ops_def count_ops_def)
  with d' show ?thesis by (simp add: iterate_with_def)
qed

end

text \<open>C34. Recovery of a prepared transaction: inserting a batch with a prepare section leaves the memtables
  as they were and keeps the section under the transaction's name; inserting the batch with its commit
  later numbers the section's updates from that batch's number on, adds them to the memtables, where
  lookups find them (a blob index as a plain value), and forgets the transaction. The families are new over
  the skip list (\<open>new_family\<close>); in the family looked at no range ends before it begins, and the merge operator
  never asks for an early merge.\<close>

theorem recovered_commit_refines:
  assumes "\<forall>cf d. fams cf = Some d \<longrightarrow> new_family d \<and> cfd_log_number d \<le> rec"
    and "rec \<noteq> 0" "allow_2pc db" "recovered_transactions db x = None"
    and "holds b1 q1 (OpBegin WriteCommitted # ops @ [OpEndPrepare x])" "list_all section_op ops"
    and "holds b2 q2 [OpCommit x]"
    and "list_all (op_fits (settings_of fams) ignore rec) (rebuilt_ops ops)"
    and "numbers_fit q2 (update_count (rebuilt_ops ops))"
    and "fams cf = Some d" "ups = updates_of cf q2 (rebuilt_ops ops)"
    and "plain_log ups" "ranges_forward (mt_comparator (cfd_settings d)) ups"
    and "length u + 8 < 2 ^ 32" "s \<le> kMaxSequenceNumber" "fresh_args args y"
    and "mt_merge_operator (cfd_settings d) = Some mo" "\<forall>l. \<not> ShouldMerge mo l" "\<not> ignore_range_deletions ro"
  shows "\<exists>st1 st2 db2 d2 found args' mt'.
    InsertInto_batch en b1 fams fs ts ignore rec (Some db) False vw False True = Some (OK, q1, st1) \<and>
    ins_families st1 = fams \<and>
    InsertInto_batch en b2 (ins_families st1) fs ts ignore rec (ins_db st1) False vw False True =
      Some (OK, q2 + of_nat (update_count (rebuilt_ops ops)), st2) \<and>
    ins_db st2 = Some db2 \<and> recovered_transactions db2 = recovered_transactions db \<and>
    ins_families st2 cf = Some d2 \<and> cfd_settings d2 = cfd_settings d \<and>
    mt_Get (cfd_settings d2) (LookupKey_new u s None) args ro None True (cfd_mem d2) = Some (found, args', mt') \<and>
    lookup_shows mo u y
      (resolve (covering_seq (mt_comparator (cfd_settings d)) s u (rev ups)) [] (visible_versions s u (rev ups)))
      found args'"
proof -
  obtain st1 b' db1 where run1: "InsertInto_batch en b1 fams fs ts ignore rec (Some db) False vw False True = Some (OK, q1, st1)"
      "rebuilt_batch b' (rebuilt_ops ops)" "ins_families st1 = fams" "ins_db st1 = Some db1"
    and db1: "recovered_transactions db1 = (recovered_transactions db)(x \<mapsto> RecoveredTransaction_new rec x (Some b') q1 0 False)"
    using InsertInto_prepare [OF assms(5,6,2,3,4), of en fams fs ts ignore vw] by blast
  have ins: "inserting (settings_of fams) (family_rel fams)"
    using assms(1) by (intro skiplist_inserting) (simp add: new_family_def)
  have trx: "recovered_transactions db1 x = Some (RecoveredTransaction_new rec x (Some b') q1 0 False)"
    using db1 by simp
  have batches: "rt_batches (RecoveredTransaction_new rec x (Some b') q1 0 False) =
      [(q1, \<lparr>bi_log_number = rec, bi_batch = Some b', bi_batch_cnt = 0\<rparr>)]"
    by (simp add: RecoveredTransaction_new_def)
  have held: "holds b' 0 (rebuilt_ops ops)" using run1(2) by (simp add: rebuilt_batch_def)
  obtain st2 db2 where run2: "iterate_with (inserter_handler en) b2
      (MemTableInserter_new (wb_Sequence b2) fams fs ts ignore rec (Some db1) False vw False True False) = Some (OK, st2)"
    and db2: "DeleteRecoveredTransaction x db1 = Some db2" "ins_db st2 = Some db2"
    and hold: "families_hold (settings_of fams) (family_rel fams) rec (ins_families st2)
      (\<lambda>cf. rev (updates_of cf q2 (rebuilt_ops ops)) @ [])"
    and seq: "ins_sequence st2 = q2 + of_nat (update_count (rebuilt_ops ops))"
    using inserting.Iterate_commit [OF ins assms(2) new_recovering [OF assms(1)] refl trx batches _ held assms(8,9,7)]
      holds_Sequence [OF assms(7)] by (simp, blast)
  obtain d2 where d2: "ins_families st2 cf = Some d2"
    using inserting.hold_missing [OF ins hold, of cf] assms(10) by auto
  with inserting.hold_family [OF ins hold, of cf d2] assms(10,11)
  have same: "cfd_settings d2 = cfd_settings d" "family_rel fams cf (cfd_mem d2) (rev ups)" by simp_all
  have logs: "plain_log (rev ups)" "ranges_forward (mt_comparator (cfd_settings d)) (rev ups)"
    using assms(12,13) by (simp_all add: plain_log_def ranges_forward_def)
  have new: "new_family d" using assms(1,10) by blast
  have gone: "recovered_transactions db2 = recovered_transactions db"
    using db2(1) db1 assms(4) by (auto simp: DeleteRecoveredTransaction_def)
  have run2': "InsertInto_batch en b2 (ins_families st1) fs ts ignore rec (ins_db st1) False vw False True =
      Some (OK, q2 + of_nat (update_count (rebuilt_ops ops)), st2)"
    using run1(3,4) run2 seq by (simp add: InsertInto_batch_def)
  from family_Get [OF new assms(10) same(2) logs assms(14-19)]
  show ?thesis using run1(1,3) run2' db2(2) gone d2 same(1) by auto
qed

definition sample_section :: "batch_op list" where
  "sample_section = [OpPut 0 [1] (PutFixed64 [] 5), OpLogData [8], OpBlobIndex 0 [2] [7], OpMerge 0 [1] (PutFixed64 [] 7)]"

definition sample_db :: "bool \<Rightarrow> DBImpl" where
  "sample_db two_phase =
     \<lparr>allow_2pc = two_phase, recovered_transactions = (\<lambda>_. None), logs_with_prep_tracker = LogsWithPrepTracker_new\<rparr>"

definition prepared_batch :: "batch_op list \<Rightarrow> bytes \<Rightarrow> WriteBatch" where
  "prepared_batch ops x = WriteBatch_of_rep (batch_rep 5 (OpBegin WriteCommitted # ops @ [OpEndPrepare x]))"

lemma prepared_batch_holds:
  assumes "list_all op_ok ops" "str_ok x"
  shows "holds (prepared_batch ops x) 5 (OpBegin WriteCommitted # ops @ [OpEndPrepare x])"
  using holds_of_rep [of "OpBegin WriteCommitted # ops @ [OpEndPrepare x]" 5] assms by (simp add: prepared_batch_def)

lemma sample_updates_section:
  "updates_of 0 9 (rebuilt_ops sample_section) =
    [\<lparr>v_key = [1], v_seq = 9, v_type = kTypeValue, v_value = PutFixed64 [] 5\<rparr>,
     \<lparr>v_key = [2], v_seq = 10, v_type = kTypeValue, v_value = [7]\<rparr>,
     \<lparr>v_key = [1], v_seq = 11, v_type = kTypeMerge, v_value = PutFixed64 [] 7\<rparr>]"
  by (simp add: sample_section_def)

lemma sample_section_ok:
  "list_all section_op sample_section" "list_all op_ok sample_section" "update_count (rebuilt_ops sample_section) = 3"
  "list_all (op_fits (settings_of [0 \<mapsto> sample_family mt]) False 1) (rebuilt_ops sample_section)"
  by (simp_all add: sample_section_def section_op_def str_ok_def PutFixed64_def update_count_def op_fits_def)

lemma recovered_commit_refines_witness:
  "\<exists>mt st1 st2 d2 args' mt'.
    skiplist_memtable_new sample_settings sample_readings 0 301 1000 0 = Some mt \<and>
    InsertInto_batch sample_engine (prepared_batch sample_section [9]) [0 \<mapsto> sample_family mt] None None False 1
      (Some (sample_db True)) False None False True = Some (OK, 5, st1) \<and>
    InsertInto_batch sample_engine (WriteBatch_of_rep (batch_rep 9 [OpCommit [9]])) (ins_families st1) None None False 1
      (ins_db st1) False None False True = Some (OK, 12, st2) \<and>
    ins_families st2 0 = Some d2 \<and>
    mt_Get (cfd_settings d2) (LookupKey_new [1] 20 None) sample_args ReadOptions_new None True (cfd_mem d2) =
      Some (True, args', mt') \<and> la_status args' = OK \<and> la_value args' = Some (PutFixed64 [] 12)"
proof -
  obtain mt where mt: "skiplist_memtable_new sample_settings sample_readings 0 301 1000 0 = Some mt"
      "new_family (sample_family mt)" using sample_memtable .
  let ?ups = "updates_of 0 9 (rebuilt_ops sample_section)"
  have new: "\<forall>cf d. [0 \<mapsto> sample_family mt] cf = Some d \<longrightarrow> new_family d \<and> cfd_log_number d \<le> 1"
    using mt(2) by (auto simp: sample_family_def split: if_splits)
  have db: "(1 :: u64) \<noteq> 0" "allow_2pc (sample_db True)" "recovered_transactions (sample_db True) [9] = None"
    by (simp_all add: sample_db_def)
  have b1: "holds (prepared_batch sample_section [9]) 5 (OpBegin WriteCommitted # sample_section @ [OpEndPrepare [9]])"
    by (rule prepared_batch_holds) (simp_all add: sample_section_ok(2) str_ok_def)
  have b2: "holds (WriteBatch_of_rep (batch_rep 9 [OpCommit [9]])) 9 [OpCommit [9]]"
    using holds_of_rep [of "[OpCommit [9]]" 9] by (simp add: str_ok_def)
  have fit: "numbers_fit 9 (update_count (rebuilt_ops sample_section))"
    by (simp add: sample_section_ok(3) numbers_fit_def)
  have d: "[0 \<mapsto> sample_family mt] 0 = Some (sample_family mt)" by simp
  have ups: "plain_log ?ups" "ranges_forward (mt_comparator (cfd_settings (sample_family mt))) ?ups"
    unfolding sample_updates_section
    by (simp_all add: plain_log_def plain_type_def ranges_forward_def is_range_def)
  have args: "length [1 :: byte] + 8 < 2 ^ 32" "20 \<le> kMaxSequenceNumber"
      "mt_merge_operator (cfd_settings (sample_family mt)) = Some UInt64AddOperator"
      "\<not> ignore_range_deletions ReadOptions_new"
    by (simp_all add: kMaxSequenceNumber_def ReadOptions_new_def sample_family_def sample_settings_def)
  have out: "resolve (covering_seq (mt_comparator (cfd_settings (sample_family mt))) 20 [1] (rev ?ups)) []
      (visible_versions 20 [1] (rev ?ups)) = Decided (Some (PutFixed64 [] 5)) [PutFixed64 [] 7]"
    unfolding sample_updates_section
    by (simp add: sample_family_def sample_settings_def covering_seq_def visible_versions_def is_range_def)
  have "uint64_sum (Some (PutFixed64 [] 5)) [PutFixed64 [] 7] = 12" by (simp add: uint64_sum_def)
  then have dec: "decided UInt64AddOperator [1] (Some (PutFixed64 [] 5)) [PutFixed64 [] 7] [] = (OK, PutFixed64 [] 12)"
    by (simp add: decided_def uint64_merged)
  obtain st1 st2 d2 found args' mt' where
      r: "InsertInto_batch sample_engine (prepared_batch sample_section [9]) [0 \<mapsto> sample_family mt] None None False 1
        (Some (sample_db True)) False None False True = Some (OK, 5, st1)"
      "InsertInto_batch sample_engine (WriteBatch_of_rep (batch_rep 9 [OpCommit [9]])) (ins_families st1) None None False 1
        (ins_db st1) False None False True = Some (OK, 9 + of_nat (update_count (rebuilt_ops sample_section)), st2)"
      "ins_families st2 0 = Some d2"
      "mt_Get (cfd_settings d2) (LookupKey_new [1] 20 None) sample_args ReadOptions_new None True (cfd_mem d2) =
        Some (found, args', mt')"
      "lookup_shows UInt64AddOperator [1] [] (Decided (Some (PutFixed64 [] 5)) [PutFixed64 [] 7]) found args'"
    using recovered_commit_refines [OF new db b1 sample_section_ok(1) b2 sample_section_ok(4) fit d refl ups args(1,2)
      sample_ok(4) args(3) uint64_ShouldMerge args(4), where en = sample_engine and fs = None and ts = None and vw = None]
    unfolding out by blast
  have "found = True" "la_status args' = OK" "la_value args' = Some (PutFixed64 [] 12)"
    using r(5) unfolding lookup_shows_def lookup_outcome.case dec by simp_all
  moreover have "(9 :: u64) + of_nat (update_count (rebuilt_ops sample_section)) = 12"
    by (simp add: sample_section_ok(3))
  ultimately show ?thesis using mt(1) r(1-4) by auto
qed

section \<open>A section that cannot be recovered\<close>

context simulated_handler
begin

lemma run_ops_prefix:
  assumes "rel h a" "all_dom ops a" "ok s"
  shows "\<exists>s' e' h'. ok s' \<and> rel h' (fold step ops a) \<and>
    (\<forall>rest. run_ops hdl s (ops @ rest) e f h = run_ops hdl s' rest e' (f + count_ops ops) h')"
  using assms
proof (induction ops arbitrary: s e f h a)
  case (Cons op ops)
  obtain s2 e2 f2 h2 where t: "op_turn hdl op e f h = (s2, e2, f2, h2)" by (metis prod_cases4)
  have "ok s2" "f2 = (if counts op then f + 1 else f)" "rel h2 (step op a)"
    using Cons.prems takes [of h a op e f] steps [of h a op e f] op_turn_counter [of hdl op e f h]
    by (simp_all add: t)
  moreover from this have "run_ops hdl s ((op # ops) @ rest) e f h = run_ops hdl s2 (ops @ rest) e2 f2 h2" for rest
    using goes_on [OF Cons.prems(1)] by (simp add: t)
  ultimately have turn: "ok s2" "f2 + count_ops ops = f + count_ops (op # ops)" "rel h2 (step op a)"
    "run_ops hdl s ((op # ops) @ rest) e f h = run_ops hdl s2 (ops @ rest) e2 f2 h2" for rest
    by (simp_all add: count_ops_def)
  from Cons.IH [OF turn(3) _ turn(1), of e2 f2] Cons.prems(2)
  obtain s' e' h' where "ok s'" "rel h' (fold step ops (step op a))"
    "\<And>rest. run_ops hdl s2 (ops @ rest) e2 f2 h2 = run_ops hdl s' rest e' (f2 + count_ops ops) h'"
    by auto
  with turn show ?case by (intro exI [of _ s'] exI [of _ e'] exI [of _ h']) (simp del: append_Cons)
qed (auto simp: count_ops_def)

end

lemma turn_begin_refused:
  assumes "recovering_log_number st \<noteq> 0" "ins_db st = Some db" "\<not> allow_2pc db"
    and "write_after_commit st" "\<not> write_before_prepare st"
  shows "\<exists>s. ok s \<and> op_turn (inserter_handler en) (OpBegin WriteCommitted) e f (Some st) = (s, False, f, Some st)"
  using assms by (simp add: op_turn.simps inserter_handler_def inserter_methods_def lift_method_def
    ins_MarkBeginPrepare_def begin_prepare_status_def)

context inserting
begin

lemma Iterate_without_2pc:
  assumes "recovering \<noteq> 0" "inserted st (sq, logs)" "db = Some d" "\<not> allow_2pc d"
    and "holds b q (OpBegin WriteCommitted # ops @ [OpEndPrepare x])"
    and "list_all (op_fits cfgs ignore recovering) ops" "numbers_fit sq (update_count ops)"
  shows "\<exists>st1 n un. iterate_with (inserter_handler en) b st = Some (OK, st1) \<and>
    ins_db st1 = Some (InsertRecoveredTransaction recovering x None n 0 un d) \<and>
    hold (ins_families st1) (\<lambda>cf. rev (updates_of cf sq ops) @ logs cf) \<and>
    ins_sequence st1 = sq + of_nat (update_count ops)"
proof -
  have m: "recovering_log_number t = recovering \<and> ins_db t = db \<and> write_after_commit t \<and> \<not> write_before_prepare t \<and>
      rebuilding_trx t = None \<and> \<not> seq_per_batch t \<and> hold (ins_families t) (snd a) \<and> ins_sequence t = fst a"
    if "inserted t a" for t a
    using that by (simp add: inserted_def committed_mode_def)
  obtain s0 where s0: "ok s0" "op_turn (inserter_handler en) (OpBegin WriteCommitted) True 0 (Some st) = (s0, False, 0, Some st)"
    using turn_begin_refused [of st d] m [OF assms(2)] assms(1,3,4) by blast
  have "stands_for (Some st) (sq, logs)" using assms(2) by (simp add: stands_for_def)
  from inserts.run_ops_prefix [OF this all_insertable [OF assms(6,7)] s0(1), of False 0]
  obtain s1 e1 st1 where r: "ok s1" "inserted st1 (sq + of_nat (update_count ops), \<lambda>cf. rev (updates_of cf sq ops) @ logs cf)"
      "run_ops (inserter_handler en) s0 (ops @ [OpEndPrepare x]) False 0 (Some st) =
        run_ops (inserter_handler en) s1 [OpEndPrepare x] e1 (count_ops ops) (Some st1)"
    by (auto simp: stands_for_def fold_insert_step)
  note m1 = m [OF r(2)]
  let ?st2 = "st1\<lparr>ins_db := Some (InsertRecoveredTransaction recovering x None (rebuilding_trx_seq st1) 0
    (unprepared_batch st1) d), rebuilding_trx := None\<rparr>"
  have turn: "\<exists>s. ok s \<and> op_turn (inserter_handler en) (OpEndPrepare x) e f (Some st1) = (s, True, f, Some ?st2)" for e f
    using m1 assms(1,3) by (simp add: op_turn.simps inserter_handler_def inserter_methods_def lift_method_def
      ins_MarkEndPrepare_def MaybeAdvanceSeq_def)
  then obtain s2 where s2: "ok s2"
      "op_turn (inserter_handler en) (OpEndPrepare x) e1 (count_ops ops) (Some st1) = (s2, True, count_ops ops, Some ?st2)"
    by blast
  have "Continue (inserter_handler en) h = (True, h)" for h
    by (simp add: inserter_handler_def inserter_methods_def)
  then have "run_ops (inserter_handler en) OK (OpBegin WriteCommitted # ops @ [OpEndPrepare x]) True 0 (Some st) =
      (Inr (s2, True, count_ops ops), Some ?st2)"
    using s0 r(3) s2 by simp
  then have "iterate_with (inserter_handler en) b st = Some (OK, ?st2)"
    using s2(1) by (simp add: iterate_with_def Iterate_holds [OF assms(5)] finish_ops_def count_ops_def)
  then show ?thesis using m1 by auto
qed

end

lemma begin_marker_refused:
  assumes "rec \<noteq> 0" "\<not> allow_2pc db"
  shows "MarkBeginPrepare (inserter_handler en) False
      (Some (MemTableInserter_new q fams fs ts ignore rec (Some db) False vw False True False)) =
    (NotSupported (str ''WAL contains prepared transactions. Open with TransactionDB::Open().'') [],
     Some (MemTableInserter_new q fams fs ts ignore rec (Some db) False vw False True False))"
  using assms by (simp add: inserter_handler_def inserter_methods_def lift_method_def ins_MarkBeginPrepare_def
      MemTableInserter_new_def)

text \<open>C36. A database without two-phase commit that finds a prepare section in its log: asked about the begin
  marker, the handler answers \<open>NotSupported\<close> and starts no transaction; the loop over the batch drops
  that answer, and recovery goes on and returns ok; the updates of a transaction that was never committed
  end in the memtables, where lookups find them, and the transaction is noted with no batch, so a later
  commit marker would go through a null pointer. The restrictions are those of a recovered commit: new families over the
  skip list, in the family looked at no blob index and no range that ends before it begins, and a merge
  operator that never asks for an early merge.\<close>

theorem prepared_applied_without_2pc:
  assumes "\<forall>cf d. fams cf = Some d \<longrightarrow> new_family d \<and> cfd_log_number d \<le> rec"
    and "rec \<noteq> 0" "\<not> allow_2pc db" "recovered_transactions db x = None"
    and "holds b q (OpBegin WriteCommitted # ops @ [OpEndPrepare x])"
    and "list_all (op_fits (settings_of fams) ignore rec) ops" "numbers_fit q (update_count ops)"
    and "fams cf = Some d" "ups = updates_of cf q ops"
    and "plain_log ups" "ranges_forward (mt_comparator (cfd_settings d)) ups"
    and "length u + 8 < 2 ^ 32" "s \<le> kMaxSequenceNumber" "fresh_args args y"
    and "mt_merge_operator (cfd_settings d) = Some mo" "\<forall>l. \<not> ShouldMerge mo l" "\<not> ignore_range_deletions ro"
    and "st0 = MemTableInserter_new q fams fs ts ignore rec (Some db) False vw False True False"
  shows "MarkBeginPrepare (inserter_handler en) False (Some st0) =
      (NotSupported (str ''WAL contains prepared transactions. Open with TransactionDB::Open().'') [], Some st0)
  \<and> (\<exists>st db2 t d2 found args' mt'.
    InsertInto_batch en b fams fs ts ignore rec (Some db) False vw False True =
      Some (OK, q + of_nat (update_count ops), st) \<and>
    ins_db st = Some db2 \<and> recovered_transactions db2 x = Some t \<and>
    map (bi_batch \<circ> snd) (rt_batches t) = [None] \<and> ins_families st cf = Some d2 \<and>
    mt_Get (cfd_settings d2) (LookupKey_new u s None) args ro None True (cfd_mem d2) = Some (found, args', mt') \<and>
    lookup_shows mo u y
      (resolve (covering_seq (mt_comparator (cfd_settings d)) s u (rev ups)) [] (visible_versions s u (rev ups)))
      found args')"
proof -
  have refused: "MarkBeginPrepare (inserter_handler en) False (Some st0) =
      (NotSupported (str ''WAL contains prepared transactions. Open with TransactionDB::Open().'') [], Some st0)"
    using assms(2,3) unfolding assms(18) by (rule begin_marker_refused)
  have ins: "inserting (settings_of fams) (family_rel fams)"
    using assms(1) by (intro skiplist_inserting) (simp add: new_family_def)
  obtain st n un where run: "iterate_with (inserter_handler en) b
      (MemTableInserter_new q fams fs ts ignore rec (Some db) False vw False True False) = Some (OK, st)"
    and db2: "ins_db st = Some (InsertRecoveredTransaction rec x None n 0 un db)"
    and hold: "families_hold (settings_of fams) (family_rel fams) rec (ins_families st)
      (\<lambda>cf. rev (updates_of cf q ops) @ [])"
    and seq: "ins_sequence st = q + of_nat (update_count ops)"
    using inserting.Iterate_without_2pc [OF ins assms(2) new_recovering [OF assms(1)] refl assms(3,5-7)] by (simp, blast)
  obtain d2 where d2: "ins_families st cf = Some d2"
    using inserting.hold_missing [OF ins hold, of cf] assms(8) by auto
  with inserting.hold_family [OF ins hold, of cf d2] assms(8,9)
  have same: "cfd_settings d2 = cfd_settings d" "family_rel fams cf (cfd_mem d2) (rev ups)" by simp_all
  have logs: "plain_log (rev ups)" "ranges_forward (mt_comparator (cfd_settings d)) (rev ups)"
    using assms(10,11) by (simp_all add: plain_log_def ranges_forward_def)
  have new: "new_family d" using assms(1,8) by blast
  have run': "InsertInto_batch en b fams fs ts ignore rec (Some db) False vw False True =
      Some (OK, q + of_nat (update_count ops), st)"
    using run seq holds_Sequence [OF assms(5)] by (simp add: InsertInto_batch_def)
  have "recovered_transactions (InsertRecoveredTransaction rec x None n 0 un db) x =
      Some (RecoveredTransaction_new rec x None n 0 un)"
    using assms(4) by (simp add: InsertRecoveredTransaction_def)
  moreover have "map (bi_batch \<circ> snd) (rt_batches (RecoveredTransaction_new rec x None n 0 un)) = [None]"
    by (simp add: RecoveredTransaction_new_def)
  moreover from family_Get [OF new assms(8) same(2) logs assms(12-17)]
  obtain found args' mt' where "mt_Get (cfd_settings d2) (LookupKey_new u s None) args ro None True (cfd_mem d2) =
      Some (found, args', mt')" "lookup_shows mo u y
      (resolve (covering_seq (mt_comparator (cfd_settings d)) s u (rev ups)) [] (visible_versions s u (rev ups)))
      found args'" using same(1) by auto
  ultimately show ?thesis using refused run' db2 d2 by (intro exI conjI)
qed

lemma prepared_applied_without_2pc_witness:
  "\<exists>mt st d2 args' mt'.
    skiplist_memtable_new sample_settings sample_readings 0 301 1000 0 = Some mt \<and>
    InsertInto_batch sample_engine (prepared_batch [OpPut 0 [1] [42]] [9]) [0 \<mapsto> sample_family mt] None None False 1
      (Some (sample_db False)) False None False True = Some (OK, 6, st) \<and>
    ins_families st 0 = Some d2 \<and>
    mt_Get (cfd_settings d2) (LookupKey_new [1] 20 None) sample_args ReadOptions_new None True (cfd_mem d2) =
      Some (True, args', mt') \<and> la_status args' = OK \<and> la_value args' = Some [42]"
proof -
  obtain mt where mt: "skiplist_memtable_new sample_settings sample_readings 0 301 1000 0 = Some mt"
      "new_family (sample_family mt)" using sample_memtable .
  let ?ups = "updates_of 0 5 [OpPut 0 [1] [42]]"
  have new: "\<forall>cf d. [0 \<mapsto> sample_family mt] cf = Some d \<longrightarrow> new_family d \<and> cfd_log_number d \<le> 1"
    using mt(2) by (auto simp: sample_family_def split: if_splits)
  have db: "(1 :: u64) \<noteq> 0" "\<not> allow_2pc (sample_db False)" "recovered_transactions (sample_db False) [9] = None"
    by (simp_all add: sample_db_def)
  have b: "holds (prepared_batch [OpPut 0 [1] [42]] [9]) 5 (OpBegin WriteCommitted # [OpPut 0 [1] [42]] @ [OpEndPrepare [9]])"
    by (rule prepared_batch_holds) (simp_all add: str_ok_def)
  have fits: "list_all (op_fits (settings_of [0 \<mapsto> sample_family mt]) False 1) [OpPut 0 [1] [42]]"
      "numbers_fit 5 (update_count [OpPut 0 [1] [42]])"
    by (simp_all add: op_fits_def update_count_def numbers_fit_def)
  have d: "[0 \<mapsto> sample_family mt] 0 = Some (sample_family mt)" by simp
  have ups: "plain_log ?ups" "ranges_forward (mt_comparator (cfd_settings (sample_family mt))) ?ups"
    by (simp_all add: plain_log_def plain_type_def ranges_forward_def is_range_def)
  have args: "length [1 :: byte] + 8 < 2 ^ 32" "20 \<le> kMaxSequenceNumber"
      "mt_merge_operator (cfd_settings (sample_family mt)) = Some UInt64AddOperator"
      "\<not> ignore_range_deletions ReadOptions_new"
    by (simp_all add: kMaxSequenceNumber_def ReadOptions_new_def sample_family_def sample_settings_def)
  have out: "resolve (covering_seq (mt_comparator (cfd_settings (sample_family mt))) 20 [1] (rev ?ups)) []
      (visible_versions 20 [1] (rev ?ups)) = Decided (Some [42]) []"
    by (simp add: sample_family_def sample_settings_def covering_seq_def visible_versions_def is_range_def)
  have dec: "decided UInt64AddOperator [1] (Some [42]) [] [] = (OK, [42])" by (simp add: decided_def)
  obtain st d2 found args' mt' where
      r: "InsertInto_batch sample_engine (prepared_batch [OpPut 0 [1] [42]] [9]) [0 \<mapsto> sample_family mt] None None False 1
        (Some (sample_db False)) False None False True = Some (OK, 5 + of_nat (update_count [OpPut 0 [1] [42]]), st)"
      "ins_families st 0 = Some d2"
      "mt_Get (cfd_settings d2) (LookupKey_new [1] 20 None) sample_args ReadOptions_new None True (cfd_mem d2) =
        Some (found, args', mt')"
      "lookup_shows UInt64AddOperator [1] [] (Decided (Some [42]) []) found args'"
    using prepared_applied_without_2pc [OF new db b fits d refl ups args(1,2) sample_ok(4) args(3) uint64_ShouldMerge
      args(4) refl, where en = sample_engine and fs = None and ts = None and vw = None]
    unfolding out by blast
  have "found = True" "la_status args' = OK" "la_value args' = Some [42]"
    using r(4) unfolding lookup_shows_def lookup_outcome.case dec by simp_all
  moreover have "(5 :: u64) + of_nat (update_count [OpPut 0 [1] [42]]) = 6" by (simp add: update_count_def)
  ultimately show ?thesis using mt(1) r(1-3) by auto
qed

end
