(* ===== verification/WalReplay.thy ===== *)
theory WalReplay
  imports LogRecovery InserterRecovery
begin

text \<open>
  Replaying the write-ahead logs when a database is opened: \<^verbatim>\<open>DBImpl::RecoverLogFiles\<close> of
  db/db_impl/db_impl_open.cc. It reads the records of each log, inserts the batches they hold into the
  memtables of the column families, writes memtables that are full to level 0, and decides after each log
  whether what the reader reported ends the recovery, is ignored or stops the replay.

  The logs, the filter of the user and the manifest are fields of \<open>RecoveryEnv\<close>. The status that the reader's
  reporter sets is the local variable of the function, as in the code.
\<close>

section \<open>What the function works on\<close>

datatype WalProcessingOption = kContinueProcessing | kIgnoreCurrentRecord | kStopReplay | kCorruptedRecord

text \<open>
  The calls of the filter are numbered, because its answer may depend on the calls before; the last two
  components of the answer are the new batch and whether the batch was changed.
\<close>

record WalFilter =
  wf_Name :: bytes
  LogRecordFound :: "nat \<Rightarrow> u64 \<Rightarrow> WriteBatch \<Rightarrow> WalProcessingOption \<times> WriteBatch \<times> bool"

record ('t, 'i, 'g) RecoveryEnv =
  re_mode :: WALRecoveryMode
  paranoid_checks :: bool
  re_read_only :: bool
  avoid_flush_during_recovery :: bool
  re_seq_per_batch :: bool
  re_batch_per_txn :: bool
  MinLogNumberToKeep :: u64
  re_column_families :: "u32 list"
  re_engine :: "nat \<Rightarrow> ('t, 'i) engine"
  re_source :: "'g source"
  NewSequentialFile :: "u64 \<Rightarrow> Status \<times> 'g"
  wal_filter :: "WalFilter option"
  WriteLevel0Table :: "u32 \<Rightarrow> 't MemTable \<Rightarrow> Status"
  CreateNewMemtable :: "u32 \<Rightarrow> SequenceNumber \<Rightarrow> 't MemTable"
  LogAndApply :: "u32 \<Rightarrow> u64 option \<Rightarrow> 't MemTable list \<Rightarrow> Status"
  RestoreAliveLogFiles :: "u64 list \<Rightarrow> Status"

text \<open>
  The local variables of the function and the state of the database that it changes. \<open>rc_level0\<close> lists the
  memtables written to level 0, which the version edits of their families then name; the three last
  sequence numbers of the version set are one.
\<close>

record ('t, 'i) Recovery =
  rc_families :: "('t, 'i) families"
  rc_db :: DBImpl
  rc_flush :: "u32 list"
  rc_trim :: "u32 list"
  rc_status :: Status
  rc_next_sequence :: SequenceNumber
  stop_replay_by_wal_filter :: bool
  stop_replay_for_corruption :: bool
  corrupted_log_number :: u64
  rc_flushed :: bool
  rc_last_sequence :: SequenceNumber
  next_file_number :: u64
  rc_level0 :: "(u32 \<times> 't MemTable) list"
  rc_inserts :: nat
  rc_filter_calls :: nat

definition MarkFileNumberUsed :: "u64 \<Rightarrow> ('t, 'i) Recovery \<Rightarrow> ('t, 'i) Recovery" where
  "MarkFileNumberUsed number st =
     (if next_file_number st \<le> number then st\<lparr>next_file_number := number + 1\<rparr> else st)"

definition MaybeIgnoreError :: "('t, 'i, 'g) RecoveryEnv \<Rightarrow> Status \<Rightarrow> Status" where
  "MaybeIgnoreError E s = (if ok s \<or> paranoid_checks E then s else OK)"

text \<open>Reporters that have no status only log.\<close>

definition reporter_Corruption ::
  "('t, 'i, 'g) RecoveryEnv \<Rightarrow> Status \<Rightarrow> ('t, 'i) Recovery \<Rightarrow> ('t, 'i) Recovery" where
  "reporter_Corruption E s st =
     (if paranoid_checks E \<and> re_mode E \<noteq> kSkipAnyCorruptedRecords \<and> ok (rc_status st)
      then st\<lparr>rc_status := s\<rparr> else st)"

section \<open>One record\<close>

datatype flow = Go_on | Break_loop | Return_status

text \<open>The memtables scheduled for a flush, from the head of the scheduler on; dropped families are passed over.\<close>

fun flush_scheduled ::
  "('t, 'i, 'g) RecoveryEnv \<Rightarrow> u32 list \<Rightarrow> ('t, 'i) Recovery \<Rightarrow> flow \<times> ('t, 'i) Recovery" where
  "flush_scheduled E [] st = (Go_on, st\<lparr>rc_flush := []\<rparr>)"
| "flush_scheduled E (cf # q) st =
     (case rc_families st cf of
        None \<Rightarrow> flush_scheduled E q st
      | Some d \<Rightarrow>
          (let s = WriteLevel0Table E cf (cfd_mem d);
               st1 = st\<lparr>rc_flush := q, rc_status := s,
                        rc_families := (rc_families st)(cf \<mapsto> d\<lparr>cfd_refs := cfd_refs d - 1\<rparr>)\<rparr>
           in if \<not> ok s then (Return_status, st1)
              else flush_scheduled E q
                     (st1\<lparr>rc_flushed := True, rc_level0 := rc_level0 st @ [(cf, cfd_mem d)],
                          rc_families := (rc_families st)(cf \<mapsto>
                            d\<lparr>cfd_refs := cfd_refs d - 1, cfd_mem := CreateNewMemtable E cf (rc_next_sequence st)\<rparr>)\<rparr>)))"

definition replay_batch ::
  "('t, 'i, 'g) RecoveryEnv \<Rightarrow> u64 \<Rightarrow> WriteBatch \<Rightarrow> ('t, 'i) Recovery \<Rightarrow> (flow \<times> ('t, 'i) Recovery) option"
where
  "replay_batch E log batch st =
     Option.bind
       (InsertInto_batch (re_engine E (rc_inserts st)) batch (rc_families st) (Some (rc_flush st)) (Some (rc_trim st))
          True log (Some (rc_db st)) False (Some False) (re_seq_per_batch E) (re_batch_per_txn E))
       (\<lambda>(s, seq, ins).
          let status = MaybeIgnoreError E s;
              st1 = st\<lparr>rc_families := ins_families ins, rc_db := the (ins_db ins),
                       rc_flush := the (flush_scheduler ins), rc_trim := the (trim_history_scheduler ins),
                       rc_next_sequence := seq, rc_inserts := rc_inserts st + 1, rc_status := status\<rparr>
          in Some (if \<not> ok status then (Go_on, reporter_Corruption E status st1)
                   else if the (has_valid_writes ins) \<and> \<not> re_read_only E then flush_scheduled E (rc_flush st1) st1
                   else (Go_on, st1)))"

text \<open>What the filter answered; the batch is inserted where it is to be.\<close>

definition filter_batch ::
  "('t, 'i, 'g) RecoveryEnv \<Rightarrow> u64 \<Rightarrow> WalFilter \<Rightarrow> WriteBatch \<Rightarrow> ('t, 'i) Recovery \<Rightarrow>
     (flow \<times> ('t, 'i) Recovery) option"
where
  "filter_batch E log f batch st0 =
     (let (option, new_batch, changed) = LogRecordFound f (rc_filter_calls st0) log batch;
          st = st0\<lparr>rc_filter_calls := rc_filter_calls st0 + 1\<rparr>;
          go_on = (\<lambda>st.
            if changed
            then
              (if sint (wb_Count new_batch) > sint (wb_Count batch)
               then Some (Return_status, st\<lparr>rc_status :=
                      NotSupported (str ''More than original # of records returned by Wal Filter '') (wf_Name f)\<rparr>)
               else replay_batch E log (wb_SetSequence new_batch (wb_Sequence batch)) st)
            else replay_batch E log batch st)
      in case option of
           kContinueProcessing \<Rightarrow> go_on st
         | kIgnoreCurrentRecord \<Rightarrow> Some (Go_on, st)
         | kStopReplay \<Rightarrow> Some (Go_on, st\<lparr>stop_replay_by_wal_filter := True\<rparr>)
         | kCorruptedRecord \<Rightarrow>
             (let status = MaybeIgnoreError E (Corruption (str ''Corruption reported by Wal Filter '') (wf_Name f));
                  st1 = st\<lparr>rc_status := status\<rparr>
              in if \<not> ok status then Some (Go_on, reporter_Corruption E status st1) else go_on st1))"

definition replay_record ::
  "('t, 'i, 'g) RecoveryEnv \<Rightarrow> u64 \<Rightarrow> bytes \<Rightarrow> ('t, 'i) Recovery \<Rightarrow> (flow \<times> ('t, 'i) Recovery) option"
where
  "replay_record E log contents st =
     (if length contents < kHeader
      then Some (Go_on, reporter_Corruption E (Corruption (str ''log record too small'') []) st)
      else
        (let batch = snd (wb_SetContents (WriteBatch_new 0 0) contents);
             st1 = (if re_mode E = kPointInTimeRecovery \<and> wb_Sequence batch = rc_next_sequence st
                    then st\<lparr>stop_replay_for_corruption := False\<rparr> else st)
         in if re_mode E = kPointInTimeRecovery \<and> stop_replay_for_corruption st1 then Some (Break_loop, st1)
            else
              (case wal_filter E of
                 None \<Rightarrow> replay_batch E log batch st1
               | Some f \<Rightarrow> filter_batch E log f batch st1)))"

section \<open>One log\<close>

text \<open>\<open>True\<close>: the function returns.\<close>

partial_function (option) replay_loop ::
  "('t, 'i, 'g) RecoveryEnv \<Rightarrow> u64 \<Rightarrow> 'g log_reader \<Rightarrow> ('t, 'i) Recovery \<Rightarrow> (bool \<times> ('t, 'i) Recovery) option"
where
  "replay_loop E log r st =
     (if stop_replay_by_wal_filter st then Some (False, st)
      else
        Option.bind (ReadRecord (re_source E) (re_mode E) r) (\<lambda>(got, contents, scr, r1).
          let st1 = fold (reporter_Corruption E) (map snd (drop (length (reports r)) (reports r1))) st
          in if \<not> (got \<and> ok (rc_status st1)) then Some (False, st1)
             else
               Option.bind (replay_record E log contents st1) (\<lambda>(flow, st2).
                 case flow of
                   Go_on \<Rightarrow> replay_loop E log r1 st2
                 | Break_loop \<Rightarrow> Some (False, st2)
                 | Return_status \<Rightarrow> Some (True, st2))))"

definition clear_scheduler :: "u32 list \<Rightarrow> ('t, 'i) families \<Rightarrow> ('t, 'i) families" where
  "clear_scheduler q fams =
     fold (\<lambda>cf f. case f cf of None \<Rightarrow> f | Some d \<Rightarrow> f(cf \<mapsto> d\<lparr>cfd_refs := cfd_refs d - 1\<rparr>)) q fams"

definition after_log ::
  "('t, 'i, 'g) RecoveryEnv \<Rightarrow> u64 \<Rightarrow> ('t, 'i) Recovery \<Rightarrow> bool \<times> ('t, 'i) Recovery"
where
  "after_log E log st =
     (let go_on = (\<lambda>st.
            let st1 = st\<lparr>rc_families := clear_scheduler (rc_trim st) (clear_scheduler (rc_flush st) (rc_families st)),
                         rc_flush := [], rc_trim := []\<rparr>;
                last_sequence = rc_next_sequence st - 1
            in (False, if rc_next_sequence st \<noteq> kMaxSequenceNumber \<and> rc_last_sequence st \<le> last_sequence
                       then st1\<lparr>rc_last_sequence := last_sequence\<rparr> else st1))
      in if ok (rc_status st) then go_on st
         else if IsNotSupported (rc_status st) then (True, st)
         else if re_mode E = kSkipAnyCorruptedRecords then go_on (st\<lparr>rc_status := OK\<rparr>)
         else if re_mode E = kPointInTimeRecovery
         then go_on (st\<lparr>rc_status := OK, stop_replay_for_corruption := True, corrupted_log_number := log\<rparr>)
         else (True, st))"

definition replay_log ::
  "('t, 'i, 'g) RecoveryEnv \<Rightarrow> u64 \<Rightarrow> ('t, 'i) Recovery \<Rightarrow> (bool \<times> ('t, 'i) Recovery) option"
where
  "replay_log E log st0 =
     (if log < MinLogNumberToKeep E then Some (False, st0)
      else
        (let st = MarkFileNumberUsed log st0
         in if stop_replay_by_wal_filter st then Some (False, st)
            else
              (case NewSequentialFile E log of
                 (s, file) \<Rightarrow>
                   if \<not> ok s
                   then (let status = MaybeIgnoreError E s in Some (\<not> ok status, st\<lparr>rc_status := status\<rparr>))
                   else
                     map_option (\<lambda>(returned, st1). if returned then (True, st1) else after_log E log st1)
                       (replay_loop E log (Reader_new file True True log) (st\<lparr>rc_status := s\<rparr>)))))"

section \<open>All logs\<close>

fun replay_logs ::
  "('t, 'i, 'g) RecoveryEnv \<Rightarrow> u64 list \<Rightarrow> ('t, 'i) Recovery \<Rightarrow> (bool \<times> ('t, 'i) Recovery) option"
where
  "replay_logs E [] st = Some (False, st)"
| "replay_logs E (log # logs) st =
     Option.bind (replay_log E log st) (\<lambda>(returned, st1).
       if returned then Some (True, st1) else replay_logs E logs st1)"

definition sst_ahead :: "('t, 'i, 'g) RecoveryEnv \<Rightarrow> ('t, 'i) Recovery \<Rightarrow> bool" where
  "sst_ahead E st \<longleftrightarrow>
     stop_replay_for_corruption st \<and> (re_mode E = kPointInTimeRecovery \<or> re_mode E = kTolerateCorruptedTailRecords) \<and>
     list_ex (\<lambda>cf. case rc_families st cf of None \<Rightarrow> False | Some d \<Rightarrow> cfd_log_number d > corrupted_log_number st)
       (re_column_families E)"

text \<open>Flushing what is left and recording it in the manifest; the first component is \<^verbatim>\<open>data_seen\<close>.\<close>

fun record_families ::
  "('t, 'i, 'g) RecoveryEnv \<Rightarrow> u64 \<Rightarrow> u32 list \<Rightarrow> bool \<Rightarrow> ('t, 'i) Recovery \<Rightarrow> bool \<times> ('t, 'i) Recovery"
where
  "record_families E max_log [] seen st = (seen, st)"
| "record_families E max_log (cf # cfs) seen st =
     (case rc_families st cf of
        None \<Rightarrow> record_families E max_log cfs seen st
      | Some d \<Rightarrow>
          (if cfd_log_number d > max_log then record_families E max_log cfs seen st
           else
             (let nonempty = (first_seqno (cfd_mem d) \<noteq> 0);
                  flush = (nonempty \<and> (rc_flushed st \<or> \<not> avoid_flush_during_recovery E));
                  s = (if flush then WriteLevel0Table E cf (cfd_mem d) else OK);
                  st1 = (if flush then st\<lparr>rc_status := s\<rparr> else st)
              in if \<not> ok s then (seen, st1)
                 else
                   (let mem = (if flush then CreateNewMemtable E cf (rc_last_sequence st) else cfd_mem d);
                        st2 = (if flush
                               then st1\<lparr>rc_flushed := True, rc_level0 := rc_level0 st @ [(cf, cfd_mem d)],
                                        rc_families := (rc_families st)(cf \<mapsto> d\<lparr>cfd_mem := mem\<rparr>)\<rparr>
                               else st1);
                        log_number = (if rc_flushed st2 \<or> first_seqno mem = 0 then Some (max_log + 1) else None);
                        st3 = MarkFileNumberUsed (max_log + 1) st2;
                        s' = LogAndApply E cf log_number (map snd (filter (\<lambda>x. fst x = cf) (rc_level0 st3)));
                        st4 = st3\<lparr>rc_status := s'\<rparr>
                    in if \<not> ok s' then (seen \<or> nonempty, st4)
                       else record_families E max_log cfs (seen \<or> nonempty) st4))))"

definition finish_recovery ::
  "('t, 'i, 'g) RecoveryEnv \<Rightarrow> u64 list \<Rightarrow> ('t, 'i) Recovery \<Rightarrow> ('t, 'i) Recovery"
where
  "finish_recovery E logs st =
     (if sst_ahead E st then st\<lparr>rc_status := Corruption (str ''SST file is ahead of WALs'') []\<rparr>
      else
        (let (seen, st1) = (if \<not> re_read_only E then record_families E (last logs) (re_column_families E) False st
                            else (False, st))
         in if ok (rc_status st1) \<and> seen \<and> \<not> rc_flushed st1
            then st1\<lparr>rc_status := RestoreAliveLogFiles E logs\<rparr> else st1))"

text \<open>The status is \<open>rc_status\<close> of the result.\<close>

definition RecoverLogFiles ::
  "('t, 'i, 'g) RecoveryEnv \<Rightarrow> u64 list \<Rightarrow> ('t, 'i) Recovery \<Rightarrow> ('t, 'i) Recovery option"
where
  "RecoverLogFiles E logs st0 =
     map_option (\<lambda>(returned, st). if returned then st else finish_recovery E logs st)
       (replay_logs E logs
          (st0\<lparr>rc_status := OK, stop_replay_by_wal_filter := False, stop_replay_for_corruption := False,
               corrupted_log_number := kMaxSequenceNumber, rc_flushed := False, rc_level0 := []\<rparr>))"

end
