(* ===== verification/RecoverySpec.thy ===== *)
theory RecoverySpec
  imports WalReplay
begin

text \<open>
  What opening a database brings back: the batches whose records were in the logs when the process
  stopped, in their order, and nothing else.
\<close>

section \<open>Numbered batches\<close>

type_synonym numbered_batch = "SequenceNumber \<times> batch_op list"

definition batch_record :: "numbered_batch \<Rightarrow> bytes" where
  "batch_record b = batch_rep (fst b) (snd b)"

definition batch_updates :: "u32 \<Rightarrow> numbered_batch list \<Rightarrow> version list" where
  "batch_updates cf bs = concat (map (\<lambda>b. updates_of cf (fst b) (snd b)) bs)"

definition number_after :: "numbered_batch \<Rightarrow> SequenceNumber" where
  "number_after b = fst b + of_nat (update_count (snd b))"

definition next_number :: "SequenceNumber \<Rightarrow> numbered_batch list \<Rightarrow> SequenceNumber" where
  "next_number sq bs = (if bs = [] then sq else number_after (last bs))"

text \<open>The numbers of a batch begin after those of the batch before.\<close>

fun ascending :: "SequenceNumber \<Rightarrow> numbered_batch list \<Rightarrow> bool" where
  "ascending sq [] \<longleftrightarrow> True"
| "ascending sq (b # bs) \<longleftrightarrow>
     sq \<le> fst b \<and> numbers_fit (fst b) (update_count (snd b)) \<and> ascending (number_after b) bs"

definition recoverable :: "(u32 \<rightharpoonup> ('t, 'i) MemTableSettings) \<Rightarrow> numbered_batch \<Rightarrow> bool" where
  "recoverable cfgs b \<longleftrightarrow> list_all op_ok (snd b) \<and> list_all (op_fits cfgs True 1) (snd b)"

lemma ascending_append:
  "ascending sq (xs @ ys) \<longleftrightarrow> ascending sq xs \<and> ascending (next_number sq xs) ys"
  by (induction xs arbitrary: sq) (auto simp: next_number_def)

lemma next_number_append: "next_number sq (xs @ ys) = next_number (next_number sq xs) ys"
  by (simp add: next_number_def)

lemma batch_updates_simps [simp]:
  "batch_updates cf [] = []" "batch_updates cf (b # bs) = updates_of cf (fst b) (snd b) @ batch_updates cf bs"
  "batch_updates cf (xs @ ys) = batch_updates cf xs @ batch_updates cf ys"
  by (simp_all add: batch_updates_def)

lemma op_fits_recovering: "rec \<noteq> 0 \<Longrightarrow> op_fits cfgs ignore rec = op_fits cfgs ignore 1"
  by (intro ext) (simp add: op_fits_def split: option.split)

lemma numbers_below_mono: "sq \<le> q \<Longrightarrow> numbers_below sq logs \<Longrightarrow> numbers_below q logs"
  by (fastforce simp: numbers_below_def)

lemma families_hold_later:
  "families_hold cfgs mrel rec fams logs \<Longrightarrow> rec \<noteq> 0 \<Longrightarrow> rec \<le> rec' \<Longrightarrow> families_hold cfgs mrel rec' fams logs"
  unfolding families_hold_def by (fastforce split: option.splits)

lemma batch_record_contents:
  "list_all op_ok (snd b) \<Longrightarrow> holds (snd (wb_SetContents (WriteBatch_new 0 0) (batch_record b))) (fst b) (snd b)"
  by (simp add: holds_def wb_SetContents_def batch_record_def)

lemma length_batch_record: "kHeader \<le> length (batch_record b)"
  by (simp add: batch_record_def batch_rep_def kHeader_def)

section \<open>One batch\<close>

text \<open>
  How the recovery is set up here: committed updates, no filter, the database is opened for reading, so that
  the memtables are not written out.
\<close>

definition plain_recovery :: "('t, 'i, 'g) RecoveryEnv \<Rightarrow> bool" where
  "plain_recovery E \<longleftrightarrow>
     re_read_only E \<and> \<not> re_seq_per_batch E \<and> re_batch_per_txn E \<and> wal_filter E = None"

definition quiet :: "('t, 'i) Recovery \<Rightarrow> bool" where
  "quiet st \<longleftrightarrow> ok (rc_status st) \<and> \<not> stop_replay_by_wal_filter st \<and> \<not> stop_replay_for_corruption st"

definition recovered ::
  "(u32 \<rightharpoonup> ('t, 'i) MemTableSettings) \<Rightarrow> (u32 \<Rightarrow> 't MemTable \<Rightarrow> version list \<Rightarrow> bool) \<Rightarrow> u64 \<Rightarrow>
     SequenceNumber \<Rightarrow> (u32 \<Rightarrow> version list) \<Rightarrow> ('t, 'i) Recovery \<Rightarrow> bool"
where
  "recovered cfgs mrel rec sq logs st \<longleftrightarrow>
     quiet st \<and> families_hold cfgs mrel rec (rc_families st) logs \<and> numbers_below sq logs"

context inserting
begin

lemma replay_batch_inserts:
  assumes E: "plain_recovery E" and rec: "recovering \<noteq> 0" and st: "recovered cfgs mrel recovering sq logs st"
    and b: "holds wb (fst b) (snd b)" "list_all (op_fits cfgs True 1) (snd b)" "sq \<le> fst b"
    and fit: "numbers_fit (fst b) (update_count (snd b))"
  shows "\<exists>st'. replay_batch E recovering wb st = Some (Go_on, st') \<and>
    recovered cfgs mrel recovering (number_after b) (\<lambda>cf. rev (updates_of cf (fst b) (snd b)) @ logs cf) st' \<and>
    rc_next_sequence st' = number_after b"
proof -
  let ?st = "MemTableInserter_new (fst b) (rc_families st) (Some (rc_flush st)) (Some (rc_trim st)) True recovering
    (Some (rc_db st)) False (Some False) False True False"
  have ins: "inserting cfgs mrel" by unfold_locales
  have hold: "families_hold cfgs mrel recovering (rc_families st) logs" "numbers_below (fst b) logs"
    using st numbers_below_mono [OF b(3)] by (simp_all add: recovered_def)
  have start: "inserting.inserted cfgs mrel True recovering (Some (rc_db st)) ?st (fst b, logs)"
    unfolding inserting.inserted_def [OF ins] using hold rec
    by (simp add: committed_mode_def MemTableInserter_new_def)
  have fits: "list_all (op_fits cfgs True recovering) (snd b)" using b(2) unfolding op_fits_recovering [OF rec] .
  obtain st' where run: "iterate_with (inserter_handler (re_engine E (rc_inserts st))) wb ?st = Some (OK, st')"
    and st': "inserting.inserted cfgs mrel True recovering (Some (rc_db st)) st'
      (number_after b, \<lambda>cf. rev (updates_of cf (fst b) (snd b)) @ logs cf)"
    using inserting.Iterate_inserts [OF ins b(1) start fits fit, of "re_engine E (rc_inserts st)"]
    unfolding number_after_def by blast
  have insert: "InsertInto_batch (re_engine E (rc_inserts st)) wb (rc_families st) (Some (rc_flush st)) (Some (rc_trim st))
      True recovering (Some (rc_db st)) False (Some False) (re_seq_per_batch E) (re_batch_per_txn E) =
      Some (OK, ins_sequence st', st')"
    using run E holds_Sequence [OF b(1)] by (simp add: InsertInto_batch_def plain_recovery_def)
  have "families_hold cfgs mrel recovering (ins_families st') (\<lambda>cf. rev (updates_of cf (fst b) (snd b)) @ logs cf)"
    "numbers_below (number_after b) (\<lambda>cf. rev (updates_of cf (fst b) (snd b)) @ logs cf)" "ins_sequence st' = number_after b"
    using st' by (simp_all add: inserting.inserted_def [OF ins])
  with insert st E show ?thesis
    by (simp add: replay_batch_def recovered_def quiet_def plain_recovery_def MaybeIgnoreError_def Let_def)
qed

lemma replay_record_inserts:
  assumes E: "plain_recovery E" and rec: "recovering \<noteq> 0" and st: "recovered cfgs mrel recovering sq logs st"
    and b: "recoverable cfgs b" "sq \<le> fst b" "numbers_fit (fst b) (update_count (snd b))"
  shows "\<exists>st'. replay_record E recovering (batch_record b) st = Some (Go_on, st') \<and>
    recovered cfgs mrel recovering (number_after b) (\<lambda>cf. rev (updates_of cf (fst b) (snd b)) @ logs cf) st' \<and>
    rc_next_sequence st' = number_after b"
proof -
  have ops: "list_all op_ok (snd b)" "list_all (op_fits cfgs True 1) (snd b)"
    using b(1) by (simp_all add: recoverable_def)
  have same: "(if P then st\<lparr>stop_replay_for_corruption := False\<rparr> else st) = st" for P
    using st by (simp add: recovered_def quiet_def)
  have "\<not> length (batch_record b) < kHeader" "wal_filter E = None" "\<not> stop_replay_for_corruption st"
    using length_batch_record [of b] E st by (simp_all add: plain_recovery_def recovered_def quiet_def)
  then have "replay_record E recovering (batch_record b) st =
      replay_batch E recovering (snd (wb_SetContents (WriteBatch_new 0 0) (batch_record b))) st"
    unfolding replay_record_def Let_def same by simp
  with replay_batch_inserts [OF E rec st batch_record_contents [OF ops(1)] ops(2) b(2,3)] show ?thesis by simp
qed

lemma replay_loop_inserts:
  assumes E: "plain_recovery E" and rec: "recovering \<noteq> 0"
    and "reads_quietly (re_source E) (re_mode E) r (map batch_record bs)" "reports r = []"
    and "recovered cfgs mrel recovering sq logs st" "list_all (recoverable cfgs) bs" "ascending sq bs"
  shows "\<exists>st'. replay_loop E recovering r st = Some (False, st') \<and>
    recovered cfgs mrel recovering (next_number sq bs) (\<lambda>cf. rev (batch_updates cf bs) @ logs cf) st' \<and>
    rc_next_sequence st' = next_number (rc_next_sequence st) bs"
  using assms(3-7)
proof (induction bs arbitrary: r st sq logs)
  case Nil
  then obtain rec scr r' where "ReadRecord (re_source E) (re_mode E) r = Some (False, rec, scr, r')" "reports r' = []"
    by auto
  with Nil show ?case
    by (simp add: replay_loop.simps [of E recovering r st] recovered_def quiet_def next_number_def)
next
  case (Cons b bs)
  obtain scr r1 where r1: "ReadRecord (re_source E) (re_mode E) r = Some (True, batch_record b, scr, r1)"
    "reports r1 = []" "reads_quietly (re_source E) (re_mode E) r1 (map batch_record bs)"
    using Cons.prems(1) by auto
  obtain st1 where st1: "replay_record E recovering (batch_record b) st = Some (Go_on, st1)"
    "recovered cfgs mrel recovering (number_after b) (\<lambda>cf. rev (updates_of cf (fst b) (snd b)) @ logs cf) st1"
    "rc_next_sequence st1 = number_after b"
    using replay_record_inserts [OF E rec Cons.prems(3), of b] Cons.prems(4,5) by auto
  have "replay_loop E recovering r st = replay_loop E recovering r1 st1"
    using r1 st1(1) Cons.prems(2,3)
    by (simp add: replay_loop.simps [of E recovering r st] recovered_def quiet_def)
  with Cons.IH [OF r1(3,2) st1(2)] Cons.prems(4,5) st1(3) show ?case
    by (cases bs) (simp_all add: next_number_def)
qed

end

section \<open>All logs\<close>

text \<open>
  A log as a crash leaves it: its number, the number of bytes of its file that are there, how many of the
  batches written to it lie wholly in them, and the batches.
\<close>

type_synonym log_image = "u64 \<times> nat \<times> nat \<times> numbered_batch list"

abbreviation img_number :: "log_image \<Rightarrow> u64" where "img_number img \<equiv> fst img"
abbreviation img_kept :: "log_image \<Rightarrow> numbered_batch list" where
  "img_kept img \<equiv> take (fst (snd (snd img))) (snd (snd (snd img)))"

fun torn_log :: "nat \<Rightarrow> bool \<Rightarrow> log_image \<Rightarrow> bool" where
  "torn_log max_size recycle (ln, k, n, bs) \<longleftrightarrow>
     n \<le> length bs \<and> length (log_file max_size recycle ln (map batch_record (take n bs))) \<le> k \<and>
     (n = length bs \<or> k < length (log_file max_size recycle ln (map batch_record (take (Suc n) bs))))"

fun image_file :: "nat \<Rightarrow> bool \<Rightarrow> log_image \<Rightarrow> MockSequentialFile" where
  "image_file max_size recycle (ln, k, n, bs) =
     MockSequentialFile_new (MemFile_new\<lparr>mem_data := take k (log_file max_size recycle ln (map batch_record bs))\<rparr>)"

definition kept_batches :: "log_image list \<Rightarrow> numbered_batch list" where
  "kept_batches imgs = concat (map img_kept imgs)"

lemma image_read:
  assumes "torn_log max_size recycle img" "recycle \<Longrightarrow> unat (img_number img) < 2 ^ 32" "mode \<noteq> kAbsoluteConsistency"
  shows "reads_quietly SequentialFileReader mode (Reader_new (image_file max_size recycle img) hr chk (img_number img))
    (map batch_record (img_kept img))"
proof -
  obtain ln k n bs where img: "img = (ln, k, n, bs)" by (cases img)
  let ?recs = "map batch_record bs"
  have "intact recycle ln 0 k ?recs = take n ?recs"
    using assms(1) by (intro intact_take) (auto simp: img log_file_layouts take_map)
  with recover_quietly [of recycle ln mode ?recs k hr chk] assms(2,3) show ?thesis
    by (simp add: img log_file_layouts take_map)
qed

lemma families_hold_refs:
  "families_hold cfgs mrel rec fams logs \<Longrightarrow> families_hold cfgs mrel rec (clear_scheduler q fams) logs"
  unfolding clear_scheduler_def
proof (induction q arbitrary: fams)
  case (Cons cf q)
  show ?case
  proof (cases "fams cf")
    case (Some d)
    then have "mrel cf (cfd_mem d) (logs cf)"
      using Cons.prems[unfolded families_hold_def, rule_format, of cf] by simp
    then have "families_hold cfgs mrel rec (fams(cf \<mapsto> d\<lparr>cfd_refs := cfd_refs d - 1\<rparr>)) logs"
      using families_hold_update [OF Cons.prems Some, of "d\<lparr>cfd_refs := cfd_refs d - 1\<rparr>" logs] by simp
    with Cons.IH Some show ?thesis by simp
  qed (use Cons in simp)
qed simp

lemma after_log_recovered:
  assumes "recovered cfgs mrel rec sq logs st"
  shows "\<exists>st'. after_log E log st = (False, st') \<and> recovered cfgs mrel rec sq logs st' \<and>
    rc_next_sequence st' = rc_next_sequence st"
  using assms families_hold_refs [OF families_hold_refs, of cfgs mrel rec "rc_families st" logs]
  by (simp add: after_log_def Let_def recovered_def quiet_def)

definition serves :: "('t, 'i, MockSequentialFile) RecoveryEnv \<Rightarrow> nat \<Rightarrow> bool \<Rightarrow> log_image list \<Rightarrow> bool" where
  "serves E max_size recycle imgs \<longleftrightarrow>
     re_source E = SequentialFileReader \<and>
     (\<forall>img\<in>set imgs. NewSequentialFile E (img_number img) = (OK, image_file max_size recycle img) \<and>
        torn_log max_size recycle img \<and> MinLogNumberToKeep E \<le> img_number img \<and>
        (recycle \<longrightarrow> unat (img_number img) < 2 ^ 32))"

context inserting
begin

lemma replay_log_inserts:
  assumes E: "plain_recovery E" "serves E max_size recycle imgs" "re_mode E \<noteq> kAbsoluteConsistency"
    and img: "img \<in> set imgs" "recovering = img_number img" and rec: "recovering \<noteq> 0"
    and st: "recovered cfgs mrel recovering sq logs st"
    and bs: "list_all (recoverable cfgs) (img_kept img)" "ascending sq (img_kept img)"
  shows "\<exists>st'. replay_log E recovering st = Some (False, st') \<and>
    recovered cfgs mrel recovering (next_number sq (img_kept img)) (\<lambda>cf. rev (batch_updates cf (img_kept img)) @ logs cf) st' \<and>
    rc_next_sequence st' = next_number (rc_next_sequence st) (img_kept img)"
proof -
  have opened: "NewSequentialFile E recovering = (OK, image_file max_size recycle img)" "torn_log max_size recycle img"
    "\<not> recovering < MinLogNumberToKeep E" "recycle \<Longrightarrow> unat recovering < 2 ^ 32" "re_source E = SequentialFileReader"
    using E(2) img by (auto simp: serves_def not_less)
  let ?st = "(MarkFileNumberUsed recovering st)\<lparr>rc_status := OK\<rparr>"
  let ?r = "Reader_new (image_file max_size recycle img) True True recovering"
  have st0: "recovered cfgs mrel recovering sq logs ?st" "\<not> stop_replay_by_wal_filter (MarkFileNumberUsed recovering st)"
    using st by (simp_all add: recovered_def quiet_def MarkFileNumberUsed_def)
  have "reads_quietly (re_source E) (re_mode E) ?r (map batch_record (img_kept img))"
    using image_read [OF opened(2) _ E(3), of True True] opened(4,5) img(2) by simp
  from replay_loop_inserts [OF E(1) rec this _ st0(1) bs]
  obtain st1 where "replay_loop E recovering ?r ?st = Some (False, st1)"
    "recovered cfgs mrel recovering (next_number sq (img_kept img)) (\<lambda>cf. rev (batch_updates cf (img_kept img)) @ logs cf) st1"
    "rc_next_sequence st1 = next_number (rc_next_sequence st) (img_kept img)"
    by (auto simp: Reader_new_def MarkFileNumberUsed_def split: if_splits)
  with after_log_recovered [OF this(2), of E recovering] opened(1,3) st0(2) show ?thesis
    by (auto simp: replay_log_def Let_def)
qed

end

lemma replay_logs_inserts:
  assumes ins: "inserting cfgs mrel" and E: "plain_recovery E" "serves E max_size recycle imgs" "re_mode E \<noteq> kAbsoluteConsistency"
    and "set is \<subseteq> set imgs" "sorted (rec # map img_number is)" "rec \<noteq> 0"
    and "recovered cfgs mrel rec sq logs st"
    and "list_all (recoverable cfgs) (kept_batches is)" "ascending sq (kept_batches is)"
  shows "\<exists>st' rec'. replay_logs E (map img_number is) st = Some (False, st') \<and> rec \<le> rec' \<and>
    recovered cfgs mrel rec' (next_number sq (kept_batches is)) (\<lambda>cf. rev (batch_updates cf (kept_batches is)) @ logs cf) st' \<and>
    rc_next_sequence st' = next_number (rc_next_sequence st) (kept_batches is)"
  using assms(5-)
proof (induction "is" arbitrary: rec sq logs st)
  case Nil
  then show ?case by (auto simp: kept_batches_def next_number_def)
next
  case (Cons img "is")
  let ?ln = "img_number img"
  have ln: "rec \<le> ?ln" "?ln \<noteq> 0" "sorted (?ln # map img_number is)" "img \<in> set imgs" "set is \<subseteq> set imgs"
    using Cons.prems(1-3) by auto
  have st: "recovered cfgs mrel ?ln sq logs st"
    using Cons.prems(3,4) ln(1) families_hold_later by (auto simp: recovered_def)
  have bs: "list_all (recoverable cfgs) (img_kept img)" "ascending sq (img_kept img)"
    "list_all (recoverable cfgs) (kept_batches is)" "ascending (next_number sq (img_kept img)) (kept_batches is)"
    using Cons.prems(5,6) by (simp_all add: kept_batches_def ascending_append)
  obtain st1 where st1: "replay_log E ?ln st = Some (False, st1)"
    "recovered cfgs mrel ?ln (next_number sq (img_kept img)) (\<lambda>cf. rev (batch_updates cf (img_kept img)) @ logs cf) st1"
    "rc_next_sequence st1 = next_number (rc_next_sequence st) (img_kept img)"
    using inserting.replay_log_inserts [OF ins E ln(4) refl ln(2) st bs(1,2)] by blast
  from Cons.IH [OF ln(5,3,2) st1(2) bs(3,4)] obtain st' rec' where
    st': "replay_logs E (map img_number is) st1 = Some (False, st')" "?ln \<le> rec'"
      "recovered cfgs mrel rec' (next_number sq (kept_batches (img # is)))
        (\<lambda>cf. rev (batch_updates cf (kept_batches (img # is))) @ logs cf) st'"
      "rc_next_sequence st' = next_number (rc_next_sequence st) (kept_batches (img # is))"
    by (auto simp: kept_batches_def next_number_append st1(3))
  have "replay_logs E (map img_number (img # is)) st = Some (False, st')" using st1(1) st'(1) by simp
  with st' ln(1) order_trans [of rec ?ln rec'] show ?case by blast
qed

section \<open>Opening a database after a crash\<close>

text \<open>C2. A database that is opened for reading after a crash has what was in its logs: for any logs with the
  batches of updates that were appended to them, of whose files the crash left any number
  of bytes, recovery succeeds; it goes on counting after the last
  number of the batches that lie wholly in the bytes that are left, and a lookup in
  a column family, at any sequence number, answers what the updates in exactly those batches say.

  This holds in every mode but absolute consistency, which reports a torn tail. The tail may be torn in any
  of the logs and not only in the last one: in point-in-time mode too the logs after a torn one are replayed,
  though the options promise to stop the playback there (the reader takes a torn record for the
  end of the file and tells nobody). The opening is read-only and without a filter of the logs
  (\<open>plain_recovery\<close>); every recovered family is new over the skip list, with a merge operator and without
  in-place updates or a limit of successive merges (\<open>new_family\<close>), and has no table of a later log; the batches
  have ascending numbers and hold updates, log data and noops, none of the markers of prepared and
  committed sections (\<open>recoverable\<close>). For the family looked at there is no blob index and no range that
  ends before it begins, and the merge operator never asks for an early merge.\<close>

theorem reopened_database_refines:
  assumes "plain_recovery E" "serves E max_size recycle imgs" "re_mode E \<noteq> kAbsoluteConsistency"
    and "imgs \<noteq> []" "sorted (map img_number imgs)" "\<forall>img\<in>set imgs. img_number img \<noteq> 0"
    and "\<forall>cf d. rc_families st cf = Some d \<longrightarrow> new_family d \<and> (\<forall>img\<in>set imgs. cfd_log_number d \<le> img_number img)"
    and "list_all (recoverable (settings_of (rc_families st))) (kept_batches imgs)" "ascending sq (kept_batches imgs)"
    and "rc_families st cf = Some d" "ups = batch_updates cf (kept_batches imgs)"
    and "plain_log ups" "ranges_forward (mt_comparator (cfd_settings d)) ups"
    and "length u + 8 < 2 ^ 32" "s \<le> kMaxSequenceNumber" "fresh_args args x"
    and "mt_merge_operator (cfd_settings d) = Some mo" "\<forall>l. \<not> ShouldMerge mo l" "\<not> ignore_range_deletions ro"
  shows "\<exists>st' d' found args' mt'.
    RecoverLogFiles E (map img_number imgs) st = Some st' \<and> ok (rc_status st') \<and>
    rc_next_sequence st' = next_number (rc_next_sequence st) (kept_batches imgs) \<and>
    rc_families st' cf = Some d' \<and> cfd_settings d' = cfd_settings d \<and>
    mt_Get (cfd_settings d') (LookupKey_new u s None) args ro None True (cfd_mem d') = Some (found, args', mt') \<and>
    lookup_shows mo u x
      (resolve (covering_seq (mt_comparator (cfd_settings d)) s u (rev ups)) [] (visible_versions s u (rev ups)))
      found args'"
proof -
  let ?fams = "rc_families st" and ?rec = "img_number (hd imgs)"
  let ?st = "st\<lparr>rc_status := OK, stop_replay_by_wal_filter := False, stop_replay_for_corruption := False,
    corrupted_log_number := kMaxSequenceNumber, rc_flushed := False, rc_level0 := []\<rparr>"
  have ins: "inserting (settings_of ?fams) (family_rel ?fams)"
    using assms(7) by (intro skiplist_inserting) (simp add: new_family_def)
  have first: "hd imgs \<in> set imgs" using assms(4) by simp
  have "families_hold (settings_of ?fams) (family_rel ?fams) ?rec ?fams (\<lambda>_. [])"
    using assms(7) first new_family_rel by (fastforce simp: families_hold_def new_family_def split: option.split)
  then have start: "recovered (settings_of ?fams) (family_rel ?fams) ?rec sq (\<lambda>_. []) ?st"
    by (simp add: recovered_def quiet_def numbers_below_def)
  have "sorted (?rec # map img_number imgs)" using assms(4,5) by (cases imgs) auto
  from replay_logs_inserts [OF ins assms(1-3) subset_refl this _ start assms(8,9)] assms(6) first
  obtain st1 rec' where run: "replay_logs E (map img_number imgs) ?st = Some (False, st1)"
    and st1: "recovered (settings_of ?fams) (family_rel ?fams) rec' (next_number sq (kept_batches imgs))
      (\<lambda>cf. rev (batch_updates cf (kept_batches imgs)) @ []) st1"
    and nx: "rc_next_sequence st1 = next_number (rc_next_sequence st) (kept_batches imgs)"
    by auto
  have "finish_recovery E (map img_number imgs) st1 = st1"
    using assms(1) st1 by (simp add: finish_recovery_def sst_ahead_def recovered_def quiet_def plain_recovery_def)
  then have rec: "RecoverLogFiles E (map img_number imgs) st = Some st1" using run by (simp add: RecoverLogFiles_def)
  have hold: "families_hold (settings_of ?fams) (family_rel ?fams) rec' (rc_families st1)
      (\<lambda>cf. rev (batch_updates cf (kept_batches imgs)) @ [])" and good: "ok (rc_status st1)"
    using st1 by (simp_all add: recovered_def quiet_def)
  obtain d' where d': "rc_families st1 cf = Some d'"
    using inserting.hold_missing [OF ins hold, of cf] assms(10) by auto
  with inserting.hold_family [OF ins hold, of cf d'] assms(10,11)
  have same: "cfd_settings d' = cfd_settings d" "family_rel ?fams cf (cfd_mem d') (rev ups)" by simp_all
  have logs: "plain_log (rev ups)" "ranges_forward (mt_comparator (cfd_settings d)) (rev ups)"
    using assms(12,13) by (simp_all add: plain_log_def ranges_forward_def)
  have new: "new_family d" using assms(7,10) by blast
  from family_Get [OF new assms(10) same(2) logs assms(14-19)] rec good nx d' same(1)
  show ?thesis by auto
qed

definition sample_logs :: "log_image list" where
  "sample_logs =
     [(1, 34, 1, [(5, [OpPut 0 [1] (PutFixed64 [] 5), OpLogData [8]])]),
      (2, 40, 1, [(6, [OpMerge 0 [1] (PutFixed64 [] 7)]), (7, [OpDelete 0 [1]])])]"

definition sample_recovery :: "(SkipListRep, sl_iter, MockSequentialFile) RecoveryEnv" where
  "sample_recovery =
     \<lparr>re_mode = kPointInTimeRecovery, paranoid_checks = True, re_read_only = True, avoid_flush_during_recovery = False,
      re_seq_per_batch = False, re_batch_per_txn = True, MinLogNumberToKeep = 0, re_column_families = [0],
      re_engine = (\<lambda>_. sample_engine), re_source = SequentialFileReader,
      NewSequentialFile = (\<lambda>ln. (OK, image_file 1024 False (if ln = 1 then sample_logs ! 0 else sample_logs ! 1))),
      wal_filter = None, WriteLevel0Table = (\<lambda>cf m. OK), CreateNewMemtable = (\<lambda>cf q. undefined),
      LogAndApply = (\<lambda>cf n ms. OK), RestoreAliveLogFiles = (\<lambda>logs. OK)\<rparr>"

definition sample_state :: "SkipListRep MemTable \<Rightarrow> (SkipListRep, sl_iter) Recovery" where
  "sample_state mt =
     \<lparr>rc_families = [0 \<mapsto> sample_family mt], rc_db = sample_db False, rc_flush = [], rc_trim = [], rc_status = OK,
      rc_next_sequence = kMaxSequenceNumber, stop_replay_by_wal_filter = False, stop_replay_for_corruption = False,
      corrupted_log_number = 0, rc_flushed = False, rc_last_sequence = 0, next_file_number = 3, rc_level0 = [],
      rc_inserts = 0, rc_filter_calls = 0\<rparr>"

lemma sample_kept: "kept_batches sample_logs =
    [(5, [OpPut 0 [1] (PutFixed64 [] 5), OpLogData [8]]), (6, [OpMerge 0 [1] (PutFixed64 [] 7)])]"
  by (simp add: sample_logs_def kept_batches_def)

lemma sample_records:
  "length (batch_record (5, [OpPut 0 [1] (PutFixed64 [] 5), OpLogData [8]])) = 27"
  "length (batch_record (6, [OpMerge 0 [1] (PutFixed64 [] 7)])) = 24"
  "length (batch_record (7, [OpDelete 0 [1]])) = 15"
  by (simp_all add: batch_record_def batch_rep_def enc_tag_def enc_str_def PutFixed64_def EncodeVarint32_bytes
      varint_bytes.simps)

lemma small_logs:
  assumes "length a = n" "length b = m" "n < 1000" "m < 1000"
  shows "length (log_file 1024 False ln [a]) = n + 7" "length (log_file 1024 False ln [a, b]) = n + m + 14"
  using assms by (simp_all add: layout_eval frag_end_def)

lemma sample_torn:
  "torn_log 1024 False (sample_logs ! 0)" "torn_log 1024 False (sample_logs ! 1)"
  using small_logs [OF sample_records(1) refl, of "[]" 1] small_logs [OF sample_records(2,3), of 2]
  by (simp_all add: sample_logs_def)

lemma sample_serves: "plain_recovery sample_recovery" "serves sample_recovery 1024 False sample_logs"
  using sample_torn by (simp_all add: plain_recovery_def serves_def sample_recovery_def sample_logs_def)

lemma sample_recovered_updates:
  "batch_updates 0 (kept_batches sample_logs) =
    [\<lparr>v_key = [1], v_seq = 5, v_type = kTypeValue, v_value = PutFixed64 [] 5\<rparr>,
     \<lparr>v_key = [1], v_seq = 6, v_type = kTypeMerge, v_value = PutFixed64 [] 7\<rparr>]"
  unfolding sample_kept by simp

lemma sample_recovered_ok:
  "list_all (recoverable (settings_of [0 \<mapsto> sample_family mt])) (kept_batches sample_logs)"
  "ascending 1 (kept_batches sample_logs)" "next_number kMaxSequenceNumber (kept_batches sample_logs) = 7"
  unfolding sample_kept
  by (simp_all add: recoverable_def op_fits_def str_ok_def PutFixed64_def not_prepared_def numbers_fit_def
      update_count_def number_after_def next_number_def)

lemma reopened_database_refines_witness:
  "\<exists>mt st d' args' mt'.
    skiplist_memtable_new sample_settings sample_readings 0 301 1000 0 = Some mt \<and>
    RecoverLogFiles sample_recovery [1, 2] (sample_state mt) = Some st \<and> ok (rc_status st) \<and>
    rc_next_sequence st = 7 \<and> rc_families st 0 = Some d' \<and>
    mt_Get (cfd_settings d') (LookupKey_new [1] 20 None) sample_args ReadOptions_new None True (cfd_mem d') =
      Some (True, args', mt') \<and> la_status args' = OK \<and> la_value args' = Some (PutFixed64 [] 12)"
proof -
  obtain mt where mt: "skiplist_memtable_new sample_settings sample_readings 0 301 1000 0 = Some mt"
      "new_family (sample_family mt)" using sample_memtable .
  let ?ups = "batch_updates 0 (kept_batches sample_logs)"
  have numbers: "map img_number sample_logs = [1, 2]" "sample_logs \<noteq> []" "sorted (map img_number sample_logs)"
    "\<forall>img\<in>set sample_logs. img_number img \<noteq> 0" by (simp_all add: sample_logs_def)
  have fams: "rc_families (sample_state mt) = [0 \<mapsto> sample_family mt]" "rc_next_sequence (sample_state mt) = kMaxSequenceNumber"
    by (simp_all add: sample_state_def)
  have new: "\<forall>cf d. rc_families (sample_state mt) cf = Some d \<longrightarrow>
      new_family d \<and> (\<forall>img\<in>set sample_logs. cfd_log_number d \<le> img_number img)"
    using mt(2) by (auto simp: fams sample_family_def split: if_splits)
  have mode: "re_mode sample_recovery \<noteq> kAbsoluteConsistency" by (simp add: sample_recovery_def)
  have batches: "list_all (recoverable (settings_of (rc_families (sample_state mt)))) (kept_batches sample_logs)"
    unfolding fams by (rule sample_recovered_ok)
  have d: "rc_families (sample_state mt) 0 = Some (sample_family mt)" by (simp add: fams)
  have ups: "plain_log ?ups" "ranges_forward (mt_comparator (cfd_settings (sample_family mt))) ?ups"
    unfolding sample_recovered_updates
    by (simp_all add: plain_log_def plain_type_def ranges_forward_def is_range_def)
  have args: "length [1 :: byte] + 8 < 2 ^ 32" "20 \<le> kMaxSequenceNumber"
      "mt_merge_operator (cfd_settings (sample_family mt)) = Some UInt64AddOperator"
      "\<not> ignore_range_deletions ReadOptions_new"
    by (simp_all add: kMaxSequenceNumber_def ReadOptions_new_def sample_family_def sample_settings_def)
  have out: "resolve (covering_seq (mt_comparator (cfd_settings (sample_family mt))) 20 [1] (rev ?ups)) []
      (visible_versions 20 [1] (rev ?ups)) = Decided (Some (PutFixed64 [] 5)) [PutFixed64 [] 7]"
    unfolding sample_recovered_updates
    by (simp add: sample_family_def sample_settings_def covering_seq_def visible_versions_def is_range_def)
  have "uint64_sum (Some (PutFixed64 [] 5)) [PutFixed64 [] 7] = 12" by (simp add: uint64_sum_def)
  then have dec: "decided UInt64AddOperator [1] (Some (PutFixed64 [] 5)) [PutFixed64 [] 7] [] = (OK, PutFixed64 [] 12)"
    by (simp add: decided_def uint64_merged)
  obtain st d' found args' mt' where r: "RecoverLogFiles sample_recovery [1, 2] (sample_state mt) = Some st"
      "ok (rc_status st)" "rc_next_sequence st = 7" "rc_families st 0 = Some d'"
      "mt_Get (cfd_settings d') (LookupKey_new [1] 20 None) sample_args ReadOptions_new None True (cfd_mem d') =
        Some (found, args', mt')"
      "lookup_shows UInt64AddOperator [1] [] (Decided (Some (PutFixed64 [] 5)) [PutFixed64 [] 7]) found args'"
    using reopened_database_refines [OF sample_serves mode numbers(2-4) new batches sample_recovered_ok(2) d refl ups
      args(1,2) sample_ok(4) args(3) uint64_ShouldMerge args(4)]
    unfolding out numbers(1) fams(2) sample_recovered_ok(3) by blast
  have "found = True" "la_status args' = OK" "la_value args' = Some (PutFixed64 [] 12)"
    using r(6) unfolding lookup_shows_def lookup_outcome.case dec by simp_all
  with mt(1) r(1-5) show ?thesis by blast
qed

end
