(* ===== verification/TableFormat.thy ===== *)
theory TableFormat
  imports Coding Status
begin

text \<open>
  The fixed pieces of a table file: table/format.h, table/format.cc and
  table/block_based/data_block_footer.cc. Handles of blocks, values of the index, the footer of the
  file and the word that ends every block.

  The codes of the magic numbers are in the builders of the tables. Decompression of blocks calls
  compression libraries and is not modelled.
\<close>

section \<open>Block handles\<close>

record BlockHandle =
  bh_offset :: u64
  bh_size :: u64

definition BlockHandle_new :: "u64 \<Rightarrow> u64 \<Rightarrow> BlockHandle" where
  "BlockHandle_new off sz = \<lparr>bh_offset = off, bh_size = sz\<rparr>"

definition BlockHandle_unset :: BlockHandle where
  "BlockHandle_unset = BlockHandle_new (NOT 0) (NOT 0)"

definition bh_IsNull :: "BlockHandle \<Rightarrow> bool" where
  "bh_IsNull h \<longleftrightarrow> bh_offset h = 0 \<and> bh_size h = 0"

definition bh_EncodeTo :: "bytes \<Rightarrow> BlockHandle \<Rightarrow> bytes" where
  "bh_EncodeTo dst h = PutVarint64Varint64 dst (bh_offset h) (bh_size h)"

text \<open>The input is left where the last successful read ended.\<close>

definition bh_DecodeFrom :: "bytes \<Rightarrow> Status \<times> BlockHandle \<times> bytes" where
  "bh_DecodeFrom input =
     (case GetVarint64 input of
        (None, input1) \<Rightarrow> (Corruption (str ''bad block handle'') [], BlockHandle_new 0 0, input1)
      | (Some off, input1) \<Rightarrow>
          (case GetVarint64 input1 of
             (None, input2) \<Rightarrow> (Corruption (str ''bad block handle'') [], BlockHandle_new 0 0, input2)
           | (Some sz, input2) \<Rightarrow> (OK, BlockHandle_new off sz, input2)))"

definition bh_DecodeSizeFrom :: "u64 \<Rightarrow> bytes \<Rightarrow> Status \<times> BlockHandle \<times> bytes" where
  "bh_DecodeSizeFrom off input =
     (case GetVarint64 input of
        (None, input1) \<Rightarrow> (Corruption (str ''bad block handle'') [], BlockHandle_new 0 0, input1)
      | (Some sz, input1) \<Rightarrow> (OK, BlockHandle_new off sz, input1))"

section \<open>Values of the index\<close>

record IndexValue =
  iv_handle :: BlockHandle
  iv_first_internal_key :: bytes

text \<open>The type of the block and its checksum follow each block.\<close>

definition kBlockTrailerSize :: nat where
  "kBlockTrailerSize = 5"

definition iv_EncodeTo :: "bytes \<Rightarrow> bool \<Rightarrow> BlockHandle option \<Rightarrow> IndexValue \<Rightarrow> bytes" where
  "iv_EncodeTo dst have_first_key previous_handle v =
     (let dst1 = (case previous_handle of
                    Some p \<Rightarrow> PutVarsignedint64 dst (bh_size (iv_handle v) - bh_size p)
                  | None \<Rightarrow> bh_EncodeTo dst (iv_handle v))
      in if have_first_key then PutLengthPrefixedSlice dst1 (iv_first_internal_key v) else dst1)"

text \<open>\<open>v\<close> is the value before the call, which a failed call may leave as it is.\<close>

definition iv_DecodeFrom ::
  "bytes \<Rightarrow> bool \<Rightarrow> BlockHandle option \<Rightarrow> IndexValue \<Rightarrow> Status \<times> IndexValue \<times> bytes" where
  "iv_DecodeFrom input have_first_key previous_handle v =
     (let (s, v1, input1) =
        (case previous_handle of
           Some p \<Rightarrow>
             (case GetVarsignedint64 input of
                (None, i) \<Rightarrow> (Corruption (str ''bad delta-encoded index value'') [], v, i)
              | (Some delta, i) \<Rightarrow>
                  (OK, v\<lparr>iv_handle := BlockHandle_new (bh_offset p + bh_size p + of_nat kBlockTrailerSize)
                                       (bh_size p + delta)\<rparr>, i))
         | None \<Rightarrow>
             (case bh_DecodeFrom input of (s, h, i) \<Rightarrow> (s, v\<lparr>iv_handle := h\<rparr>, i)))
      in if \<not> ok s then (s, v1, input1)
         else if \<not> have_first_key then (OK, v1\<lparr>iv_first_internal_key := []\<rparr>, input1)
         else
           (case GetLengthPrefixedSlice input1 of
              (None, input2) \<Rightarrow> (Corruption (str ''bad first key in block info'') [], v1, input2)
            | (Some k, input2) \<Rightarrow> (OK, v1\<lparr>iv_first_internal_key := k\<rparr>, input2)))"

section \<open>The word at the end of a block\<close>

datatype DataBlockIndexType = kDataBlockBinarySearch | kDataBlockBinaryAndHash

definition kNumRestartsMask :: u32 where
  "kNumRestartsMask = push_bit 31 1 - 1"

definition PackIndexTypeAndNumRestarts :: "DataBlockIndexType \<Rightarrow> u32 \<Rightarrow> u32" where
  "PackIndexTypeAndNumRestarts index_type num_restarts =
     (if index_type = kDataBlockBinaryAndHash then num_restarts OR push_bit 31 1 else num_restarts)"

definition UnPackIndexTypeAndNumRestarts :: "u32 \<Rightarrow> DataBlockIndexType \<times> u32" where
  "UnPackIndexTypeAndNumRestarts block_footer =
     (if block_footer AND push_bit 31 1 \<noteq> 0 then kDataBlockBinaryAndHash else kDataBlockBinarySearch,
      block_footer AND kNumRestartsMask)"

section \<open>Footers\<close>

definition kBlockBasedTableMagicNumber :: u64 where
  "kBlockBasedTableMagicNumber = 0x88e241b785f4cff7"

definition kLegacyBlockBasedTableMagicNumber :: u64 where
  "kLegacyBlockBasedTableMagicNumber = 0xdb4775248b80fb57"

definition kPlainTableMagicNumber :: u64 where
  "kPlainTableMagicNumber = 0x8242229663bf9564"

definition kLegacyPlainTableMagicNumber :: u64 where
  "kLegacyPlainTableMagicNumber = 0x4f3418eb7a8f13b8"

definition IsLegacyFooterFormat :: "u64 \<Rightarrow> bool" where
  "IsLegacyFooterFormat magic \<longleftrightarrow>
     magic = kLegacyBlockBasedTableMagicNumber \<or> magic = kLegacyPlainTableMagicNumber"

definition UpconvertLegacyFooterFormat :: "u64 \<Rightarrow> u64" where
  "UpconvertLegacyFooterFormat magic =
     (if magic = kLegacyBlockBasedTableMagicNumber then kBlockBasedTableMagicNumber
      else if magic = kLegacyPlainTableMagicNumber then kPlainTableMagicNumber
      else 0)"

text \<open>The type of the checksum is an enumeration over \<^verbatim>\<open>char\<close>, to which the code casts numbers.\<close>

definition kCRC32c :: byte where
  "kCRC32c = 1"

record Footer =
  ft_version :: u32
  ft_checksum :: byte
  ft_metaindex_handle :: BlockHandle
  ft_index_handle :: BlockHandle
  ft_table_magic_number :: u64

definition Footer_new :: "u64 \<Rightarrow> u32 \<Rightarrow> Footer" where
  "Footer_new magic version =
     \<lparr>ft_version = version, ft_checksum = kCRC32c, ft_metaindex_handle = BlockHandle_unset,
      ft_index_handle = BlockHandle_unset, ft_table_magic_number = magic\<rparr>"

definition kMaxEncodedHandleLength :: nat where
  "kMaxEncodedHandleLength = 20"

definition kVersion0EncodedLength :: nat where
  "kVersion0EncodedLength = 2 * kMaxEncodedHandleLength + 8"

definition kNewVersionsEncodedLength :: nat where
  "kNewVersionsEncodedLength = 1 + 2 * kMaxEncodedHandleLength + 4 + 8"

definition put_magic :: "bytes \<Rightarrow> u64 \<Rightarrow> bytes" where
  "put_magic dst magic =
     PutFixed32 (PutFixed32 dst (ucast (magic AND 0xffffffff))) (ucast (drop_bit 32 magic))"

definition Footer_EncodeTo :: "bytes \<Rightarrow> Footer \<Rightarrow> bytes" where
  "Footer_EncodeTo dst f =
     (let original_size = length dst;
          handles = (\<lambda>d. bh_EncodeTo (bh_EncodeTo d (ft_metaindex_handle f)) (ft_index_handle f))
      in if IsLegacyFooterFormat (ft_table_magic_number f)
         then put_magic (resize (original_size + 2 * kMaxEncodedHandleLength) (handles dst))
                (ft_table_magic_number f)
         else put_magic
                (PutFixed32
                   (resize (original_size + kNewVersionsEncodedLength - 12) (handles (dst @ [ft_checksum f])))
                   (ft_version f))
                (ft_table_magic_number f))"

text \<open>
  What is left of the input after a success begins behind the magic number, where the input ends.
  The input has at least \<^verbatim>\<open>kMinEncodedLength\<close> bytes.
\<close>

definition Footer_DecodeFrom :: "bytes \<Rightarrow> Footer \<Rightarrow> Status \<times> Footer \<times> bytes" where
  "Footer_DecodeFrom input f =
     (let magic_at = length input - 8;
          magic_lo = DecodeFixed32 (drop magic_at input);
          magic_hi = DecodeFixed32 (drop (magic_at + 4) input);
          magic = push_bit 32 (ucast magic_hi) OR ucast magic_lo;
          legacy = IsLegacyFooterFormat magic;
          f1 = f\<lparr>ft_table_magic_number := (if legacy then UpconvertLegacyFooterFormat magic else magic)\<rparr>;
          handles =
            (\<lambda>g i. case bh_DecodeFrom i of
               (s, h, i1) \<Rightarrow>
                 if \<not> ok s then (s, g\<lparr>ft_metaindex_handle := h\<rparr>, i1)
                 else
                   (case bh_DecodeFrom i1 of
                      (s2, h2, i2) \<Rightarrow>
                        (s2, g\<lparr>ft_metaindex_handle := h, ft_index_handle := h2\<rparr>, if ok s2 then [] else i2)))
      in if legacy
         then handles (f1\<lparr>ft_version := 0, ft_checksum := kCRC32c\<rparr>)
                (remove_prefix input (length input - kVersion0EncodedLength))
         else
           (let f2 = f1\<lparr>ft_version := DecodeFixed32 (drop (magic_at - 4) input)\<rparr>
            in if length input < kNewVersionsEncodedLength
               then (Corruption (str ''input is too short to be an sstable'') [], f2, input)
               else
                 (case GetVarint32 (remove_prefix input (length input - kNewVersionsEncodedLength)) of
                    (None, i) \<Rightarrow> (Corruption (str ''bad checksum type'') [], f2, i)
                  | (Some chksum, i) \<Rightarrow> handles (f2\<lparr>ft_checksum := ucast chksum\<rparr>) i)))"

text \<open>
  Reading the footer of a file: \<open>read off n\<close> is the file, \<open>cached off n\<close> the prefetch buffer.
\<close>

definition ReadFooterFromFile ::
  "(nat \<Rightarrow> nat \<Rightarrow> Status \<times> bytes) \<Rightarrow> bytes \<Rightarrow> (nat \<Rightarrow> nat \<Rightarrow> bytes option) option \<Rightarrow> nat \<Rightarrow> u64 \<Rightarrow>
     Footer \<Rightarrow> Status \<times> Footer"
where
  "ReadFooterFromFile read file_name cached file_size enforce_table_magic_number f =
     (let too_short = (\<lambda>sep. Corruption (str ''file is too short ('' @ decimal file_size @ str '' bytes) to be an '' @
                               str ''sstable'' @ sep @ file_name) [])
      in if file_size < kVersion0EncodedLength then (too_short (str '': ''), f)
         else
           (let read_offset = (if file_size > kNewVersionsEncodedLength then file_size - kNewVersionsEncodedLength else 0);
                (s, footer_input) =
                  (case Option.bind cached (\<lambda>c. c read_offset kNewVersionsEncodedLength) of
                     Some d \<Rightarrow> (OK, d)
                   | None \<Rightarrow> read read_offset kNewVersionsEncodedLength)
            in if \<not> ok s then (s, f)
               else if length footer_input < kVersion0EncodedLength then (too_short [], f)
               else
                 (case Footer_DecodeFrom footer_input f of
                    (s2, f2, _) \<Rightarrow>
                      if \<not> ok s2 then (s2, f2)
                      else if enforce_table_magic_number \<noteq> 0 \<and>
                              enforce_table_magic_number \<noteq> ft_table_magic_number f2
                      then (Corruption (str ''Bad table magic number: expected '' @
                                decimal (unat enforce_table_magic_number) @ str '', found '' @
                                decimal (unat (ft_table_magic_number f2)) @ str '' in '' @ file_name) [], f2)
                      else (OK, f2))))"

section \<open>Round trips\<close>

lemma bh_roundtrip [simp, codec]: "bh_DecodeFrom (bh_EncodeTo [] h @ rest) = (OK, h, rest)"
  by (simp add: bh_DecodeFrom_def bh_EncodeTo_def PutVarint64Varint64_def BlockHandle_new_def)

lemma bh_EncodeTo_append: "bh_EncodeTo dst h = dst @ bh_EncodeTo [] h"
  by (simp add: bh_EncodeTo_def PutVarint64Varint64_def)

lemma bh_DecodeSizeFrom_roundtrip:
  "bh_DecodeSizeFrom (bh_offset h) (PutVarint64 [] (bh_size h) @ rest) = (OK, h, rest)"
  by (simp add: bh_DecodeSizeFrom_def PutVarint64_def BlockHandle_new_def)

lemma length_bh_EncodeTo: "length (bh_EncodeTo [] h) \<le> kMaxEncodedHandleLength"
  using length_EncodeVarint64(2) [of "bh_offset h"] length_EncodeVarint64(2) [of "bh_size h"]
  by (simp add: bh_EncodeTo_def PutVarint64Varint64_def kMaxEncodedHandleLength_def)

text \<open>A value of the index, with the handle before it when the two blocks are consecutive.\<close>

definition follows :: "BlockHandle option \<Rightarrow> BlockHandle \<Rightarrow> bool" where
  "follows previous h \<longleftrightarrow>
     (\<forall>p. previous = Some p \<longrightarrow> bh_offset h = bh_offset p + bh_size p + of_nat kBlockTrailerSize)"

lemma iv_roundtrip [codec]:
  assumes "follows previous (iv_handle v)" "have_first_key \<Longrightarrow> length (iv_first_internal_key v) < 2 ^ 32"
    and "\<not> have_first_key \<Longrightarrow> iv_first_internal_key v = []"
  shows "iv_DecodeFrom (iv_EncodeTo [] have_first_key previous v @ rest) have_first_key previous w = (OK, v, rest)"
proof -
  have first: "GetLengthPrefixedSlice (PutLengthPrefixedSlice [] k @ r) = (Some k, r)" if "length k < 2 ^ 32" for k r
    using that by simp
  have put: "PutLengthPrefixedSlice d k = d @ PutLengthPrefixedSlice [] k" for d k
    by (rule PutLengthPrefixedSlice_append)
  have delta: "GetVarsignedint64 (PutVarsignedint64 [] d @ r) = (Some d, r)" for d r by (rule GetVarsignedint64_Put)
  show ?thesis
  proof (cases previous)
    case None
    then show ?thesis
      using assms(2,3) first [of "iv_first_internal_key v" rest]
      by (cases have_first_key)
        (simp_all add: iv_DecodeFrom_def iv_EncodeTo_def Let_def put [of "bh_EncodeTo [] (iv_handle v)"])
  next
    case (Some p)
    have "BlockHandle_new (bh_offset p + bh_size p + of_nat kBlockTrailerSize)
        (bh_size p + (bh_size (iv_handle v) - bh_size p)) = iv_handle v"
      using assms(1) Some by (simp add: follows_def BlockHandle_new_def)
    then show ?thesis
      using assms(2,3) Some first [of "iv_first_internal_key v" rest]
      by (cases have_first_key)
        (simp_all add: iv_DecodeFrom_def iv_EncodeTo_def Let_def delta
          put [of "PutVarsignedint64 [] (bh_size (iv_handle v) - bh_size p)"])
  qed
qed

text \<open>The footer.\<close>

lemma magic_words: "push_bit 32 (ucast (ucast (drop_bit 32 m) :: u32)) OR ucast (ucast (m AND 0xffffffff) :: u32) = (m :: u64)"
proof (rule bit_word_eqI)
  fix n assume n: "n < LENGTH(64)"
  have "(0xffffffff :: u64) = mask 32" by (simp add: mask_eq_exp_minus_1)
  then have "bit (0xffffffff :: u64) n \<longleftrightarrow> n < 32" using n by (simp only: bit_mask_iff possible_bit_word) simp
  with n show "bit (push_bit 32 (ucast (ucast (drop_bit 32 m) :: u32)) OR ucast (ucast (m AND 0xffffffff) :: u32) :: u64) n = bit m n"
    by (cases "n < 32") (auto simp: bit_or_iff bit_push_bit_iff bit_ucast_iff bit_drop_bit_eq bit_and_iff)
qed

definition footer_ok :: "Footer \<Rightarrow> bool" where
  "footer_ok f \<longleftrightarrow> ft_checksum f < 128 \<and>
     (IsLegacyFooterFormat (ft_table_magic_number f) \<longrightarrow> ft_version f = 0 \<and> ft_checksum f = kCRC32c)"

definition upconverted :: "Footer \<Rightarrow> Footer" where
  "upconverted f =
     (if IsLegacyFooterFormat (ft_table_magic_number f)
      then f\<lparr>ft_table_magic_number := UpconvertLegacyFooterFormat (ft_table_magic_number f)\<rparr> else f)"

definition handle_bytes :: "Footer \<Rightarrow> bytes" where
  "handle_bytes f = bh_EncodeTo [] (ft_metaindex_handle f) @ bh_EncodeTo [] (ft_index_handle f)"

lemma length_handle_bytes: "length (handle_bytes f) \<le> 40"
  using length_bh_EncodeTo [of "ft_metaindex_handle f"] length_bh_EncodeTo [of "ft_index_handle f"]
  by (simp add: handle_bytes_def kMaxEncodedHandleLength_def)

lemma Footer_EncodeTo_layout:
  "Footer_EncodeTo dst f =
     (if IsLegacyFooterFormat (ft_table_magic_number f)
      then dst @ handle_bytes f @ replicate (40 - length (handle_bytes f)) 0 @ put_magic [] (ft_table_magic_number f)
      else dst @ ft_checksum f # handle_bytes f @ replicate (40 - length (handle_bytes f)) 0 @
             EncodeFixed32 (ft_version f) @ put_magic [] (ft_table_magic_number f))"
proof -
  have e: "bh_EncodeTo (bh_EncodeTo d (ft_metaindex_handle f)) (ft_index_handle f) = d @ handle_bytes f" for d
    using bh_EncodeTo_append [of d] bh_EncodeTo_append [of "d @ bh_EncodeTo [] (ft_metaindex_handle f)"]
    by (simp add: handle_bytes_def)
  have "put_magic d m = d @ put_magic [] m" for d m by (simp add: put_magic_def PutFixed32_def)
  from this [of "dst @ handle_bytes f @ replicate (40 - length (handle_bytes f)) 0"]
    this [of "dst @ ft_checksum f # handle_bytes f @ replicate (40 - length (handle_bytes f)) 0 @ EncodeFixed32 (ft_version f)"]
  show ?thesis
    using length_handle_bytes [of f]
    by (simp add: Footer_EncodeTo_def Let_def e resize_def kMaxEncodedHandleLength_def
        kNewVersionsEncodedLength_def PutFixed32_def)
qed

lemma length_put_magic [simp]: "length (put_magic [] m) = 8"
  by (simp add: put_magic_def PutFixed32_def)

lemma length_Footer_EncodeTo:
  "length (Footer_EncodeTo [] f) =
     (if IsLegacyFooterFormat (ft_table_magic_number f) then kVersion0EncodedLength else kNewVersionsEncodedLength)"
  using length_handle_bytes [of f]
  by (simp add: Footer_EncodeTo_layout kVersion0EncodedLength_def kNewVersionsEncodedLength_def kMaxEncodedHandleLength_def)

lemma read_magic:
  "DecodeFixed32 (put_magic [] m) = ucast (m AND 0xffffffff)" "DecodeFixed32 (drop 4 (put_magic [] m)) = ucast (drop_bit 32 m)"
  by (simp_all add: put_magic_def PutFixed32_def)

lemma read_handles:
  "bh_DecodeFrom (handle_bytes f @ rest) = (OK, ft_metaindex_handle f, bh_EncodeTo [] (ft_index_handle f) @ rest)"
  by (simp add: handle_bytes_def)

lemma GetVarint32_small: "c < 128 \<Longrightarrow> GetVarint32 (c # rest) = (Some (ucast (c :: byte)), rest)"
proof -
  assume "c < 128"
  then have "unat c < 128" by (simp add: word_less_nat_alt)
  moreover have "unat (ucast c :: u32) = unat c"
    using \<open>unat c < 128\<close> by (simp add: unsigned_ucast_eq take_bit_eq_mod)
  ultimately have "(ucast c :: u32) < 128" "ucast (ucast c :: u32) = c"
    by (simp_all add: word_less_nat_alt ucast_up_ucast_id is_up)
  then have "EncodeVarint32 (ucast c) = [c]" by (simp add: EncodeVarint32_def)
  then show ?thesis using GetVarint32_Encode [of "ucast c" rest] by simp
qed

lemma Footer_roundtrip:
  assumes "footer_ok f"
  shows "Footer_DecodeFrom (pre @ Footer_EncodeTo [] f) g = (OK, upconverted f, [])"
proof -
  let ?m = "ft_table_magic_number f" and ?h = "handle_bytes f"
  let ?pad = "replicate (40 - length ?h) (0 :: byte)"
  note len = length_handle_bytes [of f]
  have chk: "ucast (ucast (ft_checksum f) :: u32) = ft_checksum f" by (simp add: ucast_up_ucast_id is_up)
  show ?thesis
  proof (cases "IsLegacyFooterFormat ?m")
    case True
    have at: "length (pre @ Footer_EncodeTo [] f) = length pre + 48" "drop (length pre + 40) (pre @ Footer_EncodeTo [] f) = put_magic [] ?m"
      "drop (length pre + 44) (pre @ Footer_EncodeTo [] f) = drop 4 (put_magic [] ?m)"
      "remove_prefix (pre @ Footer_EncodeTo [] f) (length pre) = ?h @ ?pad @ put_magic [] ?m"
      using len True by (simp_all add: Footer_EncodeTo_layout remove_prefix_def)
    show ?thesis
      using at True assms
      by (simp add: Footer_DecodeFrom_def Let_def read_magic magic_words read_handles kVersion0EncodedLength_def
          kMaxEncodedHandleLength_def upconverted_def footer_ok_def)
  next
    case False
    have at: "length (pre @ Footer_EncodeTo [] f) = length pre + 53" "drop (length pre + 45) (pre @ Footer_EncodeTo [] f) = put_magic [] ?m"
      "drop (length pre + 49) (pre @ Footer_EncodeTo [] f) = drop 4 (put_magic [] ?m)"
      "drop (length pre + 41) (pre @ Footer_EncodeTo [] f) = EncodeFixed32 (ft_version f) @ put_magic [] ?m"
      "remove_prefix (pre @ Footer_EncodeTo [] f) (length pre) =
        ft_checksum f # ?h @ ?pad @ EncodeFixed32 (ft_version f) @ put_magic [] ?m"
      using len False by (simp_all add: Footer_EncodeTo_layout remove_prefix_def)
    show ?thesis
      using at False assms chk
      by (simp add: Footer_DecodeFrom_def Let_def read_magic magic_words read_handles kNewVersionsEncodedLength_def
          kMaxEncodedHandleLength_def upconverted_def footer_ok_def GetVarint32_small)
  qed
qed

text \<open>A file that is read as it is.\<close>

definition file_read :: "bytes \<Rightarrow> nat \<Rightarrow> nat \<Rightarrow> Status \<times> bytes" where
  "file_read file off n = (OK, take n (drop off file))"

text \<open>C38. A footer written at the end of a file, after any contents and in any of the two formats, is
  read back with all its fields, with the magic numbers of the legacy format turned into those of the
  new one, and it passes the check of the magic number.\<close>

theorem footer_read_back:
  assumes "footer_ok f" "enforce = 0 \<or> enforce = ft_table_magic_number (upconverted f)"
  shows "ReadFooterFromFile (file_read (Footer_EncodeTo contents f)) name None
    (length (Footer_EncodeTo contents f)) enforce g = (OK, upconverted f)"
proof -
  let ?tail = "Footer_EncodeTo [] f" and ?k = kNewVersionsEncodedLength
  have whole: "Footer_EncodeTo contents f = contents @ ?tail" by (simp add: Footer_EncodeTo_layout)
  have k: "kVersion0EncodedLength \<le> length ?tail" "length ?tail \<le> ?k" "kVersion0EncodedLength \<le> ?k"
    by (simp_all add: length_Footer_EncodeTo kVersion0EncodedLength_def kNewVersionsEncodedLength_def)
  define off where "off = length (contents @ ?tail) - ?k"
  have off: "(if length (contents @ ?tail) > ?k then length (contents @ ?tail) - ?k else 0) = off"
    by (simp add: off_def)
  have "off \<le> length contents" using k(2) by (simp add: off_def)
  then have d: "drop off (contents @ ?tail) = drop off contents @ ?tail" by simp
  have "take ?k (drop off (contents @ ?tail)) = drop off (contents @ ?tail)" by (simp add: off_def)
  then have input: "take ?k (drop off (contents @ ?tail)) = drop off contents @ ?tail" using d by simp
  have "length (contents @ ?tail) \<ge> kVersion0EncodedLength" "length (drop off contents @ ?tail) \<ge> kVersion0EncodedLength"
    using k(1) by simp_all
  then show ?thesis
    unfolding whole ReadFooterFromFile_def file_read_def Let_def off
    using assms(2) Footer_roundtrip [OF assms(1), of "drop off contents" g]
    by (auto simp: input simp del: length_append drop_append take_append)
qed

lemma footer_read_back_witness:
  "ReadFooterFromFile (file_read (Footer_EncodeTo [1, 2, 3]
      (Footer_new kLegacyBlockBasedTableMagicNumber 0\<lparr>ft_metaindex_handle := BlockHandle_new 300 7,
         ft_index_handle := BlockHandle_new 0 2\<rparr>))) [] None 51 kBlockBasedTableMagicNumber (Footer_new 0 0) =
    (OK, Footer_new kBlockBasedTableMagicNumber 0\<lparr>ft_metaindex_handle := BlockHandle_new 300 7,
         ft_index_handle := BlockHandle_new 0 2\<rparr>)"
proof -
  let ?f = "Footer_new kLegacyBlockBasedTableMagicNumber 0\<lparr>ft_metaindex_handle := BlockHandle_new 300 7,
      ft_index_handle := BlockHandle_new 0 2\<rparr>"
  have ok: "footer_ok ?f" by (simp add: footer_ok_def Footer_new_def kCRC32c_def)
  have up: "upconverted ?f = Footer_new kBlockBasedTableMagicNumber 0\<lparr>ft_metaindex_handle := BlockHandle_new 300 7,
      ft_index_handle := BlockHandle_new 0 2\<rparr>"
    by (simp add: upconverted_def Footer_new_def IsLegacyFooterFormat_def UpconvertLegacyFooterFormat_def)
  then have magic: "kBlockBasedTableMagicNumber = ft_table_magic_number (upconverted ?f)" by (simp add: Footer_new_def)
  have len: "length (Footer_EncodeTo [1, 2, 3] ?f) = 51"
    using length_handle_bytes [of ?f] by (simp add: Footer_EncodeTo_layout Footer_new_def IsLegacyFooterFormat_def)
  from footer_read_back [OF ok disjI2 [OF magic], of "[1, 2, 3]" "[]" "Footer_new 0 0"] show ?thesis
    unfolding len up .
qed

text \<open>The word at the end of a block.\<close>

lemma index_type_roundtrip:
  assumes "n < push_bit 31 1"
  shows "UnPackIndexTypeAndNumRestarts (PackIndexTypeAndNumRestarts t n) = (t, n)"
proof -
  have m: "kNumRestartsMask = mask 31" by (simp add: kNumRestartsMask_def mask_eq_decr_exp)
  have bit31: "w AND push_bit 31 1 \<noteq> 0 \<longleftrightarrow> bit w 31" for w :: u32
    using and_exp_eq_0_iff_not_bit [of w 31] by (simp add: push_bit_eq_mult del: and_exp_eq_0_iff_not_bit)
  have "unat n < 2 ^ 31" using assms by (simp add: word_less_nat_alt)
  then have "unat (take_bit 31 n) = unat n"
    by (simp only: unsigned_take_bit_eq take_bit_nat_eq_self_iff)
  then have low: "take_bit 31 n = n" by (rule unsigned_word_eqI)
  then have "\<not> bit n 31" by (metis bit_take_bit_iff less_irrefl)
  moreover have "take_bit 31 (n OR push_bit 31 1) = n"
    using low by (simp add: take_bit_or take_bit_push_bit)
  ultimately show ?thesis
    using low unfolding UnPackIndexTypeAndNumRestarts_def PackIndexTypeAndNumRestarts_def bit31 m
    by (cases t) (simp_all add: bit_or_iff bit_push_bit_iff flip: take_bit_eq_mask)
qed

end
