(* ===== verification/BlockBuilder.thy ===== *)
theory BlockBuilder
  imports TableFormat DbFormat Bloom
begin

text \<open>
  Building the blocks of a table: table/block_based/block_builder.h, table/block_based/block_builder.cc,
  and the hash index over the keys of a block, table/block_based/data_block_hash_index.h and .cc.

  A block is a sequence of entries, each with the length of the prefix it shares with the key before it,
  then the offsets of the entries that share nothing (the restart points), perhaps a hash table from
  user keys to restart points, and a last word with the number of restart points.
\<close>

section \<open>The hash index\<close>

definition kNoEntry :: u8 where "kNoEntry = 255"
definition kCollision :: u8 where "kCollision = 254"
definition kMaxRestartSupportedByHashIndex :: nat where "kMaxRestartSupportedByHashIndex = 253"
definition kMaxBlockSizeSupportedByHashIndex :: nat where "kMaxBlockSizeSupportedByHashIndex = 2 ^ 16"

text \<open>
  The number of buckets grows by a fraction with each key, added up in double arithmetic and cast to 16
  bits in the end: \<open>hib_buckets n\<close> is what comes of \<open>n\<close> keys. Without it the index is not initialized.
\<close>

record DataBlockHashIndexBuilder =
  hib_buckets :: "(nat \<Rightarrow> u16) option"
  hib_keys :: nat
  hib_valid :: bool
  hib_pairs :: "(u32 \<times> u8) list"

definition hib_new :: DataBlockHashIndexBuilder where
  "hib_new = \<lparr>hib_buckets = None, hib_keys = 0, hib_valid = False, hib_pairs = []\<rparr>"

definition hib_Initialize :: "(nat \<Rightarrow> u16) \<Rightarrow> DataBlockHashIndexBuilder \<Rightarrow> DataBlockHashIndexBuilder" where
  "hib_Initialize buckets h = h\<lparr>hib_buckets := Some buckets, hib_valid := True\<rparr>"

definition hib_Valid :: "DataBlockHashIndexBuilder \<Rightarrow> bool" where
  "hib_Valid h \<longleftrightarrow> hib_valid h \<and> hib_buckets h \<noteq> None"

definition estimated_num_buckets :: "DataBlockHashIndexBuilder \<Rightarrow> u16" where
  "estimated_num_buckets h = (case hib_buckets h of None \<Rightarrow> 0 | Some b \<Rightarrow> b (hib_keys h))"

definition hib_EstimateSize :: "DataBlockHashIndexBuilder \<Rightarrow> nat" where
  "hib_EstimateSize h = 2 + unat (estimated_num_buckets h OR 1)"

definition hib_Add :: "bytes \<Rightarrow> nat \<Rightarrow> DataBlockHashIndexBuilder \<Rightarrow> DataBlockHashIndexBuilder" where
  "hib_Add key restart_index h =
     (if restart_index > kMaxRestartSupportedByHashIndex then h\<lparr>hib_valid := False\<rparr>
      else h\<lparr>hib_pairs := hib_pairs h @ [(GetSliceHash key, of_nat restart_index)], hib_keys := hib_keys h + 1\<rparr>)"

definition put_bucket :: "u16 \<Rightarrow> u32 \<times> u8 \<Rightarrow> u8 list \<Rightarrow> u8 list" where
  "put_bucket num_buckets entry buckets =
     (let buck_idx = unat (fst entry) mod unat num_buckets
      in if buckets ! buck_idx = kNoEntry then buckets[buck_idx := snd entry]
         else if buckets ! buck_idx \<noteq> snd entry then buckets[buck_idx := kCollision]
         else buckets)"

definition hib_Finish :: "bytes \<Rightarrow> DataBlockHashIndexBuilder \<Rightarrow> bytes" where
  "hib_Finish buffer h =
     (let est = estimated_num_buckets h;
          num_buckets = (if est = 0 then 1 else est) OR 1;
          buckets = fold (put_bucket num_buckets) (hib_pairs h) (replicate (unat num_buckets) kNoEntry)
      in PutFixed16 (buffer @ buckets) num_buckets)"

definition hib_Reset :: "DataBlockHashIndexBuilder \<Rightarrow> DataBlockHashIndexBuilder" where
  "hib_Reset h = h\<lparr>hib_keys := 0, hib_valid := True, hib_pairs := []\<rparr>"

text \<open>The reader: the number of buckets is zero until it is initialized.\<close>

definition hi_Initialize :: "bytes \<Rightarrow> u16 \<Rightarrow> u16 \<times> u16" where
  "hi_Initialize data sz =
     (let num_buckets = DecodeFixed16 (drop (unat sz - 2) data)
      in (num_buckets, sz - 2 - num_buckets))"

definition hi_Lookup :: "u16 \<Rightarrow> bytes \<Rightarrow> nat \<Rightarrow> bytes \<Rightarrow> u8" where
  "hi_Lookup num_buckets data map_offset key =
     data ! (map_offset + unat (GetSliceHash key) mod unat num_buckets)"

section \<open>The builder of a block\<close>

record BlockBuilder =
  block_restart_interval :: int
  use_delta_encoding :: bool
  use_value_delta_encoding :: bool
  bb_buffer :: bytes
  bb_restarts :: "u32 list"
  bb_estimate :: nat
  bb_counter :: int
  bb_finished :: bool
  bb_last_key :: bytes
  bb_hash :: DataBlockHashIndexBuilder

text \<open>\<open>hash_buckets\<close> is there when the block gets a hash index.\<close>

definition BlockBuilder_new :: "int \<Rightarrow> bool \<Rightarrow> bool \<Rightarrow> (nat \<Rightarrow> u16) option \<Rightarrow> BlockBuilder" where
  "BlockBuilder_new interval delta value_delta hash_buckets =
     \<lparr>block_restart_interval = interval, use_delta_encoding = delta, use_value_delta_encoding = value_delta,
      bb_buffer = [], bb_restarts = [0], bb_estimate = 8, bb_counter = 0, bb_finished = False, bb_last_key = [],
      bb_hash = (case hash_buckets of None \<Rightarrow> hib_new | Some b \<Rightarrow> hib_Initialize b hib_new)\<rparr>"

definition bb_Reset :: "BlockBuilder \<Rightarrow> BlockBuilder" where
  "bb_Reset b =
     b\<lparr>bb_buffer := [], bb_restarts := [0], bb_estimate := 8, bb_counter := 0, bb_finished := False,
       bb_last_key := [], bb_hash := (if hib_Valid (bb_hash b) then hib_Reset (bb_hash b) else bb_hash b)\<rparr>"

definition bb_empty :: "BlockBuilder \<Rightarrow> bool" where
  "bb_empty b \<longleftrightarrow> bb_buffer b = []"

definition bb_CurrentSizeEstimate :: "BlockBuilder \<Rightarrow> nat" where
  "bb_CurrentSizeEstimate b =
     bb_estimate b + (if hib_Valid (bb_hash b) then hib_EstimateSize (bb_hash b) else 0)"

definition bb_EstimateSizeAfterKV :: "bytes \<Rightarrow> bytes \<Rightarrow> BlockBuilder \<Rightarrow> nat" where
  "bb_EstimateSizeAfterKV key value b =
     (let restart = (bb_counter b \<ge> block_restart_interval b);
          full = (\<not> use_value_delta_encoding b \<or> restart)
      in bb_CurrentSizeEstimate b + length key +
         (if full then length value else length value div 2) + (if restart then 4 else 0) + 4 +
         VarintLength (of_nat (length key)) + (if full then VarintLength (of_nat (length value)) else 0))"

definition bb_Finish :: "BlockBuilder \<Rightarrow> bytes \<times> BlockBuilder" where
  "bb_Finish b =
     (let buffer1 = fold (\<lambda>r d. PutFixed32 d r) (bb_restarts b) (bb_buffer b);
          num_restarts = of_nat (length (bb_restarts b)) :: u32;
          (buffer2, index_type) =
            (if hib_Valid (bb_hash b) \<and> bb_CurrentSizeEstimate b \<le> kMaxBlockSizeSupportedByHashIndex
             then (hib_Finish buffer1 (bb_hash b), kDataBlockBinaryAndHash)
             else (buffer1, kDataBlockBinarySearch));
          buffer3 = PutFixed32 buffer2 (PackIndexTypeAndNumRestarts index_type num_restarts)
      in (buffer3, b\<lparr>bb_buffer := buffer3, bb_finished := True\<rparr>))"

definition bb_Add :: "bytes \<Rightarrow> bytes \<Rightarrow> bytes option \<Rightarrow> BlockBuilder \<Rightarrow> BlockBuilder" where
  "bb_Add key value delta_value b =
     (let (b1, shared) =
            (if bb_counter b \<ge> block_restart_interval b
             then (b\<lparr>bb_restarts := bb_restarts b @ [of_nat (length (bb_buffer b))],
                     bb_estimate := bb_estimate b + 4, bb_counter := 0,
                     bb_last_key := (if use_delta_encoding b then key else bb_last_key b)\<rparr>, 0)
             else if use_delta_encoding b
             then (b\<lparr>bb_last_key := key\<rparr>, difference_offset key (bb_last_key b))
             else (b, 0));
          non_shared = length key - shared;
          curr_size = length (bb_buffer b1);
          buffer1 =
            (if use_value_delta_encoding b
             then PutVarint32Varint32 (bb_buffer b1) (of_nat shared) (of_nat non_shared)
             else PutVarint32Varint32Varint32 (bb_buffer b1) (of_nat shared) (of_nat non_shared)
                    (of_nat (length value)));
          buffer2 = buffer1 @ drop shared key;
          buffer3 = buffer2 @ (if shared \<noteq> 0 \<and> use_value_delta_encoding b then the delta_value else value);
          b2 = b1\<lparr>bb_buffer := buffer3\<rparr>;
          b3 = (if hib_Valid (bb_hash b2)
                then b2\<lparr>bb_hash := hib_Add (ExtractUserKey key) (length (bb_restarts b2) - 1) (bb_hash b2)\<rparr>
                else b2)
      in b3\<lparr>bb_counter := bb_counter b3 + 1, bb_estimate := bb_estimate b3 + (length (bb_buffer b3) - curr_size)\<rparr>)"

end
