(* ===== verification/Block.thy ===== *)
theory Block
  imports BlockBuilder IterKey
begin

text \<open>
  Reading the blocks of a table: table/block_based/block.h and table/block_based/block.cc. A block finds
  its restart points from its end; the iterators decode the entries one after another, each key from
  the key before it.

  A slice into the block is its offset and length. The decoders read the bytes of the block at an
  offset; the first three are read before the bound is looked at, as in the code, so a block has to hold
  them. Loops over entries are partial functions, because the entries of a damaged block may lead back.
  The bitmap that measures read amplification is a statistic and is left out.
\<close>

section \<open>Blocks\<close>

record Block =
  blk_data :: bytes
  blk_size :: nat
  blk_restart_offset :: u32
  blk_num_restarts :: u32
  blk_global_seqno :: SequenceNumber
  blk_hash_buckets :: u16

definition blk_footer :: "bytes \<Rightarrow> u32" where
  "blk_footer data = DecodeFixed32 (drop (length data - 4) data)"

definition blk_NumRestarts :: "bytes \<Rightarrow> u32" where
  "blk_NumRestarts data =
     (if length data > kMaxBlockSizeSupportedByHashIndex then blk_footer data
      else snd (UnPackIndexTypeAndNumRestarts (blk_footer data)))"

definition blk_IndexType :: "bytes \<Rightarrow> DataBlockIndexType" where
  "blk_IndexType data =
     (if length data > kMaxBlockSizeSupportedByHashIndex then kDataBlockBinarySearch
      else fst (UnPackIndexTypeAndNumRestarts (blk_footer data)))"

text \<open>A size of zero marks an error.\<close>

definition Block_new :: "bytes \<Rightarrow> SequenceNumber \<Rightarrow> Block" where
  "Block_new contents global_seqno =
     (let sz = length contents;
          blk = \<lparr>blk_data = contents, blk_size = sz, blk_restart_offset = 0, blk_num_restarts = 0,
                 blk_global_seqno = global_seqno, blk_hash_buckets = 0\<rparr>
      in if sz < 4 then blk\<lparr>blk_size := 0\<rparr>
         else
           (let n = blk_NumRestarts contents;
                blk1 = blk\<lparr>blk_num_restarts := n\<rparr>
            in case blk_IndexType contents of
                 kDataBlockBinarySearch \<Rightarrow>
                   (let off = of_nat sz - (1 + n) * 4
                    in blk1\<lparr>blk_restart_offset := off, blk_size := (if unat off > sz - 4 then 0 else sz)\<rparr>)
               | kDataBlockBinaryAndHash \<Rightarrow>
                   (if sz < 4 + 2 then blk1\<lparr>blk_size := 0\<rparr>
                    else
                      (let (buckets, map_offset) = hi_Initialize contents (of_nat (sz - 4));
                           off = ucast map_offset - n * 4
                       in blk1\<lparr>blk_hash_buckets := buckets, blk_restart_offset := off,
                               blk_size := (if off > ucast map_offset then 0 else sz)\<rparr>))))"

section \<open>Entries\<close>

text \<open>A varint at an offset, not reading beyond the limit; the new offset and the value.\<close>

definition varint_at :: "bytes \<Rightarrow> nat \<Rightarrow> nat \<Rightarrow> (nat \<times> u32) option" where
  "varint_at data limit p =
     map_option (\<lambda>(v, rest). (limit - length rest, v)) (GetVarint32Ptr (drop p (take limit data)))"

definition three_varints :: "bytes \<Rightarrow> nat \<Rightarrow> nat \<Rightarrow> (nat \<times> u32 \<times> u32 \<times> u32) option" where
  "three_varints data limit p =
     Option.bind (varint_at data limit p) (\<lambda>(p1, shared).
     Option.bind (varint_at data limit p1) (\<lambda>(p2, non_shared).
     Option.bind (varint_at data limit p2) (\<lambda>(p3, value_length).
     Some (p3, shared, non_shared, value_length))))"

text \<open>The fast path takes three bytes when none of them continues.\<close>

definition DecodeEntry :: "bytes \<Rightarrow> nat \<Rightarrow> nat \<Rightarrow> (nat \<times> u32 \<times> u32 \<times> u32) option" where
  "DecodeEntry data p limit =
     (let shared = ucast (data ! p) :: u32;
          non_shared = ucast (data ! (p + 1)) :: u32;
          value_length = ucast (data ! (p + 2)) :: u32
      in if shared OR non_shared OR value_length < 128 then Some (p + 3, shared, non_shared, value_length)
         else three_varints data limit p)"

definition CheckAndDecodeEntry :: "bytes \<Rightarrow> nat \<Rightarrow> nat \<Rightarrow> (nat \<times> u32 \<times> u32 \<times> u32) option" where
  "CheckAndDecodeEntry data p limit =
     (if limit < p + 3 then None
      else
        Option.bind (DecodeEntry data p limit) (\<lambda>(q, shared, non_shared, value_length).
          if of_nat (limit - q) < non_shared + value_length then None
          else Some (q, shared, non_shared, value_length)))"

definition DecodeKey :: "bytes \<Rightarrow> nat \<Rightarrow> nat \<Rightarrow> (nat \<times> u32 \<times> u32) option" where
  "DecodeKey data p limit = map_option (\<lambda>(q, shared, non_shared, _). (q, shared, non_shared)) (DecodeEntry data p limit)"

definition DecodeKeyV4 :: "bytes \<Rightarrow> nat \<Rightarrow> nat \<Rightarrow> (nat \<times> u32 \<times> u32) option" where
  "DecodeKeyV4 data p limit =
     (if limit < p + 3 then None
      else
        (let shared = ucast (data ! p) :: u32; non_shared = ucast (data ! (p + 1)) :: u32
         in if shared OR non_shared < 128 then Some (p + 2, shared, non_shared)
            else
              Option.bind (varint_at data limit p) (\<lambda>(p1, shared).
              Option.bind (varint_at data limit p1) (\<lambda>(p2, non_shared).
              Some (p2, shared, non_shared)))))"

section \<open>The state of an iterator\<close>

text \<open>
  \<open>cp_key_ptr\<close> is the memory a pointer into the block points to, \<open>None\<close> the null pointer. The value is
  \<open>None\<close> when the slice was cleared and points nowhere into the block.
\<close>

record CachedPrevEntry =
  cp_offset :: u32
  cp_key_ptr :: "bytes option"
  cp_key_offset :: nat
  cp_key_size :: nat
  cp_value :: "(nat \<times> nat) option"

record DataBlockIter =
  di_comparator :: comparator
  di_user_comparator :: comparator
  di_data :: "bytes option"
  di_num_restarts :: u32
  di_restart_index :: u32
  di_restarts :: u32
  di_current :: u32
  di_key :: IterKey
  di_value :: "(nat \<times> nat) option"
  di_status :: Status
  di_key_pinned :: bool
  di_contents_pinned :: bool
  di_global_seqno :: SequenceNumber
  di_prev_keys_buff :: bytes
  di_prev_entries :: "CachedPrevEntry list"
  di_prev_entries_idx :: int
  di_hash_buckets :: "u16 option"

definition di_new :: "comparator \<Rightarrow> comparator \<Rightarrow> DataBlockIter" where
  "di_new cmp ucmp =
     \<lparr>di_comparator = cmp, di_user_comparator = ucmp, di_data = None, di_num_restarts = 0, di_restart_index = 0,
      di_restarts = 0, di_current = 0, di_key = IterKey_new, di_value = None, di_status = OK,
      di_key_pinned = False, di_contents_pinned = False, di_global_seqno = 0, di_prev_keys_buff = [],
      di_prev_entries = [], di_prev_entries_idx = - 1, di_hash_buckets = None\<rparr>"

definition di_Initialize ::
  "comparator \<Rightarrow> comparator \<Rightarrow> bytes \<Rightarrow> u32 \<Rightarrow> u32 \<Rightarrow> SequenceNumber \<Rightarrow> bool \<Rightarrow> u16 option \<Rightarrow> DataBlockIter \<Rightarrow> DataBlockIter"
where
  "di_Initialize cmp ucmp data restarts num_restarts global_seqno pinned hash it =
     it\<lparr>di_comparator := cmp, di_user_comparator := ucmp, di_data := Some data, di_restarts := restarts,
        di_num_restarts := num_restarts, di_current := restarts, di_restart_index := num_restarts,
        di_global_seqno := global_seqno, di_contents_pinned := pinned,
        di_key := ik_SetIsUserKey (di_key it) False, di_hash_buckets := hash\<rparr>"

definition di_Invalidate :: "Status \<Rightarrow> DataBlockIter \<Rightarrow> DataBlockIter" where
  "di_Invalidate s it =
     it\<lparr>di_data := None, di_current := di_restarts it, di_status := s, di_prev_keys_buff := [],
        di_prev_entries := [], di_prev_entries_idx := - 1\<rparr>"

definition NewDataIterator :: "comparator \<Rightarrow> comparator \<Rightarrow> bool \<Rightarrow> Block \<Rightarrow> DataBlockIter" where
  "NewDataIterator cmp ucmp pinned blk =
     (if blk_size blk < 8 then di_Invalidate (Corruption (str ''bad block contents'') []) (di_new cmp ucmp)
      else if blk_num_restarts blk = 0 then di_Invalidate OK (di_new cmp ucmp)
      else di_Initialize cmp ucmp (blk_data blk) (blk_restart_offset blk) (blk_num_restarts blk)
             (blk_global_seqno blk) pinned
             (if blk_hash_buckets blk \<noteq> 0 then Some (blk_hash_buckets blk) else None) (di_new cmp ucmp))"

definition di_Valid :: "DataBlockIter \<Rightarrow> bool" where
  "di_Valid it \<longleftrightarrow> di_current it < di_restarts it"

definition di_key_bytes :: "DataBlockIter \<Rightarrow> bytes" where
  "di_key_bytes it = ik_GetKey (di_key it)"

abbreviation di_bytes :: "DataBlockIter \<Rightarrow> bytes" where
  "di_bytes it \<equiv> the (di_data it)"

definition di_value_bytes :: "DataBlockIter \<Rightarrow> bytes" where
  "di_value_bytes it =
     (case di_value it of None \<Rightarrow> [] | Some (off, len) \<Rightarrow> take len (drop off (di_bytes it)))"

definition di_IsKeyPinned :: "DataBlockIter \<Rightarrow> bool" where
  "di_IsKeyPinned it \<longleftrightarrow> di_contents_pinned it \<and> di_key_pinned it"

definition NextEntryOffset :: "DataBlockIter \<Rightarrow> u32" where
  "NextEntryOffset it = (case di_value it of None \<Rightarrow> undefined | Some (off, len) \<Rightarrow> of_nat (off + len))"

definition GetRestartPoint :: "u32 \<Rightarrow> DataBlockIter \<Rightarrow> u32" where
  "GetRestartPoint index it = DecodeFixed32 (drop (unat (di_restarts it) + unat index * 4) (di_bytes it))"

definition SeekToRestartPoint :: "u32 \<Rightarrow> DataBlockIter \<Rightarrow> DataBlockIter" where
  "SeekToRestartPoint index it =
     it\<lparr>di_key := ik_Clear (di_key it), di_restart_index := index,
        di_value := Some (unat (GetRestartPoint index it), 0)\<rparr>"

definition CorruptionError :: "DataBlockIter \<Rightarrow> DataBlockIter" where
  "CorruptionError it =
     it\<lparr>di_current := di_restarts it, di_restart_index := di_num_restarts it,
        di_status := Corruption (str ''bad entry in block'') [], di_key := ik_Clear (di_key it), di_value := None\<rparr>"

section \<open>Decoding the next entry\<close>

lemma restart_loop_decreases:
  assumes "(i :: u32) + 1 < n"
  shows "unat (n - (2 + i)) < unat (n - (i + 1))"
proof -
  have nz: "n - (i + 1) \<noteq> 0" using assms by auto
  have eq: "n - (2 + i) = (n - (i + 1)) - 1" by simp
  show ?thesis unfolding eq unat_minus_one [OF nz] using nz unat_gt_0 [of "n - (i + 1)"] by linarith
qed

function restart_loop :: "u32 \<Rightarrow> DataBlockIter \<Rightarrow> u32" where
  "restart_loop i it =
     (if i + 1 < di_num_restarts it \<and> GetRestartPoint (i + 1) it < di_current it
      then restart_loop (i + 1) it else i)"
  by pat_completeness auto

termination
  by (relation "measure (\<lambda>(i, it). unat (di_num_restarts it - (i + 1)))") (auto intro: restart_loop_decreases)

declare restart_loop.simps [simp del]

definition apply_global_seqno :: "DataBlockIter \<Rightarrow> DataBlockIter" where
  "apply_global_seqno it =
     (if di_global_seqno it \<noteq> kDisableGlobalSequenceNumber
      then
        (let value_type = ExtractValueType (ik_GetKey (di_key it));
             it1 = (if di_key_pinned it then it\<lparr>di_key := ik_OwnKey (di_key it), di_key_pinned := False\<rparr> else it)
         in it1\<lparr>di_key := ik_UpdateInternalKey (di_key it1) (di_global_seqno it1) value_type\<rparr>)
      else it)"

definition ParseNextDataKey ::
  "(bytes \<Rightarrow> nat \<Rightarrow> nat \<Rightarrow> (nat \<times> u32 \<times> u32 \<times> u32) option) \<Rightarrow> nat option \<Rightarrow> DataBlockIter \<Rightarrow> bool \<times> DataBlockIter"
where
  "ParseNextDataKey decode limit_arg it0 =
     (let it = it0\<lparr>di_current := NextEntryOffset it0\<rparr>;
          p = unat (di_current it);
          limit = (case limit_arg of None \<Rightarrow> unat (di_restarts it) | Some l \<Rightarrow> l)
      in if p \<ge> limit then (False, it\<lparr>di_current := di_restarts it, di_restart_index := di_num_restarts it\<rparr>)
         else
           (case decode (di_bytes it) p limit of
              None \<Rightarrow> (False, CorruptionError it)
            | Some (q, shared, non_shared, value_length) \<Rightarrow>
                if ik_key_size (di_key it) < unat shared then (False, CorruptionError it)
                else
                  (let delta = take (unat non_shared) (drop q (di_bytes it));
                       it1 = (if shared = 0
                              then it\<lparr>di_key := ik_SetKey (di_key it) delta False, di_key_pinned := True\<rparr>
                              else it\<lparr>di_key := ik_TrimAppend (di_key it) (unat shared) delta, di_key_pinned := False\<rparr>);
                       it2 = (apply_global_seqno it1)\<lparr>di_value := Some (q + unat non_shared, unat value_length)\<rparr>
                   in (True, if shared = 0
                             then it2\<lparr>di_restart_index := restart_loop (di_restart_index it2) it2\<rparr>
                             else it2))))"

section \<open>Searching the restart points\<close>

text \<open>\<open>Inl ()\<close> stands for a damaged restart point.\<close>

partial_function (option) binary_seek_loop ::
  "(bytes \<Rightarrow> nat \<Rightarrow> nat \<Rightarrow> (nat \<times> u32 \<times> u32) option) \<Rightarrow> comparator \<Rightarrow> bytes \<Rightarrow> DataBlockIter \<Rightarrow> u32 \<Rightarrow> u32 \<Rightarrow>
     (unit + u32) option"
where
  "binary_seek_loop decode c target it left right =
     (if left < right
      then
        (let mid = (left + right + 1) div 2
         in case decode (di_bytes it) (unat (GetRestartPoint mid it)) (unat (di_restarts it)) of
              None \<Rightarrow> Some (Inl ())
            | Some (q, shared, non_shared) \<Rightarrow>
                if shared \<noteq> 0 then Some (Inl ())
                else
                  (let cmp = Compare c (take (unat non_shared) (drop q (di_bytes it))) target
                   in if cmp < 0 then binary_seek_loop decode c target it mid right
                      else if cmp > 0 then binary_seek_loop decode c target it left (mid - 1)
                      else binary_seek_loop decode c target it mid mid))
      else Some (Inr left))"

definition BinarySeek ::
  "(bytes \<Rightarrow> nat \<Rightarrow> nat \<Rightarrow> (nat \<times> u32 \<times> u32) option) \<Rightarrow> bytes \<Rightarrow> u32 \<Rightarrow> u32 \<Rightarrow> comparator \<Rightarrow> DataBlockIter \<Rightarrow>
     (u32 option \<times> DataBlockIter) option"
where
  "BinarySeek decode target left right c it =
     map_option (\<lambda>r. case r of Inl _ \<Rightarrow> (None, CorruptionError it) | Inr index \<Rightarrow> (Some index, it))
       (binary_seek_loop decode c target it left right)"

section \<open>Movements\<close>

partial_function (option) scan_loop ::
  "nat option \<Rightarrow> bytes \<Rightarrow> DataBlockIter \<Rightarrow> DataBlockIter option"
where
  "scan_loop limit target it =
     (let (parsed, it1) = ParseNextDataKey DecodeEntry limit it
      in if \<not> parsed \<or> Compare (di_comparator it1) (di_key_bytes it1) target \<ge> 0 then Some it1
         else scan_loop limit target it1)"

definition di_Seek :: "bytes \<Rightarrow> DataBlockIter \<Rightarrow> DataBlockIter option" where
  "di_Seek target it =
     (if di_data it = None then Some it
      else
        Option.bind (BinarySeek DecodeKey target 0 (di_num_restarts it - 1) (di_comparator it) it) (\<lambda>(index, it1).
          case index of
            None \<Rightarrow> Some it1
          | Some i \<Rightarrow> scan_loop None target (SeekToRestartPoint i it1)))"

definition di_Next :: "DataBlockIter \<Rightarrow> DataBlockIter" where
  "di_Next it = snd (ParseNextDataKey DecodeEntry None it)"

definition di_NextOrReport :: "DataBlockIter \<Rightarrow> DataBlockIter" where
  "di_NextOrReport it = snd (ParseNextDataKey CheckAndDecodeEntry None it)"

definition di_SeekToFirst :: "DataBlockIter \<Rightarrow> DataBlockIter" where
  "di_SeekToFirst it =
     (if di_data it = None then it else snd (ParseNextDataKey DecodeEntry None (SeekToRestartPoint 0 it)))"

definition di_SeekToFirstOrReport :: "DataBlockIter \<Rightarrow> DataBlockIter" where
  "di_SeekToFirstOrReport it =
     (if di_data it = None then it else snd (ParseNextDataKey CheckAndDecodeEntry None (SeekToRestartPoint 0 it)))"

partial_function (option) last_loop :: "DataBlockIter \<Rightarrow> DataBlockIter option" where
  "last_loop it =
     (let (parsed, it1) = ParseNextDataKey DecodeEntry None it
      in if parsed \<and> NextEntryOffset it1 < di_restarts it1 then last_loop it1 else Some it1)"

definition di_SeekToLast :: "DataBlockIter \<Rightarrow> DataBlockIter option" where
  "di_SeekToLast it =
     (if di_data it = None then Some it else last_loop (SeekToRestartPoint (di_num_restarts it - 1) it))"

text \<open>Going back to a restart point before the entry; \<open>None\<close> when there is none.\<close>

function back_to_restart :: "u32 \<Rightarrow> u32 \<Rightarrow> DataBlockIter \<Rightarrow> u32 option" where
  "back_to_restart i original it =
     (if GetRestartPoint i it \<ge> original
      then (if i = 0 then None else back_to_restart (i - 1) original it)
      else Some i)"
  by pat_completeness auto
termination
  by (relation "measure (\<lambda>(i, original, it). unat i)")
    (auto simp: unat_gt_0 unat_minus_one intro: diff_less)

declare back_to_restart.simps [simp del]

text \<open>The entries from the restart point up to the one before \<open>original\<close> go to the cache.\<close>

definition cache_entry :: "DataBlockIter \<Rightarrow> DataBlockIter" where
  "cache_entry it =
     (if ik_IsKeyPinned (di_key it)
      then it\<lparr>di_prev_entries := di_prev_entries it @
                [\<lparr>cp_offset = di_current it, cp_key_ptr = Some (di_key_bytes it), cp_key_offset = 0,
                  cp_key_size = length (di_key_bytes it), cp_value = di_value it\<rparr>]\<rparr>
      else it\<lparr>di_prev_keys_buff := di_prev_keys_buff it @ di_key_bytes it,
              di_prev_entries := di_prev_entries it @
                [\<lparr>cp_offset = di_current it, cp_key_ptr = None, cp_key_offset = length (di_prev_keys_buff it),
                  cp_key_size = length (di_key_bytes it), cp_value = di_value it\<rparr>]\<rparr>)"

partial_function (option) cache_loop :: "u32 \<Rightarrow> DataBlockIter \<Rightarrow> DataBlockIter option" where
  "cache_loop original it =
     (let (parsed, it1) = ParseNextDataKey DecodeEntry None it
      in if \<not> parsed then Some it1
         else
           (let it2 = cache_entry it1
            in if NextEntryOffset it2 < original then cache_loop original it2 else Some it2))"

definition cached_prev :: "DataBlockIter \<Rightarrow> DataBlockIter" where
  "cached_prev it =
     (let idx = di_prev_entries_idx it - 1;
          e = di_prev_entries it ! nat idx;
          (mem, pinned) = (case cp_key_ptr e of
                             Some m \<Rightarrow> (m, True)
                           | None \<Rightarrow> (drop (cp_key_offset e) (di_prev_keys_buff it), False))
      in it\<lparr>di_prev_entries_idx := idx, di_key_pinned := pinned, di_current := cp_offset e,
            di_key := ik_SetKey (di_key it) (take (cp_key_size e) mem) False, di_value := cp_value e\<rparr>)"

definition di_Prev :: "DataBlockIter \<Rightarrow> DataBlockIter option" where
  "di_Prev it0 =
     (if di_prev_entries_idx it0 > 0 \<and>
         cp_offset (di_prev_entries it0 ! nat (di_prev_entries_idx it0)) = di_current it0
      then Some (cached_prev it0)
      else
        (let it = it0\<lparr>di_prev_entries_idx := - 1, di_prev_entries := [], di_prev_keys_buff := []\<rparr>;
             original = di_current it
         in case back_to_restart (di_restart_index it) original it of
              None \<Rightarrow> Some (it\<lparr>di_current := di_restarts it, di_restart_index := di_num_restarts it\<rparr>)
            | Some i \<Rightarrow>
                map_option (\<lambda>it1. it1\<lparr>di_prev_entries_idx := int (length (di_prev_entries it1)) - 1\<rparr>)
                  (cache_loop original (SeekToRestartPoint i it))))"

partial_function (option) prev_loop :: "bytes \<Rightarrow> DataBlockIter \<Rightarrow> DataBlockIter option" where
  "prev_loop target it =
     (if di_Valid it \<and> Compare (di_comparator it) (di_key_bytes it) target > 0
      then Option.bind (di_Prev it) (prev_loop target) else Some it)"

definition di_SeekForPrev :: "bytes \<Rightarrow> DataBlockIter \<Rightarrow> DataBlockIter option" where
  "di_SeekForPrev target it =
     (if di_data it = None then Some it
      else
        Option.bind (BinarySeek DecodeKey target 0 (di_num_restarts it - 1) (di_comparator it) it) (\<lambda>(index, it1).
          case index of
            None \<Rightarrow> Some it1
          | Some i \<Rightarrow>
              Option.bind (scan_loop None target (SeekToRestartPoint i it1)) (\<lambda>it2.
                if \<not> di_Valid it2 then di_SeekToLast it2 else prev_loop target it2)))"

section \<open>Lookups through the hash index\<close>

definition SeekForGetImpl :: "u16 \<Rightarrow> bytes \<Rightarrow> DataBlockIter \<Rightarrow> (bool \<times> DataBlockIter) option" where
  "SeekForGetImpl buckets target it =
     (let target_user_key = ExtractUserKey target;
          map_offset = unat (di_restarts it + di_num_restarts it * 4);
          entry0 = hi_Lookup buckets (di_bytes it) map_offset target_user_key
      in if entry0 = kCollision then map_option (Pair True) (di_Seek target it)
         else
           (let entry = (if entry0 = kNoEntry then ucast (di_num_restarts it - 1) else entry0);
                restart_index = ucast entry :: u32;
                it1 = SeekToRestartPoint restart_index it;
                limit = (if di_restart_index it1 + 1 < di_num_restarts it1
                         then unat (GetRestartPoint (di_restart_index it1 + 1) it1) else unat (di_restarts it1))
            in Option.bind (scan_loop (Some limit) target it1) (\<lambda>it2.
                 if di_current it2 = di_restarts it2 then Some (True, it2)
                 else if Compare (di_user_comparator it2) (ik_GetUserKey (di_key it2)) target_user_key \<noteq> 0
                 then Some (False, it2)
                 else
                   (let value_type = ExtractValueType (di_key_bytes it2)
                    in if value_type \<noteq> kTypeValue \<and> value_type \<noteq> kTypeDeletion \<and>
                          value_type \<noteq> kTypeSingleDeletion \<and> value_type \<noteq> kTypeBlobIndex
                       then map_option (Pair True) (di_Seek target it2)
                       else Some (True, it2)))))"

definition SeekForGet :: "bytes \<Rightarrow> DataBlockIter \<Rightarrow> (bool \<times> DataBlockIter) option" where
  "SeekForGet target it =
     (case di_hash_buckets it of
        None \<Rightarrow> map_option (Pair True) (di_Seek target it)
      | Some buckets \<Rightarrow> SeekForGetImpl buckets target it)"

end
