(* ===== verification/BlockSpec.thy ===== *)
theory BlockSpec
  imports Block
begin

text \<open>
  What a block says: the list of its entries, each with the length of the prefix it shares with the key
  before it, and the indices of the restart points. Decoding an entry gives back its key and value; every
  movement of an iterator is a movement in the list.
\<close>

section \<open>The text of a block\<close>

type_synonym block_entry = "nat \<times> bytes \<times> bytes"

abbreviation e_shared :: "block_entry \<Rightarrow> nat" where "e_shared e \<equiv> fst e"
abbreviation e_key :: "block_entry \<Rightarrow> bytes" where "e_key e \<equiv> fst (snd e)"
abbreviation e_value :: "block_entry \<Rightarrow> bytes" where "e_value e \<equiv> snd (snd e)"

definition enc_entry :: "block_entry \<Rightarrow> bytes" where
  "enc_entry e =
     EncodeVarint32 (of_nat (e_shared e)) @ EncodeVarint32 (of_nat (length (e_key e) - e_shared e)) @
     EncodeVarint32 (of_nat (length (e_value e))) @ drop (e_shared e) (e_key e) @ e_value e"

definition entries_bytes :: "block_entry list \<Rightarrow> bytes" where
  "entries_bytes es = concat (map enc_entry es)"

definition entry_offset :: "block_entry list \<Rightarrow> nat \<Rightarrow> nat" where
  "entry_offset es i = length (entries_bytes (take i es))"

text \<open>Each key shares with the one before it what it says it shares.\<close>

fun shares :: "bytes \<Rightarrow> block_entry list \<Rightarrow> bool" where
  "shares prev [] \<longleftrightarrow> True"
| "shares prev (e # es) \<longleftrightarrow>
     e_shared e \<le> length prev \<and> e_shared e \<le> length (e_key e) \<and>
     take (e_shared e) (e_key e) = take (e_shared e) prev \<and>
     length (e_key e) < 2 ^ 32 \<and> length (e_value e) < 2 ^ 32 \<and> shares (e_key e) es"

definition restart_bytes :: "block_entry list \<Rightarrow> nat list \<Rightarrow> bytes" where
  "restart_bytes es rs = concat (map (\<lambda>r. EncodeFixed32 (of_nat (entry_offset es r))) rs)"

definition block_text :: "block_entry list \<Rightarrow> nat list \<Rightarrow> bytes \<Rightarrow> bytes" where
  "block_text es rs tail = entries_bytes es @ restart_bytes es rs @ tail"

definition block_ok :: "block_entry list \<Rightarrow> nat list \<Rightarrow> bytes \<Rightarrow> bool" where
  "block_ok es rs tail \<longleftrightarrow>
     shares [] es \<and> rs \<noteq> [] \<and> rs ! 0 = 0 \<and> sorted_wrt (<) rs \<and>
     (\<forall>r\<in>set rs. (r < length es \<or> r = 0) \<and> (r < length es \<longrightarrow> e_shared (es ! r) = 0)) \<and>
     length (block_text es rs tail) < 2 ^ 32"

lemma entries_bytes_simps [simp]:
  "entries_bytes [] = []" "entries_bytes (e # es) = enc_entry e @ entries_bytes es"
  "entries_bytes (xs @ ys) = entries_bytes xs @ entries_bytes ys"
  by (simp_all add: entries_bytes_def)

lemma length_enc_entry: "3 \<le> length (enc_entry e)"
  using length_EncodeVarint32(1) [of "of_nat (e_shared e)"]
    length_EncodeVarint32(1) [of "of_nat (length (e_key e) - e_shared e)"]
    length_EncodeVarint32(1) [of "of_nat (length (e_value e))"]
  by (simp add: enc_entry_def)

lemma entry_offset_0 [simp]: "entry_offset es 0 = 0"
  by (simp add: entry_offset_def)

lemma entry_offset_all: "length es \<le> i \<Longrightarrow> entry_offset es i = length (entries_bytes es)"
  by (simp add: entry_offset_def)

lemma entry_offset_Suc: "i < length es \<Longrightarrow> entry_offset es (Suc i) = entry_offset es i + length (enc_entry (es ! i))"
  by (simp add: entry_offset_def take_Suc_conv_app_nth)

lemma entry_offset_less: "i < j \<Longrightarrow> j \<le> length es \<Longrightarrow> entry_offset es i < entry_offset es j"
proof (induction j)
  case (Suc j)
  have "entry_offset es j < entry_offset es (Suc j)"
    using Suc.prems(2) length_enc_entry [of "es ! j"] by (simp add: entry_offset_Suc del: length_greater_0_conv)
  with Suc show ?case by (cases "i = j") auto
qed simp

lemma entry_offset_le: "i \<le> j \<Longrightarrow> j \<le> length es \<Longrightarrow> entry_offset es i \<le> entry_offset es j"
  using entry_offset_less [of i j es] by (cases "i = j") auto

lemma entry_offset_eq: "i \<le> length es \<Longrightarrow> j \<le> length es \<Longrightarrow> entry_offset es i = entry_offset es j \<longleftrightarrow> i = j"
  using entry_offset_less [of i j es] entry_offset_less [of j i es] by (cases i j rule: linorder_cases) auto

lemma entry_offset_less_iff:
  "i \<le> length es \<Longrightarrow> j \<le> length es \<Longrightarrow> entry_offset es i < entry_offset es j \<longleftrightarrow> i < j"
  using entry_offset_less [of i j es] entry_offset_le [of j i es] by (cases "i < j") auto

lemma block_split:
  assumes "i < length es"
  shows "block_text es rs tail = entries_bytes (take i es) @ enc_entry (es ! i) @
    (entries_bytes (drop (Suc i) es) @ restart_bytes es rs @ tail)"
proof -
  have "entries_bytes es = entries_bytes (take i es @ es ! i # drop (Suc i) es)"
    using id_take_nth_drop [OF assms] by simp
  then show ?thesis by (simp add: block_text_def)
qed

lemma shares_nth:
  assumes "shares prev es" "i < length es"
  shows "e_shared (es ! i) \<le> length (e_key (es ! i)) \<and> length (e_key (es ! i)) < 2 ^ 32 \<and>
    length (e_value (es ! i)) < 2 ^ 32"
  using assms by (induction es arbitrary: prev i) (auto simp: nth_Cons split: nat.split)

lemma shares_prefix:
  assumes "shares prev es" "i < length es"
  shows "e_shared (es ! i) \<le> length (if i = 0 then prev else e_key (es ! (i - 1))) \<and>
    take (e_shared (es ! i)) (e_key (es ! i)) =
      take (e_shared (es ! i)) (if i = 0 then prev else e_key (es ! (i - 1)))"
  using assms
proof (induction es arbitrary: prev i)
  case (Cons e es)
  show ?case
  proof (cases i)
    case (Suc j)
    with Cons.IH [of "e_key e" j] Cons.prems show ?thesis by (cases j) auto
  qed (use Cons.prems in simp)
qed simp

section \<open>Decoding an entry\<close>

lemma less_128_bits: "(w :: u32) < 128 \<longleftrightarrow> (\<forall>n \<ge> 7. \<not> bit w n)"
proof -
  have len: "bit w (7 + n) \<Longrightarrow> n < 32" for n using bit_imp_le_length [of w "7 + n"] by simp
  have "drop_bit 7 w = 0 \<longleftrightarrow> (\<forall>n. \<not> bit w (7 + n))"
    unfolding bit_eq_iff bit_drop_bit_eq bit_0_eq o_def bot_apply bot_bool_def
    by (auto dest: len)
  also have "\<dots> \<longleftrightarrow> (\<forall>n \<ge> 7. \<not> bit w n)" by (metis le_Suc_ex le_add1)
  finally show ?thesis by (simp only: less_128_iff)
qed

lemma word_or_small: "(x :: u32) OR y < 128 \<longleftrightarrow> x < 128 \<and> y < 128"
  unfolding less_128_bits by (auto simp only: bit_or_iff)

lemma ucast_small: "(ucast (b :: byte) :: u32) < 128 \<longleftrightarrow> \<not> bit b 7"
proof -
  have "n = 7" if "bit b n" "7 \<le> n" for n using bit_imp_le_length [OF that(1)] that(2) by simp
  then show ?thesis
    unfolding less_128_bits bit_ucast_iff by (auto intro: bit_imp_le_length)
qed

lemma varint_first:
  assumes "EncodeVarint32 v = b # r"
  shows "(ucast b :: u32) < 128 \<longleftrightarrow> r = []" "r = [] \<Longrightarrow> ucast b = v"
proof -
  have e: "b # r = (if drop_bit 7 v = 0 then [ucast v] else ucast (v OR 128) # varint_bytes (drop_bit 7 v))"
    using assms varint_bytes.simps [of v] by (simp add: EncodeVarint32_bytes)
  show "(ucast b :: u32) < 128 \<longleftrightarrow> r = []"
    using e bit_drop_0 [of v] bit_cont [of v] by (auto simp: ucast_small split: if_splits)
  show "r = [] \<Longrightarrow> ucast b = v"
    using e ucast_last [of v] by (auto split: if_splits dest: sym)
qed

lemma varint_at_Encode:
  assumes "data = pre @ EncodeVarint32 v @ post" "length pre + length (EncodeVarint32 v) \<le> limit" "limit \<le> length data"
  shows "varint_at data limit (length pre) = Some (length pre + length (EncodeVarint32 v), v)"
proof -
  have "drop (length pre) (take limit data) = EncodeVarint32 v @ take (limit - length pre - length (EncodeVarint32 v)) post"
    using assms(1,2) by simp
  then show ?thesis
    using assms by (simp add: varint_at_def GetVarint32Ptr_Encode)
qed

lemma DecodeEntry_enc:
  assumes data: "data = pre @ EncodeVarint32 s @ EncodeVarint32 n @ EncodeVarint32 v @ post"
    and q: "q = length pre + length (EncodeVarint32 s) + length (EncodeVarint32 n) + length (EncodeVarint32 v)"
    and limit: "q \<le> limit" "limit \<le> length data"
  shows "DecodeEntry data (length pre) limit = Some (q, s, n, v)"
proof -
  obtain b1 r1 where s: "EncodeVarint32 s = b1 # r1" using length_EncodeVarint32(1) [of s] by (cases "EncodeVarint32 s") auto
  obtain b2 r2 where n: "EncodeVarint32 n = b2 # r2" using length_EncodeVarint32(1) [of n] by (cases "EncodeVarint32 n") auto
  obtain b3 r3 where v: "EncodeVarint32 v = b3 # r3" using length_EncodeVarint32(1) [of v] by (cases "EncodeVarint32 v") auto
  have slow: "three_varints data limit (length pre) = Some (q, s, n, v)"
    using varint_at_Encode [OF data, of limit]
      varint_at_Encode [of data "pre @ EncodeVarint32 s" n "EncodeVarint32 v @ post" limit]
      varint_at_Encode [of data "pre @ EncodeVarint32 s @ EncodeVarint32 n" v post limit] data limit q
    by (simp add: three_varints_def ac_simps)
  show ?thesis
  proof (cases "r1 = [] \<and> r2 = [] \<and> r3 = []")
    case True
    then have "(ucast b1 :: u32) = s" "(ucast b2 :: u32) = n" "(ucast b3 :: u32) = v" "s < 128" "n < 128" "v < 128"
      using varint_first [OF s] varint_first [OF n] varint_first [OF v] by auto
    moreover have "data ! length pre = b1" "data ! (length pre + 1) = b2" "data ! (length pre + 2) = b3"
      using True by (simp_all add: data s n v nth_append)
    ultimately show ?thesis
      using True q by (simp add: DecodeEntry_def Let_def word_or_small s n v)
  next
    case False
    have "\<not> ((ucast (data ! length pre) :: u32) < 128 \<and> (ucast (data ! (length pre + 1)) :: u32) < 128 \<and>
        (ucast (data ! (length pre + 2)) :: u32) < 128)"
    proof
      assume small: "(ucast (data ! length pre) :: u32) < 128 \<and> (ucast (data ! (length pre + 1)) :: u32) < 128 \<and>
        (ucast (data ! (length pre + 2)) :: u32) < 128"
      have "data ! length pre = b1" by (simp add: data s nth_append)
      with small have r1: "r1 = []" using varint_first(1) [OF s] by simp
      then have "data ! (length pre + 1) = b2" by (simp add: data s n nth_append)
      with small have r2: "r2 = []" using varint_first(1) [OF n] by simp
      then have "data ! (length pre + 2) = b3" using r1 by (simp add: data s n v nth_append)
      with small have "r3 = []" using varint_first(1) [OF v] by simp
      with False r1 r2 show False by simp
    qed
    then show ?thesis using slow by (auto simp: DecodeEntry_def Let_def word_or_small)
  qed
qed

section \<open>Iterators over a block\<close>

text \<open>What an iterator looks at: the comparators, the hash index if there is one, and the block.\<close>

record block_view =
  bv_cmp :: comparator
  bv_ucmp :: comparator
  bv_hash :: "u16 option"
  bv_entries :: "block_entry list"
  bv_restarts :: "nat list"
  bv_tail :: bytes

abbreviation bv_off :: "block_view \<Rightarrow> nat \<Rightarrow> nat" where "bv_off bv \<equiv> entry_offset (bv_entries bv)"
abbreviation bv_len :: "block_view \<Rightarrow> nat" where "bv_len bv \<equiv> length (bv_entries bv)"
abbreviation bv_key :: "block_view \<Rightarrow> nat \<Rightarrow> bytes" where "bv_key bv i \<equiv> e_key (bv_entries bv ! i)"
abbreviation bv_value :: "block_view \<Rightarrow> nat \<Rightarrow> bytes" where "bv_value bv i \<equiv> e_value (bv_entries bv ! i)"
abbreviation bv_text :: "block_view \<Rightarrow> bytes" where
  "bv_text bv \<equiv> block_text (bv_entries bv) (bv_restarts bv) (bv_tail bv)"

text \<open>The slice of a value: where it begins, and that the next entry begins where it ends.\<close>

definition value_at :: "block_view \<Rightarrow> nat \<Rightarrow> (nat \<times> nat) option \<Rightarrow> bool" where
  "value_at bv i v \<longleftrightarrow>
     (\<exists>off len. v = Some (off, len) \<and> off + len = bv_off bv (Suc i) \<and> take len (drop off (bv_text bv)) = bv_value bv i)"

definition caches :: "block_view \<Rightarrow> bytes \<Rightarrow> CachedPrevEntry \<Rightarrow> nat \<Rightarrow> bool" where
  "caches bv buff e i \<longleftrightarrow>
     i < bv_len bv \<and> cp_offset e = of_nat (bv_off bv i) \<and> value_at bv i (cp_value e) \<and>
     take (cp_key_size e) (case cp_key_ptr e of Some m \<Rightarrow> m | None \<Rightarrow> drop (cp_key_offset e) buff) = bv_key bv i \<and>
     (cp_key_ptr e = None \<longrightarrow> cp_key_offset e + cp_key_size e \<le> length buff)"

text \<open>The cache holds consecutive entries, from the one with the number \<open>j\<close> on.\<close>

definition cache_from :: "block_view \<Rightarrow> nat \<Rightarrow> DataBlockIter \<Rightarrow> bool" where
  "cache_from bv j it \<longleftrightarrow>
     (\<forall>m < length (di_prev_entries it). caches bv (di_prev_keys_buff it) (di_prev_entries it ! m) (j + m)) \<and>
     di_prev_entries_idx it < int (length (di_prev_entries it))"

definition reads :: "block_view \<Rightarrow> DataBlockIter \<Rightarrow> bool" where
  "reads bv it \<longleftrightarrow>
     block_ok (bv_entries bv) (bv_restarts bv) (bv_tail bv) \<and> di_data it = Some (bv_text bv) \<and>
     di_restarts it = of_nat (bv_off bv (bv_len bv)) \<and> di_num_restarts it = of_nat (length (bv_restarts bv)) \<and>
     di_comparator it = bv_cmp bv \<and> di_user_comparator it = bv_ucmp bv \<and> di_hash_buckets it = bv_hash bv \<and>
     di_global_seqno it = kDisableGlobalSequenceNumber \<and> ok (di_status it) \<and> ik_wf (di_key it) \<and>
     \<not> ik_is_user_key (di_key it) \<and> (\<exists>j. cache_from bv j it)"

definition at_entry :: "block_view \<Rightarrow> nat \<Rightarrow> DataBlockIter \<Rightarrow> bool" where
  "at_entry bv i it \<longleftrightarrow>
     i < bv_len bv \<and> di_current it = of_nat (bv_off bv i) \<and> di_key_bytes it = bv_key bv i \<and>
     value_at bv i (di_value it) \<and> unat (di_restart_index it) < length (bv_restarts bv)"

definition at_end :: "DataBlockIter \<Rightarrow> bool" where
  "at_end it \<longleftrightarrow> di_current it = di_restarts it"

text \<open>The next entry to decode is the one with the number \<open>i\<close>, and its prefix is there.\<close>

definition next_entry :: "block_view \<Rightarrow> nat \<Rightarrow> DataBlockIter \<Rightarrow> bool" where
  "next_entry bv i it \<longleftrightarrow>
     i \<le> bv_len bv \<and> (\<exists>off len. di_value it = Some (off, len) \<and> off + len = bv_off bv i) \<and>
     (i < bv_len bv \<longrightarrow> e_shared (bv_entries bv ! i) \<le> ik_key_size (di_key it) \<and>
        take (e_shared (bv_entries bv ! i)) (di_key_bytes it) = take (e_shared (bv_entries bv ! i)) (bv_key bv i)) \<and>
     unat (di_restart_index it) < length (bv_restarts bv)"

definition same_cache :: "DataBlockIter \<Rightarrow> DataBlockIter \<Rightarrow> bool" where
  "same_cache it it' \<longleftrightarrow>
     di_prev_entries it' = di_prev_entries it \<and> di_prev_keys_buff it' = di_prev_keys_buff it \<and>
     di_prev_entries_idx it' = di_prev_entries_idx it"

lemma block_ok_small:
  assumes "block_ok es rs tail"
  shows "entry_offset es i < 2 ^ 32" "length rs < 2 ^ 30" "entry_offset es i \<le> length (block_text es rs tail)"
proof -
  have r: "length (restart_bytes es rs) = 4 * length rs" by (induction rs) (simp_all add: restart_bytes_def)
  have o: "entry_offset es i \<le> length (entries_bytes es)"
    using entry_offset_le [of i "length es" es] entry_offset_all [of es i] by (cases "i \<le> length es") (simp_all add: entry_offset_all)
  have t: "length (block_text es rs tail) = length (entries_bytes es) + 4 * length rs + length tail"
    by (simp add: block_text_def r)
  show "entry_offset es i < 2 ^ 32" "length rs < 2 ^ 30" "entry_offset es i \<le> length (block_text es rs tail)"
    using o t assms by (simp_all add: block_ok_def)
qed

lemma unat_offset: "block_ok es rs tail \<Longrightarrow> unat (of_nat (entry_offset es i) :: u32) = entry_offset es i"
  using block_ok_small(1) by (simp add: unat_of_nat_32)

lemma offset_word_less:
  assumes "block_ok es rs tail" "i \<le> length es" "j \<le> length es"
  shows "(of_nat (entry_offset es i) :: u32) < of_nat (entry_offset es j) \<longleftrightarrow> i < j"
    "(of_nat (entry_offset es i) :: u32) = of_nat (entry_offset es j) \<longleftrightarrow> i = j"
  using unat_offset [OF assms(1)] assms(2,3)
  by (simp_all add: word_less_nat_alt word_unat_eq_iff entry_offset_less_iff entry_offset_eq)

text \<open>The restart points in the text.\<close>

lemma restart_bytes_nth:
  assumes "j < length rs"
  shows "\<exists>pre post. restart_bytes es rs = pre @ EncodeFixed32 (of_nat (entry_offset es (rs ! j))) @ post \<and>
    length pre = 4 * j"
  using assms
proof (induction rs arbitrary: j)
  case (Cons r rs)
  show ?case
  proof (cases j)
    case 0
    then show ?thesis
      by (intro exI [of _ "[]"] exI [of _ "restart_bytes es rs"]) (simp add: restart_bytes_def)
  next
    case (Suc k)
    then obtain pre post where "restart_bytes es rs = pre @ EncodeFixed32 (of_nat (entry_offset es (rs ! k))) @ post"
        "length pre = 4 * k"
      using Cons.IH [of k] Cons.prems by auto
    with Suc show ?thesis
      by (intro exI [of _ "EncodeFixed32 (of_nat (entry_offset es r)) @ pre"] exI [of _ post])
        (simp add: restart_bytes_def)
  qed
qed simp

lemma GetRestartPoint_reads:
  assumes "reads bv it" "unat j < length (bv_restarts bv)"
  shows "GetRestartPoint j it = of_nat (bv_off bv (bv_restarts bv ! unat j))"
proof -
  have ok: "block_ok (bv_entries bv) (bv_restarts bv) (bv_tail bv)" using assms(1) by (simp add: reads_def)
  obtain pre post where "restart_bytes (bv_entries bv) (bv_restarts bv) =
      pre @ EncodeFixed32 (of_nat (bv_off bv (bv_restarts bv ! unat j))) @ post" "length pre = 4 * unat j"
    using restart_bytes_nth [OF assms(2)] by blast
  then have "drop (bv_off bv (bv_len bv) + unat j * 4) (bv_text bv) =
      EncodeFixed32 (of_nat (bv_off bv (bv_restarts bv ! unat j))) @ post @ bv_tail bv"
    by (simp add: block_text_def entry_offset_all)
  then show ?thesis
    using assms(1) unat_offset [OF ok] by (simp add: GetRestartPoint_def reads_def)
qed

lemma restart_nth_le:
  assumes "block_ok es rs tail" "j < length rs"
  shows "rs ! j \<le> length es" "rs ! j < length es \<Longrightarrow> e_shared (es ! (rs ! j)) = 0"
proof -
  have "\<forall>r\<in>set rs. (r < length es \<or> r = 0) \<and> (r < length es \<longrightarrow> e_shared (es ! r) = 0)"
    using assms(1) unfolding block_ok_def by (elim conjE)
  from bspec [OF this nth_mem [OF assms(2)]]
  have "(rs ! j < length es \<or> rs ! j = 0) \<and> (rs ! j < length es \<longrightarrow> e_shared (es ! (rs ! j)) = 0)" .
  note r = this
  from r [THEN conjunct1] show "rs ! j \<le> length es" by linarith
  from r [THEN conjunct2] show "rs ! j < length es \<Longrightarrow> e_shared (es ! (rs ! j)) = 0" by (rule mp)
qed

section \<open>Decoding the next entry\<close>

lemma DecodeEntry_reads:
  assumes ok: "block_ok (bv_entries bv) (bv_restarts bv) (bv_tail bv)" and i: "i < bv_len bv"
    and limit: "bv_off bv (Suc i) \<le> limit" "limit \<le> length (bv_text bv)"
  obtains q where "DecodeEntry (bv_text bv) (bv_off bv i) limit =
      Some (q, of_nat (e_shared (bv_entries bv ! i)), of_nat (length (bv_key bv i) - e_shared (bv_entries bv ! i)),
        of_nat (length (bv_value bv i)))"
    "take (length (bv_key bv i) - e_shared (bv_entries bv ! i)) (drop q (bv_text bv)) =
      drop (e_shared (bv_entries bv ! i)) (bv_key bv i)"
    "value_at bv i (Some (q + (length (bv_key bv i) - e_shared (bv_entries bv ! i)), length (bv_value bv i)))"
proof -
  let ?e = "bv_entries bv ! i"
  define s :: u32 where "s = of_nat (e_shared ?e)"
  define n :: u32 where "n = of_nat (length (e_key ?e) - e_shared ?e)"
  define v :: u32 where "v = of_nat (length (e_value ?e))"
  define pre where "pre = entries_bytes (take i (bv_entries bv))"
  define post where "post = entries_bytes (drop (Suc i) (bv_entries bv)) @ restart_bytes (bv_entries bv) (bv_restarts bv) @ bv_tail bv"
  have whole: "bv_text bv = pre @ EncodeVarint32 s @ EncodeVarint32 n @ EncodeVarint32 v @
      drop (e_shared ?e) (e_key ?e) @ e_value ?e @ post"
    using block_split [OF i, of "bv_restarts bv" "bv_tail bv"]
    by (simp add: enc_entry_def pre_def post_def s_def n_def v_def)
  have sh: "e_shared ?e \<le> length (e_key ?e)" using shares_nth [of "[]" "bv_entries bv" i] ok i by (simp add: block_ok_def)
  define q where "q = length pre + length (EncodeVarint32 s) + length (EncodeVarint32 n) + length (EncodeVarint32 v)"
  have p: "bv_off bv i = length pre" by (simp add: entry_offset_def pre_def)
  have ending: "bv_off bv (Suc i) = q + (length (e_key ?e) - e_shared ?e) + length (e_value ?e)"
    using entry_offset_Suc [OF i] by (simp add: p q_def enc_entry_def s_def n_def v_def)
  have "DecodeEntry (bv_text bv) (bv_off bv i) limit = Some (q, s, n, v)"
    unfolding p by (rule DecodeEntry_enc [OF whole q_def]) (use limit ending in simp_all)
  moreover have dq: "drop q (bv_text bv) = drop (e_shared ?e) (e_key ?e) @ e_value ?e @ post"
    by (simp add: whole q_def)
  moreover have "drop (q + (length (e_key ?e) - e_shared ?e)) (bv_text bv) =
      drop (length (e_key ?e) - e_shared ?e) (drop q (bv_text bv))"
    by (simp only: drop_drop add.commute)
  then have "drop (q + (length (e_key ?e) - e_shared ?e)) (bv_text bv) = e_value ?e @ post"
    unfolding dq using sh by simp
  ultimately show ?thesis
    using that [of q] ending by (simp add: s_def n_def v_def value_at_def)
qed

lemma reads_ok: "reads bv it \<Longrightarrow> block_ok (bv_entries bv) (bv_restarts bv) (bv_tail bv)"
  by (simp add: reads_def)

lemma restart_loop_bound:
  "unat i < n \<Longrightarrow> di_num_restarts it = of_nat n \<Longrightarrow> n < 2 ^ 30 \<Longrightarrow> unat (restart_loop i it) < n"
proof (induction i it rule: restart_loop.induct)
  case (1 i it)
  show ?case
  proof (cases "i + 1 < di_num_restarts it \<and> GetRestartPoint (i + 1) it < di_current it")
    case True
    then have "unat (i + 1) < n" using 1(3,4) by (simp add: word_less_nat_alt unat_of_nat_32)
    with 1 True show ?thesis by (simp add: restart_loop.simps [of i it])
  next
    case False
    then have "restart_loop i it = i" by (auto simp: restart_loop.simps [of i it])
    with 1(2) show ?thesis by simp
  qed
qed

lemma cache_from_frame:
  assumes "cache_from bv j it" "same_cache it it'"
  shows "cache_from bv j it'"
  using assms by (simp add: cache_from_def same_cache_def)

lemma key_user_frame [simp]:
  "ik_is_user_key (ik_SetKeyImpl k d copy) = ik_is_user_key k" "ik_is_user_key (ik_TrimAppend k n d) = ik_is_user_key k"
  by (simp_all add: ik_SetKeyImpl_def ik_TrimAppend_def Let_def)

text \<open>An entry that ends before the limit is decoded.\<close>

lemma Parse_entry:
  assumes rd: "reads bv it" and nx: "next_entry bv i it" and i: "i < bv_len bv"
    and limit: "case limit of None \<Rightarrow> True | Some l \<Rightarrow> bv_off bv (Suc i) \<le> l \<and> l \<le> length (bv_text bv)"
  shows "\<exists>it'. ParseNextDataKey DecodeEntry limit it = (True, it') \<and> reads bv it' \<and> at_entry bv i it' \<and> same_cache it it'"
proof -
  note ok = reads_ok [OF rd]
  let ?e = "bv_entries bv ! i" and ?es = "bv_entries bv"
  define l where "l = (case limit of None \<Rightarrow> unat (di_restarts it) | Some l \<Rightarrow> l)"
  have l: "bv_off bv (Suc i) \<le> l" "l \<le> length (bv_text bv)"
    using limit i rd unat_offset [OF ok] block_ok_small(3) [OF ok] entry_offset_le [of "Suc i" "bv_len bv" ?es]
    by (auto simp: l_def reads_def split: option.splits)
  have sh: "e_shared ?e \<le> length (e_key ?e)" "length (e_key ?e) < 2 ^ 32" "length (e_value ?e) < 2 ^ 32"
    using shares_nth [of "[]" ?es i] ok i by (simp_all add: block_ok_def)
  obtain q sw nw vw where q: "DecodeEntry (bv_text bv) (bv_off bv i) l = Some (q, sw, nw, vw)"
    "take (length (e_key ?e) - e_shared ?e) (drop q (bv_text bv)) = drop (e_shared ?e) (e_key ?e)"
    "value_at bv i (Some (q + (length (e_key ?e) - e_shared ?e), length (e_value ?e)))"
    and words: "unat sw = e_shared ?e" "unat nw = length (e_key ?e) - e_shared ?e" "unat vw = length (e_value ?e)"
  proof (rule DecodeEntry_reads [OF ok i l])
    fix q
    assume "DecodeEntry (bv_text bv) (bv_off bv i) l =
      Some (q, of_nat (e_shared ?e), of_nat (length (e_key ?e) - e_shared ?e), of_nat (length (e_value ?e)))"
      "take (length (e_key ?e) - e_shared ?e) (drop q (bv_text bv)) = drop (e_shared ?e) (e_key ?e)"
      "value_at bv i (Some (q + (length (e_key ?e) - e_shared ?e), length (e_value ?e)))"
    then show thesis by (rule that) ((rule unat_of_nat_32, use sh in linarith)+)
  qed
  have zero: "sw = 0 \<longleftrightarrow> e_shared ?e = 0" using words(1) by (metis unat_eq_zero)
  have off: "NextEntryOffset it = of_nat (bv_off bv i)"
    using nx by (auto simp: next_entry_def NextEntryOffset_def simp flip: of_nat_add)
  obtain cw :: u32 where cw: "of_nat (bv_off bv i) = cw" "unat cw = bv_off bv i" "bv_off bv i < l"
    using unat_offset [OF ok, of i] l(1) entry_offset_less [of i "Suc i" ?es] i by simp
  have dat: "di_data it = Some (bv_text bv)" "di_global_seqno it = kDisableGlobalSequenceNumber"
    using rd by (simp_all add: reads_def)
  have lim: "(case limit of None \<Rightarrow> unat (di_restarts (it\<lparr>di_current := cw\<rparr>)) | Some l \<Rightarrow> l) = l"
    by (simp add: l_def split: option.split)
  have size: "\<not> ik_key_size (di_key it) < e_shared ?e" using nx i by (simp add: next_entry_def)
  define dl where "dl = drop (e_shared ?e) (e_key ?e)"
  define nl where "nl = length (e_key ?e) - e_shared ?e"
  have q2: "take nl (drop q (bv_text bv)) = dl" "unat nw = nl" using q(2) words(2) by (simp_all add: dl_def nl_def)
  define key where "key = (if e_shared ?e = 0 then ik_SetKey (di_key it) dl False
     else ik_TrimAppend (di_key it) (e_shared ?e) dl)"
  define it1 where "it1 = it\<lparr>di_current := cw, di_key := key, di_key_pinned := (e_shared ?e = 0),
     di_value := Some (q + nl, length (e_value ?e))\<rparr>"
  define it' where "it' = (if e_shared ?e = 0 then it1\<lparr>di_restart_index := restart_loop (di_restart_index it1) it1\<rparr> else it1)"
  have "ParseNextDataKey DecodeEntry limit it = (True, it')"
    using dat cw(2,3) q(1) q2 words(1,3) zero size lim
    by (simp add: ParseNextDataKey_def off cw(1) Let_def apply_global_seqno_def it'_def it1_def key_def)
  moreover have key: "ik_wf key" "ik_GetKey key = e_key ?e" "\<not> ik_is_user_key key"
    using rd nx i sh(1) ik_TrimAppend_GetKey [of "di_key it" "e_shared ?e"] ik_TrimAppend_wf [of "di_key it" "e_shared ?e"]
      ik_SetKeyImpl_GetKey [of "di_key it"] ik_SetKeyImpl_wf [of "di_key it"]
    by (auto simp: key_def dl_def reads_def next_entry_def di_key_bytes_def ik_SetKey_def ik_wf_def [of "di_key it"]
        append_take_drop_id simp flip: take_take)
  moreover have "unat (di_restart_index it') < length (bv_restarts bv)"
    using nx rd restart_loop_bound [of "di_restart_index it1" "length (bv_restarts bv)" it1] block_ok_small(2) [OF ok]
    by (auto simp: it'_def it1_def next_entry_def reads_def)
  moreover have same: "same_cache it it'" by (simp add: it'_def it1_def same_cache_def)
  moreover have "\<exists>j. cache_from bv j it'" using rd same cache_from_frame unfolding reads_def by blast
  ultimately show ?thesis
    using rd i q(3) cw(1) by (auto simp: nl_def reads_def at_entry_def it'_def it1_def di_key_bytes_def)
qed

text \<open>At the limit there is nothing more.\<close>

lemma Parse_end:
  assumes rd: "reads bv it" and nx: "next_entry bv i it"
    and limit: "case limit of None \<Rightarrow> i = bv_len bv | Some l \<Rightarrow> l = bv_off bv i"
  shows "\<exists>it'. ParseNextDataKey DecodeEntry limit it = (False, it') \<and> reads bv it' \<and> at_end it' \<and> same_cache it it'"
proof -
  note ok = reads_ok [OF rd]
  have off: "NextEntryOffset it = of_nat (bv_off bv i)"
    using nx by (auto simp: next_entry_def NextEntryOffset_def simp flip: of_nat_add)
  let ?it' = "it\<lparr>di_current := di_restarts it, di_restart_index := di_num_restarts it\<rparr>"
  have "(case limit of None \<Rightarrow> unat (di_restarts it) | Some l \<Rightarrow> l) = bv_off bv i"
    using limit rd unat_offset [OF ok] by (simp add: reads_def split: option.splits)
  then have "ParseNextDataKey DecodeEntry limit it = (False, ?it')"
    using unat_offset [OF ok, of i] by (cases limit) (simp_all add: ParseNextDataKey_def off Let_def)
  moreover have same: "same_cache it ?it'" by (simp add: same_cache_def)
  moreover have "\<exists>j. cache_from bv j ?it'" using rd same cache_from_frame unfolding reads_def by blast
  ultimately show ?thesis using rd by (simp add: reads_def at_end_def)
qed

text \<open>Behind an entry comes the next one; behind a restart point its entry.\<close>

lemma next_of_at:
  assumes rd: "reads bv it" and at: "at_entry bv i it"
  shows "next_entry bv (Suc i) it"
proof -
  have sh: "shares [] (bv_entries bv)" using rd by (simp add: reads_def block_ok_def)
  have "ik_wf (di_key it)" using rd by (simp add: reads_def)
  then have "length (ik_GetKey (di_key it)) = ik_key_size (di_key it)" by (simp add: ik_wf_def ik_GetKey_def)
  then have size: "ik_key_size (di_key it) = length (bv_key bv i)"
    using at by (simp add: at_entry_def di_key_bytes_def)
  show ?thesis
    using at size shares_prefix [OF sh, of "Suc i"] by (auto simp: next_entry_def at_entry_def value_at_def)
qed

lemma reads_SeekToRestartPoint:
  assumes rd: "reads bv it" and j: "unat j < length (bv_restarts bv)"
  shows "reads bv (SeekToRestartPoint j it)" "next_entry bv (bv_restarts bv ! unat j) (SeekToRestartPoint j it)"
    "same_cache it (SeekToRestartPoint j it)"
proof -
  note ok = reads_ok [OF rd]
  have same: "same_cache it (SeekToRestartPoint j it)" by (simp add: SeekToRestartPoint_def same_cache_def)
  then have "\<exists>j'. cache_from bv j' (SeekToRestartPoint j it)" using rd cache_from_frame unfolding reads_def by blast
  moreover have "ik_wf (ik_Clear (di_key it))" using rd by (simp add: reads_def ik_wf_def ik_Clear_def)
  ultimately show "reads bv (SeekToRestartPoint j it)"
    using rd by (simp add: reads_def SeekToRestartPoint_def ik_Clear_def)
  show "next_entry bv (bv_restarts bv ! unat j) (SeekToRestartPoint j it)"
    using GetRestartPoint_reads [OF rd j] restart_nth_le [OF ok j] unat_offset [OF ok] j
    by (auto simp: next_entry_def SeekToRestartPoint_def)
  show "same_cache it (SeekToRestartPoint j it)" by (fact same)
qed

lemma same_cache_trans [trans]: "same_cache a b \<Longrightarrow> same_cache b c \<Longrightarrow> same_cache a c"
  by (simp add: same_cache_def)

section \<open>Scanning\<close>

text \<open>The first of the entries from \<open>i\<close> on, and before \<open>m\<close>, that is not below the target; else \<open>m\<close>.\<close>

definition first_from :: "block_view \<Rightarrow> bytes \<Rightarrow> nat \<Rightarrow> nat \<Rightarrow> nat" where
  "first_from bv target i m = i + length (takeWhile (\<lambda>j. Compare (bv_cmp bv) (bv_key bv j) target < 0) [i..<m])"

lemma first_from_end: "m \<le> i \<Longrightarrow> first_from bv target i m = i"
  by (simp add: first_from_def)

lemma first_from_step:
  "i < m \<Longrightarrow> first_from bv target i m =
     (if Compare (bv_cmp bv) (bv_key bv i) target < 0 then first_from bv target (Suc i) m else i)"
  by (simp add: first_from_def upt_conv_Cons)

lemma first_from_bound: "i \<le> m \<Longrightarrow> i \<le> first_from bv target i m \<and> first_from bv target i m \<le> m"
  using length_takeWhile_le [of "\<lambda>j. Compare (bv_cmp bv) (bv_key bv j) target < 0" "[i..<m]"]
  by (simp add: first_from_def)

lemma first_from_below:
  assumes "i \<le> j" "j < first_from bv target i m"
  shows "Compare (bv_cmp bv) (bv_key bv j) target < 0"
proof -
  let ?P = "\<lambda>j. Compare (bv_cmp bv) (bv_key bv j) target < 0"
  have l: "j - i < length (takeWhile ?P [i..<m])" using assms by (simp add: first_from_def)
  then have "takeWhile ?P [i..<m] ! (j - i) \<in> set (takeWhile ?P [i..<m])" by (rule nth_mem)
  then have "?P (takeWhile ?P [i..<m] ! (j - i))" by (rule set_takeWhileD [THEN conjunct2])
  moreover have "takeWhile ?P [i..<m] ! (j - i) = [i..<m] ! (j - i)" using l by (rule takeWhile_nth)
  moreover have "j - i < length [i..<m]" using l length_takeWhile_le [of ?P "[i..<m]"] by linarith
  ultimately show ?thesis using assms(1) by simp
qed

lemma first_from_reached:
  assumes "first_from bv target i m < m"
  shows "\<not> Compare (bv_cmp bv) (bv_key bv (first_from bv target i m)) target < 0"
proof -
  let ?P = "\<lambda>j. Compare (bv_cmp bv) (bv_key bv j) target < 0"
  have "length (takeWhile ?P [i..<m]) < length [i..<m]" using assms by (simp add: first_from_def)
  from nth_length_takeWhile [OF this] show ?thesis
    using assms by (simp add: first_from_def)
qed

definition found :: "block_view \<Rightarrow> nat \<Rightarrow> nat \<Rightarrow> DataBlockIter \<Rightarrow> bool" where
  "found bv i m it \<longleftrightarrow> reads bv it \<and> (if i < m then at_entry bv i it else at_end it)"

lemma scan_loop_finds:
  assumes "reads bv it" "next_entry bv i it" "i \<le> m" "m \<le> bv_len bv"
    and "case limit of None \<Rightarrow> m = bv_len bv | Some l \<Rightarrow> l = bv_off bv m"
  shows "\<exists>it'. scan_loop limit target it = Some it' \<and> found bv (first_from bv target i m) m it' \<and> same_cache it it'"
  using assms(1-3)
proof (induction "m - i" arbitrary: i it)
  case 0
  then have "i = m" by simp
  then obtain it' where "ParseNextDataKey DecodeEntry limit it = (False, it')" "reads bv it'" "at_end it'" "same_cache it it'"
    using Parse_end [of bv it i limit] 0 assms(5) by (auto split: option.splits)
  with \<open>i = m\<close> show ?case by (simp add: scan_loop.simps [of limit target it] first_from_end found_def)
next
  case (Suc d)
  then have i: "i < m" "i < bv_len bv" using assms(4) by simp_all
  have "bv_off bv (Suc i) \<le> bv_off bv m" "bv_off bv m \<le> length (bv_text bv)"
    using entry_offset_le [of "Suc i" m "bv_entries bv"] i(1) assms(4) block_ok_small(3) [OF reads_ok [OF Suc.prems(1)]]
    by simp_all
  then have "case limit of None \<Rightarrow> True | Some l \<Rightarrow> bv_off bv (Suc i) \<le> l \<and> l \<le> length (bv_text bv)"
    using assms(5) by (simp split: option.splits)
  then obtain it1 where p: "ParseNextDataKey DecodeEntry limit it = (True, it1)" "reads bv it1" "at_entry bv i it1"
      "same_cache it it1"
    using Parse_entry [OF Suc.prems(1,2) i(2)] by blast
  have key: "di_comparator it1 = bv_cmp bv" "di_key_bytes it1 = bv_key bv i"
    using p(2,3) by (simp_all add: reads_def at_entry_def)
  show ?case
  proof (cases "Compare (bv_cmp bv) (bv_key bv i) target < 0")
    case True
    have "d = m - Suc i" "Suc i \<le> m" using Suc.hyps(2) i(1) by simp_all
    from Suc.hyps(1) [OF this(1) p(2) next_of_at [OF p(2,3)] this(2)]
    obtain it' where "scan_loop limit target it1 = Some it'" "found bv (first_from bv target (Suc i) m) m it'"
        "same_cache it1 it'" by blast
    with True p(1) key i(1) same_cache_trans [OF p(4), of it'] show ?thesis
      by (simp add: scan_loop.simps [of limit target it] first_from_step)
  next
    case False
    with p key i(1) show ?thesis
      by (simp add: scan_loop.simps [of limit target it] first_from_step found_def)
  qed
qed

end
