(* ===== verification/BlockCursor.thy ===== *)
theory BlockCursor
  imports BlockSpec
begin

text \<open>
  The movements of an iterator over a block are those of a cursor over the list of its keys and values:
  to the first, the last, the next and the previous entry, and to the first one that is not below, or the
  last one that is not above, a target. The binary search over the restart points, the keys that are put
  together from the ones before them and the cache of \<open>Prev\<close> do not show.
\<close>

section \<open>The cursor\<close>

datatype block_op = ToFirst | ToLast | ToNext | ToPrev | ToKey bytes | ToKeyBack bytes

fun block_step :: "comparator \<Rightarrow> bytes list \<Rightarrow> block_op \<Rightarrow> nat option \<Rightarrow> nat option" where
  "block_step cmp ks ToFirst pos = (if ks = [] then None else Some 0)"
| "block_step cmp ks ToLast pos = (if ks = [] then None else Some (length ks - 1))"
| "block_step cmp ks ToNext None = None"
| "block_step cmp ks ToNext (Some i) = (if Suc i < length ks then Some (Suc i) else None)"
| "block_step cmp ks ToPrev None = None"
| "block_step cmp ks ToPrev (Some i) = (if i = 0 then None else Some (i - 1))"
| "block_step cmp ks (ToKey t) pos =
     (let m = length (takeWhile (\<lambda>k. Compare cmp k t < 0) ks) in if m < length ks then Some m else None)"
| "block_step cmp ks (ToKeyBack t) pos =
     (let m = length (takeWhile (\<lambda>k. Compare cmp k t \<le> 0) ks) in if m = 0 then None else Some (m - 1))"

text \<open>A client moves on or back only from a valid position.\<close>

fun block_do :: "block_op \<Rightarrow> DataBlockIter \<Rightarrow> DataBlockIter option" where
  "block_do ToFirst it = Some (di_SeekToFirst it)"
| "block_do ToLast it = di_SeekToLast it"
| "block_do ToNext it = Some (if di_Valid it then di_Next it else it)"
| "block_do ToPrev it = (if di_Valid it then di_Prev it else Some it)"
| "block_do (ToKey t) it = di_Seek t it"
| "block_do (ToKeyBack t) it = di_SeekForPrev t it"

fun block_run :: "block_op list \<Rightarrow> DataBlockIter \<Rightarrow> DataBlockIter option" where
  "block_run [] it = Some it"
| "block_run (op # ops) it = Option.bind (block_do op it) (block_run ops)"

definition shows_at :: "block_view \<Rightarrow> nat option \<Rightarrow> DataBlockIter \<Rightarrow> bool" where
  "shows_at bv pos it \<longleftrightarrow> reads bv it \<and> (case pos of None \<Rightarrow> at_end it | Some i \<Rightarrow> at_entry bv i it)"

abbreviation bv_keys :: "block_view \<Rightarrow> bytes list" where
  "bv_keys bv \<equiv> map e_key (bv_entries bv)"

lemma at_entry_valid: "reads bv it \<Longrightarrow> at_entry bv i it \<Longrightarrow> di_Valid it"
  using offset_word_less(1) [OF reads_ok, of bv it i "bv_len bv"]
  by (simp add: at_entry_def di_Valid_def reads_def)

lemma shows_at_valid: "shows_at bv pos it \<Longrightarrow> di_Valid it \<longleftrightarrow> pos \<noteq> None"
  using at_entry_valid by (auto simp: shows_at_def at_end_def di_Valid_def split: option.splits)

lemma at_entry_next_offset: "at_entry bv i it \<Longrightarrow> NextEntryOffset it = of_nat (bv_off bv (Suc i))"
  by (auto simp: at_entry_def value_at_def NextEntryOffset_def simp flip: of_nat_add)

lemma restart_less:
  assumes ok: "block_ok es rs tail" and j: "j < length rs" and ne: "es \<noteq> []"
  shows "rs ! j < length es"
proof -
  have "\<forall>r\<in>set rs. (r < length es \<or> r = 0) \<and> (r < length es \<longrightarrow> e_shared (es ! r) = 0)"
    using ok unfolding block_ok_def by (elim conjE)
  from bspec [OF this nth_mem [OF j], THEN conjunct1] show ?thesis using ne by auto
qed

lemma block_ok_rs: "block_ok es rs tail \<Longrightarrow> 0 < length rs" "block_ok es rs tail \<Longrightarrow> rs ! 0 = 0"
  by (simp_all add: block_ok_def)

section \<open>First, next, last\<close>

lemma Parse_next:
  assumes "reads bv it" "next_entry bv i it"
  shows "\<exists>it'. ParseNextDataKey DecodeEntry None it = (i < bv_len bv, it') \<and>
    shows_at bv (if i < bv_len bv then Some i else None) it' \<and> same_cache it it'"
proof (cases "i < bv_len bv")
  case True
  with Parse_entry [OF assms True, of None] show ?thesis by (auto simp: shows_at_def)
next
  case False
  then have "i = bv_len bv" using assms(2) by (simp add: next_entry_def)
  with Parse_end [OF assms, of None] show ?thesis by (auto simp: shows_at_def)
qed

lemma restart_count:
  assumes "reads bv it"
  shows "unat (di_num_restarts it) = length (bv_restarts bv)" "0 < length (bv_restarts bv)"
    "unat (di_num_restarts it - 1) = length (bv_restarts bv) - 1"
proof -
  have n: "0 < length (bv_restarts bv)" "length (bv_restarts bv) < 2 ^ 30"
    using block_ok_rs(1) [OF reads_ok [OF assms]] block_ok_small(2) [OF reads_ok [OF assms]] .
  then show u: "unat (di_num_restarts it) = length (bv_restarts bv)" "0 < length (bv_restarts bv)"
    using assms by (simp_all add: reads_def unat_of_nat_32)
  then have "di_num_restarts it \<noteq> 0" by auto
  from unat_minus_one [OF this] u(1) show "unat (di_num_restarts it - 1) = length (bv_restarts bv) - 1" by simp
qed

lemma SeekToFirst_moves:
  assumes "reads bv it"
  shows "shows_at bv (block_step cmp (bv_keys bv) ToFirst pos) (di_SeekToFirst it)"
proof -
  have "unat (0 :: u32) < length (bv_restarts bv)" using restart_count(2) [OF assms] by simp
  note s = reads_SeekToRestartPoint [OF assms this]
  have "di_data it \<noteq> None" using assms by (simp add: reads_def)
  with Parse_next [OF s(1,2)] block_ok_rs(2) [OF reads_ok [OF assms]] show ?thesis
    by (auto simp: di_SeekToFirst_def split: if_splits)
qed

lemma Next_moves:
  assumes "shows_at bv (Some i) it"
  shows "shows_at bv (block_step cmp (bv_keys bv) ToNext (Some i)) (di_Next it)"
proof -
  have "reads bv it" "next_entry bv (Suc i) it" using assms next_of_at by (auto simp: shows_at_def)
  from Parse_next [OF this] show ?thesis by (auto simp: di_Next_def)
qed

lemma last_loop_finds:
  assumes "reads bv it" "next_entry bv i it" "i < bv_len bv"
  shows "\<exists>it'. last_loop it = Some it' \<and> shows_at bv (Some (bv_len bv - 1)) it'"
  using assms
proof (induction "bv_len bv - i" arbitrary: i it)
  case (Suc d)
  then obtain it1 where p: "ParseNextDataKey DecodeEntry None it = (True, it1)" "shows_at bv (Some i) it1"
    using Parse_next [OF Suc.prems(1,2)] by auto
  then have rd: "reads bv it1" "at_entry bv i it1" by (simp_all add: shows_at_def)
  have more: "NextEntryOffset it1 < di_restarts it1 \<longleftrightarrow> Suc i < bv_len bv"
    using offset_word_less(1) [OF reads_ok [OF rd(1)], of "Suc i" "bv_len bv"] Suc.prems(3) rd
    by (simp add: at_entry_next_offset reads_def)
  show ?case
  proof (cases "Suc i < bv_len bv")
    case True
    have "d = bv_len bv - Suc i" using Suc.hyps(2) by simp
    from Suc.hyps(1) [OF this rd(1) next_of_at [OF rd] True] show ?thesis
      using p(1) more True by (simp add: last_loop.simps [of it])
  next
    case False
    then have "i = bv_len bv - 1" using Suc.prems(3) by simp
    with False p more show ?thesis by (simp add: last_loop.simps [of it])
  qed
qed simp

lemma SeekToLast_moves:
  assumes "reads bv it"
  shows "\<exists>it'. di_SeekToLast it = Some it' \<and> shows_at bv (block_step cmp (bv_keys bv) ToLast pos) it'"
proof -
  let ?r = "di_num_restarts it - 1"
  have r: "unat ?r < length (bv_restarts bv)" using restart_count [OF assms] by simp
  note s = reads_SeekToRestartPoint [OF assms r]
  have d: "di_data it \<noteq> None" using assms by (simp add: reads_def)
  show ?thesis
  proof (cases "bv_entries bv = []")
    case True
    then have "\<not> bv_restarts bv ! unat ?r < bv_len bv" by simp
    with Parse_next [OF s(1,2)] d True show ?thesis
      by (auto simp: di_SeekToLast_def last_loop.simps [of "SeekToRestartPoint ?r it"])
  next
    case False
    from last_loop_finds [OF s(1,2) restart_less [OF reads_ok [OF assms] r False]] d False show ?thesis
      by (auto simp: di_SeekToLast_def)
  qed
qed

section \<open>Back\<close>

lemma caches_append: "caches bv buff e i \<Longrightarrow> caches bv (buff @ rest) e i"
  by (auto simp: caches_def split: option.splits)

lemma cache_entry_frame:
  assumes rd: "reads bv it" and at: "at_entry bv i it"
    and cache: "cache_from bv j it" "j + length (di_prev_entries it) = i"
  shows "reads bv (cache_entry it)" "at_entry bv i (cache_entry it)" "cache_from bv j (cache_entry it)"
    "length (di_prev_entries (cache_entry it)) = Suc (length (di_prev_entries it))"
    "di_prev_entries_idx (cache_entry it) = di_prev_entries_idx it"
proof -
  show at': "at_entry bv i (cache_entry it)"
    using at by (simp add: cache_entry_def at_entry_def di_key_bytes_def)
  show len: "length (di_prev_entries (cache_entry it)) = Suc (length (di_prev_entries it))"
    and idx: "di_prev_entries_idx (cache_entry it) = di_prev_entries_idx it"
    by (simp_all add: cache_entry_def)
  have new: "caches bv (di_prev_keys_buff (cache_entry it)) (di_prev_entries (cache_entry it) ! length (di_prev_entries it)) i"
    using at by (simp add: cache_entry_def caches_def at_entry_def)
  have old: "caches bv (di_prev_keys_buff (cache_entry it)) (di_prev_entries (cache_entry it) ! m) (j + m)"
    if "m < length (di_prev_entries it)" for m
    using cache(1) that caches_append by (simp add: cache_from_def cache_entry_def nth_append)
  show c: "cache_from bv j (cache_entry it)"
    using new old cache len idx by (auto simp: cache_from_def less_Suc_eq)
  have "di_data (cache_entry it) = di_data it" "di_restarts (cache_entry it) = di_restarts it"
    "di_num_restarts (cache_entry it) = di_num_restarts it" "di_comparator (cache_entry it) = di_comparator it"
    "di_user_comparator (cache_entry it) = di_user_comparator it" "di_hash_buckets (cache_entry it) = di_hash_buckets it"
    "di_global_seqno (cache_entry it) = di_global_seqno it" "di_status (cache_entry it) = di_status it"
    "di_key (cache_entry it) = di_key it"
    by (simp_all add: cache_entry_def)
  with rd c show "reads bv (cache_entry it)" unfolding reads_def by auto
qed

lemma cache_loop_finds:
  assumes "reads bv it" "next_entry bv k it" "k < i" "i < bv_len bv"
    and "cache_from bv j it" "j + length (di_prev_entries it) = k" "di_prev_entries_idx it = - 1"
  shows "\<exists>it'. cache_loop (of_nat (bv_off bv i)) it = Some it' \<and> reads bv it' \<and> at_entry bv (i - 1) it' \<and>
    (\<exists>j. cache_from bv j it') \<and> di_prev_entries_idx it' = - 1"
  using assms
proof (induction "i - k" arbitrary: k it)
  case (Suc d)
  let ?o = "of_nat (bv_off bv i)"
  obtain it1 where p: "ParseNextDataKey DecodeEntry None it = (True, it1)" "reads bv it1" "at_entry bv k it1" "same_cache it it1"
    using Parse_next [OF Suc.prems(1,2)] Suc.prems(3,4) by (auto simp: shows_at_def)
  have c: "cache_from bv j it1" "j + length (di_prev_entries it1) = k" "di_prev_entries_idx it1 = - 1"
    using cache_from_frame [OF Suc.prems(5) p(4)] p(4) Suc.prems(6,7) by (simp_all add: same_cache_def)
  note f = cache_entry_frame [OF p(2,3) c(1,2)]
  have more: "NextEntryOffset (cache_entry it1) < ?o \<longleftrightarrow> Suc k < i"
    using offset_word_less(1) [OF reads_ok [OF p(2)], of "Suc k" i] Suc.prems(3,4) f(2)
    by (simp add: at_entry_next_offset)
  show ?case
  proof (cases "Suc k < i")
    case True
    have "d = i - Suc k" "j + length (di_prev_entries (cache_entry it1)) = Suc k"
      using Suc.hyps(2) f(4) c(2) by simp_all
    from Suc.hyps(1) [OF this(1) f(1) next_of_at [OF f(1,2)] True Suc.prems(4) f(3) this(2)]
    show ?thesis using p(1) more True f(5) c(3) by (simp add: cache_loop.simps [of _ it] Let_def)
  next
    case False
    then have "k = i - 1" using Suc.prems(3) by simp
    with False p(1) more f c(3) show ?thesis by (auto simp: cache_loop.simps [of _ it] Let_def)
  qed
qed simp

lemma back_to_restart_finds:
  assumes "reads bv it" "unat k < length (bv_restarts bv)" "i < bv_len bv"
  shows "case back_to_restart k (of_nat (bv_off bv i)) it of None \<Rightarrow> i = 0
    | Some r \<Rightarrow> unat r < length (bv_restarts bv) \<and> bv_restarts bv ! unat r < i"
  using assms(2)
proof (induction "unat k" arbitrary: k)
  case 0
  then have k: "k = 0" using unat_eq_zero [of k] by simp
  have "bv_restarts bv ! 0 = 0" using block_ok_rs(2) [OF reads_ok [OF assms(1)]] .
  then have "GetRestartPoint 0 it < of_nat (bv_off bv i) \<longleftrightarrow> 0 < i"
    using GetRestartPoint_reads [OF assms(1), of 0] 0(2) k offset_word_less(1) [OF reads_ok [OF assms(1)], of 0 i] assms(3)
    by simp
  then show ?case
    using 0(2) k \<open>bv_restarts bv ! 0 = 0\<close> by (simp add: back_to_restart.simps [of 0] flip: not_less)
next
  case (Suc d)
  have r: "bv_restarts bv ! unat k < bv_len bv"
    using restart_less [OF reads_ok [OF assms(1)] Suc.prems] assms(3) by (cases "bv_entries bv = []") simp_all
  have less: "GetRestartPoint k it < of_nat (bv_off bv i) \<longleftrightarrow> bv_restarts bv ! unat k < i"
    using GetRestartPoint_reads [OF assms(1) Suc.prems] offset_word_less(1) [OF reads_ok [OF assms(1)]] r assms(3)
    by simp
  have k: "k \<noteq> 0" using Suc.hyps(2) by auto
  then have pred: "d = unat (k - 1)" "unat (k - 1) < length (bv_restarts bv)"
    using unat_minus_one [OF k] Suc.hyps(2) Suc.prems by simp_all
  show ?case
    using Suc.hyps(1) [OF pred] less k Suc.prems by (simp add: back_to_restart.simps [of k] flip: not_less)
qed

lemma cached_prev_moves:
  assumes rd: "reads bv it" and at: "at_entry bv i it" and idx: "di_prev_entries_idx it > 0"
    and hit: "cp_offset (di_prev_entries it ! nat (di_prev_entries_idx it)) = di_current it"
  shows "0 < i \<and> reads bv (cached_prev it) \<and> at_entry bv (i - 1) (cached_prev it)"
proof -
  obtain j where j: "cache_from bv j it" using rd by (auto simp: reads_def)
  let ?m = "nat (di_prev_entries_idx it)"
  have m: "?m < length (di_prev_entries it)" "?m - 1 < length (di_prev_entries it)" "0 < ?m"
    using j idx by (auto simp: cache_from_def)
  have c: "caches bv (di_prev_keys_buff it) (di_prev_entries it ! ?m) (j + ?m)"
    "caches bv (di_prev_keys_buff it) (di_prev_entries it ! (?m - 1)) (j + (?m - 1))"
    using j m unfolding cache_from_def by blast+
  have "j + ?m = i"
    using c(1) hit at offset_word_less(2) [OF reads_ok [OF rd], of "j + ?m" i] by (simp add: caches_def at_entry_def)
  with m(3) have i: "0 < i" "j + (?m - 1) = i - 1" by linarith+
  define e where "e = di_prev_entries it ! (?m - 1)"
  have e: "caches bv (di_prev_keys_buff it) e (i - 1)" using c(2) i(2) by (simp add: e_def)
  define mem where "mem = (case cp_key_ptr e of Some m \<Rightarrow> m | None \<Rightarrow> drop (cp_key_offset e) (di_prev_keys_buff it))"
  have nat: "nat (di_prev_entries_idx it - 1) = ?m - 1" by simp
  have prev: "cached_prev it = it\<lparr>di_prev_entries_idx := di_prev_entries_idx it - 1,
      di_key_pinned := (cp_key_ptr e \<noteq> None), di_current := cp_offset e,
      di_key := ik_SetKey (di_key it) (take (cp_key_size e) mem) False, di_value := cp_value e\<rparr>"
    unfolding cached_prev_def Let_def nat e_def [symmetric] by (simp add: mem_def split: option.split)
  have key: "take (cp_key_size e) mem = bv_key bv (i - 1)" using e by (simp add: caches_def mem_def)
  have sizes: "ik_sizes (di_key it)" "\<not> ik_is_user_key (di_key it)" using rd by (simp_all add: reads_def ik_wf_def)
  have same: "cache_from bv j (cached_prev it)" using j idx by (simp add: prev cache_from_def)
  then have "\<exists>j. cache_from bv j (cached_prev it)" ..
  then have "reads bv (cached_prev it)"
    using rd sizes ik_SetKeyImpl_wf [OF sizes(1)] unfolding prev reads_def by (simp add: ik_SetKey_def)
  moreover have "at_entry bv (i - 1) (cached_prev it)"
    using e at sizes i key ik_SetKeyImpl_GetKey [OF sizes(1)]
    by (simp add: prev at_entry_def caches_def di_key_bytes_def ik_SetKey_def)
  ultimately show ?thesis using i by simp
qed

lemma Prev_moves:
  assumes "shows_at bv (Some i) it"
  shows "\<exists>it'. di_Prev it = Some it' \<and> shows_at bv (block_step cmp (bv_keys bv) ToPrev (Some i)) it'"
proof (cases "di_prev_entries_idx it > 0 \<and>
    cp_offset (di_prev_entries it ! nat (di_prev_entries_idx it)) = di_current it")
  case True
  with cached_prev_moves [of bv it i] assms show ?thesis by (simp add: di_Prev_def shows_at_def)
next
  case False
  define it0 where "it0 = it\<lparr>di_prev_entries_idx := - 1, di_prev_entries := [], di_prev_keys_buff := []\<rparr>"
  have rd: "reads bv it" and at: "at_entry bv i it" using assms by (simp_all add: shows_at_def)
  have clear: "cache_from bv j it0" "di_prev_entries it0 = []" "di_prev_entries_idx it0 = - 1" for j
    by (simp_all add: it0_def cache_from_def)
  then have "\<exists>j. cache_from bv j it0" by blast
  with rd have rd0: "reads bv it0" unfolding reads_def it0_def by simp
  have cur: "di_current it0 = of_nat (bv_off bv i)" "unat (di_restart_index it0) < length (bv_restarts bv)" "i < bv_len bv"
    using at by (simp_all add: it0_def at_entry_def)
  have prev: "di_Prev it = (case back_to_restart (di_restart_index it0) (di_current it0) it0 of
      None \<Rightarrow> Some (it0\<lparr>di_current := di_restarts it0, di_restart_index := di_num_restarts it0\<rparr>)
    | Some r \<Rightarrow> map_option (\<lambda>it1. it1\<lparr>di_prev_entries_idx := int (length (di_prev_entries it1)) - 1\<rparr>)
        (cache_loop (di_current it0) (SeekToRestartPoint r it0)))"
    unfolding di_Prev_def Let_def it0_def [symmetric] if_not_P [OF False] by (rule refl)
  note restart_before = back_to_restart_finds [OF rd0 cur(2,3)]
  show ?thesis
  proof (cases "back_to_restart (di_restart_index it0) (di_current it0) it0")
    case None
    let ?it = "it0\<lparr>di_current := di_restarts it0, di_restart_index := di_num_restarts it0\<rparr>"
    have "same_cache it0 ?it" by (simp add: same_cache_def)
    then have "\<exists>j. cache_from bv j ?it" using cache_from_frame [OF clear(1)] by blast
    then have "reads bv ?it" using rd0 unfolding reads_def by simp
    with None restart_before cur(1) show ?thesis by (simp add: prev shows_at_def at_end_def)
  next
    case (Some r)
    then have r: "unat r < length (bv_restarts bv)" "bv_restarts bv ! unat r < i" using restart_before cur(1) by simp_all
    note s = reads_SeekToRestartPoint [OF rd0 r(1)]
    have c: "cache_from bv (bv_restarts bv ! unat r) (SeekToRestartPoint r it0)"
      "bv_restarts bv ! unat r + length (di_prev_entries (SeekToRestartPoint r it0)) = bv_restarts bv ! unat r"
      "di_prev_entries_idx (SeekToRestartPoint r it0) = - 1"
      using cache_from_frame [OF clear(1) s(3)] clear(2,3) s(3) by (simp_all add: same_cache_def)
    from cache_loop_finds [OF s(1,2) r(2) cur(3) c]
    obtain it1 j where l: "cache_loop (di_current it0) (SeekToRestartPoint r it0) = Some it1" "reads bv it1"
        "at_entry bv (i - 1) it1" "cache_from bv j it1"
      using cur(1) by auto
    let ?it = "it1\<lparr>di_prev_entries_idx := int (length (di_prev_entries it1)) - 1\<rparr>"
    have "cache_from bv j ?it" using l(4) by (simp add: cache_from_def)
    then have "\<exists>j. cache_from bv j ?it" ..
    then have "reads bv ?it" using l(2) unfolding reads_def by simp
    moreover have "at_entry bv (i - 1) ?it" using l(3) by (simp add: at_entry_def di_key_bytes_def)
    ultimately show ?thesis using l(1) r(2) Some by (simp add: prev shows_at_def)
  qed
qed

section \<open>Seeking\<close>

lemma mid_word:
  assumes "(l :: u32) < r" "unat r < 2 ^ 30"
  shows "unat ((l + r + 1) div 2) = (unat l + unat r + 1) div 2" "l < (l + r + 1) div 2" "(l + r + 1) div 2 \<le> r"
proof -
  have lr: "unat l < unat r" using assms(1) by (simp add: word_less_nat_alt)
  have "unat (l + r) = unat l + unat r" using assms(2) lr by (intro unat_plus_if' [THEN trans]) simp
  then have "unat (l + r + 1) = unat l + unat r + 1" using assms(2) lr by (simp add: unat_plus_if')
  then show m: "unat ((l + r + 1) div 2) = (unat l + unat r + 1) div 2" by (simp add: unat_div)
  show "l < (l + r + 1) div 2" "(l + r + 1) div 2 \<le> r"
    using lr by (simp_all add: word_less_nat_alt word_le_nat_alt m)
qed

definition restart_le :: "block_view \<Rightarrow> bytes \<Rightarrow> nat \<Rightarrow> bool" where
  "restart_le bv target j \<longleftrightarrow>
     j < length (bv_restarts bv) \<and> (0 < j \<longrightarrow> Compare (bv_cmp bv) (bv_key bv (bv_restarts bv ! j)) target \<le> 0)"

lemma restart_key:
  assumes rd: "reads bv it" and j: "0 < unat j" "unat j < length (bv_restarts bv)"
  obtains q n where "DecodeKey (di_bytes it) (unat (GetRestartPoint j it)) (unat (di_restarts it)) = Some (q, 0, n)"
    "take (unat n) (drop q (di_bytes it)) = bv_key bv (bv_restarts bv ! unat j)"
proof -
  note ok = reads_ok [OF rd]
  let ?r = "bv_restarts bv ! unat j"
  have "sorted_wrt (<) (bv_restarts bv)" using ok unfolding block_ok_def by (elim conjE)
  then have "bv_restarts bv ! 0 < ?r" using j by (simp add: sorted_wrt_nth_less)
  then have "?r \<noteq> 0" by simp
  then have r: "?r < bv_len bv" using restart_nth_le(1) [OF ok j(2)] restart_less [OF ok j(2)] by (cases "bv_entries bv = []") auto
  have sh: "e_shared (bv_entries bv ! ?r) = 0" using restart_nth_le(2) [OF ok j(2) r] .
  have len: "length (bv_key bv ?r) < 2 ^ 32" using shares_nth [of "[]" "bv_entries bv" ?r] ok r by (simp add: block_ok_def)
  have dat: "di_data it = Some (bv_text bv)" "unat (di_restarts it) = bv_off bv (bv_len bv)"
    "unat (GetRestartPoint j it) = bv_off bv ?r"
    using rd GetRestartPoint_reads [OF rd j(2)] unat_offset [OF ok] by (simp_all add: reads_def)
  show thesis
  proof (rule DecodeEntry_reads [OF ok r])
    show "bv_off bv (Suc ?r) \<le> bv_off bv (bv_len bv)" using r by (simp add: entry_offset_le)
    show "bv_off bv (bv_len bv) \<le> length (bv_text bv)" using block_ok_small(3) [OF ok] .
  next
    fix q
    assume q: "DecodeEntry (bv_text bv) (bv_off bv ?r) (bv_off bv (bv_len bv)) =
        Some (q, of_nat (e_shared (bv_entries bv ! ?r)), of_nat (length (bv_key bv ?r) - e_shared (bv_entries bv ! ?r)),
          of_nat (length (bv_value bv ?r)))"
      "take (length (bv_key bv ?r) - e_shared (bv_entries bv ! ?r)) (drop q (bv_text bv)) =
        drop (e_shared (bv_entries bv ! ?r)) (bv_key bv ?r)"
    show thesis
      using that [of q "of_nat (length (bv_key bv ?r))"] q sh dat len by (simp add: DecodeKey_def unat_of_nat_32)
  qed
qed

lemma binary_seek_finds:
  assumes rd: "reads bv it" and "l \<le> r" "unat r < length (bv_restarts bv)" "restart_le bv target (unat l)"
  shows "\<exists>i. binary_seek_loop DecodeKey (bv_cmp bv) target it l r = Some (Inr i) \<and> restart_le bv target (unat i)"
  using assms(2-4)
proof (induction "unat r - unat l" arbitrary: l r rule: less_induct)
  case less
  show ?case
  proof (cases "l < r")
    case False
    then have "binary_seek_loop DecodeKey (bv_cmp bv) target it l r = Some (Inr l)"
      by (simp add: binary_seek_loop.simps [of _ _ _ _ l r])
    with less.prems(3) show ?thesis by simp
  next
    case True
    define m where "m = (l + r + 1) div 2"
    have m: "l < m" "m \<le> r" using mid_word [OF True] less.prems(2) block_ok_small(2) [OF reads_ok [OF rd]] by (simp_all add: m_def)
    then have mn: "0 < unat m" "unat m < length (bv_restarts bv)" "unat l < unat m" "unat m \<le> unat r"
      using less.prems(2) by (simp_all add: word_less_nat_alt word_le_nat_alt)
    obtain q n where key: "DecodeKey (di_bytes it) (unat (GetRestartPoint m it)) (unat (di_restarts it)) = Some (q, 0, n)"
      "take (unat n) (drop q (di_bytes it)) = bv_key bv (bv_restarts bv ! unat m)"
      using restart_key [OF rd mn(1,2)] .
    let ?c = "Compare (bv_cmp bv) (bv_key bv (bv_restarts bv ! unat m)) target"
    have step: "binary_seek_loop DecodeKey (bv_cmp bv) target it l r =
        (if ?c < 0 then binary_seek_loop DecodeKey (bv_cmp bv) target it m r
         else if ?c > 0 then binary_seek_loop DecodeKey (bv_cmp bv) target it l (m - 1)
         else binary_seek_loop DecodeKey (bv_cmp bv) target it m m)"
      using True key by (simp add: binary_seek_loop.simps [of _ _ _ _ l r] Let_def flip: m_def)
    have pred: "unat (m - 1) = unat m - 1" using mn(1) unat_minus_one [of m] unat_gt_0 [of m] by simp
    then have lm: "l \<le> m - 1" using mn(3) by (simp add: word_le_nat_alt)
    have mle: "restart_le bv target (unat m)" if "?c \<le> 0" using that mn(2) by (simp add: restart_le_def)
    consider "?c < 0" | "?c > 0" | "?c = 0" by linarith
    then show ?thesis
    proof cases
      case 1
      with less.hyps [of r m] mn m(2) less.prems(2) mle step show ?thesis by simp
    next
      case 2
      with less.hyps [of "m - 1" l] mn lm pred less.prems step show ?thesis by simp
    next
      case 3
      with mle show ?thesis by (simp add: step binary_seek_loop.simps [of _ _ _ _ m m])
    qed
  qed
qed

text \<open>In a sorted block the entries before the restart point are below the target.\<close>

definition sorted_keys :: "(bytes \<Rightarrow> bool) \<Rightarrow> block_view \<Rightarrow> bool" where
  "sorted_keys D bv \<longleftrightarrow>
     key_order (bv_cmp bv) D \<and> (\<forall>k\<in>set (bv_keys bv). D k) \<and>
     sorted_wrt (\<lambda>a b. Compare (bv_cmp bv) a b < 0) (bv_keys bv)"

lemma keys_less:
  assumes "sorted_keys D bv" "i < j" "j < bv_len bv"
  shows "Compare (bv_cmp bv) (bv_key bv i) (bv_key bv j) < 0" "D (bv_key bv i)" "D (bv_key bv j)"
proof -
  have "Compare (bv_cmp bv) (bv_keys bv ! i) (bv_keys bv ! j) < 0"
    using assms sorted_wrt_nth_less [of "\<lambda>a b. Compare (bv_cmp bv) a b < 0" "bv_keys bv" i j] by (simp add: sorted_keys_def)
  then show "Compare (bv_cmp bv) (bv_key bv i) (bv_key bv j) < 0" using assms by simp
  show "D (bv_key bv i)" "D (bv_key bv j)" using assms by (simp_all add: sorted_keys_def)
qed

lemma below_upto:
  assumes s: "sorted_keys D bv" and t: "D target" and j: "j < bv_len bv"
    and le: "Compare (bv_cmp bv) (bv_key bv j) target \<le> 0" and i: "i < j"
  shows "Compare (bv_cmp bv) (bv_key bv i) target < 0"
  using key_order.Compare_less_le_trans [of "bv_cmp bv" D "bv_key bv i" "bv_key bv j" target]
    keys_less [OF s i j] s t le by (simp add: sorted_keys_def)

lemma first_from_skip:
  assumes "\<And>i. i < k \<Longrightarrow> Compare (bv_cmp bv) (bv_key bv i) target < 0" "k \<le> m"
  shows "first_from bv target 0 m = first_from bv target k m"
  using assms
proof (induction k)
  case (Suc k)
  then have "first_from bv target 0 m = first_from bv target k m" by simp
  with Suc.prems first_from_step [of k m bv target] show ?case by simp
qed simp

lemma first_from_0: "first_from bv target 0 (bv_len bv) = length (takeWhile (\<lambda>k. Compare (bv_cmp bv) k target < 0) (bv_keys bv))"
proof -
  have "map e_key (map ((!) (bv_entries bv)) [0..<bv_len bv]) = bv_keys bv" by (simp only: map_nth)
  then have keys: "bv_keys bv = map (bv_key bv) [0..<bv_len bv]" by (simp only: map_map o_def)
  show ?thesis unfolding keys by (simp add: first_from_def takeWhile_map o_def)
qed

lemma scan_from_restart:
  assumes s: "sorted_keys D bv" "D target" and rd: "reads bv it"
  shows "\<exists>i it'. BinarySeek DecodeKey target 0 (di_num_restarts it - 1) (di_comparator it) it = Some (Some i, it) \<and>
    scan_loop None target (SeekToRestartPoint i it) = Some it' \<and>
    found bv (first_from bv target 0 (bv_len bv)) (bv_len bv) it'"
proof -
  note ok = reads_ok [OF rd]
  have "restart_le bv target (unat (0 :: u32))" "unat (di_num_restarts it - 1) < length (bv_restarts bv)"
    using restart_count [OF rd] by (simp_all add: restart_le_def)
  then obtain i where i: "binary_seek_loop DecodeKey (bv_cmp bv) target it 0 (di_num_restarts it - 1) = Some (Inr i)"
      "restart_le bv target (unat i)"
    using binary_seek_finds [OF rd, of 0 "di_num_restarts it - 1" target] by auto
  have r: "unat i < length (bv_restarts bv)" using i(2) by (simp add: restart_le_def)
  let ?k = "bv_restarts bv ! unat i"
  have k: "?k \<le> bv_len bv" using restart_nth_le(1) [OF ok r] .
  have below: "Compare (bv_cmp bv) (bv_key bv j) target < 0" if "j < ?k" for j
  proof -
    have "unat i \<noteq> 0" using that block_ok_rs(2) [OF ok] by (metis not_less_zero)
    then have "Compare (bv_cmp bv) (bv_key bv ?k) target \<le> 0" using i(2) by (simp add: restart_le_def)
    moreover have "?k < bv_len bv" using restart_less [OF ok r] k that by (cases "bv_entries bv = []") auto
    ultimately show ?thesis using below_upto [OF s] that by blast
  qed
  note sr = reads_SeekToRestartPoint [OF rd r]
  have "di_comparator it = bv_cmp bv" using rd by (simp add: reads_def)
  then have "BinarySeek DecodeKey target 0 (di_num_restarts it - 1) (di_comparator it) it = Some (Some i, it)"
    using i(1) by (simp add: BinarySeek_def)
  moreover obtain it' where "scan_loop None target (SeekToRestartPoint i it) = Some it'"
      "found bv (first_from bv target ?k (bv_len bv)) (bv_len bv) it'"
    using scan_loop_finds [OF sr(1,2) k order.refl, of None target] by auto
  ultimately show ?thesis using first_from_skip [of ?k bv target "bv_len bv", OF below k] by auto
qed

lemma found_shows: "found bv m (bv_len bv) it \<longleftrightarrow> shows_at bv (if m < bv_len bv then Some m else None) it"
  by (simp add: found_def shows_at_def)

lemma Seek_moves:
  assumes s: "sorted_keys D bv" "D target" and rd: "reads bv it"
  shows "\<exists>it'. di_Seek target it = Some it' \<and> shows_at bv (block_step (bv_cmp bv) (bv_keys bv) (ToKey target) pos) it'"
proof -
  have "di_data it \<noteq> None" using rd by (simp add: reads_def)
  with scan_from_restart [OF s rd] show ?thesis
    by (auto simp: di_Seek_def found_shows first_from_0 Let_def)
qed

lemma count_le:
  assumes s: "sorted_keys D bv" "D target" and m: "m = first_from bv target 0 (bv_len bv)"
  shows "length (takeWhile (\<lambda>k. Compare (bv_cmp bv) k target \<le> 0) (bv_keys bv)) =
    (if m < bv_len bv \<and> Compare (bv_cmp bv) (bv_key bv m) target \<le> 0 then Suc m else m)"
proof -
  let ?P = "\<lambda>k. Compare (bv_cmp bv) k target \<le> 0"
  define n where "n = (if m < bv_len bv \<and> ?P (bv_key bv m) then Suc m else m)"
  have mle: "m \<le> bv_len bv" using first_from_bound [of 0 "bv_len bv" bv target] m by simp
  then have n: "n \<le> bv_len bv" by (simp add: n_def)
  have below: "?P (bv_key bv i)" if "i < n" for i
  proof (cases "i < m")
    case True
    then show ?thesis using first_from_below [of 0 i bv target "bv_len bv"] m by simp
  next
    case False
    with that have "i = m" "?P (bv_key bv m)" by (auto simp: n_def split: if_splits)
    then show ?thesis by simp
  qed
  have stop: "\<not> ?P (bv_key bv n)" if nl: "n < bv_len bv"
  proof (cases "n = m")
    case True
    with nl show ?thesis by (auto simp: n_def split: if_splits)
  next
    case False
    then have n': "n = Suc m" "m < bv_len bv" by (auto simp: n_def split: if_splits)
    show ?thesis
    proof
      assume "?P (bv_key bv n)"
      from below_upto [OF s nl this, of m] n' show False
        using first_from_reached [of bv target 0 "bv_len bv"] m by simp
    qed
  qed
  have "takeWhile ?P (bv_keys bv) = take n (bv_keys bv)"
    by (rule takeWhile_eq_take_P_nth) (use below stop in simp_all)
  then show ?thesis using n by (simp add: n_def)
qed

lemma prev_loop_finds:
  assumes s: "sorted_keys D bv" "D target" and m: "m = first_from bv target 0 (bv_len bv)" "m < bv_len bv"
    and sh: "shows_at bv (Some m) it"
  shows "\<exists>it'. prev_loop target it = Some it' \<and>
    shows_at bv (if Compare (bv_cmp bv) (bv_key bv m) target \<le> 0 then Some m else if m = 0 then None else Some (m - 1)) it'"
proof -
  have key: "di_Valid it" "di_comparator it = bv_cmp bv" "di_key_bytes it = bv_key bv m"
    using shows_at_valid [OF sh] sh by (simp_all add: shows_at_def reads_def at_entry_def)
  show ?thesis
  proof (cases "Compare (bv_cmp bv) (bv_key bv m) target \<le> 0")
    case True
    with key sh show ?thesis by (simp add: prev_loop.simps [of _ it])
  next
    case False
    obtain it1 where it1: "di_Prev it = Some it1" "shows_at bv (if m = 0 then None else Some (m - 1)) it1"
      using Prev_moves [OF sh] by auto
    have "\<not> (di_Valid it1 \<and> Compare (di_comparator it1) (di_key_bytes it1) target > 0)"
    proof (cases "m = 0")
      case True
      then show ?thesis using shows_at_valid [OF it1(2)] by simp
    next
      case False
      then have "Compare (bv_cmp bv) (bv_key bv (m - 1)) target < 0"
        using first_from_below [of 0 "m - 1" bv target "bv_len bv"] m(1) by simp
      with False it1(2) show ?thesis by (simp add: shows_at_def reads_def at_entry_def)
    qed
    then have "prev_loop target it1 = Some it1" by (auto simp: prev_loop.simps [of _ it1])
    with False key it1 show ?thesis by (simp add: prev_loop.simps [of _ it])
  qed
qed

lemma SeekForPrev_moves:
  assumes s: "sorted_keys D bv" "D target" and rd: "reads bv it"
  shows "\<exists>it'. di_SeekForPrev target it = Some it' \<and>
    shows_at bv (block_step (bv_cmp bv) (bv_keys bv) (ToKeyBack target) pos) it'"
proof -
  define m where "m = first_from bv target 0 (bv_len bv)"
  obtain i it1 where b: "BinarySeek DecodeKey target 0 (di_num_restarts it - 1) (di_comparator it) it = Some (Some i, it)"
    "scan_loop None target (SeekToRestartPoint i it) = Some it1"
    "shows_at bv (if m < bv_len bv then Some m else None) it1"
    using scan_from_restart [OF s rd] unfolding m_def found_shows by blast
  have "di_data it \<noteq> None" using rd by (simp add: reads_def)
  then have eq: "di_SeekForPrev target it = (if \<not> di_Valid it1 then di_SeekToLast it1 else prev_loop target it1)"
    using b(1,2) by (auto simp: di_SeekForPrev_def)
  have mle: "m \<le> bv_len bv" using first_from_bound [of 0 "bv_len bv" bv target] by (simp add: m_def)
  have rd1: "reads bv it1" using b(3) by (simp add: shows_at_def)
  show ?thesis
  proof (cases "m < bv_len bv")
    case True
    then have sh: "shows_at bv (Some m) it1" using b(3) by simp
    from prev_loop_finds [OF s m_def True sh] shows_at_valid [OF sh] True count_le [OF s m_def]
    show ?thesis by (auto simp: eq Let_def split: if_splits)
  next
    case False
    then have "m = bv_len bv" using mle by simp
    with False b(3) count_le [OF s m_def] SeekToLast_moves [OF rd1] shows_at_valid [OF b(3)]
    show ?thesis by (auto simp: eq Let_def)
  qed
qed

section \<open>All movements\<close>

definition op_in :: "(bytes \<Rightarrow> bool) \<Rightarrow> block_op \<Rightarrow> bool" where
  "op_in D op \<longleftrightarrow> (case op of ToKey t \<Rightarrow> D t | ToKeyBack t \<Rightarrow> D t | _ \<Rightarrow> True)"

lemma block_do_moves:
  assumes s: "sorted_keys D bv" "op_in D op" and sh: "shows_at bv pos it"
  shows "\<exists>it'. block_do op it = Some it' \<and> shows_at bv (block_step (bv_cmp bv) (bv_keys bv) op pos) it'"
proof -
  have rd: "reads bv it" using sh by (simp add: shows_at_def)
  show ?thesis
  proof (cases op)
    case ToFirst
    with SeekToFirst_moves [OF rd] show ?thesis by simp
  next
    case ToLast
    with SeekToLast_moves [OF rd] show ?thesis by simp
  next
    case ToNext
    with Next_moves [of bv _ it] shows_at_valid [OF sh] sh show ?thesis by (cases pos) auto
  next
    case ToPrev
    with Prev_moves [of bv _ it] shows_at_valid [OF sh] sh show ?thesis by (cases pos) auto
  next
    case (ToKey t)
    with Seek_moves [OF s(1) _ rd, of t] s(2) show ?thesis by (simp add: op_in_def)
  next
    case (ToKeyBack t)
    with SeekForPrev_moves [OF s(1) _ rd, of t] s(2) show ?thesis by (simp add: op_in_def)
  qed
qed

lemma block_run_moves:
  assumes s: "sorted_keys D bv" "\<forall>op\<in>set ops. op_in D op" and sh: "shows_at bv pos it"
  shows "\<exists>it'. block_run ops it = Some it' \<and>
    shows_at bv (fold (block_step (bv_cmp bv) (bv_keys bv)) ops pos) it'"
  using s(2) sh
proof (induction ops arbitrary: pos it)
  case (Cons op ops)
  then obtain it1 where it1: "block_do op it = Some it1"
      "shows_at bv (block_step (bv_cmp bv) (bv_keys bv) op pos) it1"
    using block_do_moves [OF s(1)] by (metis list.set_intros(1))
  with Cons.IH [OF _ it1(2)] Cons.prems(1) show ?case by simp
qed simp

definition di_view :: "DataBlockIter \<Rightarrow> (bytes \<times> bytes) option" where
  "di_view it = (if di_Valid it then Some (di_key_bytes it, di_value_bytes it) else None)"

lemma shows_at_view:
  assumes "shows_at bv pos it"
  shows "di_view it = map_option (\<lambda>i. (bv_key bv i, bv_value bv i)) pos"
proof (cases pos)
  case None
  with shows_at_valid [OF assms] show ?thesis by (simp add: di_view_def)
next
  case (Some i)
  with assms have "reads bv it" "at_entry bv i it" by (simp_all add: shows_at_def)
  with shows_at_valid [OF assms] Some show ?thesis
    by (auto simp: di_view_def di_value_bytes_def at_entry_def value_at_def reads_def)
qed

end
