(* ===== verification/BlockRefinement.thy ===== *)
theory BlockRefinement
  imports BlockCursor
begin

text \<open>
  From the builder to the iterator: what \<open>bb_Add\<close> and \<open>bb_Finish\<close> write is the text of a list of entries,
  \<open>Block_new\<close> finds the restart points in it, and the iterator moves over exactly the keys and values that
  were added.
\<close>

section \<open>The builder\<close>

lemma shares_snoc:
  "shares prev (es @ [e]) \<longleftrightarrow> shares prev es \<and>
     (let p = (if es = [] then prev else e_key (last es))
      in e_shared e \<le> length p \<and> e_shared e \<le> length (e_key e) \<and>
         take (e_shared e) (e_key e) = take (e_shared e) p \<and>
         length (e_key e) < 2 ^ 32 \<and> length (e_value e) < 2 ^ 32)"
  by (induction es arbitrary: prev) (auto simp: Let_def)

lemma entry_offset_snoc: "i \<le> length es \<Longrightarrow> entry_offset (es @ [e]) i = entry_offset es i"
  by (simp add: entry_offset_def)

definition restarts_of :: "block_entry list \<Rightarrow> nat list \<Rightarrow> bool" where
  "restarts_of es rs \<longleftrightarrow>
     rs \<noteq> [] \<and> rs ! 0 = 0 \<and> sorted_wrt (<) rs \<and>
     (\<forall>r\<in>set rs. (r < length es \<or> r = 0) \<and> (r < length es \<longrightarrow> e_shared (es ! r) = 0))"

definition builds :: "(bytes \<times> bytes) list \<Rightarrow> block_entry list \<Rightarrow> nat list \<Rightarrow> BlockBuilder \<Rightarrow> bool" where
  "builds kvs es rs b \<longleftrightarrow>
     map snd es = kvs \<and> bb_buffer b = entries_bytes es \<and>
     bb_restarts b = map (\<lambda>r. of_nat (entry_offset es r)) rs \<and> shares [] es \<and> restarts_of es rs \<and>
     bb_estimate b = 4 + 4 * length rs + length (entries_bytes es) \<and>
     1 \<le> block_restart_interval b \<and> bb_counter b \<le> int (length es) \<and> \<not> use_value_delta_encoding b \<and>
     (use_delta_encoding b \<longrightarrow> bb_last_key b = (if es = [] then [] else e_key (last es)))"

lemma builds_new: "1 \<le> interval \<Longrightarrow> builds [] [] [0] (BlockBuilder_new interval delta False hash)"
  by (simp add: builds_def restarts_of_def BlockBuilder_new_def)

lemma difference_offset_shares:
  "difference_offset a b \<le> length a \<and> difference_offset a b \<le> length b \<and>
     take (difference_offset a b) a = take (difference_offset a b) b"
proof -
  have "length (longest_common_prefix a b) \<le> length a \<and> length (longest_common_prefix a b) \<le> length b \<and>
      take (length (longest_common_prefix a b)) a = take (length (longest_common_prefix a b)) b"
    by (induction a b rule: longest_common_prefix.induct) auto
  then show ?thesis by (simp add: difference_offset_lcp)
qed

lemma restarts_of_snoc:
  assumes "restarts_of es rs"
  shows "e_shared e = 0 \<or> es \<noteq> [] \<Longrightarrow> restarts_of (es @ [e]) rs"
    "e_shared e = 0 \<Longrightarrow> es \<noteq> [] \<Longrightarrow> restarts_of (es @ [e]) (rs @ [length es])"
proof -
  have r: "\<forall>r\<in>set rs. (r < length es \<or> r = 0) \<and> (r < length es \<longrightarrow> e_shared (es ! r) = 0)"
    "rs \<noteq> []" "rs ! 0 = 0" "sorted_wrt (<) rs"
    using assms by (simp_all add: restarts_of_def)
  show "restarts_of (es @ [e]) rs" if "e_shared e = 0 \<or> es \<noteq> []"
    using r that by (auto simp: restarts_of_def nth_append less_Suc_eq)
  show "restarts_of (es @ [e]) (rs @ [length es])" if "e_shared e = 0" "es \<noteq> []"
    using r that by (auto simp: restarts_of_def nth_append less_Suc_eq sorted_wrt_append)
qed

text \<open>The entry that \<open>bb_Add\<close> writes, and where it begins.\<close>

lemma bb_Add_fields:
  assumes nvd: "\<not> use_value_delta_encoding b"
    and restart: "restart = (bb_counter b \<ge> block_restart_interval b)"
    and shared: "shared = (if \<not> restart \<and> use_delta_encoding b then difference_offset key (bb_last_key b) else 0)"
  shows "bb_buffer (bb_Add key value dv b) = bb_buffer b @ enc_entry (shared, key, value)"
    "bb_restarts (bb_Add key value dv b) = bb_restarts b @ (if restart then [of_nat (length (bb_buffer b))] else [])"
    "bb_estimate (bb_Add key value dv b) =
       bb_estimate b + (if restart then 4 else 0) + length (enc_entry (shared, key, value))"
    "bb_counter (bb_Add key value dv b) = (if restart then 1 else bb_counter b + 1)"
    "block_restart_interval (bb_Add key value dv b) = block_restart_interval b"
    "use_value_delta_encoding (bb_Add key value dv b) = use_value_delta_encoding b"
    "use_delta_encoding (bb_Add key value dv b) = use_delta_encoding b"
    "use_delta_encoding b \<Longrightarrow> bb_last_key (bb_Add key value dv b) = key"
  using nvd restart shared
  by (simp_all add: bb_Add_def Let_def enc_entry_def PutVarint32Varint32Varint32_def)

lemma builds_Add:
  assumes b: "builds kvs es rs b" and len: "length key < 2 ^ 32" "length value < 2 ^ 32"
  shows "\<exists>rs'. builds (kvs @ [(key, value)])
    (es @ [(if bb_counter b < block_restart_interval b \<and> use_delta_encoding b
            then difference_offset key (bb_last_key b) else 0, key, value)]) rs' (bb_Add key value dv b)"
proof -
  let ?restart = "bb_counter b \<ge> block_restart_interval b"
  define restart where "restart = ?restart"
  define s where "s = (if \<not> restart \<and> use_delta_encoding b then difference_offset key (bb_last_key b) else 0)"
  define e :: block_entry where "e = (s, key, value)"
  note vd = b [unfolded builds_def]
  have nvd: "\<not> use_value_delta_encoding b" and old: "restarts_of es rs" and buf: "bb_buffer b = entries_bytes es"
    and kvs: "map snd es = kvs" and points: "bb_restarts b = map (\<lambda>r. of_nat (entry_offset es r)) rs"
    and size_b: "bb_estimate b = 4 + 4 * length rs + length (entries_bytes es)"
    and interval: "1 \<le> block_restart_interval b" and count: "bb_counter b \<le> int (length es)"
    and last: "use_delta_encoding b \<longrightarrow> bb_last_key b = (if es = [] then [] else e_key (last es))"
    and sh_es: "shares [] es"
    using vd by blast+
  note f = bb_Add_fields [OF nvd restart_def s_def, of "value" dv, folded e_def]
  define p where "p = (if es = [] then [] else e_key (last es))"
  have sh: "s \<le> length key" "s \<le> length p" "take s key = take s p"
    using difference_offset_shares [of key "bb_last_key b"] last by (auto simp: s_def p_def)
  have ne: "es \<noteq> []" if "restart" using that interval count by (auto simp: restart_def)
  have s0: "s = 0" if "restart \<or> es = []" using that sh(2) by (auto simp: s_def p_def)
  have shares: "shares [] (es @ [e])" using sh_es sh len unfolding shares_snoc p_def [symmetric] by (simp add: e_def)
  define rs' where "rs' = (if restart then rs @ [length es] else rs)"
  have rs': "restarts_of (es @ [e]) rs'"
  proof (cases restart)
    case True
    then have "s = 0" "es \<noteq> []" using s0 ne by simp_all
    with restarts_of_snoc(2) [OF old] True show ?thesis by (simp add: rs'_def e_def)
  next
    case False
    have "s = 0 \<or> es \<noteq> []" using s0 by blast
    with restarts_of_snoc(1) [OF old] False show ?thesis by (simp add: rs'_def e_def)
  qed
  have le: "r \<le> length es" if "r \<in> set rs" for r
  proof -
    have "\<forall>r\<in>set rs. (r < length es \<or> r = 0) \<and> (r < length es \<longrightarrow> e_shared (es ! r) = 0)"
      using old by (simp add: restarts_of_def)
    from bspec [OF this that, THEN conjunct1] show ?thesis by auto
  qed
  have offs: "map (\<lambda>r. of_nat (entry_offset (es @ [e]) r)) rs = (map (\<lambda>r. of_nat (entry_offset es r)) rs :: u32 list)"
    using le by (simp add: entry_offset_snoc)
  have snd: "map snd (es @ [e]) = kvs @ [(key, value)]" using kvs by (simp add: e_def)
  have rst: "bb_restarts b @ (if restart then [of_nat (length (bb_buffer b))] else []) =
      map (\<lambda>r. of_nat (entry_offset (es @ [e]) r)) rs'"
    using offs by (simp add: rs'_def buf points entry_offset_snoc entry_offset_all)
  have est: "bb_estimate b + (if restart then 4 else 0) + length (enc_entry e) =
      4 + 4 * length rs' + length (entries_bytes (es @ [e]))"
    by (simp add: rs'_def size_b)
  have cnt: "(if restart then 1 else bb_counter b + 1) \<le> int (length (es @ [e]))" using count by simp
  have whole: "bb_buffer b @ enc_entry e = entries_bytes (es @ [e])" by (simp add: buf)
  have key: "use_delta_encoding b \<longrightarrow>
      bb_last_key (bb_Add key value dv b) = (if es @ [e] = [] then [] else e_key (last (es @ [e])))"
    using f(8) by (simp add: e_def)
  have "builds (kvs @ [(key, value)]) (es @ [e]) rs' (bb_Add key value dv b)"
    unfolding builds_def f(1-7) by (intro conjI snd whole rst shares rs' est interval cnt nvd key)
  moreover have "e = (if bb_counter b < block_restart_interval b \<and> use_delta_encoding b
      then difference_offset key (bb_last_key b) else 0, key, value)"
    by (auto simp: e_def s_def restart_def)
  ultimately show ?thesis by blast
qed

lemma builds_all:
  assumes "builds kvs es rs b" "\<forall>(k, v)\<in>set more_kvs. length k < 2 ^ 32 \<and> length v < 2 ^ 32"
  shows "\<exists>fs rs'. builds (kvs @ more_kvs) (es @ fs) rs' (fold (\<lambda>(k, v). bb_Add k v None) more_kvs b)"
  using assms
proof (induction more_kvs arbitrary: kvs es rs b)
  case Nil
  then have "builds (kvs @ []) (es @ []) rs (fold (\<lambda>(k, v). bb_Add k v None) [] b)" by simp
  then show ?case by blast
next
  case (Cons kv more_kvs)
  obtain k v where kv: "kv = (k, v)" by (cases kv)
  from builds_Add [OF Cons.prems(1), of k v None] Cons.prems(2) kv
  obtain e rs' where "builds (kvs @ [(k, v)]) (es @ [e]) rs' (bb_Add k v None b)" by auto
  from Cons.IH [OF this] Cons.prems(2) kv show ?case by auto
qed

section \<open>The finished block\<close>

lemma length_restart_bytes: "length (restart_bytes es rs) = 4 * length rs"
  by (induction rs) (simp_all add: restart_bytes_def)

lemma put_restarts: "fold (\<lambda>r d. PutFixed32 d r) (map f rs) d = d @ concat (map (\<lambda>r. EncodeFixed32 (f r)) rs)"
  by (induction rs arbitrary: d) (simp_all add: PutFixed32_def)

lemma length_put_bucket [simp]: "length (put_bucket n e bs) = length bs"
  by (simp add: put_bucket_def Let_def)

lemma length_put_buckets: "length (fold (put_bucket n) es bs) = length bs"
  by (induction es arbitrary: bs) simp_all

text \<open>What stands behind the restart points, without and with a hash index.\<close>

definition plain_tail :: "nat list \<Rightarrow> bytes" where
  "plain_tail rs = EncodeFixed32 (PackIndexTypeAndNumRestarts kDataBlockBinarySearch (of_nat (length rs)))"

definition indexed_tail :: "nat list \<Rightarrow> u16 \<Rightarrow> bytes \<Rightarrow> bytes" where
  "indexed_tail rs n buckets = buckets @ EncodeFixed16 n @
     EncodeFixed32 (PackIndexTypeAndNumRestarts kDataBlockBinaryAndHash (of_nat (length rs)))"

lemma bb_Finish_text:
  assumes b: "builds kvs es rs b"
  shows "fst (bb_Finish b) = block_text es rs (plain_tail rs) \<or>
    (\<exists>n buckets. fst (bb_Finish b) = block_text es rs (indexed_tail rs n buckets) \<and> length buckets = unat n \<and>
       n \<noteq> 0 \<and> length (fst (bb_Finish b)) \<le> 2 ^ 16)"
proof -
  have buf: "bb_buffer b = entries_bytes es" and points: "bb_restarts b = map (\<lambda>r. of_nat (entry_offset es r)) rs"
    and est: "bb_estimate b = 4 + 4 * length rs + length (entries_bytes es)"
    using b unfolding builds_def by blast+
  have buffer1: "fold (\<lambda>r d. PutFixed32 d r) (bb_restarts b) (bb_buffer b) = entries_bytes es @ restart_bytes es rs"
    by (simp add: points buf put_restarts restart_bytes_def)
  have count: "length (bb_restarts b) = length rs" by (simp add: points)
  show ?thesis
  proof (cases "hib_Valid (bb_hash b) \<and> bb_CurrentSizeEstimate b \<le> kMaxBlockSizeSupportedByHashIndex")
    case False
    then have "fst (bb_Finish b) = block_text es rs (plain_tail rs)"
      unfolding bb_Finish_def Let_def buffer1 count if_not_P [OF False]
      by (simp add: PutFixed32_def block_text_def plain_tail_def)
    then show ?thesis ..
  next
    case True
    define e where "e = estimated_num_buckets (bb_hash b)"
    define n where "n = (if e = 0 then 1 else e) OR (1 :: u16)"
    have n: "n = e OR 1" by (simp add: n_def)
    have nz: "n \<noteq> 0" by (simp add: n or_eq_0_iff)
    define buckets where "buckets = fold (put_bucket n) (hib_pairs (bb_hash b)) (replicate (unat n) kNoEntry)"
    have len: "length buckets = unat n" by (simp add: buckets_def length_put_buckets)
    have "fst (bb_Finish b) = block_text es rs (indexed_tail rs n buckets)"
      unfolding bb_Finish_def Let_def buffer1 count if_P [OF True]
      by (simp add: hib_Finish_def Let_def PutFixed32_def PutFixed16_def block_text_def indexed_tail_def buckets_def n_def e_def)
    moreover have "length (block_text es rs (indexed_tail rs n buckets)) \<le> 2 ^ 16"
      using True [THEN conjunct1] True [THEN conjunct2]
      by (simp add: block_text_def length_restart_bytes indexed_tail_def len bb_CurrentSizeEstimate_def est
          hib_EstimateSize_def n e_def kMaxBlockSizeSupportedByHashIndex_def)
    ultimately show ?thesis using len nz by auto
  qed
qed

section \<open>Opening the block\<close>

lemma blk_footer_last: "blk_footer (pre @ EncodeFixed32 w) = w"
  by (simp add: blk_footer_def)

lemma small_count: "n < 2 ^ 30 \<Longrightarrow> (of_nat n :: u32) < push_bit 31 1"
  by (simp add: word_less_nat_alt unat_of_nat_32)

lemma Block_new_plain:
  assumes ok: "block_ok es rs (plain_tail rs)"
  defines "data \<equiv> block_text es rs (plain_tail rs)"
  shows "Block_new data g = \<lparr>blk_data = data, blk_size = length data, blk_restart_offset = of_nat (length (entries_bytes es)),
    blk_num_restarts = of_nat (length rs), blk_global_seqno = g, blk_hash_buckets = 0\<rparr>"
proof -
  let ?n = "of_nat (length rs) :: u32" and ?e = "of_nat (length (entries_bytes es)) :: u32"
  have len: "length data = length (entries_bytes es) + 4 * length rs + 4"
    by (simp add: data_def block_text_def plain_tail_def length_restart_bytes)
  have "data = (entries_bytes es @ restart_bytes es rs) @ EncodeFixed32 (PackIndexTypeAndNumRestarts kDataBlockBinarySearch ?n)"
    by (simp add: data_def block_text_def plain_tail_def)
  then have foot: "blk_footer data = PackIndexTypeAndNumRestarts kDataBlockBinarySearch ?n" by (simp only: blk_footer_last)
  have num: "blk_NumRestarts data = ?n" "blk_IndexType data = kDataBlockBinarySearch"
    using index_type_roundtrip [OF small_count [OF block_ok_small(2) [OF ok]], of kDataBlockBinarySearch]
    by (simp_all add: blk_NumRestarts_def blk_IndexType_def foot) (simp add: PackIndexTypeAndNumRestarts_def)
  have off: "of_nat (length data) - (1 + ?n) * 4 = ?e" by (simp add: len algebra_simps)
  have "unat ?e = length (entries_bytes es)" using unat_offset [OF ok, of "length es"] by (simp add: entry_offset_all)
  then have fits: "\<not> unat ?e > length data - 4" "\<not> length data < 4" by (simp_all add: len)
  show ?thesis unfolding Block_new_def Let_def num DataBlockIndexType.case off using fits by simp
qed

lemma Block_new_hash:
  assumes ok: "block_ok es rs (indexed_tail rs n buckets)" and len_b: "length buckets = unat n"
  defines "data \<equiv> block_text es rs (indexed_tail rs n buckets)"
  assumes small: "length data \<le> 2 ^ 16"
  shows "Block_new data g = \<lparr>blk_data = data, blk_size = length data, blk_restart_offset = of_nat (length (entries_bytes es)),
    blk_num_restarts = of_nat (length rs), blk_global_seqno = g, blk_hash_buckets = n\<rparr>"
proof -
  let ?n = "of_nat (length rs) :: u32" and ?e = "of_nat (length (entries_bytes es)) :: u32"
  let ?pre = "entries_bytes es @ restart_bytes es rs @ buckets"
  have len: "length data = length (entries_bytes es) + 4 * length rs + unat n + 6"
    by (simp add: data_def block_text_def indexed_tail_def length_restart_bytes len_b)
  have split: "data = (?pre @ EncodeFixed16 n) @ EncodeFixed32 (PackIndexTypeAndNumRestarts kDataBlockBinaryAndHash ?n)"
    by (simp add: data_def block_text_def indexed_tail_def)
  then have foot: "blk_footer data = PackIndexTypeAndNumRestarts kDataBlockBinaryAndHash ?n" by (simp only: blk_footer_last)
  have num: "blk_NumRestarts data = ?n" "blk_IndexType data = kDataBlockBinaryAndHash"
    using index_type_roundtrip [OF small_count [OF block_ok_small(2) [OF ok]], of kDataBlockBinaryAndHash] small
    by (simp_all add: blk_NumRestarts_def blk_IndexType_def foot kMaxBlockSizeSupportedByHashIndex_def)
  define sz where "sz = (of_nat (length data - 4) :: u16)"
  have "length data - 4 < 2 ^ 16" using small len by linarith
  then have sz: "unat sz = length data - 4" by (simp only: sz_def unat_of_nat) simp
  have "length ?pre = unat sz - 2" using sz len by (simp add: length_restart_bytes len_b)
  then have "drop (unat sz - 2) data = EncodeFixed16 n @ EncodeFixed32 (PackIndexTypeAndNumRestarts kDataBlockBinaryAndHash ?n)"
    unfolding split append_assoc by simp
  then have init: "hi_Initialize data sz = (n, sz - 2 - n)" by (simp add: hi_Initialize_def)
  have map16: "sz - 2 - n = of_nat (length (entries_bytes es) + 4 * length rs)"
    using len by (simp add: sz_def algebra_simps)
  have "length (entries_bytes es) + 4 * length rs < 2 ^ 16" using small len by simp
  then have map32: "(ucast (sz - 2 - n) :: u32) = of_nat (length (entries_bytes es) + 4 * length rs)"
    unfolding map16 word_unat_eq_iff unsigned_ucast_eq unat_of_nat by (simp add: take_bit_eq_mod)
  have off: "of_nat (length (entries_bytes es) + 4 * length rs) - ?n * 4 = ?e" by (simp add: algebra_simps)
  have "\<not> (of_nat (length (entries_bytes es)) :: u32) > of_nat (length (entries_bytes es) + 4 * length rs)"
    using small len by (simp add: word_less_nat_alt unat_of_nat_32 del: of_nat_add of_nat_mult)
  moreover have "\<not> length data < 4" "\<not> length data < 4 + 2" using len by simp_all
  ultimately show ?thesis
    unfolding Block_new_def Let_def num DataBlockIndexType.case sz_def [symmetric] init prod.case map32 off by simp
qed

lemma NewDataIterator_opens:
  assumes ok: "block_ok es rs tail"
    and blk: "Block_new (block_text es rs tail) g = \<lparr>blk_data = block_text es rs tail,
      blk_size = length (block_text es rs tail), blk_restart_offset = of_nat (length (entries_bytes es)),
      blk_num_restarts = of_nat (length rs), blk_global_seqno = g, blk_hash_buckets = n\<rparr>"
    and tail: "4 \<le> length tail"
  shows "NewDataIterator cmp ucmp pinned (Block_new (block_text es rs tail) g) =
      di_Initialize cmp ucmp (block_text es rs tail) (of_nat (length (entries_bytes es))) (of_nat (length rs))
        g pinned (if n \<noteq> 0 then Some n else None) (di_new cmp ucmp)"
    and "ik_wf (ik_SetIsUserKey IterKey_new False)" "\<not> ik_is_user_key (ik_SetIsUserKey IterKey_new False)"
proof -
  have count: "0 < length rs" "length rs < 2 ^ 30" using block_ok_rs(1) [OF ok] block_ok_small(2) [OF ok] .
  then have "(of_nat (length rs) :: u32) \<noteq> 0" by (simp add: word_unat_eq_iff unat_of_nat_32)
  moreover have "\<not> length (block_text es rs tail) < 8"
    using Suc_leI [OF count(1)] tail unfolding block_text_def length_append length_restart_bytes by linarith
  ultimately show "NewDataIterator cmp ucmp pinned (Block_new (block_text es rs tail) g) =
      di_Initialize cmp ucmp (block_text es rs tail) (of_nat (length (entries_bytes es))) (of_nat (length rs))
        g pinned (if n \<noteq> 0 then Some n else None) (di_new cmp ucmp)"
    unfolding blk NewDataIterator_def by simp
  show "ik_wf (ik_SetIsUserKey IterKey_new False)" "\<not> ik_is_user_key (ik_SetIsUserKey IterKey_new False)"
    using ik_new_wf by (simp_all add: ik_SetIsUserKey_def ik_wf_def ik_sizes_def ik_buf_def ik_mem_def IterKey_new_def)
qed

lemma NewDataIterator_shows:
  assumes ok: "block_ok es rs tail"
    and blk: "Block_new (block_text es rs tail) kDisableGlobalSequenceNumber = \<lparr>blk_data = block_text es rs tail,
      blk_size = length (block_text es rs tail), blk_restart_offset = of_nat (length (entries_bytes es)),
      blk_num_restarts = of_nat (length rs), blk_global_seqno = kDisableGlobalSequenceNumber, blk_hash_buckets = n\<rparr>"
    and tail: "4 \<le> length tail"
  shows "\<exists>hash. shows_at \<lparr>bv_cmp = cmp, bv_ucmp = ucmp, bv_hash = hash, bv_entries = es, bv_restarts = rs, bv_tail = tail\<rparr> None
    (NewDataIterator cmp ucmp pinned (Block_new (block_text es rs tail) kDisableGlobalSequenceNumber))"
  using NewDataIterator_opens(2,3) [OF assms]
  unfolding NewDataIterator_opens(1) [OF assms] shows_at_def reads_def at_end_def
  by (intro exI [of _ "if n \<noteq> 0 then Some n else None"])
    (simp add: di_Initialize_def di_new_def ok entry_offset_all cache_from_def)

section \<open>A block and its list\<close>

text \<open>The block of the entries, opened.\<close>

definition build_block :: "int \<Rightarrow> bool \<Rightarrow> (nat \<Rightarrow> u16) option \<Rightarrow> (bytes \<times> bytes) list \<Rightarrow> bytes" where
  "build_block interval delta hash kvs =
     fst (bb_Finish (fold (\<lambda>(k, v). bb_Add k v None) kvs (BlockBuilder_new interval delta False hash)))"

lemma finished_block:
  assumes b: "builds kvs es rs b" and small: "length (fst (bb_Finish b)) < 2 ^ 32"
  obtains tail n where "fst (bb_Finish b) = block_text es rs tail" "block_ok es rs tail" "4 \<le> length tail"
    "\<And>g. Block_new (block_text es rs tail) g = \<lparr>blk_data = block_text es rs tail,
        blk_size = length (block_text es rs tail), blk_restart_offset = of_nat (length (entries_bytes es)),
        blk_num_restarts = of_nat (length rs), blk_global_seqno = g, blk_hash_buckets = n\<rparr>"
proof -
  have es: "shares [] es" "restarts_of es rs" using b unfolding builds_def by blast+
  have ok: "block_ok es rs tail" if "fst (bb_Finish b) = block_text es rs tail" for tail
    using es small that unfolding block_ok_def restarts_of_def by simp
  from bb_Finish_text [OF b] show thesis
  proof (elim disjE exE conjE)
    assume t: "fst (bb_Finish b) = block_text es rs (plain_tail rs)"
    show thesis
      by (rule that [OF t ok [OF t] _ Block_new_plain [OF ok [OF t]]]) (simp add: plain_tail_def)
  next
    fix n buckets
    assume t: "fst (bb_Finish b) = block_text es rs (indexed_tail rs n buckets)" and len: "length buckets = unat n"
      and small: "length (fst (bb_Finish b)) \<le> 2 ^ 16"
    show thesis
      by (rule that [OF t ok [OF t] _ Block_new_hash [OF ok [OF t] len small [unfolded t]]])
        (simp add: indexed_tail_def)
  qed
qed

lemma build_block_opens:
  assumes "1 \<le> interval" "\<forall>(k, v)\<in>set kvs. length k < 2 ^ 32 \<and> length v < 2 ^ 32"
    and "length (build_block interval delta hash kvs) < 2 ^ 32"
  shows "\<exists>bv. bv_cmp bv = cmp \<and> map snd (bv_entries bv) = kvs \<and>
    shows_at bv None (NewDataIterator cmp ucmp pinned
      (Block_new (build_block interval delta hash kvs) kDisableGlobalSequenceNumber))"
proof -
  let ?b = "fold (\<lambda>(k, v). bb_Add k v None) kvs (BlockBuilder_new interval delta False hash)"
  obtain es rs where b: "builds kvs es rs ?b"
    using builds_all [OF builds_new [OF assms(1), of delta hash] assms(2)] by auto
  then have es: "map snd es = kvs" unfolding builds_def by blast
  obtain tail n where t: "fst (bb_Finish ?b) = block_text es rs tail" "block_ok es rs tail" "4 \<le> length tail"
    and blk: "\<And>g. Block_new (block_text es rs tail) g = \<lparr>blk_data = block_text es rs tail,
        blk_size = length (block_text es rs tail), blk_restart_offset = of_nat (length (entries_bytes es)),
        blk_num_restarts = of_nat (length rs), blk_global_seqno = g, blk_hash_buckets = n\<rparr>"
    using finished_block [OF b assms(3) [unfolded build_block_def]] by blast
  from NewDataIterator_shows [OF t(2) blk t(3), of cmp ucmp pinned] t(1) es show ?thesis
    unfolding build_block_def by (metis block_view.select_convs(1,4))
qed

lemma nth_option_map:
  "(case pos of None \<Rightarrow> True | Some i \<Rightarrow> i < length es) \<Longrightarrow>
     map_option (\<lambda>i. (e_key (es ! i), e_value (es ! i))) pos = map_option ((!) (map snd es)) pos"
  by (cases pos) simp_all

lemma shows_at_bound: "shows_at bv pos it \<Longrightarrow> case pos of None \<Rightarrow> True | Some i \<Rightarrow> i < bv_len bv"
  by (simp add: shows_at_def at_entry_def split: option.splits)

text \<open>C37. A block built by any sequence of \<open>bb_Add\<close> and \<open>bb_Finish\<close> over keys in strict order, with any
  interval between the restart points, with or without delta encoding of the keys and with or without a
  hash index, is read back, without a global sequence number, as that list: whatever sequence of movements a client makes
  (first, last, next, previous, seek, seek for previous), every one returns, and the iterator shows the key
  and value at which the same movements leave a cursor over the list, or is not valid where the
  cursor has left the list.\<close>

theorem block_cursor_refines:
  assumes order: "key_order cmp D" and keys: "\<forall>(k, v)\<in>set kvs. D k \<and> length k < 2 ^ 32 \<and> length v < 2 ^ 32"
    and sorted: "sorted_wrt (\<lambda>a b. Compare cmp a b < 0) (map fst kvs)"
    and interval: "1 \<le> interval" and small: "length (build_block interval delta hash kvs) < 2 ^ 32"
    and ops: "\<forall>op\<in>set ops. op_in D op"
  shows "map_option di_view (block_run ops (NewDataIterator cmp ucmp pinned
      (Block_new (build_block interval delta hash kvs) kDisableGlobalSequenceNumber))) =
    Some (map_option ((!) kvs) (fold (block_step cmp (map fst kvs)) ops None))"
proof -
  have "\<forall>(k, v)\<in>set kvs. length k < 2 ^ 32 \<and> length v < 2 ^ 32" using keys by auto
  from build_block_opens [OF interval this small, of cmp ucmp pinned]
  obtain bv where bv: "bv_cmp bv = cmp" "map snd (bv_entries bv) = kvs"
    and start: "shows_at bv None (NewDataIterator cmp ucmp pinned
      (Block_new (build_block interval delta hash kvs) kDisableGlobalSequenceNumber))" by blast
  have ks: "bv_keys bv = map fst kvs" unfolding bv(2) [symmetric] by simp
  have "sorted_keys D bv" using order keys sorted unfolding sorted_keys_def ks bv(1) by auto
  from block_run_moves [OF this ops start] obtain it where
    it: "block_run ops (NewDataIterator cmp ucmp pinned
      (Block_new (build_block interval delta hash kvs) kDisableGlobalSequenceNumber)) = Some it"
    and sh: "shows_at bv (fold (block_step cmp (map fst kvs)) ops None) it"
    unfolding ks bv(1) by blast
  from shows_at_view [OF sh] nth_option_map [OF shows_at_bound [OF sh]] show ?thesis
    by (simp add: it bv(2))
qed

lemma block_cursor_refines_witness:
  "map_option di_view (block_run [ToKey [97, 99], ToPrev, ToNext]
      (NewDataIterator BytewiseComparator BytewiseComparator True
        (Block_new (build_block 2 True None [([97], [1]), ([97, 98], [2]), ([98], [3])]) kDisableGlobalSequenceNumber))) =
    Some (Some ([98], [3]))"
proof -
  let ?kvs = "[([97], [1]), ([97, 98], [2]), ([98], [3])] :: (bytes \<times> bytes) list"
  have "length (build_block 2 True None ?kvs) = 27" by code_simp
  then have b: "length (build_block 2 True None ?kvs) < 2 ^ 32" by simp
  have s: "sorted_wrt (\<lambda>a b. Compare BytewiseComparator a b < 0) (map fst ?kvs)" by code_simp
  have k: "\<forall>(k, v)\<in>set ?kvs. (\<lambda>k. True) k \<and> length k < 2 ^ 32 \<and> length v < 2 ^ 32" by simp
  have o: "\<forall>op\<in>set [ToKey [97, 99], ToPrev, ToNext]. op_in (\<lambda>k. True) op" by (simp add: op_in_def)
  have f: "map_option ((!) ?kvs) (fold (block_step BytewiseComparator (map fst ?kvs)) [ToKey [97, 99], ToPrev, ToNext] None) =
      Some ([98], [3])" by code_simp
  from block_cursor_refines [OF bytewise.key_order_axioms k s _ b o, of BytewiseComparator True] show ?thesis
    unfolding f by simp
qed

end
