(* ===== verification/BlockDamage.thy ===== *)
theory BlockDamage
  imports BlockRefinement
begin

text \<open>
  Two ways in which a block is read differently from how it was written: with a global sequence number,
  which the iterator writes into the keys, and with an entry whose lengths overflow.
\<close>

section \<open>A global sequence number\<close>

text \<open>The key that an iterator shows once the number is in it.\<close>

abbreviation numbered :: "u64 \<Rightarrow> bytes \<Rightarrow> bytes" where
  "numbered g k \<equiv> UpdateInternalKey k g (ExtractValueType k)"

lemma length_numbered: "8 \<le> length k \<Longrightarrow> length (UpdateInternalKey k g t) = length k"
  by (simp add: UpdateInternalKey_def Let_def)

lemma ik_GetKey_size: "ik_wf k \<Longrightarrow> length (ik_GetKey k) = ik_key_size k"
  by (simp add: ik_wf_def ik_GetKey_def min_absorb1)

lemma ik_UpdateInternalKey_GetKey:
  assumes wf: "ik_wf k" and owned: "\<not> ik_IsKeyPinned k" and size: "8 \<le> ik_key_size k"
  shows "ik_GetKey (ik_UpdateInternalKey k g t) = UpdateInternalKey (ik_GetKey k) g t
    \<and> ik_wf (ik_UpdateInternalKey k g t)"
proof -
  let ?d = "EncodeFixed64 (push_bit 8 g OR ucast t)" and ?off = "ik_key_size k - 8"
  have key: "ik_key k = ik_buf_ptr k" using owned by (simp add: ik_IsKeyPinned_def)
  have buf: "ik_sizes k" "ik_key_size k \<le> length (ik_buf k)" "length (ik_buf k) = ik_buf_size k"
    using wf ik_mem_buf [OF key] by (simp_all add: ik_wf_def ik_sizes_def)
  have sum: "?off + length ?d = ik_key_size k" using size by simp
  have "ik_GetKey (ik_UpdateInternalKey k g t) = take (ik_key_size k) (poke (ik_buf k) ?off ?d)"
    by (subst ik_GetKey_buf) (simp_all add: ik_UpdateInternalKey_def Let_def key)
  also have "\<dots> = take ?off (ik_buf k) @ ?d"
    using take_poke [of ?off ?d "ik_buf k"] buf(2) unfolding sum by blast
  also have "take ?off (ik_buf k) = take ?off (ik_GetKey k)"
    by (simp add: ik_GetKey_buf [OF key] min_absorb1)
  also have "?off = length (ik_GetKey k) - 8" by (simp add: ik_GetKey_size [OF wf])
  finally have "ik_GetKey (ik_UpdateInternalKey k g t) = UpdateInternalKey (ik_GetKey k) g t"
    by (simp add: UpdateInternalKey_def Let_def)
  moreover have "ik_wf (ik_UpdateInternalKey k g t)"
    using size buf key by (intro ik_wf_buf) (simp_all add: ik_UpdateInternalKey_def Let_def ik_sizes_write)
  ultimately show ?thesis ..
qed

lemma ik_SetKey_pinned: "ik_IsKeyPinned (ik_SetKeyImpl k d False)"
  by (simp add: ik_IsKeyPinned_def ik_SetKeyImpl_def ik_buf_ptr_def Let_def split: option.split)

lemma ik_TrimAppend_owned:
  "ik_wf k \<Longrightarrow> n \<le> ik_key_size k \<Longrightarrow> \<not> ik_IsKeyPinned (ik_TrimAppend k n d)"
  using ik_TrimAppend_shape(2) [of k n d] by (simp add: ik_IsKeyPinned_def)

lemma apply_global_seqno_key:
  assumes wf: "ik_wf (di_key it)" and size: "8 \<le> ik_key_size (di_key it)"
    and g: "di_global_seqno it = g" "g \<noteq> kDisableGlobalSequenceNumber"
    and pinned: "di_key_pinned it \<longleftrightarrow> ik_IsKeyPinned (di_key it)"
  shows "\<exists>k. apply_global_seqno it = it\<lparr>di_key := k, di_key_pinned := False\<rparr> \<and> ik_wf k \<and>
    ik_GetKey k = numbered g (ik_GetKey (di_key it))"
proof -
  define k0 where "k0 = (if di_key_pinned it then ik_OwnKey (di_key it) else di_key it)"
  have own: "\<not> ik_IsKeyPinned (ik_OwnKey k)" "ik_key_size (ik_OwnKey k) = ik_key_size k" for k
    by (simp_all add: ik_OwnKey_def ik_IsKeyPinned_def ik_Reserve_def Let_def)
  have k0: "ik_wf k0" "ik_GetKey k0 = ik_GetKey (di_key it)" "\<not> ik_IsKeyPinned k0" "8 \<le> ik_key_size k0"
    using ik_OwnKey_GetKey [OF wf] wf size pinned own by (simp_all add: k0_def)
  have "apply_global_seqno it =
      it\<lparr>di_key := ik_UpdateInternalKey k0 g (ExtractValueType (ik_GetKey (di_key it))), di_key_pinned := False\<rparr>"
    using g by (simp add: apply_global_seqno_def k0_def Let_def)
  with ik_UpdateInternalKey_GetKey [OF k0(1,3,4)] show ?thesis unfolding k0(2) by blast
qed

text \<open>An iterator over a block that writes the number \<open>g\<close> into its keys.\<close>

definition reads_with :: "u64 \<Rightarrow> block_view \<Rightarrow> DataBlockIter \<Rightarrow> bool" where
  "reads_with g bv it \<longleftrightarrow>
     block_ok (bv_entries bv) (bv_restarts bv) (bv_tail bv) \<and> di_data it = Some (bv_text bv) \<and>
     di_restarts it = of_nat (bv_off bv (bv_len bv)) \<and> di_global_seqno it = g \<and>
     g \<noteq> kDisableGlobalSequenceNumber \<and> ik_wf (di_key it)"

definition before_entry :: "block_view \<Rightarrow> nat \<Rightarrow> DataBlockIter \<Rightarrow> bool" where
  "before_entry bv i it \<longleftrightarrow> (\<exists>off len. di_value it = Some (off, len) \<and> off + len = bv_off bv i)"

lemma Parse_numbered:
  assumes rd: "reads_with g bv it" and at: "before_entry bv i it" and i: "i < bv_len bv"
    and shared: "e_shared (bv_entries bv ! i) \<le> ik_key_size (di_key it)" and long: "8 \<le> length (bv_key bv i)"
  shows "\<exists>it'. ParseNextDataKey DecodeEntry None it = (True, it') \<and> reads_with g bv it' \<and>
    di_current it' = of_nat (bv_off bv i) \<and> before_entry bv (Suc i) it' \<and>
    di_key_bytes it' = numbered g (take (e_shared (bv_entries bv ! i)) (di_key_bytes it) @
      drop (e_shared (bv_entries bv ! i)) (bv_key bv i))"
proof -
  let ?e = "bv_entries bv ! i" and ?es = "bv_entries bv"
  have ok: "block_ok ?es (bv_restarts bv) (bv_tail bv)" and wf: "ik_wf (di_key it)" "ik_sizes (di_key it)"
    and dat: "di_data it = Some (bv_text bv)" "di_restarts it = of_nat (bv_off bv (bv_len bv))"
    and g: "di_global_seqno it = g" "g \<noteq> kDisableGlobalSequenceNumber"
    using rd by (simp_all add: reads_with_def ik_wf_def)
  define l where "l = bv_off bv (bv_len bv)"
  have l: "bv_off bv (Suc i) \<le> l" "l \<le> length (bv_text bv)" "unat (di_restarts it) = l" "bv_off bv i < l"
    using i unat_offset [OF ok] block_ok_small(3) [OF ok] entry_offset_le [of "Suc i" "bv_len bv" ?es]
      entry_offset_less [of i "bv_len bv" ?es]
    by (auto simp: l_def dat(2))
  have sh: "e_shared ?e \<le> length (e_key ?e)" "length (e_key ?e) < 2 ^ 32" "length (e_value ?e) < 2 ^ 32"
    using shares_nth [of "[]" ?es i] ok i by (simp_all add: block_ok_def)
  obtain q sw nw vw where q: "DecodeEntry (bv_text bv) (bv_off bv i) l = Some (q, sw, nw, vw)"
    "take (length (e_key ?e) - e_shared ?e) (drop q (bv_text bv)) = drop (e_shared ?e) (e_key ?e)"
    "value_at bv i (Some (q + (length (e_key ?e) - e_shared ?e), length (e_value ?e)))"
    and words: "unat sw = e_shared ?e" "unat nw = length (e_key ?e) - e_shared ?e" "unat vw = length (e_value ?e)"
  proof (rule DecodeEntry_reads [OF ok i l(1,2)])
    fix q
    assume "DecodeEntry (bv_text bv) (bv_off bv i) l =
      Some (q, of_nat (e_shared ?e), of_nat (length (e_key ?e) - e_shared ?e), of_nat (length (e_value ?e)))"
      "take (length (e_key ?e) - e_shared ?e) (drop q (bv_text bv)) = drop (e_shared ?e) (e_key ?e)"
      "value_at bv i (Some (q + (length (e_key ?e) - e_shared ?e), length (e_value ?e)))"
    then show thesis by (rule that) ((rule unat_of_nat_32, use sh in linarith)+)
  qed
  have zero: "sw = 0 \<longleftrightarrow> e_shared ?e = 0" using words(1) by (metis unat_eq_zero)
  obtain cw :: u32 where cw: "of_nat (bv_off bv i) = cw" "unat cw = bv_off bv i"
    using unat_offset [OF ok, of i] by simp
  have off: "NextEntryOffset it = cw"
    using at cw(1) by (auto simp: before_entry_def NextEntryOffset_def simp flip: of_nat_add)
  define dl where "dl = drop (e_shared ?e) (e_key ?e)"
  define nl where "nl = length (e_key ?e) - e_shared ?e"
  define key where "key = (if e_shared ?e = 0 then ik_SetKey (di_key it) dl False
     else ik_TrimAppend (di_key it) (e_shared ?e) dl)"
  define it1 where "it1 = it\<lparr>di_current := cw, di_key := key, di_key_pinned := (e_shared ?e = 0)\<rparr>"
  have key: "ik_wf key" "ik_GetKey key = take (e_shared ?e) (di_key_bytes it) @ dl"
      "e_shared ?e = 0 \<longleftrightarrow> ik_IsKeyPinned key"
    using wf ik_TrimAppend_GetKey [OF wf(1) shared] ik_TrimAppend_wf [OF wf(1) shared]
      ik_TrimAppend_owned [OF wf(1) shared] ik_SetKeyImpl_GetKey [of "di_key it"] ik_SetKeyImpl_wf [of "di_key it"]
      ik_SetKey_pinned
    by (simp_all add: key_def di_key_bytes_def ik_SetKey_def)
  have "8 \<le> ik_key_size key"
    using ik_GetKey_size [OF key(1)] ik_GetKey_size [OF wf(1)] key(2) shared sh(1) long
    by (simp add: dl_def di_key_bytes_def)
  then obtain k where k: "apply_global_seqno it1 = it1\<lparr>di_key := k, di_key_pinned := False\<rparr>" "ik_wf k"
      "ik_GetKey k = numbered g (take (e_shared ?e) (di_key_bytes it) @ dl)"
    using apply_global_seqno_key [of it1 g] key g by (auto simp: it1_def)
  define it2 where "it2 = it1\<lparr>di_key := k, di_key_pinned := False, di_value := Some (q + nl, length (e_value ?e))\<rparr>"
  define it' where "it' = (if e_shared ?e = 0 then it2\<lparr>di_restart_index := restart_loop (di_restart_index it2) it2\<rparr> else it2)"
  have q2: "take nl (drop q (bv_text bv)) = dl" "unat nw = nl" using q(2) words(2) by (simp_all add: dl_def nl_def)
  have step: "e_shared ?e = 0 \<Longrightarrow>
      it\<lparr>di_current := cw, di_key := ik_SetKey (di_key it) dl False, di_key_pinned := True\<rparr> = it1"
    "e_shared ?e \<noteq> 0 \<Longrightarrow>
      it\<lparr>di_current := cw, di_key := ik_TrimAppend (di_key it) (e_shared ?e) dl, di_key_pinned := False\<rparr> = it1"
    by (simp_all add: it1_def key_def)
  have "ParseNextDataKey DecodeEntry None it = (True, it')"
    using dat(1) cw(2) l(3,4) q(1) q2 words(1,3) shared k(1) step
    by (cases "e_shared ?e = 0") (simp_all add: ParseNextDataKey_def off Let_def it'_def it2_def zero)
  moreover have "before_entry bv (Suc i) it'"
    using q(3) by (cases "e_shared ?e = 0") (simp_all add: it'_def it2_def before_entry_def value_at_def nl_def)
  ultimately show ?thesis
    using rd k cw(1) by (auto simp: it'_def it2_def it1_def reads_with_def di_key_bytes_def dl_def)
qed

text \<open>The first two keys that it shows, the second put together from the first as it is in the buffer.\<close>

lemma first_numbered:
  assumes rd: "reads_with g bv it" and n: "0 < bv_len bv" and long: "8 \<le> length (bv_key bv 0)"
  shows "\<exists>it'. block_do ToFirst it = Some it' \<and> reads_with g bv it' \<and> di_Valid it' \<and>
    before_entry bv 1 it' \<and> di_key_bytes it' = numbered g (bv_key bv 0)"
proof -
  have ok: "block_ok (bv_entries bv) (bv_restarts bv) (bv_tail bv)" and dat: "di_data it = Some (bv_text bv)"
    "di_restarts it = of_nat (bv_off bv (bv_len bv))" using rd by (simp_all add: reads_with_def)
  have sh: "e_shared (bv_entries bv ! 0) = 0"
    using ok n by (cases "bv_entries bv") (simp_all add: block_ok_def)
  obtain pre post where p: "restart_bytes (bv_entries bv) (bv_restarts bv) =
      pre @ EncodeFixed32 (of_nat (bv_off bv (bv_restarts bv ! 0))) @ post" "length pre = 4 * 0"
    using restart_bytes_nth [OF block_ok_rs(1) [OF ok]] by blast
  have "drop (bv_off bv (bv_len bv)) (bv_text bv) = EncodeFixed32 0 @ post @ bv_tail bv"
    using p block_ok_rs(2) [OF ok] by (simp add: block_text_def entry_offset_all)
  then have "GetRestartPoint 0 it = 0"
    using unat_offset [OF ok, of "bv_len bv"] by (simp add: GetRestartPoint_def dat)
  then have "before_entry bv 0 (SeekToRestartPoint 0 it)" by (simp add: SeekToRestartPoint_def before_entry_def)
  moreover have "reads_with g bv (SeekToRestartPoint 0 it)"
    using rd by (simp add: reads_with_def SeekToRestartPoint_def ik_Clear_def ik_wf_def)
  ultimately obtain it' where it': "ParseNextDataKey DecodeEntry None (SeekToRestartPoint 0 it) = (True, it')"
      "reads_with g bv it'" "di_current it' = of_nat (bv_off bv 0)" "before_entry bv (Suc 0) it'"
      "di_key_bytes it' = numbered g (bv_key bv 0)"
    using Parse_numbered [of g bv "SeekToRestartPoint 0 it" 0] n long sh by auto
  moreover have "di_Valid it'"
    using offset_word_less(1) [OF ok, of 0 "bv_len bv"] n it'(2,3) by (simp add: di_Valid_def reads_with_def)
  ultimately show ?thesis using dat(1) by (simp add: di_SeekToFirst_def)
qed

lemma second_numbered:
  assumes rd: "reads_with g bv it" and n: "1 < bv_len bv" and long: "8 \<le> length (bv_key bv 0)" "8 \<le> length (bv_key bv 1)"
  shows "\<exists>it'. block_run [ToFirst, ToNext] it = Some it' \<and> di_Valid it' \<and>
    di_key_bytes it' = numbered g (take (e_shared (bv_entries bv ! 1)) (numbered g (bv_key bv 0)) @
      drop (e_shared (bv_entries bv ! 1)) (bv_key bv 1))"
proof -
  have ok: "block_ok (bv_entries bv) (bv_restarts bv) (bv_tail bv)" using rd by (simp add: reads_with_def)
  have "0 < bv_len bv" using n by linarith
  from first_numbered [OF rd this long(1)] obtain it1 where it1: "block_do ToFirst it = Some it1"
      "reads_with g bv it1" "di_Valid it1" "before_entry bv 1 it1" "di_key_bytes it1 = numbered g (bv_key bv 0)"
    by blast
  have "e_shared (bv_entries bv ! 1) \<le> length (bv_key bv 0)"
    using shares_prefix [of "[]" "bv_entries bv" 1] ok n by (auto simp: block_ok_def)
  moreover have "ik_key_size (di_key it1) = length (bv_key bv 0)"
    using ik_GetKey_size [of "di_key it1"] it1(2,5) length_numbered [OF long(1)]
    by (simp add: reads_with_def di_key_bytes_def)
  ultimately obtain it2 where it2: "ParseNextDataKey DecodeEntry None it1 = (True, it2)" "reads_with g bv it2"
      "di_current it2 = of_nat (bv_off bv 1)"
      "di_key_bytes it2 = numbered g (take (e_shared (bv_entries bv ! 1)) (numbered g (bv_key bv 0)) @
        drop (e_shared (bv_entries bv ! 1)) (bv_key bv 1))"
    using Parse_numbered [OF it1(2,4) n _ long(2)] unfolding it1(5) by auto
  have "di_Valid it2"
    using offset_word_less(1) [OF ok, of 1 "bv_len bv"] n it2(2,3) by (simp add: di_Valid_def reads_with_def)
  with it1(1,3) it2(1,4) show ?thesis by (simp add: di_Next_def)
qed

text \<open>The iterator over a block that was built, and what the second entry of the block shares.\<close>

lemma built_reads_with:
  assumes interval: "2 \<le> interval" and kvs: "kvs = (k1, v1) # (k2, v2) # behind"
    and lens: "\<forall>(k, v)\<in>set kvs. length k < 2 ^ 32 \<and> length v < 2 ^ 32"
    and small: "length (build_block interval delta hash kvs) < 2 ^ 32" and g: "g \<noteq> kDisableGlobalSequenceNumber"
  shows "\<exists>bv. reads_with g bv (NewDataIterator cmp ucmp pinned (Block_new (build_block interval delta hash kvs) g)) \<and>
    1 < bv_len bv \<and> bv_key bv 0 = k1 \<and>
    bv_entries bv ! 1 = (if delta then difference_offset k2 k1 else 0, k2, v2)"
proof -
  let ?empty = "BlockBuilder_new interval delta False hash"
  let ?one = "bb_Add k1 v1 None ?empty" and ?s = "if delta then difference_offset k2 k1 else 0"
  let ?b = "fold (\<lambda>(k, v). bb_Add k v None) kvs ?empty"
  have b0: "bb_counter ?empty = 0" "block_restart_interval ?empty = interval" "use_delta_encoding ?empty = delta"
    "bb_last_key ?empty = []" "\<not> use_value_delta_encoding ?empty"
    by (simp_all add: BlockBuilder_new_def)
  have len: "length k1 < 2 ^ 32" "length v1 < 2 ^ 32" "length k2 < 2 ^ 32" "length v2 < 2 ^ 32"
    "\<forall>(k, v)\<in>set behind. length k < 2 ^ 32 \<and> length v < 2 ^ 32"
    using lens by (auto simp: kvs)
  have "difference_offset k1 [] = 0" using difference_offset_shares [of k1 "[]"] by simp
  then have none: "(if bb_counter ?empty < block_restart_interval ?empty \<and> use_delta_encoding ?empty
      then difference_offset k1 (bb_last_key ?empty) else 0) = 0"
    unfolding b0 by simp
  have "1 \<le> interval" using interval by simp
  from builds_Add [OF builds_new [OF this] len(1,2), of delta hash None, unfolded none] obtain rs1 where
    b1: "builds [(k1, v1)] [(0, k1, v1)] rs1 ?one" by auto
  note add = bb_Add_fields [OF b0(5) refl refl, of k1 v1 None, unfolded b0]
  have f: "bb_counter ?one = 1" "block_restart_interval ?one = interval" "use_delta_encoding ?one = delta"
    "delta \<Longrightarrow> bb_last_key ?one = k1"
    subgoal using add(4) interval by simp
    subgoal by (rule add(5))
    subgoal by (rule add(7))
    subgoal by (rule add(8))
    done
  have "(if bb_counter ?one < block_restart_interval ?one \<and> use_delta_encoding ?one
      then difference_offset k2 (bb_last_key ?one) else 0) = ?s"
    using f interval by simp
  with builds_Add [OF b1 len(3,4), of None] obtain rs2 where
    "builds [(k1, v1), (k2, v2)] [(0, k1, v1), (?s, k2, v2)] rs2 (bb_Add k2 v2 None ?one)" by auto
  from builds_all [OF this len(5)] obtain fs rs where
    b: "builds kvs ([(0, k1, v1), (?s, k2, v2)] @ fs) rs ?b" by (auto simp: kvs)
  let ?es = "[(0, k1, v1), (?s, k2, v2)] @ fs"
  obtain tail n where t: "fst (bb_Finish ?b) = block_text ?es rs tail" "block_ok ?es rs tail" "4 \<le> length tail"
    and blk: "\<And>g. Block_new (block_text ?es rs tail) g = \<lparr>blk_data = block_text ?es rs tail,
        blk_size = length (block_text ?es rs tail), blk_restart_offset = of_nat (length (entries_bytes ?es)),
        blk_num_restarts = of_nat (length rs), blk_global_seqno = g, blk_hash_buckets = n\<rparr>"
    using finished_block [OF b small [unfolded build_block_def]] by blast
  let ?bv = "\<lparr>bv_cmp = cmp, bv_ucmp = ucmp, bv_hash = None, bv_entries = ?es, bv_restarts = rs, bv_tail = tail\<rparr>"
  have "reads_with g ?bv (NewDataIterator cmp ucmp pinned (Block_new (block_text ?es rs tail) g))"
    using t(2) g NewDataIterator_opens(2) [OF t(2) blk t(3)]
    unfolding NewDataIterator_opens(1) [OF t(2) blk t(3)] reads_with_def
    by (simp add: di_Initialize_def di_new_def entry_offset_all del: entries_bytes_simps append_Cons)
  then show ?thesis
    unfolding build_block_def t(1) by (intro exI [of _ ?bv] conjI) simp_all
qed

text \<open>The bytes: the trailer of the number 0 is the type and seven zeros, and the number is written from its
  second byte on.\<close>

lemma zero_trailer: "EncodeFixed64 (PackSequenceAndType 0 t) = t # [0, 0, 0, 0, 0, 0, 0]"
proof -
  have high: "drop_bit n (ucast t :: u64) = 0" if "8 \<le> n" for n
    using that by (intro bit_word_eqI) (auto simp: bit_simps dest: bit_imp_le_length)
  have "ucast (ucast t :: u64) = t"
    by (rule bit_word_eqI) (auto simp: bit_simps)
  then show ?thesis by (simp add: PackSequenceAndType_def EncodeFixed64_def high)
qed

lemma numbered_trailer: "\<exists>r. EncodeFixed64 (push_bit 8 g OR ucast t) = t # ucast g # r \<and> length r = 6"
proof -
  have "ucast (push_bit 8 g OR (ucast t :: u64)) = t"
    by (rule bit_word_eqI) (auto simp: bit_simps)
  moreover have "ucast (drop_bit 8 (push_bit 8 g OR (ucast t :: u64))) = (ucast g :: byte)"
    by (rule bit_word_eqI) (auto simp: bit_simps dest: bit_imp_le_length)
  ultimately show ?thesis by (simp add: EncodeFixed64_def)
qed

lemma common_prefix: "length p \<le> difference_offset (p @ a) (p @ b)"
proof -
  have "length p \<le> length (longest_common_prefix (p @ a) (p @ b))" by (induction p) simp_all
  then show ?thesis by (simp add: difference_offset_lcp)
qed

lemma corrupted_key:
  assumes "s = difference_offset (InternalKey (u @ 1 # 0 # w) 0 t) (InternalKey u 0 kTypeValue)"
  shows "\<exists>rest. ExtractUserKey (numbered g (take s (numbered g (InternalKey u 0 kTypeValue)) @
      drop s (InternalKey (u @ 1 # 0 # w) 0 t))) = u @ 1 # ucast g # rest \<and> length rest = length w"
proof -
  have k: "InternalKey u 0 kTypeValue = (u @ [1, 0]) @ [0, 0, 0, 0, 0, 0]"
    "InternalKey (u @ 1 # 0 # w) 0 t = (u @ [1, 0]) @ w @ t # [0, 0, 0, 0, 0, 0, 0]"
    by (simp_all add: InternalKey_eq zero_trailer)
  have s: "length u + 2 \<le> s" "s \<le> length u + 8"
    using common_prefix [of "u @ [1, 0]" "w @ t # [0, 0, 0, 0, 0, 0, 0]" "[0, 0, 0, 0, 0, 0]"]
      difference_offset_shares [of "InternalKey (u @ 1 # 0 # w) 0 t" "InternalKey u 0 kTypeValue"]
    unfolding assms k by (simp_all del: append_assoc)
  obtain r where r: "numbered g (InternalKey u 0 kTypeValue) = u @ 1 # ucast g # r" "length r = 6"
  proof -
    obtain r where r: "EncodeFixed64 (push_bit 8 g OR ucast (kTypeValue :: ValueType)) = kTypeValue # ucast g # r" "length r = 6"
      using numbered_trailer [of g kTypeValue] by blast
    have "numbered g (InternalKey u 0 kTypeValue) = u @ EncodeFixed64 (push_bit 8 g OR ucast (kTypeValue :: ValueType))"
      unfolding ExtractValueType_InternalKey by (simp add: UpdateInternalKey_def Let_def InternalKey_eq)
    then show thesis unfolding r(1) using r(2) by (intro that [of r]) simp_all
  qed
  define y where "y = take (s - length u - 2) r @ drop (s - length u - 2) (w @ t # [0, 0, 0, 0, 0, 0, 0])"
  have "take s (u @ 1 # ucast g # r) = u @ 1 # ucast g # take (s - length u - 2) r"
    using s by (simp add: take_Cons' numeral_2_eq_2)
  moreover have "drop s ((u @ [1, 0]) @ w @ t # [0, 0, 0, 0, 0, 0, 0]) = drop (s - length u - 2) (w @ t # [0, 0, 0, 0, 0, 0, 0])"
    using s by (simp add: drop_Cons' numeral_2_eq_2)
  ultimately have key: "take s (numbered g (InternalKey u 0 kTypeValue)) @ drop s (InternalKey (u @ 1 # 0 # w) 0 t) =
      u @ 1 # ucast g # y" by (simp only: r(1) k(2) y_def append_assoc append_Cons)
  have len: "length y = length w + 8" using s r(2) by (simp add: y_def)
  then have "ExtractUserKey (numbered g (u @ 1 # ucast g # y)) = u @ 1 # ucast g # take (length w) y"
    by (simp add: ExtractUserKey_def UpdateInternalKey_def Let_def take_Cons' numeral_2_eq_2)
  then show ?thesis unfolding key using len by (intro exI [of _ "take (length w) y"]) simp
qed

text \<open>C39. A block of an ingested file is read with a global sequence number, which the iterator writes over the
  trailer of the key in its buffer. The next key is put together from that buffer, so when it shares bytes
  of the old trailer, the iterator shows a key that was never added: of any block that begins with a
  value of the user key \<open>u\<close> and an entry of the user key \<open>u 1 0 w\<close>, both with the number 0 as such files have
  them, the second entry is shown with the low byte of the number in place of the 0, whenever that byte is
  not 0 itself; without delta encoding of the keys it is shown as it was added.\<close>

theorem global_seqno_corrupts_key:
  assumes "2 \<le> interval"
    and "kvs = (InternalKey u 0 kTypeValue, v1) # (InternalKey (u @ 1 # 0 # w) 0 t, v2) # behind"
    and "\<forall>(k, v)\<in>set kvs. length k < 2 ^ 32 \<and> length v < 2 ^ 32"
    and "\<forall>delta. length (build_block interval delta hash kvs) < 2 ^ 32"
    and "g \<noteq> kDisableGlobalSequenceNumber" "ucast g \<noteq> (0 :: byte)"
    and "iter = (\<lambda>delta. NewDataIterator cmp ucmp pinned (Block_new (build_block interval delta hash kvs) g))"
  shows "\<exists>it rest it'. block_run [ToFirst, ToNext] (iter True) = Some it \<and> di_Valid it \<and>
    ExtractUserKey (di_key_bytes it) = u @ 1 # ucast g # rest \<and> length rest = length w \<and>
    ExtractUserKey (di_key_bytes it) \<noteq> u @ 1 # 0 # w \<and>
    block_run [ToFirst, ToNext] (iter False) = Some it' \<and> di_Valid it' \<and>
    ExtractUserKey (di_key_bytes it') = u @ 1 # 0 # w"
proof -
  let ?k1 = "InternalKey u 0 kTypeValue" and ?k2 = "InternalKey (u @ 1 # 0 # w) 0 t"
  have run: "\<exists>it. block_run [ToFirst, ToNext] (iter delta) = Some it \<and> di_Valid it \<and>
      di_key_bytes it = numbered g (take s (numbered g ?k1) @ drop s ?k2)"
    if s: "s = (if delta then difference_offset ?k2 ?k1 else 0)" for s delta
  proof -
    have small: "length (build_block interval delta hash kvs) < 2 ^ 32" using assms(4) by blast
    obtain bv where bv: "reads_with g bv (iter delta)" "1 < bv_len bv" "bv_key bv 0 = ?k1"
        "bv_entries bv ! 1 = (s, ?k2, v2)"
      using built_reads_with [OF assms(1-3) small assms(5), of cmp ucmp pinned]
      unfolding s assms(7) by (elim exE conjE)
    have "8 \<le> length (bv_key bv 0)" "8 \<le> length (bv_key bv 1)" unfolding bv(3,4) by simp_all
    from second_numbered [OF bv(1,2) this] show ?thesis unfolding bv(3,4) fst_conv snd_conv .
  qed
  from run [of _ True, OF refl] obtain it where it: "block_run [ToFirst, ToNext] (iter True) = Some it" "di_Valid it"
      "di_key_bytes it = numbered g (take (difference_offset ?k2 ?k1) (numbered g ?k1) @ drop (difference_offset ?k2 ?k1) ?k2)"
    by auto
  obtain rest where rest: "ExtractUserKey (di_key_bytes it) = u @ 1 # ucast g # rest" "length rest = length w"
    unfolding it(3) using corrupted_key [OF refl] by blast
  from run [of _ False, OF refl] obtain it' where it': "block_run [ToFirst, ToNext] (iter False) = Some it'" "di_Valid it'"
      "di_key_bytes it' = numbered g ?k2"
    by auto
  have "ExtractUserKey (numbered g ?k2) = u @ 1 # 0 # w"
    by (simp add: ExtractUserKey_def UpdateInternalKey_def Let_def InternalKey_eq)
  with it it' rest assms(6) show ?thesis by auto
qed

lemma global_seqno_corrupts_key_witness:
  "\<exists>it. block_run [ToFirst, ToNext] (NewDataIterator BytewiseComparator BytewiseComparator True
      (Block_new (build_block 16 True None
        [(InternalKey [97] 0 kTypeValue, [1]), (InternalKey [97, 1, 0] 0 kTypeValue, [2])]) 5)) = Some it \<and>
    ExtractUserKey (di_key_bytes it) = [97, 1, 5]"
proof -
  let ?kvs = "[(InternalKey [97] 0 kTypeValue, [1]), (InternalKey [97, 1, 0] 0 kTypeValue, [2])] :: (bytes \<times> bytes) list"
  have "length (build_block 16 True None ?kvs) = 33" "length (build_block 16 False None ?kvs) = 36" by code_simp+
  then have "length (build_block 16 delta None ?kvs) < 2 ^ 32" for delta by (cases delta) simp_all
  then have small: "\<forall>delta. length (build_block 16 delta None ?kvs) < 2 ^ 32" by blast
  have lens: "\<forall>(k, v)\<in>set ?kvs. length k < 2 ^ 32 \<and> length v < 2 ^ 32" by simp
  have kvs: "?kvs = (InternalKey [97] 0 kTypeValue, [1]) # (InternalKey ([97] @ 1 # 0 # []) 0 kTypeValue, [2]) # []" by simp
  have "(5 :: u64) \<noteq> kDisableGlobalSequenceNumber" "ucast (5 :: u64) \<noteq> (0 :: byte)"
    by (simp_all add: kDisableGlobalSequenceNumber_def)
  from global_seqno_corrupts_key [OF _ kvs lens small this refl] show ?thesis by fastforce
qed

section \<open>A damaged entry\<close>

text \<open>C40. The check of an entry against the end of the block adds the two lengths in 32 bits: an entry whose key
  and value lengths add up to \<open>2 ^ 32\<close> passes it, whatever the block, although the block does not hold
  them.\<close>

theorem wrapped_lengths_pass_check:
  assumes "data = pre @ EncodeVarint32 s @ EncodeVarint32 n @ EncodeVarint32 (- n) @ post" "n \<noteq> 0" "length data < 2 ^ 32"
  shows "\<exists>q. CheckAndDecodeEntry data (length pre) (length data) = Some (q, s, n, - n) \<and>
    length data - q < unat n + unat (- n)"
proof -
  define q where "q = length pre + length (EncodeVarint32 s) + length (EncodeVarint32 n) + length (EncodeVarint32 (- n))"
  have q: "length pre + 3 \<le> q" "q \<le> length data"
    using length_EncodeVarint32(1) [of s] length_EncodeVarint32(1) [of n] length_EncodeVarint32(1) [of "- n"] assms(1)
    by (simp_all add: q_def)
  have "DecodeEntry data (length pre) (length data) = Some (q, s, n, - n)"
    by (rule DecodeEntry_enc [OF assms(1) q_def q(2)]) simp
  then have "CheckAndDecodeEntry data (length pre) (length data) = Some (q, s, n, - n)"
    using q by (simp add: CheckAndDecodeEntry_def)
  moreover have "unat n + unat (- n) \<ge> 2 ^ 32"
  proof (rule ccontr)
    assume "\<not> unat n + unat (- n) \<ge> 2 ^ 32"
    then have "unat (n + - n) = unat n + unat (- n)" by (intro unat_add_lem [THEN iffD1]) simp
    then show False using assms(2) unat_gt_0 [of n] by simp
  qed
  ultimately show ?thesis using assms(3) by auto
qed

lemma wrapped_lengths_pass_check_witness:
  "\<exists>q. CheckAndDecodeEntry ([] @ EncodeVarint32 0 @ EncodeVarint32 5 @ EncodeVarint32 (- 5) @ [97]) 0
      (length ([] @ EncodeVarint32 0 @ EncodeVarint32 5 @ EncodeVarint32 (- 5) @ [97 :: byte])) = Some (q, 0, 5, - 5) \<and>
    length ([] @ EncodeVarint32 0 @ EncodeVarint32 5 @ EncodeVarint32 (- 5) @ [97 :: byte]) - q < unat (5 :: u32) + unat (- 5 :: u32)"
proof -
  have "length ([] @ EncodeVarint32 0 @ EncodeVarint32 5 @ EncodeVarint32 (- 5) @ [97 :: byte]) < 2 ^ 32"
    using length_EncodeVarint32(2) [of 0] length_EncodeVarint32(2) [of 5] length_EncodeVarint32(2) [of "- 5"] by simp
  from wrapped_lengths_pass_check [OF refl _ this] show ?thesis by simp
qed

end
