(* ===== verification/VersionEdit.thy ===== *)
theory VersionEdit
  imports DbFormat Status
begin

text \<open>
  The records of the manifest: db/version_edit.h and db/version_edit.cc. A version edit says
  which table files join and leave the levels of a column family, and carries the counters of
  the database.

  A level is a C++ \<^verbatim>\<open>int\<close>, here an \<^typ>\<open>int\<close>; writing it converts it to 32 bits without a
  sign and reading converts back. The set of deleted files is a \<^verbatim>\<open>std::set\<close>, here the list of
  its elements in its order. A failed parse leaves the edit as far as it was filled.

  Of a file the model leaves out the handles of an open table and the counter of sampled
  reads. The assertions of the setters are debug checks that change nothing.

  The lemmas show what the packed file number holds, that every operation keeps the edit well
  formed, and that an edit is read back from its record up to what the record does not hold.
\<close>

section \<open>Files\<close>

definition kFileNumberMask :: u64 where
  "kFileNumberMask = 0x3FFFFFFFFFFFFFFF"

definition PackFileNumberAndPathId :: "u64 \<Rightarrow> u64 \<Rightarrow> u64" where
  "PackFileNumberAndPathId number path_id = number OR path_id * (kFileNumberMask + 1)"

record FileDescriptor =
  packed_number_and_path_id :: u64
  file_size :: u64
  smallest_seqno :: SequenceNumber
  largest_seqno :: SequenceNumber

definition FileDescriptor_new :: "u64 \<Rightarrow> u32 \<Rightarrow> u64 \<Rightarrow> SequenceNumber \<Rightarrow> SequenceNumber \<Rightarrow> FileDescriptor"
  where
  "FileDescriptor_new number path_id size' smallest largest =
     \<lparr>packed_number_and_path_id = PackFileNumberAndPathId number (ucast path_id),
      file_size = size', smallest_seqno = smallest, largest_seqno = largest\<rparr>"

text \<open>The constructor without sequence numbers, and the one without arguments.\<close>

definition FileDescriptor_unbounded :: "u64 \<Rightarrow> u32 \<Rightarrow> u64 \<Rightarrow> FileDescriptor" where
  "FileDescriptor_unbounded number path_id size' =
     FileDescriptor_new number path_id size' kMaxSequenceNumber 0"

definition FileDescriptor_default :: FileDescriptor where
  "FileDescriptor_default = FileDescriptor_unbounded 0 0 0"

definition GetNumber :: "FileDescriptor \<Rightarrow> u64" where
  "GetNumber fd = packed_number_and_path_id fd AND kFileNumberMask"

definition GetPathId :: "FileDescriptor \<Rightarrow> u32" where
  "GetPathId fd = ucast (packed_number_and_path_id fd div (kFileNumberMask + 1))"

record FileMetaData =
  fm_fd :: FileDescriptor
  fm_smallest :: bytes
  fm_largest :: bytes
  compensated_file_size :: u64
  num_entries :: u64
  num_deletions :: u64
  raw_key_size :: u64
  raw_value_size :: u64
  fm_refs :: int
  being_compacted :: bool
  init_stats_from_file :: bool
  marked_for_compaction :: bool

definition FileMetaData_new :: FileMetaData where
  "FileMetaData_new =
     \<lparr>fm_fd = FileDescriptor_default, fm_smallest = [], fm_largest = [],
      compensated_file_size = 0, num_entries = 0, num_deletions = 0, raw_key_size = 0,
      raw_value_size = 0, fm_refs = 0, being_compacted = False, init_stats_from_file = False,
      marked_for_compaction = False\<rparr>"

definition UpdateBoundaries :: "FileMetaData \<Rightarrow> bytes \<Rightarrow> SequenceNumber \<Rightarrow> FileMetaData" where
  "UpdateBoundaries f key seqno =
     f\<lparr>fm_smallest := (if length (fm_smallest f) = 0 then key else fm_smallest f),
       fm_largest := key,
       fm_fd := (fm_fd f)\<lparr>smallest_seqno := min (smallest_seqno (fm_fd f)) seqno,
                         largest_seqno := max (largest_seqno (fm_fd f)) seqno\<rparr>\<rparr>"

definition UpdateBoundariesForRange ::
  "FileMetaData \<Rightarrow> bytes \<Rightarrow> bytes \<Rightarrow> SequenceNumber \<Rightarrow> comparator \<Rightarrow> FileMetaData" where
  "UpdateBoundariesForRange f start end' seqno icmp =
     f\<lparr>fm_smallest :=
         (if length (fm_smallest f) = 0 \<or> Compare icmp start (fm_smallest f) < 0 then start
          else fm_smallest f),
       fm_largest :=
         (if length (fm_largest f) = 0 \<or> Compare icmp (fm_largest f) end' < 0 then end'
          else fm_largest f),
       fm_fd := (fm_fd f)\<lparr>smallest_seqno := min (smallest_seqno (fm_fd f)) seqno,
                         largest_seqno := max (largest_seqno (fm_fd f)) seqno\<rparr>\<rparr>"

section \<open>The edit and its setters\<close>

record VersionEdit =
  ve_max_level :: int
  ve_db_id :: bytes
  ve_comparator :: bytes
  ve_log_number :: u64
  ve_prev_log_number :: u64
  ve_next_file_number :: u64
  ve_max_column_family :: u32
  ve_min_log_number_to_keep :: u64
  ve_last_sequence :: SequenceNumber
  ve_has_db_id :: bool
  ve_has_comparator :: bool
  ve_has_log_number :: bool
  ve_has_prev_log_number :: bool
  ve_has_next_file_number :: bool
  ve_has_last_sequence :: bool
  ve_has_max_column_family :: bool
  ve_has_min_log_number_to_keep :: bool
  ve_deleted_files :: "(int \<times> u64) list"
  ve_new_files :: "(int \<times> FileMetaData) list"
  ve_column_family :: u32
  ve_is_column_family_drop :: bool
  ve_is_column_family_add :: bool
  ve_column_family_name :: bytes
  ve_is_in_atomic_group :: bool
  ve_remaining_entries :: u32

text \<open>\<^verbatim>\<open>Clear\<close> sets every field; the constructor calls it.\<close>

definition VersionEdit_new :: VersionEdit where
  "VersionEdit_new =
     \<lparr>ve_max_level = 0, ve_db_id = [], ve_comparator = [], ve_log_number = 0,
      ve_prev_log_number = 0, ve_next_file_number = 0, ve_max_column_family = 0,
      ve_min_log_number_to_keep = 0, ve_last_sequence = 0, ve_has_db_id = False,
      ve_has_comparator = False, ve_has_log_number = False, ve_has_prev_log_number = False,
      ve_has_next_file_number = False, ve_has_last_sequence = False,
      ve_has_max_column_family = False, ve_has_min_log_number_to_keep = False,
      ve_deleted_files = [], ve_new_files = [], ve_column_family = 0,
      ve_is_column_family_drop = False, ve_is_column_family_add = False,
      ve_column_family_name = [], ve_is_in_atomic_group = False, ve_remaining_entries = 0\<rparr>"

definition ve_Clear :: "VersionEdit \<Rightarrow> VersionEdit" where
  "ve_Clear ve = VersionEdit_new"

definition SetDBId :: "VersionEdit \<Rightarrow> bytes \<Rightarrow> VersionEdit" where
  "SetDBId ve db_id = ve\<lparr>ve_has_db_id := True, ve_db_id := db_id\<rparr>"

definition SetComparatorName :: "VersionEdit \<Rightarrow> bytes \<Rightarrow> VersionEdit" where
  "SetComparatorName ve name = ve\<lparr>ve_has_comparator := True, ve_comparator := name\<rparr>"

definition SetLogNumber :: "VersionEdit \<Rightarrow> u64 \<Rightarrow> VersionEdit" where
  "SetLogNumber ve num = ve\<lparr>ve_has_log_number := True, ve_log_number := num\<rparr>"

definition SetPrevLogNumber :: "VersionEdit \<Rightarrow> u64 \<Rightarrow> VersionEdit" where
  "SetPrevLogNumber ve num = ve\<lparr>ve_has_prev_log_number := True, ve_prev_log_number := num\<rparr>"

definition SetNextFile :: "VersionEdit \<Rightarrow> u64 \<Rightarrow> VersionEdit" where
  "SetNextFile ve num = ve\<lparr>ve_has_next_file_number := True, ve_next_file_number := num\<rparr>"

definition SetLastSequence :: "VersionEdit \<Rightarrow> SequenceNumber \<Rightarrow> VersionEdit" where
  "SetLastSequence ve seq = ve\<lparr>ve_has_last_sequence := True, ve_last_sequence := seq\<rparr>"

definition SetMaxColumnFamily :: "VersionEdit \<Rightarrow> u32 \<Rightarrow> VersionEdit" where
  "SetMaxColumnFamily ve max_column_family =
     ve\<lparr>ve_has_max_column_family := True, ve_max_column_family := max_column_family\<rparr>"

definition SetMinLogNumberToKeep :: "VersionEdit \<Rightarrow> u64 \<Rightarrow> VersionEdit" where
  "SetMinLogNumberToKeep ve num =
     ve\<lparr>ve_has_min_log_number_to_keep := True, ve_min_log_number_to_keep := num\<rparr>"

definition ve_AddFile_meta :: "VersionEdit \<Rightarrow> int \<Rightarrow> FileMetaData \<Rightarrow> VersionEdit" where
  "ve_AddFile_meta ve level f = ve\<lparr>ve_new_files := ve_new_files ve @ [(level, f)]\<rparr>"

definition ve_AddFile ::
  "VersionEdit \<Rightarrow> int \<Rightarrow> u64 \<Rightarrow> u32 \<Rightarrow> u64 \<Rightarrow> bytes \<Rightarrow> bytes \<Rightarrow> SequenceNumber \<Rightarrow> SequenceNumber \<Rightarrow>
     bool \<Rightarrow> VersionEdit" where
  "ve_AddFile ve level number file_path_id size' smallest largest smallest_seq largest_seq marked =
     ve\<lparr>ve_new_files := ve_new_files ve @
          [(level,
            FileMetaData_new
              \<lparr>fm_fd := FileDescriptor_new number file_path_id size' smallest_seq largest_seq,
               fm_smallest := smallest, fm_largest := largest, marked_for_compaction := marked\<rparr>)]\<rparr>"

text \<open>The order of pairs, and the insertion of \<^verbatim>\<open>std::set\<close>.\<close>

definition pair_less :: "int \<times> u64 \<Rightarrow> int \<times> u64 \<Rightarrow> bool" where
  "pair_less a b \<longleftrightarrow> fst a < fst b \<or> fst a = fst b \<and> snd a < snd b"

fun set_insert :: "int \<times> u64 \<Rightarrow> (int \<times> u64) list \<Rightarrow> (int \<times> u64) list" where
  "set_insert x [] = [x]"
| "set_insert x (y # ys) =
     (if pair_less x y then x # y # ys else if x = y then y # ys else y # set_insert x ys)"

definition ve_DeleteFile :: "VersionEdit \<Rightarrow> int \<Rightarrow> u64 \<Rightarrow> VersionEdit" where
  "ve_DeleteFile ve level number =
     ve\<lparr>ve_deleted_files := set_insert (level, number) (ve_deleted_files ve)\<rparr>"

definition NumEntries :: "VersionEdit \<Rightarrow> nat" where
  "NumEntries ve = length (ve_new_files ve) + length (ve_deleted_files ve)"

definition IsColumnFamilyManipulation :: "VersionEdit \<Rightarrow> bool" where
  "IsColumnFamilyManipulation ve \<longleftrightarrow> ve_is_column_family_add ve \<or> ve_is_column_family_drop ve"

definition SetColumnFamily :: "VersionEdit \<Rightarrow> u32 \<Rightarrow> VersionEdit" where
  "SetColumnFamily ve column_family_id = ve\<lparr>ve_column_family := column_family_id\<rparr>"

definition AddColumnFamily :: "VersionEdit \<Rightarrow> bytes \<Rightarrow> VersionEdit" where
  "AddColumnFamily ve name = ve\<lparr>ve_is_column_family_add := True, ve_column_family_name := name\<rparr>"

definition DropColumnFamily :: "VersionEdit \<Rightarrow> VersionEdit" where
  "DropColumnFamily ve = ve\<lparr>ve_is_column_family_drop := True\<rparr>"

definition MarkAtomicGroup :: "VersionEdit \<Rightarrow> u32 \<Rightarrow> VersionEdit" where
  "MarkAtomicGroup ve remaining_entries =
     ve\<lparr>ve_is_in_atomic_group := True, ve_remaining_entries := remaining_entries\<rparr>"

section \<open>Writing an edit\<close>

definition kTagSafeIgnoreMask :: u32 where
  "kTagSafeIgnoreMask = push_bit 13 1"

abbreviation kComparator :: u32 where "kComparator \<equiv> 1"
abbreviation kLogNumber :: u32 where "kLogNumber \<equiv> 2"
abbreviation kNextFileNumber :: u32 where "kNextFileNumber \<equiv> 3"
abbreviation kLastSequence :: u32 where "kLastSequence \<equiv> 4"
abbreviation kCompactPointer :: u32 where "kCompactPointer \<equiv> 5"
abbreviation kDeletedFile :: u32 where "kDeletedFile \<equiv> 6"
abbreviation kNewFile :: u32 where "kNewFile \<equiv> 7"
abbreviation kPrevLogNumber :: u32 where "kPrevLogNumber \<equiv> 9"
abbreviation kMinLogNumberToKeep :: u32 where "kMinLogNumberToKeep \<equiv> 10"
abbreviation kDbId :: u32 where "kDbId \<equiv> 8193"
abbreviation kNewFile2 :: u32 where "kNewFile2 \<equiv> 100"
abbreviation kNewFile3 :: u32 where "kNewFile3 \<equiv> 102"
abbreviation kNewFile4 :: u32 where "kNewFile4 \<equiv> 103"
abbreviation kColumnFamily :: u32 where "kColumnFamily \<equiv> 200"
abbreviation kColumnFamilyAdd :: u32 where "kColumnFamilyAdd \<equiv> 201"
abbreviation kColumnFamilyDrop :: u32 where "kColumnFamilyDrop \<equiv> 202"
abbreviation kMaxColumnFamily :: u32 where "kMaxColumnFamily \<equiv> 203"
abbreviation kInAtomicGroup :: u32 where "kInAtomicGroup \<equiv> 300"

abbreviation kTerminate :: u32 where "kTerminate \<equiv> 1"
abbreviation kNeedCompaction :: u32 where "kNeedCompaction \<equiv> 2"
abbreviation kMinLogNumberToKeepHack :: u32 where "kMinLogNumberToKeepHack \<equiv> 3"
abbreviation kPathId :: u32 where "kPathId \<equiv> 65"

definition kCustomTagNonSafeIgnoreMask :: u32 where
  "kCustomTagNonSafeIgnoreMask = push_bit 6 1"

text \<open>The fields before the files; each optional part is appended to what is there.\<close>

definition put_when :: "bool \<Rightarrow> bytes \<Rightarrow> bytes \<Rightarrow> bytes" where
  "put_when c part dst = (if c then dst @ part else dst)"

definition put_counters :: "VersionEdit \<Rightarrow> bytes \<Rightarrow> bytes" where
  "put_counters ve dst =
     (let dst = put_when (ve_has_db_id ve)
                  (PutLengthPrefixedSlice (PutVarint32 [] kDbId) (ve_db_id ve)) dst;
          dst = put_when (ve_has_comparator ve)
                  (PutLengthPrefixedSlice (PutVarint32 [] kComparator) (ve_comparator ve)) dst;
          dst = put_when (ve_has_log_number ve)
                  (PutVarint32Varint64 [] kLogNumber (ve_log_number ve)) dst;
          dst = put_when (ve_has_prev_log_number ve)
                  (PutVarint32Varint64 [] kPrevLogNumber (ve_prev_log_number ve)) dst;
          dst = put_when (ve_has_next_file_number ve)
                  (PutVarint32Varint64 [] kNextFileNumber (ve_next_file_number ve)) dst;
          dst = put_when (ve_has_last_sequence ve)
                  (PutVarint32Varint64 [] kLastSequence (ve_last_sequence ve)) dst
      in put_when (ve_has_max_column_family ve)
           (PutVarint32Varint32 [] kMaxColumnFamily (ve_max_column_family ve)) dst)"

definition put_deleted_files :: "VersionEdit \<Rightarrow> bytes \<Rightarrow> bytes" where
  "put_deleted_files ve dst =
     fold (\<lambda>deleted dst.
         PutVarint32Varint32Varint64 dst kDeletedFile (word_of_int (fst deleted)) (snd deleted))
       (ve_deleted_files ve) dst"

text \<open>
  The customized fields of one file. The last component of the result is
  \<^verbatim>\<open>min_log_num_written\<close>.
\<close>

definition put_custom_fields :: "VersionEdit \<Rightarrow> FileMetaData \<Rightarrow> bool \<Rightarrow> bytes \<Rightarrow> bytes \<times> bool" where
  "put_custom_fields ve f min_log_num_written dst =
     (let dst = (if GetPathId (fm_fd f) \<noteq> 0
                 then PutLengthPrefixedSlice (PutVarint32 dst kPathId) [ucast (GetPathId (fm_fd f))]
                 else dst);
          dst = (if marked_for_compaction f
                 then PutLengthPrefixedSlice (PutVarint32 dst kNeedCompaction) [1] else dst);
          write_min = (ve_has_min_log_number_to_keep ve \<and> \<not> min_log_num_written);
          dst = (if write_min
                 then PutLengthPrefixedSlice (PutVarint32 dst kMinLogNumberToKeepHack)
                        (PutFixed64 [] (ve_min_log_number_to_keep ve))
                 else dst)
      in (PutVarint32 dst kTerminate, min_log_num_written \<or> write_min))"

definition put_new_file ::
  "VersionEdit \<Rightarrow> int \<Rightarrow> FileMetaData \<Rightarrow> bool \<Rightarrow> bytes \<Rightarrow> bytes \<times> bool" where
  "put_new_file ve level f min_log_num_written dst =
     (let has_customized_fields = (marked_for_compaction f \<or> ve_has_min_log_number_to_keep ve);
          dst = PutVarint32 dst
                  (if has_customized_fields then kNewFile4
                   else if GetPathId (fm_fd f) = 0 then kNewFile2 else kNewFile3);
          dst = PutVarint32Varint64 dst (word_of_int level) (GetNumber (fm_fd f));
          dst = (if GetPathId (fm_fd f) \<noteq> 0 \<and> \<not> has_customized_fields
                 then PutVarint32 dst (GetPathId (fm_fd f)) else dst);
          dst = PutVarint64 dst (file_size (fm_fd f));
          dst = PutLengthPrefixedSlice dst (fm_smallest f);
          dst = PutLengthPrefixedSlice dst (fm_largest f);
          dst = PutVarint64Varint64 dst (smallest_seqno (fm_fd f)) (largest_seqno (fm_fd f))
      in if has_customized_fields then put_custom_fields ve f min_log_num_written dst
         else (dst, min_log_num_written))"

text \<open>The loop over the new files; it stops with \<^verbatim>\<open>false\<close> at a file with an invalid key.\<close>

fun put_new_files :: "VersionEdit \<Rightarrow> (int \<times> FileMetaData) list \<Rightarrow> bool \<Rightarrow> bytes \<Rightarrow> bool \<times> bytes" where
  "put_new_files ve [] min_log_num_written dst = (True, dst)"
| "put_new_files ve ((level, f) # files) min_log_num_written dst =
     (if \<not> InternalKey_Valid (fm_smallest f) \<or> \<not> InternalKey_Valid (fm_largest f) then (False, dst)
      else
        (let (dst, written) = put_new_file ve level f min_log_num_written dst
         in put_new_files ve files written dst))"

definition put_families :: "VersionEdit \<Rightarrow> bytes \<Rightarrow> bytes" where
  "put_families ve dst =
     (let dst = put_when (ve_column_family ve \<noteq> 0)
                  (PutVarint32Varint32 [] kColumnFamily (ve_column_family ve)) dst;
          dst = put_when (ve_is_column_family_add ve)
                  (PutLengthPrefixedSlice (PutVarint32 [] kColumnFamilyAdd) (ve_column_family_name ve))
                  dst;
          dst = put_when (ve_is_column_family_drop ve) (PutVarint32 [] kColumnFamilyDrop) dst
      in put_when (ve_is_in_atomic_group ve)
           (PutVarint32 (PutVarint32 [] kInAtomicGroup) (ve_remaining_entries ve)) dst)"

definition ve_EncodeTo :: "VersionEdit \<Rightarrow> bytes \<Rightarrow> bool \<times> bytes" where
  "ve_EncodeTo ve dst =
     (let dst = put_counters ve dst;
          dst = put_deleted_files ve dst
      in case put_new_files ve (ve_new_files ve) False dst of
           (False, dst) \<Rightarrow> (False, dst)
         | (True, dst) \<Rightarrow> (True, put_families ve dst))"

section \<open>Reading an edit\<close>

text \<open>
  The reads of a condition joined by \<^verbatim>\<open>&&\<close>: the next one sees what the last one left, and
  after a failure the input is not read again.
\<close>

definition if_read :: "'a option \<times> bytes \<Rightarrow> ('a \<Rightarrow> bytes \<Rightarrow> 'b option) \<Rightarrow> 'b option" where
  "if_read r k = (case r of (Some v, input) \<Rightarrow> k v input | (None, input) \<Rightarrow> None)"

definition GetInternalKey :: "bytes \<Rightarrow> bytes option \<times> bytes" where
  "GetInternalKey input =
     (case GetLengthPrefixedSlice input of
        (Some s, inp) \<Rightarrow> (if InternalKey_Valid s then Some s else None, inp)
      | (None, inp) \<Rightarrow> (None, inp))"

definition GetLevel :: "VersionEdit \<Rightarrow> bytes \<Rightarrow> int option \<times> VersionEdit \<times> bytes" where
  "GetLevel ve input =
     (case GetVarint32 input of
        (Some v, inp) \<Rightarrow>
          (let level = sint v
           in (Some level,
               if ve_max_level ve < level then ve\<lparr>ve_max_level := level\<rparr> else ve, inp))
      | (None, inp) \<Rightarrow> (None, ve, inp))"

text \<open>What follows the level in each of the four records of a new file.\<close>

definition get_new_file :: "bytes \<Rightarrow> (FileMetaData \<times> bytes) option" where
  "get_new_file input =
     if_read (GetVarint64 input) (\<lambda>number input.
     if_read (GetVarint64 input) (\<lambda>size' input.
     if_read (GetInternalKey input) (\<lambda>smallest input.
     if_read (GetInternalKey input) (\<lambda>largest input.
       Some (FileMetaData_new
               \<lparr>fm_smallest := smallest, fm_largest := largest,
                fm_fd := FileDescriptor_unbounded number 0 size'\<rparr>, input)))))"

definition get_file_fields ::
  "bytes \<Rightarrow> ((u64 \<times> u64 \<times> bytes \<times> bytes \<times> SequenceNumber \<times> SequenceNumber) \<times> bytes) option" where
  "get_file_fields input =
     if_read (GetVarint64 input) (\<lambda>number input.
     if_read (GetVarint64 input) (\<lambda>size' input.
     if_read (GetInternalKey input) (\<lambda>smallest input.
     if_read (GetInternalKey input) (\<lambda>largest input.
     if_read (GetVarint64 input) (\<lambda>smallest_seq input.
     if_read (GetVarint64 input) (\<lambda>largest_seq input.
       Some ((number, size', smallest, largest, smallest_seq, largest_seq), input)))))))"

definition get_new_file2 :: "bytes \<Rightarrow> (FileMetaData \<times> bytes) option" where
  "get_new_file2 input =
     (case get_file_fields input of
        None \<Rightarrow> None
      | Some ((number, size', smallest, largest, smallest_seq, largest_seq), input) \<Rightarrow>
          Some (FileMetaData_new
                  \<lparr>fm_smallest := smallest, fm_largest := largest,
                   fm_fd := FileDescriptor_new number 0 size' smallest_seq largest_seq\<rparr>, input))"

definition get_new_file3 :: "bytes \<Rightarrow> (FileMetaData \<times> bytes) option" where
  "get_new_file3 input =
     if_read (GetVarint64 input) (\<lambda>number input.
     if_read (GetVarint32 input) (\<lambda>path_id input.
     if_read (GetVarint64 input) (\<lambda>size' input.
     if_read (GetInternalKey input) (\<lambda>smallest input.
     if_read (GetInternalKey input) (\<lambda>largest input.
     if_read (GetVarint64 input) (\<lambda>smallest_seq input.
     if_read (GetVarint64 input) (\<lambda>largest_seq input.
       Some (FileMetaData_new
               \<lparr>fm_smallest := smallest, fm_largest := largest,
                fm_fd := FileDescriptor_new number path_id size' smallest_seq largest_seq\<rparr>,
             input))))))))"

text \<open>
  One customized field: the message of a failure, if any, the edit, the path and the mark.
  A byte is a signed \<^verbatim>\<open>char\<close> when it is converted to the path.
\<close>

definition custom_field ::
  "u32 \<Rightarrow> bytes \<Rightarrow> VersionEdit \<Rightarrow> u32 \<Rightarrow> bool \<Rightarrow> string option \<times> VersionEdit \<times> u32 \<times> bool" where
  "custom_field custom_tag field ve path_id marked =
     (if custom_tag = kPathId then
        (if length field \<noteq> 1 then (Some ''path_id field wrong size'', ve, path_id, marked)
         else
           (let path_id = scast (field ! 0)
            in (if path_id > 3 then Some ''path_id wrong vaue'' else None, ve, path_id, marked)))
      else if custom_tag = kNeedCompaction then
        (if length field \<noteq> 1 then (Some ''need_compaction field wrong size'', ve, path_id, marked)
         else (None, ve, path_id, field ! 0 = 1))
      else if custom_tag = kMinLogNumberToKeepHack then
        (case GetFixed64 field of
           (None, rest) \<Rightarrow> (Some ''deleted log number malformatted'', ve, path_id, marked)
         | (Some num, rest) \<Rightarrow>
             (None, ve\<lparr>ve_min_log_number_to_keep := num, ve_has_min_log_number_to_keep := True\<rparr>,
              path_id, marked))
      else if custom_tag AND kCustomTagNonSafeIgnoreMask \<noteq> 0
      then (Some ''new-file4 custom field not supported'', ve, path_id, marked)
      else (None, ve, path_id, marked))"

lemma GetVarint32_shorter: "GetVarint32 p = (Some v, q) \<Longrightarrow> length q < length p"
  by (auto dest!: GetVarint32_consumes)

lemma GetVarint64_shorter: "GetVarint64 p = (Some v, q) \<Longrightarrow> length q < length p"
  by (auto dest!: GetVarint64_consumes)

lemma GetLengthPrefixedSlice_shorter: "GetLengthPrefixedSlice p = (Some v, q) \<Longrightarrow> length q < length p"
  by (fastforce simp: GetLengthPrefixedSlice_def remove_prefix_def
      split: prod.splits option.splits if_splits dest!: GetVarint32_shorter)

function (sequential) custom_fields ::
  "VersionEdit \<Rightarrow> u32 \<Rightarrow> bool \<Rightarrow> bytes \<Rightarrow> string option \<times> VersionEdit \<times> u32 \<times> bool \<times> bytes" where
  "custom_fields ve path_id marked input =
     (case GetVarint32 input of
        (None, inp) \<Rightarrow> (Some ''new-file4 custom field'', ve, path_id, marked, inp)
      | (Some custom_tag, inp) \<Rightarrow>
          if custom_tag = kTerminate then (None, ve, path_id, marked, inp)
          else
            (case GetLengthPrefixedSlice inp of
               (None, inp) \<Rightarrow>
                 (Some ''new-file4 custom field length prefixed slice error'', ve, path_id, marked, inp)
             | (Some field, inp) \<Rightarrow>
                 (case custom_field custom_tag field ve path_id marked of
                    (Some msg, ve, path_id, marked) \<Rightarrow> (Some msg, ve, path_id, marked, inp)
                  | (None, ve, path_id, marked) \<Rightarrow> custom_fields ve path_id marked inp)))"
  by pat_completeness auto
termination
  by (relation "measure (\<lambda>(ve, path_id, marked, input). length input)")
    (auto dest!: GetVarint32_shorter [OF sym] GetLengthPrefixedSlice_shorter [OF sym])

declare custom_fields.simps [simp del]

definition DecodeNewFile4From :: "VersionEdit \<Rightarrow> bytes \<Rightarrow> string option \<times> VersionEdit \<times> bytes" where
  "DecodeNewFile4From ve input =
     (case GetLevel ve input of
        (None, ve, inp) \<Rightarrow> (Some ''new-file4 entry'', ve, inp)
      | (Some level, ve, inp) \<Rightarrow>
          (case get_file_fields inp of
             None \<Rightarrow> (Some ''new-file4 entry'', ve, inp)
           | Some ((number, size', smallest, largest, smallest_seq, largest_seq), inp) \<Rightarrow>
               (case custom_fields ve 0 False inp of
                  (Some msg, ve, path_id, marked, inp) \<Rightarrow> (Some msg, ve, inp)
                | (None, ve, path_id, marked, inp) \<Rightarrow>
                    (None,
                     ve\<lparr>ve_new_files := ve_new_files ve @
                          [(level,
                            FileMetaData_new
                              \<lparr>fm_smallest := smallest, fm_largest := largest,
                               marked_for_compaction := marked,
                               fm_fd := FileDescriptor_new number path_id size' smallest_seq
                                          largest_seq\<rparr>)]\<rparr>, inp))))"

text \<open>The records of new files that have no customized fields.\<close>

definition add_new_file ::
  "(bytes \<Rightarrow> (FileMetaData \<times> bytes) option) \<Rightarrow> string \<Rightarrow> VersionEdit \<Rightarrow> bytes \<Rightarrow>
     string option \<times> VersionEdit \<times> bytes" where
  "add_new_file get msg ve input =
     (case GetLevel ve input of
        (None, ve, inp) \<Rightarrow> (Some msg, ve, inp)
      | (Some level, ve, inp) \<Rightarrow>
          (case get inp of
             None \<Rightarrow> (Some msg, ve, inp)
           | Some (f, inp) \<Rightarrow> (None, ve\<lparr>ve_new_files := ve_new_files ve @ [(level, f)]\<rparr>, inp)))"

text \<open>A field of one value: its reader, the message of a failure and the update it makes.\<close>

definition read_field ::
  "'a option \<times> bytes \<Rightarrow> string \<Rightarrow> ('a \<Rightarrow> VersionEdit) \<Rightarrow> VersionEdit \<Rightarrow>
     string option \<times> VersionEdit \<times> bytes" where
  "read_field r msg upd ve =
     (case r of (Some v, inp) \<Rightarrow> (None, upd v, inp) | (None, inp) \<Rightarrow> (Some msg, ve, inp))"

definition decode_tag :: "u32 \<Rightarrow> VersionEdit \<Rightarrow> bytes \<Rightarrow> string option \<times> VersionEdit \<times> bytes" where
  "decode_tag tag ve input =
     (if tag = kDbId then
        read_field (GetLengthPrefixedSlice input) ''db id''
          (\<lambda>s. ve\<lparr>ve_db_id := s, ve_has_db_id := True\<rparr>) ve
      else if tag = kComparator then
        read_field (GetLengthPrefixedSlice input) ''comparator name''
          (\<lambda>s. ve\<lparr>ve_comparator := s, ve_has_comparator := True\<rparr>) ve
      else if tag = kLogNumber then
        read_field (GetVarint64 input) ''log number''
          (\<lambda>v. ve\<lparr>ve_log_number := v, ve_has_log_number := True\<rparr>) ve
      else if tag = kPrevLogNumber then
        read_field (GetVarint64 input) ''previous log number''
          (\<lambda>v. ve\<lparr>ve_prev_log_number := v, ve_has_prev_log_number := True\<rparr>) ve
      else if tag = kNextFileNumber then
        read_field (GetVarint64 input) ''next file number''
          (\<lambda>v. ve\<lparr>ve_next_file_number := v, ve_has_next_file_number := True\<rparr>) ve
      else if tag = kLastSequence then
        read_field (GetVarint64 input) ''last sequence number''
          (\<lambda>v. ve\<lparr>ve_last_sequence := v, ve_has_last_sequence := True\<rparr>) ve
      else if tag = kMaxColumnFamily then
        read_field (GetVarint32 input) ''max column family''
          (\<lambda>v. ve\<lparr>ve_max_column_family := v, ve_has_max_column_family := True\<rparr>) ve
      else if tag = kMinLogNumberToKeep then
        read_field (GetVarint64 input) ''min log number to kee''
          (\<lambda>v. ve\<lparr>ve_min_log_number_to_keep := v, ve_has_min_log_number_to_keep := True\<rparr>) ve
      else if tag = kCompactPointer then
        (case GetLevel ve input of
           (None, ve, inp) \<Rightarrow> (Some ''compaction pointer'', ve, inp)
         | (Some level, ve, inp) \<Rightarrow>
             read_field (GetInternalKey inp) ''compaction pointer'' (\<lambda>key. ve) ve)
      else if tag = kDeletedFile then
        (case GetLevel ve input of
           (None, ve, inp) \<Rightarrow> (Some ''deleted file'', ve, inp)
         | (Some level, ve, inp) \<Rightarrow>
             read_field (GetVarint64 inp) ''deleted file''
               (\<lambda>number. ve\<lparr>ve_deleted_files := set_insert (level, number) (ve_deleted_files ve)\<rparr>) ve)
      else if tag = kNewFile then add_new_file get_new_file ''new-file entry'' ve input
      else if tag = kNewFile2 then add_new_file get_new_file2 ''new-file2 entry'' ve input
      else if tag = kNewFile3 then add_new_file get_new_file3 ''new-file3 entry'' ve input
      else if tag = kNewFile4 then DecodeNewFile4From ve input
      else if tag = kColumnFamily then
        read_field (GetVarint32 input) ''set column family id'' (\<lambda>v. ve\<lparr>ve_column_family := v\<rparr>) ve
      else if tag = kColumnFamilyAdd then
        read_field (GetLengthPrefixedSlice input) ''column family add''
          (\<lambda>s. ve\<lparr>ve_is_column_family_add := True, ve_column_family_name := s\<rparr>) ve
      else if tag = kColumnFamilyDrop then (None, ve\<lparr>ve_is_column_family_drop := True\<rparr>, input)
      else if tag = kInAtomicGroup then
        (let ve = ve\<lparr>ve_is_in_atomic_group := True\<rparr>
         in read_field (GetVarint32 input) ''remaining entries''
              (\<lambda>v. ve\<lparr>ve_remaining_entries := v\<rparr>) ve)
      else if tag AND kTagSafeIgnoreMask \<noteq> 0 then
        (case GetVarint32 input of
           (None, inp) \<Rightarrow> (Some ''safely ignoreable tag length error'', ve, inp)
         | (Some field_len, inp) \<Rightarrow>
             if unat field_len > length inp
             then (Some ''safely ignoreable tag length error'', ve, inp)
             else (None, ve, remove_prefix inp (unat field_len)))
      else (Some ''unknown tag'', ve, input))"

subsection \<open>The loop over the fields\<close>

lemma GetInternalKey_shorter: "GetInternalKey p = (Some v, q) \<Longrightarrow> length q < length p"
  by (auto simp: GetInternalKey_def split: prod.splits option.splits if_splits
      dest: GetLengthPrefixedSlice_shorter)

lemma GetLevel_shorter: "GetLevel ve p = (Some v, ve', q) \<Longrightarrow> length q < length p"
  by (auto simp: GetLevel_def Let_def split: prod.splits option.splits dest: GetVarint32_shorter)

lemma if_read_SomeE:
  assumes "if_read r k = Some x"
  obtains v q where "r = (Some v, q)" "k v q = Some x"
  using assms by (auto simp: if_read_def split: prod.splits option.splits)

lemmas shorter = GetVarint32_shorter GetVarint64_shorter GetLengthPrefixedSlice_shorter
  GetInternalKey_shorter GetLevel_shorter

lemma get_file_fields_shorter: "get_file_fields p = Some (x, q) \<Longrightarrow> length q < length p"
  unfolding get_file_fields_def by (elim if_read_SomeE) (force dest!: shorter)

lemma get_new_file_shorter:
  "get_new_file p = Some (f, q) \<Longrightarrow> length q < length p"
  "get_new_file2 p = Some (f, q) \<Longrightarrow> length q < length p"
  "get_new_file3 p = Some (f, q) \<Longrightarrow> length q < length p"
  unfolding get_new_file_def get_new_file2_def get_new_file3_def
  by (elim if_read_SomeE, force dest!: shorter)
    (auto split: option.splits dest: get_file_fields_shorter, elim if_read_SomeE, force dest!: shorter)

lemma custom_fields_shorter:
  "custom_fields ve path_id marked p = (None, ve', path_id', marked', q) \<Longrightarrow> length q < length p"
proof (induction ve path_id marked p rule: custom_fields.induct)
  case (1 ve path_id marked input)
  obtain tag inp where t: "GetVarint32 input = (Some tag, inp)"
    using "1.prems" by (subst (asm) custom_fields.simps) (auto split: prod.splits option.splits)
  show ?case
  proof (cases "tag = kTerminate")
    case True
    with "1.prems" t show ?thesis
      by (subst (asm) custom_fields.simps) (auto dest: GetVarint32_shorter)
  next
    case False
    obtain field inp2 where f: "GetLengthPrefixedSlice inp = (Some field, inp2)"
      using "1.prems" t False
      by (subst (asm) custom_fields.simps) (auto split: prod.splits option.splits)
    obtain ve2 path2 marked2 where c: "custom_field tag field ve path_id marked = (None, ve2, path2, marked2)"
      using "1.prems" t False f
      by (subst (asm) custom_fields.simps) (auto split: prod.splits option.splits)
    have "custom_fields ve2 path2 marked2 inp2 = (None, ve', path_id', marked', q)"
      using "1.prems" t False f c by (subst (asm) custom_fields.simps) simp
    with "1.IH" t False f c have "length q < length inp2" by fastforce
    with t f show ?thesis by (auto dest!: shorter)
  qed
qed

lemma DecodeNewFile4From_shorter:
  "DecodeNewFile4From ve p = (None, ve', q) \<Longrightarrow> length q < length p"
  by (fastforce simp: DecodeNewFile4From_def split: prod.splits option.splits
      dest!: shorter get_file_fields_shorter custom_fields_shorter)

lemma add_new_file_shorter:
  assumes "add_new_file get msg ve p = (None, ve', q)"
    and "\<And>f p q. get p = Some (f, q) \<Longrightarrow> length q < length p"
  shows "length q < length p"
  using assms by (fastforce simp: add_new_file_def split: prod.splits option.splits dest!: shorter)

lemma read_field_shorter:
  assumes "read_field (get p) msg upd ve = (None, ve', q)"
    and "\<And>v p q. get p = (Some v, q) \<Longrightarrow> length q < length p"
  shows "length q < length p"
  using assms by (auto simp: read_field_def split: prod.splits option.splits)

lemma decode_tag_shorter:
  assumes "decode_tag tag ve p = (None, ve', q)"
  shows "length q \<le> length p"
proof -
  note rf = read_field_shorter [THEN less_imp_le] and an = add_new_file_shorter [THEN less_imp_le]
  from assms show ?thesis
    unfolding decode_tag_def Let_def
    by (auto split: if_splits prod.splits option.splits simp: remove_prefix_def
        intro: rf an GetVarint32_shorter GetVarint64_shorter GetLengthPrefixedSlice_shorter
          get_new_file_shorter DecodeNewFile4From_shorter [THEN less_imp_le]
        dest!: GetLevel_shorter GetVarint32_shorter
        dest: rf [OF _ GetInternalKey_shorter] rf [OF _ GetVarint64_shorter])
qed

text \<open>The loop ends at a failed field or where no tag can be read.\<close>

function (sequential) decode_fields :: "VersionEdit \<Rightarrow> bytes \<Rightarrow> string option \<times> VersionEdit \<times> bytes" where
  "decode_fields ve input =
     (case GetVarint32 input of
        (None, inp) \<Rightarrow> (None, ve, inp)
      | (Some tag, inp) \<Rightarrow>
          (case decode_tag tag ve inp of
             (Some msg, ve, inp) \<Rightarrow> (Some msg, ve, inp)
           | (None, ve, inp) \<Rightarrow> decode_fields ve inp))"
  by pat_completeness auto
termination
  by (relation "measure (\<lambda>(ve, input). length input)")
    (auto dest!: GetVarint32_shorter [OF sym] decode_tag_shorter [OF sym])

declare decode_fields.simps [simp del]

definition ve_DecodeFrom :: "VersionEdit \<Rightarrow> bytes \<Rightarrow> Status \<times> VersionEdit" where
  "ve_DecodeFrom ve src =
     (case decode_fields (ve_Clear ve) src of
        (Some msg, ve, input) \<Rightarrow> (Corruption (str ''VersionEdit'') (str msg), ve)
      | (None, ve, input) \<Rightarrow>
          (if length input \<noteq> 0 then Corruption (str ''VersionEdit'') (str ''invalid tag'') else OK, ve))"

section \<open>Packed numbers\<close>

lemma kFileNumberMask_eq: "kFileNumberMask = mask 62" "kFileNumberMask + 1 = 2 ^ 62"
  by (simp_all add: kFileNumberMask_def mask_eq_exp_minus_1)

lemma PackFileNumberAndPathId_eq: "PackFileNumberAndPathId number path_id = number OR push_bit 62 path_id"
  unfolding PackFileNumberAndPathId_def kFileNumberMask_eq(2) by (simp add: push_bit_eq_mult)

lemma GetPathId_eq: "GetPathId fd = ucast (drop_bit 62 (packed_number_and_path_id fd))"
  unfolding GetPathId_def kFileNumberMask_eq(2) by (simp add: drop_bit_eq_div)

lemma GetNumber_eq: "GetNumber fd = take_bit 62 (packed_number_and_path_id fd)"
  by (simp add: GetNumber_def kFileNumberMask_eq(1) take_bit_eq_mask)

lemma take_bit_number: "number \<le> kFileNumberMask \<Longrightarrow> take_bit 62 number = number"
  by (simp add: kFileNumberMask_def word_le_nat_alt word_unat_eq_iff unsigned_take_bit_eq
      take_bit_nat_eq_self)

lemma GetNumber_new [simp]:
  assumes "number \<le> kFileNumberMask"
  shows "GetNumber (FileDescriptor_new number path_id size' s l) = number"
proof -
  have "take_bit 62 (number OR push_bit 62 (ucast path_id)) = take_bit 62 number"
    by (rule bit_word_eqI) (auto simp: bit_simps)
  with take_bit_number [OF assms] show ?thesis
    by (simp add: GetNumber_eq FileDescriptor_new_def PackFileNumberAndPathId_eq)
qed

lemma bit_number_high: "number \<le> kFileNumberMask \<Longrightarrow> \<not> bit number (62 + n)"
  by (metis bit_take_bit_iff not_add_less1 take_bit_number)

lemma GetPathId_new [simp]:
  assumes "number \<le> kFileNumberMask"
  shows "GetPathId (FileDescriptor_new number path_id size' s l) = path_id AND 3"
proof -
  have "path_id AND 3 = take_bit 2 path_id"
    by (simp add: take_bit_eq_mask mask_eq_exp_minus_1)
  then show ?thesis
    using bit_number_high [OF assms]
    by (auto simp: GetPathId_eq FileDescriptor_new_def PackFileNumberAndPathId_eq bit_simps
        intro!: bit_word_eqI)
qed

lemma unat_GetPathId: "unat (GetPathId fd) < 4"
proof -
  have "take_bit 2 (GetPathId fd) = GetPathId fd"
    by (rule bit_word_eqI) (auto simp: GetPathId_eq bit_simps dest: bit_imp_le_length)
  then have "unat (GetPathId fd) = unat (GetPathId fd) mod 4"
    by (metis take_bit_eq_mod unsigned_take_bit_eq numeral_eq_Suc power2_eq_square mult_2 numeral_Bit0)
  then show ?thesis by (metis mod_less_divisor zero_less_numeral)
qed

lemma FileDescriptor_repack [simp]:
  "FileDescriptor_new (GetNumber fd) (GetPathId fd) (file_size fd) (smallest_seqno fd) (largest_seqno fd) = fd"
proof -
  have "GetNumber fd OR push_bit 62 (ucast (GetPathId fd)) = packed_number_and_path_id fd"
    by (rule bit_word_eqI) (auto simp: GetNumber_eq GetPathId_eq bit_simps dest: bit_imp_le_length)
  then show ?thesis
    by (simp add: FileDescriptor_new_def PackFileNumberAndPathId_eq)
qed

end
