(* ===== verification/EditRoundtrip.thy ===== *)
theory EditRoundtrip
  imports VersionEdit
begin

text \<open>
  Reading back the record of a version edit. The edits are those that the operations of the
  class build from an empty one; \<open>persisted\<close> is the part of an edit that its record holds.

  The record does not hold the statistics of the files; the highest level is recomputed; and
  the number of the oldest log to keep travels in the record of the first new file, so that an
  edit without new files loses it.
\<close>

section \<open>Edits that operations build\<close>

datatype edit_op =
    EClear | ESetDBId bytes | ESetComparatorName bytes | ESetLogNumber u64
  | ESetPrevLogNumber u64 | ESetNextFile u64 | ESetLastSequence SequenceNumber
  | ESetMaxColumnFamily u32 | ESetMinLogNumberToKeep u64
  | EAddFile int u64 u32 u64 bytes bytes SequenceNumber SequenceNumber bool
  | EAddFile_meta int FileMetaData | EDeleteFile int u64 | ESetColumnFamily u32
  | EAddColumnFamily bytes | EDropColumnFamily | EMarkAtomicGroup u32

fun edit_apply :: "edit_op \<Rightarrow> VersionEdit \<Rightarrow> VersionEdit" where
  "edit_apply EClear ve = ve_Clear ve"
| "edit_apply (ESetDBId s) ve = SetDBId ve s"
| "edit_apply (ESetComparatorName s) ve = SetComparatorName ve s"
| "edit_apply (ESetLogNumber n) ve = SetLogNumber ve n"
| "edit_apply (ESetPrevLogNumber n) ve = SetPrevLogNumber ve n"
| "edit_apply (ESetNextFile n) ve = SetNextFile ve n"
| "edit_apply (ESetLastSequence n) ve = SetLastSequence ve n"
| "edit_apply (ESetMaxColumnFamily n) ve = SetMaxColumnFamily ve n"
| "edit_apply (ESetMinLogNumberToKeep n) ve = SetMinLogNumberToKeep ve n"
| "edit_apply (EAddFile level number path sz smallest largest s l marked) ve =
     ve_AddFile ve level number path sz smallest largest s l marked"
| "edit_apply (EAddFile_meta level f) ve = ve_AddFile_meta ve level f"
| "edit_apply (EDeleteFile level number) ve = ve_DeleteFile ve level number"
| "edit_apply (ESetColumnFamily n) ve = SetColumnFamily ve n"
| "edit_apply (EAddColumnFamily s) ve = AddColumnFamily ve s"
| "edit_apply EDropColumnFamily ve = DropColumnFamily ve"
| "edit_apply (EMarkAtomicGroup n) ve = MarkAtomicGroup ve n"

text \<open>
  What the arguments have to be: a level fits in an \<^verbatim>\<open>int\<close>, a string in its 32-bit length, and
  the boundaries of a file are internal keys.
\<close>

definition level_ok :: "int \<Rightarrow> bool" where
  "level_ok level \<longleftrightarrow> - (2 ^ 31) \<le> level \<and> level < 2 ^ 31"

definition string_ok :: "bytes \<Rightarrow> bool" where
  "string_ok s \<longleftrightarrow> length s < 2 ^ 32"

definition boundary_ok :: "bytes \<Rightarrow> bool" where
  "boundary_ok k \<longleftrightarrow> string_ok k \<and> InternalKey_Valid k"

fun op_ok :: "edit_op \<Rightarrow> bool" where
  "op_ok (ESetDBId s) \<longleftrightarrow> string_ok s"
| "op_ok (ESetComparatorName s) \<longleftrightarrow> string_ok s"
| "op_ok (EAddFile level number path sz smallest largest s l marked) \<longleftrightarrow>
     level_ok level \<and> boundary_ok smallest \<and> boundary_ok largest"
| "op_ok (EAddFile_meta level f) \<longleftrightarrow>
     level_ok level \<and> boundary_ok (fm_smallest f) \<and> boundary_ok (fm_largest f)"
| "op_ok (EDeleteFile level number) \<longleftrightarrow> level_ok level"
| "op_ok (EAddColumnFamily s) \<longleftrightarrow> string_ok s"
| "op_ok _ \<longleftrightarrow> True"

text \<open>A field that is not set has its default; the deleted files are in order.\<close>

definition defaults_ok :: "VersionEdit \<Rightarrow> bool" where
  "defaults_ok ve \<longleftrightarrow>
     (\<not> ve_has_db_id ve \<longrightarrow> ve_db_id ve = []) \<and> (\<not> ve_has_comparator ve \<longrightarrow> ve_comparator ve = []) \<and>
     (\<not> ve_has_log_number ve \<longrightarrow> ve_log_number ve = 0) \<and>
     (\<not> ve_has_prev_log_number ve \<longrightarrow> ve_prev_log_number ve = 0) \<and>
     (\<not> ve_has_next_file_number ve \<longrightarrow> ve_next_file_number ve = 0) \<and>
     (\<not> ve_has_last_sequence ve \<longrightarrow> ve_last_sequence ve = 0) \<and>
     (\<not> ve_has_max_column_family ve \<longrightarrow> ve_max_column_family ve = 0) \<and>
     (\<not> ve_is_column_family_add ve \<longrightarrow> ve_column_family_name ve = []) \<and>
     (\<not> ve_is_in_atomic_group ve \<longrightarrow> ve_remaining_entries ve = 0)"

definition contents_ok :: "VersionEdit \<Rightarrow> bool" where
  "contents_ok ve \<longleftrightarrow>
     string_ok (ve_db_id ve) \<and> string_ok (ve_comparator ve) \<and> string_ok (ve_column_family_name ve) \<and>
     sorted_wrt pair_less (ve_deleted_files ve) \<and>
     (\<forall>d \<in> set (ve_deleted_files ve). level_ok (fst d)) \<and>
     (\<forall>nf \<in> set (ve_new_files ve).
        level_ok (fst nf) \<and> boundary_ok (fm_smallest (snd nf)) \<and> boundary_ok (fm_largest (snd nf)))"

definition edit_ok :: "VersionEdit \<Rightarrow> bool" where
  "edit_ok ve \<longleftrightarrow> defaults_ok ve \<and> contents_ok ve"

lemma pair_less_trans: "pair_less a b \<Longrightarrow> pair_less b c \<Longrightarrow> pair_less a c"
  by (auto simp: pair_less_def)

lemma pair_less_total: "\<not> pair_less a b \<Longrightarrow> a \<noteq> b \<Longrightarrow> pair_less b a"
  by (cases a; cases b) (auto simp: pair_less_def)

lemma set_set_insert [simp]: "set (set_insert x xs) = insert x (set xs)"
  by (induction xs) auto

lemma sorted_set_insert: "sorted_wrt pair_less xs \<Longrightarrow> sorted_wrt pair_less (set_insert x xs)"
  by (induction xs) (auto intro: pair_less_trans pair_less_total)

lemma set_insert_last: "\<forall>y \<in> set xs. pair_less y x \<Longrightarrow> set_insert x xs = xs @ [x]"
  by (induction xs) (auto simp: pair_less_def)

lemma fold_set_insert: "sorted_wrt pair_less (ys @ xs) \<Longrightarrow> fold set_insert xs ys = ys @ xs"
  by (induction xs arbitrary: ys) (simp_all add: sorted_wrt_append set_insert_last)

lemma edit_ok_new: "edit_ok VersionEdit_new"
  by (simp add: edit_ok_def defaults_ok_def contents_ok_def VersionEdit_new_def string_ok_def)

lemmas setter_defs = SetDBId_def SetComparatorName_def SetLogNumber_def SetPrevLogNumber_def
  SetNextFile_def SetLastSequence_def SetMaxColumnFamily_def SetMinLogNumberToKeep_def
  SetColumnFamily_def AddColumnFamily_def DropColumnFamily_def MarkAtomicGroup_def
  ve_AddFile_def ve_AddFile_meta_def ve_DeleteFile_def

lemma edit_ok_apply [valid]: "edit_ok ve \<Longrightarrow> op_ok op \<Longrightarrow> edit_ok (edit_apply op ve)"
  by (cases op)
    (auto simp: edit_ok_def defaults_ok_def contents_ok_def setter_defs ve_Clear_def
      edit_ok_new [unfolded edit_ok_def defaults_ok_def contents_ok_def, simplified] sorted_set_insert
      VersionEdit_new_def string_ok_def FileMetaData_new_def)

definition build_edit :: "edit_op list \<Rightarrow> VersionEdit" where
  "build_edit ops = fold edit_apply ops VersionEdit_new"

lemma edit_ok_build: "\<forall>op \<in> set ops. op_ok op \<Longrightarrow> edit_ok (build_edit ops)"
proof -
  have "edit_ok ve \<Longrightarrow> \<forall>op \<in> set ops. op_ok op \<Longrightarrow> edit_ok (fold edit_apply ops ve)" for ve
    by (induction ops arbitrary: ve) (auto intro: valid)
  then show "\<forall>op \<in> set ops. op_ok op \<Longrightarrow> edit_ok (build_edit ops)"
    by (simp add: build_edit_def edit_ok_new)
qed

section \<open>What a record holds\<close>

definition persisted_file :: "FileMetaData \<Rightarrow> FileMetaData" where
  "persisted_file f =
     FileMetaData_new
       \<lparr>fm_fd := fm_fd f, fm_smallest := fm_smallest f, fm_largest := fm_largest f,
        marked_for_compaction := marked_for_compaction f\<rparr>"

definition highest_level :: "int list \<Rightarrow> int \<Rightarrow> int" where
  "highest_level levels m = fold max levels m"

definition persisted :: "VersionEdit \<Rightarrow> VersionEdit" where
  "persisted ve =
     ve\<lparr>ve_max_level :=
          highest_level (map fst (ve_new_files ve)) (highest_level (map fst (ve_deleted_files ve)) 0),
        ve_new_files := map (apsnd persisted_file) (ve_new_files ve),
        ve_has_min_log_number_to_keep := ve_has_min_log_number_to_keep ve \<and> ve_new_files ve \<noteq> [],
        ve_min_log_number_to_keep :=
          (if ve_has_min_log_number_to_keep ve \<and> ve_new_files ve \<noteq> []
           then ve_min_log_number_to_keep ve else 0)\<rparr>"

section \<open>One field after the other\<close>

lemma decode_fields_tag:
  "decode_fields ve (EncodeVarint32 tag @ rest) =
     (case decode_tag tag ve rest of
        (Some msg, ve, inp) \<Rightarrow> (Some msg, ve, inp)
      | (None, ve, inp) \<Rightarrow> decode_fields ve inp)"
  by (subst decode_fields.simps) simp

lemma decode_fields_Nil: "decode_fields ve [] = (None, ve, [])"
  by (subst decode_fields.simps)
    (simp add: GetVarint32_def GetVarint32Ptr_def GetVarint32PtrFallback_def)

lemma put_when_append: "put_when c part dst = dst @ put_when c part []"
  by (simp add: put_when_def)

lemmas put_defs = PutVarint32_def PutVarint64_def PutVarint32Varint64_def PutVarint32Varint32_def
  PutVarint64Varint64_def PutVarint32Varint32Varint64_def

lemma put_prefixed:
  "PutLengthPrefixedSlice (PutVarint32 [] t) s @ rest = EncodeVarint32 t @ PutLengthPrefixedSlice [] s @ rest"
  by (subst PutLengthPrefixedSlice_append) (simp add: PutVarint32_def)

lemma decode_strings:
  assumes "string_ok s"
  shows
    "decode_fields ve (put_when c (PutLengthPrefixedSlice (PutVarint32 [] kDbId) s) [] @ rest) =
       decode_fields (ve\<lparr>ve_db_id := if c then s else ve_db_id ve,
                        ve_has_db_id := c \<or> ve_has_db_id ve\<rparr>) rest"
    "decode_fields ve (put_when c (PutLengthPrefixedSlice (PutVarint32 [] kComparator) s) [] @ rest) =
       decode_fields (ve\<lparr>ve_comparator := if c then s else ve_comparator ve,
                        ve_has_comparator := c \<or> ve_has_comparator ve\<rparr>) rest"
    "decode_fields ve (put_when c (PutLengthPrefixedSlice (PutVarint32 [] kColumnFamilyAdd) s) [] @ rest) =
       decode_fields (ve\<lparr>ve_is_column_family_add := c \<or> ve_is_column_family_add ve,
                        ve_column_family_name := if c then s else ve_column_family_name ve\<rparr>) rest"
  using assms
  by (cases ve; simp add: put_when_def put_prefixed decode_fields_tag
      decode_tag_def read_field_def string_ok_def)+

lemma decode_numbers:
  "decode_fields ve (put_when c (PutVarint32Varint64 [] kLogNumber v) [] @ rest) =
     decode_fields (ve\<lparr>ve_log_number := if c then v else ve_log_number ve,
                      ve_has_log_number := c \<or> ve_has_log_number ve\<rparr>) rest"
  "decode_fields ve (put_when c (PutVarint32Varint64 [] kPrevLogNumber v) [] @ rest) =
     decode_fields (ve\<lparr>ve_prev_log_number := if c then v else ve_prev_log_number ve,
                      ve_has_prev_log_number := c \<or> ve_has_prev_log_number ve\<rparr>) rest"
  "decode_fields ve (put_when c (PutVarint32Varint64 [] kNextFileNumber v) [] @ rest) =
     decode_fields (ve\<lparr>ve_next_file_number := if c then v else ve_next_file_number ve,
                      ve_has_next_file_number := c \<or> ve_has_next_file_number ve\<rparr>) rest"
  "decode_fields ve (put_when c (PutVarint32Varint64 [] kLastSequence v) [] @ rest) =
     decode_fields (ve\<lparr>ve_last_sequence := if c then v else ve_last_sequence ve,
                      ve_has_last_sequence := c \<or> ve_has_last_sequence ve\<rparr>) rest"
  "decode_fields ve (put_when c (PutVarint32Varint32 [] kMaxColumnFamily w) [] @ rest) =
     decode_fields (ve\<lparr>ve_max_column_family := if c then w else ve_max_column_family ve,
                      ve_has_max_column_family := c \<or> ve_has_max_column_family ve\<rparr>) rest"
  "decode_fields ve (put_when c (PutVarint32Varint32 [] kColumnFamily w) [] @ rest) =
     decode_fields (ve\<lparr>ve_column_family := if c then w else ve_column_family ve\<rparr>) rest"
  "decode_fields ve (put_when c (PutVarint32 [] kColumnFamilyDrop) [] @ rest) =
     decode_fields (ve\<lparr>ve_is_column_family_drop := c \<or> ve_is_column_family_drop ve\<rparr>) rest"
  "decode_fields ve (put_when c (PutVarint32 (PutVarint32 [] kInAtomicGroup) w) [] @ rest) =
     decode_fields (ve\<lparr>ve_is_in_atomic_group := c \<or> ve_is_in_atomic_group ve,
                      ve_remaining_entries := if c then w else ve_remaining_entries ve\<rparr>) rest"
  by (cases ve; simp add: put_when_def put_defs decode_fields_tag decode_tag_def read_field_def)+

lemma sint_level: "level_ok level \<Longrightarrow> sint (word_of_int level :: u32) = level"
  by (simp add: level_ok_def sint_sbintrunc' signed_take_bit_int_eq_self)

lemma GetLevel_Encode:
  "level_ok level \<Longrightarrow>
   GetLevel ve (EncodeVarint32 (word_of_int level) @ rest) =
     (Some level, ve\<lparr>ve_max_level := max (ve_max_level ve) level\<rparr>, rest)"
  by (cases ve) (simp add: GetLevel_def Let_def sint_level max_def)

definition deleted_bytes :: "(int \<times> u64) list \<Rightarrow> bytes" where
  "deleted_bytes ds =
     concat (map (\<lambda>d. PutVarint32Varint32Varint64 [] kDeletedFile (word_of_int (fst d)) (snd d)) ds)"

lemma put_deleted_files_eq: "put_deleted_files ve dst = dst @ deleted_bytes (ve_deleted_files ve)"
proof -
  have "fold (\<lambda>d dst. PutVarint32Varint32Varint64 dst kDeletedFile (word_of_int (fst d)) (snd d)) ds dst =
      dst @ deleted_bytes ds" for ds dst
    by (induction ds arbitrary: dst) (simp_all add: put_defs deleted_bytes_def)
  then show ?thesis by (simp add: put_deleted_files_def)
qed

lemma decode_deleted:
  assumes "\<forall>d \<in> set ds. level_ok (fst d)"
  shows "decode_fields ve (deleted_bytes ds @ rest) =
    decode_fields (ve\<lparr>ve_max_level := highest_level (map fst ds) (ve_max_level ve),
                     ve_deleted_files := fold set_insert ds (ve_deleted_files ve)\<rparr>) rest"
  using assms
proof (induction ds arbitrary: ve)
  case Nil
  then show ?case by (cases ve) (simp add: deleted_bytes_def highest_level_def)
next
  case (Cons d ds)
  have "decode_fields ve (deleted_bytes (d # ds) @ rest) =
      decode_fields ve (EncodeVarint32 kDeletedFile @ EncodeVarint32 (word_of_int (fst d)) @
        EncodeVarint64 (snd d) @ deleted_bytes ds @ rest)"
    by (simp add: deleted_bytes_def put_defs)
  also have "\<dots> = decode_fields
      (ve\<lparr>ve_max_level := max (ve_max_level ve) (fst d),
         ve_deleted_files := set_insert d (ve_deleted_files ve)\<rparr>) (deleted_bytes ds @ rest)"
    using Cons.prems by (simp add: decode_fields_tag decode_tag_def GetLevel_Encode read_field_def)
  also have "\<dots> = decode_fields
      (ve\<lparr>ve_max_level := highest_level (map fst (d # ds)) (ve_max_level ve),
         ve_deleted_files := fold set_insert (d # ds) (ve_deleted_files ve)\<rparr>) rest"
    using Cons by (simp add: highest_level_def max.commute)
  finally show ?case .
qed

section \<open>The new files\<close>

definition custom_bytes :: "VersionEdit \<Rightarrow> FileMetaData \<Rightarrow> bool \<Rightarrow> bytes" where
  "custom_bytes ve f w =
     put_when (GetPathId (fm_fd f) \<noteq> 0)
       (EncodeVarint32 kPathId @ PutLengthPrefixedSlice [] [ucast (GetPathId (fm_fd f))]) [] @
     put_when (marked_for_compaction f) (EncodeVarint32 kNeedCompaction @ PutLengthPrefixedSlice [] [1]) [] @
     put_when (ve_has_min_log_number_to_keep ve \<and> \<not> w)
       (EncodeVarint32 kMinLogNumberToKeepHack @
        PutLengthPrefixedSlice [] (EncodeFixed64 (ve_min_log_number_to_keep ve))) [] @
     EncodeVarint32 kTerminate"

lemma put_custom_fields_eq:
  "put_custom_fields ve f w dst = (dst @ custom_bytes ve f w, w \<or> ve_has_min_log_number_to_keep ve)"
  by (auto simp: put_custom_fields_def custom_bytes_def Let_def put_when_def PutVarint32_def
      PutFixed64_def PutLengthPrefixedSlice_def)

lemma custom_fields_tag:
  assumes "tag \<noteq> kTerminate" "length field < 2 ^ 32"
    and "custom_field tag field st p m = (None, st', p', m')"
  shows "custom_fields st p m (EncodeVarint32 tag @ PutLengthPrefixedSlice [] field @ rest) =
    custom_fields st' p' m' rest"
  using assms by (subst custom_fields.simps) simp

lemma path_of_byte: "scast (ucast (GetPathId fd) :: byte) = GetPathId fd" "\<not> 3 < GetPathId fd"
proof -
  have "unat (GetPathId fd) \<in> {0, 1, 2, 3}" using unat_GetPathId [of fd] by auto
  then have "GetPathId fd \<in> {0, 1, 2, 3}"
    by (simp add: word_unat_eq_iff)
  then show "scast (ucast (GetPathId fd) :: byte) = GetPathId fd" "\<not> 3 < GetPathId fd" by auto
qed

lemma custom_fields_Encode:
  "custom_fields st 0 False (custom_bytes ve f w @ rest) =
     (None,
      st\<lparr>ve_min_log_number_to_keep :=
           (if ve_has_min_log_number_to_keep ve \<and> \<not> w then ve_min_log_number_to_keep ve
            else ve_min_log_number_to_keep st),
         ve_has_min_log_number_to_keep :=
           (ve_has_min_log_number_to_keep ve \<and> \<not> w) \<or> ve_has_min_log_number_to_keep st\<rparr>,
      GetPathId (fm_fd f), marked_for_compaction f, rest)"
proof -
  have path: "custom_fields st 0 False (put_when (GetPathId (fm_fd f) \<noteq> 0)
      (EncodeVarint32 kPathId @ PutLengthPrefixedSlice [] [ucast (GetPathId (fm_fd f))]) [] @ r) =
      custom_fields st (GetPathId (fm_fd f)) False r" for r
    by (auto simp: put_when_def custom_field_def path_of_byte Let_def intro!: custom_fields_tag)
  have mark: "custom_fields st p False (put_when (marked_for_compaction f)
      (EncodeVarint32 kNeedCompaction @ PutLengthPrefixedSlice [] [1]) [] @ r) =
      custom_fields st p (marked_for_compaction f) r" for p r
    by (auto simp: put_when_def custom_field_def intro!: custom_fields_tag)
  have min: "custom_fields st p m (put_when c
      (EncodeVarint32 kMinLogNumberToKeepHack @ PutLengthPrefixedSlice [] (EncodeFixed64 num)) [] @ r) =
      custom_fields (st\<lparr>ve_min_log_number_to_keep := if c then num else ve_min_log_number_to_keep st,
        ve_has_min_log_number_to_keep := c \<or> ve_has_min_log_number_to_keep st\<rparr>) p m r" for c num p m r
    by (cases st) (auto simp: put_when_def custom_field_def GetFixed64_def intro!: custom_fields_tag)
  have stop: "custom_fields st' p m (EncodeVarint32 kTerminate @ r) = (None, st', p, m, r)" for st' p m r
    by (subst custom_fields.simps) simp
  show ?thesis
    unfolding custom_bytes_def append_assoc path mark min stop by simp
qed

definition boundary_bytes :: "FileMetaData \<Rightarrow> bytes" where
  "boundary_bytes f =
     EncodeVarint64 (file_size (fm_fd f)) @ PutLengthPrefixedSlice [] (fm_smallest f) @
     PutLengthPrefixedSlice [] (fm_largest f) @ EncodeVarint64 (smallest_seqno (fm_fd f)) @
     EncodeVarint64 (largest_seqno (fm_fd f))"

definition customized :: "VersionEdit \<Rightarrow> FileMetaData \<Rightarrow> bool" where
  "customized ve f \<longleftrightarrow> marked_for_compaction f \<or> ve_has_min_log_number_to_keep ve"

definition file_bytes :: "VersionEdit \<Rightarrow> int \<times> FileMetaData \<Rightarrow> bool \<Rightarrow> bytes" where
  "file_bytes ve nf w =
     (let f = snd nf; path = GetPathId (fm_fd f)
      in EncodeVarint32 (if customized ve f then kNewFile4 else if path = 0 then kNewFile2 else kNewFile3) @
         EncodeVarint32 (word_of_int (fst nf)) @ EncodeVarint64 (GetNumber (fm_fd f)) @
         (if path \<noteq> 0 \<and> \<not> customized ve f then EncodeVarint32 path else []) @ boundary_bytes f @
         (if customized ve f then custom_bytes ve f w else []))"

lemma put_new_file_eq:
  "put_new_file ve level f w dst = (dst @ file_bytes ve (level, f) w, w \<or> ve_has_min_log_number_to_keep ve)"
  by (simp add: put_new_file_def Let_def put_defs file_bytes_def boundary_bytes_def customized_def
      put_custom_fields_eq PutLengthPrefixedSlice_def)

lemma GetInternalKey_Put: "boundary_ok k \<Longrightarrow> GetInternalKey (PutLengthPrefixedSlice [] k @ rest) = (Some k, rest)"
  by (simp add: GetInternalKey_def boundary_ok_def string_ok_def)

lemma get_file_fields_Encode:
  assumes "boundary_ok (fm_smallest f)" "boundary_ok (fm_largest f)"
  shows "get_file_fields (EncodeVarint64 number @ boundary_bytes f @ rest) =
    Some ((number, file_size (fm_fd f), fm_smallest f, fm_largest f, smallest_seqno (fm_fd f),
      largest_seqno (fm_fd f)), rest)"
  using assms by (simp add: get_file_fields_def boundary_bytes_def if_read_def GetInternalKey_Put)

text \<open>What a record of a new file does to the edit that is being filled.\<close>

definition with_file :: "VersionEdit \<Rightarrow> int \<times> FileMetaData \<Rightarrow> bool \<Rightarrow> VersionEdit \<Rightarrow> VersionEdit" where
  "with_file ve nf w st =
     st\<lparr>ve_max_level := max (ve_max_level st) (fst nf),
        ve_new_files := ve_new_files st @ [apsnd persisted_file nf],
        ve_min_log_number_to_keep :=
          (if ve_has_min_log_number_to_keep ve \<and> \<not> w then ve_min_log_number_to_keep ve
           else ve_min_log_number_to_keep st),
        ve_has_min_log_number_to_keep :=
          (ve_has_min_log_number_to_keep ve \<and> \<not> w) \<or> ve_has_min_log_number_to_keep st\<rparr>"

definition new_file_ok :: "int \<times> FileMetaData \<Rightarrow> bool" where
  "new_file_ok nf \<longleftrightarrow>
     level_ok (fst nf) \<and> boundary_ok (fm_smallest (snd nf)) \<and> boundary_ok (fm_largest (snd nf))"

lemma GetPathId_0: "GetPathId fd = 0 \<Longrightarrow>
    FileDescriptor_new (GetNumber fd) 0 (file_size fd) (smallest_seqno fd) (largest_seqno fd) = fd"
  by (metis FileDescriptor_repack)

lemma decode_plain_file:
  assumes "new_file_ok nf" "\<not> customized ve (snd nf)"
  shows "decode_fields st (file_bytes ve nf w @ rest) = decode_fields (with_file ve nf w st) rest"
proof -
  obtain level f where nf: "nf = (level, f)" by (cases nf)
  note ok = assms [unfolded nf new_file_ok_def customized_def, simplified]
  have three: "get_new_file3 (EncodeVarint64 (GetNumber (fm_fd f)) @ EncodeVarint32 (GetPathId (fm_fd f)) @
      boundary_bytes f @ rest) = Some (persisted_file f, rest)"
    using ok by (simp add: get_new_file3_def boundary_bytes_def if_read_def GetInternalKey_Put
        persisted_file_def FileMetaData_new_def)
  have two: "GetPathId (fm_fd f) = 0 \<Longrightarrow> get_new_file2 (EncodeVarint64 (GetNumber (fm_fd f)) @
      boundary_bytes f @ rest) = Some (persisted_file f, rest)"
    using ok by (simp add: get_new_file2_def get_file_fields_Encode GetPathId_0
        persisted_file_def FileMetaData_new_def)
  show ?thesis
    using ok two three
    by (cases st) (simp add: nf file_bytes_def Let_def customized_def decode_fields_tag decode_tag_def
        add_new_file_def GetLevel_Encode with_file_def)
qed

lemma decode_customized_file:
  assumes "new_file_ok nf" "customized ve (snd nf)"
  shows "decode_fields st (file_bytes ve nf w @ rest) = decode_fields (with_file ve nf w st) rest"
proof -
  obtain level f where nf: "nf = (level, f)" by (cases nf)
  note ok = assms [unfolded nf new_file_ok_def, simplified]
  have "DecodeNewFile4From st (EncodeVarint32 (word_of_int level) @ EncodeVarint64 (GetNumber (fm_fd f)) @
      boundary_bytes f @ custom_bytes ve f w @ rest) = (None, with_file ve nf w st, rest)"
    using ok by (simp add: DecodeNewFile4From_def GetLevel_Encode get_file_fields_Encode
        custom_fields_Encode with_file_def nf persisted_file_def FileMetaData_new_def)
  then show ?thesis
    using ok by (simp add: nf file_bytes_def Let_def decode_fields_tag decode_tag_def)
qed

lemmas decode_file = decode_plain_file decode_customized_file

fun files_bytes :: "VersionEdit \<Rightarrow> (int \<times> FileMetaData) list \<Rightarrow> bool \<Rightarrow> bytes" where
  "files_bytes ve [] w = []"
| "files_bytes ve (nf # nfs) w =
     file_bytes ve nf w @ files_bytes ve nfs (w \<or> ve_has_min_log_number_to_keep ve)"

lemma put_new_files_eq:
  "\<forall>nf \<in> set nfs. new_file_ok nf \<Longrightarrow> put_new_files ve nfs w dst = (True, dst @ files_bytes ve nfs w)"
  by (induction nfs arbitrary: w dst) (auto simp: new_file_ok_def boundary_ok_def put_new_file_eq)

lemma decode_files:
  assumes "\<forall>nf \<in> set nfs. new_file_ok nf"
  shows "decode_fields st (files_bytes ve nfs w @ rest) =
    decode_fields
      (st\<lparr>ve_max_level := highest_level (map fst nfs) (ve_max_level st),
          ve_new_files := ve_new_files st @ map (apsnd persisted_file) nfs,
          ve_min_log_number_to_keep :=
            (if ve_has_min_log_number_to_keep ve \<and> \<not> w \<and> nfs \<noteq> [] then ve_min_log_number_to_keep ve
             else ve_min_log_number_to_keep st),
          ve_has_min_log_number_to_keep :=
            (ve_has_min_log_number_to_keep ve \<and> \<not> w \<and> nfs \<noteq> []) \<or> ve_has_min_log_number_to_keep st\<rparr>) rest"
  using assms
proof (induction nfs arbitrary: w st)
  case Nil
  then show ?case by (cases st) (simp add: highest_level_def)
next
  case (Cons nf nfs)
  let ?w = "w \<or> ve_has_min_log_number_to_keep ve"
  have "decode_fields st (files_bytes ve (nf # nfs) w @ rest) =
      decode_fields (with_file ve nf w st) (files_bytes ve nfs ?w @ rest)"
    using Cons.prems decode_file [of nf ve st w "files_bytes ve nfs ?w @ rest"] by fastforce
  also have "\<dots> = decode_fields
      (st\<lparr>ve_max_level := highest_level (map fst (nf # nfs)) (ve_max_level st),
          ve_new_files := ve_new_files st @ map (apsnd persisted_file) (nf # nfs),
          ve_min_log_number_to_keep :=
            (if ve_has_min_log_number_to_keep ve \<and> \<not> w then ve_min_log_number_to_keep ve
             else ve_min_log_number_to_keep st),
          ve_has_min_log_number_to_keep :=
            (ve_has_min_log_number_to_keep ve \<and> \<not> w) \<or> ve_has_min_log_number_to_keep st\<rparr>) rest"
    using Cons.IH [of "with_file ve nf w st" ?w] Cons.prems
    by (cases "ve_has_min_log_number_to_keep ve"; cases w)
      (simp_all add: with_file_def highest_level_def max.commute)
  finally show ?case by simp
qed

section \<open>The whole record\<close>

lemma put_counters_eq: "put_counters ve dst = dst @ put_counters ve []"
  by (simp add: put_counters_def Let_def put_when_def)

lemma put_families_eq: "put_families ve dst = dst @ put_families ve []"
  by (simp add: put_families_def Let_def put_when_def)

lemma decode_counters:
  assumes "string_ok (ve_db_id ve)" "string_ok (ve_comparator ve)" "defaults_ok ve"
  shows "decode_fields VersionEdit_new (put_counters ve [] @ rest) =
    decode_fields
      (VersionEdit_new
        \<lparr>ve_db_id := ve_db_id ve, ve_has_db_id := ve_has_db_id ve,
         ve_comparator := ve_comparator ve, ve_has_comparator := ve_has_comparator ve,
         ve_log_number := ve_log_number ve, ve_has_log_number := ve_has_log_number ve,
         ve_prev_log_number := ve_prev_log_number ve, ve_has_prev_log_number := ve_has_prev_log_number ve,
         ve_next_file_number := ve_next_file_number ve,
         ve_has_next_file_number := ve_has_next_file_number ve,
         ve_last_sequence := ve_last_sequence ve, ve_has_last_sequence := ve_has_last_sequence ve,
         ve_max_column_family := ve_max_column_family ve,
         ve_has_max_column_family := ve_has_max_column_family ve\<rparr>) rest"
proof -
  have parts: "put_counters ve [] @ rest =
      put_when (ve_has_db_id ve) (PutLengthPrefixedSlice (PutVarint32 [] kDbId) (ve_db_id ve)) [] @
      put_when (ve_has_comparator ve) (PutLengthPrefixedSlice (PutVarint32 [] kComparator) (ve_comparator ve)) [] @
      put_when (ve_has_log_number ve) (PutVarint32Varint64 [] kLogNumber (ve_log_number ve)) [] @
      put_when (ve_has_prev_log_number ve) (PutVarint32Varint64 [] kPrevLogNumber (ve_prev_log_number ve)) [] @
      put_when (ve_has_next_file_number ve) (PutVarint32Varint64 [] kNextFileNumber (ve_next_file_number ve)) [] @
      put_when (ve_has_last_sequence ve) (PutVarint32Varint64 [] kLastSequence (ve_last_sequence ve)) [] @
      put_when (ve_has_max_column_family ve)
        (PutVarint32Varint32 [] kMaxColumnFamily (ve_max_column_family ve)) [] @ rest"
    by (simp add: put_counters_def Let_def put_when_def)
  show ?thesis
    unfolding parts decode_strings [OF assms(1)] decode_strings [OF assms(2)] decode_numbers
    using assms(3) by (simp add: VersionEdit_new_def defaults_ok_def)
qed

lemma decode_families:
  assumes "string_ok (ve_column_family_name ve)"
  shows "decode_fields st (put_families ve [] @ rest) =
    decode_fields
      (st\<lparr>ve_column_family := if ve_column_family ve \<noteq> 0 then ve_column_family ve else ve_column_family st,
          ve_is_column_family_add := ve_is_column_family_add ve \<or> ve_is_column_family_add st,
          ve_column_family_name :=
            if ve_is_column_family_add ve then ve_column_family_name ve else ve_column_family_name st,
          ve_is_column_family_drop := ve_is_column_family_drop ve \<or> ve_is_column_family_drop st,
          ve_is_in_atomic_group := ve_is_in_atomic_group ve \<or> ve_is_in_atomic_group st,
          ve_remaining_entries :=
            if ve_is_in_atomic_group ve then ve_remaining_entries ve else ve_remaining_entries st\<rparr>) rest"
proof -
  have parts: "put_families ve [] @ rest =
      put_when (ve_column_family ve \<noteq> 0) (PutVarint32Varint32 [] kColumnFamily (ve_column_family ve)) [] @
      put_when (ve_is_column_family_add ve)
        (PutLengthPrefixedSlice (PutVarint32 [] kColumnFamilyAdd) (ve_column_family_name ve)) [] @
      put_when (ve_is_column_family_drop ve) (PutVarint32 [] kColumnFamilyDrop) [] @
      put_when (ve_is_in_atomic_group ve)
        (PutVarint32 (PutVarint32 [] kInAtomicGroup) (ve_remaining_entries ve)) [] @ rest"
    by (simp add: put_families_def Let_def put_when_def)
  show ?thesis
    unfolding parts decode_strings [OF assms] decode_numbers by simp
qed

lemma EncodeTo_edit_ok:
  assumes "edit_ok ve"
  shows "ve_EncodeTo ve dst =
    (True, dst @ put_counters ve [] @ deleted_bytes (ve_deleted_files ve) @
       files_bytes ve (ve_new_files ve) False @ put_families ve [])"
proof -
  have "\<forall>nf \<in> set (ve_new_files ve). new_file_ok nf"
    using assms by (auto simp: edit_ok_def contents_ok_def new_file_ok_def)
  then show ?thesis
    by (simp add: ve_EncodeTo_def Let_def put_counters_eq [of ve dst] put_deleted_files_eq put_new_files_eq
        put_families_eq [of ve "_ @ _"])
qed

lemma decode_edit_ok:
  assumes "edit_ok ve"
  shows "decode_fields VersionEdit_new (snd (ve_EncodeTo ve [])) = (None, persisted ve, [])"
proof -
  have ok: "string_ok (ve_db_id ve)" "string_ok (ve_comparator ve)" "string_ok (ve_column_family_name ve)"
    "defaults_ok ve" "sorted_wrt pair_less (ve_deleted_files ve)"
    and del: "\<forall>d \<in> set (ve_deleted_files ve). level_ok (fst d)"
    and new: "\<forall>nf \<in> set (ve_new_files ve). new_file_ok nf"
    using assms by (auto simp: edit_ok_def contents_ok_def new_file_ok_def)
  have f: "fold set_insert (ve_deleted_files ve) [] = ve_deleted_files ve"
    using fold_set_insert [of "[]" "ve_deleted_files ve"] ok(5) by simp
  have "decode_fields VersionEdit_new (put_counters ve [] @ deleted_bytes (ve_deleted_files ve) @
      files_bytes ve (ve_new_files ve) False @ put_families ve [] @ []) = (None, persisted ve, [])"
    unfolding decode_counters [OF ok(1,2,4)] decode_deleted [OF del] decode_files [OF new]
      decode_families [OF ok(3)] decode_fields_Nil
    using ok(4) f by (cases ve) (simp add: persisted_def VersionEdit_new_def defaults_ok_def)
  then show ?thesis by (simp add: EncodeTo_edit_ok [OF assms])
qed

text \<open>
  C7. Round trip of the manifest: an edit that any sequence of the operations of the class
  builds, with boundaries that are internal keys, strings whose length fits in 32 bits and
  levels that fit in an int, is written without error, and whatever edit its record is read
  into then holds what the record keeps: everything but the statistics of the files, and the
  oldest log to keep only when the edit has a new file.
\<close>

theorem version_edit_roundtrip:
  assumes "\<forall>op \<in> set ops. op_ok op"
  shows "\<exists>bytes. ve_EncodeTo (build_edit ops) dst = (True, dst @ bytes) \<and>
    ve_DecodeFrom ve bytes = (OK, persisted (build_edit ops))"
proof -
  note ok = edit_ok_build [OF assms]
  show ?thesis
    using EncodeTo_edit_ok [OF ok] decode_edit_ok [OF ok]
    by (auto simp: ve_DecodeFrom_def ve_Clear_def)
qed

text \<open>An edit of a file that is marked for compaction, with a log to keep and a deletion.\<close>

lemma version_edit_roundtrip_witness:
  "\<exists>bytes. ve_EncodeTo (build_edit
       [ESetComparatorName [102], ESetMinLogNumberToKeep 7, EDeleteFile 4 700,
        EAddFile 3 300 2 100 (InternalKey [97] 5 kTypeValue) (InternalKey [122] 6 kTypeDeletion) 5 6 True]) [9] =
       (True, [9] @ bytes) \<and>
     ve_DecodeFrom (SetLastSequence VersionEdit_new 8) bytes =
       (OK, persisted (build_edit
          [ESetComparatorName [102], ESetMinLogNumberToKeep 7, EDeleteFile 4 700,
           EAddFile 3 300 2 100 (InternalKey [97] 5 kTypeValue) (InternalKey [122] 6 kTypeDeletion) 5 6 True]))"
proof (rule version_edit_roundtrip)
  have "boundary_ok (InternalKey [97] 5 kTypeValue)" "boundary_ok (InternalKey [122] 6 kTypeDeletion)"
    by (simp_all add: boundary_ok_def string_ok_def InternalKey_Valid_def kMaxSequenceNumber_def
        IsExtendedValueType_def IsValueType_def)
  then show "\<forall>op \<in> set [ESetComparatorName [102], ESetMinLogNumberToKeep 7, EDeleteFile 4 700,
      EAddFile 3 300 2 100 (InternalKey [97] 5 kTypeValue) (InternalKey [122] 6 kTypeDeletion) 5 6 True].
      op_ok op"
    by (simp add: string_ok_def level_ok_def)
qed

end
