(* ===== verification/Spec2Isabelle.thy ===== *)
theory Spec2Isabelle
  imports IterKey BindingSpec RecoverySpec BlockDamage EditRoundtrip
begin

text \<open>
  A verification development for rocksdb-ts, a Node.js addon over RocksDB 6.4.

  \<^bold>\<open>The program.\<close> The repository's own code is the addon, src/binding.cc: some hundred
  functions that Node.js calls with JavaScript values and that call RocksDB. RocksDB itself
  is in the tree, under src/deps/rocksdb/rocksdb, and is the part that keeps the data; paths
  below without a leading src/ are relative to it. A write of the addon becomes a write batch
  (db/write_batch.cc), which the engine appends to its write-ahead log (db/log_writer.cc, over
  file/writable_file_writer.cc) and applies to a memtable, whose entries are kept in order by
  a skip list (memtable/inlineskiplist.h). After a crash the log is read back (db/log_reader.cc).
  Everything is written in the codes of util/coding.h, with the internal keys of
  db/dbformat.h, in an order given by a comparator.

  \<^bold>\<open>The theories,\<close> in the order in which they build on one another:

  \<^item> \<open>Prelude\<close>: bytes, machine integers, little-endian bytes, writing into buffers.
  \<^item> \<open>Slice\<close>, \<open>Status\<close>: include/rocksdb/slice.h, util/slice.cc, include/rocksdb/status.h,
    util/status.cc. Byte strings and their order, hexadecimal texts, prefix transforms; status
    values and their texts.
  \<^item> \<open>Coding\<close>: util/coding.h, util/coding.cc. Fixed and variable length integers and
    length-prefixed strings, with their round trips.
  \<^item> \<open>Comparator\<close>: include/rocksdb/comparator.h, util/comparator.cc. A comparator is a record of
    functions; the locales \<open>key_order\<close>, \<open>user_key_order\<close> and \<open>exact_key_order\<close> are its contract,
    interpreted on both built-in comparators.
  \<^item> \<open>DbFormat\<close>, \<open>IterKey\<close>: db/dbformat.h, db/dbformat.cc, db/lookup_key.h. Internal keys,
    their order (a \<open>key_order\<close> again, by a sublocale), lookup keys, and the key buffer of
    iterators.
  \<^item> \<open>WriteBatch\<close>, \<open>BatchIterate\<close>, \<open>BatchSpec\<close>, \<open>BatchMachine\<close>: include/rocksdb/write_batch.h,
    db/write_batch_internal.h, db/write_batch.cc. The string of a batch, the operations that
    append to it, save points, and the loop that hands its records to a handler. \<open>BatchSpec\<close>
    states what a string holds as a list of operations; the locale \<open>accepting_handler\<close> is the
    contract of a handler; \<open>BatchMachine\<close> runs arbitrary programs over a batch and relates them
    to programs over lists.
  \<^item> \<open>Options\<close>, \<open>DbWrite\<close>: the read and write options, and the single updates of a database,
    which build a batch and hand it to \<^verbatim>\<open>Write\<close>.
  \<^item> \<open>Napi\<close>, \<open>BindingOptions\<close>, \<open>BindingDb\<close>, \<open>BindingBatch\<close>, \<open>BindingWorld\<close>, \<open>NodeInstance\<close>,
    \<open>BindingSpec\<close>: src/binding.cc. Node's interface and the opened database are records of
    functions, with their documented behaviour as hypotheses; \<open>NodeInstance\<close> is a concrete
    Node on which the witnesses run. The heap of the addon is explicit: every object it
    allocates, pins or frees is an address, so that leaks and dangling pointers can be stated.
  \<^item> \<open>Crc32c\<close>: util/crc32c.h, util/crc32c.cc. The table-driven checksum, equal to the bitwise
    one, and what it detects.
  \<^item> \<open>LogFile\<close>, \<open>FileWriter\<close>: env/mock_env.cc, util/aligned_buffer.h,
    file/writable_file_writer.cc. Files as records of functions, the file in memory, buffered
    writing. The locales \<open>reliable_file\<close>, \<open>log_sink\<close> and \<open>log_source\<close> are the contracts.
  \<^item> \<open>LogWriter\<close>, \<open>LogReader\<close>, \<open>LogSpec\<close>, \<open>LogRecovery\<close>: db/log_format.h, db/log_writer.cc,
    db/log_reader.cc. The write-ahead log, from the records the database appends to the
    records a recovery reads after a crash at any byte.
  \<^item> \<open>MemRep\<close>, \<open>RandomGen\<close>, \<open>SkipList\<close>, \<open>SkipListInv\<close>, \<open>SkipListInsert\<close>, \<open>SkipListRep\<close>,
    \<open>SkipListSpec\<close>: include/rocksdb/memtablerep.h, util/random.h, memtable/inlineskiplist.h,
    memtable/skiplistrep.cc. The structure of a memtable as an interface, with the locales
    \<open>entry_order\<close>, \<open>memtable_rep\<close> and \<open>duplicate_rep\<close>, and the skip list that provides it.
  \<^item> \<open>Bloom\<close>: util/hash.h, util/hash.cc, util/dynamic_bloom.h, util/dynamic_bloom.cc. The hash of
    byte strings and the filter of a memtable, which never excludes what was added.
  \<^item> \<open>RangeTombstones\<close>: db/range_tombstone_fragmenter.h, db/range_tombstone_fragmenter.cc,
    util/vector_iterator.h. Overlapping range tombstones are cut into fragments that do not
    overlap; a lookup by bisection answers what a scan of all tombstones would.
  \<^item> \<open>Merging\<close>: include/rocksdb/merge_operator.h, db/merge_operator.cc, db/merge_context.h,
    utilities/merge_operators/uint64add.cc and TimedFullMerge of db/merge_helper.cc. An operator
    is a record of functions.
  \<^item> \<open>MemTable\<close>, \<open>MemTableGet\<close>, \<open>MemTableSpec\<close>, \<open>MemTableProps\<close>: db/memtable.h, db/memtable.cc,
    db/read_callback.h. The memtable over any \<open>memtable_rep\<close>: adding entries, iterators, lookups.
    \<open>MemTableSpec\<close> keeps a list of versions beside it and says what a lookup has to answer by
    reading that list; the locale \<open>memtable\<close> relates the two, and \<open>MemTableProps\<close> interprets it
    on the skip list. \<open>MemTableUpdate\<close> adds the updates in place.
  \<^item> \<open>PrepTracker\<close>: db/logs_with_prep_tracker.h, db/logs_with_prep_tracker.cc. Which logs hold
    prepared transactions that are not committed, against a multiset of open sections.
  \<^item> \<open>MemTableInserter\<close>, \<open>InserterSpec\<close>, \<open>InserterProps\<close>, \<open>InserterRecovery\<close>: the handler of
    db/write_batch.cc that applies batches to the memtables of the column families, with
    db/column_family.cc, util/duplicate_detector.h and the recovered transactions of
    db/db_impl/db_impl.h. The locale \<open>simulated_handler\<close> is the contract of a handler whose states
    stand for states of a specification, \<open>memtable_family\<close> what the inserter asks of a memtable;
    \<open>inserting\<close> proves that the inserter adds the updates of a batch, and is interpreted on
    column families over the skip list; \<open>preparing_inserter\<close> does the same for prepared sections.
  \<^item> \<open>WalReplay\<close>, \<open>RecoverySpec\<close>: \<^verbatim>\<open>DBImpl::RecoverLogFiles\<close> of db/db_impl/db_impl_open.cc, where the log
    reader, write batches, the inserter and memtables meet: what a database that is opened after a
    crash answers. The files, the filter of the user and the manifest are parameters.
  \<^item> \<open>VersionEdit\<close>, \<open>EditRoundtrip\<close>: db/version_edit.h, db/version_edit.cc. The records of the
    manifest, which say what files join and leave the levels: building, writing and reading them.
  \<^item> \<open>TableFormat\<close>: table/format.h, table/format.cc, table/block_based/data_block_footer.cc. The
    handles, index values and footers of table files.
  \<^item> \<open>BlockBuilder\<close>, \<open>Block\<close>, \<open>BlockSpec\<close>, \<open>BlockCursor\<close>, \<open>BlockRefinement\<close>, \<open>BlockDamage\<close>:
    table/block_based/block_builder.cc, data_block_hash_index.cc and block.cc. Building a data block
    with its restart points and hash index, and the iterator over it. \<open>BlockSpec\<close> says which list of
    entries a block is the text of, \<open>BlockCursor\<close> that every movement of the iterator is one of a
    cursor over that list, and \<open>BlockRefinement\<close> that the builder writes such a text; \<open>BlockDamage\<close> has two
    ways in which a block is read differently from how it was written.

  \<^bold>\<open>How the code is modelled.\<close> A C++ class is a record, or the string it wraps; a method is a
  function from the object to the new object, in the argument order of the code. An
  enumeration is a datatype, except where the code casts bytes to it. Integers are words of
  their width; sizes of strings in memory are natural numbers, and a cast of a size to 32
  bits is written out. A fallible function returns an option or a status as the code does.
  A loop whose end depends on the data is a recursive function with a termination proof; a
  loop that may run for ever (the log reader, the searches of a skip list) is a partial
  function whose value \<open>None\<close> means that it does not return, and that it does return is
  proved as such. No definition has fuel, except the walks along the lowest level of a skip
  list that describe its contents, which are bounded by the number of its nodes.

  Code that is not in the tree, or that is not modelled, is a parameter: Node's interface, the
  database behind \<^verbatim>\<open>DB::Open\<close>, merge operators of the user, the file below the mock environment. What is
  assumed of it is a hypothesis of the theorem, and each such theorem has a witness.

  \<^bold>\<open>What is shown.\<close> Round trips of the codes; the contracts of the orders; a write batch is the
  list of its operations, through any program of updates, save points and rollbacks, and
  iteration hands exactly these to the handler and compares their number with the header; every
  reachable state of the addon keeps its heap well formed, each call writes what its arguments say,
  a sequence of calls on a batch object is a program over its list, the promise of an asynchronous
  write is settled exactly once; the key buffer of the iterators never refers to freed memory; a log
  cut at any byte gives back, in every mode but absolute consistency, the records written before
  the cut and nothing else; a changed byte of a record is reported and neither the record nor what
  follows it in its block is returned; the skip list is a sorted list without equal keys; a memtable answers every lookup, at every sequence number, as the
  list of the updates added to it says, with merges applied and range deletions obeyed; a group of
  writers applied to new memtables is the numbered list of its updates, in every column family, and
  recovery applies a prepared section at its commit; a database opened for reading after a crash
  answers every lookup from exactly the batches that were wholly in its logs; a block of a table is read back, by any movements of
  its iterator, as the list it was built from; a record of the manifest is read back as the edit it was
  written from, up to what the record does not hold. The statements about lookups are for data without blob indexes,
  range deletions that do not end before they begin, and merge operators that never ask for an early
  merge; those about the inserter and recovery for families new over the skip list without in-place updates or
  a limit of successive merges; those about flags and the serialized string of a batch for batches without
  the begin markers of \<^verbatim>\<open>WritePrepared\<close> and \<^verbatim>\<open>WriteUnprepared\<close>. Where it was
  possible a theorem shows what goes wrong without the condition. Where the code does not do what it means to, a theorem states what
  it does instead: a timestamp that outlives its buffer, memory that is not released on
  errors, a recovery mode that never returns, a random generator that stays on one value,
  prepared updates that a recovery without two-phase commit applies, a key read with a global
  sequence number that was never written, an entry that passes a check of its lengths by overflow.

  \<^bold>\<open>Not modelled.\<close> Group commit and the write queue, of the versions all but
  the records of the manifest, of the table files all but footers and data blocks, compaction
  and flush, caches, filters, environments and everything under utilities, java, tools and
  third-party. They are background work, system calls or layers the addon does not
  reach by itself, or have not been reached yet. Statistics, tracing, logging of messages and
  the prefetching of memory have no effect on the results and are left out of the functions that
  are modelled. Concurrency is modelled where it is stated: elsewhere one thread runs.
\<close>

end
